(* ===== verification/Prelude.thy ===== *)
theory Prelude
  imports Complex_Main "HOL-Library.Word" "HOL-Library.Sublist" "HOL-Library.AList"
    "HOL-Library.List_Lexorder" "HOL-Library.Char_ord"
begin

text \<open>
  Shared groundwork of the development.

  \<^item> Results of code that may throw: \<open>string + 'a\<close>, where \<open>Inl msg\<close> is a thrown
    error with its message and \<open>Inr x\<close> a normal result, sequenced by \<open>sbind\<close>.
  \<^item> Effectful code: an action \<open>('w, 'a) act\<close> maps a world to a result and the next world.
    A thrown error keeps the effects that happened before it, as JavaScript does; a database
    transaction that rolls back says so itself. \<open>wp\<close> is the weakest precondition of an
    action, with one postcondition for a normal result and one for a thrown error; its rules
    are collected in \<open>wp_rules\<close>.
  \<^item> Generic facts on lists, association lists and positional number systems.
\<close>

named_theorems wp_rules "weakest precondition rules for actions"
named_theorems keeps_intros "rules for what an action keeps"

section \<open>Results\<close>

definition sbind :: "'e + 'a \<Rightarrow> ('a \<Rightarrow> 'e + 'b) \<Rightarrow> 'e + 'b" where
  "sbind r f = (case r of Inl e \<Rightarrow> Inl e | Inr x \<Rightarrow> f x)"

lemma sbind_simps [simp]: "sbind (Inl e) f = Inl e" "sbind (Inr x) f = f x"
  by (simp_all add: sbind_def)

lemma sbind_eq_Inr: "sbind r f = Inr y \<longleftrightarrow> (\<exists>x. r = Inr x \<and> f x = Inr y)"
  by (cases r) simp_all

lemma sbind_eq_Inl: "sbind r f = Inl e \<longleftrightarrow> r = Inl e \<or> (\<exists>x. r = Inr x \<and> f x = Inl e)"
  by (cases r) simp_all

text \<open>\<open>smap\<close> runs a throwing function over a list, left to right, and stops at the first error.\<close>

fun smap :: "('a \<Rightarrow> 'e + 'b) \<Rightarrow> 'a list \<Rightarrow> 'e + 'b list" where
  "smap f [] = Inr []"
| "smap f (x # xs) = sbind (f x) (\<lambda>y. sbind (smap f xs) (\<lambda>ys. Inr (y # ys)))"

lemma smap_length: "smap f xs = Inr ys \<Longrightarrow> length ys = length xs"
  by (induction xs arbitrary: ys) (auto simp: sbind_eq_Inr)

lemma smap_nth: "smap f xs = Inr ys \<Longrightarrow> i < length xs \<Longrightarrow> f (xs ! i) = Inr (ys ! i)"
  by (induction xs arbitrary: ys i) (auto simp: sbind_eq_Inr nth_Cons split: nat.splits)

section \<open>Actions\<close>

type_synonym ('w, 'a) act = "'w \<Rightarrow> (string + 'a) \<times> 'w"

definition aret :: "'a \<Rightarrow> ('w, 'a) act" where
  "aret x = (\<lambda>w. (Inr x, w))"

definition athrow :: "string \<Rightarrow> ('w, 'a) act" where
  "athrow e = (\<lambda>w. (Inl e, w))"

definition abind :: "('w, 'a) act \<Rightarrow> ('a \<Rightarrow> ('w, 'b) act) \<Rightarrow> ('w, 'b) act" where
  "abind m f = (\<lambda>w. case m w of (Inl e, w') \<Rightarrow> (Inl e, w') | (Inr x, w') \<Rightarrow> f x w')"

definition acatch :: "('w, 'a) act \<Rightarrow> (string \<Rightarrow> ('w, 'a) act) \<Rightarrow> ('w, 'a) act" where
  "acatch m h = (\<lambda>w. case m w of (Inl e, w') \<Rightarrow> h e w' | (Inr x, w') \<Rightarrow> (Inr x, w'))"

text \<open>\<open>afinally m f\<close>: the clean-up \<open>f\<close> runs after \<open>m\<close> whether it returned or threw, and the
  result of \<open>m\<close> is kept unless the clean-up itself throws.\<close>

definition afinally :: "('w, 'a) act \<Rightarrow> ('w, unit) act \<Rightarrow> ('w, 'a) act" where
  "afinally m f = (\<lambda>w. case m w of (r, w') \<Rightarrow>
     (case f w' of (Inl e, w'') \<Rightarrow> (Inl e, w'') | (Inr _, w'') \<Rightarrow> (r, w'')))"

definition alift :: "string + 'a \<Rightarrow> ('w, 'a) act" where
  "alift r = (\<lambda>w. (r, w))"

text \<open>\<open>atry m\<close>: the outcome of \<open>m\<close> as a value, for a \<open>catch\<close> block that inspects the error.\<close>

definition atry :: "('w, 'a) act \<Rightarrow> ('w, string + 'a) act" where
  "atry m = (\<lambda>w. case m w of (r, w') \<Rightarrow> (Inr r, w'))"

definition wp :: "('w, 'a) act \<Rightarrow> ('a \<Rightarrow> 'w \<Rightarrow> bool) \<Rightarrow> (string \<Rightarrow> 'w \<Rightarrow> bool) \<Rightarrow> 'w \<Rightarrow> bool" where
  "wp m Q E w = (case m w of (Inl e, w') \<Rightarrow> E e w' | (Inr x, w') \<Rightarrow> Q x w')"

lemma wp_aret [wp_rules]: "wp (aret x) Q E = Q x"
  by (simp add: fun_eq_iff wp_def aret_def)

lemma wp_athrow [wp_rules]: "wp (athrow e) Q E = E e"
  by (simp add: fun_eq_iff wp_def athrow_def)

lemma wp_alift [wp_rules]: "wp (alift r) Q E = (case r of Inl e \<Rightarrow> E e | Inr x \<Rightarrow> Q x)"
  by (simp add: fun_eq_iff wp_def alift_def split: sum.split)

lemma wp_abind [wp_rules]: "wp (abind m f) Q E = wp m (\<lambda>x. wp (f x) Q E) E"
  by (simp add: fun_eq_iff wp_def abind_def split: prod.splits sum.splits)

lemma wp_acatch [wp_rules]: "wp (acatch m h) Q E = wp m Q (\<lambda>e. wp (h e) Q E)"
  by (simp add: fun_eq_iff wp_def acatch_def split: prod.splits sum.splits)

lemma wp_afinally [wp_rules]:
  "wp (afinally m f) Q E =
     wp m (\<lambda>x. wp f (\<lambda>_. Q x) E) (\<lambda>e. wp f (\<lambda>_. E e) E)"
  by (simp add: fun_eq_iff wp_def afinally_def split: prod.splits sum.splits)

lemma wp_atry [wp_rules]: "wp (atry m) Q E = wp m (\<lambda>x. Q (Inr x)) (\<lambda>e. Q (Inl e))"
  by (simp add: fun_eq_iff wp_def atry_def split: prod.splits sum.splits)

lemma abind_pure [simp]:
  "abind (aret x) f = f x" "abind (alift (Inr x)) f = f x" "abind (alift (Inl e)) f = athrow e"
  "abind (athrow e) f = athrow e"
  by (simp_all add: abind_def aret_def alift_def athrow_def)

lemma wp_mono:
  "wp m Q E w \<Longrightarrow> (\<And>x w'. Q x w' \<Longrightarrow> Q' x w') \<Longrightarrow> (\<And>e w'. E e w' \<Longrightarrow> E' e w') \<Longrightarrow> wp m Q' E' w"
  by (auto simp: wp_def split: prod.splits sum.splits)

lemma wp_conj: "wp m Q E w \<Longrightarrow> wp m Q' E' w \<Longrightarrow> wp m (\<lambda>x w. Q x w \<and> Q' x w) (\<lambda>e w. E e w \<and> E' e w) w"
  by (auto simp: wp_def split: prod.splits sum.splits)

lemma wp_result: "wp m Q E w \<Longrightarrow> m w = (Inr x, w') \<Longrightarrow> Q x w'"
  by (simp add: wp_def)

lemma wp_error: "wp m Q E w \<Longrightarrow> m w = (Inl e, w') \<Longrightarrow> E e w'"
  by (simp add: wp_def)

lemma wpI: "(\<And>x w'. m w = (Inr x, w') \<Longrightarrow> Q x w') \<Longrightarrow> (\<And>e w'. m w = (Inl e, w') \<Longrightarrow> E e w') \<Longrightarrow> wp m Q E w"
  by (auto simp: wp_def split: prod.splits sum.splits)

text \<open>\<open>keeps P m\<close>: the action leaves \<open>P\<close> true, whether it returns or throws.\<close>

definition keeps :: "('w \<Rightarrow> bool) \<Rightarrow> ('w, 'a) act \<Rightarrow> bool" where
  "keeps P m \<longleftrightarrow> (\<forall>w. P w \<longrightarrow> wp m (\<lambda>_. P) (\<lambda>_. P) w)"

lemma keepsI: "(\<And>w. P w \<Longrightarrow> wp m (\<lambda>_. P) (\<lambda>_. P) w) \<Longrightarrow> keeps P m"
  by (simp add: keeps_def)

lemma keepsD: "keeps P m \<Longrightarrow> P w \<Longrightarrow> wp m (\<lambda>_. P) (\<lambda>_. P) w"
  by (simp add: keeps_def)

lemma keeps_final: "keeps P m \<Longrightarrow> P w \<Longrightarrow> m w = (r, w') \<Longrightarrow> P w'"
  by (cases r) (auto simp: keeps_def wp_def split: prod.splits)

lemma keeps_basic [keeps_intros]:
  "keeps P (aret x)" "keeps P (athrow e)" "keeps P (alift r)"
  by (auto simp: keeps_def wp_rules split: sum.splits)

lemma keeps_abind [keeps_intros]: "keeps P m \<Longrightarrow> (\<And>x. keeps P (f x)) \<Longrightarrow> keeps P (abind m f)"
  unfolding keeps_def wp_abind by (blast intro: wp_mono)

lemma keeps_atry [keeps_intros]: "keeps P m \<Longrightarrow> keeps P (atry m)"
  unfolding keeps_def wp_atry by (blast intro: wp_mono)

lemma keeps_acatch [keeps_intros]: "keeps P m \<Longrightarrow> (\<And>e. keeps P (h e)) \<Longrightarrow> keeps P (acatch m h)"
  unfolding keeps_def wp_acatch by (blast intro: wp_mono)

lemma keeps_afinally: "keeps P m \<Longrightarrow> keeps P f \<Longrightarrow> keeps P (afinally m f)"
  unfolding keeps_def wp_afinally by (blast intro: wp_mono)

lemmas act_defs = aret_def athrow_def abind_def acatch_def afinally_def alift_def atry_def

section \<open>Lists\<close>

lemma filter_le_split:
  fixes f :: "'a \<Rightarrow> int"
  assumes "sorted (map f xs)" "a \<le> b"
  shows "filter (\<lambda>x. f x \<le> b) xs = filter (\<lambda>x. f x \<le> a) xs @ filter (\<lambda>x. a < f x \<and> f x \<le> b) xs"
  using assms(1)
proof (induction xs)
  case Nil
  then show ?case by simp
next
  case (Cons x xs)
  show ?case
  proof (cases "f x \<le> a")
    case True
    with Cons assms(2) show ?thesis by simp
  next
    case False
    then have "filter (\<lambda>x. f x \<le> a) xs = []"
      using Cons.prems by (force simp: filter_empty_conv)
    with False Cons show ?thesis by simp
  qed
qed

lemma sorted_map_filter: "sorted (map f xs) \<Longrightarrow> sorted (map f (filter P xs))"
  by (induction xs) auto

lemma map_of_filter_fst:
  "map_of (filter (\<lambda>kv. P (fst kv)) t) k = (if P k then map_of t k else None)"
  by (induction t) auto

section \<open>Positional number systems\<close>

text \<open>\<open>val_of b ds\<close> reads a big-endian digit list in base \<open>b\<close>; \<open>digits_of b n v\<close> writes \<open>v\<close> with
  exactly \<open>n\<close> digits. They are the reference against which the bit-twiddling codecs are proved.\<close>

definition val_of :: "nat \<Rightarrow> nat list \<Rightarrow> nat" where
  "val_of b ds = foldl (\<lambda>v d. v * b + d) 0 ds"

fun digits_of :: "nat \<Rightarrow> nat \<Rightarrow> nat \<Rightarrow> nat list" where
  "digits_of b 0 v = []"
| "digits_of b (Suc n) v = digits_of b n (v div b) @ [v mod b]"

lemma val_of_Nil [simp]: "val_of b [] = 0"
  by (simp add: val_of_def)

lemma val_of_snoc [simp]: "val_of b (ds @ [d]) = val_of b ds * b + d"
  by (simp add: val_of_def)

lemma length_digits_of [simp]: "length (digits_of b n v) = n"
  by (induction n arbitrary: v) auto

lemma digits_of_bound: "0 < b \<Longrightarrow> d \<in> set (digits_of b n v) \<Longrightarrow> d < b"
  by (induction n arbitrary: v) auto

lemma val_of_bound: "\<forall>d \<in> set ds. d < b \<Longrightarrow> val_of b ds < b ^ length ds"
proof (induction ds rule: rev_induct)
  case Nil
  then show ?case by simp
next
  case (snoc d ds)
  then have "val_of b ds + 1 \<le> b ^ length ds" "d < b" by auto
  then have "(val_of b ds + 1) * b \<le> b ^ length ds * b" by (intro mult_le_mono1)
  with \<open>d < b\<close> show ?case by (simp add: algebra_simps)
qed

lemma val_of_digits_of: "0 < b \<Longrightarrow> v < b ^ n \<Longrightarrow> val_of b (digits_of b n v) = v"
proof (induction n arbitrary: v)
  case 0
  then show ?case by simp
next
  case (Suc n)
  then have "v div b < b ^ n" by (simp add: less_mult_imp_div_less mult.commute)
  with Suc show ?case by simp
qed

lemma digits_of_val_of: "\<forall>d \<in> set ds. d < b \<Longrightarrow> digits_of b (length ds) (val_of b ds) = ds"
  by (induction ds rule: rev_induct) auto

lemma val_of_inject:
  assumes "\<forall>d \<in> set xs. d < b" "\<forall>d \<in> set ys. d < b" "length xs = length ys" "val_of b xs = val_of b ys"
  shows "xs = ys"
  using assms digits_of_val_of by metis

end
