(* ===== verification/Js_Runtime.thy ===== *)
theory Js_Runtime
  imports Prelude "HOL-Library.Log_Nat"
begin

text \<open>
  The part of the JavaScript runtime the program relies on.

  A JavaScript string is modelled as a \<open>string\<close>, one \<open>char\<close> per UTF-16 code unit; the code units
  the program inspects are all below 256. \<open>s.startsWith(p)\<close>, \<open>s.endsWith(p)\<close> and \<open>s.includes(p)\<close> are
  \<open>prefix p s\<close>, \<open>suffix p s\<close> and \<open>sublist p s\<close>; \<open>slice(a)\<close> and \<open>slice(0, b)\<close> are \<open>drop a\<close> and
  \<open>take b\<close>.

  A JavaScript number is NaN, an infinity or a finite value, which is a rational number. A value of
  type \<open>unknown\<close> is a \<open>native\<close>. \<open>Number(bigint)\<close> rounds to 53 significant bits as the language
  prescribes. \<open>btoa\<close> and \<open>atob\<close> are the base64 functions of the platform.
\<close>

section \<open>Strings\<close>

abbreviation startsWith :: "string \<Rightarrow> string \<Rightarrow> bool" where
  "startsWith s p \<equiv> prefix p s"

abbreviation endsWith :: "string \<Rightarrow> string \<Rightarrow> bool" where
  "endsWith s p \<equiv> suffix p s"

abbreviation has_substring :: "string \<Rightarrow> string \<Rightarrow> bool" where
  "has_substring s p \<equiv> sublist p s"

definition code_of :: "char \<Rightarrow> nat" where
  "code_of c = of_char c"

definition is_digit :: "char \<Rightarrow> bool" where
  "is_digit c \<longleftrightarrow> 48 \<le> code_of c \<and> code_of c \<le> 57"

definition is_hex_char :: "char \<Rightarrow> bool" where
  "is_hex_char c \<longleftrightarrow> is_digit c \<or> (97 \<le> code_of c \<and> code_of c \<le> 102) \<or> (65 \<le> code_of c \<and> code_of c \<le> 70)"

text \<open>\<open>toLowerCase\<close> on code units below 256: A to Z and the accented capitals 192 to 222, but 215.\<close>

definition lower_char :: "char \<Rightarrow> char" where
  "lower_char c =
     (if (65 \<le> code_of c \<and> code_of c \<le> 90) \<or> (192 \<le> code_of c \<and> code_of c \<le> 222 \<and> code_of c \<noteq> 215)
      then char_of (code_of c + 32) else c)"

definition toLowerCase :: "string \<Rightarrow> string" where
  "toLowerCase s = map lower_char s"

lemma length_toLowerCase [simp]: "length (toLowerCase s) = length s"
  by (simp add: toLowerCase_def)

text \<open>\<open>indexOf\<close> of a single character; \<open>None\<close> is the source's \<open>-1\<close>.\<close>

fun indexOf :: "string \<Rightarrow> char \<Rightarrow> nat option" where
  "indexOf [] c = None"
| "indexOf (x # xs) c = (if x = c then Some 0 else map_option Suc (indexOf xs c))"

lemma indexOf_bound: "indexOf s c = Some i \<Longrightarrow> i < length s \<and> s ! i = c"
  by (induction s arbitrary: i) (auto split: if_splits)

lemma indexOf_None: "indexOf s c = None \<longleftrightarrow> c \<notin> set s"
  by (induction s) auto

lemma indexOf_nth: "distinct s \<Longrightarrow> i < length s \<Longrightarrow> indexOf s (s ! i) = Some i"
proof (induction s arbitrary: i)
  case (Cons x xs)
  then show ?case by (cases i) (auto simp: nth_mem)
qed simp

subsection \<open>Decimal text\<close>

definition digit_char :: "nat \<Rightarrow> char" where
  "digit_char d = char_of (48 + d)"

fun show_nat :: "nat \<Rightarrow> string" where
  "show_nat n = (if n < 10 then [digit_char n] else show_nat (n div 10) @ [digit_char (n mod 10)])"

declare show_nat.simps [simp del]

definition show_int :: "int \<Rightarrow> string" where
  "show_int i = (if i < 0 then CHR ''-'' # show_nat (nat (- i)) else show_nat (nat i))"

lemma code_of_digit_char: "d < 10 \<Longrightarrow> code_of (digit_char d) = 48 + d"
  by (simp add: code_of_def digit_char_def)

lemma is_digit_digit_char: "d < 10 \<Longrightarrow> is_digit (digit_char d)"
  by (simp add: is_digit_def code_of_digit_char)

lemma show_nat_digits: "c \<in> set (show_nat n) \<Longrightarrow> is_digit c"
proof (induction n rule: show_nat.induct)
  case (1 n)
  then show ?case
    by (subst (asm) show_nat.simps) (auto simp: is_digit_digit_char split: if_splits)
qed

lemma show_nat_not_Nil [simp]: "show_nat n \<noteq> []"
  by (subst show_nat.simps) simp

text \<open>Reading decimal text back; used to show that printing loses nothing.\<close>

definition read_nat :: "string \<Rightarrow> nat" where
  "read_nat s = val_of 10 (map (\<lambda>c. code_of c - 48) s)"

lemma read_show_nat: "read_nat (show_nat n) = n"
proof (induction n rule: show_nat.induct)
  case (1 n)
  show ?case
  proof (cases "n < 10")
    case True
    then show ?thesis
      by (subst show_nat.simps) (simp add: read_nat_def val_of_def code_of_digit_char)
  next
    case False
    with 1 have IH: "read_nat (show_nat (n div 10)) = n div 10" by simp
    have "code_of (digit_char (n mod 10)) - 48 = n mod 10" by (simp add: code_of_digit_char)
    with False IH show ?thesis
      by (subst show_nat.simps) (simp add: read_nat_def)
  qed
qed

lemma show_nat_inject: "show_nat m = show_nat n \<longleftrightarrow> m = n"
  by (metis read_show_nat)

lemma show_int_inject: "show_int a = show_int b \<longleftrightarrow> a = b"
proof -
  have digit_first: "hd (show_nat n) \<noteq> CHR ''-''" for n
    using show_nat_digits [of "hd (show_nat n)" n] by (auto simp: is_digit_def code_of_def)
  have "show_nat m \<noteq> CHR ''-'' # s" for m s
    using digit_first [of m] by auto
  moreover have "CHR ''-'' # s \<noteq> show_nat m" for m s
    using digit_first [of m] by (metis list.sel(1))
  ultimately show ?thesis by (auto simp: show_int_def show_nat_inject)
qed

section \<open>Numbers\<close>

datatype jsnum = JNaN | JInf bool \<comment> \<open>\<open>JInf True\<close> is the positive infinity\<close> | JFin rat

definition max_safe :: int where
  "max_safe = 2 ^ 53 - 1"

definition isInteger :: "jsnum \<Rightarrow> bool" where
  "isInteger x = (case x of JFin r \<Rightarrow> of_int \<lfloor>r\<rfloor> = r | _ \<Rightarrow> False)"

definition isSafeInteger :: "jsnum \<Rightarrow> bool" where
  "isSafeInteger x = (case x of JFin r \<Rightarrow> of_int \<lfloor>r\<rfloor> = r \<and> \<bar>\<lfloor>r\<rfloor>\<bar> \<le> max_safe | _ \<Rightarrow> False)"

text \<open>The nearest double of an integer, ties to even: 53 significant bits, and an infinity from
  \<open>2^1024\<close> on.\<close>

definition round53 :: "nat \<Rightarrow> nat" where
  "round53 a =
     (if a < 2 ^ 53 then a
      else let e = nat (bitlen (int a)) - 53; q = a div 2 ^ e; r = a mod 2 ^ e; half = 2 ^ (e - 1)
           in (if half < r \<or> (r = half \<and> odd q) then q + 1 else q) * 2 ^ e)"

definition Number_of_bigint :: "int \<Rightarrow> jsnum" where
  "Number_of_bigint n =
     (let a = round53 (nat \<bar>n\<bar>)
      in if 2 ^ 1024 \<le> a then JInf (0 \<le> n) else JFin (of_int (sgn n * int a)))"

lemma round53_large:
  assumes "2 ^ 53 \<le> a"
  shows "2 ^ 53 \<le> round53 a"
proof -
  define b where "b = nat (bitlen (int a))"
  have "a \<noteq> 0" using assms by auto
  have bnd: "2 ^ nat (bitlen (int a) - 1) \<le> int a" "int a < 2 ^ nat (bitlen (int a))"
    using bitlen_bounds [of "int a"] \<open>a \<noteq> 0\<close> by auto
  have "nat (bitlen (int a) - 1) = b - 1" by (simp add: b_def nat_diff_distrib')
  with bnd have bnd': "int (2 ^ (b - 1)) \<le> int a" "int a < int (2 ^ b)" by (simp_all add: b_def)
  then have lo: "2 ^ (b - 1) \<le> a" and hi: "a < 2 ^ b"
    unfolding of_nat_le_iff of_nat_less_iff by auto
  have "(2::nat) ^ 53 < 2 ^ b" using assms hi by linarith
  then have b: "53 < b" by (simp only: power_strict_increasing_iff)
  have "b - 53 + 52 = b - 1" using b by simp
  then have "2 ^ (b - 53) * 2 ^ 52 = (2::nat) ^ (b - 1)"
    by (metis power_add)
  then have q: "2 ^ 52 \<le> a div 2 ^ (b - 53)"
    using lo by (simp add: less_eq_div_iff_mult_less_eq mult.commute)
  have e: "(2::nat) ^ 1 \<le> 2 ^ (b - 53)" using b by (intro power_increasing) auto
  have "(2::nat) ^ 53 = 2 ^ 52 * 2 ^ 1" by simp
  also have "\<dots> \<le> (a div 2 ^ (b - 53)) * 2 ^ (b - 53)" using q e by (rule mult_le_mono)
  finally have "2 ^ 53 \<le> (a div 2 ^ (b - 53)) * 2 ^ (b - 53)" .
  moreover have "(a div 2 ^ (b - 53)) * 2 ^ (b - 53) \<le> (a div 2 ^ (b - 53) + 1) * 2 ^ (b - 53)"
    by (rule mult_le_mono1) simp
  ultimately show ?thesis
    using assms unfolding round53_def b_def Let_def by (simp del: power_numeral)
qed

lemma Number_of_bigint_safe: "\<bar>n\<bar> \<le> max_safe \<Longrightarrow> Number_of_bigint n = JFin (of_int n)"
proof -
  assume "\<bar>n\<bar> \<le> max_safe"
  then have lt: "nat \<bar>n\<bar> < 2 ^ 53" by (simp add: max_safe_def)
  have "(2::nat) ^ 53 \<le> 2 ^ 1024" by (intro power_increasing) auto
  with lt have "\<not> 2 ^ 1024 \<le> nat \<bar>n\<bar>" by linarith
  then show ?thesis
    using lt by (simp add: Number_of_bigint_def round53_def Let_def sgn_if del: power_numeral)
qed

lemma floor_minus_of_nat: "\<lfloor>- (of_nat n :: rat)\<rfloor> = - int n"
  by (metis floor_of_int of_int_minus of_int_of_nat_eq)

lemma Number_of_bigint_unsafe: "max_safe < \<bar>n\<bar> \<Longrightarrow> \<not> isSafeInteger (Number_of_bigint n)"
proof -
  assume "max_safe < \<bar>n\<bar>"
  then have n: "2 ^ 53 \<le> nat \<bar>n\<bar>" "n \<noteq> 0" by (auto simp: max_safe_def)
  from round53_large [OF n(1)] have "max_safe < int (round53 (nat \<bar>n\<bar>))"
    by (simp add: max_safe_def)
  with n(2) show ?thesis
    by (auto simp: Number_of_bigint_def isSafeInteger_def Let_def sgn_if floor_minus_of_nat simp del: power_numeral)
qed

section \<open>Values of type \<open>unknown\<close>\<close>

datatype native =
    NUndef
  | NNull
  | NBool bool
  | NNum jsnum
  | NBigInt int
  | NStr string
  | NBytes "8 word list"
  | NObj "(string \<times> native) list"
  | NArr "native list"

fun js_typeof :: "native \<Rightarrow> string" where
  "js_typeof NUndef = ''undefined''"
| "js_typeof NNull = ''object''"
| "js_typeof (NBool _) = ''boolean''"
| "js_typeof (NNum _) = ''number''"
| "js_typeof (NBigInt _) = ''bigint''"
| "js_typeof (NStr _) = ''string''"
| "js_typeof (NBytes _) = ''object''"
| "js_typeof (NObj _) = ''object''"
| "js_typeof (NArr _) = ''object''"

text \<open>Property access on an object; absent fields and the other object kinds give \<open>undefined\<close> for
  the field names the program reads.\<close>

definition getProp :: "native \<Rightarrow> string \<Rightarrow> native" where
  "getProp v k = (case v of NObj fs \<Rightarrow> (case map_of fs k of Some x \<Rightarrow> x | None \<Rightarrow> NUndef) | _ \<Rightarrow> NUndef)"

definition is_nullish :: "native \<Rightarrow> bool" where
  "is_nullish v \<longleftrightarrow> v = NUndef \<or> v = NNull"

fun join :: "string \<Rightarrow> string list \<Rightarrow> string" where
  "join sep [] = []"
| "join sep [s] = s"
| "join sep (s # t # ts) = s @ sep @ join sep (t # ts)"

text \<open>\<open>String(v)\<close>. The text of a finite number that is not a safe integer is the argument \<open>fmt\<close>
  (the shortest round-trip rendering of the engine).\<close>

fun js_String :: "(rat \<Rightarrow> string) \<Rightarrow> native \<Rightarrow> string" where
  "js_String fmt NUndef = ''undefined''"
| "js_String fmt NNull = ''null''"
| "js_String fmt (NBool b) = (if b then ''true'' else ''false'')"
| "js_String fmt (NNum JNaN) = ''NaN''"
| "js_String fmt (NNum (JInf b)) = (if b then ''Infinity'' else ''-Infinity'')"
| "js_String fmt (NNum (JFin r)) = (if isSafeInteger (JFin r) then show_int \<lfloor>r\<rfloor> else fmt r)"
| "js_String fmt (NBigInt i) = show_int i"
| "js_String fmt (NStr s) = s"
| "js_String fmt (NBytes bs) = join '','' (map (\<lambda>b. show_nat (unat b)) bs)"
| "js_String fmt (NObj _) = ''[object Object]''"
| "js_String fmt (NArr vs) = join '','' (map (\<lambda>v. if is_nullish v then [] else js_String fmt v) vs)"

end
