(* ===== verification/Chain_Helpers.thy ===== *)
theory Chain_Helpers
  imports Js_Runtime
begin

text \<open>
  \<open>webapp/apps/indexer/src/chain/helpers.ts\<close>: conversions of decoded event fields and the check of
  Stellar addresses. Functions that throw return \<open>string + 'a\<close> with the message.

  The shift arithmetic of \<open>base32Decode\<close> and \<open>crc16Xmodem\<close> is done on 32-bit words, as JavaScript's
  bitwise operators do. The first group of lemmas shows that decoding is exact base conversion and that
  \<open>toSafeInteger\<close> accepts exactly the safe integers; the second group, that the address check accepts
  exactly the strings that the StrKey encoding produces.
\<close>

unbundle bit_operations_syntax

section \<open>Field conversions\<close>

text \<open>\<open>utf8\<close> is \<open>TextDecoder('utf-8', { fatal: false }).decode\<close>.\<close>

definition hex_char :: "nat \<Rightarrow> char" where
  "hex_char d = (if d < 10 then char_of (48 + d) else char_of (87 + d))"

definition hex_byte :: "8 word \<Rightarrow> string" where
  "hex_byte b = [hex_char (unat b div 16), hex_char (unat b mod 16)]"

definition toHex :: "native \<Rightarrow> string" where
  "toHex buf = (case buf of
      NBytes bs \<Rightarrow> concat (map hex_byte bs)
    | NStr s \<Rightarrow> (if \<forall>c \<in> set s. is_hex_char c then toLowerCase s else [])
    | _ \<Rightarrow> [])"

definition bytesToUtf8 :: "(8 word list \<Rightarrow> string) \<Rightarrow> native \<Rightarrow> string + string" where
  "bytesToUtf8 utf8 buf = (case buf of
      NBytes bs \<Rightarrow> Inr (utf8 bs)
    | NStr s \<Rightarrow> Inr s
    | v \<Rightarrow> Inl (''bytesToUtf8: expected Uint8Array or string, got '' @ js_typeof v))"

definition toText :: "(8 word list \<Rightarrow> string) \<Rightarrow> native \<Rightarrow> string + string" where
  "toText utf8 value = (case value of
      NUndef \<Rightarrow> Inr []
    | NNull \<Rightarrow> Inr []
    | NStr s \<Rightarrow> Inr s
    | NBytes bs \<Rightarrow> Inr (utf8 bs)
    | v \<Rightarrow> Inl (''toText: expected string or Uint8Array, got '' @ js_typeof v))"

definition parseEventData :: "native \<Rightarrow> native" where
  "parseEventData value = (if value \<noteq> NNull \<and> value \<noteq> NUndef \<and> js_typeof value = ''object'' then value else NObj [])"

definition toBigInt :: "(rat \<Rightarrow> string) \<Rightarrow> native \<Rightarrow> string \<Rightarrow> string + int" where
  "toBigInt fmt val fieldName = (case val of
      NBigInt i \<Rightarrow> Inr i
    | NNum x \<Rightarrow>
        (if \<not> isSafeInteger x
         then Inl (''toBigInt: expected an integer for '' @ fieldName @ '' within the safe numeric range, got ''
                   @ js_String fmt (NNum x))
         else (case x of JFin r \<Rightarrow> Inr \<lfloor>r\<rfloor> | _ \<Rightarrow> Inl []))
    | v \<Rightarrow> Inl (''toBigInt: expected bigint/number for '' @ fieldName @ '', got '' @ js_typeof v))"

text \<open>The number returned is a safe integer, so the model returns it as an \<open>int\<close>.\<close>

definition toSafeInteger :: "(rat \<Rightarrow> string) \<Rightarrow> native \<Rightarrow> string \<Rightarrow> string + int" where
  "toSafeInteger fmt value fieldName =
     sbind (toBigInt fmt value fieldName) (\<lambda>integer.
       let result = Number_of_bigint integer
       in if \<not> isSafeInteger result then Inl (''Expected a safe integer for '' @ fieldName)
          else (case result of JFin r \<Rightarrow> Inr \<lfloor>r\<rfloor> | _ \<Rightarrow> Inl []))"

section \<open>StrKey addresses\<close>

definition STELLAR_BASE32_ALPHABET :: string where
  "STELLAR_BASE32_ALPHABET = ''ABCDEFGHIJKLMNOPQRSTUVWXYZ234567''"

definition STELLAR_PUBLIC_KEY_VERSION_BYTE :: "8 word" where
  "STELLAR_PUBLIC_KEY_VERSION_BYTE = push_bit 3 6"

definition STELLAR_CONTRACT_VERSION_BYTE :: "8 word" where
  "STELLAR_CONTRACT_VERSION_BYTE = push_bit 3 2"

definition STELLAR_ADDRESS_DECODED_LENGTH :: nat where
  "STELLAR_ADDRESS_DECODED_LENGTH = 35"

text \<open>One turn of the loop over the characters: the accumulator \<open>value\<close> is a 32-bit integer of which
  the low \<open>bits\<close> bits are pending.\<close>

type_synonym b32_state = "8 word list \<times> nat \<times> 32 word"

definition base32_step :: "b32_state \<Rightarrow> nat \<Rightarrow> b32_state" where
  "base32_step st index =
     (let (bytes, bits, value) = st;
          value = push_bit 5 value OR of_nat index;
          bits = bits + 5
      in if 8 \<le> bits then (bytes @ [ucast (drop_bit (bits - 8) value AND 0xFF)], bits - 8, value)
         else (bytes, bits, value))"

fun base32_loop :: "string \<Rightarrow> b32_state \<Rightarrow> string + b32_state" where
  "base32_loop [] st = Inr st"
| "base32_loop (c # cs) st =
     (case indexOf STELLAR_BASE32_ALPHABET c of
        None \<Rightarrow> Inl (''Invalid base32 character: '' @ [c])
      | Some index \<Rightarrow> base32_loop cs (base32_step st index))"

definition base32Decode :: "string \<Rightarrow> string + 8 word list" where
  "base32Decode input =
     sbind (base32_loop input ([], 0, 0)) (\<lambda>(bytes, bits, value).
       if 0 < bits \<and> value AND (push_bit bits 1 - 1) \<noteq> 0 then Inl ''Invalid base32 trailing bits''
       else Inr bytes)"

definition crc_bit :: "32 word \<Rightarrow> 32 word" where
  "crc_bit crc = (if crc AND 0x8000 \<noteq> 0 then push_bit 1 crc XOR 0x1021 else push_bit 1 crc) AND 0xFFFF"

definition crc_byte :: "32 word \<Rightarrow> 8 word \<Rightarrow> 32 word" where
  "crc_byte crc byte = (crc_bit ^^ 8) (crc XOR push_bit 8 (ucast byte))"

definition crc16Xmodem :: "8 word list \<Rightarrow> 32 word" where
  "crc16Xmodem data = foldl crc_byte 0 data"

definition isValidStellarAddress :: "string \<Rightarrow> bool" where
  "isValidStellarAddress address =
     (if length address \<noteq> 56 then False
      else let first = address ! 0
      in if first \<noteq> CHR ''G'' \<and> first \<noteq> CHR ''C'' then False
         else (case base32Decode address of
           Inl _ \<Rightarrow> False
         | Inr decoded \<Rightarrow>
             if length decoded \<noteq> STELLAR_ADDRESS_DECODED_LENGTH then False
             else let expectedVersionByte =
                        (if first = CHR ''G'' then STELLAR_PUBLIC_KEY_VERSION_BYTE else STELLAR_CONTRACT_VERSION_BYTE)
                  in if decoded ! 0 \<noteq> expectedVersionByte then False
                     else let payload = take 33 decoded; checksum = drop 33 decoded;
                              expectedChecksum = crc16Xmodem payload
                          in ucast (checksum ! 0) = expectedChecksum AND 0xFF
                           \<and> ucast (checksum ! 1) = drop_bit 8 expectedChecksum AND 0xFF))"

section \<open>Conversions are exact\<close>

lemma toBigInt_Inr_iff:
  "toBigInt fmt v f = Inr n \<longleftrightarrow> v = NBigInt n \<or> (v = NNum (JFin (of_int n)) \<and> \<bar>n\<bar> \<le> max_safe)"
  by (cases v) (auto simp: toBigInt_def isSafeInteger_def split: jsnum.splits)

lemma isSafeInteger_of_int [simp]: "isSafeInteger (JFin (of_int n)) \<longleftrightarrow> \<bar>n\<bar> \<le> max_safe"
  by (simp add: isSafeInteger_def)

lemma toSafeInteger_iff:
  "toSafeInteger fmt v f = Inr n \<longleftrightarrow> (v = NBigInt n \<or> v = NNum (JFin (of_int n))) \<and> \<bar>n\<bar> \<le> max_safe"
proof -
  have *: "(let result = Number_of_bigint i
       in if \<not> isSafeInteger result then Inl e
          else (case result of JFin r \<Rightarrow> Inr \<lfloor>r\<rfloor> | _ \<Rightarrow> Inl [])) = Inr n \<longleftrightarrow> i = n \<and> \<bar>n\<bar> \<le> max_safe" for i e
    by (cases "\<bar>i\<bar> \<le> max_safe") (auto simp: Number_of_bigint_safe Number_of_bigint_unsafe)
  show ?thesis
    unfolding toSafeInteger_def sbind_eq_Inr * toBigInt_Inr_iff by auto
qed

section \<open>Base32 decoding is base conversion\<close>

lemma alphabet_facts [simp]:
  "length STELLAR_BASE32_ALPHABET = 32" "distinct STELLAR_BASE32_ALPHABET"
  by (simp_all add: STELLAR_BASE32_ALPHABET_def)

lemma push_or_unat:
  fixes x :: "32 word"
  assumes "i < 32"
  shows "unat (push_bit 5 x OR of_nat i) = (unat x * 32 + i) mod 2 ^ 32"
proof -
  have "push_bit 5 x AND (of_nat i :: 32 word) = 0"
  proof (rule bit_eqI)
    fix n
    assume "possible_bit TYPE(32 word) n"
    have "\<not> bit i n" if "5 \<le> n"
    proof -
      have "i < 2 ^ n" using assms power_increasing [OF that, of "2::nat"] by simp
      then show ?thesis by (simp add: bit_iff_odd)
    qed
    then show "bit (push_bit 5 x AND (of_nat i :: 32 word)) n = bit 0 n"
      by (auto simp: bit_simps)
  qed
  then have "push_bit 5 x OR of_nat i = push_bit 5 x + (of_nat i :: 32 word)"
    by (simp add: disjunctive_add_eq_or)
  then show ?thesis
    using assms by (simp add: push_bit_eq_mult unat_word_ariths unat_of_nat mod_simps mult.commute)
qed

lemma byte_unat:
  fixes v :: "32 word"
  shows "unat (ucast (drop_bit n v AND 0xFF) :: 8 word) = unat v div 2 ^ n mod 256"
proof -
  have "drop_bit n v AND 0xFF = take_bit 8 (drop_bit n v)"
    by (simp only: take_bit_eq_mask mask_eq_exp_minus_1) simp
  then have "unat (drop_bit n v AND 0xFF) = take_bit 8 (drop_bit n (unat v))"
    by (simp only: unsigned_take_bit_eq unat_drop_bit_eq)
  then have "unat (drop_bit n v AND 0xFF) = unat v div 2 ^ n mod 256"
    by (simp add: take_bit_eq_mod drop_bit_eq_div)
  then show ?thesis by (simp add: unsigned_ucast_eq take_bit_eq_mod)
qed

text \<open>The loop invariant: after \<open>k\<close> characters whose digits read \<open>V\<close> in base 32, the bytes written and the
  pending low bits of the accumulator together hold \<open>V\<close>.\<close>

definition b32_inv :: "nat \<Rightarrow> nat \<Rightarrow> b32_state \<Rightarrow> bool" where
  "b32_inv k V st = (case st of (bytes, bits, value) \<Rightarrow>
     bits < 8 \<and> 8 * length bytes + bits = 5 * k \<and>
     val_of 256 (map unat bytes) * 2 ^ bits + unat value mod 2 ^ bits = V)"

lemma base32_step_inv:
  assumes "b32_inv k V st" "i < 32"
  shows "b32_inv (Suc k) (V * 32 + i) (base32_step st i)"
proof -
  obtain bytes bits "value" where st: "st = (bytes, bits, value)" by (cases st)
  define B where "B = val_of 256 (map unat bytes)"
  define v where "v = push_bit 5 value OR of_nat i"
  from assms(1) have inv: "bits < 8" "8 * length bytes + bits = 5 * k"
    "B * 2 ^ bits + unat value mod 2 ^ bits = V"
    by (auto simp: b32_inv_def st B_def)
  have "(2::nat) ^ (bits + 5) dvd 2 ^ 32" using inv(1) by (intro le_imp_power_dvd) simp
  then have "unat v mod 2 ^ (bits + 5) = (unat value * 32 + i) mod 2 ^ (bits + 5)"
    by (simp add: v_def push_or_unat [OF assms(2)] mod_mod_cancel)
  also have "\<dots> = (unat value mod 2 ^ bits) * 32 + i"
  proof -
    have "(unat value * 32 + i) mod (2 ^ bits * 32) = (unat value mod 2 ^ bits) * 32 + i"
    proof -
      have lt: "(unat value mod 2 ^ bits) * 32 + i < 2 ^ bits * 32"
      proof -
        have "unat value mod 2 ^ bits < 2 ^ bits" by simp
        then have "unat value mod 2 ^ bits + 1 \<le> 2 ^ bits" by linarith
        then have "(unat value mod 2 ^ bits + 1) * 32 \<le> 2 ^ bits * 32" by (rule mult_le_mono1)
        with assms(2) show ?thesis by simp
      qed
      have "unat value * 32 + i = (unat value div 2 ^ bits) * (2 ^ bits * 32) + ((unat value mod 2 ^ bits) * 32 + i)"
        by (metis (no_types, lifting) add.assoc add_mult_distrib div_mult_mod_eq mult.assoc)
      then show ?thesis using lt by (metis mod_less mod_mult_self3)
    qed
    then show ?thesis by (simp add: power_add)
  qed
  finally have low: "unat v mod 2 ^ (bits + 5) = (unat value mod 2 ^ bits) * 32 + i" .
  have V': "V * 32 + i = B * 2 ^ (bits + 5) + unat v mod 2 ^ (bits + 5)"
    unfolding low inv(3) [symmetric] by (simp add: power_add algebra_simps)
  show ?thesis
  proof (cases "8 \<le> bits + 5")
    case False
    then show ?thesis
      using inv V' by (simp add: b32_inv_def st base32_step_def v_def [symmetric] B_def Let_def)
  next
    case True
    define n where "n = bits + 5 - 8"
    have n: "bits + 5 = n + 8" "n < 8" using True inv(1) by (auto simp: n_def)
    have "unat v mod 2 ^ (n + 8) = (unat v div 2 ^ n mod 256) * 2 ^ n + unat v mod 2 ^ n"
      by (simp add: power_add mod_mult2_eq)
    with V' n have "V * 32 + i = (B * 256 + unat v div 2 ^ n mod 256) * 2 ^ n + unat v mod 2 ^ n"
      by (simp add: power_add algebra_simps)
    moreover have "base32_step st i = (bytes @ [ucast (drop_bit n v AND 0xFF)], n, v)"
      using True by (simp add: base32_step_def st v_def n_def Let_def)
    ultimately show ?thesis
      using inv n by (simp add: b32_inv_def B_def byte_unat)
  qed
qed

definition b32_digits :: "string \<Rightarrow> nat list option" where
  "b32_digits s = those (map (indexOf STELLAR_BASE32_ALPHABET) s)"

lemma b32_digits_simps [simp]:
  "b32_digits [] = Some []"
  "b32_digits (c # cs) = (case indexOf STELLAR_BASE32_ALPHABET c of None \<Rightarrow> None
     | Some i \<Rightarrow> map_option (Cons i) (b32_digits cs))"
  by (auto simp: b32_digits_def split: option.splits)

lemma b32_index_bound: "indexOf STELLAR_BASE32_ALPHABET c = Some i \<Longrightarrow> i < 32"
  using indexOf_bound alphabet_facts(1) by metis

lemma b32_digits_bound: "b32_digits s = Some ds \<Longrightarrow> (\<forall>d \<in> set ds. d < 32) \<and> length ds = length s"
  by (induction s arbitrary: ds) (auto split: option.splits dest: b32_index_bound)

lemma b32_digits_map_nth: "\<forall>d \<in> set ds. d < 32 \<Longrightarrow> b32_digits (map (nth STELLAR_BASE32_ALPHABET) ds) = Some ds"
  by (induction ds) (auto simp: indexOf_nth)

lemma b32_digits_inverse: "b32_digits s = Some ds \<Longrightarrow> map (nth STELLAR_BASE32_ALPHABET) ds = s"
  by (induction s arbitrary: ds) (auto split: option.splits dest: indexOf_bound)

lemma val_of_append_foldl: "foldl (\<lambda>v d. v * b + d) (val_of b xs) ys = val_of b (xs @ ys)"
  by (simp add: val_of_def)

lemma base32_loop_inv:
  assumes "b32_inv (length xs) (val_of 32 xs) st"
  shows "case b32_digits s of
      None \<Rightarrow> \<exists>e. base32_loop s st = Inl e
    | Some ds \<Rightarrow> \<exists>st'. base32_loop s st = Inr st' \<and> b32_inv (length (xs @ ds)) (val_of 32 (xs @ ds)) st'"
  using assms
proof (induction s arbitrary: xs st)
  case Nil
  then show ?case by simp
next
  case (Cons c cs)
  show ?case
  proof (cases "indexOf STELLAR_BASE32_ALPHABET c")
    case None
    then show ?thesis by simp
  next
    case (Some i)
    have "b32_inv (length (xs @ [i])) (val_of 32 (xs @ [i])) (base32_step st i)"
      using base32_step_inv [OF Cons.prems b32_index_bound [OF Some]] by simp
    from Cons.IH [OF this] Some show ?thesis by (auto split: option.splits)
  qed
qed

lemma trailing_bits:
  fixes v :: "32 word"
  shows "v AND (2 ^ n - 1) = 0 \<longleftrightarrow> unat v mod 2 ^ n = 0"
proof -
  have "v AND (2 ^ n - 1) = take_bit n v" by (simp add: take_bit_eq_mask mask_eq_exp_minus_1)
  moreover have "take_bit n v = 0 \<longleftrightarrow> unat (take_bit n v) = 0" by (simp add: unat_eq_zero)
  moreover have "unat (take_bit n v) = unat v mod 2 ^ n"
    by (simp only: unsigned_take_bit_eq) (simp add: take_bit_eq_mod)
  ultimately show ?thesis by simp
qed

lemma unat_byte_lt [simp]: "unat (b :: 8 word) < 256"
  using unsigned_less [of b, where 'a = nat] by simp

lemma unat_byte_bound: "\<forall>d \<in> set (map unat (bs :: 8 word list)). d < 256"
  by simp

theorem base32Decode_iff:
  "base32Decode s = Inr bs \<longleftrightarrow>
     (\<exists>ds. b32_digits s = Some ds \<and> length bs = 5 * length s div 8 \<and>
           val_of 256 (map unat bs) * 2 ^ (5 * length s mod 8) = val_of 32 ds)"
proof (cases "b32_digits s")
  case None
  with base32_loop_inv [of "[]" "([], 0, 0)" s] show ?thesis
    by (auto simp: b32_inv_def base32Decode_def)
next
  case (Some ds)
  with base32_loop_inv [of "[]" "([], 0, 0)" s] obtain bytes bits v where
    run: "base32_loop s ([], 0, 0) = Inr (bytes, bits, v)" and
    inv: "b32_inv (length ds) (val_of 32 ds) (bytes, bits, v)"
    by (auto simp: b32_inv_def)
  have ds: "length ds = length s" "\<forall>d \<in> set ds. d < 32" using b32_digits_bound [OF Some] by auto
  from inv have inv': "bits < 8" "8 * length bytes + bits = 5 * length s"
    "val_of 256 (map unat bytes) * 2 ^ bits + unat v mod 2 ^ bits = val_of 32 ds"
    by (auto simp: b32_inv_def ds)
  have len: "5 * length s mod 8 = bits" "5 * length s div 8 = length bytes"
    using inv'(1) unfolding inv'(2) [symmetric] by simp_all
  have res: "base32Decode s = Inr bs \<longleftrightarrow> unat v mod 2 ^ bits = 0 \<and> bs = bytes"
    by (cases "bits = 0") (auto simp: base32Decode_def run trailing_bits)
  show ?thesis
  proof
    assume "base32Decode s = Inr bs"
    with res Some len inv' show "\<exists>ds. b32_digits s = Some ds \<and> length bs = 5 * length s div 8 \<and>
           val_of 256 (map unat bs) * 2 ^ (5 * length s mod 8) = val_of 32 ds"
      by auto
  next
    assume "\<exists>ds. b32_digits s = Some ds \<and> length bs = 5 * length s div 8 \<and>
           val_of 256 (map unat bs) * 2 ^ (5 * length s mod 8) = val_of 32 ds"
    with Some len have bs: "length bs = length bytes" "val_of 256 (map unat bs) * 2 ^ bits = val_of 32 ds" by auto
    have "(val_of 256 (map unat bs) * 2 ^ bits) mod 2 ^ bits = unat v mod 2 ^ bits"
      unfolding bs(2) inv'(3) [symmetric] by simp
    then have z: "unat v mod 2 ^ bits = 0" by simp
    with bs(2) inv'(3) have "val_of 256 (map unat bs) * 2 ^ bits = val_of 256 (map unat bytes) * 2 ^ bits"
      by simp
    then have "val_of 256 (map unat bs) = val_of 256 (map unat bytes)" by simp
    then have "map unat bs = map unat bytes"
      by (intro val_of_inject [OF unat_byte_bound unat_byte_bound]) (simp_all add: bs(1))
    then have "bs = bytes" by (simp add: inj_map_eq_map)
    with z res show "base32Decode s = Inr bs" by simp
  qed
qed

section \<open>The address check accepts exactly the StrKey encodings\<close>

text \<open>The reference encoder: version byte, 32-byte key, little-endian CRC-16, written in base 32.\<close>

definition strkey_text :: "8 word list \<Rightarrow> string" where
  "strkey_text bs = map (nth STELLAR_BASE32_ALPHABET) (digits_of 32 56 (val_of 256 (map unat bs)))"

definition strkey_bytes :: "8 word \<Rightarrow> 8 word list \<Rightarrow> 8 word list" where
  "strkey_bytes ver key =
     (let crc = crc16Xmodem (ver # key) in ver # key @ [ucast crc, ucast (drop_bit 8 crc)])"

definition strkey_encode :: "8 word \<Rightarrow> 8 word list \<Rightarrow> string" where
  "strkey_encode ver key = strkey_text (strkey_bytes ver key)"

lemma base32Decode_56:
  assumes "length s = 56"
  shows "base32Decode s = Inr bs \<longleftrightarrow> length bs = 35 \<and> s = strkey_text bs"
proof -
  have "base32Decode s = Inr bs \<longleftrightarrow>
      (\<exists>ds. b32_digits s = Some ds \<and> length bs = 35 \<and> val_of 256 (map unat bs) = val_of 32 ds)"
    using assms by (simp add: base32Decode_iff)
  also have "\<dots> \<longleftrightarrow> length bs = 35 \<and> s = strkey_text bs"
  proof
    assume "\<exists>ds. b32_digits s = Some ds \<and> length bs = 35 \<and> val_of 256 (map unat bs) = val_of 32 ds"
    then obtain ds where ds: "b32_digits s = Some ds" "length bs = 35" "val_of 256 (map unat bs) = val_of 32 ds"
      by blast
    from b32_digits_bound [OF ds(1)] assms have "digits_of 32 56 (val_of 32 ds) = ds"
      by (metis digits_of_val_of)
    with ds b32_digits_inverse [OF ds(1)] show "length bs = 35 \<and> s = strkey_text bs"
      by (simp add: strkey_text_def)
  next
    assume r: "length bs = 35 \<and> s = strkey_text bs"
    let ?V = "val_of 256 (map unat bs)"
    have "?V < 256 ^ 35" using val_of_bound [OF unat_byte_bound, of bs] r by simp
    then have "val_of 32 (digits_of 32 56 ?V) = ?V" by (intro val_of_digits_of) simp_all
    moreover have "b32_digits s = Some (digits_of 32 56 ?V)"
      using r digits_of_bound [of 32] by (simp add: strkey_text_def b32_digits_map_nth)
    ultimately show "\<exists>ds. b32_digits s = Some ds \<and> length bs = 35 \<and> val_of 256 (map unat bs) = val_of 32 ds"
      using r by auto
  qed
  finally show ?thesis .
qed

lemma strkey_text_inject: "length xs = 35 \<Longrightarrow> length ys = 35 \<Longrightarrow> strkey_text xs = strkey_text ys \<Longrightarrow> xs = ys"
  using base32Decode_56 [of "strkey_text ys" xs] base32Decode_56 [of "strkey_text ys" ys]
  by (simp add: strkey_text_def)

lemma val_of_Cons: "val_of b (d # ds) = d * b ^ length ds + val_of b ds"
proof (induction ds rule: rev_induct)
  case Nil
  then show ?case by (simp add: val_of_def)
next
  case (snoc x xs)
  have "val_of b (d # xs @ [x]) = val_of b (d # xs) * b + x"
    using val_of_snoc [of b "d # xs" x] by simp
  with snoc show ?case by (simp add: algebra_simps)
qed

lemma digits_of_hd: "digits_of b (Suc n) v ! 0 = v div b ^ n mod b"
proof (induction n arbitrary: v)
  case 0
  then show ?case by simp
next
  case (Suc n)
  have "digits_of b (Suc (Suc n)) v ! 0 = digits_of b (Suc n) (v div b) ! 0"
    by (subst digits_of.simps) (simp add: nth_append del: digits_of.simps)
  with Suc show ?case by (simp add: div_mult2_eq mult.commute)
qed

text \<open>The first letter of an address is the top five bits of its version byte.\<close>

lemma strkey_text_first:
  assumes "length bs = 35"
  shows "strkey_text bs ! 0 = STELLAR_BASE32_ALPHABET ! (unat (bs ! 0) div 8)"
proof -
  obtain b bs' where bs: "bs = b # bs'" "length bs' = 34" using assms by (cases bs) auto
  let ?r = "val_of 256 (map unat bs')"
  have r: "?r < 2 ^ 272" using val_of_bound [OF unat_byte_bound, of bs'] bs(2) by simp
  have b: "unat b div 8 < 32" using unat_byte_lt [of b] by linarith
  have V: "val_of 256 (map unat bs) = unat b * 2 ^ 272 + ?r"
    using bs by (simp add: val_of_Cons)
  have "(unat b * 2 ^ 272 + ?r) div 2 ^ 275 = (unat b * 2 ^ 272 + ?r) div 2 ^ 272 div 8"
    by (simp flip: div_mult2_eq)
  also have "\<dots> = unat b div 8" using r by simp
  finally have "(unat b * 2 ^ 272 + ?r) div 2 ^ 275 = unat b div 8" .
  moreover have "(32::nat) ^ 55 = 2 ^ 275" by simp
  ultimately have "digits_of 32 (Suc 55) (val_of 256 (map unat bs)) ! 0 = unat b div 8"
    unfolding digits_of_hd V using b by (simp del: power_numeral)
  then show ?thesis by (simp add: strkey_text_def bs nth_append del: digits_of.simps)
qed

lemma low_byte_eq: "ucast (b :: 8 word) = (w :: 32 word) AND 0xFF \<longleftrightarrow> b = ucast w"
proof -
  have ff: "(0xFF :: 32 word) = mask 8" by (simp add: mask_eq_exp_minus_1)
  have "w AND 0xFF = ucast (ucast w :: 8 word)"
    unfolding ff by (rule bit_word_eqI) (auto simp: bit_simps)
  moreover have "unat (ucast x :: 32 word) = unat x" for x :: "8 word"
  proof -
    have "unat x < 2 ^ 32" by (rule less_trans [OF unat_byte_lt]) simp
    then show ?thesis by (simp add: unsigned_ucast_eq take_bit_nat_eq_self)
  qed
  then have "ucast b = (ucast (ucast w :: 8 word) :: 32 word) \<longleftrightarrow> b = ucast w"
    by (metis word_unat_eq_iff)
  ultimately show ?thesis by simp
qed

lemma list35_split:
  assumes "length xs = 35"
  obtains v key a b where "xs = v # key @ [a, b]" "length key = 32"
proof -
  have "xs = take 33 xs @ drop 33 xs" by simp
  moreover have "length (take 33 xs) = Suc 32" "length (drop 33 xs) = Suc (Suc 0)" using assms by simp_all
  then obtain v key a b where "take 33 xs = v # key" "length key = 32" "drop 33 xs = [a, b]"
    unfolding length_Suc_conv [of "take 33 xs"] length_Suc_conv [of "drop 33 xs"] by (auto simp: length_Suc_conv)
  ultimately show ?thesis using that [of v key a b] by simp
qed

lemma isValidStellarAddress_decode:
  "isValidStellarAddress s \<longleftrightarrow> length s = 56 \<and>
     (\<exists>ver key. length key = 32 \<and> base32Decode s = Inr (strkey_bytes ver key) \<and>
        (s ! 0 = CHR ''G'' \<and> ver = STELLAR_PUBLIC_KEY_VERSION_BYTE \<or>
         s ! 0 = CHR ''C'' \<and> ver = STELLAR_CONTRACT_VERSION_BYTE))"
proof (cases "base32Decode s")
  case (Inl e)
  then show ?thesis by (auto simp: isValidStellarAddress_def Let_def)
next
  case (Inr decoded)
  show ?thesis
  proof (cases "length s = 56")
    case False
    then show ?thesis by (simp add: isValidStellarAddress_def)
  next
    case True
    with Inr have "length decoded = 35" by (simp add: base32Decode_56)
    then obtain v key a b where d: "decoded = v # key @ [a, b]" "length key = 32" by (rule list35_split)
    have split: "take 33 decoded = v # key" "drop 33 decoded = [a, b]" using d by auto
    have "isValidStellarAddress s \<longleftrightarrow> decoded = strkey_bytes v key \<and>
        (s ! 0 = CHR ''G'' \<and> v = STELLAR_PUBLIC_KEY_VERSION_BYTE \<or>
         s ! 0 = CHR ''C'' \<and> v = STELLAR_CONTRACT_VERSION_BYTE)"
      unfolding isValidStellarAddress_def Let_def Inr sum.case split
      using True d by (auto simp: strkey_bytes_def Let_def low_byte_eq STELLAR_ADDRESS_DECODED_LENGTH_def)
    moreover have "strkey_bytes v key = strkey_bytes ver key' \<longleftrightarrow> v = ver \<and> key = key'"
      if "length key' = 32" for ver key'
      using that d(2) by (auto simp: strkey_bytes_def Let_def)
    ultimately show ?thesis using True Inr d by (auto simp: strkey_bytes_def Let_def)
  qed
qed

lemma strkey_first:
  assumes "length key = 32"
  shows "strkey_encode STELLAR_PUBLIC_KEY_VERSION_BYTE key ! 0 = CHR ''G''"
    "strkey_encode STELLAR_CONTRACT_VERSION_BYTE key ! 0 = CHR ''C''"
  using assms
  by (simp_all add: strkey_encode_def strkey_text_first strkey_bytes_def Let_def
      STELLAR_PUBLIC_KEY_VERSION_BYTE_def STELLAR_CONTRACT_VERSION_BYTE_def STELLAR_BASE32_ALPHABET_def)

lemma length_strkey [simp]:
  "length (strkey_text bs) = 56" "length (strkey_encode ver key) = 56"
  "length (strkey_bytes ver key) = length key + 3"
  by (simp_all add: strkey_text_def strkey_encode_def strkey_bytes_def Let_def)

theorem isValidStellarAddress_iff:
  "isValidStellarAddress s \<longleftrightarrow>
     (\<exists>ver key. ver \<in> {STELLAR_PUBLIC_KEY_VERSION_BYTE, STELLAR_CONTRACT_VERSION_BYTE} \<and>
        length key = 32 \<and> s = strkey_encode ver key)"
proof
  assume "isValidStellarAddress s"
  then obtain ver key where "length s = 56" "length key = 32" "base32Decode s = Inr (strkey_bytes ver key)"
    "ver = STELLAR_PUBLIC_KEY_VERSION_BYTE \<or> ver = STELLAR_CONTRACT_VERSION_BYTE"
    unfolding isValidStellarAddress_decode by blast
  then show "\<exists>ver key. ver \<in> {STELLAR_PUBLIC_KEY_VERSION_BYTE, STELLAR_CONTRACT_VERSION_BYTE} \<and>
        length key = 32 \<and> s = strkey_encode ver key"
    by (auto simp: base32Decode_56 strkey_encode_def)
next
  assume "\<exists>ver key. ver \<in> {STELLAR_PUBLIC_KEY_VERSION_BYTE, STELLAR_CONTRACT_VERSION_BYTE} \<and>
        length key = 32 \<and> s = strkey_encode ver key"
  then obtain ver key where k: "ver \<in> {STELLAR_PUBLIC_KEY_VERSION_BYTE, STELLAR_CONTRACT_VERSION_BYTE}"
    "length key = 32" "s = strkey_encode ver key" by blast
  then have "base32Decode s = Inr (strkey_bytes ver key)"
    by (simp add: base32Decode_56 strkey_encode_def)
  with k strkey_first [OF k(2)] show "isValidStellarAddress s"
    unfolding isValidStellarAddress_decode by auto
qed

lemma strkey_valid:
  "ver \<in> {STELLAR_PUBLIC_KEY_VERSION_BYTE, STELLAR_CONTRACT_VERSION_BYTE} \<Longrightarrow> length key = 32 \<Longrightarrow>
   isValidStellarAddress (strkey_encode ver key)"
  unfolding isValidStellarAddress_iff by blast

section \<open>Hexadecimal text\<close>

definition is_lower_hex :: "char \<Rightarrow> bool" where
  "is_lower_hex c \<longleftrightarrow> is_digit c \<or> (97 \<le> code_of c \<and> code_of c \<le> 102)"

lemma hex_char_lower: "d < 16 \<Longrightarrow> is_lower_hex (hex_char d)"
  by (auto simp: hex_char_def is_lower_hex_def is_digit_def code_of_def)

lemma lower_char_hex: "is_hex_char c \<Longrightarrow> is_lower_hex (lower_char c)"
  by (auto simp: is_hex_char_def is_lower_hex_def is_digit_def lower_char_def code_of_def)

lemma hex_byte_lower: "c \<in> set (hex_byte b) \<Longrightarrow> is_lower_hex c"
  using unat_byte_lt [of b] by (auto simp: hex_byte_def less_mult_imp_div_less intro!: hex_char_lower)

lemma toHex_lower: "c \<in> set (toHex v) \<Longrightarrow> is_lower_hex c"
  by (auto simp: toHex_def toLowerCase_def split: native.splits if_splits
      dest: hex_byte_lower lower_char_hex)

lemma length_toHex_bytes: "length (toHex (NBytes bs)) = 2 * length bs"
  by (induction bs) (auto simp: toHex_def hex_byte_def)

section \<open>Properties\<close>

text \<open>C35. The address check accepts exactly the StrKey texts of account and contract keys: a string passes
  if and only if it is the base32 text of one of the two version bytes, a 32-byte key and the CRC-16 of both,
  and that version and key are unique. So an accepted address names exactly one key, and no two spellings of
  the same key are accepted.\<close>

theorem address_check_exact:
  "isValidStellarAddress s \<longleftrightarrow>
     (\<exists>!(ver, key). ver \<in> {STELLAR_PUBLIC_KEY_VERSION_BYTE, STELLAR_CONTRACT_VERSION_BYTE} \<and>
        length key = 32 \<and> s = strkey_encode ver key)"
proof -
  have inj: "ver = ver' \<and> key = key'"
    if "strkey_encode ver key = strkey_encode ver' key'" "length key = 32" "length key' = 32" for ver ver' key key'
    using that strkey_text_inject [of "strkey_bytes ver key" "strkey_bytes ver' key'"]
    by (auto simp: strkey_encode_def strkey_bytes_def Let_def)
  let ?ok = "\<lambda>(ver, key). ver \<in> {STELLAR_PUBLIC_KEY_VERSION_BYTE, STELLAR_CONTRACT_VERSION_BYTE} \<and>
        length key = 32 \<and> s = strkey_encode ver key"
  have "isValidStellarAddress s \<longleftrightarrow> (\<exists>p. ?ok p)" by (simp add: isValidStellarAddress_iff)
  also have "\<dots> \<longleftrightarrow> (\<exists>!p. ?ok p)"
  proof
    assume "\<exists>p. ?ok p"
    then obtain p where p: "?ok p" by blast
    show "\<exists>!p. ?ok p"
    proof (rule ex1I [of _ p])
      show "?ok p" by (rule p)
      fix q assume "?ok q"
      with p inj [of "fst q" "snd q" "fst p" "snd p"] show "q = p"
        by (simp add: case_prod_beta prod_eq_iff)
    qed
  qed blast
  finally show ?thesis .
qed

text \<open>\<open>toSafeInteger\<close> accepts exactly the bigints and numbers that are integers of magnitude below
  \<open>2^53\<close>, and returns them unchanged; a bigint that \<open>Number\<close> would round is never returned.\<close>

theorem safe_integer_exact:
  "toSafeInteger fmt v f = Inr n \<longleftrightarrow> (v = NBigInt n \<or> v = NNum (JFin (of_int n))) \<and> \<bar>n\<bar> < 2 ^ 53"
  by (auto simp: toSafeInteger_iff max_safe_def)


end
