(* ===== verification/Timestamps.thy ===== *)
theory Timestamps
  imports Js_Runtime
begin

text \<open>
  Dates and stored times. A JavaScript \<open>Date\<close> is its time value, the milliseconds since 1970. The
  calendar follows the ECMAScript definitions (\<open>DayFromYear\<close>, \<open>YearFromTime\<close>, \<open>MonthFromTime\<close>,
  \<open>DateFromTime\<close>), and \<open>toISOString\<close> is the 24-character text of the years 0 to 9999.

  \<open>pgTime\<close> of \<open>webapp/apps/indexer/src/db.ts\<close> turns a time into the layout the database stores. The
  schema compares these texts as text; the lemmas show that text order is time order, which the lock
  and the staleness checks rely on.
\<close>

section \<open>The calendar\<close>

definition DayFromYear :: "int \<Rightarrow> int" where
  "DayFromYear y = 365 * (y - 1970) + (y - 1969) div 4 - (y - 1901) div 100 + (y - 1601) div 400"

lemma div_Suc_step: "0 < k \<Longrightarrow> (a + 1) div k = a div k + (if k dvd a + 1 then 1 else 0)" for a k :: int
proof -
  assume k: "0 < k"
  define q where "q = a div k"
  define r where "r = a mod k"
  have a: "a = q * k + r" "0 \<le> r" "r < k" using k by (simp_all add: q_def r_def)
  show ?thesis
  proof (cases "r + 1 = k")
    case True
    then have "a + 1 = (q + 1) * k" using a by (simp add: algebra_simps)
    then show ?thesis using k by (simp add: q_def [symmetric])
  next
    case False
    then have r: "0 \<le> r + 1" "r + 1 < k" "0 < r + 1" using a by auto
    have eq: "a + 1 = q * k + (r + 1)" using a by simp
    have "(a + 1) div k = q" unfolding eq using r by (simp add: div_pos_pos_trivial)
    moreover have "\<not> k dvd a + 1" unfolding eq using r zdvd_not_zless by auto
    ultimately show ?thesis by (simp add: q_def)
  qed
qed

lemma DayFromYear_Suc: "DayFromYear y + 365 \<le> DayFromYear (y + 1) \<and> DayFromYear (y + 1) \<le> DayFromYear y + 366"
proof -
  define l4 l100 l400 :: int where
    l: "l4 = (if 4 dvd y - 1969 + 1 then 1 else 0)" "l100 = (if 100 dvd y - 1901 + 1 then 1 else 0)"
      "l400 = (if 400 dvd y - 1601 + 1 then 1 else 0)"
  have step: "(y - 1969 + 1) div 4 = (y - 1969) div 4 + l4"
    "(y - 1901 + 1) div 100 = (y - 1901) div 100 + l100" "(y - 1601 + 1) div 400 = (y - 1601) div 400 + l400"
    unfolding l by (rule div_Suc_step; simp)+
  have shift: "y + 1 - 1970 = y - 1970 + 1" "y + 1 - 1969 = y - 1969 + 1"
    "y + 1 - 1901 = y - 1901 + 1" "y + 1 - 1601 = y - 1601 + 1"
    by simp_all
  have "DayFromYear (y + 1) = DayFromYear y + 365 + l4 - l100 + l400"
    unfolding DayFromYear_def shift step by (simp only: distrib_left)
  moreover have "4 dvd y - 1969 + 1" if "100 dvd y - 1901 + 1"
  proof -
    from that obtain k where "y - 1901 + 1 = 100 * k" by (auto simp only: dvd_def)
    then have "y - 1969 + 1 = 4 * (25 * k - 17)" by simp
    then show ?thesis by (simp only: dvd_triv_left)
  qed
  then have "l100 \<le> l4" by (simp only: l split: if_split) simp
  moreover have "100 dvd y - 1901 + 1" if "400 dvd y - 1601 + 1"
  proof -
    from that obtain k where "y - 1601 + 1 = 400 * k" by (auto simp only: dvd_def)
    then have "y - 1901 + 1 = 100 * (4 * k - 3)" by simp
    then show ?thesis by (simp only: dvd_triv_left)
  qed
  then have "l400 \<le> l100" by (simp only: l split: if_split) simp
  moreover have "l4 \<le> 1" "0 \<le> l400" by (simp_all add: l)
  ultimately show ?thesis by linarith
qed

lemmas DayFromYear_step = DayFromYear_Suc [THEN conjunct1]
lemmas DayFromYear_step_le = DayFromYear_Suc [THEN conjunct2]

lemma DayFromYear_mono: "x \<le> y \<Longrightarrow> DayFromYear x \<le> DayFromYear y"
proof (induction y rule: int_ge_induct [where k = x])
  case (step y)
  then show ?case using DayFromYear_step [of y] by linarith
qed simp_all

text \<open>\<open>YearFromTime\<close>: the largest year that starts on or before the day, found by counting up from a
  year that is never too late.\<close>

function year_up :: "int \<Rightarrow> int \<Rightarrow> int" where
  "year_up d y = (if DayFromYear (y + 1) \<le> d then year_up d (y + 1) else y)"
  by pat_completeness auto
termination
proof (relation "measure (\<lambda>(d, y). nat (d - DayFromYear y))")
  show "((d, y + 1), d, y) \<in> measure (\<lambda>(d, y). nat (d - DayFromYear y))"
    if "DayFromYear (y + 1) \<le> d" for d y
    using that DayFromYear_step [of y] by simp
qed simp

declare year_up.simps [simp del]

definition YearFromDay :: "int \<Rightarrow> int" where
  "YearFromDay d = year_up d (1970 + d div (if d < 0 then 365 else 366))"

definition month_starts :: "bool \<Rightarrow> int list" where
  "month_starts leap = (let l = (if leap then 1 else 0) in
     [0, 31, 59 + l, 90 + l, 120 + l, 151 + l, 181 + l, 212 + l, 243 + l, 273 + l, 304 + l, 334 + l])"

definition leap_year :: "int \<Rightarrow> bool" where
  "leap_year y \<longleftrightarrow> DayFromYear (y + 1) - DayFromYear y = 366"

definition MonthDay :: "int \<Rightarrow> int \<times> int" where
  "MonthDay d = (let y = YearFromDay d; k = d - DayFromYear y; past = filter (\<lambda>s. s \<le> k) (month_starts (leap_year y))
     in (int (length past), k - last past + 1))"

definition pad :: "nat \<Rightarrow> int \<Rightarrow> string" where
  "pad w i = map digit_char (digits_of 10 w (nat i))"

definition dateText :: "int \<Rightarrow> string" where
  "dateText d = pad 4 (YearFromDay d) @ ''-'' @ pad 2 (fst (MonthDay d)) @ ''-'' @ pad 2 (snd (MonthDay d))"

definition clockText :: "int \<Rightarrow> string" where
  "clockText u = pad 2 (u div 3600000) @ '':'' @ pad 2 (u div 60000 mod 60) @ '':'' @ pad 2 (u div 1000 mod 60)
     @ ''.'' @ pad 3 (u mod 1000)"

definition msPerDay :: int where
  "msPerDay = 86400000"

definition toISOString :: "int \<Rightarrow> string" where
  "toISOString t = dateText (t div msPerDay) @ ''T'' @ clockText (t mod msPerDay) @ ''Z''"

section \<open>\<open>pgTime\<close>\<close>

text \<open>The layout test \<^verbatim>\<open>/^\d{4}-\d\d-\d\dT\d\d:\d\d:\d\d(\.\d+)?Z$/\<close>.\<close>

definition iso_layout :: "string \<Rightarrow> bool" where
  "iso_layout s \<longleftrightarrow> 20 \<le> length s \<and>
     (\<forall>i \<in> {0, 1, 2, 3, 5, 6, 8, 9, 11, 12, 14, 15, 17, 18}. is_digit (s ! i)) \<and>
     s ! 4 = CHR ''-'' \<and> s ! 7 = CHR ''-'' \<and> s ! 10 = CHR ''T'' \<and> s ! 13 = CHR '':'' \<and> s ! 16 = CHR '':'' \<and>
     last s = CHR ''Z'' \<and>
     (length s = 20 \<or> (22 \<le> length s \<and> s ! 19 = CHR ''.'' \<and> (\<forall>c \<in> set (butlast (drop 20 s)). is_digit c)))"

text \<open>\<open>date_parse\<close> is \<open>new Date(text)\<close> for any other text: its time value, or \<open>None\<close> for an invalid date.
  The recursive call then sees the text of a date, which has the layout.\<close>

definition pgTime :: "(string \<Rightarrow> int option) \<Rightarrow> string \<Rightarrow> string + string" where
  "pgTime date_parse txt =
     (if iso_layout txt then Inr (butlast txt @ ''+00:00'')
      else (case date_parse txt of
        None \<Rightarrow> Inl (''Invalid timestamp: '' @ txt)
      | Some t \<Rightarrow> Inr (butlast (toISOString t) @ ''+00:00'')))"

definition pgTimeDate :: "int \<Rightarrow> string" where
  "pgTimeDate t = butlast (toISOString t) @ ''+00:00''"


section \<open>Text order is time order\<close>

lemma list_less_append:
  fixes a b :: "'a :: linorder list"
  assumes "length a = length b" "a < b \<or> a = b \<and> x < y"
  shows "a @ x < b @ y"
  using assms
proof (induction a b rule: list_induct2)
  case Nil
  then show ?case by simp
next
  case (Cons p ps q qs)
  then show ?case by (auto simp: Cons_less_Cons)
qed

lemma digit_char_less: "i < j \<Longrightarrow> j < 10 \<Longrightarrow> digit_char i < digit_char j"
  by (simp add: less_char_def digit_char_def)

lemma digits_text_less:
  "i < j \<Longrightarrow> j < 10 ^ w \<Longrightarrow> map digit_char (digits_of 10 w i) < map digit_char (digits_of 10 w j)"
proof (induction w arbitrary: i j)
  case 0
  then show ?case by simp
next
  case (Suc w)
  have j: "j div 10 < 10 ^ w" using Suc.prems(2) by (simp add: less_mult_imp_div_less mult.commute)
  have "i div 10 < j div 10 \<or> i div 10 = j div 10 \<and> i mod 10 < j mod 10"
    using Suc.prems(1) div_mult_mod_eq [of i 10] div_mult_mod_eq [of j 10] div_le_mono [of i j 10] by linarith
  then show ?case
  proof
    assume "i div 10 < j div 10"
    from Suc.IH [OF this j] show ?thesis by (auto intro: list_less_append)
  next
    assume "i div 10 = j div 10 \<and> i mod 10 < j mod 10"
    then show ?thesis by (auto intro!: list_less_append digit_char_less)
  qed
qed

lemma length_pad [simp]: "length (pad w i) = w"
  by (simp add: pad_def)

lemma pad_less: "0 \<le> i \<Longrightarrow> i < j \<Longrightarrow> j < 10 ^ w \<Longrightarrow> pad w i < pad w j"
  unfolding pad_def by (rule digits_text_less) (auto simp: nat_less_iff)

lemma fields_less:
  assumes "0 \<le> i" "j < 10 ^ w" "i < j \<or> i = j \<and> x < y"
  shows "pad w i @ x < pad w j @ y"
  using assms by (auto intro!: list_less_append pad_less)

lemma radix_less:
  fixes a b r s K :: int
  assumes "K * a + r < K * b + s" "0 \<le> r" "s < K" "0 < K"
  shows "a < b \<or> a = b \<and> r < s"
proof (cases "a = b")
  case False
  have "\<not> b < a"
  proof
    assume "b < a"
    then have "K * (b + 1) \<le> K * a" using assms(4) by (intro mult_left_mono) auto
    then show False using assms by (simp add: algebra_simps)
  qed
  with False show ?thesis by simp
qed (use assms in simp)

lemma clock_fields_less:
  fixes h m s f h' m' s' f' :: int
  assumes "3600000 * h + (60000 * m + (1000 * s + f)) < 3600000 * h' + (60000 * m' + (1000 * s' + f'))"
    and "0 \<le> m" "0 \<le> s" "0 \<le> f" "m' < 60" "s' < 60" "f' < 1000"
  shows "h < h' \<or> h = h' \<and> (m < m' \<or> m = m' \<and> (s < s' \<or> s = s' \<and> f < f'))"
proof -
  have "h < h' \<or> h = h' \<and> 60000 * m + (1000 * s + f) < 60000 * m' + (1000 * s' + f')"
    using assms by (intro radix_less [of 3600000]) simp_all
  moreover have "m < m' \<or> m = m' \<and> 1000 * s + f < 1000 * s' + f'"
    if "60000 * m + (1000 * s + f) < 60000 * m' + (1000 * s' + f')"
    using that assms by (intro radix_less [of 60000]) simp_all
  moreover have "s < s' \<or> s = s' \<and> f < f'" if "1000 * s + f < 1000 * s' + f'"
    using that assms by (intro radix_less [of 1000]) simp_all
  ultimately show ?thesis by blast
qed

lemma clockText_less:
  assumes "0 \<le> u" "u < v" "v < msPerDay"
  shows "clockText u @ x < clockText v @ y"
proof -
  let ?h = "\<lambda>u. u div 3600000 :: int" and ?m = "\<lambda>u. u div 60000 mod 60 :: int"
  let ?s = "\<lambda>u. u div 1000 mod 60 :: int" and ?f = "\<lambda>u. u mod 1000 :: int"
  have v: "v < 86400000" using assms(3) by (simp add: msPerDay_def)
  have rec: "u = 3600000 * ?h u + (60000 * ?m u + (1000 * ?s u + ?f u))" for u :: int
  proof -
    have "u div 1000 div 60 = u div 60000" "u div 60000 div 60 = u div 3600000"
      by (simp_all flip: zdiv_zmult2_eq)
    then show ?thesis
      using mult_div_mod_eq [of 1000 u] mult_div_mod_eq [of 60 "u div 1000"] mult_div_mod_eq [of 60 "u div 60000"]
      by linarith
  qed
  have rng: "0 \<le> ?m u" "?m u < 60" "0 \<le> ?s u" "?s u < 60" "0 \<le> ?f u" "?f u < 1000" for u :: int by simp_all
  have h: "0 \<le> ?h u" "?h v < 24" using assms v by auto
  have "?h u < ?h v \<or> ?h u = ?h v \<and> (?m u < ?m v \<or> ?m u = ?m v \<and> (?s u < ?s v \<or> ?s u = ?s v \<and> ?f u < ?f v))"
    by (rule clock_fields_less) (use rec [of u] rec [of v] rng [of u] rng [of v] assms(2) in \<open>simp_all only:\<close>)
  note ord = this
  have f: "pad 3 (?f u) @ x < pad 3 (?f v) @ y" if "?f u < ?f v"
    by (intro fields_less) (use that rng [of v] in auto)
  have s: "pad 2 (?s u) @ ''.'' @ pad 3 (?f u) @ x < pad 2 (?s v) @ ''.'' @ pad 3 (?f v) @ y"
    if "?s u < ?s v \<or> ?s u = ?s v \<and> ?f u < ?f v"
    by (intro fields_less) (use that f rng [of v] in auto)
  have m: "pad 2 (?m u) @ '':'' @ pad 2 (?s u) @ ''.'' @ pad 3 (?f u) @ x
      < pad 2 (?m v) @ '':'' @ pad 2 (?s v) @ ''.'' @ pad 3 (?f v) @ y"
    if "?m u < ?m v \<or> ?m u = ?m v \<and> (?s u < ?s v \<or> ?s u = ?s v \<and> ?f u < ?f v)"
    by (intro fields_less) (use that s rng [of v] in auto)
  show ?thesis
    unfolding clockText_def append_assoc
    by (intro fields_less) (use h ord m in auto)
qed
lemma DayFromYear_1970: "DayFromYear 1970 = 0"
  by (simp add: DayFromYear_def)

lemma DayFromYear_upper: "0 \<le> k \<Longrightarrow> DayFromYear (1970 + k) \<le> 366 * k"
proof (induction k rule: int_ge_induct [where k = 0])
  case base
  show ?case by (simp add: DayFromYear_1970)
next
  case (step k)
  then show ?case using DayFromYear_step_le [of "1970 + k"] by (simp add: add.assoc)
qed

lemma year_up_spec:
  "DayFromYear y \<le> d \<Longrightarrow> y \<le> year_up d y \<and> DayFromYear (year_up d y) \<le> d \<and> d < DayFromYear (year_up d y + 1)"
proof (induction d y rule: year_up.induct)
  case (1 d y)
  show ?case
  proof (cases "DayFromYear (y + 1) \<le> d")
    case True
    with 1 show ?thesis by (auto simp: year_up.simps [of d y])
  next
    case False
    with 1 show ?thesis by (simp add: year_up.simps [of d y])
  qed
qed

lemma YearFromDay_spec:
  assumes "0 \<le> d"
  shows "1970 \<le> YearFromDay d" "DayFromYear (YearFromDay d) \<le> d" "d < DayFromYear (YearFromDay d + 1)"
proof -
  have q: "0 \<le> d div 366" "366 * (d div 366) \<le> d" using assms mult_div_mod_eq [of 366 d]
    by (simp_all add: pos_imp_zdiv_nonneg_iff)
  then have "DayFromYear (1970 + d div 366) \<le> d" using DayFromYear_upper [of "d div 366"] by linarith
  from year_up_spec [OF this] q(1) assms
  show "1970 \<le> YearFromDay d" "DayFromYear (YearFromDay d) \<le> d" "d < DayFromYear (YearFromDay d + 1)"
    by (auto simp: YearFromDay_def)
qed

lemma YearFromDay_mono:
  assumes "0 \<le> c" "c \<le> d"
  shows "YearFromDay c \<le> YearFromDay d"
proof (rule ccontr)
  assume "\<not> YearFromDay c \<le> YearFromDay d"
  then have "DayFromYear (YearFromDay d + 1) \<le> DayFromYear (YearFromDay c)" by (intro DayFromYear_mono) simp
  then show False using YearFromDay_spec [of c] YearFromDay_spec [of d] assms by linarith
qed

lemma YearFromDay_unique:
  assumes "0 \<le> d" "DayFromYear y \<le> d" "d < DayFromYear (y + 1)"
  shows "YearFromDay d = y"
proof (rule antisym)
  show "YearFromDay d \<le> y"
  proof (rule ccontr)
    assume "\<not> YearFromDay d \<le> y"
    then have "DayFromYear (y + 1) \<le> DayFromYear (YearFromDay d)" by (intro DayFromYear_mono) simp
    then show False using YearFromDay_spec [OF assms(1)] assms(3) by linarith
  qed
  show "y \<le> YearFromDay d"
  proof (rule ccontr)
    assume "\<not> y \<le> YearFromDay d"
    then have "DayFromYear (YearFromDay d + 1) \<le> DayFromYear y" by (intro DayFromYear_mono) simp
    then show False using YearFromDay_spec [OF assms(1)] assms(2) by linarith
  qed
qed

lemma filter_gap_bound:
  fixes xs :: "int list"
  assumes "xs \<noteq> []" "hd xs \<le> k" "k \<le> last xs + 31" "\<forall>i. Suc i < length xs \<longrightarrow> xs ! Suc i - xs ! i \<le> 31"
  shows "k - last (filter (\<lambda>s. s \<le> k) xs) \<le> 31"
  using assms
proof (induction xs rule: rev_induct)
  case Nil
  then show ?case by simp
next
  case (snoc x xs)
  show ?case
  proof (cases "x \<le> k")
    case True
    with snoc.prems show ?thesis by simp
  next
    case False
    then have ne: "xs \<noteq> []" using snoc.prems(2) by auto
    have "(xs @ [x]) ! Suc (length xs - 1) - (xs @ [x]) ! (length xs - 1) \<le> 31"
      using snoc.prems(4) [rule_format, of "length xs - 1"] ne by simp
    then have "x - last xs \<le> 31" using ne by (simp add: nth_append last_conv_nth)
    moreover have "\<forall>i. Suc i < length xs \<longrightarrow> xs ! Suc i - xs ! i \<le> 31"
    proof (intro allI impI)
      fix i assume "Suc i < length xs"
      then show "xs ! Suc i - xs ! i \<le> 31"
        using snoc.prems(4) [rule_format, of i] by (simp add: nth_append)
    qed
    ultimately have "k - last (filter (\<lambda>s. s \<le> k) xs) \<le> 31"
      using False snoc.prems ne by (intro snoc.IH) auto
    with False show ?thesis by simp
  qed
qed

lemma month_starts_facts:
  "month_starts b \<noteq> []" "hd (month_starts b) = 0" "334 \<le> last (month_starts b)" "length (month_starts b) = 12"
  by (auto simp: month_starts_def Let_def)

lemma month_starts_gaps: "\<forall>i. Suc i < length (month_starts b) \<longrightarrow> month_starts b ! Suc i - month_starts b ! i \<le> 31"
proof -
  have "\<forall>i < 11. month_starts b ! Suc i - month_starts b ! i \<le> 31"
    by (simp add: month_starts_def Let_def All_less_Suc eval_nat_numeral)
  then show ?thesis by (simp add: month_starts_facts)
qed

lemma filter_le_length: "j \<le> k \<Longrightarrow> length (filter (\<lambda>s. s \<le> j) xs) \<le> length (filter (\<lambda>s. s \<le> k) xs)"
  for j k :: int
  by (induction xs) auto

lemma filter_le_eq:
  "j \<le> k \<Longrightarrow> length (filter (\<lambda>s. s \<le> j) xs) = length (filter (\<lambda>s. s \<le> k) xs) \<Longrightarrow>
   filter (\<lambda>s. s \<le> j) xs = filter (\<lambda>s. s \<le> k) xs" for j k :: int
proof (induction xs)
  case (Cons x xs)
  then show ?case using filter_le_length [of j k xs] by (auto split: if_splits)
qed simp

lemma dateText_less:
  assumes "0 \<le> c" "c < d" "d < DayFromYear 10000"
  shows "dateText c @ x < dateText d @ y"
proof -
  have "YearFromDay d < 10000"
  proof (rule ccontr)
    assume "\<not> YearFromDay d < 10000"
    then have "DayFromYear 10000 \<le> DayFromYear (YearFromDay d)" by (intro DayFromYear_mono) simp
    then show False using YearFromDay_spec(2) [of d] assms by linarith
  qed
  note yd = this
  have yc: "0 \<le> YearFromDay c" using YearFromDay_spec(1) [of c] assms by simp
  have ord: "YearFromDay c < YearFromDay d \<or> YearFromDay c = YearFromDay d \<and>
      (fst (MonthDay c) < fst (MonthDay d) \<or> fst (MonthDay c) = fst (MonthDay d) \<and> snd (MonthDay c) < snd (MonthDay d))"
  proof (cases "YearFromDay c = YearFromDay d")
    case False
    with YearFromDay_mono [of c d] assms show ?thesis by simp
  next
    case True
    define m where "m = month_starts (leap_year (YearFromDay d))"
    define j k where jk: "j = c - DayFromYear (YearFromDay d)" "k = d - DayFromYear (YearFromDay d)"
    have "j < k" using assms jk by simp
    have md: "MonthDay c = (int (length (filter (\<lambda>s. s \<le> j) m)), j - last (filter (\<lambda>s. s \<le> j) m) + 1)"
      "MonthDay d = (int (length (filter (\<lambda>s. s \<le> k) m)), k - last (filter (\<lambda>s. s \<le> k) m) + 1)"
      by (simp_all add: MonthDay_def Let_def True m_def jk)
    show ?thesis
      using filter_le_length [of j k m] filter_le_eq [of j k m] \<open>j < k\<close>
      by (cases "length (filter (\<lambda>s. s \<le> j) m) = length (filter (\<lambda>s. s \<le> k) m)") (auto simp: md True)
  qed
  have rng: "0 \<le> fst (MonthDay e)" "fst (MonthDay e) < 100" "snd (MonthDay e) < 100" "0 \<le> snd (MonthDay e)" if "0 \<le> e" for e
  proof -
    let ?m = "month_starts (leap_year (YearFromDay e))" and ?k = "e - DayFromYear (YearFromDay e)"
    let ?p = "filter (\<lambda>s. s \<le> ?k) ?m"
    have k: "0 \<le> ?k" "?k \<le> 365" using YearFromDay_spec [OF that] DayFromYear_step_le [of "YearFromDay e"] by linarith+
    have "length ?p \<le> 12" using length_filter_le [of "\<lambda>s. s \<le> ?k" ?m] month_starts_facts(4) by simp
    moreover have "?k - last ?p \<le> 31"
      using k month_starts_facts [of "leap_year (YearFromDay e)"] month_starts_gaps by (intro filter_gap_bound) auto
    moreover have "0 \<in> set ?p"
      using k hd_in_set [OF month_starts_facts(1), of "leap_year (YearFromDay e)"] by (simp add: month_starts_facts(2))
    then have "last ?p \<in> set ?p" by (metis last_in_set empty_iff list.set(1))
    then have "last ?p \<le> ?k" by simp
    ultimately show "0 \<le> fst (MonthDay e)" "fst (MonthDay e) < 100" "snd (MonthDay e) < 100" "0 \<le> snd (MonthDay e)"
      by (simp_all add: MonthDay_def Let_def)
  qed
  have dd: "pad 2 (snd (MonthDay c)) @ x < pad 2 (snd (MonthDay d)) @ y" if "snd (MonthDay c) < snd (MonthDay d)"
    by (intro fields_less) (use that rng [of c] rng [of d] assms in auto)
  have mm: "pad 2 (fst (MonthDay c)) @ ''-'' @ pad 2 (snd (MonthDay c)) @ x
      < pad 2 (fst (MonthDay d)) @ ''-'' @ pad 2 (snd (MonthDay d)) @ y"
    if "fst (MonthDay c) < fst (MonthDay d) \<or> fst (MonthDay c) = fst (MonthDay d) \<and> snd (MonthDay c) < snd (MonthDay d)"
    by (intro fields_less) (use that dd rng [of c] rng [of d] assms in auto)
  show ?thesis
    unfolding dateText_def append_assoc by (intro fields_less) (use yc yd ord mm in auto)
qed

lemma toISOString_less:
  assumes "0 \<le> s" "s < t" "t < DayFromYear 10000 * msPerDay"
  shows "butlast (toISOString s) @ z < butlast (toISOString t) @ z'"
proof -
  have pos: "0 < msPerDay" by (simp add: msPerDay_def)
  have iso: "butlast (toISOString u) = dateText (u div msPerDay) @ ''T'' @ clockText (u mod msPerDay)" for u
    by (simp add: toISOString_def butlast_append)
  have "s div msPerDay < t div msPerDay \<or> s div msPerDay = t div msPerDay \<and> s mod msPerDay < t mod msPerDay"
    using assms(2) pos mult_div_mod_eq [of msPerDay s] mult_div_mod_eq [of msPerDay t]
    by (intro radix_less [of msPerDay]) (simp_all add: mult.commute)
  then show ?thesis
  proof
    assume less: "s div msPerDay < t div msPerDay"
    have "0 \<le> s div msPerDay" using assms(1) pos by (simp add: pos_imp_zdiv_nonneg_iff)
    moreover have "t div msPerDay < DayFromYear 10000"
    proof (rule ccontr)
      assume "\<not> t div msPerDay < DayFromYear 10000"
      then have "DayFromYear 10000 * msPerDay \<le> t div msPerDay * msPerDay"
        using pos by (intro mult_right_mono) auto
      also have "\<dots> \<le> t"
        using div_mult_mod_eq [of t msPerDay] pos_mod_sign [OF pos, of t] by linarith
      finally show False using assms(3) by simp
    qed
    ultimately show ?thesis using less unfolding iso append_assoc by (intro dateText_less)
  next
    assume eq: "s div msPerDay = t div msPerDay \<and> s mod msPerDay < t mod msPerDay"
    have "clockText (s mod msPerDay) @ z < clockText (t mod msPerDay) @ z'"
      using eq pos by (intro clockText_less) simp_all
    then show ?thesis unfolding iso append_assoc using eq by (auto intro!: list_less_append)
  qed
qed

text \<open>The last day of the year 9999, whose text the copy fence carries.\<close>

lemma dateText_last_day: "dateText 2932896 = ''9999-12-31''"
proof -
  have "YearFromDay 2932896 = 9999"
    by (rule YearFromDay_unique) (simp_all add: DayFromYear_def)
  moreover from this have "MonthDay 2932896 = (12, 31)"
    by (simp add: MonthDay_def Let_def leap_year_def DayFromYear_def month_starts_def)
  moreover have "pad 4 i = map digit_char [nat i div 10 div 10 div 10 mod 10, nat i div 10 div 10 mod 10,
      nat i div 10 mod 10, nat i mod 10]" "pad 2 i = map digit_char [nat i div 10 mod 10, nat i mod 10]" for i
  proof -
    have four: "(4 :: nat) = Suc (Suc (Suc (Suc 0)))" and two: "(2 :: nat) = Suc (Suc 0)" by simp_all
    show "pad 4 i = map digit_char [nat i div 10 div 10 div 10 mod 10, nat i div 10 div 10 mod 10,
      nat i div 10 mod 10, nat i mod 10]"
      unfolding pad_def four by simp
    show "pad 2 i = map digit_char [nat i div 10 mod 10, nat i mod 10]"
      unfolding pad_def two by simp
  qed
  moreover have "digit_char 9 = CHR ''9''" "digit_char 3 = CHR ''3''" "digit_char 2 = CHR ''2''" "digit_char 1 = CHR ''1''"
    by code_simp+
  ultimately show ?thesis by (simp add: dateText_def)
qed

lemma pgTimeDate_less_last_day:
  assumes "0 \<le> t" "t < 2932896 * msPerDay"
  shows "pgTimeDate t < ''9999-12-31'' @ x"
proof -
  have day: "0 \<le> t div msPerDay" "t div msPerDay < 2932896"
    using assms by (simp_all add: msPerDay_def pos_imp_zdiv_nonneg_iff div_less_iff_less_mult)
  have "pgTimeDate t = dateText (t div msPerDay) @ ''T'' @ clockText (t mod msPerDay) @ ''+00:00''"
    by (simp add: pgTimeDate_def toISOString_def butlast_append)
  also have "\<dots> < dateText 2932896 @ x"
    using day by (intro dateText_less) (simp_all add: DayFromYear_def)
  finally show ?thesis by (simp add: dateText_last_day)
qed

lemma pgTimeDate_mono: "0 \<le> s \<Longrightarrow> s \<le> t \<Longrightarrow> t < DayFromYear 10000 * msPerDay \<Longrightarrow> pgTimeDate s \<le> pgTimeDate t"
  using toISOString_less [of s t] by (cases "s = t") (auto simp: pgTimeDate_def order_less_le)

section \<open>Properties\<close>

text \<open>The stored time texts order like the times they stand for: for two dates from 1970 to the end of
  the year 9999, comparing the texts that \<open>pgTime\<close> writes is comparing the times. The SQL of the lock and
  of the resolver compares these texts.\<close>

theorem stored_time_order:
  assumes "0 \<le> s" "s < DayFromYear 10000 * msPerDay" "0 \<le> t" "t < DayFromYear 10000 * msPerDay"
  shows "pgTimeDate s < pgTimeDate t \<longleftrightarrow> s < t"
proof (cases s t rule: linorder_cases)
  case less
  then show ?thesis using toISOString_less [OF assms(1) less assms(4)] by (simp add: pgTimeDate_def)
next
  case equal
  then show ?thesis by simp
next
  case greater
  then have "pgTimeDate t < pgTimeDate s"
    using toISOString_less [OF assms(3) greater assms(2)] by (simp add: pgTimeDate_def)
  with greater show ?thesis by simp
qed

theorem stored_time_order_witness:
  "pgTimeDate 1767225599999 < pgTimeDate 1767225600000 \<longleftrightarrow> (1767225599999 :: int) < 1767225600000"
  by (rule stored_time_order) (simp_all add: DayFromYear_def msPerDay_def)

end
