(* ===== verification/Chain_Events.thy ===== *)
theory Chain_Events
  imports Chain_Helpers "HOL-Library.Multiset"
begin

text \<open>
  Contract events as the indexer reads them: \<open>webapp/apps/indexer/src/chain/events.ts\<close>,
  \<open>event-interpretation.ts\<close> and the three parsers under \<open>chain/parsers/\<close>.

  The Stellar SDK is not part of the repository: an \<open>ScVal\<close> is of an arbitrary type \<open>'sc\<close>, and the
  record \<open>sdk\<close> holds what the parsers call, \<open>scValToNative\<close> (which may throw) and the fields \<open>type\<close> and
  \<open>map\<close> of an \<open>ScVal\<close>, together with the text decoder and the number rendering of the runtime.

  An exception inside a parser is caught there and becomes \<open>null\<close>; the inner parsers therefore return
  \<open>string + parsed_event option\<close>. The lemmas show that whatever is parsed satisfies the ranges and formats
  the database relies on, that nothing recognised is dropped silently, and that every event the contracts
  emit (\<open>contracts/*/src/events.rs\<close>) is parsed to the event it stands for.
\<close>

section \<open>Data\<close>

record 'sc sdk =
  scValToNative :: "'sc \<Rightarrow> string + native"
  sc_type :: "'sc \<Rightarrow> string"
  sc_map :: "'sc \<Rightarrow> ('sc \<times> 'sc) list option"
  utf8_decode :: "8 word list \<Rightarrow> string"
  num_text :: "rat \<Rightarrow> string"

text \<open>An event of \<open>getEvents\<close>. \<open>ev_topic = None\<close> is a missing topic list; \<open>ev_ok\<close> is
  \<open>inSuccessfulContractCall\<close>, \<open>None\<close> when the field is absent.\<close>

record 'sc rpc_event =
  ev_id :: string
  ev_ledger :: int
  ev_closedAt :: string
  ev_txHash :: string
  ev_topic :: "'sc list option"
  ev_value :: 'sc
  ev_ok :: "bool option"

record ev_base =
  b_ledger :: int
  b_closedAt :: string
  b_txHash :: string

datatype parsed_event =
    Registered (agentId: int) string string (base: ev_base)
      \<comment> \<open>owner, agentUri\<close>
  | UriUpdated (agentId: int) string string (base: ev_base)
      \<comment> \<open>updatedBy, newUri\<close>
  | MetadataSet (agentId: int) string string (base: ev_base)
      \<comment> \<open>key, value\<close>
  | AgentWalletSet (agentId: int) string (base: ev_base)
      \<comment> \<open>newWallet\<close>
  | AgentWalletUnset (agentId: int) (base: ev_base)
  | AgentTransferred (agentId: int) string string (base: ev_base)
      \<comment> \<open>from, to\<close>
  | NewFeedback (agentId: int) string int int int string string string string string (base: ev_base)
      \<comment> \<open>clientAddress, feedbackIndex, value, valueDecimals, tag1, tag2, endpoint, feedbackUri, feedbackHash\<close>
  | FeedbackRevoked (agentId: int) string int (base: ev_base)
      \<comment> \<open>clientAddress, feedbackIndex\<close>
  | ResponseAppended (agentId: int) string string int string string (base: ev_base) string
      \<comment> \<open>clientAddress, responder, feedbackIndex, responseUri, responseHash; eventId last\<close>
  | ValidationRequest string (agentId: int) string string (base: ev_base)
      \<comment> \<open>validatorAddress; requestHash, requestUri\<close>
  | ValidationResponse string (agentId: int) string int string string string (base: ev_base)
      \<comment> \<open>validatorAddress; requestHash, response, responseUri, responseHash, tag\<close>

datatype contract_name = Identity | Reputation | Validation

record event_packet =
  pk_id :: string
  pk_contract :: contract_name
  pk_data :: parsed_event

definition is_registered :: "parsed_event \<Rightarrow> bool" where
  "is_registered e = (case e of Registered _ _ _ _ \<Rightarrow> True | _ \<Rightarrow> False)"

definition parentsFirst :: "event_packet list \<Rightarrow> event_packet list" where
  "parentsFirst events =
     filter (\<lambda>e. is_registered (pk_data e)) events @ filter (\<lambda>e. \<not> is_registered (pk_data e)) events"

section \<open>Parsers\<close>

definition event_base :: "'sc rpc_event \<Rightarrow> ev_base" where
  "event_base ev = \<lparr>b_ledger = ev_ledger ev, b_closedAt = ev_closedAt ev, b_txHash = ev_txHash ev\<rparr>"

definition unsafe_id :: "int \<Rightarrow> bool" where
  "unsafe_id n \<longleftrightarrow> \<not> \<bar>n\<bar> \<le> max_safe \<or> n < 0"

definition text_of :: "'sc sdk \<Rightarrow> native \<Rightarrow> string" where
  "text_of sdk v = js_String (num_text sdk) v"

definition AGENT_WALLET_KEY :: string where
  "AGENT_WALLET_KEY = ''agentWallet''"

definition IDENTITY_EVENT_NAMES :: "string list" where
  "IDENTITY_EVENT_NAMES =
     [''registered'', ''uri_updated'', ''metadata_set'', ''agent_wallet_set'', ''agent_wallet_unset'', ''transfer'']"

definition REPUTATION_EVENT_NAMES :: "string list" where
  "REPUTATION_EVENT_NAMES = [''new_feedback'', ''feedback_revoked'', ''response_appended'']"

definition VALIDATION_EVENT_NAMES :: "string list" where
  "VALIDATION_EVENT_NAMES = [''validation_request'', ''validation_response'']"

subsection \<open>Identity\<close>

definition parse_transfer :: "'sc sdk \<Rightarrow> 'sc rpc_event \<Rightarrow> 'sc list \<Rightarrow> string + parsed_event option" where
  "parse_transfer sdk ev topic =
     (if length topic < 3 then Inr None
      else sbind (scValToNative sdk (topic ! 1)) (\<lambda>f.
           sbind (scValToNative sdk (topic ! 2)) (\<lambda>t.
             let from = text_of sdk f; to = text_of sdk t
             in if \<not> isValidStellarAddress from \<or> \<not> isValidStellarAddress to then Inr None
                else sbind (scValToNative sdk (ev_value ev)) (\<lambda>d.
                     let data = parseEventData d
                     in sbind (toSafeInteger (num_text sdk) (getProp data ''token_id'') ''token_id'') (\<lambda>tokenId.
                          if unsafe_id tokenId then Inr None
                          else Inr (Some (AgentTransferred tokenId from to (event_base ev))))))))"

definition parse_identity_case ::
  "'sc sdk \<Rightarrow> 'sc rpc_event \<Rightarrow> 'sc list \<Rightarrow> string \<Rightarrow> int \<Rightarrow> string + parsed_event option" where
  "parse_identity_case sdk ev topic name agent =
     (if name = ''registered'' then
        (if length topic < 3 then Inr None
         else sbind (scValToNative sdk (topic ! 2)) (\<lambda>ow.
              let owner = text_of sdk ow
              in if \<not> isValidStellarAddress owner then Inr None
                 else sbind (scValToNative sdk (ev_value ev)) (\<lambda>d.
                      let data = parseEventData d
                      in sbind (bytesToUtf8 (utf8_decode sdk) (getProp data ''agent_uri'')) (\<lambda>uri.
                           Inr (Some (Registered agent owner uri (event_base ev)))))))
      else if name = ''uri_updated'' then
        (if length topic < 3 then Inr None
         else sbind (scValToNative sdk (topic ! 2)) (\<lambda>u.
              let updatedBy = text_of sdk u
              in if \<not> isValidStellarAddress updatedBy then Inr None
                 else sbind (scValToNative sdk (ev_value ev)) (\<lambda>d.
                      let data = parseEventData d
                      in sbind (bytesToUtf8 (utf8_decode sdk) (getProp data ''new_uri'')) (\<lambda>uri.
                           Inr (Some (UriUpdated agent updatedBy uri (event_base ev)))))))
      else if name = ''metadata_set'' then
        (if length topic < 3 then Inr None
         else sbind (scValToNative sdk (topic ! 2)) (\<lambda>k.
              sbind (toText (utf8_decode sdk) k) (\<lambda>key.
              sbind (scValToNative sdk (ev_value ev)) (\<lambda>d.
                let data = parseEventData d
                in sbind (bytesToUtf8 (utf8_decode sdk) (getProp data ''value'')) (\<lambda>valueText.
                     if key = AGENT_WALLET_KEY then
                       (if valueText = [] then Inr (Some (AgentWalletUnset agent (event_base ev)))
                        else if \<not> isValidStellarAddress valueText then Inr None
                        else Inr (Some (AgentWalletSet agent valueText (event_base ev))))
                     else Inr (Some (MetadataSet agent key valueText (event_base ev))))))))
      else if name = ''agent_wallet_set'' then
        (if length topic < 4 then Inr None
         else sbind (scValToNative sdk (topic ! 2)) (\<lambda>w.
              let newWallet = text_of sdk w
              in if \<not> isValidStellarAddress newWallet then Inr None
                 else Inr (Some (AgentWalletSet agent newWallet (event_base ev)))))
      else if name = ''agent_wallet_unset'' then Inr (Some (AgentWalletUnset agent (event_base ev)))
      else Inr None)"

definition parseIdentityEventInner :: "'sc sdk \<Rightarrow> 'sc rpc_event \<Rightarrow> string + parsed_event option" where
  "parseIdentityEventInner sdk ev = (case ev_topic ev of None \<Rightarrow> Inr None | Some topic \<Rightarrow>
     if length topic < 2 then Inr None
     else sbind (scValToNative sdk (topic ! 0)) (\<lambda>eventName.
       if eventName = NStr ''transfer'' then parse_transfer sdk ev topic
       else sbind (scValToNative sdk (topic ! 1)) (\<lambda>a.
            sbind (toSafeInteger (num_text sdk) a ''agent_id'') (\<lambda>agent.
              if unsafe_id agent then Inr None
              else (case eventName of
                  NStr name \<Rightarrow> parse_identity_case sdk ev topic name agent
                | _ \<Rightarrow> Inr None)))))"

definition catch_null :: "string + 'e option \<Rightarrow> 'e option" where
  "catch_null r = (case r of Inl _ \<Rightarrow> None | Inr x \<Rightarrow> x)"

definition parseIdentityEvent :: "'sc sdk \<Rightarrow> 'sc rpc_event \<Rightarrow> parsed_event option" where
  "parseIdentityEvent sdk ev = catch_null (parseIdentityEventInner sdk ev)"

subsection \<open>Reputation\<close>

definition parse_reputation_case ::
  "'sc sdk \<Rightarrow> 'sc rpc_event \<Rightarrow> 'sc list \<Rightarrow> string \<Rightarrow> int \<Rightarrow> string \<Rightarrow> string + parsed_event option" where
  "parse_reputation_case sdk ev topic name agent client =
     (if name = ''new_feedback'' then
        (if length topic < 4 then Inr None
         else sbind (scValToNative sdk (topic ! 3)) (\<lambda>t.
              sbind (toText (utf8_decode sdk) t) (\<lambda>tag1.
              sbind (scValToNative sdk (ev_value ev)) (\<lambda>d.
                let data = parseEventData d
                in sbind (toBigInt (num_text sdk) (getProp data ''feedback_index'') ''feedback_index'') (\<lambda>idx.
                   if idx < 1 then Inr None
                   else sbind (toSafeInteger (num_text sdk)
                                (if is_nullish (getProp data ''value_decimals'') then NNum (JFin 0)
                                 else getProp data ''value_decimals'') ''value_decimals'') (\<lambda>decimals.
                        if decimals < 0 \<or> 18 < decimals then Inr None
                        else sbind (toBigInt (num_text sdk) (getProp data ''value'') ''value'') (\<lambda>val.
                             sbind (toText (utf8_decode sdk) (getProp data ''tag2'')) (\<lambda>tag2.
                             sbind (toText (utf8_decode sdk) (getProp data ''endpoint'')) (\<lambda>endpoint.
                             sbind (toText (utf8_decode sdk) (getProp data ''feedback_uri'')) (\<lambda>uri.
                               Inr (Some (NewFeedback agent client idx val decimals tag1 tag2 endpoint uri
                                 (toHex (getProp data ''feedback_hash'')) (event_base ev))))))))))))) 
      else if name = ''feedback_revoked'' then
        (if length topic < 4 then Inr None
         else sbind (scValToNative sdk (topic ! 3)) (\<lambda>i.
              sbind (toBigInt (num_text sdk) i ''feedback_index'') (\<lambda>idx.
                if idx < 1 then Inr None
                else Inr (Some (FeedbackRevoked agent client idx (event_base ev))))))
      else if name = ''response_appended'' then
        (if length topic < 4 then Inr None
         else sbind (scValToNative sdk (topic ! 3)) (\<lambda>r.
              let responder = text_of sdk r
              in if \<not> isValidStellarAddress responder then Inr None
                 else sbind (scValToNative sdk (ev_value ev)) (\<lambda>d.
                      let data = parseEventData d
                      in sbind (toBigInt (num_text sdk) (getProp data ''feedback_index'') ''feedback_index'') (\<lambda>idx.
                         if idx < 1 then Inr None
                         else sbind (toText (utf8_decode sdk) (getProp data ''response_uri'')) (\<lambda>uri.
                                Inr (Some (ResponseAppended agent client responder idx uri
                                  (toHex (getProp data ''response_hash'')) (event_base ev) (ev_id ev))))))))
      else Inr None)"

definition parseReputationEventInner :: "'sc sdk \<Rightarrow> 'sc rpc_event \<Rightarrow> string + parsed_event option" where
  "parseReputationEventInner sdk ev = (case ev_topic ev of None \<Rightarrow> Inr None | Some topic \<Rightarrow>
     if length topic < 3 then Inr None
     else sbind (scValToNative sdk (topic ! 0)) (\<lambda>eventName.
          sbind (scValToNative sdk (topic ! 1)) (\<lambda>a.
          sbind (toSafeInteger (num_text sdk) a ''agent_id'') (\<lambda>agent.
            if unsafe_id agent then Inr None
            else sbind (scValToNative sdk (topic ! 2)) (\<lambda>c.
                 let client = text_of sdk c
                 in if \<not> isValidStellarAddress client then Inr None
                    else (case eventName of
                        NStr name \<Rightarrow> parse_reputation_case sdk ev topic name agent client
                      | _ \<Rightarrow> Inr None))))))"

definition parseReputationEvent :: "'sc sdk \<Rightarrow> 'sc rpc_event \<Rightarrow> parsed_event option" where
  "parseReputationEvent sdk ev = catch_null (parseReputationEventInner sdk ev)"

subsection \<open>Validation\<close>

text \<open>\<open>entries.find((e) => scValToNative(e.key) === 'request_uri')\<close>: the conversion may throw on any
  key before the match.\<close>

fun find_entry :: "'sc sdk \<Rightarrow> string \<Rightarrow> ('sc \<times> 'sc) list \<Rightarrow> string + 'sc option" where
  "find_entry sdk name [] = Inr None"
| "find_entry sdk name ((k, v) # rest) =
     sbind (scValToNative sdk k) (\<lambda>n. if n = NStr name then Inr (Some v) else find_entry sdk name rest)"

definition parse_validation_case ::
  "'sc sdk \<Rightarrow> 'sc rpc_event \<Rightarrow> string \<Rightarrow> string \<Rightarrow> int \<Rightarrow> string \<Rightarrow> string + parsed_event option" where
  "parse_validation_case sdk ev name validator agent hash =
     (if name = ''validation_request'' then
        (if sc_type sdk (ev_value ev) \<noteq> ''scvMap'' then Inr None
         else sbind (case sc_map sdk (ev_value ev) of None \<Rightarrow> Inr None | Some es \<Rightarrow> find_entry sdk ''request_uri'' es)
           (\<lambda>requestUri. case requestUri of
               None \<Rightarrow> Inr None
             | Some u \<Rightarrow>
                 if sc_type sdk u \<noteq> ''scvString'' then Inr None
                 else sbind (scValToNative sdk u) (\<lambda>n.
                      sbind (bytesToUtf8 (utf8_decode sdk) n) (\<lambda>uri.
                        Inr (Some (ValidationRequest validator agent hash uri (event_base ev)))))))
      else if name = ''validation_response'' then
        sbind (scValToNative sdk (ev_value ev)) (\<lambda>d.
          let data = parseEventData d
          in if is_nullish (getProp data ''response'') then Inr None
             else sbind (toSafeInteger (num_text sdk) (getProp data ''response'') ''response'') (\<lambda>response.
                  if response < 0 \<or> 100 < response then Inr None
                  else sbind (toText (utf8_decode sdk) (getProp data ''response_uri'')) (\<lambda>uri.
                       sbind (toText (utf8_decode sdk) (getProp data ''tag'')) (\<lambda>tag.
                         Inr (Some (ValidationResponse validator agent hash response uri
                           (toHex (getProp data ''response_hash'')) tag (event_base ev)))))))
      else Inr None)"

definition parseValidationEventInner :: "'sc sdk \<Rightarrow> 'sc rpc_event \<Rightarrow> string + parsed_event option" where
  "parseValidationEventInner sdk ev = (case ev_topic ev of None \<Rightarrow> Inr None | Some topic \<Rightarrow>
     if length topic < 4 then Inr None
     else sbind (scValToNative sdk (topic ! 0)) (\<lambda>eventName.
          sbind (scValToNative sdk (topic ! 1)) (\<lambda>v.
            let validator = text_of sdk v
            in if \<not> isValidStellarAddress validator then Inr None
               else sbind (scValToNative sdk (topic ! 2)) (\<lambda>a.
                    sbind (toSafeInteger (num_text sdk) a ''agent_id'') (\<lambda>agent.
                      if unsafe_id agent then Inr None
                      else sbind (scValToNative sdk (topic ! 3)) (\<lambda>h.
                           let hash = toHex h
                           in if length hash \<noteq> 64 then Inr None
                              else (case eventName of
                                  NStr name \<Rightarrow> parse_validation_case sdk ev name validator agent hash
                                | _ \<Rightarrow> Inr None)))))))"

definition parseValidationEvent :: "'sc sdk \<Rightarrow> 'sc rpc_event \<Rightarrow> parsed_event option" where
  "parseValidationEvent sdk ev = catch_null (parseValidationEventInner sdk ev)"

section \<open>Interpretation\<close>

datatype 'e event_interpretation = Parsed 'e | Ignored string | Invalid string

definition interpretEvent ::
  "'sc sdk \<Rightarrow> 'sc rpc_event \<Rightarrow> string list \<Rightarrow> ('sc rpc_event \<Rightarrow> 'e option) \<Rightarrow> 'e event_interpretation" where
  "interpretEvent sdk ev recognizedNames parse =
     (if ev_ok ev = Some False then Ignored ''unsuccessful''
      else (case parse ev of
          Some e \<Rightarrow> Parsed e
        | None \<Rightarrow>
            (case ev_topic ev of
               None \<Rightarrow> Invalid ''Missing event name topic''
             | Some [] \<Rightarrow> Invalid ''Missing event name topic''
             | Some (t # ts) \<Rightarrow>
                 (case scValToNative sdk t of
                    Inl message \<Rightarrow> Invalid message
                  | Inr (NStr name) \<Rightarrow>
                      if name \<notin> set recognizedNames then Ignored ''unrelated''
                      else Invalid (''Malformed recognized event: '' @ name)
                  | Inr _ \<Rightarrow> Invalid ''Invalid event name topic''))))"

text \<open>The table \<open>interpret\<close> of \<open>indexer.ts\<close>.\<close>

definition event_names :: "contract_name \<Rightarrow> string list" where
  "event_names c = (case c of Identity \<Rightarrow> IDENTITY_EVENT_NAMES | Reputation \<Rightarrow> REPUTATION_EVENT_NAMES
     | Validation \<Rightarrow> VALIDATION_EVENT_NAMES)"

definition parse_event :: "'sc sdk \<Rightarrow> contract_name \<Rightarrow> 'sc rpc_event \<Rightarrow> parsed_event option" where
  "parse_event sdk c = (case c of Identity \<Rightarrow> parseIdentityEvent sdk | Reputation \<Rightarrow> parseReputationEvent sdk
     | Validation \<Rightarrow> parseValidationEvent sdk)"

definition interpret_contract :: "'sc sdk \<Rightarrow> contract_name \<Rightarrow> 'sc rpc_event \<Rightarrow> parsed_event event_interpretation" where
  "interpret_contract sdk c ev = interpretEvent sdk ev (event_names c) (parse_event sdk c)"

section \<open>What a parsed event is known to satisfy\<close>

definition id_ok :: "int \<Rightarrow> bool" where
  "id_ok n \<longleftrightarrow> 0 \<le> n \<and> n \<le> max_safe"

definition hash_ok :: "string \<Rightarrow> bool" where
  "hash_ok h \<longleftrightarrow> (\<forall>c \<in> set h. is_lower_hex c)"

fun event_ok :: "parsed_event \<Rightarrow> bool" where
  "event_ok (Registered a owner uri b) \<longleftrightarrow> id_ok a \<and> isValidStellarAddress owner"
| "event_ok (UriUpdated a who uri b) \<longleftrightarrow> id_ok a \<and> isValidStellarAddress who"
| "event_ok (MetadataSet a k v b) \<longleftrightarrow> id_ok a \<and> k \<noteq> AGENT_WALLET_KEY"
| "event_ok (AgentWalletSet a w b) \<longleftrightarrow> id_ok a \<and> isValidStellarAddress w"
| "event_ok (AgentWalletUnset a b) \<longleftrightarrow> id_ok a"
| "event_ok (AgentTransferred a f t b) \<longleftrightarrow> id_ok a \<and> isValidStellarAddress f \<and> isValidStellarAddress t"
| "event_ok (NewFeedback a c i v d t1 t2 e u h b) \<longleftrightarrow>
     id_ok a \<and> isValidStellarAddress c \<and> 1 \<le> i \<and> 0 \<le> d \<and> d \<le> 18 \<and> hash_ok h"
| "event_ok (FeedbackRevoked a c i b) \<longleftrightarrow> id_ok a \<and> isValidStellarAddress c \<and> 1 \<le> i"
| "event_ok (ResponseAppended a c r i u h b eid) \<longleftrightarrow>
     id_ok a \<and> isValidStellarAddress c \<and> isValidStellarAddress r \<and> 1 \<le> i \<and> hash_ok h"
| "event_ok (ValidationRequest v a h u b) \<longleftrightarrow>
     id_ok a \<and> isValidStellarAddress v \<and> hash_ok h \<and> length h = 64"
| "event_ok (ValidationResponse v a h r u rh t b) \<longleftrightarrow>
     id_ok a \<and> isValidStellarAddress v \<and> hash_ok h \<and> length h = 64 \<and> 0 \<le> r \<and> r \<le> 100 \<and> hash_ok rh"

text \<open>The contract an event type belongs to, and the topic names that stand for it.\<close>

fun event_contract :: "parsed_event \<Rightarrow> contract_name" where
  "event_contract (NewFeedback a c i v d t1 t2 e u h b) = Reputation"
| "event_contract (FeedbackRevoked a c i b) = Reputation"
| "event_contract (ResponseAppended a c r i u h b eid) = Reputation"
| "event_contract (ValidationRequest v a h u b) = Validation"
| "event_contract (ValidationResponse v a h r u rh t b) = Validation"
| "event_contract e = Identity"

definition parsed_ok :: "'sc rpc_event \<Rightarrow> contract_name \<Rightarrow> parsed_event \<Rightarrow> bool" where
  "parsed_ok ev c e \<longleftrightarrow> event_ok e \<and> base e = event_base ev \<and> event_contract e = c"

lemma hash_ok_toHex [simp]: "hash_ok (toHex v)"
  by (simp add: hash_ok_def toHex_lower)

lemma id_ok_iff: "\<not> unsafe_id n \<longleftrightarrow> id_ok n"
  by (auto simp: unsafe_id_def id_ok_def)

lemmas parse_split = sbind_eq_Inr Let_def

lemma parse_transfer_ok:
  "parse_transfer sdk ev topic = Inr (Some e) \<Longrightarrow> parsed_ok ev Identity e"
  by (auto simp: parse_transfer_def parse_split parsed_ok_def id_ok_iff split: if_splits)

lemma parse_identity_case_ok:
  "parse_identity_case sdk ev topic name agent = Inr (Some e) \<Longrightarrow> id_ok agent \<Longrightarrow>
     parsed_ok ev Identity e \<and> name \<in> set IDENTITY_EVENT_NAMES"
  by (auto simp: parse_identity_case_def parse_split parsed_ok_def IDENTITY_EVENT_NAMES_def
      split: if_splits)

lemma parse_reputation_case_ok:
  "parse_reputation_case sdk ev topic name agent client = Inr (Some e) \<Longrightarrow> id_ok agent \<Longrightarrow>
   isValidStellarAddress client \<Longrightarrow> parsed_ok ev Reputation e \<and> name \<in> set REPUTATION_EVENT_NAMES"
  by (auto simp: parse_reputation_case_def parse_split parsed_ok_def REPUTATION_EVENT_NAMES_def
      split: if_splits)

lemma parse_validation_case_ok:
  "parse_validation_case sdk ev name validator agent hash = Inr (Some e) \<Longrightarrow> id_ok agent \<Longrightarrow>
   isValidStellarAddress validator \<Longrightarrow> hash_ok hash \<Longrightarrow> length hash = 64 \<Longrightarrow>
   parsed_ok ev Validation e \<and> name \<in> set VALIDATION_EVENT_NAMES"
  by (auto simp: parse_validation_case_def parse_split parsed_ok_def VALIDATION_EVENT_NAMES_def
      split: if_splits option.splits)

text \<open>The name topic of an event: \<open>Some n\<close> when the first topic is readable as the string \<open>n\<close>.\<close>

definition topic_name :: "'sc sdk \<Rightarrow> 'sc rpc_event \<Rightarrow> string option" where
  "topic_name sdk ev = (case ev_topic ev of Some (t # ts) \<Rightarrow>
     (case scValToNative sdk t of Inr (NStr n) \<Rightarrow> Some n | _ \<Rightarrow> None) | _ \<Rightarrow> None)"

lemma topic_nameI: "ev_topic ev = Some ts \<Longrightarrow> ts \<noteq> [] \<Longrightarrow> scValToNative sdk (ts ! 0) = Inr (NStr n) \<Longrightarrow>
   topic_name sdk ev = Some n"
  by (cases ts) (auto simp: topic_name_def)

lemma catch_null_Some: "catch_null r = Some e \<longleftrightarrow> r = Inr (Some e)"
  by (cases r) (auto simp: catch_null_def)

lemma string_case_Some:
  "(case n of NStr s \<Rightarrow> f s | _ \<Rightarrow> Inr None) = Inr (Some e) \<longleftrightarrow> (\<exists>s. n = NStr s \<and> f s = Inr (Some e))"
  by (cases n) auto

lemma parseIdentityEvent_ok:
  assumes "parseIdentityEvent sdk ev = Some e"
  shows "parsed_ok ev Identity e \<and> topic_name sdk ev \<in> Some ` set IDENTITY_EVENT_NAMES"
proof -
  obtain ts n where ts: "ev_topic ev = Some ts" "\<not> length ts < 2" "scValToNative sdk (ts ! 0) = Inr n"
    and n: "n = NStr ''transfer'' \<and> parse_transfer sdk ev ts = Inr (Some e)
      \<or> (\<exists>name a. n = NStr name \<and> id_ok a \<and> parse_identity_case sdk ev ts name a = Inr (Some e))"
    using assms
    by (auto simp: parseIdentityEvent_def catch_null_Some parseIdentityEventInner_def parse_split
        string_case_Some id_ok_iff split: option.splits if_splits)
  from ts(2) have "ts \<noteq> []" by auto
  with ts have name: "n = NStr name \<Longrightarrow> topic_name sdk ev = Some name" for name
    by (blast intro: topic_nameI)
  from n show ?thesis
  proof (elim disjE conjE exE)
    assume "n = NStr ''transfer''" "parse_transfer sdk ev ts = Inr (Some e)"
    then show ?thesis
      using parse_transfer_ok name by (auto simp: IDENTITY_EVENT_NAMES_def)
  next
    fix nm a
    assume "n = NStr nm" "id_ok a" "parse_identity_case sdk ev ts nm a = Inr (Some e)"
    with parse_identity_case_ok [OF this(3,2)] name [OF this(1)] show ?thesis by simp
  qed
qed

lemma parseReputationEvent_ok:
  assumes "parseReputationEvent sdk ev = Some e"
  shows "parsed_ok ev Reputation e \<and> topic_name sdk ev \<in> Some ` set REPUTATION_EVENT_NAMES"
proof -
  obtain ts name a c where "ev_topic ev = Some ts" "\<not> length ts < 3" "scValToNative sdk (ts ! 0) = Inr (NStr name)"
    and "id_ok a" "isValidStellarAddress c" "parse_reputation_case sdk ev ts name a c = Inr (Some e)"
    using assms
    by (auto simp: parseReputationEvent_def catch_null_Some parseReputationEventInner_def parse_split
        string_case_Some id_ok_iff split: option.splits if_splits)
  moreover from this have "ts \<noteq> []" by auto
  ultimately show ?thesis
    using parse_reputation_case_ok topic_nameI by blast
qed

lemma parseValidationEvent_ok:
  assumes "parseValidationEvent sdk ev = Some e"
  shows "parsed_ok ev Validation e \<and> topic_name sdk ev \<in> Some ` set VALIDATION_EVENT_NAMES"
proof -
  obtain ts name v a h where "ev_topic ev = Some ts" "\<not> length ts < 4" "scValToNative sdk (ts ! 0) = Inr (NStr name)"
    and "id_ok a" "isValidStellarAddress v" "length (toHex h) = 64"
      "parse_validation_case sdk ev name v a (toHex h) = Inr (Some e)"
    using assms
    by (auto simp: parseValidationEvent_def catch_null_Some parseValidationEventInner_def parse_split
        string_case_Some id_ok_iff split: option.splits if_splits)
  moreover from this have "ts \<noteq> []" by auto
  ultimately show ?thesis
    using parse_validation_case_ok [of sdk ev name v a "toHex h" e] topic_nameI hash_ok_toHex by blast
qed

lemma parse_event_ok:
  assumes "parse_event sdk c ev = Some e"
  shows "parsed_ok ev c e" "topic_name sdk ev \<in> Some ` set (event_names c)"
  using assms parseIdentityEvent_ok parseReputationEvent_ok parseValidationEvent_ok
  by (cases c; fastforce simp: parse_event_def event_names_def)+

lemma interpret_cases:
  "interpret_contract sdk c ev = Parsed e \<longleftrightarrow> ev_ok ev \<noteq> Some False \<and> parse_event sdk c ev = Some e"
  by (auto simp: interpret_contract_def interpretEvent_def split: option.splits list.splits sum.splits native.splits)

lemma interpret_ignored:
  "(\<exists>why. interpret_contract sdk c ev = Ignored why) \<longleftrightarrow>
     ev_ok ev = Some False \<or> (\<exists>n. topic_name sdk ev = Some n \<and> n \<notin> set (event_names c))"
proof (cases "ev_ok ev = Some False \<or> parse_event sdk c ev = None")
  case True
  then show ?thesis
    by (auto simp: interpret_contract_def interpretEvent_def topic_name_def
        split: option.splits list.splits sum.splits native.splits)
next
  case False
  then obtain e where "parse_event sdk c ev = Some e" by auto
  with False parse_event_ok(2) [OF this] show ?thesis
    by (auto simp: interpret_contract_def interpretEvent_def)
qed

section \<open>Order of a page\<close>

lemma mset_parentsFirst: "mset (parentsFirst es) = mset es"
  by (simp add: parentsFirst_def)

lemma set_parentsFirst [simp]: "set (parentsFirst es) = set es"
  by (auto simp: parentsFirst_def)

section \<open>Events as the contracts emit them\<close>

text \<open>\<open>wire_topics\<close> and \<open>wire_body\<close> are the topics and the data of an event of
  \<open>contracts/*/src/events.rs\<close> after \<open>scValToNative\<close>: a \<open>u32\<close> is a number, a \<open>u64\<close> or \<open>i128\<close> a bigint, an
  \<open>Address\<close> or a \<open>String\<close> a string, \<open>Bytes\<close> and \<open>BytesN\<close> byte arrays and the data a map keyed by field
  name. A wallet change is a \<open>MetadataSet\<close> of the reserved key; a transfer is the NFT event of the
  OpenZeppelin base contract. \<open>enc\<close> is the UTF-8 encoding of a metadata value.\<close>

definition u32 :: "int \<Rightarrow> native" where
  "u32 n = NNum (JFin (of_int n))"

definition hex_digit :: "char \<Rightarrow> nat" where
  "hex_digit c = (if is_digit c then code_of c - 48 else code_of c - 87)"

definition hex_pair :: "char \<Rightarrow> char \<Rightarrow> 8 word" where
  "hex_pair a b = word_of_nat (16 * hex_digit a + hex_digit b)"

fun unhex :: "string \<Rightarrow> 8 word list" where
  "unhex (a # b # cs) = hex_pair a b # unhex cs"
| "unhex _ = []"

fun wire_topics :: "parsed_event \<Rightarrow> native list" where
  "wire_topics (Registered a owner uri b) = [NStr ''registered'', u32 a, NStr owner]"
| "wire_topics (UriUpdated a who uri b) = [NStr ''uri_updated'', u32 a, NStr who]"
| "wire_topics (MetadataSet a k v b) = [NStr ''metadata_set'', u32 a, NStr k]"
| "wire_topics (AgentWalletSet a w b) = [NStr ''metadata_set'', u32 a, NStr AGENT_WALLET_KEY]"
| "wire_topics (AgentWalletUnset a b) = [NStr ''metadata_set'', u32 a, NStr AGENT_WALLET_KEY]"
| "wire_topics (AgentTransferred a f t b) = [NStr ''transfer'', NStr f, NStr t]"
| "wire_topics (NewFeedback a c i v d t1 t2 e u h b) = [NStr ''new_feedback'', u32 a, NStr c, NStr t1]"
| "wire_topics (FeedbackRevoked a c i b) = [NStr ''feedback_revoked'', u32 a, NStr c, NBigInt i]"
| "wire_topics (ResponseAppended a c r i u h b eid) = [NStr ''response_appended'', u32 a, NStr c, NStr r]"
| "wire_topics (ValidationRequest v a h u b) = [NStr ''validation_request'', NStr v, u32 a, NBytes (unhex h)]"
| "wire_topics (ValidationResponse v a h r u rh t b) =
     [NStr ''validation_response'', NStr v, u32 a, NBytes (unhex h)]"

fun wire_body :: "(string \<Rightarrow> 8 word list) \<Rightarrow> parsed_event \<Rightarrow> native" where
  "wire_body enc (Registered a owner uri b) = NObj [(''agent_uri'', NStr uri)]"
| "wire_body enc (UriUpdated a who uri b) = NObj [(''new_uri'', NStr uri)]"
| "wire_body enc (MetadataSet a k v b) = NObj [(''value'', NBytes (enc v))]"
| "wire_body enc (AgentWalletSet a w b) = NObj [(''value'', NBytes (enc w))]"
| "wire_body enc (AgentWalletUnset a b) = NObj [(''value'', NBytes (enc []))]"
| "wire_body enc (AgentTransferred a f t b) = NObj [(''token_id'', u32 a)]"
| "wire_body enc (NewFeedback a c i v d t1 t2 e u h b) =
     NObj [(''endpoint'', NStr e), (''feedback_hash'', NBytes (unhex h)), (''feedback_index'', NBigInt i),
           (''feedback_uri'', NStr u), (''tag2'', NStr t2), (''value'', NBigInt v), (''value_decimals'', u32 d)]"
| "wire_body enc (FeedbackRevoked a c i b) = NObj []"
| "wire_body enc (ResponseAppended a c r i u h b eid) =
     NObj [(''feedback_index'', NBigInt i), (''response_hash'', NBytes (unhex h)), (''response_uri'', NStr u)]"
| "wire_body enc (ValidationRequest v a h u b) = NObj [(''request_uri'', NStr u)]"
| "wire_body enc (ValidationResponse v a h r u rh t b) =
     NObj [(''response'', u32 r), (''response_hash'', NBytes (unhex rh)), (''response_uri'', NStr u), (''tag'', NStr t)]"

definition wire_value :: "'sc sdk \<Rightarrow> (string \<Rightarrow> 8 word list) \<Rightarrow> parsed_event \<Rightarrow> 'sc \<Rightarrow> bool" where
  "wire_value sdk enc e v \<longleftrightarrow> scValToNative sdk v = Inr (wire_body enc e) \<and>
     (case e of ValidationRequest _ _ _ uri _ \<Rightarrow>
        sc_type sdk v = ''scvMap'' \<and>
        (case sc_map sdk v of
           Some es \<Rightarrow> map (\<lambda>(k, u). (scValToNative sdk k, sc_type sdk u, scValToNative sdk u)) es =
             [(Inr (NStr ''request_uri''), ''scvString'', Inr (NStr uri))]
         | None \<Rightarrow> False)
      | _ \<Rightarrow> True)"

definition wire_event :: "'sc sdk \<Rightarrow> (string \<Rightarrow> 8 word list) \<Rightarrow> parsed_event \<Rightarrow> 'sc rpc_event \<Rightarrow> bool" where
  "wire_event sdk enc e ev \<longleftrightarrow>
     (case ev_topic ev of None \<Rightarrow> False | Some ts \<Rightarrow> map (scValToNative sdk) ts = map Inr (wire_topics e)) \<and>
     wire_value sdk enc e (ev_value ev) \<and> base e = event_base ev \<and> ev_ok ev \<noteq> Some False \<and>
     (case e of ResponseAppended _ _ _ _ _ _ _ eid \<Rightarrow> ev_id ev = eid | _ \<Rightarrow> True)"

fun event_hashes :: "parsed_event \<Rightarrow> string list" where
  "event_hashes (NewFeedback a c i v d t1 t2 e u h b) = [h]"
| "event_hashes (ResponseAppended a c r i u h b eid) = [h]"
| "event_hashes (ValidationRequest v a h u b) = [h]"
| "event_hashes (ValidationResponse v a h r u rh t b) = [h, rh]"
| "event_hashes e = []"

lemma hex_byte_unhex:
  assumes "is_lower_hex a" "is_lower_hex b"
  shows "hex_byte (hex_pair a b) = [a, b]"
proof -
  have d: "hex_digit c < 16 \<and> hex_char (hex_digit c) = c" if "is_lower_hex c" for c
    using that by (auto simp: is_lower_hex_def is_digit_def hex_char_def hex_digit_def code_of_def)
  have "16 * hex_digit a + hex_digit b < 256"
    using d [OF assms(1)] d [OF assms(2)] by linarith
  then have "unat (hex_pair a b) = 16 * hex_digit a + hex_digit b"
    unfolding hex_pair_def by (subst unat_of_nat) (simp del: of_nat_add of_nat_mult)
  then show ?thesis
    using d [OF assms(1)] d [OF assms(2)] by (simp add: hex_byte_def)
qed

lemma toHex_unhex: "hash_ok h \<Longrightarrow> even (length h) \<Longrightarrow> toHex (NBytes (unhex h)) = h"
  by (induction h rule: unhex.induct) (auto simp: toHex_def hash_ok_def hex_byte_unhex)

lemma toSafeInteger_u32: "id_ok a \<Longrightarrow> toSafeInteger fmt (u32 a) f = Inr a"
  by (auto simp: toSafeInteger_iff u32_def id_ok_def)

lemma is_nullish_u32: "\<not> is_nullish (u32 n)"
  by (simp add: is_nullish_def u32_def)

lemma small_id_ok: "0 \<le> n \<Longrightarrow> n \<le> 100 \<Longrightarrow> id_ok n"
  by (simp add: id_ok_def max_safe_def)

lemma valid_address_not_Nil: "isValidStellarAddress w \<Longrightarrow> w \<noteq> []"
  by (auto simp: isValidStellarAddress_def)

lemma map_Inr_nth: "map f ts = map Inr ns \<Longrightarrow> i < length ns \<Longrightarrow> f (ts ! i) = Inr (ns ! i)"
  by (metis length_map nth_map)

lemma contract_event_parse:
  assumes wire: "wire_event sdk enc e ev" and ok: "event_ok e" "\<forall>h \<in> set (event_hashes e). even (length h)"
    and utf8: "\<And>v. utf8_decode sdk (enc v) = v"
  shows "parse_event sdk (event_contract e) ev = Some e"
proof -
  obtain ts where ts: "ev_topic ev = Some ts" and m: "map (scValToNative sdk) ts = map Inr (wire_topics e)"
    using wire by (auto simp: wire_event_def split: option.splits)
  have len: "length ts = length (wire_topics e)" using m by (metis length_map)
  note nth = map_Inr_nth [OF m]
  have val: "wire_value sdk enc e (ev_value ev)" "base e = event_base ev"
    and eid: "case e of ResponseAppended _ _ _ _ _ _ _ eid \<Rightarrow> ev_id ev = eid | _ \<Rightarrow> True"
    using wire by (auto simp: wire_event_def)
  note facts = ts len nth [of 0] nth [of 1] nth [of 2] nth [of 3] val eid ok
  note defs = parse_event_def catch_null_Some wire_value_def utf8 toSafeInteger_u32 small_id_ok toHex_unhex
    valid_address_not_Nil id_ok_iff AGENT_WALLET_KEY_def text_of_def bytesToUtf8_def toText_def parseEventData_def
    getProp_def toBigInt_def is_nullish_u32 Let_def
  note identity = parseIdentityEvent_def parseIdentityEventInner_def parse_transfer_def parse_identity_case_def
  note reputation = parseReputationEvent_def parseReputationEventInner_def parse_reputation_case_def
  note validation = parseValidationEvent_def parseValidationEventInner_def parse_validation_case_def
  show ?thesis
  proof (cases e)
    case (Registered a owner uri b)
    with facts show ?thesis by (simp add: identity defs)
  next
    case (UriUpdated a who uri b)
    with facts show ?thesis by (simp add: identity defs)
  next
    case (MetadataSet a k v b)
    with facts show ?thesis by (simp add: identity defs)
  next
    case (AgentWalletSet a w b)
    with facts show ?thesis by (simp add: identity defs)
  next
    case (AgentWalletUnset a b)
    with facts show ?thesis by (simp add: identity defs)
  next
    case (AgentTransferred a f t b)
    with facts show ?thesis by (simp add: identity defs)
  next
    case (NewFeedback a c i v d t1 t2 en u h b)
    with facts show ?thesis by (simp add: reputation defs)
  next
    case (FeedbackRevoked a c i b)
    with facts show ?thesis by (simp add: reputation defs)
  next
    case (ResponseAppended a c r i u h b eid')
    with facts show ?thesis by (simp add: reputation defs)
  next
    case (ValidationRequest v a h u b)
    then obtain k w where "sc_map sdk (ev_value ev) = Some [(k, w)]" "scValToNative sdk k = Inr (NStr ''request_uri'')"
        "sc_type sdk w = ''scvString''" "scValToNative sdk w = Inr (NStr u)"
      using val(1) by (auto simp: wire_value_def map_eq_Cons_conv split: option.splits)
    with ValidationRequest facts show ?thesis by (simp add: validation defs)
  next
    case (ValidationResponse v a h r u rh t b)
    with facts show ?thesis by (simp add: validation defs)
  qed
qed

section \<open>Properties\<close>

text \<open>C8. Every event the registries emit is indexed as what it is: whatever Stellar SDK and text decoder satisfy
  the documented conversions, an event whose topics and data have the layout of \<open>contracts/*/src/events.rs\<close> is
  interpreted as exactly the event it encodes, ledger, close time and transaction included.\<close>

theorem contract_event_roundtrip:
  assumes "wire_event sdk enc e ev" "event_ok e" "\<forall>h \<in> set (event_hashes e). even (length h)"
    and "\<And>v. utf8_decode sdk (enc v) = v"
  shows "interpret_contract sdk (event_contract e) ev = Parsed e"
  using contract_event_parse [OF assms] assms(1) by (simp add: interpret_cases wire_event_def)

definition native_sdk :: "native sdk" where
  "native_sdk = \<lparr>scValToNative = Inr, sc_type = (\<lambda>v. case v of NObj _ \<Rightarrow> ''scvMap'' | _ \<Rightarrow> ''scvString''),
     sc_map = (\<lambda>v. case v of NObj fs \<Rightarrow> Some (map (\<lambda>(k, x). (NStr k, x)) fs) | _ \<Rightarrow> None),
     utf8_decode = map (\<lambda>b. char_of (unat b)), num_text = (\<lambda>_. [])\<rparr>"

definition byte_text :: "string \<Rightarrow> 8 word list" where
  "byte_text = map (\<lambda>c. word_of_nat (code_of c))"

lemma decode_byte_text: "utf8_decode native_sdk (byte_text v) = v"
proof -
  have "code_of c mod 256 = code_of c" for c
    by (simp add: code_of_def of_char_mod_256)
  then show ?thesis
    by (induction v) (simp_all add: native_sdk_def byte_text_def unat_of_nat code_of_def)
qed

definition sample_validator :: string where
  "sample_validator = strkey_encode STELLAR_PUBLIC_KEY_VERSION_BYTE (replicate 32 7)"

definition sample_base :: ev_base where
  "sample_base = \<lparr>b_ledger = 5, b_closedAt = ''2026-01-01T00:00:00Z'', b_txHash = ''ab''\<rparr>"

definition sample_event :: "native rpc_event" where
  "sample_event = \<lparr>ev_id = ''1-1'', ev_ledger = 5, ev_closedAt = ''2026-01-01T00:00:00Z'', ev_txHash = ''ab'',
      ev_topic = Some [NStr ''validation_request'', NStr sample_validator, NNum (JFin 9), NBytes (replicate 32 255)],
      ev_value = NObj [(''request_uri'', NStr ''ipfs://q'')], ev_ok = Some True\<rparr>"

lemma sample_validator_valid [simp]: "isValidStellarAddress sample_validator"
  unfolding sample_validator_def by (rule strkey_valid) simp_all

theorem contract_event_roundtrip_witness:
  "interpret_contract native_sdk Validation sample_event =
   Parsed (ValidationRequest sample_validator 9 (replicate 64 (CHR ''f'')) ''ipfs://q'' sample_base)"
proof -
  let ?e = "ValidationRequest sample_validator 9 (replicate 64 (CHR ''f'')) ''ipfs://q'' sample_base"
  have hash: "unhex (replicate 64 (CHR ''f'')) = replicate 32 255"
    by (simp add: eval_nat_numeral hex_pair_def hex_digit_def is_digit_def code_of_def)
  have "wire_event native_sdk byte_text ?e sample_event"
    by (simp add: wire_event_def wire_value_def event_base_def native_sdk_def sample_event_def sample_base_def
        hash u32_def)
  moreover have "event_ok ?e"
    by (simp add: hash_ok_def is_lower_hex_def is_digit_def code_of_def id_ok_def max_safe_def)
  ultimately have "interpret_contract native_sdk (event_contract ?e) sample_event = Parsed ?e"
    by (rule contract_event_roundtrip) (simp_all add: decode_byte_text)
  then show ?thesis by simp
qed

text \<open>C40. The interpretation of an event is one of three things, whatever the RPC returned. A parsed event satisfies
  every range and format the tables rely on and carries the ledger, time and transaction of the raw event; an
  event is ignored only if its call failed or its name is readable and not one of this contract; and every event
  with one of the contract's names that does not parse is reported invalid, never dropped silently.\<close>

theorem interpretation_total:
  "case interpret_contract sdk c ev of
     Parsed e \<Rightarrow> parsed_ok ev c e \<and> topic_name sdk ev \<in> Some ` set (event_names c) \<and> ev_ok ev \<noteq> Some False
   | Ignored why \<Rightarrow> ev_ok ev = Some False \<or> topic_name sdk ev \<in> Some ` (- set (event_names c))
   | Invalid why \<Rightarrow> ev_ok ev \<noteq> Some False \<and> topic_name sdk ev \<in> insert None (Some ` set (event_names c))"
proof (cases "interpret_contract sdk c ev")
  case (Parsed e)
  then have "ev_ok ev \<noteq> Some False" "parse_event sdk c ev = Some e" by (simp_all add: interpret_cases)
  with Parsed parse_event_ok [OF this(2)] show ?thesis by simp
next
  case (Ignored why)
  with interpret_ignored [of sdk c ev] show ?thesis by auto
next
  case (Invalid why)
  with interpret_ignored [of sdk c ev] show ?thesis
    by (cases "topic_name sdk ev") auto
qed

text \<open>A page is reordered so that every registration comes before the other events; nothing is lost or
  duplicated, and neither the registrations nor the other events change their order among themselves.\<close>

theorem parents_first_spec:
  "mset (parentsFirst es) = mset es \<and>
   sorted_wrt (\<lambda>x y. is_registered (pk_data y) \<le> is_registered (pk_data x)) (parentsFirst es) \<and>
   filter (\<lambda>e. is_registered (pk_data e)) (parentsFirst es) = filter (\<lambda>e. is_registered (pk_data e)) es \<and>
   filter (\<lambda>e. \<not> is_registered (pk_data e)) (parentsFirst es) = filter (\<lambda>e. \<not> is_registered (pk_data e)) es"
proof -
  have "sorted_wrt (\<lambda>x y. is_registered (pk_data y) \<le> is_registered (pk_data x)) (filter (\<lambda>e. P e) es)"
    if "(\<forall>e. P e \<longrightarrow> is_registered (pk_data e)) \<or> (\<forall>e. P e \<longrightarrow> \<not> is_registered (pk_data e))" for P
    using that by (induction es) auto
  then show ?thesis
    by (auto simp: parentsFirst_def sorted_wrt_append filter_empty_conv)
qed

end
