(* ===== verification/Db_Schema.thy ===== *)
theory Db_Schema
  imports Chain_Events Timestamps
begin

text \<open>
  The tables of \<open>webapp/packages/d1/migrations/0001_init.sql\<close> and the statements the indexer runs on them
  (\<open>webapp/apps/indexer/src/db.ts\<close>).

  A table is an association list from its primary (or unique) key to its row; \<open>feedback_responses\<close> and
  \<open>indexer_dead_letter\<close>, whose key is a row number, are lists in insertion order. A SQL boolean is a \<open>bool\<close>,
  a nullable column an \<open>option\<close>, and a JSON text column the value it holds (the CHECK admits nothing else).
  \<open>stmt\<close> has one constructor per SQL text of the indexer, with its bound parameters; \<open>exec_stmt\<close> runs one and
  returns the new database with the number of rows it changed, or the message of the constraint that failed.
  As in SQLite, CHECK is evaluated before the conflict clause and foreign keys after it.

  The invariant \<open>db_inv\<close> is what the schema declares: keys, CHECKs, references. The full-text index and the
  leaderboard view derive from the tables and are not part of the state.
\<close>

section \<open>Rows\<close>

record agent_row =
  a_owner :: string
  a_uri :: "string option"
  a_uri_data :: "native option"
  a_wallet :: "string option"
  a_created_at :: string
  a_updated_at :: string
  a_created_ledger :: "int option"
  a_tx_hash :: "string option"
  a_attempts :: int
  a_pending :: bool
  a_last_attempt :: "string option"
  a_trust :: "native list"
  a_services :: "native list"
  a_x402 :: bool
  a_mpp :: bool
  a_uri_ledger :: "int option"
  a_transferred_ledger :: "int option"

record feedback_row =
  f_value :: string
  f_decimals :: int
  f_tag1 :: "string option"
  f_tag2 :: "string option"
  f_endpoint :: "string option"
  f_uri :: "string option"
  f_hash :: "string option"
  f_revoked :: bool
  f_created_at :: string
  f_created_ledger :: "int option"
  f_tx_hash :: "string option"
  f_revoked_ledger :: "int option"

type_synonym feedback_key = "int \<times> string \<times> int"

record response_row =
  r_key :: feedback_key
  r_index :: int
  r_responder :: string
  r_uri :: "string option"
  r_hash :: "string option"
  r_created_at :: string
  r_tx_hash :: "string option"
  r_event_id :: "string option"

record validation_row =
  v_agent :: int
  v_validator :: string
  v_request_uri :: "string option"
  v_response :: "int option"
  v_response_uri :: "string option"
  v_response_hash :: "string option"
  v_tag :: "string option"
  v_has_response :: bool
  v_created_at :: string
  v_responded_at :: "string option"
  v_request_tx :: "string option"
  v_response_tx :: "string option"
  v_response_ledger :: "int option"

record state_row =
  s_last :: int
  s_updated_at :: string
  s_expected :: "int option"
  s_defers :: int
  s_advanced_at :: "string option"

record lock_row =
  l_acquired :: string
  l_owner :: "string option"

datatype reason = Skip_Retryable | Skip_Nonretryable | Retention_Clamp | Unparseable | Missing_Parent

record dead_row =
  d_contract :: contract_name
  d_reason :: reason
  d_event :: "string option"
  d_ledger :: "int option"
  d_detail :: "string option"
  d_created_at :: string

record db =
  agents :: "(int \<times> agent_row) list"
  agent_metadata :: "((int \<times> string) \<times> string option) list"
  feedback :: "(feedback_key \<times> feedback_row) list"
  responses :: "response_row list"
  validations :: "(string \<times> validation_row) list"
  indexer_state :: "(string \<times> state_row) list"
  indexer_locks :: "(string \<times> lock_row) list"
  dead_letters :: "dead_row list"

definition has :: "('k \<times> 'v) list \<Rightarrow> 'k \<Rightarrow> bool" where
  "has t k \<longleftrightarrow> map_of t k \<noteq> None"

text \<open>A decimal text compared with or stored in an INTEGER column: exact in 64 bits, a double beyond.\<close>

definition int_affinity :: "int \<Rightarrow> int" where
  "int_affinity i = (if - (2 ^ 63) \<le> i \<and> i < 2 ^ 63 then i else sgn i * int (round53 (nat \<bar>i\<bar>)))"

section \<open>Constraints\<close>

definition check_failed :: string where
  "check_failed = ''CHECK constraint failed''"

definition foreign_key_failed :: string where
  "foreign_key_failed = ''FOREIGN KEY constraint failed''"

definition text_cap :: "string \<Rightarrow> bool" where
  "text_cap s \<longleftrightarrow> length s \<le> 256"

text \<open>The two CHECKs on \<open>feedback.value\<close>: a digit first, after at most one minus sign, and after all leading
  minus signs only digits, at least one.\<close>

definition value_check :: "string \<Rightarrow> bool" where
  "value_check v \<longleftrightarrow>
     (case v of [] \<Rightarrow> False
      | c # cs \<Rightarrow> is_digit c \<or> (c = CHR ''-'' \<and> (case cs of [] \<Rightarrow> False | d # _ \<Rightarrow> is_digit d))) \<and>
     (let body = dropWhile (\<lambda>c. c = CHR ''-'') v in body \<noteq> [] \<and> (\<forall>c \<in> set body. is_digit c))"

definition agent_check :: "int \<times> agent_row \<Rightarrow> bool" where
  "agent_check kv \<longleftrightarrow> 0 \<le> fst kv \<and> text_cap (a_owner (snd kv)) \<and>
     (case a_wallet (snd kv) of None \<Rightarrow> True | Some w \<Rightarrow> text_cap w)"

definition feedback_check :: "feedback_key \<times> feedback_row \<Rightarrow> bool" where
  "feedback_check kv \<longleftrightarrow> (case kv of ((a, c, i), r) \<Rightarrow>
     text_cap c \<and> 1 \<le> i \<and> value_check (f_value r) \<and> 0 \<le> f_decimals r \<and> f_decimals r \<le> 18)"

definition response_check :: "response_row \<Rightarrow> bool" where
  "response_check r \<longleftrightarrow> text_cap (fst (snd (r_key r))) \<and> text_cap (r_responder r)"

definition validation_check :: "string \<times> validation_row \<Rightarrow> bool" where
  "validation_check kv \<longleftrightarrow> text_cap (v_validator (snd kv)) \<and>
     (case v_response (snd kv) of None \<Rightarrow> True | Some x \<Rightarrow> 0 \<le> x \<and> x \<le> 100)"

section \<open>Statements\<close>

datatype parent = Agent_Parent int | Feedback_Parent int string int | Validation_Parent string

datatype stmt =
    Sql_registered int string string bool string int string
      \<comment> \<open>id, owner, agent_uri, resolve_uri_pending, created_at, created_ledger, tx_hash\<close>
  | Sql_uriUpdated string int string int
      \<comment> \<open>agent_uri, ledger, now, id\<close>
  | Sql_metadataSet int string string
      \<comment> \<open>agent_id, key, value\<close>
  | Sql_walletSet "string option" string int
      \<comment> \<open>wallet, now, id\<close>
  | Sql_transferred string int string int
      \<comment> \<open>owner, ledger, now, id\<close>
  | Sql_newFeedback int string int string int "string option" "string option" "string option" "string option"
      "string option" string int string
      \<comment> \<open>agent_id, client_address, feedback_index, value, value_decimals, tag1, tag2, endpoint, feedback_uri,
        feedback_hash, created_at, created_ledger, tx_hash\<close>
  | Sql_feedbackRevoked int int string int
      \<comment> \<open>ledger, agent_id, client_address, feedback_index\<close>
  | Sql_responseAppended int string int string "string option" "string option" string string string
      \<comment> \<open>agent_id, client_address, feedback_index, responder, response_uri, response_hash, created_at, tx_hash, event_id\<close>
  | Sql_validationRequest string int string "string option" string string
      \<comment> \<open>request_hash, agent_id, validator_address, request_uri, created_at, request_tx_hash\<close>
  | Sql_validationResponse int "string option" "string option" "string option" string string int string
      \<comment> \<open>response, response_uri, response_hash, tag, responded_at, response_tx_hash, ledger, request_hash\<close>
  | Sql_deadLetter contract_name reason "string option" "int option" "string option"
  | Sql_missingParent contract_name string int string parent
      \<comment> \<open>contract, event_id, ledger, detail, the row looked for\<close>
  | Sql_saveState int int string string string
      \<comment> \<open>last_ledger, defer_attempts, now, contract, owner\<close>
  | Sql_refreshLock string string
      \<comment> \<open>now, owner\<close>
  | Sql_releaseLock string
  | Sql_recordTry int bool string int string
      \<comment> \<open>attempts, pending, tried at, id, agent_uri\<close>
  | Sql_storeDocument native "native list" "native list" bool bool string int string
      \<comment> \<open>agent_uri_data, supported_trust, services, x402, mpp, now, id, agent_uri\<close>

definition new_agent :: "string \<Rightarrow> string \<Rightarrow> bool \<Rightarrow> string \<Rightarrow> int \<Rightarrow> string \<Rightarrow> string \<Rightarrow> agent_row" where
  "new_agent owner uri pending created ledger tx clk =
     \<lparr>a_owner = owner, a_uri = Some uri, a_uri_data = None, a_wallet = None, a_created_at = created,
      a_updated_at = clk, a_created_ledger = Some ledger, a_tx_hash = Some tx, a_attempts = 0, a_pending = pending,
      a_last_attempt = None, a_trust = [], a_services = [], a_x402 = False, a_mpp = False,
      a_uri_ledger = None, a_transferred_ledger = None\<rparr>"

text \<open>The rows an UPDATE writes, and the guards of the ledger-guarded ones.\<close>

definition ledger_guard :: "int option \<Rightarrow> int \<Rightarrow> bool" where
  "ledger_guard col ledger \<longleftrightarrow> (case col of None \<Rightarrow> True | Some l \<Rightarrow> l \<le> ledger)"

definition set_uri :: "string \<Rightarrow> int \<Rightarrow> string \<Rightarrow> agent_row \<Rightarrow> agent_row" where
  "set_uri uri ledger now r =
     r\<lparr>a_uri := Some uri, a_uri_data := None, a_trust := [], a_services := [], a_x402 := False,
       a_mpp := False, a_attempts := 0, a_last_attempt := None, a_pending := (uri \<noteq> []),
       a_uri_ledger := Some ledger, a_updated_at := now\<rparr>"

definition uri_guard :: "string \<Rightarrow> int \<Rightarrow> agent_row \<Rightarrow> bool" where
  "uri_guard uri ledger r \<longleftrightarrow> ledger_guard (a_uri_ledger r) ledger \<and>
     \<not> (a_uri_ledger r = Some ledger \<and> a_uri r = Some uri)"

definition set_owner :: "string \<Rightarrow> int \<Rightarrow> string \<Rightarrow> agent_row \<Rightarrow> agent_row" where
  "set_owner owner ledger now r =
     r\<lparr>a_owner := owner, a_wallet := None, a_transferred_ledger := Some ledger, a_updated_at := now\<rparr>"

definition set_wallet :: "string option \<Rightarrow> string \<Rightarrow> agent_row \<Rightarrow> agent_row" where
  "set_wallet w now r = r\<lparr>a_wallet := w, a_updated_at := now\<rparr>"

definition set_revoked :: "int \<Rightarrow> feedback_row \<Rightarrow> feedback_row" where
  "set_revoked ledger r = r\<lparr>f_revoked := True, f_revoked_ledger := Some ledger\<rparr>"

definition set_response ::
  "int \<Rightarrow> string option \<Rightarrow> string option \<Rightarrow> string option \<Rightarrow> string \<Rightarrow> string \<Rightarrow> int \<Rightarrow> validation_row \<Rightarrow> validation_row" where
  "set_response x uri h tag time tx ledger r =
     r\<lparr>v_response := Some x, v_response_uri := uri, v_response_hash := h, v_tag := tag, v_has_response := True,
       v_responded_at := Some time, v_response_tx := Some tx, v_response_ledger := Some ledger\<rparr>"

definition response_index_max :: "feedback_key \<Rightarrow> response_row list \<Rightarrow> int" where
  "response_index_max k rs = (case map r_index (filter (\<lambda>r. r_key r = k) rs) of
      [] \<Rightarrow> 0 | x # xs \<Rightarrow> fold max xs x)"

fun parent_exists :: "parent \<Rightarrow> db \<Rightarrow> bool" where
  "parent_exists (Agent_Parent a) d = has (agents d) a"
| "parent_exists (Feedback_Parent a c i) d = has (feedback d) (a, c, int_affinity i)"
| "parent_exists (Validation_Parent h) d = has (validations d) h"

definition recorded :: "db \<Rightarrow> string \<Rightarrow> reason \<Rightarrow> bool" where
  "recorded d eid why \<longleftrightarrow> (\<exists>r \<in> set (dead_letters d). d_event r = Some eid \<and> d_reason r = why)"

definition add_dead :: "dead_row \<Rightarrow> db \<Rightarrow> db" where
  "add_dead r d = d\<lparr>dead_letters := dead_letters d @ [r]\<rparr>"

definition insert_row ::
  "('k \<times> 'v \<Rightarrow> bool) \<Rightarrow> (db \<Rightarrow> ('k \<times> 'v) list) \<Rightarrow> (('k \<times> 'v) list \<Rightarrow> db \<Rightarrow> db) \<Rightarrow> bool \<Rightarrow> 'k \<Rightarrow> 'v \<Rightarrow> db \<Rightarrow> string + db \<times> nat" where
  "insert_row check sel put fk k v d =
     (if \<not> check (k, v) then Inl check_failed
      else if has (sel d) k then Inr (d, 0)
      else if \<not> fk then Inl foreign_key_failed
      else Inr (put (AList.update k v (sel d)) d, 1))"

definition put_agents :: "(int \<times> agent_row) list \<Rightarrow> db \<Rightarrow> db" where
  "put_agents t d = d\<lparr>agents := t\<rparr>"

definition put_feedback :: "(feedback_key \<times> feedback_row) list \<Rightarrow> db \<Rightarrow> db" where
  "put_feedback t d = d\<lparr>feedback := t\<rparr>"

definition put_validations :: "(string \<times> validation_row) list \<Rightarrow> db \<Rightarrow> db" where
  "put_validations t d = d\<lparr>validations := t\<rparr>"

text \<open>An UPDATE of one row: CHECK is evaluated on the new row.\<close>

definition update_row ::
  "('k \<times> 'v \<Rightarrow> bool) \<Rightarrow> (db \<Rightarrow> ('k \<times> 'v) list) \<Rightarrow> (('k \<times> 'v) list \<Rightarrow> db \<Rightarrow> db) \<Rightarrow> 'k \<Rightarrow> ('v \<Rightarrow> bool) \<Rightarrow> ('v \<Rightarrow> 'v) \<Rightarrow> db \<Rightarrow> string + db \<times> nat" where
  "update_row check sel put k guard f d = (case map_of (sel d) k of
      None \<Rightarrow> Inr (d, 0)
    | Some r \<Rightarrow>
        if \<not> guard r then Inr (d, 0)
        else if \<not> check (k, f r) then Inl check_failed
        else Inr (put (AList.update k (f r) (sel d)) d, 1))"

definition indexer_lock :: string where
  "indexer_lock = ''indexer''"

definition holds_lock :: "db \<Rightarrow> string \<Rightarrow> bool" where
  "holds_lock d owner \<longleftrightarrow>
     (case map_of (indexer_locks d) indexer_lock of Some r \<Rightarrow> l_owner r = Some owner | None \<Rightarrow> False)"

section \<open>Execution\<close>

text \<open>\<open>clk\<close> is the database clock, \<open>strftime('%Y-%m-%dT%H:%M:%S+00:00', 'now')\<close> of the column defaults.\<close>

fun exec_stmt :: "string \<Rightarrow> stmt \<Rightarrow> db \<Rightarrow> string + db \<times> nat" where
  "exec_stmt clk (Sql_registered a owner uri pending created ledger tx) d =
     insert_row agent_check agents put_agents True a (new_agent owner uri pending created ledger tx clk) d"
| "exec_stmt clk (Sql_uriUpdated uri ledger now a) d =
     update_row agent_check agents put_agents a (uri_guard uri ledger) (set_uri uri ledger now) d"
| "exec_stmt clk (Sql_metadataSet a k v) d =
     (if \<not> has (agents d) a then Inl foreign_key_failed
      else Inr (d\<lparr>agent_metadata := AList.update (a, k) (Some v) (agent_metadata d)\<rparr>, 1))"
| "exec_stmt clk (Sql_walletSet w now a) d =
     update_row agent_check agents put_agents a (\<lambda>_. True) (set_wallet w now) d"
| "exec_stmt clk (Sql_transferred owner ledger now a) d =
     sbind (update_row agent_check agents put_agents a (\<lambda>r. ledger_guard (a_transferred_ledger r) ledger)
              (set_owner owner ledger now) d)
       (\<lambda>(d', n). Inr (if n = 0 then d'
          else d'\<lparr>agent_metadata := filter (\<lambda>kv. fst (fst kv) \<noteq> a) (agent_metadata d')\<rparr>, n))"
| "exec_stmt clk (Sql_newFeedback a c i v dec t1 t2 e u h created ledger tx) d =
     insert_row feedback_check feedback put_feedback (has (agents d) a) (a, c, int_affinity i)
       \<lparr>f_value = v, f_decimals = dec, f_tag1 = t1, f_tag2 = t2, f_endpoint = e, f_uri = u, f_hash = h,
        f_revoked = False, f_created_at = created, f_created_ledger = Some ledger, f_tx_hash = Some tx,
        f_revoked_ledger = None\<rparr> d"
| "exec_stmt clk (Sql_feedbackRevoked ledger a c i) d =
     update_row feedback_check feedback put_feedback (a, c, int_affinity i)
       (\<lambda>r. ledger_guard (f_revoked_ledger r) ledger) (set_revoked ledger) d"
| "exec_stmt clk (Sql_responseAppended a c i who uri h created tx eid) d =
     (let k = (a, c, int_affinity i);
          r = \<lparr>r_key = k, r_index = response_index_max k (responses d) + 1, r_responder = who, r_uri = uri,
               r_hash = h, r_created_at = created, r_tx_hash = Some tx, r_event_id = Some eid\<rparr>
      in if \<not> response_check r then Inl check_failed
         else if \<exists>x \<in> set (responses d). r_event_id x = Some eid then Inr (d, 0)
         else if \<not> has (feedback d) k then Inl foreign_key_failed
         else Inr (d\<lparr>responses := responses d @ [r]\<rparr>, 1))"
| "exec_stmt clk (Sql_validationRequest h a who uri created tx) d =
     insert_row validation_check validations put_validations (has (agents d) a) h
       \<lparr>v_agent = a, v_validator = who, v_request_uri = uri, v_response = None, v_response_uri = None,
        v_response_hash = None, v_tag = None, v_has_response = False, v_created_at = created,
        v_responded_at = None, v_request_tx = Some tx, v_response_tx = None, v_response_ledger = None\<rparr> d"
| "exec_stmt clk (Sql_validationResponse x uri rh tag time tx ledger h) d =
     update_row validation_check validations put_validations h
       (\<lambda>r. ledger_guard (v_response_ledger r) ledger) (set_response x uri rh tag time tx ledger) d"
| "exec_stmt clk (Sql_deadLetter c why eid ledger detail) d =
     (if (case eid of None \<Rightarrow> False | Some e \<Rightarrow> recorded d e why) then Inr (d, 0)
      else Inr (add_dead \<lparr>d_contract = c, d_reason = why, d_event = eid, d_ledger = ledger, d_detail = detail,
                  d_created_at = clk\<rparr> d, 1))"
| "exec_stmt clk (Sql_missingParent c eid ledger detail p) d =
     (if parent_exists p d \<or> recorded d eid Missing_Parent then Inr (d, 0)
      else Inr (add_dead \<lparr>d_contract = c, d_reason = Missing_Parent, d_event = Some eid, d_ledger = Some ledger,
                  d_detail = Some detail, d_created_at = clk\<rparr> d, 1))"
| "exec_stmt clk (Sql_saveState l defers now c owner) d =
     (case map_of (indexer_state d) c of
        Some r \<Rightarrow>
          if s_last r \<le> l \<and> holds_lock d owner then
            Inr (d\<lparr>indexer_state := AList.update c
                   \<lparr>s_last = l, s_updated_at = now, s_expected = Some (l + 1), s_defers = defers,
                    s_advanced_at = (if s_last r < l then Some now else s_advanced_at r)\<rparr> (indexer_state d)\<rparr>, 1)
          else Inr (d, 0)
      | None \<Rightarrow> Inr (d, 0))"
| "exec_stmt clk (Sql_refreshLock now owner) d =
     (case map_of (indexer_locks d) indexer_lock of
        Some r \<Rightarrow>
          if l_owner r = Some owner then
            Inr (d\<lparr>indexer_locks := AList.update indexer_lock (r\<lparr>l_acquired := now\<rparr>) (indexer_locks d)\<rparr>, 1)
          else Inr (d, 0)
      | None \<Rightarrow> Inr (d, 0))"
| "exec_stmt clk (Sql_releaseLock owner) d =
     (if holds_lock d owner then Inr (d\<lparr>indexer_locks := AList.delete indexer_lock (indexer_locks d)\<rparr>, 1)
      else Inr (d, 0))"
| "exec_stmt clk (Sql_recordTry attempts pending tried a uri) d =
     update_row agent_check agents put_agents a (\<lambda>r. a_uri r = Some uri)
       (\<lambda>r. r\<lparr>a_attempts := attempts, a_pending := pending, a_last_attempt := Some tried, a_updated_at := tried\<rparr>) d"
| "exec_stmt clk (Sql_storeDocument doc trust services x402 mpp now a uri) d =
     update_row agent_check agents put_agents a (\<lambda>r. a_uri r = Some uri)
       (\<lambda>r. r\<lparr>a_uri_data := Some doc, a_trust := trust, a_services := services, a_x402 := x402, a_mpp := mpp,
              a_attempts := 0, a_pending := False, a_updated_at := now\<rparr>) d"

text \<open>\<open>db.batch\<close>: one transaction, in order; the first failing statement rolls everything back.\<close>

fun run_batch :: "('s \<Rightarrow> 'd \<Rightarrow> string + 'd \<times> nat) \<Rightarrow> 's list \<Rightarrow> 'd \<Rightarrow> string + 'd \<times> nat list" where
  "run_batch exec [] d = Inr (d, [])"
| "run_batch exec (s # ss) d =
     sbind (exec s d) (\<lambda>(d', n). sbind (run_batch exec ss d') (\<lambda>(d'', ns). Inr (d'', n # ns)))"

section \<open>Invariant of the schema\<close>

definition keys_ok :: "db \<Rightarrow> bool" where
  "keys_ok d \<longleftrightarrow> distinct (map fst (agents d)) \<and> distinct (map fst (agent_metadata d)) \<and>
     distinct (map fst (feedback d)) \<and> distinct (map fst (validations d)) \<and>
     distinct (map fst (indexer_state d)) \<and> distinct (map fst (indexer_locks d))"

definition refs_ok :: "db \<Rightarrow> bool" where
  "refs_ok d \<longleftrightarrow>
     (\<forall>kv \<in> set (agent_metadata d). has (agents d) (fst (fst kv))) \<and>
     (\<forall>kv \<in> set (feedback d). has (agents d) (fst (fst kv))) \<and>
     (\<forall>r \<in> set (responses d). has (feedback d) (r_key r)) \<and>
     (\<forall>kv \<in> set (validations d). has (agents d) (v_agent (snd kv)))"

definition checks_ok :: "db \<Rightarrow> bool" where
  "checks_ok d \<longleftrightarrow> (\<forall>kv \<in> set (agents d). agent_check kv) \<and> (\<forall>kv \<in> set (feedback d). feedback_check kv) \<and>
     (\<forall>r \<in> set (responses d). response_check r) \<and> (\<forall>kv \<in> set (validations d). validation_check kv)"

text \<open>The two UNIQUE constraints of \<open>feedback_responses\<close>.\<close>

definition responses_ok :: "db \<Rightarrow> bool" where
  "responses_ok d \<longleftrightarrow> distinct (map (\<lambda>r. (r_key r, r_index r)) (responses d)) \<and>
     distinct (filter (\<lambda>e. e \<noteq> None) (map r_event_id (responses d)))"

definition db_inv :: "db \<Rightarrow> bool" where
  "db_inv d \<longleftrightarrow> keys_ok d \<and> refs_ok d \<and> checks_ok d \<and> responses_ok d"

end
