(* ===== verification/Db_Invariant.thy ===== *)
theory Db_Invariant
  imports Db_Schema
begin

text \<open>
  Every statement of the indexer keeps the invariant of the schema; a batch therefore keeps it too. The
  second fact is proved once, for any store with transactions, in the locale \<open>transactional_store\<close>, and
  applied to \<open>exec_stmt\<close> by its interpretation.
\<close>

section \<open>Tables\<close>

lemma has_update [simp]: "has (AList.update k v t) k' \<longleftrightarrow> k = k' \<or> has t k'"
  by (auto simp: has_def update_conv')

lemma has_Nil [simp]: "\<not> has [] k"
  by (simp add: has_def)

lemma has_set: "has t k \<longleftrightarrow> k \<in> fst ` set t"
  by (simp add: has_def map_of_eq_None_iff)

lemma set_update_cases: "kv \<in> set (AList.update k v t) \<Longrightarrow> kv = (k, v) \<or> kv \<in> set t"
  by (induction t) (auto split: if_splits)

lemma map_of_delete_other: "k \<noteq> k' \<Longrightarrow> map_of (AList.delete k t) k' = map_of t k'"
  by (simp add: delete_conv')

lemma map_of_delete_same: "map_of (AList.delete k t) k = None"
  by (simp add: delete_conv')

lemmas db_inv_defs = db_inv_def keys_ok_def refs_ok_def checks_ok_def responses_ok_def

lemma insert_row_cases:
  assumes "insert_row check sel put fk k v d = Inr (d', n)"
  obtains "has (sel d) k" "d' = d" "n = 0"
  | "\<not> has (sel d) k" "check (k, v)" "fk" "d' = put (AList.update k v (sel d)) d" "n = 1"
  using assms by (auto simp: insert_row_def split: if_splits)

lemma update_row_cases:
  assumes "update_row check sel put k guard f d = Inr (d', n)"
  obtains "d' = d" "n = 0"
  | r where "map_of (sel d) k = Some r" "guard r" "check (k, f r)" "d' = put (AList.update k (f r) (sel d)) d" "n = 1"
  using assms by (auto simp: update_row_def split: option.splits if_splits)

section \<open>One row changes\<close>

lemma db_inv_agent: "db_inv d \<Longrightarrow> agent_check (k, v) \<Longrightarrow> db_inv (put_agents (AList.update k v (agents d)) d)"
  by (auto simp: db_inv_defs put_agents_def distinct_update dest!: set_update_cases)

lemma db_inv_feedback:
  "db_inv d \<Longrightarrow> feedback_check (k, v) \<Longrightarrow> has (agents d) (fst k) \<Longrightarrow>
   db_inv (put_feedback (AList.update k v (feedback d)) d)"
  by (auto simp: db_inv_defs put_feedback_def distinct_update dest!: set_update_cases)

lemma db_inv_validation:
  "db_inv d \<Longrightarrow> validation_check (k, v) \<Longrightarrow> has (agents d) (v_agent v) \<Longrightarrow>
   db_inv (put_validations (AList.update k v (validations d)) d)"
  by (auto simp: db_inv_defs put_validations_def distinct_update dest!: set_update_cases)

lemma db_inv_metadata:
  "db_inv d \<Longrightarrow> has (agents d) (fst k) \<Longrightarrow> db_inv (d\<lparr>agent_metadata := AList.update k v (agent_metadata d)\<rparr>)"
  by (auto simp: db_inv_defs distinct_update dest!: set_update_cases)

lemma db_inv_metadata_filter:
  "db_inv d \<Longrightarrow> db_inv (d\<lparr>agent_metadata := filter P (agent_metadata d)\<rparr>)"
  by (simp add: db_inv_defs distinct_map_filter)

lemma db_inv_bookkeeping:
  "db_inv d \<Longrightarrow> db_inv (add_dead r d)"
  "db_inv d \<Longrightarrow> db_inv (d\<lparr>indexer_state := AList.update c st (indexer_state d)\<rparr>)"
  "db_inv d \<Longrightarrow> db_inv (d\<lparr>indexer_locks := AList.update l lk (indexer_locks d)\<rparr>)"
  "db_inv d \<Longrightarrow> db_inv (d\<lparr>indexer_locks := AList.delete l (indexer_locks d)\<rparr>)"
  by (simp_all add: db_inv_defs add_dead_def distinct_update distinct_delete)

lemma fold_max_ge: "x \<le> fold max xs (x :: int) \<and> (\<forall>y \<in> set xs. y \<le> fold max xs x)"
proof (induction xs arbitrary: x)
  case (Cons a xs)
  from Cons [of "max a x"] show ?case by auto
qed simp

lemma response_index_max_ge: "r \<in> set rs \<Longrightarrow> r_key r = k \<Longrightarrow> r_index r \<le> response_index_max k rs"
proof -
  assume "r \<in> set rs" "r_key r = k"
  then have "r_index r \<in> set (map r_index (filter (\<lambda>r. r_key r = k) rs))" by auto
  moreover have "x \<in> set xs \<Longrightarrow> x \<le> (case xs of [] \<Rightarrow> 0 | y # ys \<Rightarrow> fold max ys y)" for x :: int and xs
    using fold_max_ge by (cases xs) auto
  ultimately show ?thesis unfolding response_index_max_def by blast
qed

lemma db_inv_response:
  assumes "db_inv d" "response_check r" "has (feedback d) (r_key r)" "r_event_id r = Some eid"
    and fresh: "\<forall>x \<in> set (responses d). r_event_id x \<noteq> Some eid"
    and index: "response_index_max (r_key r) (responses d) < r_index r"
  shows "db_inv (d\<lparr>responses := responses d @ [r]\<rparr>)"
proof -
  have "(r_key r, r_index r) \<notin> (\<lambda>r. (r_key r, r_index r)) ` set (responses d)"
    using index response_index_max_ge by fastforce
  moreover have "Some eid \<notin> set (map r_event_id (responses d))" using fresh by auto
  ultimately show ?thesis using assms by (auto simp: db_inv_defs)
qed

lemma row_has_agent:
  "db_inv d \<Longrightarrow> map_of (feedback d) k = Some r \<Longrightarrow> has (agents d) (fst k)"
  "db_inv d \<Longrightarrow> map_of (validations d) h = Some w \<Longrightarrow> has (agents d) (v_agent w)"
  by (auto simp: db_inv_defs dest!: map_of_SomeD)

section \<open>Every statement keeps the invariant\<close>

lemma agents_update_row_inv:
  "db_inv d \<Longrightarrow> update_row agent_check agents put_agents k guard f d = Inr (d', n) \<Longrightarrow> db_inv d'"
  by (erule update_row_cases) (auto intro: db_inv_agent)

lemma feedback_update_row_inv:
  "db_inv d \<Longrightarrow> update_row feedback_check feedback put_feedback k guard f d = Inr (d', n) \<Longrightarrow> db_inv d'"
  by (erule update_row_cases) (auto intro: db_inv_feedback dest: row_has_agent)

lemma validations_update_row_inv:
  "db_inv d \<Longrightarrow> update_row validation_check validations put_validations k guard f d = Inr (d', n) \<Longrightarrow>
   (\<And>r. v_agent (f r) = v_agent r) \<Longrightarrow> db_inv d'"
  by (erule update_row_cases) (auto intro!: db_inv_validation dest: row_has_agent)

lemma exec_stmt_inv:
  assumes inv: "db_inv d" and run: "exec_stmt clk s d = Inr (d', n)"
  shows "db_inv d'"
proof (cases s)
  case (Sql_transferred owner ledger now a)
  with run obtain e where e: "update_row agent_check agents put_agents a
      (\<lambda>r. ledger_guard (a_transferred_ledger r) ledger) (set_owner owner ledger now) d = Inr (e, n)"
    and d': "d' = e \<or> d' = e\<lparr>agent_metadata := filter (\<lambda>kv. fst (fst kv) \<noteq> a) (agent_metadata e)\<rparr>"
    by (auto simp: sbind_eq_Inr)
  from d' show ?thesis
    using agents_update_row_inv [OF inv e] by (auto intro: db_inv_metadata_filter)
next
  case (Sql_responseAppended a c i who uri h created tx eid)
  with inv run show ?thesis
    by (auto simp: Let_def split: if_splits intro!: db_inv_response)
next
  case (Sql_validationResponse x uri rh tag time tx ledger h)
  with run have "update_row validation_check validations put_validations h
      (\<lambda>r. ledger_guard (v_response_ledger r) ledger) (set_response x uri rh tag time tx ledger) d = Inr (d', n)"
    by simp
  with inv show ?thesis
    by (rule validations_update_row_inv) (simp add: set_response_def)
qed (use inv run in \<open>auto elim!: insert_row_cases
      intro: db_inv_agent db_inv_feedback db_inv_validation agents_update_row_inv feedback_update_row_inv
        db_inv_metadata db_inv_bookkeeping
      split: if_splits option.splits\<close>)

section \<open>Transactions\<close>

locale transactional_store =
  fixes exec :: "'s \<Rightarrow> 'd \<Rightarrow> string + 'd \<times> nat"
    and inv :: "'d \<Rightarrow> bool"
  assumes exec_inv: "inv d \<Longrightarrow> exec s d = Inr (d', n) \<Longrightarrow> inv d'"
begin

lemma batch_inv: "inv d \<Longrightarrow> run_batch exec ss d = Inr (d', ns) \<Longrightarrow> inv d'"
  by (induction ss arbitrary: d ns) (auto simp: sbind_eq_Inr dest: exec_inv)

lemma batch_length: "run_batch exec ss d = Inr (d', ns) \<Longrightarrow> length ns = length ss"
  by (induction ss arbitrary: d ns) (auto simp: sbind_eq_Inr)

lemma batch_append:
  "run_batch exec (ss @ ts) d =
     sbind (run_batch exec ss d) (\<lambda>(d', ns). sbind (run_batch exec ts d') (\<lambda>(d'', ms). Inr (d'', ns @ ms)))"
proof (induction ss arbitrary: d)
  case Nil
  show ?case by (cases "run_batch exec ts d") (auto split: prod.splits)
next
  case (Cons s ss)
  show ?case
  proof (cases "exec s d")
    case (Inr p)
    obtain d1 n1 where p: "p = (d1, n1)" by fastforce
    show ?thesis
    proof (cases "run_batch exec ss d1")
      case (Inr q)
      with \<open>exec s d = Inr p\<close> p Cons [of d1] show ?thesis
        by (cases q, cases "run_batch exec ts (fst q)") auto
    qed (use \<open>exec s d = Inr p\<close> p Cons [of d1] in simp)
  qed simp
qed

text \<open>Anything every statement keeps, a batch keeps.\<close>

lemma batch_preserves:
  assumes "\<And>s d d' n. s \<in> set ss \<Longrightarrow> inv d \<Longrightarrow> P d \<Longrightarrow> exec s d = Inr (d', n) \<Longrightarrow> P d'"
  shows "inv d \<Longrightarrow> P d \<Longrightarrow> run_batch exec ss d = Inr (d', ns) \<Longrightarrow> P d'"
  using assms
proof (induction ss arbitrary: d ns)
  case (Cons s ss)
  then obtain d1 n1 ns1 where *: "exec s d = Inr (d1, n1)" "run_batch exec ss d1 = Inr (d', ns1)"
    by (auto simp: sbind_eq_Inr)
  from exec_inv [OF Cons.prems(1) *(1)] have inv: "inv d1" .
  have P: "P d1" by (rule Cons.prems(4) [OF _ Cons.prems(1,2) *(1)]) simp
  show ?case by (rule Cons.IH [OF inv P *(2)]) (use Cons.prems(4) in auto)
qed simp

end

interpretation tx: transactional_store "exec_stmt clk" db_inv
  by unfold_locales (rule exec_stmt_inv)

end
