(* ===== verification/Db_Ops.thy ===== *)
theory Db_Ops
  imports Db_Invariant
begin

text \<open>
  The operations of \<open>webapp/apps/indexer/src/db.ts\<close> on the database binding.

  The world of a run holds the database, a tick that every effect advances, and a log of the events the indexer has
  finished writing, which no code reads: it exists to state what a run has dealt with. The environment says, per
  tick, what time it is and whether the database call made at that tick meets an infrastructure fault: the
  call then throws its message, and the transaction may or may not have been applied. A fault never has a
  constraint message (hypothesis \<open>infra_faults\<close> where it matters). \<open>db_call\<close> is one round trip to the binding.
\<close>

section \<open>World and environment\<close>

record world =
  w_db :: db
  w_tick :: nat
  w_log :: "(contract_name \<times> string) list"

record env =
  e_now :: "nat \<Rightarrow> int"
  e_clk :: "nat \<Rightarrow> string"
  e_fault :: "nat \<Rightarrow> (string \<times> bool) option"
  e_date :: "string \<Rightarrow> int option"

definition tick :: "world \<Rightarrow> world" where
  "tick w = w\<lparr>w_tick := Suc (w_tick w)\<rparr>"

definition date_now :: "env \<Rightarrow> (world, int) act" where
  "date_now env w = (Inr (e_now env (w_tick w)), tick w)"

definition db_call :: "env \<Rightarrow> (string \<Rightarrow> db \<Rightarrow> string + db \<times> 'a) \<Rightarrow> (world, 'a) act" where
  "db_call env q w =
     (case e_fault env (w_tick w) of
        None \<Rightarrow> (case q (e_clk env (w_tick w)) (w_db w) of
            Inl msg \<Rightarrow> (Inl msg, tick w)
          | Inr (d, x) \<Rightarrow> (Inr x, (tick w)\<lparr>w_db := d\<rparr>))
      | Some (msg, applied) \<Rightarrow>
          (if applied then (case q (e_clk env (w_tick w)) (w_db w) of
              Inl m \<Rightarrow> (Inl m, tick w)
            | Inr (d, x) \<Rightarrow> (Inl msg, (tick w)\<lparr>w_db := d\<rparr>))
           else (Inl msg, tick w)))"

definition stmt_run :: "env \<Rightarrow> stmt \<Rightarrow> (world, nat) act" where
  "stmt_run env s = db_call env (\<lambda>clk. exec_stmt clk s)"

definition db_batch :: "env \<Rightarrow> stmt list \<Rightarrow> (world, nat list) act" where
  "db_batch env ss = db_call env (\<lambda>clk. run_batch (exec_stmt clk) ss)"

section \<open>Lock\<close>

definition LOCK_STALE_MS :: int where
  "LOCK_STALE_MS = 180000"

definition acquire_sql :: "string \<Rightarrow> string \<Rightarrow> string \<Rightarrow> db \<Rightarrow> db \<times> string option" where
  "acquire_sql now owner stale d =
     (let taken = d\<lparr>indexer_locks := AList.update indexer_lock \<lparr>l_acquired = now, l_owner = Some owner\<rparr> (indexer_locks d)\<rparr>
      in case map_of (indexer_locks d) indexer_lock of
           None \<Rightarrow> (taken, Some owner)
         | Some r \<Rightarrow> if l_acquired r < stale then (taken, Some owner) else (d, None))"

definition acquireLock :: "env \<Rightarrow> string \<Rightarrow> (world, bool) act" where
  "acquireLock env owner =
     abind (date_now env) (\<lambda>now.
     abind (db_call env (\<lambda>_ d. Inr (acquire_sql (pgTimeDate now) owner (pgTimeDate (now - LOCK_STALE_MS)) d))) (\<lambda>row.
       aret (row = Some owner)))"

definition releaseLock :: "env \<Rightarrow> string \<Rightarrow> (world, unit) act" where
  "releaseLock env owner = abind (stmt_run env (Sql_releaseLock owner)) (\<lambda>_. aret ())"

section \<open>Checkpoints\<close>

record checkpoint =
  lastLedger :: int
  deferAttempts :: int

fun contract_text :: "contract_name \<Rightarrow> string" where
  "contract_text Identity = ''identity''"
| "contract_text Reputation = ''reputation''"
| "contract_text Validation = ''validation''"

definition checkpoint_of :: "state_row \<Rightarrow> checkpoint" where
  "checkpoint_of r = \<lparr>lastLedger = s_last r, deferAttempts = s_defers r\<rparr>"

fun require_rows :: "string list \<Rightarrow> (string \<times> checkpoint) list \<Rightarrow> string + unit" where
  "require_rows [] cps = Inr ()"
| "require_rows (c # cs) cps =
     (if \<not> has cps c then Inl (''indexer_state has no row for '' @ c @ ''; refusing to cold-start'')
      else require_rows cs cps)"

definition readCheckpoints :: "env \<Rightarrow> string list \<Rightarrow> (world, (string \<times> checkpoint) list) act" where
  "readCheckpoints env contracts =
     abind (db_call env (\<lambda>_ d. Inr (d, map (\<lambda>(c, r). (c, checkpoint_of r)) (indexer_state d)))) (\<lambda>cps.
     abind (alift (require_rows contracts cps)) (\<lambda>_. aret cps))"

definition lock_lost :: string where
  "lock_lost = ''This run lost the indexer lock to another run; stopping''"

definition save_sql :: "string \<Rightarrow> checkpoint \<Rightarrow> string \<Rightarrow> int \<Rightarrow> stmt list" where
  "save_sql contract cp owner t =
     [Sql_refreshLock (pgTimeDate t) owner,
      Sql_saveState (lastLedger cp) (deferAttempts cp) (pgTimeDate t) contract owner]"

definition saveCheckpoint :: "env \<Rightarrow> string \<Rightarrow> checkpoint \<Rightarrow> string \<Rightarrow> (world, unit) act" where
  "saveCheckpoint env contract cp owner =
     abind (date_now env) (\<lambda>now.
     abind (db_batch env (save_sql contract cp owner now)) (\<lambda>changes.
       if changes ! 0 = 0 then athrow lock_lost
       else if changes ! 1 = 0 then
         athrow (''indexer_state for '' @ contract @ '' moved past ledger '' @ show_int (lastLedger cp) @ ''; stopping'')
       else aret ()))"

section \<open>Dead letters\<close>

definition deadLetter ::
  "env \<Rightarrow> contract_name \<Rightarrow> reason \<Rightarrow> string option \<Rightarrow> int option \<Rightarrow> string option \<Rightarrow> (world, unit) act" where
  "deadLetter env contract why eid ledger detail =
     acatch (abind (stmt_run env (Sql_deadLetter contract why eid ledger detail)) (\<lambda>_. aret ())) (\<lambda>_. aret ())"

datatype failure = Parent_Failure | Constraint_Failure

definition constraintFailure :: "string \<Rightarrow> failure option" where
  "constraintFailure message =
     (if has_substring message ''FOREIGN KEY constraint failed'' then Some Parent_Failure
      else if has_substring message ''constraint failed'' then Some Constraint_Failure
      else None)"

fun event_type :: "parsed_event \<Rightarrow> string" where
  "event_type (Registered a owner uri b) = ''Registered''"
| "event_type (UriUpdated a who uri b) = ''UriUpdated''"
| "event_type (MetadataSet a k v b) = ''MetadataSet''"
| "event_type (AgentWalletSet a w b) = ''AgentWalletSet''"
| "event_type (AgentWalletUnset a b) = ''AgentWalletUnset''"
| "event_type (AgentTransferred a f t b) = ''AgentTransferred''"
| "event_type (NewFeedback a c i v d t1 t2 e u h b) = ''NewFeedback''"
| "event_type (FeedbackRevoked a c i b) = ''FeedbackRevoked''"
| "event_type (ResponseAppended a c r i u h b eid) = ''ResponseAppended''"
| "event_type (ValidationRequest v a h u b) = ''ValidationRequest''"
| "event_type (ValidationResponse v a h r u rh t b) = ''ValidationResponse''"

text \<open>The row an event updates, for the events that are updates.\<close>

fun event_parent :: "parsed_event \<Rightarrow> parent option" where
  "event_parent (UriUpdated a who uri b) = Some (Agent_Parent a)"
| "event_parent (AgentWalletSet a w b) = Some (Agent_Parent a)"
| "event_parent (AgentWalletUnset a b) = Some (Agent_Parent a)"
| "event_parent (AgentTransferred a f t b) = Some (Agent_Parent a)"
| "event_parent (FeedbackRevoked a c i b) = Some (Feedback_Parent a c i)"
| "event_parent (ValidationResponse v a h r u rh t b) = Some (Validation_Parent h)"
| "event_parent e = None"

fun parent_table :: "parent \<Rightarrow> string" where
  "parent_table (Agent_Parent a) = ''agents''"
| "parent_table (Feedback_Parent a c i) = ''feedback''"
| "parent_table (Validation_Parent h) = ''validations''"

definition missingParentStatement :: "event_packet \<Rightarrow> stmt option" where
  "missingParentStatement p = (case event_parent (pk_data p) of
      None \<Rightarrow> None
    | Some parent \<Rightarrow> Some (Sql_missingParent (pk_contract p) (pk_id p) (b_ledger (base (pk_data p)))
        (event_type (pk_data p) @ '' for a '' @ parent_table parent @ '' row that was never indexed'') parent))"

section \<open>One statement per event\<close>

definition or_null :: "string \<Rightarrow> string option" where
  "or_null s = (if s = [] then None else Some s)"

fun eventStatement :: "(string \<Rightarrow> int option) \<Rightarrow> parsed_event \<Rightarrow> string \<Rightarrow> string + stmt" where
  "eventStatement dp (Registered a owner uri b) now =
     sbind (pgTime dp (b_closedAt b)) (\<lambda>closed.
       Inr (Sql_registered a owner uri (0 < length uri) closed (b_ledger b) (b_txHash b)))"
| "eventStatement dp (UriUpdated a who uri b) now = Inr (Sql_uriUpdated uri (b_ledger b) now a)"
| "eventStatement dp (MetadataSet a k v b) now = Inr (Sql_metadataSet a k v)"
| "eventStatement dp (AgentWalletSet a w b) now = Inr (Sql_walletSet (Some w) now a)"
| "eventStatement dp (AgentWalletUnset a b) now = Inr (Sql_walletSet None now a)"
| "eventStatement dp (AgentTransferred a f t b) now = Inr (Sql_transferred t (b_ledger b) now a)"
| "eventStatement dp (NewFeedback a c i v d t1 t2 e u h b) now =
     sbind (pgTime dp (b_closedAt b)) (\<lambda>closed.
       Inr (Sql_newFeedback a c i (show_int v) d (or_null t1) (or_null t2) (or_null e) (or_null u) (or_null h)
              closed (b_ledger b) (b_txHash b)))"
| "eventStatement dp (FeedbackRevoked a c i b) now = Inr (Sql_feedbackRevoked (b_ledger b) a c i)"
| "eventStatement dp (ResponseAppended a c r i u h b eid) now =
     sbind (pgTime dp (b_closedAt b)) (\<lambda>closed.
       Inr (Sql_responseAppended a c i r (or_null u) (or_null h) closed (b_txHash b) eid))"
| "eventStatement dp (ValidationRequest v a h u b) now =
     sbind (pgTime dp (b_closedAt b)) (\<lambda>closed.
       Inr (Sql_validationRequest h a v (or_null u) closed (b_txHash b)))"
| "eventStatement dp (ValidationResponse v a h r u rh t b) now =
     sbind (pgTime dp (b_closedAt b)) (\<lambda>closed.
       Inr (Sql_validationResponse r (or_null u) (or_null rh) (or_null t) closed (b_txHash b) (b_ledger b) h))"

section \<open>Calls keep the invariant\<close>

text \<open>A call throws a constraint message of the statement or the message of a fault.\<close>

definition fault_messages :: "env \<Rightarrow> string set" where
  "fault_messages env = {msg. \<exists>t applied. e_fault env t = Some (msg, applied)}"

lemma wp_date_now [wp_rules]: "wp (date_now env) Q E = (\<lambda>w. Q (e_now env (w_tick w)) (tick w))"
  by (simp add: fun_eq_iff wp_def date_now_def)

lemma w_db_tick [simp]: "w_db (tick w) = w_db w"
  by (simp add: tick_def)

lemma w_log_tick [simp]: "w_log (tick w) = w_log w"
  by (simp add: tick_def)

lemma w_tick_tick [simp]: "w_tick (tick w) = Suc (w_tick w)"
  by (simp add: tick_def)

text \<open>Whatever the query keeps of the database, the call keeps, faults included.\<close>

lemma wp_db_call:
  assumes "\<And>clk d x. q clk (w_db w) = Inr (d, x) \<Longrightarrow>
      Q x (w\<lparr>w_db := d, w_tick := Suc (w_tick w)\<rparr>) \<and>
      (\<forall>msg \<in> fault_messages env. E msg (w\<lparr>w_db := d, w_tick := Suc (w_tick w)\<rparr>))"
    and "\<And>clk msg. q clk (w_db w) = Inl msg \<Longrightarrow> E msg (tick w)"
    and "\<And>msg. msg \<in> fault_messages env \<Longrightarrow> E msg (tick w)"
  shows "wp (db_call env q) Q E w"
proof -
  have upd: "(tick w)\<lparr>w_db := d\<rparr> = w\<lparr>w_db := d, w_tick := Suc (w_tick w)\<rparr>" for d
    by (simp add: tick_def)
  have fault: "msg \<in> fault_messages env" if "e_fault env (w_tick w) = Some (msg, applied)" for msg applied
    using that by (auto simp: fault_messages_def)
  show ?thesis
    using assms(1,2) [of "e_clk env (w_tick w)"] assms(3) fault
    by (auto simp: wp_def db_call_def upd split: option.split sum.split prod.split)
qed

lemma db_call_inv:
  assumes "\<And>clk d' x. q clk (w_db w) = Inr (d', x) \<Longrightarrow> I d'" "I (w_db w)"
  shows "wp (db_call env q) (\<lambda>_ w'. I (w_db w')) (\<lambda>_ w'. I (w_db w')) w"
  using assms by (intro wp_db_call) auto

lemma stmt_run_inv: "db_inv (w_db w) \<Longrightarrow> wp (stmt_run env s) (\<lambda>_ w'. db_inv (w_db w')) (\<lambda>_ w'. db_inv (w_db w')) w"
  unfolding stmt_run_def by (rule db_call_inv) (auto dest: exec_stmt_inv)

lemma db_batch_inv: "db_inv (w_db w) \<Longrightarrow> wp (db_batch env ss) (\<lambda>_ w'. db_inv (w_db w')) (\<lambda>_ w'. db_inv (w_db w')) w"
  unfolding db_batch_def by (rule db_call_inv) (auto dest: tx.batch_inv)

end
