(* ===== verification/Db_Lock.thy ===== *)
theory Db_Lock
  imports Db_Ops
begin

text \<open>
  The indexer lock and the checkpoints under any interleaving of runs.

  Cron runs overlap, and each of their database calls is one transaction. \<open>lock_step\<close> is one transaction of
  some run (or the passing of time); \<open>lock_trace\<close> is any interleaving, labelled with what was done. A run
  reads the clock in the step of its transaction, and all runs read the same clock. The lemmas
  are invariants by rule induction over traces.
\<close>

section \<open>Interleaved runs\<close>

datatype lock_op =
    Acquire string
  | Save string checkpoint string \<comment> \<open>contract, checkpoint, owner\<close>
  | Release string
  | Write stmt
  | Wait

record config =
  c_db :: db
  c_time :: int

fun is_write :: "stmt \<Rightarrow> bool" where
  "is_write (Sql_saveState l df now c owner) = False"
| "is_write (Sql_refreshLock now owner) = False"
| "is_write (Sql_releaseLock owner) = False"
| "is_write s = True"

inductive lock_step :: "config \<Rightarrow> lock_op \<Rightarrow> config \<Rightarrow> bool" where
  do_acquire: "acquire_sql (pgTimeDate t) owner (pgTimeDate (t - LOCK_STALE_MS)) d = (d', row) \<Longrightarrow>
    lock_step \<lparr>c_db = d, c_time = t\<rparr> (Acquire owner) \<lparr>c_db = d', c_time = t\<rparr>"
| do_save: "run_batch (exec_stmt clk) (save_sql contract cp owner t) d = Inr (d', ns) \<Longrightarrow>
    lock_step \<lparr>c_db = d, c_time = t\<rparr> (Save contract cp owner) \<lparr>c_db = d', c_time = t\<rparr>"
| do_release: "exec_stmt clk (Sql_releaseLock owner) d = Inr (d', n) \<Longrightarrow>
    lock_step \<lparr>c_db = d, c_time = t\<rparr> (Release owner) \<lparr>c_db = d', c_time = t\<rparr>"
| do_write: "is_write s \<Longrightarrow> exec_stmt clk s d = Inr (d', n) \<Longrightarrow>
    lock_step \<lparr>c_db = d, c_time = t\<rparr> (Write s) \<lparr>c_db = d', c_time = t\<rparr>"
| do_wait: "t \<le> t' \<Longrightarrow> lock_step \<lparr>c_db = d, c_time = t\<rparr> Wait \<lparr>c_db = d, c_time = t'\<rparr>"

inductive lock_trace :: "config \<Rightarrow> lock_op list \<Rightarrow> config \<Rightarrow> bool" where
  trace_nil: "lock_trace c [] c"
| trace_snoc: "lock_trace c ops c' \<Longrightarrow> lock_step c' x c'' \<Longrightarrow> lock_trace c (ops @ [x]) c''"

inductive_cases lock_stepE: "lock_step c x c'"

section \<open>Single transactions\<close>

definition lock_of :: "db \<Rightarrow> lock_row option" where
  "lock_of d = map_of (indexer_locks d) indexer_lock"

definition state_of :: "db \<Rightarrow> string \<Rightarrow> state_row option" where
  "state_of d c = map_of (indexer_state d) c"

lemma holds_lock_iff: "holds_lock d owner \<longleftrightarrow> (\<exists>r. lock_of d = Some r \<and> l_owner r = Some owner)"
  by (auto simp: holds_lock_def lock_of_def split: option.splits)

lemma row_ops_bookkeeping:
  "update_row check agents put_agents k guard f d = Inr (d', n) \<Longrightarrow>
     indexer_locks d' = indexer_locks d \<and> indexer_state d' = indexer_state d"
  "update_row check2 feedback put_feedback k2 guard2 f2 d = Inr (d', n) \<Longrightarrow>
     indexer_locks d' = indexer_locks d \<and> indexer_state d' = indexer_state d"
  "update_row check3 validations put_validations k3 guard3 f3 d = Inr (d', n) \<Longrightarrow>
     indexer_locks d' = indexer_locks d \<and> indexer_state d' = indexer_state d"
  "insert_row check agents put_agents fk k v d = Inr (d', n) \<Longrightarrow>
     indexer_locks d' = indexer_locks d \<and> indexer_state d' = indexer_state d"
  "insert_row check2 feedback put_feedback fk k2 v2 d = Inr (d', n) \<Longrightarrow>
     indexer_locks d' = indexer_locks d \<and> indexer_state d' = indexer_state d"
  "insert_row check3 validations put_validations fk k3 v3 d = Inr (d', n) \<Longrightarrow>
     indexer_locks d' = indexer_locks d \<and> indexer_state d' = indexer_state d"
  by (auto simp: put_agents_def put_feedback_def put_validations_def elim!: update_row_cases insert_row_cases)

text \<open>A write touches neither the lock nor the checkpoints.\<close>

lemma write_bookkeeping:
  assumes "is_write s" "exec_stmt clk s d = Inr (d', n)"
  shows "indexer_locks d' = indexer_locks d \<and> indexer_state d' = indexer_state d"
  using assms
  by (cases s)
    (fastforce simp: sbind_eq_Inr Let_def add_dead_def split: if_splits option.splits
      dest: row_ops_bookkeeping)+

lemma write_lock_of: "is_write s \<Longrightarrow> exec_stmt clk s d = Inr (d', n) \<Longrightarrow> lock_of d' = lock_of d"
  and write_state_of: "is_write s \<Longrightarrow> exec_stmt clk s d = Inr (d', n) \<Longrightarrow> state_of d' c = state_of d c"
  by (simp_all add: lock_of_def state_of_def write_bookkeeping)

lemma acquire_effect:
  assumes "acquire_sql now owner stale d = (d', row)"
  shows "row = (if lock_of d = None \<or> (\<exists>r. lock_of d = Some r \<and> l_acquired r < stale) then Some owner else None)"
    and "lock_of d' = (if row = Some owner then Some \<lparr>l_acquired = now, l_owner = Some owner\<rparr> else lock_of d)"
    and "indexer_state d' = indexer_state d"
  using assms by (auto simp: acquire_sql_def lock_of_def Let_def update_conv' split: option.splits if_splits)

lemma release_effect:
  assumes "exec_stmt clk (Sql_releaseLock owner) d = Inr (d', n)"
  shows "lock_of d' = (if holds_lock d owner then None else lock_of d)" and "indexer_state d' = indexer_state d"
  using assms by (auto simp: lock_of_def map_of_delete_same split: if_splits)

text \<open>A checkpoint save by a run that does not hold the lock changes nothing; by the holder it refreshes the lock,
  and moves the checkpoint unless that would move it back.\<close>

lemma save_without_lock:
  assumes "run_batch (exec_stmt clk) (save_sql contract cp owner t) d = Inr (d', ns)" "\<not> holds_lock d owner"
  shows "d' = d \<and> ns = [0, 0]"
  using assms by (auto simp: save_sql_def sbind_eq_Inr holds_lock_def split: option.splits if_splits)

lemma save_with_lock:
  assumes "run_batch (exec_stmt clk) (save_sql contract cp owner t) d = Inr (d', ns)" "holds_lock d owner"
  obtains "ns ! 0 = 1" "lock_of d' = Some \<lparr>l_acquired = pgTimeDate t, l_owner = Some owner\<rparr>"
    "\<And>c. c \<noteq> contract \<Longrightarrow> state_of d' c = state_of d c"
    "ns ! 1 = 0 \<Longrightarrow> state_of d' contract = state_of d contract"
    "ns ! 1 \<noteq> 0 \<Longrightarrow> \<exists>r r'. state_of d contract = Some r \<and> state_of d' contract = Some r' \<and>
        s_last r \<le> lastLedger cp \<and> checkpoint_of r' = cp \<and> s_expected r' = Some (lastLedger cp + 1)"
proof -
  obtain r where r: "lock_of d = Some r" "l_owner r = Some owner" using assms(2) by (auto simp: holds_lock_iff)
  let ?d = "d\<lparr>indexer_locks := AList.update indexer_lock (r\<lparr>l_acquired := pgTimeDate t\<rparr>) (indexer_locks d)\<rparr>"
  have held: "holds_lock ?d owner" using r by (simp add: holds_lock_def update_conv')
  from assms(1) r obtain n where n: "ns = [1, n]"
    and d': "exec_stmt clk (Sql_saveState (lastLedger cp) (deferAttempts cp) (pgTimeDate t) contract owner) ?d = Inr (d', n)"
    by (auto simp: save_sql_def sbind_eq_Inr lock_of_def)
  have lk: "lock_of d' = Some \<lparr>l_acquired = pgTimeDate t, l_owner = Some owner\<rparr>"
    using d' r by (auto simp: lock_of_def update_conv' split: option.splits if_splits)
  show thesis
  proof (rule that)
    show "ns ! 0 = 1" using n by simp
    show "lock_of d' = Some \<lparr>l_acquired = pgTimeDate t, l_owner = Some owner\<rparr>" by (rule lk)
    show "state_of d' c = state_of d c" if "c \<noteq> contract" for c
      using d' that by (auto simp: state_of_def update_conv' split: option.splits if_splits)
    show "state_of d' contract = state_of d contract" if "ns ! 1 = 0"
      using d' that n held by (auto simp: state_of_def update_conv' split: option.splits if_splits)
    show "\<exists>r r'. state_of d contract = Some r \<and> state_of d' contract = Some r' \<and>
        s_last r \<le> lastLedger cp \<and> checkpoint_of r' = cp \<and> s_expected r' = Some (lastLedger cp + 1)" if "ns ! 1 \<noteq> 0"
      using d' that n held by (auto simp: state_of_def update_conv' checkpoint_of_def split: option.splits if_splits)
  qed
qed

section \<open>Invariants over traces\<close>

definition checkpoint_advances :: "db \<Rightarrow> db \<Rightarrow> string \<Rightarrow> bool" where
  "checkpoint_advances d d' k \<longleftrightarrow> (case state_of d k of None \<Rightarrow> True
     | Some r \<Rightarrow> (case state_of d' k of None \<Rightarrow> False | Some r' \<Rightarrow> s_last r \<le> s_last r'))"

lemma checkpoint_advances_refl: "checkpoint_advances d d k"
  by (simp add: checkpoint_advances_def split: option.splits)

lemma checkpoint_advances_trans:
  "checkpoint_advances d d' k \<Longrightarrow> checkpoint_advances d' d'' k \<Longrightarrow> checkpoint_advances d d'' k"
  by (auto simp: checkpoint_advances_def split: option.splits)

text \<open>The only step that changes a checkpoint is a save by the holder of the lock, and it moves it forward.\<close>

lemma lock_step_state:
  assumes "lock_step c x c'"
  shows "state_of (c_db c') k = state_of (c_db c) k \<or>
     (\<exists>cp owner r r'. x = Save k cp owner \<and> holds_lock (c_db c) owner \<and> state_of (c_db c) k = Some r \<and>
        state_of (c_db c') k = Some r' \<and> s_last r \<le> lastLedger cp \<and> checkpoint_of r' = cp)"
  using assms
proof (cases rule: lock_step.cases)
  case (do_save clk contract cp owner t d d' ns)
  show ?thesis
  proof (cases "holds_lock d owner")
    case True
    with do_save show ?thesis
      by (cases "k = contract"; cases "ns ! 1 = 0") (auto elim!: save_with_lock)
  next
    case False
    with save_without_lock [OF do_save(4) this] do_save show ?thesis by simp
  qed
qed (auto simp: state_of_def write_bookkeeping acquire_effect(3) split: if_splits)

lemma lock_step_advances:
  assumes "lock_step c x c'"
  shows "checkpoint_advances (c_db c) (c_db c') k"
proof -
  have "s_last r = lastLedger (checkpoint_of r)" for r by (simp add: checkpoint_of_def)
  with lock_step_state [OF assms, of k] show ?thesis
    by (auto simp: checkpoint_advances_def split: option.splits)
qed

lemma lock_step_time: "lock_step c x c' \<Longrightarrow> c_time c \<le> c_time c'"
  by (erule lock_step.cases) auto

lemma lock_trace_time: "lock_trace c ops c' \<Longrightarrow> c_time c \<le> c_time c'"
  by (induction rule: lock_trace.induct) (auto dest: lock_step_time)

lemma lock_trace_advances: "lock_trace c ops c' \<Longrightarrow> checkpoint_advances (c_db c) (c_db c') k"
  by (induction rule: lock_trace.induct)
    (auto intro: checkpoint_advances_refl checkpoint_advances_trans lock_step_advances)

lemma lock_trace_inv: "lock_trace c ops c' \<Longrightarrow> db_inv (c_db c) \<Longrightarrow> db_inv (c_db c')"
proof (induction rule: lock_trace.induct)
  case (trace_snoc c ops c' x c'')
  from trace_snoc.hyps(2) trace_snoc.IH [OF trace_snoc.prems] show ?case
  proof (cases rule: lock_step.cases)
    case (do_acquire t owner d d' row)
    with trace_snoc.IH [OF trace_snoc.prems] show ?thesis
      by (auto simp: acquire_sql_def Let_def db_inv_bookkeeping split: option.splits if_splits)
  qed (auto simp del: exec_stmt.simps dest: exec_stmt_inv tx.batch_inv)
qed

text \<open>\<open>live c A t0\<close>: run \<open>A\<close> holds the lock and refreshed it at \<open>t0\<close> or later.\<close>

definition live :: "config \<Rightarrow> string \<Rightarrow> int \<Rightarrow> bool" where
  "live c A t0 \<longleftrightarrow> (\<exists>s. t0 \<le> s \<and> s \<le> c_time c \<and>
     lock_of (c_db c) = Some \<lparr>l_acquired = pgTimeDate s, l_owner = Some A\<rparr>)"

lemma live_holds: "live c A t0 \<Longrightarrow> holds_lock (c_db c) A"
  by (auto simp: live_def holds_lock_iff)

lemma live_not_stale:
  assumes "t0 \<le> s" "s \<le> t" "LOCK_STALE_MS \<le> t" "t \<le> t0 + LOCK_STALE_MS" "t < DayFromYear 10000 * msPerDay"
  shows "\<not> pgTimeDate s < pgTimeDate (t - LOCK_STALE_MS)"
proof -
  have "pgTimeDate (t - LOCK_STALE_MS) \<le> pgTimeDate s"
    by (rule pgTimeDate_mono) (use assms in auto)
  then show ?thesis by simp
qed

lemma live_step:
  assumes step: "lock_step c x c'" and live: "live c A t0"
    and "x \<noteq> Release A" "LOCK_STALE_MS \<le> c_time c" "c_time c' \<le> t0 + LOCK_STALE_MS"
    and "c_time c' < DayFromYear 10000 * msPerDay"
  shows "live c' A t0"
  using step
proof (cases rule: lock_step.cases)
  case (do_acquire t owner d d' row)
  with live obtain s where s: "t0 \<le> s" "s \<le> t" "lock_of d = Some \<lparr>l_acquired = pgTimeDate s, l_owner = Some A\<rparr>"
    by (auto simp: live_def)
  with live_not_stale [OF s(1,2)] assms do_acquire have "\<not> pgTimeDate s < pgTimeDate (t - LOCK_STALE_MS)" by simp
  with acquire_effect [OF do_acquire(4)] s have "lock_of d' = lock_of d" by simp
  with live do_acquire show ?thesis by (simp add: live_def)
next
  case (do_save clk contract cp owner t d d' ns)
  show ?thesis
  proof (cases "holds_lock d owner")
    case True
    with live do_save have "owner = A" by (auto simp: live_def holds_lock_iff)
    obtain s where "t0 \<le> s" "s \<le> t" using live do_save by (auto simp: live_def)
    then have "t0 \<le> t" by simp
    moreover have "lock_of d' = Some \<lparr>l_acquired = pgTimeDate t, l_owner = Some owner\<rparr>"
      by (rule save_with_lock [OF do_save(4) True])
    ultimately show ?thesis using do_save \<open>owner = A\<close> by (auto simp: live_def)
  next
    case False
    with save_without_lock [OF do_save(4) this] live do_save show ?thesis by simp
  qed
next
  case (do_release clk owner d d' n t)
  with assms have "owner \<noteq> A" by auto
  with live do_release have "\<not> holds_lock d owner" by (auto simp: live_def holds_lock_iff)
  with release_effect(1) [OF do_release(4)] live do_release show ?thesis by (simp add: live_def)
next
  case (do_write s clk d d' n t)
  with live write_lock_of [OF do_write(4,5)] show ?thesis by (simp add: live_def)
next
  case (do_wait t t' d)
  with live show ?thesis by (fastforce simp: live_def)
qed

lemma live_trace:
  "lock_trace c ops c' \<Longrightarrow> live c A t0 \<Longrightarrow> Release A \<notin> set ops \<Longrightarrow> LOCK_STALE_MS \<le> c_time c \<Longrightarrow>
   c_time c' \<le> t0 + LOCK_STALE_MS \<Longrightarrow> c_time c' < DayFromYear 10000 * msPerDay \<Longrightarrow>
   live c' A t0 \<and> (\<forall>k. (\<forall>cp. Save k cp A \<notin> set ops) \<longrightarrow> state_of (c_db c') k = state_of (c_db c) k)"
proof (induction rule: lock_trace.induct)
  case (trace_nil c)
  then show ?case by simp
next
  case (trace_snoc c ops c' x c'')
  have t: "c_time c \<le> c_time c'" "c_time c' \<le> c_time c''"
    using trace_snoc.hyps lock_trace_time lock_step_time by auto
  with trace_snoc have IH: "live c' A t0"
    "\<forall>k. (\<forall>cp. Save k cp A \<notin> set ops) \<longrightarrow> state_of (c_db c') k = state_of (c_db c) k" by auto
  have "live c'' A t0"
    using trace_snoc IH(1) t by (intro live_step [OF trace_snoc.hyps(2) IH(1)]) auto
  moreover have "state_of (c_db c'') k = state_of (c_db c') k" if "\<forall>cp. Save k cp A \<noteq> x" for k
    using lock_step_state [OF trace_snoc.hyps(2), of k] that live_holds [OF IH(1)]
    by (auto simp: holds_lock_iff)
  ultimately show ?case using IH(2) by auto
qed

text \<open>The copy fence of the migration.\<close>

definition copy_fence :: lock_row where
  "copy_fence = \<lparr>l_acquired = ''9999-12-31T00:00:00+00:00'', l_owner = Some ''copy-fence''\<rparr>"

fun op_owner :: "lock_op \<Rightarrow> string option" where
  "op_owner (Acquire w) = Some w"
| "op_owner (Save k cp w) = Some w"
| "op_owner (Release w) = Some w"
| "op_owner _ = None"

definition fence_end :: int where
  "fence_end = 2932896 * msPerDay + LOCK_STALE_MS"

lemma fence_step:
  assumes step: "lock_step c x c'" and fence: "lock_of (c_db c) = Some copy_fence"
    and "op_owner x \<noteq> Some ''copy-fence''" "LOCK_STALE_MS \<le> c_time c" "c_time c < fence_end"
  shows "lock_of (c_db c') = Some copy_fence \<and> state_of (c_db c') = state_of (c_db c)"
  using step
proof (cases rule: lock_step.cases)
  case (do_acquire t owner d d' row)
  then have "pgTimeDate (t - LOCK_STALE_MS) < ''9999-12-31'' @ ''T00:00:00+00:00''"
    using assms by (intro pgTimeDate_less_last_day) (auto simp: fence_end_def)
  then have "\<not> l_acquired copy_fence < pgTimeDate (t - LOCK_STALE_MS)" by (simp add: copy_fence_def)
  with acquire_effect [OF do_acquire(4)] fence do_acquire show ?thesis by (simp add: state_of_def fun_eq_iff)
next
  case (do_save clk contract cp owner t d d' ns)
  with fence assms have "\<not> holds_lock d owner" by (auto simp: holds_lock_iff copy_fence_def)
  with save_without_lock [OF do_save(4) this] fence do_save show ?thesis by simp
next
  case (do_release clk owner d d' n t)
  with fence assms have "\<not> holds_lock d owner" by (auto simp: holds_lock_iff copy_fence_def)
  with release_effect [OF do_release(4)] fence do_release show ?thesis by (simp add: state_of_def fun_eq_iff)
next
  case (do_write s clk d d' n t)
  with fence write_lock_of [OF do_write(4,5)] write_state_of [OF do_write(4,5)] show ?thesis by (simp add: fun_eq_iff)
next
  case (do_wait t t' d)
  with fence show ?thesis by simp
qed

lemma fence_trace:
  "lock_trace c ops c' \<Longrightarrow> lock_of (c_db c) = Some copy_fence \<Longrightarrow> Some ''copy-fence'' \<notin> op_owner ` set ops \<Longrightarrow>
   LOCK_STALE_MS \<le> c_time c \<Longrightarrow> c_time c' < fence_end \<Longrightarrow>
   lock_of (c_db c') = Some copy_fence \<and> state_of (c_db c') = state_of (c_db c)"
proof (induction rule: lock_trace.induct)
  case (trace_snoc c ops c' x c'')
  have "c_time c \<le> c_time c'" "c_time c' \<le> c_time c''"
    using trace_snoc.hyps lock_trace_time lock_step_time by auto
  with trace_snoc fence_step [OF trace_snoc.hyps(2)] show ?case by auto
qed simp

section \<open>Properties\<close>

text \<open>C3. However overlapping runs interleave, a run that refreshed the lock at time \<open>t0\<close> keeps it until 180 seconds
  later unless it releases it itself, and during that time nobody else moves a checkpoint: one that this run does not
  save stays as it was.\<close>

theorem lock_exclusive:
  assumes "lock_trace c ops c'" "live c A t0" "Release A \<notin> set ops" "LOCK_STALE_MS \<le> c_time c"
    and "c_time c' \<le> t0 + LOCK_STALE_MS" "c_time c' < DayFromYear 10000 * msPerDay"
  shows "holds_lock (c_db c') A \<and>
     (\<forall>k. k \<notin> {k. \<exists>cp. Save k cp A \<in> set ops} \<longrightarrow> state_of (c_db c') k = state_of (c_db c) k)"
  using live_trace [OF assms] live_holds by blast

definition sample_state :: state_row where
  "sample_state = \<lparr>s_last = 10, s_updated_at = [], s_expected = Some 11, s_defers = 0, s_advanced_at = None\<rparr>"

definition sample_db :: "lock_row option \<Rightarrow> db" where
  "sample_db l = \<lparr>agents = [], agent_metadata = [], feedback = [], responses = [], validations = [],
     indexer_state = [(''identity'', sample_state)],
     indexer_locks = (case l of None \<Rightarrow> [] | Some r \<Rightarrow> [(indexer_lock, r)]), dead_letters = []\<rparr>"

theorem lock_exclusive_witness:
  "holds_lock (sample_db (Some \<lparr>l_acquired = pgTimeDate 1767225600000, l_owner = Some ''run-a''\<rparr>)) ''run-a'' \<and>
   lock_trace \<lparr>c_db = sample_db (Some \<lparr>l_acquired = pgTimeDate 1767225600000, l_owner = Some ''run-a''\<rparr>), c_time = 1767225600000\<rparr>
     [Wait] \<lparr>c_db = sample_db (Some \<lparr>l_acquired = pgTimeDate 1767225600000, l_owner = Some ''run-a''\<rparr>), c_time = 1767225780000\<rparr>"
proof -
  let ?d = "sample_db (Some \<lparr>l_acquired = pgTimeDate 1767225600000, l_owner = Some ''run-a''\<rparr>)"
  have tr: "lock_trace \<lparr>c_db = ?d, c_time = 1767225600000\<rparr> [Wait] \<lparr>c_db = ?d, c_time = 1767225780000\<rparr>"
    using trace_snoc [OF trace_nil, of "\<lparr>c_db = ?d, c_time = 1767225600000\<rparr>" Wait
        "\<lparr>c_db = ?d, c_time = 1767225780000\<rparr>"] do_wait [of 1767225600000 1767225780000 ?d]
    by simp
  have "live \<lparr>c_db = ?d, c_time = 1767225600000\<rparr> ''run-a'' 1767225600000"
    by (auto simp: live_def lock_of_def sample_db_def)
  from lock_exclusive [OF tr this] tr show ?thesis
    by (simp add: LOCK_STALE_MS_def DayFromYear_def msPerDay_def)
qed

text \<open>Checkpoints never move back, whatever runs do and however they interleave, and every transaction keeps the
  invariant of the schema: from a database that satisfies it, each contract's last indexed ledger only grows.\<close>

theorem checkpoints_never_rewind:
  assumes "lock_trace c ops c'" "db_inv (c_db c)"
  shows "db_inv (c_db c') \<and> checkpoint_advances (c_db c) (c_db c') k"
  using lock_trace_inv [OF assms] lock_trace_advances [OF assms(1)] by blast

theorem checkpoints_never_rewind_witness:
  "db_inv (sample_db None) \<and> lock_step \<lparr>c_db = sample_db None, c_time = 0\<rparr> Wait \<lparr>c_db = sample_db None, c_time = 7\<rparr> \<and>
   checkpoint_advances (sample_db None) (sample_db None) ''identity''"
proof -
  let ?c = "\<lparr>c_db = sample_db None, c_time = 0\<rparr>" and ?c' = "\<lparr>c_db = sample_db None, c_time = 7\<rparr>"
  have st: "lock_step ?c Wait ?c'" by (rule do_wait) simp
  then have tr: "lock_trace ?c ([] @ [Wait]) ?c'" by (rule trace_snoc [OF trace_nil])
  have "db_inv (c_db ?c)" by (simp add: db_inv_defs sample_db_def)
  from checkpoints_never_rewind [OF tr this] st show ?thesis by simp
qed

text \<open>While the copy fence of the migration is in place no run starts and no checkpoint moves: until the end of
  9999 every attempt to take the lock fails and the fence stays, unless the cutover (the fence's own name) deletes it.\<close>

theorem copy_fence_blocks:
  assumes "lock_trace c ops c'" "lock_of (c_db c) = Some copy_fence"
    and "Some ''copy-fence'' \<notin> op_owner ` set ops" "LOCK_STALE_MS \<le> c_time c" "c_time c' < fence_end"
  shows "lock_of (c_db c') = Some copy_fence \<and> state_of (c_db c') = state_of (c_db c)"
  by (rule fence_trace [OF assms])

theorem copy_fence_blocks_witness:
  "lock_of (fst (acquire_sql (pgTimeDate 1767225600000) ''run-a'' (pgTimeDate (1767225600000 - LOCK_STALE_MS))
      (sample_db (Some copy_fence)))) = Some copy_fence"
proof -
  let ?r = "acquire_sql (pgTimeDate 1767225600000) ''run-a'' (pgTimeDate (1767225600000 - LOCK_STALE_MS)) (sample_db (Some copy_fence))"
  have "lock_step \<lparr>c_db = sample_db (Some copy_fence), c_time = 1767225600000\<rparr> (Acquire ''run-a'')
      \<lparr>c_db = fst ?r, c_time = 1767225600000\<rparr>"
    by (rule do_acquire [where row = "snd ?r"]) simp
  then have "lock_trace \<lparr>c_db = sample_db (Some copy_fence), c_time = 1767225600000\<rparr> ([] @ [Acquire ''run-a''])
      \<lparr>c_db = fst ?r, c_time = 1767225600000\<rparr>"
    by (rule trace_snoc [OF trace_nil])
  from copy_fence_blocks [OF this] show ?thesis
    by (simp add: lock_of_def sample_db_def LOCK_STALE_MS_def fence_end_def msPerDay_def)
qed

end
