(* ===== verification/Db_Events.thy ===== *)
theory Db_Events
  imports Db_Lock
begin

text \<open>
  What writing an event does to the tables.

  A parsed event meets every CHECK of the schema, so its statement can fail only on a missing parent row, and dead letters are
  recorded at most once per event and reason.
\<close>

section \<open>Parsed events meet the CHECKs\<close>

lemma address_cap: "isValidStellarAddress s \<Longrightarrow> text_cap s"
  by (simp add: isValidStellarAddress_def text_cap_def split: if_splits)

lemma show_nat_drop_minus: "dropWhile (\<lambda>c. c = CHR ''-'') (show_nat n) = show_nat n"
proof -
  have "CHR ''-'' \<notin> set (show_nat n)"
    using show_nat_digits [of "CHR ''-''" n] by (auto simp: is_digit_def code_of_def)
  then show ?thesis by (metis (full_types) dropWhile_eq_self_iff hd_in_set)
qed

lemma show_int_value_check: "value_check (show_int v)"
proof -
  obtain c cs where c: "show_nat (nat \<bar>v\<bar>) = c # cs" using show_nat_not_Nil [of "nat \<bar>v\<bar>"] by (cases "show_nat (nat \<bar>v\<bar>)") auto
  have dig: "\<forall>x \<in> set (c # cs). is_digit x" using show_nat_digits [of _ "nat \<bar>v\<bar>"] c by auto
  show ?thesis
    using c dig show_nat_drop_minus [of "nat \<bar>v\<bar>"] by (cases "v < 0") (auto simp: value_check_def show_int_def Let_def)
qed

lemma int_affinity_pos: "1 \<le> i \<Longrightarrow> 1 \<le> int_affinity i"
proof -
  assume i: "1 \<le> i"
  have "2 ^ 53 \<le> round53 (nat \<bar>i\<bar>)" if "\<not> i < 2 ^ 63"
  proof (rule round53_large)
    have "(2 :: int) ^ 53 \<le> 2 ^ 63" by simp
    then show "2 ^ 53 \<le> nat \<bar>i\<bar>" using that i by simp
  qed
  with i show ?thesis by (auto simp: int_affinity_def sgn_if)
qed

lemma agent_row_checks: "db_inv d \<Longrightarrow> map_of (agents d) a = Some r \<Longrightarrow> agent_check (a, r)"
  by (auto simp: db_inv_defs dest!: map_of_SomeD)

lemma feedback_row_checks: "db_inv d \<Longrightarrow> map_of (feedback d) k = Some r \<Longrightarrow> feedback_check (k, r)"
  by (auto simp: db_inv_defs dest!: map_of_SomeD)

lemma validation_row_checks: "db_inv d \<Longrightarrow> map_of (validations d) h = Some r \<Longrightarrow> validation_check (h, r)"
  by (auto simp: db_inv_defs dest!: map_of_SomeD)

lemma update_row_total:
  assumes "\<And>r. map_of (sel d) k = Some r \<Longrightarrow> guard r \<Longrightarrow> check (k, f r)"
  shows "update_row check sel put k guard f d \<noteq> Inl m"
  using assms by (auto simp: update_row_def split: option.splits)

text \<open>The row an event's foreign key points to.\<close>

fun event_reference :: "parsed_event \<Rightarrow> parent option" where
  "event_reference (MetadataSet a k v b) = Some (Agent_Parent a)"
| "event_reference (NewFeedback a c i v d t1 t2 e u h b) = Some (Agent_Parent a)"
| "event_reference (ResponseAppended a c r i u h b eid) = Some (Feedback_Parent a c i)"
| "event_reference (ValidationRequest v a h u b) = Some (Agent_Parent a)"
| "event_reference e = None"

lemma event_write_error:
  assumes "event_ok e" "db_inv d" "eventStatement dp e now = Inr s" "exec_stmt clk s d = Inl m"
  shows "m = foreign_key_failed \<and> (\<exists>p. event_reference e = Some p \<and> \<not> parent_exists p d)"
proof (cases e)
  case (Registered a owner uri b)
  with assms have "agent_check (a, new_agent owner uri p t l tx c)" for p t l tx c
    by (simp add: agent_check_def new_agent_def id_ok_def address_cap)
  with Registered assms show ?thesis by (auto simp: sbind_eq_Inr insert_row_def split: if_splits)
next
  case (UriUpdated a who uri b)
  have "update_row agent_check agents put_agents a g (set_uri uri l now) d \<noteq> Inl m" for g l
    using agent_row_checks [OF assms(2)] by (intro update_row_total) (fastforce simp: agent_check_def set_uri_def)
  with UriUpdated assms show ?thesis by auto
next
  case (AgentWalletSet a w b)
  have "update_row agent_check agents put_agents a g (set_wallet (Some w) now) d \<noteq> Inl m" for g
    using agent_row_checks [OF assms(2)] AgentWalletSet assms(1)
    by (intro update_row_total) (fastforce simp: agent_check_def set_wallet_def address_cap)
  with AgentWalletSet assms show ?thesis by auto
next
  case (AgentWalletUnset a b)
  have "update_row agent_check agents put_agents a g (set_wallet None now) d \<noteq> Inl m" for g
    using agent_row_checks [OF assms(2)] by (intro update_row_total) (fastforce simp: agent_check_def set_wallet_def)
  with AgentWalletUnset assms show ?thesis by auto
next
  case (AgentTransferred a f t b)
  have "update_row agent_check agents put_agents a g (set_owner t l now) d \<noteq> Inl m" for g l
    using agent_row_checks [OF assms(2)] AgentTransferred assms(1)
    by (intro update_row_total) (fastforce simp: agent_check_def set_owner_def address_cap)
  with AgentTransferred assms show ?thesis by (auto simp: sbind_eq_Inl)
next
  case (NewFeedback a c i v dec t1 t2 en u h b)
  with assms int_affinity_pos [of i] show ?thesis
    by (auto simp: sbind_eq_Inr insert_row_def feedback_check_def address_cap show_int_value_check split: if_splits)
next
  case (FeedbackRevoked a c i b)
  have "update_row feedback_check feedback put_feedback k g (set_revoked l) d \<noteq> Inl m" for k g l
    using feedback_row_checks [OF assms(2)]
    by (intro update_row_total) (fastforce simp: feedback_check_def set_revoked_def split: prod.splits)
  with FeedbackRevoked assms show ?thesis by auto
next
  case (ResponseAppended a c r i u h b eid)
  with assms show ?thesis
    by (auto simp: sbind_eq_Inr Let_def response_check_def address_cap split: if_splits)
next
  case (ValidationRequest v a h u b)
  with assms show ?thesis
    by (auto simp: sbind_eq_Inr insert_row_def validation_check_def address_cap split: if_splits)
next
  case (ValidationResponse v a h x u rh t b)
  have "update_row validation_check validations put_validations h g (set_response x u' rh' t' tm tx l) d \<noteq> Inl m"
    for g u' rh' t' tm tx l
    using validation_row_checks [OF assms(2)] ValidationResponse assms(1)
    by (intro update_row_total) (fastforce simp: validation_check_def set_response_def)
  with ValidationResponse assms show ?thesis by (auto simp: sbind_eq_Inr)
qed (use assms in \<open>auto split: if_splits\<close>)

lemma constraintFailure_simps [simp]:
  "constraintFailure foreign_key_failed = Some Parent_Failure"
  "constraintFailure check_failed = Some Constraint_Failure"
  by code_simp+

section \<open>Dead letters\<close>

definition dead_key :: "dead_row \<Rightarrow> string option \<times> reason" where
  "dead_key r = (d_event r, d_reason r)"

definition dead_once :: "db \<Rightarrow> bool" where
  "dead_once d \<longleftrightarrow> distinct (map dead_key (filter (\<lambda>r. d_event r \<noteq> None) (dead_letters d)))"

lemma dead_once_add:
  "dead_once d \<Longrightarrow> (\<And>e. d_event r = Some e \<Longrightarrow> \<not> recorded d e (d_reason r)) \<Longrightarrow> dead_once (add_dead r d)"
  by (auto simp: dead_once_def add_dead_def recorded_def dead_key_def)

lemma row_ops_dead_letters:
  "update_row check agents put_agents k guard f d = Inr (d', n) \<Longrightarrow> dead_letters d' = dead_letters d"
  "update_row check2 feedback put_feedback k2 guard2 f2 d = Inr (d', n) \<Longrightarrow> dead_letters d' = dead_letters d"
  "update_row check3 validations put_validations k3 guard3 f3 d = Inr (d', n) \<Longrightarrow> dead_letters d' = dead_letters d"
  "insert_row check agents put_agents fk k v d = Inr (d', n) \<Longrightarrow> dead_letters d' = dead_letters d"
  "insert_row check2 feedback put_feedback fk k2 v2 d = Inr (d', n) \<Longrightarrow> dead_letters d' = dead_letters d"
  "insert_row check3 validations put_validations fk k3 v3 d = Inr (d', n) \<Longrightarrow> dead_letters d' = dead_letters d"
  by (auto simp: put_agents_def put_feedback_def put_validations_def elim!: update_row_cases insert_row_cases)

fun is_letter :: "stmt \<Rightarrow> bool" where
  "is_letter (Sql_deadLetter c why eid l detail) = True"
| "is_letter (Sql_missingParent c eid l detail p) = True"
| "is_letter s = False"

lemma exec_stmt_no_letter:
  assumes "exec_stmt clk s d = Inr (d', n)" "\<not> is_letter s"
  shows "dead_letters d' = dead_letters d"
  using assms
  by (cases s)
    (fastforce simp: sbind_eq_Inr Let_def split: if_splits option.splits dest: row_ops_dead_letters)+

lemma exec_stmt_letter:
  assumes "exec_stmt clk s d = Inr (d', n)" "is_letter s"
  shows "d' = d \<or> (\<exists>r. d' = add_dead r d \<and> (\<forall>e. d_event r = Some e \<longrightarrow> \<not> recorded d e (d_reason r)) \<and>
     (d_reason r = Missing_Parent \<or> (\<exists>c eid l detail. s = Sql_deadLetter c (d_reason r) eid l detail)))"
  using assms by (cases s) (auto split: if_splits option.splits)

lemma exec_stmt_dead_once: "dead_once d \<Longrightarrow> exec_stmt clk s d = Inr (d', n) \<Longrightarrow> dead_once d'"
  using exec_stmt_no_letter [of clk s d d' n] exec_stmt_letter [of clk s d d' n] dead_once_add [of d]
  by (cases "is_letter s") (auto simp: dead_once_def)

lemma acquire_dead_letters: "acquire_sql now owner stale d = (d', row) \<Longrightarrow> dead_letters d' = dead_letters d"
  by (auto simp: acquire_sql_def Let_def split: option.splits if_splits)

interpretation dead_tx: transactional_store "exec_stmt clk" dead_once
  by unfold_locales (rule exec_stmt_dead_once)

lemma lock_trace_dead_once: "lock_trace c ops c' \<Longrightarrow> dead_once (c_db c) \<Longrightarrow> dead_once (c_db c')"
proof (induction rule: lock_trace.induct)
  case (trace_snoc c ops c' x c'')
  then have IH: "dead_once (c_db c')" by simp
  from trace_snoc.hyps(2) show ?case
  proof (cases rule: lock_step.cases)
    case (do_acquire t owner d d' row)
    with IH acquire_dead_letters [OF do_acquire(4)] show ?thesis by (simp add: dead_once_def)
  qed (use IH in \<open>auto simp del: exec_stmt.simps dest: exec_stmt_dead_once dead_tx.batch_inv\<close>)
qed simp

section \<open>Properties\<close>

text \<open>Writing a parsed event never violates a CHECK or NOT NULL constraint. The write either succeeds and keeps the
  schema invariant, or it fails because the row its foreign key refers to is not there, which the indexer classifies as
  worth deferring. So the non-retryable class of failures cannot come from a parsed event.\<close>

theorem event_write_outcome:
  assumes "event_ok e" "db_inv d" "eventStatement dp e now = Inr s"
  shows "case exec_stmt clk s d of
      Inl m \<Rightarrow> constraintFailure m = Some Parent_Failure \<and> (\<exists>p. event_reference e = Some p \<and> \<not> parent_exists p d)
    | Inr (d', n) \<Rightarrow> db_inv d'"
proof (cases "exec_stmt clk s d")
  case (Inl m)
  with event_write_error [OF assms Inl] show ?thesis by auto
next
  case (Inr p)
  with exec_stmt_inv [OF assms(2)] show ?thesis by (cases p) auto
qed

theorem event_write_outcome_witness:
  "exec_stmt [] (Sql_metadataSet 3 ''k'' ''v'') (sample_db None) = Inl foreign_key_failed \<and>
   constraintFailure foreign_key_failed = Some Parent_Failure"
proof -
  have "event_ok (MetadataSet 3 ''k'' ''v'' sample_base)" by (simp add: id_ok_def max_safe_def AGENT_WALLET_KEY_def)
  moreover have "db_inv (sample_db None)" by (simp add: db_inv_defs sample_db_def)
  ultimately show ?thesis
    using event_write_outcome [of "MetadataSet 3 ''k'' ''v'' sample_base" "sample_db None" "\<lambda>_. None" "[]"
        "Sql_metadataSet 3 ''k'' ''v''" "[]"]
    by (simp add: sample_db_def)
qed

text \<open>An event is dead-lettered at most once per reason, however often overlapping or repeated runs meet it.\<close>

theorem dead_letters_once:
  assumes "lock_trace c ops c'" "dead_once (c_db c)"
  shows "dead_once (c_db c')"
  by (rule lock_trace_dead_once [OF assms])

definition sample_letter :: stmt where
  "sample_letter = Sql_deadLetter Identity Unparseable (Some ''7-1'') (Some 7) None"

definition sample_letters :: "nat \<Rightarrow> dead_row list" where
  "sample_letters n = replicate n \<lparr>d_contract = Identity, d_reason = Unparseable, d_event = Some ''7-1'', d_ledger = Some 7,
     d_detail = None, d_created_at = []\<rparr>"

theorem dead_letters_once_witness:
  "lock_trace \<lparr>c_db = (sample_db None)\<lparr>dead_letters := sample_letters 1\<rparr>, c_time = 0\<rparr> [Write sample_letter]
     \<lparr>c_db = (sample_db None)\<lparr>dead_letters := sample_letters 1\<rparr>, c_time = 0\<rparr> \<and>
   dead_once ((sample_db None)\<lparr>dead_letters := sample_letters 1\<rparr>) \<and>
   \<not> dead_once ((sample_db None)\<lparr>dead_letters := sample_letters 2\<rparr>)"
proof -
  let ?d = "(sample_db None)\<lparr>dead_letters := sample_letters 1\<rparr>"
  have "lock_step \<lparr>c_db = ?d, c_time = 0\<rparr> (Write sample_letter) \<lparr>c_db = ?d, c_time = 0\<rparr>"
    by (rule do_write [of _ "[]" _ _ 0]) (simp_all add: sample_letter_def sample_letters_def recorded_def)
  then have tr: "lock_trace \<lparr>c_db = ?d, c_time = 0\<rparr> ([] @ [Write sample_letter]) \<lparr>c_db = ?d, c_time = 0\<rparr>"
    by (rule trace_snoc [OF trace_nil])
  have "dead_once ?d" by (simp add: dead_once_def sample_letters_def)
  with dead_letters_once [OF tr] tr show ?thesis
    by (simp add: dead_once_def sample_letters_def numeral_2_eq_2)
qed

end
