(* ===== verification/Db_Replay.thy ===== *)
theory Db_Replay
  imports Db_Events
begin

text \<open>
  Replays. After a deferral, a rewind of the checkpoints or an overlapping run the same events are written again, in another order and
  between other writes. The columns that events overwrite remember the ledger of the last write (\<open>db.ts\<close>, the guards of the
  UPDATE statements). The locale \<open>guarded_column\<close> is the contract of such a column: a write is applied unless one of a newer ledger
  was, and no other statement touches the column. It follows once for all columns what a sequence of writes leaves: of the writes of the
  newest ledger the one written last. The interpretations are the owner, the URI and the validation response.
\<close>

section \<open>Guarded columns\<close>

text \<open>Of a sequence of writes, each a ledger and a value, the last one of the newest ledger.\<close>

definition newest :: "(int \<times> 'v) list \<Rightarrow> int \<times> 'v" where
  "newest us = List.last (filter (\<lambda>u. fst u = Max (fst ` set us)) us)"

text \<open>What a column shows after a sequence of writes: the newest, unless the column holds one of a newer ledger.\<close>

definition settled :: "int option \<times> 'v \<Rightarrow> (int \<times> 'v) list \<Rightarrow> int option \<times> 'v" where
  "settled c us = (if us = [] then c
     else case newest us of (l, v) \<Rightarrow> (case fst c of None \<Rightarrow> (Some l, v) | Some k \<Rightarrow> if k \<le> l then (Some l, v) else c))"

lemma newest_mem:
  assumes "us \<noteq> []"
  shows "newest us \<in> set us" "fst (newest us) = Max (fst ` set us)"
proof -
  have "Max (fst ` set us) \<in> fst ` set us" using assms by (intro Max_in) auto
  then have "filter (\<lambda>u. fst u = Max (fst ` set us)) us \<noteq> []" by (force simp: filter_empty_conv)
  then have "newest us \<in> set (filter (\<lambda>u. fst u = Max (fst ` set us)) us)" unfolding newest_def by (rule last_in_set)
  then show "newest us \<in> set us" "fst (newest us) = Max (fst ` set us)" by auto
qed

lemma newest_snoc:
  assumes "us \<noteq> []"
  shows "newest (us @ [u]) = (if fst (newest us) \<le> fst u then u else newest us)"
proof -
  have m: "Max (fst ` set (us @ [u])) = max (fst u) (Max (fst ` set us))" using assms by simp
  show ?thesis
  proof (cases "fst (newest us) \<le> fst u")
    case True
    with m newest_mem(2) [OF assms] have "Max (fst ` set (us @ [u])) = fst u" by simp
    then show ?thesis using True by (simp add: newest_def)
  next
    case False
    with m newest_mem(2) [OF assms] have "Max (fst ` set (us @ [u])) = Max (fst ` set us)" "fst u \<noteq> Max (fst ` set us)" by auto
    then show ?thesis using False by (simp add: newest_def)
  qed
qed

lemma newest_single [simp]: "newest [u] = u"
  by (simp add: newest_def)

text \<open>Which write is the newest does not depend on the order when no two different writes share a ledger.\<close>

lemma newest_set:
  assumes "set us = set us'" "single_valued (set us)" "us \<noteq> []"
  shows "newest us = newest us'"
proof -
  have "us' \<noteq> []" using assms by auto
  from newest_mem [OF assms(3)] newest_mem [OF this] assms(1)
  have "newest us \<in> set us" "newest us' \<in> set us" "fst (newest us) = fst (newest us')" by auto
  with assms(2) show ?thesis by (metis prod.collapse single_valuedD)
qed

lemma settled_set: "set us = set us' \<Longrightarrow> single_valued (set us) \<Longrightarrow> settled c us = settled c us'"
  using newest_set [of us us'] by (auto simp: settled_def)

definition put_col :: "int \<times> 'v \<Rightarrow> int option \<times> 'v \<Rightarrow> int option \<times> 'v" where
  "put_col u c = (if ledger_guard (fst c) (fst u) then (Some (fst u), snd u) else c)"

lemma puts_settle: "fold put_col us c = settled c us"
proof (induction us rule: rev_induct)
  case (snoc u us)
  then show ?case
    using newest_snoc [of us u]
    by (cases "us = []") (auto simp: settled_def put_col_def ledger_guard_def split: option.splits prod.splits if_splits)
qed (simp add: settled_def)

locale guarded_column =
  fixes step :: "'s \<Rightarrow> 'd \<Rightarrow> 'd"
    and col :: "'d \<Rightarrow> int option \<times> 'v"
    and upd :: "'s \<Rightarrow> (int \<times> 'v) option"
    and ok :: "'d \<Rightarrow> bool"
  assumes ok_step: "ok d \<Longrightarrow> ok (step s d)"
    and step_other: "ok d \<Longrightarrow> upd s = None \<Longrightarrow> col (step s d) = col d"
    and step_upd: "ok d \<Longrightarrow> upd s = Some (l, v) \<Longrightarrow> col (step s d) = (if ledger_guard (fst (col d)) l then (Some l, v) else col d)"
begin

lemma ok_run: "ok d \<Longrightarrow> ok (fold step ss d)"
  by (induction ss arbitrary: d) (auto intro: ok_step)

lemma col_run: "ok d \<Longrightarrow> col (fold step ss d) = settled (col d) (List.map_filter upd ss)"
proof (induction ss arbitrary: d)
  case (Cons s ss)
  have "col (step s d) = fold put_col (List.map_filter upd [s]) (col d)"
  proof (cases "upd s")
    case None
    with Cons.prems step_other show ?thesis by (simp add: List.map_filter_def)
  next
    case (Some u)
    with step_upd [OF Cons.prems, of s "fst u" "snd u"] show ?thesis by (simp add: List.map_filter_def put_col_def)
  qed
  moreover have "List.map_filter upd (s # ss) = List.map_filter upd [s] @ List.map_filter upd ss" by (simp add: List.map_filter_def)
  ultimately show ?case
    using Cons.IH [OF ok_step [OF Cons.prems]] by (simp add: puts_settle [symmetric])
qed (simp add: settled_def List.map_filter_def)

end

section \<open>The columns\<close>

text \<open>A statement on its own: where it fails, the database is as before.\<close>

definition step_stmt :: "string \<Rightarrow> stmt \<Rightarrow> db \<Rightarrow> db" where
  "step_stmt clk s d = (case exec_stmt clk s d of Inl _ \<Rightarrow> d | Inr (d', n) \<Rightarrow> d')"

lemma step_inv: "db_inv d \<Longrightarrow> db_inv (step_stmt clk s d)"
  using exec_stmt_inv by (auto simp: step_stmt_def split: sum.split prod.split)

definition agent_col :: "(agent_row \<Rightarrow> int option \<times> 'v) \<Rightarrow> int \<Rightarrow> db \<Rightarrow> int option \<times> 'v" where
  "agent_col f a d = f (the (map_of (agents d) a))"

definition agent_there :: "int \<Rightarrow> db \<Rightarrow> bool" where
  "agent_there a d \<longleftrightarrow> db_inv d \<and> map_of (agents d) a \<noteq> None"

fun owner_update :: "int \<Rightarrow> stmt \<Rightarrow> (int \<times> string) option" where
  "owner_update a (Sql_transferred owner ledger now a') = (if a' = a \<and> text_cap owner then Some (ledger, owner) else None)"
| "owner_update a s = None"

fun uri_update :: "int \<Rightarrow> stmt \<Rightarrow> (int \<times> string option) option" where
  "uri_update a (Sql_uriUpdated uri ledger now a') = (if a' = a then Some (ledger, Some uri) else None)"
| "uri_update a s = None"

lemma owner_updateD: "owner_update a s = Some (l, v) \<Longrightarrow> \<exists>now. s = Sql_transferred v l now a \<and> text_cap v"
  by (cases s) (auto split: if_splits)

lemma uri_updateD: "uri_update a s = Some (l, v) \<Longrightarrow> \<exists>uri now. s = Sql_uriUpdated uri l now a \<and> v = Some uri"
  by (cases s) (auto split: if_splits)

lemmas step_simps = step_stmt_def insert_row_def update_row_def put_agents_def put_feedback_def put_validations_def update_conv' add_dead_def
  Let_def sbind_def has_def

lemma there_step: "agent_there a d \<Longrightarrow> agent_there a (step_stmt clk s d)"
  unfolding agent_there_def
  by (intro conjI step_inv, simp) (cases s, auto simp: step_simps split: sum.splits option.splits if_splits prod.splits)

lemma owner_check:
  assumes "agent_there a d"
  shows "agent_check (a, set_owner owner l now (the (map_of (agents d) a))) \<longleftrightarrow> text_cap owner"
  using assms agent_row_checks [of d a] by (auto simp: agent_there_def agent_check_def set_owner_def)

lemma uri_check:
  assumes "agent_there a d"
  shows "agent_check (a, set_uri uri l now (the (map_of (agents d) a)))"
  using assms agent_row_checks [of d a] by (auto simp: agent_there_def agent_check_def set_uri_def)

definition owner_col :: "agent_row \<Rightarrow> int option \<times> string" where
  "owner_col r = (a_transferred_ledger r, a_owner r)"

definition uri_col :: "agent_row \<Rightarrow> int option \<times> string option" where
  "uri_col r = (a_uri_ledger r, a_uri r)"

lemma owner_other: "agent_there a d \<Longrightarrow> owner_update a s = None \<Longrightarrow> agent_col owner_col a (step_stmt clk s d) = agent_col owner_col a d"
  using owner_check [of a d]
  by (cases s) (auto simp: step_simps agent_col_def agent_there_def owner_col_def set_uri_def set_wallet_def set_owner_def
      split: sum.splits option.splits if_splits prod.splits)

lemma uri_other: "agent_there a d \<Longrightarrow> uri_update a s = None \<Longrightarrow> agent_col uri_col a (step_stmt clk s d) = agent_col uri_col a d"
  by (cases s) (auto simp: step_simps agent_col_def agent_there_def uri_col_def set_uri_def set_wallet_def set_owner_def
      split: sum.splits option.splits if_splits prod.splits)

interpretation owner: guarded_column "step_stmt clk" "agent_col owner_col a" "owner_update a" "agent_there a" for clk a
proof
  fix d s l v assume ok: "agent_there a d" and "owner_update a s = Some (l, v)"
  then obtain now where s: "s = Sql_transferred v l now a" "text_cap v" using owner_updateD by blast
  with ok owner_check [OF ok] show "agent_col owner_col a (step_stmt clk s d) =
      (if ledger_guard (fst (agent_col owner_col a d)) l then (Some l, v) else agent_col owner_col a d)"
    by (auto simp: step_simps agent_col_def agent_there_def owner_col_def set_owner_def)
qed (simp_all add: there_step owner_other)

interpretation uri: guarded_column "step_stmt clk" "agent_col uri_col a" "uri_update a" "agent_there a" for clk a
proof
  fix d s l v assume ok: "agent_there a d" and "uri_update a s = Some (l, v)"
  then obtain now u where s: "s = Sql_uriUpdated u l now a" "v = Some u" using uri_updateD by blast
  with ok uri_check [OF ok] show "agent_col uri_col a (step_stmt clk s d) =
      (if ledger_guard (fst (agent_col uri_col a d)) l then (Some l, v) else agent_col uri_col a d)"
    by (auto simp: step_simps agent_col_def agent_there_def uri_col_def set_uri_def uri_guard_def)
qed (simp_all add: there_step uri_other)

subsection \<open>Validation responses\<close>

definition validation_there :: "string \<Rightarrow> db \<Rightarrow> bool" where
  "validation_there h d \<longleftrightarrow> db_inv d \<and> map_of (validations d) h \<noteq> None"

definition response_col :: "string \<Rightarrow> db \<Rightarrow> int option \<times> int option \<times> string option" where
  "response_col h d = (let r = the (map_of (validations d) h) in (v_response_ledger r, v_response r, v_tag r))"

fun response_update :: "string \<Rightarrow> stmt \<Rightarrow> (int \<times> int option \<times> string option) option" where
  "response_update h (Sql_validationResponse x uri rh tag time tx ledger h') =
     (if h' = h \<and> 0 \<le> x \<and> x \<le> 100 then Some (ledger, Some x, tag) else None)"
| "response_update h s = None"

lemma validation_there_step: "validation_there h d \<Longrightarrow> validation_there h (step_stmt clk s d)"
  unfolding validation_there_def
  by (intro conjI step_inv, simp) (cases s, auto simp: step_simps split: sum.splits option.splits if_splits prod.splits)

lemma response_check_iff:
  assumes "validation_there h d"
  shows "validation_check (h, set_response x uri rh tag time tx l (the (map_of (validations d) h))) \<longleftrightarrow> 0 \<le> x \<and> x \<le> 100"
  using assms validation_row_checks [of d h] by (auto simp: validation_there_def validation_check_def set_response_def)

lemma response_other:
  "validation_there h d \<Longrightarrow> response_update h s = None \<Longrightarrow> response_col h (step_stmt clk s d) = response_col h d"
  using response_check_iff [of h d]
  by (cases s) (auto simp: step_simps response_col_def validation_there_def split: sum.splits option.splits if_splits prod.splits)

interpretation response: guarded_column "step_stmt clk" "response_col h" "response_update h" "validation_there h" for clk h
proof
  fix d s l v assume ok: "validation_there h d" and "response_update h s = Some (l, v)"
  then obtain x uri rh tag time tx where s: "s = Sql_validationResponse x uri rh tag time tx l h" "0 \<le> x" "x \<le> 100" "v = (Some x, tag)"
    by (cases s) (auto split: if_splits)
  with ok response_check_iff [OF ok] show "response_col h (step_stmt clk s d) =
      (if ledger_guard (fst (response_col h d)) l then (Some l, v) else response_col h d)"
    by (auto simp: step_simps response_col_def validation_there_def set_response_def)
qed (simp_all add: validation_there_step response_other)

section \<open>Properties\<close>

text \<open>C25. Replays converge. Whatever statements are written, in whatever order and however often, an agent ends with the owner of the
  transfer of its newest ledger and the URI of the update of its newest ledger, of several of that ledger the one written last, unless
  it already had one of a newer ledger. So writing the same transfers and updates in another order leaves the same owner and URI,
  provided that no two different ones have the same ledger.\<close>

theorem replay_newest_wins:
  assumes "db_inv d" "map_of (agents d) a = Some r"
  shows "\<exists>r'. map_of (agents (fold (step_stmt clk) ss d)) a = Some r' \<and>
    (a_transferred_ledger r', a_owner r') = settled (a_transferred_ledger r, a_owner r) (List.map_filter (owner_update a) ss) \<and>
    (a_uri_ledger r', a_uri r') = settled (a_uri_ledger r, a_uri r) (List.map_filter (uri_update a) ss) \<and>
    (\<forall>ss' r''. map_of (agents (fold (step_stmt clk) ss' d)) a = Some r'' \<longrightarrow>
       (set (List.map_filter (owner_update a) ss) = set (List.map_filter (owner_update a) ss') \<longrightarrow>
          single_valued (set (List.map_filter (owner_update a) ss)) \<longrightarrow> a_owner r'' = a_owner r') \<and>
       (set (List.map_filter (uri_update a) ss) = set (List.map_filter (uri_update a) ss') \<longrightarrow>
          single_valued (set (List.map_filter (uri_update a) ss)) \<longrightarrow> a_uri r'' = a_uri r'))"
proof -
  have there: "agent_there a d" using assms by (simp add: agent_there_def)
  have row: "(a_transferred_ledger q, a_owner q) = settled (a_transferred_ledger r, a_owner r) (List.map_filter (owner_update a) ts) \<and>
      (a_uri_ledger q, a_uri q) = settled (a_uri_ledger r, a_uri r) (List.map_filter (uri_update a) ts)"
    if "map_of (agents (fold (step_stmt clk) ts d)) a = Some q" for ts q
    using owner.col_run [OF there, of clk ts] uri.col_run [OF there, of clk ts] that assms(2)
    by (simp add: agent_col_def owner_col_def uri_col_def)
  obtain r' where r': "map_of (agents (fold (step_stmt clk) ss d)) a = Some r'"
    using owner.ok_run [OF there, of clk ss] by (auto simp: agent_there_def)
  show ?thesis
  proof (intro exI [of _ r'] conjI allI impI)
    fix ss' r'' assume run: "map_of (agents (fold (step_stmt clk) ss' d)) a = Some r''"
    show "a_owner r'' = a_owner r'" if "set (List.map_filter (owner_update a) ss) = set (List.map_filter (owner_update a) ss')"
      "single_valued (set (List.map_filter (owner_update a) ss))"
      using row [OF run] row [OF r'] settled_set [OF that] by (metis prod.inject)
    show "a_uri r'' = a_uri r'" if "set (List.map_filter (uri_update a) ss) = set (List.map_filter (uri_update a) ss')"
      "single_valued (set (List.map_filter (uri_update a) ss))"
      using row [OF run] row [OF r'] settled_set [OF that] by (metis prod.inject)
  qed (use r' row [OF r'] in simp_all)
qed

definition sample_replay :: "stmt list" where
  "sample_replay = [Sql_transferred ''first'' 9 [] 7, Sql_transferred ''new'' 9 [] 7, Sql_uriUpdated ''v2'' 8 [] 7, Sql_walletSet (Some ''w'') [] 7,
     Sql_uriUpdated ''v1'' 5 [] 7, Sql_transferred ''old'' 4 [] 7]"

definition sample_owned :: db where
  "sample_owned = (sample_db None)\<lparr>agents := [(7, new_agent ''G'' ''u'' True [] 1 [] [])]\<rparr>"

theorem replay_newest_wins_witness:
  "\<exists>r' r''. map_of (agents (fold (step_stmt []) sample_replay sample_owned)) 7 = Some r' \<and>
     a_owner r' = ''new'' \<and> a_transferred_ledger r' = Some 9 \<and> a_uri r' = Some ''v2'' \<and> a_uri_ledger r' = Some 8 \<and>
     map_of (agents (fold (step_stmt []) (rev sample_replay) sample_owned)) 7 = Some r'' \<and> a_uri r'' = Some ''v2''"
proof -
  have inv: "db_inv sample_owned" and row: "map_of (agents sample_owned) 7 = Some (new_agent ''G'' ''u'' True [] 1 [] [])"
    by (simp_all add: db_inv_defs sample_owned_def sample_db_def agent_check_def text_cap_def new_agent_def)
  have writes: "List.map_filter (owner_update 7) sample_replay = [(9, ''first''), (9, ''new''), (4, ''old'')]"
    "List.map_filter (uri_update 7) sample_replay = [(8, Some ''v2''), (5, Some ''v1'')]"
    "List.map_filter (uri_update 7) (rev sample_replay) = [(5, Some ''v1''), (8, Some ''v2'')]"
    by (simp_all add: sample_replay_def List.map_filter_def text_cap_def)
  have single: "single_valued (set [(8 :: int, Some ''v2''), (5, Some ''v1'')])" by (auto simp: single_valued_def)
  from replay_newest_wins [OF inv row, of "[]" "rev sample_replay"] obtain r''
    where other: "map_of (agents (fold (step_stmt []) (rev sample_replay) sample_owned)) 7 = Some r''" by blast
  from replay_newest_wins [OF inv row, of "[]" sample_replay] obtain r' where r':
    "map_of (agents (fold (step_stmt []) sample_replay sample_owned)) 7 = Some r'"
    "(a_transferred_ledger r', a_owner r') = settled (None, ''G'') [(9, ''first''), (9, ''new''), (4, ''old'')]"
    "(a_uri_ledger r', a_uri r') = settled (None, Some ''u'') [(8, Some ''v2''), (5, Some ''v1'')]"
    and same: "\<And>ss' q. map_of (agents (fold (step_stmt []) ss' sample_owned)) 7 = Some q \<Longrightarrow>
      set [(8, Some ''v2''), (5, Some ''v1'')] = set (List.map_filter (uri_update 7) ss') \<Longrightarrow> single_valued (set [(8 :: int, Some ''v2''), (5, Some ''v1'')]) \<Longrightarrow>
      a_uri q = a_uri r'"
    unfolding writes by (auto simp: new_agent_def)
  have "a_uri r'' = a_uri r'" by (rule same [OF other _ single]) (simp add: writes insert_commute)
  moreover from r' have "a_owner r' = ''new'' \<and> a_transferred_ledger r' = Some 9 \<and> a_uri r' = Some ''v2'' \<and> a_uri_ledger r' = Some 8"
    by (simp add: settled_def newest_def)
  ultimately show ?thesis using other r'(1) by auto
qed

text \<open>Within one ledger the guard does not tell an older transfer from a newer one: written again last, the older one wins.\<close>

lemma same_ledger_undone:
  assumes "db_inv d" "map_of (agents d) a = Some r" "ledger_guard (a_transferred_ledger r) l" "text_cap x" "text_cap y"
  shows "map_option a_owner (map_of (agents (fold (step_stmt clk) [Sql_transferred x l now a, Sql_transferred y l now a, Sql_transferred x l now a] d)) a) = Some x"
proof -
  have there: "agent_there a d" using assms(1,2) by (simp add: agent_there_def)
  let ?ss = "[Sql_transferred x l now a, Sql_transferred y l now a, Sql_transferred x l now a]"
  have "agent_col owner_col a (fold (step_stmt clk) ?ss d) = (Some l, x)"
    using owner.col_run [OF there, of clk ?ss] assms
    by (simp add: agent_col_def owner_col_def List.map_filter_def settled_def newest_def ledger_guard_def split: option.splits)
  then show ?thesis using owner.ok_run [OF there, of clk ?ss] by (auto simp: agent_there_def agent_col_def owner_col_def)
qed

end
