(* ===== verification/Indexer.thy ===== *)
theory Indexer
  imports Db_Events
begin

text \<open>
  \<open>webapp/apps/indexer/src/indexer.ts\<close>: from the checkpoints to the head of the RPC, page by page.

  The RPC server is a parameter: what it answers at a tick, an error or a result. \<open>writeEvents\<close>,
  \<open>indexContract\<close> and \<open>indexContracts\<close> follow the source; the \<open>while\<close> loop of \<open>indexContract\<close> is \<open>scan_loop\<close>, which
  takes fuel and returns \<open>None\<close> when it runs out, and \<open>scan_loop_terminates\<close> shows that the deadline bounds it.
\<close>

section \<open>RPC\<close>

datatype request =
    Start int int \<comment> \<open>startLedger, endLedger\<close>
  | Cursor string

record 'sc page =
  pg_events :: "'sc rpc_event list"
  pg_latest :: int
  pg_cursor :: string

record 'sc server =
  getHealth :: "nat \<Rightarrow> string + int \<times> int" \<comment> \<open>latestLedger, oldestLedger\<close>
  getEvents :: "nat \<Rightarrow> string \<Rightarrow> request \<Rightarrow> string + 'sc page"

definition rpc_health :: "'sc server \<Rightarrow> (world, int \<times> int) act" where
  "rpc_health server w = (getHealth server (w_tick w), tick w)"

definition rpc_events :: "'sc server \<Rightarrow> string \<Rightarrow> request \<Rightarrow> (world, 'sc page) act" where
  "rpc_events server contractId req w = (getEvents server (w_tick w) contractId req, tick w)"

section \<open>Writing a page\<close>

definition SCAN_LIMIT :: int where "SCAN_LIMIT = 10000"
definition PAGE_LIMIT :: nat where "PAGE_LIMIT = 100"
definition BATCH_LIMIT :: nat where "BATCH_LIMIT = 100"
definition MAX_DEFER_ATTEMPTS :: int where "MAX_DEFER_ATTEMPTS = 5"

text \<open>The first loop of \<open>writeEvents\<close>: the packets, and the number of invalid events dead-lettered.\<close>

fun interpret_events :: "env \<Rightarrow> 'sc sdk \<Rightarrow> contract_name \<Rightarrow> 'sc rpc_event list \<Rightarrow> (world, event_packet list \<times> nat) act" where
  "interpret_events env sdk c [] = aret ([], 0)"
| "interpret_events env sdk c (ev # evs) =
     (case interpret_contract sdk c ev of
        Parsed e \<Rightarrow> abind (interpret_events env sdk c evs)
          (\<lambda>(ps, k). aret (\<lparr>pk_id = ev_id ev, pk_contract = c, pk_data = e\<rparr> # ps, k))
      | Invalid why \<Rightarrow> abind (deadLetter env c Unparseable (Some (ev_id ev)) (Some (ev_ledger ev)) (Some why))
          (\<lambda>_. abind (interpret_events env sdk c evs) (\<lambda>(ps, k). aret (ps, Suc k)))
      | Ignored why \<Rightarrow> interpret_events env sdk c evs)"

text \<open>The replay of a rolled-back batch, one event at a time. \<open>changes\<close> has \<open>None\<close> for a skipped event.\<close>

datatype singly = Deferred "nat option list" nat | Finished "nat option list" nat

fun run_singly :: "env \<Rightarrow> contract_name \<Rightarrow> bool \<Rightarrow> (event_packet \<times> stmt) list \<Rightarrow> nat option list \<Rightarrow> nat \<Rightarrow> (world, singly) act" where
  "run_singly env c skip [] changes skipped = aret (Finished changes skipped)"
| "run_singly env c skip ((p, s) # rest) changes skipped =
     abind (atry (stmt_run env s)) (\<lambda>r. case r of
        Inr n \<Rightarrow> run_singly env c skip rest (changes @ [Some n]) skipped
      | Inl err \<Rightarrow>
          (case constraintFailure err of
             None \<Rightarrow> athrow err
           | Some failure \<Rightarrow>
               if \<not> skip then aret (Deferred changes skipped)
               else abind (deadLetter env c (if failure = Parent_Failure then Skip_Retryable else Skip_Nonretryable)
                        (Some (pk_id p)) (Some (b_ledger (base (pk_data p)))) (Some (''Error: '' @ err)))
                      (\<lambda>_. run_singly env c skip rest (changes @ [None]) (Suc skipped))))"

definition recordMissingParents :: "env \<Rightarrow> event_packet list \<Rightarrow> (world, nat) act" where
  "recordMissingParents env unchanged =
     (let statements = List.map_filter missingParentStatement unchanged
      in if statements = [] then aret 0
         else abind (atry (db_batch env statements)) (\<lambda>r. case r of
             Inr results \<Rightarrow> aret (length (filter (\<lambda>n. n \<noteq> 0) results))
           | Inl _ \<Rightarrow> aret 0))"

text \<open>One round of the batch loop: the statements, the batch or its replay, and the missing parents.\<close>

definition write_chunk ::
  "env \<Rightarrow> contract_name \<Rightarrow> bool \<Rightarrow> string \<Rightarrow> event_packet list \<Rightarrow> nat \<Rightarrow> nat \<Rightarrow> (world, nat \<times> nat \<times> bool) act" where
  "write_chunk env c skip now chunk processed skipped =
     abind (alift (smap (\<lambda>p. eventStatement (e_date env) (pk_data p) now) chunk)) (\<lambda>statements.
     abind (atry (db_batch env statements)) (\<lambda>r.
     abind (case r of
         Inr changes \<Rightarrow> aret (Finished (map Some changes) skipped)
       | Inl err \<Rightarrow>
           if constraintFailure err = None then athrow err
           else run_singly env c skip (zip chunk statements) [] skipped) (\<lambda>outcome.
       case outcome of
         Deferred changes skipped' \<Rightarrow> aret (processed + length changes, skipped', True)
       | Finished changes skipped' \<Rightarrow>
           abind (recordMissingParents env (map fst (filter (\<lambda>(p, n). n = Some 0) (zip chunk changes)))) (\<lambda>missing.
             aret (processed + length (filter (\<lambda>n. n \<noteq> None) changes), skipped' + missing, False)))))"

function write_chunks ::
  "env \<Rightarrow> contract_name \<Rightarrow> bool \<Rightarrow> string \<Rightarrow> event_packet list \<Rightarrow> nat \<Rightarrow> nat \<Rightarrow> (world, nat \<times> nat \<times> bool) act" where
  "write_chunks env c skip now ordered processed skipped =
     (if ordered = [] then aret (processed, skipped, False)
      else abind (write_chunk env c skip now (take BATCH_LIMIT ordered) processed skipped) (\<lambda>(processed', skipped', deferred).
             if deferred then aret (processed', skipped', True)
             else write_chunks env c skip now (drop BATCH_LIMIT ordered) processed' skipped'))"
  by pat_completeness auto
termination
  by (relation "measure (\<lambda>(env, c, skip, now, ordered, processed, skipped). length ordered)")
    (auto simp: BATCH_LIMIT_def)

declare write_chunks.simps [simp del]

definition writeEvents ::
  "env \<Rightarrow> 'sc sdk \<Rightarrow> contract_name \<Rightarrow> 'sc rpc_event list \<Rightarrow> bool \<Rightarrow> (world, nat \<times> nat \<times> bool) act" where
  "writeEvents env sdk c events skip =
     abind (interpret_events env sdk c events) (\<lambda>(packets, skipped).
     abind (date_now env) (\<lambda>now.
       write_chunks env c skip (pgTimeDate now) (parentsFirst packets) 0 skipped))"

section \<open>One contract\<close>

datatype stop = Stop_Deferred | Stop_Rpc_Error | Stop_Deadline

record contract_result =
  cr_last :: int
  cr_processed :: nat
  cr_skipped :: nat
  cr_stopped :: "stop option"

record scan =
  sc_contract :: contract_name
  sc_id :: string
  sc_head :: int
  sc_oldest :: int
  sc_deadline :: int
  sc_owner :: string

record 'sc scan_state =
  ss_state :: checkpoint
  ss_saved :: checkpoint
  ss_from :: int
  ss_to :: int
  ss_cursor :: "string option"
  ss_held :: "'sc rpc_event list"
  ss_processed :: nat
  ss_skipped :: nat
  ss_stopped :: "stop option"

definition save :: "env \<Rightarrow> scan \<Rightarrow> 'sc scan_state \<Rightarrow> (world, 'sc scan_state) act" where
  "save env scan st =
     (if ss_state st = ss_saved st then aret st
      else abind (saveCheckpoint env (contract_text (sc_contract scan)) (ss_state st) (sc_owner scan))
             (\<lambda>_. aret (st\<lparr>ss_saved := ss_state st\<rparr>)))"

definition page_request :: "'sc scan_state \<Rightarrow> request" where
  "page_request st = (case ss_cursor st of
      Some c \<Rightarrow> if c = [] then Start (ss_from st) (ss_to st + 1) else Cursor c
    | None \<Rightarrow> Start (ss_from st) (ss_to st + 1))"

text \<open>What a page lets the loop write: the events, the events held back and the ledger reached.\<close>

definition split_page ::
  "'sc scan_state \<Rightarrow> 'sc page \<Rightarrow> bool \<times> 'sc rpc_event list \<times> 'sc rpc_event list \<times> int" where
  "split_page st page =
     (let inWindow = filter (\<lambda>ev. ev_ledger ev \<le> ss_to st) (pg_events page);
          scanned = (length (pg_events page) < PAGE_LIMIT \<or> length inWindow < length (pg_events page));
          ready = ss_held st @ inWindow
      in if scanned then (True, ready, [], min (ss_to st) (pg_latest page))
         else let final = ev_ledger (last ready)
              in (False, filter (\<lambda>ev. ev_ledger ev < final) ready, filter (\<lambda>ev. ev_ledger ev = final) ready, final - 1))"

definition log_events :: "contract_name \<Rightarrow> 'sc rpc_event list \<Rightarrow> (world, unit) act" where
  "log_events c evs w = (Inr (), w\<lparr>w_log := w_log w @ map (\<lambda>ev. (c, ev_id ev)) evs\<rparr>)"

text \<open>The body of the loop after the page arrived; the flag says whether the loop goes on.\<close>

definition handle_page ::
  "env \<Rightarrow> 'sc sdk \<Rightarrow> scan \<Rightarrow> 'sc scan_state \<Rightarrow> 'sc page \<Rightarrow> (world, bool \<times> 'sc scan_state) act" where
  "handle_page env sdk scan st page =
     (case split_page st page of (scanned, ready, held, reached) \<Rightarrow>
      let skip = (MAX_DEFER_ATTEMPTS \<le> deferAttempts (ss_state st))
      in abind (writeEvents env sdk (sc_contract scan) ready skip) (\<lambda>(processed, skipped, deferred).
         let st1 = st\<lparr>ss_held := held, ss_processed := ss_processed st + processed, ss_skipped := ss_skipped st + skipped\<rparr>
         in if deferred then
              aret (False, st1\<lparr>ss_state := (ss_state st)\<lparr>deferAttempts := deferAttempts (ss_state st) + 1\<rparr>,
                               ss_stopped := Some Stop_Deferred\<rparr>)
            else
              abind (log_events (sc_contract scan) ready) (\<lambda>_.
              abind (if lastLedger (ss_state st) < reached
                     then save env scan (st1\<lparr>ss_state := \<lparr>lastLedger = reached, deferAttempts = 0\<rparr>\<rparr>)
                     else aret st1) (\<lambda>st2.
                if \<not> scanned then aret (True, st2\<lparr>ss_cursor := Some (pg_cursor page)\<rparr>)
                else if pg_latest page < ss_to st then aret (False, st2)
                else aret (True, st2\<lparr>ss_from := ss_to st + 1,
                                     ss_to := min (sc_head scan) (ss_to st + 1 + SCAN_LIMIT - 1),
                                     ss_cursor := None\<rparr>)))))"

fun scan_loop :: "env \<Rightarrow> 'sc sdk \<Rightarrow> 'sc server \<Rightarrow> scan \<Rightarrow> nat \<Rightarrow> 'sc scan_state \<Rightarrow> (world, 'sc scan_state option) act" where
  "scan_loop env sdk server scan 0 st = aret None"
| "scan_loop env sdk server scan (Suc fuel) st =
     (if \<not> lastLedger (ss_state st) < sc_head scan then aret (Some st)
      else abind (date_now env) (\<lambda>now.
        if sc_deadline scan \<le> now then aret (Some (st\<lparr>ss_stopped := Some Stop_Deadline\<rparr>))
        else abind (atry (rpc_events server (sc_id scan) (page_request st))) (\<lambda>r. case r of
            Inl _ \<Rightarrow> aret (Some (st\<lparr>ss_stopped := Some Stop_Rpc_Error\<rparr>))
          | Inr page \<Rightarrow> abind (handle_page env sdk scan st page) (\<lambda>(more, st').
              if more then scan_loop env sdk server scan fuel st' else aret (Some st')))))"

definition initial_scan :: "scan \<Rightarrow> checkpoint \<Rightarrow> checkpoint \<Rightarrow> int \<Rightarrow> 'sc scan_state" where
  "initial_scan scan cp saved from =
     \<lparr>ss_state = cp, ss_saved = saved, ss_from = from, ss_to = min (sc_head scan) (from + SCAN_LIMIT - 1),
      ss_cursor = None, ss_held = [], ss_processed = 0, ss_skipped = 0, ss_stopped = None\<rparr>"

definition clamp_detail :: "int \<Rightarrow> int \<Rightarrow> string" where
  "clamp_detail from oldest = ''ledgers '' @ show_int from @ ''-'' @ show_int (oldest - 1)
     @ '' aged out of RPC retention before they were indexed''"

definition clamp_start :: "env \<Rightarrow> scan \<Rightarrow> checkpoint \<Rightarrow> (world, 'sc scan_state) act" where
  "clamp_start env scan start =
     (let from = lastLedger start + 1
      in if from < sc_oldest scan then
           abind (deadLetter env (sc_contract scan) Retention_Clamp None (Some from)
                    (Some (clamp_detail from (sc_oldest scan)))) (\<lambda>_.
             save env scan (initial_scan scan (start\<lparr>lastLedger := sc_oldest scan - 1\<rparr>) start (sc_oldest scan)))
         else aret (initial_scan scan start start from))"

definition indexContract ::
  "env \<Rightarrow> 'sc sdk \<Rightarrow> 'sc server \<Rightarrow> nat \<Rightarrow> scan \<Rightarrow> checkpoint \<Rightarrow> (world, contract_result option) act" where
  "indexContract env sdk server fuel scan start =
     (if sc_head scan \<le> lastLedger start
      then aret (Some \<lparr>cr_last = lastLedger start, cr_processed = 0, cr_skipped = 0, cr_stopped = None\<rparr>)
      else abind (clamp_start env scan start) (\<lambda>st.
           abind (scan_loop env sdk server scan fuel st) (\<lambda>r. case r of
               None \<Rightarrow> aret None
             | Some st' \<Rightarrow> abind (save env scan st') (\<lambda>st''.
                 aret (Some \<lparr>cr_last = lastLedger (ss_state st''), cr_processed = ss_processed st'',
                             cr_skipped = ss_skipped st'', cr_stopped = ss_stopped st''\<rparr>)))))"

section \<open>All contracts\<close>

definition CONTRACTS :: "contract_name list" where
  "CONTRACTS = [Identity, Reputation, Validation]"

record index_result =
  ir_contracts :: "(contract_name \<times> contract_result) list"
  ir_timedOut :: bool

definition cp_get :: "(string \<times> checkpoint) list \<Rightarrow> contract_name \<Rightarrow> checkpoint" where
  "cp_get cps c = the (map_of cps (contract_text c))"

fun contracts_loop ::
  "env \<Rightarrow> 'sc sdk \<Rightarrow> 'sc server \<Rightarrow> nat \<Rightarrow> (contract_name \<Rightarrow> string) \<Rightarrow> int \<Rightarrow> string \<Rightarrow> int \<Rightarrow>
   (string \<times> checkpoint) list \<Rightarrow> contract_name list \<Rightarrow> int \<Rightarrow> index_result \<Rightarrow> (world, index_result option) act" where
  "contracts_loop env sdk server fuel ids deadline owner oldest cps [] head res = aret (Some res)"
| "contracts_loop env sdk server fuel ids deadline owner oldest cps (c # cs) head res =
     abind (date_now env) (\<lambda>now.
       if deadline \<le> now then aret (Some (res\<lparr>ir_timedOut := True\<rparr>))
       else abind (indexContract env sdk server fuel
              \<lparr>sc_contract = c, sc_id = ids c, sc_head = head, sc_oldest = oldest, sc_deadline = deadline, sc_owner = owner\<rparr>
              (cp_get cps c)) (\<lambda>r. case r of
           None \<Rightarrow> aret None
         | Some outcome \<Rightarrow>
             contracts_loop env sdk server fuel ids deadline owner oldest cps cs
               (if c = Identity then min head (cr_last outcome) else head)
               \<lparr>ir_contracts = ir_contracts res @ [(c, outcome)],
                ir_timedOut = (ir_timedOut res \<or> cr_stopped outcome = Some Stop_Deadline)\<rparr>))"

definition aged_contracts :: "(string \<times> checkpoint) list \<Rightarrow> int \<Rightarrow> contract_name list" where
  "aged_contracts cps oldest = filter (\<lambda>c. lastLedger (cp_get cps c) + 1 < oldest) CONTRACTS"

definition aged_message :: "contract_name list \<Rightarrow> int \<Rightarrow> string" where
  "aged_message aged oldest = ''Checkpoints of '' @ join '', '' (map contract_text aged)
     @ '' predate RPC retention (oldest ledger '' @ show_int oldest
     @ ''); set ALLOW_RETENTION_CLAMP=true to skip the gap and record it in indexer_dead_letter''"

definition indexContracts ::
  "env \<Rightarrow> 'sc sdk \<Rightarrow> 'sc server \<Rightarrow> nat \<Rightarrow> (contract_name \<Rightarrow> string) \<Rightarrow> int \<Rightarrow> string \<Rightarrow> bool \<Rightarrow> (world, index_result option) act" where
  "indexContracts env sdk server fuel ids deadline owner allowClamp =
     abind (readCheckpoints env (map contract_text CONTRACTS)) (\<lambda>cps.
     abind (rpc_health server) (\<lambda>(latest, oldest).
       let aged = aged_contracts cps oldest
       in if aged \<noteq> [] \<and> \<not> allowClamp then athrow (aged_message aged oldest)
          else contracts_loop env sdk server fuel ids deadline owner oldest cps CONTRACTS latest
                 \<lparr>ir_contracts = [], ir_timedOut = False\<rparr>))"

end
