(* ===== verification/Indexer_Safety.thy ===== *)
theory Indexer_Safety
  imports Indexer
begin

text \<open>
  What the indexer never does: \<open>writeEvents\<close> only runs write statements (it touches neither lock nor checkpoint), and
  only a run armed by \<open>MAX_DEFER_ATTEMPTS\<close> deferrals dead-letters an event it could not write. Both follow from one
  lemma: whatever the allowed statements keep of the database, \<open>writeEvents\<close> keeps.
\<close>

section \<open>What writing keeps\<close>

definition skip_reason :: "reason \<Rightarrow> bool" where
  "skip_reason why \<longleftrightarrow> why = Skip_Retryable \<or> why = Skip_Nonretryable"

fun allowed :: "bool \<Rightarrow> stmt \<Rightarrow> bool" where
  "allowed skip (Sql_deadLetter c why eid l detail) = (skip \<or> \<not> skip_reason why)"
| "allowed skip (Sql_recordTry attempts pending tried a uri) = False"
| "allowed skip (Sql_storeDocument doc trust services x402 mpp now a uri) = False"
| "allowed skip s = is_write s"

text \<open>A database property together with the log, which the write path leaves alone, and a lower bound of the tick.\<close>

definition at_db :: "(db \<Rightarrow> bool) \<Rightarrow> (contract_name \<times> string) list \<Rightarrow> nat \<Rightarrow> world \<Rightarrow> bool" where
  "at_db I l t w \<longleftrightarrow> I (w_db w) \<and> w_log w = l \<and> t \<le> w_tick w"

definition kept_by :: "(stmt \<Rightarrow> bool) \<Rightarrow> (db \<Rightarrow> bool) \<Rightarrow> bool" where
  "kept_by A I \<longleftrightarrow> (\<forall>s clk d d' n. A s \<longrightarrow> I d \<longrightarrow> exec_stmt clk s d = Inr (d', n) \<longrightarrow> I d')"

lemma kept_byD: "kept_by A I \<Longrightarrow> A s \<Longrightarrow> I d \<Longrightarrow> exec_stmt clk s d = Inr (d', n) \<Longrightarrow> I d'"
  unfolding kept_by_def by blast

lemma keeps_date_now [keeps_intros]: "keeps (at_db I l t) (date_now env)"
  by (auto simp: keeps_def wp_rules at_db_def)

lemma keeps_db_call:
  assumes "\<And>clk d d' x. I d \<Longrightarrow> q clk d = Inr (d', x) \<Longrightarrow> I d'"
  shows "keeps (at_db I l t) (db_call env q)"
  using assms by (intro keepsI wp_db_call) (auto simp: at_db_def)

lemma keeps_stmt_run: "kept_by A I \<Longrightarrow> A s \<Longrightarrow> keeps (at_db I l t) (stmt_run env s)"
  unfolding stmt_run_def by (rule keeps_db_call) (blast dest: kept_byD)

lemma kept_by_batch: "kept_by A I \<Longrightarrow> (\<And>s. s \<in> set ss \<Longrightarrow> A s) \<Longrightarrow> I d \<Longrightarrow>
   run_batch (exec_stmt clk) ss d = Inr (d', ns) \<Longrightarrow> I d'"
proof (induction ss arbitrary: d ns)
  case (Cons s ss)
  then obtain d1 n1 ns1 where *: "exec_stmt clk s d = Inr (d1, n1)" "run_batch (exec_stmt clk) ss d1 = Inr (d', ns1)"
    by (auto simp: sbind_eq_Inr)
  have "I d1" by (rule kept_byD [OF Cons.prems(1) _ Cons.prems(3) *(1)]) (simp add: Cons.prems(2))
  with Cons.IH [OF Cons.prems(1) _ _ *(2)] Cons.prems(2) show ?case by auto
qed simp

lemma keeps_db_batch: "kept_by A I \<Longrightarrow> (\<And>s. s \<in> set ss \<Longrightarrow> A s) \<Longrightarrow> keeps (at_db I l t) (db_batch env ss)"
  unfolding db_batch_def by (rule keeps_db_call) (auto dest: kept_by_batch)

lemma keeps_deadLetter: "kept_by A I \<Longrightarrow> A (Sql_deadLetter c why eid ledger detail) \<Longrightarrow>
   keeps (at_db I l t) (deadLetter env c why eid ledger detail)"
  unfolding deadLetter_def by (intro keeps_intros keeps_stmt_run)

lemma allowed_event: "eventStatement dp e now = Inr s \<Longrightarrow> allowed skip s"
  by (cases e) (auto simp: sbind_eq_Inr)

lemma allowed_missing: "missingParentStatement p = Some s \<Longrightarrow> allowed skip s"
  by (auto simp: missingParentStatement_def split: option.splits)

lemma smap_Inr_mem: "smap f xs = Inr ys \<Longrightarrow> y \<in> set ys \<Longrightarrow> \<exists>x \<in> set xs. f x = Inr y"
  by (induction xs arbitrary: ys) (auto simp: sbind_eq_Inr)

lemma keeps_interpret_events: "kept_by (allowed skip) I \<Longrightarrow> keeps (at_db I l t) (interpret_events env sdk c evs)"
proof (induction evs)
  case Nil
  then show ?case by (simp add: keeps_intros)
next
  case (Cons ev evs)
  then show ?case
    by (auto split: event_interpretation.split prod.split simp: skip_reason_def
        intro!: keeps_intros keeps_deadLetter [where A = "allowed skip"])
qed

lemma keeps_run_singly:
  "kept_by (allowed skip) I \<Longrightarrow> (\<And>p s. (p, s) \<in> set pss \<Longrightarrow> allowed skip s) \<Longrightarrow>
   keeps (at_db I l t) (run_singly env c skip pss changes skipped)"
proof (induction pss arbitrary: changes skipped)
  case Nil
  then show ?case by (simp add: keeps_intros)
next
  case (Cons ps pss)
  obtain p s where ps: "ps = (p, s)" by fastforce
  have "allowed skip s" using Cons.prems(2) ps by auto
  moreover have "keeps (at_db I l t) (run_singly env c skip pss changes' skipped')" for changes' skipped'
    using Cons by auto
  ultimately show ?case
    unfolding ps using Cons.prems(1)
    by (auto split: sum.split option.split
        intro!: keeps_intros keeps_stmt_run [where A = "allowed skip"] keeps_deadLetter [where A = "allowed skip"])
qed

lemma keeps_recordMissingParents:
  assumes "kept_by (allowed skip) I"
  shows "keeps (at_db I l t) (recordMissingParents env ps)"
proof -
  have "allowed skip s" if "s \<in> set (List.map_filter missingParentStatement ps)" for s
  proof -
    from that obtain p where "missingParentStatement p = Some s" by (auto simp: List.map_filter_def)
    then show ?thesis by (rule allowed_missing)
  qed
  then have "keeps (at_db I l t) (db_batch env (List.map_filter missingParentStatement ps))"
    by (rule keeps_db_batch [OF assms])
  then show ?thesis
    unfolding recordMissingParents_def Let_def by (auto split: sum.split intro!: keeps_intros)
qed

lemma keeps_write_chunk: "kept_by (allowed skip) I \<Longrightarrow> keeps (at_db I l t) (write_chunk env c skip now chunk processed skipped)"
proof (cases "smap (\<lambda>p. eventStatement (e_date env) (pk_data p) now) chunk")
  case (Inl err)
  then show ?thesis
    by (auto simp: write_chunk_def keeps_def wp_rules)
next
  case (Inr ss)
  assume kept: "kept_by (allowed skip) I"
  have ok: "allowed skip s" if "s \<in> set ss" for s
    using smap_Inr_mem [OF Inr that] allowed_event by auto
  then have "allowed skip s" if "(p, s) \<in> set (zip chunk ss)" for p s
    using that by (auto dest: set_zip_rightD)
  with kept ok have parts: "keeps (at_db I l t) (db_batch env ss)"
      "keeps (at_db I l t) (run_singly env c skip (zip chunk ss) [] skipped)"
    by (auto intro: keeps_db_batch keeps_run_singly)
  show ?thesis
    unfolding write_chunk_def Inr abind_pure
    by (auto split: sum.split singly.split intro!: keeps_intros parts keeps_recordMissingParents [OF kept])
qed

lemma keeps_write_chunks: "kept_by (allowed skip) I \<Longrightarrow> keeps (at_db I l t) (write_chunks env c skip now ordered processed skipped)"
proof (induction env c skip now ordered processed skipped rule: write_chunks.induct)
  case (1 env c skip now ordered processed skipped)
  then show ?case
    by (subst write_chunks.simps)
      (auto split: prod.split intro!: keeps_intros keeps_write_chunk)
qed

lemma keeps_writeEvents: "kept_by (allowed skip) I \<Longrightarrow> keeps (at_db I l t) (writeEvents env sdk c evs skip)"
  unfolding writeEvents_def
  by (auto split: prod.split intro!: keeps_intros keeps_interpret_events keeps_write_chunks)

end
