(* ===== verification/Indexer_Scan.thy ===== *)
theory Indexer_Scan
  imports Indexer_Safety
begin

text \<open>
  The scan of a contract against an honest RPC server deals with every event once, in order, in whole ledgers.

  \<open>honest\<close> states the documented behaviour of \<open>getEvents\<close> for a contract whose events on chain are \<open>evs\<close>: a page is
  the next hundred events from the requested start (a ledger, or the position of a cursor) up to some ledger the
  node has reached, and a request scans at least 10,000 ledgers or up to its end or the node's latest ledger. The
  node may be behind, may differ from call to call and may fail at any time.
\<close>

section \<open>An honest server\<close>

definition rpc_scan_ledgers :: int where
  "rpc_scan_ledgers = 10000"

definition full_page :: "'sc rpc_event list \<Rightarrow> (string \<Rightarrow> nat) \<Rightarrow> nat \<Rightarrow> int \<Rightarrow> 'sc page \<Rightarrow> bool" where
  "full_page evs pos p b page \<longleftrightarrow> b \<le> pg_latest page \<and>
     pg_events page = take PAGE_LIMIT (filter (\<lambda>x. ev_ledger x \<le> b) (drop p evs)) \<and>
     (length (pg_events page) = PAGE_LIMIT \<longrightarrow> pg_cursor page \<noteq> [] \<and> pos (pg_cursor page) = p + PAGE_LIMIT)"

definition honest :: "'sc server \<Rightarrow> string \<Rightarrow> 'sc rpc_event list \<Rightarrow> (string \<Rightarrow> nat) \<Rightarrow> bool" where
  "honest server cid evs pos \<longleftrightarrow> sorted (map ev_ledger evs) \<and>
     (\<forall>t s e page. getEvents server t cid (Start s e) = Inr page \<longrightarrow>
        (\<exists>b. min (pg_latest page) (min (e - 1) (s + rpc_scan_ledgers - 1)) \<le> b \<and>
             full_page evs pos (length (filter (\<lambda>x. ev_ledger x < s) evs)) b page)) \<and>
     (\<forall>t c page. getEvents server t cid (Cursor c) = Inr page \<longrightarrow> 0 < pos c \<longrightarrow> pos c \<le> length evs \<longrightarrow>
        ev_ledger (evs ! (pos c - 1)) \<le> pg_latest page \<and>
        (\<exists>b. min (pg_latest page) (ev_ledger (evs ! (pos c - 1)) + rpc_scan_ledgers - 1) \<le> b \<and>
             full_page evs pos (pos c) b page))"

section \<open>Sorted event lists\<close>

abbreviation ledgers :: "'sc rpc_event list \<Rightarrow> int list" where
  "ledgers evs \<equiv> map ev_ledger evs"

lemma sorted_append_le: "sorted (ledgers (xs @ ys)) \<Longrightarrow> x \<in> set xs \<Longrightarrow> y \<in> set ys \<Longrightarrow> ev_ledger x \<le> ev_ledger y"
  by (auto simp: sorted_append)

lemma sorted_drop_less:
  "sorted (ledgers evs) \<Longrightarrow> drop (length (filter (\<lambda>x. ev_ledger x < s) evs)) evs = filter (\<lambda>x. s \<le> ev_ledger x) evs"
proof (induction evs)
  case (Cons x xs)
  show ?case
  proof (cases "ev_ledger x < s")
    case False
    then have "filter (\<lambda>x. ev_ledger x < s) xs = []" using Cons.prems by (force simp: filter_empty_conv)
    moreover have "filter (\<lambda>x. s \<le> ev_ledger x) xs = xs" using False Cons.prems by (force simp: filter_id_conv)
    ultimately show ?thesis using False by simp
  qed (use Cons in simp)
qed simp

lemma sorted_filter_take:
  "sorted (ledgers xs) \<Longrightarrow> n \<le> length (filter (\<lambda>x. ev_ledger x \<le> b) xs) \<Longrightarrow>
   take n (filter (\<lambda>x. ev_ledger x \<le> b) xs) = take n xs"
proof (induction xs arbitrary: n)
  case (Cons x xs)
  show ?case
  proof (cases "ev_ledger x \<le> b")
    case True
    with Cons show ?thesis by (cases n) auto
  next
    case False
    then have "filter (\<lambda>x. ev_ledger x \<le> b) xs = []" using Cons.prems by (force simp: filter_empty_conv)
    with False Cons.prems show ?thesis by simp
  qed
qed simp

text \<open>A page that is short, or that ran past the window, shows the whole window.\<close>

lemma scanned_window:
  assumes sorted: "sorted (ledgers D)" and b: "min latest T \<le> b" "b \<le> latest"
    and page: "P = take n (filter (\<lambda>x. ev_ledger x \<le> b) D)"
    and scanned: "length P < n \<or> length (filter (\<lambda>x. ev_ledger x \<le> T) P) < length P"
  shows "filter (\<lambda>x. ev_ledger x \<le> T) P = filter (\<lambda>x. ev_ledger x \<le> min T latest) D"
proof -
  let ?F = "filter (\<lambda>x. ev_ledger x \<le> b) D"
  have window: "filter (\<lambda>x. ev_ledger x \<le> T) ?F = filter (\<lambda>x. ev_ledger x \<le> min T latest) D"
    using b by (auto simp: intro!: filter_cong)
  show ?thesis
  proof (cases "length P < n")
    case True
    then have "P = ?F" using page by simp
    then show ?thesis using window by simp
  next
    case False
    with scanned have "filter (\<lambda>x. ev_ledger x \<le> T) P \<noteq> P" by auto
    then have "\<exists>x \<in> set P. T < ev_ledger x" by (simp add: filter_id_conv not_le)
    then obtain x where x: "x \<in> set (take n ?F)" "T < ev_ledger x" unfolding page by blast
    have srt: "sorted (ledgers (take n ?F @ drop n ?F))" using sorted by (simp add: sorted_map_filter)
    have "filter (\<lambda>x. ev_ledger x \<le> T) (drop n ?F) = []"
      using sorted_append_le [OF srt x(1)] x(2) by (force simp: filter_empty_conv)
    then have "filter (\<lambda>x. ev_ledger x \<le> T) (take n ?F @ drop n ?F) = filter (\<lambda>x. ev_ledger x \<le> T) P"
      unfolding filter_append page by simp
    then show ?thesis using window by simp
  qed
qed

text \<open>A full page inside the window: everything before its last ledger is complete, the rest is held.\<close>

lemma full_page_split:
  assumes sorted: "sorted (ledgers (held @ P @ rest))" and P: "P \<noteq> []"
    and above: "\<forall>x \<in> set (held @ P @ rest). S < ev_ledger x"
  defines "final \<equiv> ev_ledger (last (held @ P))"
  shows "filter (\<lambda>x. ev_ledger x \<le> final - 1) (held @ P @ rest) = filter (\<lambda>x. ev_ledger x < final) (held @ P)"
    and "filter (\<lambda>x. final - 1 < ev_ledger x) (held @ P @ rest) = filter (\<lambda>x. ev_ledger x = final) (held @ P) @ rest"
    and "S \<le> final - 1" and "final = ev_ledger (last P)"
proof -
  show last: "final = ev_ledger (last P)" using P by (simp add: final_def)
  have "last (held @ P) \<in> set (held @ P)" using P by (intro last_in_set) simp
  then have f: "\<exists>x \<in> set (held @ P). ev_ledger x = final" by (auto simp: final_def)
  then show "S \<le> final - 1" using above by force
  have rest: "final \<le> ev_ledger y" if "y \<in> set rest" for y
    using f sorted_append_le [of "held @ P" rest] sorted that by (metis append_assoc)
  have lo: "ev_ledger x \<le> final" if "x \<in> set (held @ P)" for x
  proof -
    have "sorted (ledgers (butlast (held @ P) @ [last (held @ P)]))"
      using sorted P by (subst append_butlast_last_id) (auto simp: sorted_append)
    moreover have "x \<in> set (butlast (held @ P)) \<or> x = last (held @ P)"
      using that P by (metis append_butlast_last_id append_is_Nil_conv rotate1.simps(2) set_ConsD set_rotate1)
    ultimately show ?thesis using sorted_append_le [of "butlast (held @ P)" "[last (held @ P)]" x] by (auto simp: final_def)
  qed
  have "filter (\<lambda>x. ev_ledger x \<le> final - 1) rest = []" using rest by (force simp: filter_empty_conv)
  moreover have "filter (\<lambda>x. ev_ledger x \<le> final - 1) (held @ P) = filter (\<lambda>x. ev_ledger x < final) (held @ P)"
    by (rule filter_cong) auto
  ultimately show "filter (\<lambda>x. ev_ledger x \<le> final - 1) (held @ P @ rest) = filter (\<lambda>x. ev_ledger x < final) (held @ P)"
    by simp
  have "filter (\<lambda>x. final - 1 < ev_ledger x) rest = rest" using rest by (force simp: filter_id_conv)
  moreover have "filter (\<lambda>x. final - 1 < ev_ledger x) (held @ P) = filter (\<lambda>x. ev_ledger x = final) (held @ P)"
    using lo by (intro filter_cong) force+
  ultimately show "filter (\<lambda>x. final - 1 < ev_ledger x) (held @ P @ rest) = filter (\<lambda>x. ev_ledger x = final) (held @ P) @ rest"
    by simp
qed

section \<open>Checkpoint saves\<close>

definition cp_at :: "string \<Rightarrow> checkpoint \<Rightarrow> world \<Rightarrow> bool" where
  "cp_at c cp w \<longleftrightarrow> map_option checkpoint_of (state_of (w_db w) c) = Some cp"

lemma saveCheckpoint_wp:
  assumes "cp_at c old w" "w_log w = l"
  shows "wp (saveCheckpoint env c cp owner) (\<lambda>_ w'. cp_at c cp w' \<and> w_log w' = l)
     (\<lambda>_ w'. (cp_at c old w' \<or> (cp_at c cp w' \<and> lastLedger old \<le> lastLedger cp)) \<and> w_log w' = l) w"
proof -
  have effect: "map_option checkpoint_of (state_of d' c) = (if ns ! 0 \<noteq> 0 \<and> ns ! 1 \<noteq> 0 then Some cp else Some old) \<and>
      (ns ! 1 \<noteq> 0 \<longrightarrow> lastLedger old \<le> lastLedger cp)"
    if "run_batch (exec_stmt clk) (save_sql c cp owner now) (w_db w) = Inr (d', ns)" for clk now d' ns
  proof (cases "holds_lock (w_db w) owner")
    case True
    from save_with_lock [OF that True] show ?thesis
      using assms(1) by (force simp: cp_at_def checkpoint_of_def)
  next
    case False
    with save_without_lock [OF that False] assms(1) show ?thesis by (simp add: cp_at_def)
  qed
  show ?thesis
    unfolding saveCheckpoint_def db_batch_def wp_abind wp_date_now
  proof (rule wp_db_call, goal_cases)
    case (1 clk d' ns)
    then show ?case using effect [of clk _ d' ns, OF 1 [unfolded w_db_tick]] assms by (auto simp: wp_rules cp_at_def split: if_splits)
  qed (use assms in \<open>simp_all add: cp_at_def\<close>)
qed

section \<open>The loop invariant\<close>

definition dealt ::
  "'sc rpc_event list \<Rightarrow> contract_name \<Rightarrow> int \<Rightarrow> (contract_name \<times> string) list \<Rightarrow> int \<Rightarrow> world \<Rightarrow> bool" where
  "dealt evs c L0 l S w \<longleftrightarrow> L0 \<le> S \<and>
     w_log w = l @ map (\<lambda>x. (c, ev_id x)) (filter (\<lambda>x. L0 < ev_ledger x \<and> ev_ledger x \<le> S) evs)"

definition window_ok :: "'sc rpc_event list \<Rightarrow> (string \<Rightarrow> nat) \<Rightarrow> scan \<Rightarrow> 'sc scan_state \<Rightarrow> bool" where
  "window_ok evs pos scan st \<longleftrightarrow>
     (let S = lastLedger (ss_state st) in
      ss_from st \<le> S + 1 \<and> S + 1 \<le> ss_to st \<and> ss_to st \<le> sc_head scan \<and> ss_to st \<le> ss_from st + rpc_scan_ledgers - 1 \<and>
      (case ss_cursor st of
         None \<Rightarrow> ss_from st = S + 1 \<and> ss_held st = []
       | Some c \<Rightarrow> c \<noteq> [] \<and> 0 < pos c \<and> pos c \<le> length evs \<and> ev_ledger (evs ! (pos c - 1)) = S + 1 \<and>
           filter (\<lambda>x. S < ev_ledger x) evs = ss_held st @ drop (pos c) evs \<and>
           (\<forall>x \<in> set (ss_held st). ev_ledger x = S + 1)))"

lemma page_served:
  assumes honest: "honest server cid evs pos" and win: "window_ok evs pos scan st"
    and page: "getEvents server t cid (page_request st) = Inr page"
  defines "S \<equiv> lastLedger (ss_state st)"
  obtains p b where "filter (\<lambda>x. S < ev_ledger x) evs = ss_held st @ drop p evs"
    "min (pg_latest page) (ss_to st) \<le> b" "full_page evs pos p b page"
    "\<forall>x \<in> set (ss_held st). ev_ledger x \<le> min (ss_to st) (pg_latest page)"
proof (cases "ss_cursor st")
  case None
  then have st: "page_request st = Start (S + 1) (ss_to st + 1)" "ss_held st = []" "ss_to st \<le> S + rpc_scan_ledgers"
    using win by (auto simp: window_ok_def Let_def page_request_def S_def)
  from honest page st obtain b where b: "min (pg_latest page) (min (ss_to st + 1 - 1) (S + 1 + rpc_scan_ledgers - 1)) \<le> b"
      "full_page evs pos (length (filter (\<lambda>x. ev_ledger x < S + 1) evs)) b page"
    unfolding honest_def by metis
  have "filter (\<lambda>x. S < ev_ledger x) evs = filter (\<lambda>x. S + 1 \<le> ev_ledger x) evs"
    by (rule filter_cong) auto
  also have "\<dots> = drop (length (filter (\<lambda>x. ev_ledger x < S + 1) evs)) evs"
    using honest sorted_drop_less [of evs "S + 1"] unfolding honest_def by metis
  finally have "filter (\<lambda>x. S < ev_ledger x) evs = drop (length (filter (\<lambda>x. ev_ledger x < S + 1) evs)) evs" .
  with b st show thesis by (intro that [of "length (filter (\<lambda>x. ev_ledger x < S + 1) evs)" b]) auto
next
  case (Some c)
  then have st: "page_request st = Cursor c" "0 < pos c" "pos c \<le> length evs" "ev_ledger (evs ! (pos c - 1)) = S + 1"
      "filter (\<lambda>x. S < ev_ledger x) evs = ss_held st @ drop (pos c) evs" "\<forall>x \<in> set (ss_held st). ev_ledger x = S + 1"
      "S + 1 \<le> ss_to st" "ss_to st \<le> S + rpc_scan_ledgers"
    using win by (auto simp: window_ok_def Let_def page_request_def S_def)
  from honest page st obtain b where b: "min (pg_latest page) (S + 1 + rpc_scan_ledgers - 1) \<le> b"
      "full_page evs pos (pos c) b page" "S + 1 \<le> pg_latest page"
    unfolding honest_def by metis
  with st show thesis by (intro that [of "pos c" b]) auto
qed

lemma split_page_scanned:
  assumes "split_page st page = (True, ready, held, reached)"
    and X: "filter (\<lambda>x. S < ev_ledger x) evs = ss_held st @ drop p evs" and sorted: "sorted (ledgers evs)"
    and b: "min (pg_latest page) (ss_to st) \<le> b" "full_page evs pos p b page"
    and held: "\<forall>x \<in> set (ss_held st). ev_ledger x \<le> min (ss_to st) (pg_latest page)"
  shows "ready = filter (\<lambda>x. S < ev_ledger x \<and> ev_ledger x \<le> reached) evs"
    and "held = []" and "reached = min (ss_to st) (pg_latest page)"
proof -
  let ?P = "pg_events page"
  from assms(1) have sp: "ready = ss_held st @ filter (\<lambda>x. ev_ledger x \<le> ss_to st) ?P" "held = []"
      "reached = min (ss_to st) (pg_latest page)"
      "length ?P < PAGE_LIMIT \<or> length (filter (\<lambda>x. ev_ledger x \<le> ss_to st) ?P) < length ?P"
    by (auto simp: split_page_def Let_def split: if_splits)
  then show "held = []" "reached = min (ss_to st) (pg_latest page)" by simp_all
  have "sorted (ledgers (drop p evs))" using sorted by (simp add: sorted_wrt_drop drop_map [symmetric])
  then have "filter (\<lambda>x. ev_ledger x \<le> ss_to st) ?P = filter (\<lambda>x. ev_ledger x \<le> reached) (drop p evs)"
    unfolding sp(3) using b sp(4) by (intro scanned_window) (auto simp: full_page_def)
  moreover have "filter (\<lambda>x. ev_ledger x \<le> reached) (ss_held st) = ss_held st"
    using held sp(3) by (simp add: filter_id_conv)
  ultimately have "ready = filter (\<lambda>x. ev_ledger x \<le> reached) (filter (\<lambda>x. S < ev_ledger x) evs)"
    using sp(1) X by simp
  then show "ready = filter (\<lambda>x. S < ev_ledger x \<and> ev_ledger x \<le> reached) evs"
    by (simp add: conj_commute)
qed

lemma split_page_full:
  assumes split: "split_page st page = (False, ready, held, reached)"
    and X: "filter (\<lambda>x. S < ev_ledger x) evs = ss_held st @ drop p evs" and sorted: "sorted (ledgers evs)"
    and full: "full_page evs pos p b page"
  shows "ready = filter (\<lambda>x. S < ev_ledger x \<and> ev_ledger x \<le> reached) evs"
    and "S \<le> reached" "reached < ss_to st" "\<forall>x \<in> set held. ev_ledger x = reached + 1"
    and "filter (\<lambda>x. reached < ev_ledger x) evs = held @ drop (pos (pg_cursor page)) evs"
    and "pg_cursor page \<noteq> []" "0 < pos (pg_cursor page)" "pos (pg_cursor page) \<le> length evs"
      "ev_ledger (evs ! (pos (pg_cursor page) - 1)) = reached + 1"
proof -
  let ?P = "pg_events page" and ?n = PAGE_LIMIT
  have n: "0 < ?n" by (simp add: PAGE_LIMIT_def)
  from split have len: "\<not> length ?P < ?n" "filter (\<lambda>x. ev_ledger x \<le> ss_to st) ?P = ?P"
    by (auto simp: split_page_def Let_def split: if_splits) (metis length_filter_less filter_id_conv)+
  with split have sp: "ready = filter (\<lambda>x. ev_ledger x < ev_ledger (last (ss_held st @ ?P))) (ss_held st @ ?P)"
      "held = filter (\<lambda>x. ev_ledger x = ev_ledger (last (ss_held st @ ?P))) (ss_held st @ ?P)"
      "reached = ev_ledger (last (ss_held st @ ?P)) - 1"
    by (auto simp: split_page_def Let_def split: if_splits)
  have P: "?P = take ?n (filter (\<lambda>x. ev_ledger x \<le> b) (drop p evs))" using full by (simp add: full_page_def)
  with len have lenP: "length ?P = ?n" "?n \<le> length (filter (\<lambda>x. ev_ledger x \<le> b) (drop p evs))" by auto
  have srt: "sorted (ledgers (drop p evs))" using sorted by (simp add: sorted_wrt_drop drop_map [symmetric])
  have P': "?P = take ?n (drop p evs)" using sorted_filter_take [OF srt lenP(2)] P by simp
  from lenP full show cur: "pg_cursor page \<noteq> []" and "0 < pos (pg_cursor page)"
    using n by (auto simp: full_page_def)
  have pos: "pos (pg_cursor page) = p + ?n" using lenP full by (simp add: full_page_def)
  have len_evs: "p + ?n \<le> length evs" using lenP(1) P' n by simp
  then show "pos (pg_cursor page) \<le> length evs" using pos by simp
  let ?X = "ss_held st @ ?P @ drop (p + ?n) evs"
  have X': "filter (\<lambda>x. S < ev_ledger x) evs = ?X"
    using X P' by (metis append_take_drop_id drop_drop add.commute)
  have sX: "sorted (ledgers ?X)" using sorted_map_filter [OF sorted, of "\<lambda>x. S < ev_ledger x"] X' by simp
  have above: "\<forall>x \<in> set ?X. S < ev_ledger x" unfolding X' [symmetric] by simp
  have ne: "?P \<noteq> []" using lenP(1) n by auto
  note parts = full_page_split [OF sX ne above]
  have "filter (\<lambda>x. S < ev_ledger x \<and> ev_ledger x \<le> reached) evs = filter (\<lambda>x. ev_ledger x \<le> reached) ?X"
    using X' by (metis (no_types, lifting) filter_filter filter_cong)
  with parts(1) sp show "ready = filter (\<lambda>x. S < ev_ledger x \<and> ev_ledger x \<le> reached) evs" by simp
  show le: "S \<le> reached" using parts(3) sp(3) by simp
  have "filter (\<lambda>x. reached < ev_ledger x) evs = filter (\<lambda>x. reached < ev_ledger x) (filter (\<lambda>x. S < ev_ledger x) evs)"
    unfolding filter_filter by (rule filter_cong) (use le in auto)
  also have "\<dots> = filter (\<lambda>x. reached < ev_ledger x) ?X" using X' by simp
  also have "\<dots> = held @ drop (pos (pg_cursor page)) evs" using parts(2) sp pos by simp
  finally show "filter (\<lambda>x. reached < ev_ledger x) evs = held @ drop (pos (pg_cursor page)) evs" .
  show "\<forall>x \<in> set held. ev_ledger x = reached + 1" using sp by auto
  have "last ?P \<in> set ?P" using ne by simp
  moreover have "\<forall>x \<in> set ?P. ev_ledger x \<le> ss_to st" using len(2) by (simp add: filter_id_conv)
  ultimately have "ev_ledger (last ?P) \<le> ss_to st" by blast
  then show "reached < ss_to st" using parts(4) sp(3) by simp
  have "last ?P = ?P ! (?n - 1)" using last_conv_nth [OF ne] lenP(1) by simp
  also have "\<dots> = evs ! (p + (?n - 1))" unfolding P' using len_evs n by simp
  finally have "last ?P = evs ! (p + ?n - 1)" using n by simp
  then show "ev_ledger (evs ! (pos (pg_cursor page) - 1)) = reached + 1"
    using parts(4) sp(3) pos by simp
qed

section \<open>One page\<close>

definition scan_ok ::
  "'sc rpc_event list \<Rightarrow> scan \<Rightarrow> int \<Rightarrow> (contract_name \<times> string) list \<Rightarrow> 'sc scan_state \<Rightarrow> world \<Rightarrow> bool" where
  "scan_ok evs scan L0 l st w \<longleftrightarrow>
     dealt evs (sc_contract scan) L0 l (lastLedger (ss_state st)) w \<and>
     cp_at (contract_text (sc_contract scan)) (ss_saved st) w \<and>
     L0 \<le> lastLedger (ss_saved st) \<and> lastLedger (ss_saved st) \<le> lastLedger (ss_state st)"

text \<open>What holds after an error: the log and the stored checkpoint are those of some ledgers reached, and the
  checkpoint is not ahead of the log.\<close>

definition failed_ok ::
  "'sc rpc_event list \<Rightarrow> scan \<Rightarrow> int \<Rightarrow> (contract_name \<times> string) list \<Rightarrow> world \<Rightarrow> bool" where
  "failed_ok evs scan L0 l w \<longleftrightarrow> (\<exists>S cp. dealt evs (sc_contract scan) L0 l S w \<and>
     cp_at (contract_text (sc_contract scan)) cp w \<and> L0 \<le> lastLedger cp \<and> lastLedger cp \<le> S)"

lemma scan_ok_failed: "scan_ok evs scan L0 l st w \<Longrightarrow> failed_ok evs scan L0 l w"
  by (auto simp: scan_ok_def failed_ok_def)

lemma dealt_log: "dealt evs c L0 l S w \<Longrightarrow> w_log w' = w_log w \<Longrightarrow> dealt evs c L0 l S w'"
  by (simp add: dealt_def)

lemma dealt_extend:
  assumes "dealt evs c L0 l S w" "S \<le> R" "sorted (ledgers evs)"
    and "w_log w' = w_log w @ map (\<lambda>x. (c, ev_id x)) (filter (\<lambda>x. S < ev_ledger x \<and> ev_ledger x \<le> R) evs)"
  shows "dealt evs c L0 l R w'"
proof -
  have "sorted (ledgers (filter (\<lambda>x. L0 < ev_ledger x) evs))" using assms(3) by (rule sorted_map_filter)
  from filter_le_split [OF this assms(2)]
  have "filter (\<lambda>x. L0 < ev_ledger x \<and> ev_ledger x \<le> R) evs =
     filter (\<lambda>x. L0 < ev_ledger x \<and> ev_ledger x \<le> S) evs @
     filter (\<lambda>x. L0 < ev_ledger x \<and> S < ev_ledger x \<and> ev_ledger x \<le> R) evs"
    by (simp add: conj_commute conj_left_commute)
  moreover have "filter (\<lambda>x. L0 < ev_ledger x \<and> S < ev_ledger x \<and> ev_ledger x \<le> R) evs =
      filter (\<lambda>x. S < ev_ledger x \<and> ev_ledger x \<le> R) evs"
    using assms(1) by (intro filter_cong) (auto simp: dealt_def)
  ultimately show ?thesis using assms by (auto simp: dealt_def)
qed

lemma wp_log_events [wp_rules]:
  "wp (log_events c evs) Q E = (\<lambda>w. Q () (w\<lparr>w_log := w_log w @ map (\<lambda>ev. (c, ev_id ev)) evs\<rparr>))"
  by (simp add: fun_eq_iff wp_def log_events_def)

lemma kept_by_state: "kept_by (allowed skip) (\<lambda>d. state_of d c = r)"
proof -
  have "allowed skip s \<Longrightarrow> is_write s" for s by (cases s) auto
  then show ?thesis unfolding kept_by_def by (metis write_state_of)
qed

lemma writeEvents_wp:
  assumes "cp_at c cp w" "w_log w = l"
  shows "wp (writeEvents env sdk k evs skip) (\<lambda>_ w'. cp_at c cp w' \<and> w_log w' = l) (\<lambda>_ w'. cp_at c cp w' \<and> w_log w' = l) w"
proof -
  have "at_db (\<lambda>d. state_of d c = state_of (w_db w) c) l 0 w" using assms by (simp add: at_db_def)
  from keepsD [OF keeps_writeEvents [OF kept_by_state] this, of env sdk k evs skip] show ?thesis
    by (rule wp_mono) (use assms(1) in \<open>auto simp: at_db_def cp_at_def\<close>)
qed

lemma save_wp:
  assumes "scan_ok evs scan L0 l st w"
  shows "wp (save env scan st) (\<lambda>st' w'. st' = st\<lparr>ss_saved := ss_state st\<rparr> \<and> scan_ok evs scan L0 l st' w')
     (\<lambda>_ w'. failed_ok evs scan L0 l w') w"
proof (cases "ss_state st = ss_saved st")
  case True
  then show ?thesis using assms by (simp add: save_def wp_rules)
next
  case False
  from assms have cp: "cp_at (contract_text (sc_contract scan)) (ss_saved st) w"
    and d: "dealt evs (sc_contract scan) L0 l (lastLedger (ss_state st)) w"
    and le: "L0 \<le> lastLedger (ss_saved st)" "lastLedger (ss_saved st) \<le> lastLedger (ss_state st)"
    by (auto simp: scan_ok_def)
  note d' = dealt_log [OF d]
  have "wp (saveCheckpoint env (contract_text (sc_contract scan)) (ss_state st) (sc_owner scan))
      (\<lambda>_ w'. scan_ok evs scan L0 l (st\<lparr>ss_saved := ss_state st\<rparr>) w') (\<lambda>_. failed_ok evs scan L0 l) w"
  proof (rule wp_mono [OF saveCheckpoint_wp [OF cp refl]])
    fix w' assume "cp_at (contract_text (sc_contract scan)) (ss_state st) w' \<and> w_log w' = w_log w"
    then show "scan_ok evs scan L0 l (st\<lparr>ss_saved := ss_state st\<rparr>) w'"
      using d' le by (simp add: scan_ok_def)
  next
    fix w' assume "(cp_at (contract_text (sc_contract scan)) (ss_saved st) w' \<or>
        (cp_at (contract_text (sc_contract scan)) (ss_state st) w' \<and>
         lastLedger (ss_saved st) \<le> lastLedger (ss_state st))) \<and> w_log w' = w_log w"
    then show "failed_ok evs scan L0 l w'"
      unfolding failed_ok_def using d' [of w'] le by (intro exI [of _ "lastLedger (ss_state st)"]) force
  qed
  then show ?thesis using False by (simp add: save_def wp_rules)
qed

text \<open>What a page contributes, whichever way the loop split it.\<close>

definition page_step :: "'sc rpc_event list \<Rightarrow> (string \<Rightarrow> nat) \<Rightarrow> 'sc scan_state \<Rightarrow> 'sc page \<Rightarrow> bool \<Rightarrow> 'sc rpc_event list \<Rightarrow> 'sc rpc_event list \<Rightarrow> int \<Rightarrow> bool" where
  "page_step evs pos st page scanned ready held reached \<longleftrightarrow>
     (let S = lastLedger (ss_state st); c = pg_cursor page in
      ready = filter (\<lambda>x. S < ev_ledger x \<and> ev_ledger x \<le> reached) evs \<and>
      (if scanned then held = [] \<and> reached = min (ss_to st) (pg_latest page)
       else S \<le> reached \<and> reached < ss_to st \<and> c \<noteq> [] \<and> 0 < pos c \<and> pos c \<le> length evs \<and>
         ev_ledger (evs ! (pos c - 1)) = reached + 1 \<and> (\<forall>x \<in> set held. ev_ledger x = reached + 1) \<and>
         filter (\<lambda>x. reached < ev_ledger x) evs = held @ drop (pos c) evs))"

lemma page_stepI:
  assumes honest: "honest server cid evs pos" and win: "window_ok evs pos scan st"
    and page: "getEvents server t cid (page_request st) = Inr page"
    and split: "split_page st page = (scanned, ready, held, reached)"
  shows "page_step evs pos st page scanned ready held reached"
proof -
  from page_served [OF honest win page] obtain p b where
    pb: "filter (\<lambda>x. lastLedger (ss_state st) < ev_ledger x) evs = ss_held st @ drop p evs"
    "min (pg_latest page) (ss_to st) \<le> b" "full_page evs pos p b page"
    "\<forall>x \<in> set (ss_held st). ev_ledger x \<le> min (ss_to st) (pg_latest page)" .
  have sorted: "sorted (ledgers evs)" using honest by (simp add: honest_def)
  show ?thesis
  proof (cases scanned)
    case True
    with split_page_scanned [OF _ pb(1) sorted pb(2,3,4)] split show ?thesis by (simp add: page_step_def Let_def)
  next
    case False
    with split have "split_page st page = (False, ready, held, reached)" by simp
    from split_page_full [OF this pb(1) sorted pb(3)] False show ?thesis by (simp add: page_step_def Let_def)
  qed
qed

definition advanced :: "bool \<Rightarrow> scan \<Rightarrow> 'sc scan_state \<Rightarrow> 'sc page \<Rightarrow> 'sc scan_state \<Rightarrow> bool \<times> 'sc scan_state" where
  "advanced scanned scan st page st2 =
     (if \<not> scanned then (True, st2\<lparr>ss_cursor := Some (pg_cursor page)\<rparr>)
      else if pg_latest page < ss_to st then (False, st2)
      else (True, st2\<lparr>ss_from := ss_to st + 1, ss_to := min (sc_head scan) (ss_to st + 1 + SCAN_LIMIT - 1),
                      ss_cursor := None\<rparr>))"

lemma advanced_eq:
  "(if \<not> scanned then aret (True, st2\<lparr>ss_cursor := Some (pg_cursor page)\<rparr>)
    else if pg_latest page < ss_to st then aret (False, st2)
    else aret (True, st2\<lparr>ss_from := ss_to st + 1, ss_to := min (sc_head scan) (ss_to st + 1 + SCAN_LIMIT - 1),
                         ss_cursor := None\<rparr>)) = aret (advanced scanned scan st page st2)"
  by (simp add: advanced_def)

lemma advanced_window:
  assumes "page_step evs pos st page scanned ready held reached" "window_ok evs pos scan st"
    and "ss_from st2 = ss_from st" "ss_to st2 = ss_to st" "ss_held st2 = held"
    and "lastLedger (ss_state st2) = max (lastLedger (ss_state st)) reached"
    and "advanced scanned scan st page st2 = (True, st')" "lastLedger (ss_state st') < sc_head scan"
  shows "window_ok evs pos scan st'"
  using assms
  by (auto simp: page_step_def window_ok_def Let_def advanced_def SCAN_LIMIT_def rpc_scan_ledgers_def max_def
      split: if_splits)

definition loop_ok ::
  "'sc rpc_event list \<Rightarrow> (string \<Rightarrow> nat) \<Rightarrow> scan \<Rightarrow> int \<Rightarrow> (contract_name \<times> string) list \<Rightarrow> 'sc scan_state \<Rightarrow> world \<Rightarrow> bool" where
  "loop_ok evs pos scan L0 l st w \<longleftrightarrow> scan_ok evs scan L0 l st w \<and>
     (lastLedger (ss_state st) < sc_head scan \<longrightarrow> window_ok evs pos scan st)"

lemma scan_ok_fields [simp]:
  "scan_ok evs scan L0 l (st\<lparr>ss_held := h\<rparr>) w = scan_ok evs scan L0 l st w"
  "scan_ok evs scan L0 l (st\<lparr>ss_processed := a\<rparr>) w = scan_ok evs scan L0 l st w"
  "scan_ok evs scan L0 l (st\<lparr>ss_skipped := a\<rparr>) w = scan_ok evs scan L0 l st w"
  "scan_ok evs scan L0 l (st\<lparr>ss_stopped := x\<rparr>) w = scan_ok evs scan L0 l st w"
  "scan_ok evs scan L0 l (st\<lparr>ss_cursor := y\<rparr>) w = scan_ok evs scan L0 l st w"
  "scan_ok evs scan L0 l (st\<lparr>ss_from := b\<rparr>) w = scan_ok evs scan L0 l st w"
  "scan_ok evs scan L0 l (st\<lparr>ss_to := b\<rparr>) w = scan_ok evs scan L0 l st w"
  by (simp_all add: scan_ok_def)

lemma scan_ok_advanced:
  "scan_ok evs scan L0 l st2 w \<Longrightarrow> scan_ok evs scan L0 l (snd (advanced scanned scan st page st2)) w"
  by (auto simp: advanced_def)

lemma handle_page_wp:
  assumes honest: "honest server cid evs pos" and ok: "scan_ok evs scan L0 l st w" and win: "window_ok evs pos scan st"
    and page: "getEvents server t cid (page_request st) = Inr page"
  shows "wp (handle_page env sdk scan st page)
     (\<lambda>(more, st') w'. scan_ok evs scan L0 l st' w' \<and> (more \<longrightarrow> loop_ok evs pos scan L0 l st' w'))
     (\<lambda>_. failed_ok evs scan L0 l) w"
proof -
  obtain scanned ready held reached where split: "split_page st page = (scanned, ready, held, reached)"
    by (cases "split_page st page") auto
  note step = page_stepI [OF honest win page split]
  let ?S = "lastLedger (ss_state st)" and ?c = "sc_contract scan"
  let ?post = "\<lambda>(more, st') w'. scan_ok evs scan L0 l st' w' \<and> (more \<longrightarrow> loop_ok evs pos scan L0 l st' w')"
  have ready: "ready = filter (\<lambda>x. ?S < ev_ledger x \<and> ev_ledger x \<le> reached) evs"
    using step by (simp add: page_step_def Let_def)
  have sorted: "sorted (ledgers evs)" using honest by (simp add: honest_def)
  have fin: "?post (advanced scanned scan st page st2) w2"
    if "scan_ok evs scan L0 l st2 w2" "ss_from st2 = ss_from st" "ss_to st2 = ss_to st" "ss_held st2 = held"
      "lastLedger (ss_state st2) = max ?S reached" for st2 w2
    using scan_ok_advanced [OF that(1), of scanned st page] advanced_window [OF step win that(2-5)]
    by (cases "advanced scanned scan st page st2") (auto simp: loop_ok_def)
  let ?log = "\<lambda>w'. w'\<lparr>w_log := w_log w' @ map (\<lambda>ev. (?c, ev_id ev)) ready\<rparr>"
  have after: "wp (abind (if ?S < reached
                     then save env scan (st1\<lparr>ss_state := \<lparr>lastLedger = reached, deferAttempts = 0\<rparr>\<rparr>)
                     else aret st1) (\<lambda>st2. aret (advanced scanned scan st page st2))) ?post
                (\<lambda>_. failed_ok evs scan L0 l) (?log w')"
    if st1: "st1 = st\<lparr>ss_held := held, ss_processed := a, ss_skipped := b\<rparr>"
      and w': "cp_at (contract_text ?c) (ss_saved st) w'" "w_log w' = w_log w" for st1 a b w'
  proof (cases "?S < reached")
    case True
    let ?st = "st1\<lparr>ss_state := \<lparr>lastLedger = reached, deferAttempts = 0\<rparr>\<rparr>"
    have "dealt evs ?c L0 l reached (?log w')"
    proof (rule dealt_extend [of evs ?c L0 l ?S w])
      show "dealt evs ?c L0 l ?S w" using ok by (simp add: scan_ok_def)
      show "w_log (?log w') = w_log w @ map (\<lambda>x. (?c, ev_id x)) (filter (\<lambda>x. ?S < ev_ledger x \<and> ev_ledger x \<le> reached) evs)"
        unfolding ready [symmetric] using w'(2) by simp
    qed (use True sorted in simp_all)
    then have sok: "scan_ok evs scan L0 l ?st (?log w')"
      using ok w' st1 True by (auto simp: scan_ok_def cp_at_def)
    have "wp (save env scan ?st) (\<lambda>st2 w2. ?post (advanced scanned scan st page st2) w2)
        (\<lambda>_. failed_ok evs scan L0 l) (?log w')"
    proof (rule wp_mono [OF save_wp [OF sok]])
      fix st2 w2 assume "st2 = ?st\<lparr>ss_saved := ss_state ?st\<rparr> \<and> scan_ok evs scan L0 l st2 w2"
      then show "?post (advanced scanned scan st page st2) w2"
        using st1 True by (intro fin) auto
    qed
    then show ?thesis using True by (simp add: wp_rules)
  next
    case False
    then have "ready = []" unfolding ready by (auto simp: filter_empty_conv)
    then have "scan_ok evs scan L0 l st1 (?log w')"
      using ok w' st1 by (auto simp: scan_ok_def cp_at_def dealt_def)
    then show ?thesis using False st1 fin [of st1 "?log w'"] by (simp add: wp_rules)
  qed
  have cp: "cp_at (contract_text ?c) (ss_saved st) w" using ok by (simp add: scan_ok_def)
  have deferred: "scan_ok evs scan L0 l (st\<lparr>ss_held := held, ss_processed := a, ss_skipped := b,
      ss_state := (ss_state st)\<lparr>deferAttempts := n\<rparr>, ss_stopped := x\<rparr>) w'"
    if "cp_at (contract_text ?c) (ss_saved st) w'" "w_log w' = w_log w" for a b n x w'
    using ok that by (simp add: scan_ok_def dealt_def)
  show ?thesis
    unfolding handle_page_def split prod.case Let_def wp_abind [of "writeEvents env sdk ?c ready skip" for skip]
      advanced_eq
  proof (rule wp_mono [OF writeEvents_wp [OF cp refl]], goal_cases)
    case (1 x w')
    obtain processed skipped dfr where x: "x = (processed, skipped, dfr)" by (cases x) auto
    from 1 show ?case
      using after [OF refl, of w'] deferred [of w'] by (cases dfr) (auto simp: x wp_rules)
  next
    case (2 e w')
    then have "scan_ok evs scan L0 l st w'" using ok by (simp add: scan_ok_def dealt_def)
    then show ?case by (rule scan_ok_failed)
  qed
qed

section \<open>The loop\<close>

lemma scan_ok_tick [simp]: "scan_ok evs scan L0 l st (tick w) = scan_ok evs scan L0 l st w"
  by (simp add: scan_ok_def dealt_def cp_at_def)

lemma scan_loop_wp:
  assumes honest: "honest server (sc_id scan) evs pos"
  shows "loop_ok evs pos scan L0 l st w \<Longrightarrow>
    wp (scan_loop env sdk server scan fuel st)
      (\<lambda>r w'. case r of None \<Rightarrow> failed_ok evs scan L0 l w' | Some st' \<Rightarrow> scan_ok evs scan L0 l st' w')
      (\<lambda>_. failed_ok evs scan L0 l) w"
proof (induction fuel arbitrary: st w)
  case 0
  then show ?case by (auto simp: wp_rules loop_ok_def intro: scan_ok_failed)
next
  case (Suc fuel)
  let ?Q = "\<lambda>r w'. case r of None \<Rightarrow> failed_ok evs scan L0 l w' | Some st' \<Rightarrow> scan_ok evs scan L0 l st' w'"
  have ok: "scan_ok evs scan L0 l st (tick (tick w))" using Suc.prems by (simp add: loop_ok_def)
  show ?case
  proof (cases "lastLedger (ss_state st) < sc_head scan")
    case True
    then have win: "window_ok evs pos scan st" using Suc.prems by (simp add: loop_ok_def)
    have handled: "wp (handle_page env sdk scan st page)
        (\<lambda>p. wp (case p of (again, st') \<Rightarrow> if again then scan_loop env sdk server scan fuel st' else aret (Some st'))
          ?Q (\<lambda>_. failed_ok evs scan L0 l)) (\<lambda>_. failed_ok evs scan L0 l) (tick (tick w))"
      if "getEvents server t (sc_id scan) (page_request st) = Inr page" for t page
      by (rule wp_mono [OF handle_page_wp [OF honest ok win that]]) (auto simp: wp_rules intro: Suc.IH)
    show ?thesis
      using True ok handled by (auto simp: wp_rules rpc_events_def wp_def [of "rpc_events server c r" for c r] split: sum.split)
  qed (use Suc.prems in \<open>simp add: wp_rules loop_ok_def\<close>)
qed

lemma initial_scan_ok:
  assumes "cp_at (contract_text (sc_contract scan)) saved w" "w_log w = l" "lastLedger saved \<le> lastLedger cp"
    and "lastLedger cp = from - 1"
  shows "dealt evs (sc_contract scan) (lastLedger cp) l (lastLedger cp) w"
    and "lastLedger cp < sc_head scan \<Longrightarrow> window_ok evs pos scan (initial_scan scan cp saved from)"
  using assms by (auto simp: dealt_def filter_empty_conv window_ok_def initial_scan_def Let_def SCAN_LIMIT_def
      rpc_scan_ledgers_def)

lemma indexContract_wp:
  assumes honest: "honest server (sc_id scan) evs pos" and start: "cp_at (contract_text (sc_contract scan)) start w"
    and retained: "sc_oldest scan \<le> lastLedger start + 1"
  shows "wp (indexContract env sdk server fuel scan start)
     (\<lambda>r w'. case r of None \<Rightarrow> failed_ok evs scan (lastLedger start) (w_log w) w'
       | Some res \<Rightarrow> dealt evs (sc_contract scan) (lastLedger start) (w_log w) (cr_last res) w' \<and>
           (\<exists>cp. cp_at (contract_text (sc_contract scan)) cp w' \<and> lastLedger cp = cr_last res))
     (\<lambda>_. failed_ok evs scan (lastLedger start) (w_log w)) w"
proof (cases "sc_head scan \<le> lastLedger start")
  case True
  then show ?thesis
    using start by (auto simp: indexContract_def wp_rules dealt_def filter_empty_conv)
next
  case False
  let ?st = "initial_scan scan start start (lastLedger start + 1)"
  have "scan_ok evs scan (lastLedger start) (w_log w) ?st w"
    using start by (auto simp: scan_ok_def initial_scan_def dealt_def filter_empty_conv)
  moreover have "window_ok evs pos scan ?st"
    using initial_scan_ok(2) [OF start refl, of start "lastLedger start + 1"] False by simp
  ultimately have "loop_ok evs pos scan (lastLedger start) (w_log w) ?st w" by (simp add: loop_ok_def)
  note loop = scan_loop_wp [OF honest this, of env sdk fuel]
  have "wp (scan_loop env sdk server scan fuel ?st)
     (\<lambda>r. wp (case r of None \<Rightarrow> aret None
             | Some st' \<Rightarrow> abind (save env scan st') (\<lambda>st''.
                 aret (Some \<lparr>cr_last = lastLedger (ss_state st''), cr_processed = ss_processed st'',
                             cr_skipped = ss_skipped st'', cr_stopped = ss_stopped st''\<rparr>)))
       (\<lambda>r w'. case r of None \<Rightarrow> failed_ok evs scan (lastLedger start) (w_log w) w'
         | Some res \<Rightarrow> dealt evs (sc_contract scan) (lastLedger start) (w_log w) (cr_last res) w' \<and>
             (\<exists>cp. cp_at (contract_text (sc_contract scan)) cp w' \<and> lastLedger cp = cr_last res))
       (\<lambda>_. failed_ok evs scan (lastLedger start) (w_log w)))
     (\<lambda>_. failed_ok evs scan (lastLedger start) (w_log w)) w"
  proof (rule wp_mono [OF loop], goal_cases)
    case (1 r w')
    show ?case
    proof (cases r)
      case None
      with 1 show ?thesis by (simp add: wp_rules)
    next
      case (Some st')
      with 1 have "scan_ok evs scan (lastLedger start) (w_log w) st' w'" by simp
      show ?thesis
        unfolding Some option.case wp_abind wp_aret
        by (rule wp_mono [OF save_wp [OF \<open>scan_ok evs scan (lastLedger start) (w_log w) st' w'\<close>]])
          (auto simp: scan_ok_def)
    qed
  qed
  then show ?thesis
    using False retained by (simp add: indexContract_def clamp_start_def Let_def wp_rules)
qed

end
