(* ===== verification/Indexer_Props.thy ===== *)
theory Indexer_Props
  imports Indexer_Scan
begin

text \<open>
  The properties of \<open>indexContract\<close> and \<open>indexContracts\<close>: completeness of the scan, termination, when an event may be
  skipped, what the dependents may scan, and the refusal to skip ledgers that aged out of retention.
\<close>

section \<open>What a whole scan keeps\<close>

text \<open>\<open>keeps_db A I\<close>: the database property that the statements in \<open>A\<close> keep, as a property of the world.\<close>

definition in_db :: "(db \<Rightarrow> bool) \<Rightarrow> nat \<Rightarrow> world \<Rightarrow> bool" where
  "in_db I t w \<longleftrightarrow> I (w_db w) \<and> t \<le> w_tick w"

lemma keeps_at_db_in_db:
  assumes "\<And>l. keeps (at_db I l t) m"
  shows "keeps (in_db I t) m"
proof (rule keepsI)
  fix w assume "in_db I t w"
  then have "at_db I (w_log w) t w" by (simp add: in_db_def at_db_def)
  from keepsD [OF assms this] show "wp m (\<lambda>_. in_db I t) (\<lambda>_. in_db I t) w"
    by (rule wp_mono) (simp_all add: at_db_def in_db_def)
qed

lemma keeps_in_db_now [keeps_intros]: "keeps (in_db I t) (date_now env)"
  by (rule keeps_at_db_in_db) (rule keeps_date_now)

lemma keeps_in_db_log [keeps_intros]: "keeps (in_db I t) (log_events c evs)"
  by (auto simp: keeps_def wp_rules in_db_def)

lemma keeps_in_db_rpc [keeps_intros]:
  "keeps (in_db I t) (rpc_events server cid req)" "keeps (in_db I t) (rpc_health server)"
  by (auto simp: keeps_def wp_def rpc_events_def rpc_health_def in_db_def split: sum.split prod.split)

text \<open>\<open>run_kept I\<close>: what a checkpoint save, a clamp record and a lock operation keep, besides the event writes.\<close>

definition save_kept :: "(db \<Rightarrow> bool) \<Rightarrow> bool" where
  "save_kept I \<longleftrightarrow> (\<forall>c cp owner now clk d d' ns.
     I d \<longrightarrow> run_batch (exec_stmt clk) (save_sql c cp owner now) d = Inr (d', ns) \<longrightarrow> I d')"

lemma save_keptD:
  "save_kept I \<Longrightarrow> I d \<Longrightarrow> run_batch (exec_stmt clk) (save_sql c cp owner now) d = Inr (d', ns) \<Longrightarrow> I d'"
  unfolding save_kept_def by blast

lemma keeps_saveCheckpoint: "save_kept I \<Longrightarrow> keeps (at_db I l t) (saveCheckpoint env c cp owner)"
  unfolding saveCheckpoint_def db_batch_def
  by (intro keeps_intros keeps_db_call) (auto intro: keeps_basic dest: save_keptD)

lemma keeps_save: "save_kept I \<Longrightarrow> keeps (in_db I t) (save env scan st)"
  unfolding save_def by (auto intro!: keeps_intros keeps_at_db_in_db [OF keeps_saveCheckpoint])

lemma keeps_handle_page:
  assumes "save_kept I" "kept_by (allowed (MAX_DEFER_ATTEMPTS \<le> deferAttempts (ss_state st))) I"
  shows "keeps (in_db I t) (handle_page env sdk scan st page)"
  unfolding handle_page_def Let_def
  by (auto split: prod.split intro!: keeps_intros keeps_save assms keeps_at_db_in_db [OF keeps_writeEvents])

section \<open>How the loop state evolves\<close>

lemma save_state:
  "wp (save env scan st) (\<lambda>st' _. ss_state st' = ss_state st \<and> ss_from st' = ss_from st \<and> ss_to st' = ss_to st \<and>
     ss_held st' = ss_held st) (\<lambda>_ _. True) w"
  by (auto simp: save_def wp_rules) (rule wpI, auto)

text \<open>Whatever the effects of a page do, the state after it is one of two kinds.\<close>

lemma handle_page_state:
  assumes split: "split_page st page = (scanned, ready, held, reached)"
    and deferred: "\<And>a b. P (False, st\<lparr>ss_held := held, ss_processed := a, ss_skipped := b,
      ss_state := (ss_state st)\<lparr>deferAttempts := deferAttempts (ss_state st) + 1\<rparr>, ss_stopped := Some Stop_Deferred\<rparr>)"
    and written: "\<And>st2. ss_state st2 = (if lastLedger (ss_state st) < reached then \<lparr>lastLedger = reached, deferAttempts = 0\<rparr>
        else ss_state st) \<Longrightarrow> ss_from st2 = ss_from st \<Longrightarrow> ss_to st2 = ss_to st \<Longrightarrow> ss_held st2 = held \<Longrightarrow>
      P (advanced scanned scan st page st2)"
  shows "wp (handle_page env sdk scan st page) (\<lambda>p _. P p) (\<lambda>_ _. True) w"
proof -
  have tail: "wp (abind (if lastLedger (ss_state st) < reached
                  then save env scan (st1\<lparr>ss_state := \<lparr>lastLedger = reached, deferAttempts = 0\<rparr>\<rparr>) else aret st1)
        (\<lambda>st2. aret (advanced scanned scan st page st2))) (\<lambda>p _. P p) (\<lambda>_ _. True) w2"
    if "st1 = st\<lparr>ss_held := held, ss_processed := a, ss_skipped := b\<rparr>" for st1 a b w2
    using that by (auto simp: wp_rules intro!: written wp_mono [OF save_state])
  show ?thesis
    unfolding handle_page_def split prod.case Let_def wp_abind [of "writeEvents env sdk c ready skip" for c skip]
      advanced_eq
  proof (rule wpI, goal_cases)
    case (1 x w')
    obtain a b d where x: "x = (a, b, d)" by (cases x) auto
    from tail [OF refl] deferred show ?case by (cases d) (simp_all add: x wp_rules)
  qed simp
qed

text \<open>A scan that starts with fewer than \<open>MAX_DEFER_ATTEMPTS\<close> deferrals never arms skipping.\<close>

definition not_armed :: "'sc scan_state \<Rightarrow> bool" where
  "not_armed st \<longleftrightarrow> deferAttempts (ss_state st) < MAX_DEFER_ATTEMPTS"

lemma handle_page_not_armed:
  assumes "not_armed st"
  shows "wp (handle_page env sdk scan st page) (\<lambda>p _. fst p \<longrightarrow> not_armed (snd p)) (\<lambda>_ _. True) w"
proof -
  obtain scanned ready held reached where "split_page st page = (scanned, ready, held, reached)"
    by (cases "split_page st page") auto
  then show ?thesis
    by (rule handle_page_state) (use assms in \<open>auto simp: not_armed_def advanced_def MAX_DEFER_ATTEMPTS_def\<close>)
qed

text \<open>The scan never passes the head it was given, whatever the server answers.\<close>

definition in_bounds :: "scan \<Rightarrow> int \<Rightarrow> 'sc scan_state \<Rightarrow> bool" where
  "in_bounds scan L0 st \<longleftrightarrow> lastLedger (ss_state st) \<le> max L0 (sc_head scan) \<and> ss_to st \<le> sc_head scan"

lemma split_page_reached: "split_page st page = (scanned, ready, held, reached) \<Longrightarrow> reached \<le> ss_to st"
proof -
  assume split: "split_page st page = (scanned, ready, held, reached)"
  let ?P = "filter (\<lambda>ev. ev_ledger ev \<le> ss_to st) (pg_events page)"
  have "ev_ledger (last (ss_held st @ ?P)) \<le> ss_to st" if "?P \<noteq> []"
    using last_in_set [OF that] that by simp
  moreover have "?P \<noteq> []" if "\<not> length (pg_events page) < PAGE_LIMIT" "\<not> length ?P < length (pg_events page)"
    using that by (cases ?P) (auto simp: PAGE_LIMIT_def)
  ultimately show ?thesis using split by (auto simp: split_page_def Let_def split: if_splits)
qed

lemma handle_page_within:
  assumes "in_bounds scan L0 st"
  shows "wp (handle_page env sdk scan st page) (\<lambda>p _. in_bounds scan L0 (snd p)) (\<lambda>_ _. True) w"
proof -
  obtain scanned ready held reached where split: "split_page st page = (scanned, ready, held, reached)"
    by (cases "split_page st page") auto
  show ?thesis
    by (rule handle_page_state [OF split])
      (use assms split_page_reached [OF split] in \<open>auto simp: in_bounds_def advanced_def\<close>)
qed

lemma scan_loop_within:
  "in_bounds scan L0 st \<Longrightarrow>
   wp (scan_loop env sdk server scan fuel st) (\<lambda>r _. case r of None \<Rightarrow> True | Some st' \<Rightarrow> in_bounds scan L0 st') (\<lambda>_ _. True) w"
proof (induction fuel arbitrary: st w)
  case (Suc fuel)
  have "wp (handle_page env sdk scan st page)
      (\<lambda>p. wp (case p of (again, st') \<Rightarrow> if again then scan_loop env sdk server scan fuel st' else aret (Some st'))
          (\<lambda>r _. case r of None \<Rightarrow> True | Some st' \<Rightarrow> in_bounds scan L0 st') (\<lambda>_ _. True)) (\<lambda>_ _. True) w'" for page w'
    by (rule wp_mono [OF handle_page_within [OF Suc.prems]]) (auto simp: wp_rules intro: Suc.IH)
  with Suc.prems show ?case
    by (auto simp: wp_rules in_bounds_def rpc_events_def wp_def [of "rpc_events server c r" for c r] split: sum.split)
qed (simp add: wp_rules)

lemma indexContract_within:
  assumes "sc_oldest scan \<le> lastLedger start + 1"
  shows "wp (indexContract env sdk server fuel scan start)
     (\<lambda>r _. case r of None \<Rightarrow> True | Some res \<Rightarrow> cr_last res \<le> max (lastLedger start) (sc_head scan)) (\<lambda>_ _. True) w"
proof -
  let ?st = "initial_scan scan start start (lastLedger start + 1)"
  have "in_bounds scan (lastLedger start) ?st" by (simp add: in_bounds_def initial_scan_def)
  from scan_loop_within [OF this] have
    "wp (scan_loop env sdk server scan fuel ?st)
     (\<lambda>r. wp (case r of None \<Rightarrow> aret None
             | Some st' \<Rightarrow> abind (save env scan st') (\<lambda>st''.
                 aret (Some \<lparr>cr_last = lastLedger (ss_state st''), cr_processed = ss_processed st'',
                             cr_skipped = ss_skipped st'', cr_stopped = ss_stopped st''\<rparr>)))
       (\<lambda>r _. case r of None \<Rightarrow> True | Some res \<Rightarrow> cr_last res \<le> max (lastLedger start) (sc_head scan)) (\<lambda>_ _. True))
     (\<lambda>_ _. True) w" for w
    by (rule wp_mono)
      (auto simp: wp_rules in_bounds_def split: option.split intro!: wp_mono [OF save_state])
  with assms show ?thesis by (simp add: indexContract_def clamp_start_def Let_def wp_rules)
qed

lemma scan_loop_keeps:
  assumes "save_kept I" "kept_by (allowed skip) I" "skip \<or> not_armed st"
  shows "in_db I t w \<Longrightarrow> wp (scan_loop env sdk server scan fuel st) (\<lambda>_. in_db I t) (\<lambda>_. in_db I t) w"
  using assms(3)
proof (induction fuel arbitrary: st w)
  case 0
  then show ?case by (simp add: wp_rules)
next
  case (Suc fuel)
  have armed: "kept_by (allowed (MAX_DEFER_ATTEMPTS \<le> deferAttempts (ss_state st))) I"
  proof (cases skip)
    case True
    moreover have "allowed b s \<Longrightarrow> allowed True s" for b s by (cases s) auto
    ultimately show ?thesis using assms(2) by (auto simp: kept_by_def) metis
  next
    case False
    with Suc.prems(2) assms(2) show ?thesis by (simp add: not_armed_def not_le)
  qed
  have page: "wp (handle_page env sdk scan st page)
      (\<lambda>p. wp (case p of (again, st') \<Rightarrow> if again then scan_loop env sdk server scan fuel st' else aret (Some st'))
          (\<lambda>_. in_db I t) (\<lambda>_. in_db I t)) (\<lambda>_. in_db I t) w'" if "in_db I t w'" for page w'
  proof -
    have "wp (handle_page env sdk scan st page) (\<lambda>p. in_db I t) (\<lambda>_. in_db I t) w'"
      by (rule keepsD [OF keeps_handle_page [OF assms(1) armed] that])
    moreover have "wp (handle_page env sdk scan st page) (\<lambda>p _. skip \<or> (fst p \<longrightarrow> not_armed (snd p))) (\<lambda>_ _. True) w'"
    proof (cases skip)
      case False
      with Suc.prems(2) have "not_armed st" by simp
      from handle_page_not_armed [OF this] show ?thesis by (rule wp_mono) simp_all
    qed (rule wpI, auto)
    ultimately have "wp (handle_page env sdk scan st page)
        (\<lambda>p w. in_db I t w \<and> (skip \<or> (fst p \<longrightarrow> not_armed (snd p)))) (\<lambda>_ w. in_db I t w \<and> True) w'"
      by (rule wp_conj)
    then show ?thesis
      by (rule wp_mono) (auto simp: wp_rules intro!: Suc.IH)
  qed
  have "in_db I t (tick w)" "in_db I t (tick (tick w))" using Suc.prems(1) by (simp_all add: in_db_def)
  with Suc.prems(1) page show ?case
    by (auto simp: wp_rules rpc_events_def wp_def [of "rpc_events server c r" for c r] split: sum.split)
qed

section \<open>Whole contracts and whole runs\<close>

lemma wp_top: "wp m (\<lambda>_ _. True) (\<lambda>_ _. True) w"
  by (rule wpI) auto

lemma clamp_start_keeps:
  assumes "save_kept I" "kept_by (allowed skip) I"
  shows "keeps (in_db I t) (clamp_start env scan start)"
  unfolding clamp_start_def Let_def
  by (auto intro!: keeps_intros keeps_save assms keeps_at_db_in_db [OF keeps_deadLetter [OF assms(2)]]
      simp: skip_reason_def)

lemma clamp_start_armed: "wp (clamp_start env scan start) (\<lambda>st _. deferAttempts (ss_state st) = deferAttempts start) (\<lambda>_ _. True) w"
  unfolding clamp_start_def Let_def
  by (auto simp: wp_rules initial_scan_def intro!: wp_mono [OF wp_top] wp_mono [OF save_state])

lemma indexContract_keeps:
  assumes "save_kept I" "kept_by (allowed skip) I" "skip \<or> deferAttempts start < MAX_DEFER_ATTEMPTS" "in_db I t w"
  shows "wp (indexContract env sdk server fuel scan start) (\<lambda>_. in_db I t) (\<lambda>_. in_db I t) w"
proof -
  let ?rest = "\<lambda>st. abind (scan_loop env sdk server scan fuel st) (\<lambda>r. case r of
               None \<Rightarrow> aret None
             | Some st' \<Rightarrow> abind (save env scan st') (\<lambda>st''.
                 aret (Some \<lparr>cr_last = lastLedger (ss_state st''), cr_processed = ss_processed st'',
                             cr_skipped = ss_skipped st'', cr_stopped = ss_stopped st''\<rparr>)))"
  have tail: "keeps (in_db I t) (case r of None \<Rightarrow> aret None
             | Some st' \<Rightarrow> abind (save env scan st') (\<lambda>st''.
                 aret (Some \<lparr>cr_last = lastLedger (ss_state st''), cr_processed = ss_processed st'',
                             cr_skipped = ss_skipped st'', cr_stopped = ss_stopped st''\<rparr>)))" for r
    by (auto split: option.split intro!: keeps_intros keeps_save assms(1))
  have rest: "wp (?rest st) (\<lambda>_. in_db I t) (\<lambda>_. in_db I t) w'"
    if "in_db I t w'" "deferAttempts (ss_state st) = deferAttempts start" for st w'
    unfolding wp_abind
    by (rule wp_mono [OF scan_loop_keeps [OF assms(1,2) _ that(1)]])
      (use assms(3) that in \<open>auto simp: not_armed_def intro: keepsD [OF tail]\<close>)
  have "wp (clamp_start env scan start) (\<lambda>st w. in_db I t w \<and> deferAttempts (ss_state st) = deferAttempts start)
      (\<lambda>_ w. in_db I t w \<and> True) w"
    by (rule wp_conj [OF keepsD [OF clamp_start_keeps [OF assms(1,2)] assms(4)] clamp_start_armed])
  then have "wp (abind (clamp_start env scan start) ?rest) (\<lambda>_. in_db I t) (\<lambda>_. in_db I t) w"
    unfolding wp_abind [of "clamp_start env scan start"] by (rule wp_mono) (auto intro: rest)
  then show ?thesis using assms(4) by (simp add: indexContract_def wp_rules)
qed

lemma contracts_loop_keeps:
  assumes "save_kept I" "kept_by (allowed True) I"
  shows "in_db I t w \<Longrightarrow> wp (contracts_loop env sdk server fuel ids deadline owner oldest cps cs head res)
     (\<lambda>_. in_db I t) (\<lambda>_. in_db I t) w"
proof (induction cs arbitrary: head res w)
  case Nil
  then show ?case by (simp add: wp_rules)
next
  case (Cons c cs)
  have now: "in_db I t (tick w)" using Cons.prems by (simp add: in_db_def)
  show ?case
    using now
    by (auto simp: wp_rules split: option.split
        intro!: wp_mono [OF indexContract_keeps [OF assms _ now]] Cons.IH)
qed

lemma keeps_readCheckpoints: "keeps (in_db I t) (readCheckpoints env cs)"
  unfolding readCheckpoints_def
  by (intro keeps_intros keeps_at_db_in_db [OF keeps_db_call]) auto

lemma indexContracts_keeps:
  assumes "save_kept I" "kept_by (allowed True) I"
  shows "keeps (in_db I t) (indexContracts env sdk server fuel ids deadline owner allowClamp)"
  unfolding indexContracts_def Let_def
  by (auto split: prod.split intro!: keeps_intros keeps_readCheckpoints keepsI [OF contracts_loop_keeps [OF assms]])

lemma kept_by_db_inv: "kept_by A db_inv"
  by (auto simp: kept_by_def simp del: exec_stmt.simps dest: exec_stmt_inv)

lemma save_kept_db_inv: "save_kept db_inv"
  unfolding save_kept_def using tx.batch_inv by blast

lemma allowed_is_write: "allowed skip s \<Longrightarrow> is_write s"
  by (cases s) auto

lemma kept_by_advances: "kept_by (allowed skip) (\<lambda>d. checkpoint_advances d0 d k)"
  unfolding kept_by_def checkpoint_advances_def by (metis allowed_is_write write_state_of)

lemma save_kept_advances: "save_kept (\<lambda>d. checkpoint_advances d0 d k)"
proof -
  have "checkpoint_advances d0 d' k"
    if "checkpoint_advances d0 d k" "run_batch (exec_stmt clk) (save_sql c cp owner now) d = Inr (d', ns)"
    for c cp owner now clk d d' ns
    using lock_step_advances [OF do_save [OF that(2)], of k] checkpoint_advances_trans [OF that(1)] by simp
  then show ?thesis unfolding save_kept_def by blast
qed

text \<open>The skip dead letters of a database.\<close>

definition skip_letters :: "db \<Rightarrow> dead_row list" where
  "skip_letters d = filter (\<lambda>r. skip_reason (d_reason r)) (dead_letters d)"

lemma exec_stmt_skip_letters:
  assumes "allowed False s" "exec_stmt clk s d = Inr (d', n)"
  shows "skip_letters d' = skip_letters d"
proof (cases "is_letter s")
  case True
  from exec_stmt_letter [OF assms(2) this] show ?thesis
  proof
    assume "\<exists>r. d' = add_dead r d \<and> (\<forall>e. d_event r = Some e \<longrightarrow> \<not> recorded d e (d_reason r)) \<and>
      (d_reason r = Missing_Parent \<or> (\<exists>c eid l detail. s = Sql_deadLetter c (d_reason r) eid l detail))"
    then obtain r where "d' = add_dead r d" "\<not> skip_reason (d_reason r)"
      using assms(1) by (auto simp: skip_reason_def)
    then show ?thesis by (simp add: skip_letters_def add_dead_def)
  qed simp
qed (use exec_stmt_no_letter [OF assms(2)] in \<open>simp add: skip_letters_def\<close>)

lemma save_sql_dead_letters:
  assumes "run_batch (exec_stmt clk) (save_sql c cp owner now) d = Inr (d', ns)"
  shows "dead_letters d' = dead_letters d"
proof -
  have "kept_by (\<lambda>s. \<not> is_letter s) (\<lambda>e. dead_letters e = dead_letters d)"
    unfolding kept_by_def using exec_stmt_no_letter by simp
  moreover have "\<not> is_letter s" if "s \<in> set (save_sql c cp owner now)" for s
    using that by (auto simp: save_sql_def)
  ultimately show ?thesis using kept_by_batch [OF _ _ _ assms] by blast
qed

lemma kept_by_skip_letters: "kept_by (allowed False) (\<lambda>d. skip_letters d = x)"
  unfolding kept_by_def using exec_stmt_skip_letters by blast

lemma save_kept_skip_letters: "save_kept (\<lambda>d. skip_letters d = x)"
  unfolding save_kept_def skip_letters_def using save_sql_dead_letters by simp

section \<open>Termination\<close>

lemma handle_page_tick: "wp (handle_page env sdk scan st page) (\<lambda>_ w'. w_tick w \<le> w_tick w') (\<lambda>_ _. True) w"
proof -
  have "kept_by A (\<lambda>_. True)" "save_kept (\<lambda>_. True)" for A by (simp_all add: kept_by_def save_kept_def)
  then have "keeps (in_db (\<lambda>_. True) (w_tick w)) (handle_page env sdk scan st page)"
    by (intro keeps_handle_page)
  from keepsD [OF this, of w] show ?thesis by (auto simp: in_db_def intro: wp_mono)
qed

lemma scan_loop_terminates:
  assumes "\<And>t. T \<le> t \<Longrightarrow> sc_deadline scan \<le> e_now env t"
  shows "T < w_tick w + fuel \<Longrightarrow> 0 < fuel \<Longrightarrow>
     wp (scan_loop env sdk server scan fuel st) (\<lambda>r _. r \<noteq> None) (\<lambda>_ _. True) w"
proof (induction fuel arbitrary: st w)
  case (Suc fuel)
  show ?case
  proof (cases "T \<le> w_tick w")
    case True
    with assms show ?thesis by (simp add: wp_rules)
  next
    case False
    then have "0 < fuel" using Suc.prems by simp
    have page: "wp (handle_page env sdk scan st page)
        (\<lambda>p. wp (case p of (again, st') \<Rightarrow> if again then scan_loop env sdk server scan fuel st' else aret (Some st'))
          (\<lambda>r _. r \<noteq> None) (\<lambda>_ _. True)) (\<lambda>_ _. True) (tick (tick w))" for page
    proof (rule wp_mono [OF handle_page_tick])
      fix p and w' :: world
      assume "w_tick (tick (tick w)) \<le> w_tick w'"
      then have "T < w_tick w' + fuel" using Suc.prems by simp
      then show "wp (case p of (again, st') \<Rightarrow> if again then scan_loop env sdk server scan fuel st' else aret (Some st'))
          (\<lambda>r _. r \<noteq> None) (\<lambda>_ _. True) w'"
        using Suc.IH \<open>0 < fuel\<close> by (auto simp: wp_rules split: prod.split)
    qed simp
    then show ?thesis
      by (auto simp: wp_rules rpc_events_def wp_def [of "rpc_events server c r" for c r] split: sum.split)
  qed
qed simp

lemma clamp_start_tick: "wp (clamp_start env scan start) (\<lambda>_ w'. w_tick w \<le> w_tick w') (\<lambda>_ _. True) w"
proof -
  have "kept_by (allowed True) (\<lambda>_. True)" "save_kept (\<lambda>_. True)" by (simp_all add: kept_by_def save_kept_def)
  then have "keeps (in_db (\<lambda>_. True) (w_tick w)) (clamp_start env scan start)"
    by (intro clamp_start_keeps)
  from keepsD [OF this, of w] show ?thesis by (auto simp: in_db_def intro: wp_mono)
qed

lemma indexContract_terminates:
  assumes "\<And>t. T \<le> t \<Longrightarrow> sc_deadline scan \<le> e_now env t" "T < fuel"
  shows "wp (indexContract env sdk server fuel scan start) (\<lambda>r _. r \<noteq> None) (\<lambda>_ _. True) w"
proof -
  have fin: "wp (case r of None \<Rightarrow> aret None
             | Some st' \<Rightarrow> abind (save env scan st') (\<lambda>st''.
                 aret (Some \<lparr>cr_last = lastLedger (ss_state st''), cr_processed = ss_processed st'',
                             cr_skipped = ss_skipped st'', cr_stopped = ss_stopped st''\<rparr>)))
        (\<lambda>r _. r \<noteq> None) (\<lambda>_ _. True) w'" if "r \<noteq> None" for r w'
    using that by (auto simp: wp_rules wp_top)
  have "wp (clamp_start env scan start) (\<lambda>st. wp (abind (scan_loop env sdk server scan fuel st) (\<lambda>r. case r of
               None \<Rightarrow> aret None
             | Some st' \<Rightarrow> abind (save env scan st') (\<lambda>st''.
                 aret (Some \<lparr>cr_last = lastLedger (ss_state st''), cr_processed = ss_processed st'',
                             cr_skipped = ss_skipped st'', cr_stopped = ss_stopped st''\<rparr>))))
        (\<lambda>r _. r \<noteq> None) (\<lambda>_ _. True)) (\<lambda>_ _. True) w"
    unfolding wp_abind [of "scan_loop env sdk server scan fuel st" for st]
  proof (rule wp_mono [OF wp_top])
    fix st and w' :: world
    have "T < w_tick w' + fuel" "0 < fuel" using assms(2) by linarith+
    from scan_loop_terminates [OF assms(1) this] show "wp (scan_loop env sdk server scan fuel st)
        (\<lambda>r. wp (case r of None \<Rightarrow> aret None
             | Some st' \<Rightarrow> abind (save env scan st') (\<lambda>st''.
                 aret (Some \<lparr>cr_last = lastLedger (ss_state st''), cr_processed = ss_processed st'',
                             cr_skipped = ss_skipped st'', cr_stopped = ss_stopped st''\<rparr>)))
        (\<lambda>r _. r \<noteq> None) (\<lambda>_ _. True)) (\<lambda>_ _. True) w'"
      by (rule wp_mono) (use fin in auto)
  qed simp
  then show ?thesis by (simp add: indexContract_def wp_rules)
qed

section \<open>Dependents and aged checkpoints\<close>

definition start_ledger :: "db \<Rightarrow> contract_name \<Rightarrow> int" where
  "start_ledger d c = (case state_of d (contract_text c) of None \<Rightarrow> 0 | Some r \<Rightarrow> s_last r)"

definition all_rows :: "db \<Rightarrow> bool" where
  "all_rows d \<longleftrightarrow> (\<forall>c \<in> set CONTRACTS. has (indexer_state d) (contract_text c))"

lemma map_of_checkpoints: "map_of (map (\<lambda>(c, r). (c, checkpoint_of r)) t) k = map_option checkpoint_of (map_of t k)"
  by (induction t) auto

lemma require_rows_iff: "require_rows cs cps = Inr () \<longleftrightarrow> (\<forall>c \<in> set cs. has cps c)"
  by (induction cs) auto

lemma require_rows_cases: "require_rows cs cps = Inr () \<or> (\<exists>m. require_rows cs cps = Inl m)"
  by (induction cs) auto

lemma readCheckpoints_wp:
  "wp (readCheckpoints env (map contract_text CONTRACTS))
     (\<lambda>cps w'. w_db w' = w_db w \<and> w_log w' = w_log w \<and> all_rows (w_db w) \<and> w_tick w' = Suc (w_tick w) \<and>
        (\<forall>c \<in> set CONTRACTS. lastLedger (cp_get cps c) = start_ledger (w_db w) c))
     (\<lambda>_ w'. w_db w' = w_db w \<and> w_log w' = w_log w) w"
proof -
  let ?cps = "map (\<lambda>(c, r). (c, checkpoint_of r)) (indexer_state (w_db w))"
  have has: "has ?cps c \<longleftrightarrow> has (indexer_state (w_db w)) c" for c
    by (simp add: has_def map_of_checkpoints)
  have get: "lastLedger (cp_get ?cps c) = start_ledger (w_db w) c" if "has (indexer_state (w_db w)) (contract_text c)" for c
    using that by (auto simp: cp_get_def map_of_checkpoints start_ledger_def state_of_def has_def) (simp add: checkpoint_of_def)
  show ?thesis
    unfolding readCheckpoints_def wp_abind
  proof (rule wp_db_call, goal_cases)
    case (1 clk d cps)
    then have eq: "d = w_db w" "cps = ?cps" by auto
    show ?case
    proof (cases "require_rows (map contract_text CONTRACTS) ?cps")
      case (Inl m)
      then show ?thesis by (simp add: wp_rules eq)
    next
      case (Inr u)
      then have "\<forall>c \<in> set CONTRACTS. has (indexer_state (w_db w)) (contract_text c)"
        using require_rows_iff [of "map contract_text CONTRACTS" ?cps] has by simp
      with Inr get show ?thesis by (simp add: wp_rules eq all_rows_def)
    qed
  qed auto
qed

text \<open>Dependents are bounded by the head they are given; identity's result lowers that head.\<close>

definition bounded_by :: "(string \<times> checkpoint) list \<Rightarrow> int \<Rightarrow> (contract_name \<times> contract_result) list \<Rightarrow> bool" where
  "bounded_by cps head rs \<longleftrightarrow> (\<forall>(k, res) \<in> set rs. cr_last res \<le> max (lastLedger (cp_get cps k)) head)"

lemma dependents_bounded:
  assumes "\<forall>c \<in> set cs. c \<noteq> Identity \<and> oldest \<le> lastLedger (cp_get cps c) + 1"
  shows "wp (contracts_loop env sdk server fuel ids deadline owner oldest cps cs head res)
     (\<lambda>r _. case r of None \<Rightarrow> True | Some res' \<Rightarrow>
        \<exists>rest. ir_contracts res' = ir_contracts res @ rest \<and> bounded_by cps head rest)
     (\<lambda>_ _. True) w"
  using assms
proof (induction cs arbitrary: res w)
  case Nil
  then show ?case by (simp add: wp_rules bounded_by_def)
next
  case (Cons c cs)
  let ?scan = "\<lparr>sc_contract = c, sc_id = ids c, sc_head = head, sc_oldest = oldest, sc_deadline = deadline, sc_owner = owner\<rparr>"
  let ?Q = "\<lambda>r _. case r of None \<Rightarrow> True | Some res' \<Rightarrow>
        \<exists>rest. ir_contracts res' = ir_contracts res @ rest \<and> bounded_by cps head rest"
  have next_contract: "wp (contracts_loop env sdk server fuel ids deadline owner oldest cps cs head
        \<lparr>ir_contracts = ir_contracts res @ [(c, out)], ir_timedOut = b\<rparr>) ?Q (\<lambda>_ _. True) w'"
    if "cr_last out \<le> max (lastLedger (cp_get cps c)) head" for out b w'
    by (rule wp_mono [OF Cons.IH]) (use Cons.prems that in \<open>auto simp: bounded_by_def split: option.splits\<close>)
  have "wp (indexContract env sdk server fuel ?scan (cp_get cps c))
     (\<lambda>r. wp (case r of None \<Rightarrow> aret None | Some out \<Rightarrow>
         contracts_loop env sdk server fuel ids deadline owner oldest cps cs head
           \<lparr>ir_contracts = ir_contracts res @ [(c, out)], ir_timedOut = (ir_timedOut res \<or> cr_stopped out = Some Stop_Deadline)\<rparr>)
       ?Q (\<lambda>_ _. True)) (\<lambda>_ _. True) w'" for w'
    by (rule wp_mono [OF indexContract_within])
      (use Cons.prems next_contract in \<open>auto simp: wp_rules split: option.split\<close>)
  with Cons.prems show ?case by (auto simp: wp_rules bounded_by_def)
qed

definition dependents_ok :: "db \<Rightarrow> int \<Rightarrow> index_result \<Rightarrow> bool" where
  "dependents_ok d latest res \<longleftrightarrow> (case ir_contracts res of [] \<Rightarrow> True
     | (c, identity) # rest \<Rightarrow> c = Identity \<and> cr_last identity \<le> max (start_ledger d Identity) latest \<and>
         (\<forall>(k, out) \<in> set rest. k \<in> {Reputation, Validation} \<and>
            cr_last out \<le> max (start_ledger d k) (min latest (cr_last identity))))"

lemma contracts_loop_names:
  "wp (contracts_loop env sdk server fuel ids deadline owner oldest cps cs head res)
     (\<lambda>r _. case r of None \<Rightarrow> True | Some res' \<Rightarrow>
        \<exists>rest. ir_contracts res' = ir_contracts res @ rest \<and> fst ` set rest \<subseteq> set cs) (\<lambda>_ _. True) w"
proof (induction cs arbitrary: head res w)
  case Nil
  then show ?case by (simp add: wp_rules)
next
  case (Cons c cs)
  let ?Q = "\<lambda>r _. case r of None \<Rightarrow> True | Some res' \<Rightarrow>
        \<exists>rest. ir_contracts res' = ir_contracts res @ rest \<and> fst ` set rest \<subseteq> set (c # cs)"
  have next_contract: "wp (contracts_loop env sdk server fuel ids deadline owner oldest cps cs h
        \<lparr>ir_contracts = ir_contracts res @ [(c, out)], ir_timedOut = b\<rparr>) ?Q (\<lambda>_ _. True) w'" for out b h w'
    by (rule wp_mono [OF Cons.IH]) (fastforce split: option.splits)+
  have "wp (indexContract env sdk server fuel scan start)
     (\<lambda>r. wp (case r of None \<Rightarrow> aret None | Some out \<Rightarrow>
         contracts_loop env sdk server fuel ids deadline owner oldest cps cs (if c = Identity then min head (cr_last out) else head)
           \<lparr>ir_contracts = ir_contracts res @ [(c, out)], ir_timedOut = (ir_timedOut res \<or> cr_stopped out = Some Stop_Deadline)\<rparr>)
       ?Q (\<lambda>_ _. True)) (\<lambda>_ _. True) w'" for scan start w'
    by (rule wp_mono [OF wp_top]) (use next_contract in \<open>auto simp: wp_rules split: option.split\<close>)
  then show ?case by (auto simp: wp_rules)
qed

lemma contracts_loop_dependents:
  assumes "\<forall>c \<in> set CONTRACTS. oldest \<le> lastLedger (cp_get cps c) + 1 \<and> lastLedger (cp_get cps c) = start_ledger d c"
  shows "wp (contracts_loop env sdk server fuel ids deadline owner oldest cps CONTRACTS latest \<lparr>ir_contracts = [], ir_timedOut = False\<rparr>)
     (\<lambda>r _. case r of None \<Rightarrow> True | Some res \<Rightarrow> dependents_ok d latest res) (\<lambda>_ _. True) w"
proof -
  let ?Q = "\<lambda>r _. case r of None \<Rightarrow> True | Some res \<Rightarrow> dependents_ok d latest res"
  have deps: "wp (contracts_loop env sdk server fuel ids deadline owner oldest cps [Reputation, Validation]
        (min latest (cr_last out)) \<lparr>ir_contracts = [(Identity, out)], ir_timedOut = b\<rparr>) ?Q (\<lambda>_ _. True) w'"
    if out: "cr_last out \<le> max (start_ledger d Identity) latest" for out b w'
  proof (rule wp_mono [OF wp_conj [OF dependents_bounded contracts_loop_names]], goal_cases)
    case (2 r w'')
    then show ?case
      using out assms
      by (cases r) (fastforce simp: dependents_ok_def bounded_by_def CONTRACTS_def)+
  qed (use assms in \<open>auto simp: CONTRACTS_def\<close>)
  have "wp (indexContract env sdk server fuel
         \<lparr>sc_contract = Identity, sc_id = ids Identity, sc_head = latest, sc_oldest = oldest, sc_deadline = deadline, sc_owner = owner\<rparr>
         (cp_get cps Identity))
     (\<lambda>r. wp (case r of None \<Rightarrow> aret None | Some out \<Rightarrow>
         contracts_loop env sdk server fuel ids deadline owner oldest cps [Reputation, Validation] (min latest (cr_last out))
           \<lparr>ir_contracts = [(Identity, out)], ir_timedOut = (cr_stopped out = Some Stop_Deadline)\<rparr>)
       ?Q (\<lambda>_ _. True)) (\<lambda>_ _. True) w'" for w'
    by (rule wp_mono [OF indexContract_within])
      (use assms deps in \<open>auto simp: wp_rules CONTRACTS_def split: option.splits simp del: contracts_loop.simps\<close>)
  then show ?thesis
    by (simp add: CONTRACTS_def contracts_loop.simps(2) [of _ _ _ _ _ _ _ _ _ Identity] wp_rules dependents_ok_def
        del: contracts_loop.simps)
qed

lemma indexContracts_dependents:
  "wp (indexContracts env sdk server fuel ids deadline owner False)
     (\<lambda>r _. case r of None \<Rightarrow> True | Some res \<Rightarrow> \<exists>latest. dependents_ok (w_db w) latest res) (\<lambda>_ _. True) w"
  unfolding indexContracts_def wp_abind
proof (rule wp_mono [OF readCheckpoints_wp], goal_cases)
  case (1 cps w')
  let ?loop = "\<lambda>latest oldest. contracts_loop env sdk server fuel ids deadline owner oldest cps CONTRACTS latest
      \<lparr>ir_contracts = [], ir_timedOut = False\<rparr>"
  have "wp (?loop latest oldest) (\<lambda>r _. case r of None \<Rightarrow> True | Some res \<Rightarrow> \<exists>latest. dependents_ok (w_db w) latest res)
      (\<lambda>_ _. True) w''" if "aged_contracts cps oldest = []" for latest oldest w''
  proof (rule wp_mono [OF contracts_loop_dependents [of oldest cps "w_db w"]])
    show "\<forall>c \<in> set CONTRACTS. oldest \<le> lastLedger (cp_get cps c) + 1 \<and> lastLedger (cp_get cps c) = start_ledger (w_db w) c"
      using 1 that by (auto simp: aged_contracts_def filter_empty_conv)
  qed (auto split: option.splits)
  then show ?case
    by (auto simp: wp_rules rpc_health_def wp_def [of "rpc_health server"] Let_def split: sum.split prod.split)
qed simp

section \<open>Properties\<close>

text \<open>C1. Against a server that behaves as documented, a scan deals with exactly the events after its checkpoint, each
  once, in ledger order and in whole ledgers. However it ends (at the head, deadline, RPC error, deferral, database fault
  or a lost lock), the events handed over are all events of the ledgers from the checkpoint to some ledger \<open>S\<close>, the stored
  checkpoint is never ahead of \<open>S\<close> and never moves back, and on a normal end it is \<open>S\<close>, which is also the ledger reported.\<close>

theorem scan_complete:
  assumes "honest server (sc_id scan) evs pos" "cp_at (contract_text (sc_contract scan)) start w"
    and "sc_oldest scan \<le> lastLedger start + 1"
    and run: "indexContract env sdk server fuel scan start w = (r, w')"
  shows "\<exists>S cp. w_log w' = w_log w @ map (\<lambda>x. (sc_contract scan, ev_id x))
            (filter (\<lambda>x. lastLedger start < ev_ledger x \<and> ev_ledger x \<le> S) evs) \<and>
       cp_at (contract_text (sc_contract scan)) cp w' \<and> lastLedger start \<le> lastLedger cp \<and> lastLedger cp \<le> S \<and>
       (\<forall>res. r = Inr (Some res) \<longrightarrow> cr_last res = S \<and> lastLedger cp = S)"
proof -
  note spec = indexContract_wp [OF assms(1-3), of env sdk fuel]
  show ?thesis
  proof (cases "\<exists>res. r = Inr (Some res)")
    case True
    then obtain res where r: "r = Inr (Some res)" by blast
    with wp_result [OF spec run [unfolded r]] obtain cp where
      "dealt evs (sc_contract scan) (lastLedger start) (w_log w) (cr_last res) w'"
      "cp_at (contract_text (sc_contract scan)) cp w'" "lastLedger cp = cr_last res" by auto
    with r show ?thesis by (intro exI [of _ "cr_last res"] exI [of _ cp]) (auto simp: dealt_def)
  next
    case False
    have "failed_ok evs scan (lastLedger start) (w_log w) w'"
    proof (cases r)
      case (Inl e)
      with wp_error [OF spec run [unfolded Inl]] show ?thesis by simp
    next
      case (Inr x)
      with False have "x = None" by auto
      with wp_result [OF spec run [unfolded Inr]] show ?thesis by simp
    qed
    then obtain S cp where "dealt evs (sc_contract scan) (lastLedger start) (w_log w) S w'"
        "cp_at (contract_text (sc_contract scan)) cp w'" "lastLedger start \<le> lastLedger cp" "lastLedger cp \<le> S"
      by (auto simp: failed_ok_def)
    with False show ?thesis by (intro exI [of _ S] exI [of _ cp]) (auto simp: dealt_def)
  qed
qed

definition sample_env :: env where
  "sample_env = \<lparr>e_now = (\<lambda>t. 1767225600000 + 1000 * int t), e_clk = (\<lambda>_. []), e_fault = (\<lambda>_. None), e_date = (\<lambda>_. None)\<rparr>"

definition sample_chain :: "native rpc_event list" where
  "sample_chain = [sample_event\<lparr>ev_ledger := 15\<rparr>]"

definition sample_server :: "native server" where
  "sample_server = \<lparr>getHealth = (\<lambda>_. Inr (100, 1)),
     getEvents = (\<lambda>t cid req. case req of
        Start s e \<Rightarrow> Inr \<lparr>pg_events = filter (\<lambda>x. s \<le> ev_ledger x \<and> ev_ledger x < e) sample_chain,
                         pg_latest = 100, pg_cursor = ''c''\<rparr>
      | Cursor c \<Rightarrow> Inl ''unknown cursor'')\<rparr>"

definition sample_scan :: scan where
  "sample_scan = \<lparr>sc_contract = Identity, sc_id = ''C'', sc_head = 100, sc_oldest = 1, sc_deadline = 1767225660000,
     sc_owner = ''run-a''\<rparr>"

definition sample_world :: "db \<Rightarrow> world" where
  "sample_world d = \<lparr>w_db = d, w_tick = 0, w_log = []\<rparr>"

lemma sample_server_honest: "honest sample_server cid sample_chain pos"
proof -
  have "\<exists>b. min 100 (min (e - 1) (s + rpc_scan_ledgers - 1)) \<le> b \<and>
      full_page sample_chain pos (length (filter (\<lambda>x. ev_ledger x < s) sample_chain)) b
        \<lparr>pg_events = filter (\<lambda>x. s \<le> ev_ledger x \<and> ev_ledger x < e) sample_chain, pg_latest = 100, pg_cursor = ''c''\<rparr>"
    for s e
    by (rule exI [of _ "min 100 (e - 1)"]) (auto simp: full_page_def sample_chain_def PAGE_LIMIT_def)
  then show ?thesis
    by (auto simp: honest_def sample_server_def) (simp add: sample_chain_def)
qed

lemma sample_start: "cp_at ''identity'' \<lparr>lastLedger = 10, deferAttempts = 0\<rparr> (sample_world (sample_db None))"
  by (simp add: cp_at_def state_of_def sample_world_def sample_db_def sample_state_def checkpoint_of_def)

theorem scan_complete_witness:
  "\<exists>S cp. w_log (snd (indexContract sample_env native_sdk sample_server 9 sample_scan \<lparr>lastLedger = 10, deferAttempts = 0\<rparr>
          (sample_world (sample_db None)))) =
        map (\<lambda>x. (Identity, ev_id x)) (filter (\<lambda>x. 10 < ev_ledger x \<and> ev_ledger x \<le> S) sample_chain) \<and>
     cp_at ''identity'' cp (snd (indexContract sample_env native_sdk sample_server 9 sample_scan
          \<lparr>lastLedger = 10, deferAttempts = 0\<rparr> (sample_world (sample_db None)))) \<and> 10 \<le> lastLedger cp \<and> lastLedger cp \<le> S"
proof -
  let ?run = "indexContract sample_env native_sdk sample_server 9 sample_scan \<lparr>lastLedger = 10, deferAttempts = 0\<rparr>
      (sample_world (sample_db None))"
  have "?run = (fst ?run, snd ?run)" by simp
  from scan_complete [where pos = "\<lambda>_. 0", OF sample_server_honest _ _ this] sample_start
  show ?thesis by (auto simp: sample_scan_def) (auto simp: sample_world_def)
qed

text \<open>C30. The scan of a contract always ends: once the clock has passed the deadline for good at tick \<open>T\<close>, any fuel above
  \<open>T\<close> lets the loop end, whatever the server and the database do.\<close>

theorem scan_terminates:
  assumes "\<And>t. T \<le> t \<Longrightarrow> sc_deadline scan \<le> e_now env t" "T < fuel"
  shows "fst (indexContract env sdk server fuel scan start w) \<noteq> Inr None"
  using indexContract_terminates [OF assms, of sdk server start w]
  by (auto simp: wp_def split: prod.splits sum.splits)

theorem scan_terminates_witness:
  "fst (indexContract sample_env native_sdk sample_server 61 sample_scan \<lparr>lastLedger = 10, deferAttempts = 0\<rparr>
     (sample_world (sample_db None))) \<noteq> Inr None"
  by (rule scan_terminates [of 60]) (auto simp: sample_scan_def sample_env_def)

text \<open>An event that cannot be written is never given up early: a scan of a contract with fewer than five deferrals in a
  row records no skip in the dead letters, whatever fails during it.\<close>

theorem no_early_skip:
  assumes "deferAttempts start < MAX_DEFER_ATTEMPTS" "indexContract env sdk server fuel scan start w = (r, w')"
  shows "skip_letters (w_db w') = skip_letters (w_db w)"
proof -
  have "in_db (\<lambda>d. skip_letters d = skip_letters (w_db w)) 0 w" by (simp add: in_db_def)
  note spec = indexContract_keeps [OF save_kept_skip_letters kept_by_skip_letters disjI2 [OF assms(1)] this,
      of env sdk server fuel scan]
  show ?thesis
    using wp_result [OF spec] wp_error [OF spec] assms(2) by (cases r) (auto simp: in_db_def)
qed

theorem no_early_skip_witness:
  "skip_letters (w_db (snd (indexContract sample_env native_sdk sample_server 61 sample_scan
     \<lparr>lastLedger = 10, deferAttempts = 4\<rparr> (sample_world (sample_db None))))) = []"
proof -
  let ?run = "indexContract sample_env native_sdk sample_server 61 sample_scan \<lparr>lastLedger = 10, deferAttempts = 4\<rparr>
      (sample_world (sample_db None))"
  have "?run = (fst ?run, snd ?run)" by simp
  from no_early_skip [OF _ this] show ?thesis
    by (simp add: MAX_DEFER_ATTEMPTS_def sample_world_def sample_db_def skip_letters_def)
qed

text \<open>The dependents never run ahead of the agents they refer to: in a run that skips no aged ledgers, identity is
  scanned first and ends at a ledger \<open>L\<close>, and reputation and validation end at most at \<open>L\<close>, unless their own checkpoint
  was already beyond it.\<close>

theorem dependents_bounded_by_identity:
  assumes "indexContracts env sdk server fuel ids deadline owner False w = (Inr (Some res), w')"
  shows "\<exists>latest. dependents_ok (w_db w) latest res"
  using wp_result [OF indexContracts_dependents assms] by simp

definition sample_rows :: "int \<Rightarrow> db" where
  "sample_rows l = (sample_db None)\<lparr>indexer_state := map (\<lambda>c. (contract_text c, sample_state\<lparr>s_last := l\<rparr>)) CONTRACTS\<rparr>"

definition sample_done :: "int \<Rightarrow> index_result" where
  "sample_done l = \<lparr>ir_contracts = map (\<lambda>c. (c, \<lparr>cr_last = l, cr_processed = 0, cr_skipped = 0, cr_stopped = None\<rparr>)) CONTRACTS,
     ir_timedOut = False\<rparr>"

lemmas sample_run_defs = sample_rows_def sample_db_def sample_world_def sample_env_def sample_server_def sample_state_def
  CONTRACTS_def indexContracts_def readCheckpoints_def db_call_def rpc_health_def aged_contracts_def cp_get_def
  date_now_def tick_def has_def checkpoint_of_def act_defs

theorem dependents_bounded_by_identity_witness:
  "fst (indexContracts sample_env native_sdk sample_server 61 (\<lambda>_. ''C'') 1767225660000 ''run-a'' False
      (sample_world (sample_rows 100))) = Inr (Some (sample_done 100)) \<and>
   (\<exists>latest. dependents_ok (sample_rows 100) latest (sample_done 100))"
proof -
  let ?run = "indexContracts sample_env native_sdk sample_server 61 (\<lambda>_. ''C'') 1767225660000 ''run-a'' False
      (sample_world (sample_rows 100))"
  have *: "fst ?run = Inr (Some (sample_done 100))"
    by (simp add: sample_run_defs indexContract_def sample_done_def)
  then have "?run = (Inr (Some (sample_done 100)), snd ?run)" by (simp add: prod_eq_iff)
  from dependents_bounded_by_identity [OF this] * show ?thesis by (simp add: sample_world_def)
qed

text \<open>A run never starts from nowhere and never skips ledgers silently: if a contract has no checkpoint row, or if the
  server no longer has the ledgers after some checkpoint and skipping was not allowed, the run stops with an error and
  has changed neither the database nor the log.\<close>

theorem refuses_gap:
  assumes "getHealth server (Suc (w_tick w)) = Inr (latest, oldest)"
    and "\<not> all_rows (w_db w) \<or> (\<exists>c \<in> set CONTRACTS. start_ledger (w_db w) c + 1 < oldest)"
  shows "\<exists>msg w'. indexContracts env sdk server fuel ids deadline owner False w = (Inl msg, w') \<and>
     w_db w' = w_db w \<and> w_log w' = w_log w"
proof -
  have "wp (indexContracts env sdk server fuel ids deadline owner False) (\<lambda>_ _. False)
      (\<lambda>_ w'. w_db w' = w_db w \<and> w_log w' = w_log w) w"
    unfolding indexContracts_def wp_abind
  proof (rule wp_mono [OF readCheckpoints_wp], goal_cases)
    case (1 cps w')
    then have "aged_contracts cps oldest \<noteq> []"
      using assms(2) by (auto simp: aged_contracts_def filter_empty_conv)
    with 1 assms(1) show ?case
      by (simp add: wp_def [of "rpc_health server"] rpc_health_def wp_rules Let_def)
  qed simp
  then show ?thesis by (auto simp: wp_def split: prod.splits sum.splits)
qed

theorem refuses_gap_witness:
  "\<exists>msg w'. indexContracts sample_env native_sdk (sample_server\<lparr>getHealth := (\<lambda>_. Inr (100, 50))\<rparr>) 61 (\<lambda>_. ''C'') 1767225660000
     ''run-a'' False (sample_world (sample_rows 10)) = (Inl msg, w') \<and> w_db w' = sample_rows 10 \<and> w_log w' = []"
proof -
  have "getHealth (sample_server\<lparr>getHealth := (\<lambda>_. Inr (100, 50))\<rparr>) (Suc (w_tick (sample_world (sample_rows 10)))) = Inr (100, 50)"
    by simp
  from refuses_gap [OF this, of sample_env native_sdk 61 "\<lambda>_. ''C''" 1767225660000 "''run-a''"] show ?thesis
    by (simp add: sample_world_def start_ledger_def state_of_def sample_rows_def CONTRACTS_def)
qed

text \<open>C12. Whatever fails and wherever it stops, a run of the indexer leaves a database that satisfies the schema
  invariant and in which no checkpoint has moved back.\<close>

theorem run_keeps_database:
  assumes "db_inv (w_db w)" "indexContracts env sdk server fuel ids deadline owner allowClamp w = (r, w')"
  shows "db_inv (w_db w') \<and> checkpoint_advances (w_db w) (w_db w') k"
proof -
  have "in_db db_inv 0 w" "in_db (\<lambda>d. checkpoint_advances (w_db w) d k) 0 w"
    using assms(1) by (simp_all add: in_db_def checkpoint_advances_refl)
  then have "in_db db_inv 0 w'" "in_db (\<lambda>d. checkpoint_advances (w_db w) d k) 0 w'"
    using keeps_final [OF indexContracts_keeps [OF save_kept_db_inv kept_by_db_inv] _ assms(2)]
      keeps_final [OF indexContracts_keeps [OF save_kept_advances kept_by_advances] _ assms(2)] by blast+
  then show ?thesis by (simp add: in_db_def)
qed

theorem run_keeps_database_witness:
  "db_inv (w_db (snd (indexContracts sample_env native_sdk sample_server 61 (\<lambda>_. ''C'') 1767225660000 ''run-a'' False
     (sample_world (sample_rows 10)))))"
proof -
  let ?run = "indexContracts sample_env native_sdk sample_server 61 (\<lambda>_. ''C'') 1767225660000 ''run-a'' False
      (sample_world (sample_rows 10))"
  have "?run = (fst ?run, snd ?run)" by simp
  from run_keeps_database [OF _ this] show ?thesis
    by (simp add: sample_world_def sample_rows_def sample_db_def db_inv_defs CONTRACTS_def)
qed

end
