(* ===== verification/Indexer_Writes.thy ===== *)
theory Indexer_Writes
  imports Indexer_Props
begin

text \<open>
  What \<open>writeEvents\<close> has done when it returns without deferring: exactly the statements of the parsed events of the page,
  registrations first, each run once in its turn, whether they went through as batches or one by one after a batch rolled back. Each
  was applied, except that, when skipping is armed, one that breaks a constraint in its turn is passed over. Dead letters aside, the
  database is the one the statements lead to.
\<close>

section \<open>Statements in sequence\<close>

definition core :: "db \<Rightarrow> db" where
  "core d = d\<lparr>dead_letters := []\<rparr>"

text \<open>Each statement with the database clock of the call that ran it.\<close>

fun run_seq :: "(string \<times> stmt) list \<Rightarrow> db \<Rightarrow> string + db" where
  "run_seq [] d = Inr d"
| "run_seq ((clk, s) # css) d = sbind (exec_stmt clk s d) (\<lambda>(d', n). run_seq css d')"

lemma run_seq_append: "run_seq (xs @ ys) d = sbind (run_seq xs d) (run_seq ys)"
proof (induction xs arbitrary: d)
  case (Cons x xs)
  obtain clk s where x: "x = (clk, s)" by fastforce
  show ?case by (cases "exec_stmt clk s d") (auto simp: x Cons)
qed simp

text \<open>The same when statements that break a constraint may be passed over.\<close>

fun run_events :: "bool \<Rightarrow> (string \<times> stmt) list \<Rightarrow> db \<Rightarrow> string + db" where
  "run_events skip [] d = Inr d"
| "run_events skip ((clk, s) # css) d = (case exec_stmt clk s d of
     Inr (d', n) \<Rightarrow> run_events skip css d'
   | Inl msg \<Rightarrow> if skip \<and> constraintFailure msg \<noteq> None then run_events skip css d else Inl msg)"

lemma run_events_unskipped [simp]: "run_events False css d = run_seq css d"
  by (induction css d rule: run_seq.induct) (auto split: sum.split)

lemma run_events_seq: "run_seq css d = Inr d' \<Longrightarrow> run_events skip css d = Inr d'"
  by (induction css d rule: run_seq.induct) (auto split: sum.splits)

lemma run_events_append: "run_events skip (xs @ ys) d = sbind (run_events skip xs d) (run_events skip ys)"
proof (induction xs arbitrary: d)
  case (Cons x xs)
  obtain clk s where x: "x = (clk, s)" by fastforce
  show ?case using Cons.IH by (cases "exec_stmt clk s d") (auto simp: x)
qed simp

fun is_event_stmt :: "stmt \<Rightarrow> bool" where
  "is_event_stmt (Sql_recordTry a b c e f) = False"
| "is_event_stmt (Sql_storeDocument a b c e f g h i) = False"
| "is_event_stmt s = (is_write s \<and> \<not> is_letter s)"

lemma event_stmt: "eventStatement dp e now = Inr s \<Longrightarrow> is_event_stmt s"
  by (cases e) (auto simp: sbind_eq_Inr)

lemma row_ops_core:
  "update_row check agents put_agents k guard f (core d) =
     sbind (update_row check agents put_agents k guard f d) (\<lambda>(d', n). Inr (core d', n))"
  "update_row check2 feedback put_feedback k2 guard2 f2 (core d) =
     sbind (update_row check2 feedback put_feedback k2 guard2 f2 d) (\<lambda>(d', n). Inr (core d', n))"
  "update_row check3 validations put_validations k3 guard3 f3 (core d) =
     sbind (update_row check3 validations put_validations k3 guard3 f3 d) (\<lambda>(d', n). Inr (core d', n))"
  "insert_row check agents put_agents fk k v (core d) =
     sbind (insert_row check agents put_agents fk k v d) (\<lambda>(d', n). Inr (core d', n))"
  "insert_row check2 feedback put_feedback fk k2 v2 (core d) =
     sbind (insert_row check2 feedback put_feedback fk k2 v2 d) (\<lambda>(d', n). Inr (core d', n))"
  "insert_row check3 validations put_validations fk k3 v3 (core d) =
     sbind (insert_row check3 validations put_validations fk k3 v3 d) (\<lambda>(d', n). Inr (core d', n))"
  by (auto simp: update_row_def insert_row_def core_def put_agents_def put_feedback_def put_validations_def
      split: option.split)

lemma core_fields [simp]:
  "agents (core d) = agents d" "agent_metadata (core d) = agent_metadata d" "feedback (core d) = feedback d"
  "responses (core d) = responses d" "validations (core d) = validations d"
  by (simp_all add: core_def)

lemma core_updates:
  "(core d)\<lparr>agent_metadata := m\<rparr> = core (d\<lparr>agent_metadata := m\<rparr>)"
  "(core d)\<lparr>responses := r\<rparr> = core (d\<lparr>responses := r\<rparr>)"
  by (simp_all add: core_def)

text \<open>An event's statement does not look at the dead letters.\<close>

lemma exec_stmt_core:
  assumes "is_event_stmt s"
  shows "exec_stmt clk s (core d) = sbind (exec_stmt clk s d) (\<lambda>(d', n). Inr (core d', n))"
proof (cases s)
  case (Sql_transferred owner ledger now a)
  then show ?thesis
    by (cases "update_row agent_check agents put_agents a (\<lambda>r. ledger_guard (a_transferred_ledger r) ledger) (set_owner owner ledger now) d")
      (auto simp: row_ops_core core_updates)
qed (use assms in \<open>auto simp: row_ops_core Let_def core_updates\<close>)

lemma run_batch_seq:
  assumes "\<forall>s \<in> set ss. is_event_stmt s"
  shows "run_batch (exec_stmt clk) ss d = Inr (d', ns) \<Longrightarrow> run_seq (map (Pair clk) ss) (core d) = Inr (core d')"
  using assms
proof (induction ss arbitrary: d ns)
  case (Cons s ss)
  then obtain d1 n ns' where "exec_stmt clk s d = Inr (d1, n)" "run_batch (exec_stmt clk) ss d1 = Inr (d', ns')"
    by (auto simp: sbind_eq_Inr)
  with Cons show ?case by (simp add: exec_stmt_core del: exec_stmt.simps)
qed simp

lemma letter_core:
  assumes "exec_stmt clk s d = Inr (d', n)" "is_letter s"
  shows "core d' = core d"
  using exec_stmt_letter [OF assms] by (auto simp: core_def add_dead_def)

lemma letters_kept: "kept_by is_letter (\<lambda>d. core d = x)"
  unfolding kept_by_def using letter_core by blast

section \<open>The pieces of \<open>writeEvents\<close>\<close>

definition infra_faults :: "env \<Rightarrow> bool" where
  "infra_faults env \<longleftrightarrow> (\<forall>t msg applied. e_fault env t = Some (msg, applied) \<longrightarrow> constraintFailure msg = None)"

lemma infra_faultsD: "infra_faults env \<Longrightarrow> msg \<in> fault_messages env \<Longrightarrow> constraintFailure msg = None"
  by (auto simp: infra_faults_def fault_messages_def)

fun packets_of :: "'sc sdk \<Rightarrow> contract_name \<Rightarrow> 'sc rpc_event list \<Rightarrow> event_packet list" where
  "packets_of sdk c [] = []"
| "packets_of sdk c (ev # evs) = (case interpret_contract sdk c ev of
     Parsed e \<Rightarrow> \<lparr>pk_id = ev_id ev, pk_contract = c, pk_data = e\<rparr> # packets_of sdk c evs | _ \<Rightarrow> packets_of sdk c evs)"

lemma deadLetter_core:
  "core (w_db w) = x \<Longrightarrow> wp (deadLetter env c why eid l d) (\<lambda>_ w'. core (w_db w') = x) (\<lambda>_ _. True) w"
proof -
  assume "core (w_db w) = x"
  then have "at_db (\<lambda>d. core d = x) (w_log w) 0 w" by (simp add: at_db_def)
  from keepsD [OF keeps_deadLetter [OF letters_kept] this] show ?thesis
    by (rule wp_mono) (auto simp: at_db_def)
qed

lemma interpret_events_core:
  "core (w_db w) = x \<Longrightarrow> wp (interpret_events env sdk c evs)
     (\<lambda>(ps, k) w'. ps = packets_of sdk c evs \<and> core (w_db w') = x) (\<lambda>_ _. True) w"
proof (induction evs arbitrary: w)
  case (Cons ev evs)
  have tail: "wp (abind (interpret_events env sdk c evs) (\<lambda>(ps, k). aret (f ps, g k)))
      (\<lambda>(ps, k) w'. ps = f (packets_of sdk c evs) \<and> core (w_db w') = x) (\<lambda>_ _. True) w'"
    if "core (w_db w') = x" for f g w'
    unfolding wp_abind by (rule wp_mono [OF Cons.IH [OF that]]) (auto simp: wp_rules)
  show ?case
  proof (cases "interpret_contract sdk c ev")
    case (Parsed e)
    with tail [OF Cons.prems, of "\<lambda>ps. \<lparr>pk_id = ev_id ev, pk_contract = c, pk_data = e\<rparr> # ps" "\<lambda>k. k"] show ?thesis by simp
  next
    case (Ignored why)
    with Cons show ?thesis by simp
  next
    case (Invalid why)
    then show ?thesis
      using tail [of _ "\<lambda>ps. ps" Suc] deadLetter_core [OF Cons.prems]
      by (simp add: wp_abind [of "deadLetter env c why' eid l d" for why' eid l d]) (rule wp_mono, assumption, auto)
  qed
qed (simp add: wp_rules)

lemma run_singly_seq:
  assumes faults: "infra_faults env" and evs: "\<forall>(p, s) \<in> set pss. is_event_stmt s"
  shows "core (w_db w) = x \<Longrightarrow> wp (run_singly env c skip pss changes skipped)
     (\<lambda>r w'. case r of Deferred _ _ \<Rightarrow> True
        | Finished _ _ \<Rightarrow> \<exists>css. map snd css = map snd pss \<and> run_events skip css x = Inr (core (w_db w'))) (\<lambda>_ _. True) w"
  using evs
proof (induction pss arbitrary: w x changes skipped)
  case Nil
  then show ?case by (simp add: wp_rules)
next
  case (Cons ps pss)
  obtain p s where ps: "ps = (p, s)" by fastforce
  let ?Q = "\<lambda>r w'. case r of Deferred _ _ \<Rightarrow> True
        | Finished _ _ \<Rightarrow> \<exists>css. map snd css = map snd (ps # pss) \<and> run_events skip css x = Inr (core (w_db w'))"
  have next_event: "wp (run_singly env c skip pss ch sk) ?Q (\<lambda>_ _. True) w'"
    if seq: "\<And>css. run_events skip ((clk, s) # css) x = run_events skip css (core (w_db w'))" for clk ch sk w'
  proof (rule wp_mono [OF Cons.IH [OF refl]], goal_cases)
    case 1
    then show ?case using Cons.prems(2) by simp
  next
    case (2 r w'')
    show ?case
    proof (cases r)
      case (Finished a b)
      with 2 obtain css where "map snd css = map snd pss" "run_events skip css (core (w_db w')) = Inr (core (w_db w''))" by auto
      with seq [of css] have "map snd ((clk, s) # css) = map snd (ps # pss) \<and> run_events skip ((clk, s) # css) x = Inr (core (w_db w''))"
        by (simp add: ps)
      then show ?thesis unfolding Finished singly.case by blast
    qed simp
  qed simp
  have run: "exec_stmt clk s x = sbind (exec_stmt clk s (w_db w)) (\<lambda>(d', n). Inr (core d', n))" for clk
    using exec_stmt_core [of s clk "w_db w"] Cons.prems ps by auto
  show ?case
    unfolding ps run_singly.simps wp_abind wp_atry stmt_run_def
  proof (rule wp_db_call, goal_cases)
    case (1 clk d n)
    then have "wp (run_singly env c skip pss (changes @ [Some n]) skipped) ?Q (\<lambda>_ _. True)
        (w\<lparr>w_db := d, w_tick := Suc (w_tick w)\<rparr>)"
      by (intro next_event [of clk]) (simp add: run del: exec_stmt.simps)
    from this [unfolded ps] infra_faultsD [OF faults] show ?case by (simp add: wp_rules)
  next
    case (2 clk msg)
    have "wp (deadLetter env c why eid l det) (\<lambda>_. wp (run_singly env c skip pss (changes @ [None]) (Suc skipped)) ?Q (\<lambda>_ _. True)) (\<lambda>_ _. True) (tick w)"
      if "skip" "constraintFailure msg \<noteq> None" for why eid l det
    proof (rule wp_mono [OF deadLetter_core [OF refl]])
      fix u and w' :: world assume "core (w_db w') = core (w_db (tick w))"
      then have "core (w_db w') = x" using Cons.prems(1) by simp
      then show "wp (run_singly env c skip pss (changes @ [None]) (Suc skipped)) ?Q (\<lambda>_ _. True) w'"
        using 2 that by (intro next_event [of clk]) (auto simp: run simp del: exec_stmt.simps)
    qed simp
    from this [unfolded ps] 2 show ?case by (auto simp: wp_rules wp_abind split: option.split)
  next
    case (3 msg)
    then show ?case using infra_faultsD [OF faults] by (simp add: wp_rules)
  qed
qed

lemma recordMissingParents_core:
  assumes "core (w_db w) = x"
  shows "wp (recordMissingParents env ps) (\<lambda>_ w'. core (w_db w') = x) (\<lambda>_ _. True) w"
proof -
  have "is_letter s" if "missingParentStatement p = Some s" for p s
    using that by (auto simp: missingParentStatement_def split: option.splits)
  then have "is_letter s" if "s \<in> set (List.map_filter missingParentStatement ps)" for s
    using that by (auto simp: List.map_filter_def)
  then have "keeps (at_db (\<lambda>d. core d = x) (w_log w) 0) (db_batch env (List.map_filter missingParentStatement ps))"
    by (rule keeps_db_batch [OF letters_kept])
  then have "keeps (at_db (\<lambda>d. core d = x) (w_log w) 0) (recordMissingParents env ps)"
    unfolding recordMissingParents_def Let_def by (auto split: sum.split intro!: keeps_intros)
  moreover have "at_db (\<lambda>d. core d = x) (w_log w) 0 w" using assms by (simp add: at_db_def)
  ultimately have "wp (recordMissingParents env ps) (\<lambda>_. at_db (\<lambda>d. core d = x) (w_log w) 0)
      (\<lambda>_. at_db (\<lambda>d. core d = x) (w_log w) 0) w"
    by (rule keepsD)
  then show ?thesis by (rule wp_mono) (auto simp: at_db_def)
qed

definition statements_of :: "env \<Rightarrow> string \<Rightarrow> event_packet list \<Rightarrow> string + stmt list" where
  "statements_of env now ps = smap (\<lambda>p. eventStatement (e_date env) (pk_data p) now) ps"

definition applied :: "bool \<Rightarrow> env \<Rightarrow> string \<Rightarrow> event_packet list \<Rightarrow> db \<Rightarrow> db \<Rightarrow> bool" where
  "applied skip env now ps x y \<longleftrightarrow> (\<exists>css. statements_of env now ps = Inr (map snd css) \<and> run_events skip css x = Inr y)"

lemma smap_append: "smap f (xs @ ys) = sbind (smap f xs) (\<lambda>as. sbind (smap f ys) (\<lambda>bs. Inr (as @ bs)))"
proof (induction xs)
  case Nil
  show ?case by (cases "smap f ys") auto
next
  case (Cons x xs)
  then show ?case by (cases "f x"; cases "smap f xs"; cases "smap f ys") auto
qed

lemma applied_append: "applied skip env now ps x y \<Longrightarrow> applied skip env now qs y z \<Longrightarrow> applied skip env now (ps @ qs) x z"
  unfolding applied_def statements_of_def
proof (elim exE conjE)
  fix css dss
  assume "smap (\<lambda>p. eventStatement (e_date env) (pk_data p) now) ps = Inr (map snd css)" "run_events skip css x = Inr y"
    "smap (\<lambda>p. eventStatement (e_date env) (pk_data p) now) qs = Inr (map snd dss)" "run_events skip dss y = Inr z"
  then show "\<exists>css. smap (\<lambda>p. eventStatement (e_date env) (pk_data p) now) (ps @ qs) = Inr (map snd css) \<and>
      run_events skip css x = Inr z"
    by (intro exI [of _ "css @ dss"]) (simp add: smap_append run_events_append)
qed

lemma write_chunk_seq:
  assumes faults: "infra_faults env" and x: "core (w_db w) = x"
  shows "wp (write_chunk env c skip now chunk processed skipped)
     (\<lambda>(p, s, deferred) w'. deferred \<or> applied skip env now chunk x (core (w_db w'))) (\<lambda>_ _. True) w"
proof (cases "smap (\<lambda>p. eventStatement (e_date env) (pk_data p) now) chunk")
  case (Inl e)
  then show ?thesis by (simp add: write_chunk_def wp_rules)
next
  case (Inr ss)
  have ev: "is_event_stmt s" if "s \<in> set ss" for s
    using smap_Inr_mem [OF Inr that] event_stmt by auto
  then have ev': "\<forall>(p, s) \<in> set (zip chunk ss). is_event_stmt s" by (auto dest: set_zip_rightD)
  have len: "map snd (zip chunk ss) = ss" using smap_length [OF Inr] by simp
  let ?Q = "\<lambda>(p, s, deferred) w'. deferred \<or> applied skip env now chunk x (core (w_db w'))"
  let ?finish = "\<lambda>outcome. case outcome of
         Deferred changes skipped' \<Rightarrow> aret (processed + length changes, skipped', True)
       | Finished changes skipped' \<Rightarrow>
           abind (recordMissingParents env (map fst (filter (\<lambda>(p, n). n = Some 0) (zip chunk changes)))) (\<lambda>missing.
             aret (processed + length (filter (\<lambda>n. n \<noteq> None) changes), skipped' + missing, False))"
  have final: "wp (?finish outcome) ?Q (\<lambda>_ _. True) w'"
    if "case outcome of Deferred _ _ \<Rightarrow> True | Finished _ _ \<Rightarrow> applied skip env now chunk x (core (w_db w'))" for outcome w'
  proof (cases outcome)
    case (Finished changes skipped')
    with that have "applied skip env now chunk x (core (w_db w'))" by simp
    then show ?thesis
      unfolding Finished singly.case wp_abind
      by (intro wp_mono [OF recordMissingParents_core [OF refl]]) (auto simp: wp_rules)
  qed (simp add: wp_rules)
  have singly: "wp (run_singly env c skip (zip chunk ss) [] skipped) (\<lambda>r. wp (?finish r) ?Q (\<lambda>_ _. True)) (\<lambda>_ _. True) w'"
    if "w_db w' = w_db w" for w'
  proof (rule wp_mono [OF run_singly_seq [OF faults ev', of w' x]])
    fix r and w'' :: world
    assume "case r of Deferred _ _ \<Rightarrow> True
        | Finished _ _ \<Rightarrow> \<exists>css. map snd css = map snd (zip chunk ss) \<and> run_events skip css x = Inr (core (w_db w''))"
    then show "wp (?finish r) ?Q (\<lambda>_ _. True) w''"
      by (intro final) (auto simp: applied_def statements_of_def Inr len split: singly.splits)
  qed (use that x in simp_all)
  have batch: "applied skip env now chunk x (core d)" if "run_batch (exec_stmt clk) ss (w_db w) = Inr (d, ns)" for clk d ns
    using run_batch_seq [of ss clk "w_db w" d ns] that ev x Inr
    by (auto simp: applied_def statements_of_def comp_def intro!: exI [of _ "map (Pair clk) ss"] run_events_seq)
  show ?thesis
    unfolding write_chunk_def Inr abind_pure wp_abind wp_atry db_batch_def
  proof (rule wp_db_call, goal_cases)
    case (1 clk d ns)
    then have "wp (?finish (Finished (map Some ns) skipped)) ?Q (\<lambda>_ _. True) (w\<lparr>w_db := d, w_tick := Suc (w_tick w)\<rparr>)"
      by (intro final) (simp add: batch)
    with infra_faultsD [OF faults] show ?case by (simp add: wp_rules)
  next
    case (2 clk msg)
    then show ?case using singly [of "tick w"] by (simp add: wp_rules)
  next
    case (3 msg)
    then show ?case using infra_faultsD [OF faults] by (simp add: wp_rules)
  qed
qed

lemma write_chunks_seq:
  assumes "infra_faults env"
  shows "core (w_db w) = x \<Longrightarrow> wp (write_chunks env c skip now ordered processed skipped)
     (\<lambda>(p, s, deferred) w'. deferred \<or> applied skip env now ordered x (core (w_db w'))) (\<lambda>_ _. True) w"
  using assms
proof (induction env c skip now ordered processed skipped arbitrary: w x rule: write_chunks.induct)
  case (1 env c skip now ordered processed skipped)
  show ?case
  proof (cases "ordered = []")
    case True
    have "applied skip env now [] x x" by (auto simp: applied_def statements_of_def)
    then show ?thesis using True 1 by (simp add: write_chunks.simps wp_rules)
  next
    case False
    let ?Q = "\<lambda>(p, s, deferred) w'. deferred \<or> applied skip env now ordered x (core (w_db w'))"
    have nf: "\<not> False" by simp
    have step: "wp (write_chunks env c skip now (drop BATCH_LIMIT ordered) p s) ?Q (\<lambda>_ _. True) w'"
      if "applied skip env now (take BATCH_LIMIT ordered) x (core (w_db w'))" for p s w'
    proof (rule wp_mono [OF 1(1) [OF False nf refl 1(3)]], goal_cases)
      case (1 r w'')
      then show ?case using applied_append [OF that, of "drop BATCH_LIMIT ordered"] by (cases r) auto
    qed simp
    have "wp (write_chunk env c skip now (take BATCH_LIMIT ordered) processed skipped)
        (\<lambda>r. wp (case r of (p, s, deferred) \<Rightarrow> if deferred then aret (p, s, True)
           else write_chunks env c skip now (drop BATCH_LIMIT ordered) p s) ?Q (\<lambda>_ _. True)) (\<lambda>_ _. True) w"
      by (rule wp_mono [OF write_chunk_seq [OF 1(3) 1(2)]]) (auto simp: wp_rules intro: step)
    then show ?thesis
      using False by (subst write_chunks.simps) (simp add: wp_abind)
  qed
qed

lemma writeEvents_seq:
  assumes "infra_faults env"
  shows "wp (writeEvents env sdk c evs skip)
     (\<lambda>(p, s, deferred) w'. deferred \<or>
        (\<exists>now. applied skip env now (parentsFirst (packets_of sdk c evs)) (core (w_db w)) (core (w_db w')))) (\<lambda>_ _. True) w"
  unfolding writeEvents_def wp_abind
proof (rule wp_mono [OF interpret_events_core [OF refl]], goal_cases)
  case (1 r w')
  obtain ps k where r: "r = (ps, k)" by fastforce
  with 1 have ps: "ps = packets_of sdk c evs" "core (w_db (tick w')) = core (w_db w)" by auto
  show ?case
    unfolding r prod.case wp_abind wp_date_now
    by (rule wp_mono [OF write_chunks_seq [OF assms ps(2)]]) (auto simp: ps)
qed simp

section \<open>Properties\<close>

text \<open>C9. When \<open>writeEvents\<close> returns without deferring, the tables are those reached by running the statement of every parsed event of the
  page once, registrations first and otherwise in chain order, whether the batch went through or was replayed one by one. Unless
  skipping is armed every statement succeeded, so no parsed event is missing; when it is armed (after five deferrals) exactly the
  statements that break a constraint in their turn are passed over and all others are applied. Only the dead letters may differ besides.\<close>

theorem write_events_applies_all:
  assumes "infra_faults env" "writeEvents env sdk c evs skip w = (Inr (processed, skipped, False), w')"
  shows "\<exists>now css. statements_of env now (parentsFirst (packets_of sdk c evs)) = Inr (map snd css) \<and>
     run_events skip css (core (w_db w)) = Inr (core (w_db w')) \<and>
     (\<not> skip \<longrightarrow> run_seq css (core (w_db w)) = Inr (core (w_db w')))"
  using wp_result [OF writeEvents_seq [OF assms(1)] assms(2)] by (cases skip) (auto simp: applied_def)

definition sample_unset :: "native rpc_event" where
  "sample_unset = sample_event\<lparr>ev_topic := Some [NStr ''agent_wallet_unset'', u32 9]\<rparr>"

definition sample_orphan :: "native rpc_event" where
  "sample_orphan = sample_event\<lparr>ev_topic := Some [NStr ''metadata_set'', u32 3, NStr ''k''], ev_value := NObj [(''value'', NBytes [118])]\<rparr>"

lemma sample_unset_parsed: "interpret_contract native_sdk Identity sample_unset = Parsed (AgentWalletUnset 9 sample_base)"
proof -
  have "id_ok 9" by (simp add: id_ok_def max_safe_def)
  then have "parseIdentityEventInner native_sdk sample_unset = Inr (Some (AgentWalletUnset 9 sample_base))"
    by (simp add: parseIdentityEventInner_def sample_unset_def sample_event_def native_sdk_def toSafeInteger_u32 id_ok_iff
        parse_identity_case_def event_base_def sample_base_def)
  then show ?thesis
    by (simp add: interpret_cases parse_event_def parseIdentityEvent_def catch_null_def) (simp add: sample_unset_def sample_event_def)
qed

lemma sample_orphan_parsed: "interpret_contract native_sdk Identity sample_orphan = Parsed (MetadataSet 3 ''k'' ''v'' sample_base)"
proof -
  have "id_ok 3" by (simp add: id_ok_def max_safe_def)
  moreover have "char_of (118 :: nat) = CHR ''v''" by code_simp
  ultimately have "parseIdentityEventInner native_sdk sample_orphan = Inr (Some (MetadataSet 3 ''k'' ''v'' sample_base))"
    by (simp add: parseIdentityEventInner_def sample_orphan_def sample_event_def native_sdk_def toSafeInteger_u32 id_ok_iff
        parse_identity_case_def event_base_def sample_base_def toText_def bytesToUtf8_def parseEventData_def getProp_def AGENT_WALLET_KEY_def)
  then show ?thesis
    by (simp add: interpret_cases parse_event_def parseIdentityEvent_def catch_null_def) (simp add: sample_orphan_def sample_event_def)
qed

definition sample_tables :: db where
  "sample_tables = (sample_db None)\<lparr>agents := [(9, (new_agent ''G'' [] False ''t'' 1 ''x'' ''t'')\<lparr>a_wallet := Some ''W''\<rparr>)]\<rparr>"

theorem write_events_applies_all_witness:
  "\<exists>w'. writeEvents sample_env native_sdk Identity [sample_unset, sample_orphan] True (sample_world sample_tables) = (Inr (1, 1, False), w') \<and>
     map_option a_wallet (map_of (agents (w_db w')) 9) = Some None \<and> length (dead_letters (w_db w')) = 1 \<and>
     (\<exists>now css. statements_of sample_env now (parentsFirst (packets_of native_sdk Identity [sample_unset, sample_orphan])) = Inr (map snd css) \<and>
        length css = 2 \<and> run_events True css (core sample_tables) = Inr (core (w_db w')))"
proof -
  let ?run = "writeEvents sample_env native_sdk Identity [sample_unset, sample_orphan] True (sample_world sample_tables)"
  have "fst ?run = Inr (1, 1, False) \<and> map_option a_wallet (map_of (agents (w_db (snd ?run))) 9) = Some None \<and> length (dead_letters (w_db (snd ?run))) = 1"
    by (simp add: writeEvents_def sample_unset_parsed sample_orphan_parsed parentsFirst_def is_registered_def write_chunks.simps write_chunk_def
        BATCH_LIMIT_def date_now_def act_defs db_batch_def db_call_def sample_env_def sample_world_def sample_db_def sample_tables_def
        update_row_def tick_def recordMissingParents_def missingParentStatement_def List.map_filter_def has_def recorded_def new_agent_def agent_check_def
        text_cap_def Db_Schema.set_wallet_def put_agents_def add_dead_def deadLetter_def stmt_run_def foreign_key_failed_def constraintFailure_def)
  then have run: "?run = (Inr (1, 1, False), snd ?run)" and touched: "map_option a_wallet (map_of (agents (w_db (snd ?run))) 9) = Some None"
    "length (dead_letters (w_db (snd ?run))) = 1"
    by (simp_all add: prod_eq_iff)
  have "infra_faults sample_env" by (simp add: infra_faults_def sample_env_def)
  from write_events_applies_all [OF this run] obtain now css
    where css: "statements_of sample_env now (parentsFirst (packets_of native_sdk Identity [sample_unset, sample_orphan])) = Inr (map snd css)"
      "run_events True css (core sample_tables) = Inr (core (w_db (snd ?run)))"
    by (auto simp: sample_world_def)
  moreover from css(1) have "length css = 2"
    by (auto simp: statements_of_def sample_unset_parsed sample_orphan_parsed parentsFirst_def is_registered_def)
  ultimately show ?thesis using run touched by blast
qed

end
