(* ===== verification/Uri.thy ===== *)
theory Uri
  imports Js_Runtime
begin

text \<open>
  \<open>webapp/apps/indexer/src/uri.ts\<close>: fetching the document behind an agent URI without reaching private networks.

  The platform functions the code calls are the fields of \<open>net\<close>: URL parsing, DNS (absent on Workers), \<open>fetch\<close>, JSON and
  text decoding, base64 and percent decoding. A fetch that rejects is \<open>None\<close>. A body is the list of what its reader
  returns, then end of stream or an error. \<open>fetchJson\<close> and \<open>resolveUri\<close> also return the requests they made, so that the
  lemmas can say that no request ever goes to a private, loopback or raw IP host.
\<close>

section \<open>Platform\<close>

record url =
  u_protocol :: string
  u_hostname :: string
  u_href :: string

datatype stream = End_Of_Stream | Stream_Error | Chunk "8 word list option" stream

record response =
  rs_status :: int
  rs_location :: "string option"
  rs_length :: "jsnum option" \<comment> \<open>\<open>Number(content-length)\<close>, \<open>None\<close> without the header\<close>
  rs_body :: "stream option"

record net =
  n_url :: "string \<Rightarrow> url option"
  n_url_relative :: "string \<Rightarrow> string \<Rightarrow> url option" \<comment> \<open>\<open>new URL(location, base)\<close>\<close>
  n_dns :: "(string \<Rightarrow> string \<Rightarrow> string list option) option"
  n_fetch :: "string \<Rightarrow> response option"
  n_json :: "string \<Rightarrow> native option"
  n_text :: "8 word list \<Rightarrow> string"
  n_atob :: "string \<Rightarrow> 8 word list option"
  n_unescape :: "string \<Rightarrow> string option" \<comment> \<open>\<open>decodeURIComponent\<close>\<close>

definition MAX_RESPONSE_BYTES :: nat where
  "MAX_RESPONSE_BYTES = 1048576"

definition IPFS_GATEWAYS :: "string list" where
  "IPFS_GATEWAYS = [''https://ipfs.io/ipfs/'', ''https://gateway.pinata.cloud/ipfs/'', ''https://dweb.link/ipfs/'']"

section \<open>Private hosts\<close>

fun split_on :: "char \<Rightarrow> string \<Rightarrow> string list" where
  "split_on c [] = [[]]"
| "split_on c (x # xs) = (if x = c then [] # split_on c xs
     else (case split_on c xs of [] \<Rightarrow> [[x]] | y # ys \<Rightarrow> (x # y) # ys))"

definition octet_text :: "string \<Rightarrow> bool" where
  "octet_text s \<longleftrightarrow> 1 \<le> length s \<and> length s \<le> 3 \<and> (\<forall>c \<in> set s. is_digit c)"

text \<open>The pattern \<^verbatim>\<open>^(\d{1,3})\.(\d{1,3})\.(\d{1,3})\.(\d{1,3})$\<close>, with the four numbers.\<close>

definition dotted_quad :: "string \<Rightarrow> (nat \<times> nat \<times> nat \<times> nat) option" where
  "dotted_quad s = (case split_on (CHR ''.'') s of
      [a, b, c, d] \<Rightarrow> if octet_text a \<and> octet_text b \<and> octet_text c \<and> octet_text d
        then Some (read_nat a, read_nat b, read_nat c, read_nat d) else None
    | _ \<Rightarrow> None)"

text \<open>The leftmost match of the same pattern anchored only at the end.\<close>

fun dotted_tail :: "string \<Rightarrow> string option" where
  "dotted_tail [] = None"
| "dotted_tail (c # cs) = (if dotted_quad (c # cs) \<noteq> None then Some (c # cs) else dotted_tail cs)"

definition hex_value :: "string \<Rightarrow> nat" where
  "hex_value s = val_of 16 (map (\<lambda>c. if is_digit c then code_of c - 48 else code_of c - 87) s)"

definition hex_group :: "string \<Rightarrow> bool" where
  "hex_group s \<longleftrightarrow> 1 \<le> length s \<and> length s \<le> 4 \<and>
     (\<forall>c \<in> set s. is_digit c \<or> (97 \<le> code_of c \<and> code_of c \<le> 102))"

text \<open>The pattern \<^verbatim>\<open>^::ffff:([0-9a-f]{1,4}):([0-9a-f]{1,4})$\<close>.\<close>

definition hex_mapped :: "string \<Rightarrow> (nat \<times> nat) option" where
  "hex_mapped s = (if startsWith s ''::ffff:'' then
      (case split_on (CHR '':'') (drop 7 s) of
         [h, l] \<Rightarrow> if hex_group h \<and> hex_group l then Some (hex_value h, hex_value l) else None
       | _ \<Rightarrow> None)
     else None)"

definition quad_text :: "nat \<Rightarrow> nat \<Rightarrow> nat \<Rightarrow> nat \<Rightarrow> string" where
  "quad_text a b c d = show_nat a @ ''.'' @ show_nat b @ ''.'' @ show_nat c @ ''.'' @ show_nat d"

definition private_quad :: "nat \<times> nat \<times> nat \<times> nat \<Rightarrow> bool" where
  "private_quad q = (case q of (a, b, c, d) \<Rightarrow>
     255 < a \<or> 255 < b \<or> 255 < c \<or> 255 < d \<or> a = 0 \<or> a = 10 \<or> a = 127 \<or> (a = 169 \<and> b = 254) \<or>
     (a = 172 \<and> 16 \<le> b \<and> b \<le> 31) \<or> (a = 192 \<and> b = 168) \<or> (a = 100 \<and> 64 \<le> b \<and> b \<le> 127) \<or> 224 \<le> a)"

text \<open>The body of \<open>isPrivateOrLoopbackHost\<close>, with its recursive calls as an argument.\<close>

definition host_private :: "(string \<Rightarrow> bool) \<Rightarrow> string \<Rightarrow> bool" where
  "host_private again hostname =
     (if hostname = [] then True
      else let lower = toLowerCase hostname in
        if lower = ''localhost'' \<or> endsWith lower ''.localhost'' then True
        else if endsWith lower ''.local'' \<or> endsWith lower ''.internal'' then True
        else let stripped = (if startsWith lower ''['' \<and> endsWith lower '']'' then butlast (tl lower) else lower) in
          if CHR '':'' \<in> set stripped \<and>
             (stripped = ''::1'' \<or> stripped = ''::'' \<or>
              startsWith stripped ''fe8'' \<or> startsWith stripped ''fe9'' \<or> startsWith stripped ''fea'' \<or> startsWith stripped ''feb'' \<or>
              startsWith stripped ''fc'' \<or> startsWith stripped ''fd'' \<or> startsWith stripped ''ff'' \<or>
              (case dotted_tail stripped of None \<Rightarrow> False | Some t \<Rightarrow> again t) \<or>
              (case hex_mapped stripped of None \<Rightarrow> False
               | Some (hi, lo) \<Rightarrow> again (quad_text (hi div 256 mod 256) (hi mod 256) (lo div 256 mod 256) (lo mod 256))))
          then True
          else (case dotted_quad stripped of None \<Rightarrow> False | Some q \<Rightarrow> private_quad q))"

text \<open>The recursive calls get a dotted quad, which has no colon, so one level is all there is
  (\<open>isPrivateOrLoopbackHost_rec\<close>).\<close>

definition isPrivateOrLoopbackHost :: "string \<Rightarrow> bool" where
  "isPrivateOrLoopbackHost = host_private (host_private (\<lambda>_. False))"

definition bare_ip :: "string \<Rightarrow> bool" where
  "bare_ip h \<longleftrightarrow> dotted_quad h \<noteq> None \<or> startsWith h ''[''"

definition dns_lookup :: "(string \<Rightarrow> string \<Rightarrow> string list option) \<Rightarrow> string \<Rightarrow> string list" where
  "dns_lookup dns h = (case dns h ''A'' of None \<Rightarrow> [] | Some ips \<Rightarrow> ips) @ (case dns h ''AAAA'' of None \<Rightarrow> [] | Some ips \<Rightarrow> ips)"

definition hostnameResolvesToPrivate :: "net \<Rightarrow> string \<Rightarrow> bool" where
  "hostnameResolvesToPrivate net h = (case n_dns net of
      None \<Rightarrow> False
    | Some dns \<Rightarrow> let ips = dns_lookup dns h in ips \<noteq> [] \<and> (\<exists>ip \<in> set ips. isPrivateOrLoopbackHost ip))"

section \<open>Fetching\<close>

fun read_stream :: "nat \<Rightarrow> stream \<Rightarrow> 8 word list list \<Rightarrow> nat \<Rightarrow> string + 8 word list option" where
  "read_stream maxBytes End_Of_Stream chunks received = Inr (Some (concat chunks))"
| "read_stream maxBytes Stream_Error chunks received = Inl ''read failed''"
| "read_stream maxBytes (Chunk None rest) chunks received = read_stream maxBytes rest chunks received"
| "read_stream maxBytes (Chunk (Some value) rest) chunks received =
     (if maxBytes < received + length value then Inr None
      else read_stream maxBytes rest (chunks @ [value]) (received + length value))"

definition readBodyWithLimit :: "response \<Rightarrow> nat \<Rightarrow> string + 8 word list option" where
  "readBodyWithLimit response maxBytes =
     (if (case rs_length response of Some (JFin n) \<Rightarrow> of_nat maxBytes < n | _ \<Rightarrow> False) then Inr None
      else (case rs_body response of None \<Rightarrow> Inr None | Some body \<Rightarrow> read_stream maxBytes body [] 0))"

text \<open>The document of a response that is \<open>ok\<close>; an error inside the \<open>try\<close> of \<open>fetchJson\<close> is \<open>null\<close> as well.\<close>

definition read_json :: "net \<Rightarrow> response \<Rightarrow> native option" where
  "read_json net response =
     (if \<not> (200 \<le> rs_status response \<and> rs_status response < 300) then None
      else (case readBodyWithLimit response MAX_RESPONSE_BYTES of
          Inr (Some body) \<Rightarrow> n_json net (n_text net body)
        | _ \<Rightarrow> None))"

definition host_ok :: "net \<Rightarrow> url \<Rightarrow> bool" where
  "host_ok net u \<longleftrightarrow> (u_protocol u = ''http:'' \<or> u_protocol u = ''https:'') \<and>
     \<not> isPrivateOrLoopbackHost (u_hostname u) \<and> \<not> bare_ip (u_hostname u) \<and> \<not> hostnameResolvesToPrivate net (u_hostname u)"

definition fetchJson :: "net \<Rightarrow> string \<Rightarrow> native option \<times> url list" where
  "fetchJson net url = (case n_url net url of
      None \<Rightarrow> (None, [])
    | Some parsed \<Rightarrow>
        if \<not> host_ok net parsed then (None, [])
        else (case n_fetch net url of
            None \<Rightarrow> (None, [parsed])
          | Some response \<Rightarrow>
              if 300 \<le> rs_status response \<and> rs_status response < 400 then
                (case rs_location response of
                   None \<Rightarrow> (None, [parsed])
                 | Some location \<Rightarrow>
                     if location = [] then (None, [parsed])
                     else (case n_url_relative net location url of
                         None \<Rightarrow> (None, [parsed])
                       | Some redirectUrl \<Rightarrow>
                           if \<not> host_ok net redirectUrl then (None, [parsed])
                           else (case n_fetch net (u_href redirectUrl) of
                               None \<Rightarrow> (None, [parsed, redirectUrl])
                             | Some redirectResponse \<Rightarrow> (read_json net redirectResponse, [parsed, redirectUrl]))))
              else (read_json net response, [parsed])))"

section \<open>Documents\<close>

definition parseDataUri :: "net \<Rightarrow> string \<Rightarrow> native option" where
  "parseDataUri net uri =
     (if MAX_RESPONSE_BYTES < length uri then None
      else (case indexOf uri (CHR '','') of
          None \<Rightarrow> None
        | Some comma \<Rightarrow>
            let header = toLowerCase (take (comma - 5) (drop 5 uri)); payload = drop (comma + 1) uri
            in if \<not> has_substring header ''json'' then None
               else if has_substring header ''base64'' then
                 (case n_atob net payload of None \<Rightarrow> None
                  | Some bytes \<Rightarrow> if MAX_RESPONSE_BYTES < length bytes then None else n_json net (n_text net bytes))
               else (case n_unescape net payload of None \<Rightarrow> None
                  | Some decoded \<Rightarrow> if MAX_RESPONSE_BYTES < length decoded then None else n_json net decoded)))"

definition normalizeIpfsPath :: "string \<Rightarrow> string option" where
  "normalizeIpfsPath uri =
     (let raw = drop 7 uri;
          raw' = (if startsWith raw ''ipfs/'' then drop 5 raw else raw);
          path = dropWhile (\<lambda>c. c = CHR ''/'') raw'
      in if path = [] then None else Some path)"

fun try_gateways :: "net \<Rightarrow> string \<Rightarrow> string list \<Rightarrow> native option \<times> url list" where
  "try_gateways net path [] = (None, [])"
| "try_gateways net path (g # gs) =
     (case fetchJson net (g @ path) of (data, reqs) \<Rightarrow>
        (case data of
           Some d \<Rightarrow> if is_nullish d then (case try_gateways net path gs of (r, reqs') \<Rightarrow> (r, reqs @ reqs')) else (Some d, reqs)
         | None \<Rightarrow> (case try_gateways net path gs of (r, reqs') \<Rightarrow> (r, reqs @ reqs'))))"

definition resolveUri :: "net \<Rightarrow> string \<Rightarrow> native option \<times> url list" where
  "resolveUri net uri =
     (if uri = [] then (None, [])
      else if startsWith uri ''data:'' then (parseDataUri net uri, [])
      else if \<not> startsWith uri ''ipfs://'' then fetchJson net uri
      else (case normalizeIpfsPath uri of None \<Rightarrow> (None, []) | Some path \<Rightarrow> try_gateways net path IPFS_GATEWAYS))"

subsection \<open>Fields of a document\<close>

definition extractX402 :: "native \<Rightarrow> bool" where
  "extractX402 d = (case d of NObj _ \<Rightarrow> getProp d ''x402'' = NBool True | _ \<Rightarrow> False)"

definition extractMpp :: "native \<Rightarrow> bool" where
  "extractMpp d = (case d of NObj _ \<Rightarrow> getProp d ''mpp'' = NBool True | _ \<Rightarrow> False)"

definition nonempty_text :: "native \<Rightarrow> bool" where
  "nonempty_text v = (case v of NStr s \<Rightarrow> s \<noteq> [] | _ \<Rightarrow> False)"

definition extractSupportedTrust :: "native \<Rightarrow> native list" where
  "extractSupportedTrust d = (case d of
      NObj _ \<Rightarrow> (case getProp d ''supportedTrust'' of NArr trust \<Rightarrow> filter nonempty_text trust | _ \<Rightarrow> [])
    | _ \<Rightarrow> [])"

definition coalesce :: "native list \<Rightarrow> native" where
  "coalesce vs = (case filter (\<lambda>v. \<not> is_nullish v) vs of [] \<Rightarrow> last vs | v # _ \<Rightarrow> v)"

definition text_or_undefined :: "native \<Rightarrow> native" where
  "text_or_undefined v = (case v of NStr s \<Rightarrow> NStr s | _ \<Rightarrow> NUndef)"

definition legacy_service :: "native \<Rightarrow> native" where
  "legacy_service ep = NObj
     [(''name'', coalesce [getProp ep ''type'', getProp ep ''name'', NStr ''unknown'']),
      (''endpoint'', coalesce [getProp ep ''url'', getProp ep ''endpoint'', NStr []]),
      (''version'', coalesce [getProp ep ''version'', NUndef]),
      (''description'', text_or_undefined (getProp ep ''description'')),
      (''inputExample'', text_or_undefined (getProp ep ''inputExample''))]"

definition is_object :: "native \<Rightarrow> bool" where
  "is_object v = (case v of NObj _ \<Rightarrow> True | NArr _ \<Rightarrow> True | NBytes _ \<Rightarrow> True | _ \<Rightarrow> False)"

definition has_endpoint :: "native \<Rightarrow> bool" where
  "has_endpoint v = (case v of NObj fs \<Rightarrow> map_of fs ''endpoint'' \<noteq> None | _ \<Rightarrow> False)"

definition extractServices :: "native \<Rightarrow> native list" where
  "extractServices d = (case d of
      NObj _ \<Rightarrow>
        (case getProp d ''services'' of
           NArr ss \<Rightarrow> filter has_endpoint ss
         | _ \<Rightarrow> (case getProp d ''endpoints'' of
             NArr es \<Rightarrow> filter (\<lambda>s. nonempty_text (getProp s ''endpoint'')) (map legacy_service (filter is_object es))
           | _ \<Rightarrow> []))
    | _ \<Rightarrow> [])"

section \<open>The host check\<close>

lemma split_on_not_Nil [simp]: "split_on c s \<noteq> []"
  by (induction s) (auto split: list.split)

lemma split_on_set: "x \<in> set s \<Longrightarrow> x = c \<or> (\<exists>p \<in> set (split_on c s). x \<in> set p)"
proof (induction s)
  case (Cons y ys)
  show ?case
  proof (cases "y = c")
    case False
    obtain p ps where "split_on c ys = p # ps" using split_on_not_Nil [of c ys] by (cases "split_on c ys") auto
    with Cons False show ?thesis by auto
  qed (use Cons in auto)
qed simp

lemma split_on_none: "c \<notin> set s \<Longrightarrow> split_on c s = [s]"
  by (induction s) auto

lemma split_on_append: "c \<notin> set s \<Longrightarrow> split_on c (s @ c # t) = s # split_on c t"
  by (induction s) auto

lemma octet_show: "n < 1000 \<Longrightarrow> octet_text (show_nat n)"
proof -
  assume n: "n < 1000"
  have "length (show_nat n) \<le> 3"
  proof -
    have "n div 10 < 100" "n div 10 div 10 < 10" using n by auto
    then show ?thesis
      by (subst show_nat.simps, subst show_nat.simps, subst show_nat.simps) simp
  qed
  moreover have "1 \<le> length (show_nat n)" using show_nat_not_Nil [of n] by (cases "show_nat n") auto
  ultimately show ?thesis using show_nat_digits by (auto simp: octet_text_def)
qed

lemma digit_not_dot: "is_digit c \<Longrightarrow> c \<noteq> CHR ''.'' \<and> c \<noteq> CHR '':'' \<and> c \<noteq> CHR ''['' \<and> c \<noteq> CHR '']''"
  by (auto simp: is_digit_def code_of_def)

lemma dotted_quad_text:
  assumes "a < 1000" "b < 1000" "c < 1000" "d < 1000"
  shows "dotted_quad (quad_text a b c d) = Some (a, b, c, d)"
proof -
  have no_dot: "CHR ''.'' \<notin> set (show_nat n)" for n
    using show_nat_digits digit_not_dot by blast
  have "split_on (CHR ''.'') (quad_text a b c d) = [show_nat a, show_nat b, show_nat c, show_nat d]"
    by (simp add: quad_text_def split_on_append [OF no_dot] split_on_none [OF no_dot])
  then show ?thesis using assms by (simp add: dotted_quad_def octet_show read_show_nat)
qed

lemma dotted_quad_chars: "dotted_quad s = Some q \<Longrightarrow> x \<in> set s \<Longrightarrow> is_digit x \<or> x = CHR ''.''"
  using split_on_set [of x s "CHR ''.''"]
  by (auto simp: dotted_quad_def octet_text_def split: list.splits if_splits)

lemma dotted_tail_quad: "dotted_tail s = Some t \<Longrightarrow> \<exists>q. dotted_quad t = Some q"
  by (induction s) (auto split: if_splits)

lemma lower_plain: "\<forall>x \<in> set s. is_digit x \<or> x = CHR ''.'' \<Longrightarrow> toLowerCase s = s"
  by (induction s) (auto simp: toLowerCase_def lower_char_def is_digit_def code_of_def)

text \<open>On the text of a dotted quad the check is the range test, whatever the recursive call is.\<close>

lemma host_private_quad:
  assumes "dotted_quad s = Some q"
  shows "host_private f s = private_quad q"
proof -
  have plain: "\<forall>x \<in> set s. is_digit x \<or> x = CHR ''.''" using dotted_quad_chars [OF assms] by blast
  have ne: "s \<noteq> []" using assms by (auto simp: dotted_quad_def)
  have no: "CHR '':'' \<notin> set s" "CHR ''l'' \<notin> set s" "CHR ''['' \<notin> set s"
    using plain by (auto simp: is_digit_def code_of_def)
  have "\<not> endsWith s t" if "CHR ''l'' \<in> set t" for t
    using no(2) that by (auto simp: suffix_def)
  moreover have "s \<noteq> ''localhost''" using no(2) by auto
  moreover have "\<not> startsWith s ''[''" using no(3) by (auto simp: prefix_def)
  ultimately show ?thesis
    using assms ne no(1) by (simp add: host_private_def lower_plain [OF plain] Let_def)
qed

lemma isPrivateOrLoopbackHost_quad: "dotted_quad s = Some q \<Longrightarrow> isPrivateOrLoopbackHost s = private_quad q"
  unfolding isPrivateOrLoopbackHost_def by (rule host_private_quad)

text \<open>The IPv4-mapped IPv6 spelling is checked like the quad itself.\<close>

lemma dotted_quad_colon: "CHR '':'' \<in> set s \<Longrightarrow> dotted_quad s = None"
  using dotted_quad_chars [of s _ "CHR '':''"] by (cases "dotted_quad s") (auto simp: is_digit_def code_of_def)

lemma dotted_tail_mapped: "dotted_quad q = Some x \<Longrightarrow> dotted_tail (''::ffff:'' @ q) = Some q"
proof -
  assume q: "dotted_quad q = Some x"
  then have "q \<noteq> []" by (auto simp: dotted_quad_def)
  then have "dotted_tail q = Some q" using q by (cases q) auto
  then show ?thesis by (simp add: dotted_quad_colon)
qed

lemma isPrivateOrLoopbackHost_mapped:
  assumes "dotted_quad q = Some x"
  shows "isPrivateOrLoopbackHost (''::ffff:'' @ q) = private_quad x"
proof -
  define h where "h = ''::ffff:'' @ q"
  have plain: "\<forall>c \<in> set q. is_digit c \<or> c = CHR ''.''" using dotted_quad_chars [OF assms] by blast
  have lower: "toLowerCase h = h"
    using lower_plain [OF plain] by (simp add: h_def toLowerCase_def lower_char_def code_of_def)
  have no: "CHR ''l'' \<notin> set q" "CHR '':'' \<notin> set q" using plain by (auto simp: is_digit_def code_of_def)
  have ends: "\<not> endsWith h t" if "CHR ''l'' \<in> set t" for t
  proof
    assume "endsWith h t"
    then have "CHR ''l'' \<in> set h" by (rule subsetD [OF set_mono_suffix that])
    with no(1) show False by (simp add: h_def)
  qed
  have shape: "h \<noteq> []" "h \<noteq> ''localhost''" "\<not> startsWith h ''[''" "CHR '':'' \<in> set h" by (simp_all add: h_def)
  have starts: "h \<noteq> ''::1''" "h \<noteq> ''::''" "\<not> startsWith h ''fe8''" "\<not> startsWith h ''fe9''" "\<not> startsWith h ''fea''"
    "\<not> startsWith h ''feb''" "\<not> startsWith h ''fc''" "\<not> startsWith h ''fd''" "\<not> startsWith h ''ff''"
    by (simp_all add: h_def)
  have tail: "dotted_tail h = Some q" unfolding h_def by (rule dotted_tail_mapped [OF assms])
  have quad: "dotted_quad h = None" using shape(4) by (rule dotted_quad_colon)
  have hex: "hex_mapped h = None"
    by (simp add: h_def hex_mapped_def split_on_none [OF no(2)])
  have "host_private again h = again q" for again
    unfolding host_private_def [of again h]
    by (simp add: lower ends shape starts tail quad hex)
  then show ?thesis
    unfolding isPrivateOrLoopbackHost_def h_def [symmetric] by (simp add: host_private_quad [OF assms])
qed

text \<open>The recursion of the source.\<close>

lemma isPrivateOrLoopbackHost_rec: "isPrivateOrLoopbackHost h = host_private isPrivateOrLoopbackHost h"
proof -
  have tail: "host_private f t = isPrivateOrLoopbackHost t" if "dotted_tail s = Some t" for s t f
    using dotted_tail_quad [OF that] host_private_quad isPrivateOrLoopbackHost_quad by metis
  have quad: "host_private f (quad_text (a mod 256) (b mod 256) (c mod 256) (d mod 256)) =
      isPrivateOrLoopbackHost (quad_text (a mod 256) (b mod 256) (c mod 256) (d mod 256))" for a b c d f
  proof -
    have "dotted_quad (quad_text (a mod 256) (b mod 256) (c mod 256) (d mod 256)) =
        Some (a mod 256, b mod 256, c mod 256, d mod 256)"
      by (rule dotted_quad_text) (simp_all add: order.strict_trans [OF mod_less_divisor])
    then show ?thesis using host_private_quad isPrivateOrLoopbackHost_quad by metis
  qed
  have "host_private (host_private (\<lambda>_. False)) h = host_private isPrivateOrLoopbackHost h"
    unfolding host_private_def [of "host_private (\<lambda>_. False)"] host_private_def [of isPrivateOrLoopbackHost]
    using tail quad by (auto simp: Let_def split: option.split)
  then show ?thesis by (simp add: isPrivateOrLoopbackHost_def)
qed

section \<open>Reserved address blocks\<close>

definition ipv4_value :: "nat \<Rightarrow> nat \<Rightarrow> nat \<Rightarrow> nat \<Rightarrow> nat" where
  "ipv4_value a b c d = ((a * 256 + b) * 256 + c) * 256 + d"

definition in_block :: "nat \<Rightarrow> nat \<times> nat \<Rightarrow> bool" where
  "in_block addr blk = (addr div 2 ^ (32 - snd blk) = fst blk div 2 ^ (32 - snd blk))"

text \<open>The non-public IPv4 blocks, as network address and prefix length.\<close>

definition reserved_blocks :: "(nat \<times> nat) list" where
  "reserved_blocks =
     [(ipv4_value 0 0 0 0, 8), (ipv4_value 10 0 0 0, 8), (ipv4_value 127 0 0 0, 8), (ipv4_value 169 254 0 0, 16),
      (ipv4_value 172 16 0 0, 12), (ipv4_value 192 168 0 0, 16), (ipv4_value 100 64 0 0, 10), (ipv4_value 224 0 0 0, 3)]"

lemma ipv4_prefix:
  assumes "a < 256" "b < 256" "c < 256" "d < 256"
  shows "ipv4_value a b c d div 2 ^ 24 = a" "ipv4_value a b c d div 2 ^ 16 = a * 256 + b"
    and "ipv4_value a b c d div 2 ^ 20 = a * 16 + b div 16" "ipv4_value a b c d div 2 ^ 22 = a * 4 + b div 64"
    and "ipv4_value a b c d div 2 ^ 29 = a div 32"
proof -
  have low: "ipv4_value a b c d div 2 ^ 16 = a * 256 + b"
  proof -
    have "ipv4_value a b c d = (a * 256 + b) * 2 ^ 16 + (c * 256 + d)" by (simp add: ipv4_value_def)
    moreover have "c * 256 + d < 2 ^ 16" using assms by simp
    ultimately show ?thesis by simp
  qed
  then show "ipv4_value a b c d div 2 ^ 16 = a * 256 + b" .
  have split: "n div 2 ^ (16 + k) = n div 2 ^ 16 div 2 ^ k" for n k :: nat
    by (simp add: power_add div_mult2_eq)
  show "ipv4_value a b c d div 2 ^ 24 = a" using split [of _ 8] low assms by simp
  show "ipv4_value a b c d div 2 ^ 29 = a div 32"
    using split [of _ 13] low assms by (simp add: div_mult2_eq [of _ 256 32, simplified])
  have "(a * 256 + b) div 16 = a * 16 + b div 16" "(a * 256 + b) div 64 = a * 4 + b div 64"
    using div_mult_self3 [of 16 "a * 16" b] div_mult_self3 [of 64 "a * 4" b] by (simp_all add: mult.commute mult.assoc)
  then show "ipv4_value a b c d div 2 ^ 20 = a * 16 + b div 16" "ipv4_value a b c d div 2 ^ 22 = a * 4 + b div 64"
    using split [of _ 4] split [of _ 6] low by simp_all
qed

lemma digits_unique: "e < n \<Longrightarrow> f < n \<Longrightarrow> x * n + e = y * n + f \<longleftrightarrow> x = y \<and> e = f" for x y :: nat
proof
  assume less: "e < n" "f < n" and eq: "x * n + e = y * n + f"
  have "(x * n + e) div n = x" "(y * n + f) div n = y" using less by simp_all
  with eq have "x = y" by simp
  with eq show "x = y \<and> e = f" by simp
qed simp

lemma in_block_iff:
  assumes "a < 256" "b < 256" "c < 256" "d < 256" "p < 256" "q < 256"
  shows "in_block (ipv4_value a b c d) (ipv4_value p q 0 0, 8) \<longleftrightarrow> a = p"
    and "in_block (ipv4_value a b c d) (ipv4_value p q 0 0, 16) \<longleftrightarrow> a * 256 + b = p * 256 + q"
    and "in_block (ipv4_value a b c d) (ipv4_value p q 0 0, 12) \<longleftrightarrow> a * 16 + b div 16 = p * 16 + q div 16"
    and "in_block (ipv4_value a b c d) (ipv4_value p q 0 0, 10) \<longleftrightarrow> a * 4 + b div 64 = p * 4 + q div 64"
    and "in_block (ipv4_value a b c d) (ipv4_value p q 0 0, 3) \<longleftrightarrow> a div 32 = p div 32"
proof -
  have shift: "(32::nat) - 8 = 24" "(32::nat) - 16 = 16" "(32::nat) - 12 = 20" "(32::nat) - 10 = 22" "(32::nat) - 3 = 29"
    by simp_all
  have zero: "(0::nat) < 256" by simp
  note pre = ipv4_prefix [OF assms(1-4)] ipv4_prefix [OF assms(5,6) zero zero]
  show "in_block (ipv4_value a b c d) (ipv4_value p q 0 0, 8) \<longleftrightarrow> a = p"
    and "in_block (ipv4_value a b c d) (ipv4_value p q 0 0, 16) \<longleftrightarrow> a * 256 + b = p * 256 + q"
    and "in_block (ipv4_value a b c d) (ipv4_value p q 0 0, 12) \<longleftrightarrow> a * 16 + b div 16 = p * 16 + q div 16"
    and "in_block (ipv4_value a b c d) (ipv4_value p q 0 0, 10) \<longleftrightarrow> a * 4 + b div 64 = p * 4 + q div 64"
    and "in_block (ipv4_value a b c d) (ipv4_value p q 0 0, 3) \<longleftrightarrow> a div 32 = p div 32"
    unfolding in_block_def fst_conv snd_conv shift pre by (rule refl)+
qed

lemma private_quad_blocks:
  assumes "a < 256" "b < 256" "c < 256" "d < 256"
  shows "private_quad (a, b, c, d) \<longleftrightarrow> (\<exists>blk \<in> set reserved_blocks. in_block (ipv4_value a b c d) blk)"
proof -
  have "(\<exists>blk \<in> set reserved_blocks. in_block (ipv4_value a b c d) blk) \<longleftrightarrow>
      a = 0 \<or> a = 10 \<or> a = 127 \<or> a * 256 + b = 169 * 256 + 254 \<or> a * 16 + b div 16 = 172 * 16 + 16 div 16 \<or>
      a * 256 + b = 192 * 256 + 168 \<or> a * 4 + b div 64 = 100 * 4 + 64 div 64 \<or> a div 32 = 224 div 32"
    unfolding reserved_blocks_def by (simp only: list.set bex_simps in_block_iff [OF assms])
      (simp only: in_block_iff [OF assms] numeral_less_iff zero_less_numeral simp_thms semiring_norm)
  moreover have "a * 256 + b = 169 * 256 + 254 \<longleftrightarrow> a = 169 \<and> b = 254" "a * 256 + b = 192 * 256 + 168 \<longleftrightarrow> a = 192 \<and> b = 168"
    using digits_unique [OF assms(2), of 254 a 169] digits_unique [OF assms(2), of 168 a 192] by simp_all
  moreover have "a * 16 + b div 16 = 172 * 16 + 16 div 16 \<longleftrightarrow> a = 172 \<and> b div 16 = 1"
      "a * 4 + b div 64 = 100 * 4 + 64 div 64 \<longleftrightarrow> a = 100 \<and> b div 64 = 1"
    using assms(2) digits_unique [of "b div 16" 16 1 a 172] digits_unique [of "b div 64" 4 1 a 100]
    by (simp_all add: less_mult_imp_div_less)
  moreover have "b div 16 = 1 \<longleftrightarrow> 16 \<le> b \<and> b \<le> 31" "b div 64 = 1 \<longleftrightarrow> 64 \<le> b \<and> b \<le> 127" by auto
  moreover have "a div 32 = 224 div 32 \<longleftrightarrow> 224 \<le> a"
    using assms(1) by auto
  ultimately show ?thesis using assms by (auto simp: private_quad_def)
qed

section \<open>Requests\<close>

definition requests :: "'a \<times> url list \<Rightarrow> url list" where
  "requests r = snd r"

lemma fetchJson_requests: "(\<forall>u \<in> set (requests (fetchJson net url)). host_ok net u) \<and> length (requests (fetchJson net url)) \<le> 2"
  by (auto simp: requests_def fetchJson_def split: option.split)

lemma try_gateways_requests:
  "(\<forall>u \<in> set (requests (try_gateways net path gs)). host_ok net u) \<and> length (requests (try_gateways net path gs)) \<le> 2 * length gs"
proof (induction gs)
  case Nil
  show ?case by (simp add: requests_def)
next
  case (Cons g gs)
  obtain r reqs where f: "fetchJson net (g @ path) = (r, reqs)" by fastforce
  obtain r' reqs' where t: "try_gateways net path gs = (r', reqs')" by fastforce
  have "requests (try_gateways net path (g # gs)) = reqs @ reqs' \<or> requests (try_gateways net path (g # gs)) = reqs"
    by (auto simp: requests_def f t split: option.split)
  moreover have "(\<forall>u \<in> set reqs. host_ok net u) \<and> length reqs \<le> 2"
    using fetchJson_requests [of net "g @ path"] f by (simp add: requests_def)
  moreover have "(\<forall>u \<in> set reqs'. host_ok net u) \<and> length reqs' \<le> 2 * length gs"
    using Cons t by (simp add: requests_def)
  ultimately show ?case by auto
qed

lemma resolveUri_requests:
  "(\<forall>u \<in> set (requests (resolveUri net uri)). host_ok net u) \<and> length (requests (resolveUri net uri)) \<le> 6"
  using fetchJson_requests [of net uri] try_gateways_requests [of net _ IPFS_GATEWAYS]
  by (auto simp: resolveUri_def IPFS_GATEWAYS_def requests_def split: option.split)

text \<open>What a stream delivers up to its end; \<open>None\<close> when it breaks off with an error.\<close>

fun stream_bytes :: "stream \<Rightarrow> 8 word list option" where
  "stream_bytes End_Of_Stream = Some []"
| "stream_bytes Stream_Error = None"
| "stream_bytes (Chunk None rest) = stream_bytes rest"
| "stream_bytes (Chunk (Some bytes) rest) = map_option (\<lambda>bs. bytes @ bs) (stream_bytes rest)"

lemma read_stream_iff:
  "length (concat chunks) = n \<Longrightarrow> n \<le> m \<Longrightarrow>
   read_stream m st chunks n = Inr (Some body) \<longleftrightarrow>
     (\<exists>bs. stream_bytes st = Some bs \<and> body = concat chunks @ bs \<and> length body \<le> m)"
proof (induction m st chunks n rule: read_stream.induct)
  case (4 m bytes rest chunks n)
  show ?case
  proof (cases "m < n + length bytes")
    case True
    with 4 show ?thesis by auto
  next
    case False
    with 4 show ?thesis by auto
  qed
qed auto

lemma readBodyWithLimit_iff:
  "readBodyWithLimit response m = Inr (Some body) \<longleftrightarrow>
     \<not> (\<exists>n. rs_length response = Some (JFin n) \<and> of_nat m < n) \<and>
     (\<exists>st. rs_body response = Some st \<and> stream_bytes st = Some body \<and> length body \<le> m)"
  by (auto simp: readBodyWithLimit_def read_stream_iff split: option.splits jsnum.splits)

section \<open>Properties\<close>

text \<open>On an IPv4 literal the host check is exact: for every dotted quad of four bytes it answers true if and only if
  the address lies in one of the reserved blocks 0/8, 10/8, 127/8, 169.254/16, 172.16/12, 192.168/16, 100.64/10 and 224/3,
  and the IPv4-mapped IPv6 spelling \<open>::ffff:a.b.c.d\<close> gets the same answer.\<close>

theorem private_ipv4_exact:
  assumes "a < 256" "b < 256" "c < 256" "d < 256"
  shows "(isPrivateOrLoopbackHost (quad_text a b c d) \<longleftrightarrow> (\<exists>blk \<in> set reserved_blocks. in_block (ipv4_value a b c d) blk)) \<and>
     (isPrivateOrLoopbackHost (''::ffff:'' @ quad_text a b c d) \<longleftrightarrow> isPrivateOrLoopbackHost (quad_text a b c d))"
proof -
  have "dotted_quad (quad_text a b c d) = Some (a, b, c, d)"
    using assms by (intro dotted_quad_text) simp_all
  then show ?thesis
    using private_quad_blocks [OF assms] isPrivateOrLoopbackHost_quad isPrivateOrLoopbackHost_mapped by metis
qed

theorem private_ipv4_exact_witness:
  "isPrivateOrLoopbackHost (quad_text 169 254 169 254) \<and> \<not> isPrivateOrLoopbackHost (quad_text 8 8 8 8)"
  using private_ipv4_exact [of 169 254 169 254] private_ipv4_exact [of 8 8 8 8]
  by (simp add: private_quad_blocks [symmetric] private_quad_def)

text \<open>C4. No request leaves for a private network: every URL that resolving an agent URI requests, redirect targets
  included, is http(s), and its host is neither a private or loopback name or address, nor a raw IP, nor a name that the
  available DNS resolves to a private address. At most six requests are made for one URI.\<close>

theorem no_private_requests:
  assumes "u \<in> set (requests (resolveUri net uri))"
  shows "(u_protocol u = ''http:'' \<or> u_protocol u = ''https:'') \<and> \<not> isPrivateOrLoopbackHost (u_hostname u) \<and>
     \<not> bare_ip (u_hostname u) \<and>
     (\<forall>dns ip. n_dns net = Some dns \<longrightarrow> ip \<in> set (dns_lookup dns (u_hostname u)) \<longrightarrow> \<not> isPrivateOrLoopbackHost ip) \<and>
     length (requests (resolveUri net uri)) \<le> 6"
proof -
  have ok: "host_ok net u" "length (requests (resolveUri net uri)) \<le> 6"
    using resolveUri_requests [of net uri] assms by blast+
  then show ?thesis by (auto simp: host_ok_def hostnameResolvesToPrivate_def Let_def)
qed

definition sample_net :: net where
  "sample_net = \<lparr>n_url = (\<lambda>s. Some \<lparr>u_protocol = ''https:'', u_hostname = ''example.com'', u_href = s\<rparr>),
     n_url_relative = (\<lambda>l b. Some \<lparr>u_protocol = ''https:'', u_hostname = ''example.com'', u_href = l\<rparr>), n_dns = None,
     n_fetch = (\<lambda>_. Some \<lparr>rs_status = 200, rs_location = None, rs_length = None,
       rs_body = Some (Chunk (Some [123, 125]) End_Of_Stream)\<rparr>),
     n_json = (\<lambda>_. Some (NObj [])), n_text = (\<lambda>_. ''{}''), n_atob = (\<lambda>_. None), n_unescape = Some\<rparr>"

theorem no_private_requests_witness:
  "requests (resolveUri sample_net ''https://example.com/agent.json'') =
     [\<lparr>u_protocol = ''https:'', u_hostname = ''example.com'', u_href = ''https://example.com/agent.json''\<rparr>] \<and>
   \<not> isPrivateOrLoopbackHost ''example.com''"
proof -
  have public: "\<not> isPrivateOrLoopbackHost ''example.com''" "\<not> bare_ip ''example.com''" by code_simp+
  then have reqs: "requests (resolveUri sample_net ''https://example.com/agent.json'') =
     [\<lparr>u_protocol = ''https:'', u_hostname = ''example.com'', u_href = ''https://example.com/agent.json''\<rparr>]"
    by (simp add: requests_def resolveUri_def fetchJson_def host_ok_def hostnameResolvesToPrivate_def sample_net_def)
  with no_private_requests [of _ sample_net "''https://example.com/agent.json''"] show ?thesis by simp
qed

text \<open>C37. A response body is used exactly when it fits: \<open>readBodyWithLimit\<close> returns a body if and only if the server
  declares no larger size, the stream ends without an error and its bytes are at most the cap; the body is then exactly
  the bytes of the stream, in order.\<close>

theorem body_capped:
  "readBodyWithLimit response m = Inr (Some body) \<longleftrightarrow>
     \<not> (\<exists>n. rs_length response = Some (JFin n) \<and> of_nat m < n) \<and>
     (\<exists>st. rs_body response = Some st \<and> stream_bytes st = Some body \<and> length body \<le> m)"
  by (rule readBodyWithLimit_iff)

text \<open>Names with a trailing dot and IPv4-compatible IPv6 literals in hexadecimal are not recognised.\<close>

lemma host_check_gaps:
  "\<not> isPrivateOrLoopbackHost ''localhost.''" "\<not> isPrivateOrLoopbackHost ''::7f00:1''" "isPrivateOrLoopbackHost ''::127.0.0.1''"
  by code_simp+

end
