(* ===== verification/Resolve.thy ===== *)
theory Resolve
  imports Indexer_Props Uri "HOL-Library.Option_ord" "HOL-Library.Product_Lexorder"
begin

text \<open>
  \<open>webapp/apps/indexer/src/resolve.ts\<close>: fetching the documents behind pending agent URIs.

  \<open>resolver\<close> holds what the code calls and does not define: the result of resolving a URI at a given time (\<open>None\<close> when it
  is null or rejects), SQLite's \<open>julianday\<close> (\<open>None\<close> is NULL), the number of bytes of a value's JSON text (\<open>None\<close> when
  \<open>JSON.stringify\<close> throws), and what other writers do to the database while documents are being fetched.

  The lemmas show how tries are counted and bounded, and that a stored document always belongs to the URI the agent has.
  Both are instances of the locale \<open>agent_row_invariant\<close>: a property of agent rows that the event statements keep.
\<close>

section \<open>Definitions\<close>

definition RESOLVE_LIMIT :: nat where "RESOLVE_LIMIT = 20"
definition CONCURRENCY :: nat where "CONCURRENCY = 5"
definition MAX_ATTEMPTS :: int where "MAX_ATTEMPTS = 5"
definition MAX_STORED_BYTES :: nat where "MAX_STORED_BYTES = 1500000"

record pending_agent =
  p_id :: int
  p_uri :: string
  p_attempts :: int

record resolve_result =
  rr_checked :: nat
  rr_resolved :: nat
  rr_failed :: nat
  rr_exhausted :: nat

record resolver =
  re_document :: "nat \<Rightarrow> string \<Rightarrow> native option"
  re_julianday :: "string \<Rightarrow> rat option"
  re_bytes :: "native \<Rightarrow> nat option"
  re_others :: "nat \<Rightarrow> db \<Rightarrow> db"

text \<open>The WHERE clause of the query. \<open>1 << n\<close> is a right shift for a negative \<open>n\<close>.\<close>

definition backoff_days :: "int \<Rightarrow> rat" where
  "backoff_days attempts = (if attempts < 0 then 0 else 2 ^ nat attempts) / 1440"

definition waited :: "resolver \<Rightarrow> string \<Rightarrow> agent_row \<Rightarrow> bool" where
  "waited re now r \<longleftrightarrow> a_attempts r = 0 \<or>
     (case a_last_attempt r of
        None \<Rightarrow> True
      | Some tried \<Rightarrow> (case (re_julianday re now, re_julianday re tried) of
            (Some x, Some y) \<Rightarrow> backoff_days (a_attempts r) \<le> x - y
          | _ \<Rightarrow> False))"

definition due :: "resolver \<Rightarrow> string \<Rightarrow> agent_row \<Rightarrow> bool" where
  "due re now r \<longleftrightarrow> a_pending r \<and> a_uri_data r = None \<and> a_uri r \<noteq> None \<and> a_uri r \<noteq> Some [] \<and>
     a_attempts r < MAX_ATTEMPTS \<and> waited re now r"

text \<open>The query: NULL sorts first; rows that tie come in table order.\<close>

definition select_pending :: "resolver \<Rightarrow> string \<Rightarrow> db \<Rightarrow> pending_agent list" where
  "select_pending re now d =
     map (\<lambda>(a, r). \<lparr>p_id = a, p_uri = the (a_uri r), p_attempts = a_attempts r\<rparr>)
       (take RESOLVE_LIMIT (sort_key (\<lambda>(a, r). (a_last_attempt r, a_created_at r)) (filter (\<lambda>(a, r). due re now r) (agents d))))"

definition record_try :: "string \<Rightarrow> pending_agent \<Rightarrow> stmt" where
  "record_try triedAt agent =
     (let attempts = p_attempts agent + 1
      in Sql_recordTry attempts (attempts < MAX_ATTEMPTS) triedAt (p_id agent) (p_uri agent))"

text \<open>The value that the JSON text of a value denotes: \<open>undefined\<close> fields are dropped, \<open>undefined\<close> elements and numbers that are
  not finite become \<open>null\<close>.\<close>

fun json_value :: "native \<Rightarrow> native" where
  "json_value NUndef = NNull"
| "json_value (NNum x) = (case x of JFin r \<Rightarrow> NNum x | _ \<Rightarrow> NNull)"
| "json_value (NObj fs) = NObj (map (\<lambda>(k, v). (k, json_value v)) (filter (\<lambda>(k, v). v \<noteq> NUndef) fs))"
| "json_value (NArr vs) = NArr (map json_value vs)"
| "json_value v = v"

definition stored_bytes :: "resolver \<Rightarrow> native \<Rightarrow> nat option" where
  "stored_bytes re document =
     (case (re_bytes re document, re_bytes re (NArr (extractSupportedTrust document)), re_bytes re (NArr (extractServices document))) of
        (Some x, Some y, Some z) \<Rightarrow> Some (x + y + z) | _ \<Rightarrow> None)"

definition store_statement :: "pending_agent \<Rightarrow> native \<Rightarrow> string \<Rightarrow> stmt" where
  "store_statement agent document now =
     Sql_storeDocument (json_value document) (map json_value (extractSupportedTrust document))
       (map json_value (extractServices document)) (extractX402 document) (extractMpp document) now (p_id agent) (p_uri agent)"

definition store :: "env \<Rightarrow> resolver \<Rightarrow> pending_agent \<Rightarrow> native option \<Rightarrow> string \<Rightarrow> (world, bool) act" where
  "store env re agent document now = (case document of
      None \<Rightarrow> aret False
    | Some doc \<Rightarrow>
        if is_nullish doc then aret False
        else (case stored_bytes re doc of
            None \<Rightarrow> aret False
          | Some bytes \<Rightarrow>
              if MAX_STORED_BYTES < bytes then aret False
              else acatch (abind (stmt_run env (store_statement agent doc now)) (\<lambda>changes. aret (0 < changes))) (\<lambda>_. aret False)))"

definition count_result :: "pending_agent \<Rightarrow> bool \<Rightarrow> resolve_result \<Rightarrow> resolve_result" where
  "count_result agent stored res =
     (let res' = res\<lparr>rr_checked := Suc (rr_checked res)\<rparr>
      in if stored then res'\<lparr>rr_resolved := Suc (rr_resolved res)\<rparr>
         else let res'' = res'\<lparr>rr_failed := Suc (rr_failed res)\<rparr>
              in if MAX_ATTEMPTS \<le> p_attempts agent + 1 then res''\<lparr>rr_exhausted := Suc (rr_exhausted res)\<rparr> else res'')"

fun store_round ::
  "env \<Rightarrow> resolver \<Rightarrow> (pending_agent \<times> native option) list \<Rightarrow> resolve_result \<Rightarrow> (world, resolve_result) act" where
  "store_round env re [] res = aret res"
| "store_round env re ((agent, document) # rest) res =
     abind (date_now env) (\<lambda>now.
     abind (store env re agent document (pgTimeDate now)) (\<lambda>stored.
       store_round env re rest (count_result agent stored res)))"

text \<open>\<open>Promise.all\<close> over the round: the documents in order, while other writers may change the database.\<close>

definition fetch_round :: "resolver \<Rightarrow> pending_agent list \<Rightarrow> (world, native option list) act" where
  "fetch_round re batch w =
     (Inr (map (\<lambda>agent. re_document re (w_tick w) (p_uri agent)) batch), (tick w)\<lparr>w_db := re_others re (w_tick w) (w_db w)\<rparr>)"

function resolve_rounds ::
  "env \<Rightarrow> resolver \<Rightarrow> int \<Rightarrow> pending_agent list \<Rightarrow> resolve_result \<Rightarrow> (world, resolve_result) act" where
  "resolve_rounds env re deadline queue res =
     (if queue = [] then aret res
      else abind (date_now env) (\<lambda>t.
        if \<not> t < deadline then aret res
        else abind (date_now env) (\<lambda>tried.
          let batch = take CONCURRENCY queue
          in abind (db_batch env (map (record_try (pgTimeDate tried)) batch)) (\<lambda>_.
             abind (fetch_round re batch) (\<lambda>documents.
             abind (store_round env re (zip batch documents) res) (\<lambda>res'.
               resolve_rounds env re deadline (drop CONCURRENCY queue) res'))))))"
  by pat_completeness auto
termination
  by (relation "measure (\<lambda>(env, re, deadline, queue, res). length queue)") (auto simp: CONCURRENCY_def)

declare resolve_rounds.simps [simp del]

definition no_results :: resolve_result where
  "no_results = \<lparr>rr_checked = 0, rr_resolved = 0, rr_failed = 0, rr_exhausted = 0\<rparr>"

definition resolvePending :: "env \<Rightarrow> resolver \<Rightarrow> int \<Rightarrow> (world, resolve_result) act" where
  "resolvePending env re deadline =
     abind (date_now env) (\<lambda>now.
     abind (db_call env (\<lambda>_ d. Inr (d, select_pending re (pgTimeDate now) d))) (\<lambda>agents.
       resolve_rounds env re deadline agents no_results))"


section \<open>Properties of agent rows\<close>

definition rows_all :: "(agent_row \<Rightarrow> bool) \<Rightarrow> db \<Rightarrow> bool" where
  "rows_all P d \<longleftrightarrow> (\<forall>kv \<in> set (agents d). P (snd kv))"

lemma rows_all_update: "rows_all P d \<Longrightarrow> P v \<Longrightarrow> rows_all P (put_agents (AList.update k v (agents d)) d)"
  by (auto simp: rows_all_def put_agents_def dest!: set_update_cases)

lemma rows_all_lookup: "rows_all P d \<Longrightarrow> map_of (agents d) k = Some r \<Longrightarrow> P r"
  by (auto simp: rows_all_def dest!: map_of_SomeD)

lemma rows_all_agents: "agents d' = agents d \<Longrightarrow> rows_all P d \<Longrightarrow> rows_all P d'"
  by (simp add: rows_all_def)

lemma rows_all_update_row:
  assumes "rows_all P d" "update_row agent_check agents put_agents k guard f d = Inr (d', n)"
    and "\<And>r. P r \<Longrightarrow> guard r \<Longrightarrow> P (f r)"
  shows "rows_all P d'"
  using assms by (auto elim!: update_row_cases intro!: rows_all_update dest: rows_all_lookup)

text \<open>A statement that is not about an agent leaves the agents alone.\<close>

fun agent_stmt :: "stmt \<Rightarrow> bool" where
  "agent_stmt (Sql_registered a owner uri pending created ledger tx) = True"
| "agent_stmt (Sql_uriUpdated uri ledger now a) = True"
| "agent_stmt (Sql_walletSet w now a) = True"
| "agent_stmt (Sql_transferred owner ledger now a) = True"
| "agent_stmt (Sql_recordTry attempts pending tried a uri) = True"
| "agent_stmt (Sql_storeDocument doc trust services x402 mpp now a uri) = True"
| "agent_stmt s = False"

lemma exec_stmt_agents: "\<not> agent_stmt s \<Longrightarrow> exec_stmt clk s d = Inr (d', n) \<Longrightarrow> agents d' = agents d"
  by (cases s) (auto elim!: insert_row_cases update_row_cases simp: put_feedback_def put_validations_def add_dead_def Let_def
      split: if_splits option.splits)

lemma save_sql_agents: "run_batch (exec_stmt clk) (save_sql c cp owner now) d = Inr (d', ns) \<Longrightarrow> agents d' = agents d"
  by (auto simp: save_sql_def sbind_eq_Inr simp del: exec_stmt.simps dest!: exec_stmt_agents [rotated])

locale agent_row_invariant =
  fixes P :: "agent_row \<Rightarrow> bool" and extra :: "stmt \<Rightarrow> bool"
  assumes created: "P (new_agent owner uri pending created_at ledger tx clk)"
    and renamed: "P r \<Longrightarrow> P (set_uri uri ledger now r)"
    and paid: "P r \<Longrightarrow> P (set_wallet wal now r)"
    and moved: "P r \<Longrightarrow> P (set_owner owner ledger now r)"
    and tried: "extra (Sql_recordTry n p time a uri) \<Longrightarrow> P r \<Longrightarrow> a_uri r = Some uri \<Longrightarrow>
      P (r\<lparr>a_attempts := n, a_pending := p, a_last_attempt := Some time, a_updated_at := time\<rparr>)"
    and stored: "extra (Sql_storeDocument doc trust services x402 mpp now a uri) \<Longrightarrow> P r \<Longrightarrow> a_uri r = Some uri \<Longrightarrow>
      P (r\<lparr>a_uri_data := Some doc, a_trust := trust, a_services := services, a_x402 := x402, a_mpp := mpp,
          a_attempts := 0, a_pending := False, a_updated_at := now\<rparr>)"
begin

lemma exec_kept:
  assumes "rows_all P d" "exec_stmt clk s d = Inr (d', n)" "allowed skip s \<or> extra s \<or> \<not> agent_stmt s"
  shows "rows_all P d'"
proof (cases "agent_stmt s")
  case False
  then show ?thesis using exec_stmt_agents [OF _ assms(2)] assms(1) by (blast intro: rows_all_agents)
next
  case True
  then show ?thesis
  proof (cases s)
    case (Sql_registered a owner uri pending created_at ledger tx)
    with assms show ?thesis by (auto elim!: insert_row_cases intro!: rows_all_update created)
  next
    case (Sql_transferred owner ledger now a)
    with assms(2) obtain e where e: "update_row agent_check agents put_agents a
        (\<lambda>r. ledger_guard (a_transferred_ledger r) ledger) (set_owner owner ledger now) d = Inr (e, n)"
      and "agents d' = agents e"
      by (auto simp: sbind_eq_Inr)
    moreover have "rows_all P e" by (rule rows_all_update_row [OF assms(1) e]) (rule moved)
    ultimately show ?thesis by (blast intro: rows_all_agents)
  qed (use assms in \<open>auto elim!: rows_all_update_row intro: renamed paid tried stored\<close>)
qed

lemma kept: "kept_by (\<lambda>s. allowed skip s \<or> extra s) (rows_all P)"
  unfolding kept_by_def using exec_kept by blast

lemma kept_allowed: "kept_by (allowed skip) (rows_all P)"
  unfolding kept_by_def using exec_kept by blast

lemma save_kept: "save_kept (rows_all P)"
  unfolding save_kept_def using save_sql_agents rows_all_agents by blast

end


section \<open>Tries and documents\<close>

text \<open>A row's tries are counted up to the limit, and a row at the limit is no longer pending.\<close>

definition tries_ok :: "agent_row \<Rightarrow> bool" where
  "tries_ok r \<longleftrightarrow> 0 \<le> a_attempts r \<and> a_attempts r \<le> MAX_ATTEMPTS \<and> (a_pending r \<longrightarrow> a_attempts r < MAX_ATTEMPTS)"

fun try_stmt :: "stmt \<Rightarrow> bool" where
  "try_stmt (Sql_recordTry n p time a uri) = (0 \<le> n \<and> n \<le> MAX_ATTEMPTS \<and> (p \<longrightarrow> n < MAX_ATTEMPTS))"
| "try_stmt (Sql_storeDocument doc trust services x402 mpp now a uri) = True"
| "try_stmt s = False"

interpretation tries: agent_row_invariant tries_ok try_stmt
  by unfold_locales (auto simp: tries_ok_def new_agent_def set_uri_def set_wallet_def set_owner_def MAX_ATTEMPTS_def)

text \<open>\<open>fetched re\<close>: the documents, as stored, that resolving a URI gave at some time. A row's document is one of its own URI.\<close>

definition fetched :: "resolver \<Rightarrow> (string \<times> native) set" where
  "fetched re = {(uri, json_value doc) | uri doc. \<exists>t. re_document re t uri = Some doc}"

definition document_ok :: "(string \<times> native) set \<Rightarrow> agent_row \<Rightarrow> bool" where
  "document_ok F r \<longleftrightarrow> (\<forall>doc. a_uri_data r = Some doc \<longrightarrow> (\<exists>uri. a_uri r = Some uri \<and> (uri, doc) \<in> F))"

fun document_stmt :: "(string \<times> native) set \<Rightarrow> stmt \<Rightarrow> bool" where
  "document_stmt F (Sql_recordTry n p time a uri) = True"
| "document_stmt F (Sql_storeDocument doc trust services x402 mpp now a uri) = ((uri, doc) \<in> F)"
| "document_stmt F s = False"

interpretation documents: agent_row_invariant "document_ok F" "document_stmt F" for F
  by unfold_locales (auto simp: document_ok_def new_agent_def set_uri_def set_wallet_def set_owner_def)

section \<open>What the resolver keeps\<close>

lemma select_pendingD:
  assumes "x \<in> set (select_pending re now d)"
  obtains r where "(p_id x, r) \<in> set (agents d)" "due re now r" "a_uri r = Some (p_uri x)" "a_attempts r = p_attempts x"
proof -
  let ?rows = "sort_key (\<lambda>(a, r). (a_last_attempt r, a_created_at r)) (filter (\<lambda>(a, r). due re now r) (agents d))"
  from assms obtain a r where "(a, r) \<in> set (take RESOLVE_LIMIT ?rows)"
    and x: "x = \<lparr>p_id = a, p_uri = the (a_uri r), p_attempts = a_attempts r\<rparr>"
    by (auto simp: select_pending_def)
  then have "(a, r) \<in> set ?rows" by (blast dest: in_set_takeD)
  then have "(a, r) \<in> set (agents d)" "due re now r" by auto
  with x that show thesis by (auto simp: due_def)
qed

lemma length_select_pending: "length (select_pending re now d) \<le> RESOLVE_LIMIT"
  by (simp add: select_pending_def)

lemma wp_fetch_round [wp_rules]:
  "wp (fetch_round re batch) Q E = (\<lambda>w. Q (map (\<lambda>agent. re_document re (w_tick w) (p_uri agent)) batch)
     ((tick w)\<lparr>w_db := re_others re (w_tick w) (w_db w)\<rparr>))"
  by (simp add: fun_eq_iff wp_def fetch_round_def)

lemma keeps_store:
  assumes "kept_by A I" "\<And>doc. document = Some doc \<Longrightarrow> A (store_statement agent doc now)"
  shows "keeps (in_db I t) (store env re agent document now)"
  unfolding store_def
  by (auto split: option.split intro!: keeps_intros keeps_at_db_in_db [OF keeps_stmt_run [OF assms(1)]] assms(2))

lemma keeps_store_round:
  assumes "kept_by A I" "\<And>agent doc now. (agent, Some doc) \<in> set ads \<Longrightarrow> A (store_statement agent doc now)"
  shows "keeps (in_db I t) (store_round env re ads res)"
  using assms(2)
proof (induction ads arbitrary: res)
  case Nil
  show ?case by (simp add: keeps_intros)
next
  case (Cons ad ads)
  obtain agent document where ad: "ad = (agent, document)" by fastforce
  have step: "keeps (in_db I t) (store env re agent document now)" for now
    using Cons.prems ad by (intro keeps_store [OF assms(1)]) auto
  have rest: "keeps (in_db I t) (store_round env re ads res')" for res'
    using Cons.prems by (intro Cons.IH) auto
  show ?case unfolding ad store_round.simps by (intro keeps_intros step rest)
qed

lemma keeps_fetch_store:
  assumes "kept_by A I" "\<And>t' d. I d \<Longrightarrow> I (re_others re t' d)"
    and "\<And>agent t' doc now. agent \<in> set batch \<Longrightarrow> re_document re t' (p_uri agent) = Some doc \<Longrightarrow> A (store_statement agent doc now)"
    and "\<And>res'. keeps (in_db I t) (rest res')"
  shows "keeps (in_db I t) (abind (fetch_round re batch) (\<lambda>documents. abind (store_round env re (zip batch documents) res) rest))"
proof (rule keepsI)
  fix w assume w: "in_db I t w"
  let ?docs = "map (\<lambda>agent. re_document re (w_tick w) (p_uri agent)) batch"
  let ?w = "(tick w)\<lparr>w_db := re_others re (w_tick w) (w_db w)\<rparr>"
  have "in_db I t ?w" using w assms(2) by (simp add: in_db_def)
  moreover have "A (store_statement agent doc now)" if "(agent, Some doc) \<in> set (zip batch ?docs)" for agent doc now
    using that assms(3) by (auto simp: zip_map2 zip_same_conv_map)
  then have "keeps (in_db I t) (abind (store_round env re (zip batch ?docs) res) rest)"
    by (intro keeps_abind keeps_store_round [OF assms(1)] assms(4)) auto
  ultimately have "wp (abind (store_round env re (zip batch ?docs) res) rest) (\<lambda>_. in_db I t) (\<lambda>_. in_db I t) ?w"
    by (blast dest: keepsD)
  then show "wp (abind (fetch_round re batch) (\<lambda>documents. abind (store_round env re (zip batch documents) res) rest))
      (\<lambda>_. in_db I t) (\<lambda>_. in_db I t) w"
    by (simp add: wp_abind wp_fetch_round)
qed

lemma keeps_resolve_rounds:
  assumes A: "kept_by A I" and others: "\<And>t' d. I d \<Longrightarrow> I (re_others re t' d)"
  shows "(\<And>agent time. agent \<in> set queue \<Longrightarrow> A (record_try time agent)) \<Longrightarrow>
    (\<And>agent t' doc now. agent \<in> set queue \<Longrightarrow> re_document re t' (p_uri agent) = Some doc \<Longrightarrow> A (store_statement agent doc now)) \<Longrightarrow>
    keeps (in_db I t) (resolve_rounds env re deadline queue res)"
proof (induction "length queue" arbitrary: queue res rule: less_induct)
  case less
  show ?case
  proof (cases "queue = []")
    case True
    then show ?thesis by (subst resolve_rounds.simps) (simp add: keeps_intros)
  next
    case False
    let ?batch = "take CONCURRENCY queue"
    have logged: "keeps (in_db I t) (db_batch env (map (record_try time) ?batch))" for time
      using less.prems(1) by (intro keeps_at_db_in_db [OF keeps_db_batch [OF A]]) (auto dest: in_set_takeD)
    have shorter: "length (drop CONCURRENCY queue) < length queue" using False by (simp add: CONCURRENCY_def)
    have rest: "keeps (in_db I t) (resolve_rounds env re deadline (drop CONCURRENCY queue) res')" for res'
      by (rule less.hyps [OF shorter]) (auto intro: less.prems dest: in_set_dropD)
    have fetch: "keeps (in_db I t) (abind (fetch_round re ?batch) (\<lambda>documents.
        abind (store_round env re (zip ?batch documents) res) (resolve_rounds env re deadline (drop CONCURRENCY queue))))"
      by (rule keeps_fetch_store [OF A others _ rest]) (auto intro: less.prems(2) dest: in_set_takeD)
    show ?thesis
      using False by (subst resolve_rounds.simps) (auto simp: Let_def intro!: keeps_intros logged fetch)
  qed
qed

lemma resolvePending_keeps:
  assumes A: "kept_by A I" and others: "\<And>t' d. I d \<Longrightarrow> I (re_others re t' d)"
    and logged: "\<And>d now agent time. I d \<Longrightarrow> agent \<in> set (select_pending re now d) \<Longrightarrow> A (record_try time agent)"
    and stored: "\<And>agent t' doc now. re_document re t' (p_uri agent) = Some doc \<Longrightarrow> A (store_statement agent doc now)"
  shows "keeps (in_db I t) (resolvePending env re deadline)"
proof (rule keepsI)
  fix w assume w: "in_db I t w"
  have rounds: "wp (resolve_rounds env re deadline (select_pending re now d) no_results) (\<lambda>_. in_db I t) (\<lambda>_. in_db I t) w'"
    if "I d" "in_db I t w'" for d now w'
    by (rule keepsD [OF keeps_resolve_rounds [OF A others] that(2)]) (auto intro: logged [OF that(1)] stored)
  have "wp (db_call env (\<lambda>_ d. Inr (d, select_pending re now d)))
      (\<lambda>queue. wp (resolve_rounds env re deadline queue no_results) (\<lambda>_. in_db I t) (\<lambda>_. in_db I t)) (\<lambda>_. in_db I t) w'"
    if "in_db I t w'" for now w'
    using that by (intro wp_db_call) (auto intro!: rounds simp: in_db_def)
  then show "wp (resolvePending env re deadline) (\<lambda>_. in_db I t) (\<lambda>_. in_db I t) w"
    using w by (simp add: resolvePending_def wp_rules in_db_def)
qed

text \<open>The three invariants together.\<close>

definition resolver_inv :: "(string \<times> native) set \<Rightarrow> db \<Rightarrow> bool" where
  "resolver_inv F d \<longleftrightarrow> db_inv d \<and> rows_all tries_ok d \<and> rows_all (document_ok F) d"

lemma kept_by_conj: "kept_by A I \<Longrightarrow> kept_by B J \<Longrightarrow> kept_by (\<lambda>s. A s \<and> B s) (\<lambda>d. I d \<and> J d)"
  unfolding kept_by_def by blast

lemma kept_by_sub: "kept_by A I \<Longrightarrow> (\<And>s. B s \<Longrightarrow> A s) \<Longrightarrow> kept_by B I"
  unfolding kept_by_def by blast

definition resolver_stmt :: "(string \<times> native) set \<Rightarrow> stmt \<Rightarrow> bool" where
  "resolver_stmt F s \<longleftrightarrow> (allowed True s \<or> try_stmt s) \<and> (allowed True s \<or> document_stmt F s)"

lemma resolver_inv_fun: "resolver_inv F = (\<lambda>d. db_inv d \<and> rows_all tries_ok d \<and> rows_all (document_ok F) d)"
  by (simp add: fun_eq_iff resolver_inv_def)

lemma kept_by_resolver_inv: "kept_by (resolver_stmt F) (resolver_inv F)"
  unfolding resolver_inv_fun
  by (rule kept_by_sub [OF kept_by_conj [OF kept_by_db_inv [of "\<lambda>_. True"] kept_by_conj [OF tries.kept documents.kept]]])
    (auto simp: resolver_stmt_def)

lemma save_kept_conj: "save_kept I \<Longrightarrow> save_kept J \<Longrightarrow> save_kept (\<lambda>d. I d \<and> J d)"
  unfolding save_kept_def by (intro allI impI conjI) (erule allE impE conjE | assumption)+

lemma save_kept_resolver_inv: "save_kept (resolver_inv F)"
  unfolding resolver_inv_fun by (intro save_kept_conj save_kept_db_inv tries.save_kept documents.save_kept)

lemma resolver_inv_row: "resolver_inv F d \<Longrightarrow> (a, r) \<in> set (agents d) \<Longrightarrow> tries_ok r"
  by (auto simp: resolver_inv_def rows_all_def)

lemma resolver_keeps:
  assumes "\<And>t' d. resolver_inv F d \<Longrightarrow> resolver_inv F (re_others re t' d)" "fetched re \<subseteq> F"
  shows "keeps (in_db (resolver_inv F) t) (resolvePending env re deadline)"
proof (rule resolvePending_keeps [OF kept_by_resolver_inv assms(1)])
  fix d now agent time
  assume "resolver_inv F d" "agent \<in> set (select_pending re now d)"
  then show "resolver_stmt F (record_try time agent)"
    by (auto simp: resolver_stmt_def record_try_def Let_def due_def tries_ok_def elim!: select_pendingD dest!: resolver_inv_row)
next
  fix agent :: pending_agent and t' doc now
  assume doc: "re_document re t' (p_uri agent) = Some doc"
  then have "(p_uri agent, json_value doc) \<in> F" using assms(2) by (auto simp: fetched_def)
  then show "resolver_stmt F (store_statement agent doc now)"
    by (simp add: resolver_stmt_def store_statement_def)
qed

section \<open>Counting\<close>

definition counts_ok :: "nat \<Rightarrow> resolve_result \<Rightarrow> bool" where
  "counts_ok n res \<longleftrightarrow> rr_checked res = rr_resolved res + rr_failed res \<and> rr_exhausted res \<le> rr_failed res \<and> rr_checked res \<le> n"

lemma count_result_ok: "counts_ok n res \<Longrightarrow> counts_ok (Suc n) (count_result agent ok res)"
  by (auto simp: counts_ok_def count_result_def Let_def)

lemma counts_ok_mono: "counts_ok n res \<Longrightarrow> n \<le> m \<Longrightarrow> counts_ok m res"
  by (auto simp: counts_ok_def)

lemma wp_any: "(\<And>x w'. Q x w') \<Longrightarrow> wp m Q (\<lambda>_ _. True) w"
  by (auto simp: wp_def split: prod.split sum.split)

lemma store_round_counts:
  "counts_ok n res \<Longrightarrow> wp (store_round env re ads res) (\<lambda>r _. counts_ok (n + length ads) r) (\<lambda>_ _. True) w"
proof (induction ads arbitrary: n res w)
  case Nil
  then show ?case by (simp add: wp_rules)
next
  case (Cons ad ads)
  obtain agent document where ad: "ad = (agent, document)" by fastforce
  have step: "wp (store_round env re ads (count_result agent ok res)) (\<lambda>r _. counts_ok (n + length (ad # ads)) r) (\<lambda>_ _. True) w'" for ok w'
    using Cons.IH [OF count_result_ok [OF Cons.prems]] by simp
  show ?case unfolding ad store_round.simps wp_rules by (rule wp_any) (rule step [unfolded ad])
qed

lemma resolve_rounds_counts:
  "counts_ok n res \<Longrightarrow> n + length queue \<le> m \<Longrightarrow>
   wp (resolve_rounds env re deadline queue res) (\<lambda>r _. counts_ok m r) (\<lambda>_ _. True) w"
proof (induction "length queue" arbitrary: queue res n w rule: less_induct)
  case less
  show ?case
  proof (cases "queue = []")
    case True
    with less.prems show ?thesis by (subst resolve_rounds.simps) (auto simp: wp_rules intro: counts_ok_mono)
  next
    case False
    let ?batch = "take CONCURRENCY queue" and ?rest = "drop CONCURRENCY queue"
    have "length ?rest < length queue" using False by (simp add: CONCURRENCY_def)
    from less.hyps [OF this] have IH: "wp (resolve_rounds env re deadline ?rest r) (\<lambda>r _. counts_ok m r) (\<lambda>_ _. True) w'"
      if "counts_ok (n + length ?batch) r" for r w'
      using that less.prems(2) by simp
    have "wp (store_round env re (zip ?batch docs) res)
        (\<lambda>r. wp (resolve_rounds env re deadline ?rest r) (\<lambda>r _. counts_ok m r) (\<lambda>_ _. True)) (\<lambda>_ _. True) w'"
      if "length docs = length ?batch" for docs w'
      by (rule wp_mono [OF store_round_counts [OF less.prems(1)]]) (auto intro!: IH simp: that)
    then show ?thesis
      using False less.prems
      by (subst resolve_rounds.simps) (auto simp: Let_def wp_rules intro: counts_ok_mono intro!: wp_any)
  qed
qed

lemma resolvePending_counts: "wp (resolvePending env re deadline) (\<lambda>r _. counts_ok RESOLVE_LIMIT r) (\<lambda>_ _. True) w"
proof -
  have "wp (resolve_rounds env re deadline (select_pending re now d) no_results) (\<lambda>r _. counts_ok RESOLVE_LIMIT r) (\<lambda>_ _. True) w'"
    for now d w'
    by (rule resolve_rounds_counts [of 0]) (auto simp: counts_ok_def no_results_def length_select_pending)
  then have "wp (db_call env (\<lambda>_ d. Inr (d, select_pending re now d)))
      (\<lambda>queue. wp (resolve_rounds env re deadline queue no_results) (\<lambda>r _. counts_ok RESOLVE_LIMIT r) (\<lambda>_ _. True)) (\<lambda>_ _. True) w'"
    for now w'
    by (intro wp_db_call) auto
  then show ?thesis by (simp add: resolvePending_def wp_rules)
qed


section \<open>Properties\<close>

text \<open>The resolver's report adds up: of at most 20 agents checked in a run each is counted as resolved or as failed, and
  the exhausted ones are among the failed, whatever the documents and the database do.\<close>

theorem resolve_counts:
  assumes "resolvePending env re deadline w = (Inr res, w')"
  shows "rr_checked res = rr_resolved res + rr_failed res \<and> rr_exhausted res \<le> rr_failed res \<and> rr_checked res \<le> 20"
  using wp_result [OF resolvePending_counts assms] by (simp add: counts_ok_def RESOLVE_LIMIT_def)

definition sample_resolver :: resolver where
  "sample_resolver = \<lparr>re_document = (\<lambda>_ _. Some (NObj [(''x402'', NBool True)])), re_julianday = (\<lambda>_. None),
     re_bytes = (\<lambda>_. Some 13), re_others = (\<lambda>_ d. d)\<rparr>"

definition sample_agents :: db where
  "sample_agents = (sample_db None)\<lparr>agents := [(7, new_agent ''G'' ''ipfs://x'' True ''2026-01-01'' 5 ''tx'' ''2026-01-01'')]\<rparr>"

lemmas sample_resolve_defs = resolvePending_def select_pending_def due_def waited_def resolve_rounds.simps store_def record_try_def
  count_result_def fetch_round_def db_batch_def stmt_run_def db_call_def date_now_def act_defs stored_bytes_def store_statement_def
  no_results_def sample_resolver_def sample_agents_def sample_env_def sample_world_def sample_db_def new_agent_def
  RESOLVE_LIMIT_def CONCURRENCY_def MAX_ATTEMPTS_def MAX_STORED_BYTES_def

theorem resolve_counts_witness:
  "\<exists>res w'. resolvePending sample_env sample_resolver 1767225660000 (sample_world sample_agents) = (Inr res, w') \<and>
     rr_resolved res = 1 \<and> rr_checked res = rr_resolved res + rr_failed res \<and> rr_checked res \<le> 20"
proof -
  let ?run = "resolvePending sample_env sample_resolver 1767225660000 (sample_world sample_agents)"
  have run: "fst ?run = Inr \<lparr>rr_checked = 1, rr_resolved = 1, rr_failed = 0, rr_exhausted = 0\<rparr>"
    by (simp add: sample_resolve_defs is_nullish_def update_row_def agent_check_def text_cap_def put_agents_def tick_def Let_def)
  then have "?run = (Inr \<lparr>rr_checked = 1, rr_resolved = 1, rr_failed = 0, rr_exhausted = 0\<rparr>, snd ?run)"
    by (metis prod.collapse)
  from resolve_counts [OF this] this show ?thesis by fastforce
qed

end
