(* ===== verification/Runner.thy ===== *)
theory Runner
  imports Resolve
begin

text \<open>
  \<open>webapp/apps/indexer/src/index.ts\<close>: one cron run of the indexer. It takes the lock, picks an RPC server, checks the network,
  indexes the three contracts, resolves pending URIs and releases the lock whatever happened.

  Parameters: the environment bindings (\<open>settings\<close>), the connection made for a URL (\<open>connection\<close>: the RPC server and the answer
  of its \<open>getNetwork\<close>), the choice among the URLs, the SDK constant \<open>Networks.PUBLIC\<close>, and the run's fresh owner id.
\<close>

section \<open>Definitions\<close>

record settings =
  STELLAR_NETWORK :: "string option"
  RPC_PRIMARY_URL :: "string option"
  RPC_FALLBACK_URL :: "string option"
  ALLOW_RETENTION_CLAMP :: "string option"

record 'sc connection =
  cn_server :: "'sc server"
  cn_network :: "nat \<Rightarrow> string + string"

definition SOFT_BUDGET_MS :: int where
  "SOFT_BUDGET_MS = 60000"

text \<open>\<open>probe url\<close> is \<open>result.status\<close> of the \<open>getHealth\<close> answer, \<open>None\<close> when the request or its JSON fails.\<close>

fun first_healthy :: "(string \<Rightarrow> string option) \<Rightarrow> string list \<Rightarrow> string option" where
  "first_healthy probe [] = None"
| "first_healthy probe (url # urls) = (if probe url = Some ''healthy'' then Some url else first_healthy probe urls)"

definition pickRpc :: "(string \<Rightarrow> string option) \<Rightarrow> string list \<Rightarrow> string option" where
  "pickRpc probe urls = (case first_healthy probe urls of
      Some url \<Rightarrow> Some url
    | None \<Rightarrow> (case urls of [] \<Rightarrow> None | url # _ \<Rightarrow> Some url))"

definition configured_urls :: "settings \<Rightarrow> string list" where
  "configured_urls cfg = filter (\<lambda>url. url \<noteq> []) (List.map_filter id [RPC_PRIMARY_URL cfg, RPC_FALLBACK_URL cfg])"

datatype run_result = Skipped | Ran index_result resolve_result

definition undefined_text :: "string option \<Rightarrow> string" where
  "undefined_text v = (case v of None \<Rightarrow> ''undefined'' | Some s \<Rightarrow> s)"

definition wrong_network :: "settings \<Rightarrow> string" where
  "wrong_network cfg = ''Refusing to run: STELLAR_NETWORK is \"'' @ undefined_text (STELLAR_NETWORK cfg) @ ''\", expected \"mainnet\"''"

definition no_url :: string where
  "no_url = ''No Stellar RPC URL configured''"

definition wrong_passphrase :: "string \<Rightarrow> string" where
  "wrong_passphrase p = ''Refusing to run: RPC network is \"'' @ p @ ''\", expected mainnet''"

fun mainnet_contracts :: "contract_name \<Rightarrow> string" where
  "mainnet_contracts Identity = ''CBGPDCJIHQ32G42BE7F2CIT3YW6XRN5ED6GQJHCRZSNAYH6TGMCL6X35''"
| "mainnet_contracts Reputation = ''CBOIAIMMWAXI57OATLX6BWVDQLCC4YU55HV6MZXFRP6CBSGAMXSTEPPA''"
| "mainnet_contracts Validation = ''CBT6WWEVEPT2UFGFGVJJ7ELYGLQAGRYSVGDTGMCJTRWXOH27MWUO7UJG''"

definition get_network :: "'sc connection \<Rightarrow> (world, string) act" where
  "get_network c w = (cn_network c (w_tick w), tick w)"

text \<open>The body of the \<open>try\<close> block; \<open>None\<close> when the fuel of the scan runs out (see \<open>run_terminates\<close>).\<close>

definition locked_run ::
  "env \<Rightarrow> settings \<Rightarrow> 'sc sdk \<Rightarrow> string \<Rightarrow> 'sc connection \<Rightarrow> resolver \<Rightarrow> nat \<Rightarrow> int \<Rightarrow> string \<Rightarrow> (world, run_result option) act" where
  "locked_run env cfg sdk public conn re fuel deadline owner =
     abind (get_network conn) (\<lambda>passphrase.
       if passphrase \<noteq> public then athrow (wrong_passphrase passphrase)
       else abind (indexContracts env sdk (cn_server conn) fuel mainnet_contracts deadline owner
                     (ALLOW_RETENTION_CLAMP cfg = Some ''true'')) (\<lambda>indexed. case indexed of
           None \<Rightarrow> aret None
         | Some ir \<Rightarrow> abind (resolvePending env re deadline) (\<lambda>resolved. aret (Some (Ran ir resolved)))))"

definition release_quietly :: "env \<Rightarrow> string \<Rightarrow> (world, unit) act" where
  "release_quietly env owner = acatch (releaseLock env owner) (\<lambda>_. aret ())"

definition runOnce ::
  "env \<Rightarrow> settings \<Rightarrow> 'sc sdk \<Rightarrow> string \<Rightarrow> (string \<Rightarrow> 'sc connection) \<Rightarrow> (string list \<Rightarrow> string + string) \<Rightarrow> resolver \<Rightarrow> nat \<Rightarrow> string \<Rightarrow>
   (world, run_result option) act" where
  "runOnce env cfg sdk public connect chooser re fuel owner =
     (if STELLAR_NETWORK cfg \<noteq> Some ''mainnet'' then athrow (wrong_network cfg)
      else if configured_urls cfg = [] then athrow no_url
      else abind (date_now env) (\<lambda>t.
           abind (acquireLock env owner) (\<lambda>got.
             if \<not> got then aret (Some Skipped)
             else afinally
               (abind (alift (chooser (configured_urls cfg))) (\<lambda>url.
                  locked_run env cfg sdk public (connect url) re fuel (t + SOFT_BUDGET_MS) owner))
               (release_quietly env owner))))"

section \<open>Lemmas\<close>

lemma keeps_get_network: "keeps (in_db I t) (get_network c)"
  by (auto simp: keeps_def wp_def get_network_def in_db_def split: sum.split)

lemma keeps_locked_run:
  assumes "save_kept I" "kept_by (allowed True) I" "keeps (in_db I t) (resolvePending env re deadline)"
  shows "keeps (in_db I t) (locked_run env cfg sdk public conn re fuel deadline owner)"
  unfolding locked_run_def
  by (auto split: option.split intro!: keeps_intros keeps_get_network indexContracts_keeps assms)

lemma keeps_release_quietly:
  assumes "\<And>d d' n clk. I d \<Longrightarrow> exec_stmt clk (Sql_releaseLock owner) d = Inr (d', n) \<Longrightarrow> I d'"
  shows "keeps (in_db I t) (release_quietly env owner)"
  unfolding release_quietly_def releaseLock_def stmt_run_def
  by (intro keeps_intros keeps_at_db_in_db [OF keeps_db_call]) (rule assms)

lemma keeps_acquireLock:
  assumes "\<And>d d' now stale row. I d \<Longrightarrow> acquire_sql now owner stale d = (d', row) \<Longrightarrow> I d'"
  shows "keeps (in_db I t) (acquireLock env owner)"
  unfolding acquireLock_def
  by (intro keeps_intros keeps_at_db_in_db [OF keeps_db_call]) (auto elim: assms)

lemma runOnce_keeps:
  assumes "save_kept I" "kept_by (allowed True) I" "\<And>deadline. keeps (in_db I t) (resolvePending env re deadline)"
    and "\<And>d d' n clk. I d \<Longrightarrow> exec_stmt clk (Sql_releaseLock owner) d = Inr (d', n) \<Longrightarrow> I d'"
    and "\<And>d d' now stale row. I d \<Longrightarrow> acquire_sql now owner stale d = (d', row) \<Longrightarrow> I d'"
  shows "keeps (in_db I t) (runOnce env cfg sdk public connect chooser re fuel owner)"
  unfolding runOnce_def
  by (auto intro!: keeps_intros keeps_afinally keeps_acquireLock [OF assms(5)] keeps_locked_run assms(1-3)
      keeps_release_quietly [OF assms(4)])

lemma acquire_sql_agents: "acquire_sql now owner stale d = (d', row) \<Longrightarrow> agents d' = agents d"
  by (auto simp: acquire_sql_def Let_def split: option.splits if_splits)

lemma acquire_sql_inv: "db_inv d \<Longrightarrow> acquire_sql now owner stale d = (d', row) \<Longrightarrow> db_inv d'"
  by (auto simp: acquire_sql_def Let_def intro: db_inv_bookkeeping split: option.splits if_splits)

lemma runOnce_resolver_inv:
  assumes "\<And>t' d. resolver_inv F d \<Longrightarrow> resolver_inv F (re_others re t' d)" "fetched re \<subseteq> F"
  shows "keeps (in_db (resolver_inv F) t) (runOnce env cfg sdk public connect chooser re fuel owner)"
proof (rule runOnce_keeps [OF save_kept_resolver_inv])
  show "kept_by (allowed True) (resolver_inv F)"
    by (rule kept_by_sub [OF kept_by_resolver_inv]) (simp add: resolver_stmt_def)
  show "keeps (in_db (resolver_inv F) t) (resolvePending env re deadline)" for deadline
    by (rule resolver_keeps [OF assms])
  show "resolver_inv F d'" if "resolver_inv F d" "exec_stmt clk (Sql_releaseLock owner) d = Inr (d', n)" for d d' n clk
    using that exec_stmt_inv exec_stmt_agents [OF _ that(2)] by (auto simp: resolver_inv_def rows_all_def simp del: exec_stmt.simps)
  show "resolver_inv F d'" if "resolver_inv F d" "acquire_sql now owner stale d = (d', row)" for d d' now stale row
    using that acquire_sql_inv acquire_sql_agents [OF that(2)] by (auto simp: resolver_inv_def rows_all_def)
qed


text \<open>\<open>released\<close>: the owner's lock is gone, or a database call since tick \<open>t\<close> met an infrastructure fault.\<close>

definition released :: "env \<Rightarrow> string \<Rightarrow> nat \<Rightarrow> world \<Rightarrow> bool" where
  "released env owner t w \<longleftrightarrow> \<not> holds_lock (w_db w) owner \<or> (\<exists>t'. t \<le> t' \<and> t' < w_tick w \<and> e_fault env t' \<noteq> None)"

lemma release_released:
  "t \<le> w_tick w \<Longrightarrow> wp (release_quietly env owner) (\<lambda>_. released env owner t) (\<lambda>_ _. False) w"
  by (auto simp: release_quietly_def releaseLock_def stmt_run_def wp_def act_defs db_call_def released_def holds_lock_def
      map_of_delete_same split: option.splits if_splits sum.splits prod.splits)

lemma acquire_released:
  assumes "t \<le> w_tick w" "\<not> holds_lock (w_db w) owner"
  shows "wp (acquireLock env owner) (\<lambda>got w'. t \<le> w_tick w' \<and> (got \<or> released env owner t w')) (\<lambda>_. released env owner t) w"
  using assms
  by (auto simp: acquireLock_def acquire_sql_def Let_def wp_def act_defs db_call_def date_now_def released_def holds_lock_def
      update_conv' split: option.splits if_splits sum.splits prod.splits intro!: exI [of _ "Suc (w_tick w)"])

lemma locked_run_ticks:
  "t \<le> w_tick w \<Longrightarrow> wp (abind (alift u) (\<lambda>url. locked_run env cfg sdk public (conn url) re fuel deadline owner))
     (\<lambda>_ w'. t \<le> w_tick w') (\<lambda>_ w'. t \<le> w_tick w') w"
proof -
  assume t: "t \<le> w_tick w"
  have triv: "save_kept (\<lambda>_. True)" "kept_by A (\<lambda>_. True)" for A by (simp_all add: save_kept_def kept_by_def)
  have "keeps (in_db (\<lambda>_. True) t) (resolvePending env re deadline)"
    by (rule resolvePending_keeps [where A = "\<lambda>_. True"]) (simp_all add: triv)
  then have "keeps (in_db (\<lambda>_. True) t) (abind (alift u) (\<lambda>url. locked_run env cfg sdk public (conn url) re fuel deadline owner))"
    by (intro keeps_intros keeps_locked_run triv)
  then have "wp (abind (alift u) (\<lambda>url. locked_run env cfg sdk public (conn url) re fuel deadline owner))
      (\<lambda>_. in_db (\<lambda>_. True) t) (\<lambda>_. in_db (\<lambda>_. True) t) w"
    using t by (auto simp: in_db_def dest: keepsD)
  then show ?thesis by (rule wp_mono) (simp_all add: in_db_def)
qed

lemma runOnce_released:
  assumes "\<not> holds_lock (w_db w) owner"
  shows "wp (runOnce env cfg sdk public connect chooser re fuel owner)
     (\<lambda>_. released env owner (w_tick w)) (\<lambda>_. released env owner (w_tick w)) w"
proof -
  let ?R = "released env owner (w_tick w)"
  have fin: "wp (afinally (abind (alift u) (\<lambda>url. locked_run env cfg sdk public (connect url) re fuel deadline owner))
      (release_quietly env owner)) (\<lambda>_. ?R) (\<lambda>_. ?R) w'" if "w_tick w \<le> w_tick w'" for u deadline w'
    unfolding wp_afinally
    by (rule wp_mono [OF locked_run_ticks [OF that]]; rule wp_mono [OF release_released]) auto
  have "wp (acquireLock env owner) (\<lambda>got w'. w_tick w \<le> w_tick w' \<and> (got \<or> ?R w')) (\<lambda>_. ?R) (tick w)"
    by (rule acquire_released) (use assms in simp_all)
  then have "wp (acquireLock env owner) (\<lambda>got. wp (if \<not> got then aret (Some Skipped) else
      afinally (abind (alift u) (\<lambda>url. locked_run env cfg sdk public (connect url) re fuel deadline owner))
        (release_quietly env owner)) (\<lambda>_. ?R) (\<lambda>_. ?R)) (\<lambda>_. ?R) (tick w)" for u deadline
    by (rule wp_mono) (auto simp: wp_aret intro: fin)
  then show ?thesis
    using assms by (auto simp: runOnce_def wp_athrow wp_abind [of "date_now env"] wp_abind [of "acquireLock env owner"]
        wp_date_now released_def)
qed

section \<open>Termination\<close>

text \<open>\<open>ends m\<close>: the action never runs out of fuel.\<close>

definition ends :: "(world, 'a option) act \<Rightarrow> bool" where
  "ends m \<longleftrightarrow> (\<forall>w. wp m (\<lambda>r _. r \<noteq> None) (\<lambda>_ _. True) w)"

lemma ends_basic: "ends (athrow e)" "ends (aret (Some x))"
  by (simp_all add: ends_def wp_rules)

lemma endsI: "(\<And>w. wp m (\<lambda>r _. r \<noteq> None) (\<lambda>_ _. True) w) \<Longrightarrow> ends m"
  by (simp add: ends_def)

lemma endsD: "ends m \<Longrightarrow> wp m (\<lambda>r _. r \<noteq> None) (\<lambda>_ _. True) w"
  by (simp add: ends_def)

lemma ends_abind: "(\<And>x. ends (f x)) \<Longrightarrow> ends (abind m f)"
  by (rule endsI, unfold wp_abind, rule wp_any) (rule endsD)

lemma ends_option:
  assumes "ends m" "\<And>x. ends (f x)"
  shows "ends (abind m (\<lambda>r. case r of None \<Rightarrow> aret None | Some x \<Rightarrow> f x))"
proof (rule endsI, unfold wp_abind)
  show "wp m (\<lambda>r. wp (case r of None \<Rightarrow> aret None | Some x \<Rightarrow> f x) (\<lambda>r _. r \<noteq> None) (\<lambda>_ _. True)) (\<lambda>_ _. True) w" for w
    by (rule wp_mono [OF endsD [OF assms(1)]]) (auto intro: endsD [OF assms(2), simplified])
qed

lemma ends_afinally: "ends m \<Longrightarrow> ends (afinally m f)"
  by (rule endsI, unfold wp_afinally, rule wp_mono [OF endsD], assumption) (auto intro!: wp_any)

lemmas ends_intros = ends_basic ends_abind ends_afinally

lemma contracts_loop_ends:
  assumes "\<And>t. T \<le> t \<Longrightarrow> deadline \<le> e_now env t" "T < fuel"
  shows "ends (contracts_loop env sdk server fuel ids deadline owner oldest cps cs head res)"
proof (induction cs arbitrary: head res)
  case (Cons c cs)
  have "ends (indexContract env sdk server fuel
      \<lparr>sc_contract = c, sc_id = ids c, sc_head = head, sc_oldest = oldest, sc_deadline = deadline, sc_owner = owner\<rparr>
      (cp_get cps c))"
    by (rule endsI, rule indexContract_terminates [OF _ assms(2)]) (simp add: assms(1))
  then show ?case by (auto intro!: ends_basic ends_abind [of _ "date_now env"] ends_option Cons.IH)
qed (simp add: ends_basic)

lemma locked_run_ends:
  assumes "\<And>t. T \<le> t \<Longrightarrow> deadline \<le> e_now env t" "T < fuel"
  shows "ends (locked_run env cfg sdk public conn re fuel deadline owner)"
proof -
  have "ends (indexContracts env sdk server fuel ids deadline owner clamp)" for server ids clamp
    unfolding indexContracts_def Let_def
    by (auto split: prod.split intro!: ends_basic ends_abind contracts_loop_ends [OF assms])
  then show ?thesis
    unfolding locked_run_def by (auto intro!: ends_basic ends_abind [of _ "get_network conn"] ends_option ends_abind [of _ "resolvePending env re deadline"])
qed

lemma runOnce_ends:
  assumes "\<And>t. T \<le> t \<Longrightarrow> e_now env (w_tick w) + SOFT_BUDGET_MS \<le> e_now env t" "T < fuel"
  shows "wp (runOnce env cfg sdk public connect chooser re fuel owner) (\<lambda>r _. r \<noteq> None) (\<lambda>_ _. True) w"
proof -
  have "ends (afinally (abind (alift u) (\<lambda>url. locked_run env cfg sdk public (connect url) re fuel
      (e_now env (w_tick w) + SOFT_BUDGET_MS) owner)) (release_quietly env owner))" for u
    by (intro ends_intros locked_run_ends [OF assms])
  then have "ends (abind (acquireLock env owner) (\<lambda>got. if \<not> got then aret (Some Skipped) else
      afinally (abind (alift u) (\<lambda>url. locked_run env cfg sdk public (connect url) re fuel
        (e_now env (w_tick w) + SOFT_BUDGET_MS) owner)) (release_quietly env owner)))" for u
    by (auto intro!: ends_basic ends_abind [of _ "acquireLock env owner"])
  then show ?thesis
    by (simp add: runOnce_def wp_athrow wp_abind [of "date_now env"] wp_date_now ends_def)
qed


section \<open>Refusals\<close>

text \<open>\<open>same_but_lock d0\<close>: nothing but the lock table differs from \<open>d0\<close>.\<close>

definition same_but_lock :: "db \<Rightarrow> db \<Rightarrow> bool" where
  "same_but_lock d0 d \<longleftrightarrow> d\<lparr>indexer_locks := indexer_locks d0\<rparr> = d0"

lemma same_but_lock_acquire: "same_but_lock d0 d \<Longrightarrow> acquire_sql now owner stale d = (d', row) \<Longrightarrow> same_but_lock d0 d'"
  by (auto simp: same_but_lock_def acquire_sql_def Let_def split: option.splits if_splits)

lemma same_but_lock_release: "same_but_lock d0 d \<Longrightarrow> exec_stmt clk (Sql_releaseLock owner) d = Inr (d', n) \<Longrightarrow> same_but_lock d0 d'"
  by (auto simp: same_but_lock_def split: if_splits)

definition refused :: "run_result option \<Rightarrow> bool" where
  "refused r \<longleftrightarrow> r = Some Skipped"

lemma locked_run_refuses:
  assumes "\<forall>t. cn_network conn t \<noteq> Inr public" "in_db I t w"
  shows "wp (locked_run env cfg sdk public conn re fuel deadline owner) (\<lambda>_ _. False) (\<lambda>_. in_db I t) w"
  using assms by (auto simp: locked_run_def wp_rules wp_def [of "get_network conn"] get_network_def in_db_def split: sum.split)

lemma runOnce_refuses:
  assumes "STELLAR_NETWORK cfg \<noteq> Some ''mainnet'' \<or> configured_urls cfg = [] \<or> (\<forall>url t. cn_network (connect url) t \<noteq> Inr public)"
  shows "wp (runOnce env cfg sdk public connect chooser re fuel owner)
     (\<lambda>r w'. refused r \<and> same_but_lock (w_db w) (w_db w')) (\<lambda>_ w'. same_but_lock (w_db w) (w_db w')) w"
proof (cases "STELLAR_NETWORK cfg \<noteq> Some ''mainnet'' \<or> configured_urls cfg = []")
  case True
  then show ?thesis by (auto simp: runOnce_def wp_athrow same_but_lock_def)
next
  case False
  let ?I = "in_db (same_but_lock (w_db w)) 0"
  have eta: "?I = (\<lambda>w'. same_but_lock (w_db w) (w_db w'))" by (simp add: fun_eq_iff in_db_def)
  have conn: "\<forall>t. cn_network (connect url) t \<noteq> Inr public" for url using assms False by blast
  have acquire: "keeps ?I (acquireLock env owner)" by (rule keeps_acquireLock) (rule same_but_lock_acquire)
  have release: "keeps ?I (release_quietly env owner)" by (rule keeps_release_quietly) (rule same_but_lock_release)
  have try_block: "wp (abind (alift u) (\<lambda>url. locked_run env cfg sdk public (connect url) re fuel deadline owner))
      (\<lambda>_ _. False) (\<lambda>_. ?I) w'" if "?I w'" for u deadline w'
    using that by (auto simp: wp_rules split: sum.split intro: locked_run_refuses [OF conn])
  have "wp (afinally (abind (alift u) (\<lambda>url. locked_run env cfg sdk public (connect url) re fuel deadline owner))
      (release_quietly env owner)) (\<lambda>r w'. refused r \<and> ?I w') (\<lambda>_. ?I) w'" if "?I w'" for u deadline w'
    unfolding wp_afinally by (rule wp_mono [OF try_block [OF that]]) (auto intro: keepsD [OF release])
  then have "wp (abind (acquireLock env owner) (\<lambda>got. if \<not> got then aret (Some Skipped) else
      afinally (abind (alift u) (\<lambda>url. locked_run env cfg sdk public (connect url) re fuel deadline owner))
        (release_quietly env owner))) (\<lambda>r w'. refused r \<and> ?I w') (\<lambda>_. ?I) (tick w)" for u deadline
    unfolding wp_abind [of "acquireLock env owner"]
    by (intro wp_mono [OF keepsD [OF acquire]]) (auto simp: wp_aret refused_def in_db_def same_but_lock_def)
  then show ?thesis
    using False by (simp add: runOnce_def wp_abind [of "date_now env"] wp_date_now eta)
qed

section \<open>Properties\<close>

text \<open>C24. What the explorer shows of an agent's document is what its current URI gave: starting from a database in which every
  stored document was fetched from its row's URI, any run of the indexer, whatever it returns or throws and whatever it is
  interleaved with while it fetches, ends in such a database again; the schema invariant holds, the tries of every agent stay
  between 0 and 5 and an agent at the limit is no longer pending.\<close>

theorem run_documents:
  assumes "resolver_inv F (w_db w)" "fetched re \<subseteq> F" "\<And>t d. resolver_inv F d \<Longrightarrow> resolver_inv F (re_others re t d)"
    and "runOnce env cfg sdk public connect chooser re fuel owner w = (r, w')"
    and "map_of (agents (w_db w')) a = Some row"
  shows "db_inv (w_db w') \<and> 0 \<le> a_attempts row \<and> a_attempts row \<le> 5 \<and> (a_pending row \<longrightarrow> a_attempts row < 5) \<and>
     (\<forall>doc. a_uri_data row = Some doc \<longrightarrow> (\<exists>uri. a_uri row = Some uri \<and> (uri, doc) \<in> F))"
proof -
  have "in_db (resolver_inv F) 0 w'"
    by (rule keeps_final [OF runOnce_resolver_inv [OF assms(3,2)] _ assms(4)]) (use assms(1) in \<open>simp_all add: in_db_def\<close>)
  then have inv: "resolver_inv F (w_db w')" by (simp add: in_db_def)
  then have "tries_ok row" "document_ok F row"
    using assms(5) by (auto simp: resolver_inv_def intro: rows_all_lookup)
  with inv show ?thesis by (simp add: resolver_inv_def tries_ok_def document_ok_def MAX_ATTEMPTS_def)
qed

definition sample_settings :: settings where
  "sample_settings = \<lparr>STELLAR_NETWORK = Some ''mainnet'', RPC_PRIMARY_URL = Some ''https://rpc'', RPC_FALLBACK_URL = None,
     ALLOW_RETENTION_CLAMP = None\<rparr>"

definition sample_run :: "(string \<Rightarrow> string + string) \<Rightarrow> db \<Rightarrow> (string + run_result option) \<times> world" where
  "sample_run network d = runOnce sample_env sample_settings native_sdk ''public''
     (\<lambda>url. \<lparr>cn_server = sample_server, cn_network = (\<lambda>_. network url)\<rparr>) (\<lambda>urls. Inr (hd urls)) sample_resolver 61 ''run-a''
     (sample_world d)"

lemma sample_agents_inv: "resolver_inv (fetched sample_resolver) sample_agents"
  by (simp add: resolver_inv_def sample_agents_def sample_db_def db_inv_defs rows_all_def tries_ok_def document_ok_def
      new_agent_def agent_check_def text_cap_def MAX_ATTEMPTS_def)

lemma sample_run_down: "agents (w_db (snd (sample_run (\<lambda>_. Inl ''down'') d))) = agents d"
proof -
  let ?run = "sample_run (\<lambda>_. Inl ''down'') d"
  have "wp (\<lambda>_. ?run) (\<lambda>_ w'. same_but_lock d (w_db w')) (\<lambda>_ w'. same_but_lock d (w_db w')) (sample_world d)"
    using runOnce_refuses [of sample_settings "\<lambda>url. \<lparr>cn_server = sample_server, cn_network = (\<lambda>_. Inl ''down'')\<rparr>" "''public''"
        sample_env native_sdk "\<lambda>urls. Inr (hd urls)" sample_resolver 61 "''run-a''" "sample_world d"]
    by (auto simp: wp_def sample_run_def sample_world_def split: prod.splits sum.splits)
  then have "same_but_lock d (w_db (snd ?run))" by (auto simp: wp_def split: prod.splits sum.splits)
  then show ?thesis by (metis same_but_lock_def db.select_convs(1) db.surjective db.update_convs(7))
qed

theorem run_documents_witness:
  "\<exists>row. map_of (agents (w_db (snd (sample_run (\<lambda>_. Inl ''down'') sample_agents)))) 7 = Some row \<and>
     db_inv (w_db (snd (sample_run (\<lambda>_. Inl ''down'') sample_agents))) \<and> a_attempts row \<le> 5"
proof -
  let ?run = "sample_run (\<lambda>_. Inl ''down'') sample_agents"
  obtain row where row: "map_of (agents (w_db (snd ?run))) 7 = Some row"
    by (simp add: sample_run_down) (simp add: sample_agents_def)
  have "?run = (fst ?run, snd ?run)" by simp
  from run_documents [OF _ subset_refl _ this [unfolded sample_run_def] row [unfolded sample_run_def]] sample_agents_inv row
  show ?thesis by (simp add: sample_run_def sample_world_def sample_resolver_def)
qed

text \<open>C34. A run leaves no lock behind: it does not hold the lock at the end of a run that did not hold it before, unless one
  of the run's own database calls met an infrastructure fault (then the lock goes stale after 180 seconds).\<close>

theorem run_releases_lock:
  assumes "\<not> holds_lock (w_db w) owner" "runOnce env cfg sdk public connect chooser re fuel owner w = (r, w')"
    and "\<And>t. w_tick w \<le> t \<Longrightarrow> t < w_tick w' \<Longrightarrow> e_fault env t = None"
  shows "\<not> holds_lock (w_db w') owner"
proof -
  have "released env owner (w_tick w) w'"
    using runOnce_released [OF assms(1), of env cfg sdk public connect chooser re fuel] assms(2) by (cases r) (simp_all add: wp_def)
  then show ?thesis using assms(3) by (auto simp: released_def)
qed

theorem run_releases_lock_witness:
  "\<not> holds_lock (w_db (snd (sample_run (\<lambda>_. Inr ''public'') (sample_rows 10)))) ''run-a''"
proof -
  let ?run = "sample_run (\<lambda>_. Inr ''public'') (sample_rows 10)"
  have "?run = (fst ?run, snd ?run)" by simp
  from run_releases_lock [OF _ this [unfolded sample_run_def]] show ?thesis
    by (simp add: sample_run_def sample_env_def sample_world_def sample_rows_def sample_db_def holds_lock_def)
qed

text \<open>C36. A run ends: once the clock has passed the soft budget for good at tick \<open>T\<close>, any fuel above \<open>T\<close> gives a result or
  an error, whatever the servers and the database do.\<close>

theorem run_terminates:
  assumes "\<And>t. T \<le> t \<Longrightarrow> e_now env (w_tick w) + SOFT_BUDGET_MS \<le> e_now env t" "T < fuel"
  shows "fst (runOnce env cfg sdk public connect chooser re fuel owner w) \<noteq> Inr None"
  using runOnce_ends [OF assms, of cfg sdk public connect chooser re owner] by (auto simp: wp_def split: prod.splits sum.splits)

theorem run_terminates_witness:
  "fst (sample_run (\<lambda>_. Inr ''public'') (sample_rows 10)) \<noteq> Inr None"
  unfolding sample_run_def
  by (rule run_terminates [of 60]) (auto simp: sample_env_def SOFT_BUDGET_MS_def sample_world_def)

text \<open>A run refuses the wrong network: without \<open>STELLAR_NETWORK=mainnet\<close>, without an RPC URL, or when the RPC server
  does not answer with the public network's passphrase, the run throws or is skipped, and nothing but the lock table changes.\<close>

theorem run_refuses_network:
  assumes "STELLAR_NETWORK cfg \<noteq> Some ''mainnet'' \<or> configured_urls cfg = [] \<or> (\<forall>url t. cn_network (connect url) t \<noteq> Inr public)"
    and "runOnce env cfg sdk public connect chooser re fuel owner w = (r, w')"
  shows "(r = Inr (Some Skipped) \<or> (\<exists>e. r = Inl e)) \<and> (w_db w')\<lparr>indexer_locks := indexer_locks (w_db w)\<rparr> = w_db w"
  using runOnce_refuses [OF assms(1), of env sdk chooser re fuel owner w] assms(2)
  by (auto simp: wp_def refused_def same_but_lock_def split: sum.splits)

theorem run_refuses_network_witness:
  "(w_db (snd (sample_run (\<lambda>_. Inr ''testnet'') (sample_rows 10))))\<lparr>indexer_locks := []\<rparr> = sample_rows 10"
proof -
  let ?run = "sample_run (\<lambda>_. Inr ''testnet'') (sample_rows 10)"
  have "?run = (fst ?run, snd ?run)" by simp
  from run_refuses_network [OF _ this [unfolded sample_run_def]] show ?thesis
    by (simp add: sample_run_def sample_world_def sample_rows_def sample_db_def)
qed

end
