(* ===== verification/Leaderboard.thy ===== *)
theory Leaderboard
  imports Db_Invariant
begin

text \<open>
  The view \<open>leaderboard_scores\<close> of \<open>webapp/packages/d1/migrations/0001_init.sql\<close>, which every page and API route reads.

  A score is the mean of the agent's feedback values, without revoked feedback and feedback of the current owner, rounded half
  away from zero to two decimals. The view computes it in 64-bit integers from the decimal texts where the values are small
  enough, and in doubles otherwise; the double fallback is the parameter \<open>avg_real\<close>. The lemmas show that the integer path
  is the exact rounded mean and never overflows. The final division by 100.0 is that of rational numbers here.
\<close>

section \<open>Definitions\<close>

text \<open>\<open>CAST(v AS INTEGER)\<close> on the texts the CHECK of \<open>feedback.value\<close> admits: a sign and digits, clamped to 64 bits.\<close>

definition text_int :: "string \<Rightarrow> int" where
  "text_int s = (case s of
      c # cs \<Rightarrow> if c = CHR ''-'' then - int (read_nat (takeWhile is_digit cs)) else int (read_nat (takeWhile is_digit s))
    | [] \<Rightarrow> 0)"

definition cast_integer :: "string \<Rightarrow> int" where
  "cast_integer s = max (- (2 ^ 63)) (min (2 ^ 63 - 1) (text_int s))"

definition zeros :: "int \<Rightarrow> string" where
  "zeros n = replicate (nat n) (CHR ''0'')"

type_synonym fb_row = "string \<times> string \<times> int"

text \<open>The common table expressions \<open>fb\<close>, \<open>g\<close> and \<open>x\<close>, for one agent.\<close>

definition fb :: "db \<Rightarrow> int \<Rightarrow> fb_row list" where
  "fb d a = (case map_of (agents d) a of
      None \<Rightarrow> []
    | Some r \<Rightarrow> map (\<lambda>((a', c, i), f). (c, f_value f, f_decimals f))
        (filter (\<lambda>((a', c, i), f). a' = a \<and> \<not> f_revoked f \<and> c \<noteq> a_owner r) (feedback d)))"

definition fb_decimals :: "fb_row \<Rightarrow> int" where
  "fb_decimals r = snd (snd r)"

definition fb_text :: "fb_row \<Rightarrow> string" where
  "fb_text r = fst (snd r)"

definition g_k :: "fb_row list \<Rightarrow> int" where
  "g_k rows = max (Max (set (map fb_decimals rows))) 2"

definition ltrim_minus :: "string \<Rightarrow> string" where
  "ltrim_minus v = dropWhile (\<lambda>c. c = CHR ''-'') v"

definition g_int_digits :: "fb_row list \<Rightarrow> int" where
  "g_int_digits rows = Max (set (map (\<lambda>r. int (length (ltrim_minus (fb_text r))) - fb_decimals r) rows))"

definition x_exact :: "fb_row list \<Rightarrow> bool" where
  "x_exact rows \<longleftrightarrow> g_k rows \<le> 6 \<and> g_int_digits rows \<le> 4 \<and> length rows \<le> 10000000"

definition scaled :: "int \<Rightarrow> fb_row \<Rightarrow> int" where
  "scaled k r = cast_integer (fb_text r @ take (nat (k - fb_decimals r)) (zeros 6))"

definition x_s :: "fb_row list \<Rightarrow> int" where
  "x_s rows = sum_list (map (scaled (g_k rows)) rows)"

definition x_m :: "fb_row list \<Rightarrow> int" where
  "x_m rows = int (length rows) * cast_integer (''1'' @ take (nat (g_k rows - 2)) (zeros 4))"

text \<open>\<open>sc.score\<close>: the integer division truncates, and both operands are positive.\<close>

definition sc_score :: "(fb_row list \<Rightarrow> rat) \<Rightarrow> fb_row list \<Rightarrow> rat" where
  "sc_score avg_real rows =
     (if x_exact rows then of_int ((if x_s rows < 0 then -1 else 1) * ((2 * \<bar>x_s rows\<bar> + x_m rows) div (2 * x_m rows))) / 100
      else avg_real rows)"

record score_row =
  s_total :: rat
  s_avg :: rat
  s_feedback_count :: nat
  s_unique_clients :: nat
  s_exact :: bool

definition leaderboard_scores :: "(fb_row list \<Rightarrow> rat) \<Rightarrow> db \<Rightarrow> int \<Rightarrow> score_row" where
  "leaderboard_scores avg_real d a =
     (let rows = fb d a in
      if rows = [] then \<lparr>s_total = 0, s_avg = 0, s_feedback_count = 0, s_unique_clients = 0, s_exact = True\<rparr>
      else \<lparr>s_total = sc_score avg_real rows, s_avg = sc_score avg_real rows, s_feedback_count = length rows,
            s_unique_clients = length (remdups (map fst rows)), s_exact = x_exact rows\<rparr>)"

section \<open>Decimal texts\<close>

lemma value_check_cases:
  assumes "value_check v"
  obtains ds where "v = ds" "ds \<noteq> []" "\<forall>c \<in> set ds. is_digit c" "ltrim_minus v = ds"
  | ds where "v = CHR ''-'' # ds" "ds \<noteq> []" "\<forall>c \<in> set ds. is_digit c" "ltrim_minus v = ds"
proof -
  have minus: "\<not> is_digit (CHR ''-'')" by (simp add: is_digit_def code_of_def)
  from assms obtain c cs where v: "v = c # cs" by (cases v) (auto simp: value_check_def)
  show thesis
  proof (cases "is_digit c")
    case True
    with minus have "c \<noteq> CHR ''-''" by auto
    with assms v have "\<forall>c \<in> set v. is_digit c" "ltrim_minus v = v" by (auto simp: value_check_def ltrim_minus_def)
    with v that(1) show thesis by auto
  next
    case False
    with assms v obtain e es where c: "c = CHR ''-''" "cs = e # es" "is_digit e"
      by (auto simp: value_check_def split: list.splits)
    with minus have "e \<noteq> CHR ''-''" by auto
    with assms v c have "\<forall>c \<in> set cs. is_digit c" "ltrim_minus v = cs" by (auto simp: value_check_def ltrim_minus_def)
    with v c that(2) show thesis by auto
  qed
qed

lemma read_nat_bound: "\<forall>c \<in> set ds. is_digit c \<Longrightarrow> read_nat ds < 10 ^ length ds"
proof -
  assume "\<forall>c \<in> set ds. is_digit c"
  then have "\<forall>d \<in> set (map (\<lambda>c. code_of c - 48) ds). d < 10" by (auto simp: is_digit_def)
  from val_of_bound [OF this] show ?thesis by (simp add: read_nat_def)
qed

lemma read_nat_zeros: "read_nat (ds @ replicate n (CHR ''0'')) = read_nat ds * 10 ^ n"
proof (induction n)
  case (Suc n)
  have "ds @ replicate (Suc n) (CHR ''0'') = (ds @ replicate n (CHR ''0'')) @ ''0''"
    by (simp add: replicate_append_same)
  then have "read_nat (ds @ replicate (Suc n) (CHR ''0'')) = read_nat ((ds @ replicate n (CHR ''0'')) @ ''0'')" by simp
  also have "\<dots> = read_nat (ds @ replicate n (CHR ''0'')) * 10" by (simp add: read_nat_def code_of_def del: append_assoc)
  finally show ?case using Suc by simp
qed simp

lemma takeWhile_digits: "\<forall>c \<in> set ds. is_digit c \<Longrightarrow> takeWhile is_digit ds = ds"
  by (simp add: takeWhile_eq_all_conv)

lemma text_int_digits: "\<forall>c \<in> set ds. is_digit c \<Longrightarrow> text_int ds = int (read_nat ds)"
  by (cases ds) (auto simp: text_int_def takeWhile_digits is_digit_def code_of_def read_nat_def)

lemma text_int_minus: "\<forall>c \<in> set ds. is_digit c \<Longrightarrow> text_int (CHR ''-'' # ds) = - int (read_nat ds)"
  by (simp add: text_int_def takeWhile_digits)

lemma text_int_zeros: "value_check v \<Longrightarrow> text_int (v @ replicate n (CHR ''0'')) = text_int v * 10 ^ n"
proof -
  have z: "is_digit (CHR ''0'')" by (simp add: is_digit_def code_of_def)
  have "\<forall>c \<in> set (ds @ replicate n (CHR ''0'')). is_digit c" if "\<forall>c \<in> set ds. is_digit c" for ds using that z by auto
  note all = this [THEN text_int_digits] this [THEN text_int_minus]
  assume "value_check v"
  then show ?thesis
    by (cases rule: value_check_cases) (simp_all add: all text_int_digits text_int_minus read_nat_zeros)
qed

lemma text_int_bound: "value_check v \<Longrightarrow> \<bar>text_int v\<bar> < 10 ^ length (ltrim_minus v)"
proof -
  assume "value_check v"
  then show ?thesis
    by (cases rule: value_check_cases) (simp_all add: text_int_digits text_int_minus read_nat_bound)
qed

section \<open>The exact path\<close>

text \<open>A row that the schema admits.\<close>

definition fb_ok :: "fb_row \<Rightarrow> bool" where
  "fb_ok r \<longleftrightarrow> value_check (fb_text r) \<and> 0 \<le> fb_decimals r"

lemma fb_rows_ok: "db_inv d \<Longrightarrow> r \<in> set (fb d a) \<Longrightarrow> fb_ok r"
  by (auto simp: fb_def fb_ok_def fb_text_def fb_decimals_def db_inv_defs feedback_check_def split: option.splits prod.splits)

definition fb_value :: "fb_row \<Rightarrow> rat" where
  "fb_value r = of_int (text_int (fb_text r)) / 10 ^ nat (fb_decimals r)"

lemma row_bounds:
  assumes "x_exact rows" "r \<in> set rows"
  shows "fb_decimals r \<le> g_k rows" "int (length (ltrim_minus (fb_text r))) - fb_decimals r \<le> 4" "2 \<le> g_k rows" "g_k rows \<le> 6"
proof -
  have "fb_decimals r \<le> Max (set (map fb_decimals rows))" using assms(2) by (intro Max_ge) auto
  then show "fb_decimals r \<le> g_k rows" by (simp add: g_k_def)
  have "int (length (ltrim_minus (fb_text r))) - fb_decimals r \<le> g_int_digits rows"
    unfolding g_int_digits_def using assms(2) by (intro Max_ge) auto
  then show "int (length (ltrim_minus (fb_text r))) - fb_decimals r \<le> 4" using assms(1) by (simp add: x_exact_def)
qed (use assms in \<open>simp_all add: g_k_def x_exact_def\<close>)

lemma scaled_exact:
  assumes "x_exact rows" "r \<in> set rows" "fb_ok r"
  shows "scaled (g_k rows) r = text_int (fb_text r) * 10 ^ nat (g_k rows - fb_decimals r)"
    and "\<bar>scaled (g_k rows) r\<bar> \<le> 10 ^ 10"
proof -
  define n where "n = nat (g_k rows - fb_decimals r)"
  note b = row_bounds [OF assms(1,2)]
  have d: "0 \<le> fb_decimals r" "value_check (fb_text r)" using assms(3) by (simp_all add: fb_ok_def)
  have n6: "n \<le> 6" using b d by (simp add: n_def)
  have len: "length (ltrim_minus (fb_text r)) + n \<le> 10" using b d by (simp add: n_def)
  have z: "take n (zeros 6) = replicate n (CHR ''0'')" using n6 by (simp add: zeros_def min_absorb1)
  have v: "text_int (fb_text r @ take n (zeros 6)) = text_int (fb_text r) * 10 ^ n" by (simp add: z text_int_zeros [OF d(2)])
  have "\<bar>text_int (fb_text r) * 10 ^ n\<bar> = \<bar>text_int (fb_text r)\<bar> * 10 ^ n" by (simp add: abs_mult)
  also have "\<dots> \<le> 10 ^ length (ltrim_minus (fb_text r)) * 10 ^ n"
    using text_int_bound [OF d(2)] by (intro mult_right_mono) simp_all
  also have "\<dots> = 10 ^ (length (ltrim_minus (fb_text r)) + n)" by (simp add: power_add)
  also have "\<dots> \<le> 10 ^ 10" using len by (intro power_increasing) simp_all
  finally have bound: "\<bar>text_int (fb_text r) * 10 ^ n\<bar> \<le> 10 ^ 10" .
  then have "cast_integer (fb_text r @ take n (zeros 6)) = text_int (fb_text r) * 10 ^ n"
    by (simp add: cast_integer_def v)
  then show s: "scaled (g_k rows) r = text_int (fb_text r) * 10 ^ nat (g_k rows - fb_decimals r)"
    by (simp add: scaled_def n_def)
  show "\<bar>scaled (g_k rows) r\<bar> \<le> 10 ^ 10" using bound by (simp only: s n_def)
qed

lemma sum_list_bound: "\<forall>x \<in> set xs. \<bar>x\<bar> \<le> b \<Longrightarrow> \<bar>sum_list xs\<bar> \<le> int (length xs) * b" for b :: int
proof (induction xs)
  case (Cons x xs)
  then have "\<bar>x\<bar> \<le> b" "\<bar>sum_list xs\<bar> \<le> int (length xs) * b" by simp_all
  then show ?case using abs_triangle_ineq [of x "sum_list xs"] by (simp add: algebra_simps)
qed simp

lemma x_s_bound:
  assumes "x_exact rows" "\<forall>r \<in> set rows. fb_ok r"
  shows "\<bar>x_s rows\<bar> \<le> 10 ^ 17"
proof -
  have "\<bar>x_s rows\<bar> \<le> int (length rows) * 10 ^ 10"
    unfolding x_s_def using sum_list_bound [of "map (scaled (g_k rows)) rows" "10 ^ 10"] scaled_exact(2) [OF assms(1)] assms(2) by auto
  also have "\<dots> \<le> 10 ^ 7 * 10 ^ 10" using assms(1) by (intro mult_right_mono) (simp_all add: x_exact_def)
  finally show ?thesis by simp
qed

lemma x_m_exact: "x_exact rows \<Longrightarrow> rows \<noteq> [] \<Longrightarrow> x_m rows = int (length rows) * 10 ^ nat (g_k rows - 2)"
proof -
  assume exact: "x_exact rows" "rows \<noteq> []"
  define n where "n = nat (g_k rows - 2)"
  have n: "n \<le> 4" using exact by (auto simp: n_def x_exact_def)
  then have z: "take n (zeros 4) = replicate n (CHR ''0'')" by (simp add: zeros_def min_absorb1)
  have one: "value_check ''1''" "text_int ''1'' = 1"
    by (simp_all add: value_check_def text_int_def is_digit_def code_of_def read_nat_def val_of_def)
  define p where "p = (10 :: int) ^ n"
  have "p \<le> 10 ^ 4" unfolding p_def using n by (intro power_increasing) simp_all
  moreover have "0 \<le> p" by (simp add: p_def)
  moreover have "text_int (''1'' @ take n (zeros 4)) = p" unfolding z text_int_zeros [OF one(1)] by (simp add: one(2) p_def)
  ultimately have "cast_integer (''1'' @ take n (zeros 4)) = p" by (simp add: cast_integer_def)
  then have "cast_integer (''1'' @ take n (zeros 4)) = 10 ^ n" by (simp add: p_def)
  then show ?thesis by (simp add: x_m_def n_def)
qed

text \<open>The reference: the mean, rounded half away from zero to two decimals.\<close>

definition mean :: "rat list \<Rightarrow> rat" where
  "mean xs = sum_list xs / of_nat (length xs)"

definition round2 :: "rat \<Rightarrow> rat" where
  "round2 x = (if x < 0 then -1 else 1) * of_int \<lfloor>\<bar>x\<bar> * 100 + 1 / 2\<rfloor> / 100"

lemma half_up_div:
  assumes "0 < m" "0 \<le> s"
  shows "(2 * s + m) div (2 * m) = \<lfloor>of_int s / of_int m + 1 / (2 :: rat)\<rfloor>"
proof -
  have "of_int s / of_int m + 1 / (2 :: rat) = of_int (2 * s + m) / of_int (2 * m)"
    using assms by (simp add: field_simps)
  then show ?thesis by (simp only: floor_divide_of_int_eq)
qed

lemma x_s_mean:
  assumes "x_exact rows" "rows \<noteq> []" "\<forall>r \<in> set rows. fb_ok r"
  shows "of_int (x_s rows) = mean (map fb_value rows) * 100 * of_int (x_m rows)"
proof -
  define k where "k = nat (g_k rows)"
  have k2: "2 \<le> g_k rows" by (simp add: g_k_def)
  have row: "of_int (scaled (g_k rows) r) = fb_value r * 10 ^ k" if "r \<in> set rows" for r
  proof -
    have d: "0 \<le> fb_decimals r" "fb_decimals r \<le> g_k rows" using that assms row_bounds by (auto simp: fb_ok_def)
    then have "k = nat (fb_decimals r) + nat (g_k rows - fb_decimals r)" by (simp add: k_def)
    then have "(10 :: rat) ^ k = 10 ^ nat (fb_decimals r) * 10 ^ nat (g_k rows - fb_decimals r)" by (simp add: power_add)
    then show ?thesis
      using scaled_exact(1) [OF assms(1) that] that assms(3) by (simp add: fb_value_def)
  qed
  have "of_int (sum_list (map f xs)) = sum_list (map (\<lambda>r. of_int (f r) :: rat) xs)" for f :: "fb_row \<Rightarrow> int" and xs
    by (induction xs) simp_all
  then have "(of_int (x_s rows) :: rat) = sum_list (map (\<lambda>r. of_int (scaled (g_k rows) r)) rows)"
    by (simp add: x_s_def)
  also have "\<dots> = sum_list (map (\<lambda>r. fb_value r * 10 ^ k) rows)" using row by (metis (mono_tags, lifting) map_eq_conv)
  also have "\<dots> = sum_list (map fb_value rows) * 10 ^ k" by (simp add: sum_list_mult_const)
  also have "\<dots> = mean (map fb_value rows) * of_nat (length rows) * 10 ^ k" using assms(2) by (simp add: mean_def)
  finally have "of_int (x_s rows) = mean (map fb_value rows) * of_nat (length rows) * (10 :: rat) ^ k" .
  moreover have "k = 2 + nat (g_k rows - 2)" using k2 by (simp add: k_def)
  then have "(10 :: rat) ^ k = 100 * 10 ^ nat (g_k rows - 2)" by (simp add: power_add)
  ultimately show ?thesis by (simp add: x_m_exact [OF assms(1,2)])
qed

lemma sc_score_exact:
  assumes "x_exact rows" "rows \<noteq> []" "\<forall>r \<in> set rows. fb_ok r"
  shows "sc_score avg_real rows = round2 (mean (map fb_value rows))"
proof -
  let ?mean = "mean (map fb_value rows)" and ?s = "x_s rows" and ?m = "x_m rows"
  have m: "0 < ?m" using x_m_exact [OF assms(1,2)] assms(2) by simp
  have s: "of_int ?s = ?mean * 100 * of_int ?m" by (rule x_s_mean [OF assms])
  then have abs: "of_int \<bar>?s\<bar> / of_int ?m = \<bar>?mean\<bar> * 100" using m by (simp add: abs_mult)
  have "?s < 0 \<longleftrightarrow> (of_int ?s :: rat) < 0" by simp
  also have "\<dots> \<longleftrightarrow> ?mean < 0" using m by (simp add: s mult_less_0_iff)
  finally have neg: "?s < 0 \<longleftrightarrow> ?mean < 0" .
  have "(2 * \<bar>?s\<bar> + ?m) div (2 * ?m) = \<lfloor>\<bar>?mean\<bar> * 100 + 1 / 2\<rfloor>"
    using half_up_div [OF m abs_ge_zero [of ?s]] by (simp only: abs)
  then show ?thesis using assms(1) by (simp add: sc_score_def round2_def neg)
qed

section \<open>Properties\<close>

text \<open>C33. The leaderboard score is exact: where an agent's values have at most six decimals and four integer digits and there
  are at most ten million of them, the score of the view is the mean of value / 10 to the decimals over the feedback that is neither revoked nor given
  by the current owner, rounded half away from zero to two decimals, and the 64-bit sum it is computed from does not overflow.\<close>

theorem leaderboard_exact:
  assumes "db_inv d" "fb d a \<noteq> []" "x_exact (fb d a)"
  shows "s_total (leaderboard_scores avg_real d a) = round2 (mean (map fb_value (fb d a))) \<and>
     s_avg (leaderboard_scores avg_real d a) = s_total (leaderboard_scores avg_real d a) \<and> \<bar>2 * x_s (fb d a)\<bar> < 2 ^ 63"
proof -
  have ok: "\<forall>r \<in> set (fb d a). fb_ok r" using fb_rows_ok [OF assms(1)] by blast
  show ?thesis
    using x_s_bound [OF assms(3) ok] assms(2) by (simp add: leaderboard_scores_def sc_score_exact [OF assms(3,2) ok] Let_def)
qed

definition sample_feedback :: "string \<Rightarrow> int \<Rightarrow> feedback_row" where
  "sample_feedback v dec = \<lparr>f_value = v, f_decimals = dec, f_tag1 = None, f_tag2 = None, f_endpoint = None, f_uri = None, f_hash = None,
     f_revoked = False, f_created_at = [], f_created_ledger = None, f_tx_hash = None, f_revoked_ledger = None\<rparr>"

definition sample_board :: db where
  "sample_board = \<lparr>agents = [(1, new_agent ''O'' ''u'' False [] 0 [] [])], agent_metadata = [],
     feedback = [((1, ''A'', 1), sample_feedback ''-100'' 0), ((1, ''A'', 2), sample_feedback ''33335'' 3),
       ((1, ''O'', 1), sample_feedback ''100'' 0)],
     responses = [], validations = [], indexer_state = [], indexer_locks = [], dead_letters = []\<rparr>"

lemma sample_board_rows: "fb sample_board 1 = [(''A'', ''-100'', 0), (''A'', ''33335'', 3)]"
  by (simp add: fb_def sample_board_def sample_feedback_def new_agent_def)

lemma sample_board_exact: "x_exact (fb sample_board 1)"
  by (simp add: sample_board_rows x_exact_def g_k_def g_int_digits_def fb_decimals_def fb_text_def ltrim_minus_def)

lemma sample_board_inv: "db_inv sample_board"
  by (simp add: sample_board_def sample_feedback_def db_inv_defs agent_check_def feedback_check_def text_cap_def new_agent_def
      has_def value_check_def is_digit_def code_of_def)

lemma sample_board_mean: "mean (map fb_value (fb sample_board 1)) = - 66665 / 2000"
  by (simp add: sample_board_rows mean_def fb_value_def fb_text_def fb_decimals_def text_int_def is_digit_def code_of_def
      read_nat_def val_of_def)

theorem leaderboard_exact_witness:
  "s_total (leaderboard_scores (\<lambda>_. 0) sample_board 1) = round2 (- 66665 / 2000) \<and> round2 (- 66665 / 2000) = - 3333 / 100"
proof -
  have "\<lfloor>(66665 / 2000 * 100 + 1 / 2 :: rat)\<rfloor> = 3333" by (simp add: floor_eq_iff)
  then have "round2 (- 66665 / 2000) = - 3333 / 100" by (simp add: round2_def)
  with leaderboard_exact [OF sample_board_inv _ sample_board_exact, of "\<lambda>_. 0"] show ?thesis
    by (simp add: sample_board_mean) (simp add: sample_board_rows)
qed

end
