(* ===== verification/Base64.thy ===== *)
theory Base64
  imports Js_Runtime
begin

text \<open>
  The platform's \<open>btoa\<close> and \<open>atob\<close> on strings of code units below 256, as the HTML standard defines them: \<open>atob\<close> ignores white
  space, accepts a missing padding and discards left-over bits. The main fact is that \<open>atob\<close> undoes \<open>btoa\<close>, with the padding or
  without it. The SDK writes agent URIs with \<open>btoa\<close>, the indexer reads them with \<open>atob\<close>, and the discovery cursor uses both.
\<close>

definition BASE64 :: string where
  "BASE64 = ''ABCDEFGHIJKLMNOPQRSTUVWXYZabcdefghijklmnopqrstuvwxyz0123456789+/''"

fun sextets :: "nat list \<Rightarrow> nat list" where
  "sextets [] = []"
| "sextets [a] = [a div 4, (a mod 4) * 16]"
| "sextets [a, b] = [a div 4, (a mod 4) * 16 + b div 16, (b mod 16) * 4]"
| "sextets (a # b # c # rest) =
     [a div 4, (a mod 4) * 16 + b div 16, (b mod 16) * 4 + c div 64, c mod 64] @ sextets rest"

fun octets :: "nat list \<Rightarrow> nat list" where
  "octets [] = []"
| "octets [w] = []"
| "octets [w, x] = [w * 4 + x div 16]"
| "octets [w, x, y] = [w * 4 + x div 16, (x mod 16) * 16 + y div 4]"
| "octets (w # x # y # z # rest) = [w * 4 + x div 16, (x mod 16) * 16 + y div 4, (y mod 4) * 64 + z] @ octets rest"

definition padding :: "nat \<Rightarrow> string" where
  "padding n = replicate ((3 - n mod 3) mod 3) (CHR ''='')"

definition btoa :: "string \<Rightarrow> string" where
  "btoa s = map (\<lambda>i. BASE64 ! i) (sextets (map code_of s)) @ padding (length s)"

definition ascii_space :: "char \<Rightarrow> bool" where
  "ascii_space c \<longleftrightarrow> code_of c \<in> {9, 10, 12, 13, 32}"

definition strip_end :: "string \<Rightarrow> string" where
  "strip_end s = rev (dropWhile (\<lambda>c. c = CHR ''='') (rev s))"

definition unpad :: "string \<Rightarrow> string" where
  "unpad s = (if length s mod 4 \<noteq> 0 then s
     else if suffix ''=='' s then take (length s - 2) s
     else if suffix ''='' s then take (length s - 1) s else s)"

definition atob :: "string \<Rightarrow> string option" where
  "atob s =
     (let t = unpad (filter (\<lambda>c. \<not> ascii_space c) s)
      in if length t mod 4 = 1 \<or> (\<exists>c \<in> set t. c \<notin> set BASE64) then None
         else Some (map char_of (octets (map (\<lambda>c. the (indexOf BASE64 c)) t))))"

section \<open>Round trip\<close>

lemma octets_sextets: "\<forall>b \<in> set bs. b < 256 \<Longrightarrow> octets (sextets bs) = bs"
proof (induction bs rule: sextets.induct)
  case (4 a b c rest)
  have "((a mod 4) * 16 + b div 16) div 16 = a mod 4" "((a mod 4) * 16 + b div 16) mod 16 = b div 16" using 4 by auto
  moreover have "((b mod 16) * 4 + c div 64) div 4 = b mod 16" "((b mod 16) * 4 + c div 64) mod 4 = c div 64" using 4 by auto
  moreover have "a div 4 * 4 + a mod 4 = a" "b div 16 * 16 + b mod 16 = b" "c div 64 * 64 + c mod 64 = c" by simp_all
  ultimately show ?case using 4 by simp
qed auto

lemma sextets_bound: "\<forall>b \<in> set bs. b < 256 \<Longrightarrow> i \<in> set (sextets bs) \<Longrightarrow> i < 64"
proof (induction bs rule: sextets.induct)
  case (4 a b c rest)
  have "a div 4 < 64" "(a mod 4) * 16 + b div 16 < 64" "(b mod 16) * 4 + c div 64 < 64" "c mod 64 < 64" using 4 by auto
  with 4 show ?case by auto
qed auto

lemma length_sextets: "length (sextets bs) = (4 * length bs + 2) div 3"
  by (induction bs rule: sextets.induct) auto

lemma base64_facts: "length BASE64 = 64" "distinct BASE64" "CHR ''='' \<notin> set BASE64" "CHR ''-'' \<notin> set BASE64" "CHR ''_'' \<notin> set BASE64"
  "\<forall>c \<in> set BASE64. \<not> ascii_space c"
  by (simp_all add: BASE64_def ascii_space_def code_of_def)

lemma indexOf_BASE64: "i < 64 \<Longrightarrow> indexOf BASE64 (BASE64 ! i) = Some i"
  by (rule indexOf_nth) (simp_all add: base64_facts)

definition b64_text :: "string \<Rightarrow> string" where
  "b64_text s = map (\<lambda>i. BASE64 ! i) (sextets (map code_of s))"

lemma code_of_bound: "code_of c < 256"
  by (simp add: code_of_def)

lemma b64_indices: "\<forall>i \<in> set (sextets (map code_of s)). i < 64"
  using sextets_bound [of "map code_of s"] code_of_bound by auto

lemma b64_text_chars: "c \<in> set (b64_text s) \<Longrightarrow> c \<in> set BASE64"
  using b64_indices [of s] by (auto simp: b64_text_def base64_facts)

lemma b64_text_decode: "map char_of (octets (map (\<lambda>c. the (indexOf BASE64 c)) (b64_text s))) = s"
proof -
  have "map (\<lambda>c. the (indexOf BASE64 c)) (b64_text s) = sextets (map code_of s)"
    unfolding b64_text_def map_map comp_def by (rule map_idI) (use b64_indices in \<open>auto simp: indexOf_BASE64\<close>)
  moreover have "octets (sextets (map code_of s)) = map code_of s"
    by (rule octets_sextets) (auto simp: code_of_bound)
  ultimately show ?thesis by (simp add: comp_def code_of_def)
qed

lemma unpad_plain: "CHR ''='' \<notin> set t \<Longrightarrow> unpad t = t"
proof -
  assume t: "CHR ''='' \<notin> set t"
  have "\<not> suffix ''='' t" "\<not> suffix ''=='' t" using t set_mono_suffix [of _ t] by (metis in_mono list.set_intros(1))+
  then show ?thesis by (simp add: unpad_def)
qed

lemma unpad_one: "CHR ''='' \<notin> set t \<Longrightarrow> length t mod 4 = 3 \<Longrightarrow> unpad (t @ ''='') = t"
proof -
  assume t: "CHR ''='' \<notin> set t" "length t mod 4 = 3"
  have "\<not> suffix ''=='' (t @ ''='')"
  proof
    assume "suffix ''=='' (t @ ''='')"
    then obtain zs where "t @ ''='' = zs @ ''==''" by (auto simp: suffix_def)
    then have "t @ ''='' = (zs @ ''='') @ ''=''" by simp
    then have "t = zs @ ''=''" by (simp only: append_same_eq)
    with t(1) show False by simp
  qed
  moreover have "(length t + 1) mod 4 = 0" using t(2) by presburger
  ultimately show ?thesis by (simp add: unpad_def suffix_def)
qed

lemma unpad_two: "length t mod 4 = 2 \<Longrightarrow> unpad (t @ ''=='') = t"
proof -
  assume "length t mod 4 = 2"
  then have "(length t + 2) mod 4 = 0" by presburger
  then show ?thesis by (simp add: unpad_def suffix_def)
qed

lemma b64_text_no_pad: "CHR ''='' \<notin> set (b64_text s)"
  using b64_text_chars base64_facts(3) by blast

lemma length_b64_text: "length (b64_text s) = (4 * length s + 2) div 3"
  by (simp add: b64_text_def length_sextets)

lemma btoa_b64_text: "btoa s = b64_text s @ padding (length s)"
  by (simp add: btoa_def b64_text_def)

lemma unpad_btoa: "unpad (btoa s) = b64_text s"
proof -
  consider "length s mod 3 = 0" | "length s mod 3 = 1" | "length s mod 3 = 2" by linarith
  then show ?thesis
  proof cases
    case 1
    then show ?thesis by (simp add: btoa_b64_text padding_def unpad_plain b64_text_no_pad)
  next
    case 2
    then have "length (b64_text s) mod 4 = 2" by (simp add: length_b64_text) presburger
    with 2 show ?thesis by (simp add: btoa_b64_text padding_def unpad_two numeral_2_eq_2)
  next
    case 3
    then have "length (b64_text s) mod 4 = 3" by (simp add: length_b64_text) presburger
    with 3 show ?thesis by (simp add: btoa_b64_text padding_def unpad_one b64_text_no_pad)
  qed
qed

lemma strip_btoa: "strip_end (btoa s) = b64_text s"
proof -
  have "dropWhile (\<lambda>c. c = CHR ''='') (replicate n (CHR ''='') @ t) = dropWhile (\<lambda>c. c = CHR ''='') t" for n t
    by (induction n) simp_all
  moreover have "dropWhile (\<lambda>c. c = CHR ''='') (rev (b64_text s)) = rev (b64_text s)"
    using b64_text_no_pad [of s] by (metis (full_types) dropWhile_eq_self_iff hd_in_set set_rev)
  ultimately show ?thesis by (simp add: strip_end_def btoa_b64_text padding_def)
qed

lemma b64_no_space: "filter (\<lambda>c. \<not> ascii_space c) (b64_text s) = b64_text s" "filter (\<lambda>c. \<not> ascii_space c) (btoa s) = btoa s"
proof -
  have "\<not> ascii_space c" if "c \<in> set (b64_text s)" for c using b64_text_chars [OF that] base64_facts(6) by blast
  then show plain: "filter (\<lambda>c. \<not> ascii_space c) (b64_text s) = b64_text s" by (simp add: filter_id_conv)
  then show "filter (\<lambda>c. \<not> ascii_space c) (btoa s) = btoa s"
    by (simp add: btoa_b64_text padding_def ascii_space_def code_of_def)
qed

lemma b64_text_atob: "unpad (filter (\<lambda>c. \<not> ascii_space c) t) = b64_text s \<Longrightarrow> atob t = Some s"
proof -
  assume t: "unpad (filter (\<lambda>c. \<not> ascii_space c) t) = b64_text s"
  have "length (b64_text s) mod 4 \<noteq> 1" by (simp add: length_b64_text) presburger
  with t b64_text_chars [of _ s] show ?thesis by (auto simp: atob_def b64_text_decode)
qed

lemma atob_btoa: "atob (btoa s) = Some s"
  by (rule b64_text_atob) (simp add: b64_no_space unpad_btoa)

lemma atob_stripped: "atob (strip_end (btoa s)) = Some s"
  by (rule b64_text_atob) (simp add: strip_btoa b64_no_space unpad_plain b64_text_no_pad)

lemma btoa_chars: "c \<in> set (btoa s) \<Longrightarrow> c \<in> set BASE64 \<or> c = CHR ''=''"
  using b64_text_chars by (auto simp: btoa_b64_text padding_def)

lemma length_sextets_pad: "length (sextets bs) + (3 - length bs mod 3) mod 3 = 4 * ((length bs + 2) div 3)"
proof (induction bs rule: sextets.induct)
  case (4 a b c rest)
  have "Suc (Suc (Suc n)) mod 3 = n mod 3" "(Suc (Suc (Suc n)) + 2) div 3 = (n + 2) div 3 + 1" for n :: nat by presburger+
  with 4 show ?case by simp
qed simp_all

lemma length_btoa: "length (btoa s) = 4 * ((length s + 2) div 3)"
  using length_sextets_pad [of "map code_of s"] by (simp add: btoa_def padding_def)

end
