(* ===== verification/Api_Response.thy ===== *)
theory Api_Response
  imports Leaderboard Uri
begin

text \<open>
  The envelope of the public API: \<open>webapp/apps/web/src/lib/server/api/response.ts\<close> and \<open>serve.ts\<close>, with \<open>rate-limit.ts\<close>.

  A response is a status, its headers and its JSON body. What a response takes from its surroundings is a \<open>req_context\<close>: the
  network the explorer serves, the time and the random request id. An agents row is the id with the row of \<open>Db_Schema\<close>, a
  score row that of \<open>Leaderboard\<close>. Object spread and property assignment keep the position of an existing key.
\<close>

section \<open>Responses\<close>

record http_response =
  hr_status :: int
  hr_headers :: "(string \<times> string) list"
  hr_body :: "native option"

record req_context =
  cx_network :: string
  cx_timestamp :: string
  cx_request_id :: string
  cx_reset :: string \<comment> \<open>the time in 60 seconds\<close>

abbreviation nint :: "int \<Rightarrow> native" where
  "nint i \<equiv> NNum (JFin (of_int i))"

abbreviation nrat :: "rat \<Rightarrow> native" where
  "nrat r \<equiv> NNum (JFin r)"

definition spread :: "(string \<times> native) list \<Rightarrow> (string \<times> native) list \<Rightarrow> (string \<times> native) list" where
  "spread fs extra = fold (\<lambda>(k, v) acc. AList.update k v acc) extra fs"

definition meta :: "req_context \<Rightarrow> (string \<times> native) list \<Rightarrow> native" where
  "meta cx extra = NObj (spread
     [(''version'', NStr ''1.0.0''), (''chain'', NStr ''stellar''), (''network'', NStr (cx_network cx)),
      (''timestamp'', NStr (cx_timestamp cx)), (''requestId'', NStr (cx_request_id cx))] extra)"

definition successWithCache :: "req_context \<Rightarrow> native \<Rightarrow> nat \<Rightarrow> nat \<Rightarrow> (string \<times> native) list \<Rightarrow> http_response" where
  "successWithCache cx data maxAge swr extra =
     \<lparr>hr_status = 200,
      hr_headers = [(''Content-Type'', ''application/json''), (''Access-Control-Allow-Origin'', ''*''),
        (''Cache-Control'', ''public, max-age='' @ show_nat maxAge @ '', stale-while-revalidate='' @ show_nat swr)],
      hr_body = Some (NObj [(''success'', NBool True), (''data'', data), (''meta'', meta cx extra)])\<rparr>"

definition errorResponse :: "req_context \<Rightarrow> string \<Rightarrow> string \<Rightarrow> int \<Rightarrow> http_response" where
  "errorResponse cx code message status =
     \<lparr>hr_status = status,
      hr_headers = [(''Content-Type'', ''application/json''), (''Access-Control-Allow-Origin'', ''*''),
        (''Cache-Control'', ''no-cache, no-store, must-revalidate'')],
      hr_body = Some (NObj [(''success'', NBool False), (''error'', NObj [(''code'', NStr code), (''message'', NStr message)]),
        (''meta'', meta cx [])])\<rparr>"

definition paginate :: "nat \<Rightarrow> nat \<Rightarrow> nat \<Rightarrow> native" where
  "paginate n page limit = NObj [(''page'', nint (int page)), (''limit'', nint (int limit)), (''total'', nint (int n)),
     (''hasMore'', NBool (page * limit < n))]"

subsection \<open>Numbers in parameters\<close>

definition is_space :: "char \<Rightarrow> bool" where
  "is_space c \<longleftrightarrow> code_of c \<in> {9, 10, 11, 12, 13, 32, 160}"

text \<open>\<open>parseInt(value, 10)\<close>: white space, a sign and digits at the front; \<open>None\<close> is NaN. The value is exact here; the engine
  rounds it to a double, which is the same up to \<open>2^53\<close> and is clamped away beyond.\<close>

definition parseInt10 :: "string \<Rightarrow> int option" where
  "parseInt10 s =
     (let t = dropWhile is_space s;
          neg = (t \<noteq> [] \<and> hd t = CHR ''-'');
          u = (if t \<noteq> [] \<and> (hd t = CHR ''-'' \<or> hd t = CHR ''+'') then tl t else t);
          ds = takeWhile is_digit u
      in if ds = [] then None else Some (if neg then - int (read_nat ds) else int (read_nat ds)))"

definition parseIntParam :: "string option \<Rightarrow> int \<Rightarrow> int \<Rightarrow> int \<Rightarrow> int" where
  "parseIntParam v defaultVal lo hi =
     (if v = None \<or> v = Some [] then defaultVal
      else (case parseInt10 (the v) of None \<Rightarrow> defaultVal | Some n \<Rightarrow> max lo (min hi n)))"

section \<open>Agents\<close>

definition escape_char :: "char \<Rightarrow> string" where
  "escape_char c = (if c = CHR ''<'' then ''&lt;'' else if c = CHR ''>'' then ''&gt;'' else if c = CHR 0x22 then ''&quot;'' else [c])"

definition sanitizeString :: "native \<Rightarrow> nat \<Rightarrow> string option" where
  "sanitizeString val maxLen = (case val of NStr s \<Rightarrow> Some (concat (map escape_char (take maxLen s))) | _ \<Rightarrow> None)"

definition text_or_null :: "string option \<Rightarrow> native" where
  "text_or_null v = (case v of None \<Rightarrow> NNull | Some s \<Rightarrow> NStr s)"

definition text_or_undef :: "string option \<Rightarrow> native" where
  "text_or_undef v = (case v of None \<Rightarrow> NUndef | Some s \<Rightarrow> NStr s)"

definition text_default :: "string \<Rightarrow> string option \<Rightarrow> string" where
  "text_default s v = (case v of None \<Rightarrow> s | Some t \<Rightarrow> t)"

definition normalize_service :: "native \<Rightarrow> native" where
  "normalize_service s = NObj
     [(''name'', NStr (text_default ''unknown'' (sanitizeString (getProp s ''name'') 256))),
      (''endpoint'', NStr (text_default [] (sanitizeString (getProp s ''endpoint'') 2048))),
      (''version'', text_or_undef (sanitizeString (getProp s ''version'') 64)),
      (''description'', text_or_undef (sanitizeString (getProp s ''description'') 2048)),
      (''inputExample'', text_or_undef (sanitizeString (getProp s ''inputExample'') 4096))]"

definition normalizeServices :: "native \<Rightarrow> native list" where
  "normalizeServices raw = (case raw of
      NArr ss \<Rightarrow> filter (\<lambda>s. nonempty_text (getProp s ''endpoint'')) (map normalize_service (filter is_object ss))
    | _ \<Rightarrow> [])"

definition readUriData :: "agent_row \<Rightarrow> string \<Rightarrow> native" where
  "readUriData r field = (case a_uri_data r of Some (NObj fs) \<Rightarrow> getProp (NObj fs) field | _ \<Rightarrow> NUndef)"

definition score_fields :: "score_row \<Rightarrow> (string \<times> native) list" where
  "score_fields s = [(''totalScore'', nrat (s_total s)), (''avgScore'', nrat (s_avg s)),
     (''feedbackCount'', nint (int (s_feedback_count s))), (''uniqueClients'', nint (int (s_unique_clients s)))]"

definition formatAgent :: "int \<Rightarrow> agent_row \<Rightarrow> score_row option \<Rightarrow> (string \<times> native) list" where
  "formatAgent i r scores =
     [(''id'', nint i), (''owner'', NStr (a_owner r)),
      (''name'', NStr (text_default (''Agent #'' @ show_int i) (sanitizeString (readUriData r ''name'') 2048))),
      (''description'', text_or_null (sanitizeString (readUriData r ''description'') 2048)),
      (''image'', text_or_null (sanitizeString (readUriData r ''image'') 4096)),
      (''supportedTrust'', NArr (a_trust r)), (''x402Enabled'', NBool (a_x402 r)), (''mppEnabled'', NBool (a_mpp r)),
      (''hasServices'', NBool (a_services r \<noteq> [])), (''createdAt'', NStr (a_created_at r))]
     @ (case scores of None \<Rightarrow> [] | Some s \<Rightarrow> score_fields s)"

definition truthy :: "native \<Rightarrow> bool" where
  "truthy v = (case v of
      NUndef \<Rightarrow> False | NNull \<Rightarrow> False | NBool b \<Rightarrow> b | NStr s \<Rightarrow> s \<noteq> [] | NBigInt i \<Rightarrow> i \<noteq> 0
    | NNum JNaN \<Rightarrow> False | NNum (JFin r) \<Rightarrow> r \<noteq> 0 | _ \<Rightarrow> True)"

definition resolve_status :: "agent_row \<Rightarrow> string" where
  "resolve_status r =
     (if (case a_uri_data r of None \<Rightarrow> False | Some doc \<Rightarrow> truthy doc) then ''ready''
      else if a_uri r \<noteq> None \<and> a_uri r \<noteq> Some [] then ''resolving'' else ''no-uri'')"

definition formatAgentDetail ::
  "int \<Rightarrow> agent_row \<Rightarrow> score_row option \<Rightarrow> (string \<times> string option) list \<Rightarrow> (string \<times> native) list" where
  "formatAgentDetail i r scores metadataRows =
     formatAgent i r scores
     @ [(''wallet'', text_or_null (a_wallet r)), (''agentUri'', text_or_null (a_uri r)),
        (''services'', NArr (normalizeServices (NArr (a_services r)))),
        (''metadata'', NObj (spread [] (map (\<lambda>(k, v). (k, NStr (text_default [] v))) metadataRows)))]
     @ (case scores of None \<Rightarrow> [] | Some s \<Rightarrow>
          [(''scores'', NObj [(''total'', nrat (s_total s)), (''average'', nrat (s_avg s)),
             (''feedbackCount'', nint (int (s_feedback_count s))), (''uniqueClients'', nint (int (s_unique_clients s)))])])
     @ [(''resolveStatus'', NStr (resolve_status r)),
        (''createdLedger'', (case a_created_ledger r of None \<Rightarrow> NNull | Some l \<Rightarrow> nint l)),
        (''txHash'', text_or_null (a_tx_hash r))]"

section \<open>Serving\<close>

text \<open>\<open>withinRateLimit\<close>. \<open>platform\<close> is \<open>None\<close> without a platform and \<open>Some None\<close> without the binding; the binding answers with an
  outcome (\<open>None\<close> when it has no \<open>success\<close> field) or throws. The key is computed lazily and may throw.\<close>

definition withinRateLimit :: "(string \<Rightarrow> string + bool option) option option \<Rightarrow> string + string \<Rightarrow> bool" where
  "withinRateLimit platform key = (case platform of
      None \<Rightarrow> True
    | Some None \<Rightarrow> True
    | Some (Some limiter) \<Rightarrow> (case key of
        Inl _ \<Rightarrow> True
      | Inr k \<Rightarrow> (case limiter k of Inl _ \<Rightarrow> True | Inr None \<Rightarrow> True | Inr (Some ok) \<Rightarrow> ok)))"

definition set_header :: "string \<Rightarrow> string \<Rightarrow> http_response \<Rightarrow> http_response" where
  "set_header k v r = r\<lparr>hr_headers := AList.update k v (hr_headers r)\<rparr>"

definition PREFLIGHT_HEADERS :: "(string \<times> string) list" where
  "PREFLIGHT_HEADERS = [(''Access-Control-Allow-Origin'', ''*''), (''Access-Control-Allow-Methods'', ''GET, OPTIONS''),
     (''Access-Control-Allow-Headers'', ''Content-Type, Authorization''), (''Access-Control-Max-Age'', ''86400'')]"

definition serveApi :: "req_context \<Rightarrow> string \<Rightarrow> bool \<Rightarrow> string + http_response \<Rightarrow> http_response" where
  "serveApi cx req_method allowed_by_limit handled =
     (if req_method = ''OPTIONS'' then \<lparr>hr_status = 204, hr_headers = PREFLIGHT_HEADERS, hr_body = None\<rparr>
      else if req_method \<noteq> ''GET'' then errorResponse cx ''METHOD_NOT_ALLOWED'' ''Only GET requests are supported'' 405
      else
        let response =
          (if allowed_by_limit then
             (case handled of
                Inr r \<Rightarrow> r
              | Inl _ \<Rightarrow> errorResponse cx ''INTERNAL_ERROR'' ''An unexpected error occurred'' 500)
           else set_header ''X-RateLimit-Remaining'' ''0''
                  (errorResponse cx ''RATE_LIMITED'' ''Too many requests. Try again later.'' 429))
        in set_header ''X-RateLimit-Reset'' (cx_reset cx) (set_header ''X-RateLimit-Limit'' ''30'' response))"

section \<open>Lemmas\<close>

text \<open>A handler's response is well formed: JSON, readable from any origin, and an error is never cached.\<close>

definition api_ok :: "http_response \<Rightarrow> bool" where
  "api_ok r \<longleftrightarrow> map_of (hr_headers r) ''Access-Control-Allow-Origin'' = Some ''*'' \<and>
     map_of (hr_headers r) ''Content-Type'' = Some ''application/json'' \<and> hr_body r \<noteq> None \<and>
     (hr_status r = 200 \<or>
      (400 \<le> hr_status r \<and> map_of (hr_headers r) ''Cache-Control'' = Some ''no-cache, no-store, must-revalidate''))"

lemma api_ok_success: "api_ok (successWithCache cx data a b extra)"
  by (simp add: api_ok_def successWithCache_def)

lemma api_ok_error: "400 \<le> status \<Longrightarrow> api_ok (errorResponse cx code message status)"
  by (simp add: api_ok_def errorResponse_def)

lemma api_ok_header: "api_ok r \<Longrightarrow> k \<notin> {''Access-Control-Allow-Origin'', ''Content-Type'', ''Cache-Control''} \<Longrightarrow> api_ok (set_header k v r)"
  by (auto simp: api_ok_def set_header_def update_conv')

lemma escape_safe: "c \<in> set (escape_char x) \<Longrightarrow> c \<noteq> CHR ''<'' \<and> c \<noteq> CHR ''>'' \<and> c \<noteq> CHR 0x22"
  by (auto simp: escape_char_def split: if_splits)

lemma sanitize_safe: "sanitizeString v n = Some s \<Longrightarrow> c \<in> set s \<Longrightarrow> c \<noteq> CHR ''<'' \<and> c \<noteq> CHR ''>'' \<and> c \<noteq> CHR 0x22"
  unfolding sanitizeString_def using escape_safe by (fastforce split: native.splits)

lemma length_escape: "length (escape_char c) \<le> 6"
  by (simp add: escape_char_def)

lemma sanitize_length: "sanitizeString v n = Some s \<Longrightarrow> length s \<le> 6 * n"
proof -
  have "length (concat (map escape_char xs)) \<le> 6 * length xs" for xs
    by (induction xs) (use length_escape in \<open>auto intro: add_mono\<close>)
  note this [of "take n x" for x]
  then have "length (concat (map escape_char (take n x))) \<le> 6 * n" for x
    by (rule order_trans) (simp add: min_def)
  then show "sanitizeString v n = Some s \<Longrightarrow> length s \<le> 6 * n"
    by (auto simp: sanitizeString_def split: native.splits)
qed

lemma parseIntParam_bounds: "lo \<le> d \<Longrightarrow> d \<le> hi \<Longrightarrow> lo \<le> parseIntParam v d lo hi \<and> parseIntParam v d lo hi \<le> hi"
  by (auto simp: parseIntParam_def split: option.splits)

section \<open>Properties\<close>

text \<open>A value that a page may show: absent, or a text of at most six times \<open>n\<close> characters that opens no tag and ends no attribute.\<close>

definition safe_value :: "nat \<Rightarrow> native \<Rightarrow> bool" where
  "safe_value n v = (case v of
      NStr s \<Rightarrow> length s \<le> 6 * n \<and> CHR ''<'' \<notin> set s \<and> CHR ''>'' \<notin> set s \<and> CHR 0x22 \<notin> set s
    | NNull \<Rightarrow> True | NUndef \<Rightarrow> True | _ \<Rightarrow> False)"

lemma safe_sanitized:
  "safe_value n (text_or_null (sanitizeString v n))" "safe_value n (text_or_undef (sanitizeString v n))"
  "sanitizeString v n \<noteq> None \<Longrightarrow> safe_value n (NStr (text_default s (sanitizeString v n)))"
  using sanitize_length [of v n] sanitize_safe [of v n]
  by (auto simp: safe_value_def text_or_null_def text_or_undef_def text_default_def split: option.splits native.splits)

lemma safe_service:
  "safe_value 256 (getProp (normalize_service s) ''name'') \<and> safe_value 2048 (getProp (normalize_service s) ''endpoint'') \<and>
   safe_value 64 (getProp (normalize_service s) ''version'') \<and> safe_value 2048 (getProp (normalize_service s) ''description'') \<and>
   safe_value 4096 (getProp (normalize_service s) ''inputExample'')"
proof -
  have "safe_value n (NStr (text_default d (sanitizeString v n)))" if "safe_value n (NStr d)" for n d v
    using that safe_sanitized(3) [of v n d] by (cases "sanitizeString v n") (auto simp: text_default_def)
  moreover have "safe_value 256 (NStr ''unknown'')" "safe_value 2048 (NStr [])" by (simp_all add: safe_value_def)
  ultimately show ?thesis by (simp add: normalize_service_def getProp_def safe_sanitized)
qed

text \<open>Attacker-controlled text is defused: the name, description and image of an agent and every field of its services are
  absent or length-capped texts without angle brackets and double quotes, whatever the metadata document holds (a missing name becomes
  the agent's number), and a service without an endpoint is dropped.\<close>

theorem agent_text_escaped:
  "(getProp (NObj (formatAgent i r s)) ''name'' = NStr (''Agent #'' @ show_int i) \<or> safe_value 2048 (getProp (NObj (formatAgent i r s)) ''name'')) \<and>
   safe_value 2048 (getProp (NObj (formatAgent i r s)) ''description'') \<and> safe_value 4096 (getProp (NObj (formatAgent i r s)) ''image'') \<and>
   list_all (\<lambda>v. getProp v ''endpoint'' \<noteq> NStr [] \<and> safe_value 256 (getProp v ''name'') \<and> safe_value 2048 (getProp v ''endpoint'') \<and>
     safe_value 64 (getProp v ''version'') \<and> safe_value 2048 (getProp v ''description'') \<and> safe_value 4096 (getProp v ''inputExample''))
     (normalizeServices raw)"
proof -
  have "list_all (\<lambda>v. getProp v ''endpoint'' \<noteq> NStr [] \<and> safe_value 256 (getProp v ''name'') \<and> safe_value 2048 (getProp v ''endpoint'') \<and>
     safe_value 64 (getProp v ''version'') \<and> safe_value 2048 (getProp v ''description'') \<and> safe_value 4096 (getProp v ''inputExample''))
     (normalizeServices raw)"
  proof -
    have "nonempty_text v \<Longrightarrow> v \<noteq> NStr []" for v by (auto simp: nonempty_text_def)
    then show ?thesis using safe_service by (auto simp: normalizeServices_def list_all_iff split: native.splits)
  qed
  moreover have "sanitizeString (readUriData r ''name'') 2048 = None \<or>
      safe_value 2048 (NStr (text_default (''Agent #'' @ show_int i) (sanitizeString (readUriData r ''name'') 2048)))"
    using safe_sanitized(3) by blast
  ultimately show ?thesis
    by (auto simp: formatAgent_def getProp_def safe_sanitized text_default_def)
qed

end
