(* ===== verification/Api_Handlers.thy ===== *)
theory Api_Handlers
  imports Api_Response "HOL-Library.Product_Lexorder"
begin

text \<open>
  Search terms (\<open>webapp/apps/web/src/lib/server/search.ts\<close>) and the handlers of the public API
  (\<open>lib/server/api/handlers.ts\<close>), as functions of the database.

  A handler gets the request's query parameters in order, the request context and an \<open>api\<close>: the full-text MATCH of SQLite, the
  double fallback of the leaderboard, \<open>parseFloat\<close>, the time value of a date text (\<open>None\<close> is NaN), the current time,
  the address check of the Stellar SDK, and SQLite's text of a JSON value that is not a string. A row's position in its table stands for its row id.
\<close>

section \<open>Search terms\<close>

definition STOPWORDS :: "string list" where
  "STOPWORDS = split_on (CHR '' '') (concat
    [''i me my myself we our ours ourselves you your yours yourself yourselves he him his himself she her '',
     ''hers herself it its itself they them their theirs themselves what which who whom this that these '',
     ''those am is are was were be been being have has had having do does did doing a an the and but if '',
     ''or because as until while of at by for with about against between into through during before after '',
     ''above below to from up down in out on off over under again further then once here there when where '',
     ''why how all any both each few more most other some such no nor not only own same so than too very s '',
     ''t can will just don should now''])"

definition MAX_TERMS :: nat where
  "MAX_TERMS = 16"

text \<open>Letters, numbers and marks below 256; NFC leaves such texts alone.\<close>

definition word_char :: "char \<Rightarrow> bool" where
  "word_char c \<longleftrightarrow> (let n = code_of c in is_digit c \<or> (65 \<le> n \<and> n \<le> 90) \<or> (97 \<le> n \<and> n \<le> 122) \<or>
     n \<in> {170, 178, 179, 181, 185, 186, 188, 189, 190} \<or> (192 \<le> n \<and> n \<noteq> 215 \<and> n \<noteq> 247))"

text \<open>\<open>split\<close> at runs of other characters. The empty pieces at the ends are dropped by the filter.\<close>

fun words_from :: "string \<Rightarrow> string \<Rightarrow> string list" where
  "words_from acc [] = [acc]"
| "words_from acc (c # cs) = (if word_char c then words_from (acc @ [c]) cs else acc # words_from [] cs)"

definition unique_in_order :: "'a list \<Rightarrow> 'a list" where
  "unique_in_order xs = rev (remdups (rev xs))"

definition search_terms :: "string \<Rightarrow> string list" where
  "search_terms query = take MAX_TERMS (unique_in_order
     (filter (\<lambda>term. term \<noteq> [] \<and> toLowerCase term \<notin> set STOPWORDS) (words_from [] (take 500 query))))"

definition quoted :: "string \<Rightarrow> string" where
  "quoted term = CHR 0x22 # term @ [CHR 0x22]"

definition ftsMatch :: "string \<Rightarrow> string option" where
  "ftsMatch query = (let terms = search_terms query in if terms = [] then None else Some (join '' AND '' (map quoted terms)))"

section \<open>Surroundings and queries\<close>

type_synonym params = "(string \<times> string) list"

record api =
  ap_fts :: "db \<Rightarrow> string \<Rightarrow> int \<Rightarrow> bool"
  ap_avg :: "fb_row list \<Rightarrow> rat"
  ap_float :: "string \<Rightarrow> jsnum"
  ap_time :: "string \<Rightarrow> int option"
  ap_now :: int
  ap_address :: "string \<Rightarrow> bool"
  ap_text :: "native \<Rightarrow> string"

definition param :: "params \<Rightarrow> string \<Rightarrow> string option" where
  "param ps k = map_of ps k"

definition param_or :: "params \<Rightarrow> string \<Rightarrow> string" where
  "param_or ps k = (case map_of ps k of None \<Rightarrow> [] | Some v \<Rightarrow> v)"

definition trim :: "string \<Rightarrow> string" where
  "trim s = rev (dropWhile is_space (rev (dropWhile is_space s)))"

definition trust_list :: "string \<Rightarrow> string list" where
  "trust_list trust = map trim (split_on (CHR '','') trust)"

definition trust_overlap :: "string list \<Rightarrow> agent_row \<Rightarrow> bool" where
  "trust_overlap values r \<longleftrightarrow> (\<exists>t \<in> set (a_trust r). \<exists>v \<in> set values. t = NStr v)"

definition positive :: "jsnum \<Rightarrow> bool" where
  "positive x = (case x of JFin r \<Rightarrow> 0 < r | JInf b \<Rightarrow> b | JNaN \<Rightarrow> False)"

definition rat_ge :: "rat \<Rightarrow> jsnum \<Rightarrow> bool" where
  "rat_ge x y = (case y of JFin r \<Rightarrow> r \<le> x | JInf b \<Rightarrow> \<not> b | JNaN \<Rightarrow> False)"

definition page_params :: "params \<Rightarrow> nat \<times> nat \<times> nat" where
  "page_params ps =
     (let page = nat (parseIntParam (param ps ''page'') 1 1 10000); limit = nat (parseIntParam (param ps ''limit'') 20 1 100)
      in (page, limit, (page - 1) * limit))"

text \<open>\<open>ORDER BY\<close> the id or the creation time, then the id; ids are unique, so a descending order is the ascending one reversed.\<close>

definition order_agents :: "params \<Rightarrow> (int \<times> agent_row) list \<Rightarrow> (int \<times> agent_row) list" where
  "order_agents ps rows =
     (let sorted_rows = (if param ps ''sortBy'' = Some ''id'' then sort_key fst rows
            else sort_key (\<lambda>(i, r). (a_created_at r, i)) rows)
      in if param ps ''sortOrder'' = Some ''asc'' then sorted_rows else rev sorted_rows)"

definition window :: "nat \<Rightarrow> nat \<Rightarrow> 'a list \<Rightarrow> 'a list" where
  "window limit offset rows = take limit (drop offset rows)"

definition agent_item :: "api \<Rightarrow> db \<Rightarrow> int \<times> agent_row \<Rightarrow> native" where
  "agent_item ap d ir = NObj (formatAgent (fst ir) (snd ir) (Some (leaderboard_scores (ap_avg ap) d (fst ir))))"

section \<open>Handlers\<close>

definition list_filter :: "api \<Rightarrow> params \<Rightarrow> db \<Rightarrow> string option \<Rightarrow> int \<times> agent_row \<Rightarrow> bool" where
  "list_filter ap ps d match ir = (case ir of (i, r) \<Rightarrow>
     (case match of None \<Rightarrow> True | Some m \<Rightarrow> ap_fts ap d m i) \<and>
     (param_or ps ''trust'' = [] \<or> trust_overlap (trust_list (param_or ps ''trust'')) r) \<and>
     (\<not> positive (ap_float ap (param_or ps ''minScore'')) \<or>
      rat_ge (s_total (leaderboard_scores (ap_avg ap) d i)) (ap_float ap (param_or ps ''minScore''))) \<and>
     (param ps ''hasServices'' = Some ''true'' \<longrightarrow> a_services r \<noteq> []) \<and>
     (param ps ''x402'' = Some ''true'' \<longrightarrow> a_x402 r) \<and>
     (param ps ''mpp'' = Some ''true'' \<longrightarrow> a_mpp r))"

definition agents_page :: "req_context \<Rightarrow> api \<Rightarrow> params \<Rightarrow> db \<Rightarrow> (int \<times> agent_row \<Rightarrow> bool) \<Rightarrow> http_response" where
  "agents_page cx ap ps d P = (case page_params ps of (page, limit, offset) \<Rightarrow>
     let rows = filter P (agents d)
     in successWithCache cx (NArr (map (agent_item ap d) (window limit offset (order_agents ps rows)))) 30 120
          [(''pagination'', paginate (length rows) page limit)])"

definition handleAgentsList :: "req_context \<Rightarrow> api \<Rightarrow> params \<Rightarrow> db \<Rightarrow> http_response" where
  "handleAgentsList cx ap ps d =
     (let search = param_or ps ''search''
      in if search \<noteq> [] \<and> ftsMatch search = None then
           (case page_params ps of (page, limit, offset) \<Rightarrow>
              successWithCache cx (NArr []) 30 120 [(''pagination'', paginate 0 page limit)])
         else agents_page cx ap ps d (list_filter ap ps d (if search = [] then None else ftsMatch search)))"

definition invalid_id :: "req_context \<Rightarrow> http_response" where
  "invalid_id cx = errorResponse cx ''INVALID_ID'' ''Agent ID must be a number'' 400"

definition handleAgentDetail :: "req_context \<Rightarrow> api \<Rightarrow> string \<Rightarrow> db \<Rightarrow> http_response" where
  "handleAgentDetail cx ap i d = (case parseInt10 i of
      None \<Rightarrow> invalid_id cx
    | Some aid \<Rightarrow> (case map_of (agents d) aid of
        None \<Rightarrow> errorResponse cx ''NOT_FOUND'' ''Agent not found'' 404
      | Some r \<Rightarrow>
          let metadata = sort_key fst (map (\<lambda>((a, k), v). (k, v)) (filter (\<lambda>((a, k), v). a = aid) (agent_metadata d)))
          in successWithCache cx (NObj (formatAgentDetail aid r (Some (leaderboard_scores (ap_avg ap) d aid)) metadata)) 30 120 []))"

text \<open>Newest first; ties by row id, which is the position.\<close>

definition newest_first :: "('a \<Rightarrow> string) \<Rightarrow> 'a list \<Rightarrow> 'a list" where
  "newest_first time rows = rev (sort_key time rows)"

definition reply_key :: "string \<Rightarrow> int \<Rightarrow> string" where
  "reply_key client i = client @ '':'' @ show_int i"

definition reply_item :: "response_row \<Rightarrow> native" where
  "reply_item r = NObj [(''responder'', NStr (r_responder r)), (''responseUri'', text_or_null (r_uri r)), (''createdAt'', NStr (r_created_at r))]"

definition feedback_item :: "response_row list \<Rightarrow> feedback_key \<times> feedback_row \<Rightarrow> native" where
  "feedback_item replies kf = (case kf of ((a, c, i), f) \<Rightarrow> NObj
     [(''feedbackIndex'', nint i), (''clientAddress'', NStr c), (''value'', NNum (Number_of_bigint (text_int (f_value f)))),
      (''valueDecimals'', nint (f_decimals f)), (''tag1'', text_or_null (f_tag1 f)), (''tag2'', text_or_null (f_tag2 f)),
      (''endpoint'', text_or_null (f_endpoint f)), (''feedbackUri'', text_or_null (f_uri f)), (''isRevoked'', NBool (f_revoked f)),
      (''createdAt'', NStr (f_created_at f)),
      (''responses'', NArr (map reply_item
         (filter (\<lambda>r. reply_key (fst (snd (r_key r))) (snd (snd (r_key r))) = reply_key c i) replies)))])"

definition handleAgentFeedback :: "req_context \<Rightarrow> string \<Rightarrow> params \<Rightarrow> db \<Rightarrow> http_response" where
  "handleAgentFeedback cx i ps d = (case parseInt10 i of
      None \<Rightarrow> invalid_id cx
    | Some aid \<Rightarrow> (case page_params ps of (page, limit, offset) \<Rightarrow>
        let tag = param_or ps ''tag'';
            rows = filter (\<lambda>((a, c, j), f). a = aid \<and> (tag = [] \<or> f_tag1 f = Some tag)) (feedback d);
            shown = window limit offset (newest_first (\<lambda>(k, f). f_created_at f) rows);
            replies = newest_first r_created_at (filter (\<lambda>r. r_key r \<in> fst ` set shown) (responses d))
        in successWithCache cx (NArr (map (feedback_item replies) shown)) 60 300 [(''pagination'', paginate (length rows) page limit)]))"

definition handleAccounts :: "req_context \<Rightarrow> api \<Rightarrow> string \<Rightarrow> params \<Rightarrow> db \<Rightarrow> http_response" where
  "handleAccounts cx ap address ps d =
     (if \<not> ap_address ap address then errorResponse cx ''INVALID_ADDRESS'' ''Invalid Stellar address'' 400
      else agents_page cx ap ps d (\<lambda>(i, r). a_owner r = address))"

text \<open>\<open>CAST(agent_uri_data ->> '$.name' AS TEXT)\<close> of the leaderboard view; \<open>ap_text\<close> is the text of a JSON value that is not a string.\<close>

definition uri_text :: "api \<Rightarrow> agent_row \<Rightarrow> string \<Rightarrow> native" where
  "uri_text ap r field = (case a_uri_data r of
      Some (NObj fs) \<Rightarrow> (case getProp (NObj fs) field of NStr s \<Rightarrow> NStr s | NUndef \<Rightarrow> NNull | NNull \<Rightarrow> NNull | v \<Rightarrow> NStr (ap_text ap v))
    | _ \<Rightarrow> NNull)"

definition search_item :: "api \<Rightarrow> db \<Rightarrow> int \<times> agent_row \<Rightarrow> native" where
  "search_item ap d ir = (case ir of (i, r) \<Rightarrow>
     let s = leaderboard_scores (ap_avg ap) d i
     in NObj [(''id'', nint i), (''name'', uri_text ap r ''name''), (''image'', uri_text ap r ''image''), (''owner'', NStr (a_owner r)),
          (''supportedTrust'', NArr (a_trust r)), (''hasServices'', NBool (a_services r \<noteq> [])),
          (''x402Enabled'', NBool (a_x402 r)), (''mppEnabled'', NBool (a_mpp r)), (''totalScore'', nrat (s_total s)),
          (''avgScore'', nrat (s_avg s)), (''feedbackCount'', nint (int (s_feedback_count s))),
          (''uniqueClients'', nint (int (s_unique_clients s)))])"

definition min_search_score :: "jsnum \<Rightarrow> rat" where
  "min_search_score x = (case x of JFin r \<Rightarrow> max r 0 | _ \<Rightarrow> 0)"

definition search_hits :: "api \<Rightarrow> params \<Rightarrow> db \<Rightarrow> string \<Rightarrow> (int \<times> agent_row) list" where
  "search_hits ap ps d match =
     sort_key (\<lambda>(i, r). (- s_total (leaderboard_scores (ap_avg ap) d i), i))
       (filter (\<lambda>(i, r). ap_fts ap d match i \<and>
          min_search_score (ap_float ap (param_or ps ''minScore'')) \<le> s_total (leaderboard_scores (ap_avg ap) d i) \<and>
          (param_or ps ''trust'' = [] \<or> trust_overlap (trust_list (param_or ps ''trust'')) r)) (agents d))"

definition handleSearch :: "req_context \<Rightarrow> api \<Rightarrow> params \<Rightarrow> db \<Rightarrow> http_response" where
  "handleSearch cx ap ps d =
     (if trim (param_or ps ''q'') = [] then errorResponse cx ''MISSING_PARAM'' ''Query parameter \"q\" is required'' 400
      else (case ftsMatch (param_or ps ''q'') of
          None \<Rightarrow> successWithCache cx (NArr []) 30 120 []
        | Some match \<Rightarrow> successWithCache cx (NArr (map (search_item ap d)
            (take (nat (parseIntParam (param ps ''limit'') 20 1 100)) (search_hits ap ps d match)))) 30 120 []))"

subsection \<open>Statistics\<close>

definition ascii_lower :: "string \<Rightarrow> string" where
  "ascii_lower s = map (\<lambda>c. if 65 \<le> code_of c \<and> code_of c \<le> 90 then char_of (code_of c + 32) else c) s"

definition lower_text :: "native \<Rightarrow> string option" where
  "lower_text v = (case v of NStr s \<Rightarrow> Some (ascii_lower s) | _ \<Rightarrow> None)"

definition service_names :: "db \<Rightarrow> string option list" where
  "service_names d = concat (map (\<lambda>(i, r). map (\<lambda>s. lower_text (getProp s ''name'')) (a_services r)) (agents d))"

definition trust_names :: "db \<Rightarrow> string option list" where
  "trust_names d = concat (map (\<lambda>(i, r). map lower_text (a_trust r)) (agents d))"

definition how_many :: "('a \<Rightarrow> bool) \<Rightarrow> 'a list \<Rightarrow> native" where
  "how_many P xs = nint (int (length (filter P xs)))"

definition math_round :: "rat \<Rightarrow> int" where
  "math_round x = \<lfloor>x + 1 / 2\<rfloor>"

definition average_score :: "api \<Rightarrow> db \<Rightarrow> rat" where
  "average_score ap d =
     (if agents d = [] then 0
      else sum_list (map (\<lambda>(i, r). s_avg (leaderboard_scores (ap_avg ap) d i)) (agents d)) / of_nat (length (agents d)))"

definition handleStats :: "req_context \<Rightarrow> api \<Rightarrow> db \<Rightarrow> http_response" where
  "handleStats cx ap d =
     (let services = service_names d; trust = trust_names d in
      successWithCache cx (NObj
        [(''totalAgents'', nint (int (length (agents d)))), (''totalFeedbacks'', nint (int (length (feedback d)))),
         (''totalValidations'', nint (int (length (validations d)))),
         (''totalUniqueClients'', nint (int (sum_list (map (\<lambda>(i, r). s_unique_clients (leaderboard_scores (ap_avg ap) d i)) (agents d))))),
         (''averageFeedbackScore'', nrat (of_int (math_round (average_score ap d * 10)) / 10)),
         (''agentsWithServices'', how_many (\<lambda>(i, r). a_services r \<noteq> []) (agents d)),
         (''agentsWithX402'', how_many (\<lambda>(i, r). a_x402 r) (agents d)), (''agentsWithMpp'', how_many (\<lambda>(i, r). a_mpp r) (agents d)),
         (''network'', NStr (cx_network cx)),
         (''protocolDistribution'', NObj [(''a2a'', how_many (\<lambda>n. n = Some ''a2a'') services), (''mcp'', how_many (\<lambda>n. n = Some ''mcp'') services),
            (''other'', how_many (\<lambda>n. n \<noteq> Some ''a2a'' \<and> n \<noteq> Some ''mcp'') services)]),
         (''trustDistribution'', NObj [(''reputation'', how_many (\<lambda>n. n = Some ''reputation'') trust),
            (''validation'', how_many (\<lambda>n. n = Some ''validation'') trust),
            (''tee'', how_many (\<lambda>n. n = Some ''tee-attestation'' \<or> n = Some ''tee'') trust)])]) 60 300 [])"

subsection \<open>Health\<close>

definition STALE_AFTER_MS :: int where
  "STALE_AFTER_MS = 300000"

record contract_status =
  st_last :: int
  st_updated :: "string option"
  st_stale :: bool

text \<open>A date that does not parse is NaN, and a comparison with NaN is false.\<close>

definition check_contract :: "api \<Rightarrow> db \<Rightarrow> string \<Rightarrow> contract_status" where
  "check_contract ap d i = (case map_of (indexer_state d) i of
      None \<Rightarrow> \<lparr>st_last = 0, st_updated = None, st_stale = True\<rparr>
    | Some r \<Rightarrow> \<lparr>st_last = s_last r, st_updated = Some (s_updated_at r),
        st_stale = (case ap_time ap (case s_advanced_at r of Some t \<Rightarrow> t | None \<Rightarrow> s_updated_at r) of
            None \<Rightarrow> False | Some progressAt \<Rightarrow> STALE_AFTER_MS < ap_now ap - progressAt)\<rparr>)"

definition status_names :: "string list" where
  "status_names = [''identity'', ''reputation'', ''validation'']"

definition indexerStatus :: "api \<Rightarrow> db \<Rightarrow> (string \<times> contract_status) list" where
  "indexerStatus ap d = map (\<lambda>i. (i, check_contract ap d i)) status_names"

definition handleHealth :: "req_context \<Rightarrow> api \<Rightarrow> db \<Rightarrow> http_response" where
  "handleHealth cx ap d =
     (let status = indexerStatus ap d; degraded = (\<exists>(i, c) \<in> set status. st_stale c)
      in successWithCache cx (NObj
        [(''status'', NStr (if degraded then ''degraded'' else ''healthy'')),
         (''indexer'', NObj (map (\<lambda>(i, c). (i, NObj [(''lastLedger'', nint (st_last c)), (''stale'', NBool (st_stale c))])) status)),
         (''network'', NStr (cx_network cx))]) 10 30 [])"


section \<open>Lemmas\<close>

subsection \<open>Search terms\<close>

lemma words_from_chars: "w \<in> set (words_from acc s) \<Longrightarrow> c \<in> set w \<Longrightarrow> (\<forall>x \<in> set acc. word_char x) \<Longrightarrow> word_char c"
  by (induction acc s rule: words_from.induct) (auto split: if_splits)

lemma words_from_sublist: "w \<in> set (words_from acc s) \<Longrightarrow> sublist w (acc @ s)"
proof (induction acc s rule: words_from.induct)
  case (2 acc c cs)
  show ?case
  proof (cases "word_char c")
    case True
    with 2 show ?thesis by simp
  next
    case False
    with 2 have "w = acc \<or> sublist w cs" by auto
    moreover have "sublist cs (acc @ c # cs)" by (simp add: sublist_append_leftI suffix_imp_sublist suffix_def)
    ultimately show ?thesis by (auto intro: sublist_order.order_trans)
  qed
qed simp

lemma unique_in_order: "set (unique_in_order xs) = set xs" "distinct (unique_in_order xs)"
  by (simp_all add: unique_in_order_def)

lemma search_termsD:
  assumes "term \<in> set (search_terms q)"
  shows "term \<noteq> []" "toLowerCase term \<notin> set STOPWORDS" "\<forall>c \<in> set term. word_char c" "sublist term q"
proof -
  from assms have "term \<in> set (words_from [] (take 500 q))" "term \<noteq> []" "toLowerCase term \<notin> set STOPWORDS"
    by (auto simp: search_terms_def unique_in_order dest!: in_set_takeD)
  note w = this
  show "term \<noteq> []" "toLowerCase term \<notin> set STOPWORDS" by (rule w)+
  show "\<forall>c \<in> set term. word_char c" using words_from_chars [OF w(1)] by simp
  have "sublist term (take 500 q)" using words_from_sublist [OF w(1)] by simp
  then show "sublist term q" using sublist_take by (rule sublist_order.order_trans)
qed

lemma search_terms_distinct: "distinct (search_terms q)" "length (search_terms q) \<le> MAX_TERMS"
  by (simp_all add: search_terms_def unique_in_order distinct_take)

subsection \<open>Pages\<close>

lemma window_concat: "concat (map (\<lambda>p. window k ((p - 1) * k) xs) [1..<Suc n]) = take (n * k) xs"
proof (induction n)
  case (Suc n)
  have "take (n * k) xs @ take k (drop (n * k) xs) = take (k + n * k) xs"
    by (metis add.commute take_add)
  with Suc show ?case by (simp add: window_def)
qed simp

definition with_page :: "params \<Rightarrow> nat \<Rightarrow> params" where
  "with_page ps p = AList.update ''page'' (show_nat p) ps"

lemma param_with_page: "k \<noteq> ''page'' \<Longrightarrow> param (with_page ps p) k = param ps k" "k \<noteq> ''page'' \<Longrightarrow> param_or (with_page ps p) k = param_or ps k"
  by (simp_all add: param_def param_or_def with_page_def update_conv')

lemma parseInt10_show_nat: "parseInt10 (show_nat n) = Some (int n)"
proof -
  obtain c cs where c: "show_nat n = c # cs" "is_digit c" using show_nat_digits [of _ n] show_nat_not_Nil [of n] by (cases "show_nat n") auto
  have plain: "\<not> is_space c" "c \<noteq> CHR ''-''" "c \<noteq> CHR ''+''" using c(2) by (auto simp: is_digit_def is_space_def code_of_def)
  have "takeWhile is_digit (show_nat n) = show_nat n" using show_nat_digits by (simp add: takeWhile_eq_all_conv)
  then have digits: "takeWhile is_digit (c # cs) = c # cs" by (simp only: c(1))
  show ?thesis
    unfolding parseInt10_def c(1) using plain read_show_nat [of n, unfolded c(1)]
    by (simp add: Let_def digits del: takeWhile.simps)
qed

lemma page_params_with_page:
  assumes "1 \<le> p" "p \<le> 10000"
  shows "page_params (with_page ps p) = (p, fst (snd (page_params ps)), (p - 1) * fst (snd (page_params ps)))"
proof -
  have "param (with_page ps p) ''page'' = Some (show_nat p)" by (simp add: param_def with_page_def update_conv')
  with assms show ?thesis
    by (simp add: page_params_def parseIntParam_def parseInt10_show_nat param_with_page Let_def)
qed

lemma order_agents_with_page: "order_agents (with_page ps p) rows = order_agents ps rows"
  by (simp add: order_agents_def param_with_page)

lemma list_filter_with_page: "list_filter ap (with_page ps p) d m = list_filter ap ps d m"
  by (rule ext) (simp add: list_filter_def param_with_page)

definition response_data :: "http_response \<Rightarrow> native list" where
  "response_data r = (case hr_body r of Some b \<Rightarrow> (case getProp b ''data'' of NArr xs \<Rightarrow> xs | _ \<Rightarrow> []) | None \<Rightarrow> [])"

definition response_has_more :: "http_response \<Rightarrow> bool" where
  "response_has_more r = (case hr_body r of
      Some b \<Rightarrow> getProp (getProp (getProp b ''meta'') ''pagination'') ''hasMore'' = NBool True | None \<Rightarrow> False)"

lemma response_fields:
  "response_data (successWithCache cx (NArr xs) a b extra) = xs"
  "response_has_more (successWithCache cx v a b [(''pagination'', paginate n p k)]) \<longleftrightarrow> p * k < n"
  by (simp_all add: response_data_def response_has_more_def successWithCache_def getProp_def meta_def spread_def paginate_def)

text \<open>The ordered result of a list request, all pages together.\<close>

definition list_rows :: "api \<Rightarrow> params \<Rightarrow> db \<Rightarrow> (int \<times> agent_row) list" where
  "list_rows ap ps d = order_agents ps (filter (list_filter ap ps d (ftsMatch (param_or ps ''search''))) (agents d))"

lemma length_order_agents [simp]: "length (order_agents ps rows) = length rows"
  by (simp add: order_agents_def Let_def)

lemma ftsMatch_Nil [simp]: "ftsMatch [] = None"
  by (simp add: ftsMatch_def search_terms_def unique_in_order_def)

lemma handleAgentsList_page:
  assumes "1 \<le> p" "p \<le> 10000" "param_or ps ''search'' = [] \<or> ftsMatch (param_or ps ''search'') \<noteq> None"
  shows "response_data (handleAgentsList cx ap (with_page ps p) d) =
      map (agent_item ap d) (window (fst (snd (page_params ps))) ((p - 1) * fst (snd (page_params ps))) (list_rows ap ps d))"
    and "response_has_more (handleAgentsList cx ap (with_page ps p) d) \<longleftrightarrow> p * fst (snd (page_params ps)) < length (list_rows ap ps d)"
  using assms(3)
  by (auto simp: handleAgentsList_def agents_page_def page_params_with_page [OF assms(1,2)] param_with_page order_agents_with_page
      list_filter_with_page response_fields list_rows_def Let_def)

subsection \<open>Responses\<close>

lemma handlers_ok:
  "api_ok (handleAgentsList cx ap ps d)" "api_ok (handleAgentDetail cx ap i d)" "api_ok (handleAgentFeedback cx i ps d)"
  "api_ok (handleAccounts cx ap address ps d)" "api_ok (handleSearch cx ap ps d)" "api_ok (handleStats cx ap d)"
  "api_ok (handleHealth cx ap d)"
  by (auto simp: handleAgentsList_def agents_page_def handleAgentDetail_def invalid_id_def handleAgentFeedback_def handleAccounts_def
      handleSearch_def handleStats_def handleHealth_def Let_def intro: api_ok_success api_ok_error split: option.split prod.split)

section \<open>Properties\<close>

text \<open>C39. A full-text query never carries syntax of the user: whatever is typed, the MATCH expression is a conjunction of at most
  16 distinct quoted terms, each a word of the input made of letters, digits and marks only (so no quote can end the quotation)
  and none a stopword; without such a word there is no expression.\<close>

theorem fts_query_safe:
  "ftsMatch q = (if search_terms q = [] then None else Some (join '' AND '' (map quoted (search_terms q)))) \<and>
   distinct (search_terms q) \<and> length (search_terms q) \<le> 16 \<and>
   set (search_terms q) \<subseteq>
     {t. t \<noteq> [] \<and> toLowerCase t \<notin> set STOPWORDS \<and> set t \<subseteq> {c. word_char c \<and> c \<noteq> CHR 0x22} \<and> sublist t q}"
proof -
  have quote: "\<not> word_char (CHR 0x22)" by (simp add: word_char_def is_digit_def code_of_def)
  show ?thesis using search_termsD search_terms_distinct [of q] quote by (auto simp: ftsMatch_def Let_def MAX_TERMS_def)
qed

text \<open>Paging the agent list covers it exactly: on an unchanged database, the items of the pages 1 to \<open>n\<close> together are the
  first \<open>n * limit\<close> entries of the whole ordered result, and page \<open>n\<close> says that there is more exactly when there is.\<close>

theorem list_pages_cover:
  assumes "n \<le> 10000" "param_or ps ''search'' = [] \<or> ftsMatch (param_or ps ''search'') \<noteq> None"
  shows "concat (map (\<lambda>p. response_data (handleAgentsList cx ap (with_page ps p) d)) [1..<Suc n]) =
      map (agent_item ap d) (take (n * fst (snd (page_params ps))) (list_rows ap ps d)) \<and>
    (1 \<le> n \<longrightarrow> response_has_more (handleAgentsList cx ap (with_page ps n) d) =
      (n * fst (snd (page_params ps)) < length (list_rows ap ps d)))"
proof -
  let ?k = "fst (snd (page_params ps))" and ?rows = "list_rows ap ps d"
  have "map (\<lambda>p. response_data (handleAgentsList cx ap (with_page ps p) d)) [1..<Suc n] =
      map (\<lambda>p. map (agent_item ap d) (window ?k ((p - 1) * ?k) ?rows)) [1..<Suc n]"
    by (rule map_cong [OF refl], rule handleAgentsList_page(1)) (use assms in auto)
  then have "concat (map (\<lambda>p. response_data (handleAgentsList cx ap (with_page ps p) d)) [1..<Suc n]) =
      concat (map (\<lambda>p. map (agent_item ap d) (window ?k ((p - 1) * ?k) ?rows)) [1..<Suc n])"
    by (rule arg_cong)
  also have "\<dots> = map (agent_item ap d) (concat (map (\<lambda>p. window ?k ((p - 1) * ?k) ?rows) [1..<Suc n]))"
    by (simp add: map_concat comp_def del: upt_Suc)
  finally have "concat (map (\<lambda>p. response_data (handleAgentsList cx ap (with_page ps p) d)) [1..<Suc n]) =
      map (agent_item ap d) (take (n * ?k) ?rows)"
    by (simp only: window_concat)
  then show ?thesis
    using handleAgentsList_page(2) [of n ps cx ap d] assms by (simp del: upt_Suc)
qed

definition sample_api :: api where
  "sample_api = \<lparr>ap_fts = (\<lambda>_ _ _. False), ap_avg = (\<lambda>_. 0), ap_float = (\<lambda>_. JNaN), ap_time = (\<lambda>_. Some 0), ap_now = 0,
     ap_address = (\<lambda>_. True), ap_text = (\<lambda>_. [])\<rparr>"

definition sample_context :: req_context where
  "sample_context = \<lparr>cx_network = ''mainnet'', cx_timestamp = [], cx_request_id = [], cx_reset = []\<rparr>"

theorem list_pages_cover_witness:
  "concat (map (\<lambda>p. response_data (handleAgentsList sample_context sample_api (with_page [] p) sample_board)) [1..<Suc 1]) =
     map (agent_item sample_api sample_board) (take (1 * fst (snd (page_params []))) (list_rows sample_api [] sample_board)) \<and>
   response_has_more (handleAgentsList sample_context sample_api (with_page [] 1) sample_board) =
     (1 * fst (snd (page_params [])) < length (list_rows sample_api [] sample_board))"
  using list_pages_cover [of 1 "[]" sample_context sample_api sample_board] by (simp add: param_or_def del: upt_Suc)

text \<open>Staleness tracks progress: a save that does not move the checkpoint leaves the reported staleness as it was, and a save
  that does resets it to the age of the save, however long the previous one was ago.\<close>

theorem health_tracks_progress:
  assumes "map_of (indexer_state d) c = Some r" "s_advanced_at r = Some t" "s_last r \<le> l" "holds_lock d owner"
    and "exec_stmt clk (Sql_saveState l defers now c owner) d = Inr (d', n)"
  shows "st_last (check_contract ap d' c) = l \<and>
    st_stale (check_contract ap d' c) =
      (if l = s_last r then st_stale (check_contract ap d c)
       else (case ap_time ap now of None \<Rightarrow> False | Some at_ms \<Rightarrow> 300000 < ap_now ap - at_ms))"
  using assms by (auto simp: check_contract_def update_conv' STALE_AFTER_MS_def split: option.splits)

definition sample_health :: db where
  "sample_health = sample_board\<lparr>indexer_state := [(''identity'',
       \<lparr>s_last = 7, s_updated_at = [], s_expected = Some 8, s_defers = 0, s_advanced_at = Some []\<rparr>)],
     indexer_locks := [(indexer_lock, \<lparr>l_acquired = [], l_owner = Some ''run''\<rparr>)]\<rparr>"

theorem health_tracks_progress_witness:
  "exec_stmt [] (Sql_saveState 7 0 [] ''identity'' ''run'') sample_health = Inr (sample_health, 1) \<and>
   st_last (check_contract sample_api sample_health ''identity'') = 7"
proof -
  let ?row = "\<lparr>s_last = 7, s_updated_at = [], s_expected = Some 8, s_defers = 0, s_advanced_at = Some []\<rparr>"
  have run: "exec_stmt [] (Sql_saveState 7 0 [] ''identity'' ''run'') sample_health = Inr (sample_health, 1)"
    by (simp add: holds_lock_def sample_health_def)
  from health_tracks_progress [OF _ _ _ _ run, of ?row "[]" sample_api] run show ?thesis
    by (simp add: holds_lock_def sample_health_def)
qed

end
