(* ===== verification/Api_Discovery.thy ===== *)
theory Api_Discovery
  imports Api_Handlers Base64
begin

text \<open>
  \<open>webapp/apps/web/src/lib/server/api/discovery.ts\<close>: strict parameters and keyset pagination of the registry.

  \<open>disc\<close> holds the platform functions used here: JSON, \<open>Number\<close> of a text and the order of \<open>localeCompare\<close> on parameter names. The
  JSON text of a cursor is given as its 16-bit code units: it repeats the query, whose characters may lie beyond Latin-1, and then
  \<open>btoa\<close> throws. The handler returns a response or throws (\<open>Inl\<close>), and what it throws is answered with a generic 500 (\<open>serveApi\<close>).
  The three orders of the source are instances of the locale \<open>keyset\<close>: a strict order on the rows, and a key of a row after
  which exactly the later rows come. The walk from cursor to cursor is proved once for all of them.
\<close>

section \<open>Keys and orders\<close>

datatype disc_sort = By_Score | By_Newest | By_Id

datatype disc_key = Num_Key jsnum int | Text_Key string int

record disc =
  dj_stringify :: "native \<Rightarrow> 16 word list"
  dj_parse :: "string \<Rightarrow> native option"
  dj_number :: "string \<Rightarrow> jsnum"
  dj_name_le :: "string \<Rightarrow> string \<Rightarrow> bool"

definition PARAMS :: "string list" where
  "PARAMS = [''network'', ''text'', ''x402'', ''mpp'', ''hasServices'', ''trust'', ''minScore'', ''sort'', ''limit'', ''cursor'']"

definition disc_score :: "api \<Rightarrow> db \<Rightarrow> int \<Rightarrow> rat" where
  "disc_score ap d i = min (max (s_total (leaderboard_scores (ap_avg ap) d i)) 0) 100"

fun sort_of :: "string option \<Rightarrow> disc_sort option" where
  "sort_of None = Some By_Score"
| "sort_of (Some s) = (if s = ''score'' then Some By_Score else if s = ''newest'' then Some By_Newest
     else if s = ''id'' then Some By_Id else None)"

type_synonym agent = "int \<times> agent_row"

fun order_rows :: "api \<Rightarrow> db \<Rightarrow> disc_sort \<Rightarrow> agent list \<Rightarrow> agent list" where
  "order_rows ap d By_Score rows = sort_key (\<lambda>(i, r). (- disc_score ap d i, i)) rows"
| "order_rows ap d By_Newest rows = rev (sort_key (\<lambda>(i, r). (a_created_at r, i)) rows)"
| "order_rows ap d By_Id rows = sort_key fst rows"

definition rat_less :: "rat \<Rightarrow> jsnum \<Rightarrow> bool" where
  "rat_less x y = (case y of JFin r \<Rightarrow> x < r | JInf b \<Rightarrow> b | JNaN \<Rightarrow> False)"

text \<open>\<open>SORTS[sort].after\<close>: the rows behind a key. \<open>decodeCursor\<close> only lets a key of the right type through.\<close>

fun after :: "api \<Rightarrow> db \<Rightarrow> disc_sort \<Rightarrow> disc_key \<Rightarrow> agent \<Rightarrow> bool" where
  "after ap d By_Score (Num_Key v i) (j, r) = (rat_less (disc_score ap d j) v \<or> (JFin (disc_score ap d j) = v \<and> i < j))"
| "after ap d By_Newest (Text_Key v i) (j, r) = (a_created_at r < v \<or> (a_created_at r = v \<and> j < i))"
| "after ap d By_Id (Num_Key v i) (j, r) = (i < j)"
| "after ap d s k (j, r) = False"

fun key_of :: "api \<Rightarrow> db \<Rightarrow> disc_sort \<Rightarrow> agent \<Rightarrow> disc_key" where
  "key_of ap d By_Score (j, r) = Num_Key (JFin (disc_score ap d j)) j"
| "key_of ap d By_Newest (j, r) = Text_Key (a_created_at r) j"
| "key_of ap d By_Id (j, r) = Num_Key (JFin (of_int j)) j"

section \<open>Cursors\<close>

definition cursor_object :: "string \<Rightarrow> disc_key \<Rightarrow> native" where
  "cursor_object query k = NObj [(''q'', NStr query),
     (''k'', NArr (case k of Num_Key v i \<Rightarrow> [NNum v, nint i] | Text_Key v i \<Rightarrow> [NStr v, nint i]))]"

definition url_char :: "char \<Rightarrow> char" where
  "url_char c = (if c = CHR ''+'' then CHR ''-'' else if c = CHR ''/'' then CHR ''_'' else c)"

definition plain_char :: "char \<Rightarrow> char" where
  "plain_char c = (if c = CHR ''-'' then CHR ''+'' else if c = CHR ''_'' then CHR ''/'' else c)"

text \<open>\<open>btoa\<close> of a text given by its code units.\<close>

definition latin1 :: "16 word list \<Rightarrow> bool" where
  "latin1 us \<longleftrightarrow> list_all (\<lambda>u. u < 256) us"

definition units_text :: "16 word list \<Rightarrow> string" where
  "units_text us = map (\<lambda>u. char_of (unat u)) us"

definition btoa_units :: "16 word list \<Rightarrow> string + string" where
  "btoa_units us = (if latin1 us then Inr (btoa (units_text us))
     else Inl ''Failed to execute 'btoa': The string to be encoded contains characters outside of the Latin1 range.'')"

definition encodeCursor :: "disc \<Rightarrow> string \<Rightarrow> disc_key \<Rightarrow> string + string" where
  "encodeCursor dj query k =
     sbind (btoa_units (dj_stringify dj (cursor_object query k))) (\<lambda>t. Inr (strip_end (map url_char t)))"

text \<open>Destructuring \<open>null\<close> throws, other values have no fields.\<close>

definition decodeCursor :: "disc \<Rightarrow> string \<Rightarrow> string \<Rightarrow> disc_sort \<Rightarrow> disc_key option" where
  "decodeCursor dj cursor query srt = (case atob (map plain_char cursor) of
      None \<Rightarrow> None
    | Some s \<Rightarrow> (case dj_parse dj s of
        None \<Rightarrow> None
      | Some v \<Rightarrow>
          if getProp v ''q'' \<noteq> NStr query then None
          else (case getProp v ''k'' of
              NArr [x, NNum y] \<Rightarrow>
                if \<not> isSafeInteger y then None
                else (case (srt, x) of
                    (By_Newest, NStr t) \<Rightarrow> Some (Text_Key t (case y of JFin r \<Rightarrow> \<lfloor>r\<rfloor> | _ \<Rightarrow> 0))
                  | (By_Newest, _) \<Rightarrow> None
                  | (_, NNum n) \<Rightarrow> Some (Num_Key n (case y of JFin r \<Rightarrow> \<lfloor>r\<rfloor> | _ \<Rightarrow> 0))
                  | _ \<Rightarrow> None)
            | _ \<Rightarrow> None)))"

section \<open>The request\<close>

definition bad :: "req_context \<Rightarrow> string \<Rightarrow> http_response" where
  "bad cx message = errorResponse cx ''INVALID_PARAM'' message 400"

definition dq :: "string \<Rightarrow> string" where
  "dq s = CHR 0x22 # s @ [CHR 0x22]"

fun check_names :: "req_context \<Rightarrow> params \<Rightarrow> string list \<Rightarrow> http_response + unit" where
  "check_names cx ps [] = Inr ()"
| "check_names cx ps (name # names) =
     (if name \<notin> set PARAMS then Inl (bad cx (''Unknown parameter '' @ dq name))
      else if 1 < length (filter (\<lambda>(k, v). k = name) ps) then Inl (bad cx (''Parameter '' @ dq name @ '' is repeated''))
      else check_names cx ps names)"

fun flag :: "string option \<Rightarrow> bool option option" where
  "flag None = Some None"
| "flag (Some v) = (if v = ''true'' then Some (Some True) else if v = ''false'' then Some (Some False) else None)"

definition check_network :: "req_context \<Rightarrow> params \<Rightarrow> http_response + unit" where
  "check_network cx ps =
     (let network = param_or ps ''network''
      in if network = [] then Inl (bad cx (''Parameter '' @ dq ''network'' @ '' is required''))
         else if network \<noteq> cx_network cx then Inl (bad cx (''This explorer indexes '' @ cx_network cx @ '', not '' @ dq network))
         else Inr ())"

definition check_sort :: "req_context \<Rightarrow> params \<Rightarrow> http_response + disc_sort" where
  "check_sort cx ps = (case sort_of (param ps ''sort'') of
      None \<Rightarrow> Inl (bad cx (''Parameter '' @ dq ''sort'' @ '' must be score, newest or id''))
    | Some s \<Rightarrow> Inr s)"

definition check_limit :: "req_context \<Rightarrow> params \<Rightarrow> http_response + nat" where
  "check_limit cx ps =
     (let t = (case param ps ''limit'' of None \<Rightarrow> ''20'' | Some v \<Rightarrow> v); n = read_nat t
      in if t = [] \<or> (\<exists>c \<in> set t. \<not> is_digit c) \<or> n < 1 \<or> 100 < n
         then Inl (bad cx (''Parameter '' @ dq ''limit'' @ '' must be an integer from 1 to 100'')) else Inr n)"

definition check_text :: "req_context \<Rightarrow> api \<Rightarrow> params \<Rightarrow> db \<Rightarrow> http_response + (agent \<Rightarrow> bool)" where
  "check_text cx ap ps d = (case param ps ''text'' of
      None \<Rightarrow> Inr (\<lambda>_. True)
    | Some t \<Rightarrow>
        if trim t = [] then Inl (bad cx (''Parameter '' @ dq ''text'' @ '' must not be empty''))
        else (case ftsMatch t of None \<Rightarrow> Inr (\<lambda>_. False) | Some m \<Rightarrow> Inr (\<lambda>(i, r). ap_fts ap d m i)))"

definition check_flag :: "req_context \<Rightarrow> params \<Rightarrow> string \<Rightarrow> (agent_row \<Rightarrow> bool) \<Rightarrow> http_response + (agent \<Rightarrow> bool)" where
  "check_flag cx ps name column = (case flag (param ps name) of
      None \<Rightarrow> Inl (bad cx (''Parameter '' @ dq name @ '' must be true or false''))
    | Some None \<Rightarrow> Inr (\<lambda>_. True)
    | Some (Some v) \<Rightarrow> Inr (\<lambda>(i, r). column r = v))"

definition check_trust :: "req_context \<Rightarrow> params \<Rightarrow> http_response + (agent \<Rightarrow> bool)" where
  "check_trust cx ps = (case param ps ''trust'' of
      None \<Rightarrow> Inr (\<lambda>_. True)
    | Some t \<Rightarrow>
        if trim t = [] then Inl (bad cx (''Parameter '' @ dq ''trust'' @ '' must not be empty''))
        else Inr (\<lambda>(i, r). trust_overlap (trust_list t) r))"

definition check_min_score :: "req_context \<Rightarrow> api \<Rightarrow> disc \<Rightarrow> params \<Rightarrow> db \<Rightarrow> http_response + (agent \<Rightarrow> bool)" where
  "check_min_score cx ap dj ps d = (case param ps ''minScore'' of
      None \<Rightarrow> Inr (\<lambda>_. True)
    | Some t \<Rightarrow> (case dj_number dj t of
        JFin x \<Rightarrow>
          if trim t = [] \<or> x < 0 \<or> 100 < x then Inl (bad cx (''Parameter '' @ dq ''minScore'' @ '' must be a number from 0 to 100''))
          else Inr (\<lambda>(i, r). x \<le> disc_score ap d i)
      | _ \<Rightarrow> Inl (bad cx (''Parameter '' @ dq ''minScore'' @ '' must be a number from 0 to 100''))))"

record request_plan =
  rq_sort :: disc_sort
  rq_limit :: nat
  rq_filter :: "agent \<Rightarrow> bool"

definition plan_request :: "req_context \<Rightarrow> api \<Rightarrow> disc \<Rightarrow> params \<Rightarrow> db \<Rightarrow> http_response + request_plan" where
  "plan_request cx ap dj ps d =
     sbind (check_names cx ps (unique_in_order (map fst ps))) (\<lambda>_.
     sbind (check_network cx ps) (\<lambda>_.
     sbind (check_sort cx ps) (\<lambda>srt.
     sbind (check_limit cx ps) (\<lambda>limit.
     sbind (check_text cx ap ps d) (\<lambda>f1.
     sbind (check_flag cx ps ''x402'' a_x402) (\<lambda>f2.
     sbind (check_flag cx ps ''mpp'' a_mpp) (\<lambda>f3.
     sbind (check_flag cx ps ''hasServices'' (\<lambda>r. a_services r \<noteq> [])) (\<lambda>f4.
     sbind (check_trust cx ps) (\<lambda>f5.
     sbind (check_min_score cx ap dj ps d) (\<lambda>f6.
       Inr \<lparr>rq_sort = srt, rq_limit = limit, rq_filter = (\<lambda>x. f1 x \<and> f2 x \<and> f3 x \<and> f4 x \<and> f5 x \<and> f6 x)\<rparr>))))))))))"

definition insert_param :: "disc \<Rightarrow> string \<times> string \<Rightarrow> params \<Rightarrow> params" where
  "insert_param dj x xs = takeWhile (\<lambda>y. \<not> dj_name_le dj (fst x) (fst y)) xs @ x # dropWhile (\<lambda>y. \<not> dj_name_le dj (fst x) (fst y)) xs"

definition query_text :: "disc \<Rightarrow> params \<Rightarrow> string" where
  "query_text dj ps = join ''&'' (map (\<lambda>(k, v). k @ ''='' @ v)
     (foldr (insert_param dj) (filter (\<lambda>(k, v). k \<noteq> ''cursor'' \<and> k \<noteq> ''limit'') ps) []))"

text \<open>The page: its rows, and whether and where it goes on.\<close>

definition disc_page :: "api \<Rightarrow> db \<Rightarrow> request_plan \<Rightarrow> disc_key option \<Rightarrow> agent list \<times> bool" where
  "disc_page ap d plan key =
     (let found = filter (\<lambda>x. rq_filter plan x \<and> (case key of None \<Rightarrow> True | Some k \<Rightarrow> after ap d (rq_sort plan) k x)) (agents d);
          results = take (rq_limit plan + 1) (order_rows ap d (rq_sort plan) found)
      in (take (rq_limit plan) results, rq_limit plan < length results))"

definition disc_item :: "api \<Rightarrow> db \<Rightarrow> agent \<Rightarrow> native" where
  "disc_item ap d x = NObj (spread (formatAgent (fst x) (snd x) (Some (leaderboard_scores (ap_avg ap) d (fst x))))
     [(''score'', nrat (disc_score ap d (fst x)))])"

definition ledger_min :: "int list \<Rightarrow> int" where
  "ledger_min xs = (case xs of [] \<Rightarrow> 0 | x # ys \<Rightarrow> fold min ys x)"

definition indexed_at :: "contract_status list \<Rightarrow> native" where
  "indexed_at cs = (case sort (filter (\<lambda>t. t \<noteq> []) (List.map_filter st_updated cs)) of [] \<Rightarrow> NNull | t # _ \<Rightarrow> NStr t)"

definition disc_cursor :: "api \<Rightarrow> disc \<Rightarrow> db \<Rightarrow> string \<Rightarrow> request_plan \<Rightarrow> agent list \<Rightarrow> bool \<Rightarrow> string + native" where
  "disc_cursor ap dj d query plan rows hasMore =
     (if hasMore \<and> rows \<noteq> [] then sbind (encodeCursor dj query (key_of ap d (rq_sort plan) (last rows))) (\<lambda>c. Inr (NStr c)) else Inr NNull)"

definition disc_extra :: "api \<Rightarrow> db \<Rightarrow> request_plan \<Rightarrow> bool \<Rightarrow> native \<Rightarrow> (string \<times> native) list" where
  "disc_extra ap d plan hasMore cursor =
     [(''version'', NStr ''2.0.0''),
      (''pagination'', NObj [(''limit'', nint (int (rq_limit plan))), (''hasMore'', NBool hasMore), (''nextCursor'', cursor)]),
      (''asOfLedger'', nint (ledger_min (map (\<lambda>(i, c). st_last c) (indexerStatus ap d)))),
      (''indexedAt'', indexed_at (map snd (indexerStatus ap d))),
      (''coverage'', NObj [(''scope'', NStr ''indexed_projection''), (''queryComplete'', NBool True), (''snapshot'', NBool False)])]"

definition disc_response :: "req_context \<Rightarrow> api \<Rightarrow> db \<Rightarrow> request_plan \<Rightarrow> agent list \<Rightarrow> bool \<Rightarrow> native \<Rightarrow> http_response" where
  "disc_response cx ap d plan rows hasMore cursor =
     successWithCache cx (NArr (map (disc_item ap d) rows)) 30 120 (disc_extra ap d plan hasMore cursor)"

definition decode_key :: "req_context \<Rightarrow> disc \<Rightarrow> params \<Rightarrow> disc_sort \<Rightarrow> http_response + disc_key option" where
  "decode_key cx dj ps srt = (case param ps ''cursor'' of
      None \<Rightarrow> Inr None
    | Some cursor \<Rightarrow> (case decodeCursor dj cursor (query_text dj ps) srt of
        None \<Rightarrow> Inl (errorResponse cx ''INVALID_CURSOR'' ''Cursor is malformed or from another query'' 400)
      | Some k \<Rightarrow> Inr (Some k)))"

definition disc_stale :: "api \<Rightarrow> db \<Rightarrow> bool" where
  "disc_stale ap d \<longleftrightarrow> (\<exists>(i, c) \<in> set (indexerStatus ap d). st_stale c)"

definition handleDiscovery :: "req_context \<Rightarrow> api \<Rightarrow> disc \<Rightarrow> params \<Rightarrow> db \<Rightarrow> string + http_response" where
  "handleDiscovery cx ap dj ps d =
     (case sbind (plan_request cx ap dj ps d) (\<lambda>plan. sbind (decode_key cx dj ps (rq_sort plan)) (\<lambda>key. Inr (plan, key))) of
        Inl response \<Rightarrow> Inr response
      | Inr (plan, key) \<Rightarrow>
          if disc_stale ap d then Inr (errorResponse cx ''INDEX_STALE'' ''The index is behind the chain; try again shortly'' 503)
          else (case disc_page ap d plan key of (rows, hasMore) \<Rightarrow>
            sbind (disc_cursor ap dj d (query_text dj ps) plan rows hasMore) (\<lambda>cursor.
              Inr (disc_response cx ap d plan rows hasMore cursor))))"

text \<open>What \<open>serveApi\<close> answers for the handler, rate limit headers aside.\<close>

definition discovery_reply :: "req_context \<Rightarrow> api \<Rightarrow> disc \<Rightarrow> params \<Rightarrow> db \<Rightarrow> http_response" where
  "discovery_reply cx ap dj ps d = (case handleDiscovery cx ap dj ps d of
      Inr r \<Rightarrow> r
    | Inl _ \<Rightarrow> errorResponse cx ''INTERNAL_ERROR'' ''An unexpected error occurred'' 500)"

section \<open>Keyset pagination\<close>

text \<open>
  What the pages of a walk rely on: an order of the rows that is a strict one on the rows of a table, which filtering does not
  disturb, and a key of a row such that the rows after the key are those behind the row.
\<close>

locale keyset =
  fixes lt :: "'r \<Rightarrow> 'r \<Rightarrow> bool"
    and ord :: "'r list \<Rightarrow> 'r list"
    and key :: "'r \<Rightarrow> 'k"
    and behind :: "'k \<Rightarrow> 'r \<Rightarrow> bool"
    and table :: "'r list \<Rightarrow> bool"
  assumes lt_asym: "lt x y \<Longrightarrow> \<not> lt y x"
    and ord_sorted: "table rows \<Longrightarrow> sorted_wrt lt (ord rows)"
    and ord_filter: "ord (filter P rows) = filter P (ord rows)"
    and behind_key: "behind (key x) y \<longleftrightarrow> lt x y"
    and table_filter: "table rows \<Longrightarrow> table (filter P rows)"
begin

lemma behind_sorted:
  "sorted_wrt lt xs \<Longrightarrow> i < length xs \<Longrightarrow> filter (behind (key (xs ! i))) xs = drop (Suc i) xs"
proof (induction xs arbitrary: i)
  case (Cons x xs)
  then have x: "\<And>y. y \<in> set xs \<Longrightarrow> lt x y \<and> \<not> lt y x" "\<not> lt x x" using lt_asym by auto
  show ?case
  proof (cases i)
    case 0
    have "filter (lt x) xs = xs" using x by simp
    with 0 x(2) show ?thesis by (simp add: behind_key)
  next
    case (Suc j)
    with Cons.prems have "j < length xs" "xs ! j \<in> set xs" by auto
    with Suc Cons x show ?thesis by (simp add: behind_key)
  qed
qed simp

lemma page_behind:
  assumes "table rows" and "i < length (ord (filter P rows))"
  shows "ord (filter (\<lambda>x. P x \<and> behind (key (ord (filter P rows) ! i)) x) rows) = drop (Suc i) (ord (filter P rows))"
proof -
  let ?Q = "behind (key (ord (filter P rows) ! i))"
  have "filter (\<lambda>x. P x \<and> ?Q x) rows = filter ?Q (filter P rows)" by (simp add: conj_commute)
  then have "ord (filter (\<lambda>x. P x \<and> ?Q x) rows) = filter ?Q (ord (filter P rows))" by (simp only: ord_filter)
  also have "\<dots> = drop (Suc i) (ord (filter P rows))"
    using behind_sorted assms ord_sorted table_filter by blast
  finally show ?thesis .
qed

end

lemma sorted_wrt_keys:
  fixes f :: "'a \<Rightarrow> 'k::linorder"
  assumes "sorted (map f xs)" and "distinct xs" and "inj_on f (set xs)"
  shows "sorted_wrt (\<lambda>x y. f x < f y) xs"
  using assms by (induction xs) (auto simp: order_less_le inj_on_def)

lemma sort_key_strict:
  fixes f :: "'a \<Rightarrow> 'k::linorder"
  assumes "distinct rows" and "inj_on f (set rows)"
  shows "sorted_wrt (\<lambda>x y. f x < f y) (sort_key f rows)"
  by (rule sorted_wrt_keys) (use assms in auto)

definition table_ids :: "agent list \<Rightarrow> bool" where
  "table_ids rows \<longleftrightarrow> distinct (map fst rows)"

lemma table_idsD: "table_ids rows \<Longrightarrow> distinct rows \<and> inj_on fst (set rows)"
  by (simp add: table_ids_def distinct_map)

lemma table_ids_filter: "table_ids rows \<Longrightarrow> table_ids (filter P rows)"
  by (simp add: table_ids_def distinct_map_filter)

definition row_before :: "api \<Rightarrow> db \<Rightarrow> disc_sort \<Rightarrow> agent \<Rightarrow> agent \<Rightarrow> bool" where
  "row_before ap d s x y \<longleftrightarrow> (case s of
      By_Score \<Rightarrow> (- disc_score ap d (fst x), fst x) < (- disc_score ap d (fst y), fst y)
    | By_Newest \<Rightarrow> (a_created_at (snd y), fst y) < (a_created_at (snd x), fst x)
    | By_Id \<Rightarrow> fst x < fst y)"

lemma order_rows_sorted: "table_ids rows \<Longrightarrow> sorted_wrt (row_before ap d s) (order_rows ap d s rows)"
proof (cases s)
  case By_Score
  assume "table_ids rows"
  then have "inj_on (\<lambda>(i, r). (- disc_score ap d i, i)) (set rows)" "distinct rows"
    using table_idsD by (force simp: inj_on_def)+
  from sort_key_strict [OF this(2,1)] By_Score show ?thesis
    by (simp add: row_before_def [abs_def] case_prod_unfold)
next
  case By_Newest
  assume "table_ids rows"
  then have "inj_on (\<lambda>(i, r). (a_created_at r, i)) (set rows)" "distinct rows"
    using table_idsD by (force simp: inj_on_def)+
  from sort_key_strict [OF this(2,1)] By_Newest show ?thesis
    by (simp add: row_before_def [abs_def] case_prod_unfold sorted_wrt_rev)
next
  case By_Id
  assume "table_ids rows"
  with table_idsD sort_key_strict [of rows fst] By_Id show ?thesis
    by (simp add: row_before_def [abs_def])
qed

lemma after_row_before: "after ap d s (key_of ap d s x) y \<longleftrightarrow> row_before ap d s x y"
  by (cases s; cases x; cases y) (auto simp: row_before_def rat_less_def)

interpretation ks: keyset "row_before ap d s" "order_rows ap d s" "key_of ap d s" "after ap d s" table_ids
  for ap d s
proof
  show "row_before ap d s x y \<Longrightarrow> \<not> row_before ap d s y x" for x y
    by (auto simp: row_before_def split: disc_sort.splits)
  show "order_rows ap d s (filter P rows) = filter P (order_rows ap d s rows)" for P rows
    by (cases s) (simp_all add: filter_sort rev_filter [symmetric])
qed (simp_all add: order_rows_sorted after_row_before table_ids_filter)

section \<open>Cursors round trip\<close>

lemma plain_url_b64: "c \<in> set BASE64 \<Longrightarrow> plain_char (url_char c) = c"
  using base64_facts(4,5) by (auto simp: plain_char_def url_char_def)

lemma strip_url: "strip_end (map url_char s) = map url_char (strip_end s)"
proof -
  have "url_char c = CHR ''='' \<longleftrightarrow> c = CHR ''=''" for c by (simp add: url_char_def)
  then show ?thesis by (simp add: strip_end_def rev_map dropWhile_map comp_def)
qed

lemma atob_cursor: "atob (map plain_char (strip_end (map url_char (btoa s)))) = Some s"
proof -
  have "map plain_char (map url_char (b64_text s)) = b64_text s"
    using plain_url_b64 b64_text_chars by (simp add: map_idI)
  then show ?thesis using atob_stripped [of s] by (simp add: strip_url strip_btoa)
qed

fun key_id :: "disc_key \<Rightarrow> int" where
  "key_id (Num_Key v i) = i"
| "key_id (Text_Key v i) = i"

fun key_fits :: "disc_sort \<Rightarrow> disc_key \<Rightarrow> bool" where
  "key_fits By_Newest (Text_Key v i) = True"
| "key_fits By_Newest (Num_Key v i) = False"
| "key_fits _ (Num_Key v i) = True"
| "key_fits _ (Text_Key v i) = False"

lemma key_of_facts [simp]: "key_fits s (key_of ap d s x)" "key_id (key_of ap d s x) = fst x"
  by (cases s; cases x; simp)+

text \<open>What the round trip of a cursor relies on: its JSON text is in Latin-1 and JSON reads it back.\<close>

definition cursor_reads :: "disc \<Rightarrow> native \<Rightarrow> bool" where
  "cursor_reads dj c \<longleftrightarrow> latin1 (dj_stringify dj c) \<and> dj_parse dj (units_text (dj_stringify dj c)) = Some c"

definition cursor_text :: "disc \<Rightarrow> string \<Rightarrow> disc_key \<Rightarrow> string" where
  "cursor_text dj query k = strip_end (map url_char (btoa (units_text (dj_stringify dj (cursor_object query k)))))"

lemma encode_text: "encodeCursor dj query k = Inr c \<longleftrightarrow> latin1 (dj_stringify dj (cursor_object query k)) \<and> c = cursor_text dj query k"
  by (auto simp: encodeCursor_def btoa_units_def cursor_text_def)

lemma decode_text:
  assumes "cursor_reads dj (cursor_object query k)" and "\<bar>key_id k\<bar> \<le> max_safe"
  shows "decodeCursor dj (cursor_text dj query k) query' s = (if query' = query \<and> key_fits s k then Some k else None)"
  using assms
  by (cases k; cases s)
    (auto simp: cursor_reads_def decodeCursor_def cursor_text_def atob_cursor cursor_object_def getProp_def isSafeInteger_def)

section \<open>The walk\<close>

definition with_cursor :: "params \<Rightarrow> string option \<Rightarrow> params" where
  "with_cursor ps c = (case c of None \<Rightarrow> ps | Some v \<Rightarrow> ps @ [(''cursor'', v)])"

definition next_cursor :: "http_response \<Rightarrow> string option" where
  "next_cursor r = (case hr_body r of None \<Rightarrow> None
    | Some b \<Rightarrow> (case getProp (getProp (getProp b ''meta'') ''pagination'') ''nextCursor'' of NStr c \<Rightarrow> Some c | _ \<Rightarrow> None))"

text \<open>A client that follows \<open>nextCursor\<close>, at most \<open>n\<close> pages.\<close>

fun walk :: "(params \<Rightarrow> http_response) \<Rightarrow> params \<Rightarrow> nat \<Rightarrow> string option \<Rightarrow> native list" where
  "walk get ps 0 c = []"
| "walk get ps (Suc n) c =
     (let r = get (with_cursor ps c)
      in response_data r @ (case next_cursor r of None \<Rightarrow> [] | Some c' \<Rightarrow> walk get ps n (Some c')))"

lemma check_names_ok:
  "check_names cx ps names = Inr () \<longleftrightarrow> (\<forall>name \<in> set names. name \<in> set PARAMS \<and> length (filter (\<lambda>(k, v). k = name) ps) \<le> 1)"
  by (induction names) auto

lemma filter_names_Nil: "a \<notin> fst ` set ps \<Longrightarrow> filter (\<lambda>(k, v). k = a) ps = []"
  by (force simp: filter_empty_conv)

lemma filter_names_length: "(\<forall>name \<in> fst ` set ps. length (filter (\<lambda>(k, v). k = name) ps) \<le> 1) \<longleftrightarrow> distinct (map fst ps)"
proof (induction ps)
  case (Cons x ps)
  obtain a v where x: "x = (a, v)" by (cases x)
  show ?case
  proof (cases "a \<in> fst ` set ps")
    case True
    then have "filter (\<lambda>(k, v). k = a) ps \<noteq> []" by (force simp: filter_empty_conv)
    then have "\<not> length (filter (\<lambda>(k, v). k = a) (x # ps)) \<le> 1" by (simp add: x)
    with True show ?thesis by (auto simp: x)
  next
    case False
    then have "\<And>n. n \<in> fst ` set ps \<Longrightarrow> n \<noteq> a" by auto
    with Cons False show ?thesis by (auto simp: x filter_names_Nil)
  qed
qed simp

lemma check_names_all:
  "check_names cx ps (unique_in_order (map fst ps)) = Inr () \<longleftrightarrow> fst ` set ps \<subseteq> set PARAMS \<and> distinct (map fst ps)"
  unfolding check_names_ok unique_in_order filter_names_length [symmetric] by auto

lemma param_with_cursor: "k \<noteq> ''cursor'' \<Longrightarrow> param (with_cursor ps c) k = param ps k" "k \<noteq> ''cursor'' \<Longrightarrow> param_or (with_cursor ps c) k = param_or ps k"
  by (auto simp: param_def param_or_def with_cursor_def map_add_def split: option.split)

lemma query_with_cursor: "query_text dj (with_cursor ps c) = query_text dj ps"
  by (simp add: query_text_def with_cursor_def split: option.split)

lemma param_cursor: "param ps ''cursor'' = None \<Longrightarrow> param (with_cursor ps c) ''cursor'' = c"
  by (auto simp: param_def with_cursor_def map_add_def split: option.split)

lemma plan_with_cursor:
  assumes "plan_request cx ap dj ps d = Inr plan" and "param ps ''cursor'' = None"
  shows "plan_request cx ap dj (with_cursor ps c) d = Inr plan"
proof -
  have "check_names cx ps (unique_in_order (map fst ps)) = Inr ()" using assms(1) by (auto simp: plan_request_def sbind_eq_Inr)
  moreover have "''cursor'' \<notin> fst ` set ps" using assms(2) by (simp add: param_def map_of_eq_None_iff)
  ultimately have "check_names cx (with_cursor ps c) (unique_in_order (map fst (with_cursor ps c))) = Inr ()"
    by (auto simp: check_names_all with_cursor_def PARAMS_def split: option.split)
  with assms(1) show ?thesis
    by (simp add: plan_request_def check_network_def check_sort_def check_limit_def check_text_def check_flag_def check_trust_def
        check_min_score_def param_with_cursor sbind_eq_Inr)
qed

lemma walk_fields:
  "response_data (disc_response cx ap d plan rows hasMore cursor) = map (disc_item ap d) rows"
  "next_cursor (disc_response cx ap d plan rows hasMore cursor) = (case cursor of NStr c \<Rightarrow> Some c | _ \<Rightarrow> None)"
  by (simp add: disc_response_def response_fields)
    (simp add: disc_response_def disc_extra_def next_cursor_def successWithCache_def meta_def spread_def getProp_def)

lemma rq_limit_bounds: "plan_request cx ap dj ps d = Inr plan \<Longrightarrow> 1 \<le> rq_limit plan \<and> rq_limit plan \<le> 100"
  by (auto simp: plan_request_def sbind_eq_Inr check_limit_def Let_def split: if_splits)

definition disc_rows :: "api \<Rightarrow> db \<Rightarrow> request_plan \<Rightarrow> agent list" where
  "disc_rows ap d plan = order_rows ap d (rq_sort plan) (filter (rq_filter plan) (agents d))"

text \<open>The key in front of position \<open>m\<close> of the whole result, and the page it gives.\<close>

definition key_at :: "api \<Rightarrow> db \<Rightarrow> request_plan \<Rightarrow> nat \<Rightarrow> disc_key option" where
  "key_at ap d plan m = (if m = 0 then None else Some (key_of ap d (rq_sort plan) (disc_rows ap d plan ! (m - 1))))"

lemma disc_page_at:
  assumes "table_ids (agents d)" and "m \<le> length (disc_rows ap d plan)"
  shows "disc_page ap d plan (key_at ap d plan m) =
    (take (rq_limit plan) (drop m (disc_rows ap d plan)), m + rq_limit plan < length (disc_rows ap d plan))"
proof -
  have "order_rows ap d (rq_sort plan) (filter (\<lambda>x. rq_filter plan x \<and>
      (case key_at ap d plan m of None \<Rightarrow> True | Some k \<Rightarrow> after ap d (rq_sort plan) k x)) (agents d)) = drop m (disc_rows ap d plan)"
  proof (cases m)
    case 0
    then show ?thesis by (simp add: key_at_def disc_rows_def)
  next
    case (Suc i)
    with assms show ?thesis by (simp add: key_at_def disc_rows_def ks.page_behind)
  qed
  with assms(2) show ?thesis by (auto simp: disc_page_def Let_def min_def)
qed

lemma last_page:
  assumes "m + k < length xs" "1 \<le> k"
  shows "last (take k (drop m xs)) = xs ! (m + k - 1)" "take k (drop m xs) \<noteq> []"
  using assms by (simp_all add: last_conv_nth min_def)

lemma order_rows_set: "set (order_rows ap d s rows) = set rows" "length (order_rows ap d s rows) = length rows"
  by (cases s; simp)+

text \<open>What a walk relies on: unique safe ids, and cursors of the rows of the table that are in Latin-1 and that JSON reads back.\<close>

definition walkable :: "disc \<Rightarrow> api \<Rightarrow> db \<Rightarrow> params \<Rightarrow> request_plan \<Rightarrow> bool" where
  "walkable dj ap d ps plan \<longleftrightarrow> table_ids (agents d) \<and> (\<forall>x \<in> set (agents d). \<bar>fst x\<bar> \<le> max_safe \<and>
     cursor_reads dj (cursor_object (query_text dj ps) (key_of ap d (rq_sort plan) x)))"

definition cursor_at :: "disc \<Rightarrow> api \<Rightarrow> db \<Rightarrow> params \<Rightarrow> request_plan \<Rightarrow> nat \<Rightarrow> string option" where
  "cursor_at dj ap d ps plan m = map_option (cursor_text dj (query_text dj ps)) (key_at ap d plan m)"

lemma row_walkable:
  assumes "walkable dj ap d ps plan" "i < length (disc_rows ap d plan)"
  shows "\<bar>fst (disc_rows ap d plan ! i)\<bar> \<le> max_safe"
    "cursor_reads dj (cursor_object (query_text dj ps) (key_of ap d (rq_sort plan) (disc_rows ap d plan ! i)))"
proof -
  have "disc_rows ap d plan ! i \<in> set (disc_rows ap d plan)" using assms(2) by simp
  then have "disc_rows ap d plan ! i \<in> set (agents d)" by (auto simp: disc_rows_def order_rows_set)
  with assms(1) show "\<bar>fst (disc_rows ap d plan ! i)\<bar> \<le> max_safe"
    "cursor_reads dj (cursor_object (query_text dj ps) (key_of ap d (rq_sort plan) (disc_rows ap d plan ! i)))"
    by (auto simp: walkable_def)
qed

lemma handle_at:
  assumes plan: "plan_request cx ap dj ps d = Inr plan" "param ps ''cursor'' = None" "\<not> disc_stale ap d"
    and ok: "walkable dj ap d ps plan" and m: "m \<le> length (disc_rows ap d plan)"
  shows "discovery_reply cx ap dj (with_cursor ps (cursor_at dj ap d ps plan m)) d =
    disc_response cx ap d plan (take (rq_limit plan) (drop m (disc_rows ap d plan))) (m + rq_limit plan < length (disc_rows ap d plan))
      (if m + rq_limit plan < length (disc_rows ap d plan) then NStr (the (cursor_at dj ap d ps plan (m + rq_limit plan))) else NNull)"
proof -
  let ?ps = "with_cursor ps (cursor_at dj ap d ps plan m)" and ?rows = "disc_rows ap d plan" and ?k = "rq_limit plan"
  have "decode_key cx dj ?ps (rq_sort plan) = Inr (key_at ap d plan m)"
  proof (cases m)
    case (Suc i)
    with row_walkable [OF ok, of i] m show ?thesis
      by (auto simp: decode_key_def param_cursor [OF plan(2)] cursor_at_def key_at_def query_with_cursor decode_text)
  qed (simp add: decode_key_def param_cursor [OF plan(2)] cursor_at_def key_at_def)
  moreover have "plan_request cx ap dj ?ps d = Inr plan" by (rule plan_with_cursor [OF plan(1,2)])
  moreover have "disc_cursor ap dj d (query_text dj ps) plan (take ?k (drop m ?rows)) (m + ?k < length ?rows) =
      Inr (if m + ?k < length ?rows then NStr (the (cursor_at dj ap d ps plan (m + ?k))) else NNull)"
  proof (cases "m + ?k < length ?rows")
    case True
    have k: "1 \<le> ?k" using rq_limit_bounds [OF plan(1)] by simp
    have "encodeCursor dj (query_text dj ps) (key_of ap d (rq_sort plan) (?rows ! (m + ?k - 1))) =
        Inr (cursor_text dj (query_text dj ps) (key_of ap d (rq_sort plan) (?rows ! (m + ?k - 1))))"
      using row_walkable(2) [OF ok, of "m + ?k - 1"] True by (simp add: encode_text cursor_reads_def)
    with True k last_page [OF True k] show ?thesis by (simp add: disc_cursor_def cursor_at_def key_at_def)
  qed (simp add: disc_cursor_def)
  ultimately show ?thesis
    using plan(3) disc_page_at [OF _ m] ok by (simp add: discovery_reply_def handleDiscovery_def walkable_def query_with_cursor)
qed

lemma walk_from:
  assumes plan: "plan_request cx ap dj ps d = Inr plan" "param ps ''cursor'' = None" "\<not> disc_stale ap d" "walkable dj ap d ps plan"
    and "m \<le> length (disc_rows ap d plan)" and "length (disc_rows ap d plan) - m < n"
  shows "walk (\<lambda>q. discovery_reply cx ap dj q d) ps n (cursor_at dj ap d ps plan m) = map (disc_item ap d) (drop m (disc_rows ap d plan))"
  using assms(5,6)
proof (induction n arbitrary: m)
  case (Suc n)
  let ?rows = "disc_rows ap d plan" and ?k = "rq_limit plan"
  note page = handle_at [OF plan Suc.prems(1)]
  have k: "1 \<le> ?k" using rq_limit_bounds [OF plan(1)] by simp
  show ?case
  proof (cases "m + ?k < length ?rows")
    case True
    have "cursor_at dj ap d ps plan (m + ?k) \<noteq> None" using k by (simp add: cursor_at_def key_at_def)
    then have "walk (\<lambda>q. discovery_reply cx ap dj q d) ps (Suc n) (cursor_at dj ap d ps plan m) =
        map (disc_item ap d) (take ?k (drop m ?rows)) @ walk (\<lambda>q. discovery_reply cx ap dj q d) ps n (cursor_at dj ap d ps plan (m + ?k))"
      using True by (auto simp: page walk_fields)
    also have "\<dots> = map (disc_item ap d) (take ?k (drop m ?rows) @ drop (m + ?k) ?rows)"
      using Suc.IH [of "m + ?k"] Suc.prems True k by simp
    also have "\<dots> = map (disc_item ap d) (drop m ?rows)" by (metis add.commute append_take_drop_id drop_drop)
    finally show ?thesis .
  next
    case False
    then show ?thesis by (simp add: page walk_fields)
  qed
qed simp

section \<open>Requests\<close>

lemma response_status [simp]: "hr_status (errorResponse cx code message status) = status" "hr_status (successWithCache cx v a b extra) = 200"
  by (simp_all add: errorResponse_def successWithCache_def)

lemma disc_ok: "api_ok (disc_response cx ap d plan rows hasMore cursor)" "hr_status (disc_response cx ap d plan rows hasMore cursor) = 200"
  by (simp_all add: disc_response_def api_ok_success)

lemma check_names_error: "check_names cx ps names = Inl r \<Longrightarrow> \<exists>m. r = bad cx m"
  by (induction names) (auto split: if_splits)

lemma check_errors:
  "check_network cx ps = Inl r \<Longrightarrow> \<exists>m. r = bad cx m"
  "check_sort cx ps = Inl r \<Longrightarrow> \<exists>m. r = bad cx m"
  "check_limit cx ps = Inl r \<Longrightarrow> \<exists>m. r = bad cx m"
  "check_text cx ap ps d = Inl r \<Longrightarrow> \<exists>m. r = bad cx m"
  "check_flag cx ps name column = Inl r \<Longrightarrow> \<exists>m. r = bad cx m"
  "check_trust cx ps = Inl r \<Longrightarrow> \<exists>m. r = bad cx m"
  by (auto simp: check_network_def check_sort_def check_limit_def check_text_def check_flag_def check_trust_def Let_def
      split: if_splits option.splits)

lemma check_min_score_error: "check_min_score cx ap dj ps d = Inl r \<Longrightarrow> \<exists>m. r = bad cx m"
  by (auto simp: check_min_score_def split: if_splits option.splits jsnum.splits)

lemma plan_error: "plan_request cx ap dj ps d = Inl r \<Longrightarrow> \<exists>m. r = bad cx m"
  unfolding plan_request_def sbind_eq_Inl by (auto dest: check_names_error check_errors check_min_score_error)

lemma plan_names:
  assumes "plan_request cx ap dj ps d = Inr plan"
  shows "fst ` set ps \<subseteq> set PARAMS" "distinct (map fst ps)" "param ps ''network'' = Some (cx_network cx)"
    "1 \<le> rq_limit plan" "rq_limit plan \<le> 100" "case param ps ''limit'' of None \<Rightarrow> rq_limit plan = 20 | Some t \<Rightarrow> rq_limit plan = read_nat t"
proof -
  have ok: "check_names cx ps (unique_in_order (map fst ps)) = Inr ()" "check_network cx ps = Inr ()" "check_limit cx ps = Inr (rq_limit plan)"
    using assms by (auto simp: plan_request_def sbind_eq_Inr)
  show "fst ` set ps \<subseteq> set PARAMS" "distinct (map fst ps)" using ok(1) by (simp_all add: check_names_all)
  show "param ps ''network'' = Some (cx_network cx)"
    using ok(2) by (simp add: check_network_def param_or_def param_def Let_def split: if_splits option.splits)
  have "read_nat ''20'' = 20" by (simp add: read_nat_def val_of_def code_of_def)
  with ok(3) show "1 \<le> rq_limit plan" "rq_limit plan \<le> 100"
    "case param ps ''limit'' of None \<Rightarrow> rq_limit plan = 20 | Some t \<Rightarrow> rq_limit plan = read_nat t"
    by (simp_all add: check_limit_def Let_def split: if_splits option.splits)
qed

section \<open>Properties\<close>

lemma order_rows_mset: "mset (order_rows ap d s rows) = mset rows"
  by (cases s) simp_all

text \<open>C16. The walk covers the registry: on an unchanged database whose index is not stale, a client that follows
  \<open>nextCursor\<close> from a valid request gets exactly the matching agents, each once and in the requested order, and is done after at
  most one page more than there are agents, provided that the JSON texts of the cursors are in Latin-1 (a query with other
  characters is answered with a 500 instead of a further page), that JSON reads them back and that the ids are safe integers.\<close>

theorem discovery_walk:
  assumes "db_inv d" and "plan_request cx ap dj ps d = Inr plan" and "param ps ''cursor'' = None" and "\<not> disc_stale ap d"
    and "\<forall>x \<in> set (agents d). \<bar>fst x\<bar> \<le> max_safe"
    and "\<forall>x \<in> set (agents d). latin1 (dj_stringify dj (cursor_object (query_text dj ps) (key_of ap d (rq_sort plan) x)))"
    and "\<forall>x \<in> set (agents d). dj_parse dj (units_text (dj_stringify dj (cursor_object (query_text dj ps) (key_of ap d (rq_sort plan) x)))) =
      Some (cursor_object (query_text dj ps) (key_of ap d (rq_sort plan) x))"
    and "length (agents d) < n"
  shows "\<exists>rows. walk (\<lambda>q. discovery_reply cx ap dj q d) ps n None = map (disc_item ap d) rows \<and>
    mset rows = mset (filter (rq_filter plan) (agents d)) \<and> distinct (map fst rows) \<and> sorted_wrt (row_before ap d (rq_sort plan)) rows"
proof (intro exI conjI)
  let ?rows = "disc_rows ap d plan"
  have ids: "table_ids (agents d)" using assms(1) by (simp add: db_inv_defs table_ids_def)
  then have "walkable dj ap d ps plan" using assms(5-7) by (simp add: walkable_def cursor_reads_def)
  moreover have "length ?rows \<le> length (agents d)" by (simp add: disc_rows_def order_rows_set)
  ultimately show "walk (\<lambda>q. discovery_reply cx ap dj q d) ps n None = map (disc_item ap d) ?rows"
    using walk_from [OF assms(2-4), of 0 n] assms(8) by (simp add: cursor_at_def key_at_def)
  show perm: "mset ?rows = mset (filter (rq_filter plan) (agents d))" by (simp add: disc_rows_def order_rows_mset)
  have "mset (map fst ?rows) = mset (map fst (filter (rq_filter plan) (agents d)))" by (simp add: perm)
  then show "distinct (map fst ?rows)" using ids by (metis mset_eq_imp_distinct_iff table_ids_def table_ids_filter)
  show "sorted_wrt (row_before ap d (rq_sort plan)) ?rows"
    using order_rows_sorted [OF table_ids_filter [OF ids]] by (simp add: disc_rows_def)
qed

definition sample_disc :: disc where
  "sample_disc = \<lparr>dj_stringify = (\<lambda>v. case getProp v ''k'' of NArr [_, NNum (JFin r)] \<Rightarrow> replicate (nat \<lfloor>r\<rfloor>) 49 | _ \<Rightarrow> []),
     dj_parse = (\<lambda>s. Some (cursor_object ''network=mainnet&sort=id'' (Num_Key (JFin (of_nat (length s))) (int (length s))))),
     dj_number = (\<lambda>_. JNaN), dj_name_le = (\<lambda>a b. length a \<ge> length b)\<rparr>"

definition sample_state :: state_row where
  "sample_state = \<lparr>s_last = 7, s_updated_at = [], s_expected = Some 8, s_defers = 0, s_advanced_at = Some []\<rparr>"

definition sample_registry :: db where
  "sample_registry = sample_board\<lparr>agents := [(2, new_agent ''O'' ''u'' False [] 0 [] []), (1, new_agent ''O'' ''u'' False [] 0 [] [])],
     indexer_state := map (\<lambda>i. (i, sample_state)) status_names\<rparr>"

definition sample_params :: params where
  "sample_params = [(''network'', ''mainnet''), (''sort'', ''id''), (''limit'', ''1'')]"

definition sample_plan :: request_plan where
  "sample_plan = \<lparr>rq_sort = By_Id, rq_limit = 1, rq_filter = (\<lambda>_. True)\<rparr>"

lemma sample_registry_inv: "db_inv sample_registry"
  by (simp add: sample_registry_def sample_board_def sample_feedback_def db_inv_defs agent_check_def feedback_check_def text_cap_def
      new_agent_def has_def value_check_def is_digit_def code_of_def status_names_def)

lemma sample_plan: "plan_request sample_context sample_api sample_disc sample_params sample_registry = Inr sample_plan"
  by (simp add: plan_request_def sample_params_def sample_context_def unique_in_order_def PARAMS_def check_network_def param_or_def
      check_sort_def param_def check_limit_def read_nat_def is_digit_def code_of_def check_text_def check_flag_def
      check_trust_def check_min_score_def sample_plan_def val_of_def Let_def)

lemma sample_query: "query_text sample_disc sample_params = ''network=mainnet&sort=id''"
  by (simp add: query_text_def sample_params_def insert_param_def sample_disc_def)

theorem discovery_walk_witness:
  "\<exists>rows. walk (\<lambda>q. discovery_reply sample_context sample_api sample_disc q sample_registry) sample_params 3 None =
     map (disc_item sample_api sample_registry) rows \<and> map fst rows = [1, 2]"
proof -
  have stale: "\<not> disc_stale sample_api sample_registry"
    by (simp add: disc_stale_def indexerStatus_def status_names_def check_contract_def sample_registry_def sample_state_def sample_api_def
        STALE_AFTER_MS_def)
  have json: "\<forall>x \<in> set (agents sample_registry). latin1 (dj_stringify sample_disc
      (cursor_object (query_text sample_disc sample_params) (key_of sample_api sample_registry (rq_sort sample_plan) x)))"
    "\<forall>x \<in> set (agents sample_registry). dj_parse sample_disc (units_text (dj_stringify sample_disc
      (cursor_object (query_text sample_disc sample_params) (key_of sample_api sample_registry (rq_sort sample_plan) x)))) =
      Some (cursor_object (query_text sample_disc sample_params) (key_of sample_api sample_registry (rq_sort sample_plan) x))"
    by (simp_all add: sample_query)
      (simp_all add: sample_registry_def sample_plan_def sample_disc_def cursor_object_def getProp_def units_text_def latin1_def list_all_iff)
  have "param sample_params ''cursor'' = None" by (simp add: param_def sample_params_def)
  moreover have "\<forall>x \<in> set (agents sample_registry). \<bar>fst x\<bar> \<le> max_safe" "length (agents sample_registry) < 3"
    by (simp_all add: sample_registry_def max_safe_def)
  ultimately obtain rows where rows: "walk (\<lambda>q. discovery_reply sample_context sample_api sample_disc q sample_registry) sample_params 3 None =
      map (disc_item sample_api sample_registry) rows" "mset rows = mset (filter (rq_filter sample_plan) (agents sample_registry))"
      "sorted_wrt (row_before sample_api sample_registry (rq_sort sample_plan)) rows"
    using discovery_walk [OF sample_registry_inv sample_plan _ stale _ json, of 3] by blast
  from rows(3) have "sorted_wrt (\<lambda>x y. fst x < fst y) rows" by (simp add: row_before_def [abs_def] sample_plan_def)
  then have "sorted_wrt (\<lambda>x y. fst x \<le> fst y) rows" by (rule sorted_wrt_mono_rel [rotated]) simp
  then have "sorted (map fst rows)" by (simp add: sorted_map)
  moreover have "mset (map fst rows) = mset [1, 2]" by (simp add: rows(2) sample_plan_def) (simp add: sample_registry_def)
  ultimately have "sort [1, 2] = map fst rows" by (intro properties_for_sort) auto
  then have "map fst rows = [1, 2]" by simp
  with rows(1) show ?thesis by (intro exI conjI)
qed

text \<open>A query whose cursor is not in Latin-1 has no second page: the first request that needs a cursor is answered with a 500.\<close>

lemma cursor_beyond_latin1:
  assumes "plan_request cx ap dj ps d = Inr plan" "decode_key cx dj ps (rq_sort plan) = Inr key" "\<not> disc_stale ap d"
    and "disc_page ap d plan key = (rows, True)" "rows \<noteq> []"
    and "\<not> latin1 (dj_stringify dj (cursor_object (query_text dj ps) (key_of ap d (rq_sort plan) (last rows))))"
  shows "discovery_reply cx ap dj ps d = errorResponse cx ''INTERNAL_ERROR'' ''An unexpected error occurred'' 500"
  using assms by (simp add: discovery_reply_def handleDiscovery_def disc_cursor_def encodeCursor_def btoa_units_def)

text \<open>A cursor is bound to its query: where JSON reads back what it writes, decoding an encoded cursor gives back its key for
  the query and an order of its kind, and nothing for another query or another kind of order; and the encoded text needs no escaping in a
  URL, being made of letters, digits, dashes and underscores.\<close>

theorem cursor_roundtrip:
  assumes "dj_parse dj (units_text (dj_stringify dj (cursor_object query k))) = Some (cursor_object query k)" and "\<bar>key_id k\<bar> \<le> max_safe"
    and "encodeCursor dj query k = Inr c"
  shows "decodeCursor dj c query' s = (if query' = query \<and> key_fits s k then Some k else None) \<and>
    set c \<subseteq> set (CHR ''-'' # CHR ''_'' # BASE64) - {CHR ''+'', CHR ''/'', CHR ''=''}"
proof
  have c: "latin1 (dj_stringify dj (cursor_object query k))" "c = cursor_text dj query k" using assms(3) by (simp_all add: encode_text)
  then show "decodeCursor dj c query' s = (if query' = query \<and> key_fits s k then Some k else None)"
    using assms(1,2) by (simp add: decode_text cursor_reads_def)
  show "set c \<subseteq> set (CHR ''-'' # CHR ''_'' # BASE64) - {CHR ''+'', CHR ''/'', CHR ''=''}"
  proof
    fix a assume "a \<in> set c"
    then obtain b where "b \<in> set BASE64" "a = url_char b"
      using b64_text_chars c by (auto simp: cursor_text_def strip_url strip_btoa)
    moreover have "b \<noteq> CHR ''=''" using base64_facts(3) calculation(1) by auto
    ultimately show "a \<in> set (CHR ''-'' # CHR ''_'' # BASE64) - {CHR ''+'', CHR ''/'', CHR ''=''}"
      by (auto simp: url_char_def)
  qed
qed

theorem cursor_roundtrip_witness:
  "\<exists>c. encodeCursor sample_disc ''network=mainnet&sort=id'' (Num_Key (JFin 2) 2) = Inr c \<and>
     decodeCursor sample_disc c ''network=mainnet&sort=id'' By_Id = Some (Num_Key (JFin 2) 2) \<and> decodeCursor sample_disc c ''sort=id'' By_Id = None"
proof -
  let ?q = "''network=mainnet&sort=id''" and ?k = "Num_Key (JFin 2) 2"
  have json: "dj_parse sample_disc (units_text (dj_stringify sample_disc (cursor_object ?q ?k))) = Some (cursor_object ?q ?k)"
    by (simp add: sample_disc_def cursor_object_def getProp_def units_text_def)
  have enc: "encodeCursor sample_disc ?q ?k = Inr (cursor_text sample_disc ?q ?k)"
    by (simp add: encode_text sample_disc_def cursor_object_def getProp_def latin1_def list_all_iff)
  have "\<bar>key_id ?k\<bar> \<le> max_safe" by (simp add: max_safe_def)
  from cursor_roundtrip [OF json this enc, of ?q By_Id] cursor_roundtrip [OF json this enc, of "''sort=id''" By_Id] enc show ?thesis by auto
qed

lemma discovery_cases:
  obtains m where "plan_request cx ap dj ps d = Inl (bad cx m)" "handleDiscovery cx ap dj ps d = Inr (bad cx m)"
  | "handleDiscovery cx ap dj ps d = Inr (errorResponse cx ''INVALID_CURSOR'' ''Cursor is malformed or from another query'' 400)"
  | "disc_stale ap d" "handleDiscovery cx ap dj ps d = Inr (errorResponse cx ''INDEX_STALE'' ''The index is behind the chain; try again shortly'' 503)"
  | e where "handleDiscovery cx ap dj ps d = Inl e"
  | plan key rows hasMore cursor where "plan_request cx ap dj ps d = Inr plan" "\<not> disc_stale ap d" "disc_page ap d plan key = (rows, hasMore)"
      "disc_cursor ap dj d (query_text dj ps) plan rows hasMore = Inr cursor"
      "handleDiscovery cx ap dj ps d = Inr (disc_response cx ap d plan rows hasMore cursor)"
proof (cases "plan_request cx ap dj ps d")
  case (Inl r)
  then obtain m where "r = bad cx m" using plan_error by blast
  with Inl that(1) show ?thesis by (simp add: handleDiscovery_def)
next
  case plan: (Inr plan)
  show ?thesis
  proof (cases "decode_key cx dj ps (rq_sort plan)")
    case (Inl r)
    with plan that(2) show ?thesis by (auto simp: handleDiscovery_def decode_key_def split: option.splits)
  next
    case (Inr key)
    obtain rows hasMore where page: "disc_page ap d plan key = (rows, hasMore)" by (cases "disc_page ap d plan key")
    show ?thesis
    proof (cases "disc_stale ap d")
      case True
      with plan Inr that(3) show ?thesis by (simp add: handleDiscovery_def)
    next
      case False
      with plan Inr page have run: "handleDiscovery cx ap dj ps d =
          sbind (disc_cursor ap dj d (query_text dj ps) plan rows hasMore) (\<lambda>cursor. Inr (disc_response cx ap d plan rows hasMore cursor))"
        by (simp add: handleDiscovery_def)
      show ?thesis
      proof (cases "disc_cursor ap dj d (query_text dj ps) plan rows hasMore")
        case (Inl e)
        with run that(4) show ?thesis by simp
      next
        case cursor: (Inr cursor)
        with run have "handleDiscovery cx ap dj ps d = Inr (disc_response cx ap d plan rows hasMore cursor)" by simp
        with cursor plan False page show ?thesis by (intro that(5))
      qed
    qed
  qed
qed

lemma discovery_ok: "handleDiscovery cx ap dj ps d = Inr r \<Longrightarrow> api_ok r"
  by (rule discovery_cases [of cx ap dj ps d]) (auto simp: bad_def disc_ok api_ok_error)

lemma discovery_status: "handleDiscovery cx ap dj ps d = Inr r \<Longrightarrow> hr_status r \<in> {200, 400, 503}"
  by (rule discovery_cases [of cx ap dj ps d]) (auto simp: bad_def disc_ok)

text \<open>Discovery is strict: every response is one of 200, 400, 500 and 503, readable from any origin and an error never cached; a request is
  served only if its parameters are known, unrepeated and for this network, its limit is 1 to 100 and no contract's index is stale, and then it
  returns at most limit agents.\<close>

theorem discovery_strict:
  "api_ok (discovery_reply cx ap dj ps d) \<and>
   hr_status (discovery_reply cx ap dj ps d) \<in> {200, 400, 500, 503} \<and>
   (hr_status (discovery_reply cx ap dj ps d) = 200 \<longrightarrow>
     fst ` set ps \<subseteq> set PARAMS \<and> distinct (map fst ps) \<and> param ps ''network'' = Some (cx_network cx) \<and> \<not> disc_stale ap d \<and>
     (\<exists>limit. 1 \<le> limit \<and> limit \<le> 100 \<and> (case param ps ''limit'' of None \<Rightarrow> limit = 20 | Some t \<Rightarrow> limit = read_nat t) \<and>
       length (response_data (discovery_reply cx ap dj ps d)) \<le> limit))"
proof (rule discovery_cases [of cx ap dj ps d])
  fix plan key rows hasMore cursor
  assume plan: "plan_request cx ap dj ps d = Inr plan" "\<not> disc_stale ap d" "disc_page ap d plan key = (rows, hasMore)"
    "handleDiscovery cx ap dj ps d = Inr (disc_response cx ap d plan rows hasMore cursor)"
  have "length rows \<le> rq_limit plan" using plan(3) by (auto simp: disc_page_def Let_def)
  with plan plan_names [OF plan(1)] show ?thesis by (auto simp: discovery_reply_def walk_fields disc_ok)
qed (auto simp: discovery_reply_def bad_def intro: api_ok_error)

theorem discovery_strict_witness:
  "hr_status (discovery_reply sample_context sample_api sample_disc [] sample_registry) \<in> {200, 400, 500, 503} \<and>
   hr_status (discovery_reply sample_context sample_api sample_disc [] sample_registry) \<noteq> 200"
  using discovery_strict [of sample_context sample_api sample_disc "[]" sample_registry] by (auto simp: param_def)

end
