(* ===== verification/Api_Router.thy ===== *)
theory Api_Router
  imports Api_Discovery
begin

text \<open>
  The routes of the public API: \<open>webapp/apps/web/src/routes/api/v1/[...path]/+server.ts\<close>, \<open>routes/api/v2/discovery/+server.ts\<close> and
  \<open>routes/api/agents/count/+server.ts\<close>.

  \<open>decodeURIComponent\<close> is an argument (\<open>None\<close> when it throws): the guard is proved safe whatever it does, and complete where it leaves a
  text without percent signs alone. A handler runs on the database or, where a query fails, throws (\<open>Inl\<close>).
\<close>

section \<open>The path guard\<close>

definition ALLOWED_ENDPOINTS :: "string list" where
  "ALLOWED_ENDPOINTS = [''agents'', ''accounts'', ''search'', ''stats'', ''health'']"

text \<open>\<open>encodeURIComponent\<close> of characters below 256: UTF-8 bytes, percent encoded unless unreserved.\<close>

definition unreserved :: "char \<Rightarrow> bool" where
  "unreserved c \<longleftrightarrow> (let n = code_of c in (48 \<le> n \<and> n \<le> 57) \<or> (65 \<le> n \<and> n \<le> 90) \<or> (97 \<le> n \<and> n \<le> 122) \<or>
     c \<in> set (CHR 0x27 # ''-_.!~*()''))"

definition hex_upper :: "nat \<Rightarrow> char" where
  "hex_upper n = ''0123456789ABCDEF'' ! n"

definition percent_byte :: "nat \<Rightarrow> string" where
  "percent_byte n = [CHR ''%'', hex_upper (n div 16 mod 16), hex_upper (n mod 16)]"

definition encode_char :: "char \<Rightarrow> string" where
  "encode_char c = (let n = code_of c in
     if unreserved c then [c] else if n < 128 then percent_byte n else percent_byte (192 + n div 64) @ percent_byte (128 + n mod 64))"

definition encodeURIComponent :: "string \<Rightarrow> string" where
  "encodeURIComponent s = concat (map encode_char s)"

text \<open>The loop of at most \<open>n\<close> decodings.\<close>

fun decode_loop :: "(string \<Rightarrow> string option) \<Rightarrow> nat \<Rightarrow> string \<Rightarrow> string option" where
  "decode_loop decode 0 decoded = Some decoded"
| "decode_loop decode (Suc n) decoded = (case decode decoded of
      None \<Rightarrow> None
    | Some nxt \<Rightarrow> if nxt = decoded then Some decoded else decode_loop decode n nxt)"

definition segments_ok :: "string list \<Rightarrow> bool" where
  "segments_ok segments \<longleftrightarrow> hd segments \<in> set ALLOWED_ENDPOINTS \<and> \<not> (\<exists>s \<in> set segments. s = [] \<or> s = ''.'' \<or> s = ''..'')"

definition guard :: "(string \<Rightarrow> string option) \<Rightarrow> string \<Rightarrow> string list option" where
  "guard decode path = (case decode_loop decode 6 path of
      None \<Rightarrow> None
    | Some decoded \<Rightarrow>
        if CHR ''%'' \<in> set decoded \<or> CHR 0x5C \<in> set decoded then None
        else (let segments = split_on (CHR ''/'') decoded
              in if segments_ok segments then Some (map encodeURIComponent segments) else None))"

section \<open>The routes\<close>

definition not_found :: "req_context \<Rightarrow> http_response" where
  "not_found cx = errorResponse cx ''NOT_FOUND'' ''Endpoint not found'' 404"

definition other_network :: "req_context \<Rightarrow> params \<Rightarrow> bool" where
  "other_network cx ps = (case param ps ''network'' of None \<Rightarrow> False | Some network \<Rightarrow> network \<noteq> cx_network cx)"

definition route :: "req_context \<Rightarrow> api \<Rightarrow> string list \<Rightarrow> params \<Rightarrow> db \<Rightarrow> http_response" where
  "route cx ap parts ps d =
     (if other_network cx ps
      then errorResponse cx ''INVALID_PARAM'' (''This explorer indexes '' @ cx_network cx @ '', not '' @ dq (param_or ps ''network'')) 400
      else (case parts of
          [endpoint] \<Rightarrow>
            if endpoint = ''health'' then handleHealth cx ap d
            else if endpoint = ''stats'' then handleStats cx ap d
            else if endpoint = ''search'' then handleSearch cx ap ps d
            else if endpoint = ''agents'' then handleAgentsList cx ap ps d
            else not_found cx
        | [endpoint, p] \<Rightarrow> if endpoint = ''agents'' then handleAgentDetail cx ap p d else not_found cx
        | [endpoint, p, sub] \<Rightarrow>
            if endpoint = ''agents'' \<and> sub = ''feedback'' then handleAgentFeedback cx p ps d
            else if endpoint = ''accounts'' \<and> sub = ''agents'' then handleAccounts cx ap p ps d
            else not_found cx
        | _ \<Rightarrow> not_found cx))"

text \<open>A request: its method, its path and query, the platform's rate limiter and the client address (either may be missing or throw).\<close>

record request =
  rq_method :: string
  rq_path :: string
  rq_params :: params
  rq_platform :: "(string \<Rightarrow> string + bool option) option option"
  rq_client :: "string + string"

definition within_limit :: "request \<Rightarrow> bool" where
  "within_limit q = withinRateLimit (rq_platform q) (rq_client q)"

definition map_db :: "(db \<Rightarrow> http_response) \<Rightarrow> string + db \<Rightarrow> string + http_response" where
  "map_db h D = sbind D (\<lambda>d. Inr (h d))"

definition fallback_v1 :: "req_context \<Rightarrow> api \<Rightarrow> (string \<Rightarrow> string option) \<Rightarrow> request \<Rightarrow> string + db \<Rightarrow> http_response" where
  "fallback_v1 cx ap decode q D = (case guard decode (rq_path q) of
      None \<Rightarrow> not_found cx
    | Some parts \<Rightarrow> serveApi cx (rq_method q) (within_limit q) (map_db (route cx ap parts (rq_params q)) D))"

definition fallback_v2 :: "req_context \<Rightarrow> api \<Rightarrow> disc \<Rightarrow> request \<Rightarrow> string + db \<Rightarrow> http_response" where
  "fallback_v2 cx ap dj q D = serveApi cx (rq_method q) (within_limit q) (sbind D (handleDiscovery cx ap dj (rq_params q)))"

subsection \<open>Agents of an owner\<close>

definition STELLAR_ADDRESS_RE :: "string \<Rightarrow> bool" where
  "STELLAR_ADDRESS_RE s \<longleftrightarrow> length s = 56 \<and> hd s = CHR ''G'' \<and>
     (\<forall>c \<in> set (tl s). let n = code_of c in (65 \<le> n \<and> n \<le> 90) \<or> (50 \<le> n \<and> n \<le> 55))"

text \<open>The arguments given to \<open>json\<close>: the value, the status and the headers.\<close>

type_synonym json_reply = "native \<times> int \<times> (string \<times> string) list"

definition GET_count :: "request \<Rightarrow> string + db \<Rightarrow> json_reply" where
  "GET_count q D =
     (if \<not> withinRateLimit (rq_platform q) (sbind (rq_client q) (\<lambda>c. Inr (''count:'' @ c)))
      then (NObj [(''error'', NStr ''Too many requests'')], 429, [])
      else (let owner = param_or (rq_params q) ''owner''
            in if owner = [] \<or> \<not> STELLAR_ADDRESS_RE owner then (NObj [(''count'', NNull)], 400, [])
               else (case D of
                   Inl _ \<Rightarrow> (NObj [(''count'', NNull)], 500, [])
                 | Inr d \<Rightarrow> (NObj [(''count'', nint (int (length (filter (\<lambda>(i, r). a_owner r = owner) (agents d)))))], 200,
                     [(''Cache-Control'', ''private, max-age=15'')]))))"

section \<open>Lemmas\<close>

lemma hex_upper_unreserved: "n < 16 \<Longrightarrow> unreserved (hex_upper n)"
proof -
  have "\<forall>c \<in> set ''0123456789ABCDEF''. unreserved c" by (simp add: unreserved_def code_of_def)
  moreover assume "n < 16"
  then have "hex_upper n \<in> set ''0123456789ABCDEF''" unfolding hex_upper_def by (intro nth_mem) simp
  ultimately show ?thesis by blast
qed

lemma percent_chars: "c \<in> set (percent_byte n) \<Longrightarrow> unreserved c \<or> c = CHR ''%''"
  by (auto simp: percent_byte_def hex_upper_unreserved)

lemma encode_chars: "c \<in> set (encodeURIComponent s) \<Longrightarrow> unreserved c \<or> c = CHR ''%''"
  by (auto simp: encodeURIComponent_def encode_char_def Let_def dest: percent_chars split: if_splits)

lemma encode_id: "\<forall>c \<in> set s. unreserved c \<Longrightarrow> encodeURIComponent s = s"
  by (induction s) (auto simp: encodeURIComponent_def encode_char_def)

lemma encode_percent: "c \<in> set s \<Longrightarrow> \<not> unreserved c \<Longrightarrow> CHR ''%'' \<in> set (encodeURIComponent s)"
  by (force simp: encodeURIComponent_def encode_char_def percent_byte_def Let_def)

lemma encode_eq: "CHR ''%'' \<notin> set t \<Longrightarrow> encodeURIComponent s = t \<Longrightarrow> s = t"
  using encode_id encode_percent by metis

lemma encode_special: "s \<noteq> [] \<Longrightarrow> s \<noteq> ''.'' \<Longrightarrow> s \<noteq> ''..'' \<Longrightarrow>
   encodeURIComponent s \<noteq> [] \<and> encodeURIComponent s \<noteq> ''.'' \<and> encodeURIComponent s \<noteq> ''..''"
  using encode_eq [of "[]" s] encode_eq [of "''.''" s] encode_eq [of "''..''" s] by auto

lemma endpoint_unreserved: "s \<in> set ALLOWED_ENDPOINTS \<Longrightarrow> encodeURIComponent s = s"
  by (rule encode_id) (auto simp: ALLOWED_ENDPOINTS_def unreserved_def code_of_def)

lemma guardE:
  assumes "guard decode path = Some parts"
  obtains segments where "parts = map encodeURIComponent segments" "segments \<noteq> []" "segments_ok segments"
  using assms by (auto simp: guard_def Let_def split: option.splits if_splits)

lemma split_join: "segs \<noteq> [] \<Longrightarrow> \<forall>s \<in> set segs. c \<notin> set s \<Longrightarrow> split_on c (join [c] segs) = segs"
  by (induction "[c]" segs rule: join.induct) (auto simp: split_on_none split_on_append)

lemma join_chars: "x \<in> set (join sep segs) \<Longrightarrow> x \<in> set sep \<or> (\<exists>s \<in> set segs. x \<in> set s)"
  by (induction sep segs rule: join.induct) auto

lemma not_unreserved: "\<not> unreserved (CHR ''%'')" "\<not> unreserved (CHR ''/'')" "\<not> unreserved (CHR 0x5C)"
  by (simp_all add: unreserved_def code_of_def)

lemma decode_plain: "decode s = Some s \<Longrightarrow> decode_loop decode n s = Some s"
  by (cases n) auto

lemma route_ok: "api_ok (route cx ap parts ps d)"
  by (simp add: route_def not_found_def api_ok_error handlers_ok split: list.split)

lemma handlers_status:
  "hr_status (handleAgentsList cx ap ps d) = 200" "hr_status (handleStats cx ap d) = 200" "hr_status (handleHealth cx ap d) = 200"
  "hr_status (handleAgentDetail cx ap i d) \<in> {200, 400, 404}" "hr_status (handleAgentFeedback cx i ps d) \<in> {200, 400, 404}"
  "hr_status (handleAccounts cx ap address ps d) \<in> {200, 400, 404}" "hr_status (handleSearch cx ap ps d) \<in> {200, 400, 404}"
  by (simp_all add: handleHealth_def handleStats_def handleSearch_def handleAgentsList_def agents_page_def handleAgentDetail_def
      invalid_id_def handleAgentFeedback_def handleAccounts_def Let_def split: option.split prod.split)

lemma route_status: "hr_status (route cx ap parts ps d) \<in> {200, 400, 404}"
  using handlers_status by (simp add: route_def not_found_def split: list.split)

text \<open>The response of \<open>serveApi\<close>: readable from any origin, and JSON but for the preflight.\<close>

definition served_ok :: "http_response \<Rightarrow> bool" where
  "served_ok r \<longleftrightarrow> (if hr_status r = 204 then hr_headers r = PREFLIGHT_HEADERS \<and> hr_body r = None else api_ok r)"

lemma set_header_status [simp]: "hr_status (set_header k v r) = hr_status r"
  by (simp add: set_header_def)

lemma served:
  assumes "\<And>r. handled = Inr r \<Longrightarrow> api_ok r"
  shows "served_ok (serveApi cx verb allowed_by_limit handled)"
proof -
  have "api_ok r \<Longrightarrow> hr_status r \<noteq> 204" for r by (auto simp: api_ok_def)
  then show ?thesis using assms
    by (simp add: serveApi_def served_ok_def Let_def api_ok_header api_ok_error split: sum.split)
qed

lemma served_status:
  "hr_status (serveApi cx verb allowed_by_limit handled) =
     (if verb = ''OPTIONS'' then 204 else if verb \<noteq> ''GET'' then 405 else if \<not> allowed_by_limit then 429
      else (case handled of Inl _ \<Rightarrow> 500 | Inr r \<Rightarrow> hr_status r))"
  by (simp add: serveApi_def Let_def split: sum.split)

section \<open>Properties\<close>

text \<open>The path guard: whatever \<open>decodeURIComponent\<close> does, the segments that get past the guard start with a known endpoint and
  none is empty or a dot segment or has a slash, a backslash or any other reserved character; and where a text without percent signs
  decodes to itself, a path of unreserved segments gets through unchanged exactly when its segments are allowed.\<close>

theorem guard_exact:
  "(\<forall>parts. guard decode path = Some parts \<longrightarrow> parts \<noteq> [] \<and> hd parts \<in> set ALLOWED_ENDPOINTS \<and>
      (\<forall>p \<in> set parts. p \<noteq> [] \<and> p \<noteq> ''.'' \<and> p \<noteq> ''..'' \<and> (\<forall>c \<in> set p. unreserved c \<or> c = CHR ''%''))) \<and>
   (\<forall>segs. segs \<noteq> [] \<and> (\<forall>s \<in> set segs. \<forall>c \<in> set s. unreserved c) \<and> decode (join ''/'' segs) = Some (join ''/'' segs) \<longrightarrow>
      guard decode (join ''/'' segs) = (if segments_ok segs then Some segs else None))"
proof (intro conjI allI impI)
  fix parts assume "guard decode path = Some parts"
  then obtain segs where segs: "parts = map encodeURIComponent segs" "segs \<noteq> []" "segments_ok segs" by (rule guardE)
  then show "parts \<noteq> []" "hd parts \<in> set ALLOWED_ENDPOINTS" by (simp_all add: segments_ok_def hd_map endpoint_unreserved)
  show "\<forall>p \<in> set parts. p \<noteq> [] \<and> p \<noteq> ''.'' \<and> p \<noteq> ''..'' \<and> (\<forall>c \<in> set p. unreserved c \<or> c = CHR ''%'')"
    using segs by (auto simp: segments_ok_def simp del: not_Cons_self dest: encode_special encode_chars)
next
  fix segs assume segs: "segs \<noteq> [] \<and> (\<forall>s \<in> set segs. \<forall>c \<in> set s. unreserved c) \<and> decode (join ''/'' segs) = Some (join ''/'' segs)"
  then have plain: "CHR ''%'' \<notin> set (join ''/'' segs)" "CHR 0x5C \<notin> set (join ''/'' segs)"
    using join_chars [of _ "''/''" segs] not_unreserved by fastforce+
  have "split_on (CHR ''/'') (join ''/'' segs) = segs"
    using segs not_unreserved by (intro split_join) auto
  moreover have "map encodeURIComponent segs = segs" using segs by (intro map_idI encode_id) auto
  ultimately show "guard decode (join ''/'' segs) = (if segments_ok segs then Some segs else None)"
    using segs plain by (simp add: guard_def decode_plain)
qed

theorem guard_exact_witness:
  "guard Some ''agents/1/feedback'' = Some [''agents'', ''1'', ''feedback''] \<and> guard Some ''agents/../x'' = None"
proof -
  have ok: "join ''/'' [''agents'', ''1'', ''feedback''] = ''agents/1/feedback''" "join ''/'' [''agents'', ''..'', ''x''] = ''agents/../x''"
    by simp_all
  have "guard Some (join ''/'' [''agents'', ''1'', ''feedback'']) = Some [''agents'', ''1'', ''feedback'']"
    by (subst guard_exact [THEN conjunct2, rule_format]) (auto simp: unreserved_def code_of_def segments_ok_def ALLOWED_ENDPOINTS_def)
  moreover have "guard Some (join ''/'' [''agents'', ''..'', ''x'']) = None"
    by (subst guard_exact [THEN conjunct2, rule_format]) (auto simp: unreserved_def code_of_def segments_ok_def ALLOWED_ENDPOINTS_def)
  ultimately show ?thesis by (simp only: ok)
qed

text \<open>C38. Every request is answered: whatever the method, path, parameters and rate limiter, and whether or not the database can be
  read, the API answers with a known status and a response any origin may read (JSON, an error never cached, or the bare preflight answer);
  a limited client gets 429 and nothing of the database.\<close>

theorem api_answers:
  "served_ok (fallback_v1 cx ap decode q D) \<and> hr_status (fallback_v1 cx ap decode q D) \<in> {200, 204, 400, 404, 405, 429, 500} \<and>
   served_ok (fallback_v2 cx ap dj q D) \<and> hr_status (fallback_v2 cx ap dj q D) \<in> {200, 204, 400, 405, 429, 500, 503} \<and>
   (\<not> within_limit q \<and> rq_method q = ''GET'' \<longrightarrow> fallback_v2 cx ap dj q D = fallback_v2 cx ap dj q (Inl []) \<and>
      hr_status (fallback_v2 cx ap dj q D) = 429 \<and> fallback_v1 cx ap decode q D = fallback_v1 cx ap decode q (Inl []) \<and>
      hr_status (fallback_v1 cx ap decode q D) \<in> {404, 429})"
proof -
  have v1: "served_ok (fallback_v1 cx ap decode q D)"
    by (auto simp: fallback_v1_def map_db_def sbind_eq_Inr not_found_def route_ok intro!: served split: option.split)
      (simp add: served_ok_def api_ok_error)
  have v2: "served_ok (fallback_v2 cx ap dj q D)"
    by (auto simp: fallback_v2_def sbind_eq_Inr intro!: served intro: discovery_ok)
  have s1: "hr_status (fallback_v1 cx ap decode q D) \<in> {200, 204, 400, 404, 405, 429, 500}"
    using route_status [of cx ap _ "rq_params q"]
    by (cases D) (auto simp: fallback_v1_def served_status map_db_def not_found_def split: option.split)
  have s2: "hr_status (fallback_v2 cx ap dj q D) \<in> {200, 204, 400, 405, 429, 500, 503}"
    using discovery_status [of cx ap dj "rq_params q"] by (cases D) (auto simp: fallback_v2_def served_status split: sum.split)
  show ?thesis
    using v1 v2 s1 s2
    by (auto simp: fallback_v1_def fallback_v2_def served_status not_found_def split: option.split)
      (auto simp: serveApi_def split: option.split)
qed

definition sample_request :: request where
  "sample_request = \<lparr>rq_method = ''GET'', rq_path = ''health'', rq_params = [], rq_platform = Some (Some (\<lambda>_. Inr (Some False))),
     rq_client = Inr ''1.2.3.4''\<rparr>"

theorem api_answers_witness:
  "\<not> within_limit sample_request \<and> rq_method sample_request = ''GET'' \<and>
   hr_status (fallback_v2 sample_context sample_api sample_disc sample_request (Inr sample_registry)) = 429 \<and>
   hr_status (fallback_v1 sample_context sample_api Some sample_request (Inr sample_registry)) \<in> {404, 429}"
proof -
  have "\<not> within_limit sample_request \<and> rq_method sample_request = ''GET''"
    by (simp add: within_limit_def sample_request_def withinRateLimit_def)
  with api_answers [of sample_context sample_api Some sample_request "Inr sample_registry" sample_disc] show ?thesis by blast
qed

end
