(* ===== verification/Sdk_Metadata.thy ===== *)
theory Sdk_Metadata
  imports Uri Base64 Api_Response
begin

text \<open>
  The SDK's agent documents (\<open>webapp/packages/sdk/src/core/metadata.ts\<close>, \<open>core/types.ts\<close>) and their storage (\<open>storage/*.ts\<close>): building
  the document of a form, validating it, packing it into a data URI or pinning it.

  The platform functions are the fields of \<open>platform\<close>: \<open>JSON.stringify\<close> (\<open>Inl\<close> when it throws), \<open>TextEncoder\<close> and the text of a number. Base64 is the
  concrete one of \<open>Base64\<close>. The properties tie the SDK to the indexer: what a form says is what the indexer reads back from the URI.
\<close>

section \<open>Documents\<close>

record platform =
  pf_stringify :: "native \<Rightarrow> string + string"
  pf_encode :: "string \<Rightarrow> 8 word list"
  pf_number :: "rat \<Rightarrow> string" \<comment> \<open>the text of a number that is not a safe integer\<close>

record ServiceEntry =
  se_name :: string
  se_endpoint :: string
  se_version :: "string option"
  se_description :: "string option"
  se_inputExample :: "string option"

record AgentFormData =
  fm_name :: string
  fm_description :: string
  fm_imageUrl :: string
  fm_services :: "ServiceEntry list"
  fm_supportedTrust :: "string list"
  fm_x402Enabled :: bool
  fm_mppEnabled :: bool

text \<open>Optional fields that are not set are absent from the object.\<close>

definition optional :: "bool \<Rightarrow> string \<Rightarrow> native \<Rightarrow> (string \<times> native) list" where
  "optional present k v = (if present then [(k, v)] else [])"

definition optional_text :: "string \<Rightarrow> string option \<Rightarrow> (string \<times> native) list" where
  "optional_text k v = (case v of None \<Rightarrow> [] | Some s \<Rightarrow> [(k, NStr s)])"

definition service_object :: "ServiceEntry \<Rightarrow> native" where
  "service_object s = NObj ([(''name'', NStr (se_name s)), (''endpoint'', NStr (se_endpoint s))] @ optional_text ''version'' (se_version s) @
     optional_text ''description'' (se_description s) @ optional_text ''inputExample'' (se_inputExample s))"

definition MAX_URI_LENGTH :: nat where
  "MAX_URI_LENGTH = 8192"

definition SAFE_URI_SCHEMES :: "string list" where
  "SAFE_URI_SCHEMES = [''https://'', ''http://'', ''ipfs://'', ''data:application/json'']"

definition validateAgentUri :: "string \<Rightarrow> string + unit" where
  "validateAgentUri uri =
     (if MAX_URI_LENGTH < length uri then Inl ''Agent URI too large (max 8KB)''
      else if \<not> (\<exists>scheme \<in> set SAFE_URI_SCHEMES. startsWith uri scheme)
      then Inl ''Agent URI must use https://, http://, ipfs://, or data: scheme'' else Inr ())"

definition ALLOWED_URL_SCHEMES :: "string list" where
  "ALLOWED_URL_SCHEMES = [''https://'', ''http://'', ''ipfs://'']"

definition validateUrl :: "string \<Rightarrow> string" where
  "validateUrl url = (if url = [] then []
     else if \<exists>scheme \<in> set ALLOWED_URL_SCHEMES. startsWith url scheme then []
     else ''URL must start with https://, http://, or ipfs://'')"

definition text_field :: "native \<Rightarrow> bool" where
  "text_field v = (case v of NStr s \<Rightarrow> True | _ \<Rightarrow> False)"

definition in_quotes :: "string \<Rightarrow> string" where
  "in_quotes s = CHR 0x22 # s @ [CHR 0x22]"

definition validateMetadataJson :: "native \<Rightarrow> string + unit" where
  "validateMetadataJson json =
     (if (case json of NObj _ \<Rightarrow> False | NBytes _ \<Rightarrow> False | _ \<Rightarrow> True) then Inl ''Metadata must be a JSON object''
      else if \<not> nonempty_text (getProp json ''type'') then Inl (''Metadata must have a non-empty '' @ in_quotes ''type'' @ '' string field'')
      else if \<not> nonempty_text (getProp json ''name'') then Inl (''Metadata must have a non-empty '' @ in_quotes ''name'' @ '' string field'')
      else if getProp json ''description'' \<noteq> NUndef \<and> \<not> text_field (getProp json ''description'')
      then Inl (''Metadata '' @ in_quotes ''description'' @ '' must be a string'')
      else if getProp json ''image'' \<noteq> NUndef \<and> \<not> text_field (getProp json ''image'')
      then Inl (''Metadata '' @ in_quotes ''image'' @ '' must be a string'')
      else if getProp json ''services'' \<noteq> NUndef \<and> (case getProp json ''services'' of NArr _ \<Rightarrow> False | _ \<Rightarrow> True)
      then Inl (''Metadata '' @ in_quotes ''services'' @ '' must be an array'')
      else Inr ())"

definition registration_type :: string where
  "registration_type = ''https://eips.ethereum.org/EIPS/eip-8004#registration-v1''"

text \<open>The fields of a form, with the services to use.\<close>

definition form_fields :: "AgentFormData \<Rightarrow> native list \<Rightarrow> (string \<times> native) list" where
  "form_fields form services =
     optional (fm_description form \<noteq> []) ''description'' (NStr (fm_description form)) @
     optional (fm_imageUrl form \<noteq> []) ''image'' (NStr (fm_imageUrl form)) @
     optional (services \<noteq> []) ''services'' (NArr services) @
     optional (fm_supportedTrust form \<noteq> []) ''supportedTrust'' (NArr (map NStr (fm_supportedTrust form))) @
     optional (fm_x402Enabled form) ''x402'' (NBool True) @
     optional (fm_mppEnabled form) ''mpp'' (NBool True)"

definition buildMetadataJson :: "AgentFormData \<Rightarrow> string + native" where
  "buildMetadataJson form =
     (let metadata = NObj ([(''type'', NStr registration_type), (''name'', NStr (fm_name form))] @
        form_fields form (map service_object (fm_services form)))
      in sbind (validateMetadataJson metadata) (\<lambda>_. Inr metadata))"

definition KNOWN_FIELDS :: "string list" where
  "KNOWN_FIELDS = [''type'', ''name'', ''description'', ''image'', ''services'', ''supportedTrust'', ''x402'', ''mpp'', ''endpoints'']"

definition first_text :: "native list \<Rightarrow> string \<Rightarrow> string" where
  "first_text vs d = (case filter text_field vs of NStr s # _ \<Rightarrow> s | _ \<Rightarrow> d)"

definition endpoint_service :: "native \<Rightarrow> native list" where
  "endpoint_service e =
     (if \<not> is_object e then []
      else (let endpoint = first_text [getProp e ''url'', getProp e ''endpoint''] []
            in if endpoint = [] then []
               else [NObj ([(''name'', NStr (first_text [getProp e ''type'', getProp e ''name''] ''unknown'')), (''endpoint'', NStr endpoint)] @
                 (case getProp e ''version'' of NStr v \<Rightarrow> optional (v \<noteq> []) ''version'' (NStr v) | _ \<Rightarrow> []))]))"

text \<open>\<open>null\<close> is the empty list here: the caller only uses a non-empty result.\<close>

definition endpointsToServices :: "native \<Rightarrow> native list" where
  "endpointsToServices endpoints = (case endpoints of NArr es \<Rightarrow> concat (map endpoint_service es) | _ \<Rightarrow> [])"

definition edit_services :: "AgentFormData \<Rightarrow> (string \<times> native) list \<Rightarrow> native list" where
  "edit_services form existing = (if fm_services form \<noteq> [] then map service_object (fm_services form)
     else endpointsToServices (getProp (NObj existing) ''endpoints''))"

definition buildMetadataJsonForEdit :: "AgentFormData \<Rightarrow> (string \<times> native) list \<Rightarrow> native" where
  "buildMetadataJsonForEdit form existing =
     (let preserved = filter (\<lambda>(k, v). k \<notin> set KNOWN_FIELDS) existing;
          kind = getProp (NObj existing) ''type'';
          metadata = [(''type'', if is_nullish kind then NStr registration_type else kind), (''name'', NStr (fm_name form))] @
            form_fields form (edit_services form existing)
      in NObj (spread preserved metadata))"

section \<open>Storage\<close>

definition bytesToBase64 :: "8 word list \<Rightarrow> string" where
  "bytesToBase64 bytes = btoa (map (\<lambda>b. char_of (unat b)) bytes)"

definition data_prefix :: string where
  "data_prefix = ''data:application/json;base64,''"

definition toDataUri :: "platform \<Rightarrow> native \<Rightarrow> string + string" where
  "toDataUri pf json = sbind (pf_stringify pf json) (\<lambda>jsonStr.
     let uri = data_prefix @ bytesToBase64 (pf_encode pf jsonStr)
     in if 8192 < length uri
        then Inl (''Metadata URI too large ('' @ show_nat (length uri) @ '' bytes). Maximum is 8KB. Reduce description length or number of services.'')
        else Inr uri)"

definition getMetadataSize :: "platform \<Rightarrow> native \<Rightarrow> string + nat" where
  "getMetadataSize pf json = sbind (pf_stringify pf json) (\<lambda>s. Inr (length (pf_encode pf s)))"

text \<open>A pinning service: \<open>fetch\<close> of a body (rejecting is \<open>Inl\<close>), and a response with its status, text (\<open>None\<close> when reading it fails)
  and JSON (\<open>Inl\<close> when reading it fails).\<close>

record pin_response =
  pn_ok :: bool
  pn_status :: int
  pn_text :: "string option"
  pn_json :: "string + native"

record PinataStorage =
  pn_jwt :: string
  pn_endpoint :: string
  pn_name :: string

definition PINATA_ENDPOINT :: string where
  "PINATA_ENDPOINT = ''https://api.pinata.cloud/pinning/pinJSONToIPFS''"

definition new_PinataStorage :: "string \<Rightarrow> string option \<Rightarrow> string option \<Rightarrow> string + PinataStorage" where
  "new_PinataStorage pinataJwt endpoint name =
     (if pinataJwt = [] then Inl ''Pinata JWT is required''
      else Inr \<lparr>pn_jwt = pinataJwt, pn_endpoint = text_default PINATA_ENDPOINT endpoint, pn_name = text_default ''stellar-erc8004-agent'' name\<rparr>)"

definition pin_body :: "PinataStorage \<Rightarrow> native \<Rightarrow> native" where
  "pin_body p metadata = NObj [(''pinataMetadata'', NObj [(''name'', NStr (pn_name p))]), (''pinataContent'', metadata)]"

definition read_pin :: "platform \<Rightarrow> pin_response \<Rightarrow> string + string" where
  "read_pin pf response =
     (if \<not> pn_ok response then
        Inl (''Pinata upload failed: '' @ show_int (pn_status response) @
          (case pn_text response of Some detail \<Rightarrow> if detail = [] then [] else '' - '' @ detail | None \<Rightarrow> []))
      else sbind (pn_json response) (\<lambda>body.
        if is_nullish body then Inl ''Cannot read properties of null''
        else if \<not> truthy (getProp body ''IpfsHash'') then Inl ''Pinata upload failed: missing IpfsHash''
        else Inr (''ipfs://'' @ js_String (pf_number pf) (getProp body ''IpfsHash''))))"

definition pinata_upload ::
  "platform \<Rightarrow> (string \<Rightarrow> string \<Rightarrow> string \<Rightarrow> string + pin_response) \<Rightarrow> PinataStorage \<Rightarrow> native \<Rightarrow> string + string" where
  "pinata_upload pf fetch p metadata =
     sbind (pf_stringify pf (pin_body p metadata)) (\<lambda>body.
     sbind (fetch (pn_endpoint p) (''Bearer '' @ pn_jwt p) body) (read_pin pf))"

text \<open>\<open>AutoStorage.upload\<close>; \<open>pinata\<close> is the storage the constructor set up, if any.\<close>

definition auto_upload ::
  "platform \<Rightarrow> (string \<Rightarrow> string \<Rightarrow> string \<Rightarrow> string + pin_response) \<Rightarrow> PinataStorage option \<Rightarrow> native \<Rightarrow> string + string" where
  "auto_upload pf fetch pinata metadata = (case toDataUri pf metadata of
      Inr uri \<Rightarrow> Inr uri
    | Inl e \<Rightarrow>
        if \<not> has_substring e ''Maximum is 8KB'' then Inl e
        else (case pinata of
            None \<Rightarrow> Inl ''Metadata exceeds the 8KB data URI limit and no Pinata JWT was provided''
          | Some p \<Rightarrow> pinata_upload pf fetch p metadata))"

definition new_AutoStorage :: "PinataStorage option \<Rightarrow> string option \<Rightarrow> string + PinataStorage option" where
  "new_AutoStorage pinataStorage pinataJwt = (case pinataStorage of
      Some p \<Rightarrow> Inr (Some p)
    | None \<Rightarrow> (case pinataJwt of
        None \<Rightarrow> Inr None
      | Some jwt \<Rightarrow> if jwt = [] then Inr None else sbind (new_PinataStorage jwt None None) (\<lambda>p. Inr (Some p))))"

section \<open>Lemmas\<close>

lemma form_lookup:
  "map_of (form_fields form ss) ''x402'' = (if fm_x402Enabled form then Some (NBool True) else None)"
  "map_of (form_fields form ss) ''mpp'' = (if fm_mppEnabled form then Some (NBool True) else None)"
  "map_of (form_fields form ss) ''supportedTrust'' =
     (if fm_supportedTrust form = [] then None else Some (NArr (map NStr (fm_supportedTrust form))))"
  "map_of (form_fields form ss) ''services'' = (if ss = [] then None else Some (NArr ss))"
  "map_of (form_fields form ss) ''endpoints'' = None" "map_of (form_fields form ss) ''type'' = None" "map_of (form_fields form ss) ''name'' = None"
  by (simp_all add: form_fields_def optional_def)

lemma form_keys: "k \<in> fst ` set (form_fields form ss) \<Longrightarrow> k \<in> set KNOWN_FIELDS"
  by (auto simp: form_fields_def optional_def KNOWN_FIELDS_def split: if_splits)

text \<open>What the indexer takes from a document with the form's fields.\<close>

lemma extracted:
  assumes "\<And>k. k \<in> set KNOWN_FIELDS - {''type'', ''name''} \<Longrightarrow> getProp doc k = getProp (NObj (form_fields form ss)) k"
    and "doc = NObj fs" and "\<forall>s \<in> set ss. has_endpoint s"
  shows "extractX402 doc = fm_x402Enabled form" "extractMpp doc = fm_mppEnabled form"
    "extractSupportedTrust doc = map NStr (filter (\<lambda>t. t \<noteq> []) (fm_supportedTrust form))" "extractServices doc = ss"
proof -
  have get: "getProp doc ''x402'' = getProp (NObj (form_fields form ss)) ''x402''" "getProp doc ''mpp'' = getProp (NObj (form_fields form ss)) ''mpp''"
    "getProp doc ''supportedTrust'' = getProp (NObj (form_fields form ss)) ''supportedTrust''"
    "getProp doc ''services'' = getProp (NObj (form_fields form ss)) ''services''"
    "getProp doc ''endpoints'' = getProp (NObj (form_fields form ss)) ''endpoints''"
    by (rule assms(1); simp add: KNOWN_FIELDS_def)+
  note eval = getProp_def [of "NObj (form_fields form x)" for x] form_lookup
  show "extractX402 doc = fm_x402Enabled form" unfolding extractX402_def get(1) by (simp add: assms(2) eval)
  show "extractMpp doc = fm_mppEnabled form" unfolding extractMpp_def get(2) by (simp add: assms(2) eval)
  show "extractSupportedTrust doc = map NStr (filter (\<lambda>t. t \<noteq> []) (fm_supportedTrust form))"
    unfolding extractSupportedTrust_def get(3) by (simp add: assms(2) eval filter_map comp_def nonempty_text_def)
  show "extractServices doc = ss"
    unfolding extractServices_def get(4,5) using assms(3) by (simp add: assms(2) eval filter_id_conv)
qed

lemma service_has_endpoint: "has_endpoint (service_object s)"
  by (simp add: service_object_def has_endpoint_def)

lemma endpoint_service_has: "s \<in> set (endpoint_service e) \<Longrightarrow> has_endpoint s"
  by (simp add: endpoint_service_def has_endpoint_def Let_def split: if_splits)

lemma endpoints_have: "s \<in> set (endpointsToServices v) \<Longrightarrow> has_endpoint s"
  using endpoint_service_has by (cases v) (auto simp: endpointsToServices_def)

lemma edit_services_has: "\<forall>s \<in> set (edit_services form existing). has_endpoint s"
  using service_has_endpoint endpoints_have by (auto simp: edit_services_def split: if_splits)

lemma buildMetadataJson_ok:
  "buildMetadataJson form = (if fm_name form = [] then Inl (''Metadata must have a non-empty '' @ in_quotes ''name'' @ '' string field'')
     else Inr (NObj ([(''type'', NStr registration_type), (''name'', NStr (fm_name form))] @ form_fields form (map service_object (fm_services form)))))"
  by (simp add: buildMetadataJson_def validateMetadataJson_def getProp_def nonempty_text_def registration_type_def form_fields_def
      optional_def text_field_def)

lemma lookup_spread: "map_of (spread fs extra) k = (case map_of (rev extra) k of None \<Rightarrow> map_of fs k | Some v \<Rightarrow> Some v)"
proof (induction extra arbitrary: fs)
  case (Cons x extra)
  obtain a v where "x = (a, v)" by (cases x)
  with Cons show ?case by (auto simp: spread_def update_conv' map_add_def split: option.split)
qed (simp add: spread_def)

lemma map_of_rev: "distinct (map fst xs) \<Longrightarrow> map_of (rev xs) = map_of xs"
  by (metis distinct_rev map_of_inject_set rev_map set_rev)

lemma form_distinct: "distinct (map fst (form_fields form ss))"
  by (simp add: form_fields_def optional_def)

lemma edit_lookup:
  "getProp (buildMetadataJsonForEdit form existing) k =
     (if k = ''type'' then (let kind = getProp (NObj existing) ''type'' in if is_nullish kind then NStr registration_type else kind)
      else if k = ''name'' then NStr (fm_name form)
      else if k \<in> set KNOWN_FIELDS then getProp (NObj (form_fields form (edit_services form existing))) k
      else getProp (NObj existing) k)"
proof -
  let ?ff = "form_fields form (edit_services form existing)"
  let ?kind = "if is_nullish (getProp (NObj existing) ''type'') then NStr registration_type else getProp (NObj existing) ''type''"
  have "''type'' \<notin> fst ` set ?ff" "''name'' \<notin> fst ` set ?ff" using form_lookup(6,7) by (metis map_of_eq_None_iff)+
  then have "map_of (rev ([(''type'', ?kind), (''name'', NStr (fm_name form))] @ ?ff)) =
      map_of ([(''type'', ?kind), (''name'', NStr (fm_name form))] @ ?ff)"
    by (intro map_of_rev) (simp add: form_distinct)
  moreover have "map_of (filter (\<lambda>(k, v). k \<notin> set KNOWN_FIELDS) existing) k = (if k \<in> set KNOWN_FIELDS then None else map_of existing k)"
    by (induction existing) auto
  moreover have "k \<notin> set KNOWN_FIELDS \<Longrightarrow> map_of ?ff k = None"
    using form_keys [of k form] by (metis map_of_eq_None_iff)
  moreover have "''type'' \<in> set KNOWN_FIELDS" "''name'' \<in> set KNOWN_FIELDS" by (simp_all add: KNOWN_FIELDS_def)
  moreover have "buildMetadataJsonForEdit form existing =
      NObj (spread (filter (\<lambda>(k, v). k \<notin> set KNOWN_FIELDS) existing) ([(''type'', ?kind), (''name'', NStr (fm_name form))] @ ?ff))"
    by (simp only: buildMetadataJsonForEdit_def Let_def)
  ultimately show ?thesis
    by (simp only: getProp_def [of "NObj (spread x y)" for x y] getProp_def [of "NObj ?ff"] getProp_def [of "NObj existing" k] native.case lookup_spread Let_def)
      (simp split: option.split)
qed

lemma edit_object: "\<exists>fs. buildMetadataJsonForEdit form existing = NObj fs"
  by (simp add: buildMetadataJsonForEdit_def Let_def)

subsection \<open>Data URIs\<close>

lemma indexOf_append: "c \<notin> set xs \<Longrightarrow> indexOf (xs @ c # ys) c = Some (length xs)"
  by (induction xs) auto

text \<open>\<open>Uint8Array.from(atob(s), c => c.charCodeAt(0))\<close>.\<close>

definition atob_bytes :: "string \<Rightarrow> 8 word list option" where
  "atob_bytes s = map_option (map (\<lambda>c. word_of_nat (code_of c))) (atob s)"

lemma atob_bytesToBase64: "atob_bytes (bytesToBase64 bytes) = Some bytes"
proof -
  have "code_of (char_of (unat (b :: 8 word))) = unat b" for b
    using unsigned_less [where ?'a = nat, of b] by (simp add: code_of_def)
  then show ?thesis by (simp add: atob_bytes_def bytesToBase64_def atob_btoa comp_def)
qed

lemma length_bytesToBase64: "length bytes \<le> length (bytesToBase64 bytes)"
  by (simp add: bytesToBase64_def length_btoa)

lemma data_header: "sublist ''json'' ''application/json;base64''" "sublist ''base64'' ''application/json;base64''"
  by code_simp+

lemma lower_header: "toLowerCase ''application/json;base64'' = ''application/json;base64''"
  by code_simp

lemma parse_data_uri:
  assumes "n_atob net = atob_bytes" and "length (data_prefix @ bytesToBase64 bytes) \<le> 8192"
  shows "parseDataUri net (data_prefix @ bytesToBase64 bytes) = n_json net (n_text net bytes)"
proof -
  let ?h = "''data:application/json;base64''"
  have uri: "data_prefix @ bytesToBase64 bytes = ?h @ CHR '','' # bytesToBase64 bytes" by (simp add: data_prefix_def)
  have comma: "indexOf (data_prefix @ bytesToBase64 bytes) (CHR '','') = Some 28"
    unfolding uri by (subst indexOf_append) simp_all
  have parts: "take (28 - 5) (drop 5 (data_prefix @ bytesToBase64 bytes)) = ''application/json;base64''"
    "drop (28 + 1) (data_prefix @ bytesToBase64 bytes) = bytesToBase64 bytes"
    by (simp_all add: data_prefix_def)
  have len: "length (data_prefix @ bytesToBase64 bytes) \<le> MAX_RESPONSE_BYTES" "length bytes \<le> MAX_RESPONSE_BYTES"
    using assms(2) length_bytesToBase64 [of bytes] by (simp_all add: MAX_RESPONSE_BYTES_def)
  show ?thesis
    unfolding parseDataUri_def comma option.case Let_def parts lower_header
    using len data_header by (simp add: assms(1) atob_bytesToBase64)
qed

lemma toDataUriE:
  assumes "toDataUri pf json = Inr uri"
  obtains s where "pf_stringify pf json = Inr s" "uri = data_prefix @ bytesToBase64 (pf_encode pf s)" "length uri \<le> 8192"
  using assms by (auto simp: toDataUri_def sbind_eq_Inr Let_def split: if_splits)

lemma data_uri_valid: "toDataUri pf json = Inr uri \<Longrightarrow> validateAgentUri uri = Inr ()"
proof (elim toDataUriE)
  fix s assume uri: "uri = data_prefix @ bytesToBase64 (pf_encode pf s)" "length uri \<le> 8192"
  have "prefix ''data:application/json'' data_prefix" by (simp add: data_prefix_def)
  with uri show ?thesis by (simp add: validateAgentUri_def MAX_URI_LENGTH_def SAFE_URI_SCHEMES_def)
qed

lemma too_large_message: "has_substring (a @ '' bytes). Maximum is 8KB. Reduce description length or number of services.'') ''Maximum is 8KB''"
proof -
  have "'' bytes). Maximum is 8KB. Reduce description length or number of services.'' =
      '' bytes). '' @ ''Maximum is 8KB'' @ ''. Reduce description length or number of services.''" by simp
  then show ?thesis unfolding sublist_def by (metis append.assoc)
qed

text \<open>A document that fits is never sent anywhere; one that does not is pinned, or refused without a pinning service.\<close>

lemma auto_upload_small: "toDataUri pf m = Inr uri \<Longrightarrow> auto_upload pf fetch pinata m = Inr uri"
  by (simp add: auto_upload_def)

lemma auto_upload_large:
  assumes "pf_stringify pf m = Inr s" "8192 < length (data_prefix @ bytesToBase64 (pf_encode pf s))"
  shows "auto_upload pf fetch pinata m = (case pinata of
      None \<Rightarrow> Inl ''Metadata exceeds the 8KB data URI limit and no Pinata JWT was provided'' | Some p \<Rightarrow> pinata_upload pf fetch p m)"
  using assms too_large_message [of "''Metadata URI too large ('' @ show_nat (length (data_prefix @ bytesToBase64 (pf_encode pf s)))"]
  by (simp add: auto_upload_def toDataUri_def Let_def)

lemma pinata_uri: "pinata_upload pf fetch p m = Inr uri \<Longrightarrow> startsWith uri ''ipfs://''"
  by (auto simp: pinata_upload_def read_pin_def sbind_eq_Inr split: if_splits)

subsection \<open>Legacy documents\<close>

definition text_or_absent :: "native \<Rightarrow> bool" where
  "text_or_absent v \<longleftrightarrow> text_field v \<or> is_nullish v"

definition legacy_typed :: "native \<Rightarrow> bool" where
  "legacy_typed e \<longleftrightarrow> text_or_absent (getProp e ''url'') \<and> text_or_absent (getProp e ''endpoint'') \<and>
     text_or_absent (getProp e ''type'') \<and> text_or_absent (getProp e ''name'')"

definition name_and_endpoint :: "native \<Rightarrow> native \<times> native" where
  "name_and_endpoint s = (getProp s ''name'', getProp s ''endpoint'')"

lemma coalesce_first_text:
  assumes "text_or_absent a" "text_or_absent b"
  shows "coalesce [a, b, NStr d] = NStr (first_text [a, b] d)"
  using assms by (cases a; cases b) (auto simp: text_or_absent_def text_field_def is_nullish_def coalesce_def first_text_def)

lemma endpoint_service_agrees:
  assumes "legacy_typed e"
  shows "map name_and_endpoint (endpoint_service e) =
    map name_and_endpoint (filter (\<lambda>s. nonempty_text (getProp s ''endpoint'')) (map legacy_service (filter is_object [e])))"
proof -
  have "coalesce [getProp e ''type'', getProp e ''name'', NStr ''unknown''] = NStr (first_text [getProp e ''type'', getProp e ''name''] ''unknown'')"
    "coalesce [getProp e ''url'', getProp e ''endpoint'', NStr []] = NStr (first_text [getProp e ''url'', getProp e ''endpoint''] [])"
    using assms by (simp_all add: legacy_typed_def coalesce_first_text)
  then show ?thesis
    by (simp add: endpoint_service_def legacy_service_def name_and_endpoint_def Let_def nonempty_text_def getProp_def [of "NObj x" for x])
qed

lemma endpoints_agree:
  assumes "\<forall>e \<in> set es. legacy_typed e"
  shows "map name_and_endpoint (endpointsToServices (NArr es)) =
    map name_and_endpoint (filter (\<lambda>s. nonempty_text (getProp s ''endpoint'')) (map legacy_service (filter is_object es)))"
  using assms
proof (induction es)
  case (Cons e es)
  then show ?case using endpoint_service_agrees [of e] by (auto simp: endpointsToServices_def split: if_splits)
qed (simp add: endpointsToServices_def)

section \<open>Properties\<close>

text \<open>C17. What the SDK publishes is what the indexer reads: the data URI of a form's document passes the SDK's own URI check, and
  resolving it in the indexer needs no request and gives exactly the document, whose flags, trust models and services are those of the form.
  JSON and the text codecs are relied on to read back what they write, and \<open>atob\<close> is the standard one.\<close>

theorem sdk_document_indexed:
  assumes "buildMetadataJson form = Inr doc" and "toDataUri pf doc = Inr uri" and "n_atob net = atob_bytes"
    and "\<And>s. pf_stringify pf doc = Inr s \<Longrightarrow> n_json net (n_text net (pf_encode pf s)) = Some doc"
  shows "validateAgentUri uri = Inr () \<and> resolveUri net uri = (Some doc, []) \<and>
    extractX402 doc = fm_x402Enabled form \<and> extractMpp doc = fm_mppEnabled form \<and>
    extractSupportedTrust doc = map NStr (filter (\<lambda>t. t \<noteq> []) (fm_supportedTrust form)) \<and>
    extractServices doc = map service_object (fm_services form)"
proof -
  from assms(2) obtain s where s: "pf_stringify pf doc = Inr s" "uri = data_prefix @ bytesToBase64 (pf_encode pf s)" "length uri \<le> 8192"
    by (rule toDataUriE)
  have "prefix ''data:'' data_prefix" "data_prefix \<noteq> []" by (simp_all add: data_prefix_def)
  then have "resolveUri net uri = (Some doc, [])"
    using s parse_data_uri [OF assms(3)] assms(4) by (simp add: resolveUri_def)
  moreover
  define ss where "ss = map service_object (fm_services form)"
  from assms(1) have doc: "doc = NObj ([(''type'', NStr registration_type), (''name'', NStr (fm_name form))] @ form_fields form ss)"
    by (simp add: buildMetadataJson_ok ss_def split: if_splits)
  have "\<And>k. k \<in> set KNOWN_FIELDS - {''type'', ''name''} \<Longrightarrow> getProp doc k = getProp (NObj (form_fields form ss)) k"
    by (simp add: doc getProp_def)
  note extracted [OF this doc, unfolded ss_def]
  ultimately show ?thesis using data_uri_valid [OF assms(2)] service_has_endpoint by (simp add: ss_def)
qed

definition sample_form :: AgentFormData where
  "sample_form = \<lparr>fm_name = ''A'', fm_description = [], fm_imageUrl = [], fm_services =
       [\<lparr>se_name = ''mcp'', se_endpoint = ''https://a'', se_version = None, se_description = None, se_inputExample = None\<rparr>],
     fm_supportedTrust = [''reputation''], fm_x402Enabled = True, fm_mppEnabled = False\<rparr>"

definition sample_doc :: native where
  "sample_doc = NObj ([(''type'', NStr registration_type), (''name'', NStr ''A'')] @
     form_fields sample_form (map service_object (fm_services sample_form)))"

definition sample_platform :: platform where
  "sample_platform = \<lparr>pf_stringify = (\<lambda>_. Inr ''doc''), pf_encode = (\<lambda>_. [1, 2, 3]), pf_number = (\<lambda>_. [])\<rparr>"

definition sample_net :: net where
  "sample_net = \<lparr>n_url = (\<lambda>_. None), n_url_relative = (\<lambda>_ _. None), n_dns = None, n_fetch = (\<lambda>_. None), n_json = (\<lambda>_. Some sample_doc),
     n_text = (\<lambda>_. []), n_atob = atob_bytes, n_unescape = (\<lambda>_. None)\<rparr>"

theorem sdk_document_indexed_witness:
  "resolveUri sample_net ''data:application/json;base64,AQID'' = (Some sample_doc, []) \<and> extractX402 sample_doc"
proof -
  have b64: "bytesToBase64 [1, 2, 3] = ''AQID''" by code_simp
  have "buildMetadataJson sample_form = Inr sample_doc" by (simp add: buildMetadataJson_ok sample_doc_def sample_form_def)
  moreover have "toDataUri sample_platform sample_doc = Inr ''data:application/json;base64,AQID''"
    by (simp add: toDataUri_def sample_platform_def data_prefix_def b64)
  ultimately show ?thesis
    using sdk_document_indexed [of sample_form sample_doc sample_platform _ sample_net] by (simp add: sample_net_def sample_form_def)
qed

text \<open>Editing loses nothing: the edited document keeps every field the SDK does not know, its flags and trust models are those of the
  form, and its services are those of the form or, where the form has none and the document uses the legacy \<open>endpoints\<close> list with text
  fields, the very names and endpoints the indexer showed for it before.\<close>

theorem edit_keeps_document:
  assumes "fm_services form = []" and "getProp (NObj existing) ''endpoints'' = NArr es" and "\<forall>e \<in> set es. legacy_typed e"
    and "getProp (NObj existing) ''services'' = NUndef"
  shows "map name_and_endpoint (extractServices (buildMetadataJsonForEdit form existing)) =
      map name_and_endpoint (extractServices (NObj existing)) \<and>
    extractX402 (buildMetadataJsonForEdit form' existing) = fm_x402Enabled form' \<and>
    extractMpp (buildMetadataJsonForEdit form' existing) = fm_mppEnabled form' \<and>
    extractSupportedTrust (buildMetadataJsonForEdit form' existing) = map NStr (filter (\<lambda>t. t \<noteq> []) (fm_supportedTrust form')) \<and>
    (fm_services form' \<noteq> [] \<longrightarrow> extractServices (buildMetadataJsonForEdit form' existing) = map service_object (fm_services form')) \<and>
    (\<forall>k. k \<notin> set KNOWN_FIELDS \<longrightarrow> getProp (buildMetadataJsonForEdit form' existing) k = getProp (NObj existing) k)"
proof -
  have known: "getProp (buildMetadataJsonForEdit f existing) k = getProp (NObj (form_fields f (edit_services f existing))) k"
    if "k \<in> set KNOWN_FIELDS - {''type'', ''name''}" for f k
    using that by (simp add: edit_lookup)
  have "\<forall>f. \<exists>fs. buildMetadataJsonForEdit f existing = NObj fs" by (simp add: edit_object)
  then obtain fs where fs: "\<And>f. buildMetadataJsonForEdit f existing = NObj (fs f)" by (auto dest: choice)
  note ex = extracted [OF known fs edit_services_has]
  have other: "getProp (buildMetadataJsonForEdit form' existing) k = getProp (NObj existing) k" if "k \<notin> set KNOWN_FIELDS" for k
  proof -
    have "k \<noteq> ''type''" "k \<noteq> ''name''" using that by (auto simp: KNOWN_FIELDS_def)
    with that show ?thesis by (simp add: edit_lookup)
  qed
  have "map name_and_endpoint (extractServices (buildMetadataJsonForEdit form existing)) =
      map name_and_endpoint (endpointsToServices (NArr es))"
    using ex(4) [of form] assms(1,2) by (simp add: edit_services_def)
  also have "\<dots> = map name_and_endpoint (extractServices (NObj existing))"
    using endpoints_agree [OF assms(3)] assms(2,4) by (simp add: extractServices_def)
  finally show ?thesis using ex other by (simp add: edit_services_def)
qed

definition sample_existing :: "(string \<times> native) list" where
  "sample_existing = [(''license'', NStr ''MIT''), (''endpoints'', NArr [NObj [(''type'', NStr ''mcp''), (''url'', NStr ''https://a'')]])]"

theorem edit_keeps_document_witness:
  "map name_and_endpoint (extractServices (buildMetadataJsonForEdit (sample_form\<lparr>fm_services := []\<rparr>) sample_existing)) =
     [(NStr ''mcp'', NStr ''https://a'')] \<and>
   getProp (buildMetadataJsonForEdit sample_form sample_existing) ''license'' = NStr ''MIT''"
proof -
  let ?es = "[NObj [(''type'', NStr ''mcp''), (''url'', NStr ''https://a'')]]"
  have "fm_services (sample_form\<lparr>fm_services := []\<rparr>) = []" "getProp (NObj sample_existing) ''endpoints'' = NArr ?es"
    "\<forall>e \<in> set ?es. legacy_typed e" "getProp (NObj sample_existing) ''services'' = NUndef"
    by (simp_all add: sample_existing_def getProp_def legacy_typed_def text_or_absent_def text_field_def is_nullish_def)
  note edit_keeps_document [OF this, of sample_form]
  moreover have "map name_and_endpoint (extractServices (NObj sample_existing)) = [(NStr ''mcp'', NStr ''https://a'')]"
    by (simp add: sample_existing_def extractServices_def getProp_def is_object_def legacy_service_def coalesce_def is_nullish_def
        nonempty_text_def name_and_endpoint_def)
  moreover have "''license'' \<notin> set KNOWN_FIELDS" "getProp (NObj sample_existing) ''license'' = NStr ''MIT''"
    by (simp_all add: KNOWN_FIELDS_def sample_existing_def getProp_def)
  ultimately show ?thesis by simp
qed

end
