(* ===== verification/Sdk_Core.thy ===== *)
theory Sdk_Core
  imports Chain_Helpers Api_Router
begin

text \<open>
  The SDK's helpers (\<open>webapp/packages/sdk/src/core/helpers.ts\<close>) and network configurations (\<open>core/config.ts\<close>).

  The StrKey checks, SHA-256, the clock and the text codec of the platform are arguments. \<open>thrown\<close> is what a JavaScript \<open>catch\<close> gets:
  an \<open>Error\<close> with its name and message, or any other value.
\<close>

section \<open>Input checks\<close>

definition MAX_TAG_LENGTH :: nat where
  "MAX_TAG_LENGTH = 64"

definition validateTag :: "string \<Rightarrow> string \<Rightarrow> string + unit" where
  "validateTag tag label = (if MAX_TAG_LENGTH < length tag
     then Inl (label @ '' too long ('' @ show_nat (length tag) @ '' chars, max 64)'') else Inr ())"

record hasher =
  hs_encode :: "string \<Rightarrow> 8 word list"
  hs_sha256 :: "8 word list \<Rightarrow> 8 word list"
  hs_now :: string
  hs_uuid :: string

definition generateRequestNonce :: "hasher \<Rightarrow> int \<Rightarrow> string \<Rightarrow> 8 word list option \<Rightarrow> string + 8 word list" where
  "generateRequestNonce hs agent validatorAddress contentHash = (case contentHash of
      Some h \<Rightarrow> if length h \<noteq> 32 then Inl (''contentHash must be 32 bytes, got '' @ show_nat (length h)) else Inr h
    | None \<Rightarrow> Inr (hs_sha256 hs (hs_encode hs
        (show_int agent @ '':'' @ validatorAddress @ '':'' @ hs_now hs @ '':'' @ hs_uuid hs))))"

record strkey =
  sk_ed25519 :: "string \<Rightarrow> bool"
  sk_contract :: "string \<Rightarrow> bool"

definition sdk_isValidStellarAddress :: "strkey \<Rightarrow> string \<Rightarrow> bool" where
  "sdk_isValidStellarAddress sk address \<longleftrightarrow> sk_ed25519 sk address \<or> sk_contract sk address"

definition validateStellarAddress :: "strkey \<Rightarrow> string \<Rightarrow> string \<Rightarrow> string + unit" where
  "validateStellarAddress sk address label =
     (if \<not> sdk_isValidStellarAddress sk address then Inl (label @ '' is not a valid Stellar address'') else Inr ())"

text \<open>\<open>fetch\<close> of the friendbot: rejecting is \<open>Inl\<close>; a response is its \<open>ok\<close> flag, its status and its text (\<open>None\<close> if reading fails).\<close>

definition fundTestnet :: "(string \<Rightarrow> string + bool \<times> int \<times> string option) \<Rightarrow> string \<Rightarrow> string + unit" where
  "fundTestnet fetch address =
     sbind (fetch (''https://friendbot.stellar.org?addr='' @ encodeURIComponent address)) (\<lambda>(ok, status, body).
       if ok then Inr ()
       else Inl (''Friendbot failed: '' @ show_int status @
         (case body of Some detail \<Rightarrow> if detail = [] then [] else '' - '' @ detail | None \<Rightarrow> [])))"

section \<open>Simulations\<close>

record GasEstimate =
  ge_minResourceFee :: string
  ge_instructions :: string
  ge_readBytes :: int
  ge_writeBytes :: int
  ge_readOnly :: nat
  ge_readWrite :: nat

datatype simulation =
    Sim_Error string
  | Sim_Success (sim_fee: string) (sim_instructions: nat) (sim_read: int) (sim_write: int) (sim_ro: nat) (sim_rw: nat)

fun estimateGas :: "simulation \<Rightarrow> string + GasEstimate" where
  "estimateGas (Sim_Error e) = Inl (''Simulation failed: '' @ e)"
| "estimateGas (Sim_Success fee instructions r w ro rw) =
     Inr \<lparr>ge_minResourceFee = fee, ge_instructions = show_nat instructions, ge_readBytes = r, ge_writeBytes = w, ge_readOnly = ro, ge_readWrite = rw\<rparr>"

section \<open>Error messages\<close>

datatype registry = Identity_Registry | Reputation_Registry | Validation_Registry

fun CONTRACT_ERRORS :: "registry \<Rightarrow> (nat \<times> string) list" where
  "CONTRACT_ERRORS Identity_Registry =
     [(1, ''Not authorized (must be agent owner or approved operator).''),
      (7, ''agentWallet is a reserved key - use the wallet binding UI.''),
      (8, ''Value cannot be empty.'')]"
| "CONTRACT_ERRORS Reputation_Registry =
     [(1, ''You cannot give feedback to your own agent.''),
      (6, ''Agent not found.''),
      (7, ''Response URI cannot be empty.''),
      (8, ''Feedback value is out of the allowed range.''),
      (9, ''Client addresses are required for summary queries.'')]"
| "CONTRACT_ERRORS Validation_Registry =
     [(1, ''Not authorized (must be agent owner or approved operator).''),
      (4, ''A validation request with this hash already exists.''),
      (5, ''Only the designated validator can respond.'')]"

datatype thrown = Thrown_Error (th_name: string) (th_message: string) | Thrown_Value native

text \<open>Patterns with the \<open>i\<close> flag are tested on the lower-case text. \<open>.*\<close> does not cross a line end.\<close>

fun has_then :: "string \<Rightarrow> string \<Rightarrow> string \<Rightarrow> bool" where
  "has_then a b [] = (a = [] \<and> b = [])"
| "has_then a b (c # s) = ((startsWith (c # s) a \<and>
     has_substring (takeWhile (\<lambda>x. x \<noteq> CHR 0x0A \<and> x \<noteq> CHR 0x0D) (drop (length a) (c # s))) b) \<or> has_then a b s)"

definition wallet_rejection :: "string \<Rightarrow> bool" where
  "wallet_rejection s \<longleftrightarrow> (\<exists>p \<in> set [''user declined'', ''user rejected'', ''rejected by the user'', ''rejected by user'',
     ''denied by the user'', ''denied by user'']. has_substring s p)"

definition too_late :: "string \<Rightarrow> bool" where
  "too_late s \<longleftrightarrow> (\<exists>p \<in> set [''txtoolate'', ''tx_toolate'', ''txtoo_late'', ''tx_too_late'']. has_substring s p)"

text \<open>The first match of the contract error pattern: the digits of its code.\<close>

definition contract_code_here :: "string \<Rightarrow> string option" where
  "contract_code_here s =
     (if \<not> startsWith s ''Error(Contract,'' then None
      else (let rest = dropWhile is_space (drop 15 s)
            in if rest = [] \<or> hd rest \<noteq> CHR ''#'' then None
               else (let digits = takeWhile is_digit (tl rest); after_digits = dropWhile is_digit (tl rest)
                     in if digits = [] \<or> after_digits = [] \<or> hd after_digits \<noteq> CHR '')'' then None else Some digits)))"

fun contract_code :: "string \<Rightarrow> string option" where
  "contract_code [] = None"
| "contract_code (c # s) = (case contract_code_here (c # s) of Some ds \<Rightarrow> Some ds | None \<Rightarrow> contract_code s)"

definition contract_message :: "(rat \<Rightarrow> string) \<Rightarrow> registry option \<Rightarrow> string \<Rightarrow> string" where
  "contract_message fmt registry digits =
     (case (case registry of None \<Rightarrow> None | Some r \<Rightarrow> map_of (CONTRACT_ERRORS r) (read_nat digits)) of
        Some m \<Rightarrow> m
      | None \<Rightarrow> ''Contract error #'' @ js_String fmt (NNum (Number_of_bigint (int (read_nat digits)))) @ ''.'')"

definition formatSorobanError :: "(rat \<Rightarrow> string) \<Rightarrow> thrown \<Rightarrow> registry option \<Rightarrow> string" where
  "formatSorobanError fmt err registry =
     (let msg = (case err of Thrown_Error n m \<Rightarrow> m | Thrown_Value v \<Rightarrow> js_String fmt v); lower = toLowerCase msg
      in if (case err of Thrown_Error n m \<Rightarrow> n = ''InvalidInputError'' | Thrown_Value v \<Rightarrow> False) then msg
         else if wallet_rejection lower then ''Transaction cancelled in wallet.''
         else if has_then ''budget'' ''limitexceeded'' lower then ''Transaction resource limit exceeded. Try a simpler operation.''
         else if has_then ''insufficient'' ''balance'' lower then ''Insufficient XLM balance for transaction fees.''
         else if too_late lower then ''Transaction expired. Please try again.''
         else if has_substring lower ''timeout'' \<or> has_substring lower ''etimedout''
         then ''Network timeout. Check your connection and try again.''
         else (case contract_code msg of
             Some digits \<Rightarrow> contract_message fmt registry digits
           | None \<Rightarrow> if 200 < length msg then take 200 msg @ ''... (see console for full error)'' else msg))"

section \<open>Networks\<close>

datatype network = Testnet | Mainnet

record StellarConfig =
  sc_network :: network
  sc_rpcUrl :: string
  sc_networkPassphrase :: string
  sc_identity :: string
  sc_reputation :: string
  sc_validation :: string
  sc_deployVersion :: string
  sc_deployLedger :: int

text \<open>The passphrases are constants of the Stellar SDK.\<close>

definition TESTNET_CONFIG :: "string \<Rightarrow> StellarConfig" where
  "TESTNET_CONFIG passphrase = \<lparr>sc_network = Testnet, sc_rpcUrl = ''https://soroban-testnet.stellar.org'', sc_networkPassphrase = passphrase,
     sc_identity = ''CDE3K4COIAGWNNJQQLL26SYI3KBJF5FUDHXG5FA6GYDJCG7T5V7FIWZH'',
     sc_reputation = ''CBZEAGIEI3HXMDRLF44KLQJQQOH6LCYWWSGJVSYQYQO2HQ6DDGZ7HT55'',
     sc_validation = ''CC5USZRO26MOIAVNYTTJDS63C2OBBLREOAOET4CPF2EZWO3YFKLMO3SL'',
     sc_deployVersion = ''2026-04-11'', sc_deployLedger = 1980692\<rparr>"

definition MAINNET_CONFIG :: "string \<Rightarrow> StellarConfig" where
  "MAINNET_CONFIG passphrase = \<lparr>sc_network = Mainnet, sc_rpcUrl = ''https://mainnet.sorobanrpc.com'', sc_networkPassphrase = passphrase,
     sc_identity = ''CBGPDCJIHQ32G42BE7F2CIT3YW6XRN5ED6GQJHCRZSNAYH6TGMCL6X35'',
     sc_reputation = ''CBOIAIMMWAXI57OATLX6BWVDQLCC4YU55HV6MZXFRP6CBSGAMXSTEPPA'',
     sc_validation = ''CBT6WWEVEPT2UFGFGVJJ7ELYGLQAGRYSVGDTGMCJTRWXOH27MWUO7UJG'',
     sc_deployVersion = ''2026-04-11'', sc_deployLedger = 62071546\<rparr>"

definition getConfig :: "(network \<Rightarrow> string) \<Rightarrow> string option \<Rightarrow> string + StellarConfig" where
  "getConfig passphrase network =
     (let n = (case network of None \<Rightarrow> ''testnet'' | Some x \<Rightarrow> x)
      in if n = ''testnet'' then Inr (TESTNET_CONFIG (passphrase Testnet))
         else if n = ''mainnet'' then Inr (MAINNET_CONFIG (passphrase Mainnet))
         else Inl (''Unknown network: '' @ n))"

section \<open>Lemmas\<close>

lemma nonce_length:
  assumes "\<And>bs. length (hs_sha256 hs bs) = 32" and "generateRequestNonce hs i v c = Inr h"
  shows "length h = 32"
  using assms by (auto simp: generateRequestNonce_def split: option.splits if_splits)

text \<open>Validation messages come through as they are; any other message without a contract code is short enough to show.\<close>

lemma format_validation: "formatSorobanError fmt (Thrown_Error ''InvalidInputError'' m) registry = m"
  by (simp add: formatSorobanError_def)

lemma format_bounded:
  assumes "contract_code (case err of Thrown_Error n m \<Rightarrow> m | Thrown_Value v \<Rightarrow> js_String fmt v) = None"
    and "\<And>m. err \<noteq> Thrown_Error ''InvalidInputError'' m"
  shows "length (formatSorobanError fmt err registry) \<le> 232"
  using assms by (cases err) (auto simp: formatSorobanError_def Let_def)

lemma contract_code_reads:
  assumes "\<forall>c \<in> set ds. is_digit c" "ds \<noteq> []"
  shows "contract_code (''Error(Contract, #'' @ ds @ '')'' @ rest) = Some ds"
proof -
  have "takeWhile is_digit (ds @ CHR '')'' # rest) = ds" "dropWhile is_digit (ds @ CHR '')'' # rest) = CHR '')'' # rest"
    using assms(1) by (simp_all add: takeWhile_append2 is_digit_def code_of_def dropWhile_append2)
  then have "contract_code_here (''Error(Contract, #'' @ ds @ '')'' @ rest) = Some ds"
    using assms(2) by (simp add: contract_code_here_def is_space_def code_of_def)
  then show ?thesis by simp
qed

lemma getConfig_network: "getConfig p n = Inr c \<Longrightarrow> n = Some ''mainnet'' \<longleftrightarrow> sc_network c = Mainnet"
  by (auto simp: getConfig_def MAINNET_CONFIG_def TESTNET_CONFIG_def Let_def split: option.splits if_splits)

end
