(* ===== verification/Sdk_Signer.thy ===== *)
theory Sdk_Signer
  imports Sdk_Metadata Sdk_Core
begin

text \<open>
  The Freighter signer (\<open>webapp/packages/sdk/src/signers/freighter.ts\<close>) as actions on a \<open>wallet\<close> state: the signer's public key, whether the
  Freighter module is loaded, and a log of the calls made to the extension, the latest first.

  The extension is the parameter \<open>freighter\<close>: what each of its functions answers at the n-th call (\<open>Inl\<close> when the promise rejects). A
  reachable state is one that any sequence of the signer's operations leads to; the property is an invariant of the reachable states. An operation
  is one step: calls on one signer that overlap at their awaits are not interleaved.
\<close>

section \<open>The extension and the state\<close>

text \<open>\<open>WalletError\<close>, reduced to its message, which may be missing.\<close>

type_synonym wallet_error = "string option"

record access_reply =
  ac_address :: string
  ac_error :: "wallet_error option"

record network_reply =
  nw_network :: string
  nw_passphrase :: string
  nw_error :: "wallet_error option"

record auth_reply =
  au_signed :: native
  au_signer :: "string option"
  au_error :: "(wallet_error \<times> int) option"

text \<open>A promise settles after some milliseconds or never.\<close>

datatype 'a promise = Settles nat "string + 'a" | Pending

record freighter =
  fr_import :: "nat \<Rightarrow> string + unit"
  fr_isConnected :: "nat \<Rightarrow> string + bool"
  fr_requestAccess :: "nat \<Rightarrow> access_reply promise"
  fr_getAddress :: "nat \<Rightarrow> string + access_reply"
  fr_getNetwork :: "nat \<Rightarrow> string + network_reply"
  fr_signTransaction :: "nat \<Rightarrow> string \<Rightarrow> string option \<Rightarrow> string \<Rightarrow> string + native"
  fr_signAuthEntry :: "nat \<Rightarrow> string \<Rightarrow> string option \<Rightarrow> string \<Rightarrow> string + auth_reply"
  fr_buffer :: bool \<comment> \<open>\<open>globalThis.Buffer\<close> exists\<close>
  fr_number :: "rat \<Rightarrow> string"

datatype call =
    Imported
  | Asked_Connected
  | Asked_Access
  | Asked_Address
  | Asked_Allowed
  | Asked_Network "string + network_reply"
  | Sign_Transaction string "string option" string
  | Sign_Auth_Entry string "string option" string

record wallet =
  sg_publicKey :: string
  sg_loaded :: bool
  sg_log :: "call list"

type_synonym 'a action = "wallet \<Rightarrow> (string + 'a) \<times> wallet"

definition new_signer :: wallet where
  "new_signer = \<lparr>sg_publicKey = [], sg_loaded = False, sg_log = []\<rparr>"

definition ret :: "'a \<Rightarrow> 'a action" where
  "ret x w = (Inr x, w)"

definition throw :: "string \<Rightarrow> 'a action" where
  "throw e w = (Inl e, w)"

definition andthen :: "'a action \<Rightarrow> ('a \<Rightarrow> 'b action) \<Rightarrow> 'b action" where
  "andthen m f w = (case m w of (Inl e, w') \<Rightarrow> (Inl e, w') | (Inr x, w') \<Rightarrow> f x w')"

text \<open>A call of the extension: its answer, and the log entry it leaves.\<close>

definition asking :: "(nat \<Rightarrow> 'a) \<Rightarrow> ('a \<Rightarrow> call) \<Rightarrow> 'a action" where
  "asking answer entry w = (let a = answer (length (sg_log w)) in (Inr a, w\<lparr>sg_log := entry a # sg_log w\<rparr>))"

definition unwrap :: "string + 'a \<Rightarrow> 'a action" where
  "unwrap r w = (r, w)"

section \<open>The signer\<close>

definition CONNECT_TIMEOUT_MS :: nat where
  "CONNECT_TIMEOUT_MS = 30000"

definition DETECT_MAX_RETRIES :: nat where
  "DETECT_MAX_RETRIES = 4"

definition withTimeout :: "'a promise \<Rightarrow> nat \<Rightarrow> string \<Rightarrow> string + 'a" where
  "withTimeout promise ms label = (case promise of
      Settles t r \<Rightarrow> if t < ms then r else Inl (label @ '' timed out'')
    | Pending \<Rightarrow> Inl (label @ '' timed out''))"

definition public_passphrase :: string where
  "public_passphrase = ''Public Global Stellar Network ; September 2015''"

definition expectedNetworkLabel :: "string \<Rightarrow> string" where
  "expectedNetworkLabel networkPassphrase = (if networkPassphrase = public_passphrase then ''Public'' else ''Testnet'')"

definition getApi :: "freighter \<Rightarrow> unit action" where
  "getApi f w =
     (if sg_loaded w then (Inr (), w)
      else (case asking (fr_import f) (\<lambda>_. Imported) w of
          (Inr (Inr _), w') \<Rightarrow> (Inr (), w'\<lparr>sg_loaded := True\<rparr>)
        | (Inr (Inl e), w') \<Rightarrow> (Inl (''@stellar/freighter-api is required to use FreighterSigner: '' @ e), w')
        | (Inl e, w') \<Rightarrow> (Inl e, w')))"

text \<open>The detection loop with \<open>n\<close> attempts left; a rejected \<open>isConnected\<close> is ignored.\<close>

fun detect_loop :: "freighter \<Rightarrow> nat \<Rightarrow> bool action" where
  "detect_loop f 0 = ret False"
| "detect_loop f (Suc n) = andthen (asking (fr_isConnected f) (\<lambda>_. Asked_Connected)) (\<lambda>r.
     case r of Inr True \<Rightarrow> ret True | _ \<Rightarrow> detect_loop f n)"

definition detectFreighter :: "freighter \<Rightarrow> bool action" where
  "detectFreighter f = andthen (getApi f) (\<lambda>_. detect_loop f (Suc DETECT_MAX_RETRIES))"

definition set_key :: "string \<Rightarrow> unit action" where
  "set_key k w = (Inr (), w\<lparr>sg_publicKey := k\<rparr>)"

definition message_or :: "wallet_error \<Rightarrow> string \<Rightarrow> string" where
  "message_or e d = (case e of None \<Rightarrow> d | Some m \<Rightarrow> m)"

definition connect :: "freighter \<Rightarrow> strkey \<Rightarrow> string action" where
  "connect f sk =
     andthen (getApi f) (\<lambda>_.
     andthen (detectFreighter f) (\<lambda>installed.
     if \<not> installed then throw ''Freighter wallet not detected. Install it or refresh the page.''
     else andthen (asking (fr_requestAccess f) (\<lambda>_. Asked_Access)) (\<lambda>p.
     andthen (unwrap (withTimeout p CONNECT_TIMEOUT_MS ''Wallet connection'')) (\<lambda>access.
     case ac_error access of
       Some e \<Rightarrow> throw (message_or e ''Failed to connect Freighter'')
     | None \<Rightarrow>
         andthen (if ac_address access \<noteq> [] then ret (ac_address access)
                  else andthen (asking (fr_getAddress f) (\<lambda>_. Asked_Address)) (\<lambda>r. andthen (unwrap r) (\<lambda>a. ret (ac_address a)))) (\<lambda>address.
         if address = [] then throw ''No address returned from Freighter''
         else if \<not> sk_ed25519 sk address \<and> \<not> sk_contract sk address then throw (''Freighter returned invalid address: '' @ address)
         else andthen (set_key address) (\<lambda>_. ret address))))))"

record sign_opts =
  so_passphrase :: "string option"
  so_address :: "string option"

definition syncNetwork :: "freighter \<Rightarrow> string option \<Rightarrow> unit action" where
  "syncNetwork f networkPassphrase =
     (if networkPassphrase = None \<or> networkPassphrase = Some [] then ret ()
      else andthen (getApi f) (\<lambda>_.
        andthen (asking (fr_getNetwork f) Asked_Network) (\<lambda>r.
        andthen (unwrap r) (\<lambda>result.
        case nw_error result of
          Some e \<Rightarrow> throw (message_or e ''Failed to read Freighter network'')
        | None \<Rightarrow>
            if nw_passphrase result \<noteq> the networkPassphrase
            then throw (''Freighter is on '' @ (if nw_network result = [] then ''unknown'' else nw_network result) @
              '' but this app requires '' @ expectedNetworkLabel (the networkPassphrase) @ ''. Switch network in Freighter settings.'')
            else ret ()))))"

definition current_key :: "string action" where
  "current_key w = (Inr (sg_publicKey w), w)"

definition not_connected :: string where
  "not_connected = ''FreighterSigner is not connected. Call connect() first.''"

definition signTransaction :: "freighter \<Rightarrow> string \<Rightarrow> sign_opts \<Rightarrow> native action" where
  "signTransaction f xdr opts =
     andthen (getApi f) (\<lambda>_.
     andthen current_key (\<lambda>key.
     let address = text_default key (so_address opts)
     in if address = [] then throw not_connected
        else andthen (syncNetwork f (so_passphrase opts)) (\<lambda>_.
          andthen (asking (\<lambda>n. fr_signTransaction f n xdr (so_passphrase opts) address)
            (\<lambda>_. Sign_Transaction xdr (so_passphrase opts) address)) unwrap)))"

record signed_entry =
  sn_entry :: string
  sn_signer :: "string option"
  sn_error :: "(wallet_error \<times> int) option"

definition normalize_signed :: "freighter \<Rightarrow> native \<Rightarrow> string" where
  "normalize_signed f raw = (case raw of
      NStr s \<Rightarrow> s
    | NBytes bs \<Rightarrow> if fr_buffer f then bytesToBase64 bs else js_String (fr_number f) raw
    | _ \<Rightarrow> js_String (fr_number f) raw)"

definition auth_result :: "freighter \<Rightarrow> auth_reply \<Rightarrow> signed_entry" where
  "auth_result f result =
     (if au_error result \<noteq> None then \<lparr>sn_entry = [], sn_signer = au_signer result, sn_error = au_error result\<rparr>
      else if \<not> truthy (au_signed result)
      then \<lparr>sn_entry = [], sn_signer = au_signer result, sn_error = Some (Some ''No signed auth entry returned'', - 1)\<rparr>
      else \<lparr>sn_entry = normalize_signed f (au_signed result), sn_signer = au_signer result, sn_error = None\<rparr>)"

definition signAuthEntry :: "freighter \<Rightarrow> string \<Rightarrow> sign_opts \<Rightarrow> signed_entry action" where
  "signAuthEntry f authEntry opts =
     andthen (getApi f) (\<lambda>_.
     andthen current_key (\<lambda>key.
     if key = [] then throw not_connected
     else andthen (syncNetwork f (so_passphrase opts)) (\<lambda>_.
       let address = text_default key (so_address opts)
       in andthen (asking (\<lambda>n. fr_signAuthEntry f n authEntry (so_passphrase opts) address)
            (\<lambda>_. Sign_Auth_Entry authEntry (so_passphrase opts) address)) (\<lambda>r.
          andthen (unwrap r) (\<lambda>result. ret (auth_result f result))))))"

section \<open>The invariant\<close>

text \<open>A signing call for a network comes right after the extension said it is on that network.\<close>

definition checked :: "string option \<Rightarrow> call list \<Rightarrow> bool" where
  "checked passphrase calls = (case passphrase of
      None \<Rightarrow> True
    | Some p \<Rightarrow> p = [] \<or> (case calls of Asked_Network (Inr r) # _ \<Rightarrow> nw_error r = None \<and> nw_passphrase r = p | _ \<Rightarrow> False))"

fun log_ok :: "call list \<Rightarrow> bool" where
  "log_ok [] = True"
| "log_ok (Sign_Transaction x p a # calls) = (a \<noteq> [] \<and> checked p calls \<and> log_ok calls)"
| "log_ok (Sign_Auth_Entry x p a # calls) = (checked p calls \<and> log_ok calls)"
| "log_ok (_ # calls) = log_ok calls"

definition signer_inv :: "strkey \<Rightarrow> wallet \<Rightarrow> bool" where
  "signer_inv sk w \<longleftrightarrow> log_ok (sg_log w) \<and> (sg_publicKey w = [] \<or> sdk_isValidStellarAddress sk (sg_publicKey w))"

text \<open>From \<open>P\<close> the action ends in \<open>Q\<close> with its result, or throws in a state that keeps \<open>I\<close>.\<close>

definition acts_in :: "(wallet \<Rightarrow> bool) \<Rightarrow> (wallet \<Rightarrow> bool) \<Rightarrow> 'a action \<Rightarrow> ('a \<Rightarrow> wallet \<Rightarrow> bool) \<Rightarrow> bool" where
  "acts_in I P m Q \<longleftrightarrow> (\<forall>w. P w \<longrightarrow> (case m w of (Inl e, w') \<Rightarrow> I w' | (Inr x, w') \<Rightarrow> Q x w'))"

lemma acts_andthen:
  assumes "acts_in I P m Q" and "\<And>x. acts_in I (Q x) (f x) R"
  shows "acts_in I P (andthen m f) R"
  using assms unfolding acts_in_def andthen_def by (fastforce split: prod.splits sum.splits)

lemmas action_defs = ret_def throw_def unwrap_def current_key_def asking_def set_key_def Let_def

lemma acts_ret [intro]: "(\<And>w. P w \<Longrightarrow> Q x w) \<Longrightarrow> acts_in I P (ret x) Q"
  and acts_throw [intro]: "(\<And>w. P w \<Longrightarrow> I w) \<Longrightarrow> acts_in I P (throw e) Q"
  and acts_unwrap: "(\<And>w. P w \<Longrightarrow> I w) \<Longrightarrow> (\<And>w y. P w \<Longrightarrow> r = Inr y \<Longrightarrow> Q y w) \<Longrightarrow> acts_in I P (unwrap r) Q"
  and acts_asking: "(\<And>w a. P w \<Longrightarrow> a = answer (length (sg_log w)) \<Longrightarrow> Q a (w\<lparr>sg_log := entry a # sg_log w\<rparr>)) \<Longrightarrow>
     acts_in I P (asking answer entry) Q"
  by (auto simp: acts_in_def action_defs split: sum.split)

lemma acts_key: "(\<And>w. P w \<Longrightarrow> Q (sg_publicKey w) w) \<Longrightarrow> acts_in I P current_key Q"
  by (auto simp: acts_in_def action_defs)

lemma acts_set_key: "(\<And>w. P w \<Longrightarrow> Q () (w\<lparr>sg_publicKey := k\<rparr>)) \<Longrightarrow> acts_in I P (set_key k) Q"
  by (auto simp: acts_in_def action_defs)

lemmas acts_basic = acts_ret acts_throw acts_unwrap acts_asking acts_key acts_set_key

lemma acts_cases: "(b \<Longrightarrow> acts_in I P m Q) \<Longrightarrow> (\<not> b \<Longrightarrow> acts_in I P m' Q) \<Longrightarrow> acts_in I P (if b then m else m') Q"
  by simp

lemma acts_option: "(v = None \<Longrightarrow> acts_in I P m Q) \<Longrightarrow> (\<And>x. v = Some x \<Longrightarrow> acts_in I P (g x) Q) \<Longrightarrow>
   acts_in I P (case v of None \<Rightarrow> m | Some x \<Rightarrow> g x) Q"
  by (cases v) auto

lemma getApi_inv: "acts_in (signer_inv sk) (signer_inv sk) (getApi f) (\<lambda>_. signer_inv sk)"
  by (auto simp: acts_in_def getApi_def asking_def Let_def signer_inv_def split: sum.split)

lemma detect_loop_inv: "acts_in (signer_inv sk) (signer_inv sk) (detect_loop f n) (\<lambda>_. signer_inv sk)"
proof (induction n)
  case (Suc n)
  have "acts_in (signer_inv sk) (signer_inv sk) (case r of Inr True \<Rightarrow> ret True | _ \<Rightarrow> detect_loop f n) (\<lambda>_. signer_inv sk)" for r :: "string + bool"
    using Suc by (auto split: sum.split bool.split)
  then show ?case unfolding detect_loop.simps
    by (rule acts_andthen [where Q = "\<lambda>_. signer_inv sk", rotated]) (rule acts_asking, simp add: signer_inv_def)
qed auto

lemma detect_inv: "acts_in (signer_inv sk) (signer_inv sk) (detectFreighter f) (\<lambda>_. signer_inv sk)"
  unfolding detectFreighter_def by (rule acts_andthen [OF getApi_inv]) (rule detect_loop_inv)

lemma connect_inv: "acts_in (signer_inv sk) (signer_inv sk) (connect f sk) (\<lambda>_. signer_inv sk)"
  unfolding connect_def
  apply (rule acts_andthen [OF getApi_inv])
  apply (rule acts_andthen [OF detect_inv])
  apply (rule acts_cases, blast)
  apply (rule acts_andthen [where Q = "\<lambda>_. signer_inv sk"], rule acts_asking, simp add: signer_inv_def)
  apply (rule acts_andthen [where Q = "\<lambda>_. signer_inv sk"], rule acts_basic, simp, simp)
  apply (rule acts_option)
   apply (rule acts_andthen [where Q = "\<lambda>_. signer_inv sk"])
    apply (rule acts_cases, blast)
    apply (rule acts_andthen [where Q = "\<lambda>_. signer_inv sk"], rule acts_asking, simp add: signer_inv_def)
    apply (rule acts_andthen [where Q = "\<lambda>_. signer_inv sk"], rule acts_basic, simp, simp, blast)
   apply (rule acts_cases, blast)
   apply (rule acts_cases, blast)
   apply (rule acts_andthen [where Q = "\<lambda>_. signer_inv sk"], rule acts_basic)
    apply (auto simp: signer_inv_def sdk_isValidStellarAddress_def)
  done

lemma sync_inv: "acts_in (signer_inv sk) (signer_inv sk) (syncNetwork f p) (\<lambda>_ w. signer_inv sk w \<and> checked p (sg_log w))"
  unfolding syncNetwork_def
  apply (rule acts_cases, rule acts_basic, force simp: checked_def)
  apply (rule acts_andthen [OF getApi_inv])
  apply (rule acts_andthen [where Q = "\<lambda>r w. signer_inv sk w \<and> (\<exists>calls. sg_log w = Asked_Network r # calls)"], rule acts_basic, simp add: signer_inv_def)
  apply (rule acts_andthen [where Q = "\<lambda>r w. signer_inv sk w \<and> (\<exists>calls. sg_log w = Asked_Network (Inr r) # calls)"], rule acts_basic, simp, simp)
  apply (rule acts_option)
   apply (rule acts_cases, blast)
   apply (rule acts_basic, auto simp: checked_def)
  done

lemma signTransaction_inv: "acts_in (signer_inv sk) (signer_inv sk) (signTransaction f xdr opts) (\<lambda>_. signer_inv sk)"
  unfolding signTransaction_def Let_def
  apply (rule acts_andthen [OF getApi_inv])
  apply (rule acts_andthen [where Q = "\<lambda>_. signer_inv sk"], rule acts_key, assumption)
  apply (rule acts_cases, blast)
  apply (rule acts_andthen [OF sync_inv])
  apply (rule acts_andthen [where Q = "\<lambda>_. signer_inv sk"], rule acts_asking, simp add: signer_inv_def)
  apply (rule acts_unwrap, simp, simp)
  done

lemma signAuthEntry_inv: "acts_in (signer_inv sk) (signer_inv sk) (signAuthEntry f entry opts) (\<lambda>_. signer_inv sk)"
  unfolding signAuthEntry_def Let_def
  apply (rule acts_andthen [OF getApi_inv])
  apply (rule acts_andthen [where Q = "\<lambda>_. signer_inv sk"], rule acts_key, assumption)
  apply (rule acts_cases, blast)
  apply (rule acts_andthen [OF sync_inv])
  apply (rule acts_andthen [where Q = "\<lambda>_. signer_inv sk"], rule acts_asking, simp add: signer_inv_def)
  apply (rule acts_andthen [where Q = "\<lambda>_. signer_inv sk"], rule acts_unwrap, simp, simp)
  apply blast
  done

text \<open>The states a signer gets into, whatever is asked of it.\<close>

inductive signer_reachable :: "freighter \<Rightarrow> strkey \<Rightarrow> wallet \<Rightarrow> bool" for f sk where
  new: "signer_reachable f sk new_signer"
| detecting: "signer_reachable f sk w \<Longrightarrow> detectFreighter f w = (r, w') \<Longrightarrow> signer_reachable f sk w'"
| connecting: "signer_reachable f sk w \<Longrightarrow> connect f sk w = (a, w') \<Longrightarrow> signer_reachable f sk w'"
| syncing: "signer_reachable f sk w \<Longrightarrow> syncNetwork f p w = (u, w') \<Longrightarrow> signer_reachable f sk w'"
| signing: "signer_reachable f sk w \<Longrightarrow> signTransaction f xdr opts w = (t, w') \<Longrightarrow> signer_reachable f sk w'"
| authorizing: "signer_reachable f sk w \<Longrightarrow> signAuthEntry f entry opts w = (s, w') \<Longrightarrow> signer_reachable f sk w'"

lemma acts_state: "acts_in I P m (\<lambda>_. I) \<Longrightarrow> P w \<Longrightarrow> m w = (r, w') \<Longrightarrow> I w'"
  by (cases r) (auto simp: acts_in_def dest!: spec [of _ w])

lemma sync_state: "signer_inv sk w \<Longrightarrow> syncNetwork f p w = (r, w') \<Longrightarrow> signer_inv sk w'"
  using sync_inv [of sk f p] by (cases r) (auto simp: acts_in_def dest!: spec [of _ w])

lemma reachable_inv: "signer_reachable f sk w \<Longrightarrow> signer_inv sk w"
proof (induction rule: signer_reachable.induct)
  case new
  show ?case by (simp add: signer_inv_def new_signer_def)
qed (blast intro: sync_state acts_state [OF detect_inv] acts_state [OF connect_inv] acts_state [OF signTransaction_inv]
    acts_state [OF signAuthEntry_inv])+

lemma log_ok_suffix: "log_ok (xs @ ys) \<Longrightarrow> log_ok ys"
  by (induction xs rule: log_ok.induct) auto

section \<open>Properties\<close>

text \<open>C22. Nothing is signed on the wrong network: whatever sequence of operations is asked of a Freighter signer and whatever the extension
  answers, its public key is empty or a valid address, a transaction is only ever given to the extension with a non-empty address, and a
  transaction or authorization entry for a given network only right after the extension reported exactly that network without an error.\<close>

theorem signer_safe:
  assumes "signer_reachable f sk w"
  shows "(sg_publicKey w = [] \<or> sk_ed25519 sk (sg_publicKey w) \<or> sk_contract sk (sg_publicKey w)) \<and>
    (\<forall>later x p a earlier. sg_log w = later @ Sign_Transaction x p a # earlier \<longrightarrow> a \<noteq> []) \<and>
    (\<forall>later c x p a earlier. sg_log w = later @ c # earlier \<and> (c = Sign_Transaction x (Some p) a \<or> c = Sign_Auth_Entry x (Some p) a) \<and> p \<noteq> [] \<longrightarrow>
      (\<exists>r rest. earlier = Asked_Network (Inr r) # rest \<and> nw_error r = None \<and> nw_passphrase r = p))"
proof -
  from reachable_inv [OF assms] have inv: "signer_inv sk w" .
  have signed: "log_ok (c # earlier)" if "sg_log w = later @ c # earlier" for later c earlier
    using inv that log_ok_suffix [of later "c # earlier"] by (simp add: signer_inv_def)
  have "checked (Some p) earlier \<Longrightarrow> p \<noteq> [] \<Longrightarrow> \<exists>r rest. earlier = Asked_Network (Inr r) # rest \<and> nw_error r = None \<and> nw_passphrase r = p" for p earlier
    by (auto simp: checked_def split: list.splits call.splits sum.splits)
  with signed have "\<exists>r rest. earlier = Asked_Network (Inr r) # rest \<and> nw_error r = None \<and> nw_passphrase r = p"
    if "sg_log w = later @ c # earlier" "c = Sign_Transaction x (Some p) a \<or> c = Sign_Auth_Entry x (Some p) a" "p \<noteq> []" for later c x p a earlier
    using that by (metis log_ok.simps(2,3))
  moreover have "a \<noteq> []" if "sg_log w = later @ Sign_Transaction x p a # earlier" for later x p a earlier
    using signed [OF that] by simp
  ultimately show ?thesis using inv by (auto simp: signer_inv_def sdk_isValidStellarAddress_def)
qed

definition sample_freighter :: freighter where
  "sample_freighter = \<lparr>fr_import = (\<lambda>_. Inr ()), fr_isConnected = (\<lambda>n. Inr (2 < n)),
     fr_requestAccess = (\<lambda>_. Settles 5 (Inr \<lparr>ac_address = ''G'', ac_error = None\<rparr>)), fr_getAddress = (\<lambda>_. Inl []),
     fr_getNetwork = (\<lambda>_. Inr \<lparr>nw_network = [], nw_passphrase = ''net'', nw_error = None\<rparr>),
     fr_signTransaction = (\<lambda>_ _ _ _. Inr (NStr ''signed'')), fr_signAuthEntry = (\<lambda>_ _ _ _. Inl []), fr_buffer = False, fr_number = (\<lambda>_. [])\<rparr>"

definition sample_strkey :: strkey where
  "sample_strkey = \<lparr>sk_ed25519 = (\<lambda>s. s = ''G''), sk_contract = (\<lambda>_. False)\<rparr>"

definition sample_signer :: wallet where
  "sample_signer = snd (signTransaction sample_freighter ''tx'' \<lparr>so_passphrase = Some ''net'', so_address = None\<rparr>
     (snd (connect sample_freighter sample_strkey new_signer)))"

theorem signer_safe_witness:
  "signer_reachable sample_freighter sample_strkey sample_signer \<and> sg_publicKey sample_signer = ''G'' \<and>
   (\<exists>later x a r rest. sg_log sample_signer = later @ Sign_Transaction x (Some ''net'') a # Asked_Network (Inr r) # rest \<and> nw_passphrase r = ''net'')"
proof -
  have reach: "signer_reachable sample_freighter sample_strkey sample_signer"
    unfolding sample_signer_def by (rule signing [OF connecting [OF new]]) (rule surjective_pairing)+
  have run: "sg_publicKey sample_signer = ''G''"
    "\<exists>rest. sg_log sample_signer = [] @ Sign_Transaction ''tx'' (Some ''net'') ''G'' # rest"
    by (simp_all add: sample_signer_def connect_def signTransaction_def syncNetwork_def detectFreighter_def getApi_def andthen_def action_defs
        withTimeout_def DETECT_MAX_RETRIES_def CONNECT_TIMEOUT_MS_def sample_freighter_def sample_strkey_def new_signer_def text_default_def eval_nat_numeral)
  then obtain rest where log: "sg_log sample_signer = [] @ Sign_Transaction ''tx'' (Some ''net'') ''G'' # rest" by blast
  with signer_safe [OF reach] obtain r rest' where "rest = Asked_Network (Inr r) # rest'" "nw_passphrase r = ''net''"
    by (metis list.distinct(1))
  with log run(1) reach show ?thesis by blast
qed

end
