(* ===== verification/Sdk_Explorer.thy ===== *)
theory Sdk_Explorer
  imports Sdk_Metadata Api_Router
begin

text \<open>
  The SDK's API client (\<open>webapp/packages/sdk/src/api/explorer.ts\<close>): the normalization of what the API returns, and the request loop with its
  retries, as a function of what each attempt's \<open>fetch\<close> does.

  \<open>client\<close> holds the platform: \<open>Number\<close> of a value that is not a number, double multiplication, \<open>Date.parse\<close>, the clock, the random
  jitter of an attempt, URL construction and \<open>fetch\<close>. The values are JSON values. The request returns its result with the number of attempts and the sleeps it made.
  Header values and waiting times are exact integers; the engine rounds those beyond \<open>2^53\<close>.
\<close>

section \<open>Values\<close>

record client =
  cl_number :: "native \<Rightarrow> jsnum"
  cl_mul :: "jsnum \<Rightarrow> jsnum \<Rightarrow> jsnum"
  cl_date :: "string \<Rightarrow> int option"
  cl_now :: "nat \<Rightarrow> int"
  cl_jitter :: "nat \<Rightarrow> int"

fun toCamelCase :: "string \<Rightarrow> string" where
  "toCamelCase (a # b # s) =
     (if a = CHR ''_'' \<and> 97 \<le> code_of b \<and> code_of b \<le> 122 then char_of (code_of b - 32) # toCamelCase s else a # toCamelCase (b # s))"
| "toCamelCase s = s"

definition OPTIONAL_SERVICE_FIELDS :: "string list" where
  "OPTIONAL_SERVICE_FIELDS = [''version'', ''description'', ''inputExample'']"

definition sdk_service :: "native \<Rightarrow> native" where
  "sdk_service service = NObj
     ([(''name'', NStr (first_text [getProp service ''name''] ''unknown'')), (''endpoint'', NStr (first_text [getProp service ''endpoint''] []))] @
      concat (map (\<lambda>field. case getProp service field of NStr v \<Rightarrow> [(field, NStr v)] | _ \<Rightarrow> []) OPTIONAL_SERVICE_FIELDS))"

definition sdk_normalizeServices :: "native \<Rightarrow> native option" where
  "sdk_normalizeServices raw = (case raw of
      NArr ss \<Rightarrow> Some (NArr (filter (\<lambda>s. nonempty_text (getProp s ''endpoint'')) (map sdk_service (filter is_object ss))))
    | _ \<Rightarrow> None)"

definition has_field :: "(string \<times> native) list \<Rightarrow> string \<Rightarrow> bool" where
  "has_field fs k \<longleftrightarrow> map_of fs k \<noteq> None"

text \<open>A text of the resolved document becomes the agent's own field where it has none.\<close>

definition lift_field :: "string \<Rightarrow> (string \<times> native) list \<Rightarrow> (string \<times> native) list" where
  "lift_field k fs = (case map_of fs ''agentUriData'' of
      Some (NObj doc) \<Rightarrow> (case map_of doc k of
          Some (NStr s) \<Rightarrow> if has_field fs k then fs else AList.update k (NStr s) fs
        | _ \<Rightarrow> fs)
    | _ \<Rightarrow> fs)"

definition fix_services :: "(string \<times> native) list \<Rightarrow> (string \<times> native) list" where
  "fix_services fs = (case map_of fs ''services'' of
      None \<Rightarrow> fs
    | Some v \<Rightarrow> (case sdk_normalizeServices v of None \<Rightarrow> fs | Some v' \<Rightarrow> AList.update ''services'' v' fs))"

definition fix_trust :: "(string \<times> native) list \<Rightarrow> (string \<times> native) list" where
  "fix_trust fs = (case map_of fs ''supportedTrust'' of
      None \<Rightarrow> fs
    | Some (NArr _) \<Rightarrow> fs
    | Some _ \<Rightarrow> AList.update ''supportedTrust'' (NArr []) fs)"

fun normalizeRecord :: "native \<Rightarrow> native" where
  "normalizeRecord (NArr vs) = NArr (map normalizeRecord vs)"
| "normalizeRecord (NObj fs) = NObj (fix_trust (fix_services (lift_field ''image'' (lift_field ''description'' (lift_field ''name''
     (spread [] (map (\<lambda>(k, v). (toCamelCase k, if toCamelCase k = ''metadata'' then v else normalizeRecord v)) fs)))))))"
| "normalizeRecord v = v"

definition to_number :: "client \<Rightarrow> native \<Rightarrow> jsnum" where
  "to_number cl v = (case v of NNum x \<Rightarrow> x | _ \<Rightarrow> cl_number cl v)"

definition jless :: "jsnum \<Rightarrow> jsnum \<Rightarrow> bool" where
  "jless a b = (case (a, b) of
      (JFin x, JFin y) \<Rightarrow> x < y
    | (JInf p, JInf q) \<Rightarrow> \<not> p \<and> q
    | (JInf p, JFin _) \<Rightarrow> \<not> p
    | (JFin _, JInf q) \<Rightarrow> q
    | _ \<Rightarrow> False)"

definition or_number :: "native \<Rightarrow> int \<Rightarrow> native" where
  "or_number v d = (if is_nullish v then nint d else v)"

text \<open>Reading a property of \<open>undefined\<close> or \<open>null\<close> throws a \<open>TypeError\<close> (\<open>None\<close>).\<close>

definition normalizePagination :: "client \<Rightarrow> native \<Rightarrow> native option" where
  "normalizePagination cl meta_value =
     (if is_nullish meta_value then None
      else (let pagination = getProp meta_value ''pagination''
            in if \<not> truthy pagination then Some meta_value
               else (let page = to_number cl (or_number (getProp pagination ''page'') 1);
                         limit = to_number cl (or_number (getProp pagination ''limit'') 0);
                         n = to_number cl (or_number (getProp pagination ''total'') 0);
                         hasMore = (case getProp pagination ''hasMore'' of
                             NBool b \<Rightarrow> b
                           | _ \<Rightarrow> jless (JFin 0) limit \<and> jless (cl_mul cl page limit) n)
                     in (case meta_value of
                         NObj fs \<Rightarrow> Some (NObj (spread fs [(''pagination'', NObj [(''page'', NNum page), (''limit'', NNum limit), (''total'', NNum n),
                           (''hasMore'', NBool hasMore)])]))
                       | _ \<Rightarrow> Some meta_value))))"

section \<open>Requests\<close>

datatype api_error =
    Api_Error int string native
  | Rate_Limit_Error int native
  | Not_Found_Error string native
  | Validation_Error string native
  | Network_Error bool \<comment> \<open>an \<open>Error\<close>: whether it is an \<open>AbortError\<close> or a \<open>TypeError\<close>\<close>
  | Thrown_Other \<comment> \<open>a thrown value that is no \<open>Error\<close>\<close>

record api_reply =
  ar_status :: int
  ar_headers :: "string \<Rightarrow> string option"
  ar_json :: "native option" \<comment> \<open>\<open>None\<close> when reading the JSON fails\<close>
  ar_text :: "string option"

definition reply_ok :: "api_reply \<Rightarrow> bool" where
  "reply_ok r \<longleftrightarrow> 200 \<le> ar_status r \<and> ar_status r \<le> 299"

definition digits_only :: "string \<Rightarrow> bool" where
  "digits_only s \<longleftrightarrow> s \<noteq> [] \<and> (\<forall>c \<in> set s. is_digit c)"

definition parseRetryAfterMs :: "client \<Rightarrow> int \<Rightarrow> (string \<Rightarrow> string option) \<Rightarrow> int option" where
  "parseRetryAfterMs cl now headers =
     (let retryAfter = text_default [] (headers ''Retry-After'');
          reset = text_default [] (headers ''X-RateLimit-Reset'');
          from_reset = (if digits_only reset
            then Some (max 0 ((if 1000000000000 < int (read_nat reset) then int (read_nat reset) else int (read_nat reset) * 1000) - now))
            else None)
      in if retryAfter \<noteq> [] then
           (if digits_only retryAfter then Some (int (read_nat retryAfter) * 1000)
            else (case cl_date cl retryAfter of Some retryAt \<Rightarrow> Some (max 0 (retryAt - now)) | None \<Rightarrow> from_reset))
         else from_reset)"

definition readResponseBody :: "api_reply \<Rightarrow> native" where
  "readResponseBody response =
     (if has_substring (text_default [] (ar_headers response ''content-type'')) ''application/json''
      then (case ar_json response of None \<Rightarrow> NNull | Some v \<Rightarrow> v)
      else (case ar_text response of None \<Rightarrow> NNull | Some s \<Rightarrow> NStr s))"

definition extractErrorMessage :: "native \<Rightarrow> string \<Rightarrow> string" where
  "extractErrorMessage body d =
     (if nonempty_text body then (case body of NStr s \<Rightarrow> s | _ \<Rightarrow> d)
      else if is_object body then
        (case getProp body ''message'' of
           NStr m \<Rightarrow> m
         | _ \<Rightarrow> (case getProp (getProp body ''error'') ''message'' of NStr m \<Rightarrow> m | _ \<Rightarrow> d))
      else d)"

text \<open>The own enumerable fields of a value, as \<open>...body\<close> copies them.\<close>

fun own_fields :: "native \<Rightarrow> (string \<times> native) list" where
  "own_fields (NObj fs) = fs"
| "own_fields (NArr vs) = map (\<lambda>(i, v). (show_nat i, v)) (enumerate 0 vs)"
| "own_fields (NStr s) = map (\<lambda>(i, c). (show_nat i, NStr [c])) (enumerate 0 s)"
| "own_fields (NBytes bs) = map (\<lambda>(i, b). (show_nat i, nint (int (unat b)))) (enumerate 0 bs)"
| "own_fields _ = []"

definition read_success :: "client \<Rightarrow> bool \<Rightarrow> api_reply \<Rightarrow> api_error + native" where
  "read_success cl rawPagination response = (case ar_json response of
      None \<Rightarrow> Inl (Api_Error (ar_status response) ''Invalid JSON in response'' NUndef)
    | Some body \<Rightarrow>
        if is_nullish body then Inl (Network_Error True)
        else if getProp body ''success'' = NBool False then Inl (Api_Error (ar_status response) ''API request failed'' body)
        else (let normalized = normalizeRecord (getProp body ''meta'')
              in (case (if rawPagination then Some normalized else normalizePagination cl normalized) of
                  None \<Rightarrow> Inl (Network_Error True)
                | Some meta_value \<Rightarrow>
                    Inr (NObj (spread (own_fields body) [(''data'', normalizeRecord (getProp body ''data'')), (''meta'', meta_value)])))))"

datatype attempt_end = Finished "api_error + native" | Sleep int

text \<open>The body of the loop at one attempt; \<open>lst\<close> says that no retry is left. \<open>request_fetch\<close> is \<open>new URL\<close> and \<open>fetch\<close> together.\<close>

definition isRetriableNetworkError :: "api_error \<Rightarrow> bool" where
  "isRetriableNetworkError e = (case e of Network_Error retriable \<Rightarrow> retriable | _ \<Rightarrow> False)"

definition backoff :: "client \<Rightarrow> nat \<Rightarrow> int" where
  "backoff cl attempt = 1000 * 2 ^ attempt + cl_jitter cl attempt"

definition read_reply :: "client \<Rightarrow> string \<Rightarrow> bool \<Rightarrow> nat \<Rightarrow> bool \<Rightarrow> api_reply \<Rightarrow> attempt_end" where
  "read_reply cl resource rawPagination attempt lst response =
     (if reply_ok response then Finished (read_success cl rawPagination response)
      else (let body = readResponseBody response; status = ar_status response
            in if status = 429 then
                 (let ms = (case parseRetryAfterMs cl (cl_now cl attempt) (ar_headers response) of Some t \<Rightarrow> t | None \<Rightarrow> 1000 * 2 ^ attempt)
                  in if lst then Finished (Inl (Rate_Limit_Error ms body)) else Sleep ms)
               else if 500 \<le> status then
                 (if lst then Finished (Inl (Api_Error status (extractErrorMessage body ''Server error'') body)) else Sleep (backoff cl attempt))
               else if status = 404 then Finished (Inl (Not_Found_Error resource body))
               else if status = 400 then Finished (Inl (Validation_Error (extractErrorMessage body ''Invalid request parameters'') body))
               else Finished (Inl (Api_Error status (extractErrorMessage body (''Request failed with status '' @ show_int status)) body))))"

definition attempt_once :: "client \<Rightarrow> (nat \<Rightarrow> api_error + api_reply) \<Rightarrow> string \<Rightarrow> bool \<Rightarrow> nat \<Rightarrow> bool \<Rightarrow> attempt_end" where
  "attempt_once cl fetch resource rawPagination attempt lst =
     (case (case fetch attempt of Inl e \<Rightarrow> Finished (Inl e) | Inr response \<Rightarrow> read_reply cl resource rawPagination attempt lst response) of
        Finished (Inl e) \<Rightarrow> if \<not> isRetriableNetworkError e \<or> lst then Finished (Inl e) else Sleep (backoff cl attempt)
      | r \<Rightarrow> r)"

text \<open>The loop from an attempt on, with \<open>n\<close> retries left: the result, the attempts made and the sleeps.\<close>

fun request_loop ::
  "client \<Rightarrow> (nat \<Rightarrow> api_error + api_reply) \<Rightarrow> string \<Rightarrow> bool \<Rightarrow> nat \<Rightarrow> nat \<Rightarrow> (api_error + native) \<times> nat \<times> int list" where
  "request_loop cl fetch resource raw attempt 0 =
     (case attempt_once cl fetch resource raw attempt True of
        Finished r \<Rightarrow> (r, 1, [])
      | Sleep ms \<Rightarrow> (Inl (Api_Error 0 ''Request failed after retries'' NUndef), 1, [ms]))"
| "request_loop cl fetch resource raw attempt (Suc n) =
     (case attempt_once cl fetch resource raw attempt False of
        Finished r \<Rightarrow> (r, 1, [])
      | Sleep ms \<Rightarrow> (case request_loop cl fetch resource raw (Suc attempt) n of (r, k, sleeps) \<Rightarrow> (r, Suc k, ms # sleeps)))"

definition request :: "client \<Rightarrow> (nat \<Rightarrow> api_error + api_reply) \<Rightarrow> string \<Rightarrow> bool \<Rightarrow> nat \<Rightarrow> (api_error + native) \<times> nat \<times> int list" where
  "request cl fetch resource rawPagination retries = request_loop cl fetch resource rawPagination 0 retries"

section \<open>Endpoints\<close>

text \<open>The path, the parameters in order, the name of the resource and whether the pagination is kept, as each method passes them on.\<close>

record call_spec =
  cs_path :: string
  cs_params :: "(string \<times> native) list"
  cs_resource :: string
  cs_raw :: bool

definition getAgents :: "(string \<times> native) list \<Rightarrow> call_spec" where
  "getAgents ps = \<lparr>cs_path = ''/api/v1/agents'', cs_params = ps, cs_resource = ''Agent list'', cs_raw = False\<rparr>"

definition getAgent :: "int \<Rightarrow> call_spec" where
  "getAgent i = \<lparr>cs_path = ''/api/v1/agents/'' @ show_int i, cs_params = [], cs_resource = ''Agent '' @ show_int i, cs_raw = False\<rparr>"

definition getFeedback :: "int \<Rightarrow> (string \<times> native) list \<Rightarrow> call_spec" where
  "getFeedback i ps = \<lparr>cs_path = ''/api/v1/agents/'' @ show_int i @ ''/feedback'', cs_params = ps,
     cs_resource = ''Feedback for agent '' @ show_int i, cs_raw = False\<rparr>"

definition getAgentsByAddress :: "string \<Rightarrow> call_spec" where
  "getAgentsByAddress address = \<lparr>cs_path = ''/api/v1/accounts/'' @ encodeURIComponent address @ ''/agents'', cs_params = [],
     cs_resource = ''Agents for '' @ address, cs_raw = False\<rparr>"

definition search :: "string \<Rightarrow> (string \<times> native) list \<Rightarrow> call_spec" where
  "search q ps = \<lparr>cs_path = ''/api/v1/search'', cs_params = spread ps [(''q'', NStr q)],
     cs_resource = ''Search results for '' @ in_quotes q, cs_raw = False\<rparr>"

definition discover :: "(string \<times> native) list \<Rightarrow> call_spec" where
  "discover ps = \<lparr>cs_path = ''/api/v2/discovery'', cs_params = ps, cs_resource = ''Discovery'', cs_raw = True\<rparr>"

definition getStats :: call_spec where
  "getStats = \<lparr>cs_path = ''/api/v1/stats'', cs_params = [], cs_resource = ''Stats'', cs_raw = False\<rparr>"

definition health :: call_spec where
  "health = \<lparr>cs_path = ''/api/v1/health'', cs_params = [], cs_resource = ''Health'', cs_raw = False\<rparr>"

text \<open>The query of a request: parameters that are not undefined, a repeated name set again.\<close>

definition query_params :: "(rat \<Rightarrow> string) \<Rightarrow> call_spec \<Rightarrow> params" where
  "query_params fmt c = fold (\<lambda>(k, v) acc. if v = NUndef then acc else AList.update k (js_String fmt v) acc) (cs_params c) []"

section \<open>Lemmas\<close>

subsection \<open>Normal values\<close>

lemma camel_plain: "CHR ''_'' \<notin> set s \<Longrightarrow> toCamelCase s = s"
  by (induction s rule: toCamelCase.induct) auto

lemma spread_distinct: "distinct (map fst (fs @ extra)) \<Longrightarrow> spread fs extra = fs @ extra"
proof (induction extra arbitrary: fs)
  case (Cons x extra)
  obtain k v where x: "x = (k, v)" by (cases x)
  have "k \<notin> fst ` set fs \<Longrightarrow> AList.update k v fs = fs @ [(k, v)]" for fs :: "(string \<times> native) list"
    by (induction fs) auto
  then have "AList.update k v fs = fs @ [(k, v)]" using Cons.prems by (auto simp: x)
  moreover have "spread (fs @ [(k, v)]) extra = (fs @ [(k, v)]) @ extra" using Cons.prems by (intro Cons.IH) (simp add: x)
  ultimately show ?case by (simp add: spread_def x)
qed (simp add: spread_def)

text \<open>An object with plain distinct names and normal values, without the fields the client treats on their own.\<close>

definition plain_fields :: "(string \<times> native) list \<Rightarrow> bool" where
  "plain_fields fs \<longleftrightarrow> distinct (map fst fs) \<and> (\<forall>(k, v) \<in> set fs. CHR ''_'' \<notin> set k \<and> normalizeRecord v = v) \<and>
     \<not> has_field fs ''agentUriData'' \<and> \<not> has_field fs ''services'' \<and>
     (case map_of fs ''supportedTrust'' of None \<Rightarrow> True | Some (NArr _) \<Rightarrow> True | _ \<Rightarrow> False)"

lemma normalize_plain:
  assumes "plain_fields fs"
  shows "normalizeRecord (NObj fs) = NObj fs"
proof -
  have "map (\<lambda>(k, v). (toCamelCase k, if toCamelCase k = ''metadata'' then v else normalizeRecord v)) fs = fs"
    using assms by (intro map_idI) (auto simp: plain_fields_def camel_plain)
  moreover have "spread [] fs = fs" using assms spread_distinct [of "[]" fs] by (simp add: plain_fields_def)
  moreover have "lift_field k fs = fs" "fix_services fs = fs" for k
    using assms by (simp_all add: lift_field_def fix_services_def plain_fields_def has_field_def)
  moreover have "fix_trust fs = fs"
  proof (cases "map_of fs ''supportedTrust''")
    case (Some v)
    with assms show ?thesis by (cases v) (simp_all add: fix_trust_def plain_fields_def)
  qed (simp add: fix_trust_def)
  ultimately show ?thesis by simp
qed

subsection \<open>The loop\<close>

lemma attempt_last: "attempt_once cl fetch resource raw attempt True \<noteq> Sleep ms"
  by (auto simp: attempt_once_def read_reply_def Let_def split: sum.splits attempt_end.splits)

lemma attempt_sleep:
  assumes "attempt_once cl fetch resource raw attempt lst = Sleep ms"
  shows "case fetch attempt of Inl e \<Rightarrow> isRetriableNetworkError e | Inr r \<Rightarrow> reply_ok r \<or> ar_status r = 429 \<or> 500 \<le> ar_status r"
proof (cases "fetch attempt")
  case (Inl e)
  with assms show ?thesis by (auto simp: attempt_once_def split: if_splits)
next
  case (Inr r)
  show ?thesis
  proof (rule ccontr)
    assume "\<not> ?thesis"
    with Inr have r: "\<not> reply_ok r" "ar_status r \<noteq> 429" "\<not> 500 \<le> ar_status r" by auto
    then have "\<exists>e. read_reply cl resource raw attempt lst r = Finished (Inl e) \<and> \<not> isRetriableNetworkError e"
      by (simp add: read_reply_def Let_def isRetriableNetworkError_def)
    with assms Inr show False by (auto simp: attempt_once_def)
  qed
qed

lemma request_loop_spec:
  "\<exists>k r sleeps. request_loop cl fetch resource raw i n = (r, Suc k, sleeps) \<and> k \<le> n \<and> length sleeps = k \<and>
     attempt_once cl fetch resource raw (i + k) (k = n) = Finished r \<and>
     (\<forall>j < k. attempt_once cl fetch resource raw (i + j) False = Sleep (sleeps ! j))"
proof (induction n arbitrary: i)
  case 0
  obtain r where "attempt_once cl fetch resource raw i True = Finished r"
    using attempt_last by (cases "attempt_once cl fetch resource raw i True") auto
  then show ?case by simp
next
  case (Suc n)
  show ?case
  proof (cases "attempt_once cl fetch resource raw i False")
    case (Finished r)
    then show ?thesis by (intro exI [of _ 0] exI [of _ r] exI [of _ "[]"]) simp
  next
    case (Sleep ms)
    from Suc.IH [of "Suc i"] obtain k r sleeps where k: "request_loop cl fetch resource raw (Suc i) n = (r, Suc k, sleeps)" "k \<le> n"
      "length sleeps = k" "attempt_once cl fetch resource raw (Suc i + k) (k = n) = Finished r"
      "\<forall>j < k. attempt_once cl fetch resource raw (Suc i + j) False = Sleep (sleeps ! j)" by blast
    have "\<forall>j < Suc k. attempt_once cl fetch resource raw (i + j) False = Sleep ((ms # sleeps) ! j)"
      using k(5) Sleep by (auto simp: less_Suc_eq_0_disj)
    with k Sleep show ?thesis by (intro exI [of _ "Suc k"] exI [of _ r] exI [of _ "ms # sleeps"]) simp
  qed
qed

subsection \<open>Responses of the discovery API\<close>

definition reply_of :: "http_response \<Rightarrow> api_reply" where
  "reply_of r = \<lparr>ar_status = hr_status r, ar_headers = (\<lambda>k. if k = ''content-type'' then Some ''application/json'' else None),
     ar_json = hr_body r, ar_text = None\<rparr>"

lemma normalize_texts: "\<forall>v \<in> set vs. text_field v \<Longrightarrow> normalizeRecord (NArr vs) = NArr vs"
proof -
  have "text_field v \<Longrightarrow> normalizeRecord v = v" for v by (cases v) (simp_all add: text_field_def)
  then show "\<forall>v \<in> set vs. text_field v \<Longrightarrow> normalizeRecord (NArr vs) = NArr vs" by (simp add: map_idI)
qed

lemma sanitized_normal: "normalizeRecord (text_or_null v) = text_or_null v"
  by (cases v) (simp_all add: text_or_null_def)

lemma agent_plain:
  assumes "\<forall>v \<in> set (a_trust r). text_field v"
  shows "normalizeRecord (disc_item ap d (i, r)) = disc_item ap d (i, r)"
proof -
  let ?fs = "spread (formatAgent i r (Some (leaderboard_scores (ap_avg ap) d i))) [(''score'', nrat (disc_score ap d i))]"
  have fs: "?fs = formatAgent i r (Some (leaderboard_scores (ap_avg ap) d i)) @ [(''score'', nrat (disc_score ap d i))]"
    by (rule spread_distinct) (simp add: formatAgent_def score_fields_def)
  have "plain_fields ?fs"
    unfolding fs plain_fields_def
    using normalize_texts [OF assms]
    by (simp add: formatAgent_def score_fields_def sanitized_normal has_field_def del: normalizeRecord.simps(1))
  then show ?thesis using normalize_plain by (simp add: disc_item_def)
qed

lemma disc_items_plain:
  assumes "\<forall>x \<in> set rows. \<forall>v \<in> set (a_trust (snd x)). text_field v"
  shows "normalizeRecord (NArr (map (disc_item ap d) rows)) = NArr (map (disc_item ap d) rows)"
proof -
  have "normalizeRecord (disc_item ap d x) = disc_item ap d x" if "x \<in> set rows" for x
    using assms that agent_plain [of "snd x" ap d "fst x"] by simp
  then show ?thesis by simp
qed

lemma plain_object: "plain_fields fs \<Longrightarrow> NObj fs = v \<Longrightarrow> normalizeRecord v = v"
  using normalize_plain by blast

text \<open>The meta data of a discovery page is returned as sent.\<close>

lemma meta_plain:
  assumes "normalizeRecord cursor = cursor"
  shows "normalizeRecord (meta cx (disc_extra ap d plan hasMore cursor)) = meta cx (disc_extra ap d plan hasMore cursor)"
proof -
  have "normalizeRecord (indexed_at cs) = indexed_at cs" for cs by (simp add: indexed_at_def split: list.split)
  moreover have "normalizeRecord (NObj [(''limit'', NNum l), (''hasMore'', NBool b), (''nextCursor'', c)]) =
      NObj [(''limit'', NNum l), (''hasMore'', NBool b), (''nextCursor'', c)]" if "normalizeRecord c = c" for l b c
    by (rule normalize_plain) (simp add: plain_fields_def has_field_def that)
  moreover have "normalizeRecord (NObj [(''scope'', NStr s), (''queryComplete'', NBool a), (''snapshot'', NBool b)]) =
      NObj [(''scope'', NStr s), (''queryComplete'', NBool a), (''snapshot'', NBool b)]" for s a b
    by (rule normalize_plain) (simp add: plain_fields_def has_field_def)
  ultimately show ?thesis
    unfolding meta_def
    using assms by (intro normalize_plain) (simp add: disc_extra_def spread_def plain_fields_def has_field_def del: normalizeRecord.simps(1,2))
qed

lemma read_page:
  assumes "\<forall>x \<in> set rows. \<forall>v \<in> set (a_trust (snd x)). text_field v"
    and cursor: "normalizeRecord cursor = cursor"
  shows "\<exists>v. read_success cl True (reply_of (disc_response cx ap d plan rows hasMore cursor)) = Inr v \<and>
     getProp v ''data'' = NArr (map (disc_item ap d) rows) \<and> getProp v ''meta'' = meta cx (disc_extra ap d plan hasMore cursor)"
proof -
  let ?r = "disc_response cx ap d plan rows hasMore cursor" and ?extra = "disc_extra ap d plan hasMore cursor"
  let ?body = "NObj [(''success'', NBool True), (''data'', NArr (map (disc_item ap d) rows)), (''meta'', meta cx ?extra)]"
  have body: "ar_json (reply_of ?r) = Some ?body" by (simp add: reply_of_def disc_response_def successWithCache_def)
  have get: "getProp ?body ''data'' = NArr (map (disc_item ap d) rows)" "getProp ?body ''meta'' = meta cx ?extra"
    "getProp ?body ''success'' = NBool True" "\<not> is_nullish ?body"
    by (simp_all add: getProp_def is_nullish_def)
  have "read_success cl True (reply_of ?r) = Inr (NObj (spread (own_fields ?body)
      [(''data'', NArr (map (disc_item ap d) rows)), (''meta'', meta cx ?extra)]))"
    using get by (simp only: read_success_def body option.case get Let_def meta_plain [OF cursor] disc_items_plain [OF assms(1)] if_True native.inject
        bool.simps if_False)
  then show ?thesis by (simp add: spread_def getProp_def)
qed

lemma next_cursor_meta:
  "next_cursor (disc_response cx ap d plan rows hasMore cursor) =
     (case getProp (getProp (meta cx (disc_extra ap d plan hasMore cursor)) ''pagination'') ''nextCursor'' of NStr c \<Rightarrow> Some c | _ \<Rightarrow> None)"
  by (simp add: next_cursor_def disc_response_def successWithCache_def getProp_def [of "NObj (a # b)" for a b])

lemma page_rows: "disc_page ap d plan key = (rows, hasMore) \<Longrightarrow> set rows \<subseteq> set (agents d)"
  by (auto simp: disc_page_def Let_def order_rows_set dest!: in_set_takeD)

lemma first_finished: "attempt_once cl fetch resource raw 0 (n = 0) = Finished r \<Longrightarrow> request cl fetch resource raw n = (r, 1, [])"
  by (cases n) (auto simp: request_def)

section \<open>Properties\<close>

text \<open>A request ends after at most \<open>retries\<close> + 1 attempts: its result is that of the first attempt that is not worth retrying or of the
  last one, it sleeps once after each earlier attempt, and an attempt is retried only after a network error, a 429, a server error or an
  unreadable success; a request the server rejects is never repeated.\<close>

theorem request_bounded:
  "\<exists>k r sleeps. request cl fetch resource raw retries = (r, Suc k, sleeps) \<and> k \<le> retries \<and> length sleeps = k \<and>
     attempt_once cl fetch resource raw k (k = retries) = Finished r \<and>
     (\<forall>j < k. attempt_once cl fetch resource raw j False = Sleep (sleeps ! j) \<and>
        (case fetch j of Inl e \<Rightarrow> isRetriableNetworkError e | Inr reply \<Rightarrow> reply_ok reply \<or> ar_status reply = 429 \<or> 500 \<le> ar_status reply))"
proof -
  from request_loop_spec [of cl fetch resource raw 0 retries] obtain k r sleeps where
    "request_loop cl fetch resource raw 0 retries = (r, Suc k, sleeps)" "k \<le> retries" "length sleeps = k"
    "attempt_once cl fetch resource raw k (k = retries) = Finished r" "\<forall>j < k. attempt_once cl fetch resource raw j False = Sleep (sleeps ! j)"
    by auto
  with attempt_sleep show ?thesis unfolding request_def by blast
qed

definition sample_client :: client where
  "sample_client = \<lparr>cl_number = (\<lambda>_. JNaN), cl_mul = (\<lambda>_ _. JNaN), cl_date = (\<lambda>_. None), cl_now = (\<lambda>_. 0), cl_jitter = (\<lambda>_. 7)\<rparr>"

theorem request_bounded_witness:
  "request sample_client (\<lambda>_. Inl (Network_Error True)) ''Stats'' False 2 = (Inl (Network_Error True), 3, [1007, 2007]) \<and>
   (\<exists>k r sleeps. request sample_client (\<lambda>_. Inl (Network_Error True)) ''Stats'' False 2 = (r, Suc k, sleeps) \<and> k \<le> 2 \<and> length sleeps = k)"
proof -
  have "request sample_client (\<lambda>_. Inl (Network_Error True)) ''Stats'' False 2 = (Inl (Network_Error True), 3, [1007, 2007])"
    by (simp add: request_def attempt_once_def isRetriableNetworkError_def backoff_def sample_client_def eval_nat_numeral)
  with request_bounded [of sample_client "\<lambda>_. Inl (Network_Error True)" "''Stats''" False 2] show ?thesis by blast
qed

text \<open>C31. The client returns what the discovery API serves: on a served page the first attempt returns exactly its agents and its
  cursor, and a rejected request ends the call at once with a validation error that carries the server's message. Trust models
  are texts, as the indexer stores them.\<close>

theorem client_discovers:
  assumes "\<forall>x \<in> set (agents d). \<forall>v \<in> set (a_trust (snd x)). text_field v"
    and "fetch 0 = Inr (reply_of (discovery_reply cx ap dj ps d))"
  shows "(hr_status (discovery_reply cx ap dj ps d) = 200 \<longrightarrow>
      (\<exists>v. request cl fetch ''Discovery'' True retries = (Inr v, 1, []) \<and>
        getProp v ''data'' = NArr (response_data (discovery_reply cx ap dj ps d)) \<and>
        (case getProp (getProp (getProp v ''meta'') ''pagination'') ''nextCursor'' of NStr c \<Rightarrow> Some c | _ \<Rightarrow> None) =
          next_cursor (discovery_reply cx ap dj ps d))) \<and>
    (hr_status (discovery_reply cx ap dj ps d) = 400 \<longrightarrow>
      (\<exists>m body. request cl fetch ''Discovery'' True retries = (Inl (Validation_Error m body), 1, []) \<and>
        hr_body (discovery_reply cx ap dj ps d) = Some body \<and> getProp (getProp body ''error'') ''message'' = NStr m))"
proof -
  have rejected: "\<exists>m body. request cl fetch ''Discovery'' True retries = (Inl (Validation_Error m body), 1, []) \<and>
      hr_body (discovery_reply cx ap dj ps d) = Some body \<and> getProp (getProp body ''error'') ''message'' = NStr m"
    if "discovery_reply cx ap dj ps d = errorResponse cx code m 400" for code m
  proof -
    have "has_substring ''application/json'' ''application/json''" by simp
    then have "attempt_once cl fetch ''Discovery'' True 0 lst = Finished (Inl (Validation_Error m (the (hr_body (errorResponse cx code m 400)))))" for lst
      using assms(2)
      by (simp add: that attempt_once_def read_reply_def reply_ok_def reply_of_def readResponseBody_def text_default_def errorResponse_def
          extractErrorMessage_def nonempty_text_def is_object_def getProp_def isRetriableNetworkError_def Let_def)
    from first_finished [OF this] show ?thesis by (simp add: that errorResponse_def getProp_def)
  qed
  show ?thesis
  proof (rule discovery_cases [of cx ap dj ps d])
    fix plan key rows hasMore cursor
    assume page: "disc_page ap d plan key = (rows, hasMore)" and cursor: "disc_cursor ap dj d (query_text dj ps) plan rows hasMore = Inr cursor"
      and "handleDiscovery cx ap dj ps d = Inr (disc_response cx ap d plan rows hasMore cursor)"
    then have reply: "discovery_reply cx ap dj ps d = disc_response cx ap d plan rows hasMore cursor" by (simp add: discovery_reply_def)
    from cursor have "normalizeRecord cursor = cursor" by (auto simp: disc_cursor_def sbind_eq_Inr split: if_splits)
    moreover have "\<forall>x \<in> set rows. \<forall>v \<in> set (a_trust (snd x)). text_field v" using assms(1) page page_rows by blast
    ultimately obtain v where v:
      "read_success cl True (reply_of (discovery_reply cx ap dj ps d)) = Inr v" "getProp v ''data'' = NArr (map (disc_item ap d) rows)"
      "getProp v ''meta'' = meta cx (disc_extra ap d plan hasMore cursor)"
      using read_page [of rows cursor cl cx ap d plan hasMore] by (auto simp: reply)
    have "attempt_once cl fetch ''Discovery'' True 0 lst = Finished (Inr v)" for lst
      using assms(2) v(1) by (simp add: attempt_once_def read_reply_def reply_ok_def) (simp add: reply disc_ok reply_of_def)
    from first_finished [OF this] v(2,3) show ?thesis by (simp add: reply disc_ok walk_fields(1) next_cursor_meta)
  qed (use rejected in \<open>simp_all add: bad_def discovery_reply_def\<close>)
qed

theorem client_discovers_witness:
  "(\<exists>v. request sample_client (\<lambda>_. Inr (reply_of (discovery_reply sample_context sample_api sample_disc sample_params sample_registry)))
      ''Discovery'' True 3 = (Inr v, 1, [])) \<and>
   (\<exists>m body. request sample_client (\<lambda>_. Inr (reply_of (discovery_reply sample_context sample_api sample_disc [] sample_registry)))
      ''Discovery'' True 3 = (Inl (Validation_Error m body), 1, []))"
proof -
  have "\<not> disc_stale sample_api sample_registry"
    by (simp add: disc_stale_def indexerStatus_def status_names_def check_contract_def sample_registry_def sample_state_def sample_api_def
        STALE_AFTER_MS_def)
  moreover have "param sample_params ''cursor'' = None" by (simp add: param_def sample_params_def)
  moreover have "latin1 (dj_stringify sample_disc (cursor_object query (key_of sample_api sample_registry By_Id x)))" for query x
    by (cases x) (simp add: sample_disc_def cursor_object_def getProp_def latin1_def list_all_iff)
  ultimately have served: "hr_status (discovery_reply sample_context sample_api sample_disc sample_params sample_registry) = 200"
    by (simp add: discovery_reply_def handleDiscovery_def sample_plan decode_key_def disc_ok disc_cursor_def encodeCursor_def btoa_units_def
        split: prod.split) (simp add: sample_plan_def)
  have "check_network sample_context [] = Inl (bad sample_context (''Parameter '' @ dq ''network'' @ '' is required''))"
    by (simp add: check_network_def param_or_def)
  then have rejected: "hr_status (discovery_reply sample_context sample_api sample_disc [] sample_registry) = 400"
    by (simp add: discovery_reply_def handleDiscovery_def plan_request_def unique_in_order_def bad_def)
  have texts: "\<forall>x \<in> set (agents sample_registry). \<forall>v \<in> set (a_trust (snd x)). text_field v"
    by (simp add: sample_registry_def new_agent_def)
  from client_discovers [OF texts, of "\<lambda>_. Inr (reply_of (discovery_reply sample_context sample_api sample_disc sample_params sample_registry))", OF refl] served
    client_discovers [OF texts, of "\<lambda>_. Inr (reply_of (discovery_reply sample_context sample_api sample_disc [] sample_registry))", OF refl] rejected
  show ?thesis by blast
qed

end
