(* ===== verification/Js_Numbers.thy ===== *)
theory Js_Numbers
  imports Js_Runtime Api_Response
begin

text \<open>
  The number functions of the JavaScript runtime that the web application's pages and payment clients use: the nearest double of a
  rational, division, \<open>Number\<close> and \<open>BigInt\<close> of a text, and \<open>toFixed\<close>.

  The literals and the rounding are those of the language definition: \<open>StringToNumber\<close> with decimal, hexadecimal, octal and binary
  integers, \<open>StringToBigInt\<close>, and \<open>toFixed\<close> with the larger of two nearest numerals.
\<close>

section \<open>Doubles\<close>

definition pow2 :: "int \<Rightarrow> rat" where
  "pow2 e = (if 0 \<le> e then 2 ^ nat e else 1 / 2 ^ nat (- e))"

text \<open>The exponent of the leading bit of a positive rational.\<close>

definition leading_bit :: "rat \<Rightarrow> int" where
  "leading_bit r =
     (let (a, b) = quotient_of r; e = bitlen a - bitlen b
      in if pow2 e \<le> r then e else e - 1)"

definition half_even :: "rat \<Rightarrow> int" where
  "half_even x = (let q = \<lfloor>x\<rfloor>; d = x - of_int q in if 1 / 2 < d \<or> (d = 1 / 2 \<and> odd q) then q + 1 else q)"

text \<open>The nearest double, ties to even: 53 significant bits, down to the subnormal spacing \<open>2^-1074\<close>, and an infinity from
  \<open>2^1024\<close> on.\<close>

definition double :: "rat \<Rightarrow> jsnum" where
  "double r =
     (if r = 0 then JFin 0
      else let u = pow2 (max (leading_bit \<bar>r\<bar>) (- 1022) - 52); m = of_int (half_even (\<bar>r\<bar> / u)) * u
           in if 2 ^ 1024 \<le> m then JInf (0 < r) else JFin (if r < 0 then - m else m))"

text \<open>\<open>x / c\<close> for a positive finite \<open>c\<close>.\<close>

fun div_by :: "jsnum \<Rightarrow> rat \<Rightarrow> jsnum" where
  "div_by (JFin r) c = double (r / c)"
| "div_by x c = x"

fun num_add :: "jsnum \<Rightarrow> jsnum \<Rightarrow> jsnum" where
  "num_add (JFin a) (JFin b) = double (a + b)"
| "num_add (JFin a) (JInf b) = JInf b"
| "num_add (JInf a) (JFin b) = JInf a"
| "num_add (JInf a) (JInf b) = (if a = b then JInf a else JNaN)"
| "num_add _ _ = JNaN"

fun num_less :: "jsnum \<Rightarrow> jsnum \<Rightarrow> bool" where
  "num_less (JFin a) (JFin b) = (a < b)"
| "num_less (JFin a) (JInf b) = b"
| "num_less (JInf a) (JFin b) = (\<not> a)"
| "num_less (JInf a) (JInf b) = (\<not> a \<and> b)"
| "num_less _ _ = False"

fun num_floor :: "jsnum \<Rightarrow> jsnum" where
  "num_floor (JFin r) = JFin (of_int \<lfloor>r\<rfloor>)"
| "num_floor x = x"

fun isFinite :: "jsnum \<Rightarrow> bool" where
  "isFinite (JFin _) = True"
| "isFinite _ = False"

section \<open>Numbers in text\<close>

definition trim :: "string \<Rightarrow> string" where
  "trim s = rev (dropWhile is_space (rev (dropWhile is_space s)))"

definition hex_value :: "char \<Rightarrow> nat" where
  "hex_value c = (if is_digit c then code_of c - 48 else if 97 \<le> code_of c then code_of c - 87 else code_of c - 55)"

definition is_radix_digit :: "nat \<Rightarrow> char \<Rightarrow> bool" where
  "is_radix_digit b c \<longleftrightarrow> is_hex_char c \<and> hex_value c < b"

text \<open>\<open>0x\<close>, \<open>0o\<close> and \<open>0b\<close> integers.\<close>

definition radix_of :: "string \<Rightarrow> nat option" where
  "radix_of s = (let p = toLowerCase (take 2 s)
     in if p = ''0x'' then Some 16 else if p = ''0o'' then Some 8 else if p = ''0b'' then Some 2 else None)"

definition radix_integer :: "string \<Rightarrow> nat option" where
  "radix_integer s = (case radix_of s of
      None \<Rightarrow> None
    | Some b \<Rightarrow> (let ds = drop 2 s in if ds \<noteq> [] \<and> list_all (is_radix_digit b) ds then Some (val_of b (map hex_value ds)) else None))"

definition drop_sign :: "string \<Rightarrow> string" where
  "drop_sign s = (if s \<noteq> [] \<and> (hd s = CHR ''-'' \<or> hd s = CHR ''+'') then tl s else s)"

definition is_negative :: "string \<Rightarrow> bool" where
  "is_negative s \<longleftrightarrow> s \<noteq> [] \<and> hd s = CHR ''-''"

definition with_sign :: "string \<Rightarrow> int \<Rightarrow> int" where
  "with_sign s i = (if is_negative s then - i else i)"

text \<open>\<open>BigInt(text)\<close>; \<open>None\<close> is the \<open>SyntaxError\<close>.\<close>

definition bigint_of_text :: "string \<Rightarrow> int option" where
  "bigint_of_text text =
     (let s = trim text; u = drop_sign s
      in if s = [] then Some 0
         else if u \<noteq> [] \<and> list_all is_digit u then Some (with_sign s (int (read_nat u)))
         else map_option int (radix_integer s))"

text \<open>The exponent part of a decimal literal: \<open>None\<close> when malformed.\<close>

definition exponent_of :: "string \<Rightarrow> int option" where
  "exponent_of s =
     (if s = [] then Some 0
      else if hd s \<noteq> CHR ''e'' \<and> hd s \<noteq> CHR ''E'' then None
      else (let t = tl s; u = drop_sign t
            in if u \<noteq> [] \<and> list_all is_digit u then Some (with_sign t (int (read_nat u))) else None))"

definition decimal_of :: "string \<Rightarrow> rat option" where
  "decimal_of s =
     (let i = takeWhile is_digit s; r = dropWhile is_digit s;
          dotted = (r \<noteq> [] \<and> hd r = CHR ''.'');
          f = (if dotted then takeWhile is_digit (tl r) else []);
          e = (if dotted then dropWhile is_digit (tl r) else r)
      in if i = [] \<and> f = [] then None
         else map_option (\<lambda>x. of_nat (read_nat (i @ f)) * (if 0 \<le> x - int (length f) then 10 ^ nat (x - int (length f))
           else 1 / 10 ^ nat (int (length f) - x))) (exponent_of e))"

text \<open>\<open>Number(text)\<close>.\<close>

definition number_of_text :: "string \<Rightarrow> jsnum" where
  "number_of_text text =
     (let s = trim text; u = drop_sign s
      in if s = [] then JFin 0
         else if u = ''Infinity'' then JInf (\<not> is_negative s)
         else (case radix_integer s of
             Some n \<Rightarrow> double (of_nat n)
           | None \<Rightarrow> (case decimal_of u of
               Some r \<Rightarrow> double (if is_negative s then - r else r)
             | None \<Rightarrow> JNaN)))"

section \<open>Text of numbers\<close>

definition pad_left :: "nat \<Rightarrow> string \<Rightarrow> string" where
  "pad_left n s = replicate (n - length s) (CHR ''0'') @ s"

text \<open>\<open>x.toFixed(f)\<close> for \<open>f > 0\<close>; from \<open>10^21\<close> on it is \<open>String(x)\<close>.\<close>

definition toFixed :: "(rat \<Rightarrow> string) \<Rightarrow> nat \<Rightarrow> jsnum \<Rightarrow> string" where
  "toFixed fmt f x = (case x of
      JFin r \<Rightarrow>
        if 10 ^ 21 \<le> \<bar>r\<bar> then js_String fmt (NNum x)
        else (let n = nat \<lfloor>\<bar>r\<bar> * 10 ^ f + 1 / 2\<rfloor>; ds = pad_left (f + 1) (show_nat n)
              in (if r < 0 then ''-'' else []) @ take (length ds - f) ds @ ''.'' @ drop (length ds - f) ds)
    | _ \<Rightarrow> js_String fmt (NNum x))"

section \<open>Lemmas\<close>

lemma list_all_digits_show: "list_all is_digit (show_nat n)"
  by (simp add: list_all_iff show_nat_digits)

lemma digit_not_space: "is_digit c \<Longrightarrow> \<not> is_space c"
  by (auto simp: is_digit_def is_space_def)

lemma digit_not_sign: "is_digit c \<Longrightarrow> c \<noteq> CHR ''-'' \<and> c \<noteq> CHR ''+''"
  by (auto simp: is_digit_def code_of_def)

lemma dropWhile_all_not: "list_all (\<lambda>c. \<not> P c) s \<Longrightarrow> dropWhile P s = s"
  by (cases s) auto

lemma trim_plain: "list_all (\<lambda>c. \<not> is_space c) s \<Longrightarrow> trim s = s"
  by (simp add: trim_def dropWhile_all_not)

lemma show_int_plain: "list_all (\<lambda>c. \<not> is_space c) (show_int i)"
  using show_nat_digits digit_not_space by (auto simp: show_int_def list_all_iff is_space_def code_of_def)

lemma drop_sign_digits: "list_all is_digit u \<Longrightarrow> drop_sign u = u"
  by (cases u) (auto simp: drop_sign_def dest: digit_not_sign)

lemma not_negative_digits: "list_all is_digit u \<Longrightarrow> \<not> is_negative u"
  by (cases u) (auto simp: is_negative_def dest: digit_not_sign)

text \<open>\<open>BigInt\<close> reads back what printing an integer gives.\<close>

lemma bigint_of_show: "bigint_of_text (show_int i) = Some i"
proof (cases "i < 0")
  case True
  then have "show_int i = CHR ''-'' # show_nat (nat (- i))" by (simp add: show_int_def)
  with True trim_plain [OF show_int_plain [of i]] show ?thesis
    by (simp add: bigint_of_text_def drop_sign_def with_sign_def is_negative_def list_all_digits_show read_show_nat)
next
  case False
  then have "show_int i = show_nat (nat i)" by (simp add: show_int_def)
  with False trim_plain [OF show_int_plain [of i]] show ?thesis
    by (simp add: bigint_of_text_def drop_sign_digits with_sign_def not_negative_digits list_all_digits_show read_show_nat)
qed

text \<open>Integers below \<open>2^53\<close> are doubles.\<close>

lemma pow2_down: "e \<le> 0 \<Longrightarrow> pow2 e = 1 / 2 ^ nat (- e)"
  by (cases "e = 0") (simp_all add: pow2_def)

lemma half_even_int [simp]: "half_even (of_int i) = i"
  by (simp add: half_even_def)

lemma leading_bit_int: "0 < i \<Longrightarrow> i < 2 ^ 53 \<Longrightarrow> leading_bit (of_int i) \<le> 52"
proof -
  assume i: "0 < i" "i < 2 ^ 53"
  have "bitlen i \<le> 53" using i by (simp add: bitlen_le_iff_power)
  moreover have "bitlen 1 = 1" by (simp add: bitlen_def floorlog_def)
  ultimately show ?thesis by (simp add: leading_bit_def Let_def)
qed

lemma double_int: "\<bar>i\<bar> < 2 ^ 53 \<Longrightarrow> double (of_int i) = JFin (of_int i)"
proof (cases "i = 0")
  case False
  assume small: "\<bar>i\<bar> < 2 ^ 53"
  define e where "e = max (leading_bit (of_int \<bar>i\<bar>)) (- 1022) - 52"
  have "leading_bit (of_int \<bar>i\<bar>) \<le> 52" by (rule leading_bit_int) (use False small in auto)
  then have u: "pow2 e = 1 / 2 ^ nat (- e)" by (intro pow2_down) (simp add: e_def)
  have "rat_of_int \<bar>i\<bar> / pow2 e = of_int (\<bar>i\<bar> * 2 ^ nat (- e))" by (simp add: u)
  then have m: "of_int (half_even (rat_of_int \<bar>i\<bar> / pow2 e)) * pow2 e = rat_of_int \<bar>i\<bar>" by (simp only: half_even_int) (simp add: u)
  have "\<bar>i\<bar> < 2 ^ 1024" using small by (rule less_trans) simp
  then have lt: "\<not> 2 ^ 1024 \<le> rat_of_int \<bar>i\<bar>" by (metis linorder_not_less of_int_less_iff of_int_numeral of_int_power)
  have "double (rat_of_int i) = (if 2 ^ 1024 \<le> rat_of_int \<bar>i\<bar> then JInf (0 < rat_of_int i)
      else JFin (if rat_of_int i < 0 then - rat_of_int \<bar>i\<bar> else rat_of_int \<bar>i\<bar>))"
    using False m unfolding double_def Let_def e_def of_int_abs [symmetric] by (simp only: of_int_eq_0_iff if_False)
  also have "\<dots> = JFin (of_int i)" unfolding if_not_P [OF lt] by auto
  finally show ?thesis .
qed (simp add: double_def)

lemma decimal_of_show: "decimal_of (show_nat n) = Some (of_nat n)"
proof -
  have "takeWhile is_digit (show_nat n) = show_nat n" "dropWhile is_digit (show_nat n) = []"
    using list_all_digits_show [of n] by (simp_all add: takeWhile_eq_all_conv dropWhile_eq_Nil_conv list_all_iff)
  note parts = this
  show ?thesis unfolding decimal_of_def parts by (simp add: Let_def exponent_of_def read_show_nat show_nat_not_Nil)
qed

lemma radix_of_digits: "list_all is_digit s \<Longrightarrow> radix_of s = None"
proof -
  assume s: "list_all is_digit s"
  have "lower_char c = c" if "c \<in> set s" for c using s that by (auto simp: list_all_iff is_digit_def lower_char_def)
  then have "toLowerCase (take 2 s) = take 2 s" by (auto simp: toLowerCase_def intro!: map_idI dest: in_set_takeD)
  moreover have "list_all is_digit (take 2 s)" using s by (auto simp: list_all_iff dest: in_set_takeD)
  ultimately show ?thesis by (auto simp: radix_of_def Let_def is_digit_def code_of_def)
qed

lemma number_of_show_nat: "n < 2 ^ 53 \<Longrightarrow> number_of_text (show_nat n) = JFin (of_nat n)"
proof -
  assume n: "n < 2 ^ 53"
  have digits: "list_all is_digit (show_nat n)" by (rule list_all_digits_show)
  have "show_nat n \<noteq> ''Infinity''" using digits by (auto simp: is_digit_def code_of_def)
  moreover have "trim (show_nat n) = show_nat n" using digits digit_not_space by (intro trim_plain) (auto simp: list_all_iff)
  ultimately have "number_of_text (show_nat n) = double (of_nat n)"
    using digits by (simp add: number_of_text_def radix_integer_def radix_of_digits drop_sign_digits not_negative_digits decimal_of_show show_nat_not_Nil)
  with double_int [of "int n"] n show ?thesis by simp
qed

end
