(* ===== verification/Web_Payments.thy ===== *)
theory Web_Payments
  imports Sdk_Signer Js_Numbers
begin

text \<open>
  The payment clients of the web application: \<open>webapp/apps/web/src/lib/sdk-client.ts\<close> (configuration, choice of an RPC, the shared
  Freighter signer), \<open>lib/mpp-client.ts\<close> (MPP charges) and \<open>lib/x402-client.ts\<close> (the signer given to the x402 client).

  A payment runs in a \<open>session\<close>: the state of the shared signer and the calls made to the RPC, the latest first. The Stellar SDK, the
  RPC and the \<open>mppx\<close> package are the fields of the parameter \<open>stellar\<close>; what they answer may depend on how many calls were made before.
  Transactions, operations and authorization entries are those parts of the SDK's values that the code reads or sets.
\<close>

section \<open>Configuration (sdk-client.ts)\<close>

type_synonym environment = "string \<Rightarrow> string option"

definition env_or :: "environment \<Rightarrow> string \<Rightarrow> string \<Rightarrow> string" where
  "env_or env k d = (case env k of None \<Rightarrow> d | Some v \<Rightarrow> if v = [] then d else v)"

definition network_name :: "environment \<Rightarrow> string" where
  "network_name env = (if env ''PUBLIC_STELLAR_NETWORK'' = Some ''mainnet'' then ''mainnet'' else ''testnet'')"

definition test_passphrase :: string where
  "test_passphrase = ''Test SDF Network ; September 2015''"

text \<open>\<open>Networks\<close> of the Stellar SDK.\<close>

fun passphrase_of :: "network \<Rightarrow> string" where
  "passphrase_of Testnet = test_passphrase"
| "passphrase_of Mainnet = public_passphrase"

definition baseConfig :: "environment \<Rightarrow> StellarConfig" where
  "baseConfig env = (case getConfig passphrase_of (Some (network_name env)) of Inr c \<Rightarrow> c | Inl e \<Rightarrow> TESTNET_CONFIG test_passphrase)"

fun split_on :: "char \<Rightarrow> string \<Rightarrow> string list" where
  "split_on c [] = [[]]"
| "split_on c (x # xs) = (if x = c then [] # split_on c xs else (case split_on c xs of [] \<Rightarrow> [[x]] | p # ps \<Rightarrow> (x # p) # ps))"

definition rpcUrls :: "environment \<Rightarrow> string list" where
  "rpcUrls env = filter (\<lambda>u. u \<noteq> []) (map trim (split_on (CHR '','') (env_or env ''PUBLIC_STELLAR_RPC_URL'' (sc_rpcUrl (baseConfig env)))))"

text \<open>\<open>rpcUrls[0]\<close> of an empty list is \<open>undefined\<close>, the empty text here.\<close>

definition stellarConfig :: "environment \<Rightarrow> StellarConfig" where
  "stellarConfig env = (let b = baseConfig env in
     b\<lparr>sc_rpcUrl := (case rpcUrls env of [] \<Rightarrow> [] | u # _ \<Rightarrow> u),
       sc_identity := env_or env ''PUBLIC_IDENTITY_REGISTRY'' (sc_identity b),
       sc_reputation := env_or env ''PUBLIC_REPUTATION_REGISTRY'' (sc_reputation b),
       sc_validation := env_or env ''PUBLIC_VALIDATION_REGISTRY'' (sc_validation b)\<rparr>)"

text \<open>\<open>selectHealthyRpc\<close>: \<open>answer\<close> is the JSON body a URL gives, \<open>Inl\<close> when it is unreachable, slow or not JSON.\<close>

definition reports_healthy :: "(string \<Rightarrow> string + native) \<Rightarrow> string \<Rightarrow> bool" where
  "reports_healthy answer url = (case answer url of Inl e \<Rightarrow> False | Inr body \<Rightarrow> getProp (getProp body ''result'') ''status'' = NStr ''healthy'')"

fun selectHealthyRpc :: "(string \<Rightarrow> string + native) \<Rightarrow> string list \<Rightarrow> StellarConfig \<Rightarrow> string \<times> StellarConfig" where
  "selectHealthyRpc answer [] cfg = (sc_rpcUrl cfg, cfg)"
| "selectHealthyRpc answer (url # urls) cfg =
     (if reports_healthy answer url then (url, cfg\<lparr>sc_rpcUrl := url\<rparr>) else selectHealthyRpc answer urls cfg)"

text \<open>\<open>getClients\<close>, with what \<open>createClients\<close> (\<open>sdk/src/core/clients.ts\<close>) passes to each contract client.\<close>

record client_options =
  co_passphrase :: string
  co_rpcUrl :: string
  co_publicKey :: "string option"
  co_contract :: string

definition createClients :: "StellarConfig \<Rightarrow> string option \<Rightarrow> registry \<Rightarrow> client_options" where
  "createClients config publicKey r = \<lparr>co_passphrase = sc_networkPassphrase config, co_rpcUrl = sc_rpcUrl config, co_publicKey = publicKey,
     co_contract = (case r of Identity_Registry \<Rightarrow> sc_identity config | Reputation_Registry \<Rightarrow> sc_reputation config | Validation_Registry \<Rightarrow> sc_validation config)\<rparr>"

definition getClients :: "StellarConfig \<Rightarrow> wallet \<Rightarrow> string + (registry \<Rightarrow> client_options)" where
  "getClients config w = (if sg_publicKey w = [] then Inl ''Wallet not connected. Call signer.connect() first.''
     else Inr (createClients config (Some (sg_publicKey w))))"

section \<open>Challenges and prices (mpp-client.ts)\<close>

definition ALL_ZEROS :: string where
  "ALL_ZEROS = ''GAAAAAAAAAAAAAAAAAAAAAAAAAAAAAAAAAAAAAAAAAAAAAAAAAAAAWHF''"

definition DEFAULT_LEDGER_CLOSE_TIME :: int where
  "DEFAULT_LEDGER_CLOSE_TIME = 5"

definition DEFAULT_TIMEOUT :: int where
  "DEFAULT_TIMEOUT = 180"

definition USDC_ALLOWLIST :: "string list" where
  "USDC_ALLOWLIST = [''CBIELTK6YBZJU5UP2WWQEUCYKLPU6AUNZ2BQ4WWFEIE3USCIHMXQDAMA'', ''CCW67TSZV3SSS2HXMBQ5JFGCKJNXKZM7UQUWUZPUTHXSTZLEO7SJMI75'']"

text \<open>The part of a challenge the code reads: \<open>request\<close> is an object, from JSON.\<close>

record challenge =
  ch_id :: string
  ch_request :: "(string \<times> native) list"
  ch_expires :: "string option"
  ch_description :: "string option"

record MppPricingInfo =
  mp_amount :: string
  mp_currency :: string
  mp_recipient :: string
  mp_network :: string
  mp_feePayer :: bool
  mp_description :: "string option"
  mp_displayPrice :: string

definition request_field :: "challenge \<Rightarrow> string \<Rightarrow> native" where
  "request_field c k = getProp (NObj (ch_request c)) k"

definition method_detail :: "challenge \<Rightarrow> string \<Rightarrow> native" where
  "method_detail c k = getProp (request_field c ''methodDetails'') k"

definition or_text :: "(rat \<Rightarrow> string) \<Rightarrow> native \<Rightarrow> string \<Rightarrow> string" where
  "or_text fmt v d = (if is_nullish v then d else js_String fmt v)"

definition challenge_network :: "(rat \<Rightarrow> string) \<Rightarrow> challenge \<Rightarrow> string" where
  "challenge_network fmt c = or_text fmt (method_detail c ''network'') ''stellar:testnet''"

definition server_sponsored :: "challenge \<Rightarrow> bool" where
  "server_sponsored c \<longleftrightarrow> method_detail c ''feePayer'' = NBool True"

definition display_price :: "(rat \<Rightarrow> string) \<Rightarrow> string \<Rightarrow> nat \<Rightarrow> string" where
  "display_price fmt amount decimals =
     (let x = div_by (number_of_text amount) (10 ^ decimals)
      in if x = JFin 0 then ''$0''
         else if num_less x (double (1 / 10000)) then ''< $0.0001''
         else if num_less x (double (1 / 100)) then ''$'' @ toFixed fmt 4 x
         else ''$'' @ toFixed fmt 2 x)"

definition extractMppPricing :: "(rat \<Rightarrow> string) \<Rightarrow> challenge \<Rightarrow> nat \<Rightarrow> MppPricingInfo" where
  "extractMppPricing fmt c decimals =
     (let amount = or_text fmt (request_field c ''amount'') ''0''
      in \<lparr>mp_amount = amount, mp_currency = or_text fmt (request_field c ''currency'') [],
          mp_recipient = or_text fmt (request_field c ''recipient'') [], mp_network = challenge_network fmt c,
          mp_feePayer = server_sponsored c, mp_description = ch_description c,
          mp_displayPrice = display_price fmt amount decimals\<rparr>)"

definition parseMppChallenge :: "('r \<Rightarrow> string + challenge) \<Rightarrow> 'r \<Rightarrow> challenge option" where
  "parseMppChallenge fromResponse response = (case fromResponse response of Inr c \<Rightarrow> Some c | Inl e \<Rightarrow> None)"

record receipt =
  rc_reference :: "string option"
  rc_status :: "string option"

definition parseMppReceipt :: "('r \<Rightarrow> string + receipt) \<Rightarrow> 'r \<Rightarrow> string option \<times> string" where
  "parseMppReceipt fromResponse response = (case fromResponse response of
      Inr r \<Rightarrow> (rc_reference r, text_default ''unknown'' (rc_status r))
    | Inl e \<Rightarrow> (None, ''unknown''))"

section \<open>Charges (mpp-client.ts)\<close>

datatype host_function = Invoke_Transfer (hf_contract: string) (hf_from: string) (hf_to: string) (hf_amount: int) | Other_Function string

record credentials =
  cr_type :: string
  cr_address :: string

text \<open>The root of the call tree that an authorization entry allows; a transfer of a listed token makes no further calls.\<close>

record auth_entry =
  ae_credentials :: credentials
  ae_invocation :: host_function

record operation =
  op_type :: string
  op_source :: "string option"
  op_func :: host_function
  op_auth :: "auth_entry list option"

datatype time_bounds = Until int | Timeout int

record transaction =
  tx_account :: "string \<times> string" \<comment> \<open>source account and sequence number\<close>
  tx_passphrase :: string
  tx_bounds :: time_bounds
  tx_operations :: "operation list"

datatype rpc_call = Get_Account string | Prepare transaction | Get_Health

record stellar =
  st_fmt :: "rat \<Rightarrow> string"
  st_server :: "string \<Rightarrow> string + unit" \<comment> \<open>\<open>new rpc.Server(url)\<close> throws or not\<close>
  st_contract :: "string \<Rightarrow> string + unit"
  st_address :: "string \<Rightarrow> string + unit"
  st_i128 :: "int \<Rightarrow> string + unit"
  st_date :: "string \<Rightarrow> int option" \<comment> \<open>\<open>new Date(text).getTime()\<close>, \<open>None\<close> for NaN\<close>
  st_now :: "nat \<Rightarrow> int" \<comment> \<open>\<open>Date.now()\<close> after that many RPC calls\<close>
  st_account :: "nat \<Rightarrow> string \<Rightarrow> string + string \<times> string"
  st_prepare :: "nat \<Rightarrow> transaction \<Rightarrow> string + transaction"
  st_health :: "nat \<Rightarrow> string + int"
  st_preimage :: "auth_entry \<Rightarrow> int \<Rightarrow> string \<Rightarrow> string + string"
  st_authorized :: "auth_entry \<Rightarrow> int \<Rightarrow> string \<Rightarrow> 8 word list \<Rightarrow> string \<Rightarrow> string + auth_entry"
  st_bytes :: "string \<Rightarrow> 8 word list" \<comment> \<open>\<open>Buffer.from(text, 'base64')\<close>\<close>
  st_xdr :: "transaction \<Rightarrow> string + string"
  st_serialize :: "challenge \<Rightarrow> string \<Rightarrow> string \<Rightarrow> string + string"

record session =
  ss_wallet :: wallet
  ss_rpc :: "rpc_call list"

definition with_signer :: "'a action \<Rightarrow> (session, 'a) act" where
  "with_signer m s = (case m (ss_wallet s) of (r, w) \<Rightarrow> (r, s\<lparr>ss_wallet := w\<rparr>))"

definition rpc :: "rpc_call \<Rightarrow> (nat \<Rightarrow> string + 'a) \<Rightarrow> (session, 'a) act" where
  "rpc c answer s = (answer (length (ss_rpc s)), s\<lparr>ss_rpc := c # ss_rpc s\<rparr>)"

definition now_secs :: "stellar \<Rightarrow> (session, int) act" where
  "now_secs st s = (Inr (st_now st (length (ss_rpc s)) div 1000), s)"

text \<open>What the checks at the start of \<open>createMppCredential\<close> make of a challenge. \<open>Math.floor(ms / 1000)\<close> is exact: the time of a date is
  below \<open>8.64 * 10^15\<close>, so that the quotient of the doubles does not round up to an integer.\<close>

record charge =
  cg_amount :: int
  cg_currency :: string
  cg_recipient :: string
  cg_network :: string
  cg_passphrase :: string
  cg_expires :: "int option"

definition is_mainnet :: "string \<Rightarrow> bool" where
  "is_mainnet network \<longleftrightarrow> network = ''stellar:pubnet'' \<or> network = ''stellar:mainnet''"

definition challenge_passphrase :: "string \<Rightarrow> string" where
  "challenge_passphrase network = (if is_mainnet network then public_passphrase else test_passphrase)"

definition check_network :: "StellarConfig \<Rightarrow> string \<Rightarrow> string + unit" where
  "check_network config network =
     (if network \<notin> set [''stellar:testnet'', ''stellar:pubnet'', ''stellar:mainnet''] then Inl (''Unsupported payment network: '' @ network)
      else if is_mainnet network \<and> sc_networkPassphrase config = test_passphrase
      then Inl ''Network mismatch: agent requires Mainnet but your wallet is on Testnet. Switch to Mainnet.''
      else if \<not> is_mainnet network \<and> sc_networkPassphrase config \<noteq> test_passphrase
      then Inl ''Network mismatch: agent requires Testnet but your wallet is on Mainnet. Switch to Testnet.''
      else Inr ())"

definition check_expiry :: "stellar \<Rightarrow> int \<Rightarrow> string option \<Rightarrow> string + int option" where
  "check_expiry st now expires =
     (if expires = None \<or> expires = Some [] then Inr None
      else (case st_date st (the expires) of
          None \<Rightarrow> Inl ''Payment challenge has an invalid or expired expiration time.''
        | Some ms \<Rightarrow> if ms div 1000 \<le> now then Inl ''Payment challenge has an invalid or expired expiration time.''
            else Inr (Some (ms div 1000))))"

definition check_charge :: "stellar \<Rightarrow> StellarConfig \<Rightarrow> challenge \<Rightarrow> int \<Rightarrow> string + charge" where
  "check_charge st config c now =
     (let amount = js_String (st_fmt st) (request_field c ''amount'');
          currency = js_String (st_fmt st) (request_field c ''currency'');
          recipient = js_String (st_fmt st) (request_field c ''recipient'');
          network = challenge_network (st_fmt st) c
      in if currency \<notin> set USDC_ALLOWLIST then Inl (''Unsupported payment token: '' @ currency @ ''. Only USDC is supported.'')
         else sbind (check_network config network) (\<lambda>_.
           sbind (st_server st (sc_rpcUrl config)) (\<lambda>_.
           sbind (st_contract st currency) (\<lambda>_.
           sbind (case bigint_of_text amount of Some i \<Rightarrow> Inr i | None \<Rightarrow> Inl (''Cannot convert '' @ amount @ '' to a BigInt'')) (\<lambda>stellarAmount.
           sbind (check_expiry st now (ch_expires c)) (\<lambda>expires.
           Inr \<lparr>cg_amount = stellarAmount, cg_currency = currency, cg_recipient = recipient, cg_network = network,
                cg_passphrase = challenge_passphrase network, cg_expires = expires\<rparr>))))))"

definition transfer_op :: "stellar \<Rightarrow> charge \<Rightarrow> string \<Rightarrow> string + operation" where
  "transfer_op st g walletAddress =
     sbind (st_address st walletAddress) (\<lambda>_.
     sbind (st_address st (cg_recipient g)) (\<lambda>_.
     sbind (st_i128 st (cg_amount g)) (\<lambda>_.
     Inr \<lparr>op_type = ''invokeHostFunction'', op_source = None,
          op_func = Invoke_Transfer (cg_currency g) walletAddress (cg_recipient g) (cg_amount g), op_auth = None\<rparr>)))"

definition charge_bounds :: "charge \<Rightarrow> time_bounds" where
  "charge_bounds g = (case cg_expires g of Some t \<Rightarrow> if t = 0 then Timeout DEFAULT_TIMEOUT else Until t | None \<Rightarrow> Timeout DEFAULT_TIMEOUT)"

definition charge_tx :: "charge \<Rightarrow> string \<times> string \<Rightarrow> operation \<Rightarrow> transaction" where
  "charge_tx g account op = \<lparr>tx_account = account, tx_passphrase = cg_passphrase g, tx_bounds = charge_bounds g, tx_operations = [op]\<rparr>"

text \<open>The expiration ledger of a sponsored charge; the quotient is exact for the same reason as above.\<close>

definition valid_until :: "charge \<Rightarrow> int \<Rightarrow> int \<Rightarrow> int" where
  "valid_until g latest now = (case cg_expires g of
      Some t \<Rightarrow> if t = 0 then latest + \<lceil>of_int DEFAULT_TIMEOUT / of_int DEFAULT_LEDGER_CLOSE_TIME :: rat\<rceil> + 10
        else latest + \<lceil>of_int (max (t - now) 0) / of_int DEFAULT_LEDGER_CLOSE_TIME :: rat\<rceil>
    | None \<Rightarrow> latest + \<lceil>of_int DEFAULT_TIMEOUT / of_int DEFAULT_LEDGER_CLOSE_TIME :: rat\<rceil> + 10)"

definition wallet_message :: "wallet_error \<Rightarrow> string" where
  "wallet_message e = message_or e ''[object Object]''"

definition credentials_of :: "auth_entry \<Rightarrow> string option" where
  "credentials_of e = (let cr = ae_credentials e
     in if cr_type cr = ''sorobanCredentialsAddress'' \<or> cr_type cr = ''sorobanCredentialsAddressV2'' then Some (cr_address cr) else None)"

definition sign_entry :: "stellar \<Rightarrow> freighter \<Rightarrow> string \<Rightarrow> string \<Rightarrow> int \<Rightarrow> auth_entry \<Rightarrow> (session, auth_entry) act" where
  "sign_entry st f walletAddress passphrase until e =
     abind (alift (st_preimage st e until passphrase)) (\<lambda>preimage.
     abind (with_signer (signAuthEntry f preimage \<lparr>so_passphrase = Some passphrase, so_address = Some walletAddress\<rparr>)) (\<lambda>result.
     case sn_error result of
       Some (message, code) \<Rightarrow> athrow (wallet_message message)
     | None \<Rightarrow>
         if sn_entry result = [] then athrow ''Wallet returned no authorization signature.''
         else alift (st_authorized st e until passphrase (st_bytes st (sn_entry result)) walletAddress)))"

fun sign_entries :: "stellar \<Rightarrow> freighter \<Rightarrow> string \<Rightarrow> string \<Rightarrow> int \<Rightarrow> auth_entry list \<Rightarrow> (session, auth_entry list) act" where
  "sign_entries st f walletAddress passphrase until [] = aret []"
| "sign_entries st f walletAddress passphrase until (e # es) =
     (if credentials_of e \<noteq> Some walletAddress then athrow ''Unexpected payment authorization address.''
      else abind (sign_entry st f walletAddress passphrase until e) (\<lambda>a.
        abind (sign_entries st f walletAddress passphrase until es) (\<lambda>rest. aret (a # rest))))"

definition payment_source :: "charge \<Rightarrow> string \<Rightarrow> string" where
  "payment_source g walletAddress =
     ''did:pkh:stellar:'' @ (if startsWith (cg_network g) ''stellar:'' then drop 8 (cg_network g) else cg_network g) @ '':'' @ walletAddress"

definition sponsored_charge :: "stellar \<Rightarrow> freighter \<Rightarrow> charge \<Rightarrow> string \<Rightarrow> (session, string) act" where
  "sponsored_charge st f g walletAddress =
     abind (alift (transfer_op st g walletAddress)) (\<lambda>transferOp.
     let unsignedTx = charge_tx g (ALL_ZEROS, ''0'') transferOp
     in abind (rpc (Prepare unsignedTx) (\<lambda>n. st_prepare st n unsignedTx)) (\<lambda>prepared.
     abind (rpc Get_Health (st_health st)) (\<lambda>latest.
     abind (now_secs st) (\<lambda>now.
     case tx_operations prepared of
       [operation] \<Rightarrow>
         if op_type operation \<noteq> ''invokeHostFunction'' then athrow ''Unexpected sponsored payment operation.''
         else abind (sign_entries st f walletAddress (cg_passphrase g) (valid_until g latest now)
             (case op_auth operation of None \<Rightarrow> [] | Some es \<Rightarrow> es)) (\<lambda>auth.
           if auth = [] then athrow ''Payment simulation returned no authorization entries.''
           else alift (st_xdr st (prepared\<lparr>tx_operations := [operation\<lparr>op_auth := Some auth\<rparr>]\<rparr>)))
     | _ \<Rightarrow> athrow ''Unexpected sponsored payment operation.''))))"

text \<open>What \<open>signTransaction\<close> of the extension answers is an object with \<open>signedTxXdr\<close> and, on failure, \<open>error\<close>; reading from nothing
  throws.\<close>

definition signed_xdr :: "stellar \<Rightarrow> native \<Rightarrow> string + string" where
  "signed_xdr st result =
     (if is_nullish result then Inl ''Cannot read properties of undefined (reading 'error')''
      else if truthy (getProp result ''error'') then
        (let message = getProp (getProp result ''error'') ''message''
         in Inl (js_String (st_fmt st) (if is_nullish message then getProp result ''error'' else message)))
      else if \<not> truthy (getProp result ''signedTxXdr'') then Inl ''Wallet returned no signed transaction.''
      else Inr (js_String (st_fmt st) (getProp result ''signedTxXdr'')))"

definition unsponsored_charge :: "stellar \<Rightarrow> freighter \<Rightarrow> charge \<Rightarrow> string \<Rightarrow> (session, string) act" where
  "unsponsored_charge st f g walletAddress =
     abind (rpc (Get_Account walletAddress) (\<lambda>n. st_account st n walletAddress)) (\<lambda>account.
     abind (alift (transfer_op st g walletAddress)) (\<lambda>transferOp.
     let transaction = charge_tx g account transferOp
     in abind (rpc (Prepare transaction) (\<lambda>n. st_prepare st n transaction)) (\<lambda>prepared.
     abind (alift (st_xdr st prepared)) (\<lambda>xdr.
     abind (with_signer (signTransaction f xdr \<lparr>so_passphrase = Some (cg_passphrase g), so_address = None\<rparr>)) (\<lambda>result.
     alift (signed_xdr st result))))))"

definition createMppCredential :: "stellar \<Rightarrow> freighter \<Rightarrow> StellarConfig \<Rightarrow> challenge \<Rightarrow> string \<Rightarrow> (session, string) act" where
  "createMppCredential st f config c walletAddress =
     abind (now_secs st) (\<lambda>now.
     abind (alift (check_charge st config c now)) (\<lambda>g.
     abind (if server_sponsored c then sponsored_charge st f g walletAddress else unsponsored_charge st f g walletAddress) (\<lambda>transaction.
     alift (st_serialize st c transaction (payment_source g walletAddress)))))"

section \<open>The x402 signer (x402-client.ts)\<close>

definition x402_signAuthEntry :: "freighter \<Rightarrow> StellarConfig \<Rightarrow> string \<Rightarrow> string \<Rightarrow> string option \<Rightarrow> signed_entry action" where
  "x402_signAuthEntry f config address authEntry requiredNetwork =
     (let required = (case requiredNetwork of None \<Rightarrow> [] | Some p \<Rightarrow> p)
      in if required \<noteq> [] \<and> required \<noteq> sc_networkPassphrase config
         then throw ''Network mismatch: this payment requires a different Stellar network than the app is configured for. Refusing to sign.''
         else andthen (signAuthEntry f authEntry
             \<lparr>so_passphrase = Some (if required = [] then sc_networkPassphrase config else required), so_address = Some address\<rparr>) (\<lambda>result.
           ret (if sn_error result \<noteq> None then \<lparr>sn_entry = [], sn_signer = sn_signer result, sn_error = sn_error result\<rparr>
             else \<lparr>sn_entry = sn_entry result,
               sn_signer = (if sn_signer result = None \<or> sn_signer result = Some [] then Some address else sn_signer result), sn_error = None\<rparr>)))"

section \<open>What the wallet is asked to sign\<close>

fun signs :: "call \<Rightarrow> bool" where
  "signs (Sign_Transaction x p a) = True"
| "signs (Sign_Auth_Entry x p a) = True"
| "signs _ = False"

text \<open>Since the log \<open>l\<close> only calls that \<open>allowed\<close> accepts were added.\<close>

definition log_grows :: "(call \<Rightarrow> bool) \<Rightarrow> call list \<Rightarrow> wallet \<Rightarrow> bool" where
  "log_grows allowed l w \<longleftrightarrow> (\<exists>new. sg_log w = new @ l \<and> list_all allowed new)"

lemma log_grows_refl: "log_grows allowed (sg_log w) w"
  by (simp add: log_grows_def)

lemma log_grows_add: "log_grows allowed l w \<Longrightarrow> allowed c \<Longrightarrow> sg_log w' = c # sg_log w \<Longrightarrow> log_grows allowed l w'"
  unfolding log_grows_def by (metis append_Cons list.pred_inject(2))

lemma action_act: "andthen m f = abind m f" "ret x = aret x" "throw e = athrow e" "unwrap r = alift r"
  by (auto simp: fun_eq_iff andthen_def abind_def ret_def aret_def throw_def athrow_def unwrap_def alift_def)

lemma wp_with_signer [wp_rules]:
  "wp (with_signer m) Q E s = wp m (\<lambda>x w. Q x (s\<lparr>ss_wallet := w\<rparr>)) (\<lambda>e w. E e (s\<lparr>ss_wallet := w\<rparr>)) (ss_wallet s)"
  by (simp add: wp_def with_signer_def split: prod.splits sum.splits)

lemma wp_rpc [wp_rules]:
  "wp (rpc c answer) Q E s = (case answer (length (ss_rpc s)) of Inl e \<Rightarrow> E e (s\<lparr>ss_rpc := c # ss_rpc s\<rparr>) | Inr x \<Rightarrow> Q x (s\<lparr>ss_rpc := c # ss_rpc s\<rparr>))"
  by (simp add: wp_def rpc_def split: sum.split)

lemma wp_now [wp_rules]: "wp (now_secs st) Q E s = Q (st_now st (length (ss_rpc s)) div 1000) s"
  by (simp add: wp_def now_secs_def)

text \<open>A policy accepts every call that is not a signature; what the signer's operations add under it follows once for all policies.\<close>

locale call_policy =
  fixes allowed :: "call \<Rightarrow> bool"
  assumes reads: "\<not> signs c \<Longrightarrow> allowed c"
begin

lemma keeps_asking: "(\<And>a. allowed (entry a)) \<Longrightarrow> keeps (log_grows allowed l) (asking answer entry)"
  by (rule keepsI) (simp add: wp_def asking_def Let_def, erule log_grows_add, blast, simp)

lemma keeps_getApi: "keeps (log_grows allowed l) (getApi f)"
proof (rule keepsI)
  fix w assume w: "log_grows allowed l w"
  have "allowed Imported" by (rule reads) simp
  then have "log_grows allowed l (w\<lparr>sg_log := Imported # sg_log w\<rparr>)" by (auto intro: log_grows_add [OF w])
  moreover from this have "log_grows allowed l (w\<lparr>sg_log := Imported # sg_log w, sg_loaded := True\<rparr>)" by (simp add: log_grows_def)
  ultimately show "wp (getApi f) (\<lambda>_. log_grows allowed l) (\<lambda>_. log_grows allowed l) w"
    using w by (auto simp: wp_def getApi_def asking_def Let_def split: sum.split)
qed

lemma keeps_key: "keeps (log_grows allowed l) current_key"
  by (rule keepsI) (simp add: wp_def current_key_def)

lemma keeps_sync: "keeps (log_grows allowed l) (syncNetwork f p)"
  unfolding syncNetwork_def action_act
  by (auto intro!: keeps_intros keeps_getApi keeps_asking reads split: option.split)

lemma keeps_signAuthEntry:
  assumes "allowed (Sign_Auth_Entry x (so_passphrase opts) address)" and "so_address opts = Some address"
  shows "keeps (log_grows allowed l) (signAuthEntry f x opts)"
  using assms unfolding signAuthEntry_def action_act Let_def
  by (auto intro!: keeps_intros keeps_getApi keeps_key keeps_sync keeps_asking simp: text_default_def)

lemma keeps_signTransaction:
  assumes "\<And>a. allowed (Sign_Transaction x (so_passphrase opts) a)"
  shows "keeps (log_grows allowed l) (signTransaction f x opts)"
  using assms unfolding signTransaction_def action_act Let_def
  by (auto intro!: keeps_intros keeps_getApi keeps_key keeps_sync keeps_asking simp: text_default_def)

lemma grows_final: "keeps (log_grows allowed (sg_log w)) m \<Longrightarrow> m w = (r, w') \<Longrightarrow> log_grows allowed (sg_log w) w'"
  using keeps_final [of "log_grows allowed (sg_log w)" m w r w'] log_grows_refl by blast

end

text \<open>What a charge may have the wallet sign: for the network of the charge, either an authorization of the wallet's own address that the
  simulation of exactly this transfer asked for, or the simulated transaction of exactly this transfer.\<close>

definition simulated :: "stellar \<Rightarrow> charge \<Rightarrow> string \<Rightarrow> string \<times> string \<Rightarrow> transaction \<Rightarrow> bool" where
  "simulated st g walletAddress account prepared \<longleftrightarrow>
     (\<exists>op n. transfer_op st g walletAddress = Inr op \<and> st_prepare st n (charge_tx g account op) = Inr prepared)"

definition asks_for :: "transaction \<Rightarrow> auth_entry \<Rightarrow> bool" where
  "asks_for prepared e \<longleftrightarrow> (\<exists>op es. tx_operations prepared = [op] \<and> op_auth op = Some es \<and> e \<in> set es)"

definition mpp_allowed :: "stellar \<Rightarrow> charge \<Rightarrow> string \<Rightarrow> call \<Rightarrow> bool" where
  "mpp_allowed st g walletAddress c = (case c of
      Sign_Auth_Entry x p a \<Rightarrow> p = Some (cg_passphrase g) \<and> a = walletAddress \<and>
        (\<exists>prepared e latest n m. simulated st g walletAddress (ALL_ZEROS, ''0'') prepared \<and> asks_for prepared e \<and>
          credentials_of e = Some walletAddress \<and> st_health st n = Inr latest \<and>
          st_preimage st e (valid_until g latest (st_now st m div 1000)) (cg_passphrase g) = Inr x)
    | Sign_Transaction x p a \<Rightarrow> p = Some (cg_passphrase g) \<and>
        (\<exists>prepared account. simulated st g walletAddress account prepared \<and> st_xdr st prepared = Inr x)
    | _ \<Rightarrow> True)"

interpretation mpp: call_policy "mpp_allowed st g walletAddress" for st g walletAddress
  by unfold_locales (auto simp: mpp_allowed_def split: call.split)

abbreviation paying :: "(call \<Rightarrow> bool) \<Rightarrow> call list \<Rightarrow> session \<Rightarrow> bool" where
  "paying allowed l s \<equiv> log_grows allowed l (ss_wallet s)"

lemma keeps_with_signer: "keeps (log_grows allowed l) m \<Longrightarrow> keeps (paying allowed l) (with_signer m)"
  unfolding keeps_def by (simp add: wp_with_signer)

lemma keeps_rpc_bind: "(\<And>n x. answer n = Inr x \<Longrightarrow> keeps (paying allowed l) (k x)) \<Longrightarrow> keeps (paying allowed l) (abind (rpc c answer) k)"
  unfolding keeps_def by (auto simp: wp_abind wp_rpc split: sum.split)

lemma keeps_now_bind: "(\<And>n. keeps (paying allowed l) (k (st_now st n div 1000))) \<Longrightarrow> keeps (paying allowed l) (abind (now_secs st) k)"
  unfolding keeps_def by (simp add: wp_abind wp_now)

lemma keeps_lift_bind: "(\<And>x. r = Inr x \<Longrightarrow> keeps P (k x)) \<Longrightarrow> keeps P (abind (alift r) k)"
  by (cases r) (simp_all add: keeps_basic)

lemmas keeps_payment = keeps_with_signer keeps_rpc_bind keeps_now_bind keeps_lift_bind

lemma keeps_sign_entry:
  assumes "\<And>x. st_preimage st e until passphrase = Inr x \<Longrightarrow> mpp_allowed st g walletAddress (Sign_Auth_Entry x (Some passphrase) walletAddress)"
  shows "keeps (paying (mpp_allowed st g walletAddress) l) (sign_entry st f walletAddress passphrase until e)"
  unfolding sign_entry_def
  by (intro keeps_lift_bind keeps_abind keeps_with_signer mpp.keeps_signAuthEntry) (auto intro!: keeps_basic assms split: option.split)

lemma keeps_sign_entries:
  assumes "\<And>e x. e \<in> set es \<Longrightarrow> credentials_of e = Some walletAddress \<Longrightarrow> st_preimage st e until passphrase = Inr x \<Longrightarrow>
      mpp_allowed st g walletAddress (Sign_Auth_Entry x (Some passphrase) walletAddress)"
  shows "keeps (paying (mpp_allowed st g walletAddress) l) (sign_entries st f walletAddress passphrase until es)"
  using assms
proof (induction es)
  case (Cons e es)
  have "keeps (paying (mpp_allowed st g walletAddress) l) (sign_entries st f walletAddress passphrase until es)"
    by (rule Cons.IH) (rule Cons.prems, auto)
  moreover have "keeps (paying (mpp_allowed st g walletAddress) l) (sign_entry st f walletAddress passphrase until e)"
    if "credentials_of e = Some walletAddress"
    using that by (intro keeps_sign_entry) (rule Cons.prems [of e], auto)
  ultimately show ?case by (auto intro!: keeps_abind keeps_basic)
qed (simp add: keeps_basic)

lemma keeps_sponsored: "keeps (paying (mpp_allowed st g walletAddress) l) (sponsored_charge st f g walletAddress)"
  unfolding sponsored_charge_def Let_def
proof (intro keeps_lift_bind keeps_rpc_bind keeps_now_bind, goal_cases)
  case (1 op n prepared m latest i)
  define now where "now = st_now st i div 1000"
  from 1 have health: "st_health st m = Inr latest" by simp
  from 1 have sim: "simulated st g walletAddress (ALL_ZEROS, ''0'') prepared" by (auto simp: simulated_def)
  have "keeps (paying (mpp_allowed st g walletAddress) l) (sign_entries st f walletAddress (cg_passphrase g) (valid_until g latest now)
      (case op_auth o1 of None \<Rightarrow> [] | Some es \<Rightarrow> es))" if "tx_operations prepared = [o1]" for o1
  proof (rule keeps_sign_entries)
    fix e x assume "e \<in> set (case op_auth o1 of None \<Rightarrow> [] | Some es \<Rightarrow> es)" "credentials_of e = Some walletAddress"
      "st_preimage st e (valid_until g latest now) (cg_passphrase g) = Inr x"
    moreover from this(1) that have "asks_for prepared e" by (cases "op_auth o1") (auto simp: asks_for_def)
    ultimately show "mpp_allowed st g walletAddress (Sign_Auth_Entry x (Some (cg_passphrase g)) walletAddress)"
      using sim health unfolding now_def by (auto simp: mpp_allowed_def)
  qed
  then show ?case unfolding now_def by (auto intro!: keeps_abind keeps_basic split: list.split)
qed

lemma keeps_unsponsored: "keeps (paying (mpp_allowed st g walletAddress) l) (unsponsored_charge st f g walletAddress)"
  unfolding unsponsored_charge_def Let_def
proof (intro keeps_lift_bind keeps_rpc_bind keeps_abind keeps_with_signer mpp.keeps_signTransaction keeps_basic, goal_cases)
  case (1 n account op m prepared x a)
  then have "simulated st g walletAddress account prepared" unfolding simulated_def by blast
  with 1 show ?case unfolding mpp_allowed_def by (simp del: split_paired_Ex) blast
qed

lemma base_network: "baseConfig env = (if network_name env = ''mainnet'' then MAINNET_CONFIG public_passphrase else TESTNET_CONFIG test_passphrase)"
  by (auto simp: baseConfig_def getConfig_def network_name_def)

lemma config_passphrase: "sc_networkPassphrase (stellarConfig env) = (if network_name env = ''mainnet'' then public_passphrase else test_passphrase)"
  by (simp add: stellarConfig_def Let_def base_network MAINNET_CONFIG_def TESTNET_CONFIG_def)

lemma passphrases_differ: "public_passphrase \<noteq> test_passphrase"
  by (simp add: public_passphrase_def test_passphrase_def)

lemma network_checked: "check_network (stellarConfig env) n = Inr () \<Longrightarrow> challenge_passphrase n = sc_networkPassphrase (stellarConfig env)"
  using passphrases_differ by (auto simp: check_network_def challenge_passphrase_def config_passphrase split: if_splits)

text \<open>What the expiry of a challenge means: none, or a time that has not passed.\<close>

definition unexpired :: "stellar \<Rightarrow> challenge \<Rightarrow> int \<Rightarrow> int option \<Rightarrow> bool" where
  "unexpired st c now e \<longleftrightarrow> (case ch_expires c of
      None \<Rightarrow> e = None
    | Some text \<Rightarrow> if text = [] then e = None else (\<exists>ms. st_date st text = Some ms \<and> now < ms div 1000 \<and> e = Some (ms div 1000)))"

lemma expiry_checked: "check_expiry st now (ch_expires c) = Inr e \<Longrightarrow> unexpired st c now e"
  by (auto simp: check_expiry_def unexpired_def split: if_splits option.splits)

lemma charge_checked:
  assumes "check_charge st (stellarConfig env) c now = Inr g"
  shows "cg_currency g \<in> set USDC_ALLOWLIST" "cg_passphrase g = sc_networkPassphrase (stellarConfig env)" "unexpired st c now (cg_expires g)"
    "cg_recipient g = js_String (st_fmt st) (request_field c ''recipient'')" "cg_currency g = js_String (st_fmt st) (request_field c ''currency'')"
    "bigint_of_text (js_String (st_fmt st) (request_field c ''amount'')) = Some (cg_amount g)"
  using assms network_checked expiry_checked
  by (auto simp: check_charge_def Let_def sbind_eq_Inr split: if_splits option.splits)

lemma keeps_credential:
  assumes "check_charge st config c (st_now st (length (ss_rpc s)) div 1000) = Inr g"
  shows "wp (createMppCredential st f config c walletAddress) (\<lambda>_. paying (mpp_allowed st g walletAddress) (sg_log (ss_wallet s)))
      (\<lambda>_. paying (mpp_allowed st g walletAddress) (sg_log (ss_wallet s))) s"
proof -
  have "keeps (paying (mpp_allowed st g walletAddress) (sg_log (ss_wallet s)))
      (abind (if server_sponsored c then sponsored_charge st f g walletAddress else unsponsored_charge st f g walletAddress) (\<lambda>transaction.
       alift (st_serialize st c transaction (payment_source g walletAddress))))"
    by (intro keeps_abind keeps_basic) (auto intro: keeps_sponsored keeps_unsponsored)
  from keepsD [OF this log_grows_refl] show ?thesis
    using assms by (simp add: createMppCredential_def wp_rules)
qed

text \<open>The expiration ledger of a sponsored authorization is at most one ledger after the challenge's own expiry.\<close>

lemma valid_until_bound:
  assumes "cg_expires g = Some t" "0 < t" "now < t"
  shows "latest < valid_until g latest now" "(valid_until g latest now - latest) * DEFAULT_LEDGER_CLOSE_TIME < t - now + DEFAULT_LEDGER_CLOSE_TIME"
proof -
  define q where "q = \<lceil>rat_of_int (t - now) / 5\<rceil>"
  have q: "of_int q < rat_of_int (t - now) / 5 + 1" "rat_of_int (t - now) / 5 \<le> of_int q" unfolding q_def by linarith+
  then have "rat_of_int (q * 5) < of_int (t - now + 5)" "0 < rat_of_int q" using assms(3) by (simp_all add: field_simps)
  then have "q * 5 < t - now + 5" "0 < q" by linarith+
  then show "latest < valid_until g latest now" "(valid_until g latest now - latest) * DEFAULT_LEDGER_CLOSE_TIME < t - now + DEFAULT_LEDGER_CLOSE_TIME"
    using assms by (simp_all add: valid_until_def DEFAULT_LEDGER_CLOSE_TIME_def q_def max_def)
qed

text \<open>What the documentation of the SDK's \<open>prepareTransaction\<close> says of a transaction with a single call: it comes back with the same
  account, network and time bounds and the same call, to which the authorization entries of its simulation are added, and these are
  entries of that call. The code compares only the address of an entry with the wallet's.\<close>

definition honest_prepare :: "stellar \<Rightarrow> bool" where
  "honest_prepare st \<longleftrightarrow> (\<forall>n tx op prepared. tx_operations tx = [op] \<and> st_prepare st n tx = Inr prepared \<longrightarrow>
     (\<exists>es. prepared = tx\<lparr>tx_operations := [op\<lparr>op_auth := Some es\<rparr>]\<rparr> \<and> list_all (\<lambda>e. ae_invocation e = op_func op) es))"

text \<open>A signature for the payment \<open>transfer\<close> and nothing else: an authorization of this call until the given ledger, or a transaction of this
  call alone within the given time bounds.\<close>

definition signs_only :: "stellar \<Rightarrow> string \<Rightarrow> host_function \<Rightarrow> (int \<Rightarrow> bool) \<Rightarrow> time_bounds \<Rightarrow> call \<Rightarrow> bool" where
  "signs_only st passphrase transfer until bounds c = (case c of
      Sign_Auth_Entry x p a \<Rightarrow> p = Some passphrase \<and>
        (\<exists>e ledger. credentials_of e = Some a \<and> ae_invocation e = transfer \<and> until ledger \<and> st_preimage st e ledger passphrase = Inr x)
    | Sign_Transaction x p a \<Rightarrow> p = Some passphrase \<and>
        (\<exists>tx op. tx_operations tx = [op] \<and> op_func op = transfer \<and> tx_passphrase tx = passphrase \<and> tx_bounds tx = bounds \<and> st_xdr st tx = Inr x)
    | _ \<Rightarrow> True)"

lemma transfer_op_func: "transfer_op st g a = Inr op \<Longrightarrow> op_func op = Invoke_Transfer (cg_currency g) a (cg_recipient g) (cg_amount g)"
  by (auto simp: transfer_op_def sbind_eq_Inr)

lemma simulated_transfer:
  assumes "honest_prepare st" "simulated st g walletAddress account prepared"
  obtains op es where "tx_operations prepared = [op\<lparr>op_auth := Some es\<rparr>]"
    "op_func op = Invoke_Transfer (cg_currency g) walletAddress (cg_recipient g) (cg_amount g)" "list_all (\<lambda>e. ae_invocation e = op_func op) es"
    "tx_passphrase prepared = cg_passphrase g" "tx_bounds prepared = charge_bounds g"
proof -
  from assms(2) obtain op n where op: "transfer_op st g walletAddress = Inr op" and p: "st_prepare st n (charge_tx g account op) = Inr prepared"
    unfolding simulated_def by blast
  have "tx_operations (charge_tx g account op) = [op]" by (simp add: charge_tx_def)
  with assms(1) p obtain es where "prepared = (charge_tx g account op)\<lparr>tx_operations := [op\<lparr>op_auth := Some es\<rparr>]\<rparr>"
    "list_all (\<lambda>e. ae_invocation e = op_func op) es"
    unfolding honest_prepare_def by blast
  with transfer_op_func [OF op] show thesis by (intro that [of es op]) (simp_all add: charge_tx_def)
qed

lemma allowed_signs_only:
  assumes honest: "honest_prepare st" and ok: "mpp_allowed st g walletAddress c"
  shows "signs_only st (cg_passphrase g) (Invoke_Transfer (cg_currency g) walletAddress (cg_recipient g) (cg_amount g))
    (\<lambda>ledger. \<exists>latest n m. st_health st n = Inr latest \<and> ledger = valid_until g latest (st_now st m div 1000)) (charge_bounds g) c"
proof (cases c)
  case (Sign_Auth_Entry x p a)
  with ok obtain prepared e latest n m where sim: "simulated st g walletAddress (ALL_ZEROS, ''0'') prepared" and e: "asks_for prepared e"
    and known: "p = Some (cg_passphrase g)" "a = walletAddress" "credentials_of e = Some walletAddress" "st_health st n = Inr latest"
      "st_preimage st e (valid_until g latest (st_now st m div 1000)) (cg_passphrase g) = Inr x"
    by (auto simp: mpp_allowed_def)
  from simulated_transfer [OF honest sim] obtain op es where "tx_operations prepared = [op\<lparr>op_auth := Some es\<rparr>]"
    "op_func op = Invoke_Transfer (cg_currency g) walletAddress (cg_recipient g) (cg_amount g)" "list_all (\<lambda>e. ae_invocation e = op_func op) es"
    by blast
  with e have "ae_invocation e = Invoke_Transfer (cg_currency g) walletAddress (cg_recipient g) (cg_amount g)"
    by (simp add: asks_for_def list_all_iff)
  with known Sign_Auth_Entry show ?thesis by (auto simp: signs_only_def)
next
  case (Sign_Transaction x p a)
  with ok obtain prepared account where sim: "simulated st g walletAddress account prepared"
    and known: "p = Some (cg_passphrase g)" "st_xdr st prepared = Inr x"
    unfolding mpp_allowed_def by (simp del: split_paired_Ex) blast
  from simulated_transfer [OF honest sim] obtain op es where "tx_operations prepared = [op\<lparr>op_auth := Some es\<rparr>]"
    "op_func op = Invoke_Transfer (cg_currency g) walletAddress (cg_recipient g) (cg_amount g)"
    "tx_passphrase prepared = cg_passphrase g" "tx_bounds prepared = charge_bounds g" by blast
  with known Sign_Transaction show ?thesis unfolding signs_only_def by (auto intro!: exI [of _ prepared])
qed (simp_all add: signs_only_def)

section \<open>Properties\<close>

text \<open>C5. A payment only ever signs what its challenge says. Whatever the Stellar SDK and the Freighter extension answer, every signature
  that creating an MPP credential asks of the wallet is for a challenge whose token is on the USDC list, whose network is the one the
  application is configured for and whose expiry, if it has one, is a date that had not passed when the payment began; it is either an
  authorization entry of the wallet's own address out of the simulation of the transfer of exactly the challenge's amount to its recipient,
  valid until the ledger computed from that expiry, or the prepared transaction of that transfer. When the RPC prepares transactions as
  documented, that entry authorizes, and that transaction makes, this transfer and nothing else, within the time bounds of the expiry.\<close>

theorem payment_authorized:
  assumes "createMppCredential st f (stellarConfig env) c walletAddress s = (r, s')"
  shows "\<exists>new. sg_log (ss_wallet s') = new @ sg_log (ss_wallet s) \<and>
    (\<forall>call \<in> set new. signs call \<longrightarrow> (\<exists>g.
       cg_currency g = js_String (st_fmt st) (request_field c ''currency'') \<and> cg_currency g \<in> set USDC_ALLOWLIST \<and>
       cg_recipient g = js_String (st_fmt st) (request_field c ''recipient'') \<and>
       bigint_of_text (js_String (st_fmt st) (request_field c ''amount'')) = Some (cg_amount g) \<and>
       cg_passphrase g = sc_networkPassphrase (stellarConfig env) \<and>
       unexpired st c (st_now st (length (ss_rpc s)) div 1000) (cg_expires g) \<and>
       mpp_allowed st g walletAddress call \<and>
       (honest_prepare st \<longrightarrow>
          signs_only st (sc_networkPassphrase (stellarConfig env)) (Invoke_Transfer (cg_currency g) walletAddress (cg_recipient g) (cg_amount g))
            (\<lambda>ledger. \<exists>latest n m. st_health st n = Inr latest \<and> ledger = valid_until g latest (st_now st m div 1000)) (charge_bounds g) call)))"
proof (cases "check_charge st (stellarConfig env) c (st_now st (length (ss_rpc s)) div 1000)")
  case (Inl e)
  then have "s' = s" using assms by (simp add: createMppCredential_def abind_def now_secs_def alift_def)
  then show ?thesis by simp
next
  case (Inr g)
  from keeps_credential [OF this, of f walletAddress] assms
  have "log_grows (mpp_allowed st g walletAddress) (sg_log (ss_wallet s)) (ss_wallet s')"
    by (simp add: wp_def split: sum.splits)
  then obtain new where new: "sg_log (ss_wallet s') = new @ sg_log (ss_wallet s)" "list_all (mpp_allowed st g walletAddress) new"
    by (auto simp: log_grows_def)
  note g = charge_checked [OF Inr]
  show ?thesis
  proof (intro exI [of _ new] conjI ballI impI new(1))
    fix call assume "call \<in> set new"
    with new(2) have "mpp_allowed st g walletAddress call" by (simp add: list_all_iff)
    with allowed_signs_only [OF _ this] g
    show "\<exists>g. cg_currency g = js_String (st_fmt st) (request_field c ''currency'') \<and> cg_currency g \<in> set USDC_ALLOWLIST \<and>
       cg_recipient g = js_String (st_fmt st) (request_field c ''recipient'') \<and>
       bigint_of_text (js_String (st_fmt st) (request_field c ''amount'')) = Some (cg_amount g) \<and>
       cg_passphrase g = sc_networkPassphrase (stellarConfig env) \<and>
       unexpired st c (st_now st (length (ss_rpc s)) div 1000) (cg_expires g) \<and>
       mpp_allowed st g walletAddress call \<and>
       (honest_prepare st \<longrightarrow>
          signs_only st (sc_networkPassphrase (stellarConfig env)) (Invoke_Transfer (cg_currency g) walletAddress (cg_recipient g) (cg_amount g))
            (\<lambda>ledger. \<exists>latest n m. st_health st n = Inr latest \<and> ledger = valid_until g latest (st_now st m div 1000)) (charge_bounds g) call)"
      by (intro exI [of _ g] conjI impI) simp_all
  qed
qed

definition sample_entry :: "host_function \<Rightarrow> auth_entry" where
  "sample_entry h = \<lparr>ae_credentials = \<lparr>cr_type = ''sorobanCredentialsAddressV2'', cr_address = ''G''\<rparr>, ae_invocation = h\<rparr>"

definition sample_stellar :: stellar where
  "sample_stellar = \<lparr>st_fmt = (\<lambda>_. []), st_server = (\<lambda>_. Inr ()), st_contract = (\<lambda>_. Inr ()), st_address = (\<lambda>_. Inr ()), st_i128 = (\<lambda>_. Inr ()),
     st_date = (\<lambda>_. Some 2000000), st_now = (\<lambda>_. 1000000), st_account = (\<lambda>_ a. Inr (a, ''7'')),
     st_prepare = (\<lambda>_ t. Inr (t\<lparr>tx_operations := map (\<lambda>p. p\<lparr>op_auth := Some [sample_entry (op_func p)]\<rparr>) (tx_operations t)\<rparr>)), st_health = (\<lambda>_. Inr 100),
     st_preimage = (\<lambda>_ _ _. Inr ''pre''), st_authorized = (\<lambda>e _ _ _ _. Inr e), st_bytes = (\<lambda>_. []), st_xdr = (\<lambda>_. Inr ''xdr''),
     st_serialize = (\<lambda>_ t source. Inr (t @ source))\<rparr>"

definition sample_challenge :: challenge where
  "sample_challenge = \<lparr>ch_id = ''test'', ch_request = [(''amount'', NStr ''10000''),
     (''currency'', NStr ''CBIELTK6YBZJU5UP2WWQEUCYKLPU6AUNZ2BQ4WWFEIE3USCIHMXQDAMA''), (''recipient'', NStr ''R''),
     (''methodDetails'', NObj [(''network'', NStr ''stellar:testnet''), (''feePayer'', NBool True)])],
     ch_expires = Some ''later'', ch_description = None\<rparr>"

definition sample_wallet :: session where
  "sample_wallet = \<lparr>ss_wallet = \<lparr>sg_publicKey = ''G'', sg_loaded = True, sg_log = []\<rparr>, ss_rpc = []\<rparr>"

definition signing_freighter :: freighter where
  "signing_freighter = sample_freighter\<lparr>fr_getNetwork := (\<lambda>_. Inr \<lparr>nw_network = [], nw_passphrase = test_passphrase, nw_error = None\<rparr>),
     fr_signAuthEntry := (\<lambda>_ _ _ _. Inr \<lparr>au_signed = NStr ''sig'', au_signer = None, au_error = None\<rparr>)\<rparr>"

definition sample_charge :: charge where
  "sample_charge = \<lparr>cg_amount = 10000, cg_currency = ''CBIELTK6YBZJU5UP2WWQEUCYKLPU6AUNZ2BQ4WWFEIE3USCIHMXQDAMA'', cg_recipient = ''R'',
     cg_network = ''stellar:testnet'', cg_passphrase = test_passphrase, cg_expires = Some 2000\<rparr>"

lemma sample_checked: "check_charge sample_stellar (stellarConfig (\<lambda>_. None)) sample_challenge 1000 = Inr sample_charge"
proof -
  have "bigint_of_text ''10000'' = Some 10000" by code_simp
  moreover have "check_network (stellarConfig (\<lambda>_. None)) ''stellar:testnet'' = Inr ()"
    by (simp add: check_network_def is_mainnet_def config_passphrase network_name_def)
  ultimately show ?thesis
    by (simp add: check_charge_def Let_def sample_challenge_def sample_stellar_def request_field_def getProp_def challenge_network_def or_text_def
        sample_charge_def method_detail_def is_nullish_def USDC_ALLOWLIST_def check_expiry_def challenge_passphrase_def is_mainnet_def)
qed

lemma sample_sponsored: "server_sponsored sample_challenge"
  by (simp add: server_sponsored_def method_detail_def request_field_def sample_challenge_def getProp_def)

lemma sample_signing:
  "sign_entries sample_stellar signing_freighter ''G'' test_passphrase n [sample_entry h]
     \<lparr>ss_wallet = \<lparr>sg_publicKey = ''G'', sg_loaded = True, sg_log = []\<rparr>, ss_rpc = rs\<rparr> =
   (Inr [sample_entry h], \<lparr>ss_wallet = \<lparr>sg_publicKey = ''G'', sg_loaded = True, sg_log = [Sign_Auth_Entry ''pre'' (Some test_passphrase) ''G'',
       Asked_Network (Inr \<lparr>nw_network = [], nw_passphrase = test_passphrase, nw_error = None\<rparr>)]\<rparr>, ss_rpc = rs\<rparr>)"
  by (simp add: sign_entry_def sample_stellar_def signing_freighter_def sample_entry_def credentials_of_def Let_def sample_freighter_def
      with_signer_def signAuthEntry_def syncNetwork_def getApi_def andthen_def action_defs act_defs text_default_def auth_result_def
      truthy_def normalize_signed_def test_passphrase_def)

lemma sample_stellar_fields:
  "st_now sample_stellar n = 1000000" "st_health sample_stellar n = Inr 100" "st_xdr sample_stellar tx = Inr ''xdr''"
  "st_address sample_stellar a = Inr ()" "st_i128 sample_stellar i = Inr ()" "st_serialize sample_stellar c x y = Inr (x @ y)"
  "st_prepare sample_stellar n tx = Inr (tx\<lparr>tx_operations := map (\<lambda>p. p\<lparr>op_auth := Some [sample_entry (op_func p)]\<rparr>) (tx_operations tx)\<rparr>)"
  by (simp_all add: sample_stellar_def)

lemma sample_sponsored_run:
  "sponsored_charge sample_stellar signing_freighter sample_charge ''G'' sample_wallet = (r, s') \<Longrightarrow>
     r = Inr ''xdr'' \<and> Sign_Auth_Entry ''pre'' (Some test_passphrase) ''G'' \<in> set (sg_log (ss_wallet s'))"
proof -
  have "cg_passphrase sample_charge = test_passphrase" by (simp add: sample_charge_def)
  then show "sponsored_charge sample_stellar signing_freighter sample_charge ''G'' sample_wallet = (r, s') \<Longrightarrow> ?thesis"
    by (auto simp: sponsored_charge_def Let_def transfer_op_def sample_stellar_fields act_defs now_secs_def rpc_def sample_wallet_def
        charge_tx_def sample_signing simp del: sign_entries.simps)
qed

lemma sample_payment:
  assumes "createMppCredential sample_stellar signing_freighter (stellarConfig (\<lambda>_. None)) sample_challenge ''G'' sample_wallet = (r, s')"
  shows "r = Inr ''xdrdid:pkh:stellar:testnet:G''" "Sign_Auth_Entry ''pre'' (Some test_passphrase) ''G'' \<in> set (sg_log (ss_wallet s'))"
proof -
  obtain r1 s1 where run: "sponsored_charge sample_stellar signing_freighter sample_charge ''G'' sample_wallet = (r1, s1)" by fastforce
  from sample_sponsored_run [OF this] run assms
  show "r = Inr ''xdrdid:pkh:stellar:testnet:G''" "Sign_Auth_Entry ''pre'' (Some test_passphrase) ''G'' \<in> set (sg_log (ss_wallet s'))"
    by (auto simp: createMppCredential_def sample_checked sample_sponsored sample_stellar_fields act_defs now_secs_def payment_source_def sample_charge_def)
qed

lemma sample_honest: "honest_prepare sample_stellar"
  by (auto simp: honest_prepare_def sample_stellar_fields sample_entry_def)

theorem payment_authorized_witness:
  "\<exists>new r s' g. createMppCredential sample_stellar signing_freighter (stellarConfig (\<lambda>_. None)) sample_challenge ''G'' sample_wallet = (r, s') \<and>
     r = Inr ''xdrdid:pkh:stellar:testnet:G'' \<and> sg_log (ss_wallet s') = new \<and> Sign_Auth_Entry ''pre'' (Some test_passphrase) ''G'' \<in> set new \<and>
     cg_currency g \<in> set USDC_ALLOWLIST \<and> unexpired sample_stellar sample_challenge 1000 (cg_expires g) \<and>
     signs_only sample_stellar test_passphrase (Invoke_Transfer (cg_currency g) ''G'' (cg_recipient g) (cg_amount g))
       (\<lambda>ledger. \<exists>latest n m. st_health sample_stellar n = Inr latest \<and> ledger = valid_until g latest (st_now sample_stellar m div 1000))
       (charge_bounds g) (Sign_Auth_Entry ''pre'' (Some test_passphrase) ''G'')"
proof -
  obtain r s' where run: "createMppCredential sample_stellar signing_freighter (stellarConfig (\<lambda>_. None)) sample_challenge ''G'' sample_wallet = (r, s')"
    by fastforce
  note signed = sample_payment [OF run]
  have pass: "sc_networkPassphrase (stellarConfig (\<lambda>_. None)) = test_passphrase" by (simp add: config_passphrase network_name_def)
  from payment_authorized [OF run] obtain new where new: "sg_log (ss_wallet s') = new @ sg_log (ss_wallet sample_wallet)"
    and ok: "\<forall>call \<in> set new. signs call \<longrightarrow> (\<exists>g. cg_currency g \<in> set USDC_ALLOWLIST \<and>
       unexpired sample_stellar sample_challenge (st_now sample_stellar (length (ss_rpc sample_wallet)) div 1000) (cg_expires g) \<and>
       (honest_prepare sample_stellar \<longrightarrow> signs_only sample_stellar test_passphrase (Invoke_Transfer (cg_currency g) ''G'' (cg_recipient g) (cg_amount g))
         (\<lambda>ledger. \<exists>latest n m. st_health sample_stellar n = Inr latest \<and> ledger = valid_until g latest (st_now sample_stellar m div 1000))
         (charge_bounds g) call))" unfolding pass by blast
  from new have "sg_log (ss_wallet s') = new" by (simp add: sample_wallet_def)
  moreover from this ok signed(2) sample_honest obtain g where "cg_currency g \<in> set USDC_ALLOWLIST"
    "unexpired sample_stellar sample_challenge 1000 (cg_expires g)"
    "signs_only sample_stellar test_passphrase (Invoke_Transfer (cg_currency g) ''G'' (cg_recipient g) (cg_amount g))
       (\<lambda>ledger. \<exists>latest n m. st_health sample_stellar n = Inr latest \<and> ledger = valid_until g latest (st_now sample_stellar m div 1000))
       (charge_bounds g) (Sign_Auth_Entry ''pre'' (Some test_passphrase) ''G'')"
    by (fastforce simp: sample_stellar_fields)
  ultimately show ?thesis using run signed by blast
qed

text \<open>The x402 signer asks the wallet for one entry at most, for the application's network and the connected address.\<close>

definition x402_allowed :: "StellarConfig \<Rightarrow> string \<Rightarrow> string \<Rightarrow> call \<Rightarrow> bool" where
  "x402_allowed config address x c = (signs c \<longrightarrow> c = Sign_Auth_Entry x (Some (sc_networkPassphrase config)) address)"

interpretation x402: call_policy "x402_allowed config address x" for config address x
  by unfold_locales (simp add: x402_allowed_def)

lemma x402_signs:
  assumes "x402_signAuthEntry f config address x required w = (r, w')"
  shows "log_grows (x402_allowed config address x) (sg_log w) w'"
proof -
  have "keeps (log_grows (x402_allowed config address x) (sg_log w)) (x402_signAuthEntry f config address x required)"
    unfolding x402_signAuthEntry_def Let_def action_act
    by (auto intro!: x402.keeps_signAuthEntry keeps_intros simp: x402_allowed_def)
  then show ?thesis using assms by (rule x402.grows_final)
qed

lemma healthy_chosen:
  assumes "selectHealthyRpc answer urls cfg = (url, cfg')"
  shows "url = sc_rpcUrl cfg'" "url \<noteq> sc_rpcUrl cfg \<Longrightarrow> url \<in> set urls \<and> reports_healthy answer url" "cfg'\<lparr>sc_rpcUrl := sc_rpcUrl cfg\<rparr> = cfg"
  using assms by (induction urls) (auto split: if_splits)

end
