(* ===== verification/Web_Wallet.thy ===== *)
theory Web_Wallet
  imports Web_Payments
begin

text \<open>
  The wallet of the web application (\<open>webapp/apps/web/src/lib/wallet.svelte.ts\<close>): the class \<open>WalletState\<close> as a record with the shared
  signer, and its operations as actions on it. The Freighter module's \<open>isAllowed\<close> is the extra parameter \<open>isAllowed\<close>.
\<close>

section \<open>The operations\<close>

record WalletState =
  ws_signer :: wallet
  ws_address :: "string option"
  ws_connected :: bool
  ws_loading :: bool
  ws_error :: "string option"
  ws_network :: "string option"
  ws_networkMismatch :: bool

definition new_wallet :: WalletState where
  "new_wallet = \<lparr>ws_signer = new_signer, ws_address = None, ws_connected = False, ws_loading = False, ws_error = None, ws_network = None,
     ws_networkMismatch = False\<rparr>"

definition truncatedAddress :: "WalletState \<Rightarrow> string option" where
  "truncatedAddress w = (case ws_address w of
      None \<Rightarrow> None
    | Some a \<Rightarrow> if a = [] then None else Some (take 6 a @ ''...'' @ drop (length a - 4) a))"

definition signer_act :: "'a action \<Rightarrow> (WalletState, 'a) act" where
  "signer_act m w = (case m (ws_signer w) of (r, s) \<Rightarrow> (r, w\<lparr>ws_signer := s\<rparr>))"

definition update_wallet :: "(WalletState \<Rightarrow> WalletState) \<Rightarrow> (WalletState, unit) act" where
  "update_wallet g w = (Inr (), g w)"

definition loadFreighterApi :: "freighter \<Rightarrow> (WalletState, unit) act" where
  "loadFreighterApi f = abind (signer_act (asking (fr_import f) (\<lambda>_. Imported))) alift"

text \<open>\<open>syncNetwork\<close> of the class; an error anywhere leaves the state as it was.\<close>

definition wallet_syncNetwork :: "freighter \<Rightarrow> StellarConfig \<Rightarrow> (WalletState, unit) act" where
  "wallet_syncNetwork f config =
     acatch
       (abind (loadFreighterApi f) (\<lambda>_.
        abind (signer_act (asking (fr_getNetwork f) Asked_Network)) (\<lambda>r.
        abind (alift r) (\<lambda>netResult.
        if nw_error netResult \<noteq> None then aret ()
        else update_wallet (\<lambda>w. w\<lparr>ws_network := Some (nw_network netResult),
          ws_networkMismatch := (nw_passphrase netResult \<noteq> sc_networkPassphrase config)\<rparr>)))))
       (\<lambda>e. aret ())"

definition connected_as :: "string \<Rightarrow> WalletState \<Rightarrow> WalletState" where
  "connected_as a w = w\<lparr>ws_address := Some a, ws_connected := True\<rparr>"

definition restored_as :: "string \<Rightarrow> WalletState \<Rightarrow> WalletState" where
  "restored_as a w = w\<lparr>ws_signer := (ws_signer w)\<lparr>sg_publicKey := a\<rparr>, ws_address := Some a, ws_connected := True\<rparr>"

definition restore :: "freighter \<Rightarrow> (nat \<Rightarrow> string + bool) \<Rightarrow> StellarConfig \<Rightarrow> (WalletState, unit) act" where
  "restore f isAllowed config =
     acatch
       (abind (signer_act (detectFreighter f)) (\<lambda>installed.
        if \<not> installed then aret ()
        else abind (loadFreighterApi f) (\<lambda>_.
        abind (signer_act (asking isAllowed (\<lambda>_. Asked_Allowed))) (\<lambda>r1.
        abind (alift r1) (\<lambda>allowed.
        if \<not> allowed then aret ()
        else abind (signer_act (asking (fr_getAddress f) (\<lambda>_. Asked_Address))) (\<lambda>r2.
        abind (alift r2) (\<lambda>addrResult.
        if ac_error addrResult \<noteq> None \<or> ac_address addrResult = [] then aret ()
        else abind (update_wallet (restored_as (ac_address addrResult))) (\<lambda>_. wallet_syncNetwork f config))))))))
       (\<lambda>e. aret ())"

definition wallet_connect :: "freighter \<Rightarrow> strkey \<Rightarrow> StellarConfig \<Rightarrow> (WalletState, unit) act" where
  "wallet_connect f sk config =
     abind (update_wallet (\<lambda>w. w\<lparr>ws_loading := True, ws_error := None\<rparr>)) (\<lambda>_.
     afinally
       (acatch
         (abind (signer_act (connect f sk)) (\<lambda>address.
          abind (update_wallet (connected_as address)) (\<lambda>_. wallet_syncNetwork f config)))
         (\<lambda>e. update_wallet (\<lambda>w. w\<lparr>ws_error := Some e\<rparr>)))
       (update_wallet (\<lambda>w. w\<lparr>ws_loading := False\<rparr>)))"

definition disconnect :: "WalletState \<Rightarrow> WalletState" where
  "disconnect w = w\<lparr>ws_address := None, ws_connected := False, ws_error := None, ws_network := None, ws_networkMismatch := False,
     ws_signer := (ws_signer w)\<lparr>sg_publicKey := []\<rparr>\<rparr>"

section \<open>The states of the wallet\<close>

text \<open>The wallet shows an address exactly while the signer has its key.\<close>

definition wallet_inv :: "WalletState \<Rightarrow> bool" where
  "wallet_inv w \<longleftrightarrow>
     (if ws_connected w then sg_publicKey (ws_signer w) \<noteq> [] \<and> ws_address w = Some (sg_publicKey (ws_signer w))
      else sg_publicKey (ws_signer w) = [] \<and> ws_address w = None)"

inductive wallet_reachable :: "freighter \<Rightarrow> strkey \<Rightarrow> (nat \<Rightarrow> string + bool) \<Rightarrow> StellarConfig \<Rightarrow> WalletState \<Rightarrow> bool"
  for f sk isAllowed config where
  fresh: "wallet_reachable f sk isAllowed config new_wallet"
| restoring: "wallet_reachable f sk isAllowed config w \<Longrightarrow> restore f isAllowed config w = (r, w') \<Longrightarrow> wallet_reachable f sk isAllowed config w'"
| wallet_connecting: "wallet_reachable f sk isAllowed config w \<Longrightarrow> wallet_connect f sk config w = (r, w') \<Longrightarrow> wallet_reachable f sk isAllowed config w'"
| disconnecting: "wallet_reachable f sk isAllowed config w \<Longrightarrow> wallet_reachable f sk isAllowed config (disconnect w)"
| signing_with: "wallet_reachable f sk isAllowed config w \<Longrightarrow> signTransaction f x opts (ws_signer w) = (t, s) \<Longrightarrow>
    wallet_reachable f sk isAllowed config (w\<lparr>ws_signer := s\<rparr>)"
| authorizing_with: "wallet_reachable f sk isAllowed config w \<Longrightarrow> signAuthEntry f x opts (ws_signer w) = (t', s) \<Longrightarrow>
    wallet_reachable f sk isAllowed config (w\<lparr>ws_signer := s\<rparr>)"

text \<open>No operation of the signer but \<open>connect\<close> changes its key.\<close>

abbreviation keyed :: "string \<Rightarrow> wallet \<Rightarrow> bool" where
  "keyed k s \<equiv> sg_publicKey s = k"

lemma keyed_asking: "keeps (keyed k) (asking answer entry)"
  by (rule keepsI) (simp add: wp_def asking_def Let_def)

lemma keyed_current: "keeps (keyed k) current_key"
  by (rule keepsI) (simp add: wp_def current_key_def)

lemma keyed_getApi: "keeps (keyed k) (getApi f)"
  by (rule keepsI) (auto simp: wp_def getApi_def asking_def Let_def split: sum.split)

lemma keyed_detect_loop: "keeps (keyed k) (detect_loop f n)"
proof (induction n)
  case (Suc n)
  then show ?case unfolding detect_loop.simps action_act
    by (intro keeps_abind keyed_asking) (auto intro: keeps_basic split: sum.split bool.split)
qed (simp add: action_act keeps_basic)

lemma keyed_detect: "keeps (keyed k) (detectFreighter f)"
  unfolding detectFreighter_def action_act by (intro keeps_abind keyed_getApi keyed_detect_loop)

lemma keyed_sync: "keeps (keyed k) (syncNetwork f p)"
  unfolding syncNetwork_def action_act by (auto intro!: keeps_intros keyed_getApi keyed_asking split: option.split)

lemma keyed_signAuthEntry: "keeps (keyed k) (signAuthEntry f x opts)"
  unfolding signAuthEntry_def action_act Let_def by (auto intro!: keeps_intros keyed_getApi keyed_asking keyed_current keyed_sync)

lemma keyed_signTransaction: "keeps (keyed k) (signTransaction f x opts)"
  unfolding signTransaction_def action_act Let_def by (auto intro!: keeps_intros keyed_getApi keyed_asking keyed_current keyed_sync)

lemmas keyed_intros = keeps_intros keyed_getApi keyed_asking keyed_current keyed_sync keyed_detect

lemma wp_set_key: "wp (set_key a) Q E s = Q () (s\<lparr>sg_publicKey := a\<rparr>)"
  by (simp add: wp_def set_key_def)

text \<open>The action returns the non-empty key it set, or throws and leaves the key alone.\<close>

definition connects :: "string \<Rightarrow> (wallet, string) act \<Rightarrow> bool" where
  "connects k m \<longleftrightarrow> (\<forall>s. keyed k s \<longrightarrow> wp m (\<lambda>a s'. keyed a s' \<and> a \<noteq> []) (\<lambda>e. keyed k) s)"

lemma connects_bind: "keeps (keyed k) m \<Longrightarrow> (\<And>x. connects k (g x)) \<Longrightarrow> connects k (abind m g)"
  unfolding connects_def keeps_def wp_abind by (blast intro: wp_mono)

lemma connects_throw: "connects k (athrow e)"
  by (simp add: connects_def wp_athrow)

lemma connects_set: "a \<noteq> [] \<Longrightarrow> connects k (abind (set_key a) (\<lambda>_. aret a))"
  by (simp add: connects_def wp_rules wp_set_key)

lemma connects_if: "(b \<Longrightarrow> connects k m) \<Longrightarrow> (\<not> b \<Longrightarrow> connects k m') \<Longrightarrow> connects k (if b then m else m')"
  by simp

lemma connects_option: "(v = None \<Longrightarrow> connects k m) \<Longrightarrow> (\<And>x. v = Some x \<Longrightarrow> connects k (g x)) \<Longrightarrow> connects k (case v of None \<Rightarrow> m | Some x \<Rightarrow> g x)"
  by (cases v) auto

lemma connect_keyed: "connects k (connect f sk)"
  unfolding connect_def action_act
  apply (intro connects_bind [OF keyed_getApi] connects_bind [OF keyed_detect] connects_if connects_throw connects_bind [OF keyed_asking]
      connects_bind [OF keeps_basic(3)] connects_option)
  apply (rule connects_bind)
   apply (auto intro: keyed_intros connects_set connects_throw)
  done

lemma wp_signer_act: "wp (signer_act m) Q E w = wp m (\<lambda>x s. Q x (w\<lparr>ws_signer := s\<rparr>)) (\<lambda>e s. E e (w\<lparr>ws_signer := s\<rparr>)) (ws_signer w)"
  by (simp add: wp_def signer_act_def split: prod.splits sum.splits)

lemma wp_update: "wp (update_wallet g) Q E w = Q () (g w)"
  by (simp add: wp_def update_wallet_def)

lemma inv_signer: "wallet_inv w \<Longrightarrow> keyed (sg_publicKey (ws_signer w)) s \<Longrightarrow> wallet_inv (w\<lparr>ws_signer := s\<rparr>)"
  by (simp add: wallet_inv_def)

lemma keeps_signer_act: "(\<And>k. keeps (keyed k) m) \<Longrightarrow> keeps wallet_inv (signer_act m)"
proof (rule keepsI)
  fix w assume m: "\<And>k. keeps (keyed k) m" and w: "wallet_inv w"
  have "wp m (\<lambda>_. keyed (sg_publicKey (ws_signer w))) (\<lambda>_. keyed (sg_publicKey (ws_signer w))) (ws_signer w)"
    by (rule keepsD [OF m]) simp
  then show "wp (signer_act m) (\<lambda>_. wallet_inv) (\<lambda>_. wallet_inv) w"
    unfolding wp_signer_act by (rule wp_mono) (rule inv_signer [OF w], simp)+
qed

lemma keeps_update: "(\<And>w. wallet_inv w \<Longrightarrow> wallet_inv (g w)) \<Longrightarrow> keeps wallet_inv (update_wallet g)"
  by (rule keepsI) (simp add: wp_update)

lemma keeps_load: "keeps wallet_inv (loadFreighterApi f)"
  unfolding loadFreighterApi_def by (intro keeps_abind keeps_signer_act keyed_asking keeps_basic)

lemma keeps_wallet_sync: "keeps wallet_inv (wallet_syncNetwork f config)"
  unfolding wallet_syncNetwork_def
  by (auto intro!: keeps_intros keeps_load keeps_signer_act keyed_asking keeps_update simp: wallet_inv_def)

lemma keeps_restore: "keeps wallet_inv (restore f isAllowed config)"
  unfolding restore_def
  by (auto intro!: keeps_intros keeps_load keeps_signer_act keyed_intros keeps_update keeps_wallet_sync simp: wallet_inv_def restored_as_def)

lemma keeps_connect: "keeps wallet_inv (wallet_connect f sk config)"
proof -
  have main: "keeps wallet_inv (abind (signer_act (connect f sk)) (\<lambda>address. abind (update_wallet (connected_as address)) (\<lambda>_. wallet_syncNetwork f config)))"
  proof (rule keepsI)
    fix w assume w: "wallet_inv w"
    have "wp (connect f sk) (\<lambda>a s. wp (wallet_syncNetwork f config) (\<lambda>_. wallet_inv) (\<lambda>_. wallet_inv) (connected_as a (w\<lparr>ws_signer := s\<rparr>)))
        (\<lambda>e s. wallet_inv (w\<lparr>ws_signer := s\<rparr>)) (ws_signer w)"
    proof (rule wp_mono)
      show "wp (connect f sk) (\<lambda>a s. keyed a s \<and> a \<noteq> []) (\<lambda>e. keyed (sg_publicKey (ws_signer w))) (ws_signer w)"
        using connect_keyed by (simp add: connects_def)
      show "keyed a s \<and> a \<noteq> [] \<Longrightarrow> wp (wallet_syncNetwork f config) (\<lambda>_. wallet_inv) (\<lambda>_. wallet_inv) (connected_as a (w\<lparr>ws_signer := s\<rparr>))" for a s
        by (rule keepsD [OF keeps_wallet_sync]) (auto simp: connected_as_def wallet_inv_def)
    qed (rule inv_signer [OF w])
    then show "wp (abind (signer_act (connect f sk)) (\<lambda>address. abind (update_wallet (connected_as address)) (\<lambda>_. wallet_syncNetwork f config)))
        (\<lambda>_. wallet_inv) (\<lambda>_. wallet_inv) w"
      by (simp add: wp_abind wp_signer_act wp_update)
  qed
  show ?thesis unfolding wallet_connect_def
    by (intro keeps_abind keeps_afinally keeps_acatch main keeps_update) (simp_all add: wallet_inv_def)
qed

lemma wallet_reachable_inv: "wallet_reachable f sk isAllowed config w \<Longrightarrow> wallet_inv w"
proof (induction rule: wallet_reachable.induct)
  case fresh
  show ?case by (simp add: wallet_inv_def new_wallet_def new_signer_def)
next
  case (disconnecting w)
  show ?case by (simp add: wallet_inv_def disconnect_def)
qed (blast intro: keeps_final [OF keeps_restore] keeps_final [OF keeps_connect] inv_signer keeps_final [OF keyed_signTransaction]
    keeps_final [OF keyed_signAuthEntry])+

section \<open>Properties\<close>

text \<open>The wallet and its signer never disagree: after any sequence of restoring, connecting, disconnecting and signing, whatever the
  extension answers, the wallet is connected exactly when contract clients can be created, and they are then created for the very
  address the application shows.\<close>

theorem wallet_clients:
  assumes "wallet_reachable f sk isAllowed config w"
  shows "ws_connected w = (ws_address w \<noteq> None) \<and>
    getClients config (ws_signer w) = (case ws_address w of
       None \<Rightarrow> Inl ''Wallet not connected. Call signer.connect() first.''
     | Some a \<Rightarrow> Inr (createClients config (Some a)))"
  using wallet_reachable_inv [OF assms] by (auto simp: wallet_inv_def getClients_def split: if_splits)

definition restoring_wallet :: WalletState where
  "restoring_wallet = snd (restore (sample_freighter\<lparr>fr_getAddress := (\<lambda>_. Inr \<lparr>ac_address = ''G'', ac_error = None\<rparr>)\<rparr>) (\<lambda>_. Inr True)
     (TESTNET_CONFIG ''net'') new_wallet)"

theorem wallet_clients_witness:
  "wallet_reachable (sample_freighter\<lparr>fr_getAddress := (\<lambda>_. Inr \<lparr>ac_address = ''G'', ac_error = None\<rparr>)\<rparr>) sample_strkey (\<lambda>_. Inr True)
     (TESTNET_CONFIG ''net'') restoring_wallet \<and> ws_connected restoring_wallet \<and> \<not> ws_networkMismatch restoring_wallet \<and>
   getClients (TESTNET_CONFIG ''net'') (ws_signer restoring_wallet) = Inr (createClients (TESTNET_CONFIG ''net'') (Some ''G''))"
proof -
  let ?f = "sample_freighter\<lparr>fr_getAddress := (\<lambda>_. Inr \<lparr>ac_address = ''G'', ac_error = None\<rparr>)\<rparr>"
  have reach: "wallet_reachable ?f sample_strkey (\<lambda>_. Inr True) (TESTNET_CONFIG ''net'') restoring_wallet"
    unfolding restoring_wallet_def by (rule restoring [OF fresh]) (rule surjective_pairing)
  have "ws_address restoring_wallet = Some ''G''" "\<not> ws_networkMismatch restoring_wallet"
    by (simp_all add: restoring_wallet_def restore_def act_defs signer_act_def detectFreighter_def getApi_def andthen_def action_defs sample_freighter_def
        new_wallet_def new_signer_def DETECT_MAX_RETRIES_def eval_nat_numeral loadFreighterApi_def update_wallet_def restored_as_def
        wallet_syncNetwork_def TESTNET_CONFIG_def)
  with wallet_clients [OF reach] reach show ?thesis by simp
qed

end
