(* ===== verification/Try_Agent.thy ===== *)
theory Try_Agent
  imports Web_Wallet
begin

text \<open>
  The panel that sends paid requests to an agent (\<open>webapp/apps/web/src/lib/components/TryAgent/TryAgentPanel.svelte\<close>) as a state machine.

  \<open>panel\<close> holds the component's state. A handler runs up to its next \<open>await\<close>; the rest of it is an entry of \<open>tp_pending\<close> that may be resumed
  at any later time, after any other clicks, with any answer: \<open>panel_step\<close> interleaves them. \<open>tp_log\<close> lists the requests sent and the
  signatures asked for, the latest first. The response parsers of the payment packages, \<open>JSON.parse\<close>, \<open>JSON.stringify\<close>, dates and the
  clock are the fields of \<open>page\<close>, beside the component's properties.
\<close>

section \<open>State\<close>

datatype phase = Idle | Editing | Sending | Price_Confirm | Signing | Waiting_Response | Done | Cors_Error | Error_Phase

datatype protocol = X402 | Mpp

record pricing =
  pr_price :: native
  pr_network :: native
  pr_payTo :: native
  pr_scheme :: native

record http =
  ht_status :: int
  ht_header :: "string \<Rightarrow> string option"

record agent_response =
  re_status :: int
  re_body :: string
  re_settlement :: native

record agent_request =
  ar_url :: string
  ar_method :: string
  ar_headers :: "(string \<times> string) list"
  ar_body :: "string option"

datatype panel_event =
    Sent agent_request
  | Asked_Mpp challenge string
  | Asked_X402 native string

text \<open>Where a handler waits: for the first request, for the text of a response, for the second 402 of x402, for the wallet, for the paid
  request.\<close>

datatype pending =
    Await_Submit
  | Await_Text http
  | Await_Preflight string
  | Await_Preflight_Text http
  | Await_Payload
  | Await_Paid_X402
  | Await_Paid_Text_X402 http
  | Await_Credential
  | Await_Paid_Mpp
  | Await_Paid_Text_Mpp http

record panel =
  tp_active :: "nat option"
  tp_phase :: phase
  tp_method :: string
  tp_body :: string
  tp_error :: string
  tp_protocol :: "protocol option"
  tp_challenge :: "challenge option"
  tp_pricing :: "pricing option"
  tp_response :: "agent_response option"
  tp_x402Module :: bool
  tp_mppModule :: bool
  tp_pending :: "pending list"
  tp_log :: "panel_event list"

definition new_panel :: panel where
  "new_panel = \<lparr>tp_active = None, tp_phase = Idle, tp_method = ''POST'', tp_body = [], tp_error = [], tp_protocol = None, tp_challenge = None,
     tp_pricing = None, tp_response = None, tp_x402Module = False, tp_mppModule = False, tp_pending = [], tp_log = []\<rparr>"

record page =
  pg_services :: "ServiceEntry list"
  pg_x402Enabled :: bool
  pg_mppEnabled :: bool
  pg_config :: StellarConfig
  pg_challenge :: "http \<Rightarrow> string + challenge"
  pg_receipt :: "http \<Rightarrow> string + receipt"
  pg_decode :: "string \<Rightarrow> string + native" \<comment> \<open>\<open>decodePaymentRequiredHeader\<close>\<close>
  pg_encode :: "string \<Rightarrow> string + string" \<comment> \<open>\<open>encodePaymentSignatureHeader\<close>\<close>
  pg_json :: "string \<Rightarrow> string + native"
  pg_url_json :: "string \<Rightarrow> string" \<comment> \<open>\<open>JSON.stringify({ url })\<close>\<close>
  pg_date :: "string \<Rightarrow> int option"
  pg_fmt :: "rat \<Rightarrow> string"

definition activeService :: "page \<Rightarrow> panel \<Rightarrow> ServiceEntry option" where
  "activeService g p = (case tp_active p of None \<Rightarrow> None | Some i \<Rightarrow> if i < length (pg_services g) then Some (pg_services g ! i) else None)"

definition busy :: "panel \<Rightarrow> bool" where
  "busy p \<longleftrightarrow> tp_phase p \<in> {Sending, Signing, Waiting_Response}"

text \<open>\<open>formattedPrice\<close>; a price that is not text has no \<open>startsWith\<close> and throws.\<close>

definition formattedPrice :: "page \<Rightarrow> panel \<Rightarrow> string + string option" where
  "formattedPrice g p = (case tp_pricing p of
      None \<Rightarrow> Inr None
    | Some info \<Rightarrow>
        if \<not> truthy (pr_price info) then Inr None
        else (case pr_price info of
            NStr raw \<Rightarrow>
              if startsWith raw ''$'' then Inr (Some raw)
              else (let x = number_of_text raw; usdc = div_by x 10000000
                    in if num_less (JFin 0) x then Inr (Some (''$'' @ toFixed (pg_fmt g) (if num_less usdc (double (1 / 100)) then 4 else 2) usdc))
                       else Inr (Some raw))
          | _ \<Rightarrow> Inl ''raw.startsWith is not a function''))"

definition has_request_body :: "panel \<Rightarrow> bool" where
  "has_request_body p \<longleftrightarrow> tp_method p \<noteq> ''GET'' \<and> tp_method p \<noteq> ''HEAD'' \<and> tp_body p \<noteq> []"

definition curlCommand :: "page \<Rightarrow> panel \<Rightarrow> string" where
  "curlCommand g p = (case activeService g p of
      None \<Rightarrow> []
    | Some s \<Rightarrow> join ('' '' @ [CHR 0x5C, CHR 0x0A] @ ''  '')
        ([''curl -X '' @ tp_method p] @
         (if has_request_body p then [''-H '' @ in_quotes ''Content-Type: application/json'', ''-d '' @ [CHR 0x27] @ tp_body p @ [CHR 0x27]] else []) @
         [in_quotes (se_endpoint s)]))"

definition isPayableService :: "page \<Rightarrow> ServiceEntry \<Rightarrow> bool" where
  "isPayableService g s \<longleftrightarrow> (pg_x402Enabled g \<or> pg_mppEnabled g) \<and> startsWith (se_endpoint s) ''http'' \<and>
     toLowerCase (se_name s) \<in> set [''x402'', ''web'', ''rest'', ''http'']"

section \<open>Clicks\<close>

definition openTryPanel :: "page \<Rightarrow> nat \<Rightarrow> panel \<Rightarrow> panel" where
  "openTryPanel g idx p = p\<lparr>tp_active := Some idx, tp_phase := Editing, tp_method := ''POST'',
     tp_body := text_default [] (se_inputExample (pg_services g ! idx)), tp_error := [], tp_pricing := None, tp_response := None\<rparr>"

definition closeTryPanel :: "panel \<Rightarrow> panel" where
  "closeTryPanel p = p\<lparr>tp_active := None, tp_phase := Idle, tp_pricing := None, tp_response := None, tp_error := [], tp_protocol := None,
     tp_challenge := None\<rparr>"

definition resetToEditing :: "panel \<Rightarrow> panel" where
  "resetToEditing p = p\<lparr>tp_phase := Editing, tp_response := None, tp_pricing := None, tp_error := [], tp_protocol := None, tp_challenge := None\<rparr>"

definition buildFetchOptions :: "panel \<Rightarrow> (string \<times> string) list \<times> string option" where
  "buildFetchOptions p = (if has_request_body p then ([(''Content-Type'', ''application/json'')], Some (tp_body p)) else ([], None))"

definition fails :: "phase \<Rightarrow> string \<Rightarrow> panel \<Rightarrow> panel" where
  "fails ph m p = p\<lparr>tp_phase := ph, tp_error := m\<rparr>"

definition awaits :: "panel_event option \<Rightarrow> pending \<Rightarrow> panel \<Rightarrow> panel" where
  "awaits e a p = p\<lparr>tp_pending := a # tp_pending p, tp_log := (case e of None \<Rightarrow> tp_log p | Some x \<Rightarrow> x # tp_log p)\<rparr>"

definition first_request :: "page \<Rightarrow> panel \<Rightarrow> ServiceEntry \<Rightarrow> agent_request" where
  "first_request g p s = \<lparr>ar_url = se_endpoint s, ar_method = tp_method p, ar_headers = fst (buildFetchOptions p), ar_body = snd (buildFetchOptions p)\<rparr>"

definition url_like :: "string \<Rightarrow> bool" where
  "url_like s \<longleftrightarrow> startsWith (toLowerCase s) ''http://'' \<or> startsWith (toLowerCase s) ''https://''"

definition no_address :: "WalletState \<Rightarrow> bool" where
  "no_address w \<longleftrightarrow> ws_address w = None \<or> ws_address w = Some []"

text \<open>The check of the body before a request: the body to send, or an error.\<close>

definition checked_body :: "page \<Rightarrow> panel \<Rightarrow> string + string" where
  "checked_body g p =
     (if tp_method p \<noteq> ''GET'' \<and> trim (tp_body p) \<noteq> [] then
        (case pg_json g (tp_body p) of
           Inr v \<Rightarrow> Inr (tp_body p)
         | Inl e \<Rightarrow> if url_like (trim (tp_body p)) then Inr (pg_url_json g (trim (tp_body p))) else Inl ''Request body must be valid JSON.'')
      else Inr (tp_body p))"

definition submitRequest :: "page \<Rightarrow> WalletState \<Rightarrow> panel \<Rightarrow> panel" where
  "submitRequest g w p = (case activeService g p of
      None \<Rightarrow> p
    | Some s \<Rightarrow>
        if no_address w \<or> busy p then p
        else (case checked_body g p of
            Inl e \<Rightarrow> fails Error_Phase e p
          | Inr body \<Rightarrow> let p' = p\<lparr>tp_body := body, tp_phase := Sending, tp_error := []\<rparr> in awaits (Some (Sent (first_request g p' s))) Await_Submit p'))"

definition handleFetchError :: "string \<Rightarrow> panel \<Rightarrow> panel" where
  "handleFetchError msg p =
     (if has_substring msg ''Failed to fetch'' \<or> has_substring msg ''NetworkError'' \<or> has_substring msg ''CORS'' then p\<lparr>tp_phase := Cors_Error\<rparr>
      else if has_substring msg ''timed out'' then fails Error_Phase ''Request timed out. The service may be offline.'' p
      else fails Error_Phase msg p)"

text \<open>The \<open>catch\<close> of \<open>sendPaidRequest\<close>.\<close>

definition pay_error :: "page \<Rightarrow> string \<Rightarrow> panel \<Rightarrow> panel" where
  "pay_error g msg p =
     (if has_substring msg ''rejected'' \<or> has_substring msg ''denied'' \<or> has_substring msg ''cancelled''
      then fails Price_Confirm ''Transaction was rejected. You can try again.'' p
      else if has_substring msg ''timed out'' then fails Error_Phase ''Request timed out. Please try again.'' p
      else if has_substring msg ''insufficient'' \<or> has_substring msg ''balance'' then
        (case formattedPrice g p of
           Inl e \<Rightarrow> p
         | Inr price \<Rightarrow> fails Error_Phase (''Insufficient USDC balance. You need '' @
             (case price of None \<Rightarrow> ''funds'' | Some t \<Rightarrow> if t = [] then ''funds'' else t) @ ''.'') p)
      else if has_substring msg ''Failed to fetch'' \<or> has_substring msg ''NetworkError'' then p\<lparr>tp_phase := Cors_Error\<rparr>
      else fails Error_Phase msg p)"

definition sendX402PaidRequest :: "page \<Rightarrow> WalletState \<Rightarrow> panel \<Rightarrow> panel" where
  "sendX402PaidRequest g w p = (case activeService g p of
      None \<Rightarrow> p
    | Some s \<Rightarrow>
        if no_address w then p
        else if \<not> tp_x402Module p then fails Error_Phase ''Payment module failed to load. Please refresh the page.'' p
        else awaits (Some (Sent (first_request g p s))) (Await_Preflight (the (ws_address w))) p)"

definition challenge_expired :: "page \<Rightarrow> int \<Rightarrow> challenge \<Rightarrow> bool" where
  "challenge_expired g now c = (case ch_expires c of
      None \<Rightarrow> False
    | Some e \<Rightarrow> e \<noteq> [] \<and> (case pg_date g e of None \<Rightarrow> False | Some ms \<Rightarrow> ms < now))"

definition sendMppPaidRequest :: "page \<Rightarrow> WalletState \<Rightarrow> int \<Rightarrow> panel \<Rightarrow> panel" where
  "sendMppPaidRequest g w now p =
     (if activeService g p = None \<or> no_address w \<or> \<not> tp_mppModule p then fails Error_Phase ''MPP payment module not available. Please refresh the page.'' p
      else (case tp_challenge p of
          None \<Rightarrow> fails Error_Phase ''MPP payment module not available. Please refresh the page.'' p
        | Some c \<Rightarrow>
            if challenge_expired g now c then fails Error_Phase ''Payment challenge expired. Please try again.'' p
            else awaits (Some (Asked_Mpp c (the (ws_address w)))) Await_Credential p))"

text \<open>\<open>pricingInfo.network.includes(s)\<close>; on a value without \<open>includes\<close> it throws (\<open>None\<close>).\<close>

definition includes_text :: "native \<Rightarrow> string \<Rightarrow> bool option" where
  "includes_text v s = (case v of NStr t \<Rightarrow> Some (has_substring t s) | NArr vs \<Rightarrow> Some (NStr s \<in> set vs) | _ \<Rightarrow> None)"

definition sendPaidRequest :: "page \<Rightarrow> WalletState \<Rightarrow> int \<Rightarrow> panel \<Rightarrow> panel" where
  "sendPaidRequest g w now p = (case tp_pricing p of
      None \<Rightarrow> p
    | Some info \<Rightarrow>
        if activeService g p = None \<or> no_address w then p
        else if ws_networkMismatch w then
          (case includes_text (pr_network info) ''mainnet'' of
             None \<Rightarrow> p
           | Some m \<Rightarrow> fails Error_Phase (''Switch Freighter to '' @
               (if m \<or> includes_text (pr_network info) ''pubnet'' = Some True then ''Mainnet'' else ''Testnet'') @ '' to continue.'') p)
        else (let p' = p\<lparr>tp_phase := Signing, tp_error := []\<rparr>
              in if tp_protocol p = Some Mpp then sendMppPaidRequest g w now p' else sendX402PaidRequest g w p'))"

section \<open>Answers\<close>

datatype answer = Response "string + http" | Body_Text "string + string" | Signed "string + string"

definition mpp_pricing :: "page \<Rightarrow> challenge \<Rightarrow> pricing" where
  "mpp_pricing g c = (let info = extractMppPricing (pg_fmt g) c 7
     in \<lparr>pr_price = NStr (mp_displayPrice info), pr_network = NStr (mp_network info), pr_payTo = NStr (mp_recipient info),
         pr_scheme = NStr (if mp_feePayer info then ''mpp-sponsored'' else ''mpp-charge'')\<rparr>)"

text \<open>Deleting every backslash that does not start a JSON escape.\<close>

fun drop_bad_escapes :: "string \<Rightarrow> string" where
  "drop_bad_escapes [] = []"
| "drop_bad_escapes (c # cs) =
     (if c = CHR 0x5C \<and> (cs = [] \<or> hd cs \<notin> set (CHR 0x22 # CHR 0x5C # ''/bfnrtu'')) then drop_bad_escapes cs else c # drop_bad_escapes cs)"

definition fixed_header :: "page \<Rightarrow> string \<Rightarrow> string + native" where
  "fixed_header g header = (case atob header of
      None \<Rightarrow> Inl ''The string to be decoded is not correctly encoded.''
    | Some s \<Rightarrow> pg_json g (drop_bad_escapes s))"

definition first_item :: "native \<Rightarrow> native" where
  "first_item v = (case v of NArr (x # xs) \<Rightarrow> x | NStr (c # cs) \<Rightarrow> NStr [c] | NObj fs \<Rightarrow> getProp v ''0'' | _ \<Rightarrow> NUndef)"

fun first_truthy :: "native list \<Rightarrow> native \<Rightarrow> native" where
  "first_truthy [] d = d"
| "first_truthy (v # vs) d = (if truthy v then v else first_truthy vs d)"

definition x402_pricing :: "native \<Rightarrow> string + pricing" where
  "x402_pricing decoded =
     (if is_nullish decoded then Inl ''Cannot read properties of null (reading 'accepts')''
      else let a = first_item (getProp decoded ''accepts''); req = (if is_nullish a then decoded else a)
           in Inr \<lparr>pr_price = first_truthy [getProp req ''maxAmountRequired'', getProp req ''amount'', getProp req ''price''] (NStr ''?''),
                   pr_network = first_truthy [getProp req ''network'', getProp decoded ''network''] (NStr ''unknown''),
                   pr_payTo = first_truthy [getProp req ''payTo'', getProp req ''payToAddress''] (NStr []),
                   pr_scheme = first_truthy [getProp req ''scheme''] (NStr ''exact'')\<rparr>)"

definition nonempty_header :: "http \<Rightarrow> string \<Rightarrow> string option" where
  "nonempty_header r k = (case ht_header r k of None \<Rightarrow> None | Some v \<Rightarrow> if v = [] then None else Some v)"

text \<open>The 402 branch of \<open>submitRequest\<close>: MPP first, then x402.\<close>

definition read_x402 :: "page \<Rightarrow> http \<Rightarrow> panel \<Rightarrow> panel" where
  "read_x402 g r p =
     (case (case nonempty_header r ''PAYMENT-REQUIRED'' of None \<Rightarrow> nonempty_header r ''X-PAYMENT'' | Some h \<Rightarrow> Some h) of
        None \<Rightarrow> fails Cors_Error ''Endpoint returned 402 but the payment header is not accessible. The agent may need CORS headers.'' p
      | Some header \<Rightarrow>
          (case sbind (fixed_header g header) x402_pricing of
             Inl e \<Rightarrow> fails Error_Phase ''Could not parse payment header.'' (p\<lparr>tp_protocol := Some X402\<rparr>)
           | Inr info \<Rightarrow> p\<lparr>tp_protocol := Some X402, tp_pricing := Some info, tp_phase := Price_Confirm\<rparr>))"

definition payment_required :: "page \<Rightarrow> http \<Rightarrow> panel \<Rightarrow> panel" where
  "payment_required g r p =
     (case (if tp_mppModule p then parseMppChallenge (pg_challenge g) r else None) of
        Some c \<Rightarrow> p\<lparr>tp_protocol := Some Mpp, tp_challenge := Some c, tp_pricing := Some (mpp_pricing g c), tp_phase := Price_Confirm\<rparr>
      | None \<Rightarrow> read_x402 g r p)"

definition shows_response :: "http \<Rightarrow> string \<Rightarrow> native \<Rightarrow> panel \<Rightarrow> panel" where
  "shows_response r b settlement p = p\<lparr>tp_response := Some \<lparr>re_status = ht_status r, re_body = b, re_settlement = settlement\<rparr>, tp_phase := Done\<rparr>"

definition app_chain :: "StellarConfig \<Rightarrow> string" where
  "app_chain config = (if sc_networkPassphrase config = test_passphrase then ''stellar:testnet'' else ''stellar:pubnet'')"

definition accepted_networks :: "native \<Rightarrow> string list" where
  "accepted_networks required = (case getProp required ''accepts'' of
      NArr vs \<Rightarrow> concat (map (\<lambda>a. case getProp a ''network'' of NStr n \<Rightarrow> [n] | _ \<Rightarrow> []) vs)
    | _ \<Rightarrow> [])"

text \<open>\<open>sendX402PaidRequest\<close> after its preflight request.\<close>

definition x402_preflight :: "page \<Rightarrow> string \<Rightarrow> http \<Rightarrow> panel \<Rightarrow> panel" where
  "x402_preflight g address r p =
     (if ht_status r \<noteq> 402 then awaits None (Await_Preflight_Text r) p
      else (case nonempty_header r ''PAYMENT-REQUIRED'' of
          None \<Rightarrow> fails Cors_Error ''Payment header not accessible. The agent may need CORS headers.'' p
        | Some header \<Rightarrow>
            (case (case pg_decode g header of Inr v \<Rightarrow> Inr v | Inl e \<Rightarrow> fixed_header g header) of
               Inl e \<Rightarrow> pay_error g e p
             | Inr required \<Rightarrow>
                 let networks = accepted_networks required; appCaip = app_chain (pg_config g)
                 in if networks \<noteq> [] \<and> appCaip \<notin> set networks
                    then fails Error_Phase (''This agent requires payment on '' @ hd networks @ '', but the app is on '' @ appCaip @ ''. Switch networks to continue.'') p
                    else awaits (Some (Asked_X402 required address)) Await_Payload p)))"

text \<open>The paid request goes to the service that is active when the signature arrives.\<close>

definition paid_request :: "panel \<Rightarrow> (string \<times> string) \<Rightarrow> ServiceEntry \<Rightarrow> agent_request" where
  "paid_request p header s = \<lparr>ar_url = se_endpoint s, ar_method = tp_method p,
     ar_headers = header # (if tp_method p \<noteq> ''GET'' \<and> tp_body p \<noteq> [] then [(''Content-Type'', ''application/json'')] else []),
     ar_body = (if has_request_body p then Some (tp_body p) else None)\<rparr>"

definition send_paid :: "page \<Rightarrow> (string \<times> string) \<Rightarrow> pending \<Rightarrow> panel \<Rightarrow> panel" where
  "send_paid g header a p = (case activeService g p of
      None \<Rightarrow> pay_error g ''Cannot read properties of null (reading 'endpoint')'' p
    | Some s \<Rightarrow> awaits (Some (Sent (paid_request p header s))) a p)"

definition x402_settlement :: "page \<Rightarrow> http \<Rightarrow> native" where
  "x402_settlement g r = (case nonempty_header r ''PAYMENT-RESPONSE'' of
      None \<Rightarrow> NNull
    | Some header \<Rightarrow> (case atob header of
        None \<Rightarrow> NNull
      | Some s \<Rightarrow> (case pg_json g s of
          Inl e \<Rightarrow> NNull
        | Inr v \<Rightarrow> if \<not> is_nullish (getProp v ''txHash'') then getProp v ''txHash''
            else if \<not> is_nullish (getProp v ''transaction'') then getProp v ''transaction'' else NNull)))"

fun resume :: "page \<Rightarrow> pending \<Rightarrow> answer \<Rightarrow> panel \<Rightarrow> panel" where
  "resume g Await_Submit (Response (Inl e)) p = handleFetchError e p"
| "resume g Await_Submit (Response (Inr r)) p = (if ht_status r = 402 then payment_required g r p else awaits None (Await_Text r) p)"
| "resume g (Await_Text r) (Body_Text (Inl e)) p = handleFetchError e p"
| "resume g (Await_Text r) (Body_Text (Inr b)) p = shows_response r b NNull p"
| "resume g (Await_Preflight address) (Response (Inl e)) p = pay_error g e p"
| "resume g (Await_Preflight address) (Response (Inr r)) p = x402_preflight g address r p"
| "resume g (Await_Preflight_Text r) (Body_Text (Inl e)) p = pay_error g e p"
| "resume g (Await_Preflight_Text r) (Body_Text (Inr b)) p = shows_response r b NNull p"
| "resume g Await_Payload (Signed (Inl e)) p = pay_error g e p"
| "resume g Await_Payload (Signed (Inr payload)) p =
     (let p' = p\<lparr>tp_phase := Waiting_Response\<rparr>
      in case pg_encode g payload of Inl e \<Rightarrow> pay_error g e p' | Inr h \<Rightarrow> send_paid g (''PAYMENT-SIGNATURE'', h) Await_Paid_X402 p')"
| "resume g Await_Paid_X402 (Response (Inl e)) p = pay_error g e p"
| "resume g Await_Paid_X402 (Response (Inr r)) p = awaits None (Await_Paid_Text_X402 r) p"
| "resume g (Await_Paid_Text_X402 r) (Body_Text (Inl e)) p = pay_error g e p"
| "resume g (Await_Paid_Text_X402 r) (Body_Text (Inr b)) p = shows_response r b (x402_settlement g r) p"
| "resume g Await_Credential (Signed (Inl e)) p = pay_error g e p"
| "resume g Await_Credential (Signed (Inr credential)) p =
     send_paid g (''Authorization'', credential) Await_Paid_Mpp (p\<lparr>tp_phase := Waiting_Response\<rparr>)"
| "resume g Await_Paid_Mpp (Response (Inl e)) p = pay_error g e p"
| "resume g Await_Paid_Mpp (Response (Inr r)) p = awaits None (Await_Paid_Text_Mpp r) p"
| "resume g (Await_Paid_Text_Mpp r) (Body_Text (Inl e)) p = pay_error g e p"
| "resume g (Await_Paid_Text_Mpp r) (Body_Text (Inr b)) p = shows_response r b (text_or_null (fst (parseMppReceipt (pg_receipt g) r))) p"
| "resume g _ _ p = p"

fun answers :: "pending \<Rightarrow> answer \<Rightarrow> bool" where
  "answers Await_Submit (Response _) = True"
| "answers (Await_Preflight _) (Response _) = True"
| "answers Await_Paid_X402 (Response _) = True"
| "answers Await_Paid_Mpp (Response _) = True"
| "answers (Await_Text _) (Body_Text _) = True"
| "answers (Await_Preflight_Text _) (Body_Text _) = True"
| "answers (Await_Paid_Text_X402 _) (Body_Text _) = True"
| "answers (Await_Paid_Text_Mpp _) (Body_Text _) = True"
| "answers Await_Payload (Signed _) = True"
| "answers Await_Credential (Signed _) = True"
| "answers _ _ = False"

section \<open>The steps of the panel\<close>

text \<open>Each button is there in the phases in which the template shows it.\<close>

inductive panel_step :: "page \<Rightarrow> panel \<Rightarrow> panel \<Rightarrow> bool" for g where
  load_x402: "panel_step g p (p\<lparr>tp_x402Module := True\<rparr>)"
| load_mpp: "panel_step g p (p\<lparr>tp_mppModule := True\<rparr>)"
| opens: "i < length (pg_services g) \<Longrightarrow> isPayableService g (pg_services g ! i) \<Longrightarrow> tp_active p \<noteq> Some i \<Longrightarrow> panel_step g p (openTryPanel g i p)"
| closes: "tp_active p \<noteq> None \<Longrightarrow> panel_step g p (closeTryPanel p)"
| edits: "tp_phase p = Editing \<Longrightarrow> m \<in> {''POST'', ''GET''} \<Longrightarrow> panel_step g p (p\<lparr>tp_method := m, tp_body := b\<rparr>)"
| submits: "tp_phase p = Editing \<Longrightarrow> panel_step g p (submitRequest g w p)"
| confirms: "tp_phase p = Price_Confirm \<Longrightarrow> panel_step g p (sendPaidRequest g w now p)"
| resets: "tp_phase p \<in> {Price_Confirm, Signing, Waiting_Response, Error_Phase, Done} \<Longrightarrow> panel_step g p (resetToEditing p)"
| resumes: "tp_pending p = xs @ a # ys \<Longrightarrow> answers a v \<Longrightarrow> panel_step g p (resume g a v (p\<lparr>tp_pending := xs @ ys\<rparr>))"

inductive panel_reachable :: "page \<Rightarrow> panel \<Rightarrow> bool" for g where
  start: "panel_reachable g new_panel"
| step: "panel_reachable g p \<Longrightarrow> panel_step g p p' \<Longrightarrow> panel_reachable g p'"

section \<open>What the panel keeps\<close>

text \<open>While MPP is the protocol, the price shown is that of the stored challenge.\<close>

definition priced :: "page \<Rightarrow> panel \<Rightarrow> bool" where
  "priced g p \<longleftrightarrow> (tp_protocol p = Some Mpp \<longrightarrow> tp_pricing p = None \<or> (\<exists>c. tp_challenge p = Some c \<and> tp_pricing p = Some (mpp_pricing g c)))"

text \<open>A transition that adds no MPP signature to the log.\<close>

definition quiet :: "panel \<Rightarrow> panel \<Rightarrow> bool" where
  "quiet p p' \<longleftrightarrow> (\<forall>c a. tp_log p' \<noteq> Asked_Mpp c a # tp_log p)"

definition offer :: "panel \<Rightarrow> protocol option \<times> challenge option \<times> pricing option" where
  "offer p = (tp_protocol p, tp_challenge p, tp_pricing p)"

lemma priced_offer: "offer p' = offer p \<Longrightarrow> priced g p \<Longrightarrow> priced g p'"
  by (simp add: offer_def priced_def)

lemma fails_frame [simp]: "offer (fails ph m p) = offer p" "tp_log (fails ph m p) = tp_log p" "tp_pending (fails ph m p) = tp_pending p"
  by (simp_all add: fails_def offer_def)

lemma awaits_frame [simp]: "offer (awaits e a p) = offer p" "tp_log (awaits e a p) = (case e of None \<Rightarrow> tp_log p | Some x \<Rightarrow> x # tp_log p)"
  "tp_phase (awaits e a p) = tp_phase p" "tp_active (awaits e a p) = tp_active p" "tp_pending (awaits e a p) = a # tp_pending p"
  by (simp_all add: awaits_def offer_def)

lemma offer_frame [simp]: "offer (p\<lparr>tp_phase := ph\<rparr>) = offer p" "offer (p\<lparr>tp_error := m\<rparr>) = offer p" "offer (p\<lparr>tp_pending := xs\<rparr>) = offer p"
  "offer (p\<lparr>tp_body := b\<rparr>) = offer p" "offer (p\<lparr>tp_method := m\<rparr>) = offer p" "offer (p\<lparr>tp_response := r\<rparr>) = offer p"
  by (simp_all add: offer_def)

lemma error_frame [simp]: "offer (handleFetchError e p) = offer p" "tp_log (handleFetchError e p) = tp_log p"
  "offer (pay_error g e p) = offer p" "tp_log (pay_error g e p) = tp_log p"
  by (simp_all add: handleFetchError_def pay_error_def split: sum.split)

lemma response_frame [simp]: "offer (shows_response r b s p) = offer p" "tp_log (shows_response r b s p) = tp_log p"
  by (simp_all add: shows_response_def offer_def)

lemma send_paid_frame [simp]: "offer (send_paid g h a p) = offer p"
  by (simp add: send_paid_def split: option.split)

lemma send_paid_quiet: "tp_log p = l \<Longrightarrow> tp_log (send_paid g h a p) \<noteq> Asked_Mpp c w # l"
  by (simp add: send_paid_def split: option.split)

lemma preflight_frame [simp]: "offer (x402_preflight g address r p) = offer p"
  by (simp add: x402_preflight_def Let_def split: option.split sum.split)

lemma preflight_quiet: "tp_log (x402_preflight g address r p) \<noteq> Asked_Mpp c w # tp_log p"
  by (simp add: x402_preflight_def Let_def split: option.split sum.split)

lemma required_priced: "priced g p \<Longrightarrow> priced g (payment_required g r p)"
  by (auto simp: payment_required_def read_x402_def priced_def fails_def split: option.split sum.split)

lemma required_log [simp]: "tp_log (payment_required g r p) = tp_log p"
  by (simp add: payment_required_def read_x402_def split: option.split sum.split)

lemma resume_priced: "priced g p \<Longrightarrow> priced g (resume g a v p)"
  by (cases "(g, a, v, p)" rule: resume.cases)
    (auto simp: Let_def intro: priced_offer required_priced split: sum.split)

lemma resume_quiet: "tp_log p = l \<Longrightarrow> tp_log (resume g a v p) \<noteq> Asked_Mpp c w # l"
  by (cases "(g, a, v, p)" rule: resume.cases)
    (auto simp: Let_def preflight_quiet send_paid_quiet split: sum.split)

lemma submit_frame [simp]: "offer (submitRequest g w p) = offer p"
  by (simp add: submitRequest_def Let_def split: option.split sum.split)

lemma submit_quiet: "tp_log (submitRequest g w p) \<noteq> Asked_Mpp c a # tp_log p"
  by (simp add: submitRequest_def Let_def split: option.split sum.split)

lemma x402_frame [simp]: "offer (sendX402PaidRequest g w p) = offer p"
  by (simp add: sendX402PaidRequest_def split: option.split)

lemma x402_quiet: "tp_log p = l \<Longrightarrow> tp_log (sendX402PaidRequest g w p) \<noteq> Asked_Mpp c a # l"
  by (simp add: sendX402PaidRequest_def split: option.split)

lemma mpp_frame [simp]: "offer (sendMppPaidRequest g w now p) = offer p"
  by (simp add: sendMppPaidRequest_def split: option.split)

lemma confirm_frame [simp]: "offer (sendPaidRequest g w now p) = offer p"
  by (simp add: sendPaidRequest_def Let_def split: option.split)

text \<open>Confirming asks for a signature only of the stored challenge, for the connected address, on the right network and in time.\<close>

lemma confirm_asks:
  assumes "tp_log (sendPaidRequest g w now p) = Asked_Mpp c a # tp_log p"
  shows "tp_protocol p = Some Mpp" "tp_challenge p = Some c" "tp_pricing p \<noteq> None" "ws_address w = Some a" "\<not> ws_networkMismatch w" "\<not> challenge_expired g now c"
  using assms x402_quiet [of "p\<lparr>tp_phase := Signing, tp_error := []\<rparr>" "tp_log p" g w c a]
  by (auto simp: sendPaidRequest_def sendMppPaidRequest_def Let_def no_address_def split: option.splits if_splits)

lemma panel_step_priced: "panel_step g p p' \<Longrightarrow> priced g p \<Longrightarrow> priced g p'"
proof (induction rule: panel_step.induct)
  case (resumes p xs a ys v)
  then have "priced g (p\<lparr>tp_pending := xs @ ys\<rparr>)" by (auto intro: priced_offer)
  then show ?case by (rule resume_priced)
next
  case (submits p w)
  then show ?case by (auto intro: priced_offer)
next
  case (confirms p w now)
  then show ?case by (auto intro: priced_offer)
qed (auto simp: priced_def openTryPanel_def closeTryPanel_def resetToEditing_def)

lemma panel_priced: "panel_reachable g p \<Longrightarrow> priced g p"
proof (induction rule: panel_reachable.induct)
  case start
  show ?case by (simp add: new_panel_def priced_def)
qed (rule panel_step_priced)

lemma asks_only_on_confirm:
  assumes "panel_step g p p'" "tp_log p' = Asked_Mpp c a # tp_log p"
  obtains w now where "tp_phase p = Price_Confirm" "p' = sendPaidRequest g w now p"
  using assms
proof (cases rule: panel_step.cases)
  case (resumes xs b ys v)
  then show ?thesis using assms(2) resume_quiet [of "p\<lparr>tp_pending := xs @ ys\<rparr>" "tp_log p" g b v c a] by simp
next
  case (submits w)
  then show ?thesis using assms(2) submit_quiet by simp
qed (use that in \<open>auto simp: openTryPanel_def closeTryPanel_def resetToEditing_def\<close>)

section \<open>Properties\<close>

text \<open>C23. The price that is confirmed is the price that is signed: however clicks, late answers and loaded modules interleave, an MPP
  signature is asked for only by the click on the confirmation button, of the one challenge whose price, network, recipient and scheme
  the panel shows at that moment, for the connected address, with the wallet on the application's network and before the challenge expires.\<close>

theorem mpp_price_confirmed:
  assumes "panel_reachable g p" and "panel_step g p p'" and "tp_log p' = Asked_Mpp c a # tp_log p"
  shows "tp_phase p = Price_Confirm \<and> tp_pricing p = Some (mpp_pricing g c) \<and>
    (\<exists>w now. p' = sendPaidRequest g w now p \<and> ws_address w = Some a \<and> \<not> ws_networkMismatch w \<and> \<not> challenge_expired g now c)"
proof -
  from asks_only_on_confirm [OF assms(2,3)] obtain w now where w: "tp_phase p = Price_Confirm" "p' = sendPaidRequest g w now p" by blast
  with assms(3) have asks: "tp_log (sendPaidRequest g w now p) = Asked_Mpp c a # tp_log p" by simp
  note confirmed = confirm_asks [OF asks]
  with panel_priced [OF assms(1)] have "tp_pricing p = Some (mpp_pricing g c)" by (auto simp: priced_def)
  with w confirmed show ?thesis by blast
qed

definition sample_service :: "string \<Rightarrow> ServiceEntry" where
  "sample_service url = \<lparr>se_name = ''web'', se_endpoint = url, se_version = None, se_description = None, se_inputExample = None\<rparr>"

definition sample_page :: page where
  "sample_page = \<lparr>pg_services = [sample_service ''https://a'', sample_service ''https://b''], pg_x402Enabled = True, pg_mppEnabled = True,
     pg_config = TESTNET_CONFIG test_passphrase, pg_challenge = (\<lambda>_. Inr sample_challenge), pg_receipt = (\<lambda>_. Inl []), pg_decode = (\<lambda>_. Inl []),
     pg_encode = Inr, pg_json = (\<lambda>_. Inl []), pg_url_json = (\<lambda>_. []), pg_date = (\<lambda>_. None), pg_fmt = (\<lambda>_. [])\<rparr>"

definition paying_wallet :: WalletState where
  "paying_wallet = new_wallet\<lparr>ws_address := Some ''G'', ws_connected := True\<rparr>"

definition offered :: panel where
  "offered = payment_required sample_page \<lparr>ht_status = 402, ht_header = (\<lambda>_. None)\<rparr>
     ((submitRequest sample_page paying_wallet (openTryPanel sample_page 0 (new_panel\<lparr>tp_mppModule := True\<rparr>)))\<lparr>tp_pending := []\<rparr>)"

definition asked :: panel where
  "asked = sendPaidRequest sample_page paying_wallet 0 offered"

lemma sample_payable: "i < 2 \<Longrightarrow> isPayableService sample_page (pg_services sample_page ! i)"
  by (cases i) (auto simp: isPayableService_def sample_page_def sample_service_def toLowerCase_def lower_char_def code_of_def nth_Cons split: nat.split)

lemma sample_submitted:
  "submitRequest sample_page paying_wallet (openTryPanel sample_page 0 (new_panel\<lparr>tp_mppModule := True\<rparr>)) =
   new_panel\<lparr>tp_mppModule := True, tp_active := Some 0, tp_phase := Sending, tp_pending := [Await_Submit],
     tp_log := [Sent \<lparr>ar_url = ''https://a'', ar_method = ''POST'', ar_headers = [], ar_body = None\<rparr>]\<rparr>"
  by (simp add: submitRequest_def openTryPanel_def activeService_def sample_page_def new_panel_def sample_service_def no_address_def paying_wallet_def
      new_wallet_def busy_def checked_body_def trim_def awaits_def first_request_def buildFetchOptions_def has_request_body_def text_default_def)

lemma offered_eq:
  "offered = new_panel\<lparr>tp_mppModule := True, tp_active := Some 0, tp_phase := Price_Confirm, tp_protocol := Some Mpp, tp_challenge := Some sample_challenge,
     tp_pricing := Some (mpp_pricing sample_page sample_challenge), tp_log := [Sent \<lparr>ar_url = ''https://a'', ar_method = ''POST'', ar_headers = [], ar_body = None\<rparr>]\<rparr>"
  unfolding offered_def sample_submitted by (simp add: payment_required_def parseMppChallenge_def new_panel_def) (simp add: sample_page_def)

lemma offered_reachable: "panel_reachable sample_page offered"
proof -
  let ?m = "new_panel\<lparr>tp_mppModule := True\<rparr>"
  have "panel_reachable sample_page ?m" by (rule step [OF start load_mpp])
  then have "panel_reachable sample_page (openTryPanel sample_page 0 ?m)"
    by (rule step) (rule opens, simp_all add: sample_payable, simp_all add: sample_page_def new_panel_def)
  then have "panel_reachable sample_page (submitRequest sample_page paying_wallet (openTryPanel sample_page 0 ?m))"
    by (rule step) (rule submits, simp add: openTryPanel_def)
  moreover have "panel_step sample_page (submitRequest sample_page paying_wallet (openTryPanel sample_page 0 ?m)) offered"
    unfolding offered_def
    using resumes [of "submitRequest sample_page paying_wallet (openTryPanel sample_page 0 ?m)" "[]" Await_Submit "[]"
        "Response (Inr \<lparr>ht_status = 402, ht_header = (\<lambda>_. None)\<rparr>)" sample_page]
    by (simp add: sample_submitted)
  ultimately show ?thesis by (rule step)
qed

lemma asked_eq: "asked = offered\<lparr>tp_phase := Signing, tp_pending := [Await_Credential], tp_log := Asked_Mpp sample_challenge ''G'' # tp_log offered\<rparr>"
  unfolding asked_def
  by (simp add: offered_eq sendPaidRequest_def sendMppPaidRequest_def activeService_def sample_page_def paying_wallet_def new_wallet_def no_address_def
      challenge_expired_def sample_challenge_def awaits_def new_panel_def)

lemma asked_step: "panel_step sample_page offered asked"
  unfolding asked_def by (rule confirms) (simp add: offered_eq)

theorem mpp_price_confirmed_witness:
  "panel_reachable sample_page offered \<and> panel_step sample_page offered asked \<and> tp_log asked = Asked_Mpp sample_challenge ''G'' # tp_log offered \<and>
   tp_pricing offered = Some (mpp_pricing sample_page sample_challenge)"
proof -
  have "tp_log asked = Asked_Mpp sample_challenge ''G'' # tp_log offered" by (simp add: asked_eq)
  with mpp_price_confirmed [OF offered_reachable asked_step this] offered_reachable asked_step show ?thesis by blast
qed

text \<open>Cancelling, closing the panel or switching to another service does not stop a payment that waits for the wallet: the credential for
  the first service is then sent to the service that is open when the wallet answers.\<close>

definition switched :: panel where
  "switched = openTryPanel sample_page 1 (closeTryPanel (resetToEditing asked))"

theorem cancelled_payment_sent:
  "panel_reachable sample_page switched \<and> tp_phase switched = Editing \<and> tp_pricing switched = None \<and> tp_challenge switched = None \<and>
   panel_step sample_page switched (resume sample_page Await_Credential (Signed (Inr ''credential'')) (switched\<lparr>tp_pending := []\<rparr>)) \<and>
   hd (tp_log (resume sample_page Await_Credential (Signed (Inr ''credential'')) (switched\<lparr>tp_pending := []\<rparr>))) =
     Sent \<lparr>ar_url = ''https://b'', ar_method = ''POST'', ar_headers = [(''Authorization'', ''credential'')], ar_body = None\<rparr>"
proof -
  have s: "switched = new_panel\<lparr>tp_mppModule := True, tp_active := Some 1, tp_phase := Editing, tp_pending := [Await_Credential], tp_log := tp_log asked\<rparr>"
    unfolding switched_def
    by (simp add: asked_eq offered_eq openTryPanel_def closeTryPanel_def resetToEditing_def new_panel_def sample_page_def sample_service_def text_default_def)
  have "panel_reachable sample_page asked" by (rule step [OF offered_reachable asked_step])
  then have "panel_reachable sample_page (resetToEditing asked)" by (rule step) (rule resets, simp add: asked_eq)
  then have "panel_reachable sample_page (closeTryPanel (resetToEditing asked))"
    by (rule step) (rule closes, simp add: resetToEditing_def asked_eq offered_eq)
  then have "panel_reachable sample_page switched" unfolding switched_def
    by (rule step) (rule opens, simp_all add: sample_payable closeTryPanel_def, simp add: sample_page_def)
  moreover have "tp_pending switched = [] @ Await_Credential # []" by (simp add: s)
  then have "panel_step sample_page switched (resume sample_page Await_Credential (Signed (Inr ''credential'')) (switched\<lparr>tp_pending := [] @ []\<rparr>))"
    by (rule resumes) simp
  then have "panel_step sample_page switched (resume sample_page Await_Credential (Signed (Inr ''credential'')) (switched\<lparr>tp_pending := []\<rparr>))"
    by (simp only: append_Nil)
  moreover have "hd (tp_log (resume sample_page Await_Credential (Signed (Inr ''credential'')) (switched\<lparr>tp_pending := []\<rparr>))) =
     Sent \<lparr>ar_url = ''https://b'', ar_method = ''POST'', ar_headers = [(''Authorization'', ''credential'')], ar_body = None\<rparr>"
    by (simp add: s send_paid_def activeService_def sample_page_def sample_service_def awaits_def paid_request_def new_panel_def has_request_body_def)
  ultimately show ?thesis by (simp add: s new_panel_def)
qed

end
