(* ===== verification/Wallet_Repair.thy ===== *)
theory Wallet_Repair
  imports Web_Payments Db_Schema
begin

text \<open>
  The repair of the wallet column: \<open>webapp/apps/indexer/src/wallets.ts\<close> and \<open>webapp/apps/indexer/scripts/wallets-to-sql.ts\<close>. The simulated
  contract call and the checks of \<open>StrKey\<close> are parameters.

  SQL text is read known by \<open>read_update\<close>, a reader of the one form of statement the script prints, so that the theorem says what the printed
  text means and not only what was meant by it.
\<close>

section \<open>The script\<close>

text \<open>\<open>/^(\d+)(?:-(\d+))?$/\<close> on a trimmed part: the two groups.\<close>

definition id_range :: "string \<Rightarrow> (string \<times> string option) option" where
  "id_range s =
     (let a = takeWhile is_digit s; r = dropWhile is_digit s
      in if a = [] then None
         else if r = [] then Some (a, None)
         else if hd r = CHR ''-'' \<and> tl r \<noteq> [] \<and> list_all is_digit (tl r) then Some (a, Some (tl r)) else None)"

text \<open>The numbers from \<open>first\<close> to \<open>last\<close>, the sums as doubles; an array has at most \<open>2^32 - 1\<close> elements, and the length \<open>NaN\<close> gives
  none.\<close>

definition sum_double :: "rat \<Rightarrow> nat \<Rightarrow> jsnum" where
  "sum_double a i = double (a + of_nat i)"

definition number_range :: "jsnum \<Rightarrow> jsnum \<Rightarrow> string + jsnum list" where
  "number_range first final = (case (first, final) of
      (JFin a, JFin b) \<Rightarrow> if 2 ^ 32 - 1 < b - a + 1 then Inl ''Invalid array length'' else Inr (map (sum_double a) [0..<nat \<lfloor>b - a + 1\<rfloor>])
    | (JInf x, JInf y) \<Rightarrow> Inr []
    | _ \<Rightarrow> Inl ''Invalid array length'')"

definition parse_part :: "string \<Rightarrow> string + jsnum list" where
  "parse_part part = (case id_range (trim part) of
      None \<Rightarrow> Inl (''Invalid agent ids: '' @ part)
    | Some (a, b) \<Rightarrow>
        (let first = number_of_text a; final = number_of_text (text_default a b)
         in if num_less final first then Inl (''Invalid agent ids: '' @ part) else number_range first final))"

definition parseIds :: "string \<Rightarrow> string + jsnum list" where
  "parseIds spec = sbind (smap parse_part (split_on (CHR '','') spec)) (\<lambda>parts. Inr (concat parts))"

type_synonym AgentWallet = "jsnum \<times> string option"

definition readWallets :: "(jsnum \<Rightarrow> string + string option) \<Rightarrow> jsnum list \<Rightarrow> string + AgentWallet list" where
  "readWallets get_agent_wallet agentIds = smap (\<lambda>i. sbind (get_agent_wallet i) (\<lambda>result. Inr (i, result))) agentIds"

record wallet_keys =
  wk_ed25519 :: "string \<Rightarrow> bool"
  wk_contract :: "string \<Rightarrow> bool"
  wk_muxed :: "string \<Rightarrow> bool"

definition wallet_ok :: "wallet_keys \<Rightarrow> string \<Rightarrow> bool" where
  "wallet_ok sk s \<longleftrightarrow> wk_ed25519 sk s \<or> wk_contract sk s \<or> wk_muxed sk s"

definition wallet_line :: "wallet_keys \<Rightarrow> (rat \<Rightarrow> string) \<Rightarrow> AgentWallet \<Rightarrow> string + string" where
  "wallet_line sk fmt = (\<lambda>(i, wallet).
     if \<not> isSafeInteger i \<or> num_less i (JFin 0) then Inl (''Invalid agent id: '' @ js_String fmt (NNum i))
     else (case wallet of
         None \<Rightarrow> Inr (''UPDATE agents SET wallet = NULL WHERE id = '' @ js_String fmt (NNum i) @ '';'' @ [CHR 0x0A])
       | Some a \<Rightarrow>
           if \<not> wallet_ok sk a then Inl (''Unexpected wallet for agent '' @ js_String fmt (NNum i) @ '': '' @ a)
           else Inr (''UPDATE agents SET wallet = '' @ [CHR 0x27] @ a @ [CHR 0x27] @ '' WHERE id = '' @ js_String fmt (NNum i) @ '';'' @ [CHR 0x0A])))"

definition walletSql :: "wallet_keys \<Rightarrow> (rat \<Rightarrow> string) \<Rightarrow> AgentWallet list \<Rightarrow> string + string" where
  "walletSql sk fmt wallets = sbind (smap (wallet_line sk fmt) wallets) (\<lambda>ls. Inr (concat ls))"

definition wallets_to_sql :: "wallet_keys \<Rightarrow> (rat \<Rightarrow> string) \<Rightarrow> (jsnum \<Rightarrow> string + string option) \<Rightarrow> string \<Rightarrow> string \<Rightarrow> string + string" where
  "wallets_to_sql sk fmt get_agent_wallet rpcUrl ids =
     (if rpcUrl = [] \<or> ids = [] then Inl ''usage: node scripts/wallets-to-sql.ts <mainnet RPC URL> <agent ids, e.g. 0-73 or 1,5,9>''
      else sbind (parseIds ids) (\<lambda>agentIds. sbind (readWallets get_agent_wallet agentIds) (walletSql sk fmt)))"

section \<open>Reading the statements back\<close>

text \<open>An SQL string literal ends at the first quote that is not doubled.\<close>

fun read_string :: "string \<Rightarrow> (string \<times> string) option" where
  "read_string [] = None"
| "read_string (c # cs) =
     (if c = CHR 0x27 then
        (case cs of
           d # ds \<Rightarrow> if d = CHR 0x27 then map_option (\<lambda>(s, rest). (CHR 0x27 # s, rest)) (read_string ds) else Some ([], cs)
         | [] \<Rightarrow> Some ([], []))
      else map_option (\<lambda>(s, rest). (c # s, rest)) (read_string cs))"

definition drop_prefix :: "string \<Rightarrow> string \<Rightarrow> string option" where
  "drop_prefix p s = (if startsWith s p then Some (drop (length p) s) else None)"

text \<open>The value of the assignment and the text after it.\<close>

definition read_assigned :: "string \<Rightarrow> (string option \<times> string) option" where
  "read_assigned s = (case drop_prefix ''NULL'' s of
      Some rest \<Rightarrow> Some (None, rest)
    | None \<Rightarrow> (case drop_prefix [CHR 0x27] s of
        Some body \<Rightarrow> map_option (\<lambda>(v, rest). (Some v, rest)) (read_string body)
      | None \<Rightarrow> None))"

definition read_update :: "string \<Rightarrow> ((nat \<times> string option) \<times> string) option" where
  "read_update s = (case drop_prefix ''UPDATE agents SET wallet = '' s of
      None \<Rightarrow> None
    | Some t \<Rightarrow> (case read_assigned t of
        None \<Rightarrow> None
      | Some (w, u) \<Rightarrow> (case drop_prefix '' WHERE id = '' u of
          None \<Rightarrow> None
        | Some v \<Rightarrow> (let ds = takeWhile is_digit v
            in if ds = [] then None
               else (case drop_prefix ('';'' @ [CHR 0x0A]) (dropWhile is_digit v) of None \<Rightarrow> None | Some rest \<Rightarrow> Some ((read_nat ds, w), rest))))))"

function read_updates :: "string \<Rightarrow> (nat \<times> string option) list option" where
  "read_updates s = (if s = [] then Some []
     else (case read_update s of
         None \<Rightarrow> None
       | Some (u, rest) \<Rightarrow> if length rest < length s then map_option (\<lambda>us. u # us) (read_updates rest) else None))"
  by auto
termination by (relation "measure length") auto

declare read_updates.simps [simp del]

section \<open>Lemmas\<close>

lemma drop_prefix_append: "drop_prefix p (p @ s) = Some s"
  by (simp add: drop_prefix_def)

lemma read_string_plain: "CHR 0x27 \<notin> set s \<Longrightarrow> c \<noteq> CHR 0x27 \<Longrightarrow> read_string (s @ CHR 0x27 # c # rest) = Some (s, c # rest)"
  by (induction s) auto

lemma takeWhile_digits_append: "list_all is_digit ds \<Longrightarrow> \<not> is_digit c \<Longrightarrow> takeWhile is_digit (ds @ c # s) = ds \<and> dropWhile is_digit (ds @ c # s) = c # s"
  by (induction ds) auto

lemma safe_id:
  assumes "isSafeInteger i" "\<not> num_less i (JFin 0)"
  obtains n where "i = JFin (of_nat n)" "js_String fmt (NNum i) = show_nat n"
proof -
  from assms obtain r where r: "i = JFin r" "of_int \<lfloor>r\<rfloor> = r" "0 \<le> r"
    by (cases i) (auto simp: isSafeInteger_def)
  then have "0 \<le> \<lfloor>r\<rfloor>" by simp
  then obtain n where n: "\<lfloor>r\<rfloor> = int n" using nonneg_int_cases by blast
  with r(2) have "r = of_nat n" by (metis of_int_of_nat_eq)
  with assms(1) r(1) n have "js_String fmt (NNum i) = show_nat n" by (simp add: show_int_def)
  with \<open>r = of_nat n\<close> r(1) that show ?thesis by blast
qed

definition id_nat :: "jsnum \<Rightarrow> nat" where
  "id_nat i = (case i of JFin r \<Rightarrow> nat \<lfloor>r\<rfloor> | _ \<Rightarrow> 0)"

lemma read_where:
  "(let ds = takeWhile is_digit (show_nat n @ '';'' @ [CHR 0x0A] @ rest)
    in if ds = [] then None
       else (case drop_prefix ('';'' @ [CHR 0x0A]) (dropWhile is_digit (show_nat n @ '';'' @ [CHR 0x0A] @ rest)) of None \<Rightarrow> None | Some r \<Rightarrow> Some ((read_nat ds, w), r)))
   = Some ((n, w), rest)"
  using takeWhile_digits_append [OF list_all_digits_show [of n], of "CHR '';''" "CHR 0x0A # rest"] drop_prefix_append [of "'';'' @ [CHR 0x0A]" rest]
  by (simp add: read_show_nat is_digit_def code_of_def)

lemma read_update_eq:
  assumes "read_assigned (a @ '' WHERE id = '' @ show_nat n @ '';'' @ [CHR 0x0A] @ rest) = Some (w, '' WHERE id = '' @ show_nat n @ '';'' @ [CHR 0x0A] @ rest)"
  shows "read_update (''UPDATE agents SET wallet = '' @ a @ '' WHERE id = '' @ show_nat n @ '';'' @ [CHR 0x0A] @ rest) = Some ((n, w), rest)"
  unfolding read_update_def drop_prefix_append option.case prod.case assms read_where ..

lemma assigned_null: "read_assigned (''NULL'' @ rest) = Some (None, rest)"
  by (simp add: read_assigned_def drop_prefix_def)

lemma assigned_text:
  assumes "CHR 0x27 \<notin> set s"
  shows "read_assigned (([CHR 0x27] @ s @ [CHR 0x27]) @ '' WHERE id = '' @ rest) = Some (Some s, '' WHERE id = '' @ rest)"
  using read_string_plain [OF assms, of "CHR '' ''"] by (simp add: read_assigned_def drop_prefix_def)

lemma read_line:
  assumes "wallet_line sk fmt (i, w) = Inr l" and "\<forall>s. wallet_ok sk s \<longrightarrow> CHR 0x27 \<notin> set s"
  shows "read_update (l @ rest) = Some ((id_nat i, w), rest)"
proof -
  from assms(1) have ok: "isSafeInteger i" "\<not> num_less i (JFin 0)" by (auto simp: wallet_line_def split: if_splits)
  from safe_id [OF this, of fmt] obtain n where n: "i = JFin (of_nat n)" "js_String fmt (NNum i) = show_nat n" by blast
  then have id: "id_nat i = n" by (simp add: id_nat_def)
  show ?thesis
  proof (cases w)
    case None
    then have "l @ rest = ''UPDATE agents SET wallet = '' @ ''NULL'' @ '' WHERE id = '' @ show_nat n @ '';'' @ [CHR 0x0A] @ rest"
      using assms(1) ok n(2) by (auto simp: wallet_line_def)
    with None id show ?thesis by (simp only: read_update_eq [OF assigned_null])
  next
    case (Some s)
    then have "wallet_ok sk s" using assms(1) ok by (auto simp: wallet_line_def split: if_splits)
    then have s: "CHR 0x27 \<notin> set s" using assms(2) by blast
    have "l @ rest = ''UPDATE agents SET wallet = '' @ ([CHR 0x27] @ s @ [CHR 0x27]) @ '' WHERE id = '' @ show_nat n @ '';'' @ [CHR 0x0A] @ rest"
      using assms(1) ok n(2) Some by (auto simp: wallet_line_def split: if_splits)
    with Some id show ?thesis by (simp only: read_update_eq [OF assigned_text [OF s]])
  qed
qed

lemma read_wallets:
  assumes "smap (wallet_line sk fmt) ws = Inr ls" and "\<forall>s. wallet_ok sk s \<longrightarrow> CHR 0x27 \<notin> set s"
  shows "read_updates (concat ls) = Some (map (\<lambda>(i, w). (id_nat i, w)) ws)"
  using assms(1)
proof (induction ws arbitrary: ls)
  case Nil
  then show ?case by (simp add: read_updates.simps)
next
  case (Cons x ws)
  then obtain l ls' where l: "wallet_line sk fmt x = Inr l" "smap (wallet_line sk fmt) ws = Inr ls'" "ls = l # ls'" by (auto simp: sbind_eq_Inr)
  obtain i w where x: "x = (i, w)" by fastforce
  have "l \<noteq> []" using l(1) x by (auto simp: wallet_line_def split: if_splits option.splits)
  then show ?case
    using read_line [OF l(1) [unfolded x] assms(2)] Cons.IH [OF l(2)] l(3) x
    by (subst read_updates.simps) auto
qed

section \<open>Running the statements\<close>

definition put_wallet :: "nat \<times> string option \<Rightarrow> (int \<times> agent_row) list \<Rightarrow> (int \<times> agent_row) list" where
  "put_wallet u rows = map (\<lambda>(k, r). (k, if k = int (fst u) then r\<lparr>a_wallet := snd u\<rparr> else r)) rows"

lemma put_wallets:
  assumes "\<And>i w. (i, w) \<in> set us \<Longrightarrow> w = contract (int i)"
  shows "fold put_wallet us rows =
    map (\<lambda>(k, r). (k, if \<exists>i \<in> fst ` set us. int i = k then r\<lparr>a_wallet := contract k\<rparr> else r)) rows"
  using assms
proof (induction us arbitrary: rows)
  case Nil
  then show ?case by (simp add: case_prod_beta')
next
  case (Cons u us)
  have u: "snd u = contract (int (fst u))" using Cons.prems [of "fst u" "snd u"] by simp
  have "fold put_wallet us (put_wallet u rows) =
    map (\<lambda>(k, r). (k, if \<exists>i \<in> fst ` set us. int i = k then r\<lparr>a_wallet := contract k\<rparr> else r)) (put_wallet u rows)"
    by (rule Cons.IH) (rule Cons.prems, simp)
  also have "\<dots> = map (\<lambda>(k, r). (k, if \<exists>i \<in> fst ` set (u # us). int i = k then r\<lparr>a_wallet := contract k\<rparr> else r)) rows"
    using u by (auto simp: put_wallet_def)
  finally show ?case by simp
qed

lemma walletSqlE:
  assumes "walletSql sk fmt ws = Inr sql"
  obtains ls where "smap (wallet_line sk fmt) ws = Inr ls" "sql = concat ls"
  using assms by (auto simp: walletSql_def sbind_eq_Inr)

lemma readWallets_spec: "readWallets get ids = Inr ws \<Longrightarrow> map fst ws = ids \<and> (\<forall>(i, w) \<in> set ws. get i = Inr w)"
  unfolding readWallets_def by (induction ids arbitrary: ws) (auto simp: sbind_eq_Inr)

lemma smap_safe: "smap (wallet_line sk fmt) ws = Inr ls \<Longrightarrow> (i, w) \<in> set ws \<Longrightarrow> isSafeInteger i \<and> \<not> num_less i (JFin 0)"
  by (induction ws arbitrary: ls) (auto simp: sbind_eq_Inr wallet_line_def split: if_splits)

lemma id_nat_safe: "isSafeInteger i \<Longrightarrow> \<not> num_less i (JFin 0) \<Longrightarrow> i = JFin (of_int (int (id_nat i)))"
  by (rule safe_id [of i]) (auto simp: id_nat_def)

section \<open>Properties\<close>

text \<open>The printed repair sets every listed wallet to what the contract holds: when the script prints text, SQLite reads it as updates of the
  listed agents, and running them changes nothing but the wallets of those agents, each to the address that the contract returned for it
  or to NULL. The hypothesis on the address check is that a valid address contains no quote.\<close>

theorem wallets_repaired:
  assumes "readWallets get ids = Inr ws" and "walletSql sk fmt ws = Inr sql"
    and "\<forall>s. wallet_ok sk s \<longrightarrow> CHR 0x27 \<notin> set s"
  shows "\<exists>us. read_updates sql = Some us \<and>
    fold put_wallet us rows = map (\<lambda>(k, r). (k, if JFin (of_int k) \<in> set ids
        then r\<lparr>a_wallet := (case get (JFin (of_int k)) of Inr w \<Rightarrow> w | Inl e \<Rightarrow> None)\<rparr> else r)) rows"
proof -
  from assms(2) obtain ls where ls: "smap (wallet_line sk fmt) ws = Inr ls" "sql = concat ls" by (rule walletSqlE)
  define us where "us = map (\<lambda>(i, w). (id_nat i, w)) ws"
  define contract where "contract = (\<lambda>k. case get (JFin (rat_of_int k)) of Inr w \<Rightarrow> w | Inl e \<Rightarrow> None)"
  have known: "i = JFin (of_int (int (id_nat i)))" if "(i, w) \<in> set ws" for i w
    using smap_safe [OF ls(1) that] id_nat_safe by blast
  note read = readWallets_spec [OF assms(1)]
  have "w = contract (int n)" if "(n, w) \<in> set us" for n w
    using that read known by (auto simp: us_def contract_def split: sum.splits)
  from put_wallets [of us contract rows, OF this]
  have "fold put_wallet us rows = map (\<lambda>(k, r). (k, if \<exists>i \<in> fst ` set us. int i = k then r\<lparr>a_wallet := contract k\<rparr> else r)) rows" by blast
  moreover have "(\<exists>i \<in> fst ` set us. int i = k) = (JFin (of_int k) \<in> set ids)" for k
  proof
    assume "\<exists>i \<in> fst ` set us. int i = k"
    then obtain i w where "(i, w) \<in> set ws" "int (id_nat i) = k" by (auto simp: us_def)
    with known read show "JFin (of_int k) \<in> set ids" by force
  next
    assume "JFin (of_int k) \<in> set ids"
    with read obtain w where w: "(JFin (of_int k), w) \<in> set ws" by (metis (no_types, lifting) image_iff list.set_map prod.collapse)
    with known [OF w] have "int (id_nat (JFin (of_int k))) = k" by simp
    with w show "\<exists>i \<in> fst ` set us. int i = k" by (force simp: us_def)
  qed
  moreover have "read_updates sql = Some us" using read_wallets [OF ls(1) assms(3)] ls(2) by (simp add: us_def)
  ultimately show ?thesis by (auto simp: contract_def)
qed

definition sample_keys :: wallet_keys where
  "sample_keys = \<lparr>wk_ed25519 = (\<lambda>s. s = ''GA''), wk_contract = (\<lambda>_. False), wk_muxed = (\<lambda>_. False)\<rparr>"

definition sample_contract :: "jsnum \<Rightarrow> string + string option" where
  "sample_contract i = Inr (if i = JFin 7 then Some ''GA'' else None)"

theorem wallets_repaired_witness:
  "\<exists>sql us. walletSql sample_keys (\<lambda>_. []) [(JFin 7, Some ''GA''), (JFin 8, None)] = Inr sql \<and> read_updates sql = Some us \<and>
     (\<forall>r r'. fold put_wallet us [(7, r), (9, r')] = [(7, r\<lparr>a_wallet := Some ''GA''\<rparr>), (9, r')])"
proof -
  let ?ws = "[(JFin 7, Some ''GA''), (JFin 8, None)]"
  have run: "readWallets sample_contract [JFin 7, JFin 8] = Inr ?ws" by (simp add: readWallets_def sample_contract_def)
  have "\<exists>sql. walletSql sample_keys (\<lambda>_. []) ?ws = Inr sql"
    by (simp add: walletSql_def wallet_line_def wallet_ok_def sample_keys_def isSafeInteger_def max_safe_def)
  then obtain sql where sql: "walletSql sample_keys (\<lambda>_. []) ?ws = Inr sql" by blast
  have plain: "\<forall>s. wallet_ok sample_keys s \<longrightarrow> CHR 0x27 \<notin> set s" by (auto simp: wallet_ok_def sample_keys_def)
  note repaired = wallets_repaired [OF run sql plain]
  from repaired obtain us where us: "read_updates sql = Some us" by blast
  have "fold put_wallet us [(7, r), (9, r')] = [(7, r\<lparr>a_wallet := Some ''GA''\<rparr>), (9, r')]" for r r'
    using repaired [where rows = "[(7, r), (9, r')]"] us by (auto simp: sample_contract_def)
  with sql us show ?thesis by blast
qed

end
