(* ===== verification/Snapshot.thy ===== *)
theory Snapshot
  imports Wallet_Repair
begin

text \<open>
  The copy of a Supabase snapshot into SQL text (\<open>webapp/packages/d1/scripts/snapshot-to-sql.ts\<close>).

  The script is modelled as the list of statements it emits (\<open>sql_line\<close>) and their text (\<open>render\<close>). The parsed JSON files are an argument,
  \<open>JSON.stringify\<close> a parameter. \<open>exec_line\<close> says what D1 does with a statement under the schema of \<open>migrations/0001_init.sql\<close>: column
  affinities, row ids, NOT NULL, CHECK, UNIQUE and FOREIGN KEY constraints, the size of a row and cascading deletes; \<open>import_file\<close> adds the limit on the length of a
  statement and that a failed import changes nothing. SQLite's JSON functions and its reading of a text as an integer are a parameter. The
  full-text index is not part of the state, and the trigger on \<open>transferred_ledger\<close> is left out: texts are written in pieces, numbers are not.
  Characters have codes below 256, so that a character takes one or two bytes in UTF-8.
\<close>

section \<open>Rows and columns\<close>

type_synonym json_row = "(string \<times> native) list"

type_synonym column = "string \<times> (json_row \<Rightarrow> string + native)"

record table_spec =
  ts_table :: string
  ts_key :: "string list"
  ts_columns :: "column list"

definition field :: "json_row \<Rightarrow> string \<Rightarrow> native" where
  "field row c = getProp (NObj row) c"

definition plain :: "string \<Rightarrow> column" where
  "plain c = (c, \<lambda>row. Inr (field row c))"

definition jsonText :: "(native \<Rightarrow> string) \<Rightarrow> string \<Rightarrow> string \<Rightarrow> json_row \<Rightarrow> string + native" where
  "jsonText stringify t v row = Inr
     (if \<not> is_nullish (field row t) then field row t else if is_nullish (field row v) then NNull else NStr (stringify (field row v)))"

definition or_empty :: "native \<Rightarrow> native" where
  "or_empty v = (if is_nullish v then NArr [] else v)"

definition value_column :: "(rat \<Rightarrow> string) \<Rightarrow> json_row \<Rightarrow> string + native" where
  "value_column fmt row = (case field row ''value_text'' of
      NStr s \<Rightarrow> Inr (NStr s)
    | _ \<Rightarrow> Inl (''feedback '' @ js_String fmt (field row ''id'') @ '': value_text missing''))"

definition TABLES :: "(rat \<Rightarrow> string) \<Rightarrow> (native \<Rightarrow> string) \<Rightarrow> table_spec list" where
  "TABLES fmt stringify =
     [\<lparr>ts_table = ''agents'', ts_key = [''id''], ts_columns =
         map plain [''id'', ''owner'', ''agent_uri''] @ [(''agent_uri_data'', jsonText stringify ''agent_uri_data_text'' ''agent_uri_data'')] @
         map plain [''wallet'', ''created_at'', ''updated_at'', ''created_ledger'', ''tx_hash'', ''uri_resolve_attempts'', ''resolve_uri_pending'',
           ''last_resolve_attempt_at''] @
         [(''supported_trust'', \<lambda>row. Inr (NStr (stringify (or_empty (field row ''supported_trust''))))),
          (''services'', \<lambda>row. Inr (if is_nullish (field row ''services_text'') then NStr (stringify (or_empty (field row ''services'')))
            else field row ''services_text''))] @
         map plain [''x402_enabled'', ''mpp_enabled'', ''uri_updated_ledger'', ''transferred_ledger'']\<rparr>,
      \<lparr>ts_table = ''agent_metadata'', ts_key = [''agent_id'', ''key''], ts_columns = map plain [''agent_id'', ''key'', ''value'']\<rparr>,
      \<lparr>ts_table = ''feedback'', ts_key = [''id''], ts_columns =
         map plain [''id'', ''agent_id'', ''client_address'', ''feedback_index''] @ [(''value'', value_column fmt)] @
         map plain [''value_decimals'', ''tag1'', ''tag2'', ''endpoint'', ''feedback_uri'', ''feedback_hash'', ''is_revoked'', ''created_at'', ''created_ledger'',
           ''tx_hash'', ''revoked_ledger'']\<rparr>,
      \<lparr>ts_table = ''feedback_responses'', ts_key = [''id''], ts_columns =
         map plain [''id'', ''agent_id'', ''client_address'', ''feedback_index'', ''response_index'', ''responder'', ''response_uri'', ''response_hash'',
           ''created_at'', ''tx_hash'', ''event_id'']\<rparr>,
      \<lparr>ts_table = ''validations'', ts_key = [''request_hash''], ts_columns =
         map plain [''request_hash'', ''agent_id'', ''validator_address'', ''request_uri'', ''response'', ''response_uri'', ''response_hash'', ''tag'',
           ''has_response'', ''created_at'', ''responded_at'', ''request_tx_hash'', ''response_tx_hash'', ''response_ledger'']\<rparr>,
      \<lparr>ts_table = ''indexer_dead_letter'', ts_key = [''id''], ts_columns =
         map plain [''id'', ''contract'', ''reason'', ''event_id'', ''ledger'', ''detail'', ''created_at'']\<rparr>,
      \<lparr>ts_table = ''indexer_state'', ts_key = [''id''], ts_columns =
         map plain [''id'', ''last_ledger'', ''updated_at'', ''expected_next_ledger'', ''defer_attempts'', ''last_advanced_at'']\<rparr>]"

section \<open>Values and statements\<close>

definition PIECE_BYTES :: nat where
  "PIECE_BYTES = 40000"

definition byte_size :: "char \<Rightarrow> nat" where
  "byte_size c = (if code_of c < 128 then 1 else 2)"

definition byte_length :: "string \<Rightarrow> nat" where
  "byte_length s = sum_list (map byte_size s)"

fun piece_loop :: "string list \<Rightarrow> string \<Rightarrow> nat \<Rightarrow> string \<Rightarrow> string list" where
  "piece_loop out current bytes [] = (if current \<noteq> [] then out @ [current] else out)"
| "piece_loop out current bytes (c # cs) =
     (let size = byte_size c
      in if PIECE_BYTES < bytes + size then piece_loop (out @ [current]) [c] size cs else piece_loop out (current @ [c]) (bytes + size) cs)"

definition pieces :: "string \<Rightarrow> string list" where
  "pieces s = piece_loop [] [] 0 s"

datatype sql_value = SNull | SInt int | SText string

definition sql_value :: "(rat \<Rightarrow> string) \<Rightarrow> native \<Rightarrow> string \<Rightarrow> string + sql_value" where
  "sql_value fmt v place = (case v of
      NUndef \<Rightarrow> Inr SNull
    | NNull \<Rightarrow> Inr SNull
    | NBool b \<Rightarrow> Inr (SInt (if b then 1 else 0))
    | NNum (JFin r) \<Rightarrow> if isSafeInteger (JFin r) then Inr (SInt \<lfloor>r\<rfloor>) else Inl (place @ '': '' @ js_String fmt v @ '' is not a safe integer'')
    | NNum x \<Rightarrow> Inl (place @ '': '' @ js_String fmt v @ '' is not a safe integer'')
    | NStr s \<Rightarrow> Inr (SText s)
    | _ \<Rightarrow> Inl (place @ '': unexpected '' @ js_typeof v))"

fun show_value :: "sql_value \<Rightarrow> string" where
  "show_value SNull = ''NULL''"
| "show_value (SInt i) = show_int i"
| "show_value (SText s) = [CHR 0x27] @ concat (map (\<lambda>c. if c = CHR 0x27 then [CHR 0x27, CHR 0x27] else [c]) s) @ [CHR 0x27]"

text \<open>\<open>literal\<close> is the text of the value.\<close>

definition literal :: "(rat \<Rightarrow> string) \<Rightarrow> native \<Rightarrow> string \<Rightarrow> string + string" where
  "literal fmt v place = sbind (sql_value fmt v place) (\<lambda>x. Inr (show_value x))"

datatype sql_line =
    Note string
  | Create_Guard
  | Check_Fence
  | Drop_Guard
  | Drop_Old_Pieces
  | Create_Pieces
  | Delete_From string
  | Insert_Row string "string list" "sql_value list"
  | Insert_Piece string nat string
  | Update_Row string string string "(string \<times> sql_value) list"
  | Drop_Pieces

definition quoted :: "string \<Rightarrow> string" where
  "quoted s = [CHR 0x27] @ s @ [CHR 0x27]"

fun render :: "sql_line \<Rightarrow> string" where
  "render (Note taken_at) = ''-- Loaded from the Supabase snapshot taken at '' @ taken_at @ ''.''"
| "render Create_Guard = ''CREATE TABLE copy_guard (fence_present INTEGER NOT NULL CHECK (fence_present = 1));''"
| "render Check_Fence = ''INSERT INTO copy_guard SELECT EXISTS (SELECT 1 FROM indexer_locks WHERE lock_name = '' @ quoted ''indexer'' @
     '' AND owner = '' @ quoted ''copy-fence'' @ '');''"
| "render Drop_Guard = ''DROP TABLE copy_guard;''"
| "render Drop_Old_Pieces = ''DROP TABLE IF EXISTS load_pieces;''"
| "render Create_Pieces = ''CREATE TABLE load_pieces (k TEXT NOT NULL, i INTEGER NOT NULL, v TEXT NOT NULL, PRIMARY KEY (k, i));''"
| "render (Delete_From t) = ''DELETE FROM '' @ t @ '';''"
| "render (Insert_Row t names vs) = ''INSERT INTO '' @ t @ '' ('' @ join '', '' names @ '') VALUES ('' @ join '', '' (map show_value vs) @ '');''"
| "render (Insert_Piece k i v) = ''INSERT INTO load_pieces VALUES ('' @ show_value (SText k) @ '', '' @ show_nat i @ '', '' @ show_value (SText v) @ '');''"
| "render (Update_Row t name k key) = ''UPDATE '' @ t @ '' SET '' @ name @ '' = (SELECT group_concat(v, '' @ quoted [] @ '' ORDER BY i) FROM load_pieces WHERE k = '' @
     show_value (SText k) @ '') WHERE '' @ join '' AND '' (map (\<lambda>(col, v). col @ '' = '' @ show_value v) key) @ '';''"
| "render Drop_Pieces = ''DROP TABLE load_pieces;''"

definition PLACEHOLDER :: "string \<Rightarrow> string \<Rightarrow> sql_value" where
  "PLACEHOLDER table name = (if table = ''agents'' \<and> (name = ''services'' \<or> name = ''supported_trust'') then SText ''[]'' else SNull)"

definition piece_key :: "string \<Rightarrow> string \<Rightarrow> nat \<Rightarrow> string" where
  "piece_key table name index = table @ ''.'' @ name @ ''.'' @ show_nat index"

definition too_long :: "native \<Rightarrow> bool" where
  "too_long v = (case v of NStr s \<Rightarrow> PIECE_BYTES < byte_length s | _ \<Rightarrow> False)"

definition text_of :: "native \<Rightarrow> string" where
  "text_of v = (case v of NStr s \<Rightarrow> s | _ \<Rightarrow> [])"

definition where_key :: "(rat \<Rightarrow> string) \<Rightarrow> table_spec \<Rightarrow> json_row \<Rightarrow> string + (string \<times> sql_value) list" where
  "where_key fmt ts row = smap (\<lambda>col. sbind (sql_value fmt (field row col) (ts_table ts @ ''.'' @ col)) (\<lambda>v. Inr (col, v))) (ts_key ts)"

definition load_column :: "(rat \<Rightarrow> string) \<Rightarrow> table_spec \<Rightarrow> nat \<Rightarrow> json_row \<Rightarrow> column \<Rightarrow> string + sql_value \<times> sql_line list" where
  "load_column fmt ts index row = (\<lambda>(name, read).
     sbind (read row) (\<lambda>v.
       if \<not> too_long v then sbind (sql_value fmt v (ts_table ts @ ''.'' @ name)) (\<lambda>x. Inr (x, []))
       else let k = piece_key (ts_table ts) name index
            in sbind (where_key fmt ts row) (\<lambda>key.
              Inr (PLACEHOLDER (ts_table ts) name,
                map (\<lambda>(i, piece). Insert_Piece k i piece) (enumerate 0 (pieces (text_of v))) @ [Update_Row (ts_table ts) name k key]))))"

definition load_row :: "(rat \<Rightarrow> string) \<Rightarrow> table_spec \<Rightarrow> nat \<times> json_row \<Rightarrow> string + sql_line list" where
  "load_row fmt ts = (\<lambda>(index, row).
     sbind (smap (load_column fmt ts index row) (ts_columns ts)) (\<lambda>cs.
       Inr (Insert_Row (ts_table ts) (map fst (ts_columns ts)) (map fst cs) # concat (map snd cs))))"

type_synonym snapshot = "string \<Rightarrow> json_row list option"

definition load_table :: "(rat \<Rightarrow> string) \<Rightarrow> snapshot \<Rightarrow> table_spec \<Rightarrow> string + sql_line list" where
  "load_table fmt files ts = (case files (ts_table ts) of
      None \<Rightarrow> Inl (ts_table ts @ ''.json is missing from the snapshot'')
    | Some rows \<Rightarrow> sbind (smap (load_row fmt ts) (enumerate 0 rows)) (\<lambda>ls. Inr (concat ls)))"

definition snapshot_lines :: "(rat \<Rightarrow> string) \<Rightarrow> (native \<Rightarrow> string) \<Rightarrow> native \<Rightarrow> snapshot \<Rightarrow> string + sql_line list" where
  "snapshot_lines fmt stringify manifest files =
     (if getProp manifest ''under_indexer_lock'' \<noteq> NBool True then Inl ''snapshot was not taken under the indexer lock''
      else sbind (smap (load_table fmt files) (TABLES fmt stringify)) (\<lambda>ls.
        Inr ([Note (js_String fmt (getProp manifest ''taken_at'')), Create_Guard, Check_Fence, Drop_Guard, Drop_Old_Pieces, Create_Pieces] @
          map (\<lambda>ts. Delete_From (ts_table ts)) (rev (TABLES fmt stringify)) @ concat ls @ [Drop_Pieces])))"

definition snapshotToSql :: "(rat \<Rightarrow> string) \<Rightarrow> (native \<Rightarrow> string) \<Rightarrow> native \<Rightarrow> snapshot \<Rightarrow> string + string" where
  "snapshotToSql fmt stringify manifest files =
     sbind (snapshot_lines fmt stringify manifest files) (\<lambda>ls. Inr (join [CHR 0x0A] (map render ls) @ [CHR 0x0A]))"

section \<open>The schema (0001\_init.sql)\<close>

type_synonym sql_row = "(string \<times> sql_value) list"

record sqlite =
  sq_json :: "string \<Rightarrow> bool" \<comment> \<open>\<open>json_valid\<close>\<close>
  sq_array :: "string \<Rightarrow> bool" \<comment> \<open>\<open>json_type(x) = 'array'\<close>\<close>
  sq_integer :: "string \<Rightarrow> sql_value" \<comment> \<open>what a text becomes in an INTEGER column\<close>

definition LOADED :: "string list" where
  "LOADED = [''agents'', ''agent_metadata'', ''feedback'', ''feedback_responses'', ''validations'', ''indexer_dead_letter'', ''indexer_state'']"

definition INTEGER_COLUMNS :: "string \<Rightarrow> string list" where
  "INTEGER_COLUMNS t =
     (if t = ''agents'' then [''id'', ''created_ledger'', ''uri_resolve_attempts'', ''resolve_uri_pending'', ''x402_enabled'', ''mpp_enabled'', ''uri_updated_ledger'',
        ''transferred_ledger'']
      else if t = ''agent_metadata'' then [''agent_id'']
      else if t = ''feedback'' then [''id'', ''agent_id'', ''feedback_index'', ''value_decimals'', ''is_revoked'', ''created_ledger'', ''revoked_ledger'']
      else if t = ''feedback_responses'' then [''id'', ''agent_id'', ''feedback_index'', ''response_index'']
      else if t = ''validations'' then [''agent_id'', ''response'', ''has_response'', ''response_ledger'']
      else if t = ''indexer_dead_letter'' then [''id'', ''ledger'']
      else if t = ''indexer_state'' then [''last_ledger'', ''expected_next_ledger'', ''defer_attempts''] else [])"

definition NOT_NULL :: "string \<Rightarrow> string list" where
  "NOT_NULL t =
     (if t = ''agents'' then [''owner'', ''created_at'', ''updated_at'', ''uri_resolve_attempts'', ''resolve_uri_pending'', ''supported_trust'', ''services'',
        ''x402_enabled'', ''mpp_enabled'']
      else if t = ''agent_metadata'' then [''agent_id'', ''key'']
      else if t = ''feedback'' then [''agent_id'', ''client_address'', ''feedback_index'', ''value'', ''value_decimals'', ''is_revoked'', ''created_at'']
      else if t = ''feedback_responses'' then [''agent_id'', ''client_address'', ''feedback_index'', ''response_index'', ''responder'', ''created_at'']
      else if t = ''validations'' then [''request_hash'', ''agent_id'', ''validator_address'', ''has_response'', ''created_at'']
      else if t = ''indexer_dead_letter'' then [''contract'', ''reason'', ''created_at'']
      else if t = ''indexer_state'' then [''id'', ''last_ledger'', ''updated_at'', ''defer_attempts''] else [])"

definition UNIQUE :: "string \<Rightarrow> string list list" where
  "UNIQUE t =
     (if t = ''agent_metadata'' then [[''agent_id'', ''key'']]
      else if t = ''feedback'' then [[''id''], [''agent_id'', ''client_address'', ''feedback_index'']]
      else if t = ''feedback_responses'' then [[''id''], [''event_id''], [''agent_id'', ''client_address'', ''feedback_index'', ''response_index'']]
      else if t = ''validations'' then [[''request_hash'']]
      else if t \<in> set LOADED then [[''id'']] else [])"

definition FOREIGN_KEYS :: "string \<Rightarrow> (string list \<times> string \<times> string list) list" where
  "FOREIGN_KEYS t =
     (if t \<in> set [''agent_metadata'', ''feedback'', ''validations''] then [([''agent_id''], ''agents'', [''id''])]
      else if t = ''feedback_responses'' then
        [([''agent_id'', ''client_address'', ''feedback_index''], ''feedback'', [''agent_id'', ''client_address'', ''feedback_index''])]
      else [])"

text \<open>The CHECK of a column; a comparison with NULL is not false, and a text is greater than any number.\<close>

definition at_most :: "nat \<Rightarrow> sql_value \<Rightarrow> bool" where
  "at_most n v = (case v of SNull \<Rightarrow> True | SText s \<Rightarrow> length s \<le> n | SInt i \<Rightarrow> length (show_int i) \<le> n)"

definition at_least :: "int \<Rightarrow> sql_value \<Rightarrow> bool" where
  "at_least n v = (case v of SNull \<Rightarrow> True | SInt i \<Rightarrow> n \<le> i | SText s \<Rightarrow> True)"

definition between :: "int \<Rightarrow> int \<Rightarrow> sql_value \<Rightarrow> bool" where
  "between a b v = (case v of SNull \<Rightarrow> True | SInt i \<Rightarrow> a \<le> i \<and> i \<le> b | SText s \<Rightarrow> False)"

definition text_check :: "(string \<Rightarrow> bool) \<Rightarrow> sql_value \<Rightarrow> bool" where
  "text_check f v = (case v of SNull \<Rightarrow> True | SText s \<Rightarrow> f s | SInt i \<Rightarrow> f (show_int i))"

definition column_check :: "sqlite \<Rightarrow> string \<Rightarrow> string \<Rightarrow> sql_value \<Rightarrow> bool" where
  "column_check sq t n v =
     (if t = ''agents'' then
        (if n = ''id'' then at_least 0 v else if n \<in> set [''owner'', ''wallet''] then at_most 256 v
         else if n = ''agent_uri_data'' then text_check (sq_json sq) v
         else if n \<in> set [''supported_trust'', ''services''] then text_check (\<lambda>s. sq_json sq s \<and> sq_array sq s) v
         else if n \<in> set [''resolve_uri_pending'', ''x402_enabled'', ''mpp_enabled''] then between 0 1 v else True)
      else if t = ''feedback'' then
        (if n = ''client_address'' then at_most 256 v else if n = ''feedback_index'' then at_least 1 v else if n = ''value'' then text_check value_check v
         else if n = ''value_decimals'' then between 0 18 v else if n = ''is_revoked'' then between 0 1 v else True)
      else if t = ''feedback_responses'' then (if n \<in> set [''client_address'', ''responder''] then at_most 256 v else True)
      else if t = ''validations'' then
        (if n = ''validator_address'' then at_most 256 v else if n = ''response'' then between 0 100 v else if n = ''has_response'' then between 0 1 v else True)
      else True)"

definition row_id :: "string \<Rightarrow> string \<Rightarrow> bool" where
  "row_id t n \<longleftrightarrow> n = ''id'' \<and> t \<in> set [''agents'', ''feedback'', ''feedback_responses'', ''indexer_dead_letter'']"

definition cell_ok :: "sqlite \<Rightarrow> string \<Rightarrow> string \<times> sql_value \<Rightarrow> bool" where
  "cell_ok sq t = (\<lambda>(n, v). (n \<in> set (NOT_NULL t) \<longrightarrow> v \<noteq> SNull) \<and> column_check sq t n v \<and>
     (row_id t n \<longrightarrow> (case v of SInt i \<Rightarrow> True | _ \<Rightarrow> False)))"

definition key_of_row :: "string list \<Rightarrow> sql_row \<Rightarrow> sql_value list" where
  "key_of_row key row = map (\<lambda>c. case map_of row c of Some v \<Rightarrow> v | None \<Rightarrow> SNull) key"

definition unique_in :: "sql_row list \<Rightarrow> string list \<Rightarrow> bool" where
  "unique_in rows key \<longleftrightarrow> distinct (filter (\<lambda>k. SNull \<notin> set k) (map (key_of_row key) rows))"

text \<open>A bound for the bytes of a row: a text, and up to ten bytes for a number or the type and length of a value.\<close>

definition cell_bytes :: "sql_value \<Rightarrow> nat" where
  "cell_bytes v = 10 + (case v of SText s \<Rightarrow> byte_length s | _ \<Rightarrow> 0)"

definition row_bytes :: "sql_row \<Rightarrow> nat" where
  "row_bytes row = sum_list (map (\<lambda>c. cell_bytes (snd c)) row)"

definition MAX_LENGTH :: nat where
  "MAX_LENGTH = 2000000"

type_synonym sql_tables = "string \<Rightarrow> sql_row list"

definition refers :: "sql_tables \<Rightarrow> sql_row \<Rightarrow> string list \<times> string \<times> string list \<Rightarrow> bool" where
  "refers tabs row = (\<lambda>(cols, parent, pcols).
     SNull \<in> set (key_of_row cols row) \<or> key_of_row cols row \<in> key_of_row pcols ` set (tabs parent))"

definition table_consistent :: "sqlite \<Rightarrow> sql_tables \<Rightarrow> string \<Rightarrow> bool" where
  "table_consistent sq tabs t \<longleftrightarrow> list_all (list_all (cell_ok sq t)) (tabs t) \<and> list_all (unique_in (tabs t)) (UNIQUE t) \<and>
     list_all (\<lambda>row. list_all (refers tabs row) (FOREIGN_KEYS t)) (tabs t) \<and> list_all (\<lambda>row. row_bytes row \<le> MAX_LENGTH) (tabs t)"

text \<open>A database that satisfies its schema. A statement that leaves another one fails.\<close>

definition consistent :: "sqlite \<Rightarrow> sql_tables \<Rightarrow> bool" where
  "consistent sq tabs \<longleftrightarrow> list_all (table_consistent sq tabs) LOADED"

section \<open>What D1 does with the statements\<close>

record load_db =
  ld_fence :: bool
  ld_tables :: sql_tables
  ld_pieces :: "(string \<times> nat \<times> string) list option"

definition affine :: "sqlite \<Rightarrow> string \<Rightarrow> string \<Rightarrow> sql_value \<Rightarrow> sql_value" where
  "affine sq t n v = (case v of
      SNull \<Rightarrow> SNull
    | SInt i \<Rightarrow> if n \<in> set (INTEGER_COLUMNS t) then SInt i else SText (show_int i)
    | SText s \<Rightarrow> if n \<in> set (INTEGER_COLUMNS t) then sq_integer sq s else SText s)"

definition next_id :: "sql_row list \<Rightarrow> int" where
  "next_id rows = 1 + fold max (concat (map (\<lambda>row. case map_of row ''id'' of Some (SInt i) \<Rightarrow> [i] | _ \<Rightarrow> []) rows)) 0"

definition stored_row :: "sqlite \<Rightarrow> string \<Rightarrow> sql_row list \<Rightarrow> sql_row \<Rightarrow> sql_row" where
  "stored_row sq t rows row = map (\<lambda>(n, v). (n, if row_id t n \<and> v = SNull then SInt (next_id rows) else affine sq t n v)) row"

definition matches :: "(string \<times> sql_value) list \<Rightarrow> sql_row \<Rightarrow> bool" where
  "matches key row \<longleftrightarrow> list_all (\<lambda>(c, v). v \<noteq> SNull \<and> map_of row c = Some v) key"

definition set_cell :: "string \<Rightarrow> sql_value \<Rightarrow> sql_row \<Rightarrow> sql_row" where
  "set_cell name v row = map (\<lambda>(n, x). (n, if n = name then v else x)) row"

definition group_concat :: "string \<Rightarrow> (string \<times> nat \<times> string) list \<Rightarrow> sql_value" where
  "group_concat k ps = (let qs = filter (\<lambda>p. fst p = k) ps
     in if qs = [] then SNull else SText (concat (map (\<lambda>p. snd (snd p)) (sort_key (\<lambda>p. fst (snd p)) qs))))"

text \<open>\<open>ON DELETE CASCADE\<close>: rows whose parent is gone go too.\<close>

definition cascade :: "sql_tables \<Rightarrow> sql_tables" where
  "cascade tabs = fold (\<lambda>t tabs. tabs(t := filter (\<lambda>row. list_all (refers tabs row) (FOREIGN_KEYS t)) (tabs t))) LOADED tabs"

fun apply_line :: "sqlite \<Rightarrow> sql_line \<Rightarrow> load_db \<Rightarrow> load_db option" where
  "apply_line sq Check_Fence d = (if ld_fence d then Some d else None)"
| "apply_line sq Drop_Old_Pieces d = Some (d\<lparr>ld_pieces := None\<rparr>)"
| "apply_line sq Create_Pieces d = (if ld_pieces d = None then Some (d\<lparr>ld_pieces := Some []\<rparr>) else None)"
| "apply_line sq Drop_Pieces d = (if ld_pieces d = None then None else Some (d\<lparr>ld_pieces := None\<rparr>))"
| "apply_line sq (Delete_From t) d = Some (d\<lparr>ld_tables := cascade ((ld_tables d)(t := []))\<rparr>)"
| "apply_line sq (Insert_Row t names vs) d =
     Some (d\<lparr>ld_tables := (ld_tables d)(t := ld_tables d t @ [stored_row sq t (ld_tables d t) (zip names vs)])\<rparr>)"
| "apply_line sq (Insert_Piece k i v) d = (case ld_pieces d of
      None \<Rightarrow> None
    | Some ps \<Rightarrow> if \<exists>p \<in> set ps. fst p = k \<and> fst (snd p) = i then None else Some (d\<lparr>ld_pieces := Some (ps @ [(k, i, v)])\<rparr>))"
| "apply_line sq (Update_Row t name k key) d = (case ld_pieces d of
      None \<Rightarrow> None
    | Some ps \<Rightarrow> Some (d\<lparr>ld_tables := (ld_tables d)(t :=
        map (\<lambda>row. if matches (map (\<lambda>(c, v). (c, affine sq t c v)) key) row then set_cell name (affine sq t name (group_concat k ps)) row else row) (ld_tables d t))\<rparr>))"
| "apply_line sq _ d = Some d"

definition exec_line :: "sqlite \<Rightarrow> sql_line \<Rightarrow> load_db \<Rightarrow> load_db option" where
  "exec_line sq l d = (case apply_line sq l d of None \<Rightarrow> None | Some d' \<Rightarrow> if consistent sq (ld_tables d') then Some d' else None)"

fun exec_lines :: "sqlite \<Rightarrow> sql_line list \<Rightarrow> load_db \<Rightarrow> load_db option" where
  "exec_lines sq [] d = Some d"
| "exec_lines sq (l # ls) d = (case exec_line sq l d of None \<Rightarrow> None | Some d' \<Rightarrow> exec_lines sq ls d')"

definition MAX_STATEMENT_BYTES :: nat where
  "MAX_STATEMENT_BYTES = 100000"

text \<open>A file import is atomic: \<open>None\<close> is the rolled back import, also for a statement that is too long.\<close>

definition import_file :: "sqlite \<Rightarrow> sql_line list \<Rightarrow> load_db \<Rightarrow> load_db option" where
  "import_file sq ls d = (if list_all (\<lambda>l. byte_length (render l) \<le> MAX_STATEMENT_BYTES) ls then exec_lines sq ls d else None)"

lemma exec_append: "exec_lines sq (xs @ ys) d = (case exec_lines sq xs d of None \<Rightarrow> None | Some d' \<Rightarrow> exec_lines sq ys d')"
  by (induction xs arbitrary: d) (auto split: option.split)

section \<open>Databases that grow towards the snapshot\<close>

text \<open>The columns of keys and references of a table, which are never loaded in pieces.\<close>

definition constrained :: "string \<Rightarrow> string list" where
  "constrained t = concat (UNIQUE t) @ concat (map fst (FOREIGN_KEYS t))"

text \<open>A row on its way: each cell is final or an accepted placeholder of a column that is not constrained.\<close>

definition cell_grows :: "sqlite \<Rightarrow> string \<Rightarrow> string \<times> sql_value \<Rightarrow> string \<times> sql_value \<Rightarrow> bool" where
  "cell_grows sq t c f \<longleftrightarrow> fst c = fst f \<and> (snd c = snd f \<or> cell_ok sq t c \<and> fst c \<notin> set (constrained t) \<and> cell_bytes (snd c) \<le> cell_bytes (snd f))"

definition rows_grow :: "sqlite \<Rightarrow> string \<Rightarrow> sql_row list \<Rightarrow> sql_row list \<Rightarrow> bool" where
  "rows_grow sq t rows final \<longleftrightarrow> (\<exists>n \<le> length final. list_all2 (list_all2 (cell_grows sq t)) rows (take n final))"

definition tables_grow :: "sqlite \<Rightarrow> sql_tables \<Rightarrow> sql_tables \<Rightarrow> bool" where
  "tables_grow sq tabs final \<longleftrightarrow> (\<forall>t \<in> set LOADED. rows_grow sq t (tabs t) (final t) \<and>
     (tabs t \<noteq> [] \<longrightarrow> list_all (\<lambda>(cols, parent, pcols). length (tabs parent) = length (final parent)) (FOREIGN_KEYS t)))"

lemma grows_lookup:
  assumes "list_all2 (cell_grows sq t) r f" "c \<in> set (constrained t)"
  shows "map_of r c = map_of f c"
  using assms by (induction rule: list_all2_induct) (auto simp: cell_grows_def)

lemma grows_key:
  assumes "list_all2 (cell_grows sq t) r f" "set key \<subseteq> set (constrained t)"
  shows "key_of_row key r = key_of_row key f"
  unfolding key_of_row_def
proof (rule map_cong [OF refl])
  fix c assume "c \<in> set key"
  with assms(2) have "c \<in> set (constrained t)" by blast
  from grows_lookup [OF assms(1) this] show "(case map_of r c of Some v \<Rightarrow> v | None \<Rightarrow> SNull) = (case map_of f c of Some v \<Rightarrow> v | None \<Rightarrow> SNull)"
    by simp
qed

lemma grows_keys:
  assumes "list_all2 (list_all2 (cell_grows sq t)) rows fs" "set key \<subseteq> set (constrained t)"
  shows "map (key_of_row key) rows = map (key_of_row key) fs"
  using assms(1) by (induction rule: list_all2_induct) (simp_all add: grows_key [OF _ assms(2)])

lemma grows_cells:
  assumes "list_all2 (cell_grows sq t) r f" "list_all (cell_ok sq t) f"
  shows "list_all (cell_ok sq t) r"
  using assms
proof (induction rule: list_all2_induct)
  case (Cons c r x f)
  then have "c = x \<or> cell_ok sq t c" by (auto simp: cell_grows_def intro: prod_eqI)
  with Cons show ?case by auto
qed simp

lemma grows_bytes: "list_all2 (cell_grows sq t) r f \<Longrightarrow> row_bytes r \<le> row_bytes f"
  unfolding row_bytes_def by (induction rule: list_all2_induct) (auto simp: cell_grows_def)

lemma list_all2_member: "list_all2 P xs ys \<Longrightarrow> x \<in> set xs \<Longrightarrow> \<exists>y \<in> set ys. P x y"
  by (induction rule: list_all2_induct) auto

lemma unique_constrained: "key \<in> set (UNIQUE t) \<Longrightarrow> set key \<subseteq> set (constrained t)"
  by (auto simp: constrained_def)

lemma foreign_constrained: "(cols, parent, pcols) \<in> set (FOREIGN_KEYS t) \<Longrightarrow>
    set cols \<subseteq> set (constrained t) \<and> set pcols \<subseteq> set (constrained parent) \<and> parent \<in> set LOADED"
  by (auto simp: constrained_def FOREIGN_KEYS_def UNIQUE_def LOADED_def split: if_splits)

text \<open>While the tables grow towards a consistent database, parents before children, they are consistent themselves.\<close>

lemma growing_consistent:
  assumes grow: "tables_grow sq tabs final" and final: "consistent sq final"
  shows "consistent sq tabs"
  unfolding consistent_def list_all_iff
proof
  fix t assume t: "t \<in> set LOADED"
  with grow obtain n where n: "n \<le> length (final t)" "list_all2 (list_all2 (cell_grows sq t)) (tabs t) (take n (final t))"
    by (auto simp: tables_grow_def rows_grow_def)
  from final t have ok: "table_consistent sq final t" by (simp add: consistent_def list_all_iff)
  have "list_all (cell_ok sq t) row \<and> row_bytes row \<le> MAX_LENGTH" if "row \<in> set (tabs t)" for row
  proof -
    from list_all2_member [OF n(2) that] obtain f where f: "f \<in> set (take n (final t))" "list_all2 (cell_grows sq t) row f" by blast
    then have "list_all (cell_ok sq t) f" "row_bytes f \<le> MAX_LENGTH" using ok in_set_takeD [OF f(1)] by (simp_all add: table_consistent_def list_all_iff)
    with grows_cells [OF f(2)] grows_bytes [OF f(2)] show ?thesis by simp
  qed
  moreover have "unique_in (tabs t) key" if "key \<in> set (UNIQUE t)" for key
  proof -
    have "unique_in (final t) key" using ok that by (simp add: table_consistent_def list_all_iff)
    then have "distinct (filter (\<lambda>k. SNull \<notin> set k) (map (key_of_row key) (take n (final t) @ drop n (final t))))"
      by (simp add: unique_in_def)
    then have "unique_in (take n (final t)) key" unfolding unique_in_def map_append filter_append by simp
    then show ?thesis using grows_keys [OF n(2) unique_constrained [OF that]] by (simp only: unique_in_def)
  qed
  moreover have "refers tabs row fk" if row: "row \<in> set (tabs t)" and fk: "fk \<in> set (FOREIGN_KEYS t)" for row fk
  proof -
    obtain cols parent pcols where fk': "fk = (cols, parent, pcols)" by (cases fk)
    note cols = foreign_constrained [OF fk [unfolded fk']]
    from list_all2_member [OF n(2) row] obtain f where f: "f \<in> set (take n (final t))" "list_all2 (cell_grows sq t) row f" by blast
    then have "refers final f fk" using ok fk in_set_takeD [OF f(1)] by (simp add: table_consistent_def list_all_iff)
    moreover have "key_of_row cols row = key_of_row cols f" using grows_key [OF f(2)] cols by blast
    moreover from grow t row fk fk' have len: "length (tabs parent) = length (final parent)" by (force simp: tables_grow_def list_all_iff)
    from grow cols have "rows_grow sq parent (tabs parent) (final parent)" by (simp add: tables_grow_def)
    then obtain m where m: "m \<le> length (final parent)" "list_all2 (list_all2 (cell_grows sq parent)) (tabs parent) (take m (final parent))"
      unfolding rows_grow_def by blast
    have "m = length (final parent)" using list_all2_lengthD [OF m(2)] len m(1) by simp
    with m(2) have "list_all2 (list_all2 (cell_grows sq parent)) (tabs parent) (final parent)" by simp
    from grows_keys [OF this] cols have "key_of_row pcols ` set (tabs parent) = key_of_row pcols ` set (final parent)" by (metis set_map)
    ultimately show ?thesis by (simp add: refers_def fk')
  qed
  ultimately show "table_consistent sq tabs t" by (simp add: table_consistent_def list_all_iff)
qed

section \<open>Literals and pieces\<close>

lemma byte_size_bounds: "1 \<le> byte_size c" "byte_size c \<le> 2"
  by (auto simp: byte_size_def)

lemma byte_length_simps [simp]: "byte_length [] = 0" "byte_length (c # s) = byte_size c + byte_length s" "byte_length (s @ t) = byte_length s + byte_length t"
  by (simp_all add: byte_length_def)

lemma length_le_bytes: "length s \<le> byte_length s"
proof (induction s)
  case (Cons c s)
  then show ?case using byte_size_bounds(1) [of c] by simp
qed simp

lemma piece_loop_concat: "concat (piece_loop out current bytes s) = concat out @ current @ s"
  by (induction s arbitrary: out current bytes) (auto simp: Let_def)

lemma concat_pieces: "concat (pieces s) = s"
  by (simp add: pieces_def piece_loop_concat)

lemma piece_loop_bytes:
  assumes "bytes = byte_length current" "bytes \<le> PIECE_BYTES" "\<forall>p \<in> set out. byte_length p \<le> PIECE_BYTES"
  shows "\<forall>p \<in> set (piece_loop out current bytes s). byte_length p \<le> PIECE_BYTES"
  using assms
proof (induction s arbitrary: out current bytes)
  case (Cons c cs)
  have "byte_size c \<le> PIECE_BYTES" using byte_size_bounds [of c] by (simp add: PIECE_BYTES_def)
  then have room: "byte_length [c] \<le> PIECE_BYTES" by simp
  show ?case
  proof (cases "PIECE_BYTES < bytes + byte_size c")
    case True
    then have "piece_loop out current bytes (c # cs) = piece_loop (out @ [current]) [c] (byte_size c) cs" by (simp add: Let_def)
    moreover have "\<forall>p \<in> set (out @ [current]). byte_length p \<le> PIECE_BYTES" using Cons.prems by auto
    ultimately show ?thesis using Cons.IH [of "byte_size c" "[c]" "out @ [current]"] room by simp
  next
    case False
    then have "piece_loop out current bytes (c # cs) = piece_loop out (current @ [c]) (bytes + byte_size c) cs" by (simp add: Let_def)
    moreover have "bytes + byte_size c = byte_length (current @ [c])" using Cons.prems by simp
    moreover have "bytes + byte_size c \<le> PIECE_BYTES" using False by simp
    ultimately show ?thesis using Cons.IH [of "bytes + byte_size c" "current @ [c]" out] Cons.prems(3) by simp
  qed
qed simp

lemma pieces_bytes: "p \<in> set (pieces s) \<Longrightarrow> byte_length p \<le> PIECE_BYTES"
  unfolding pieces_def using piece_loop_bytes [of 0 "[]" "[]" s] by auto

lemma read_doubled: "c \<noteq> CHR 0x27 \<Longrightarrow> read_string (concat (map (\<lambda>c. if c = CHR 0x27 then [CHR 0x27, CHR 0x27] else [c]) s) @ CHR 0x27 # c # rest) = Some (s, c # rest)"
  by (induction s) auto

text \<open>Reading a literal back.\<close>

definition read_value :: "string \<Rightarrow> (sql_value \<times> string) option" where
  "read_value s = (case drop_prefix ''NULL'' s of
      Some rest \<Rightarrow> Some (SNull, rest)
    | None \<Rightarrow> (case drop_prefix [CHR 0x27] s of
        Some body \<Rightarrow> map_option (\<lambda>(v, rest). (SText v, rest)) (read_string body)
      | None \<Rightarrow>
          (let neg = startsWith s ''-''; u = (if neg then tl s else s); ds = takeWhile is_digit u
           in if ds = [] then None else Some (SInt (if neg then - int (read_nat ds) else int (read_nat ds)), dropWhile is_digit u))))"

lemma show_nat_hd: "\<exists>c s. show_nat n = c # s \<and> is_digit c"
  using show_nat_digits [of "hd (show_nat n)" n] by (cases "show_nat n") auto

lemma read_show_value:
  assumes "c = CHR '','' \<or> c = CHR '')''"
  shows "read_value (show_value v @ c # rest) = Some (v, c # rest)"
proof (cases v)
  case SNull
  then show ?thesis by (simp add: read_value_def drop_prefix_def)
next
  case (SText s)
  have "c \<noteq> CHR 0x27" using assms by auto
  with SText show ?thesis by (auto simp: read_value_def drop_prefix_def read_doubled)
next
  case (SInt i)
  have nd: "\<not> is_digit c" using assms by (auto simp: is_digit_def code_of_def)
  have digits: "takeWhile is_digit (show_nat n @ c # rest) = show_nat n" "dropWhile is_digit (show_nat n @ c # rest) = c # rest" for n
    using takeWhile_digits_append [OF list_all_digits_show [of n] nd] by simp_all
  have front: "\<not> startsWith (show_nat (nat i) @ c # rest) (p # ps)" if "\<not> is_digit p" for p ps
    using show_nat_hd [of "nat i"] that by auto
  have "\<not> is_digit (CHR ''N'')" "\<not> is_digit (CHR 0x27)" "\<not> is_digit (CHR ''-'')" by (simp_all add: is_digit_def code_of_def)
  with SInt digits front show ?thesis
    by (auto simp: read_value_def drop_prefix_def show_int_def Let_def read_show_nat)
qed

section \<open>Loading one row\<close>

definition spec_value :: "(rat \<Rightarrow> string) \<Rightarrow> native \<Rightarrow> sql_value" where
  "spec_value fmt v = (case sql_value fmt v [] of Inr x \<Rightarrow> x | Inl e \<Rightarrow> SNull)"

definition spec_cell :: "(rat \<Rightarrow> string) \<Rightarrow> json_row \<Rightarrow> column \<Rightarrow> string \<times> sql_value" where
  "spec_cell fmt row = (\<lambda>(n, read). (n, case read row of Inr v \<Rightarrow> spec_value fmt v | Inl e \<Rightarrow> SNull))"

text \<open>What a row of the snapshot should be in the database: every column with exactly its value.\<close>

definition spec_row :: "(rat \<Rightarrow> string) \<Rightarrow> table_spec \<Rightarrow> json_row \<Rightarrow> sql_row" where
  "spec_row fmt ts row = map (spec_cell fmt row) (ts_columns ts)"

lemma sql_value_spec: "sql_value fmt v place = Inr x \<Longrightarrow> spec_value fmt v = x"
  by (cases v) (auto simp: sql_value_def spec_value_def split: jsnum.splits if_splits)

lemma too_long_spec: "too_long v \<Longrightarrow> spec_value fmt v = SText (text_of v) \<and> text_of v \<noteq> []"
  by (cases v) (auto simp: too_long_def spec_value_def sql_value_def text_of_def)

lemma insert_pieces:
  assumes "ld_pieces d = Some ps" "\<forall>p \<in> set ps. fst p = k \<longrightarrow> fst (snd p) < n" and ok: "consistent sq (ld_tables d)"
  shows "exec_lines sq (map (\<lambda>(i, p). Insert_Piece k i p) (enumerate n qs)) d =
    Some (d\<lparr>ld_pieces := Some (ps @ map (\<lambda>(i, p). (k, i, p)) (enumerate n qs))\<rparr>)"
  using assms
proof (induction qs arbitrary: d ps n)
  case (Cons q qs)
  have new: "\<not> (\<exists>p \<in> set ps. fst p = k \<and> fst (snd p) = n)" using Cons.prems(2) by auto
  then have "exec_line sq (Insert_Piece k n q) d = Some (d\<lparr>ld_pieces := Some (ps @ [(k, n, q)])\<rparr>)"
    using Cons.prems by (auto simp: exec_line_def)
  with Cons.prems Cons.IH [of "d\<lparr>ld_pieces := Some (ps @ [(k, n, q)])\<rparr>" "ps @ [(k, n, q)]" "Suc n"] show ?case
    by (auto simp: less_Suc_eq)
qed (cases d, simp)

lemma group_concat_pieces:
  assumes "k \<notin> fst ` set ps" "qs \<noteq> []"
  shows "group_concat k (ps @ map (\<lambda>(i, p). (k, i, p)) (enumerate 0 qs)) = SText (concat qs)"
proof -
  let ?new = "map (\<lambda>(i, p). (k, i, p)) (enumerate 0 qs)"
  have "filter (\<lambda>p. fst p = k) ps = []" using assms(1) by (force simp: filter_empty_conv)
  then have f: "filter (\<lambda>p. fst p = k) (ps @ ?new) = ?new" by (simp add: filter_id_conv case_prod_beta)
  have "map (\<lambda>p. fst (snd p)) ?new = map fst (enumerate 0 qs)" by (simp add: comp_def case_prod_beta)
  then have "sorted (map (\<lambda>p. fst (snd p)) ?new)" by (simp add: map_fst_enumerate)
  then have s: "sort_key (\<lambda>p. fst (snd p)) ?new = ?new" by (rule sort_key_id_if_sorted)
  have "map (\<lambda>p. snd (snd p)) ?new = map snd (enumerate 0 qs)" by (simp add: comp_def case_prod_beta)
  then have v: "map (\<lambda>p. snd (snd p)) ?new = qs" by simp
  have "?new \<noteq> []" using assms(2) by (cases qs) auto
  then show ?thesis unfolding group_concat_def f Let_def s v by (simp only: if_False)
qed

lemma set_cell_names: "map fst (set_cell n v row) = map fst row"
  by (simp add: set_cell_def comp_def case_prod_beta)

lemma set_cell_fresh: "n \<notin> fst ` set row \<Longrightarrow> set_cell n v row = row"
  unfolding set_cell_def by (rule map_idI) (auto simp: rev_image_eqI)

lemma set_cell_append: "set_cell n v (xs @ ys) = set_cell n v xs @ set_cell n v ys"
  by (simp add: set_cell_def)

lemma map_of_set_cell: "c \<noteq> n \<Longrightarrow> map_of (set_cell n v row) c = map_of row c"
  by (induction row) (auto simp: set_cell_def)

lemma matches_set_cell: "n \<notin> fst ` set key \<Longrightarrow> matches key (set_cell n v row) = matches key row"
proof -
  assume "n \<notin> fst ` set key"
  then have "\<And>c x. (c, x) \<in> set key \<Longrightarrow> c \<noteq> n" by force
  then show ?thesis by (auto simp: matches_def list_all_iff map_of_set_cell)
qed

lemma pieces_not_Nil: "s \<noteq> [] \<Longrightarrow> pieces s \<noteq> []"
  using concat_pieces [of s] by auto

text \<open>The statements that finish a long column.\<close>

lemma finish_column:
  assumes "ld_pieces d = Some ps" "k \<notin> fst ` set ps" "s \<noteq> []"
    and "ld_tables d t = old @ [row]" "\<forall>r \<in> set old. \<not> matches key r" "matches key row"
    and ok: "affine sq t n (SText s) = SText s" "consistent sq (ld_tables d)" "consistent sq ((ld_tables d)(t := old @ [set_cell n (SText s) row]))"
    and key: "map (\<lambda>(c, v). (c, affine sq t c v)) key = key"
  shows "exec_lines sq (map (\<lambda>(i, p). Insert_Piece k i p) (enumerate 0 (pieces s)) @ [Update_Row t n k key]) d =
    Some (d\<lparr>ld_tables := (ld_tables d)(t := old @ [set_cell n (SText s) row]),
      ld_pieces := Some (ps @ map (\<lambda>(i, p). (k, i, p)) (enumerate 0 (pieces s)))\<rparr>)"
proof -
  let ?new = "map (\<lambda>(i, p). (k, i, p)) (enumerate 0 (pieces s))"
  have "\<forall>p \<in> set ps. fst p = k \<longrightarrow> fst (snd p) < 0" using assms(2) by force
  note ins = insert_pieces [OF assms(1) this ok(2), of "pieces s"]
  have g: "group_concat k (ps @ ?new) = SText s"
    using group_concat_pieces [OF assms(2) pieces_not_Nil [OF assms(3)]] by (simp only: concat_pieces)
  have "map (\<lambda>r. if matches key r then set_cell n (SText s) r else r) old = old" using assms(5) by (intro map_idI) auto
  then have "apply_line sq (Update_Row t n k key) (d\<lparr>ld_pieces := Some (ps @ ?new)\<rparr>) =
      Some (d\<lparr>ld_pieces := Some (ps @ ?new), ld_tables := (ld_tables d)(t := old @ [set_cell n (SText s) row])\<rparr>)"
    using assms(4,6) ok(1) by (simp add: g [simplified] key cong: if_cong)
  with ok(3) have "exec_line sq (Update_Row t n k key) (d\<lparr>ld_pieces := Some (ps @ ?new)\<rparr>) =
      Some (d\<lparr>ld_tables := (ld_tables d)(t := old @ [set_cell n (SText s) row]), ld_pieces := Some (ps @ ?new)\<rparr>)"
    by (simp add: exec_line_def del: apply_line.simps)
  then show ?thesis unfolding exec_append ins by simp
qed

lemma first_split: "c \<notin> set xs \<Longrightarrow> c \<notin> set ys \<Longrightarrow> xs @ c # us = ys @ c # vs \<longleftrightarrow> xs = ys \<and> us = vs"
proof (induction xs arbitrary: ys)
  case Nil
  then show ?case by (cases ys) auto
next
  case (Cons x xs)
  then show ?case by (cases ys) auto
qed

abbreviation dotless :: "string \<Rightarrow> bool" where
  "dotless s \<equiv> CHR ''.'' \<notin> set s"

lemma piece_key_inject:
  assumes "dotless t" "dotless t'" "dotless n" "dotless n'"
  shows "piece_key t n i = piece_key t' n' i' \<longleftrightarrow> t = t' \<and> n = n' \<and> i = i'"
  using assms by (auto simp: piece_key_def first_split show_nat_inject)

text \<open>The pieces so far belong to other tables or to rows before row \<open>m\<close> of table \<open>t\<close>.\<close>

definition pieces_before :: "string \<Rightarrow> nat \<Rightarrow> (string \<times> nat \<times> string) list \<Rightarrow> bool" where
  "pieces_before t m ps \<longleftrightarrow> (\<forall>k \<in> fst ` set ps. \<exists>t' n i. k = piece_key t' n i \<and> dotless t' \<and> dotless n \<and> (t' = t \<longrightarrow> i < m))"

lemma pieces_before_fresh: "pieces_before t m ps \<Longrightarrow> dotless t \<Longrightarrow> dotless n \<Longrightarrow> piece_key t n m \<notin> fst ` set ps"
  unfolding pieces_before_def using piece_key_inject by fastforce

text \<open>The cells a row may have on the way: the final value, or the placeholder of a text that comes in pieces.\<close>

definition cell_of :: "(rat \<Rightarrow> string) \<Rightarrow> table_spec \<Rightarrow> json_row \<Rightarrow> column \<Rightarrow> string \<times> sql_value \<Rightarrow> bool" where
  "cell_of fmt ts row c x \<longleftrightarrow> fst x = fst c \<and> (case snd c row of
      Inl e \<Rightarrow> False
    | Inr v \<Rightarrow> snd x = spec_value fmt v \<or> too_long v \<and> snd x = PLACEHOLDER (ts_table ts) (fst c))"

text \<open>Values that their columns store as they are.\<close>

definition fits_column :: "sqlite \<Rightarrow> (rat \<Rightarrow> string) \<Rightarrow> table_spec \<Rightarrow> json_row \<Rightarrow> column \<Rightarrow> bool" where
  "fits_column sq fmt ts row c = (case snd c row of
      Inl e \<Rightarrow> True | Inr v \<Rightarrow> affine sq (ts_table ts) (fst c) (spec_value fmt v) = spec_value fmt v)"

lemma loaded_cell:
  assumes "load_column fmt ts m row c = Inr (x, ls)"
  shows "cell_of fmt ts row c (fst c, x)" "cell_of fmt ts row c (spec_cell fmt row c)"
proof -
  obtain n read where c: "c = (n, read)" by (cases c)
  with assms obtain v where v: "read row = Inr v" by (auto simp: load_column_def sbind_eq_Inr)
  with assms c show "cell_of fmt ts row c (fst c, x)"
    by (auto simp: cell_of_def load_column_def sbind_eq_Inr Let_def dest: sql_value_spec split: if_splits)
  from v c show "cell_of fmt ts row c (spec_cell fmt row c)" by (simp add: cell_of_def spec_cell_def)
qed

lemma loaded_cells: "smap (load_column fmt ts m row) cs = Inr rs \<Longrightarrow> list_all2 (cell_of fmt ts row) cs (zip (map fst cs) (map fst rs))"
proof (induction cs arbitrary: rs)
  case (Cons c cs)
  then obtain x ls rs' where "rs = (x, ls) # rs'" "load_column fmt ts m row c = Inr (x, ls)" "smap (load_column fmt ts m row) cs = Inr rs'"
    by (auto simp: sbind_eq_Inr)
  with Cons.IH loaded_cell(1) show ?case by simp
qed simp

text \<open>The columns of one row, one after the other.\<close>

lemma finish_columns:
  assumes "smap (load_column fmt ts m row) cs = Inr rs" and "where_key fmt ts row = Inr key"
    and "distinct (map fst pre @ map fst cs)" and "\<forall>n \<in> fst ` set cs. dotless n" "dotless (ts_table ts)"
    and "\<forall>(n, read) \<in> set cs. n \<in> fst ` set key \<longrightarrow> \<not> (\<exists>v. read row = Inr v \<and> too_long v)"
    and "ld_pieces d = Some ps" "\<forall>n \<in> fst ` set cs. piece_key (ts_table ts) n m \<notin> fst ` set ps"
    and "ld_tables d (ts_table ts) = old @ [pre @ zip (map fst cs) (map fst rs)]"
    and "\<forall>r \<in> set old. \<not> matches key r" "matches key (pre @ zip (map fst cs) (map fst rs))"
    and "\<forall>c \<in> set cs. fits_column sq fmt ts row c"
    and "\<forall>xs. list_all2 (cell_of fmt ts row) cs xs \<longrightarrow> consistent sq ((ld_tables d)(ts_table ts := old @ [pre @ xs]))"
    and fit: "map (\<lambda>(c, v). (c, affine sq (ts_table ts) c v)) key = key"
  shows "\<exists>ps'. exec_lines sq (concat (map snd rs)) d =
      Some (d\<lparr>ld_tables := (ld_tables d)(ts_table ts := old @ [pre @ map (spec_cell fmt row) cs]), ld_pieces := Some ps'\<rparr>) \<and>
    fst ` set ps' \<subseteq> fst ` set ps \<union> {piece_key (ts_table ts) n m | n. n \<in> fst ` set cs}"
  using assms(1,3,4,6-13)
proof (induction cs arbitrary: rs pre d ps)
  case Nil
  then show ?case by (intro exI [of _ ps]) (cases d, auto)
next
  case (Cons c cs)
  obtain n read where c: "c = (n, read)" by fastforce
  from Cons.prems(1) obtain x ls rs' where rs: "rs = (x, ls) # rs'" "load_column fmt ts m row c = Inr (x, ls)"
    "smap (load_column fmt ts m row) cs = Inr rs'" by (auto simp: sbind_eq_Inr)
  from rs(2) c obtain v where v: "read row = Inr v" by (auto simp: load_column_def sbind_eq_Inr)
  let ?t = "ts_table ts" and ?k = "piece_key (ts_table ts) n m" and ?rest = "zip (map fst cs) (map fst rs')"
  have names: "n \<notin> fst ` set pre" "n \<notin> fst ` set ?rest"
    using Cons.prems(2) c by (auto dest: set_zip_leftD)
  have spec: "spec_cell fmt row c = (n, spec_value fmt v)" by (simp add: spec_cell_def c v)
  have final: "consistent sq ((ld_tables d)(?t := old @ [(pre @ [spec_cell fmt row c]) @ xs]))" if "list_all2 (cell_of fmt ts row) cs xs" for xs
    using Cons.prems(11) loaded_cell(2) [OF rs(2)] that by (metis append_Cons append_Nil append_assoc list_all2_Cons)
  have now: "consistent sq (ld_tables d)"
    using Cons.prems(7,11) loaded_cells [OF Cons.prems(1)] by (metis fun_upd_triv)
  obtain d1 ps1 where d1: "exec_lines sq ls d = Some d1" "ld_pieces d1 = Some ps1"
    "d1 = d\<lparr>ld_tables := (ld_tables d)(?t := old @ [(pre @ [spec_cell fmt row c]) @ ?rest]), ld_pieces := Some ps1\<rparr>"
    "fst ` set ps1 \<subseteq> insert ?k (fst ` set ps)" "matches key ((pre @ [spec_cell fmt row c]) @ ?rest)"
  proof (cases "too_long v")
    case False
    then have "x = spec_value fmt v" "ls = []"
      using rs(2) v c by (auto simp: load_column_def sbind_eq_Inr dest: sql_value_spec)
    then have cell: "spec_cell fmt row c = (n, x)" by (simp add: spec)
    then have tab: "ld_tables d ?t = old @ [(pre @ [spec_cell fmt row c]) @ ?rest]" using Cons.prems(7) by (simp add: rs c)
    have "d = d\<lparr>ld_tables := (ld_tables d)(?t := old @ [(pre @ [spec_cell fmt row c]) @ ?rest]), ld_pieces := Some ps\<rparr>"
      using Cons.prems(5) tab by (cases d) (simp add: fun_upd_idem)
    moreover have "matches key ((pre @ [spec_cell fmt row c]) @ ?rest)" using Cons.prems(9) cell by (simp add: rs c)
    ultimately show ?thesis using that [of d ps] \<open>ls = []\<close> Cons.prems(5) by auto
  next
    case True
    then have ls: "ls = map (\<lambda>(i, p). Insert_Piece ?k i p) (enumerate 0 (pieces (text_of v))) @ [Update_Row ?t n ?k key]"
      using rs(2) v c assms(2) by (auto simp: load_column_def sbind_eq_Inr Let_def)
    have notkey: "n \<notin> fst ` set key" using Cons.prems(4) True v c by auto
    have fresh: "?k \<notin> fst ` set ps" using Cons.prems(6) c by auto
    have tab: "ld_tables d ?t = old @ [pre @ (n, x) # ?rest]" using Cons.prems(7) by (simp add: rs c)
    have m: "matches key (pre @ (n, x) # ?rest)" using Cons.prems(9) by (simp add: rs c)
    have cell: "set_cell n (SText (text_of v)) (pre @ (n, x) # ?rest) = (pre @ [spec_cell fmt row c]) @ ?rest"
      using names too_long_spec [OF True, of fmt] by (simp add: set_cell_append set_cell_fresh spec) (simp add: set_cell_def set_cell_fresh [unfolded set_cell_def])
    have "affine sq ?t n (SText (text_of v)) = SText (text_of v)"
      using Cons.prems(10) too_long_spec [OF True, of fmt] v c by (simp add: fits_column_def)
    note fin = finish_column [OF Cons.prems(5) fresh conjunct2 [OF too_long_spec [OF True]] tab Cons.prems(8) m this now, folded ls]
    from fin [unfolded cell, OF final [OF loaded_cells [OF rs(3)]] fit] m matches_set_cell [OF notkey, of "SText (text_of v)" "pre @ (n, x) # ?rest"] show ?thesis
      by (intro that) (auto simp: cell)
  qed
  have keys: "\<forall>n' \<in> fst ` set cs. piece_key ?t n' m \<notin> fst ` set ps1"
  proof
    fix n' assume n': "n' \<in> fst ` set cs"
    with Cons.prems(2) c have "n' \<noteq> n" by auto
    with n' Cons.prems(3) c assms(5) have "piece_key ?t n' m \<noteq> ?k" by (subst piece_key_inject) auto
    with d1(4) Cons.prems(6) n' c show "piece_key ?t n' m \<notin> fst ` set ps1" by auto
  qed
  have tab1: "ld_tables d1 ?t = old @ [(pre @ [spec_cell fmt row c]) @ ?rest]" by (subst d1(3)) simp
  have later: "\<forall>xs. list_all2 (cell_of fmt ts row) cs xs \<longrightarrow> consistent sq ((ld_tables d1)(?t := old @ [(pre @ [spec_cell fmt row c]) @ xs]))"
    using final by (subst d1(3)) simp
  have "\<exists>ps'. exec_lines sq (concat (map snd rs')) d1 =
      Some (d1\<lparr>ld_tables := (ld_tables d1)(?t := old @ [(pre @ [spec_cell fmt row c]) @ map (spec_cell fmt row) cs]), ld_pieces := Some ps'\<rparr>) \<and>
    fst ` set ps' \<subseteq> fst ` set ps1 \<union> {piece_key ?t n' m | n'. n' \<in> fst ` set cs}"
    by (rule Cons.IH [OF rs(3) _ _ _ d1(2) keys tab1 Cons.prems(8) d1(5) _ later]) (use Cons.prems c spec in auto)
  then obtain ps' where ps': "exec_lines sq (concat (map snd rs')) d1 =
      Some (d1\<lparr>ld_tables := (ld_tables d1)(?t := old @ [(pre @ [spec_cell fmt row c]) @ map (spec_cell fmt row) cs]), ld_pieces := Some ps'\<rparr>)"
    "fst ` set ps' \<subseteq> fst ` set ps1 \<union> {piece_key ?t n' m | n'. n' \<in> fst ` set cs}" by blast
  have "exec_lines sq (concat (map snd rs)) d = Some (d\<lparr>ld_tables := (ld_tables d)(?t := old @ [pre @ map (spec_cell fmt row) (c # cs)]), ld_pieces := Some ps'\<rparr>)"
    using d1(1,3) ps'(1) by (simp add: rs exec_append)
  moreover have "fst ` set ps' \<subseteq> fst ` set ps \<union> {piece_key ?t n' m | n'. n' \<in> fst ` set (c # cs)}"
  proof -
    have "fst ` set ps' \<subseteq> insert ?k (fst ` set ps) \<union> {piece_key ?t n' m | n'. n' \<in> fst ` set cs}" using ps'(2) d1(4) by blast
    also have "\<dots> \<subseteq> fst ` set ps \<union> {piece_key ?t n' m | n'. n' \<in> fst ` set (c # cs)}" by (auto simp: c)
    finally show ?thesis .
  qed
  ultimately show ?case by blast
qed

section \<open>Loading the tables\<close>

text \<open>What the table descriptions have in common; the key columns are copied as they are.\<close>

definition table_ok :: "table_spec \<Rightarrow> bool" where
  "table_ok ts \<longleftrightarrow> distinct (map fst (ts_columns ts)) \<and> list_all dotless (map fst (ts_columns ts)) \<and> dotless (ts_table ts) \<and>
     set (ts_key ts) \<subseteq> fst ` set (ts_columns ts) \<and> ts_table ts \<in> set LOADED \<and>
     (\<forall>(n, read) \<in> set (ts_columns ts). n \<in> set (ts_key ts) \<longrightarrow> read = (\<lambda>row. Inr (field row n)))"

definition row_key :: "(rat \<Rightarrow> string) \<Rightarrow> table_spec \<Rightarrow> json_row \<Rightarrow> sql_value list" where
  "row_key fmt ts row = map (\<lambda>c. spec_value fmt (field row c)) (ts_key ts)"

text \<open>Keys are there and are not so long that they would be loaded in pieces.\<close>

definition keys_loadable :: "(rat \<Rightarrow> string) \<Rightarrow> table_spec \<Rightarrow> json_row list \<Rightarrow> bool" where
  "keys_loadable fmt ts rows \<longleftrightarrow> distinct (map (row_key fmt ts) rows) \<and>
     list_all (\<lambda>row. list_all (\<lambda>c. \<not> too_long (field row c) \<and> spec_value fmt (field row c) \<noteq> SNull) (ts_key ts)) rows"

lemma smap_zip: "smap f xs = Inr ys \<Longrightarrow> (x, y) \<in> set (zip xs ys) \<Longrightarrow> f x = Inr y"
  by (induction xs arbitrary: ys) (auto simp: sbind_eq_Inr)

lemma key_column:
  assumes "table_ok ts" "n \<in> set (ts_key ts)"
  shows "(n, \<lambda>row. Inr (field row n)) \<in> set (ts_columns ts)"
proof -
  from assms obtain read where "(n, read) \<in> set (ts_columns ts)" by (force simp: table_ok_def)
  with assms show ?thesis by (auto simp: table_ok_def)
qed

lemma map_of_spec:
  assumes "table_ok ts" "n \<in> set (ts_key ts)"
  shows "map_of (spec_row fmt ts row) n = Some (spec_value fmt (field row n))"
proof (rule map_of_is_SomeI)
  have "map fst (spec_row fmt ts row) = map fst (ts_columns ts)" by (simp add: spec_row_def spec_cell_def comp_def case_prod_beta)
  with assms(1) show "distinct (map fst (spec_row fmt ts row))" by (simp add: table_ok_def)
  show "(n, spec_value fmt (field row n)) \<in> set (spec_row fmt ts row)"
    using key_column [OF assms] by (force simp: spec_row_def spec_cell_def)
qed

lemma spec_key: "table_ok ts \<Longrightarrow> key_of_row (ts_key ts) (spec_row fmt ts row) = row_key fmt ts row"
  unfolding key_of_row_def row_key_def by (rule map_cong) (simp_all add: map_of_spec)

text \<open>The row as inserted has the keys of the finished row.\<close>

lemma inserted_key:
  assumes ok: "table_ok ts" and cs: "smap (load_column fmt ts m row) (ts_columns ts) = Inr rs"
    and short: "\<forall>c \<in> set (ts_key ts). \<not> too_long (field row c)" and n: "n \<in> set (ts_key ts)"
  shows "map_of (zip (map fst (ts_columns ts)) (map fst rs)) n = Some (spec_value fmt (field row n))"
    and "\<exists>place. sql_value fmt (field row n) place = Inr (spec_value fmt (field row n))"
proof -
  have len: "length rs = length (ts_columns ts)" using smap_length [OF cs] .
  from key_column [OF ok n] obtain i where i: "i < length (ts_columns ts)" "ts_columns ts ! i = (n, \<lambda>row. Inr (field row n))"
    by (metis in_set_conv_nth)
  have "load_column fmt ts m row (ts_columns ts ! i) = Inr (rs ! i)" by (rule smap_nth [OF cs i(1)])
  then have v: "sql_value fmt (field row n) (ts_table ts @ ''.'' @ n) = Inr (fst (rs ! i))"
    using short n by (auto simp: i(2) load_column_def sbind_eq_Inr) (metis fst_conv)
  then have s: "fst (rs ! i) = spec_value fmt (field row n)" by (simp add: sql_value_spec)
  with v show "\<exists>place. sql_value fmt (field row n) place = Inr (spec_value fmt (field row n))" by auto
  show "map_of (zip (map fst (ts_columns ts)) (map fst rs)) n = Some (spec_value fmt (field row n))"
  proof (rule map_of_is_SomeI)
    show "distinct (map fst (zip (map fst (ts_columns ts)) (map fst rs)))" using ok len by (simp add: table_ok_def)
    have "zip (map fst (ts_columns ts)) (map fst rs) ! i = (n, spec_value fmt (field row n))" using i len s by simp
    with i(1) len show "(n, spec_value fmt (field row n)) \<in> set (zip (map fst (ts_columns ts)) (map fst rs))"
      by (metis length_map length_zip min.idem nth_mem)
  qed
qed

lemma sql_value_any: "sql_value fmt v place = Inr x \<Longrightarrow> sql_value fmt v place' = Inr x"
  by (cases v) (auto simp: sql_value_def split: jsnum.splits if_splits)

lemma smap_all: "(\<And>x. x \<in> set xs \<Longrightarrow> f x = Inr (g x)) \<Longrightarrow> smap f xs = Inr (map g xs)"
  by (induction xs) auto

lemma where_key_eq:
  assumes "\<And>n. n \<in> set (ts_key ts) \<Longrightarrow> \<exists>place. sql_value fmt (field row n) place = Inr (spec_value fmt (field row n))"
  shows "where_key fmt ts row = Inr (map (\<lambda>c. (c, spec_value fmt (field row c))) (ts_key ts))"
  unfolding where_key_def
proof (rule smap_all)
  fix c assume "c \<in> set (ts_key ts)"
  from assms [OF this] sql_value_any have "sql_value fmt (field row c) (ts_table ts @ ''.'' @ c) = Inr (spec_value fmt (field row c))" by blast
  then show "sbind (sql_value fmt (field row c) (ts_table ts @ ''.'' @ c)) (\<lambda>v. Inr (c, v)) = Inr (c, spec_value fmt (field row c))" by simp
qed

lemma matches_key:
  assumes "\<And>n. n \<in> set ks \<Longrightarrow> map_of r n = Some (g n)"
  shows "matches (map (\<lambda>c. (c, h c)) ks) r \<longleftrightarrow> (\<forall>c \<in> set ks. h c \<noteq> SNull) \<and> map g ks = map h ks"
  using assms by (auto simp: matches_def list_all_iff)

text \<open>A consistent row that its columns store as it is is stored as it is.\<close>

lemma placeholder_affine: "affine sq t n (PLACEHOLDER t n) = PLACEHOLDER t n"
  by (auto simp: affine_def PLACEHOLDER_def INTEGER_COLUMNS_def)

lemma consistent_row: "consistent sq tabs \<Longrightarrow> t \<in> set LOADED \<Longrightarrow> row \<in> set (tabs t) \<Longrightarrow> list_all (cell_ok sq t) row"
  by (simp add: consistent_def table_consistent_def list_all_iff)

lemma stored_same:
  assumes "list_all2 (cell_of fmt ts row) cs xs" "\<forall>c \<in> set cs. fits_column sq fmt ts row c"
    and "list_all (cell_ok sq (ts_table ts)) xs"
  shows "stored_row sq (ts_table ts) rows xs = xs"
  unfolding stored_row_def
proof (rule map_idI)
  fix x assume x: "x \<in> set xs"
  then have "cell_ok sq (ts_table ts) x" using assms(3) by (simp add: list_all_iff)
  moreover have "list_all2 (\<lambda>x c. cell_of fmt ts row c x) xs cs" using assms(1) by (simp add: list_all2_conv_all_nth)
  from list_all2_member [OF this x] obtain c where "c \<in> set cs" "cell_of fmt ts row c x" by blast
  with assms(2) have "affine sq (ts_table ts) (fst x) (snd x) = snd x"
    by (fastforce simp: cell_of_def fits_column_def placeholder_affine split: sum.splits)
  ultimately show "(case x of (n, v) \<Rightarrow> (n, if row_id (ts_table ts) n \<and> v = SNull then SInt (next_id rows) else affine sq (ts_table ts) n v)) = x"
    by (auto simp: cell_ok_def split: prod.splits)
qed

lemma load_one_row:
  assumes ok: "table_ok ts" and ls: "load_row fmt ts (m, row) = Inr ls"
    and short: "\<forall>c \<in> set (ts_key ts). \<not> too_long (field row c) \<and> spec_value fmt (field row c) \<noteq> SNull"
    and tab: "ld_tables d (ts_table ts) = map (spec_row fmt ts) done_rows" and new: "row_key fmt ts row \<notin> row_key fmt ts ` set done_rows"
    and ps: "ld_pieces d = Some ps" "pieces_before (ts_table ts) m ps"
    and typed: "\<forall>c \<in> set (ts_columns ts). fits_column sq fmt ts row c"
    and accepted: "\<forall>xs. list_all2 (cell_of fmt ts row) (ts_columns ts) xs \<longrightarrow>
      consistent sq ((ld_tables d)(ts_table ts := map (spec_row fmt ts) done_rows @ [xs]))"
  shows "\<exists>ps'. exec_lines sq ls d = Some (d\<lparr>ld_tables := (ld_tables d)(ts_table ts := map (spec_row fmt ts) (done_rows @ [row])), ld_pieces := Some ps'\<rparr>) \<and>
    pieces_before (ts_table ts) (Suc m) ps' \<and> fst ` set ps' \<subseteq> fst ` set ps \<union> {piece_key (ts_table ts) n i | n i. dotless n}"
proof -
  let ?t = "ts_table ts" and ?cols = "ts_columns ts"
  from ls obtain rs where rs: "smap (load_column fmt ts m row) ?cols = Inr rs" "ls = Insert_Row ?t (map fst ?cols) (map fst rs) # concat (map snd rs)"
    by (auto simp: load_row_def sbind_eq_Inr)
  let ?row = "zip (map fst ?cols) (map fst rs)"
  have dots: "\<forall>n \<in> fst ` set ?cols. dotless n" "dotless ?t" using ok by (auto simp: table_ok_def list_all_iff)
  have short': "\<forall>c \<in> set (ts_key ts). \<not> too_long (field row c)" using short by blast
  note key = inserted_key [OF ok rs(1) short']
  have wk: "where_key fmt ts row = Inr (map (\<lambda>c. (c, spec_value fmt (field row c))) (ts_key ts))" by (rule where_key_eq) (rule key(2))
  let ?key = "map (\<lambda>c. (c, spec_value fmt (field row c))) (ts_key ts)"
  have cells: "list_all2 (cell_of fmt ts row) ?cols ?row" by (rule loaded_cells [OF rs(1)])
  then have inserted: "consistent sq ((ld_tables d)(?t := map (spec_row fmt ts) done_rows @ [?row]))" using accepted by blast
  have "?t \<in> set LOADED" using ok by (simp add: table_ok_def)
  from consistent_row [OF inserted this] have "list_all (cell_ok sq ?t) ?row" by simp
  from stored_same [OF cells typed this] have ins: "exec_line sq (Insert_Row ?t (map fst ?cols) (map fst rs)) d =
      Some (d\<lparr>ld_tables := (ld_tables d)(?t := map (spec_row fmt ts) done_rows @ [?row])\<rparr>)"
    using tab inserted by (simp add: exec_line_def)
  let ?d = "d\<lparr>ld_tables := (ld_tables d)(?t := map (spec_row fmt ts) done_rows @ [?row])\<rparr>"
  have "\<not> matches ?key r" if "r \<in> set (map (spec_row fmt ts) done_rows)" for r
  proof -
    from that obtain row' where row': "row' \<in> set done_rows" "r = spec_row fmt ts row'" by auto
    with new have "row_key fmt ts row' \<noteq> row_key fmt ts row" by (metis image_eqI)
    then have "map (\<lambda>c. spec_value fmt (field row' c)) (ts_key ts) \<noteq> map (\<lambda>c. spec_value fmt (field row c)) (ts_key ts)"
      unfolding row_key_def .
    moreover have "matches ?key r \<longleftrightarrow> (\<forall>c \<in> set (ts_key ts). spec_value fmt (field row c) \<noteq> SNull) \<and>
        map (\<lambda>c. spec_value fmt (field row' c)) (ts_key ts) = map (\<lambda>c. spec_value fmt (field row c)) (ts_key ts)"
      by (rule matches_key) (simp add: row'(2) map_of_spec [OF ok])
    ultimately show ?thesis by blast
  qed
  moreover have "matches ?key ?row"
    using matches_key [of "ts_key ts" ?row "\<lambda>c. spec_value fmt (field row c)" "\<lambda>c. spec_value fmt (field row c)"] key(1) short by simp
  moreover have "\<forall>(n, read) \<in> set ?cols. n \<in> fst ` set ?key \<longrightarrow> \<not> (\<exists>v. read row = Inr v \<and> too_long v)"
    using ok short by (fastforce simp: table_ok_def image_image)
  moreover have "\<forall>n \<in> fst ` set ?cols. piece_key ?t n m \<notin> fst ` set ps" using pieces_before_fresh [OF ps(2)] dots by blast
  moreover have "distinct (map fst ?cols)" using ok by (simp add: table_ok_def)
  moreover have "\<forall>xs. list_all2 (cell_of fmt ts row) ?cols xs \<longrightarrow> consistent sq ((ld_tables ?d)(?t := map (spec_row fmt ts) done_rows @ [[] @ xs]))"
    using accepted by simp
  moreover have "affine sq ?t c (spec_value fmt (field row c)) = spec_value fmt (field row c)" if "c \<in> set (ts_key ts)" for c
    using typed key_column [OF ok that] by (fastforce simp: fits_column_def)
  then have "map (\<lambda>(c, v). (c, affine sq ?t c v)) ?key = ?key" by simp
  ultimately have "\<exists>ps'. exec_lines sq (concat (map snd rs)) ?d =
      Some (?d\<lparr>ld_tables := (ld_tables ?d)(?t := map (spec_row fmt ts) done_rows @ [[] @ map (spec_cell fmt row) ?cols]), ld_pieces := Some ps'\<rparr>) \<and>
    fst ` set ps' \<subseteq> fst ` set ps \<union> {piece_key ?t n m | n. n \<in> fst ` set ?cols}"
    using dots ps(1) typed by (intro finish_columns [OF rs(1) wk]) simp_all
  then obtain ps' where ps': "exec_lines sq (concat (map snd rs)) ?d = Some (d\<lparr>ld_tables := (ld_tables d)(?t := map (spec_row fmt ts) (done_rows @ [row])), ld_pieces := Some ps'\<rparr>)"
    "fst ` set ps' \<subseteq> fst ` set ps \<union> {piece_key ?t n m | n. n \<in> fst ` set ?cols}" by (auto simp: spec_row_def)
  have "pieces_before ?t (Suc m) ps'" unfolding pieces_before_def
  proof
    fix k assume "k \<in> fst ` set ps'"
    with ps'(2) consider "k \<in> fst ` set ps" | n where "k = piece_key ?t n m" "n \<in> fst ` set ?cols" by blast
    then show "\<exists>t' n i. k = piece_key t' n i \<and> dotless t' \<and> dotless n \<and> (t' = ?t \<longrightarrow> i < Suc m)"
    proof cases
      case 1
      with ps(2) show ?thesis by (meson less_SucI pieces_before_def)
    next
      case (2 n)
      with dots show ?thesis by blast
    qed
  qed
  moreover have "exec_lines sq ls d = exec_lines sq (concat (map snd rs)) ?d" by (simp add: rs(2) ins)
  moreover have "fst ` set ps' \<subseteq> fst ` set ps \<union> {piece_key ?t n i | n i. dotless n}" using ps'(2) dots(1) by blast
  ultimately show ?thesis using ps'(1) by auto
qed

lemma load_rows:
  assumes ok: "table_ok ts" and "smap (load_row fmt ts) (enumerate (length done_rows) rows) = Inr lss"
    and "keys_loadable fmt ts (done_rows @ rows)" and "ld_tables d (ts_table ts) = map (spec_row fmt ts) done_rows"
    and "ld_pieces d = Some ps" "pieces_before (ts_table ts) (length done_rows) ps"
    and "\<forall>row \<in> set rows. \<forall>c \<in> set (ts_columns ts). fits_column sq fmt ts row c"
    and "\<forall>pre row post xs. done_rows @ rows = pre @ row # post \<longrightarrow> list_all2 (cell_of fmt ts row) (ts_columns ts) xs \<longrightarrow>
      consistent sq ((ld_tables d)(ts_table ts := map (spec_row fmt ts) pre @ [xs]))"
  shows "\<exists>ps'. exec_lines sq (concat lss) d = Some (d\<lparr>ld_tables := (ld_tables d)(ts_table ts := map (spec_row fmt ts) (done_rows @ rows)), ld_pieces := Some ps'\<rparr>) \<and>
    fst ` set ps' \<subseteq> fst ` set ps \<union> {piece_key (ts_table ts) n i | n i. dotless n}"
  using assms(2-)
proof (induction rows arbitrary: done_rows lss d ps)
  case Nil
  then show ?case by (intro exI [of _ ps]) (cases d, auto simp: fun_upd_idem)
next
  case (Cons row rows)
  let ?t = "ts_table ts"
  from Cons.prems(1) obtain ls lss' where ls: "load_row fmt ts (length done_rows, row) = Inr ls"
    "smap (load_row fmt ts) (enumerate (length (done_rows @ [row])) rows) = Inr lss'" "lss = ls # lss'" by (auto simp: sbind_eq_Inr)
  have keys: "\<forall>c \<in> set (ts_key ts). \<not> too_long (field row c) \<and> spec_value fmt (field row c) \<noteq> SNull"
    "row_key fmt ts row \<notin> row_key fmt ts ` set done_rows"
    using Cons.prems(2) by (auto simp: keys_loadable_def list_all_iff)
  have typed: "\<forall>c \<in> set (ts_columns ts). fits_column sq fmt ts row c" using Cons.prems(6) by simp
  have accepted: "\<forall>xs. list_all2 (cell_of fmt ts row) (ts_columns ts) xs \<longrightarrow>
      consistent sq ((ld_tables d)(?t := map (spec_row fmt ts) done_rows @ [xs]))" using Cons.prems(7) by blast
  from load_one_row [OF ok ls(1) keys(1) Cons.prems(3) keys(2) Cons.prems(4,5) typed accepted] obtain ps1 where ps1:
    "exec_lines sq ls d = Some (d\<lparr>ld_tables := (ld_tables d)(?t := map (spec_row fmt ts) (done_rows @ [row])), ld_pieces := Some ps1\<rparr>)"
    "pieces_before ?t (length (done_rows @ [row])) ps1" "fst ` set ps1 \<subseteq> fst ` set ps \<union> {piece_key ?t n i | n i. dotless n}" by auto
  let ?d = "d\<lparr>ld_tables := (ld_tables d)(?t := map (spec_row fmt ts) (done_rows @ [row])), ld_pieces := Some ps1\<rparr>"
  have keys': "keys_loadable fmt ts ((done_rows @ [row]) @ rows)" using Cons.prems(2) by simp
  have tab: "ld_tables ?d ?t = map (spec_row fmt ts) (done_rows @ [row])" "ld_pieces ?d = Some ps1" by simp_all
  have typed': "\<forall>row \<in> set rows. \<forall>c \<in> set (ts_columns ts). fits_column sq fmt ts row c" using Cons.prems(6) by simp
  have accepted': "\<forall>pre row' post xs. (done_rows @ [row]) @ rows = pre @ row' # post \<longrightarrow> list_all2 (cell_of fmt ts row') (ts_columns ts) xs \<longrightarrow>
      consistent sq ((ld_tables ?d)(?t := map (spec_row fmt ts) pre @ [xs]))"
  proof (intro allI impI)
    fix pre row' post xs assume "(done_rows @ [row]) @ rows = pre @ row' # post" "list_all2 (cell_of fmt ts row') (ts_columns ts) xs"
    then show "consistent sq ((ld_tables ?d)(?t := map (spec_row fmt ts) pre @ [xs]))"
      using Cons.prems(7) [rule_format, of pre row' post xs] by simp
  qed
  from Cons.IH [OF ls(2) keys' tab ps1(2) typed' accepted'] obtain ps' where
    "exec_lines sq (concat lss') ?d = Some (?d\<lparr>ld_tables := (ld_tables ?d)(?t := map (spec_row fmt ts) ((done_rows @ [row]) @ rows)), ld_pieces := Some ps'\<rparr>) \<and>
     fst ` set ps' \<subseteq> fst ` set ps1 \<union> {piece_key ?t n i | n i. dotless n}" ..
  then have ps': "exec_lines sq (concat lss') ?d = Some (d\<lparr>ld_tables := (ld_tables d)(?t := map (spec_row fmt ts) (done_rows @ row # rows)), ld_pieces := Some ps'\<rparr>)"
    "fst ` set ps' \<subseteq> fst ` set ps1 \<union> {piece_key ?t n i | n i. dotless n}" by simp_all
  have "exec_lines sq (concat lss) d = Some (d\<lparr>ld_tables := (ld_tables d)(?t := map (spec_row fmt ts) (done_rows @ row # rows)), ld_pieces := Some ps'\<rparr>)"
    using ps1(1) ps'(1) by (simp add: ls(3) exec_append)
  moreover have "fst ` set ps' \<subseteq> fst ` set ps \<union> {piece_key ?t n i | n i. dotless n}" using ps'(2) ps1(3) by blast
  ultimately show ?case by blast
qed

lemma pieces_before_other:
  assumes "pieces_before t 0 ps" "fst ` set ps' \<subseteq> fst ` set ps \<union> {piece_key t' n i | n i. dotless n}" "t \<noteq> t'" "dotless t'"
  shows "pieces_before t 0 ps'"
  unfolding pieces_before_def
proof
  fix k assume "k \<in> fst ` set ps'"
  with assms(2) consider "k \<in> fst ` set ps" | n i where "k = piece_key t' n i" "dotless n" by blast
  then show "\<exists>t'' n i. k = piece_key t'' n i \<and> dotless t'' \<and> dotless n \<and> (t'' = t \<longrightarrow> i < 0)"
  proof cases
    case 1
    then show ?thesis using assms(1) unfolding pieces_before_def by blast
  next
    case (2 n i)
    with assms(3,4) show ?thesis by blast
  qed
qed

definition loaded :: "(rat \<Rightarrow> string) \<Rightarrow> snapshot \<Rightarrow> table_spec \<Rightarrow> sql_row list" where
  "loaded fmt files ts = map (spec_row fmt ts) (case files (ts_table ts) of Some rows \<Rightarrow> rows | None \<Rightarrow> [])"

text \<open>What a row of the snapshot has to satisfy besides the schema: its values have the types of their columns, and a text that comes in
  pieces is in a column that takes the placeholder and is no part of a key.\<close>

definition row_fits :: "sqlite \<Rightarrow> (rat \<Rightarrow> string) \<Rightarrow> table_spec \<Rightarrow> json_row \<Rightarrow> bool" where
  "row_fits sq fmt ts row \<longleftrightarrow> list_all (\<lambda>c. fits_column sq fmt ts row c \<and> (case snd c row of
      Inl e \<Rightarrow> True
    | Inr v \<Rightarrow> too_long v \<longrightarrow> cell_ok sq (ts_table ts) (fst c, PLACEHOLDER (ts_table ts) (fst c)) \<and> fst c \<notin> set (constrained (ts_table ts))))
    (ts_columns ts)"

lemma placeholder_bytes: "too_long v \<Longrightarrow> cell_bytes (PLACEHOLDER t n) \<le> cell_bytes (spec_value fmt v)"
  using too_long_spec [of v fmt]
  by (cases v) (auto simp: too_long_def PLACEHOLDER_def cell_bytes_def text_of_def PIECE_BYTES_def byte_size_def code_of_def)

lemma cells_grow:
  assumes "list_all2 (cell_of fmt ts row) cs xs" "set cs \<subseteq> set (ts_columns ts)" "row_fits sq fmt ts row"
  shows "list_all2 (cell_grows sq (ts_table ts)) xs (map (spec_cell fmt row) cs)"
  using assms(1,2)
proof (induction rule: list_all2_induct)
  case (Cons c cs x xs)
  then have c: "c \<in> set (ts_columns ts)" by simp
  obtain v where v: "snd c row = Inr v" "fst x = fst c" "snd x = spec_value fmt v \<or> too_long v \<and> snd x = PLACEHOLDER (ts_table ts) (fst c)"
    using Cons(1) by (auto simp: cell_of_def split: sum.splits)
  have spec: "spec_cell fmt row c = (fst c, spec_value fmt v)" using v(1) by (cases c) (simp add: spec_cell_def)
  have "too_long v \<longrightarrow> cell_ok sq (ts_table ts) (fst c, PLACEHOLDER (ts_table ts) (fst c)) \<and> fst c \<notin> set (constrained (ts_table ts))"
    using assms(3) c v(1) by (auto simp: row_fits_def list_all_iff split: sum.splits)
  with v(2,3) spec have "cell_grows sq (ts_table ts) x (spec_cell fmt row c)" by (cases x) (auto simp: cell_grows_def placeholder_bytes)
  with Cons show ?case by simp
qed simp

lemma grows_refl: "list_all2 (list_all2 (cell_grows sq t)) rows rows"
  by (intro list_all2_refl) (simp add: cell_grows_def)

lemma rows_grow_simps: "rows_grow sq t [] final" "rows_grow sq t final final"
  by (auto simp: rows_grow_def grows_refl intro: exI [of _ 0] exI [of _ "length final"])

text \<open>The parents of a table are loaded before it.\<close>

definition has_parent :: "string \<Rightarrow> string \<Rightarrow> bool" where
  "has_parent t p \<longleftrightarrow> (\<exists>cols pcols. (cols, p, pcols) \<in> set (FOREIGN_KEYS t))"

fun parents_first :: "string list \<Rightarrow> bool" where
  "parents_first [] \<longleftrightarrow> True"
| "parents_first (t # ts) \<longleftrightarrow> (\<forall>p. has_parent t p \<longrightarrow> p \<notin> set (t # ts)) \<and> parents_first ts"

text \<open>The state of the tables while those named \<open>names\<close> are still to be loaded.\<close>

definition loading :: "sql_tables \<Rightarrow> sql_tables \<Rightarrow> string list \<Rightarrow> bool" where
  "loading tabs final names \<longleftrightarrow> (\<forall>t \<in> set LOADED. tabs t = (if t \<in> set names then [] else final t) \<and>
     (t \<notin> set names \<longrightarrow> (\<forall>p. has_parent t p \<longrightarrow> p \<notin> set names)))"

lemma loading_rows: "loading tabs final names \<Longrightarrow> t \<in> set LOADED \<Longrightarrow> tabs t = (if t \<in> set names then [] else final t)"
  unfolding loading_def by blast

lemma loading_parents: "loading tabs final names \<Longrightarrow> t \<in> set LOADED \<Longrightarrow> t \<notin> set names \<Longrightarrow> has_parent t p \<Longrightarrow> p \<notin> set names"
  unfolding loading_def by blast

lemma loading_step:
  assumes "loading tabs final (t # names)" "parents_first (t # names)" "distinct (t # names)"
  shows "loading (tabs(t := final t)) final names"
  unfolding loading_def
proof (intro ballI conjI impI allI)
  fix t' assume t': "t' \<in> set LOADED"
  show "(tabs(t := final t)) t' = (if t' \<in> set names then [] else final t')"
    using loading_rows [OF assms(1) t'] assms(3) by auto
  fix p assume p: "t' \<notin> set names" "has_parent t' p"
  show "p \<notin> set names"
  proof (cases "t' = t")
    case True
    with p assms(2) show ?thesis by simp
  next
    case False
    with p loading_parents [OF assms(1) t', of p] show ?thesis by simp
  qed
qed

lemma loading_grows:
  assumes load: "loading tabs final (t # names)" and first: "parents_first (t # names)" and t: "t \<in> set LOADED" and rows: "rows_grow sq t rows (final t)"
  shows "tables_grow sq (tabs(t := rows)) final"
  unfolding tables_grow_def
proof (intro ballI conjI impI)
  fix t' assume t': "t' \<in> set LOADED"
  note tabs = loading_rows [OF load t'] and parents = loading_parents [OF load t']
  show "rows_grow sq t' ((tabs(t := rows)) t') (final t')" using tabs rows by (simp add: rows_grow_simps)
  assume some: "(tabs(t := rows)) t' \<noteq> []"
  show "list_all (\<lambda>(cols, p, pcols). length ((tabs(t := rows)) p) = length (final p)) (FOREIGN_KEYS t')"
    unfolding list_all_iff
  proof (clarify)
    fix cols p pcols assume fk: "(cols, p, pcols) \<in> set (FOREIGN_KEYS t')"
    then have "has_parent t' p" by (auto simp: has_parent_def)
    moreover have "t' = t \<or> t' \<notin> set (t # names)" using some tabs by (auto split: if_splits)
    ultimately have "p \<notin> set (t # names)" using first parents [of p] by auto
    moreover have "p \<in> set LOADED" using foreign_constrained [OF fk] by blast
    ultimately show "length ((tabs(t := rows)) p) = length (final p)" using loading_rows [OF load, of p] by simp
  qed
qed

lemma load_tables:
  assumes "smap (load_table fmt files) tss = Inr lss" and "\<forall>ts \<in> set tss. table_ok ts" "distinct (map ts_table tss)"
    and "\<forall>ts \<in> set tss. keys_loadable fmt ts (case files (ts_table ts) of Some rows \<Rightarrow> rows | None \<Rightarrow> [])"
    and "ld_pieces d = Some ps" "\<forall>ts \<in> set tss. pieces_before (ts_table ts) 0 ps"
    and "\<forall>ts \<in> set tss. final (ts_table ts) = loaded fmt files ts" "loading (ld_tables d) final (map ts_table tss)" "parents_first (map ts_table tss)"
    and "\<forall>ts \<in> set tss. \<forall>row \<in> set (case files (ts_table ts) of Some rows \<Rightarrow> rows | None \<Rightarrow> []). row_fits sq fmt ts row"
    and final: "consistent sq final"
  shows "\<exists>d'. exec_lines sq (concat lss) d = Some d' \<and> ld_pieces d' \<noteq> None \<and> ld_fence d' = ld_fence d \<and>
    (\<forall>ts \<in> set tss. ld_tables d' (ts_table ts) = loaded fmt files ts) \<and> (\<forall>t. t \<notin> ts_table ` set tss \<longrightarrow> ld_tables d' t = ld_tables d t)"
  using assms(1-10)
proof (induction tss arbitrary: lss d ps)
  case Nil
  then show ?case by simp
next
  case (Cons ts tss)
  let ?t = "ts_table ts"
  from Cons.prems(1) obtain ls lss' where ls: "load_table fmt files ts = Inr ls" "smap (load_table fmt files) tss = Inr lss'" "lss = ls # lss'"
    by (auto simp: sbind_eq_Inr)
  from ls(1) obtain rows rls where rows: "files ?t = Some rows" "smap (load_row fmt ts) (enumerate 0 rows) = Inr rls" "ls = concat rls"
    by (auto simp: load_table_def sbind_eq_Inr split: option.splits)
  have ok: "table_ok ts" and t: "?t \<in> set LOADED" using Cons.prems(2) by (simp_all add: table_ok_def)
  have empty: "ld_tables d ?t = []" using loading_rows [OF Cons.prems(8) t] by simp
  have fits: "row_fits sq fmt ts row" if "row \<in> set rows" for row using Cons.prems(10) rows(1) that by simp
  have "consistent sq ((ld_tables d)(?t := map (spec_row fmt ts) pre @ [xs]))"
    if split: "rows = pre @ row # post" and xs: "list_all2 (cell_of fmt ts row) (ts_columns ts) xs" for pre row post xs
  proof -
    have "list_all2 (cell_grows sq ?t) xs (spec_row fmt ts row)"
      using cells_grow [OF xs subset_refl fits [of row]] split by (simp add: spec_row_def)
    then have "list_all2 (list_all2 (cell_grows sq ?t)) (map (spec_row fmt ts) pre @ [xs]) (take (Suc (length pre)) (final ?t))"
      using Cons.prems(7) split rows(1) by (simp add: loaded_def list_all2_appendI grows_refl)
    then have "rows_grow sq ?t (map (spec_row fmt ts) pre @ [xs]) (final ?t)"
      using Cons.prems(7) split rows(1) by (auto simp: rows_grow_def loaded_def intro!: exI [of _ "Suc (length pre)"])
    with loading_grows [of "ld_tables d" final ?t "map ts_table tss"] Cons.prems(8,9) t
    have "tables_grow sq ((ld_tables d)(?t := map (spec_row fmt ts) pre @ [xs])) final" by simp
    then show ?thesis using final by (rule growing_consistent)
  qed
  then have accepted: "\<forall>pre row post xs. [] @ rows = pre @ row # post \<longrightarrow> list_all2 (cell_of fmt ts row) (ts_columns ts) xs \<longrightarrow>
      consistent sq ((ld_tables d)(?t := map (spec_row fmt ts) pre @ [xs]))" by simp
  have typed: "\<forall>row \<in> set rows. \<forall>c \<in> set (ts_columns ts). fits_column sq fmt ts row c" using fits by (simp add: row_fits_def list_all_iff)
  have "\<exists>ps'. exec_lines sq (concat rls) d = Some (d\<lparr>ld_tables := (ld_tables d)(?t := map (spec_row fmt ts) ([] @ rows)), ld_pieces := Some ps'\<rparr>) \<and>
      fst ` set ps' \<subseteq> fst ` set ps \<union> {piece_key ?t n i | n i. dotless n}"
    by (rule load_rows [OF ok _ _ _ _ _ typed accepted]) (use Cons.prems(4-6) rows(1,2) empty in simp_all)
  then obtain ps1 where ps1:
    "exec_lines sq ls d = Some (d\<lparr>ld_tables := (ld_tables d)(?t := loaded fmt files ts), ld_pieces := Some ps1\<rparr>)"
    "fst ` set ps1 \<subseteq> fst ` set ps \<union> {piece_key ?t n i | n i. dotless n}" by (auto simp: rows(1,3) loaded_def)
  let ?d = "d\<lparr>ld_tables := (ld_tables d)(?t := loaded fmt files ts), ld_pieces := Some ps1\<rparr>"
  have other: "ts_table ts' \<noteq> ?t" if "ts' \<in> set tss" for ts' using Cons.prems(3) that by (auto simp: image_iff)
  have dot: "dotless ?t" using ok by (simp add: table_ok_def)
  have before: "\<forall>ts' \<in> set tss. pieces_before (ts_table ts') 0 ps1"
    using pieces_before_other [OF _ ps1(2)] other dot Cons.prems(6) by simp
  have load: "loading (ld_tables ?d) final (map ts_table tss)"
    using loading_step [of "ld_tables d" final ?t "map ts_table tss"] Cons.prems(3,7,8,9) by simp
  have "\<exists>d'. exec_lines sq (concat lss') ?d = Some d' \<and> ld_pieces d' \<noteq> None \<and> ld_fence d' = ld_fence ?d \<and>
    (\<forall>ts \<in> set tss. ld_tables d' (ts_table ts) = loaded fmt files ts) \<and> (\<forall>t. t \<notin> ts_table ` set tss \<longrightarrow> ld_tables d' t = ld_tables ?d t)"
    by (rule Cons.IH [OF ls(2) _ _ _ _ before _ load]) (use Cons.prems(2-4,7,9,10) in simp_all)
  then obtain d' where d': "exec_lines sq (concat lss') ?d = Some d'" "ld_pieces d' \<noteq> None" "ld_fence d' = ld_fence d"
    "\<forall>ts \<in> set tss. ld_tables d' (ts_table ts) = loaded fmt files ts" "\<forall>t. t \<notin> ts_table ` set tss \<longrightarrow> ld_tables d' t = ld_tables ?d t"
    by auto
  have "?t \<notin> ts_table ` set tss" using other by force
  with d'(5) have "ld_tables d' ?t = loaded fmt files ts" by simp
  moreover have "exec_lines sq (concat lss) d = Some d'" using ps1(1) d'(1) by (simp add: ls(3) exec_append)
  ultimately show ?case using d'(2-5) by auto
qed

lemma tables_ok: "\<forall>ts \<in> set (TABLES fmt stringify). table_ok ts"
  by (simp add: TABLES_def table_ok_def plain_def LOADED_def)

lemma tables_distinct: "distinct (map ts_table (TABLES fmt stringify))"
  by (simp add: TABLES_def)

lemma tables_loaded: "map ts_table (TABLES fmt stringify) = LOADED"
  by (simp add: TABLES_def LOADED_def)

lemma loaded_parents_first: "parents_first LOADED"
  by (simp add: LOADED_def has_parent_def FOREIGN_KEYS_def)

subsection \<open>Emptying the tables\<close>

lemma cascade_same:
  assumes "\<forall>t \<in> set LOADED. \<forall>row \<in> set (tabs t). list_all (refers tabs row) (FOREIGN_KEYS t)"
  shows "cascade tabs = tabs"
proof -
  define f where "f t tabs = tabs(t := filter (\<lambda>row. list_all (refers tabs row) (FOREIGN_KEYS t)) (tabs t))" for t and tabs :: sql_tables
  have "f t tabs = tabs" if "t \<in> set LOADED" for t
  proof -
    have "filter (\<lambda>row. list_all (refers tabs row) (FOREIGN_KEYS t)) (tabs t) = tabs t" using assms that by (simp add: filter_id_conv)
    then show ?thesis by (simp add: f_def fun_upd_idem)
  qed
  then have "set ts \<subseteq> set LOADED \<Longrightarrow> fold f ts tabs = tabs" for ts by (induction ts) simp_all
  moreover have "cascade tabs = fold f LOADED tabs" by (simp only: cascade_def f_def [abs_def])
  ultimately show ?thesis by simp
qed

lemma delete_one:
  assumes ok: "consistent sq tabs" and gone: "\<forall>t'. has_parent t' t \<longrightarrow> tabs t' = []"
  shows "cascade (tabs(t := [])) = tabs(t := []) \<and> consistent sq (tabs(t := []))"
proof -
  let ?tabs = "tabs(t := [])"
  have refers: "list_all (refers ?tabs row) (FOREIGN_KEYS t')" if t': "t' \<in> set LOADED" and row: "row \<in> set (?tabs t')" for t' row
    unfolding list_all_iff
  proof
    fix fk assume fk: "fk \<in> set (FOREIGN_KEYS t')"
    obtain cols p pcols where fk': "fk = (cols, p, pcols)" by (cases fk)
    with fk have "has_parent t' p" by (auto simp: has_parent_def)
    with gone row have "p \<noteq> t" by (auto split: if_splits)
    moreover have "refers tabs row fk"
      using ok t' row fk by (auto simp: consistent_def table_consistent_def list_all_iff split: if_splits)
    ultimately show "refers ?tabs row fk" by (simp add: refers_def fk')
  qed
  have "table_consistent sq ?tabs t'" if t': "t' \<in> set LOADED" for t'
  proof -
    have "table_consistent sq tabs t'" using ok t' by (simp add: consistent_def list_all_iff)
    then show ?thesis using refers [OF t'] by (auto simp: table_consistent_def list_all_iff unique_in_def)
  qed
  then have "consistent sq ?tabs" by (simp add: consistent_def list_all_iff)
  with cascade_same [of ?tabs] refers show ?thesis by blast
qed

lemma exec_deletes:
  assumes "consistent sq (ld_tables d)" "parents_first (rev names @ gone)" "\<forall>t'. t' \<notin> set (rev names @ gone) \<longrightarrow> FOREIGN_KEYS t' = []"
    and "\<forall>t \<in> set gone. ld_tables d t = []" "distinct (rev names @ gone)"
  shows "exec_lines sq (map Delete_From names) d = Some (d\<lparr>ld_tables := (\<lambda>t. if t \<in> set names then [] else ld_tables d t)\<rparr>) \<and>
    consistent sq (\<lambda>t. if t \<in> set names then [] else ld_tables d t)"
  using assms
proof (induction names arbitrary: d gone)
  case (Cons n names)
  have order: "t' \<in> set gone" if "has_parent t' n" for t'
  proof -
    from that have "t' \<in> set (rev (n # names) @ gone)" using Cons.prems(3) by (force simp: has_parent_def)
    moreover have "t' \<notin> set (rev names @ [n])"
    proof
      assume "t' \<in> set (rev names @ [n])"
      then obtain us vs where "rev names @ [n] = us @ t' # vs" by (meson split_list)
      then have "parents_first (us @ t' # vs @ gone)" "n \<in> set (t' # vs)"
        using Cons.prems(2) by (auto, metis append_Cons append_assoc append_eq_append_conv2 last_appendR last_in_set last_snoc list.discI list.set_intros(1))
      moreover have "parents_first (us @ ws) \<Longrightarrow> parents_first ws" for us ws by (induction us) auto
      ultimately show False using that by fastforce
    qed
    ultimately show ?thesis by auto
  qed
  then have "\<forall>t'. has_parent t' n \<longrightarrow> ld_tables d t' = []" using Cons.prems(4) by blast
  from delete_one [OF Cons.prems(1) this] have step: "exec_line sq (Delete_From n) d = Some (d\<lparr>ld_tables := (ld_tables d)(n := [])\<rparr>)"
    and ok: "consistent sq ((ld_tables d)(n := []))" by (simp_all add: exec_line_def)
  let ?d = "d\<lparr>ld_tables := (ld_tables d)(n := [])\<rparr>"
  have tabs: "(\<lambda>t. if t \<in> set names then [] else ld_tables ?d t) = (\<lambda>t. if t \<in> set (n # names) then [] else ld_tables d t)" by auto
  have same: "?d\<lparr>ld_tables := x\<rparr> = d\<lparr>ld_tables := x\<rparr>" for x by simp
  have "consistent sq (ld_tables ?d)" using ok by simp
  from Cons.IH [OF this, of "n # gone"] Cons.prems(2-5)
  have "exec_lines sq (map Delete_From names) ?d = Some (?d\<lparr>ld_tables := (\<lambda>t. if t \<in> set names then [] else ld_tables ?d t)\<rparr>) \<and>
      consistent sq (\<lambda>t. if t \<in> set names then [] else ld_tables ?d t)" by simp
  then show ?case unfolding tabs same by (simp only: list.map exec_lines.simps step option.case)
qed (cases d, simp)

lemma exec_lines_consistent: "exec_lines sq ls d = Some d' \<Longrightarrow> consistent sq (ld_tables d) \<Longrightarrow> consistent sq (ld_tables d')"
  by (induction ls arbitrary: d) (auto simp: exec_line_def split: option.splits if_splits)

section \<open>Properties\<close>

text \<open>The tables the snapshot describes, and a snapshot that they can be loaded from.\<close>

definition snapshot_tables :: "(rat \<Rightarrow> string) \<Rightarrow> (native \<Rightarrow> string) \<Rightarrow> snapshot \<Rightarrow> sql_tables" where
  "snapshot_tables fmt stringify files t = (case filter (\<lambda>ts. ts_table ts = t) (TABLES fmt stringify) of ts # _ \<Rightarrow> loaded fmt files ts | [] \<Rightarrow> [])"

definition snapshot_fits :: "sqlite \<Rightarrow> (rat \<Rightarrow> string) \<Rightarrow> (native \<Rightarrow> string) \<Rightarrow> snapshot \<Rightarrow> bool" where
  "snapshot_fits sq fmt stringify files \<longleftrightarrow> consistent sq (snapshot_tables fmt stringify files) \<and>
     list_all (\<lambda>ts. let rows = (case files (ts_table ts) of Some rows \<Rightarrow> rows | None \<Rightarrow> [])
       in keys_loadable fmt ts rows \<and> list_all (row_fits sq fmt ts) rows) (TABLES fmt stringify)"

lemma snapshot_table:
  assumes "ts \<in> set (TABLES fmt stringify)"
  shows "snapshot_tables fmt stringify files (ts_table ts) = loaded fmt files ts"
proof -
  have "filter (\<lambda>ts'. ts_table ts' = ts_table ts) tss = [ts]" if "distinct (map ts_table tss)" "ts \<in> set tss" for tss
    using that by (induction tss) (auto simp: filter_empty_conv image_iff)
  from this [OF tables_distinct assms] show ?thesis by (simp add: snapshot_tables_def)
qed

lemma deletes_order: "rev (map ts_table (rev (TABLES fmt stringify))) @ [] = LOADED"
  by (simp add: rev_map tables_loaded)

lemma no_foreign: "t \<notin> set LOADED \<Longrightarrow> FOREIGN_KEYS t = []"
  by (auto simp: LOADED_def FOREIGN_KEYS_def)

text \<open>C29. The import loads the snapshot exactly: when the script emits its statements, none of them is longer than the 100,000 bytes D1 takes,
  the rows of the snapshot satisfy the constraints of the schema and D1's limit of their size, have values of the types of their columns and keys that are present and
  short, and texts that come in pieces are only in columns that take the placeholder, then the import into a database that satisfies its
  schema either changes nothing because the copy fence is gone, or leaves every table with exactly the rows of the snapshot in their order,
  each column holding exactly its value, with the fence and the other tables as they were and the helper table removed. No statement
  on the way breaks a constraint.\<close>

theorem snapshot_loads:
  assumes "snapshot_lines fmt stringify manifest files = Inr ls" and "list_all (\<lambda>l. byte_length (render l) \<le> MAX_STATEMENT_BYTES) ls"
    and "snapshot_fits sq fmt stringify files" and "consistent sq (ld_tables d)"
  shows "case import_file sq ls d of
      None \<Rightarrow> \<not> ld_fence d
    | Some d' \<Rightarrow> ld_fence d \<and> ld_fence d' \<and> ld_pieces d' = None \<and>
        map (\<lambda>ts. ld_tables d' (ts_table ts)) (TABLES fmt stringify) = map (loaded fmt files) (TABLES fmt stringify) \<and>
        (\<forall>t. t \<notin> ts_table ` set (TABLES fmt stringify) \<longrightarrow> ld_tables d' t = ld_tables d t)"
proof (cases "ld_fence d")
  case False
  with assms(1,4) show ?thesis by (auto simp: import_file_def snapshot_lines_def sbind_eq_Inr exec_line_def split: if_splits)
next
  case True
  let ?tables = "TABLES fmt stringify" and ?final = "snapshot_tables fmt stringify files"
  from assms(1) obtain taken lss where ls: "smap (load_table fmt files) ?tables = Inr lss"
    "ls = [Note taken, Create_Guard, Check_Fence, Drop_Guard, Drop_Old_Pieces, Create_Pieces] @ map Delete_From (map ts_table (rev ?tables)) @ concat lss @ [Drop_Pieces]"
    by (auto simp: snapshot_lines_def sbind_eq_Inr comp_def split: if_splits)
  have names: "ts_table ` set ?tables = set LOADED" using tables_loaded by (metis set_map)
  define d1 where "d1 = d\<lparr>ld_pieces := Some [], ld_tables := (\<lambda>t. if t \<in> set LOADED then [] else ld_tables d t)\<rparr>"
  have "consistent sq (ld_tables (d\<lparr>ld_pieces := Some []\<rparr>))" using assms(4) by simp
  from exec_deletes [OF this, of "map ts_table (rev ?tables)" "[]", unfolded deletes_order] loaded_parents_first no_foreign tables_distinct [of fmt stringify]
  have del: "exec_lines sq (map Delete_From (map ts_table (rev ?tables))) (d\<lparr>ld_pieces := Some []\<rparr>) = Some d1"
    by (simp add: tables_loaded names d1_def del: map_map cong: if_cong)
  have "loading (ld_tables d1) ?final (map ts_table ?tables)" by (simp add: loading_def d1_def tables_loaded)
  moreover have fit: "\<forall>ts \<in> set ?tables. keys_loadable fmt ts (case files (ts_table ts) of Some rows \<Rightarrow> rows | None \<Rightarrow> [])"
    "\<forall>ts \<in> set ?tables. \<forall>row \<in> set (case files (ts_table ts) of Some rows \<Rightarrow> rows | None \<Rightarrow> []). row_fits sq fmt ts row" "consistent sq ?final"
    using assms(3) by (simp_all add: snapshot_fits_def list_all_iff Let_def)
  ultimately have "\<exists>d'. exec_lines sq (concat lss) d1 = Some d' \<and> ld_pieces d' \<noteq> None \<and> ld_fence d' = ld_fence d1 \<and>
    (\<forall>ts \<in> set ?tables. ld_tables d' (ts_table ts) = loaded fmt files ts) \<and> (\<forall>t. t \<notin> ts_table ` set ?tables \<longrightarrow> ld_tables d' t = ld_tables d1 t)"
    using loaded_parents_first tables_loaded [of fmt stringify]
    by (intro load_tables [OF ls(1) tables_ok tables_distinct fit(1), of d1 "[]" ?final]) (simp_all add: d1_def pieces_before_def snapshot_table)
  then obtain d' where d': "exec_lines sq (concat lss) d1 = Some d'" "ld_pieces d' \<noteq> None" "ld_fence d' = ld_fence d"
    "\<forall>ts \<in> set ?tables. ld_tables d' (ts_table ts) = loaded fmt files ts" "\<forall>t. t \<notin> ts_table ` set ?tables \<longrightarrow> ld_tables d' t = ld_tables d t"
    by (auto simp: d1_def names)
  have done_ok: "consistent sq (ld_tables d')"
    using exec_lines_consistent [OF d'(1)] exec_lines_consistent [OF del] assms(4) by simp
  have "exec_lines sq ls d = exec_lines sq (concat lss @ [Drop_Pieces]) d1"
    using True assms(4) del by (simp add: ls(2) exec_append exec_line_def del: map_map)
  also have "\<dots> = Some (d'\<lparr>ld_pieces := None\<rparr>)" using d'(1,2) done_ok by (simp add: exec_append exec_line_def)
  finally show ?thesis using d'(3-5) True assms(2) by (simp add: import_file_def)
qed

text \<open>A statement that inserts a piece stays below the limit of 100,000 bytes that pieces are there for.\<close>

lemma show_text_bytes: "byte_length (show_value (SText s)) \<le> 2 * byte_length s + 2"
  by (induction s) (auto simp: byte_size_def code_of_def)

lemma digits_bytes: "byte_length (show_nat i) = length (show_nat i)"
proof -
  have "list_all is_digit s \<Longrightarrow> byte_length s = length s" for s by (induction s) (auto simp: byte_size_def is_digit_def)
  then show ?thesis using list_all_digits_show by blast
qed

lemma piece_statement_bytes:
  assumes "p \<in> set (pieces s)"
  shows "byte_length (render (Insert_Piece k i p)) \<le> 2 * PIECE_BYTES + 2 * byte_length k + length (show_nat i) + 60"
proof -
  have "byte_length ''INSERT INTO load_pieces VALUES ('' = 32" "byte_length '', '' = 2" "byte_length '');'' = 2"
    by (simp_all add: byte_size_def code_of_def)
  with show_text_bytes [of k] show_text_bytes [of p] pieces_bytes [OF assms] digits_bytes [of i] show ?thesis
    by (simp only: render.simps byte_length_simps)
qed

definition long_text :: string where
  "long_text = replicate 50000 (CHR ''x'')"

definition sample_agent :: json_row where
  "sample_agent = [(''id'', NNum (JFin 1)), (''owner'', NStr ''G''), (''agent_uri'', NStr long_text), (''created_at'', NStr ''t''), (''updated_at'', NStr ''t''),
     (''uri_resolve_attempts'', NNum (JFin 0)), (''resolve_uri_pending'', NBool False), (''x402_enabled'', NBool False), (''mpp_enabled'', NBool True)]"

definition sample_files :: snapshot where
  "sample_files t = Some (if t = ''agents'' then [sample_agent]
     else if t = ''agent_metadata'' then [[(''agent_id'', NNum (JFin 1)), (''key'', NStr ''k''), (''value'', NStr ''v'')]] else [])"

definition sample_manifest :: native where
  "sample_manifest = NObj [(''under_indexer_lock'', NBool True), (''taken_at'', NStr ''now'')]"

definition sample_sqlite :: sqlite where
  "sample_sqlite = \<lparr>sq_json = (\<lambda>s. s = ''[]''), sq_array = (\<lambda>s. s = ''[]''), sq_integer = SText\<rparr>"

definition sample_load :: load_db where
  "sample_load = \<lparr>ld_fence = True, ld_tables = (\<lambda>_. []), ld_pieces = None\<rparr>"

definition agent_names :: "string list" where
  "agent_names = [''id'', ''owner'', ''agent_uri'', ''agent_uri_data'', ''wallet'', ''created_at'', ''updated_at'', ''created_ledger'', ''tx_hash'', ''uri_resolve_attempts'',
     ''resolve_uri_pending'', ''last_resolve_attempt_at'', ''supported_trust'', ''services'', ''x402_enabled'', ''mpp_enabled'', ''uri_updated_ledger'', ''transferred_ledger'']"

definition agent_values :: "sql_value \<Rightarrow> sql_value list" where
  "agent_values uri = [SInt 1, SText ''G'', uri, SNull, SNull, SText ''t'', SText ''t'', SNull, SNull, SInt 0, SInt 0, SNull, SText ''[]'', SText ''[]'', SInt 0, SInt 1,
     SNull, SNull]"

definition metadata_row :: sql_row where
  "metadata_row = [(''agent_id'', SInt 1), (''key'', SText ''k''), (''value'', SText ''v'')]"

lemma long_too_long: "PIECE_BYTES < byte_length long_text"
  by (simp add: long_text_def byte_length_def sum_list_replicate byte_size_def code_of_def PIECE_BYTES_def)

lemma sample_plain: "isSafeInteger (JFin 0)" "isSafeInteger (JFin 1)" "\<not> PIECE_BYTES < byte_length ''G''" "\<not> PIECE_BYTES < byte_length ''t''"
  "\<not> PIECE_BYTES < byte_length ''[]''" "\<not> PIECE_BYTES < byte_length ''k''" "\<not> PIECE_BYTES < byte_length ''v''"
  by (simp_all add: isSafeInteger_def max_safe_def PIECE_BYTES_def byte_size_def code_of_def)

lemma sample_rows:
  "load_row (\<lambda>_. []) (hd (TABLES (\<lambda>_. []) (\<lambda>_. ''[]''))) (0, sample_agent) =
     Inr (Insert_Row ''agents'' agent_names (agent_values SNull) # map (\<lambda>(i, p). Insert_Piece ''agents.agent_uri.0'' i p) (enumerate 0 (pieces long_text)) @
       [Update_Row ''agents'' ''agent_uri'' ''agents.agent_uri.0'' [(''id'', SInt 1)]])"
proof -
  have zero: "show_nat 0 = ''0''" by code_simp
  show ?thesis
    using long_too_long sample_plain
    by (simp add: TABLES_def load_row_def load_column_def plain_def sample_agent_def jsonText_def or_empty_def field_def getProp_def is_nullish_def too_long_def
        sql_value_def where_key_def piece_key_def PLACEHOLDER_def text_of_def agent_names_def agent_values_def zero Let_def)
qed

lemma sample_lines:
  "snapshot_lines (\<lambda>_. []) (\<lambda>_. ''[]'') sample_manifest sample_files = Inr (
     [Note ''now'', Create_Guard, Check_Fence, Drop_Guard, Drop_Old_Pieces, Create_Pieces] @ map Delete_From (rev LOADED) @
     Insert_Row ''agents'' agent_names (agent_values SNull) # map (\<lambda>(i, p). Insert_Piece ''agents.agent_uri.0'' i p) (enumerate 0 (pieces long_text)) @
     [Update_Row ''agents'' ''agent_uri'' ''agents.agent_uri.0'' [(''id'', SInt 1)],
      Insert_Row ''agent_metadata'' [''agent_id'', ''key'', ''value''] [SInt 1, SText ''k'', SText ''v''], Drop_Pieces])"
proof -
  let ?T = "TABLES (\<lambda>_. []) (\<lambda>_. ''[]'')"
  obtain tss where T: "?T = hd ?T # \<lparr>ts_table = ''agent_metadata'', ts_key = [''agent_id'', ''key''], ts_columns = map plain [''agent_id'', ''key'', ''value'']\<rparr> # tss"
    "map ts_table tss = drop 2 LOADED" by (simp add: TABLES_def LOADED_def)
  have first: "ts_table (hd ?T) = ''agents''" by (simp add: TABLES_def)
  have "smap (load_table (\<lambda>_. []) sample_files) tss = Inr (map (\<lambda>_. []) tss)"
  proof (rule smap_all)
    fix ts assume "ts \<in> set tss"
    then have "ts_table ts \<in> set (drop 2 LOADED)" unfolding T(2) [symmetric] by simp
    then have "sample_files (ts_table ts) = Some []" by (auto simp: LOADED_def sample_files_def)
    then show "load_table (\<lambda>_. []) sample_files ts = Inr []" by (simp add: load_table_def)
  qed
  moreover have "load_table (\<lambda>_. []) sample_files (hd ?T) = sbind (load_row (\<lambda>_. []) (hd ?T) (0, sample_agent)) (\<lambda>l. Inr (concat [l]))"
    by (simp add: load_table_def sample_files_def first) (simp add: sample_rows)
  moreover have "load_table (\<lambda>_. []) sample_files \<lparr>ts_table = ''agent_metadata'', ts_key = [''agent_id'', ''key''], ts_columns = map plain [''agent_id'', ''key'', ''value'']\<rparr> =
      Inr [Insert_Row ''agent_metadata'' [''agent_id'', ''key'', ''value''] [SInt 1, SText ''k'', SText ''v'']]"
    using sample_plain by (simp add: load_table_def sample_files_def load_row_def load_column_def plain_def field_def getProp_def too_long_def sql_value_def)
  ultimately have "smap (load_table (\<lambda>_. []) sample_files) ?T = Inr (
      (Insert_Row ''agents'' agent_names (agent_values SNull) # map (\<lambda>(i, p). Insert_Piece ''agents.agent_uri.0'' i p) (enumerate 0 (pieces long_text)) @
        [Update_Row ''agents'' ''agent_uri'' ''agents.agent_uri.0'' [(''id'', SInt 1)]]) #
      [Insert_Row ''agent_metadata'' [''agent_id'', ''key'', ''value''] [SInt 1, SText ''k'', SText ''v'']] # map (\<lambda>_. []) tss)"
    by (subst T(1)) (simp add: sample_rows)
  moreover have "map (\<lambda>ts. Delete_From (ts_table ts)) (rev ?T) = map Delete_From (rev LOADED)"
    using tables_loaded [of "\<lambda>_. []" "\<lambda>_. ''[]''"] by (metis (no_types, lifting) list.map_comp comp_apply map_eq_conv rev_map)
  moreover have "concat (map (\<lambda>_. []) tss) = []" by simp
  ultimately show ?thesis
    unfolding snapshot_lines_def by (simp add: sample_manifest_def getProp_def)
qed

lemma piece_loop_fill:
  assumes "byte_size c = 1" "bytes + n \<le> PIECE_BYTES"
  shows "piece_loop out current bytes (replicate n c @ s) = piece_loop out (current @ replicate n c) (bytes + n) s"
  using assms(2)
proof (induction n arbitrary: current bytes)
  case (Suc n)
  then show ?case using Suc.IH [of "Suc bytes" "current @ [c]"] by (simp add: assms(1) not_less)
qed simp

lemma long_pieces: "\<exists>p q. pieces long_text = [p, q]"
proof -
  have "byte_size (CHR ''x'') = 1" by (simp add: byte_size_def code_of_def)
  note fill = piece_loop_fill [OF this] and one = this
  have "long_text = replicate PIECE_BYTES (CHR ''x'') @ CHR ''x'' # replicate 9999 (CHR ''x'') @ []"
    unfolding long_text_def PIECE_BYTES_def by (simp only: replicate_Suc [symmetric] replicate_add [symmetric] append_Nil2) simp
  then have "pieces long_text = piece_loop [] [] 0 (replicate PIECE_BYTES (CHR ''x'') @ CHR ''x'' # replicate 9999 (CHR ''x'') @ [])"
    by (simp only: pieces_def)
  also have "\<dots> = piece_loop [replicate PIECE_BYTES (CHR ''x'')] [CHR ''x''] 1 (replicate 9999 (CHR ''x'') @ [])"
    by (subst fill) (simp_all add: one)
  also have "\<dots> = piece_loop [replicate PIECE_BYTES (CHR ''x'')] ([CHR ''x''] @ replicate 9999 (CHR ''x'')) (1 + 9999) []"
    by (rule fill) (simp add: PIECE_BYTES_def)
  finally show ?thesis by simp
qed

lemma sample_short:
  assumes "snapshot_lines (\<lambda>_. []) (\<lambda>_. ''[]'') sample_manifest sample_files = Inr ls"
  shows "list_all (\<lambda>l. byte_length (render l) \<le> MAX_STATEMENT_BYTES) ls"
proof -
  obtain p q where pq: "pieces long_text = [p, q]" using long_pieces by blast
  have key: "byte_length ''agents.agent_uri.0'' = 18" by (simp add: byte_size_def code_of_def)
  have digits: "show_nat 0 = ''0''" "show_nat 1 = ''1''" by code_simp+
  have piece: "byte_length (render (Insert_Piece ''agents.agent_uri.0'' i r)) \<le> MAX_STATEMENT_BYTES" if "i = 0 \<or> i = 1" "r = p \<or> r = q" for i r
    using piece_statement_bytes [of r long_text "''agents.agent_uri.0''" i] that digits
    by (auto simp: pq key MAX_STATEMENT_BYTES_def PIECE_BYTES_def simp del: render.simps byte_length_simps)
  have ints: "show_int 0 = ''0''" "show_int 1 = ''1''" by code_simp+
  have rest: "list_all (\<lambda>l. byte_length (render l) \<le> MAX_STATEMENT_BYTES)
    ([Note ''now'', Create_Guard, Check_Fence, Drop_Guard, Drop_Old_Pieces, Create_Pieces] @ map Delete_From (rev LOADED) @
     [Insert_Row ''agents'' agent_names (agent_values SNull), Update_Row ''agents'' ''agent_uri'' ''agents.agent_uri.0'' [(''id'', SInt 1)],
      Insert_Row ''agent_metadata'' [''agent_id'', ''key'', ''value''] [SInt 1, SText ''k'', SText ''v''], Drop_Pieces])"
    by (simp add: LOADED_def agent_names_def agent_values_def byte_size_def code_of_def MAX_STATEMENT_BYTES_def ints quoted_def)
  have "ls = [Note ''now'', Create_Guard, Check_Fence, Drop_Guard, Drop_Old_Pieces, Create_Pieces] @ map Delete_From (rev LOADED) @
     Insert_Row ''agents'' agent_names (agent_values SNull) # [Insert_Piece ''agents.agent_uri.0'' 0 p, Insert_Piece ''agents.agent_uri.0'' 1 q] @
     [Update_Row ''agents'' ''agent_uri'' ''agents.agent_uri.0'' [(''id'', SInt 1)],
      Insert_Row ''agent_metadata'' [''agent_id'', ''key'', ''value''] [SInt 1, SText ''k'', SText ''v''], Drop_Pieces]"
    using assms unfolding sample_lines pq by simp
  then show ?thesis using rest piece [of 0 p] piece [of 1 q] by (simp del: render.simps byte_length_simps)
qed

lemma sample_loaded:
  "map (loaded (\<lambda>_. []) sample_files) (TABLES (\<lambda>_. []) (\<lambda>_. ''[]'')) =
     [[zip agent_names (agent_values (SText long_text))], [metadata_row], [], [], [], [], []]"
  using sample_plain
  by (simp add: TABLES_def loaded_def sample_files_def spec_row_def spec_cell_def spec_value_def sql_value_def plain_def jsonText_def or_empty_def field_def getProp_def
      is_nullish_def sample_agent_def agent_names_def agent_values_def metadata_row_def)

lemma sample_snapshot: "map (snapshot_tables (\<lambda>_. []) (\<lambda>_. ''[]'') sample_files) LOADED =
    [[zip agent_names (agent_values (SText long_text))], [metadata_row], [], [], [], [], []]"
  unfolding tables_loaded [of "\<lambda>_. []" "\<lambda>_. ''[]''", symmetric] sample_loaded [symmetric]
  by (simp add: snapshot_table)

lemma sample_agent_cells: "list_all (cell_ok sample_sqlite ''agents'') (zip agent_names (agent_values (SText long_text)))"
  by (simp add: agent_names_def agent_values_def cell_ok_def NOT_NULL_def column_check_def row_id_def sample_sqlite_def at_least_def at_most_def text_check_def between_def)

lemma sample_bytes: "row_bytes (zip agent_names (agent_values (SText long_text))) \<le> MAX_LENGTH" "row_bytes metadata_row \<le> MAX_LENGTH"
  by (simp_all add: row_bytes_def agent_names_def agent_values_def metadata_row_def cell_bytes_def MAX_LENGTH_def byte_size_def code_of_def)
    (simp add: long_text_def byte_length_def sum_list_replicate byte_size_def code_of_def)

lemma sample_fits: "snapshot_fits sample_sqlite (\<lambda>_. []) (\<lambda>_. ''[]'') sample_files"
proof -
  have "consistent sample_sqlite (snapshot_tables (\<lambda>_. []) (\<lambda>_. ''[]'') sample_files)"
    using sample_agent_cells sample_snapshot sample_bytes
    by (simp add: consistent_def LOADED_def table_consistent_def UNIQUE_def FOREIGN_KEYS_def unique_in_def key_of_row_def refers_def
        cell_ok_def NOT_NULL_def column_check_def row_id_def metadata_row_def) (simp add: agent_names_def agent_values_def)
  moreover have "list_all (\<lambda>ts. let rows = (case sample_files (ts_table ts) of Some rows \<Rightarrow> rows | None \<Rightarrow> [])
     in keys_loadable (\<lambda>_. []) ts rows \<and> list_all (row_fits sample_sqlite (\<lambda>_. []) ts) rows) (TABLES (\<lambda>_. []) (\<lambda>_. ''[]''))"
    using sample_plain
    by (simp add: TABLES_def sample_files_def keys_loadable_def row_key_def row_fits_def fits_column_def affine_def INTEGER_COLUMNS_def plain_def jsonText_def or_empty_def
        field_def getProp_def is_nullish_def sample_agent_def spec_value_def sql_value_def too_long_def PLACEHOLDER_def cell_ok_def NOT_NULL_def column_check_def row_id_def
        constrained_def UNIQUE_def FOREIGN_KEYS_def LOADED_def)
  ultimately show ?thesis by (simp add: snapshot_fits_def)
qed

theorem snapshot_loads_witness:
  "\<exists>ls d'. snapshot_lines (\<lambda>_. []) (\<lambda>_. ''[]'') sample_manifest sample_files = Inr ls \<and> import_file sample_sqlite ls sample_load = Some d' \<and>
     ld_tables d' ''agents'' = [zip agent_names (agent_values (SText long_text))] \<and> ld_tables d' ''agent_metadata'' = [metadata_row] \<and>
     import_file sample_sqlite ls (sample_load\<lparr>ld_fence := False\<rparr>) = None"
proof -
  from sample_lines obtain ls where ls: "snapshot_lines (\<lambda>_. []) (\<lambda>_. ''[]'') sample_manifest sample_files = Inr ls" by blast
  have "consistent sample_sqlite (\<lambda>_. [])" by (simp add: consistent_def table_consistent_def unique_in_def list_all_iff)
  then have start: "consistent sample_sqlite (ld_tables sample_load)" "consistent sample_sqlite (ld_tables (sample_load\<lparr>ld_fence := False\<rparr>))"
    by (simp_all add: sample_load_def)
  note loads = snapshot_loads [OF ls sample_short [OF ls] sample_fits]
  from loads [OF start(1)] obtain d' where d': "import_file sample_sqlite ls sample_load = Some d'"
    "map (\<lambda>ts. ld_tables d' (ts_table ts)) (TABLES (\<lambda>_. []) (\<lambda>_. ''[]'')) = [[zip agent_names (agent_values (SText long_text))], [metadata_row], [], [], [], [], []]"
    unfolding sample_loaded by (auto simp: sample_load_def split: option.splits)
  have "map (ld_tables d') LOADED = [[zip agent_names (agent_values (SText long_text))], [metadata_row], [], [], [], [], []]"
    using d'(2) unfolding tables_loaded [of "\<lambda>_. []" "\<lambda>_. ''[]''", symmetric] by (simp add: comp_def)
  moreover from loads [OF start(2)] have "import_file sample_sqlite ls (sample_load\<lparr>ld_fence := False\<rparr>) = None"
    by (auto split: option.splits)
  ultimately show ?thesis using ls d'(1) by (auto simp: LOADED_def)
qed

text \<open>The limit is applied to each column and not to the row: a row with three texts of 40,000 bytes is loaded with one INSERT of more than
  100,000 bytes, and the import is refused.\<close>

definition wide_row :: "string \<Rightarrow> json_row" where
  "wide_row s = [(''id'', NNum (JFin 1)), (''owner'', NStr ''G''), (''agent_uri'', NStr s), (''agent_uri_data_text'', NStr s), (''services_text'', NStr s)]"

lemma join_bytes: "sum_list (map byte_length xs) \<le> byte_length (join sep xs)"
  by (induction sep xs rule: join.induct) auto

lemma text_bytes: "byte_length s \<le> byte_length (show_value (SText s))"
  by (induction s) (auto simp: byte_size_def code_of_def)

lemma wide_row_values:
  assumes "byte_length s \<le> PIECE_BYTES"
  shows "\<exists>names pre mid post. load_row (\<lambda>_. []) (hd (TABLES (\<lambda>_. []) (\<lambda>_. ''[]''))) (0, wide_row s) =
    Inr [Insert_Row ''agents'' names (pre @ [SText s, SText s] @ mid @ [SText s] @ post)]"
proof -
  have "\<not> PIECE_BYTES < byte_length s" using assms by simp
  then show ?thesis
    by (intro exI [of _ "map fst (ts_columns (hd (TABLES (\<lambda>_. []) (\<lambda>_. ''[]''))))"] exI [of _ "[SInt 1, SText ''G'']"]
        exI [of _ "[SNull, SNull, SNull, SNull, SNull, SNull, SNull, SNull, SText ''[]'']"] exI [of _ "[SNull, SNull, SNull, SNull]"])
      (simp add: TABLES_def load_row_def load_column_def plain_def wide_row_def jsonText_def field_def getProp_def is_nullish_def too_long_def sql_value_def
        isSafeInteger_def max_safe_def byte_size_def code_of_def PIECE_BYTES_def)
qed

lemma wide_statement:
  assumes "byte_length s = n"
  shows "3 * n \<le> byte_length (render (Insert_Row t names (pre @ [SText s, SText s] @ mid @ [SText s] @ post)))"
proof -
  let ?vs = "pre @ [SText s, SText s] @ mid @ [SText s] @ post"
  have "3 * n \<le> sum_list (map byte_length (map show_value ?vs))"
    using text_bytes [of s] assms by (simp del: show_value.simps)
  also have "\<dots> \<le> byte_length (join '', '' (map show_value ?vs))" by (rule join_bytes)
  also have "\<dots> \<le> byte_length (render (Insert_Row t names ?vs))" by (simp only: render.simps byte_length_simps)
  finally show ?thesis .
qed

theorem statement_over_limit:
  "\<exists>names vs. load_row (\<lambda>_. []) (hd (TABLES (\<lambda>_. []) (\<lambda>_. ''[]''))) (0, wide_row (replicate 40000 (CHR ''x''))) = Inr [Insert_Row ''agents'' names vs] \<and>
     (\<forall>sq ls d. Insert_Row ''agents'' names vs \<in> set ls \<longrightarrow> import_file sq ls d = None)"
proof -
  define s where "s = replicate 40000 (CHR ''x'')"
  have len: "byte_length s = 40000" by (simp add: s_def byte_length_def sum_list_replicate byte_size_def code_of_def)
  then have "byte_length s \<le> PIECE_BYTES" by (simp add: PIECE_BYTES_def)
  from wide_row_values [OF this] obtain names pre mid post where
    row: "load_row (\<lambda>_. []) (hd (TABLES (\<lambda>_. []) (\<lambda>_. ''[]''))) (0, wide_row s) = Inr [Insert_Row ''agents'' names (pre @ [SText s, SText s] @ mid @ [SText s] @ post)]" by blast
  moreover have "MAX_STATEMENT_BYTES < byte_length (render (Insert_Row ''agents'' names (pre @ [SText s, SText s] @ mid @ [SText s] @ post)))"
    using wide_statement [OF len, of "''agents''" names pre mid post] unfolding MAX_STATEMENT_BYTES_def by linarith
  then have "\<forall>sq ls d. Insert_Row ''agents'' names (pre @ [SText s, SText s] @ mid @ [SText s] @ post) \<in> set ls \<longrightarrow> import_file sq ls d = None"
    by (auto simp: import_file_def list_all_iff not_le simp del: render.simps)
  ultimately show ?thesis unfolding s_def [symmetric] by blast
qed

end
