(* ===== verification/Web_Lists.thy ===== *)
theory Web_Lists
  imports Api_Handlers Js_Numbers
begin

text \<open>
  The loaders of the list pages of the web application: rows of D1 (\<open>lib/server/d1.ts\<close>, \<open>lib/server/utils.ts\<close>), the agent list
  (\<open>routes/agents/+page.server.ts\<close>), the leaderboard (\<open>routes/leaderboard/+page.server.ts\<close>) and the home page (\<open>routes/+page.server.ts\<close>).

  A loader reads the database through the \<open>api\<close> of the handlers; the relevance of a full-text match is one more argument. The rows of
  \<^const>\<open>agents\<close> stand for decoded rows: \<open>decode_agent\<close> shows that \<open>decodeRow\<close> gives them from what D1 returns. Row ids of feedback, which the
  pages pass on, are not part of the database model. The lemmas show that the
  branches of the agent list are one filter, that its pages cover the result and where they do not.
\<close>

section \<open>Rows of D1\<close>

definition getDb :: "'db option option \<Rightarrow> string + 'db" where
  "getDb env = (case env of Some (Some db) \<Rightarrow> Inr db | _ \<Rightarrow> Inl ''D1 binding DB is missing'')"

definition JSON_COLUMNS :: "string list" where
  "JSON_COLUMNS = [''agent_uri_data'', ''services'', ''supported_trust'']"

definition BOOLEAN_COLUMNS :: "string list" where
  "BOOLEAN_COLUMNS = [''x402_enabled'', ''mpp_enabled'', ''resolve_uri_pending'', ''is_revoked'', ''has_response'', ''has_services'']"

definition decode_column :: "(string \<Rightarrow> string + native) \<Rightarrow> string \<times> native \<Rightarrow> string + string \<times> native" where
  "decode_column parse = (\<lambda>(k, v). case v of
      NStr s \<Rightarrow> if k \<in> set JSON_COLUMNS then sbind (parse s) (\<lambda>x. Inr (k, x)) else Inr (k, v)
    | NNum n \<Rightarrow> if k \<in> set BOOLEAN_COLUMNS then Inr (k, NBool (n = JFin 1)) else Inr (k, v)
    | _ \<Rightarrow> Inr (k, v))"

definition decodeRow :: "(string \<Rightarrow> string + native) \<Rightarrow> (string \<times> native) list \<Rightarrow> string + (string \<times> native) list" where
  "decodeRow parse row = smap (decode_column parse) row"

definition readUriField :: "native option \<Rightarrow> string \<Rightarrow> string option" where
  "readUriField source field = (case source of
      Some (NObj fs) \<Rightarrow> (case getProp (NObj fs) field of NStr s \<Rightarrow> if s = [] then None else Some s | _ \<Rightarrow> None)
    | _ \<Rightarrow> None)"

text \<open>\<open>Number(value) / Math.pow(10, decimals)\<close>: the stored decimals are 0 to 18, whose powers of ten are doubles.\<close>

definition toDisplayScore :: "string \<Rightarrow> int \<Rightarrow> jsnum" where
  "toDisplayScore v decimals = div_by (number_of_text v) (10 ^ nat decimals)"

text \<open>The columns of an agent as D1 returns them.\<close>

definition flag :: "bool \<Rightarrow> native" where
  "flag b = NNum (JFin (if b then 1 else 0))"

definition agent_columns :: "(native \<Rightarrow> string) \<Rightarrow> int \<times> agent_row \<Rightarrow> (string \<times> native) list" where
  "agent_columns stringify = (\<lambda>(i, r).
     [(''id'', nint i), (''owner'', NStr (a_owner r)), (''agent_uri'', text_or_null (a_uri r)),
      (''agent_uri_data'', case a_uri_data r of None \<Rightarrow> NNull | Some v \<Rightarrow> NStr (stringify v)), (''wallet'', text_or_null (a_wallet r)),
      (''created_at'', NStr (a_created_at r)), (''updated_at'', NStr (a_updated_at r)), (''uri_resolve_attempts'', nint (a_attempts r)),
      (''resolve_uri_pending'', flag (a_pending r)), (''supported_trust'', NStr (stringify (NArr (a_trust r)))),
      (''services'', NStr (stringify (NArr (a_services r)))), (''x402_enabled'', flag (a_x402 r)), (''mpp_enabled'', flag (a_mpp r))])"

section \<open>The agent list\<close>

record AgentListItem =
  al_id :: int
  al_name :: string
  al_image :: "string option"
  al_owner :: string
  al_createdAt :: "string option"
  al_totalScore :: "rat option"
  al_avgScore :: "rat option"
  al_feedbackCount :: int
  al_uniqueClients :: int
  al_supportedTrust :: "native list"
  al_hasServices :: bool

definition SORT_OPTIONS :: "string list" where
  "SORT_OPTIONS = [''created_at'', ''score'', ''feedback'']"

fun compareNullableNumbers :: "rat option \<Rightarrow> rat option \<Rightarrow> bool \<Rightarrow> rat" where
  "compareNullableNumbers None None asc = 0"
| "compareNullableNumbers None (Some right) asc = 1"
| "compareNullableNumbers (Some left) None asc = - 1"
| "compareNullableNumbers (Some left) (Some right) asc = (if asc then left - right else right - left)"

text \<open>\<open>a || b\<close> on numbers.\<close>

definition or_else :: "rat \<Rightarrow> rat \<Rightarrow> rat" where
  "or_else a b = (if a = 0 then b else a)"

text \<open>\<open>sort\<close> with a comparison: stable.\<close>

fun insert_by :: "('a \<Rightarrow> 'a \<Rightarrow> rat) \<Rightarrow> 'a \<Rightarrow> 'a list \<Rightarrow> 'a list" where
  "insert_by cmp x [] = [x]"
| "insert_by cmp x (y # ys) = (if cmp x y \<le> 0 then x # y # ys else y # insert_by cmp x ys)"

definition js_sort :: "('a \<Rightarrow> 'a \<Rightarrow> rat) \<Rightarrow> 'a list \<Rightarrow> 'a list" where
  "js_sort cmp xs = foldr (insert_by cmp) xs []"

text \<open>A difference with an unreadable date is NaN, which \<open>||\<close> passes over.\<close>

definition date_difference :: "api \<Rightarrow> AgentListItem \<Rightarrow> AgentListItem \<Rightarrow> rat" where
  "date_difference ap left right =
     (let date = (\<lambda>x. case al_createdAt x of None \<Rightarrow> Some 0 | Some t \<Rightarrow> if t = [] then Some 0 else ap_time ap t)
      in case (date left, date right) of (Some a, Some b) \<Rightarrow> of_int (a - b) | _ \<Rightarrow> 0)"

definition compare_agents :: "api \<Rightarrow> string \<Rightarrow> bool \<Rightarrow> AgentListItem \<Rightarrow> AgentListItem \<Rightarrow> rat" where
  "compare_agents ap sort_by asc left right = or_else
     (if sort_by = ''score'' then compareNullableNumbers (al_totalScore left) (al_totalScore right) asc
      else if sort_by = ''feedback'' then of_int (if asc then al_feedbackCount left - al_feedbackCount right
        else al_feedbackCount right - al_feedbackCount left)
      else if asc then date_difference ap left right else date_difference ap right left)
     (of_int (al_id left - al_id right))"

definition sortAgents :: "api \<Rightarrow> string \<Rightarrow> bool \<Rightarrow> AgentListItem list \<Rightarrow> AgentListItem list" where
  "sortAgents ap sort_by asc items = js_sort (compare_agents ap sort_by asc) items"

definition agent_label :: "int \<Rightarrow> string" where
  "agent_label i = ''Agent #'' @ show_int i"

definition or_label :: "int \<Rightarrow> string option \<Rightarrow> string" where
  "or_label i name = (case name of Some s \<Rightarrow> s | None \<Rightarrow> agent_label i)"

definition normalizeAgentRow :: "api \<Rightarrow> db \<Rightarrow> int \<times> agent_row \<Rightarrow> AgentListItem" where
  "normalizeAgentRow ap d = (\<lambda>(i, r). let s = leaderboard_scores (ap_avg ap) d i in
     \<lparr>al_id = i, al_name = or_label i (readUriField (a_uri_data r) ''name''), al_image = readUriField (a_uri_data r) ''image'',
      al_owner = a_owner r, al_createdAt = Some (a_created_at r), al_totalScore = Some (s_total s), al_avgScore = Some (s_avg s),
      al_feedbackCount = int (s_feedback_count s), al_uniqueClients = int (s_unique_clients s), al_supportedTrust = a_trust r,
      al_hasServices = (a_services r \<noteq> [])\<rparr>)"

definition column_text :: "native \<Rightarrow> string option" where
  "column_text v = (case v of NStr s \<Rightarrow> Some s | _ \<Rightarrow> None)"

definition normalizeLeaderboardRow :: "api \<Rightarrow> db \<Rightarrow> int \<times> agent_row \<Rightarrow> AgentListItem" where
  "normalizeLeaderboardRow ap d = (\<lambda>(i, r). let s = leaderboard_scores (ap_avg ap) d i in
     \<lparr>al_id = i, al_name = or_label i (column_text (uri_text ap r ''name'')), al_image = column_text (uri_text ap r ''image''),
      al_owner = a_owner r, al_createdAt = None, al_totalScore = Some (s_total s), al_avgScore = Some (s_avg s),
      al_feedbackCount = int (s_feedback_count s), al_uniqueClients = int (s_unique_clients s), al_supportedTrust = a_trust r,
      al_hasServices = (a_services r \<noteq> [])\<rparr>)"

subsection \<open>The request\<close>

record list_request =
  lr_query :: string
  lr_sort :: string
  lr_asc :: bool
  lr_page :: int
  lr_trust :: "string list"
  lr_minScore :: rat
  lr_services :: bool
  lr_owner :: "string option"

definition text_param :: "params \<Rightarrow> string \<Rightarrow> string \<Rightarrow> string" where
  "text_param ps k fallback = (case param ps k of Some v \<Rightarrow> v | None \<Rightarrow> fallback)"

definition page_of :: "params \<Rightarrow> int" where
  "page_of ps = (case number_of_text (text_param ps ''page'' ''1'') of JFin r \<Rightarrow> if 0 < r then \<lfloor>r\<rfloor> else 1 | _ \<Rightarrow> 1)"

definition min_score_of :: "params \<Rightarrow> rat" where
  "min_score_of ps = (case number_of_text (text_param ps ''min_score'' ''0'') of JFin r \<Rightarrow> max 0 (min 100 r) | _ \<Rightarrow> 0)"

definition read_request :: "params \<Rightarrow> list_request" where
  "read_request ps = (let owner = Js_Numbers.trim (text_param ps ''owner'' []) in
     \<lparr>lr_query = take 500 (Js_Numbers.trim (text_param ps ''q'' [])),
      lr_sort = (case param ps ''sort'' of Some s \<Rightarrow> if s \<in> set SORT_OPTIONS then s else ''created_at'' | None \<Rightarrow> ''created_at''),
      lr_asc = (param ps ''order'' = Some ''asc''), lr_page = page_of ps,
      lr_trust = map snd (filter (\<lambda>(k, v). k = ''trust'' \<and> v \<noteq> []) ps), lr_minScore = min_score_of ps,
      lr_services = (param ps ''services'' = Some ''true''), lr_owner = (if owner = [] then None else Some owner)\<rparr>)"

text \<open>\<open>(page - 1) * perPage\<close> in doubles, and what SQLite makes of it as an \<open>OFFSET\<close>: a 64-bit integer, zero when negative.\<close>

definition offset_of :: "jsnum \<Rightarrow> rat \<Rightarrow> jsnum" where
  "offset_of page perPage = (case page of JFin p \<Rightarrow> (case double (p - 1) of JFin r \<Rightarrow> double (r * perPage) | x \<Rightarrow> x) | x \<Rightarrow> x)"

definition sql_offset :: "jsnum \<Rightarrow> string + nat" where
  "sql_offset x = (case x of
      JFin r \<Rightarrow> if of_int \<lfloor>r\<rfloor> = r \<and> - (2 ^ 63) \<le> r \<and> r < 2 ^ 63 then Inr (nat \<lfloor>r\<rfloor>) else Inl ''datatype mismatch''
    | _ \<Rightarrow> Inl ''datatype mismatch'')"

definition has_more :: "jsnum \<Rightarrow> nat \<Rightarrow> nat \<Rightarrow> bool" where
  "has_more offset shown total_rows =
     (case offset of JFin r \<Rightarrow> num_less (double (r + of_nat shown)) (JFin (of_nat total_rows)) | x \<Rightarrow> num_less x (JFin (of_nat total_rows)))"

subsection \<open>The queries\<close>

definition owned :: "string option \<Rightarrow> int \<times> agent_row \<Rightarrow> bool" where
  "owned owner ir = (case owner of None \<Rightarrow> True | Some a \<Rightarrow> a_owner (snd ir) = a)"

definition total_score :: "api \<Rightarrow> db \<Rightarrow> int \<times> agent_row \<Rightarrow> rat" where
  "total_score ap d ir = s_total (leaderboard_scores (ap_avg ap) d (fst ir))"

text \<open>\<open>ORDER BY key DIRECTION, id\<close>.\<close>

definition order_by :: "bool \<Rightarrow> ('a \<Rightarrow> 'k::linorder) \<Rightarrow> ('a \<Rightarrow> int) \<Rightarrow> 'a list \<Rightarrow> 'a list" where
  "order_by asc key ident rows =
     (if asc then sort_key key (sort_key ident rows) else rev (sort_key key (rev (sort_key ident rows))))"

definition advanced :: "list_request \<Rightarrow> bool" where
  "advanced q \<longleftrightarrow> lr_trust q \<noteq> [] \<or> 0 < lr_minScore q \<or> lr_services q"

definition advanced_filter :: "api \<Rightarrow> db \<Rightarrow> list_request \<Rightarrow> string option \<Rightarrow> int \<times> agent_row \<Rightarrow> bool" where
  "advanced_filter ap d q match ir \<longleftrightarrow>
     (case match of None \<Rightarrow> True | Some m \<Rightarrow> ap_fts ap d m (fst ir)) \<and>
     (lr_trust q = [] \<or> trust_overlap (lr_trust q) (snd ir)) \<and> lr_minScore q \<le> total_score ap d ir \<and>
     (lr_services q \<longrightarrow> a_services (snd ir) \<noteq> []) \<and> owned (lr_owner q) ir"

text \<open>The rows of the request in their order, and how they become items. \<open>rank\<close> is the relevance SQLite gives a match.\<close>

definition list_source :: "api \<Rightarrow> (db \<Rightarrow> string \<Rightarrow> int \<Rightarrow> rat) \<Rightarrow> db \<Rightarrow> list_request \<Rightarrow>
    ((int \<times> agent_row) list \<times> ((int \<times> agent_row) list \<Rightarrow> AgentListItem list)) option" where
  "list_source ap rank d q =
     (let match = ftsMatch (lr_query q); boards = map (normalizeLeaderboardRow ap d); rows = map (normalizeAgentRow ap d)
      in if lr_query q \<noteq> [] \<and> match = None then None
         else if advanced q then Some (order_by False (total_score ap d) fst (filter (advanced_filter ap d q match) (agents d)), boards)
         else if lr_query q \<noteq> [] then
           Some (order_by True (\<lambda>ir. rank d (the match) (fst ir)) fst
               (filter (\<lambda>ir. ap_fts ap d (the match) (fst ir) \<and> owned (lr_owner q) ir) (agents d)),
             \<lambda>xs. sortAgents ap (lr_sort q) (lr_asc q) (rows xs))
         else if lr_sort q = ''created_at'' then
           Some (order_by (lr_asc q) (\<lambda>ir. a_created_at (snd ir)) fst (filter (owned (lr_owner q)) (agents d)), rows)
         else if lr_sort q = ''score'' then
           Some (order_by (lr_asc q) (total_score ap d) fst (filter (owned (lr_owner q)) (agents d)), boards)
         else Some (order_by (lr_asc q) (\<lambda>ir. s_feedback_count (leaderboard_scores (ap_avg ap) d (fst ir))) fst
             (filter (owned (lr_owner q)) (agents d)), boards))"

record list_page =
  gp_agents :: "AgentListItem list"
  gp_request :: list_request
  gp_total :: nat
  gp_hasMore :: bool

definition perPage :: nat where
  "perPage = 20"

definition load_agents :: "api \<Rightarrow> (db \<Rightarrow> string \<Rightarrow> int \<Rightarrow> rat) \<Rightarrow> params \<Rightarrow> db option option \<Rightarrow> string + list_page" where
  "load_agents ap rank ps env =
     sbind (getDb env) (\<lambda>d.
       let q = read_request ps; offset = offset_of (JFin (of_int (lr_page q))) (of_nat perPage)
       in sbind (case list_source ap rank d q of
           None \<Rightarrow> Inr ([], 0)
         | Some (rows, toItems) \<Rightarrow> sbind (sql_offset offset) (\<lambda>k. Inr (toItems (window perPage k rows), length rows)))
         (\<lambda>(items, n). Inr \<lparr>gp_agents = items, gp_request = q, gp_total = n, gp_hasMore = has_more offset (length items) n\<rparr>))"

section \<open>The leaderboard\<close>

record leaders_page =
  lp_leaders :: "(int \<times> agent_row) list"
  lp_page :: jsnum
  lp_total :: nat
  lp_hasMore :: bool
  lp_startRank :: jsnum

text \<open>\<open>Math.max(1, Number.parseInt(text, 10) || 1)\<close>.\<close>

definition leader_page :: "params \<Rightarrow> jsnum" where
  "leader_page ps = (case parseInt10 (text_param ps ''page'' ''1'') of
      None \<Rightarrow> JFin 1 | Some i \<Rightarrow> if i < 1 then JFin 1 else Number_of_bigint i)"

definition num_plus1 :: "jsnum \<Rightarrow> jsnum" where
  "num_plus1 x = (case x of JFin r \<Rightarrow> double (r + 1) | y \<Rightarrow> y)"

definition leaders :: "api \<Rightarrow> db \<Rightarrow> (int \<times> agent_row) list" where
  "leaders ap d = order_by False (total_score ap d) fst (agents d)"

definition load_leaderboard :: "api \<Rightarrow> params \<Rightarrow> db option option \<Rightarrow> string + leaders_page" where
  "load_leaderboard ap ps env =
     (let page = leader_page ps; offset = offset_of page 50
      in sbind (getDb env) (\<lambda>d. sbind (sql_offset offset) (\<lambda>k.
        let rows = window 50 k (leaders ap d)
        in Inr \<lparr>lp_leaders = rows, lp_page = page, lp_total = length (agents d),
             lp_hasMore = has_more offset (length rows) (length (agents d)), lp_startRank = num_plus1 offset\<rparr>)))"

section \<open>The home page\<close>

record home_feedback =
  hf_agent :: int
  hf_agentName :: string
  hf_client :: string
  hf_score :: jsnum
  hf_tag :: "string option"
  hf_createdAt :: string

record home_page =
  hp_agents :: nat
  hp_feedback :: nat
  hp_clients :: nat
  hp_recentAgents :: "(int \<times> string \<times> string) list"
  hp_recentFeedback :: "home_feedback list"

definition recent_agent :: "int \<times> agent_row \<Rightarrow> int \<times> string \<times> string" where
  "recent_agent = (\<lambda>(i, r). (i, or_label i (readUriField (a_uri_data r) ''name''), a_created_at r))"

text \<open>The \<open>LEFT JOIN\<close> gives no document for a missing agent.\<close>

definition recent_feedback :: "db \<Rightarrow> feedback_key \<times> feedback_row \<Rightarrow> home_feedback" where
  "recent_feedback d = (\<lambda>((a, c, i), f).
     \<lparr>hf_agent = a, hf_agentName = or_label a (readUriField (Option.bind (map_of (agents d) a) a_uri_data) ''name''), hf_client = c,
      hf_score = toDisplayScore (f_value f) (f_decimals f), hf_tag = f_tag1 f, hf_createdAt = f_created_at f\<rparr>)"

definition load_home :: "api \<Rightarrow> db option option \<Rightarrow> string + home_page" where
  "load_home ap env = sbind (getDb env) (\<lambda>d.
     let valid = filter (\<lambda>(k, f). \<not> f_revoked f) (feedback d)
     in Inr \<lparr>hp_agents = length (agents d), hp_feedback = length valid,
       hp_clients = sum_list (map (\<lambda>(i, r). s_unique_clients (leaderboard_scores (ap_avg ap) d i)) (agents d)),
       hp_recentAgents = map recent_agent (take 10 (rev (sort_key (\<lambda>(i, r). (a_created_at r, i)) (agents d)))),
       hp_recentFeedback = map (recent_feedback d) (take 10 (newest_first (\<lambda>(k, f). f_created_at f) valid))\<rparr>)"

section \<open>Lemmas\<close>

subsection \<open>Rows\<close>

lemma flag_decoded: "k \<in> set BOOLEAN_COLUMNS \<Longrightarrow> decode_column parse (k, flag b) = Inr (k, NBool b)"
  by (simp add: decode_column_def flag_def)

lemma json_decoded: "k \<in> set JSON_COLUMNS \<Longrightarrow> parse s = Inr v \<Longrightarrow> decode_column parse (k, NStr s) = Inr (k, v)"
  by (simp add: decode_column_def)

lemma plain_decoded: "k \<notin> set JSON_COLUMNS \<Longrightarrow> k \<notin> set BOOLEAN_COLUMNS \<Longrightarrow> decode_column parse (k, v) = Inr (k, v)"
  by (simp add: decode_column_def split: native.split)

text \<open>What D1 returns for an agent decodes to the row the model has.\<close>

lemma decode_agent:
  assumes "\<forall>v. parse (stringify v) = Inr v"
  shows "decodeRow parse (agent_columns stringify (i, r)) = Inr
     [(''id'', nint i), (''owner'', NStr (a_owner r)), (''agent_uri'', text_or_null (a_uri r)),
      (''agent_uri_data'', case a_uri_data r of None \<Rightarrow> NNull | Some v \<Rightarrow> v), (''wallet'', text_or_null (a_wallet r)),
      (''created_at'', NStr (a_created_at r)), (''updated_at'', NStr (a_updated_at r)), (''uri_resolve_attempts'', nint (a_attempts r)),
      (''resolve_uri_pending'', NBool (a_pending r)), (''supported_trust'', NArr (a_trust r)), (''services'', NArr (a_services r)),
      (''x402_enabled'', NBool (a_x402 r)), (''mpp_enabled'', NBool (a_mpp r))]"
proof -
  have doc: "decode_column parse (''agent_uri_data'', case a_uri_data r of None \<Rightarrow> NNull | Some v \<Rightarrow> NStr (stringify v)) =
      Inr (''agent_uri_data'', case a_uri_data r of None \<Rightarrow> NNull | Some v \<Rightarrow> v)"
    using assms by (simp add: decode_column_def JSON_COLUMNS_def split: option.split)
  show ?thesis
    unfolding decodeRow_def agent_columns_def split smap.simps
    by (simp add: doc assms flag_decoded json_decoded plain_decoded JSON_COLUMNS_def BOOLEAN_COLUMNS_def)
qed

subsection \<open>Orders\<close>

lemma mset_order_by [simp]: "mset (order_by asc key ident rows) = mset rows"
  by (simp add: order_by_def)

lemma length_order_by [simp]: "length (order_by asc key ident rows) = length rows"
  using arg_cong [OF mset_order_by, of size] by (simp only: size_mset)

lemma order_by_sorted: "sorted_wrt (\<lambda>x y. if asc then key x \<le> key y else key y \<le> key x) (order_by asc key ident rows)"
proof -
  have up: "sorted_wrt (\<lambda>x y. key x \<le> key y) (sort_key key xs)" for xs :: "'a list" using sorted_sort_key [of key xs] by (simp only: sorted_map)
  show ?thesis using up by (simp add: order_by_def sorted_wrt_rev)
qed

lemma mset_insert_by [simp]: "mset (insert_by cmp x ys) = add_mset x (mset ys)"
  by (induction ys) auto

lemma mset_js_sort [simp]: "mset (js_sort cmp xs) = mset xs"
proof -
  have "mset (foldr (insert_by cmp) xs []) = mset xs" by (induction xs) simp_all
  then show ?thesis by (simp add: js_sort_def)
qed

lemma length_js_sort [simp]: "length (js_sort cmp xs) = length xs"
  using arg_cong [OF mset_js_sort, of size] by (simp only: size_mset)

subsection \<open>One filter for all branches\<close>

text \<open>The agents that pass the chosen filters, and those of them that the query shows: with any of the filters for trust, score and
  services chosen it demands the minimal score, which is 0 when none was chosen.\<close>

definition wanted :: "api \<Rightarrow> db \<Rightarrow> list_request \<Rightarrow> int \<times> agent_row \<Rightarrow> bool" where
  "wanted ap d q ir \<longleftrightarrow>
     (lr_query q = [] \<or> (case ftsMatch (lr_query q) of None \<Rightarrow> False | Some m \<Rightarrow> ap_fts ap d m (fst ir))) \<and>
     (lr_trust q = [] \<or> trust_overlap (lr_trust q) (snd ir)) \<and> (0 < lr_minScore q \<longrightarrow> lr_minScore q \<le> total_score ap d ir) \<and>
     (lr_services q \<longrightarrow> a_services (snd ir) \<noteq> []) \<and> owned (lr_owner q) ir"

definition shown_agent :: "api \<Rightarrow> db \<Rightarrow> list_request \<Rightarrow> int \<times> agent_row \<Rightarrow> bool" where
  "shown_agent ap d q ir \<longleftrightarrow> wanted ap d q ir \<and> (lr_trust q \<noteq> [] \<or> 0 < lr_minScore q \<or> lr_services q \<longrightarrow> 0 \<le> total_score ap d ir)"

definition listed :: "api \<Rightarrow> (db \<Rightarrow> string \<Rightarrow> int \<Rightarrow> rat) \<Rightarrow> db \<Rightarrow> list_request \<Rightarrow> (int \<times> agent_row) list" where
  "listed ap rank d q = (case list_source ap rank d q of None \<Rightarrow> [] | Some (rows, toItems) \<Rightarrow> rows)"

lemma min_score_nonneg: "0 \<le> lr_minScore (read_request ps)"
  by (simp add: read_request_def min_score_of_def Let_def split: jsnum.split)

lemma mset_listed:
  assumes "0 \<le> lr_minScore q"
  shows "mset (listed ap rank d q) = mset (filter (shown_agent ap d q) (agents d))"
proof -
  have plain: "shown_agent ap d q = owned (lr_owner q)" if "lr_query q = []" "\<not> advanced q"
    using that by (auto simp: shown_agent_def wanted_def advanced_def)
  have found: "shown_agent ap d q = (\<lambda>ir. ap_fts ap d m (fst ir) \<and> owned (lr_owner q) ir)"
    if "ftsMatch (lr_query q) = Some m" "lr_query q \<noteq> []" "\<not> advanced q" for m
    using that by (auto simp: shown_agent_def wanted_def advanced_def)
  have score: "lr_minScore q \<le> x \<longleftrightarrow> (0 < lr_minScore q \<longrightarrow> lr_minScore q \<le> x) \<and> 0 \<le> x" for x
    using assms by auto
  have all: "shown_agent ap d q = advanced_filter ap d q (ftsMatch (lr_query q))"
    if "advanced q" "\<not> (lr_query q \<noteq> [] \<and> ftsMatch (lr_query q) = None)"
  proof
    fix ir
    show "shown_agent ap d q ir = advanced_filter ap d q (ftsMatch (lr_query q)) ir"
      using that score [of "total_score ap d ir"] unfolding advanced_def
      by (cases "lr_query q = []") (auto simp: shown_agent_def wanted_def advanced_filter_def)
  qed
  have none: "\<not> shown_agent ap d q ir" if "lr_query q \<noteq> []" "ftsMatch (lr_query q) = None" for ir
    using that by (simp add: shown_agent_def wanted_def)
  show ?thesis
    by (auto simp: listed_def list_source_def Let_def plain found all none)
qed

lemma item_ids: "al_id \<circ> normalizeLeaderboardRow ap d = fst" "al_id \<circ> normalizeAgentRow ap d = fst"
  by (auto simp: fun_eq_iff normalizeLeaderboardRow_def normalizeAgentRow_def Let_def)

lemma source_items:
  assumes "list_source ap rank d q = Some (rows, toItems)"
  shows "mset (map al_id (toItems xs)) = mset (map fst xs) \<and> length (toItems xs) = length xs"
proof -
  from assms consider "toItems = map (normalizeLeaderboardRow ap d)" | "toItems = map (normalizeAgentRow ap d)"
    | "toItems = (\<lambda>xs. sortAgents ap (lr_sort q) (lr_asc q) (map (normalizeAgentRow ap d) xs))"
    by (auto simp: list_source_def Let_def split: if_splits)
  then show ?thesis by cases (simp_all add: item_ids multiset.map_comp sortAgents_def)
qed

subsection \<open>Pages\<close>

lemma update_other_filter: "k \<noteq> c \<Longrightarrow> filter (\<lambda>(k, v). k = c \<and> P v) (AList.update k x al) = filter (\<lambda>(k, v). k = c \<and> P v) al"
  by (induction al) auto

lemma with_page_request: "n < 2 ^ 53 \<Longrightarrow> 1 \<le> n \<Longrightarrow> read_request (with_page ps n) = (read_request ps)\<lparr>lr_page := int n\<rparr>"
proof -
  assume n: "n < 2 ^ 53" "1 \<le> n"
  have "param (with_page ps n) ''page'' = Some (show_nat n)" by (simp add: param_def with_page_def update_conv')
  then have "page_of (with_page ps n) = int n" using n by (simp add: page_of_def text_param_def number_of_show_nat)
  moreover have "filter (\<lambda>(k, v). k = ''trust'' \<and> v \<noteq> []) (with_page ps n) = filter (\<lambda>(k, v). k = ''trust'' \<and> v \<noteq> []) ps"
    unfolding with_page_def by (rule update_other_filter) simp
  ultimately show ?thesis
    by (simp add: read_request_def text_param_def min_score_of_def param_with_page Let_def cong: option.case_cong)
qed

lemma double_nat: "k < 2 ^ 53 \<Longrightarrow> double (of_nat k) = JFin (of_nat k)"
  using double_int [of "int k"] by simp

lemma offset_nat: "1 \<le> n \<Longrightarrow> n * k < 2 ^ 53 \<Longrightarrow> 0 < k \<Longrightarrow> offset_of (JFin (of_nat n)) (of_nat k) = JFin (of_nat ((n - 1) * k))"
proof -
  assume n: "1 \<le> n" "n * k < 2 ^ 53" "0 < k"
  have "n - 1 \<le> (n - 1) * k" "(n - 1) * k \<le> n * k" using n(3) by simp_all
  then have "double (of_nat (n - 1)) = JFin (of_nat (n - 1))" "double (of_nat ((n - 1) * k)) = JFin (of_nat ((n - 1) * k))"
    using n(2) by (intro double_nat; linarith)+
  then show ?thesis using n(1) by (simp add: offset_of_def of_nat_diff)
qed

lemma sql_offset_nat: "k < 2 ^ 53 \<Longrightarrow> sql_offset (JFin (of_nat k)) = Inr k"
proof -
  assume k: "k < 2 ^ 53"
  have "rat_of_nat k < of_nat (2 ^ 63)" by (rule iffD2 [OF of_nat_less_iff]) (use k in simp)
  then show ?thesis by (simp add: sql_offset_def)
qed

lemma has_more_nat: "k + shown < 2 ^ 53 \<Longrightarrow> has_more (JFin (of_nat k)) shown n \<longleftrightarrow> k + shown < n"
  using double_nat [of "k + shown"] of_nat_less_iff [of "k + shown" n, where ?'a = rat] by (simp add: has_more_def)

text \<open>A page past the end shows nothing more.\<close>

lemma window_more: "k + length (window limit k xs) < length xs \<longleftrightarrow> k + limit < length xs"
  by (auto simp: window_def)

lemma load_agents_page:
  assumes "1 \<le> n" "n < 2 ^ 40"
  shows "\<exists>pg. load_agents ap rank (with_page ps n) (Some (Some d)) = Inr pg \<and>
    gp_total pg = length (listed ap rank d (read_request ps)) \<and> gp_hasMore pg = (n * 20 < length (listed ap rank d (read_request ps))) \<and>
    mset (map al_id (gp_agents pg)) = mset (map fst (window 20 ((n - 1) * 20) (listed ap rank d (read_request ps))))"
proof -
  let ?q = "read_request ps"
  define k where "k = (n - 1) * 20"
  have k: "k + 20 = n * 20" "k + 20 < 2 ^ 53" using assms by (simp_all add: k_def)
  have q: "read_request (with_page ps n) = ?q\<lparr>lr_page := int n\<rparr>" by (rule with_page_request) (use assms in auto)
  have "advanced_filter ap d (?q\<lparr>lr_page := int n\<rparr>) = advanced_filter ap d ?q" by (intro ext) (simp add: advanced_filter_def)
  then have same: "list_source ap rank d (?q\<lparr>lr_page := int n\<rparr>) = list_source ap rank d ?q"
    by (simp add: list_source_def advanced_def Let_def cong: if_cong)
  have off: "offset_of (JFin (rat_of_nat n)) 20 = JFin (of_nat k)" using offset_nat [of n 20] assms by (simp add: k_def)
  have more: "has_more (JFin (of_nat k)) shown m \<longleftrightarrow> k + shown < m" if "shown \<le> 20" for shown m
    by (rule has_more_nat) (use k(2) that in simp)
  have small: "sql_offset (JFin (of_nat k)) = Inr k" by (rule sql_offset_nat) (use k(2) in simp)
  show ?thesis unfolding k_def [symmetric]
  proof (cases "list_source ap rank d ?q")
    case None
    with more [of 0 0] off show "\<exists>pg. load_agents ap rank (with_page ps n) (Some (Some d)) = Inr pg \<and>
        gp_total pg = length (listed ap rank d ?q) \<and> gp_hasMore pg = (n * 20 < length (listed ap rank d ?q)) \<and>
        mset (map al_id (gp_agents pg)) = mset (map fst (window 20 k (listed ap rank d ?q)))"
      by (simp add: load_agents_def getDb_def q same perPage_def listed_def window_def Let_def)
  next
    case (Some rt)
    obtain rows toItems where rt: "rt = (rows, toItems)" by (cases rt)
    note items = source_items [OF Some [unfolded rt], of "window 20 k rows"]
    have "length (window 20 k rows) \<le> 20" by (simp add: window_def)
    from more [OF this, of "length rows"] window_more [of k 20 rows] k(1)
    have "has_more (JFin (of_nat k)) (length (window 20 k rows)) (length rows) \<longleftrightarrow> n * 20 < length rows" by simp
    with Some rt items off small show "\<exists>pg. load_agents ap rank (with_page ps n) (Some (Some d)) = Inr pg \<and>
        gp_total pg = length (listed ap rank d ?q) \<and> gp_hasMore pg = (n * 20 < length (listed ap rank d ?q)) \<and>
        mset (map al_id (gp_agents pg)) = mset (map fst (window 20 k (listed ap rank d ?q)))"
      by (simp add: load_agents_def getDb_def q same perPage_def listed_def Let_def)
  qed
qed

definition page_ids :: "string + list_page \<Rightarrow> int list" where
  "page_ids r = (case r of Inr pg \<Rightarrow> map al_id (gp_agents pg) | Inl e \<Rightarrow> [])"

definition page_more :: "string + list_page \<Rightarrow> bool" where
  "page_more r = (case r of Inr pg \<Rightarrow> gp_hasMore pg | Inl e \<Rightarrow> False)"

section \<open>Properties\<close>

text \<open>C28. The agent list shows what was asked for, once: whatever query, filters, owner and order are chosen (five different queries), the
  pages up to the last one together show exactly the agents that pass the chosen filters, each once, and each page says that there
  are more exactly when there are. There is one exception: once a filter for trust, score or services is chosen, agents with a negative
  score are left out, whether or not a minimal score was chosen.\<close>

theorem agent_pages_cover:
  assumes "length (filter (shown_agent ap d (read_request ps)) (agents d)) \<le> n * 20" and "n < 2 ^ 40"
  shows "mset (concat (map (\<lambda>p. page_ids (load_agents ap rank (with_page ps p) (Some (Some d)))) [1..<Suc n])) =
      mset (map fst (filter (shown_agent ap d (read_request ps)) (agents d))) \<and>
    (\<forall>p. 1 \<le> p \<and> p \<le> n \<longrightarrow> page_more (load_agents ap rank (with_page ps p) (Some (Some d))) =
       (p * 20 < length (filter (shown_agent ap d (read_request ps)) (agents d))))"
proof -
  let ?rows = "listed ap rank d (read_request ps)" and ?load = "\<lambda>p. load_agents ap rank (with_page ps p) (Some (Some d))"
  have same: "mset ?rows = mset (filter (shown_agent ap d (read_request ps)) (agents d))" by (rule mset_listed [OF min_score_nonneg])
  then have len: "length ?rows = length (filter (shown_agent ap d (read_request ps)) (agents d))" by (metis size_mset)
  have page: "mset (page_ids (?load p)) = mset (map fst (window 20 ((p - 1) * 20) ?rows))" "page_more (?load p) = (p * 20 < length ?rows)"
    if "1 \<le> p" "p \<le> n" for p
    using load_agents_page [of p ap rank ps d] that assms(2) by (auto simp: page_ids_def page_more_def)
  have concat_mset: "mset (concat (map f ps)) = mset (concat (map g ps))" if "\<forall>p \<in> set ps. mset (f p) = mset (g p)"
    for f g :: "nat \<Rightarrow> int list" and ps using that by (induction ps) auto
  have "mset (concat (map (\<lambda>p. page_ids (?load p)) [1..<Suc n])) = mset (concat (map (\<lambda>p. map fst (window 20 ((p - 1) * 20) ?rows)) [1..<Suc n]))"
    by (rule concat_mset) (use page(1) in auto)
  also have "\<dots> = mset (map fst (concat (map (\<lambda>p. window 20 ((p - 1) * 20) ?rows) [1..<Suc n])))" by (simp only: map_concat map_map comp_def)
  also have "\<dots> = mset (map fst (take (n * 20) ?rows))" by (simp only: window_concat)
  also have "\<dots> = mset (map fst ?rows)" using assms(1) len by simp
  also have "\<dots> = mset (map fst (filter (shown_agent ap d (read_request ps)) (agents d)))" by (simp only: mset_map same)
  finally show ?thesis using page(2) len by simp
qed

lemma number_texts: "number_of_text ''0'' = JFin 0" "number_of_text ''0.5'' = JFin (1 / 2)"
proof -
  have zero: "show_nat 0 = ''0''" by code_simp
  show "number_of_text ''0'' = JFin 0" by (rule number_of_show_nat [of 0, unfolded zero, simplified])
  have "decimal_of ''0.5'' = Some (1 / 2)"
    by (simp add: decimal_of_def Let_def exponent_of_def is_digit_def code_of_def read_nat_def val_of_def)
  moreover have "double (1 / 2) = JFin (1 / 2)"
  proof -
    have "quotient_of (1 / 2) = (1, 2)" "bitlen 1 - bitlen 2 = - 1" by code_simp+
    then have "leading_bit (1 / 2) = - 1" by (simp add: leading_bit_def pow2_def)
    then show ?thesis by (simp add: double_def pow2_def half_even_def)
  qed
  ultimately show "number_of_text ''0.5'' = JFin (1 / 2)"
    by (simp add: number_of_text_def Js_Numbers.trim_def drop_sign_def is_negative_def radix_integer_def radix_of_def toLowerCase_def lower_char_def
        is_space_def code_of_def)
qed

text \<open>An instance with a filter and a second page that is empty.\<close>

theorem agent_pages_cover_witness:
  "shown_agent sample_api sample_board (read_request [(''owner'', ''O'')]) (1, new_agent ''O'' ''u'' False [] 0 [] []) \<and>
   mset (concat (map (\<lambda>p. page_ids (load_agents sample_api (\<lambda>_ _ _. 0) (with_page [(''owner'', ''O'')] p) (Some (Some sample_board)))) [1..<Suc 2])) = {#1#}"
proof -
  let ?q = "read_request [(''owner'', ''O'')]"
  have q: "lr_query ?q = [] \<and> lr_trust ?q = [] \<and> lr_minScore ?q = 0 \<and> \<not> lr_services ?q \<and> lr_owner ?q = Some ''O''"
    by (simp add: read_request_def text_param_def param_def min_score_of_def number_texts Js_Numbers.trim_def is_space_def code_of_def Let_def)
  have shown: "shown_agent sample_api sample_board ?q = owned (Some ''O'')" using q by (intro ext) (simp add: shown_agent_def wanted_def)
  have owned: "owned (Some ''O'') (1, new_agent ''O'' ''u'' False [] 0 [] [])" by (simp add: owned_def new_agent_def)
  have rows: "filter (shown_agent sample_api sample_board ?q) (agents sample_board) = [(1, new_agent ''O'' ''u'' False [] 0 [] [])]"
    unfolding shown by (simp add: sample_board_def owned)
  from agent_pages_cover [of sample_api sample_board "[(''owner'', ''O'')]" 2 "\<lambda>_ _ _. 0"] show ?thesis
    unfolding rows by (simp add: shown owned del: upt_Suc)
qed

text \<open>A fraction below one is taken for a page and gives page 0: the first rows are shown, and more are announced although there are none.\<close>

lemma page_zero:
  "\<exists>pg. load_agents sample_api (\<lambda>_ _ _. 0) [(''page'', ''0.5'')] (Some (Some sample_board)) = Inr pg \<and>
     lr_page (gp_request pg) = 0 \<and> map al_id (gp_agents pg) = [1] \<and> gp_total pg = 1 \<and> gp_hasMore pg"
proof -
  let ?q = "read_request [(''page'', ''0.5'')]" and ?row = "(1, new_agent ''O'' ''u'' False [] 0 [] [])"
  have half: "\<lfloor>1 / 2 :: rat\<rfloor> = 0" by (simp add: floor_eq_iff)
  have q: "?q = \<lparr>lr_query = [], lr_sort = ''created_at'', lr_asc = False, lr_page = 0, lr_trust = [], lr_minScore = 0, lr_services = False, lr_owner = None\<rparr>"
    by (simp add: read_request_def page_of_def text_param_def param_def min_score_of_def number_texts half Js_Numbers.trim_def Let_def)
  have source: "list_source sample_api (\<lambda>_ _ _. 0) sample_board ?q = Some ([?row], map (normalizeAgentRow sample_api sample_board))"
    by (simp add: list_source_def q advanced_def owned_def order_by_def sample_board_def)
  have "offset_of (JFin 0) 20 = JFin (- 20)"
    using double_int [of "- 1"] double_int [of "- 20"] by (simp add: offset_of_def)
  moreover have "sql_offset (JFin (- 20)) = Inr 0" by (simp add: sql_offset_def)
  moreover have "has_more (JFin (- 20)) 1 1" using double_int [of "- 19"] by (simp add: has_more_def)
  ultimately show ?thesis
    by (simp add: load_agents_def getDb_def source perPage_def window_def Let_def) (simp add: q normalizeAgentRow_def Let_def)
qed

text \<open>Any filter of the advanced search hides the agents with a negative score, although no minimum was asked for.\<close>

lemma filter_hides_negative:
  assumes "advanced (read_request ps)" "total_score ap d ir < 0"
  shows "ir \<notin> set (listed ap rank d (read_request ps))"
proof -
  have "\<not> shown_agent ap d (read_request ps) ir" using assms by (auto simp: shown_agent_def advanced_def)
  moreover have "set (listed ap rank d (read_request ps)) = set (filter (shown_agent ap d (read_request ps)) (agents d))"
    using mset_listed [OF min_score_nonneg] by (metis set_mset_mset)
  ultimately show ?thesis by simp
qed

text \<open>The leaderboard page is in order, and its first rank is the position of its first row.\<close>

lemma leaderboard_page:
  assumes "1 \<le> n" "n < 2 ^ 40" "param ps ''page'' = Some (show_nat n)" "load_leaderboard ap ps (Some (Some d)) = Inr pg"
  shows "lp_leaders pg = window 50 ((n - 1) * 50) (leaders ap d)" "lp_hasMore pg = (n * 50 < length (agents d))"
    "lp_startRank pg = JFin (of_nat ((n - 1) * 50 + 1))"
    "sorted_wrt (\<lambda>x y. total_score ap d y \<le> total_score ap d x) (leaders ap d)"
proof -
  define k where "k = (n - 1) * 50"
  have k: "k + 50 = n * 50" "k + 50 < 2 ^ 53" using assms(1,2) by (simp_all add: k_def)
  have page: "leader_page ps = JFin (of_nat n)"
    using assms(1-3) by (simp add: leader_page_def text_param_def parseInt10_show_nat Number_of_bigint_def round53_def)
  have off: "offset_of (JFin (of_nat n)) 50 = JFin (of_nat k)" using offset_nat [of n 50] assms(1,2) by (simp add: k_def)
  have small: "sql_offset (JFin (of_nat k)) = Inr k" by (rule sql_offset_nat) (use k(2) in simp)
  have len: "length (leaders ap d) = length (agents d)" by (simp add: leaders_def)
  have pg: "pg = \<lparr>lp_leaders = window 50 k (leaders ap d), lp_page = JFin (of_nat n), lp_total = length (agents d),
      lp_hasMore = has_more (JFin (of_nat k)) (length (window 50 k (leaders ap d))) (length (agents d)),
      lp_startRank = num_plus1 (JFin (of_nat k))\<rparr>"
    using assms(4) by (simp add: load_leaderboard_def getDb_def page off small Let_def)
  show "lp_leaders pg = window 50 ((n - 1) * 50) (leaders ap d)" by (simp add: pg k_def)
  have "length (window 50 k (leaders ap d)) \<le> 50" by (simp add: window_def)
  then have "has_more (JFin (of_nat k)) (length (window 50 k (leaders ap d))) (length (agents d)) \<longleftrightarrow>
      k + length (window 50 k (leaders ap d)) < length (agents d)"
    by (intro has_more_nat) (use k(2) in simp)
  with k(1) window_more [of k 50 "leaders ap d"] len show "lp_hasMore pg = (n * 50 < length (agents d))" by (simp add: pg)
  have "double (of_nat (k + 1)) = JFin (of_nat (k + 1))" by (rule double_nat) (use k(2) in simp)
  then show "lp_startRank pg = JFin (of_nat ((n - 1) * 50 + 1))" by (simp add: pg num_plus1_def k_def add.commute)
  show "sorted_wrt (\<lambda>x y. total_score ap d y \<le> total_score ap d x) (leaders ap d)"
    using order_by_sorted [of False "total_score ap d" fst "agents d"] by (simp add: leaders_def)
qed

end
