(* ===== verification/Web_Agent.thy ===== *)
theory Web_Agent
  imports Web_Lists Sdk_Metadata
begin

text \<open>
  The loaders of the agent pages: the page of an agent (\<open>routes/agents/[id]/+page.server.ts\<close>), its edit form
  (\<open>routes/agents/[id]/edit/+page.server.ts\<close>) and the demonstration page (\<open>routes/preview/agent/+page.server.ts\<close>).

  Numbers of D1 are doubles, so the index of a feedback is rounded before it becomes part of a key. The lemmas show that replies end
  under the feedback they answer and that the table of clients counts the feedback that is shown.
\<close>

section \<open>The page of an agent\<close>

datatype page_error = Http int string | Failed string

record shown_reply =
  sr_responder :: string
  sr_responseUri :: "string option"
  sr_createdAt :: string

record shown_feedback =
  sf_client :: string
  sf_score :: jsnum
  sf_tag1 :: "string option"
  sf_tag2 :: "string option"
  sf_uri :: "string option"
  sf_hash :: "string option"
  sf_revoked :: bool
  sf_createdAt :: string
  sf_txHash :: "string option"
  sf_createdLedger :: "int option"
  sf_responses :: "shown_reply list"

text \<open>A hash shown whole, or its ends around an ellipsis.\<close>

datatype short_hash = Whole string | Cut string string

record shown_validation =
  sv_requestHash :: string
  sv_requestHashShort :: short_hash
  sv_validator :: string
  sv_response :: "int option"
  sv_hasResponse :: bool
  sv_requestUri :: "string option"
  sv_responseUri :: "string option"
  sv_responseHash :: "string option"
  sv_requestTxHash :: "string option"
  sv_responseTxHash :: "string option"
  sv_tag :: "string option"
  sv_createdAt :: string
  sv_respondedAt :: "string option"

record shown_scores =
  sh_total :: rat
  sh_avg :: rat
  sh_feedbackCount :: nat
  sh_uniqueClients :: nat
  sh_rank :: nat
  sh_totalAgents :: nat

record client_row =
  cb_client :: string
  cb_feedbackCount :: nat
  cb_avgScore :: jsnum
  cb_lastFeedback :: string

datatype page_state = Ready | No_Uri | Resolving | Uri_Failed | Indexing

record agent_page =
  ag_state :: page_state
  ag_justRegistered :: bool
  ag_txHash :: "string option"
  ag_uriResolveAttempts :: int
  ag_tag :: string
  ag_id :: int
  ag_name :: string
  ag_description :: "string option"
  ag_image :: "string option"
  ag_owner :: string
  ag_wallet :: "string option"
  ag_agentUri :: "string option"
  ag_supportedTrust :: "native list"
  ag_services :: "ServiceEntry list"
  ag_createdAt :: string
  ag_updatedAt :: string
  ag_x402Enabled :: bool
  ag_mppEnabled :: bool
  ag_registrationData :: "string option"
  ag_metadata :: "(string \<times> string option) list"
  ag_feedback :: "shown_feedback list"
  ag_validations :: "shown_validation list"
  ag_scores :: "shown_scores option"
  ag_clientBreakdown :: "client_row list"
  ag_metadataCompleteness :: int
  ag_metadataMissing :: "string list"
  ag_recentFeedbackCount :: nat

subsection \<open>The request\<close>

definition number_text :: "(rat \<Rightarrow> string) \<Rightarrow> int \<Rightarrow> string" where
  "number_text fmt i = js_String fmt (NNum (Number_of_bigint i))"

definition feedbackKey :: "(rat \<Rightarrow> string) \<Rightarrow> int \<Rightarrow> string \<Rightarrow> int \<Rightarrow> string" where
  "feedbackKey fmt agent client index = number_text fmt agent @ '':'' @ client @ '':'' @ number_text fmt index"

definition optional_text :: "native \<Rightarrow> string option" where
  "optional_text v = (case v of NStr s \<Rightarrow> Some s | _ \<Rightarrow> None)"

definition page_service :: "native \<Rightarrow> ServiceEntry" where
  "page_service s =
     \<lparr>se_name = (case getProp s ''name'' of NStr n \<Rightarrow> n | _ \<Rightarrow> ''unknown''), se_endpoint = (case getProp s ''endpoint'' of NStr e \<Rightarrow> e | _ \<Rightarrow> []),
      se_version = optional_text (getProp s ''version''), se_description = optional_text (getProp s ''description''),
      se_inputExample = optional_text (getProp s ''inputExample'')\<rparr>"

definition page_services :: "native list \<Rightarrow> ServiceEntry list" where
  "page_services raw = filter (\<lambda>s. se_endpoint s \<noteq> []) (map page_service (filter (\<lambda>s. \<not> is_nullish s \<and> js_typeof s = ''object'') raw))"

definition VALID_TAGS :: "string list" where
  "VALID_TAGS = [''starred'', ''uptime'', ''reachable'', ''successRate'', ''responseTime'']"

definition agent_id_of :: "string \<Rightarrow> int option" where
  "agent_id_of t = (let x = number_of_text t in
     if \<not> isInteger x \<or> num_less x (JFin 0) \<or> num_less (JFin 2147483647) x then None
     else (case x of JFin r \<Rightarrow> Some \<lfloor>r\<rfloor> | _ \<Rightarrow> None))"

definition tag_of :: "params \<Rightarrow> string" where
  "tag_of ps = (let t = text_param ps ''tag'' [] in if t \<in> set VALID_TAGS then t else [])"

definition tx_of :: "params \<Rightarrow> string option" where
  "tx_of ps = (case param ps ''tx'' of
      None \<Rightarrow> None
    | Some t \<Rightarrow> if length t = 64 \<and> list_all is_hex_char t then Some t else None)"

subsection \<open>What the page shows\<close>

definition page_state_of :: "agent_row \<Rightarrow> page_state" where
  "page_state_of r =
     (if (case a_uri_data r of None \<Rightarrow> False | Some doc \<Rightarrow> truthy doc) then Ready
      else if a_uri r = None \<or> a_uri r = Some [] then No_Uri
      else if a_pending r then Resolving else Uri_Failed)"

text \<open>\<open>responsesByFeedback\<close>: a \<open>Map\<close> of lists.\<close>

definition add_response :: "(rat \<Rightarrow> string) \<Rightarrow> response_row \<Rightarrow> (string \<times> response_row list) list \<Rightarrow> (string \<times> response_row list) list" where
  "add_response fmt r m = (case r_key r of (a, c, i) \<Rightarrow>
     let key = feedbackKey fmt a c i; entries = (case map_of m key of Some rs \<Rightarrow> rs | None \<Rightarrow> []) in AList.update key (entries @ [r]) m)"

definition responses_by_feedback :: "(rat \<Rightarrow> string) \<Rightarrow> response_row list \<Rightarrow> (string \<times> response_row list) list" where
  "responses_by_feedback fmt rs = fold (add_response fmt) rs []"

definition all_missing :: "string list" where
  "all_missing = [''name'', ''description'', ''image'', ''services'', ''trust'']"

definition filled_text :: "native \<Rightarrow> bool" where
  "filled_text v = (case v of NStr s \<Rightarrow> s \<noteq> [] | _ \<Rightarrow> False)"

definition filled_list :: "native \<Rightarrow> bool" where
  "filled_list v = (case v of NArr xs \<Rightarrow> xs \<noteq> [] | _ \<Rightarrow> False)"

definition metadataDetail :: "native option \<Rightarrow> int \<times> string list" where
  "metadataDetail uriData = (case uriData of
      Some (NObj fs) \<Rightarrow>
        let missing = (if filled_text (getProp (NObj fs) ''name'') then [] else [''name'']) @
              (if filled_text (getProp (NObj fs) ''description'') then [] else [''description'']) @
              (if filled_text (getProp (NObj fs) ''image'') then [] else [''image'']) @
              (if filled_list (getProp (NObj fs) ''services'') then [] else [''services'']) @
              (if filled_list (getProp (NObj fs) ''supportedTrust'') then [] else [''trust''])
        in ((5 - int (length missing)) * 20, missing)
    | _ \<Rightarrow> (0, all_missing))"

record client_stats =
  cs_count :: nat
  cs_totalScore :: jsnum
  cs_lastFeedback :: string

definition add_client :: "feedback_key \<times> feedback_row \<Rightarrow> (string \<times> client_stats) list \<Rightarrow> (string \<times> client_stats) list" where
  "add_client kf m = (case kf of ((a, c, i), f) \<Rightarrow>
     if f_revoked f then m
     else let score = toDisplayScore (f_value f) (f_decimals f)
          in AList.update c (case map_of m c of
               Some e \<Rightarrow> \<lparr>cs_count = cs_count e + 1, cs_totalScore = num_add (cs_totalScore e) score,
                 cs_lastFeedback = (if cs_lastFeedback e < f_created_at f then f_created_at f else cs_lastFeedback e)\<rparr>
             | None \<Rightarrow> \<lparr>cs_count = 1, cs_totalScore = score, cs_lastFeedback = f_created_at f\<rparr>) m)"

definition client_map :: "(feedback_key \<times> feedback_row) list \<Rightarrow> (string \<times> client_stats) list" where
  "client_map rows = fold add_client rows []"

definition client_entry :: "string \<times> client_stats \<Rightarrow> client_row" where
  "client_entry = (\<lambda>(c, e). \<lparr>cb_client = c, cb_feedbackCount = cs_count e, cb_avgScore = div_by (cs_totalScore e) (of_nat (cs_count e)),
     cb_lastFeedback = cs_lastFeedback e\<rparr>)"

definition clientBreakdown :: "(feedback_key \<times> feedback_row) list \<Rightarrow> client_row list" where
  "clientBreakdown rows = take 20 (js_sort (\<lambda>a b. of_nat (cb_feedbackCount b) - of_nat (cb_feedbackCount a)) (map client_entry (client_map rows)))"

definition recent_count :: "int \<Rightarrow> (feedback_key \<times> feedback_row) list \<Rightarrow> nat" where
  "recent_count now rows = length (filter (\<lambda>(k, f). \<not> f_revoked f \<and> toISOString (now - 7 * 24 * 60 * 60 * 1000) \<le> f_created_at f) rows)"

definition show_reply :: "response_row \<Rightarrow> shown_reply" where
  "show_reply r = \<lparr>sr_responder = r_responder r, sr_responseUri = r_uri r, sr_createdAt = r_created_at r\<rparr>"

definition show_feedback :: "(rat \<Rightarrow> string) \<Rightarrow> (string \<times> response_row list) list \<Rightarrow> feedback_key \<times> feedback_row \<Rightarrow> shown_feedback" where
  "show_feedback fmt replies = (\<lambda>((a, c, i), f).
     \<lparr>sf_client = c, sf_score = toDisplayScore (f_value f) (f_decimals f), sf_tag1 = f_tag1 f, sf_tag2 = f_tag2 f, sf_uri = f_uri f,
      sf_hash = f_hash f, sf_revoked = f_revoked f, sf_createdAt = f_created_at f, sf_txHash = f_tx_hash f, sf_createdLedger = f_created_ledger f,
      sf_responses = map show_reply (case map_of replies (feedbackKey fmt a c i) of Some rs \<Rightarrow> rs | None \<Rightarrow> [])\<rparr>)"

definition show_validation :: "string \<times> validation_row \<Rightarrow> shown_validation" where
  "show_validation = (\<lambda>(h, v).
     \<lparr>sv_requestHash = h, sv_requestHashShort = (if 14 < length h then Cut (take 10 h) (drop (length h - 4) h) else Whole h),
      sv_validator = v_validator v, sv_response = v_response v, sv_hasResponse = v_has_response v, sv_requestUri = v_request_uri v,
      sv_responseUri = v_response_uri v, sv_responseHash = v_response_hash v, sv_requestTxHash = v_request_tx v,
      sv_responseTxHash = v_response_tx v, sv_tag = v_tag v, sv_createdAt = v_created_at v, sv_respondedAt = v_responded_at v\<rparr>)"

definition score_rank :: "api \<Rightarrow> db \<Rightarrow> int \<Rightarrow> nat" where
  "score_rank ap d i =
     length (filter (\<lambda>ir. s_total (leaderboard_scores (ap_avg ap) d i) < total_score ap d ir) (agents d)) + 1"

definition show_scores :: "api \<Rightarrow> db \<Rightarrow> int \<Rightarrow> shown_scores" where
  "show_scores ap d i = (let s = leaderboard_scores (ap_avg ap) d i in
     \<lparr>sh_total = s_total s, sh_avg = s_avg s, sh_feedbackCount = s_feedback_count s, sh_uniqueClients = s_unique_clients s,
      sh_rank = score_rank ap d i, sh_totalAgents = length (agents d)\<rparr>)"

definition feedback_of :: "db \<Rightarrow> int \<Rightarrow> string \<Rightarrow> (feedback_key \<times> feedback_row) list" where
  "feedback_of d aid tag = take 50 (newest_first (\<lambda>(k, f). f_created_at f)
     (filter (\<lambda>((a, c, i), f). a = aid \<and> (tag = [] \<or> f_tag1 f = Some tag)) (feedback d)))"

definition responses_of :: "db \<Rightarrow> int \<Rightarrow> response_row list" where
  "responses_of d aid = take 200 (newest_first r_created_at (filter (\<lambda>r. fst (r_key r) = aid) (responses d)))"

definition validations_of :: "db \<Rightarrow> int \<Rightarrow> (string \<times> validation_row) list" where
  "validations_of d aid = take 100 (newest_first (\<lambda>(h, v). v_created_at v) (filter (\<lambda>(h, v). v_agent v = aid) (validations d)))"

definition metadata_of :: "db \<Rightarrow> int \<Rightarrow> (string \<times> string option) list" where
  "metadata_of d aid = sort_key fst (map (\<lambda>((a, k), v). (k, v)) (filter (\<lambda>((a, k), v). a = aid) (agent_metadata d)))"

text \<open>The page of an agent that was just registered and is not indexed yet.\<close>

definition indexing_page :: "int \<Rightarrow> params \<Rightarrow> int \<Rightarrow> agent_page" where
  "indexing_page now ps i =
     \<lparr>ag_state = Indexing, ag_justRegistered = True, ag_txHash = tx_of ps, ag_uriResolveAttempts = 0, ag_tag = [], ag_id = i,
      ag_name = agent_label i, ag_description = None, ag_image = None, ag_owner = [], ag_wallet = None, ag_agentUri = None,
      ag_supportedTrust = [], ag_services = [], ag_createdAt = toISOString now, ag_updatedAt = toISOString now, ag_x402Enabled = False,
      ag_mppEnabled = False, ag_registrationData = None, ag_metadata = [], ag_feedback = [], ag_validations = [], ag_scores = None,
      ag_clientBreakdown = [], ag_metadataCompleteness = 0, ag_metadataMissing = all_missing, ag_recentFeedbackCount = 0\<rparr>"

definition agent_page_of :: "api \<Rightarrow> (rat \<Rightarrow> string) \<Rightarrow> (native \<Rightarrow> string) \<Rightarrow> params \<Rightarrow> db \<Rightarrow> int \<times> agent_row \<Rightarrow> agent_page" where
  "agent_page_of ap fmt pretty ps d = (\<lambda>(i, r).
     let tag = tag_of ps; feedbackRows = feedback_of d i tag; replies = responses_by_feedback fmt (responses_of d i);
         detail = metadataDetail (a_uri_data r)
     in \<lparr>ag_state = page_state_of r, ag_justRegistered = (param ps ''registered'' = Some ''true''), ag_txHash = tx_of ps,
         ag_uriResolveAttempts = a_attempts r, ag_tag = tag, ag_id = i, ag_name = or_label i (readUriField (a_uri_data r) ''name''),
         ag_description = readUriField (a_uri_data r) ''description'', ag_image = readUriField (a_uri_data r) ''image'',
         ag_owner = a_owner r, ag_wallet = a_wallet r, ag_agentUri = a_uri r, ag_supportedTrust = a_trust r,
         ag_services = page_services (a_services r), ag_createdAt = a_created_at r, ag_updatedAt = a_updated_at r,
         ag_x402Enabled = a_x402 r, ag_mppEnabled = a_mpp r,
         ag_registrationData = (case a_uri_data r of Some doc \<Rightarrow> if truthy doc then Some (pretty doc) else None | None \<Rightarrow> None),
         ag_metadata = metadata_of d i, ag_feedback = map (show_feedback fmt replies) feedbackRows,
         ag_validations = map show_validation (validations_of d i), ag_scores = Some (show_scores ap d i),
         ag_clientBreakdown = clientBreakdown feedbackRows, ag_metadataCompleteness = fst detail, ag_metadataMissing = snd detail,
         ag_recentFeedbackCount = recent_count (ap_now ap) feedbackRows\<rparr>)"

definition load_agent :: "api \<Rightarrow> (rat \<Rightarrow> string) \<Rightarrow> (native \<Rightarrow> string) \<Rightarrow> string \<Rightarrow> params \<Rightarrow> db option option \<Rightarrow> page_error + agent_page" where
  "load_agent ap fmt pretty idText ps env = (case agent_id_of idText of
      None \<Rightarrow> Inl (Http 400 ''Invalid agent ID'')
    | Some i \<Rightarrow> (case getDb env of
        Inl e \<Rightarrow> Inl (Failed e)
      | Inr d \<Rightarrow> (case map_of (agents d) i of
          Some r \<Rightarrow> Inr (agent_page_of ap fmt pretty ps d (i, r))
        | None \<Rightarrow> if param ps ''registered'' = Some ''true'' then Inr (indexing_page (ap_now ap) ps i)
            else Inl (Http 404 ''Agent not found''))))"

section \<open>The edit form\<close>

record edit_page =
  ed_id :: int
  ed_owner :: string
  ed_wallet :: "string option"
  ed_agentUri :: "string option"
  ed_name :: string
  ed_description :: "string option"
  ed_image :: "string option"
  ed_services :: "native list"
  ed_supportedTrust :: "native list"
  ed_x402Enabled :: bool
  ed_mppEnabled :: bool
  ed_rawUriData :: "(string \<times> native) list"

definition load_edit :: "string \<Rightarrow> db option option \<Rightarrow> page_error + edit_page" where
  "load_edit idText env = (case agent_id_of idText of
      None \<Rightarrow> Inl (Http 400 ''Invalid agent ID'')
    | Some i \<Rightarrow> (case getDb env of
        Inl e \<Rightarrow> Inl (Failed e)
      | Inr d \<Rightarrow> (case map_of (agents d) i of
          None \<Rightarrow> Inl (Http 404 ''Agent not found'')
        | Some r \<Rightarrow> Inr
            \<lparr>ed_id = i, ed_owner = a_owner r, ed_wallet = a_wallet r, ed_agentUri = a_uri r,
             ed_name = or_label i (readUriField (a_uri_data r) ''name''), ed_description = readUriField (a_uri_data r) ''description'',
             ed_image = readUriField (a_uri_data r) ''image'', ed_services = a_services r, ed_supportedTrust = a_trust r,
             ed_x402Enabled = a_x402 r, ed_mppEnabled = a_mpp r,
             ed_rawUriData = (case a_uri_data r of Some (NObj fs) \<Rightarrow> fs | _ \<Rightarrow> [])\<rparr>)))"

section \<open>The demonstration page\<close>

text \<open>A fixed page in the shape of an agent page; \<open>pretty\<close> is \<open>JSON.stringify\<close> with indentation. What the literal leaves out is absent here.\<close>

definition preview_owner :: string where
  "preview_owner = ''GDQP2KPQGKIHYJGXNUIYOMHARUARCA7DJT5FO2FFOOUJ3B3ILOUG5TM''"

definition preview_services :: "(native \<Rightarrow> string) \<Rightarrow> ServiceEntry list" where
  "preview_services pretty =
     [\<lparr>se_name = ''Web'', se_endpoint = ''https://weather-oracle.example.com/api/v1/forecast'', se_version = Some ''1.2.0'',
       se_description = Some ''Get weather forecast for a location'',
       se_inputExample = Some (pretty (NObj [(''lat'', NNum (double (410082 / 10000))), (''lng'', NNum (double (289784 / 10000))), (''days'', nint 3)]))\<rparr>,
      \<lparr>se_name = ''MCP'', se_endpoint = ''https://weather-oracle.example.com/mcp'', se_version = Some ''1.0.0'',
       se_description = Some ''Model Context Protocol endpoint'', se_inputExample = None\<rparr>]"

definition preview_document :: native where
  "preview_document = NObj
     [(''name'', NStr ''WeatherOracle''), (''description'', NStr ''Real-time weather data API''), (''image'', NNull),
      (''services'', NArr [NObj [(''name'', NStr ''Web''), (''endpoint'', NStr ''https://weather-oracle.example.com/api/v1/forecast''),
         (''version'', NStr ''1.2.0'')]]),
      (''supportedTrust'', NArr [NStr ''uptime'', NStr ''reachable'', NStr ''successRate'']), (''x402Enabled'', NBool True)]"

definition preview_entry :: "string \<Rightarrow> rat \<Rightarrow> string \<Rightarrow> string option \<Rightarrow> string \<Rightarrow> shown_feedback" where
  "preview_entry client score tag1 tag2 created =
     \<lparr>sf_client = client, sf_score = JFin score, sf_tag1 = Some tag1, sf_tag2 = tag2, sf_uri = None, sf_hash = None, sf_revoked = False,
      sf_createdAt = created, sf_txHash = None, sf_createdLedger = None, sf_responses = []\<rparr>"

definition preview_clients :: "string list" where
  "preview_clients = [''GBXGQJWVLWOYHFLVTKWV5FGHA3LNYY2JQKM7OAVOQZS3CORNESXNDEV'', ''GCFXHS4GXL6BVUCXBWXGTITROWLVYXQKQLF4YH5O5E3SMOUSE3LSMR3T'',
     ''GA5ZSEJYB37JRC5AVCIA5MOP4RHTM335X2KGX3IHOJAPP5RE34K4KZVN'']"

definition preview_feedback :: "shown_feedback list" where
  "preview_feedback =
     [preview_entry (preview_clients ! 0) 88 ''uptime'' (Some ''reachable'') ''2026-04-12T08:15:00Z'',
      (preview_entry (preview_clients ! 1) 92 ''successRate'' None ''2026-04-10T16:42:00Z'')
        \<lparr>sf_uri := Some ''https://evidence.example.com/report-42'', sf_hash := Some ''a1b2c3d4e5f6'',
         sf_responses := [\<lparr>sr_responder = preview_owner, sr_responseUri = None, sr_createdAt = ''2026-04-10T17:00:00Z''\<rparr>]\<rparr>,
      preview_entry (preview_clients ! 2) 75 ''responseTime'' None ''2026-04-08T11:30:00Z'',
      preview_entry (preview_clients ! 0) 90 ''starred'' None ''2026-04-05T09:00:00Z'']"

definition preview_breakdown :: "client_row list" where
  "preview_breakdown =
     [\<lparr>cb_client = preview_clients ! 0, cb_feedbackCount = 2, cb_avgScore = JFin 89, cb_lastFeedback = ''2026-04-12T08:15:00Z''\<rparr>,
      \<lparr>cb_client = preview_clients ! 1, cb_feedbackCount = 1, cb_avgScore = JFin 92, cb_lastFeedback = ''2026-04-10T16:42:00Z''\<rparr>,
      \<lparr>cb_client = preview_clients ! 2, cb_feedbackCount = 1, cb_avgScore = JFin 75, cb_lastFeedback = ''2026-04-08T11:30:00Z''\<rparr>]"

definition load_preview :: "(native \<Rightarrow> string) \<Rightarrow> agent_page" where
  "load_preview pretty =
     \<lparr>ag_state = Ready, ag_justRegistered = False, ag_txHash = None, ag_uriResolveAttempts = 0, ag_tag = [], ag_id = 42, ag_name = ''WeatherOracle'',
      ag_description = Some (''Real-time weather data API powered by satellite feeds. Returns current conditions, 7-day forecasts, '' @
        ''and severe weather alerts for any coordinate pair. Pay per request via x402.''),
      ag_image = None, ag_owner = preview_owner, ag_wallet = Some preview_owner,
      ag_agentUri = Some ''https://weather-oracle.example.com/.well-known/8004.json'',
      ag_supportedTrust = [NStr ''uptime'', NStr ''reachable'', NStr ''successRate''], ag_services = preview_services pretty,
      ag_createdAt = ''2026-03-15T10:30:00Z'', ag_updatedAt = ''2026-04-10T14:22:00Z'', ag_x402Enabled = True, ag_mppEnabled = False,
      ag_registrationData = Some (pretty preview_document),
      ag_metadata = [(''region'', Some ''global''), (''data_source'', Some ''NOAA + Copernicus''), (''update_frequency'', Some ''15min'')],
      ag_feedback = preview_feedback, ag_validations = [],
      ag_scores = Some \<lparr>sh_total = 862 / 10, sh_avg = 862 / 10, sh_feedbackCount = 4, sh_uniqueClients = 3, sh_rank = 7, sh_totalAgents = 128\<rparr>,
      ag_clientBreakdown = preview_breakdown, ag_metadataCompleteness = 80, ag_metadataMissing = [''image''], ag_recentFeedbackCount = 2\<rparr>"

section \<open>Lemmas\<close>

subsection \<open>Keys and replies\<close>

lemma number_text_safe: "\<bar>i\<bar> \<le> max_safe \<Longrightarrow> number_text fmt i = show_int i"
  by (simp add: number_text_def Number_of_bigint_safe isSafeInteger_def)

lemma show_int_colon: "CHR '':'' \<notin> set (show_int i)"
proof -
  have "\<not> is_digit (CHR '':'')" by (simp add: is_digit_def code_of_def)
  then show ?thesis using show_nat_digits by (auto simp: show_int_def)
qed

lemma split_first_inject: "x @ c # a = y @ c # b \<Longrightarrow> c \<notin> set x \<Longrightarrow> c \<notin> set y \<Longrightarrow> x = y \<and> a = b"
proof (induction x arbitrary: y)
  case Nil
  then show ?case by (cases y) auto
next
  case (Cons z x)
  then show ?case by (cases y) auto
qed

text \<open>The last colon of a key separates the index, whatever the client is.\<close>

lemma last_colon_inject: "a @ CHR '':'' # x = b @ CHR '':'' # y \<Longrightarrow> CHR '':'' \<notin> set x \<Longrightarrow> CHR '':'' \<notin> set y \<Longrightarrow> a = b \<and> x = y"
proof -
  assume eq: "a @ CHR '':'' # x = b @ CHR '':'' # y" and free: "CHR '':'' \<notin> set x" "CHR '':'' \<notin> set y"
  from arg_cong [OF eq, of rev] have "rev x @ CHR '':'' # rev a = rev y @ CHR '':'' # rev b" by simp
  with split_first_inject [of "rev x" "CHR '':''" "rev a" "rev y" "rev b"] free show ?thesis by simp
qed

lemma feedbackKey_inject:
  assumes "\<bar>i\<bar> \<le> max_safe" "\<bar>j\<bar> \<le> max_safe"
  shows "feedbackKey fmt a c i = feedbackKey fmt a c' j \<longleftrightarrow> c = c' \<and> i = j"
proof
  assume eq: "feedbackKey fmt a c i = feedbackKey fmt a c' j"
  have "number_text fmt a @ '':'' @ c = number_text fmt a @ '':'' @ c' \<and> show_int i = show_int j"
    by (rule last_colon_inject) (use eq show_int_colon in \<open>auto simp: feedbackKey_def number_text_safe [OF assms(1)] number_text_safe [OF assms(2)]\<close>)
  then show "c = c' \<and> i = j" by (simp add: show_int_inject)
qed simp

definition row_key :: "(rat \<Rightarrow> string) \<Rightarrow> feedback_key \<Rightarrow> string" where
  "row_key fmt = (\<lambda>(a, c, i). feedbackKey fmt a c i)"

lemma grouped_replies:
  "map_of (responses_by_feedback fmt rs) key =
     (let mine = filter (\<lambda>r. row_key fmt (r_key r) = key) rs in if mine = [] then None else Some mine)"
proof (induction rs rule: rev_induct)
  case (snoc r rs)
  then show ?case
    by (auto simp: responses_by_feedback_def add_response_def row_key_def Let_def update_conv' split: prod.splits if_splits)
qed (simp add: responses_by_feedback_def)

lemma replies_of:
  "(case map_of (responses_by_feedback fmt rs) key of Some xs \<Rightarrow> xs | None \<Rightarrow> []) = filter (\<lambda>r. row_key fmt (r_key r) = key) rs"
  by (simp add: grouped_replies Let_def)

definition safe_indexes :: "db \<Rightarrow> bool" where
  "safe_indexes d \<longleftrightarrow> list_all (\<lambda>(k, f). \<bar>snd (snd k)\<bar> \<le> max_safe) (feedback d) \<and> list_all (\<lambda>r. \<bar>snd (snd (r_key r))\<bar> \<le> max_safe) (responses d)"

lemma feedback_of_rows: "(k, f) \<in> set (feedback_of d aid tag) \<Longrightarrow> (k, f) \<in> set (feedback d) \<and> fst k = aid"
  by (auto simp: feedback_of_def newest_first_def dest!: in_set_takeD)

lemma responses_of_rows: "r \<in> set (responses_of d aid) \<Longrightarrow> r \<in> set (responses d) \<and> fst (r_key r) = aid"
  by (auto simp: responses_of_def newest_first_def dest!: in_set_takeD)

lemma shown_replies:
  assumes "safe_indexes d" "(k, f) \<in> set (feedback_of d aid tag)"
  shows "sf_responses (show_feedback fmt (responses_by_feedback fmt (responses_of d aid)) (k, f)) =
    map show_reply (filter (\<lambda>r. r_key r = k) (responses_of d aid))"
proof -
  obtain c i where k: "k = (aid, c, i)" using feedback_of_rows [OF assms(2)] by (cases k) auto
  have i: "\<bar>i\<bar> \<le> max_safe" using assms(1) feedback_of_rows [OF assms(2)] k by (force simp: safe_indexes_def list_all_iff)
  have same: "row_key fmt (r_key r) = feedbackKey fmt aid c i \<longleftrightarrow> r_key r = k" if r: "r \<in> set (responses_of d aid)" for r
  proof -
    obtain c' j where key: "r_key r = (aid, c', j)" using responses_of_rows [OF r] by (cases "r_key r") auto
    have "\<forall>r \<in> set (responses d). \<bar>snd (snd (r_key r))\<bar> \<le> max_safe" using assms(1) by (simp add: safe_indexes_def list_all_iff)
    with responses_of_rows [OF r] have "\<bar>snd (snd (r_key r))\<bar> \<le> max_safe" by blast
    then have "\<bar>j\<bar> \<le> max_safe" by (simp add: key)
    then show ?thesis using feedbackKey_inject [OF _ i] by (auto simp: row_key_def key k)
  qed
  then have "filter (\<lambda>r. row_key fmt (r_key r) = feedbackKey fmt aid c i) (responses_of d aid) = filter (\<lambda>r. r_key r = k) (responses_of d aid)"
    by (rule filter_cong [OF refl])
  then show ?thesis by (simp add: show_feedback_def k replies_of)
qed

subsection \<open>Clients\<close>

definition counted_for :: "string \<Rightarrow> (feedback_key \<times> feedback_row) list \<Rightarrow> (feedback_key \<times> feedback_row) list" where
  "counted_for c rows = filter (\<lambda>(k, f). fst (snd k) = c \<and> \<not> f_revoked f) rows"

definition row_score :: "feedback_key \<times> feedback_row \<Rightarrow> jsnum" where
  "row_score kf = toDisplayScore (f_value (snd kf)) (f_decimals (snd kf))"

definition stats_of :: "(feedback_key \<times> feedback_row) list \<Rightarrow> client_stats option" where
  "stats_of mine = (if mine = [] then None else Some
     \<lparr>cs_count = length mine, cs_totalScore = foldl num_add (row_score (hd mine)) (map row_score (tl mine)),
      cs_lastFeedback = Max (set (map (\<lambda>kf. f_created_at (snd kf)) mine))\<rparr>)"

lemma stats_of_snoc:
  "stats_of (mine @ [((a, c, i), f)]) = Some (case stats_of mine of
      Some e \<Rightarrow> \<lparr>cs_count = cs_count e + 1, cs_totalScore = num_add (cs_totalScore e) (toDisplayScore (f_value f) (f_decimals f)),
        cs_lastFeedback = (if cs_lastFeedback e < f_created_at f then f_created_at f else cs_lastFeedback e)\<rparr>
    | None \<Rightarrow> \<lparr>cs_count = 1, cs_totalScore = toDisplayScore (f_value f) (f_decimals f), cs_lastFeedback = f_created_at f\<rparr>)"
proof (cases "mine = []")
  case False
  then have "Max (insert (f_created_at f) ((\<lambda>kf. f_created_at (snd kf)) ` set mine)) =
      max (f_created_at f) (Max ((\<lambda>kf. f_created_at (snd kf)) ` set mine))" by (intro Max_insert) auto
  with False show ?thesis by (auto simp: stats_of_def row_score_def max_def not_le simp del: Max_less_iff Max_le_iff)
qed (simp add: stats_of_def row_score_def)

lemma client_map_stats: "map_of (client_map rows) c = stats_of (counted_for c rows)"
proof (induction rows rule: rev_induct)
  case (snoc kf rows)
  obtain a c' i f where kf: "kf = ((a, c', i), f)" by (metis prod.collapse)
  show ?case
  proof (cases "f_revoked f \<or> c' \<noteq> c")
    case True
    then have "counted_for c (rows @ [kf]) = counted_for c rows" by (auto simp: counted_for_def kf)
    moreover have "map_of (client_map (rows @ [kf])) c = map_of (client_map rows) c"
      using True by (auto simp: client_map_def add_client_def kf Let_def update_conv')
    ultimately show ?thesis using snoc by simp
  next
    case False
    then have "counted_for c (rows @ [kf]) = counted_for c rows @ [((a, c, i), f)]" by (simp add: counted_for_def kf)
    moreover have "client_map (rows @ [kf]) = add_client kf (client_map rows)" by (simp add: client_map_def)
    ultimately show ?thesis using False snoc by (simp add: stats_of_snoc add_client_def kf Let_def update_conv')
  qed
qed (simp add: client_map_def counted_for_def stats_of_def)

lemma client_map_distinct: "distinct (map fst (client_map rows))"
proof (induction rows rule: rev_induct)
  case (snoc kf rows)
  moreover have "client_map (rows @ [kf]) = add_client kf (client_map rows)" by (simp add: client_map_def)
  ultimately show ?case by (auto simp: add_client_def Let_def distinct_update split: prod.split)
qed (simp add: client_map_def)

lemma insert_by_sorted:
  "sorted_wrt (\<lambda>a b. key a \<le> key b) ys \<Longrightarrow> sorted_wrt (\<lambda>a b. key a \<le> key b) (insert_by (\<lambda>a b. key a - key b) x ys)"
proof (induction ys)
  case (Cons y ys)
  have elements: "set (insert_by (\<lambda>a b. key a - key b) x ys) = insert x (set ys)"
    by (metis mset_insert_by set_mset_add_mset_insert set_mset_mset)
  show ?case using Cons by (auto simp: elements)
qed simp

lemma js_sort_sorted: "sorted_wrt (\<lambda>a b. key a \<le> key b) (js_sort (\<lambda>a b. key a - key b) xs)"
  unfolding js_sort_def by (induction xs) (simp_all add: insert_by_sorted)

definition by_count :: "client_row list \<Rightarrow> client_row list" where
  "by_count rows = js_sort (\<lambda>a b. of_nat (cb_feedbackCount b) - of_nat (cb_feedbackCount a)) rows"

lemma by_count_sorted: "sorted_wrt (\<lambda>a b. cb_feedbackCount b \<le> cb_feedbackCount a) (by_count rows)"
proof -
  have "by_count rows = js_sort (\<lambda>a b. (- of_nat (cb_feedbackCount a)) - (- of_nat (cb_feedbackCount b))) rows"
    by (simp add: by_count_def)
  then show ?thesis using js_sort_sorted [of "\<lambda>a. - of_nat (cb_feedbackCount a)" rows] by simp
qed

lemma clientBreakdown_take: "clientBreakdown rows = take 20 (by_count (map client_entry (client_map rows)))"
  by (simp add: clientBreakdown_def by_count_def)

lemma client_rows:
  "e \<in> set (by_count (map client_entry (client_map rows))) \<longleftrightarrow>
     (\<exists>st. stats_of (counted_for (cb_client e) rows) = Some st \<and> e = client_entry (cb_client e, st))"
proof -
  have "set (by_count (map client_entry (client_map rows))) = client_entry ` set (client_map rows)"
    by (metis by_count_def mset_js_sort set_mset_mset set_map)
  moreover have "(c, st) \<in> set (client_map rows) \<longleftrightarrow> stats_of (counted_for c rows) = Some st" for c st
    using client_map_stats [of rows c] client_map_distinct [of rows] by (metis map_of_eq_Some_iff)
  moreover have "cb_client (client_entry (c, st)) = c" for c st by (simp add: client_entry_def)
  ultimately show ?thesis by (force simp: image_iff)
qed

text \<open>The table has each client once, with what is shown of it, and no client outside it has more feedback than one inside.\<close>

lemma clientBreakdown_spec:
  shows "length (clientBreakdown rows) \<le> 20"
    and "e \<in> set (clientBreakdown rows) \<Longrightarrow> counted_for (cb_client e) rows \<noteq> [] \<and>
      cb_feedbackCount e = length (counted_for (cb_client e) rows) \<and>
      cb_lastFeedback e = Max (set (map (\<lambda>kf. f_created_at (snd kf)) (counted_for (cb_client e) rows)))"
    and "e \<in> set (clientBreakdown rows) \<Longrightarrow> c \<notin> cb_client ` set (clientBreakdown rows) \<Longrightarrow>
      length (counted_for c rows) \<le> cb_feedbackCount e"
proof -
  let ?all = "by_count (map client_entry (client_map rows))"
  show "length (clientBreakdown rows) \<le> 20" by (simp add: clientBreakdown_take)
  have in_all: "e \<in> set ?all" if "e \<in> set (clientBreakdown rows)" for e using that by (auto simp: clientBreakdown_take dest: in_set_takeD)
  show "counted_for (cb_client e) rows \<noteq> [] \<and> cb_feedbackCount e = length (counted_for (cb_client e) rows) \<and>
      cb_lastFeedback e = Max (set (map (\<lambda>kf. f_created_at (snd kf)) (counted_for (cb_client e) rows)))"
    if e: "e \<in> set (clientBreakdown rows)"
  proof -
    from in_all [OF e] obtain st where st: "stats_of (counted_for (cb_client e) rows) = Some st" "e = client_entry (cb_client e, st)"
      by (auto simp: client_rows)
    have fields: "cb_feedbackCount e = cs_count st" "cb_lastFeedback e = cs_lastFeedback st"
      using arg_cong [OF st(2), of cb_feedbackCount] arg_cong [OF st(2), of cb_lastFeedback] by (simp_all add: client_entry_def)
    from st(1) fields show ?thesis by (auto simp: stats_of_def split: if_splits)
  qed
  show "length (counted_for c rows) \<le> cb_feedbackCount e"
    if e: "e \<in> set (clientBreakdown rows)" and c: "c \<notin> cb_client ` set (clientBreakdown rows)"
  proof (cases "counted_for c rows = []")
    case False
    then obtain st where st: "stats_of (counted_for c rows) = Some st" "cs_count st = length (counted_for c rows)" by (auto simp: stats_of_def)
    define other where "other = client_entry (c, st)"
    have other: "cb_client other = c" "cb_feedbackCount other = length (counted_for c rows)" using st(2) by (simp_all add: other_def client_entry_def)
    with st have "other \<in> set ?all" by (auto simp: client_rows other_def)
    moreover have "other \<notin> set (take 20 ?all)" using c other(1) by (auto simp: clientBreakdown_take)
    ultimately have "other \<in> set (drop 20 ?all)" by (metis append_take_drop_id in_set_conv_decomp Un_iff set_append)
    moreover have "e \<in> set (take 20 ?all)" using e by (simp add: clientBreakdown_take)
    moreover have "sorted_wrt (\<lambda>a b. cb_feedbackCount b \<le> cb_feedbackCount a) (take 20 ?all @ drop 20 ?all)"
      using by_count_sorted by simp
    ultimately have "cb_feedbackCount other \<le> cb_feedbackCount e" unfolding sorted_wrt_append by blast
    then show ?thesis using other(2) by simp
  qed simp
qed

section \<open>Properties\<close>

text \<open>The page of an agent puts things where they belong: unless the agent is not indexed yet, the replies under each of the feedback
  entries it shows are exactly the newest 200 replies to the agent that answer that very entry, newest first; and its table of clients has
  each client with the number and the last date of its unrevoked entries on the page, at most 20 clients, leaving out only clients with no
  more entries than the listed ones. The hypothesis is that feedback indexes are integers a double holds.\<close>

theorem agent_page_feedback:
  assumes "load_agent ap fmt pretty idText ps (Some (Some d)) = Inr pg" and "ag_state pg \<noteq> Indexing" and "safe_indexes d"
  shows "map sf_responses (ag_feedback pg) =
      map (\<lambda>(k, f). map show_reply (filter (\<lambda>r. r_key r = k) (responses_of d (ag_id pg)))) (feedback_of d (ag_id pg) (ag_tag pg)) \<and>
    length (ag_clientBreakdown pg) \<le> 20 \<and>
    (\<forall>e \<in> set (ag_clientBreakdown pg).
       let mine = counted_for (cb_client e) (feedback_of d (ag_id pg) (ag_tag pg))
       in mine \<noteq> [] \<and> cb_feedbackCount e = length mine \<and> cb_lastFeedback e = Max (set (map (\<lambda>kf. f_created_at (snd kf)) mine)) \<and>
          (\<forall>c. c \<notin> cb_client ` set (ag_clientBreakdown pg) \<longrightarrow>
             length (counted_for c (feedback_of d (ag_id pg) (ag_tag pg))) \<le> cb_feedbackCount e))"
proof -
  from assms(1,2) obtain i r where pg: "pg = agent_page_of ap fmt pretty ps d (i, r)"
    by (auto simp: load_agent_def getDb_def indexing_page_def split: option.splits if_splits)
  define rows where "rows = feedback_of d i (tag_of ps)"
  have fields: "ag_id pg = i" "ag_tag pg = tag_of ps" "ag_clientBreakdown pg = clientBreakdown rows"
    "ag_feedback pg = map (show_feedback fmt (responses_by_feedback fmt (responses_of d i))) rows"
    by (simp_all add: pg agent_page_of_def Let_def rows_def)
  have "map sf_responses (ag_feedback pg) = map (\<lambda>(k, f). map show_reply (filter (\<lambda>r. r_key r = k) (responses_of d i))) rows"
    unfolding fields map_map by (rule map_cong [OF refl]) (auto simp: rows_def shown_replies [OF assms(3)])
  moreover note clientBreakdown_spec [where rows = rows]
  ultimately show ?thesis unfolding fields rows_def [symmetric] Let_def by blast
qed

definition replied_board :: db where
  "replied_board = sample_board\<lparr>responses := [\<lparr>r_key = (1, ''A'', 2), r_index = 0, r_responder = ''R'', r_uri = None, r_hash = None,
     r_created_at = [], r_tx_hash = None, r_event_id = None\<rparr>]\<rparr>"

theorem agent_page_feedback_witness:
  "\<exists>pg. load_agent sample_api (\<lambda>_. []) (\<lambda>_. []) ''1'' [] (Some (Some replied_board)) = Inr pg \<and>
     map sf_responses (ag_feedback pg) = [[], [\<lparr>sr_responder = ''R'', sr_responseUri = None, sr_createdAt = []\<rparr>], []]"
proof -
  let ?row = "new_agent ''O'' ''u'' False [] 0 [] []"
  define pg where "pg = agent_page_of sample_api (\<lambda>_. []) (\<lambda>_. []) [] replied_board (1, ?row)"
  have one: "show_nat 1 = ''1''" by code_simp
  have "agent_id_of ''1'' = Some 1" using number_of_show_nat [of 1, unfolded one] by (simp add: agent_id_of_def isInteger_def)
  then have load: "load_agent sample_api (\<lambda>_. []) (\<lambda>_. []) ''1'' [] (Some (Some replied_board)) = Inr pg"
    by (simp add: load_agent_def getDb_def replied_board_def sample_board_def pg_def)
  have id: "ag_id pg = 1" "ag_tag pg = []" by (simp_all add: pg_def agent_page_of_def Let_def tag_of_def text_param_def param_def VALID_TAGS_def)
  have "ag_state pg \<noteq> Indexing" by (simp add: pg_def agent_page_of_def page_state_of_def Let_def)
  moreover have "safe_indexes replied_board" by (simp add: safe_indexes_def replied_board_def sample_board_def max_safe_def)
  ultimately have shown: "map sf_responses (ag_feedback pg) = map (\<lambda>(k, f). map show_reply (filter (\<lambda>r. r_key r = k) (responses_of replied_board 1)))
      (feedback_of replied_board 1 [])"
    using agent_page_feedback [OF load] unfolding id by blast
  have rows: "responses_of replied_board 1 = responses replied_board" "feedback_of replied_board 1 [] = rev (feedback replied_board)"
    by (simp_all add: responses_of_def feedback_of_def newest_first_def replied_board_def sample_board_def sample_feedback_def)
  have "map sf_responses (ag_feedback pg) = [[], [\<lparr>sr_responder = ''R'', sr_responseUri = None, sr_createdAt = []\<rparr>], []]"
    unfolding shown rows by (simp add: replied_board_def sample_board_def show_reply_def)
  with load show ?thesis by (intro exI [of _ pg] conjI)
qed

text \<open>The completeness of a document is what is not missing.\<close>

lemma metadata_complete: "metadataDetail v = (s, missing) \<Longrightarrow> s = 20 * (5 - int (length missing)) \<and> distinct missing \<and> set missing \<subseteq> set all_missing"
  by (auto simp: metadataDetail_def all_missing_def Let_def split: option.splits native.splits if_splits)

text \<open>The page and the API agree on the state of a document, but for a URI whose tries are exhausted.\<close>

lemma page_state_status:
  "resolve_status r = (case page_state_of r of Ready \<Rightarrow> ''ready'' | No_Uri \<Rightarrow> ''no-uri'' | _ \<Rightarrow> ''resolving'')"
  by (auto simp: resolve_status_def page_state_of_def)

text \<open>The demonstration page is one the loader could have produced: its completeness is that of its document, and its table of clients is the
  one the loader makes of its feedback.\<close>

definition preview_rows :: "(feedback_key \<times> feedback_row) list" where
  "preview_rows = map (\<lambda>(x, v). ((42, sf_client x, 0), (sample_feedback v 0)\<lparr>f_created_at := sf_createdAt x\<rparr>))
     (zip preview_feedback [''88'', ''92'', ''75'', ''90''])"

lemma display_integer: "v = show_nat n \<Longrightarrow> n < 2 ^ 53 \<Longrightarrow> toDisplayScore v 0 = JFin (of_nat n)"
  by (simp add: toDisplayScore_def number_of_show_nat double_nat)

lemma preview_scores:
  "toDisplayScore ''88'' 0 = JFin 88" "toDisplayScore ''92'' 0 = JFin 92" "toDisplayScore ''75'' 0 = JFin 75" "toDisplayScore ''90'' 0 = JFin 90"
proof -
  have texts: "''88'' = show_nat 88" "''92'' = show_nat 92" "''75'' = show_nat 75" "''90'' = show_nat 90" by code_simp+
  show "toDisplayScore ''88'' 0 = JFin 88" "toDisplayScore ''92'' 0 = JFin 92" "toDisplayScore ''75'' 0 = JFin 75" "toDisplayScore ''90'' 0 = JFin 90"
    using display_integer [OF texts(1)] display_integer [OF texts(2)] display_integer [OF texts(3)] display_integer [OF texts(4)] by simp_all
qed

lemma preview_page_consistent:
  "metadataDetail (Some preview_document) = (ag_metadataCompleteness (load_preview pretty), ag_metadataMissing (load_preview pretty))"
  "clientBreakdown preview_rows = ag_clientBreakdown (load_preview pretty)"
proof -
  show "metadataDetail (Some preview_document) = (ag_metadataCompleteness (load_preview pretty), ag_metadataMissing (load_preview pretty))"
    by (simp add: metadataDetail_def preview_document_def load_preview_def filled_text_def filled_list_def getProp_def)
  have doubles: "double 178 = JFin 178" "double 89 = JFin 89" "double 92 = JFin 92" "double 75 = JFin 75"
    using double_nat [of 178] double_nat [of 89] double_nat [of 92] double_nat [of 75] by simp_all
  show "clientBreakdown preview_rows = ag_clientBreakdown (load_preview pretty)"
    by (simp add: clientBreakdown_def client_map_def preview_rows_def preview_feedback_def preview_entry_def preview_clients_def
        add_client_def preview_scores sample_feedback_def client_entry_def js_sort_def load_preview_def preview_breakdown_def doubles less_list_code Let_def)
qed

end
