(* ===== verification/Web_Shell.thy ===== *)
theory Web_Shell
  imports Web_Lists Sdk_Metadata
begin

text \<open>
  What surrounds the pages of the web application: the layout loader with the state of the indexer (\<open>routes/+layout.server.ts\<close>), the
  headers of every response (\<open>hooks.server.ts\<close>), the helpers of the pages (\<open>lib/formatters.ts\<close>, \<open>lib/explorer.ts\<close>) and the bytes of
  \<open>data:\<close> URIs (\<open>lib/data-uri.ts\<close>).

  The lemmas show that the layout and the health endpoint agree, that every response carries the security headers, that an image with
  another scheme is never shown, and that the bytes of a data URI of the SDK are those of its document.
\<close>

section \<open>The layout\<close>

definition STALE_THRESHOLD_MS :: int where
  "STALE_THRESHOLD_MS = 5 * 60 * 1000"

text \<open>The outcome of the race between the query and the timeout.\<close>

datatype query_outcome = Rows "state_row list" | Query_Failed | Timed_Out

record indexer_status =
  is_syncedLedger :: int
  is_lastAdvancedAt :: "string option"
  is_stale :: bool

definition row_time :: "api \<Rightarrow> state_row \<Rightarrow> int option" where
  "row_time ap r = ap_time ap (case s_advanced_at r of Some t \<Rightarrow> if t = [] then s_updated_at r else t | None \<Rightarrow> s_updated_at r)"

definition track_row :: "api \<Rightarrow> state_row \<Rightarrow> int \<times> int option \<Rightarrow> int \<times> int option" where
  "track_row ap r = (\<lambda>(synced, laggard).
     (if synced < s_last r then s_last r else synced,
      case row_time ap r of
        None \<Rightarrow> laggard
      | Some ts \<Rightarrow> (case laggard of None \<Rightarrow> Some ts | Some l \<Rightarrow> if ts < l then Some ts else Some l)))"

definition load_layout :: "api \<Rightarrow> string + query_outcome \<Rightarrow> indexer_status option" where
  "load_layout ap outcome = (case outcome of
      Inr (Rows rows) \<Rightarrow>
        if rows = [] then None
        else let (syncedLedger, lastAdvancedAt) = fold (track_row ap) rows (0, None)
             in Some \<lparr>is_syncedLedger = syncedLedger, is_lastAdvancedAt = map_option toISOString lastAdvancedAt,
                  is_stale = (case lastAdvancedAt of None \<Rightarrow> True | Some t \<Rightarrow> STALE_THRESHOLD_MS < ap_now ap - t)\<rparr>
    | _ \<Rightarrow> None)"

section \<open>Headers\<close>

type_synonym headers = "(string \<times> string) list"

definition SECURITY_HEADERS :: headers where
  "SECURITY_HEADERS =
     [(''Strict-Transport-Security'', ''max-age=31536000; includeSubDomains''), (''X-Content-Type-Options'', ''nosniff''),
      (''Referrer-Policy'', ''strict-origin-when-cross-origin''),
      (''Permissions-Policy'', ''camera=(), microphone=(), geolocation=(), payment=()'')]"

text \<open>\<open>Headers\<close> compares names without case; the names are kept in lower case.\<close>

definition header_set :: "string \<Rightarrow> string \<Rightarrow> headers \<Rightarrow> headers" where
  "header_set name v hs = AList.update (toLowerCase name) v hs"

definition header_get :: "headers \<Rightarrow> string \<Rightarrow> string option" where
  "header_get hs name = map_of hs (toLowerCase name)"

definition set_missing :: "string \<times> string \<Rightarrow> headers \<Rightarrow> headers" where
  "set_missing = (\<lambda>(name, v) hs. if header_get hs name = None then header_set name v hs else hs)"

record page_response =
  pr_status :: int
  pr_headers :: headers
  pr_body :: string

record build_tag =
  bt_id :: string
  bt_tag :: string

definition skill_response :: "string \<Rightarrow> page_response" where
  "skill_response skill = \<lparr>pr_status = 200, pr_headers = [(''content-type'', ''text/markdown; charset=utf-8''),
     (''cache-control'', ''public, max-age=300'')], pr_body = skill\<rparr>"

definition handle_request :: "string \<Rightarrow> string \<Rightarrow> build_tag option \<Rightarrow> (string \<Rightarrow> string + page_response) \<Rightarrow> string + page_response" where
  "handle_request skill pathname build resolve_page =
     sbind (if pathname = ''/skill.md'' then Inr (skill_response skill) else resolve_page pathname) (\<lambda>response.
       let tagged = (case build of None \<Rightarrow> pr_headers response
             | Some b \<Rightarrow> header_set ''X-Build'' (if bt_tag b = [] then bt_id b else bt_tag b) (pr_headers response))
       in Inr (response\<lparr>pr_headers := fold set_missing SECURITY_HEADERS tagged\<rparr>))"

section \<open>Helpers of the pages\<close>

definition SAFE_IMAGE_SCHEMES :: "string list" where
  "SAFE_IMAGE_SCHEMES = [''https://'', ''ipfs://'', ''data:image/'']"

definition sanitizeImageUrl :: "string option \<Rightarrow> string" where
  "sanitizeImageUrl url = (case url of
      None \<Rightarrow> []
    | Some u \<Rightarrow> (let lower = toLowerCase (Js_Numbers.trim u)
        in if \<exists>s \<in> set SAFE_IMAGE_SCHEMES. startsWith lower s then u else []))"

definition shortAddress :: "string \<Rightarrow> string" where
  "shortAddress v = take 6 v @ ''...'' @ drop (length v - 4) v"

datatype trust_level = Trust_None | Trust_Low | Trust_Mid | Trust_High

definition trustBlocks :: "rat option \<Rightarrow> int \<times> trust_level" where
  "trustBlocks score = (case score of
      None \<Rightarrow> (0, Trust_None)
    | Some s \<Rightarrow> if s = 0 then (0, Trust_None)
        else (min 5 \<lceil>s / 20\<rceil>, if 70 \<le> s then Trust_High else if 40 \<le> s then Trust_Mid else Trust_Low))"

definition TRUST_DESCRIPTIONS :: "(string \<times> string) list" where
  "TRUST_DESCRIPTIONS = [(''reputation'', ''Validated by peer feedback''), (''crypto-economic'', ''Validated by staked collateral''),
     (''tee-attestation'', ''Validated by hardware attestation'')]"

definition explorer_segment :: "string option \<Rightarrow> string" where
  "explorer_segment network = (if network = Some ''mainnet'' then ''public'' else ''testnet'')"

definition explorerTxUrl :: "string option \<Rightarrow> string \<Rightarrow> string" where
  "explorerTxUrl network h = ''https://stellar.expert/explorer/'' @ explorer_segment network @ ''/tx/'' @ h"

definition explorerContractUrl :: "string option \<Rightarrow> string \<Rightarrow> string" where
  "explorerContractUrl network i = ''https://stellar.expert/explorer/'' @ explorer_segment network @ ''/contract/'' @ i"

definition explorerAccountUrl :: "string option \<Rightarrow> string \<Rightarrow> string" where
  "explorerAccountUrl network address = ''https://stellar.expert/explorer/'' @ explorer_segment network @ ''/account/'' @ address"

definition explorerLedgerUrl :: "string option \<Rightarrow> int \<Rightarrow> string" where
  "explorerLedgerUrl network i = ''https://stellar.expert/explorer/'' @ explorer_segment network @ ''/ledger/'' @ show_int i"

section \<open>Bytes of data URIs\<close>

definition MAX_BYTES :: nat where
  "MAX_BYTES = 1048576"

text \<open>\<open>decode\<close> is \<open>decodeURIComponent\<close> followed by the UTF-8 encoder; \<open>None\<close> is a thrown error.\<close>

definition dataUriBytes :: "(string \<Rightarrow> 8 word list option) \<Rightarrow> string \<Rightarrow> 8 word list option" where
  "dataUriBytes decode uri =
     (if \<not> startsWith uri ''data:'' \<or> CHR '','' \<notin> set (drop 5 uri) then None
      else let rest = drop 5 uri; meta = takeWhile (\<lambda>c. c \<noteq> CHR '','') rest; payload = tl (dropWhile (\<lambda>c. c \<noteq> CHR '','') rest);
               bytes = (if suffix '';base64'' (toLowerCase meta) then atob_bytes (filter (\<lambda>c. \<not> is_space c) payload) else decode payload)
           in case bytes of None \<Rightarrow> None | Some bs \<Rightarrow> if MAX_BYTES < length bs then None else Some bs)"

section \<open>Lemmas\<close>

subsection \<open>The laggard\<close>

definition oldest :: "int option \<Rightarrow> int set \<Rightarrow> int option" where
  "oldest l ts = (case l of None \<Rightarrow> if ts = {} then None else Some (Min ts) | Some t \<Rightarrow> Some (Min (insert t ts)))"

lemma oldest_insert:
  assumes "finite ts"
  shows "oldest (case l of None \<Rightarrow> Some t | Some l \<Rightarrow> if t < l then Some t else Some l) ts = oldest l (insert t ts)"
proof (cases "ts = {}")
  case False
  with assms show ?thesis by (cases l) (auto simp: oldest_def min_def)
qed (cases l; simp add: oldest_def min_def)

lemma track_rows:
  "list_all (\<lambda>r. row_time ap r = Some (tm r)) rows \<Longrightarrow>
   fold (track_row ap) rows (s, l) = (Max (insert s (s_last ` set rows)), oldest l (tm ` set rows))"
proof (induction rows arbitrary: s l)
  case Nil
  then show ?case by (simp add: oldest_def split: option.split)
next
  case (Cons r rows)
  then have r: "row_time ap r = Some (tm r)" by simp
  have synced: "Max (insert (if s < s_last r then s_last r else s) (s_last ` set rows)) = Max (insert s (s_last ` set (r # rows)))"
  proof (cases "rows = []")
    case False
    then show ?thesis by (simp add: insert_commute max_def)
  qed (simp add: max_def)
  show ?case
    using Cons by (simp add: track_row_def r oldest_insert [symmetric] synced [simplified] split: option.split)
qed

lemma oldest_stale:
  assumes "finite ts" "ts \<noteq> {}"
  shows "(case oldest None ts of None \<Rightarrow> True | Some t \<Rightarrow> limit < now - t) \<longleftrightarrow> (\<exists>t \<in> ts. limit < now - t)"
proof -
  have "limit < now - Min ts \<longleftrightarrow> Min ts < now - limit" by auto
  also have "\<dots> \<longleftrightarrow> (\<exists>t \<in> ts. t < now - limit)" by (rule Min_less_iff [OF assms])
  also have "\<dots> \<longleftrightarrow> (\<exists>t \<in> ts. limit < now - t)" by (rule bex_cong) auto
  finally show ?thesis using assms by (simp add: oldest_def)
qed

subsection \<open>Headers\<close>

lemma set_missing_get:
  "header_get (set_missing (n, v) hs) k = (if header_get hs k = None \<and> toLowerCase k = toLowerCase n then Some v else header_get hs k)"
  by (auto simp: set_missing_def header_get_def header_set_def update_conv')

lemma set_missing_all:
  "header_get (fold set_missing extra hs) k =
     (case header_get hs k of Some v \<Rightarrow> Some v | None \<Rightarrow> map_of (map (\<lambda>(n, v). (toLowerCase n, v)) extra) (toLowerCase k))"
proof (induction extra arbitrary: hs)
  case (Cons nv extra)
  obtain n v where "nv = (n, v)" by (cases nv)
  then show ?case using Cons by (auto simp: set_missing_get split: option.split)
qed (simp split: option.split)

subsection \<open>Data URIs\<close>

lemma base64_plain: "c \<in> set (bytesToBase64 bs) \<Longrightarrow> \<not> is_space c \<and> c \<noteq> CHR '',''"
proof -
  have "list_all (\<lambda>c. \<not> is_space c \<and> c \<noteq> CHR '','') BASE64" by code_simp
  then have all: "\<forall>c \<in> set BASE64. \<not> is_space c \<and> c \<noteq> CHR '',''" by (simp add: list_all_iff)
  assume "c \<in> set (bytesToBase64 bs)"
  then have "c \<in> set BASE64 \<or> c = CHR ''=''" using b64_text_chars by (auto simp: bytesToBase64_def btoa_b64_text padding_def)
  moreover have "\<not> is_space (CHR ''='')" by code_simp
  ultimately show ?thesis using all by auto
qed

section \<open>Properties\<close>

text \<open>The layout and the health endpoint never contradict each other: with a row for each of the three contracts whose times can be
  read, the layout of every page reports a stale index exactly when the health endpoint reports a degraded one, and the ledger it
  shows is the highest one indexed. When the query fails or is late, the layout reports nothing.\<close>

theorem layout_agrees_with_health:
  assumes "map fst (indexer_state d) = status_names"
    and "list_all (\<lambda>(i, r). row_time ap r \<noteq> None \<and> s_advanced_at r \<noteq> Some [] \<and> 0 \<le> s_last r) (indexer_state d)"
  shows "(\<exists>st. load_layout ap (Inr (Rows (map snd (indexer_state d)))) = Some st \<and>
      is_stale st = (getProp (getProp (the (hr_body (handleHealth cx ap d))) ''data'') ''status'' = NStr ''degraded'') \<and>
      is_syncedLedger st = Max (s_last ` set (map snd (indexer_state d)))) \<and>
    load_layout ap (Inr Query_Failed) = None \<and> load_layout ap (Inr Timed_Out) = None"
proof -
  let ?rows = "map snd (indexer_state d)"
  define tm where "tm r = the (row_time ap r)" for r
  from assms(2) have times: "list_all (\<lambda>r. row_time ap r = Some (tm r)) ?rows" and lasts: "\<forall>r \<in> set ?rows. 0 \<le> s_last r"
    by (auto simp: list_all_iff tm_def)
  have some: "?rows \<noteq> []" using assms(1) by (auto simp: status_names_def)
  have fin: "finite (s_last ` set ?rows)" "s_last ` set ?rows \<noteq> {}" using some by auto
  from lasts have "\<forall>x \<in> s_last ` set ?rows. 0 \<le> x" by blast
  with Max_in [OF fin] have "0 \<le> Max (s_last ` set ?rows)" by blast
  with Max_insert [OF fin, of 0] have max: "Max (insert 0 (s_last ` set ?rows)) = Max (s_last ` set ?rows)" by (simp only: max_absorb2)
  have stale: "st_stale (check_contract ap d i) = (STALE_THRESHOLD_MS < ap_now ap - tm r)" if "(i, r) \<in> set (indexer_state d)" for i r
  proof -
    have "distinct (map fst (indexer_state d))" using assms(1) by (simp add: status_names_def)
    with that have row: "map_of (indexer_state d) i = Some r" by simp
    from assms(2) that have r: "row_time ap r = Some (tm r)" "s_advanced_at r \<noteq> Some []" by (auto simp: list_all_iff tm_def)
    have "row_time ap r = ap_time ap (case s_advanced_at r of Some t \<Rightarrow> t | None \<Rightarrow> s_updated_at r)"
      using r(2) by (simp add: row_time_def split: option.split)
    with r(1) row show ?thesis by (simp add: check_contract_def STALE_AFTER_MS_def STALE_THRESHOLD_MS_def)
  qed
  have "(\<exists>(i, c) \<in> set (indexerStatus ap d). st_stale c) \<longleftrightarrow> (\<exists>i \<in> fst ` set (indexer_state d). st_stale (check_contract ap d i))"
    by (simp add: indexerStatus_def assms(1) [symmetric] image_comp split_beta)
  also have "\<dots> \<longleftrightarrow> (\<exists>t \<in> tm ` set ?rows. STALE_THRESHOLD_MS < ap_now ap - t)" using stale by force
  finally have degraded: "(getProp (getProp (the (hr_body (handleHealth cx ap d))) ''data'') ''status'' = NStr ''degraded'') \<longleftrightarrow>
      (\<exists>t \<in> tm ` set ?rows. STALE_THRESHOLD_MS < ap_now ap - t)"
    by (simp add: handleHealth_def successWithCache_def getProp_def Let_def)
  have "load_layout ap (Inr (Rows ?rows)) = Some \<lparr>is_syncedLedger = Max (insert 0 (s_last ` set ?rows)),
      is_lastAdvancedAt = map_option toISOString (oldest None (tm ` set ?rows)),
      is_stale = (case oldest None (tm ` set ?rows) of None \<Rightarrow> True | Some t \<Rightarrow> STALE_THRESHOLD_MS < ap_now ap - t)\<rparr>"
    using some by (simp only: load_layout_def sum.case query_outcome.case track_rows [OF times] if_False Let_def prod.case)
  note layout = this [unfolded max]
  have "finite (tm ` set ?rows)" "tm ` set ?rows \<noteq> {}" using some by auto
  note old = oldest_stale [OF this, of STALE_THRESHOLD_MS "ap_now ap"]
  have "load_layout ap (Inr Query_Failed) = None" "load_layout ap (Inr Timed_Out) = None" by (simp_all add: load_layout_def)
  then show ?thesis unfolding layout degraded by (simp only: option.inject indexer_status.select_convs old simp_thms)
qed

definition lagging_index :: db where
  "lagging_index = sample_board\<lparr>indexer_state := map (\<lambda>(i, l, t). (i, \<lparr>s_last = l, s_updated_at = ''t'', s_expected = None, s_defers = 0, s_advanced_at = Some t\<rparr>))
     [(''identity'', 9, ''now''), (''reputation'', 7, ''old''), (''validation'', 8, ''now'')]\<rparr>"

definition lagging_api :: api where
  "lagging_api = sample_api\<lparr>ap_time := (\<lambda>t. Some (if t = ''old'' then 0 else 400000)), ap_now := 400001\<rparr>"

theorem layout_agrees_with_health_witness:
  "\<exists>st. load_layout lagging_api (Inr (Rows (map snd (indexer_state lagging_index)))) = Some st \<and> is_stale st \<and> is_syncedLedger st = 9 \<and>
     getProp (getProp (the (hr_body (handleHealth sample_context lagging_api lagging_index))) ''data'') ''status'' = NStr ''degraded''"
proof -
  have rows: "map fst (indexer_state lagging_index) = status_names" by (simp add: lagging_index_def status_names_def)
  have ok: "list_all (\<lambda>(i, r). row_time lagging_api r \<noteq> None \<and> s_advanced_at r \<noteq> Some [] \<and> 0 \<le> s_last r) (indexer_state lagging_index)"
    by (simp add: lagging_index_def row_time_def lagging_api_def)
  from layout_agrees_with_health [OF rows ok, of sample_context] obtain st
    where st: "load_layout lagging_api (Inr (Rows (map snd (indexer_state lagging_index)))) = Some st"
      "is_stale st = (getProp (getProp (the (hr_body (handleHealth sample_context lagging_api lagging_index))) ''data'') ''status'' = NStr ''degraded'')"
      "is_syncedLedger st = Max (s_last ` set (map snd (indexer_state lagging_index)))" by blast
  have "is_stale st" using st(1)
    by (auto simp: load_layout_def lagging_index_def track_row_def row_time_def lagging_api_def STALE_THRESHOLD_MS_def)
  moreover have "is_syncedLedger st = 9" using st(3) by (simp add: lagging_index_def)
  ultimately show ?thesis using st by (intro exI [of _ st]) simp
qed

text \<open>Every response carries the security headers, with the values of the list unless the page chose its own, and keeps its own headers.\<close>

lemma security_headers:
  assumes "handle_request skill pathname build resolve_page = Inr r" "(n, v) \<in> set SECURITY_HEADERS"
  shows "header_get (pr_headers r) n \<noteq> None"
    and "pathname = ''/skill.md'' \<Longrightarrow> header_get (pr_headers r) n = Some v"
    and "resolve_page pathname = Inr r0 \<Longrightarrow> pathname \<noteq> ''/skill.md'' \<Longrightarrow>
      header_get (pr_headers r) n = (case header_get (pr_headers r0) n of Some own \<Rightarrow> Some own | None \<Rightarrow> Some v)"
proof -
  have listed: "map_of (map (\<lambda>(n, v). (toLowerCase n, v)) SECURITY_HEADERS) (toLowerCase n) = Some v"
    using assms(2) unfolding SECURITY_HEADERS_def by (auto simp: toLowerCase_def lower_char_def code_of_def)
  have build: "toLowerCase n \<noteq> toLowerCase ''X-Build''"
    using assms(2) unfolding SECURITY_HEADERS_def by (auto simp: toLowerCase_def lower_char_def code_of_def)
  have tagged: "header_get (case build of None \<Rightarrow> hs | Some b \<Rightarrow> header_set ''X-Build'' (if bt_tag b = [] then bt_id b else bt_tag b) hs) n = header_get hs n" for hs
    using build by (simp add: header_get_def header_set_def update_conv' split: option.split)
  from assms(1) obtain r1 where r1: "(if pathname = ''/skill.md'' then Inr (skill_response skill) else resolve_page pathname) = Inr r1"
    "r = r1\<lparr>pr_headers := fold set_missing SECURITY_HEADERS (case build of None \<Rightarrow> pr_headers r1
       | Some b \<Rightarrow> header_set ''X-Build'' (if bt_tag b = [] then bt_id b else bt_tag b) (pr_headers r1))\<rparr>"
    by (auto simp: handle_request_def sbind_eq_Inr Let_def)
  have got: "header_get (pr_headers r) n = (case header_get (pr_headers r1) n of Some own \<Rightarrow> Some own | None \<Rightarrow> Some v)"
    by (simp add: r1(2) set_missing_all tagged listed split: option.split)
  then show "header_get (pr_headers r) n \<noteq> None" by (simp split: option.splits)
  show "header_get (pr_headers r) n = Some v" if "pathname = ''/skill.md''"
  proof -
    from that r1(1) have "r1 = skill_response skill" by simp
    moreover have "header_get (pr_headers (skill_response skill)) n = None"
      using assms(2) unfolding SECURITY_HEADERS_def by (auto simp: skill_response_def header_get_def toLowerCase_def lower_char_def code_of_def)
    ultimately show ?thesis using got by simp
  qed
  show "header_get (pr_headers r) n = (case header_get (pr_headers r0) n of Some own \<Rightarrow> Some own | None \<Rightarrow> Some v)"
    if "resolve_page pathname = Inr r0" "pathname \<noteq> ''/skill.md''"
    using that r1(1) got by simp
qed

text \<open>An image is shown only with one of the schemes of the list.\<close>

lemma image_scheme:
  "sanitizeImageUrl url = [] \<or> (url = Some (sanitizeImageUrl url) \<and>
     (\<exists>s \<in> set SAFE_IMAGE_SCHEMES. prefix s (toLowerCase (Js_Numbers.trim (sanitizeImageUrl url)))))"
  by (auto simp: sanitizeImageUrl_def Let_def split: option.split)

text \<open>The bytes whose hash the evidence check compares are the bytes the SDK wrote.\<close>

lemma data_uri_bytes:
  assumes "toDataUri pf json = Inr uri" "pf_stringify pf json = Inr txt"
  shows "dataUriBytes decode uri = Some (pf_encode pf txt)"
proof -
  let ?b = "bytesToBase64 (pf_encode pf txt)"
  from assms have uri: "uri = data_prefix @ ?b" "length uri \<le> 8192" by (auto elim!: toDataUriE)
  have rest: "drop 5 uri = ''application/json;base64'' @ CHR '','' # ?b" by (simp add: uri(1) data_prefix_def)
  have parts: "takeWhile (\<lambda>c. c \<noteq> CHR '','') (drop 5 uri) = ''application/json;base64''" "tl (dropWhile (\<lambda>c. c \<noteq> CHR '','') (drop 5 uri)) = ?b"
    "CHR '','' \<in> set (drop 5 uri)" unfolding rest by simp_all
  have plain: "filter (\<lambda>c. \<not> is_space c) ?b = ?b" using base64_plain by (simp add: filter_id_conv)
  have small: "length (pf_encode pf txt) \<le> MAX_BYTES"
    using uri length_bytesToBase64 [of "pf_encode pf txt"] by (simp add: MAX_BYTES_def)
  have "prefix ''data:'' uri" by (simp add: uri(1) data_prefix_def)
  moreover have "suffix '';base64'' (toLowerCase ''application/json;base64'')" by code_simp
  ultimately show ?thesis
    using small by (simp add: dataUriBytes_def parts plain atob_bytesToBase64 Let_def)
qed

end
