(* ===== verification/Web_Evidence.thy ===== *)
theory Web_Evidence
  imports Web_Shell Sdk_Core
begin

text \<open>
  The evidence viewer of the agent page (\<open>lib/components/EvidenceViewer.svelte\<close>): it loads the evidence of a feedback entry and compares its
  hash with the one on chain.

  \<open>fetched\<close> gives the body of a gateway answer, \<open>None\<close> when the request fails, is late, is not \<open>ok\<close> or cannot be read; it is an argument of the
  step that ends a load, so answers may change from load to load. The viewer is a step relation over clicks and ended loads.
\<close>

section \<open>Loading evidence\<close>

definition IPFS_GATEWAYS :: "string list" where
  "IPFS_GATEWAYS = [''https://gateway.pinata.cloud/ipfs/'', ''https://ipfs.io/ipfs/'']"

definition extractCid :: "string \<Rightarrow> string option" where
  "extractCid uri =
     (if \<not> startsWith uri ''ipfs://'' then None
      else let rest = drop 7 uri; path = (if startsWith rest ''ipfs/'' then drop 5 rest else rest); cid = dropWhile (\<lambda>c. c = CHR ''/'') path
           in if cid = [] then None else Some cid)"

fun fetch_gateways :: "(string \<Rightarrow> 8 word list option) \<Rightarrow> string \<Rightarrow> string list \<Rightarrow> 8 word list option" where
  "fetch_gateways fetched cid [] = None"
| "fetch_gateways fetched cid (g # gs) = (case fetched (g @ cid) of Some raw \<Rightarrow> Some raw | None \<Rightarrow> fetch_gateways fetched cid gs)"

definition fetchFromGateways :: "(string \<Rightarrow> 8 word list option) \<Rightarrow> string \<Rightarrow> 8 word list option" where
  "fetchFromGateways fetched cid = fetch_gateways fetched cid IPFS_GATEWAYS"

definition fetchEvidence :: "(string \<Rightarrow> 8 word list option) \<Rightarrow> (string \<Rightarrow> 8 word list option) \<Rightarrow> string \<Rightarrow> string + 8 word list" where
  "fetchEvidence decode fetched uri =
     (if startsWith uri ''data:'' then (case dataUriBytes decode uri of None \<Rightarrow> Inl ''Invalid data: URI'' | Some bytes \<Rightarrow> Inr bytes)
      else (case extractCid uri of
          None \<Rightarrow> Inl ''Unsupported evidence URI (expected ipfs:// or data:)''
        | Some cid \<Rightarrow> (case fetchFromGateways fetched cid of
            None \<Rightarrow> Inl ''Evidence unavailable - all IPFS gateways failed''
          | Some raw \<Rightarrow> Inr raw)))"

definition hash_hex :: "8 word list \<Rightarrow> string" where
  "hash_hex h = concat (map hex_byte h)"

definition verifyHash :: "hasher \<Rightarrow> 8 word list \<Rightarrow> string \<Rightarrow> bool" where
  "verifyHash hs raw expectedHash \<longleftrightarrow> toLowerCase (hash_hex (hs_sha256 hs raw)) = toLowerCase expectedHash"

section \<open>The viewer\<close>

datatype hash_status = Verified | Mismatch | No_Hash

record viewer =
  vw_open :: bool
  vw_loading :: bool
  vw_evidenceJson :: "string option"
  vw_hashStatus :: "hash_status option"
  vw_errorMsg :: string

definition new_viewer :: viewer where
  "new_viewer = \<lparr>vw_open = False, vw_loading = False, vw_evidenceJson = None, vw_hashStatus = None, vw_errorMsg = []\<rparr>"

text \<open>The functions of the browser a load uses: the text decoder, \<open>JSON.parse\<close> and \<open>JSON.stringify\<close> with indentation, and the percent
  decoder of data URIs.\<close>

record viewer_env =
  ve_hash :: hasher
  ve_text :: "8 word list \<Rightarrow> string"
  ve_parse :: "string \<Rightarrow> string + native"
  ve_pretty :: "native \<Rightarrow> string"
  ve_decode :: "string \<Rightarrow> 8 word list option"

definition shown_evidence :: "viewer_env \<Rightarrow> 8 word list \<Rightarrow> string" where
  "shown_evidence e raw = (case ve_parse e (ve_text e raw) of Inr v \<Rightarrow> ve_pretty e v | Inl _ \<Rightarrow> ve_text e raw)"

text \<open>\<open>loadEvidence\<close> up to its \<open>await\<close>, and what follows it.\<close>

definition loadEvidence :: "string option \<Rightarrow> viewer \<Rightarrow> viewer" where
  "loadEvidence feedbackUri v =
     (if feedbackUri = None \<or> feedbackUri = Some [] \<or> vw_loading v then v
      else v\<lparr>vw_loading := True, vw_errorMsg := [], vw_evidenceJson := None, vw_hashStatus := None\<rparr>)"

definition finish_load :: "viewer_env \<Rightarrow> string \<Rightarrow> string option \<Rightarrow> (string \<Rightarrow> 8 word list option) \<Rightarrow> viewer \<Rightarrow> viewer" where
  "finish_load e feedbackUri feedbackHash fetched v = (case fetchEvidence (ve_decode e) fetched feedbackUri of
      Inl m \<Rightarrow> v\<lparr>vw_errorMsg := m, vw_loading := False\<rparr>
    | Inr raw \<Rightarrow> v\<lparr>vw_hashStatus := Some (case feedbackHash of
          None \<Rightarrow> No_Hash
        | Some h \<Rightarrow> if h = [] then No_Hash else if verifyHash (ve_hash e) raw h then Verified else Mismatch),
        vw_evidenceJson := Some (shown_evidence e raw), vw_loading := False\<rparr>)"

definition toggle_viewer :: "string option \<Rightarrow> viewer \<Rightarrow> viewer" where
  "toggle_viewer feedbackUri v =
     (let v' = v\<lparr>vw_open := \<not> vw_open v\<rparr>
      in if vw_open v' \<and> (vw_evidenceJson v' = None \<or> vw_evidenceJson v' = Some []) \<and> vw_errorMsg v' = [] then loadEvidence feedbackUri v' else v')"

inductive viewer_reachable :: "viewer_env \<Rightarrow> string option \<Rightarrow> string option \<Rightarrow> viewer \<Rightarrow> bool" for e uri h where
  opened: "viewer_reachable e uri h new_viewer"
| toggled: "viewer_reachable e uri h v \<Longrightarrow> viewer_reachable e uri h (toggle_viewer uri v)"
| loaded: "viewer_reachable e uri h v \<Longrightarrow> vw_loading v \<Longrightarrow> uri = Some u \<Longrightarrow> viewer_reachable e uri h (finish_load e u h fetched v)"

section \<open>Lemmas\<close>

text \<open>Nothing is shown while a load runs; what is shown was judged by the bytes it came from.\<close>

definition judged :: "viewer_env \<Rightarrow> string option \<Rightarrow> string option \<Rightarrow> viewer \<Rightarrow> bool" where
  "judged e uri h v \<longleftrightarrow> (vw_loading v \<longrightarrow> vw_evidenceJson v = None \<and> vw_hashStatus v = None) \<and>
     (vw_evidenceJson v = None \<longleftrightarrow> vw_hashStatus v = None) \<and>
     (\<forall>st. vw_hashStatus v = Some st \<longrightarrow> (\<exists>u fetched raw. uri = Some u \<and> fetchEvidence (ve_decode e) fetched u = Inr raw \<and>
        vw_evidenceJson v = Some (shown_evidence e raw) \<and>
        st = (case h of None \<Rightarrow> No_Hash | Some x \<Rightarrow> if x = [] then No_Hash else if verifyHash (ve_hash e) raw x then Verified else Mismatch)))"

lemma judged_finish: "judged e (Some u) h v \<Longrightarrow> vw_loading v \<Longrightarrow> judged e (Some u) h (finish_load e u h fetched v)"
  unfolding judged_def finish_load_def by (cases "fetchEvidence (ve_decode e) fetched u") auto

lemma judged_toggle: "judged e uri h v \<Longrightarrow> judged e uri h (toggle_viewer uri v)"
  unfolding judged_def toggle_viewer_def loadEvidence_def Let_def by simp

lemma viewer_judged: "viewer_reachable e uri h v \<Longrightarrow> judged e uri h v"
proof (induction rule: viewer_reachable.induct)
  case opened
  show ?case by (simp add: judged_def new_viewer_def)
qed (auto intro: judged_finish judged_toggle)

lemma hex_char_not_upper: "toLowerCase (hash_hex bs) = hash_hex bs"
proof -
  have "lower_char c = c" if "is_lower_hex c" for c using that by (auto simp: is_lower_hex_def is_digit_def lower_char_def)
  then show ?thesis using hex_byte_lower by (auto simp: toLowerCase_def hash_hex_def intro!: map_idI)
qed

lemma hex_char_inject: "d < 16 \<Longrightarrow> d' < 16 \<Longrightarrow> hex_char d = hex_char d' \<Longrightarrow> d = d'"
proof -
  assume d: "d < 16" "d' < 16" and eq: "hex_char d = hex_char d'"
  have code: "code_of (hex_char n) = (if n < 10 then 48 + n else 87 + n)" if "n < 16" for n using that by (simp add: hex_char_def code_of_def)
  have "(if d < 10 then 48 + d else 87 + d) = (if d' < 10 then 48 + d' else 87 + d')"
    using arg_cong [OF eq, of code_of] unfolding code [OF d(1)] code [OF d(2)] .
  then show "d = d'" by presburger
qed

lemma hex_byte_inject: "hex_byte b = hex_byte c \<longleftrightarrow> b = c"
proof
  assume eq: "hex_byte b = hex_byte c"
  have bounds: "unat x div 16 < 16" "unat x mod 16 < 16" for x :: "8 word" using unat_byte_lt [of x] by (simp_all add: less_mult_imp_div_less)
  have "unat b div 16 = unat c div 16" by (rule hex_char_inject) (use eq bounds in \<open>simp_all add: hex_byte_def\<close>)
  moreover have "unat b mod 16 = unat c mod 16" by (rule hex_char_inject) (use eq bounds in \<open>simp_all add: hex_byte_def\<close>)
  ultimately have "unat b = unat c" by (metis div_mult_mod_eq)
  from arg_cong [OF this, of "of_nat :: nat \<Rightarrow> 8 word"] show "b = c" by simp
qed simp

lemma hash_hex_inject: "hash_hex a = hash_hex b \<longleftrightarrow> a = b"
proof (induction a arbitrary: b)
  case Nil
  show ?case by (cases b) (simp_all add: hash_hex_def hex_byte_def)
next
  case (Cons x a)
  note IH = Cons.IH
  have len: "length (hex_byte y) = 2" for y by (simp add: hex_byte_def)
  show ?case
  proof (cases b)
    case Nil
    have "hex_byte x \<noteq> []" by (simp add: hex_byte_def)
    then show ?thesis by (simp add: Nil hash_hex_def)
  next
    case (Cons y b')
    then show ?thesis using IH [of b'] len by (simp add: hash_hex_def hex_byte_inject append_eq_append_conv)
  qed
qed

text \<open>The hash the indexer stores for hash bytes is their hexadecimal text, so the check compares the bytes.\<close>

lemma verifyHash_bytes: "verifyHash hs raw (toHex (NBytes h)) \<longleftrightarrow> hs_sha256 hs raw = h"
proof -
  have "toHex (NBytes h) = hash_hex h" by (simp add: toHex_def hash_hex_def)
  then show ?thesis by (simp add: verifyHash_def hex_char_not_upper hash_hex_inject)
qed

section \<open>Properties\<close>

text \<open>C32. A check mark is earned: whatever is clicked and whatever the gateways answer, a viewer that shows evidence as verified against the
  hash the indexer stored shows the text of bytes that were loaded from the URI of the feedback and whose SHA-256 is exactly the
  hash on chain; and it never says mismatch of such bytes.\<close>

theorem evidence_checked:
  assumes "viewer_reachable e (Some uri) (Some (toHex (NBytes h))) v" and "h \<noteq> []" and "vw_hashStatus v = Some st"
  shows "\<exists>fetched raw. fetchEvidence (ve_decode e) fetched uri = Inr raw \<and> vw_evidenceJson v = Some (shown_evidence e raw) \<and>
    st = (if hs_sha256 (ve_hash e) raw = h then Verified else Mismatch)"
proof -
  have "toHex (NBytes h) \<noteq> []" using assms(2) by (cases h) (simp_all add: toHex_def hex_byte_def)
  with viewer_judged [OF assms(1)] assms(3) show ?thesis by (auto simp: judged_def verifyHash_bytes)
qed

definition sample_viewer_env :: viewer_env where
  "sample_viewer_env = \<lparr>ve_hash = \<lparr>hs_encode = map (\<lambda>c. of_nat (code_of c)), hs_sha256 = (\<lambda>bs. [of_nat (length bs)]), hs_now = [], hs_uuid = []\<rparr>,
     ve_text = (\<lambda>_. ''text''), ve_parse = (\<lambda>_. Inl []), ve_pretty = (\<lambda>_. []), ve_decode = (\<lambda>_. None)\<rparr>"

theorem evidence_checked_witness:
  "\<exists>fetched raw. fetchEvidence (ve_decode sample_viewer_env) fetched ''ipfs://cid'' = Inr raw \<and>
     hs_sha256 (ve_hash sample_viewer_env) raw = [2] \<and> shown_evidence sample_viewer_env raw = ''text''"
proof -
  let ?e = "sample_viewer_env" and ?h = "toHex (NBytes [2])"
  define v where "v = finish_load ?e ''ipfs://cid'' (Some ?h) (\<lambda>_. Some [7, 7]) (toggle_viewer (Some ''ipfs://cid'') new_viewer)"
  have "vw_loading (toggle_viewer (Some ''ipfs://cid'') new_viewer)" by (simp add: toggle_viewer_def new_viewer_def loadEvidence_def)
  then have reach: "viewer_reachable ?e (Some ''ipfs://cid'') (Some ?h) v" unfolding v_def by (intro loaded toggled opened) simp_all
  have "verifyHash (ve_hash ?e) [7, 7] ?h" by (simp add: verifyHash_bytes sample_viewer_env_def)
  moreover have "?h \<noteq> []" by (simp add: toHex_def hex_byte_def)
  ultimately have "vw_hashStatus v = Some Verified"
    by (simp add: v_def finish_load_def fetchEvidence_def extractCid_def fetchFromGateways_def IPFS_GATEWAYS_def)
  from evidence_checked [OF reach _ this] show ?thesis by (auto simp: sample_viewer_env_def shown_evidence_def split: if_splits)
qed

end
