(* ===== verification/Web_Forms.thy ===== *)
theory Web_Forms
  imports Web_Wallet Web_Agent Web_Evidence
begin

text \<open>
  The forms of the web application that send transactions: feedback (\<open>lib/components/FeedbackForm.svelte\<close>), validation requests
  (\<open>lib/components/ValidationForm.svelte\<close>), registration (\<open>routes/register/+page.svelte\<close>), editing (\<open>routes/agents/[id]/edit/+page.svelte\<close>), the
  wallet of an agent (\<open>lib/components/agent-edit/WalletBinding.svelte\<close>) and the URI editor and polling of the agent page
  (\<open>routes/agents/[id]/+page.svelte\<close>).

  A form is a step relation over what the user types and clicks, what awaited functions give and what the chain answers; the wallet
  may be any at each step. The calls a form makes of the contract clients are logged. The locale \<open>form_machine\<close> carries an invariant and a
  condition on the calls through all reachable states.
\<close>

section \<open>Calls\<close>

datatype form_status = Idle | Submitting | Success | Form_Error

datatype chain_method =
    Give_Feedback string int int int string string string string "8 word list"
      \<comment> \<open>caller, agent_id, value, value_decimals, tag1, tag2, endpoint, feedback_uri, feedback_hash\<close>
  | Validation_Request string string int string "8 word list" \<comment> \<open>caller, validator_address, agent_id, request_uri, request_hash\<close>
  | Register string
  | Register_With_Uri string string
  | Set_Agent_Uri string int string
  | Set_Agent_Wallet string int string
  | Unset_Agent_Wallet string int

record chain_call =
  cc_client :: client_options
  cc_method :: chain_method

record progress =
  pr_status :: form_status
  pr_errorMsg :: string
  pr_txHash :: string
  pr_calls :: "chain_call list"

record form_env =
  fe_hash :: hasher
  fe_platform :: platform
  fe_strkey :: strkey
  fe_config :: StellarConfig
  fe_fmt :: "rat \<Rightarrow> string"
  fe_agentId :: int

definition fail_with :: "string \<Rightarrow> 'a progress_scheme \<Rightarrow> 'a progress_scheme" where
  "fail_with m p = p\<lparr>pr_status := Form_Error, pr_errorMsg := m\<rparr>"

definition begins :: "'a progress_scheme \<Rightarrow> 'a progress_scheme" where
  "begins p = p\<lparr>pr_status := Submitting, pr_errorMsg := []\<rparr>"

text \<open>The \<open>catch\<close> of a form, for a validator of the SDK and for an error of another class.\<close>

definition rejected :: "form_env \<Rightarrow> registry \<Rightarrow> string \<Rightarrow> 'a progress_scheme \<Rightarrow> 'a progress_scheme" where
  "rejected e r m p = fail_with (formatSorobanError (fe_fmt e) (Thrown_Error ''InvalidInputError'' m) (Some r)) p"

definition invoke :: "form_env \<Rightarrow> registry \<Rightarrow> WalletState \<Rightarrow> chain_method \<Rightarrow> 'a progress_scheme \<Rightarrow> 'a progress_scheme" where
  "invoke e r w m p = (case getClients (fe_config e) (ws_signer w) of
      Inl t \<Rightarrow> fail_with (formatSorobanError (fe_fmt e) (Thrown_Error ''Error'' t) (Some r)) p
    | Inr clients \<Rightarrow> p\<lparr>pr_calls := \<lparr>cc_client = clients r, cc_method = m\<rparr> # pr_calls p\<rparr>)"

text \<open>What follows the signature: the hash of the transaction, or what was thrown.\<close>

definition answered :: "form_env \<Rightarrow> registry \<Rightarrow> thrown + string option \<Rightarrow> 'a progress_scheme \<Rightarrow> 'a progress_scheme" where
  "answered e r answer p = (case answer of
      Inl err \<Rightarrow> fail_with (formatSorobanError (fe_fmt e) err (Some r)) p
    | Inr h \<Rightarrow> p\<lparr>pr_status := Success, pr_txHash := (case h of Some x \<Rightarrow> x | None \<Rightarrow> [])\<rparr>)"

definition wallet_caller :: "WalletState \<Rightarrow> string option" where
  "wallet_caller w = (case ws_address w of Some a \<Rightarrow> if a = [] then None else Some a | None \<Rightarrow> None)"

definition disconnected :: string where
  "disconnected = ''Wallet disconnected. Reconnect and try again.''"

section \<open>Feedback\<close>

definition SCORE_STEPS :: "(int \<times> string \<times> string) list" where
  "SCORE_STEPS = [(0, ''Terrible'', ''var(--fb-negative)''), (20, ''Poor'', ''var(--fb-warning)''), (40, ''Okay'', ''var(--fb-caution)''),
     (60, ''Good'', ''var(--fb-moderate)''), (80, ''Great'', ''var(--fb-positive)''), (100, ''Perfect'', ''var(--fb-excellent)'')]"

definition TAG_OPTIONS :: "(string \<times> string) list" where
  "TAG_OPTIONS = [(''starred'', ''General''), (''uptime'', ''Uptime''), (''reachable'', ''Reachable''), (''successRate'', ''Success Rate''),
     (''responseTime'', ''Response Time'')]"

record feedback_form = progress +
  ff_value :: int
  ff_tag1 :: string
  ff_tag2 :: string
  ff_endpoint :: string
  ff_evidenceUri :: string
  ff_showAdvanced :: bool
  ff_dragging :: bool
  ff_hashing :: "(string \<times> string) list" \<comment> \<open>running submissions: the caller and the evidence URI being hashed\<close>

definition new_feedback_form :: feedback_form where
  "new_feedback_form = \<lparr>pr_status = Idle, pr_errorMsg = [], pr_txHash = [], pr_calls = [], ff_value = 60, ff_tag1 = ''starred'', ff_tag2 = [],
     ff_endpoint = [], ff_evidenceUri = [], ff_showAdvanced = False, ff_dragging = False, ff_hashing = []\<rparr>"

definition handlePointerDown :: "int \<Rightarrow> feedback_form \<Rightarrow> feedback_form" where
  "handlePointerDown stepValue f = f\<lparr>ff_dragging := True, ff_value := stepValue\<rparr>"

text \<open>The position of the pointer and the track; without a track nothing happens, and without a width the lookup throws.\<close>

definition handlePointerMove :: "rat \<Rightarrow> (rat \<times> rat) option \<Rightarrow> feedback_form \<Rightarrow> feedback_form" where
  "handlePointerMove clientX track f =
     (if \<not> ff_dragging f then f
      else (case track of
          None \<Rightarrow> f
        | Some (left, width) \<Rightarrow>
            if width \<le> 0 then f
            else let x = max 0 (min (clientX - left) width); ratio = x / width;
                     idx = min \<lfloor>ratio * of_nat (length SCORE_STEPS)\<rfloor> (int (length SCORE_STEPS) - 1)
                 in f\<lparr>ff_value := fst (SCORE_STEPS ! nat idx)\<rparr>))"

definition handlePointerUp :: "feedback_form \<Rightarrow> feedback_form" where
  "handlePointerUp f = f\<lparr>ff_dragging := False\<rparr>"

definition sha256Hash :: "hasher \<Rightarrow> string \<Rightarrow> 8 word list" where
  "sha256Hash hs content = hs_sha256 hs (hs_encode hs content)"

definition EVIDENCE_SCHEMES :: "string list" where
  "EVIDENCE_SCHEMES = [''https://'', ''http://'', ''ipfs://'']"

definition give_feedback :: "form_env \<Rightarrow> WalletState \<Rightarrow> string \<Rightarrow> string \<Rightarrow> 8 word list \<Rightarrow> feedback_form \<Rightarrow> feedback_form" where
  "give_feedback e w caller uri h f = invoke e Reputation_Registry w
     (Give_Feedback caller (fe_agentId e) (ff_value f) 0 (ff_tag1 f) (ff_tag2 f) (ff_endpoint f) uri h) f"

definition submit_feedback :: "form_env \<Rightarrow> WalletState \<Rightarrow> feedback_form \<Rightarrow> feedback_form" where
  "submit_feedback e w f = (case (if ws_connected w then wallet_caller w else None) of
      None \<Rightarrow> fail_with ''Connect your wallet to submit feedback.'' f
    | Some caller \<Rightarrow> (let f1 = begins f; uri = Js_Numbers.trim (ff_evidenceUri f) in
        case sbind (validateTag (ff_tag1 f) ''Tag 1'') (\<lambda>_. if ff_tag2 f \<noteq> [] then validateTag (ff_tag2 f) ''Tag 2'' else Inr ()) of
          Inl m \<Rightarrow> rejected e Reputation_Registry m f1
        | Inr _ \<Rightarrow>
            if uri = [] then give_feedback e w caller [] (replicate 32 0) f1
            else if \<not> (\<exists>s \<in> set EVIDENCE_SCHEMES. startsWith uri s)
            then rejected e Reputation_Registry ''Evidence URI must use https://, http://, or ipfs:// scheme'' f1
            else f1\<lparr>ff_hashing := (caller, uri) # ff_hashing f1\<rparr>))"

text \<open>What follows the hash: the fields are read only now.\<close>

definition hashed :: "form_env \<Rightarrow> WalletState \<Rightarrow> string \<times> string \<Rightarrow> feedback_form \<Rightarrow> feedback_form" where
  "hashed e w = (\<lambda>(caller, uri) f. give_feedback e w caller uri (sha256Hash (fe_hash e) uri) f)"

definition reset_feedback :: "feedback_form \<Rightarrow> feedback_form" where
  "reset_feedback f = f\<lparr>ff_value := 60, ff_tag1 := ''starred'', ff_tag2 := [], ff_endpoint := [], ff_evidenceUri := [], pr_status := Idle,
     pr_errorMsg := [], pr_txHash := [], ff_showAdvanced := False\<rparr>"

inductive feedback_step :: "form_env \<Rightarrow> feedback_form \<Rightarrow> feedback_form \<Rightarrow> bool" for e where
  "v \<in> fst ` set SCORE_STEPS \<Longrightarrow> feedback_step e f (handlePointerDown v f)"
| "feedback_step e f (handlePointerMove x track f)"
| "feedback_step e f (handlePointerUp f)"
| "t \<in> fst ` set TAG_OPTIONS \<Longrightarrow> feedback_step e f (f\<lparr>ff_tag1 := t\<rparr>)"
| "length t \<le> 64 \<Longrightarrow> feedback_step e f (f\<lparr>ff_tag2 := t\<rparr>)"
| "length t \<le> 128 \<Longrightarrow> feedback_step e f (f\<lparr>ff_endpoint := t\<rparr>)"
| "length t \<le> 256 \<Longrightarrow> feedback_step e f (f\<lparr>ff_evidenceUri := t\<rparr>)"
| "feedback_step e f (f\<lparr>ff_showAdvanced := b\<rparr>)"
| "pr_status f \<noteq> Submitting \<Longrightarrow> \<not> ws_networkMismatch w \<Longrightarrow> feedback_step e f (submit_feedback e w f)"
| "ff_hashing f = xs @ c # ys \<Longrightarrow> feedback_step e f (hashed e w c (f\<lparr>ff_hashing := xs @ ys\<rparr>))"
| "feedback_step e f (answered e Reputation_Registry a f)"
| "feedback_step e f (reset_feedback f)"

section \<open>Validation requests\<close>

record validation_form = progress +
  vf_validatorAddress :: string
  vf_requestUri :: string
  vf_nonces :: "(string \<times> client_options \<times> 8 word list) list" \<comment> \<open>running submissions: the caller, the client and the nonce\<close>

definition new_validation_form :: validation_form where
  "new_validation_form = \<lparr>pr_status = Idle, pr_errorMsg = [], pr_txHash = [], pr_calls = [], vf_validatorAddress = [], vf_requestUri = [], vf_nonces = []\<rparr>"

definition vf_address :: "validation_form \<Rightarrow> string" where
  "vf_address f = Js_Numbers.trim (vf_validatorAddress f)"

definition submit_validation :: "form_env \<Rightarrow> WalletState \<Rightarrow> validation_form \<Rightarrow> validation_form" where
  "submit_validation e w f = (case (if ws_connected w then wallet_caller w else None) of
      None \<Rightarrow> fail_with ''Connect your wallet to request validation.'' f
    | Some caller \<Rightarrow>
        if \<not> sdk_isValidStellarAddress (fe_strkey e) (vf_address f) then f
        else (let f1 = begins f in case getClients (fe_config e) (ws_signer w) of
            Inl t \<Rightarrow> fail_with (formatSorobanError (fe_fmt e) (Thrown_Error ''Error'' t) (Some Validation_Registry)) f1
          | Inr clients \<Rightarrow> (case generateRequestNonce (fe_hash e) (fe_agentId e) (vf_address f) None of
              Inl m \<Rightarrow> rejected e Validation_Registry m f1
            | Inr n \<Rightarrow> f1\<lparr>vf_nonces := (caller, clients Validation_Registry, n) # vf_nonces f1\<rparr>)))"

text \<open>What follows the nonce: the address and the URI are read only now.\<close>

definition nonce_ready :: "form_env \<Rightarrow> string \<times> client_options \<times> 8 word list \<Rightarrow> validation_form \<Rightarrow> validation_form" where
  "nonce_ready e = (\<lambda>(caller, client, n) f. f\<lparr>pr_calls :=
     \<lparr>cc_client = client, cc_method = Validation_Request caller (vf_address f) (fe_agentId e) (vf_requestUri f) n\<rparr> # pr_calls f\<rparr>)"

inductive validation_step :: "form_env \<Rightarrow> validation_form \<Rightarrow> validation_form \<Rightarrow> bool" for e where
  "validation_step e f (f\<lparr>vf_validatorAddress := t\<rparr>)"
| "length t \<le> 512 \<Longrightarrow> validation_step e f (f\<lparr>vf_requestUri := t\<rparr>)"
| "pr_status f \<noteq> Submitting \<Longrightarrow> \<not> ws_networkMismatch w \<Longrightarrow> validation_step e f (submit_validation e w f)"
| "vf_nonces f = xs @ c # ys \<Longrightarrow> validation_step e f (nonce_ready e c (f\<lparr>vf_nonces := xs @ ys\<rparr>))"
| "validation_step e f (answered e Validation_Registry a f)"

section \<open>Registration\<close>

datatype UriMode = Auto | Manual

record register_form = progress +
  rf_data :: AgentFormData
  rf_uriMode :: UriMode
  rf_manualUri :: string

definition empty_form :: AgentFormData where
  "empty_form = \<lparr>fm_name = [], fm_description = [], fm_imageUrl = [], fm_services = [], fm_supportedTrust = [], fm_x402Enabled = False, fm_mppEnabled = False\<rparr>"

definition new_register_form :: register_form where
  "new_register_form = \<lparr>pr_status = Idle, pr_errorMsg = [], pr_txHash = [], pr_calls = [], rf_data = empty_form, rf_uriMode = Auto, rf_manualUri = []\<rparr>"

definition imageError :: "register_form \<Rightarrow> string" where
  "imageError f = validateUrl (fm_imageUrl (rf_data f))"

definition canRegister :: "register_form \<Rightarrow> bool" where
  "canRegister f = (case rf_uriMode f of Auto \<Rightarrow> Js_Numbers.trim (fm_name (rf_data f)) \<noteq> [] | Manual \<Rightarrow> Js_Numbers.trim (rf_manualUri f) \<noteq> [])"

definition register_uri :: "form_env \<Rightarrow> register_form \<Rightarrow> string + string" where
  "register_uri e f = (case rf_uriMode f of
      Auto \<Rightarrow> sbind (buildMetadataJson (rf_data f)) (toDataUri (fe_platform e))
    | Manual \<Rightarrow> Inr (Js_Numbers.trim (rf_manualUri f)))"

definition submit_register :: "form_env \<Rightarrow> WalletState \<Rightarrow> register_form \<Rightarrow> register_form" where
  "submit_register e w f = (let f1 = begins f in
     case wallet_caller w of
       None \<Rightarrow> fail_with disconnected f1
     | Some caller \<Rightarrow> (case sbind (register_uri e f) (\<lambda>uri. if uri = [] then Inr uri else sbind (validateAgentUri uri) (\<lambda>_. Inr uri)) of
         Inl m \<Rightarrow> rejected e Identity_Registry m f1
       | Inr uri \<Rightarrow> invoke e Identity_Registry w (if uri = [] then Register caller else Register_With_Uri caller uri) f1))"

inductive register_step :: "form_env \<Rightarrow> register_form \<Rightarrow> register_form \<Rightarrow> bool" for e where
  "register_step e f (f\<lparr>rf_data := x\<rparr>)"
| "register_step e f (f\<lparr>rf_uriMode := m\<rparr>)"
| "register_step e f (f\<lparr>rf_manualUri := t\<rparr>)"
| "canRegister f \<Longrightarrow> pr_status f \<noteq> Submitting \<Longrightarrow> \<not> ws_networkMismatch w \<Longrightarrow> register_step e f (submit_register e w f)"
| "register_step e f (answered e Identity_Registry a f)"

section \<open>Editing\<close>

record edit_form = progress +
  ef_data :: AgentFormData
  ef_uriMode :: UriMode
  ef_manualUri :: string

definition trust_text :: "native list \<Rightarrow> string list" where
  "trust_text vs = concat (map (\<lambda>v. case v of NStr s \<Rightarrow> [s] | _ \<Rightarrow> []) vs)"

definition initialFormData :: "edit_page \<Rightarrow> AgentFormData" where
  "initialFormData pg = \<lparr>fm_name = ed_name pg, fm_description = (case ed_description pg of Some t \<Rightarrow> t | None \<Rightarrow> []),
     fm_imageUrl = (case ed_image pg of Some t \<Rightarrow> t | None \<Rightarrow> []), fm_services = page_services (ed_services pg),
     fm_supportedTrust = trust_text (ed_supportedTrust pg), fm_x402Enabled = ed_x402Enabled pg, fm_mppEnabled = ed_mppEnabled pg\<rparr>"

definition initial_mode :: "string option \<Rightarrow> UriMode" where
  "initial_mode agentUri = (case agentUri of
      None \<Rightarrow> Auto
    | Some u \<Rightarrow> if startsWith u ''data:'' then Auto else if startsWith u ''ipfs://'' then Manual else Auto)"

definition new_edit_form :: "edit_page \<Rightarrow> edit_form" where
  "new_edit_form pg = \<lparr>pr_status = Idle, pr_errorMsg = [], pr_txHash = [], pr_calls = [], ef_data = initialFormData pg,
     ef_uriMode = initial_mode (ed_agentUri pg),
     ef_manualUri = (if initial_mode (ed_agentUri pg) = Manual then (case ed_agentUri pg of Some u \<Rightarrow> u | None \<Rightarrow> []) else [])\<rparr>"

definition estimatedUriSize :: "nat \<Rightarrow> int" where
  "estimatedUriSize bytes = 29 + \<lceil>of_nat (bytes * 4) / 3 :: rat\<rceil>"

definition validationError :: "form_env \<Rightarrow> edit_page \<Rightarrow> edit_form \<Rightarrow> string" where
  "validationError e pg f =
     (let name = Js_Numbers.trim (fm_name (ef_data f)) in
      if name = [] then ''Agent name is required''
      else if 256 < length name then ''Agent name must be 256 characters or fewer''
      else (case (if ef_uriMode f = Auto then getMetadataSize (fe_platform e) (buildMetadataJsonForEdit (ef_data f) (ed_rawUriData pg)) else Inl []) of
          Inr bytes \<Rightarrow>
            if 8192 < estimatedUriSize bytes
            then ''Metadata too large (~'' @ show_int (estimatedUriSize bytes) @ '' bytes, max 8KB). Reduce description or services.'' else []
        | Inl _ \<Rightarrow>
            if ef_uriMode f = Manual \<and> Js_Numbers.trim (ef_manualUri f) = [] then ''Manual URI is required when URI mode is manual'' else []))"

definition edit_uri :: "form_env \<Rightarrow> edit_page \<Rightarrow> edit_form \<Rightarrow> string + string" where
  "edit_uri e pg f = (case ef_uriMode f of
      Auto \<Rightarrow> toDataUri (fe_platform e) (buildMetadataJsonForEdit (ef_data f) (ed_rawUriData pg))
    | Manual \<Rightarrow> Inr (Js_Numbers.trim (ef_manualUri f)))"

definition saveMetadata :: "form_env \<Rightarrow> edit_page \<Rightarrow> WalletState \<Rightarrow> edit_form \<Rightarrow> edit_form" where
  "saveMetadata e pg w f =
     (if validationError e pg f \<noteq> [] then f
      else let f1 = begins f in case wallet_caller w of
          None \<Rightarrow> fail_with disconnected f1
        | Some caller \<Rightarrow> (case sbind (edit_uri e pg f) (\<lambda>uri. sbind (validateAgentUri uri) (\<lambda>_. Inr uri)) of
            Inl m \<Rightarrow> rejected e Identity_Registry m f1
          | Inr uri \<Rightarrow> invoke e Identity_Registry w (Set_Agent_Uri caller (ed_id pg) uri) f1))"

inductive edit_step :: "form_env \<Rightarrow> edit_page \<Rightarrow> edit_form \<Rightarrow> edit_form \<Rightarrow> bool" for e pg where
  "edit_step e pg f (f\<lparr>ef_data := x\<rparr>)"
| "edit_step e pg f (f\<lparr>ef_uriMode := m\<rparr>)"
| "edit_step e pg f (f\<lparr>ef_manualUri := t\<rparr>)"
| "ws_connected w \<Longrightarrow> pr_status f \<noteq> Submitting \<Longrightarrow> edit_step e pg f (saveMetadata e pg w f)"
| "edit_step e pg f (answered e Identity_Registry a f)"

section \<open>The wallet of an agent\<close>

record binding_form = progress +
  bf_walletInput :: string
  bf_showUnbindConfirm :: bool

definition new_binding_form :: binding_form where
  "new_binding_form = \<lparr>pr_status = Idle, pr_errorMsg = [], pr_txHash = [], pr_calls = [], bf_walletInput = [], bf_showUnbindConfirm = False\<rparr>"

definition addressError :: "form_env \<Rightarrow> binding_form \<Rightarrow> string" where
  "addressError e f = (let v = Js_Numbers.trim (bf_walletInput f) in
     if v = [] then [] else (case validateStellarAddress (fe_strkey e) v ''Wallet'' of Inr _ \<Rightarrow> [] | Inl m \<Rightarrow> m))"

definition bindWallet :: "form_env \<Rightarrow> WalletState \<Rightarrow> binding_form \<Rightarrow> binding_form" where
  "bindWallet e w f = (let v = Js_Numbers.trim (bf_walletInput f) in
     if v = [] \<or> addressError e f \<noteq> [] then f
     else (case wallet_caller w of
         None \<Rightarrow> fail_with disconnected f
       | Some caller \<Rightarrow> invoke e Identity_Registry w (Set_Agent_Wallet caller (fe_agentId e) v) (begins f)))"

definition unbindWallet :: "form_env \<Rightarrow> WalletState \<Rightarrow> binding_form \<Rightarrow> binding_form" where
  "unbindWallet e w f = (case wallet_caller w of
      None \<Rightarrow> fail_with disconnected f
    | Some caller \<Rightarrow> invoke e Identity_Registry w (Unset_Agent_Wallet caller (fe_agentId e)) ((begins f)\<lparr>bf_showUnbindConfirm := False\<rparr>))"

inductive binding_step :: "form_env \<Rightarrow> binding_form \<Rightarrow> binding_form \<Rightarrow> bool" for e where
  "pr_status f \<noteq> Submitting \<Longrightarrow> binding_step e f (f\<lparr>bf_walletInput := t\<rparr>)"
| "binding_step e f (f\<lparr>bf_walletInput := (case ws_address (w :: WalletState) of Some a \<Rightarrow> a | None \<Rightarrow> [])\<rparr>)"
| "binding_step e f (f\<lparr>bf_showUnbindConfirm := b\<rparr>)"
| "pr_status f \<noteq> Submitting \<Longrightarrow> binding_step e f (bindWallet e w f)"
| "pr_status f \<noteq> Submitting \<Longrightarrow> bf_showUnbindConfirm f \<Longrightarrow> binding_step e f (unbindWallet e w f)"
| "binding_step e f (answered e Identity_Registry a f)"

section \<open>The agent page\<close>

record uri_form = progress +
  uf_showUriEditor :: bool
  uf_newUri :: string

definition new_uri_form :: uri_form where
  "new_uri_form = \<lparr>pr_status = Idle, pr_errorMsg = [], pr_txHash = [], pr_calls = [], uf_showUriEditor = False, uf_newUri = []\<rparr>"

definition submitUriUpdate :: "form_env \<Rightarrow> WalletState \<Rightarrow> uri_form \<Rightarrow> uri_form" where
  "submitUriUpdate e w f = (let uri = Js_Numbers.trim (uf_newUri f) in
     if uri = [] then f
     else (case wallet_caller w of
         None \<Rightarrow> fail_with disconnected f
       | Some caller \<Rightarrow> (case validateAgentUri uri of
           Inl m \<Rightarrow> rejected e Identity_Registry m (begins f)
         | Inr _ \<Rightarrow> invoke e Identity_Registry w (Set_Agent_Uri caller (fe_agentId e) uri) (begins f))))"

text \<open>The timer that closes the editor after a success, the cancel button, and opening the editor with the current URI.\<close>

definition close_editor :: "uri_form \<Rightarrow> uri_form" where
  "close_editor f = f\<lparr>uf_showUriEditor := False, pr_status := Idle\<rparr>"

inductive uri_step :: "form_env \<Rightarrow> uri_form \<Rightarrow> uri_form \<Rightarrow> bool" for e where
  "uri_step e f (f\<lparr>uf_showUriEditor := True, uf_newUri := t\<rparr>)"
| "uri_step e f (f\<lparr>uf_newUri := t\<rparr>)"
| "uri_step e f (close_editor f)"
| "pr_status f \<noteq> Submitting \<Longrightarrow> uri_step e f (submitUriUpdate e w f)"
| "uri_step e f (answered e Identity_Registry a f)"

text \<open>Polling while an agent is indexed or resolved.\<close>

record polling =
  pl_timer :: bool
  pl_count :: nat
  pl_reloads :: nat

definition MAX_POLLS :: nat where
  "MAX_POLLS = 18"

definition transitional :: "page_state \<Rightarrow> bool" where
  "transitional st \<longleftrightarrow> st = Indexing \<or> st = Resolving"

definition start_polling :: "page_state \<Rightarrow> polling" where
  "start_polling st = \<lparr>pl_timer = transitional st, pl_count = 0, pl_reloads = 0\<rparr>"

definition poll_tick :: "polling \<Rightarrow> polling" where
  "poll_tick p = (if \<not> pl_timer p then p
     else if MAX_POLLS \<le> pl_count p + 1 then p\<lparr>pl_count := pl_count p + 1, pl_timer := False\<rparr>
     else p\<lparr>pl_count := pl_count p + 1, pl_reloads := pl_reloads p + 1\<rparr>)"

definition poll_effect :: "page_state \<Rightarrow> polling \<Rightarrow> polling" where
  "poll_effect st p = (if transitional st then p else p\<lparr>pl_timer := False\<rparr>)"

definition pollTimedOut :: "page_state \<Rightarrow> polling \<Rightarrow> bool" where
  "pollTimedOut st p \<longleftrightarrow> st = Indexing \<and> MAX_POLLS \<le> pl_count p"

definition showTryPanel :: "agent_page \<Rightarrow> bool" where
  "showTryPanel pg \<longleftrightarrow> (ag_x402Enabled pg \<or> ag_mppEnabled pg) \<and> ag_services pg \<noteq> [] \<and> ag_state pg = Ready"

section \<open>What forms send\<close>

text \<open>A form that starts without calls, keeps an invariant and only makes allowed calls while it holds, only ever makes allowed calls.\<close>

locale form_machine =
  fixes init :: 's and step :: "'s \<Rightarrow> 's \<Rightarrow> bool" and calls :: "'s \<Rightarrow> chain_call list" and inv :: "'s \<Rightarrow> bool" and allowed :: "chain_call \<Rightarrow> bool"
  assumes starts: "calls init = []" "inv init"
    and keeps_inv: "inv p \<Longrightarrow> step p p' \<Longrightarrow> inv p'"
    and sends: "inv p \<Longrightarrow> step p p' \<Longrightarrow> calls p' = calls p \<or> (\<exists>c. calls p' = c # calls p \<and> allowed c)"
begin

lemma steps_inv: "step\<^sup>*\<^sup>* init p \<Longrightarrow> inv p"
  by (induction rule: rtranclp_induct) (auto intro: starts keeps_inv)

lemma all_allowed: "step\<^sup>*\<^sup>* init p \<Longrightarrow> list_all allowed (calls p)"
proof (induction rule: rtranclp_induct)
  case (step p p')
  then show ?case using sends [OF steps_inv [OF step(1)] step(2)] by auto
qed (simp add: starts)

end

lemmas progress_defs = fail_with_def begins_def rejected_def

lemma calls_kept [simp]:
  "pr_calls (fail_with m p) = pr_calls p" "pr_calls (begins p) = pr_calls p" "pr_calls (rejected e r m p) = pr_calls p"
  "pr_calls (answered e r a p) = pr_calls p"
  by (simp_all add: progress_defs answered_def split: sum.split)

text \<open>A call is made with the contract client of its registry for the key of the wallet.\<close>

definition called :: "form_env \<Rightarrow> registry \<Rightarrow> chain_method \<Rightarrow> chain_call \<Rightarrow> bool" where
  "called e r m c \<longleftrightarrow> cc_method c = m \<and> (\<exists>w. getClients (fe_config e) w = Inr (createClients (fe_config e) (co_publicKey (cc_client c)))) \<and>
     cc_client c = createClients (fe_config e) (co_publicKey (cc_client c)) r"

lemma invoke_calls: "pr_calls (invoke e r w m p) = pr_calls p \<or> (\<exists>c. pr_calls (invoke e r w m p) = c # pr_calls p \<and> called e r m c)"
  by (auto simp: invoke_def called_def getClients_def createClients_def split: sum.split if_splits)

subsection \<open>Feedback\<close>

definition feedback_inv :: "feedback_form \<Rightarrow> bool" where
  "feedback_inv f \<longleftrightarrow> ff_value f \<in> fst ` set SCORE_STEPS \<and> ff_tag1 f \<in> fst ` set TAG_OPTIONS \<and> length (ff_tag2 f) \<le> 64 \<and>
     list_all (\<lambda>(caller, uri). caller \<noteq> [] \<and> (\<exists>s \<in> set EVIDENCE_SCHEMES. prefix s uri)) (ff_hashing f)"

definition feedback_allowed :: "form_env \<Rightarrow> chain_call \<Rightarrow> bool" where
  "feedback_allowed e c \<longleftrightarrow> (\<exists>caller v tag1 tag2 endpoint uri h.
     called e Reputation_Registry (Give_Feedback caller (fe_agentId e) v 0 tag1 tag2 endpoint uri h) c \<and> caller \<noteq> [] \<and>
     v \<in> {0, 20, 40, 60, 80, 100} \<and> tag1 \<in> fst ` set TAG_OPTIONS \<and> length tag2 \<le> 64 \<and>
     (uri = [] \<and> h = replicate 32 0 \<or> (\<exists>s \<in> set EVIDENCE_SCHEMES. prefix s uri) \<and> h = sha256Hash (fe_hash e) uri))"

lemma give_feedback_fields [simp]:
  "ff_value (give_feedback e w c u h f) = ff_value f" "ff_tag1 (give_feedback e w c u h f) = ff_tag1 f"
  "ff_tag2 (give_feedback e w c u h f) = ff_tag2 f" "ff_hashing (give_feedback e w c u h f) = ff_hashing f"
  by (simp_all add: give_feedback_def invoke_def fail_with_def split: sum.split)

lemma step_values: "fst ` set SCORE_STEPS = {0, 20, 40, 60, 80, 100}"
  by (simp add: SCORE_STEPS_def)

lemma pointer_value: "feedback_inv f \<Longrightarrow> feedback_inv (handlePointerMove x track f)"
proof -
  have "nat (min \<lfloor>r * 6\<rfloor> 5) < 6" for r :: rat by simp
  then have "fst (SCORE_STEPS ! nat (min \<lfloor>r * 6\<rfloor> 5)) \<in> fst ` set SCORE_STEPS" for r :: rat
    by (intro imageI nth_mem) (simp add: SCORE_STEPS_def)
  then show "feedback_inv f \<Longrightarrow> feedback_inv (handlePointerMove x track f)"
    by (auto simp: feedback_inv_def handlePointerMove_def Let_def SCORE_STEPS_def [THEN arg_cong, of length] split: option.split)
qed

lemma give_feedback_calls:
  assumes "feedback_inv f" "caller \<noteq> []" "uri = [] \<and> h = replicate 32 0 \<or> (\<exists>s \<in> set EVIDENCE_SCHEMES. prefix s uri) \<and> h = sha256Hash (fe_hash e) uri"
  shows "pr_calls (give_feedback e w caller uri h f) = pr_calls f \<or>
    (\<exists>c. pr_calls (give_feedback e w caller uri h f) = c # pr_calls f \<and> feedback_allowed e c)"
  using invoke_calls [of e Reputation_Registry w "Give_Feedback caller (fe_agentId e) (ff_value f) 0 (ff_tag1 f) (ff_tag2 f) (ff_endpoint f) uri h" f] assms
  unfolding give_feedback_def feedback_allowed_def feedback_inv_def step_values by blast

lemma submit_feedback_cases:
  obtains (failed) m where "submit_feedback e w f = fail_with m f \<or> submit_feedback e w f = fail_with m (begins f)"
    | (plain) caller where "caller \<noteq> []" "submit_feedback e w f = give_feedback e w caller [] (replicate 32 0) (begins f)"
    | (evidence) caller uri where "caller \<noteq> []" "\<exists>s \<in> set EVIDENCE_SCHEMES. prefix s uri"
      "submit_feedback e w f = (begins f)\<lparr>ff_hashing := (caller, uri) # ff_hashing f\<rparr>"
proof (cases "if ws_connected w then wallet_caller w else None")
  case None
  then show thesis by (intro failed [of "''Connect your wallet to submit feedback.''"]) (simp add: submit_feedback_def)
next
  case (Some caller)
  note c = this
  then have caller: "caller \<noteq> []" by (auto simp: wallet_caller_def split: if_splits option.splits)
  let ?check = "sbind (validateTag (ff_tag1 f) ''Tag 1'') (\<lambda>_. if ff_tag2 f \<noteq> [] then validateTag (ff_tag2 f) ''Tag 2'' else Inr ())"
  let ?uri = "Js_Numbers.trim (ff_evidenceUri f)"
  show thesis
  proof (cases ?check)
    case (Inl m)
    with c show thesis by (intro failed) (simp add: submit_feedback_def rejected_def Let_def, blast)
  next
    case (Inr u)
    consider "?uri = []" | "?uri \<noteq> []" "\<exists>s \<in> set EVIDENCE_SCHEMES. prefix s ?uri" | "?uri \<noteq> []" "\<not> (\<exists>s \<in> set EVIDENCE_SCHEMES. prefix s ?uri)" by blast
    then show thesis
    proof cases
      case 1
      with c Inr show thesis by (intro plain [OF caller]) (simp add: submit_feedback_def Let_def)
    next
      case 2
      with c Inr show thesis by (intro evidence [OF caller 2(2)]) (simp add: submit_feedback_def Let_def begins_def)
    next
      case 3
      with c Inr show thesis by (intro failed) (simp add: submit_feedback_def rejected_def Let_def, blast)
    qed
  qed
qed

text \<open>Whatever the fields hold, a submission goes on only with tags that the SDK accepts.\<close>

lemma submit_feedback_tags:
  assumes "pr_calls (submit_feedback e w f) \<noteq> pr_calls f \<or> ff_hashing (submit_feedback e w f) \<noteq> ff_hashing f"
  shows "validateTag (ff_tag1 f) ''Tag 1'' = Inr () \<and> (ff_tag2 f \<noteq> [] \<longrightarrow> validateTag (ff_tag2 f) ''Tag 2'' = Inr ())"
proof (rule ccontr)
  assume bad: "\<not> ?thesis"
  let ?check = "sbind (validateTag (ff_tag1 f) ''Tag 1'') (\<lambda>_. if ff_tag2 f \<noteq> [] then validateTag (ff_tag2 f) ''Tag 2'' else Inr ())"
  from bad obtain m where "?check = Inl m"
    by (cases "validateTag (ff_tag1 f) ''Tag 1''"; cases "validateTag (ff_tag2 f) ''Tag 2''") auto
  then have "submit_feedback e w f = rejected e Reputation_Registry m (begins f) \<or>
      submit_feedback e w f = fail_with ''Connect your wallet to submit feedback.'' f"
    by (auto simp: submit_feedback_def Let_def simp del: sbind_simps split: option.split)
  with assms show False by (auto simp: rejected_def fail_with_def begins_def)
qed

lemma feedback_inv_submit: "feedback_inv f \<Longrightarrow> feedback_inv (submit_feedback e w f)"
  by (cases rule: submit_feedback_cases [of e w f]) (auto simp: feedback_inv_def fail_with_def begins_def)

lemma feedback_inv_step:
  assumes "feedback_inv f" "feedback_step e f f'"
  shows "feedback_inv f'"
  using assms(2)
proof cases
  case (2 x track)
  with assms(1) show ?thesis by (simp add: pointer_value)
next
  case (9 w)
  with assms(1) show ?thesis by (simp add: feedback_inv_submit)
next
  case (10 xs c ys w)
  with assms(1) show ?thesis by (cases c) (simp add: feedback_inv_def hashed_def)
next
  case (11 a)
  with assms(1) show ?thesis by (simp add: feedback_inv_def answered_def fail_with_def split: sum.split)
qed (use assms(1) in \<open>simp_all add: feedback_inv_def handlePointerDown_def handlePointerUp_def reset_feedback_def step_values TAG_OPTIONS_def\<close>)

lemma feedback_sends:
  assumes "feedback_inv f" "feedback_step e f f'"
  shows "pr_calls f' = pr_calls f \<or> (\<exists>c. pr_calls f' = c # pr_calls f \<and> feedback_allowed e c)"
  using assms(2)
proof cases
  case (9 w)
  show ?thesis
  proof (cases rule: submit_feedback_cases [of e w f])
    case (plain caller)
    have "feedback_inv (begins f)" using assms(1) by (simp add: feedback_inv_def begins_def)
    from give_feedback_calls [OF this plain(1), of "[]" "replicate 32 0" e w] show ?thesis by (simp add: 9 plain(2))
  qed (auto simp: 9)
next
  case (10 xs c ys w)
  obtain caller uri where c: "c = (caller, uri)" by (cases c)
  let ?f = "f\<lparr>ff_hashing := xs @ ys\<rparr>"
  have inv: "feedback_inv ?f" and uri: "caller \<noteq> []" "\<exists>s \<in> set EVIDENCE_SCHEMES. prefix s uri"
    using assms(1) 10(2) by (auto simp: feedback_inv_def c)
  from give_feedback_calls [OF inv uri(1), of uri "sha256Hash (fe_hash e) uri" e w] uri(2) show ?thesis by (simp add: 10 c hashed_def)
qed (simp_all add: handlePointerDown_def handlePointerMove_def handlePointerUp_def reset_feedback_def Let_def split: option.split)

interpretation fbm: form_machine new_feedback_form "feedback_step e" pr_calls feedback_inv "feedback_allowed e"
proof unfold_locales
  show "feedback_inv new_feedback_form" by (simp add: feedback_inv_def new_feedback_form_def SCORE_STEPS_def TAG_OPTIONS_def)
qed (simp add: new_feedback_form_def, (rule feedback_inv_step; assumption), (rule feedback_sends; assumption))

subsection \<open>The other forms\<close>

definition uri_allowed :: "form_env \<Rightarrow> int \<Rightarrow> chain_call \<Rightarrow> bool" where
  "uri_allowed e i c \<longleftrightarrow> (\<exists>caller uri. called e Identity_Registry (Set_Agent_Uri caller i uri) c \<and> caller \<noteq> [] \<and> validateAgentUri uri = Inr ())"

definition register_allowed :: "form_env \<Rightarrow> chain_call \<Rightarrow> bool" where
  "register_allowed e c \<longleftrightarrow> (\<exists>caller. caller \<noteq> [] \<and> (called e Identity_Registry (Register caller) c \<or>
     (\<exists>uri. called e Identity_Registry (Register_With_Uri caller uri) c \<and> uri \<noteq> [] \<and> validateAgentUri uri = Inr ())))"

definition binding_allowed :: "form_env \<Rightarrow> chain_call \<Rightarrow> bool" where
  "binding_allowed e c \<longleftrightarrow> (\<exists>caller. caller \<noteq> [] \<and> (called e Identity_Registry (Unset_Agent_Wallet caller (fe_agentId e)) c \<or>
     (\<exists>a. called e Identity_Registry (Set_Agent_Wallet caller (fe_agentId e) a) c \<and> sdk_isValidStellarAddress (fe_strkey e) a)))"

text \<open>The address of a request is read after the check and is not part of the condition.\<close>

definition validation_allowed :: "form_env \<Rightarrow> chain_call \<Rightarrow> bool" where
  "validation_allowed e c \<longleftrightarrow> (\<exists>caller a uri n. called e Validation_Registry (Validation_Request caller a (fe_agentId e) uri n) c \<and> caller \<noteq> [] \<and>
     (\<exists>checked. sdk_isValidStellarAddress (fe_strkey e) checked \<and> generateRequestNonce (fe_hash e) (fe_agentId e) checked None = Inr n))"

lemma caller_not_empty: "wallet_caller w = Some caller \<Longrightarrow> caller \<noteq> []"
  by (auto simp: wallet_caller_def split: option.splits if_splits)

lemma invoke_sends: "(\<And>c. called e r m c \<Longrightarrow> allowed c) \<Longrightarrow> pr_calls p = cs \<Longrightarrow>
    pr_calls (invoke e r w m p) = cs \<or> (\<exists>c. pr_calls (invoke e r w m p) = c # cs \<and> allowed c)"
  using invoke_calls [of e r w m p] by blast

lemma submit_register_sends:
  "pr_calls (submit_register e w f) = pr_calls f \<or> (\<exists>c. pr_calls (submit_register e w f) = c # pr_calls f \<and> register_allowed e c)"
proof (cases "wallet_caller w")
  case (Some caller)
  let ?uri = "sbind (register_uri e f) (\<lambda>uri. if uri = [] then Inr uri else sbind (validateAgentUri uri) (\<lambda>_. Inr uri))"
  show ?thesis
  proof (cases ?uri)
    case (Inr uri)
    then have valid: "uri \<noteq> [] \<Longrightarrow> validateAgentUri uri = Inr ()" by (auto simp: sbind_eq_Inr split: if_splits)
    show ?thesis
      unfolding submit_register_def Let_def Some Inr option.case sum.case
      by (rule invoke_sends) (use valid caller_not_empty [OF Some] in \<open>auto simp: register_allowed_def split: if_splits\<close>)
  qed (simp add: submit_register_def Some Let_def)
qed (simp add: submit_register_def Let_def)

lemma saveMetadata_sends:
  "pr_calls (saveMetadata e pg w f) = pr_calls f \<or> (\<exists>c. pr_calls (saveMetadata e pg w f) = c # pr_calls f \<and> uri_allowed e (ed_id pg) c)"
proof (cases "validationError e pg f = [] \<and> wallet_caller w \<noteq> None")
  case True
  then obtain caller where caller: "wallet_caller w = Some caller" by blast
  let ?uri = "sbind (edit_uri e pg f) (\<lambda>uri. sbind (validateAgentUri uri) (\<lambda>_. Inr uri))"
  show ?thesis
  proof (cases ?uri)
    case (Inr uri)
    then have "validateAgentUri uri = Inr ()" by (auto simp: sbind_eq_Inr)
    then have "pr_calls (invoke e Identity_Registry w (Set_Agent_Uri caller (ed_id pg) uri) (begins f)) = pr_calls f \<or>
        (\<exists>c. pr_calls (invoke e Identity_Registry w (Set_Agent_Uri caller (ed_id pg) uri) (begins f)) = c # pr_calls f \<and> uri_allowed e (ed_id pg) c)"
      by (intro invoke_sends) (use caller_not_empty [OF caller] in \<open>auto simp: uri_allowed_def\<close>)
    then show ?thesis using True Inr caller by (simp add: saveMetadata_def Let_def)
  qed (use True caller in \<open>simp add: saveMetadata_def Let_def\<close>)
qed (auto simp: saveMetadata_def Let_def)

lemma submitUriUpdate_sends:
  "pr_calls (submitUriUpdate e w f) = pr_calls f \<or> (\<exists>c. pr_calls (submitUriUpdate e w f) = c # pr_calls f \<and> uri_allowed e (fe_agentId e) c)"
proof (cases "wallet_caller w")
  case (Some caller)
  let ?uri = "Js_Numbers.trim (uf_newUri f)"
  show ?thesis
  proof (cases "validateAgentUri ?uri")
    case (Inr u)
    then have "pr_calls (invoke e Identity_Registry w (Set_Agent_Uri caller (fe_agentId e) ?uri) (begins f)) = pr_calls f \<or>
        (\<exists>c. pr_calls (invoke e Identity_Registry w (Set_Agent_Uri caller (fe_agentId e) ?uri) (begins f)) = c # pr_calls f \<and> uri_allowed e (fe_agentId e) c)"
      by (intro invoke_sends) (use caller_not_empty [OF Some] in \<open>auto simp: uri_allowed_def\<close>)
    then show ?thesis using Inr Some by (simp add: submitUriUpdate_def Let_def)
  qed (use Some in \<open>simp add: submitUriUpdate_def Let_def\<close>)
qed (auto simp: submitUriUpdate_def Let_def)

lemma bindWallet_sends:
  "pr_calls (bindWallet e w f) = pr_calls f \<or> (\<exists>c. pr_calls (bindWallet e w f) = c # pr_calls f \<and> binding_allowed e c)"
proof (cases "Js_Numbers.trim (bf_walletInput f) \<noteq> [] \<and> addressError e f = [] \<and> wallet_caller w \<noteq> None")
  case True
  let ?v = "Js_Numbers.trim (bf_walletInput f)"
  from True obtain caller where caller: "wallet_caller w = Some caller" by blast
  from True have valid: "sdk_isValidStellarAddress (fe_strkey e) ?v" by (auto simp: addressError_def validateStellarAddress_def Let_def split: if_splits)
  have "pr_calls (invoke e Identity_Registry w (Set_Agent_Wallet caller (fe_agentId e) ?v) (begins f)) = pr_calls f \<or>
      (\<exists>c. pr_calls (invoke e Identity_Registry w (Set_Agent_Wallet caller (fe_agentId e) ?v) (begins f)) = c # pr_calls f \<and> binding_allowed e c)"
    by (intro invoke_sends) (use caller_not_empty [OF caller] valid in \<open>auto simp: binding_allowed_def\<close>)
  then show ?thesis using True caller by (simp add: bindWallet_def Let_def)
qed (auto simp: bindWallet_def Let_def)

lemma unbindWallet_sends:
  "pr_calls (unbindWallet e w f) = pr_calls f \<or> (\<exists>c. pr_calls (unbindWallet e w f) = c # pr_calls f \<and> binding_allowed e c)"
proof (cases "wallet_caller w")
  case (Some caller)
  show ?thesis
    unfolding unbindWallet_def Some option.case
    by (rule invoke_sends) (use caller_not_empty [OF Some] in \<open>auto simp: binding_allowed_def\<close>)
qed (simp add: unbindWallet_def)

interpretation regm: form_machine new_register_form "register_step e" pr_calls "\<lambda>_. True" "register_allowed e"
proof unfold_locales
  fix p p' assume "register_step e p p'"
  then show "pr_calls p' = pr_calls p \<or> (\<exists>c. pr_calls p' = c # pr_calls p \<and> register_allowed e c)"
    by cases (use submit_register_sends in auto)
qed (simp_all add: new_register_form_def)

interpretation edm: form_machine "new_edit_form pg" "edit_step e pg" pr_calls "\<lambda>_. True" "uri_allowed e (ed_id pg)"
proof unfold_locales
  fix p p' assume "edit_step e pg p p'"
  then show "pr_calls p' = pr_calls p \<or> (\<exists>c. pr_calls p' = c # pr_calls p \<and> uri_allowed e (ed_id pg) c)"
    by cases (use saveMetadata_sends in auto)
qed (simp_all add: new_edit_form_def)

interpretation urm: form_machine new_uri_form "uri_step e" pr_calls "\<lambda>_. True" "uri_allowed e (fe_agentId e)"
proof unfold_locales
  fix p p' assume "uri_step e p p'"
  then show "pr_calls p' = pr_calls p \<or> (\<exists>c. pr_calls p' = c # pr_calls p \<and> uri_allowed e (fe_agentId e) c)"
    by cases (use submitUriUpdate_sends in \<open>auto simp: close_editor_def\<close>)
qed (simp_all add: new_uri_form_def)

interpretation bim: form_machine new_binding_form "binding_step e" pr_calls "\<lambda>_. True" "binding_allowed e"
proof unfold_locales
  fix p p' assume "binding_step e p p'"
  then show "pr_calls p' = pr_calls p \<or> (\<exists>c. pr_calls p' = c # pr_calls p \<and> binding_allowed e c)"
    by cases (use bindWallet_sends unbindWallet_sends in auto)
qed (simp_all add: new_binding_form_def)

definition nonce_ok :: "form_env \<Rightarrow> string \<times> client_options \<times> 8 word list \<Rightarrow> bool" where
  "nonce_ok e = (\<lambda>(caller, client, n). caller \<noteq> [] \<and>
     (\<exists>w. getClients (fe_config e) w = Inr (createClients (fe_config e) (co_publicKey client))) \<and>
     client = createClients (fe_config e) (co_publicKey client) Validation_Registry \<and>
     (\<exists>checked. sdk_isValidStellarAddress (fe_strkey e) checked \<and> generateRequestNonce (fe_hash e) (fe_agentId e) checked None = Inr n))"

definition validation_inv :: "form_env \<Rightarrow> validation_form \<Rightarrow> bool" where
  "validation_inv e f \<longleftrightarrow> list_all (nonce_ok e) (vf_nonces f)"

lemma submit_validation_keeps: "validation_inv e f \<Longrightarrow> validation_inv e (submit_validation e w f) \<and> pr_calls (submit_validation e w f) = pr_calls f"
proof (cases "if ws_connected w then wallet_caller w else None")
  case (Some caller)
  assume inv: "validation_inv e f"
  from Some have caller: "caller \<noteq> []" using caller_not_empty by (auto split: if_splits)
  show ?thesis
  proof (cases "sdk_isValidStellarAddress (fe_strkey e) (vf_address f)")
    case True
    have "nonce_ok e (caller, clients Validation_Registry, n)"
      if "getClients (fe_config e) (ws_signer w) = Inr clients" "generateRequestNonce (fe_hash e) (fe_agentId e) (vf_address f) None = Inr n" for clients n
    proof -
      from that(1) have clients: "clients = createClients (fe_config e) (co_publicKey (clients Validation_Registry))"
        by (auto simp: getClients_def createClients_def split: if_splits)
      then show ?thesis unfolding nonce_ok_def using caller that True by (metis (mono_tags, lifting) case_prod_conv)
    qed
    with inv Some True show ?thesis
      by (auto simp: submit_validation_def Let_def validation_inv_def rejected_def fail_with_def begins_def split: sum.split)
  qed (use inv Some in \<open>simp add: submit_validation_def\<close>)
qed (simp add: submit_validation_def validation_inv_def fail_with_def)

interpretation vam: form_machine new_validation_form "validation_step e" pr_calls "validation_inv e" "validation_allowed e"
proof unfold_locales
  fix p p' assume inv: "validation_inv e p" and step: "validation_step e p p'"
  from step show "validation_inv e p'"
    by cases (use inv submit_validation_keeps in \<open>auto simp: validation_inv_def nonce_ready_def answered_def fail_with_def split: sum.split prod.split\<close>)
  from step show "pr_calls p' = pr_calls p \<or> (\<exists>c. pr_calls p' = c # pr_calls p \<and> validation_allowed e c)"
  proof cases
    case (4 xs c ys)
    obtain caller client n where c: "c = (caller, client, n)" by (cases c)
    from inv 4(2) have "called e Validation_Registry (Validation_Request caller (vf_address p) (fe_agentId e) (vf_requestUri p) n)
        \<lparr>cc_client = client, cc_method = Validation_Request caller (vf_address p) (fe_agentId e) (vf_requestUri p) n\<rparr>"
      "caller \<noteq> []" "\<exists>checked. sdk_isValidStellarAddress (fe_strkey e) checked \<and> generateRequestNonce (fe_hash e) (fe_agentId e) checked None = Inr n"
      by (auto simp: validation_inv_def nonce_ok_def called_def c)
    then have "validation_allowed e \<lparr>cc_client = client, cc_method = Validation_Request caller (vf_address p) (fe_agentId e) (vf_requestUri p) n\<rparr>"
      unfolding validation_allowed_def by blast
    then show ?thesis by (simp add: 4 c nonce_ready_def vf_address_def)
  qed (use inv submit_validation_keeps in auto)
qed (simp_all add: new_validation_form_def validation_inv_def)

subsection \<open>Polling and sizes\<close>

text \<open>Polling ends: after 18 ticks the timer is off, whatever the page became in between, with at most 17 reloads.\<close>

lemma poll_tick_bound: "pl_timer p \<Longrightarrow> pl_count p < MAX_POLLS \<Longrightarrow> pl_reloads p = pl_count p \<Longrightarrow>
   (let q = poll_tick p in pl_count q = pl_count p + 1 \<and> (pl_timer q \<longleftrightarrow> pl_count q < MAX_POLLS) \<and> (pl_timer q \<longrightarrow> pl_reloads q = pl_count q) \<and> pl_reloads q < MAX_POLLS)"
  by (auto simp: poll_tick_def Let_def)

lemma polling_stops: "\<not> pl_timer ((poll_tick ^^ MAX_POLLS) (start_polling st)) \<and> pl_reloads ((poll_tick ^^ MAX_POLLS) (start_polling st)) < MAX_POLLS"
proof -
  have "k \<le> MAX_POLLS \<Longrightarrow> transitional st \<Longrightarrow> (poll_tick ^^ k) (start_polling st) =
      \<lparr>pl_timer = (k < MAX_POLLS), pl_count = k, pl_reloads = (if k < MAX_POLLS then k else k - 1)\<rparr>" for k
    by (induction k) (auto simp: start_polling_def poll_tick_def MAX_POLLS_def)
  from this [of MAX_POLLS] have run: "transitional st \<Longrightarrow> ?thesis" by (simp add: MAX_POLLS_def)
  have "(poll_tick ^^ k) (start_polling st) = start_polling st" if "\<not> transitional st" for k
    using that by (induction k) (simp_all add: poll_tick_def start_polling_def)
  with run show ?thesis by (cases "transitional st") (simp_all add: start_polling_def MAX_POLLS_def)
qed

text \<open>The size the edit form estimates is at most two bytes below the size of the URI it builds.\<close>

lemma estimate_close:
  assumes "pf_stringify pf json = Inr txt"
  shows "estimatedUriSize (length (pf_encode pf txt)) \<le> int (length (data_prefix @ bytesToBase64 (pf_encode pf txt))) \<and>
    int (length (data_prefix @ bytesToBase64 (pf_encode pf txt))) \<le> estimatedUriSize (length (pf_encode pf txt)) + 2"
proof -
  let ?n = "length (pf_encode pf txt)"
  have len: "int (length (data_prefix @ bytesToBase64 (pf_encode pf txt))) = 29 + int (4 * ((?n + 2) div 3))"
    by (simp add: data_prefix_def bytesToBase64_def length_btoa)
  have "\<lceil>of_nat (?n * 4) / 3 :: rat\<rceil> = (int ?n * 4 + 2) div 3"
  proof -
    have "\<lceil>of_int (int ?n * 4) / of_int 3 :: rat\<rceil> = - ((- (int ?n * 4)) div 3)" unfolding ceiling_divide_eq_div ..
    also have "\<dots> = (int ?n * 4 + 2) div 3" by presburger
    finally show ?thesis by simp
  qed
  moreover have "(int ?n * 4 + 2) div 3 \<le> int (4 * ((?n + 2) div 3)) \<and> int (4 * ((?n + 2) div 3)) \<le> (int ?n * 4 + 2) div 3 + 2"
    by (simp add: zdiv_int) presburger
  ultimately show ?thesis unfolding len estimatedUriSize_def by simp
qed

section \<open>Properties\<close>

text \<open>C26. What a form asks the wallet to sign has been checked: however typing, clicks, late results and answers interleave and however the
  wallet changes meanwhile, every feedback sent has one of the six scores, short tags and either no evidence and a zero hash or an
  evidence URI of an allowed scheme with the hash of that URI, and whatever the tag fields hold, a submission goes on only if the SDK
  accepts the tags; every URI registered or set passed the check of the SDK; every bound wallet is a valid address; and every call goes to
  the configured contract for a non-empty caller and concerns the agent of the page. A validation request too goes to the configured
  contract, for a non-empty caller and the agent of the page, with a nonce made for an address that was valid; the address sent
  with it is read later and need not be that one.\<close>

theorem forms_send_checked:
  "(\<forall>f. (feedback_step e)\<^sup>*\<^sup>* new_feedback_form f \<longrightarrow> list_all (feedback_allowed e) (pr_calls f)) \<and>
   (\<forall>f w. pr_calls (submit_feedback e w f) \<noteq> pr_calls f \<or> ff_hashing (submit_feedback e w f) \<noteq> ff_hashing f \<longrightarrow>
      validateTag (ff_tag1 f) ''Tag 1'' = Inr () \<and> (ff_tag2 f \<noteq> [] \<longrightarrow> validateTag (ff_tag2 f) ''Tag 2'' = Inr ())) \<and>
   (\<forall>f. (register_step e)\<^sup>*\<^sup>* new_register_form f \<longrightarrow> list_all (register_allowed e) (pr_calls f)) \<and>
   (\<forall>f. (edit_step e pg)\<^sup>*\<^sup>* (new_edit_form pg) f \<longrightarrow> list_all (uri_allowed e (ed_id pg)) (pr_calls f)) \<and>
   (\<forall>f. (uri_step e)\<^sup>*\<^sup>* new_uri_form f \<longrightarrow> list_all (uri_allowed e (fe_agentId e)) (pr_calls f)) \<and>
   (\<forall>f. (binding_step e)\<^sup>*\<^sup>* new_binding_form f \<longrightarrow> list_all (binding_allowed e) (pr_calls f)) \<and>
   (\<forall>f. (validation_step e)\<^sup>*\<^sup>* new_validation_form f \<longrightarrow> list_all (validation_allowed e) (pr_calls f))"
  using fbm.all_allowed submit_feedback_tags regm.all_allowed edm.all_allowed urm.all_allowed bim.all_allowed vam.all_allowed by blast

definition sample_form_env :: form_env where
  "sample_form_env = \<lparr>fe_hash = ve_hash sample_viewer_env, fe_platform = \<lparr>pf_stringify = (\<lambda>_. Inr []), pf_encode = (\<lambda>_. []), pf_number = (\<lambda>_. [])\<rparr>,
     fe_strkey = \<lparr>sk_ed25519 = (\<lambda>_. True), sk_contract = (\<lambda>_. False)\<rparr>, fe_config = TESTNET_CONFIG ''net'', fe_fmt = (\<lambda>_. []), fe_agentId = 7\<rparr>"

definition sending_wallet :: WalletState where
  "sending_wallet = new_wallet\<lparr>ws_signer := new_signer\<lparr>sg_publicKey := ''G''\<rparr>, ws_address := Some ''G'', ws_connected := True\<rparr>"

definition evidence_form :: "string \<Rightarrow> feedback_form" where
  "evidence_form uri = new_feedback_form\<lparr>ff_evidenceUri := uri\<rparr>"

lemma evidence_form_sends:
  assumes trim: "Js_Numbers.trim uri = uri" and uri: "uri \<noteq> []" "\<exists>s \<in> set EVIDENCE_SCHEMES. prefix s uri" "length uri \<le> 256"
  shows "\<exists>f c. (feedback_step sample_form_env)\<^sup>*\<^sup>* new_feedback_form f \<and> pr_calls f = [c] \<and>
     cc_method c = Give_Feedback ''G'' 7 60 0 ''starred'' [] [] uri (sha256Hash (fe_hash sample_form_env) uri)"
proof -
  let ?e = "sample_form_env" and ?w = sending_wallet and ?f = "evidence_form uri"
  let ?f1 = "submit_feedback ?e ?w ?f"
  have f1: "?f1 = (begins ?f)\<lparr>ff_hashing := [(''G'', uri)]\<rparr>"
    using uri by (simp add: submit_feedback_def sending_wallet_def wallet_caller_def new_wallet_def evidence_form_def new_feedback_form_def validateTag_def
        MAX_TAG_LENGTH_def trim begins_def)
  let ?f2 = "hashed ?e ?w (''G'', uri) (?f1\<lparr>ff_hashing := [] @ []\<rparr>)"
  have "feedback_step ?e new_feedback_form ?f" unfolding evidence_form_def using uri(3) by (rule feedback_step.intros(7))
  moreover have "feedback_step ?e ?f ?f1"
    by (rule feedback_step.intros(9)) (simp_all add: evidence_form_def new_feedback_form_def sending_wallet_def new_wallet_def)
  moreover have "feedback_step ?e ?f1 ?f2" by (rule feedback_step.intros(10)) (simp add: f1)
  ultimately have "(feedback_step ?e)\<^sup>*\<^sup>* new_feedback_form ?f2" by (meson rtranclp.intros)
  moreover have "\<exists>c. pr_calls ?f2 = [c] \<and> cc_method c = Give_Feedback ''G'' 7 60 0 ''starred'' [] [] uri (sha256Hash (fe_hash ?e) uri)"
    unfolding f1
    by (simp add: hashed_def give_feedback_def invoke_def getClients_def sending_wallet_def new_wallet_def begins_def evidence_form_def new_feedback_form_def
        sample_form_env_def)
  ultimately show ?thesis by blast
qed

lemma sample_uris:
  "Js_Numbers.trim ''ipfs://cid'' = ''ipfs://cid''" "Js_Numbers.trim ''https://x'' = ''https://x''"
  "\<exists>s \<in> set EVIDENCE_SCHEMES. prefix s ''ipfs://cid''" "\<exists>s \<in> set EVIDENCE_SCHEMES. prefix s ''https://x''"
  by (simp_all add: Js_Numbers.trim_def is_space_def code_of_def EVIDENCE_SCHEMES_def)

theorem forms_send_checked_witness:
  "\<exists>f c. (feedback_step sample_form_env)\<^sup>*\<^sup>* new_feedback_form f \<and> pr_calls f = [c] \<and> feedback_allowed sample_form_env c"
proof -
  obtain f c where f: "(feedback_step sample_form_env)\<^sup>*\<^sup>* new_feedback_form f" "pr_calls f = [c]" 
    using evidence_form_sends [OF sample_uris(1) _ sample_uris(3)] by auto
  from f(1) forms_send_checked [of sample_form_env] have "list_all (feedback_allowed sample_form_env) (pr_calls f)" by blast
  with f show ?thesis by auto
qed

text \<open>C27. Evidence sent with the feedback form does not verify: the form puts the hash of the evidence URI on chain, while the viewer compares
  with the hash of the evidence. A viewer of such a feedback can show a check mark only for evidence whose SHA-256 equals that of its
  own URI; and for an \<open>http\<close> or \<open>https\<close> URI, which the form accepts, it never loads or shows anything: every load ends in an error without a
  request.\<close>

theorem form_evidence_unverified:
  assumes "(feedback_step e)\<^sup>*\<^sup>* new_feedback_form f" and "c \<in> set (pr_calls f)"
    and "cc_method c = Give_Feedback caller agent v decimals tag1 tag2 endpoint uri h" and "uri \<noteq> []"
    and "ve_hash ve = fe_hash e" and "\<forall>bs. hs_sha256 (fe_hash e) bs \<noteq> []"
    and "viewer_reachable ve (Some uri) (Some (toHex (NBytes h))) vw"
  shows "(vw_hashStatus vw = Some Verified \<longrightarrow> prefix ''ipfs://'' uri \<and>
      (\<exists>fetched raw. fetchEvidence (ve_decode ve) fetched uri = Inr raw \<and> hs_sha256 (fe_hash e) raw = hs_sha256 (fe_hash e) (hs_encode (fe_hash e) uri))) \<and>
    (prefix ''http://'' uri \<or> prefix ''https://'' uri \<longrightarrow> vw_evidenceJson vw = None \<and> vw_hashStatus vw = None \<and>
      (\<forall>fetched. fetchEvidence (ve_decode ve) fetched uri = Inl ''Unsupported evidence URI (expected ipfs:// or data:)''))"
proof (intro conjI impI)
  have "feedback_allowed e c" using fbm.all_allowed [OF assms(1)] assms(2) by (simp add: list_all_iff)
  then have scheme: "\<exists>s \<in> set EVIDENCE_SCHEMES. prefix s uri" and h: "h = sha256Hash (fe_hash e) uri"
    using assms(3,4) by (auto simp: feedback_allowed_def called_def)
  have plain: "\<not> prefix ''data:'' uri" using scheme by (auto simp: EVIDENCE_SCHEMES_def prefix_def)
  note judged = viewer_judged [OF assms(7)]
  {
    assume "vw_hashStatus vw = Some Verified"
    moreover have "h \<noteq> []" using assms(6) by (simp add: h sha256Hash_def)
    then have "toHex (NBytes h) \<noteq> []" by (cases h) (simp_all add: toHex_def hex_byte_def)
    ultimately obtain fetched raw
      where raw: "fetchEvidence (ve_decode ve) fetched uri = Inr raw" "verifyHash (ve_hash ve) raw (toHex (NBytes h))"
      using judged by (auto simp: judged_def split: if_splits)
    from raw(1) plain show "prefix ''ipfs://'' uri" by (auto simp: fetchEvidence_def extractCid_def split: if_splits)
    from raw show "\<exists>fetched raw. fetchEvidence (ve_decode ve) fetched uri = Inr raw \<and>
        hs_sha256 (fe_hash e) raw = hs_sha256 (fe_hash e) (hs_encode (fe_hash e) uri)"
      using assms(5) by (auto simp: verifyHash_bytes h sha256Hash_def)
  }
  assume "prefix ''http://'' uri \<or> prefix ''https://'' uri"
  then have "\<not> prefix ''ipfs://'' uri" by (auto simp: prefix_def)
  with plain have none: "fetchEvidence (ve_decode ve) fetched uri = Inl ''Unsupported evidence URI (expected ipfs:// or data:)''" for fetched
    by (simp add: fetchEvidence_def extractCid_def)
  then show "\<forall>fetched. fetchEvidence (ve_decode ve) fetched uri = Inl ''Unsupported evidence URI (expected ipfs:// or data:)''" by simp
  show "vw_hashStatus vw = None" using judged none by (cases "vw_hashStatus vw") (auto simp: judged_def)
  then show "vw_evidenceJson vw = None" using judged by (simp add: judged_def)
qed

theorem form_evidence_unverified_witness:
  "(\<exists>fetched raw. fetchEvidence (ve_decode sample_viewer_env) fetched ''ipfs://cid'' = Inr raw \<and> hs_sha256 (ve_hash sample_viewer_env) raw = [10]) \<and>
   vw_evidenceJson (finish_load sample_viewer_env ''https://x'' (Some (toHex (NBytes [9]))) (\<lambda>_. Some []) (toggle_viewer (Some ''https://x'') new_viewer)) = None"
proof
  let ?e = sample_form_env and ?ve = sample_viewer_env
  have hashes: "ve_hash ?ve = fe_hash ?e" "\<forall>bs. hs_sha256 (fe_hash ?e) bs \<noteq> []"
    by (simp_all add: sample_form_env_def sample_viewer_env_def)
  have h: "sha256Hash (fe_hash ?e) ''ipfs://cid'' = [10]" "sha256Hash (fe_hash ?e) ''https://x'' = [9]"
    by (simp_all add: sha256Hash_def sample_form_env_def sample_viewer_env_def)
  have loading: "vw_loading (toggle_viewer (Some u) new_viewer)" if "u \<noteq> []" for u
    using that by (simp add: toggle_viewer_def new_viewer_def loadEvidence_def)
  have reach: "viewer_reachable ?ve (Some u) hash (finish_load ?ve u hash fetched (toggle_viewer (Some u) new_viewer))" if "u \<noteq> []" for u hash fetched
    using loading [OF that] by (intro loaded toggled opened) simp_all
  {
    obtain f c where f: "(feedback_step ?e)\<^sup>*\<^sup>* new_feedback_form f" "pr_calls f = [c]"
      "cc_method c = Give_Feedback ''G'' 7 60 0 ''starred'' [] [] ''ipfs://cid'' (sha256Hash (fe_hash ?e) ''ipfs://cid'')"
      using evidence_form_sends [OF sample_uris(1) _ sample_uris(3)] by auto
    let ?v = "finish_load ?ve ''ipfs://cid'' (Some (toHex (NBytes [10]))) (\<lambda>_. Some (replicate 10 7)) (toggle_viewer (Some ''ipfs://cid'') new_viewer)"
    have "verifyHash (ve_hash ?ve) (replicate 10 7) (toHex (NBytes [10]))" unfolding verifyHash_bytes by (simp add: sample_viewer_env_def)
    moreover have "toHex (NBytes [10]) \<noteq> []" by (simp add: toHex_def hex_byte_def)
    ultimately have verified: "vw_hashStatus ?v = Some Verified"
      by (simp add: finish_load_def fetchEvidence_def extractCid_def fetchFromGateways_def IPFS_GATEWAYS_def)
    have "c \<in> set (pr_calls f)" by (simp add: f(2))
    from form_evidence_unverified [OF f(1) this f(3) _ hashes, unfolded h, OF _ reach] verified
    show "\<exists>fetched raw. fetchEvidence (ve_decode ?ve) fetched ''ipfs://cid'' = Inr raw \<and> hs_sha256 (ve_hash ?ve) raw = [10]"
      using h(1) by (auto simp: hashes(1) sha256Hash_def)
  }
  obtain f c where f: "(feedback_step ?e)\<^sup>*\<^sup>* new_feedback_form f" "pr_calls f = [c]"
    "cc_method c = Give_Feedback ''G'' 7 60 0 ''starred'' [] [] ''https://x'' (sha256Hash (fe_hash ?e) ''https://x'')"
    using evidence_form_sends [OF sample_uris(2) _ sample_uris(4)] by auto
  have "c \<in> set (pr_calls f)" by (simp add: f(2))
  from form_evidence_unverified [OF f(1) this f(3) _ hashes, unfolded h, OF _ reach]
  show "vw_evidenceJson (finish_load ?ve ''https://x'' (Some (toHex (NBytes [9]))) (\<lambda>_. Some []) (toggle_viewer (Some ''https://x'') new_viewer)) = None"
    by simp
qed

text \<open>The validation form checks the address before it waits for the nonce and sends what is typed afterwards.\<close>

lemma validation_address_unchecked:
  "\<exists>e f caller a uri n c. (validation_step e)\<^sup>*\<^sup>* new_validation_form f \<and> pr_calls f = [c] \<and>
     cc_method c = Validation_Request caller a (fe_agentId e) uri n \<and> \<not> sdk_isValidStellarAddress (fe_strkey e) a"
proof -
  define e where "e = sample_form_env\<lparr>fe_strkey := \<lparr>sk_ed25519 = (\<lambda>s. s = ''A''), sk_contract = (\<lambda>_. False)\<rparr>\<rparr>"
  define f1 where "f1 = new_validation_form\<lparr>vf_validatorAddress := ''A''\<rparr>"
  define f2 where "f2 = submit_validation e sending_wallet f1"
  define f3 where "f3 = f2\<lparr>vf_validatorAddress := ''B''\<rparr>"
  have trims: "Js_Numbers.trim ''A'' = ''A''" "Js_Numbers.trim ''B'' = ''B''" by (simp_all add: Js_Numbers.trim_def is_space_def code_of_def)
  obtain q where q: "vf_nonces f3 = [] @ q # []" "pr_calls f3 = []" "vf_validatorAddress f3 = ''B''"
    by (cases "vf_nonces f3") (auto simp: f3_def f2_def f1_def submit_validation_def sending_wallet_def new_wallet_def wallet_caller_def vf_address_def trims
        sdk_isValidStellarAddress_def e_def getClients_def generateRequestNonce_def begins_def new_validation_form_def)
  have "validation_step e new_validation_form f1" unfolding f1_def by (rule validation_step.intros(1))
  moreover have "validation_step e f1 f2" unfolding f2_def
    by (rule validation_step.intros(3)) (simp_all add: f1_def new_validation_form_def sending_wallet_def new_wallet_def)
  moreover have "validation_step e f2 f3" unfolding f3_def by (rule validation_step.intros(1))
  moreover have "validation_step e f3 (nonce_ready e q (f3\<lparr>vf_nonces := [] @ []\<rparr>))" by (rule validation_step.intros(4) [OF q(1)])
  ultimately have "(validation_step e)\<^sup>*\<^sup>* new_validation_form (nonce_ready e q (f3\<lparr>vf_nonces := [] @ []\<rparr>))" by (meson rtranclp.intros)
  moreover obtain caller client n where "q = (caller, client, n)" by (cases q)
  moreover have "\<not> sdk_isValidStellarAddress (fe_strkey e) ''B''" by (simp add: e_def sdk_isValidStellarAddress_def)
  ultimately show ?thesis using q(2,3) trims(2)
    by (intro exI [of _ e] exI [of _ "nonce_ready e q (f3\<lparr>vf_nonces := [] @ []\<rparr>)"]) (simp add: nonce_ready_def vf_address_def)
qed

end
