(* ===== verification/Web_Controls.thy ===== *)
theory Web_Controls
  imports Web_Lists Web_Forms
begin

text \<open>
  Controls of the pages: the filters of the agent list (\<open>routes/agents/+page.svelte\<close>), the theme (\<open>lib/theme.svelte.ts\<close>, \<open>ThemeToggle.svelte\<close> and the
  script of \<open>app.html\<close>), the identicon (\<open>StarIdenticon.svelte\<close>), and the parts of the registration form: services, trust models, the card and
  the size of the document (\<open>components/register/*.svelte\<close>, \<open>agent-edit/MetadataEditor.svelte\<close>).

  The lemmas show that the loader of the agent list reads exactly the filters that were chosen, that the theme on the page is always the
  one the choice asks for, also after a reload, that the identicon is symmetric, and that the editor of the services adds only what the
  checks accept, at most twenty.
\<close>

section \<open>Filters of the agent list\<close>

text \<open>\<open>URLSearchParams\<close>: \<open>delete\<close>, \<open>set\<close> and \<open>append\<close>.\<close>

definition url_delete :: "string \<Rightarrow> params \<Rightarrow> params" where
  "url_delete k = filter (\<lambda>(k', v). k' \<noteq> k)"

fun url_set :: "string \<Rightarrow> string \<Rightarrow> params \<Rightarrow> params" where
  "url_set k v [] = [(k, v)]"
| "url_set k v (kv # ps) = (if fst kv = k then (k, v) # url_delete k ps else kv # url_set k v ps)"

definition url_append :: "string \<Rightarrow> string \<Rightarrow> params \<Rightarrow> params" where
  "url_append k v ps = ps @ [(k, v)]"

text \<open>The state of the page. The number input is bound to a number, or to nothing when it is empty.\<close>

record filter_form =
  ff_reputation :: bool
  ff_cryptoEconomic :: bool
  ff_tee :: bool
  ff_minScore :: "jsnum option"
  ff_services :: bool

definition form_of :: "list_request \<Rightarrow> filter_form" where
  "form_of q = \<lparr>ff_reputation = (''reputation'' \<in> set (lr_trust q)), ff_cryptoEconomic = (''crypto-economic'' \<in> set (lr_trust q)),
     ff_tee = (''tee-attestation'' \<in> set (lr_trust q)), ff_minScore = Some (JFin (lr_minScore q)), ff_services = lr_services q\<rparr>"

text \<open>\<open>Math.max(0, Math.min(100, Number(minScoreValue) || 0))\<close>.\<close>

definition clamped :: "filter_form \<Rightarrow> rat" where
  "clamped f = (case ff_minScore f of Some (JFin r) \<Rightarrow> max 0 (min 100 r) | Some (JInf True) \<Rightarrow> 100 | _ \<Rightarrow> 0)"

definition chosen_trust :: "filter_form \<Rightarrow> string list" where
  "chosen_trust f = (if ff_reputation f then [''reputation''] else []) @ (if ff_cryptoEconomic f then [''crypto-economic''] else []) @
     (if ff_tee f then [''tee-attestation''] else [])"

definition reset_params :: "params \<Rightarrow> params" where
  "reset_params ps = url_set ''page'' ''1'' (url_delete ''services'' (url_delete ''min_score'' (url_delete ''trust'' ps)))"

definition applyFilters :: "(rat \<Rightarrow> string) \<Rightarrow> filter_form \<Rightarrow> params \<Rightarrow> params" where
  "applyFilters print f ps =
     (let ps1 = reset_params ps;
          ps2 = (if ff_reputation f then url_append ''trust'' ''reputation'' ps1 else ps1);
          ps3 = (if ff_cryptoEconomic f then url_append ''trust'' ''crypto-economic'' ps2 else ps2);
          ps4 = (if ff_tee f then url_append ''trust'' ''tee-attestation'' ps3 else ps3);
          ps5 = (if 0 < clamped f then url_set ''min_score'' (print (clamped f)) ps4 else ps4)
      in if ff_services f then url_set ''services'' ''true'' ps5 else ps5)"

definition clearFilters :: "params \<Rightarrow> filter_form \<times> params" where
  "clearFilters ps = (\<lparr>ff_reputation = False, ff_cryptoEconomic = False, ff_tee = False, ff_minScore = Some (JFin 0), ff_services = False\<rparr>, reset_params ps)"

definition hasActiveFilters :: "list_request \<Rightarrow> bool" where
  "hasActiveFilters q \<longleftrightarrow> 0 < length (lr_trust q) \<or> 0 < lr_minScore q \<or> lr_services q"

definition activeFilterCount :: "filter_form \<Rightarrow> nat" where
  "activeFilterCount f = (if ff_reputation f then 1 else 0) + (if ff_cryptoEconomic f then 1 else 0) + (if ff_tee f then 1 else 0) +
     (if ff_services f then 1 else 0) + (if (case ff_minScore f of Some x \<Rightarrow> num_less (JFin 0) x | None \<Rightarrow> False) then 1 else 0)"

lemma param_delete [simp]: "param (url_delete k ps) j = (if j = k then None else param ps j)"
  by (induction ps) (auto simp: param_def url_delete_def)

lemma param_set [simp]: "param (url_set k v ps) j = (if j = k then Some v else param ps j)"
proof (induction ps)
  case (Cons kv ps)
  have "j \<noteq> k \<Longrightarrow> map_of (url_delete k ps) j = map_of ps j" using param_delete [of k ps j] by (simp add: param_def)
  with Cons show ?case by (cases kv) (auto simp: param_def)
qed (simp add: param_def)

lemma param_append [simp]: "param (url_append k v ps) j = (case param ps j of Some x \<Rightarrow> Some x | None \<Rightarrow> if j = k then Some v else None)"
  by (auto simp: param_def url_append_def map_add_def split: option.split)

definition trusts :: "params \<Rightarrow> string list" where
  "trusts ps = map snd (filter (\<lambda>(k, v). k = ''trust'' \<and> v \<noteq> []) ps)"

lemma trusts_delete [simp]: "trusts (url_delete k ps) = (if k = ''trust'' then [] else trusts ps)"
  by (induction ps) (auto simp: trusts_def url_delete_def)

lemma trusts_set [simp]: "k \<noteq> ''trust'' \<Longrightarrow> trusts (url_set k v ps) = trusts ps"
proof (induction ps)
  case (Cons kv ps)
  have "trusts (url_delete k ps) = trusts ps" using Cons.prems by simp
  with Cons show ?case by (auto simp: trusts_def)
qed (simp add: trusts_def)

lemma trusts_append [simp]: "trusts (url_append k v ps) = trusts ps @ (if k = ''trust'' \<and> v \<noteq> [] then [v] else [])"
  by (simp add: trusts_def url_append_def)

lemma one_text: "number_of_text ''1'' = JFin 1"
proof -
  have "show_nat 1 = ''1''" by code_simp
  with number_of_show_nat [of 1] show ?thesis by simp
qed

text \<open>After applying the filters the loader reads exactly what was chosen, on the first page, and the rest of the request is the same. The text of a
  number reads back as the number.\<close>

theorem filters_applied:
  assumes "number_of_text (print (clamped f)) = JFin (clamped f)"
  shows "read_request (applyFilters print f ps) = (read_request ps)\<lparr>lr_page := 1, lr_trust := chosen_trust f, lr_minScore := clamped f, lr_services := ff_services f\<rparr>"
proof -
  let ?ps = "applyFilters print f ps"
  have keep: "param ?ps k = param ps k" if "k \<notin> {''page'', ''trust'', ''min_score'', ''services''}" for k
    using that by (auto simp: applyFilters_def reset_params_def Let_def split: option.split)
  have page: "param ?ps ''page'' = Some ''1''" by (simp add: applyFilters_def reset_params_def Let_def)
  have trust: "trusts ?ps = chosen_trust f" by (simp add: applyFilters_def reset_params_def Let_def chosen_trust_def)
  have services: "param ?ps ''services'' = (if ff_services f then Some ''true'' else None)" by (simp add: applyFilters_def reset_params_def Let_def)
  have score: "param ?ps ''min_score'' = (if 0 < clamped f then Some (print (clamped f)) else None)"
    by (simp add: applyFilters_def reset_params_def Let_def)
  have range: "0 \<le> clamped f" "clamped f \<le> 100" by (auto simp: clamped_def split: option.split jsnum.split bool.split)
  then have "min_score_of ?ps = clamped f"
    using assms score number_texts(1) by (auto simp: min_score_of_def text_param_def)
  moreover have "page_of ?ps = 1" by (simp add: page_of_def text_param_def page one_text)
  ultimately show ?thesis
    using trust services by (simp add: read_request_def trusts_def text_param_def keep Let_def)
qed

theorem filters_applied_witness:
  "read_request (applyFilters (\<lambda>_. ''0.5'') \<lparr>ff_reputation = True, ff_cryptoEconomic = False, ff_tee = True, ff_minScore = Some (JFin (1 / 2)), ff_services = False\<rparr>
     [(''q'', ''bot''), (''trust'', ''x''), (''page'', ''7'')]) =
   (read_request [(''q'', ''bot''), (''trust'', ''x''), (''page'', ''7'')])\<lparr>lr_page := 1, lr_trust := [''reputation'', ''tee-attestation''], lr_minScore := 1 / 2, lr_services := False\<rparr>"
proof -
  let ?f = "\<lparr>ff_reputation = True, ff_cryptoEconomic = False, ff_tee = True, ff_minScore = Some (JFin (1 / 2)), ff_services = False\<rparr>"
  have "clamped ?f = 1 / 2" "chosen_trust ?f = [''reputation'', ''tee-attestation'']" by (simp_all add: clamped_def chosen_trust_def)
  with filters_applied [of "\<lambda>_. ''0.5''" ?f] number_texts(2) show ?thesis by simp
qed

text \<open>Clearing is applying an empty form.\<close>

lemma filters_cleared: "snd (clearFilters ps) = applyFilters print (fst (clearFilters ps)) ps"
  by (simp add: clearFilters_def applyFilters_def clamped_def Let_def)

text \<open>A trust filter that the page has no switch for is active but not counted, and the next change drops it.\<close>

lemma unknown_trust_filter:
  fixes q :: list_request
  assumes "lr_trust q = [''zk'']" "lr_minScore q = 0" "\<not> lr_services q"
  shows "hasActiveFilters q" "activeFilterCount (form_of q) = 0" "chosen_trust (form_of q) = []"
  using assms by (simp_all add: hasActiveFilters_def activeFilterCount_def form_of_def chosen_trust_def)

section \<open>Theme\<close>

datatype ThemeChoice = Light_Choice | Dark_Choice | System_Choice
datatype ResolvedTheme = Light | Dark

text \<open>The store, what the browser keeps (\<open>localStorage\<close>), the \<open>data-theme\<close> attribute of the document and the preference of the system.\<close>

record theme_state =
  th_choice :: ThemeChoice
  th_resolved :: ResolvedTheme
  th_initialized :: bool
  th_stored :: "string option"
  th_attr :: ResolvedTheme
  th_prefersLight :: bool

definition getSystemTheme :: "theme_state \<Rightarrow> ResolvedTheme" where
  "getSystemTheme t = (if th_prefersLight t then Light else Dark)"

definition apply_theme :: "ResolvedTheme \<Rightarrow> theme_state \<Rightarrow> theme_state" where
  "apply_theme next t = (if th_resolved t = next then t else t\<lparr>th_resolved := next, th_attr := next\<rparr>)"

definition set_theme :: "ThemeChoice \<Rightarrow> theme_state \<Rightarrow> theme_state" where
  "set_theme c t =
     (let t1 = t\<lparr>th_choice := c, th_stored := (case c of System_Choice \<Rightarrow> None | Light_Choice \<Rightarrow> Some ''light'' | Dark_Choice \<Rightarrow> Some ''dark'')\<rparr>
      in apply_theme (case c of System_Choice \<Rightarrow> getSystemTheme t1 | Light_Choice \<Rightarrow> Light | Dark_Choice \<Rightarrow> Dark) t1)"

definition init_theme :: "theme_state \<Rightarrow> theme_state" where
  "init_theme t =
     (if th_initialized t then t
      else let t1 = t\<lparr>th_initialized := True\<rparr>
           in if th_stored t1 = Some ''light'' then t1\<lparr>th_choice := Light_Choice, th_resolved := Light\<rparr>
              else if th_stored t1 = Some ''dark'' then t1\<lparr>th_choice := Dark_Choice, th_resolved := Dark\<rparr>
              else t1\<lparr>th_choice := System_Choice, th_resolved := getSystemTheme t1\<rparr>)"

text \<open>The listener on the preference of the system, and the script of the document that runs before the application.\<close>

definition preference_changed :: "bool \<Rightarrow> theme_state \<Rightarrow> theme_state" where
  "preference_changed light t = (let t1 = t\<lparr>th_prefersLight := light\<rparr>
     in if th_initialized t1 \<and> th_choice t1 = System_Choice then apply_theme (getSystemTheme t1) t1 else t1)"

definition page_script :: "theme_state \<Rightarrow> theme_state" where
  "page_script t = t\<lparr>th_attr := (if th_stored t = Some ''light'' then Light else if th_stored t = Some ''dark'' then Dark else getSystemTheme t)\<rparr>"

definition modes :: "ThemeChoice list" where
  "modes = [Light_Choice, System_Choice, Dark_Choice]"

definition index_of :: "'a list \<Rightarrow> 'a \<Rightarrow> nat" where
  "index_of xs x = length (takeWhile (\<lambda>y. y \<noteq> x) xs)"

definition cycle :: "theme_state \<Rightarrow> theme_state" where
  "cycle t = set_theme (modes ! ((index_of modes (th_choice t) + 1) mod length modes)) t"

text \<open>A page load: a new document and a new store, with what the browser has stored.\<close>

definition load_page :: "string option \<Rightarrow> bool \<Rightarrow> theme_state" where
  "load_page stored light = init_theme (page_script \<lparr>th_choice = System_Choice, th_resolved = Dark, th_initialized = False, th_stored = stored,
     th_attr = Dark, th_prefersLight = light\<rparr>)"

inductive themed :: "theme_state \<Rightarrow> bool" where
  themed_load: "themed (load_page stored light)"
| themed_set: "themed t \<Longrightarrow> themed (set_theme c t)"
| themed_cycle: "themed t \<Longrightarrow> themed (cycle t)"
| themed_preference: "themed t \<Longrightarrow> themed (preference_changed light t)"
| themed_init: "themed t \<Longrightarrow> themed (init_theme t)"

definition theme_ok :: "theme_state \<Rightarrow> bool" where
  "theme_ok t \<longleftrightarrow> th_initialized t \<and> th_attr t = th_resolved t \<and>
     (case th_choice t of
        Light_Choice \<Rightarrow> th_resolved t = Light \<and> th_stored t = Some ''light''
      | Dark_Choice \<Rightarrow> th_resolved t = Dark \<and> th_stored t = Some ''dark''
      | System_Choice \<Rightarrow> th_resolved t = getSystemTheme t \<and> th_stored t \<noteq> Some ''light'' \<and> th_stored t \<noteq> Some ''dark'')"

lemma set_theme_ok: "th_initialized t \<Longrightarrow> th_attr t = th_resolved t \<Longrightarrow> theme_ok (set_theme c t)"
  by (cases c) (auto simp: theme_ok_def set_theme_def apply_theme_def getSystemTheme_def Let_def)

text \<open>The document always shows the theme that the choice and the system ask for, and loading the page again keeps the choice and the theme.\<close>

theorem theme_shown:
  assumes "themed t"
  shows "theme_ok t \<and> th_choice (load_page (th_stored t) (th_prefersLight t)) = th_choice t \<and>
    th_attr (load_page (th_stored t) (th_prefersLight t)) = th_attr t"
proof -
  have "theme_ok t"
    using assms
  proof (induction rule: themed.induct)
    case (themed_load stored light)
    show ?case by (simp add: theme_ok_def load_page_def init_theme_def page_script_def getSystemTheme_def Let_def)
  next
    case (themed_set t c)
    then show ?case by (intro set_theme_ok) (auto simp: theme_ok_def)
  next
    case (themed_cycle t)
    then show ?case unfolding cycle_def by (intro set_theme_ok) (auto simp: theme_ok_def)
  next
    case (themed_preference t light)
    then show ?case
      by (auto simp: theme_ok_def preference_changed_def apply_theme_def getSystemTheme_def Let_def split: ThemeChoice.splits)
  next
    case (themed_init t)
    then show ?case by (simp add: theme_ok_def init_theme_def)
  qed
  then show ?thesis
    by (auto simp: theme_ok_def load_page_def init_theme_def page_script_def getSystemTheme_def Let_def split: ThemeChoice.splits)
qed

theorem theme_shown_witness: "th_attr (load_page (th_stored (cycle (load_page None True))) True) = Dark"
proof -
  let ?t = "cycle (load_page None True)"
  have t: "th_attr ?t = Dark" "th_prefersLight ?t"
    by (simp_all add: cycle_def load_page_def init_theme_def page_script_def modes_def index_of_def set_theme_def apply_theme_def getSystemTheme_def Let_def)
  with theme_shown [OF themed_cycle [OF themed_load [of None True]]] show ?thesis by simp
qed

lemma set_theme_choice: "th_choice (set_theme c t) = c"
  by (simp add: set_theme_def apply_theme_def Let_def)

lemma cycle_choice: "th_choice (cycle t) = (case th_choice t of Light_Choice \<Rightarrow> System_Choice | System_Choice \<Rightarrow> Dark_Choice | Dark_Choice \<Rightarrow> Light_Choice)"
  by (cases "th_choice t") (simp_all add: cycle_def set_theme_choice modes_def index_of_def)

lemma cycle_three: "th_choice (cycle (cycle (cycle t))) = th_choice t"
  by (simp add: cycle_choice split: ThemeChoice.split)

section \<open>Identicon\<close>

definition HUES :: "nat list" where
  "HUES = [210, 250, 285, 320, 160, 190, 140, 30, 350, 55, 115, 270]"

text \<open>\<open>(h * 31 + c) | 0\<close> is arithmetic on 32-bit integers: the product of a 32-bit integer and 31 is exact in a double.\<close>

definition mix :: "32 word \<Rightarrow> nat \<Rightarrow> 32 word" where
  "mix h c = h * 31 + word_of_nat c"

definition low_byte :: "32 word \<Rightarrow> nat" where
  "low_byte h = nat \<bar>sint h\<bar> mod 256"

fun hash_chars :: "string \<Rightarrow> nat \<Rightarrow> 32 word \<Rightarrow> nat list \<Rightarrow> 32 word \<times> nat list" where
  "hash_chars [] i h bytes = (h, bytes)"
| "hash_chars (c # cs) i h bytes = (let h' = mix h (code_of c)
     in hash_chars cs (Suc i) h' (if i mod 2 = 1 then bytes @ [low_byte h'] else bytes))"

function hash_fill :: "32 word \<Rightarrow> nat list \<Rightarrow> nat list" where
  "hash_fill h bytes = (if length bytes < 32 then let h' = mix h (length bytes) in hash_fill h' (bytes @ [low_byte h']) else bytes)"
  by pat_completeness auto
termination
  by (relation "measure (\<lambda>(h, bytes). 32 - length bytes)") auto

declare hash_fill.simps [simp del]

definition hashBytes :: "string \<Rightarrow> nat list" where
  "hashBytes str = (case hash_chars str 0 0 [] of (h, bytes) \<Rightarrow> hash_fill h bytes)"

definition hue :: "nat list \<Rightarrow> nat" where
  "hue bytes = HUES ! (bytes ! 0 mod length HUES)"

definition put_cell :: "nat \<Rightarrow> nat \<Rightarrow> nat \<Rightarrow> nat list list \<Rightarrow> nat list list" where
  "put_cell row col v cells = cells[row := (cells ! row)[col := v]]"

definition put_color :: "nat list \<Rightarrow> nat \<times> nat \<Rightarrow> nat list list \<Rightarrow> nat list list" where
  "put_color bytes rc cells = (case rc of (row, col) \<Rightarrow>
     let v = bytes ! (1 + row * 4 + col) mod 20;
         colorIdx = (if v < 10 then 0 else if v < 17 then 1 else 2)
     in put_cell (7 - row) (7 - col) colorIdx (put_cell (7 - row) col colorIdx (put_cell row (7 - col) colorIdx (put_cell row col colorIdx cells))))"

definition icon_grid :: "nat list \<Rightarrow> nat list list" where
  "icon_grid bytes = fold (put_color bytes) (List.product [0 ..< 4] [0 ..< 4]) (replicate 8 (replicate 8 0))"

lemma low_byte_less [simp]: "low_byte h < 256"
  by (simp add: low_byte_def)

lemma hash_fill_length: "length (hash_fill h bytes) = max 32 (length bytes)"
proof (induction h bytes rule: hash_fill.induct)
  case (1 h bytes)
  then show ?case by (subst hash_fill.simps) (auto simp: Let_def)
qed

lemma hash_fill_bytes: "\<forall>b \<in> set bytes. b < 256 \<Longrightarrow> \<forall>b \<in> set (hash_fill h bytes). b < 256"
proof (induction h bytes rule: hash_fill.induct)
  case (1 h bytes)
  show ?case
  proof (cases "length bytes < 32")
    case True
    have "\<forall>b \<in> set (bytes @ [low_byte (mix h (length bytes))]). b < 256" using 1(2) by auto
    from 1(1) [OF True refl this] True show ?thesis by (subst hash_fill.simps) (simp add: Let_def)
  qed (use 1(2) in \<open>subst hash_fill.simps, simp\<close>)
qed

lemma hash_chars_bytes: "\<forall>b \<in> set bytes. b < 256 \<Longrightarrow> \<forall>b \<in> set (snd (hash_chars cs i h bytes)). b < 256"
proof (induction cs arbitrary: i h bytes)
  case (Cons c cs)
  have "\<forall>b \<in> set (if i mod 2 = 1 then bytes @ [low_byte (mix h (code_of c))] else bytes). b < 256" using Cons.prems by auto
  then show ?case unfolding hash_chars.simps Let_def by (rule Cons.IH)
qed simp

text \<open>Every seed gives at least 32 bytes, so that the hue and all cells are defined, and the icon is symmetric in both directions.\<close>

lemma hashBytes_defined: "32 \<le> length (hashBytes s) \<and> (\<forall>b \<in> set (hashBytes s). b < 256)"
proof -
  obtain h bytes where b: "hash_chars s 0 0 [] = (h, bytes)" by fastforce
  then have "\<forall>b \<in> set bytes. b < 256" using hash_chars_bytes [of "[]" s 0 0] by simp
  with hash_fill_bytes show ?thesis by (simp add: hashBytes_def b hash_fill_length)
qed

definition cell_color :: "nat list \<Rightarrow> nat \<Rightarrow> nat \<Rightarrow> nat" where
  "cell_color bytes row col = (let v = bytes ! (1 + row * 4 + col) mod 20 in if v < 10 then 0 else if v < 17 then 1 else 2)"

lemma put_color_cells: "put_color bytes (row, col) cells = put_cell (7 - row) (7 - col) (cell_color bytes row col) (put_cell (7 - row) col (cell_color bytes row col)
    (put_cell row (7 - col) (cell_color bytes row col) (put_cell row col (cell_color bytes row col) cells)))"
  by (simp add: put_color_def cell_color_def Let_def)

lemma icon_rows:
  "icon_grid bytes = (let rows = map (\<lambda>row. let half = map (cell_color bytes row) [0 ..< 4] in half @ rev half) [0 ..< 4] in rows @ rev rows)"
  by (simp add: icon_grid_def upt_conv_Cons product_def put_color_cells put_cell_def eval_nat_numeral Let_def)

lemma palindrome_nth: "rev xs = xs \<Longrightarrow> i < length xs \<Longrightarrow> xs ! (length xs - 1 - i) = xs ! i"
  using rev_nth [of i xs] by simp

theorem icon_symmetric:
  assumes "row < 8" "col < 8"
  shows "icon_grid bytes ! row ! col = icon_grid bytes ! (7 - row) ! col \<and> icon_grid bytes ! row ! col = icon_grid bytes ! row ! (7 - col) \<and>
    icon_grid bytes ! row ! col < 3"
proof -
  let ?half = "\<lambda>row. map (cell_color bytes row) [0 ..< 4]"
  have pal: "rev (icon_grid bytes) = icon_grid bytes" and len: "length (icon_grid bytes) = 8" by (simp_all add: icon_rows Let_def)
  have "icon_grid bytes ! row \<in> set (icon_grid bytes)" using assms(1) len by simp
  then obtain r where r: "icon_grid bytes ! row = ?half r @ rev (?half r)" by (auto simp: icon_rows Let_def)
  have row_pal: "rev (icon_grid bytes ! row) = icon_grid bytes ! row" and row_len: "length (icon_grid bytes ! row) = 8" by (simp_all add: r)
  have "icon_grid bytes ! row ! col \<in> set (icon_grid bytes ! row)" using assms(2) row_len by simp
  then have "icon_grid bytes ! row ! col < 3" by (auto simp: r cell_color_def Let_def)
  moreover have "icon_grid bytes ! (7 - row) = icon_grid bytes ! row" using palindrome_nth [OF pal] assms(1) len by simp
  moreover have "icon_grid bytes ! row ! (7 - col) = icon_grid bytes ! row ! col" using palindrome_nth [OF row_pal] assms(2) row_len by simp
  ultimately show ?thesis by simp
qed

theorem icon_symmetric_witness: "icon_grid (hashBytes ''GA'') ! 0 ! 1 = icon_grid (hashBytes ''GA'') ! 7 ! 1"
  using icon_symmetric [of 0 1 "hashBytes ''GA''"] by simp

section \<open>Services of the form\<close>

datatype ServiceType = MCP | A2A | Custom

definition type_name :: "ServiceType \<Rightarrow> string" where
  "type_name t = (case t of MCP \<Rightarrow> ''MCP'' | A2A \<Rightarrow> ''A2A'' | Custom \<Rightarrow> ''Custom'')"

record service_editor =
  sv_activeTab :: ServiceType
  sv_currentName :: string
  sv_currentEndpoint :: string
  sv_currentVersion :: string
  sv_currentDescription :: string
  sv_currentInputExample :: string
  sv_services :: "ServiceEntry list"

definition new_editor :: "ServiceEntry list \<Rightarrow> service_editor" where
  "new_editor services = \<lparr>sv_activeTab = MCP, sv_currentName = ''MCP'', sv_currentEndpoint = [], sv_currentVersion = [], sv_currentDescription = [],
     sv_currentInputExample = [], sv_services = services\<rparr>"

definition MAX_SERVICES :: nat where
  "MAX_SERVICES = 20"

definition endpointError :: "service_editor \<Rightarrow> string" where
  "endpointError s = validateUrl (Js_Numbers.trim (sv_currentEndpoint s))"

definition canSave :: "service_editor \<Rightarrow> bool" where
  "canSave s \<longleftrightarrow> 0 < length (Js_Numbers.trim (sv_currentName s)) \<and> 0 < length (Js_Numbers.trim (sv_currentEndpoint s)) \<and> endpointError s = []"

definition isAtLimit :: "service_editor \<Rightarrow> bool" where
  "isAtLimit s \<longleftrightarrow> MAX_SERVICES \<le> length (sv_services s)"

definition default_name :: "ServiceType \<Rightarrow> string" where
  "default_name t = (if t = Custom then [] else type_name t)"

definition or_undefined :: "string \<Rightarrow> string option" where
  "or_undefined t = (let s = Js_Numbers.trim t in if s = [] then None else Some s)"

definition saveService :: "service_editor \<Rightarrow> service_editor" where
  "saveService s =
     (if \<not> canSave s \<or> isAtLimit s then s
      else s\<lparr>sv_services := sv_services s @ [\<lparr>se_name = Js_Numbers.trim (sv_currentName s), se_endpoint = Js_Numbers.trim (sv_currentEndpoint s),
               se_version = or_undefined (sv_currentVersion s), se_description = or_undefined (sv_currentDescription s),
               se_inputExample = or_undefined (sv_currentInputExample s)\<rparr>],
             sv_currentName := default_name (sv_activeTab s), sv_currentEndpoint := [], sv_currentVersion := [], sv_currentDescription := [],
             sv_currentInputExample := []\<rparr>)"

definition switchTab :: "ServiceType \<Rightarrow> service_editor \<Rightarrow> service_editor" where
  "switchTab tab s = s\<lparr>sv_activeTab := tab, sv_currentName := default_name tab\<rparr>"

definition remove_service :: "nat \<Rightarrow> service_editor \<Rightarrow> service_editor" where
  "remove_service i s = s\<lparr>sv_services := take i (sv_services s) @ drop (Suc i) (sv_services s)\<rparr>"

text \<open>What can happen: the inputs are there below the limit, the name can be typed on the last tab only.\<close>

inductive editor_step :: "service_editor \<Rightarrow> service_editor \<Rightarrow> bool" where
  "\<not> isAtLimit s \<Longrightarrow> sv_activeTab s = Custom \<Longrightarrow> editor_step s (s\<lparr>sv_currentName := t\<rparr>)"
| "\<not> isAtLimit s \<Longrightarrow> editor_step s (s\<lparr>sv_currentEndpoint := e, sv_currentVersion := v, sv_currentDescription := d, sv_currentInputExample := x\<rparr>)"
| "\<not> isAtLimit s \<Longrightarrow> editor_step s (switchTab tab s)"
| "editor_step s (saveService s)"
| "i < length (sv_services s) \<Longrightarrow> editor_step s (remove_service i s)"

definition service_ok :: "ServiceEntry \<Rightarrow> bool" where
  "service_ok e \<longleftrightarrow> se_name e \<noteq> [] \<and> (\<exists>scheme \<in> set ALLOWED_URL_SCHEMES. startsWith (se_endpoint e) scheme) \<and>
     se_version e \<noteq> Some [] \<and> se_description e \<noteq> Some [] \<and> se_inputExample e \<noteq> Some []"

definition editor_ok :: "service_editor \<Rightarrow> bool" where
  "editor_ok s \<longleftrightarrow> length (sv_services s) \<le> MAX_SERVICES \<and> list_all service_ok (sv_services s) \<and>
     (sv_activeTab s \<noteq> Custom \<longrightarrow> sv_currentName s = type_name (sv_activeTab s))"

lemma editor_step_ok: "editor_step s s' \<Longrightarrow> editor_ok s \<Longrightarrow> editor_ok s'"
proof (induction rule: editor_step.induct)
  case (4 s)
  show ?case
  proof (cases "\<not> canSave s \<or> isAtLimit s")
    case False
    then show ?thesis using 4
      by (auto simp: saveService_def editor_ok_def canSave_def isAtLimit_def endpointError_def validateUrl_def service_ok_def or_undefined_def Let_def default_name_def
          split: if_splits)
  qed (use 4 in \<open>auto simp: saveService_def\<close>)
next
  case (5 i s)
  then show ?case by (auto simp: editor_ok_def remove_service_def list_all_iff dest: in_set_takeD in_set_dropD)
qed (auto simp: editor_ok_def switchTab_def default_name_def)

text \<open>Whatever is typed and clicked, the form holds at most twenty services, each with a name and an endpoint of an accepted scheme and no empty
  optional field; on the tabs of the known types the name is the type.\<close>

theorem services_checked:
  assumes "rtranclp editor_step (new_editor services) s" "length services \<le> MAX_SERVICES" "list_all service_ok services"
  shows "editor_ok s"
  using assms(1)
proof (induction rule: rtranclp_induct)
  case base
  show ?case using assms(2,3) by (simp add: editor_ok_def new_editor_def type_name_def)
next
  case (step s s')
  then show ?case using editor_step_ok by blast
qed

definition sample_editor :: service_editor where
  "sample_editor = (new_editor [])\<lparr>sv_currentEndpoint := ''https://a''\<rparr>"

lemma sample_saved: "sv_services (saveService sample_editor) = [\<lparr>se_name = ''MCP'', se_endpoint = ''https://a'', se_version = None, se_description = None, se_inputExample = None\<rparr>]"
  by (simp add: saveService_def canSave_def isAtLimit_def endpointError_def validateUrl_def ALLOWED_URL_SCHEMES_def sample_editor_def new_editor_def
      MAX_SERVICES_def or_undefined_def Js_Numbers.trim_def is_space_def code_of_def)

lemma sample_editor_steps: "rtranclp editor_step (new_editor []) (saveService sample_editor)"
proof -
  have "\<not> isAtLimit (new_editor [])" by (simp add: isAtLimit_def new_editor_def MAX_SERVICES_def)
  from editor_step.intros(2) [OF this, of "[]" "[]" "[]" "''https://a''"] have "editor_step (new_editor []) sample_editor"
    by (simp add: sample_editor_def new_editor_def)
  then show ?thesis using editor_step.intros(4) by (meson r_into_rtranclp rtranclp.rtrancl_into_rtrancl)
qed

theorem services_checked_witness: "editor_ok (saveService sample_editor) \<and> length (sv_services (saveService sample_editor)) = 1"
  using services_checked [OF sample_editor_steps] by (simp add: sample_saved)

text \<open>The list of services is keyed by the endpoint, but nothing keeps the same endpoint from being added twice.\<close>

lemma same_endpoint_twice:
  assumes "sv_services s = [e]" "se_endpoint e = ''https://a''"
  shows "map se_endpoint (sv_services (saveService (s\<lparr>sv_currentName := ''MCP'', sv_currentEndpoint := ''https://a''\<rparr>))) = [''https://a'', ''https://a'']"
  using assms by (simp add: saveService_def canSave_def isAtLimit_def endpointError_def validateUrl_def ALLOWED_URL_SCHEMES_def
      MAX_SERVICES_def Js_Numbers.trim_def is_space_def code_of_def)

section \<open>Trust models and the card\<close>

definition TRUST_OPTIONS :: "(string \<times> string) list" where
  "TRUST_OPTIONS = [(''reputation'', ''Reputation''), (''crypto-economic'', ''Crypto-economic''), (''tee-attestation'', ''TEE'')]"

definition toggleTrust :: "string \<Rightarrow> string list \<Rightarrow> string list" where
  "toggleTrust x ts = (let idx = index_of ts x in if idx = length ts then ts @ [x] else take idx ts @ drop (Suc idx) ts)"

lemma index_of_absent: "index_of ts x = length ts \<longleftrightarrow> x \<notin> set ts"
  by (induction ts) (auto simp: index_of_def)

lemma toggle_present: "x \<in> set ts \<Longrightarrow> take (index_of ts x) ts @ drop (Suc (index_of ts x)) ts = remove1 x ts"
  by (induction ts) (auto simp: index_of_def)

lemma toggle_trust: "toggleTrust x ts = (if x \<in> set ts then remove1 x ts else ts @ [x])"
  using index_of_absent [of ts x] toggle_present [of x ts] by (simp add: toggleTrust_def Let_def)

text \<open>A click changes exactly the model it is on and keeps the list without duplicates; a second click undoes the first one up to order.\<close>

lemma toggle_trust_set:
  assumes "distinct ts"
  shows "distinct (toggleTrust x ts) \<and> set (toggleTrust x ts) = (if x \<in> set ts then set ts - {x} else insert x (set ts)) \<and>
    mset (toggleTrust x (toggleTrust x ts)) = mset ts"
  using assms by (auto simp: toggle_trust)

definition card_image :: "string \<Rightarrow> AgentFormData \<Rightarrow> string" where
  "card_image brokenUrl f = (if validateUrl (fm_imageUrl f) = [] \<and> startsWith (fm_imageUrl f) ''https://'' \<and> brokenUrl \<noteq> fm_imageUrl f
     then fm_imageUrl f else [])"

definition card_tags :: "AgentFormData \<Rightarrow> string list" where
  "card_tags f = map se_name (fm_services f) @ map snd (filter (\<lambda>(v, l). v \<in> set (fm_supportedTrust f)) TRUST_OPTIONS) @
     (if fm_x402Enabled f then [''x402''] else []) @ (if fm_mppEnabled f then [''MPP''] else [])"

definition card_complete :: "string \<Rightarrow> AgentFormData \<Rightarrow> nat" where
  "card_complete brokenUrl f = (if Js_Numbers.trim (fm_name f) \<noteq> [] then 30 else 0) + (if Js_Numbers.trim (fm_description f) \<noteq> [] then 20 else 0) +
     (if card_image brokenUrl f \<noteq> [] then 15 else 0) + (if fm_services f \<noteq> [] then 20 else 0) + (if fm_supportedTrust f \<noteq> [] then 10 else 0) +
     (if fm_x402Enabled f \<or> fm_mppEnabled f then 5 else 0)"

lemma card_complete_all: "card_complete b f \<le> 100 \<and> (card_complete b f = 100 \<longleftrightarrow> Js_Numbers.trim (fm_name f) \<noteq> [] \<and> Js_Numbers.trim (fm_description f) \<noteq> [] \<and>
    card_image b f \<noteq> [] \<and> fm_services f \<noteq> [] \<and> fm_supportedTrust f \<noteq> [] \<and> (fm_x402Enabled f \<or> fm_mppEnabled f))"
  by (simp add: card_complete_def)

section \<open>The size of the document\<close>

text \<open>\<open>metadata\<close> of \<open>MetadataOptions.svelte\<close> and \<open>uriError\<close> of \<open>StepUri.svelte\<close>: what the form says about the data URI. \<open>buildMetadataJson\<close> stands outside
  the \<open>try\<close> of the first; an error there is \<open>Inl\<close>.\<close>

definition metadata_option :: "platform \<Rightarrow> AgentFormData \<Rightarrow> string + nat \<times> string" where
  "metadata_option pf f = (if Js_Numbers.trim (fm_name f) = [] then Inr (0, [])
     else sbind (buildMetadataJson f) (\<lambda>json. Inr (case sbind (toDataUri pf json) (\<lambda>_. getMetadataSize pf json) of
        Inr n \<Rightarrow> (n, []) | Inl m \<Rightarrow> (0, m))))"

definition uriError :: "platform \<Rightarrow> AgentFormData \<Rightarrow> string" where
  "uriError pf f = (if Js_Numbers.trim (fm_name f) = [] then []
     else case sbind (buildMetadataJson f) (toDataUri pf) of Inr uri \<Rightarrow> [] | Inl m \<Rightarrow> m)"

definition autoUri :: "platform \<Rightarrow> AgentFormData \<Rightarrow> string" where
  "autoUri pf f = (if Js_Numbers.trim (fm_name f) = [] then []
     else case sbind (buildMetadataJson f) (toDataUri pf) of Inr uri \<Rightarrow> uri | Inl m \<Rightarrow> [])"

text \<open>\<open>uriError\<close> of \<open>MetadataEditor.svelte\<close>, which estimates the length of the URI from the size of the document.\<close>

definition estimatedUriSize :: "nat \<Rightarrow> nat" where
  "estimatedUriSize n = 29 + nat \<lceil>of_nat (n * 4) / (3 :: rat)\<rceil>"

definition edit_uriError :: "platform \<Rightarrow> AgentFormData \<Rightarrow> (string \<times> native) list \<Rightarrow> string" where
  "edit_uriError pf f existing = (if Js_Numbers.trim (fm_name f) = [] then []
     else case getMetadataSize pf (buildMetadataJsonForEdit f existing) of
        Inl m \<Rightarrow> m
      | Inr n \<Rightarrow> if 8192 < estimatedUriSize n
          then ''Metadata URI too large (~'' @ show_nat (estimatedUriSize n) @ '' bytes). Max 8KB.'' else [])"

lemma estimate_thirds: "estimatedUriSize (3 * k + 1) = 31 + 4 * k" "estimatedUriSize (3 * k + 2) = 32 + 4 * k"
proof -
  have "\<lceil>of_nat ((3 * k + 1) * 4) / (3 :: rat)\<rceil> = int (4 * k + 2)" "\<lceil>of_nat ((3 * k + 2) * 4) / (3 :: rat)\<rceil> = int (4 * k + 3)"
    by (simp_all add: ceiling_eq_iff)
  then show "estimatedUriSize (3 * k + 1) = 31 + 4 * k" "estimatedUriSize (3 * k + 2) = 32 + 4 * k"
    unfolding estimatedUriSize_def by simp_all
qed

text \<open>The estimate is short by up to two bytes: for a document of 6121 or 6122 bytes the editor shows no error, and building the URI fails.\<close>

lemma estimate_short:
  assumes "getMetadataSize pf (buildMetadataJsonForEdit f existing) = Inr n" "n = 6121 \<or> n = 6122"
  shows "edit_uriError pf f existing = [] \<and> (\<exists>m. toDataUri pf (buildMetadataJsonForEdit f existing) = Inl m)"
proof -
  have "estimatedUriSize n \<le> 8192" using assms(2) estimate_thirds [of 2040] by auto
  then have "edit_uriError pf f existing = []" using assms(1) by (simp add: edit_uriError_def)
  moreover obtain s where s: "pf_stringify pf (buildMetadataJsonForEdit f existing) = Inr s" "length (pf_encode pf s) = n"
    using assms(1) by (auto simp: getMetadataSize_def sbind_eq_Inr)
  have "length (data_prefix @ bytesToBase64 (pf_encode pf s)) = 8193"
    using assms(2) s(2) by (auto simp: data_prefix_def bytesToBase64_def length_btoa)
  then have "\<exists>m. toDataUri pf (buildMetadataJsonForEdit f existing) = Inl m" by (simp add: toDataUri_def s(1) Let_def)
  ultimately show ?thesis by blast
qed

text \<open>The two descriptions of a new document agree with what registering does: an error is shown exactly when building the URI fails.\<close>

lemma uri_error_exact:
  assumes "rf_uriMode rf = Auto" "Js_Numbers.trim (fm_name (rf_data rf)) \<noteq> []"
  shows "case register_uri e rf of
      Inr uri \<Rightarrow> uriError (fe_platform e) (rf_data rf) = [] \<and> autoUri (fe_platform e) (rf_data rf) = uri
    | Inl m \<Rightarrow> uriError (fe_platform e) (rf_data rf) = m"
  using assms by (simp add: register_uri_def uriError_def autoUri_def split: sum.split)

end
