(* ===== verification/Contract_Base.thy ===== *)
theory Contract_Base
  imports Js_Runtime "HOL-Library.Signed_Division"
begin

text \<open>
  Groundwork of the three Soroban registries under \<open>contracts/\<close>: calls that fail with an error of the contract or a panic and are then rolled
  back by the host, the events of \<open>contracts/*/src/events.rs\<close>, lists kept as a counter with one entry per index, and the timelocked upgrade
  that all three contracts share.

  A contract is a record of its storage. An operation maps the call's environment (who authorized it, the ledger, whether the guard of
  \<open>#[only_owner]\<close> passes) and the storage to a failure, or to a result with the new storage and the published events. Unsigned integers are
  naturals with their checked bounds written out; the release profile panics on overflow. How long an entry lives is not part of the storage:
  an archived entry is restored before it is used.
\<close>

section \<open>Calls\<close>

type_synonym Address = string
type_synonym bytes = "8 word list"

datatype 'e failure = Err 'e | Panic string

record call_env =
  ce_auth :: "Address \<Rightarrow> bool" \<comment> \<open>the addresses whose \<open>require_auth\<close> succeeds\<close>
  ce_sequence :: nat \<comment> \<open>\<open>e.ledger().sequence()\<close>\<close>
  ce_only_owner :: bool \<comment> \<open>the guard of \<open>#[only_owner]\<close>\<close>

definition demand :: "bool \<Rightarrow> 'f \<Rightarrow> 'f + unit" where
  "demand b f = (if b then Inr () else Inl f)"

definition or_fail :: "'f \<Rightarrow> 'a option \<Rightarrow> 'f + 'a" where
  "or_fail f x = (case x of None \<Rightarrow> Inl f | Some y \<Rightarrow> Inr y)"

definition require_auth :: "call_env \<Rightarrow> Address \<Rightarrow> 'e failure + unit" where
  "require_auth e a = demand (ce_auth e a) (Panic ''auth'')"

definition panics :: "string + 'a \<Rightarrow> 'e failure + 'a" where
  "panics r = (case r of Inl m \<Rightarrow> Inl (Panic m) | Inr x \<Rightarrow> Inr x)"

lemma call_simps [simp]:
  "demand b f = Inr u \<longleftrightarrow> b" "demand b f = Inl g \<longleftrightarrow> \<not> b \<and> g = f" "or_fail f x = Inr y \<longleftrightarrow> x = Some y" "or_fail f x = Inl g \<longleftrightarrow> x = None \<and> g = f"
  "require_auth e a = Inr u \<longleftrightarrow> ce_auth e a" "require_auth e a = Inl h \<longleftrightarrow> \<not> ce_auth e a \<and> h = Panic ''auth''"
  "panics r = Inr z \<longleftrightarrow> r = Inr z" "panics r = Inl h \<longleftrightarrow> (\<exists>m. r = Inl m \<and> h = Panic m)"
  by (auto simp: demand_def or_fail_def require_auth_def panics_def split: option.splits sum.splits)

text \<open>Checked and saturating arithmetic of \<open>u32\<close> and \<open>u64\<close>.\<close>

definition checked_u32 :: "nat \<Rightarrow> nat option" where
  "checked_u32 n = (if n < 2 ^ 32 then Some n else None)"

definition checked_u64 :: "nat \<Rightarrow> nat option" where
  "checked_u64 n = (if n < 2 ^ 64 then Some n else None)"

definition checked_i128 :: "int \<Rightarrow> int option" where
  "checked_i128 i = (if - (2 ^ 127) \<le> i \<and> i < 2 ^ 127 then Some i else None)"

definition saturating_u32 :: "nat \<Rightarrow> nat" where
  "saturating_u32 n = min n (2 ^ 32 - 1)"

lemma checked_simps [simp]:
  "checked_u32 n = Some k \<longleftrightarrow> k = n \<and> n < 2 ^ 32" "checked_u32 n = None \<longleftrightarrow> 2 ^ 32 \<le> n"
  "checked_u64 n = Some k \<longleftrightarrow> k = n \<and> n < 2 ^ 64" "checked_u64 n = None \<longleftrightarrow> 2 ^ 64 \<le> n"
  "checked_i128 i = Some j \<longleftrightarrow> j = i \<and> - (2 ^ 127) \<le> i \<and> i < 2 ^ 127"
  by (auto simp: checked_u32_def checked_u64_def checked_i128_def)

section \<open>Events\<close>

text \<open>The events the registries publish, with the ones of the NFT base contract that the identity registry inherits.\<close>

datatype contract_event =
    Ev_Registered nat Address string
      \<comment> \<open>agent_id, owner, agent_uri\<close>
  | Ev_UriUpdated nat Address string
      \<comment> \<open>agent_id, updated_by, new_uri\<close>
  | Ev_MetadataSet nat string bytes
      \<comment> \<open>agent_id, key, value\<close>
  | Ev_Transfer Address Address nat
      \<comment> \<open>from, to, token_id\<close>
  | Ev_Base string
      \<comment> \<open>another event of the base contract, by name\<close>
  | Ev_NewFeedback nat Address nat int nat string string string string bytes
      \<comment> \<open>agent_id, client_address, feedback_index, value, value_decimals, tag1, tag2, endpoint, feedback_uri, feedback_hash\<close>
  | Ev_FeedbackRevoked nat Address nat
      \<comment> \<open>agent_id, client_address, feedback_index\<close>
  | Ev_ResponseAppended nat Address Address nat string bytes
      \<comment> \<open>agent_id, client_address, responder, feedback_index, response_uri, response_hash\<close>
  | Ev_ValidationRequest Address nat bytes string
      \<comment> \<open>validator_address, agent_id, request_hash, request_uri\<close>
  | Ev_ValidationResponse Address nat bytes nat string bytes string
      \<comment> \<open>validator_address, agent_id, request_hash, response, response_uri, response_hash, tag\<close>

section \<open>Counted lists\<close>

text \<open>The indexed pattern of the reputation and validation storage: a \<open>u32\<close> counter per key and one entry per key and index. \<open>indexed\<close> is the
  list a key stands for.\<close>

definition indexed :: "(nat \<rightharpoonup> 'v) \<Rightarrow> nat \<Rightarrow> nat \<Rightarrow> 'v list" where
  "indexed entry start stop = concat (map (\<lambda>i. case entry i of Some v \<Rightarrow> [v] | None \<Rightarrow> []) [start ..< stop])"

definition page_stop :: "nat \<Rightarrow> nat \<Rightarrow> nat \<Rightarrow> nat" where
  "page_stop start limit n = min (saturating_u32 (start + limit)) n"

lemma indexed_split: "a \<le> b \<Longrightarrow> b \<le> c \<Longrightarrow> indexed entry a c = indexed entry a b @ indexed entry b c"
  using upt_add_eq_append [of a b "c - b"] by (simp add: indexed_def)

lemma indexed_cong: "(\<And>i. a \<le> i \<Longrightarrow> i < b \<Longrightarrow> f i = g i) \<Longrightarrow> indexed f a b = indexed g a b"
  unfolding indexed_def by (intro arg_cong [of _ _ concat] map_cong) auto

lemma indexed_nth:
  assumes "\<And>i. i < n \<Longrightarrow> entry i \<noteq> None" "b \<le> n"
  shows "indexed entry a b = map (\<lambda>i. the (entry i)) [a ..< b]"
proof -
  have "indexed entry a b = concat (map (\<lambda>i. [the (entry i)]) [a ..< b])"
    unfolding indexed_def using assms by (intro arg_cong [of _ _ concat] map_cong) (auto split: option.split)
  then show ?thesis by (simp add: comp_def flip: map_map)
qed

locale counted_list =
  fixes counter :: "'s \<Rightarrow> 'k \<Rightarrow> nat"
    and entry :: "'s \<Rightarrow> 'k \<Rightarrow> nat \<rightharpoonup> 'v"
    and add :: "'s \<Rightarrow> 'k \<Rightarrow> 'v \<Rightarrow> 's option"
    and page :: "'s \<Rightarrow> 'k \<Rightarrow> nat \<Rightarrow> nat \<Rightarrow> 'v list"
  assumes add_counter: "add s k v = Some s' \<Longrightarrow> counter s' j = (if j = k then counter s k + 1 else counter s j)"
    and add_entry: "add s k v = Some s' \<Longrightarrow> entry s' j i = (if j = k \<and> i = counter s k then Some v else entry s j i)"
    and add_fails: "add s k v = None \<longleftrightarrow> 2 ^ 32 \<le> counter s k + 1"
    and page_entries: "page s k start limit = indexed (entry s k) start (page_stop start limit (counter s k))"
begin

definition taken :: "'s \<Rightarrow> bool" where
  "taken s \<longleftrightarrow> (\<forall>k i. entry s k i \<noteq> None \<longleftrightarrow> i < counter s k) \<and> (\<forall>k. counter s k < 2 ^ 32)"

definition items :: "'s \<Rightarrow> 'k \<Rightarrow> 'v list" where
  "items s k = indexed (entry s k) 0 (counter s k)"

lemma add_taken: "taken s \<Longrightarrow> add s k v = Some s' \<Longrightarrow> taken s'"
  using add_counter [of s k v s'] add_entry [of s k v s'] add_fails [of s k v] by (auto simp: taken_def less_Suc_eq)

lemma length_items: "taken s \<Longrightarrow> length (items s k) = counter s k"
  unfolding items_def by (subst indexed_nth [of "counter s k"]) (auto simp: taken_def)

lemma add_items: "taken s \<Longrightarrow> add s k v = Some s' \<Longrightarrow> items s' j = items s j @ (if j = k then [v] else [])"
proof -
  assume inv: "taken s" and step: "add s k v = Some s'"
  show ?thesis
  proof (cases "j = k")
    case True
    have "items s' k = indexed (entry s' k) 0 (counter s k) @ indexed (entry s' k) (counter s k) (counter s k + 1)"
      unfolding items_def using add_counter [OF step, of k] by (subst indexed_split [of 0 "counter s k"]) simp_all
    moreover have "indexed (entry s' k) 0 (counter s k) = items s k"
      unfolding items_def by (rule indexed_cong) (simp add: add_entry [OF step])
    moreover have "indexed (entry s' k) (counter s k) (counter s k + 1) = [v]"
      by (simp add: indexed_def add_entry [OF step])
    ultimately show ?thesis using True by simp
  next
    case False
    then show ?thesis
      by (auto simp: items_def add_counter [OF step] intro: indexed_cong simp: add_entry [OF step])
  qed
qed

lemma page_items: "taken s \<Longrightarrow> start + limit < 2 ^ 32 \<Longrightarrow> page s k start limit = take limit (drop start (items s k))"
proof -
  assume inv: "taken s" and fits: "start + limit < 2 ^ 32"
  have there: "i < counter s k \<Longrightarrow> entry s k i \<noteq> None" for i using inv by (auto simp: taken_def)
  have "items s k = map (\<lambda>i. the (entry s k i)) [0 ..< counter s k]"
    unfolding items_def by (rule indexed_nth [of "counter s k"]) (use there in auto)
  moreover have "page_stop start limit (counter s k) = min (start + limit) (counter s k)"
    using fits by (simp add: page_stop_def saturating_u32_def)
  moreover have "indexed (entry s k) start (min (start + limit) (counter s k)) =
      map (\<lambda>i. the (entry s k i)) [start ..< min (start + limit) (counter s k)]"
    by (rule indexed_nth [of "counter s k"]) (use there in auto)
  ultimately show ?thesis by (simp add: page_entries take_map drop_map min_def)
qed

lemma pages_cover:
  assumes "taken s" "counter s k \<le> n * limit" "n * limit < 2 ^ 32"
  shows "concat (map (\<lambda>j. page s k (j * limit) limit) [0 ..< n]) = items s k"
proof -
  have "concat (map (\<lambda>j. page s k (j * limit) limit) [0 ..< m]) = take (m * limit) (items s k)" if "m \<le> n" for m
    using that
  proof (induction m)
    case (Suc m)
    have "m * limit + limit \<le> n * limit" using Suc.prems by (metis add.commute mult_Suc mult_le_mono1)
    then have "page s k (m * limit) limit = take limit (drop (m * limit) (items s k))"
      using assms(3) by (intro page_items [OF assms(1)]) linarith
    with Suc show ?case by (simp add: take_add [of "m * limit" limit, simplified add.commute [of "m * limit"]])
  qed simp
  from this [of n] show ?thesis using assms(2) length_items [OF assms(1), of k] by simp
qed

end

section \<open>Timelocked upgrades\<close>

text \<open>\<open>UpgradeProposal\<close> and the storage slot \<open>PendingUpgrade\<close> are the same in the three contracts, and so are the three operations; the error
  codes differ. \<open>update_current_contract_wasm\<close> is recorded in the list of installed code hashes.\<close>

record UpgradeProposal =
  wasm_hash :: bytes
  proposed_at :: nat

record upgrade_slot =
  us_pending :: "UpgradeProposal option"
  us_installed :: "(bytes \<times> nat) list" \<comment> \<open>code hashes with the ledger at which they were installed\<close>

record 'e upgrade_errors =
  ue_none :: 'e
  ue_early :: 'e
  ue_twice :: 'e

definition TIMELOCK_LEDGERS :: nat where
  "TIMELOCK_LEDGERS = 51840"

definition propose_upgrade :: "'e upgrade_errors \<Rightarrow> call_env \<Rightarrow> bytes \<Rightarrow> upgrade_slot \<Rightarrow> 'e failure + upgrade_slot" where
  "propose_upgrade er e h s =
     sbind (demand (ce_only_owner e) (Panic ''only_owner'')) (\<lambda>_.
     sbind (demand (us_pending s = None) (Err (ue_twice er))) (\<lambda>_.
       Inr (s\<lparr>us_pending := Some \<lparr>wasm_hash = h, proposed_at = ce_sequence e\<rparr>\<rparr>)))"

definition cancel_upgrade :: "'e upgrade_errors \<Rightarrow> call_env \<Rightarrow> upgrade_slot \<Rightarrow> 'e failure + upgrade_slot" where
  "cancel_upgrade er e s =
     sbind (demand (ce_only_owner e) (Panic ''only_owner'')) (\<lambda>_.
     sbind (demand (us_pending s \<noteq> None) (Err (ue_none er))) (\<lambda>_. Inr (s\<lparr>us_pending := None\<rparr>)))"

definition execute_upgrade :: "'e upgrade_errors \<Rightarrow> call_env \<Rightarrow> upgrade_slot \<Rightarrow> 'e failure + upgrade_slot" where
  "execute_upgrade er e s =
     sbind (demand (ce_only_owner e) (Panic ''only_owner'')) (\<lambda>_.
     sbind (or_fail (Err (ue_none er)) (us_pending s)) (\<lambda>p.
       let elapsed = ce_sequence e - proposed_at p
       in sbind (demand (\<not> elapsed < TIMELOCK_LEDGERS) (Err (ue_early er))) (\<lambda>_.
            Inr (s\<lparr>us_pending := None, us_installed := us_installed s @ [(wasm_hash p, ce_sequence e)]\<rparr>))))"

datatype upgrade_call = Propose_Upgrade bytes | Cancel_Upgrade | Execute_Upgrade

fun exec_upgrade :: "'e upgrade_errors \<Rightarrow> call_env \<Rightarrow> upgrade_call \<Rightarrow> upgrade_slot \<Rightarrow> 'e failure + upgrade_slot" where
  "exec_upgrade er e (Propose_Upgrade h) s = propose_upgrade er e h s"
| "exec_upgrade er e Cancel_Upgrade s = cancel_upgrade er e s"
| "exec_upgrade er e Execute_Upgrade s = execute_upgrade er e s"

text \<open>A sequence of successful upgrade calls, with the environment of each.\<close>

inductive upgrade_run :: "'e upgrade_errors \<Rightarrow> upgrade_slot \<Rightarrow> (call_env \<times> upgrade_call) list \<Rightarrow> upgrade_slot \<Rightarrow> bool" for er s where
  upgrade_start: "upgrade_run er s [] s"
| upgrade_next: "upgrade_run er s us s1 \<Longrightarrow> exec_upgrade er e u s1 = Inr s2 \<Longrightarrow> upgrade_run er s (us @ [(e, u)]) s2"

text \<open>A pending proposal was made by the last call, and an installation follows its proposal directly: whatever comes in between clears it or fails.\<close>

definition waiting :: "(call_env \<times> upgrade_call) list \<Rightarrow> UpgradeProposal \<Rightarrow> bool" where
  "waiting us p \<longleftrightarrow> (\<exists>pre e. us = pre @ [(e, Propose_Upgrade (wasm_hash p))] \<and> ce_only_owner e \<and> ce_sequence e = proposed_at p)"

definition installs :: "(call_env \<times> upgrade_call) list \<Rightarrow> bytes \<Rightarrow> nat \<Rightarrow> bool" where
  "installs us h t \<longleftrightarrow> (\<exists>pre e e' post. us = pre @ (e, Propose_Upgrade h) # (e', Execute_Upgrade) # post \<and> ce_only_owner e \<and> ce_only_owner e' \<and>
     ce_sequence e' = t \<and> ce_sequence e + TIMELOCK_LEDGERS \<le> t)"

lemma installs_snoc: "installs us h t \<Longrightarrow> installs (us @ [x]) h t"
  unfolding installs_def by fastforce

lemma upgrade_step:
  assumes "exec_upgrade er e u s = Inr s'"
  obtains (propose) h where "u = Propose_Upgrade h" "us_pending s' = Some \<lparr>wasm_hash = h, proposed_at = ce_sequence e\<rparr>" "us_installed s' = us_installed s"
      "ce_only_owner e"
  | (cancel) "us_pending s' = None" "us_installed s' = us_installed s"
  | (execute) p where "u = Execute_Upgrade" "us_pending s = Some p" "us_pending s' = None" "us_installed s' = us_installed s @ [(wasm_hash p, ce_sequence e)]"
      "ce_only_owner e" "proposed_at p + TIMELOCK_LEDGERS \<le> ce_sequence e"
  using assms by (cases u) (auto simp: propose_upgrade_def cancel_upgrade_def execute_upgrade_def sbind_eq_Inr Let_def TIMELOCK_LEDGERS_def)

lemma upgrade_run_installed:
  assumes "upgrade_run er s us s'" "us_pending s = None" "us_installed s = []"
  shows "(\<forall>p. us_pending s' = Some p \<longrightarrow> waiting us p) \<and> (\<forall>(h, t) \<in> set (us_installed s'). installs us h t)"
  using assms(1)
proof induction
  case (upgrade_next us s1 e u s2)
  from upgrade_next(2) show ?case
  proof (cases rule: upgrade_step)
    case (propose h)
    with upgrade_next.IH installs_snoc show ?thesis by (auto simp: waiting_def)
  next
    case cancel
    with upgrade_next.IH installs_snoc show ?thesis by auto
  next
    case (execute p)
    then obtain pre e0 where "us = pre @ [(e0, Propose_Upgrade (wasm_hash p))]" "ce_only_owner e0" "ce_sequence e0 = proposed_at p"
      using upgrade_next.IH by (auto simp: waiting_def)
    then have "installs (us @ [(e, u)]) (wasm_hash p) (ce_sequence e)" using execute unfolding installs_def by fastforce
    with execute upgrade_next.IH installs_snoc show ?thesis by auto
  qed
qed (simp add: assms)

end
