(* ===== verification/Contract_Identity.thy ===== *)
theory Contract_Identity
  imports Contract_Base
begin

text \<open>
  The identity registry (\<open>contracts/identity-registry/src\<close>): agents are tokens of an NFT contract, each with a URI, a wallet and metadata.

  The OpenZeppelin base contract is not part of the repository. The record \<open>nft_base\<close> has what the registry uses of it, over a state of an
  arbitrary type; \<open>nft_laws\<close> is what its documentation promises: tokens are minted in sequence, a transfer needs the owner or somebody the owner
  approved and changes the owner of that token only. The lemmas show, for every call, who may do what, that a transfer leaves nothing of the
  previous owner's claims, and the invariant that ties the list of metadata keys to the entries.
\<close>

section \<open>Storage\<close>

datatype IdentityError = Id_NotOwnerOrApproved | Id_UriNotSet | Id_AgentNotFound | Id_MetadataKeyTooLong | Id_MetadataValueTooLong
  | Id_TooManyMetadataKeys | Id_ReservedMetadataKey | Id_EmptyValue | Id_NoUpgradeProposed | Id_TimelockNotExpired | Id_UpgradeAlreadyProposed

record 'n nft_base =
  nb_new :: "string \<Rightarrow> string \<Rightarrow> string \<Rightarrow> 'n"
  nb_owner :: "'n \<Rightarrow> nat \<rightharpoonup> Address"
  nb_next :: "'n \<Rightarrow> nat"
  nb_approved :: "call_env \<Rightarrow> 'n \<Rightarrow> nat \<rightharpoonup> Address"
  nb_approved_all :: "call_env \<Rightarrow> 'n \<Rightarrow> Address \<Rightarrow> Address \<Rightarrow> bool"
  nb_has_balance :: "'n \<Rightarrow> Address \<Rightarrow> bool"
  nb_mint :: "'n \<Rightarrow> Address \<Rightarrow> string + nat \<times> 'n \<times> contract_event list"
  nb_transfer :: "call_env \<Rightarrow> 'n \<Rightarrow> Address \<Rightarrow> Address \<Rightarrow> nat \<Rightarrow> string + 'n \<times> contract_event list"
  nb_transfer_from :: "call_env \<Rightarrow> 'n \<Rightarrow> Address \<Rightarrow> Address \<Rightarrow> Address \<Rightarrow> nat \<Rightarrow> string + 'n \<times> contract_event list"
  nb_approve :: "call_env \<Rightarrow> 'n \<Rightarrow> Address \<Rightarrow> Address \<Rightarrow> nat \<Rightarrow> nat \<Rightarrow> string + 'n \<times> contract_event list"
  nb_approve_for_all :: "call_env \<Rightarrow> 'n \<Rightarrow> Address \<Rightarrow> Address \<Rightarrow> nat \<Rightarrow> string + 'n \<times> contract_event list"

record 'n identity =
  id_nft :: 'n
  id_uri :: "nat \<rightharpoonup> string"
  id_metadata :: "nat \<times> string \<rightharpoonup> bytes"
  id_wallet :: "nat \<rightharpoonup> Address"
  id_keys :: "nat \<rightharpoonup> string list"
  id_upgrade :: upgrade_slot

type_synonym 'n identity_result = "IdentityError failure + 'n identity \<times> contract_event list"

definition MAX_METADATA_KEY_LEN :: nat where
  "MAX_METADATA_KEY_LEN = 64"

definition MAX_METADATA_VALUE_LEN :: nat where
  "MAX_METADATA_VALUE_LEN = 4096"

definition MAX_METADATA_KEYS :: nat where
  "MAX_METADATA_KEYS = 100"

definition agent_wallet_key :: string where
  "agent_wallet_key = ''agentWallet''"

text \<open>The buffer has 56 bytes; copying a longer text into it panics.\<close>

definition ascii :: "string \<Rightarrow> bytes" where
  "ascii s = map (\<lambda>c. word_of_nat (code_of c)) s"

definition address_to_strkey_bytes :: "Address \<Rightarrow> 'e failure + bytes" where
  "address_to_strkey_bytes a = sbind (demand (length a \<le> 56) (Panic ''range'')) (\<lambda>_. Inr (ascii a))"

definition find_owner :: "'n nft_base \<Rightarrow> 'n identity \<Rightarrow> nat \<rightharpoonup> Address" where
  "find_owner N st a = nb_owner N (id_nft st) a"

definition store_agent_uri :: "nat \<Rightarrow> string \<Rightarrow> 'n identity \<Rightarrow> 'n identity" where
  "store_agent_uri a uri st = st\<lparr>id_uri := (id_uri st)(a \<mapsto> uri)\<rparr>"

definition keys_of :: "'n identity \<Rightarrow> nat \<Rightarrow> string list" where
  "keys_of st a = (case id_keys st a of Some ks \<Rightarrow> ks | None \<Rightarrow> [])"

definition record_metadata_key :: "nat \<Rightarrow> string \<Rightarrow> 'n identity \<Rightarrow> 'n identity" where
  "record_metadata_key a k st = (if k \<in> set (keys_of st a) then st else st\<lparr>id_keys := (id_keys st)(a \<mapsto> keys_of st a @ [k])\<rparr>)"

definition metadata_key_count :: "'n identity \<Rightarrow> nat \<Rightarrow> nat" where
  "metadata_key_count st a = (case id_keys st a of Some ks \<Rightarrow> length ks | None \<Rightarrow> 0)"

definition store_metadata :: "nat \<Rightarrow> string \<Rightarrow> bytes \<Rightarrow> 'n identity \<Rightarrow> 'n identity" where
  "store_metadata a k v st = (let st1 = record_metadata_key a k st in st1\<lparr>id_metadata := (id_metadata st1)((a, k) \<mapsto> v)\<rparr>)"

definition clear_all_metadata :: "nat \<Rightarrow> 'n identity \<Rightarrow> 'n identity" where
  "clear_all_metadata a st = (case id_keys st a of
      None \<Rightarrow> st
    | Some ks \<Rightarrow> st\<lparr>id_metadata := fold (\<lambda>k m. m((a, k) := None)) ks (id_metadata st), id_keys := (id_keys st)(a := None)\<rparr>)"

definition store_agent_wallet :: "nat \<Rightarrow> Address \<Rightarrow> 'n identity \<Rightarrow> 'n identity" where
  "store_agent_wallet a w st = st\<lparr>id_wallet := (id_wallet st)(a \<mapsto> w)\<rparr>"

definition remove_agent_wallet :: "nat \<Rightarrow> 'n identity \<Rightarrow> 'n identity" where
  "remove_agent_wallet a st = st\<lparr>id_wallet := (id_wallet st)(a := None)\<rparr>"

section \<open>Operations\<close>

definition new_identity :: "'n nft_base \<Rightarrow> string \<Rightarrow> string \<Rightarrow> 'n identity" where
  "new_identity N name symbol = \<lparr>id_nft = nb_new N [] name symbol, id_uri = Map.empty, id_metadata = Map.empty, id_wallet = Map.empty,
     id_keys = Map.empty, id_upgrade = \<lparr>us_pending = None, us_installed = []\<rparr>\<rparr>"

definition sequential_mint :: "'n nft_base \<Rightarrow> Address \<Rightarrow> 'n identity \<Rightarrow> IdentityError failure + nat \<times> 'n identity \<times> contract_event list" where
  "sequential_mint N to st = sbind (panics (nb_mint N (id_nft st) to)) (\<lambda>(a, n, evs). Inr (a, st\<lparr>id_nft := n\<rparr>, evs))"

definition init_agent_wallet :: "nat \<Rightarrow> Address \<Rightarrow> 'n identity \<Rightarrow> 'n identity_result" where
  "init_agent_wallet a owner st = sbind (address_to_strkey_bytes owner) (\<lambda>bytes.
     Inr (store_agent_wallet a owner st, [Ev_MetadataSet a agent_wallet_key bytes]))"

definition register :: "'n nft_base \<Rightarrow> call_env \<Rightarrow> Address \<Rightarrow> 'n identity \<Rightarrow> 'n identity_result" where
  "register N e caller st =
     sbind (require_auth e caller) (\<lambda>_.
     sbind (sequential_mint N caller st) (\<lambda>(a, st1, minted).
     sbind (init_agent_wallet a caller st1) (\<lambda>(st2, wallet).
       Inr (st2, minted @ wallet @ [Ev_Registered a caller []]))))"

definition register_with_uri :: "'n nft_base \<Rightarrow> call_env \<Rightarrow> Address \<Rightarrow> string \<Rightarrow> 'n identity \<Rightarrow> 'n identity_result" where
  "register_with_uri N e caller uri st =
     sbind (require_auth e caller) (\<lambda>_.
     sbind (sequential_mint N caller st) (\<lambda>(a, st1, minted).
     sbind (init_agent_wallet a caller (store_agent_uri a uri st1)) (\<lambda>(st2, wallet).
       Inr (st2, minted @ wallet @ [Ev_Registered a caller uri]))))"

definition check_entry :: "string \<times> bytes \<Rightarrow> 'e failure + unit" where
  "check_entry kv =
     sbind (demand (length (fst kv) \<le> MAX_METADATA_KEY_LEN) (Panic ''metadata key too long'')) (\<lambda>_.
     sbind (demand (length (snd kv) \<le> MAX_METADATA_VALUE_LEN) (Panic ''metadata value too long'')) (\<lambda>_.
       demand (fst kv \<noteq> agent_wallet_key) (Panic ''agentWallet is a reserved metadata key - use set_agent_wallet'')))"

definition register_full ::
  "'n nft_base \<Rightarrow> call_env \<Rightarrow> Address \<Rightarrow> string \<Rightarrow> (string \<times> bytes) list \<Rightarrow> 'n identity \<Rightarrow> 'n identity_result" where
  "register_full N e caller uri metadata st =
     sbind (require_auth e caller) (\<lambda>_.
     sbind (demand (length metadata \<le> MAX_METADATA_KEYS) (Panic ''too many metadata entries'')) (\<lambda>_.
     sbind (smap check_entry metadata) (\<lambda>_.
     sbind (sequential_mint N caller st) (\<lambda>(a, st1, minted).
     sbind (init_agent_wallet a caller (store_agent_uri a uri st1)) (\<lambda>(st2, wallet).
       Inr (fold (\<lambda>(k, v). store_metadata a k v) metadata st2,
         minted @ wallet @ map (\<lambda>(k, v). Ev_MetadataSet a k v) metadata @ [Ev_Registered a caller uri]))))))"

definition owner_or_approved :: "'n nft_base \<Rightarrow> call_env \<Rightarrow> 'n identity \<Rightarrow> Address \<Rightarrow> nat \<Rightarrow> Address \<Rightarrow> bool" where
  "owner_or_approved N e st caller a owner \<longleftrightarrow> caller = owner \<or> nb_approved N e (id_nft st) a = Some caller \<or>
     nb_approved_all N e (id_nft st) owner caller"

definition require_owner_or_approved :: "'n nft_base \<Rightarrow> call_env \<Rightarrow> 'n identity \<Rightarrow> Address \<Rightarrow> nat \<Rightarrow> IdentityError failure + unit" where
  "require_owner_or_approved N e st caller a =
     sbind (or_fail (Err Id_AgentNotFound) (find_owner N st a)) (\<lambda>owner.
       if caller = owner then Inr ()
       else if (case nb_approved N e (id_nft st) a of Some approved \<Rightarrow> caller = approved | None \<Rightarrow> False) then Inr ()
       else if nb_approved_all N e (id_nft st) owner caller then Inr ()
       else Inl (Err Id_NotOwnerOrApproved))"

definition set_agent_uri :: "'n nft_base \<Rightarrow> call_env \<Rightarrow> Address \<Rightarrow> nat \<Rightarrow> string \<Rightarrow> 'n identity \<Rightarrow> 'n identity_result" where
  "set_agent_uri N e caller a uri st =
     sbind (require_auth e caller) (\<lambda>_.
     sbind (demand (uri \<noteq> []) (Err Id_EmptyValue)) (\<lambda>_.
     sbind (require_owner_or_approved N e st caller a) (\<lambda>_.
       Inr (store_agent_uri a uri st, [Ev_UriUpdated a caller uri]))))"

definition set_metadata :: "'n nft_base \<Rightarrow> call_env \<Rightarrow> Address \<Rightarrow> nat \<Rightarrow> string \<Rightarrow> bytes \<Rightarrow> 'n identity \<Rightarrow> 'n identity_result" where
  "set_metadata N e caller a k v st =
     sbind (require_auth e caller) (\<lambda>_.
     sbind (demand (k \<noteq> []) (Err Id_EmptyValue)) (\<lambda>_.
     sbind (demand (length k \<le> MAX_METADATA_KEY_LEN) (Err Id_MetadataKeyTooLong)) (\<lambda>_.
     sbind (demand (length v \<le> MAX_METADATA_VALUE_LEN) (Err Id_MetadataValueTooLong)) (\<lambda>_.
     sbind (demand (k \<noteq> agent_wallet_key) (Err Id_ReservedMetadataKey)) (\<lambda>_.
     sbind (require_owner_or_approved N e st caller a) (\<lambda>_.
     sbind (demand (\<not> (id_metadata st (a, k) = None \<and> MAX_METADATA_KEYS \<le> metadata_key_count st a)) (Err Id_TooManyMetadataKeys)) (\<lambda>_.
       Inr (store_metadata a k v st, [Ev_MetadataSet a k v]))))))))"

definition set_agent_wallet :: "'n nft_base \<Rightarrow> call_env \<Rightarrow> Address \<Rightarrow> nat \<Rightarrow> Address \<Rightarrow> 'n identity \<Rightarrow> 'n identity_result" where
  "set_agent_wallet N e caller a w st =
     sbind (require_auth e caller) (\<lambda>_.
     sbind (require_auth e w) (\<lambda>_.
     sbind (require_owner_or_approved N e st caller a) (\<lambda>_.
     sbind (address_to_strkey_bytes w) (\<lambda>bytes.
       Inr (store_agent_wallet a w st, [Ev_MetadataSet a agent_wallet_key bytes])))))"

definition unset_agent_wallet :: "'n nft_base \<Rightarrow> call_env \<Rightarrow> Address \<Rightarrow> nat \<Rightarrow> 'n identity \<Rightarrow> 'n identity_result" where
  "unset_agent_wallet N e caller a st =
     sbind (require_auth e caller) (\<lambda>_.
     sbind (require_owner_or_approved N e st caller a) (\<lambda>_.
       Inr (remove_agent_wallet a st, [Ev_MetadataSet a agent_wallet_key []])))"

text \<open>The overrides of \<open>IdentityBase\<close>: claims of the previous owner are dropped before the base contract moves the token.\<close>

definition drop_claims :: "nat \<Rightarrow> 'n identity \<Rightarrow> 'n identity" where
  "drop_claims a st = clear_all_metadata a (remove_agent_wallet a st)"

definition transfer :: "'n nft_base \<Rightarrow> call_env \<Rightarrow> Address \<Rightarrow> Address \<Rightarrow> nat \<Rightarrow> 'n identity \<Rightarrow> 'n identity_result" where
  "transfer N e from to a st =
     (let st1 = drop_claims a st in
      sbind (panics (nb_transfer N e (id_nft st1) from to a)) (\<lambda>(n, evs).
        Inr (st1\<lparr>id_nft := n\<rparr>, Ev_MetadataSet a agent_wallet_key [] # evs)))"

definition transfer_from :: "'n nft_base \<Rightarrow> call_env \<Rightarrow> Address \<Rightarrow> Address \<Rightarrow> Address \<Rightarrow> nat \<Rightarrow> 'n identity \<Rightarrow> 'n identity_result" where
  "transfer_from N e spender from to a st =
     (let st1 = drop_claims a st in
      sbind (panics (nb_transfer_from N e (id_nft st1) spender from to a)) (\<lambda>(n, evs).
        Inr (st1\<lparr>id_nft := n\<rparr>, Ev_MetadataSet a agent_wallet_key [] # evs)))"

definition identity_upgrade_errors :: "IdentityError upgrade_errors" where
  "identity_upgrade_errors = \<lparr>ue_none = Id_NoUpgradeProposed, ue_early = Id_TimelockNotExpired, ue_twice = Id_UpgradeAlreadyProposed\<rparr>"

text \<open>The calls that may change the storage.\<close>

datatype identity_call =
    Call_register Address
  | Call_register_with_uri Address string
  | Call_register_full Address string "(string \<times> bytes) list"
  | Call_set_agent_uri Address nat string
  | Call_set_metadata Address nat string bytes
  | Call_set_agent_wallet Address nat Address
  | Call_unset_agent_wallet Address nat
  | Call_transfer Address Address nat
  | Call_transfer_from Address Address Address nat
  | Call_approve Address Address nat nat
  | Call_approve_for_all Address Address nat
  | Call_identity_upgrade upgrade_call

fun exec_identity :: "'n nft_base \<Rightarrow> call_env \<Rightarrow> identity_call \<Rightarrow> 'n identity \<Rightarrow> 'n identity_result" where
  "exec_identity N e (Call_register c) st = register N e c st"
| "exec_identity N e (Call_register_with_uri c uri) st = register_with_uri N e c uri st"
| "exec_identity N e (Call_register_full c uri kvs) st = register_full N e c uri kvs st"
| "exec_identity N e (Call_set_agent_uri c a uri) st = set_agent_uri N e c a uri st"
| "exec_identity N e (Call_set_metadata c a k v) st = set_metadata N e c a k v st"
| "exec_identity N e (Call_set_agent_wallet c a w) st = set_agent_wallet N e c a w st"
| "exec_identity N e (Call_unset_agent_wallet c a) st = unset_agent_wallet N e c a st"
| "exec_identity N e (Call_transfer from to a) st = transfer N e from to a st"
| "exec_identity N e (Call_transfer_from c from to a) st = transfer_from N e c from to a st"
| "exec_identity N e (Call_approve c to a live) st =
     sbind (panics (nb_approve N e (id_nft st) c to a live)) (\<lambda>(n, evs). Inr (st\<lparr>id_nft := n\<rparr>, evs))"
| "exec_identity N e (Call_approve_for_all c to live) st =
     sbind (panics (nb_approve_for_all N e (id_nft st) c to live)) (\<lambda>(n, evs). Inr (st\<lparr>id_nft := n\<rparr>, evs))"
| "exec_identity N e (Call_identity_upgrade u) st =
     sbind (exec_upgrade identity_upgrade_errors e u (id_upgrade st)) (\<lambda>s. Inr (st\<lparr>id_upgrade := s\<rparr>, []))"

section \<open>Reads\<close>

definition agent_uri :: "nat \<Rightarrow> 'n identity \<Rightarrow> IdentityError failure + string" where
  "agent_uri a st = or_fail (Err Id_UriNotSet) (id_uri st a)"

definition token_uri :: "'n nft_base \<Rightarrow> nat \<Rightarrow> 'n identity \<Rightarrow> IdentityError failure + string" where
  "token_uri N a st = sbind (or_fail (Panic ''NonExistentToken'') (nb_owner N (id_nft st) a)) (\<lambda>_.
     Inr (case id_uri st a of Some uri \<Rightarrow> uri | None \<Rightarrow> []))"

definition get_metadata :: "nat \<Rightarrow> string \<Rightarrow> 'n identity \<Rightarrow> IdentityError failure + bytes option" where
  "get_metadata a k st =
     (if k = agent_wallet_key then (case id_wallet st a of
          None \<Rightarrow> Inr None
        | Some w \<Rightarrow> sbind (address_to_strkey_bytes w) (\<lambda>bytes. Inr (Some bytes)))
      else Inr (id_metadata st (a, k)))"

definition agent_exists :: "'n nft_base \<Rightarrow> 'n identity \<Rightarrow> nat \<Rightarrow> bool" where
  "agent_exists N st a \<longleftrightarrow> find_owner N st a \<noteq> None"

definition is_authorized_or_owner :: "'n nft_base \<Rightarrow> call_env \<Rightarrow> 'n identity \<Rightarrow> Address \<Rightarrow> nat \<Rightarrow> bool" where
  "is_authorized_or_owner N e st spender a = (case find_owner N st a of
      None \<Rightarrow> False
    | Some owner \<Rightarrow>
        if spender = owner then True
        else if (case nb_approved N e (id_nft st) a of Some approved \<Rightarrow> spender = approved | None \<Rightarrow> False) then True
        else nb_approved_all N e (id_nft st) owner spender)"

definition total_agents :: "'n nft_base \<Rightarrow> 'n identity \<Rightarrow> nat" where
  "total_agents N st = nb_next N (id_nft st)"

text \<open>The entries \<open>extend_agent_ttl\<close> extends.\<close>

datatype storage_key = AgentUri nat | Metadata nat string | AgentWallet nat | MetadataKeys nat | Nft_Owner nat | Nft_Balance Address

definition present :: "'n nft_base \<Rightarrow> 'n identity \<Rightarrow> storage_key \<Rightarrow> bool" where
  "present N st x = (case x of AgentUri a \<Rightarrow> id_uri st a \<noteq> None | Metadata a k \<Rightarrow> id_metadata st (a, k) \<noteq> None
     | AgentWallet a \<Rightarrow> id_wallet st a \<noteq> None | MetadataKeys a \<Rightarrow> id_keys st a \<noteq> None
     | Nft_Owner a \<Rightarrow> nb_owner N (id_nft st) a \<noteq> None | Nft_Balance o' \<Rightarrow> nb_has_balance N (id_nft st) o')"

definition extend_agent_ttl :: "'n nft_base \<Rightarrow> nat \<Rightarrow> 'n identity \<Rightarrow> storage_key list" where
  "extend_agent_ttl N a st =
     filter (present N st) [AgentUri a, AgentWallet a] @
     (case id_keys st a of None \<Rightarrow> [] | Some ks \<Rightarrow> MetadataKeys a # filter (present N st) (map (Metadata a) ks)) @
     (case nb_owner N (id_nft st) a of None \<Rightarrow> [] | Some owner \<Rightarrow> Nft_Owner a # filter (present N st) [Nft_Balance owner])"

section \<open>What the base contract promises\<close>

definition moved :: "'n nft_base \<Rightarrow> 'n \<Rightarrow> 'n \<Rightarrow> Address \<Rightarrow> Address \<Rightarrow> nat \<Rightarrow> bool" where
  "moved N n n' from to a \<longleftrightarrow> nb_owner N n a = Some from \<and> nb_owner N n' = (nb_owner N n)(a \<mapsto> to) \<and> nb_next N n' = nb_next N n"

definition same_owners :: "'n nft_base \<Rightarrow> 'n \<Rightarrow> 'n \<Rightarrow> bool" where
  "same_owners N n n' \<longleftrightarrow> nb_owner N n' = nb_owner N n \<and> nb_next N n' = nb_next N n"

definition base_names :: "string list" where
  "base_names = [''mint'', ''approve'', ''approve_for_all'']"

definition base_only :: "contract_event list \<Rightarrow> bool" where
  "base_only evs \<longleftrightarrow> set evs \<subseteq> Ev_Base ` set base_names"

definition nft_laws :: "'n nft_base \<Rightarrow> bool" where
  "nft_laws N \<longleftrightarrow>
     (\<forall>u x y. nb_owner N (nb_new N u x y) = Map.empty \<and> nb_next N (nb_new N u x y) = 0) \<and>
     (\<forall>n to a n' evs. nb_mint N n to = Inr (a, n', evs) \<longrightarrow>
        a = nb_next N n \<and> a < 2 ^ 32 \<and> nb_next N n' = a + 1 \<and> nb_owner N n' = (nb_owner N n)(a \<mapsto> to) \<and> base_only evs) \<and>
     (\<forall>e n from to a n' evs. nb_transfer N e n from to a = Inr (n', evs) \<longrightarrow>
        ce_auth e from \<and> moved N n n' from to a \<and> evs = [Ev_Transfer from to a]) \<and>
     (\<forall>e n c from to a n' evs. nb_transfer_from N e n c from to a = Inr (n', evs) \<longrightarrow>
        ce_auth e c \<and> (c = from \<or> nb_approved N e n a = Some c \<or> nb_approved_all N e n from c) \<and> moved N n n' from to a \<and>
        evs = [Ev_Transfer from to a]) \<and>
     (\<forall>e n c to a l n' evs. nb_approve N e n c to a l = Inr (n', evs) \<longrightarrow> same_owners N n n' \<and> base_only evs) \<and>
     (\<forall>e n c to l n' evs. nb_approve_for_all N e n c to l = Inr (n', evs) \<longrightarrow> same_owners N n n' \<and> base_only evs)"

lemma nft_lawsD:
  assumes "nft_laws N"
  shows "nb_owner N (nb_new N u x y) = Map.empty" "nb_next N (nb_new N u x y) = 0"
    and "nb_mint N n to = Inr (a, n', evs) \<Longrightarrow>
      a = nb_next N n \<and> a < 2 ^ 32 \<and> nb_next N n' = a + 1 \<and> nb_owner N n' = (nb_owner N n)(a \<mapsto> to) \<and> base_only evs"
    and "nb_transfer N e n from to a = Inr (n', evs) \<Longrightarrow> ce_auth e from \<and> moved N n n' from to a \<and> evs = [Ev_Transfer from to a]"
    and "nb_transfer_from N e n c from to a = Inr (n', evs) \<Longrightarrow>
      ce_auth e c \<and> (c = from \<or> nb_approved N e n a = Some c \<or> nb_approved_all N e n from c) \<and> moved N n n' from to a \<and>
      evs = [Ev_Transfer from to a]"
    and "nb_approve N e n c to a l = Inr (n', evs) \<Longrightarrow> same_owners N n n' \<and> base_only evs"
    and "nb_approve_for_all N e n c to l = Inr (n', evs) \<Longrightarrow> same_owners N n n' \<and> base_only evs"
  using assms unfolding nft_laws_def by (elim conjE; simp; fail | elim conjE; metis)+

section \<open>Storage lemmas\<close>

named_theorems store_simps "what the storage functions keep"

lemma store_id [store_simps]:
  "id_nft (store_agent_uri a uri st) = id_nft st" "id_nft (store_agent_wallet a w st) = id_nft st" "id_nft (remove_agent_wallet a st) = id_nft st"
  "id_nft (store_metadata a k v st) = id_nft st" "id_nft (clear_all_metadata a st) = id_nft st" "id_nft (drop_claims a st) = id_nft st"
  by (auto simp: store_agent_uri_def store_agent_wallet_def remove_agent_wallet_def store_metadata_def record_metadata_key_def
      clear_all_metadata_def drop_claims_def Let_def split: option.split)

lemma store_uri [store_simps]:
  "id_uri (store_agent_uri a uri st) = (id_uri st)(a \<mapsto> uri)" "id_uri (store_agent_wallet a w st) = id_uri st"
  "id_uri (remove_agent_wallet a st) = id_uri st" "id_uri (store_metadata a k v st) = id_uri st"
  "id_uri (clear_all_metadata a st) = id_uri st" "id_uri (drop_claims a st) = id_uri st"
  by (auto simp: store_agent_uri_def store_agent_wallet_def remove_agent_wallet_def store_metadata_def record_metadata_key_def
      clear_all_metadata_def drop_claims_def Let_def split: option.split)

lemma store_wallet [store_simps]:
  "id_wallet (store_agent_uri a uri st) = id_wallet st" "id_wallet (store_agent_wallet a w st) = (id_wallet st)(a \<mapsto> w)"
  "id_wallet (remove_agent_wallet a st) = (id_wallet st)(a := None)" "id_wallet (store_metadata a k v st) = id_wallet st"
  "id_wallet (clear_all_metadata a st) = id_wallet st" "id_wallet (drop_claims a st) = (id_wallet st)(a := None)"
  by (auto simp: store_agent_uri_def store_agent_wallet_def remove_agent_wallet_def store_metadata_def record_metadata_key_def
      clear_all_metadata_def drop_claims_def Let_def split: option.split)

lemma keys_of_cong: "id_keys st' = id_keys st \<Longrightarrow> keys_of st' = keys_of st"
  by (simp add: keys_of_def fun_eq_iff)

lemma store_keys [store_simps]:
  "id_keys (store_agent_uri a uri st) = id_keys st" "id_keys (store_agent_wallet a w st) = id_keys st"
  "id_keys (remove_agent_wallet a st) = id_keys st" "id_keys (clear_all_metadata a st) = (id_keys st)(a := None)"
  "id_keys (drop_claims a st) = (id_keys st)(a := None)"
  "keys_of (store_metadata a k v st) b = (if b = a \<and> k \<notin> set (keys_of st a) then keys_of st a @ [k] else keys_of st b)"
  by (auto simp: store_agent_uri_def store_agent_wallet_def remove_agent_wallet_def store_metadata_def record_metadata_key_def
      clear_all_metadata_def drop_claims_def keys_of_def Let_def fun_eq_iff split: option.split)

lemma fold_remove: "fold (\<lambda>k m. m((a, k) := None)) ks m (b, k) = (if b = a \<and> k \<in> set ks then None else m (b, k))"
  by (induction ks arbitrary: m) auto

lemma clear_metadata: "id_metadata (clear_all_metadata a st) (b, k) = (if b = a \<and> k \<in> set (keys_of st a) then None else id_metadata st (b, k))"
  by (cases "id_keys st a") (auto simp: clear_all_metadata_def keys_of_def fold_remove)

lemma store_metadata_entries [store_simps]:
  "id_metadata (store_agent_uri a uri st) = id_metadata st" "id_metadata (store_agent_wallet a w st) = id_metadata st"
  "id_metadata (remove_agent_wallet a st) = id_metadata st" "id_metadata (store_metadata a k v st) = (id_metadata st)((a, k) \<mapsto> v)"
  "id_metadata (drop_claims a st) (b, k) = (if b = a \<and> k \<in> set (keys_of st a) then None else id_metadata st (b, k))"
  by (simp_all add: store_agent_uri_def store_agent_wallet_def remove_agent_wallet_def store_metadata_def record_metadata_key_def
      drop_claims_def clear_metadata Let_def keys_of_cong [of "st\<lparr>id_wallet := w'\<rparr>" st for w'])

lemma store_upgrade [store_simps]:
  "id_upgrade (store_agent_uri a uri st) = id_upgrade st" "id_upgrade (store_agent_wallet a w st) = id_upgrade st"
  "id_upgrade (remove_agent_wallet a st) = id_upgrade st" "id_upgrade (store_metadata a k v st) = id_upgrade st"
  "id_upgrade (clear_all_metadata a st) = id_upgrade st" "id_upgrade (drop_claims a st) = id_upgrade st"
  by (auto simp: store_agent_uri_def store_agent_wallet_def remove_agent_wallet_def store_metadata_def record_metadata_key_def
      clear_all_metadata_def drop_claims_def Let_def split: option.split)

lemma fold_store [store_simps]:
  "id_nft (fold (\<lambda>(k, v). store_metadata a k v) kvs st) = id_nft st" "id_uri (fold (\<lambda>(k, v). store_metadata a k v) kvs st) = id_uri st"
  "id_wallet (fold (\<lambda>(k, v). store_metadata a k v) kvs st) = id_wallet st"
  "id_upgrade (fold (\<lambda>(k, v). store_metadata a k v) kvs st) = id_upgrade st"
  by (induction kvs arbitrary: st) (auto simp: store_simps)

section \<open>What a call may do\<close>

definition may_change :: "'n nft_base \<Rightarrow> call_env \<Rightarrow> 'n identity \<Rightarrow> Address \<Rightarrow> nat \<Rightarrow> bool" where
  "may_change N e st c a \<longleftrightarrow> (\<exists>owner. find_owner N st a = Some owner \<and> owner_or_approved N e st c a owner)"

lemma require_iff [simp]: "require_owner_or_approved N e st c a = Inr u \<longleftrightarrow> may_change N e st c a"
  by (auto simp: require_owner_or_approved_def may_change_def owner_or_approved_def sbind_eq_Inr split: option.splits)

lemma authorized_iff: "is_authorized_or_owner N e st c a \<longleftrightarrow> may_change N e st c a"
  by (auto simp: is_authorized_or_owner_def may_change_def owner_or_approved_def split: option.splits)

definition entry_ok :: "string \<times> bytes \<Rightarrow> bool" where
  "entry_ok kv \<longleftrightarrow> length (fst kv) \<le> MAX_METADATA_KEY_LEN \<and> length (snd kv) \<le> MAX_METADATA_VALUE_LEN \<and> fst kv \<noteq> agent_wallet_key"

lemma smap_check: "smap check_entry kvs = Inr us \<Longrightarrow> list_all entry_ok kvs"
  by (induction kvs arbitrary: us) (auto simp: sbind_eq_Inr check_entry_def entry_ok_def)

text \<open>The specification of a call: one rule per kind of change, with who asked for it and what is published.\<close>

inductive identity_spec :: "'n nft_base \<Rightarrow> call_env \<Rightarrow> 'n identity \<Rightarrow> 'n identity \<Rightarrow> contract_event list \<Rightarrow> bool" for N e st where
  spec_register: "ce_auth e c \<Longrightarrow> a = total_agents N st \<Longrightarrow> a < 2 ^ 32 \<Longrightarrow> nb_next N n = a + 1 \<Longrightarrow>
     nb_owner N n = (nb_owner N (id_nft st))(a \<mapsto> c) \<Longrightarrow> base_only minted \<Longrightarrow> length c \<le> 56 \<Longrightarrow>
     length kvs \<le> MAX_METADATA_KEYS \<Longrightarrow> list_all entry_ok kvs \<Longrightarrow>
     st1 = (case uri of None \<Rightarrow> st\<lparr>id_nft := n\<rparr> | Some u \<Rightarrow> store_agent_uri a u (st\<lparr>id_nft := n\<rparr>)) \<Longrightarrow>
     identity_spec N e st (fold (\<lambda>(k, v). store_metadata a k v) kvs (store_agent_wallet a c st1))
       (minted @ Ev_MetadataSet a agent_wallet_key (ascii c) # map (\<lambda>(k, v). Ev_MetadataSet a k v) kvs @
        [Ev_Registered a c (case uri of None \<Rightarrow> [] | Some u \<Rightarrow> u)])"
| spec_uri: "ce_auth e c \<Longrightarrow> may_change N e st c a \<Longrightarrow> uri \<noteq> [] \<Longrightarrow>
     identity_spec N e st (store_agent_uri a uri st) [Ev_UriUpdated a c uri]"
| spec_metadata: "ce_auth e c \<Longrightarrow> may_change N e st c a \<Longrightarrow> entry_ok (k, v) \<Longrightarrow>
     id_metadata st (a, k) \<noteq> None \<or> metadata_key_count st a < MAX_METADATA_KEYS \<Longrightarrow>
     identity_spec N e st (store_metadata a k v st) [Ev_MetadataSet a k v]"
| spec_wallet: "ce_auth e c \<Longrightarrow> ce_auth e w \<Longrightarrow> may_change N e st c a \<Longrightarrow> length w \<le> 56 \<Longrightarrow>
     identity_spec N e st (store_agent_wallet a w st) [Ev_MetadataSet a agent_wallet_key (ascii w)]"
| spec_unset: "ce_auth e c \<Longrightarrow> may_change N e st c a \<Longrightarrow>
     identity_spec N e st (remove_agent_wallet a st) [Ev_MetadataSet a agent_wallet_key []]"
| spec_transfer: "ce_auth e c \<Longrightarrow> may_change N e st c a \<Longrightarrow> moved N (id_nft st) n from to a \<Longrightarrow>
     identity_spec N e st ((drop_claims a st)\<lparr>id_nft := n\<rparr>) [Ev_MetadataSet a agent_wallet_key [], Ev_Transfer from to a]"
| spec_approval: "same_owners N (id_nft st) n \<Longrightarrow> base_only evs \<Longrightarrow> identity_spec N e st (st\<lparr>id_nft := n\<rparr>) evs"
| spec_upgrade: "exec_upgrade identity_upgrade_errors e u (id_upgrade st) = Inr s \<Longrightarrow> identity_spec N e st (st\<lparr>id_upgrade := s\<rparr>) []"

lemma mint_cases:
  assumes "nft_laws N" "sequential_mint N c st = Inr (a, st1, minted)"
  obtains n where "a = total_agents N st" "a < 2 ^ 32" "nb_next N n = a + 1" "nb_owner N n = (nb_owner N (id_nft st))(a \<mapsto> c)"
    "base_only minted" "st1 = st\<lparr>id_nft := n\<rparr>"
  using assms nft_lawsD(3) [OF assms(1)] by (fastforce simp: sequential_mint_def sbind_eq_Inr total_agents_def)

lemma init_wallet_iff: "init_agent_wallet a c st = Inr (st', evs) \<longleftrightarrow>
    length c \<le> 56 \<and> st' = store_agent_wallet a c st \<and> evs = [Ev_MetadataSet a agent_wallet_key (ascii c)]"
  by (auto simp: init_agent_wallet_def address_to_strkey_bytes_def sbind_eq_Inr)

lemma register_spec: "nft_laws N \<Longrightarrow> register N e c st = Inr (st', evs) \<Longrightarrow> identity_spec N e st st' evs"
  using spec_register [of e c _ N st _ _ "[]" _ None]
  by (auto simp: register_def sbind_eq_Inr init_wallet_iff elim!: mint_cases)

lemma register_with_uri_spec: "nft_laws N \<Longrightarrow> register_with_uri N e c uri st = Inr (st', evs) \<Longrightarrow> identity_spec N e st st' evs"
  using spec_register [of e c _ N st _ _ "[]" _ "Some uri"]
  by (auto simp: register_with_uri_def sbind_eq_Inr init_wallet_iff elim!: mint_cases)

lemma register_full_spec: "nft_laws N \<Longrightarrow> register_full N e c uri kvs st = Inr (st', evs) \<Longrightarrow> identity_spec N e st st' evs"
  using spec_register [of e c _ N st _ _ kvs _ "Some uri"]
  by (auto simp: register_full_def sbind_eq_Inr init_wallet_iff dest!: smap_check elim!: mint_cases)

lemma transfer_spec: "nft_laws N \<Longrightarrow> transfer N e from to a st = Inr (st', evs) \<Longrightarrow> identity_spec N e st st' evs"
  using spec_transfer [of e "from" N st a _ "from" to] nft_lawsD(4) [of N e "id_nft st" "from" to a]
  by (auto simp: transfer_def sbind_eq_Inr Let_def store_simps moved_def may_change_def find_owner_def owner_or_approved_def)

lemma transfer_from_spec: "nft_laws N \<Longrightarrow> transfer_from N e c from to a st = Inr (st', evs) \<Longrightarrow> identity_spec N e st st' evs"
  using spec_transfer [of e c N st a _ "from" to] nft_lawsD(5) [of N e "id_nft st" c "from" to a]
  by (auto simp: transfer_from_def sbind_eq_Inr Let_def store_simps moved_def may_change_def find_owner_def owner_or_approved_def)

lemma exec_identity_spec:
  assumes "nft_laws N" "exec_identity N e c st = Inr (st', evs)"
  shows "identity_spec N e st st' evs"
proof (cases c)
  case (Call_approve o' to a live)
  with assms nft_lawsD(6) [OF assms(1)] show ?thesis by (auto simp: sbind_eq_Inr intro: spec_approval)
next
  case (Call_approve_for_all o' to live)
  with assms nft_lawsD(7) [OF assms(1)] show ?thesis by (auto simp: sbind_eq_Inr intro: spec_approval)
qed (use assms in \<open>auto simp: set_agent_uri_def set_metadata_def set_agent_wallet_def unset_agent_wallet_def
    address_to_strkey_bytes_def sbind_eq_Inr entry_ok_def not_le
    intro: register_spec register_with_uri_spec register_full_spec transfer_spec transfer_from_spec identity_spec.intros\<close>)

section \<open>Invariant\<close>

definition owners_inv :: "'n nft_base \<Rightarrow> 'n identity \<Rightarrow> bool" where
  "owners_inv N st \<longleftrightarrow> (\<forall>a. agent_exists N st a \<longleftrightarrow> a < total_agents N st) \<and>
     (\<forall>a. \<not> agent_exists N st a \<longrightarrow> id_uri st a = None \<and> id_wallet st a = None \<and> keys_of st a = [])"

definition metadata_inv :: "'n identity \<Rightarrow> bool" where
  "metadata_inv st \<longleftrightarrow> (\<forall>a k. id_metadata st (a, k) \<noteq> None \<longleftrightarrow> k \<in> set (keys_of st a)) \<and> (\<forall>a. distinct (keys_of st a)) \<and>
     (\<forall>a k v. id_metadata st (a, k) = Some v \<longrightarrow> entry_ok (k, v))"

definition identity_inv :: "'n nft_base \<Rightarrow> 'n identity \<Rightarrow> bool" where
  "identity_inv N st \<longleftrightarrow> owners_inv N st \<and> metadata_inv st \<and> (\<forall>a. length (keys_of st a) \<le> MAX_METADATA_KEYS)"

lemma metadata_inv_cong: "id_metadata st' = id_metadata st \<Longrightarrow> id_keys st' = id_keys st \<Longrightarrow> metadata_inv st' = metadata_inv st"
  using keys_of_cong [of st' st] by (simp add: metadata_inv_def)

lemma metadata_inv_store: "metadata_inv st \<Longrightarrow> entry_ok (k, v) \<Longrightarrow> metadata_inv (store_metadata a k v st)"
  by (auto simp: metadata_inv_def store_simps)

lemma fold_store_metadata:
  "metadata_inv st \<Longrightarrow> list_all entry_ok kvs \<Longrightarrow> metadata_inv (fold (\<lambda>(k, v). store_metadata a k v) kvs st)"
  by (induction kvs arbitrary: st) (auto intro: metadata_inv_store)

lemma fold_store_keys: "length (keys_of (fold (\<lambda>(k, v). store_metadata a k v) kvs st) b) \<le> length (keys_of st b) + length kvs"
proof (induction kvs arbitrary: st)
  case (Cons kv kvs)
  obtain k v where kv: "kv = (k, v)" by fastforce
  have "length (keys_of (store_metadata a k v st) b) \<le> length (keys_of st b) + 1" by (simp add: store_simps)
  with Cons.IH [of "store_metadata a k v st"] show ?case by (simp add: kv)
qed simp

lemma fold_store_other: "b \<noteq> a \<Longrightarrow> keys_of (fold (\<lambda>(k, v). store_metadata a k v) kvs st) b = keys_of st b"
  by (induction kvs arbitrary: st) (auto simp: store_simps)

lemma metadata_inv_clear: "metadata_inv st \<Longrightarrow> metadata_inv ((drop_claims a st)\<lparr>id_nft := n\<rparr>)"
proof -
  assume inv: "metadata_inv st"
  have "keys_of ((drop_claims a st)\<lparr>id_nft := n\<rparr>) b = (if b = a then [] else keys_of st b)" for b
    by (simp add: keys_of_def store_simps)
  moreover have "k \<notin> set (keys_of st b) \<Longrightarrow> id_metadata st (b, k) = None" for b k using inv by (metis metadata_inv_def)
  ultimately show ?thesis using inv by (auto simp: metadata_inv_def store_simps)
qed

lemma keys_of_drop: "keys_of ((drop_claims a st)\<lparr>id_nft := n\<rparr>) b = (if b = a then [] else keys_of st b)"
  by (simp add: keys_of_def store_simps)

lemma keys_of_same: "id_keys st' = id_keys st \<Longrightarrow> keys_of st' b = keys_of st b"
  by (simp add: keys_of_def)

lemmas owner_simps = owners_inv_def agent_exists_def find_owner_def total_agents_def

lemma register_inv:
  assumes inv: "identity_inv N st" and a: "a = total_agents N st" "nb_next N n = a + 1" "nb_owner N n = (nb_owner N (id_nft st))(a \<mapsto> c)"
    and kvs: "length kvs \<le> MAX_METADATA_KEYS" "list_all entry_ok kvs"
    and st1: "st1 = (case uri of None \<Rightarrow> st\<lparr>id_nft := n\<rparr> | Some u \<Rightarrow> store_agent_uri a u (st\<lparr>id_nft := n\<rparr>))"
  shows "identity_inv N (fold (\<lambda>(k, v). store_metadata a k v) kvs (store_agent_wallet a c st1))" (is "identity_inv N ?st")
proof -
  let ?st2 = "store_agent_wallet a c st1"
  have keys: "keys_of ?st2 b = keys_of st b" for b by (rule keys_of_same) (simp add: st1 store_simps split: option.split)
  have nft: "id_nft ?st = n" by (simp add: st1 store_simps split: option.split)
  have fresh: "keys_of st a = []" using inv a(1) by (auto simp: identity_inv_def owners_inv_def)
  have "metadata_inv ?st2"
    using inv by (subst metadata_inv_cong [of _ st]) (auto simp: st1 store_simps identity_inv_def split: option.split)
  then have "metadata_inv ?st" using kvs(2) by (rule fold_store_metadata)
  moreover have "length (keys_of ?st b) \<le> MAX_METADATA_KEYS" for b
  proof (cases "b = a")
    case True
    then show ?thesis using fold_store_keys [of a kvs ?st2 a] kvs(1) fresh by (simp add: keys)
  next
    case False
    then show ?thesis using fold_store_other [of b a kvs ?st2] inv by (simp add: keys identity_inv_def)
  qed
  moreover have "owners_inv N ?st"
  proof -
    have out: "id_uri ?st b = id_uri st b \<and> id_wallet ?st b = id_wallet st b \<and> keys_of ?st b = keys_of st b" if "b \<noteq> a" for b
      using that fold_store_other [of b a kvs ?st2] by (simp add: keys) (simp add: st1 store_simps split: option.split)
    have old: "agent_exists N st b \<longleftrightarrow> b < a" for b using inv a(1) by (simp add: identity_inv_def owners_inv_def)
    have ex: "agent_exists N ?st b \<longleftrightarrow> b < a + 1" for b
      using old [of b] unfolding agent_exists_def find_owner_def nft a(3) by auto
    have "id_uri ?st b = None \<and> id_wallet ?st b = None \<and> keys_of ?st b = []" if "\<not> b < a + 1" for b
      using that inv old [of b] out [of b] by (auto simp: identity_inv_def owners_inv_def)
    then show ?thesis unfolding owners_inv_def ex by (simp add: total_agents_def nft a(2))
  qed
  ultimately show ?thesis by (simp add: identity_inv_def)
qed

lemma may_change_exists: "may_change N e st c a \<Longrightarrow> agent_exists N st a"
  by (auto simp: may_change_def agent_exists_def)

lemma identity_spec_inv:
  assumes "identity_spec N e st st' evs" "identity_inv N st"
  shows "identity_inv N st'"
  using assms(1)
proof cases
  case (spec_register c a n minted kvs st1 uri)
  then show ?thesis using register_inv [OF assms(2), of a n c kvs st1 uri] by simp
next
  case (spec_uri c a uri)
  with assms(2) may_change_exists [OF spec_uri(4)] metadata_inv_cong [of st' st] keys_of_cong [of st' st] show ?thesis
    by (auto simp: identity_inv_def owner_simps store_simps)
next
  case (spec_metadata c a k v)
  have "metadata_key_count st a = length (keys_of st a)" by (simp add: metadata_key_count_def keys_of_def split: option.split)
  with spec_metadata assms(2) may_change_exists [OF spec_metadata(4)] metadata_inv_store [of st k v a] show ?thesis
    by (auto simp: identity_inv_def owner_simps store_simps metadata_inv_def)
next
  case (spec_wallet c w a)
  with assms(2) may_change_exists [OF spec_wallet(5)] metadata_inv_cong [of st' st] keys_of_cong [of st' st] show ?thesis
    by (auto simp: identity_inv_def owner_simps store_simps)
next
  case (spec_unset c a)
  with assms(2) metadata_inv_cong [of st' st] keys_of_cong [of st' st] show ?thesis
    by (auto simp: identity_inv_def owner_simps store_simps)
next
  case (spec_transfer c a n from' to)
  then have "nb_owner N n = (nb_owner N (id_nft st))(a \<mapsto> to)" "nb_next N n = nb_next N (id_nft st)" "nb_owner N (id_nft st) a \<noteq> None"
    by (auto simp: moved_def)
  with spec_transfer(1) assms(2) metadata_inv_clear [of st n a] show ?thesis
    by (auto simp: identity_inv_def owner_simps store_simps keys_of_drop)
next
  case (spec_approval n)
  with assms(2) metadata_inv_cong [of st' st] keys_of_cong [of st' st] show ?thesis
    by (auto simp: identity_inv_def owner_simps same_owners_def)
next
  case (spec_upgrade u s)
  with assms(2) metadata_inv_cong [of st' st] keys_of_cong [of st' st] show ?thesis
    by (auto simp: identity_inv_def owner_simps)
qed

lemma new_identity_inv: "nft_laws N \<Longrightarrow> identity_inv N (new_identity N name symbol)"
  by (auto simp: identity_inv_def owner_simps metadata_inv_def new_identity_def keys_of_def nft_lawsD(1,2))

section \<open>Histories\<close>

text \<open>A history of successful calls; a call that fails is rolled back and leaves nothing.\<close>

type_synonym identity_history = "(call_env \<times> identity_call \<times> contract_event list) list"

inductive identity_run :: "'n nft_base \<Rightarrow> 'n identity \<Rightarrow> identity_history \<Rightarrow> 'n identity \<Rightarrow> bool" for N st where
  identity_start: "identity_run N st [] st"
| identity_next: "identity_run N st h st1 \<Longrightarrow> exec_identity N e c st1 = Inr (st2, evs) \<Longrightarrow> identity_run N st (h @ [(e, c, evs)]) st2"

lemma identity_run_inv: "identity_run N st h st' \<Longrightarrow> nft_laws N \<Longrightarrow> identity_inv N st \<Longrightarrow> identity_inv N st'"
  by (induction rule: identity_run.induct) (auto intro: identity_spec_inv exec_identity_spec)

text \<open>Only calls of the three upgrade entry points touch the upgrade slot.\<close>

definition upgrades :: "identity_history \<Rightarrow> (call_env \<times> upgrade_call) list" where
  "upgrades h = concat (map (\<lambda>(e, c, evs). case c of Call_identity_upgrade u \<Rightarrow> [(e, u)] | _ \<Rightarrow> []) h)"

lemma exec_identity_slot:
  assumes "exec_identity N e c st = Inr (st', evs)"
  shows "case c of Call_identity_upgrade u \<Rightarrow> exec_upgrade identity_upgrade_errors e u (id_upgrade st) = Inr (id_upgrade st')
    | _ \<Rightarrow> id_upgrade st' = id_upgrade st"
  using assms
  by (cases c) (auto simp: register_def register_with_uri_def register_full_def set_agent_uri_def set_metadata_def set_agent_wallet_def
      unset_agent_wallet_def transfer_def transfer_from_def sequential_mint_def init_wallet_iff sbind_eq_Inr store_simps Let_def)

lemma identity_run_upgrades:
  "identity_run N st h st' \<Longrightarrow> upgrade_run identity_upgrade_errors (id_upgrade st) (upgrades h) (id_upgrade st')"
proof (induction rule: identity_run.induct)
  case (identity_next h st1 e c st2 evs)
  with exec_identity_slot [OF identity_next(2)] show ?case
    by (auto simp: upgrades_def split: identity_call.splits intro: upgrade_next)
qed (simp add: upgrades_def upgrade_start)

section \<open>Properties\<close>

definition claims :: "'n identity \<Rightarrow> nat \<Rightarrow> string option \<times> Address option \<times> (string \<rightharpoonup> bytes)" where
  "claims st a = (id_uri st a, id_wallet st a, \<lambda>k. id_metadata st (a, k))"

lemma fold_store_entries: "b \<noteq> a \<Longrightarrow> id_metadata (fold (\<lambda>(k, v). store_metadata a k v) kvs st) (b, k) = id_metadata st (b, k)"
  by (induction kvs arbitrary: st) (auto simp: store_simps)

text \<open>The cases of a change, for one agent that exists.\<close>

lemma identity_spec_agent:
  assumes spec: "identity_spec N e st st' evs" and inv: "identity_inv N st" and ex: "agent_exists N st a"
  shows "find_owner N st' a = find_owner N st a \<and> claims st' a = claims st a \<or>
    (\<exists>c. ce_auth e c \<and> may_change N e st c a \<and>
      (find_owner N st' a = find_owner N st a \<and> (id_wallet st' a = id_wallet st a \<or> id_wallet st' a = None \<or> (\<exists>w. id_wallet st' a = Some w \<and> ce_auth e w)) \<or>
       id_wallet st' a = None \<and> (\<forall>k. id_metadata st' (a, k) = None)))"
  using spec
proof cases
  case (spec_register c b n minted kvs st1 uri)
  have "a < b" using inv ex spec_register(4) by (simp add: identity_inv_def owners_inv_def)
  then have "find_owner N st' a = find_owner N st a \<and> claims st' a = claims st a"
    unfolding spec_register(1) claims_def find_owner_def
    by (auto simp: store_simps fold_store_entries spec_register(7,12) split: option.split)
  then show ?thesis ..
next
  case (spec_uri c b uri)
  then show ?thesis by (cases "b = a") (auto simp: claims_def find_owner_def store_simps)
next
  case (spec_metadata c b k v)
  then show ?thesis by (cases "b = a") (auto simp: claims_def find_owner_def store_simps)
next
  case (spec_wallet c w b)
  then show ?thesis by (cases "b = a") (auto simp: claims_def find_owner_def store_simps)
next
  case (spec_unset c b)
  then show ?thesis by (cases "b = a") (auto simp: claims_def find_owner_def store_simps)
next
  case (spec_transfer c b n from' to)
  show ?thesis
  proof (cases "b = a")
    case True
    have "k \<notin> set (keys_of st a) \<Longrightarrow> id_metadata st (a, k) = None" for k using inv by (metis identity_inv_def metadata_inv_def)
    with True spec_transfer show ?thesis by (auto simp: store_simps)
  next
    case False
    with spec_transfer show ?thesis by (auto simp: claims_def find_owner_def store_simps moved_def fun_eq_iff)
  qed
next
  case (spec_approval n)
  then show ?thesis by (auto simp: claims_def find_owner_def same_owners_def)
next
  case (spec_upgrade u s)
  then show ?thesis by (auto simp: claims_def find_owner_def)
qed

text \<open>C7. Whatever is called, an agent's owner, URI, wallet and metadata change only if somebody who owns the agent or is approved for it authorized
  the call; a wallet is only ever set with the authorization of that wallet; and when the owner changes, the wallet and all metadata of
  the previous owner are gone.\<close>

theorem identity_changes_authorized:
  assumes "nft_laws N" "identity_run N (new_identity N name symbol) h st" "exec_identity N e c st = Inr (st', evs)" "agent_exists N st a"
  shows "(find_owner N st' a \<noteq> find_owner N st a \<or> claims st' a \<noteq> claims st a \<longrightarrow> (\<exists>caller. ce_auth e caller \<and> may_change N e st caller a)) \<and>
    (\<forall>w. id_wallet st' a = Some w \<longrightarrow> id_wallet st a = Some w \<or> ce_auth e w) \<and>
    (find_owner N st' a \<noteq> find_owner N st a \<longrightarrow> id_wallet st' a = None \<and> (\<forall>k. id_metadata st' (a, k) = None))"
proof -
  have "identity_inv N st" using identity_run_inv [OF assms(2,1)] new_identity_inv [OF assms(1)] by blast
  from identity_spec_agent [OF exec_identity_spec [OF assms(1,3)] this assms(4)] show ?thesis by (auto simp: claims_def)
qed

text \<open>A base contract without approvals, for the examples.\<close>

definition plain_nft :: "((nat \<rightharpoonup> Address) \<times> nat) nft_base" where
  "plain_nft = \<lparr>nb_new = (\<lambda>_ _ _. (Map.empty, 0)), nb_owner = fst, nb_next = snd, nb_approved = (\<lambda>_ _ _. None), nb_approved_all = (\<lambda>_ _ _ _. False),
     nb_has_balance = (\<lambda>_ _. True),
     nb_mint = (\<lambda>n to. if snd n < 2 ^ 32 then Inr (snd n, ((fst n)(snd n \<mapsto> to), snd n + 1), [Ev_Base ''mint'']) else Inl ''TokenIDsAreDepleted''),
     nb_transfer = (\<lambda>e n from to a. if ce_auth e from \<and> fst n a = Some from then Inr (((fst n)(a \<mapsto> to), snd n), [Ev_Transfer from to a])
        else Inl ''IncorrectOwner''),
     nb_transfer_from = (\<lambda>e n c from to a. if ce_auth e c \<and> c = from \<and> fst n a = Some from
        then Inr (((fst n)(a \<mapsto> to), snd n), [Ev_Transfer from to a]) else Inl ''InsufficientApproval''),
     nb_approve = (\<lambda>_ _ _ _ _ _. Inl ''InvalidApprover''), nb_approve_for_all = (\<lambda>_ _ _ _ _. Inl ''InvalidApprover'')\<rparr>"

lemma plain_nft_laws: "nft_laws plain_nft"
  by (auto simp: nft_laws_def plain_nft_def moved_def base_only_def base_names_def)

definition sample_call :: "nat \<Rightarrow> call_env" where
  "sample_call l = \<lparr>ce_auth = (\<lambda>_. True), ce_sequence = l, ce_only_owner = True\<rparr>"

definition sample_identity :: "((nat \<rightharpoonup> Address) \<times> nat) identity" where
  "sample_identity = (new_identity plain_nft [] [])\<lparr>id_nft := ([0 \<mapsto> ''A''], 1), id_uri := [0 \<mapsto> ''u''], id_wallet := [0 \<mapsto> ''A''],
     id_metadata := [(0, ''k'') \<mapsto> [7]], id_keys := [0 \<mapsto> [''k'']]\<rparr>"

lemma sample_registered: "exec_identity plain_nft (sample_call 1) (Call_register_full ''A'' ''u'' [(''k'', [7])]) (new_identity plain_nft [] []) =
    Inr (sample_identity, [Ev_Base ''mint'', Ev_MetadataSet 0 agent_wallet_key (ascii ''A''), Ev_MetadataSet 0 ''k'' [7], Ev_Registered 0 ''A'' ''u''])"
  by (simp add: register_full_def sequential_mint_def init_agent_wallet_def check_entry_def plain_nft_def sample_call_def new_identity_def
      require_auth_def demand_def panics_def address_to_strkey_bytes_def MAX_METADATA_KEYS_def MAX_METADATA_KEY_LEN_def MAX_METADATA_VALUE_LEN_def
      agent_wallet_key_def store_agent_uri_def store_agent_wallet_def store_metadata_def record_metadata_key_def keys_of_def sample_identity_def)

lemma sample_identity_run:
  "identity_run plain_nft (new_identity plain_nft [] [])
     [(sample_call 1, Call_register_full ''A'' ''u'' [(''k'', [7])],
       [Ev_Base ''mint'', Ev_MetadataSet 0 agent_wallet_key (ascii ''A''), Ev_MetadataSet 0 ''k'' [7], Ev_Registered 0 ''A'' ''u''])] sample_identity"
  using identity_next [OF identity_start sample_registered] by simp

theorem identity_changes_authorized_witness:
  "\<exists>st' evs. exec_identity plain_nft (sample_call 2) (Call_transfer ''A'' ''B'' 0) sample_identity = Inr (st', evs) \<and>
     find_owner plain_nft st' 0 = Some ''B'' \<and> id_wallet st' 0 = None \<and> (\<forall>k. id_metadata st' (0, k) = None) \<and>
     (\<exists>caller. may_change plain_nft (sample_call 2) sample_identity caller 0)"
proof -
  obtain st' evs where step: "exec_identity plain_nft (sample_call 2) (Call_transfer ''A'' ''B'' 0) sample_identity = Inr (st', evs)"
      "find_owner plain_nft st' 0 = Some ''B''"
    by (simp add: transfer_def plain_nft_def sample_call_def sample_identity_def panics_def find_owner_def drop_claims_def remove_agent_wallet_def
        clear_all_metadata_def)
  have "agent_exists plain_nft sample_identity 0" "find_owner plain_nft sample_identity 0 = Some ''A''"
    by (simp_all add: agent_exists_def find_owner_def plain_nft_def sample_identity_def)
  with identity_changes_authorized [OF plain_nft_laws sample_identity_run step(1), of 0] step show ?thesis by fastforce
qed

text \<open>The agent an entry belongs to; a balance belongs to the agents of its owner.\<close>

definition entry_of :: "'n nft_base \<Rightarrow> 'n identity \<Rightarrow> nat \<Rightarrow> storage_key \<Rightarrow> bool" where
  "entry_of N st a x = (case x of AgentUri b \<Rightarrow> b = a | Metadata b k \<Rightarrow> b = a | AgentWallet b \<Rightarrow> b = a | MetadataKeys b \<Rightarrow> b = a
     | Nft_Owner b \<Rightarrow> b = a | Nft_Balance o' \<Rightarrow> find_owner N st a = Some o')"

text \<open>C19. In every state the registry can reach, the agents are exactly the numbers below the total, nothing is stored for others, an agent has at
  most 100 metadata entries, each within its size limits and none under the wallet's key, the list of keys names exactly the entries, and
  extending an agent's lifetime extends every entry it has.\<close>

theorem identity_storage_sound:
  assumes "nft_laws N" "identity_run N (new_identity N name symbol) h st"
  shows "identity_inv N st \<and> (\<forall>a x. present N st x \<and> entry_of N st a x \<longrightarrow> x \<in> set (extend_agent_ttl N a st))"
proof -
  have inv: "identity_inv N st" using identity_run_inv [OF assms(2,1)] new_identity_inv [OF assms(1)] by blast
  have keys: "id_metadata st (a, k) \<noteq> None \<Longrightarrow> \<exists>ks. id_keys st a = Some ks \<and> k \<in> set ks" for a k
    using inv by (cases "id_keys st a") (auto simp: identity_inv_def metadata_inv_def keys_of_def)
  have "x \<in> set (extend_agent_ttl N a st)" if x: "present N st x" "entry_of N st a x" for a x
    using x keys [of a] by (cases x) (fastforce simp: present_def entry_of_def extend_agent_ttl_def find_owner_def)+
  with inv show ?thesis by blast
qed

theorem identity_storage_sound_witness:
  "identity_inv plain_nft sample_identity \<and> Metadata 0 ''k'' \<in> set (extend_agent_ttl plain_nft 0 sample_identity)"
proof -
  have "present plain_nft sample_identity (Metadata 0 ''k'') \<and> entry_of plain_nft sample_identity 0 (Metadata 0 ''k'')"
    by (simp add: present_def entry_of_def sample_identity_def)
  with identity_storage_sound [OF plain_nft_laws sample_identity_run] show ?thesis by blast
qed

text \<open>\<open>register_full\<close> takes a metadata entry with an empty key, which \<open>set_metadata\<close> refuses.\<close>

lemma empty_key_at_registration:
  "exec_identity plain_nft (sample_call 1) (Call_register_full ''A'' ''u'' [([], [7])]) (new_identity plain_nft [] []) \<noteq> Inl f"
  "exec_identity N e (Call_set_metadata c a [] v) st = Inl (if ce_auth e c then Err Id_EmptyValue else Panic ''auth'')"
  by (simp_all add: register_full_def set_metadata_def sequential_mint_def init_agent_wallet_def check_entry_def plain_nft_def sample_call_def
      new_identity_def require_auth_def demand_def panics_def address_to_strkey_bytes_def MAX_METADATA_KEYS_def MAX_METADATA_KEY_LEN_def
      MAX_METADATA_VALUE_LEN_def agent_wallet_key_def)

end
