(* ===== verification/Contract_Reputation.thy ===== *)
theory Contract_Reputation
  imports Contract_Identity
begin

text \<open>
  The reputation registry (\<open>contracts/reputation-registry/src\<close>): numbered feedback of clients for agents, revocations, counted responses, the list
  of clients of an agent and the averaged summary.

  The registry asks the identity registry over a contract client; \<open>directory\<close> is that interface, and the locale \<open>agent_directory\<close> what the callers
  rely on, with the interpretation on the identity registry of \<open>Contract_Identity\<close>. The client list is an instance of \<open>counted_list\<close>. The lemmas
  show that nobody rates an agent they control, that feedback is never altered but for its revocation by the client, and that the summary is the
  exact average of the selected feedback, cut to the most frequent number of decimals, or an overflow error.
\<close>

section \<open>The identity registry as a client sees it\<close>

record directory =
  dr_owner :: "nat \<rightharpoonup> Address"
  dr_exists :: "nat \<Rightarrow> bool"
  dr_authorized :: "Address \<Rightarrow> nat \<Rightarrow> bool"
  dr_approved :: "nat \<rightharpoonup> Address"
  dr_approved_all :: "Address \<Rightarrow> Address \<Rightarrow> bool"

locale agent_directory =
  fixes dir :: directory
  assumes exists_owner: "dr_exists dir a \<longleftrightarrow> dr_owner dir a \<noteq> None"
    and authorized_owner: "dr_authorized dir c a \<longleftrightarrow>
      (\<exists>owner. dr_owner dir a = Some owner \<and> (c = owner \<or> dr_approved dir a = Some c \<or> dr_approved_all dir owner c))"
begin

lemma authorized_exists: "dr_authorized dir c a \<Longrightarrow> dr_exists dir a"
  by (auto simp: exists_owner authorized_owner)

lemma owner_authorized: "dr_owner dir a = Some c \<Longrightarrow> dr_authorized dir c a"
  by (auto simp: authorized_owner)

end

definition directory_of :: "'n nft_base \<Rightarrow> call_env \<Rightarrow> 'n identity \<Rightarrow> directory" where
  "directory_of N e st = \<lparr>dr_owner = find_owner N st, dr_exists = agent_exists N st, dr_authorized = is_authorized_or_owner N e st,
     dr_approved = nb_approved N e (id_nft st), dr_approved_all = nb_approved_all N e (id_nft st)\<rparr>"

interpretation registry: agent_directory "directory_of N e st" for N e st
  by unfold_locales (auto simp: directory_of_def agent_exists_def authorized_iff may_change_def owner_or_approved_def)

section \<open>Storage\<close>

datatype ReputationError = Rp_SelfFeedback | Rp_FeedbackNotFound | Rp_InvalidValueDecimals | Rp_NotOwnerOrApproved | Rp_AggregateOverflow
  | Rp_AgentNotFound | Rp_EmptyValue | Rp_ValueOutOfRange | Rp_ClientAddressesRequired | Rp_NoUpgradeProposed | Rp_TimelockNotExpired
  | Rp_UpgradeAlreadyProposed

record FeedbackData =
  fd_value :: int
  fd_decimals :: nat
  fd_revoked :: bool
  fd_tag1 :: string
  fd_tag2 :: string

record SummaryResult =
  sr_count :: nat
  sr_value :: int
  sr_decimals :: nat

record reputation =
  rp_feedback :: "nat \<times> Address \<times> nat \<rightharpoonup> FeedbackData"
  rp_last :: "nat \<times> Address \<rightharpoonup> nat"
  rp_client_count :: "nat \<rightharpoonup> nat"
  rp_client_at :: "nat \<times> nat \<rightharpoonup> Address"
  rp_client_exists :: "nat \<times> Address \<rightharpoonup> bool"
  rp_responses :: "nat \<times> Address \<times> nat \<rightharpoonup> nat"
  rp_upgrade :: upgrade_slot

type_synonym reputation_result = "ReputationError failure + reputation \<times> contract_event list"

definition new_reputation :: reputation where
  "new_reputation = \<lparr>rp_feedback = Map.empty, rp_last = Map.empty, rp_client_count = Map.empty, rp_client_at = Map.empty,
     rp_client_exists = Map.empty, rp_responses = Map.empty, rp_upgrade = \<lparr>us_pending = None, us_installed = []\<rparr>\<rparr>"

definition get_last_index :: "reputation \<Rightarrow> nat \<Rightarrow> Address \<Rightarrow> nat" where
  "get_last_index st a c = (case rp_last st (a, c) of Some i \<Rightarrow> i | None \<Rightarrow> 0)"

definition client_exists :: "reputation \<Rightarrow> nat \<Rightarrow> Address \<Rightarrow> bool" where
  "client_exists st a c \<longleftrightarrow> rp_client_exists st (a, c) \<noteq> None"

definition get_client_count :: "reputation \<Rightarrow> nat \<Rightarrow> nat" where
  "get_client_count st a = (case rp_client_count st a of Some n \<Rightarrow> n | None \<Rightarrow> 0)"

definition add_client :: "reputation \<Rightarrow> nat \<Rightarrow> Address \<Rightarrow> reputation option" where
  "add_client st a c = (let n = get_client_count st a in case checked_u32 (n + 1) of
      None \<Rightarrow> None
    | Some next \<Rightarrow> Some (st\<lparr>rp_client_at := (rp_client_at st)((a, n) \<mapsto> c), rp_client_exists := (rp_client_exists st)((a, c) \<mapsto> True),
        rp_client_count := (rp_client_count st)(a \<mapsto> next)\<rparr>))"

definition get_clients_paginated :: "reputation \<Rightarrow> nat \<Rightarrow> nat \<Rightarrow> nat \<Rightarrow> Address list" where
  "get_clients_paginated st a start limit =
     concat (map (\<lambda>i. case rp_client_at st (a, i) of Some c \<Rightarrow> [c] | None \<Rightarrow> [])
       [start ..< min (saturating_u32 (start + limit)) (get_client_count st a)])"

definition get_response_count :: "reputation \<Rightarrow> nat \<Rightarrow> Address \<Rightarrow> nat \<Rightarrow> nat" where
  "get_response_count st a c i = (case rp_responses st (a, c, i) of Some n \<Rightarrow> n | None \<Rightarrow> 0)"

definition increment_response_count :: "reputation \<Rightarrow> nat \<Rightarrow> Address \<Rightarrow> nat \<Rightarrow> reputation option" where
  "increment_response_count st a c i = (case checked_u32 (get_response_count st a c i + 1) of
      None \<Rightarrow> None
    | Some next \<Rightarrow> Some (st\<lparr>rp_responses := (rp_responses st)((a, c, i) \<mapsto> next)\<rparr>))"

interpretation clients: counted_list get_client_count "\<lambda>st a i. rp_client_at st (a, i)" add_client get_clients_paginated
  by unfold_locales
    (auto simp: add_client_def get_client_count_def get_clients_paginated_def indexed_def page_stop_def Let_def split: option.splits)

section \<open>Operations\<close>

definition MAX_ABS_VALUE :: int where
  "MAX_ABS_VALUE = 10 ^ 38"

definition MAX_SUMMARY_CLIENTS :: nat where
  "MAX_SUMMARY_CLIENTS = 5"

record feedback_args =
  fa_agent :: nat
  fa_value :: int
  fa_decimals :: nat
  fa_tag1 :: string
  fa_tag2 :: string
  fa_endpoint :: string
  fa_uri :: string
  fa_hash :: bytes

definition give_feedback :: "directory \<Rightarrow> call_env \<Rightarrow> Address \<Rightarrow> feedback_args \<Rightarrow> reputation \<Rightarrow> reputation_result" where
  "give_feedback dir e caller f st =
     (let a = fa_agent f in
      sbind (require_auth e caller) (\<lambda>_.
      sbind (demand (\<not> 18 < fa_decimals f) (Err Rp_InvalidValueDecimals)) (\<lambda>_.
      sbind (demand (- MAX_ABS_VALUE \<le> fa_value f \<and> fa_value f \<le> MAX_ABS_VALUE) (Err Rp_ValueOutOfRange)) (\<lambda>_.
      sbind (demand (dr_exists dir a) (Err Rp_AgentNotFound)) (\<lambda>_.
      sbind (demand (\<not> dr_authorized dir caller a) (Err Rp_SelfFeedback)) (\<lambda>_.
      sbind (if client_exists st a caller then Inr st else or_fail (Err Rp_AggregateOverflow) (add_client st a caller)) (\<lambda>st1.
      sbind (or_fail (Panic ''attempt to add with overflow'') (checked_u64 (get_last_index st1 a caller + 1))) (\<lambda>i.
        let data = \<lparr>fd_value = fa_value f, fd_decimals = fa_decimals f, fd_revoked = False, fd_tag1 = fa_tag1 f, fd_tag2 = fa_tag2 f\<rparr>
        in Inr (st1\<lparr>rp_last := (rp_last st1)((a, caller) \<mapsto> i), rp_feedback := (rp_feedback st1)((a, caller, i) \<mapsto> data)\<rparr>,
             [Ev_NewFeedback a caller i (fa_value f) (fa_decimals f) (fa_tag1 f) (fa_tag2 f) (fa_endpoint f) (fa_uri f) (fa_hash f)])))))))))"

definition revoke_feedback :: "call_env \<Rightarrow> Address \<Rightarrow> nat \<Rightarrow> nat \<Rightarrow> reputation \<Rightarrow> reputation_result" where
  "revoke_feedback e caller a i st =
     sbind (require_auth e caller) (\<lambda>_.
     sbind (or_fail (Err Rp_FeedbackNotFound) (rp_feedback st (a, caller, i))) (\<lambda>data.
     sbind (demand (\<not> fd_revoked data) (Err Rp_FeedbackNotFound)) (\<lambda>_.
       Inr (st\<lparr>rp_feedback := (rp_feedback st)((a, caller, i) \<mapsto> data\<lparr>fd_revoked := True\<rparr>)\<rparr>, [Ev_FeedbackRevoked a caller i]))))"

definition append_response ::
  "call_env \<Rightarrow> Address \<Rightarrow> nat \<Rightarrow> Address \<Rightarrow> nat \<Rightarrow> string \<Rightarrow> bytes \<Rightarrow> reputation \<Rightarrow> reputation_result" where
  "append_response e caller a client i uri h st =
     sbind (require_auth e caller) (\<lambda>_.
     sbind (demand (uri \<noteq> []) (Err Rp_EmptyValue)) (\<lambda>_.
     sbind (or_fail (Err Rp_FeedbackNotFound) (rp_feedback st (a, client, i))) (\<lambda>_.
     sbind (or_fail (Err Rp_AggregateOverflow) (increment_response_count st a client i)) (\<lambda>st1.
       Inr (st1, [Ev_ResponseAppended a client caller i uri h])))))"

definition read_feedback :: "nat \<Rightarrow> Address \<Rightarrow> nat \<Rightarrow> reputation \<Rightarrow> ReputationError failure + FeedbackData" where
  "read_feedback a c i st = or_fail (Err Rp_FeedbackNotFound) (rp_feedback st (a, c, i))"

definition reputation_upgrade_errors :: "ReputationError upgrade_errors" where
  "reputation_upgrade_errors = \<lparr>ue_none = Rp_NoUpgradeProposed, ue_early = Rp_TimelockNotExpired, ue_twice = Rp_UpgradeAlreadyProposed\<rparr>"

datatype reputation_call =
    Call_give_feedback Address feedback_args
  | Call_revoke_feedback Address nat nat
  | Call_append_response Address nat Address nat string bytes
  | Call_reputation_upgrade upgrade_call

fun exec_reputation :: "directory \<Rightarrow> call_env \<Rightarrow> reputation_call \<Rightarrow> reputation \<Rightarrow> reputation_result" where
  "exec_reputation dir e (Call_give_feedback c f) st = give_feedback dir e c f st"
| "exec_reputation dir e (Call_revoke_feedback c a i) st = revoke_feedback e c a i st"
| "exec_reputation dir e (Call_append_response c a client i uri h) st = append_response e c a client i uri h st"
| "exec_reputation dir e (Call_reputation_upgrade u) st =
     sbind (exec_upgrade reputation_upgrade_errors e u (rp_upgrade st)) (\<lambda>s. Inr (st\<lparr>rp_upgrade := s\<rparr>, []))"

subsection \<open>Summary\<close>

definition POW10 :: "int list" where
  "POW10 = [1, 10, 100, 1000, 10000, 100000, 1000000, 10000000, 100000000, 1000000000, 10000000000, 100000000000, 1000000000000,
     10000000000000, 100000000000000, 1000000000000000, 10000000000000000, 100000000000000000, 1000000000000000000]"

definition pow10 :: "nat \<Rightarrow> int" where
  "pow10 n = POW10 ! n"

record tally =
  ty_sum :: int
  ty_count :: nat
  ty_decimals :: "nat list"

definition new_tally :: tally where
  "new_tally = \<lparr>ty_sum = 0, ty_count = 0, ty_decimals = replicate 19 0\<rparr>"

definition skipped :: "string \<Rightarrow> string \<Rightarrow> FeedbackData \<Rightarrow> bool" where
  "skipped tag1 tag2 fb \<longleftrightarrow> fd_revoked fb \<or> tag1 \<noteq> [] \<and> fd_tag1 fb \<noteq> tag1 \<or> tag2 \<noteq> [] \<and> fd_tag2 fb \<noteq> tag2"

definition tally_one :: "FeedbackData \<Rightarrow> tally \<Rightarrow> ReputationError failure + tally" where
  "tally_one fb t =
     (let dec = (if 18 < fd_decimals fb then 18 else fd_decimals fb); factor = pow10 (18 - dec) in
      sbind (or_fail (Err Rp_AggregateOverflow) (checked_i128 (fd_value fb * factor))) (\<lambda>normalized.
      sbind (or_fail (Err Rp_AggregateOverflow) (checked_i128 (ty_sum t + normalized))) (\<lambda>total_wad.
      sbind (or_fail (Panic ''attempt to add with overflow'') (checked_u64 (ty_decimals t ! dec + 1))) (\<lambda>d.
      sbind (or_fail (Err Rp_AggregateOverflow) (checked_u64 (ty_count t + 1))) (\<lambda>n.
        Inr \<lparr>ty_sum = total_wad, ty_count = n, ty_decimals = (ty_decimals t)[dec := d]\<rparr>)))))"

text \<open>One pass of the inner loop: index \<open>i\<close> of one client.\<close>

definition tally_index :: "reputation \<Rightarrow> nat \<Rightarrow> string \<Rightarrow> string \<Rightarrow> Address \<Rightarrow> nat \<Rightarrow> tally \<Rightarrow> ReputationError failure + tally" where
  "tally_index st a tag1 tag2 c i t = (case rp_feedback st (a, c, i) of
      None \<Rightarrow> Inr t
    | Some fb \<Rightarrow> if skipped tag1 tag2 fb then Inr t else tally_one fb t)"

fun sfold :: "('x \<Rightarrow> 's \<Rightarrow> 'e + 's) \<Rightarrow> 'x list \<Rightarrow> 's \<Rightarrow> 'e + 's" where
  "sfold f [] s = Inr s"
| "sfold f (x # xs) s = sbind (f x s) (sfold f xs)"

definition tally_client :: "reputation \<Rightarrow> nat \<Rightarrow> string \<Rightarrow> string \<Rightarrow> Address \<Rightarrow> tally \<Rightarrow> ReputationError failure + tally" where
  "tally_client st a tag1 tag2 c = sfold (tally_index st a tag1 tag2 c) [1 ..< get_last_index st a c + 1]"

definition mode_step :: "nat list \<Rightarrow> nat \<Rightarrow> nat \<times> nat \<Rightarrow> nat \<times> nat" where
  "mode_step ds d m = (case m of (mode_dec, max_freq) \<Rightarrow> if max_freq < ds ! d then (d, ds ! d) else (mode_dec, max_freq))"

definition mode_decimals :: "nat list \<Rightarrow> nat" where
  "mode_decimals ds = fst (fold (mode_step ds) [0 ..< 19] (0, 0))"

definition get_summary :: "nat \<Rightarrow> Address list \<Rightarrow> string \<Rightarrow> string \<Rightarrow> reputation \<Rightarrow> ReputationError failure + SummaryResult" where
  "get_summary a client_addresses tag1 tag2 st =
     sbind (demand (client_addresses \<noteq> []) (Err Rp_ClientAddressesRequired)) (\<lambda>_.
     sbind (sfold (tally_client st a tag1 tag2) (take (min (length client_addresses) MAX_SUMMARY_CLIENTS) client_addresses) new_tally) (\<lambda>t.
       if ty_count t = 0 then Inr \<lparr>sr_count = 0, sr_value = 0, sr_decimals = 0\<rparr>
       else (let mode_dec = mode_decimals (ty_decimals t); avg_wad = ty_sum t sdiv int (ty_count t)
             in Inr \<lparr>sr_count = ty_count t, sr_value = avg_wad sdiv pow10 (18 - mode_dec), sr_decimals = mode_dec\<rparr>)))"

section \<open>What a call may do\<close>

inductive reputation_spec :: "directory \<Rightarrow> call_env \<Rightarrow> reputation \<Rightarrow> reputation \<Rightarrow> contract_event list \<Rightarrow> bool" for dir e st where
  spec_feedback: "ce_auth e c \<Longrightarrow> fa_agent (f :: feedback_args) = a \<Longrightarrow> fa_decimals f \<le> 18 \<Longrightarrow> \<bar>fa_value f\<bar> \<le> MAX_ABS_VALUE \<Longrightarrow> dr_exists dir a \<Longrightarrow> \<not> dr_authorized dir c a \<Longrightarrow>
     (if client_exists st a c then st1 = st else add_client st a c = Some st1) \<Longrightarrow> i = get_last_index st a c + 1 \<Longrightarrow> i < 2 ^ 64 \<Longrightarrow>
     st2 = st1\<lparr>rp_last := (rp_last st)((a, c) \<mapsto> i), rp_feedback := (rp_feedback st)((a, c, i) \<mapsto>
       \<lparr>fd_value = fa_value f, fd_decimals = fa_decimals f, fd_revoked = False, fd_tag1 = fa_tag1 f, fd_tag2 = fa_tag2 f\<rparr>)\<rparr> \<Longrightarrow>
     reputation_spec dir e st st2
       [Ev_NewFeedback a c i (fa_value f) (fa_decimals f) (fa_tag1 f) (fa_tag2 f) (fa_endpoint f) (fa_uri f) (fa_hash f)]"
| spec_revoke: "ce_auth e c \<Longrightarrow> rp_feedback st (a, c, i) = Some (data :: FeedbackData) \<Longrightarrow> \<not> fd_revoked data \<Longrightarrow>
     reputation_spec dir e st (st\<lparr>rp_feedback := (rp_feedback st)((a, c, i) \<mapsto> data\<lparr>fd_revoked := True\<rparr>)\<rparr>) [Ev_FeedbackRevoked a c i]"
| spec_response: "ce_auth e c \<Longrightarrow> uri \<noteq> [] \<Longrightarrow> rp_feedback st (a, client, i) = Some data \<Longrightarrow> n = get_response_count st a client i + 1 \<Longrightarrow> n < 2 ^ 32 \<Longrightarrow>
     reputation_spec dir e st (st\<lparr>rp_responses := (rp_responses st)((a, client, i) \<mapsto> n)\<rparr>) [Ev_ResponseAppended a client c i uri h]"
| spec_reputation_upgrade: "exec_upgrade reputation_upgrade_errors e u (rp_upgrade st) = Inr s \<Longrightarrow>
     reputation_spec dir e st (st\<lparr>rp_upgrade := s\<rparr>) []"

lemma add_client_keeps:
  "add_client st a c = Some st1 \<Longrightarrow> rp_feedback st1 = rp_feedback st \<and> rp_last st1 = rp_last st \<and> rp_responses st1 = rp_responses st \<and>
     rp_upgrade st1 = rp_upgrade st \<and> rp_client_exists st1 = (rp_client_exists st)((a, c) \<mapsto> True)"
  by (auto simp: add_client_def Let_def split: option.splits)

lemma give_feedback_spec: "give_feedback dir e c f st = Inr (st', evs) \<Longrightarrow> reputation_spec dir e st st' evs"
proof -
  assume "give_feedback dir e c f st = Inr (st', evs)"
  then obtain st1 i where ok: "ce_auth e c" "fa_decimals f \<le> 18" "\<bar>fa_value f\<bar> \<le> MAX_ABS_VALUE" "dr_exists dir (fa_agent f)"
      "\<not> dr_authorized dir c (fa_agent f)" "if client_exists st (fa_agent f) c then st1 = st else add_client st (fa_agent f) c = Some st1"
    and i: "i = get_last_index st1 (fa_agent f) c + 1" "i < 2 ^ 64"
    and st': "st' = st1\<lparr>rp_last := (rp_last st1)((fa_agent f, c) \<mapsto> i), rp_feedback := (rp_feedback st1)((fa_agent f, c, i) \<mapsto>
        \<lparr>fd_value = fa_value f, fd_decimals = fa_decimals f, fd_revoked = False, fd_tag1 = fa_tag1 f, fd_tag2 = fa_tag2 f\<rparr>)\<rparr>"
    and evs: "evs = [Ev_NewFeedback (fa_agent f) c i (fa_value f) (fa_decimals f) (fa_tag1 f) (fa_tag2 f) (fa_endpoint f) (fa_uri f) (fa_hash f)]"
    by (auto simp: give_feedback_def Let_def sbind_eq_Inr abs_le_iff split: if_splits)
  have same: "rp_feedback st1 = rp_feedback st" "rp_last st1 = rp_last st" using ok(6) add_client_keeps by (auto split: if_splits)
  then have "i = get_last_index st (fa_agent f) c + 1" using i(1) by (simp add: get_last_index_def)
  from spec_feedback [OF ok(1) refl ok(2-6) this i(2) refl] show ?thesis by (simp add: st' evs same)
qed

lemma exec_reputation_spec: "exec_reputation dir e c st = Inr (st', evs) \<Longrightarrow> reputation_spec dir e st st' evs"
proof (cases c)
  case (Call_append_response c' a client i uri h)
  moreover assume "exec_reputation dir e c st = Inr (st', evs)"
  ultimately show ?thesis
    by (auto simp: append_response_def increment_response_count_def sbind_eq_Inr split: option.splits intro: spec_response)
qed (auto simp: revoke_feedback_def sbind_eq_Inr intro: give_feedback_spec spec_revoke spec_reputation_upgrade)

section \<open>Invariant\<close>

definition numbered :: "reputation \<Rightarrow> bool" where
  "numbered st \<longleftrightarrow> (\<forall>a c i. rp_feedback st (a, c, i) \<noteq> None \<longleftrightarrow> 1 \<le> i \<and> i \<le> get_last_index st a c)"

definition answered_inv :: "reputation \<Rightarrow> bool" where
  "answered_inv st \<longleftrightarrow> dom (rp_responses st) \<subseteq> dom (rp_feedback st)"

definition in_range :: "reputation \<Rightarrow> bool" where
  "in_range st \<longleftrightarrow> (\<forall>k fb. rp_feedback st k = Some fb \<longrightarrow> fd_decimals fb \<le> 18 \<and> \<bar>fd_value fb\<bar> \<le> MAX_ABS_VALUE)"

definition clients_inv :: "reputation \<Rightarrow> bool" where
  "clients_inv st \<longleftrightarrow> clients.taken st \<and> (\<forall>a. distinct (clients.items st a)) \<and>
     (\<forall>a c. client_exists st a c \<longleftrightarrow> c \<in> set (clients.items st a)) \<and> (\<forall>a c. client_exists st a c \<longleftrightarrow> 0 < get_last_index st a c)"

definition reputation_inv :: "reputation \<Rightarrow> bool" where
  "reputation_inv st \<longleftrightarrow> numbered st \<and> answered_inv st \<and> in_range st \<and> clients_inv st"

lemma clients_cong:
  assumes "rp_client_count st' = rp_client_count st" "rp_client_at st' = rp_client_at st"
  shows "clients.taken st' = clients.taken st" "clients.items st' = clients.items st"
  using assms by (auto simp: clients.taken_def clients.items_def get_client_count_def fun_eq_iff)

lemma clients_inv_cong:
  assumes "rp_client_count st' = rp_client_count st" "rp_client_at st' = rp_client_at st" "rp_client_exists st' = rp_client_exists st"
    "\<And>a c. 0 < get_last_index st' a c \<longleftrightarrow> 0 < get_last_index st a c"
  shows "clients_inv st' = clients_inv st"
  using assms clients_cong [of st' st] by (simp add: clients_inv_def client_exists_def)

lemma feedback_clients:
  assumes "clients_inv st" "if client_exists st a c then st1 = st else add_client st a c = Some st1" "i = get_last_index st a c + 1"
  shows "clients_inv (st1\<lparr>rp_last := (rp_last st)((a, c) \<mapsto> i), rp_feedback := fb\<rparr>)" (is "clients_inv ?st")
proof -
  have last: "get_last_index ?st b d = (if (b, d) = (a, c) then i else get_last_index st b d)" for b d
    by (auto simp: get_last_index_def)
  have same: "clients.taken ?st = clients.taken st1" "clients.items ?st = clients.items st1" "client_exists ?st = client_exists st1"
    by (rule clients_cong; simp)+ (simp add: client_exists_def fun_eq_iff)
  show ?thesis
  proof (cases "client_exists st a c")
    case True
    with assms show ?thesis unfolding clients_inv_def same last by auto
  next
    case False
    with assms(2) have add: "add_client st a c = Some st1" by simp
    have ex: "client_exists st1 b d \<longleftrightarrow> client_exists st b d \<or> (b, d) = (a, c)" for b d
      using add_client_keeps [OF add] by (auto simp: client_exists_def)
    have items: "clients.items st1 b = clients.items st b @ (if b = a then [c] else [])" for b
      using assms(1) clients.add_items [OF _ add] by (simp add: clients_inv_def)
    show ?thesis
      using assms(1,3) False clients.add_taken [OF _ add] unfolding clients_inv_def same last ex items by auto
  qed
qed

lemma reputation_spec_inv:
  assumes "reputation_spec dir e st st' evs" "reputation_inv st"
  shows "reputation_inv st'"
  using assms(1)
proof cases
  case (spec_feedback c f a st1 i)
  have keeps: "rp_responses st1 = rp_responses st" using spec_feedback(8) add_client_keeps by (auto split: if_splits)
  have last: "get_last_index st' b d = (if (b, d) = (a, c) then i else get_last_index st b d)" for b d
    by (auto simp: get_last_index_def spec_feedback(11))
  have "clients_inv st'" using assms(2) feedback_clients [of st a c st1 i] spec_feedback(8,9,11) by (simp add: reputation_inv_def)
  moreover have "numbered st'"
    using assms(2) unfolding reputation_inv_def numbered_def last by (auto simp: spec_feedback(9,11) le_Suc_eq)
  moreover have "answered_inv st'" using assms(2) keeps by (auto simp: reputation_inv_def answered_inv_def spec_feedback(11))
  moreover have "in_range st'" using assms(2) spec_feedback(4,5) by (auto simp: reputation_inv_def in_range_def spec_feedback(11))
  ultimately show ?thesis by (simp add: reputation_inv_def)
next
  case (spec_revoke c a i data)
  then have "clients_inv st' = clients_inv st" by (intro clients_inv_cong) (simp_all add: get_last_index_def)
  with spec_revoke assms(2) show ?thesis
    by (auto simp: reputation_inv_def numbered_def answered_inv_def in_range_def get_last_index_def)
next
  case (spec_response c uri a client i data n h)
  then have "clients_inv st' = clients_inv st" by (intro clients_inv_cong) (simp_all add: get_last_index_def)
  with spec_response assms(2) show ?thesis
    by (auto simp: reputation_inv_def numbered_def answered_inv_def in_range_def get_last_index_def)
next
  case (spec_reputation_upgrade u s)
  then have "clients_inv st' = clients_inv st" by (intro clients_inv_cong) (simp_all add: get_last_index_def)
  with spec_reputation_upgrade assms(2) show ?thesis
    by (simp add: reputation_inv_def numbered_def answered_inv_def in_range_def get_last_index_def)
qed

lemma new_reputation_inv: "reputation_inv new_reputation"
  by (simp add: reputation_inv_def numbered_def answered_inv_def in_range_def clients_inv_def clients.taken_def clients.items_def new_reputation_def
      get_last_index_def get_client_count_def client_exists_def indexed_def)

section \<open>The summary\<close>

text \<open>What the summary is about: the feedback of the first five clients that is not revoked and has the tags, and its exact average.\<close>

definition selected :: "reputation \<Rightarrow> nat \<Rightarrow> string \<Rightarrow> string \<Rightarrow> Address list \<Rightarrow> FeedbackData list" where
  "selected st a tag1 tag2 cs = filter (\<lambda>fb. \<not> skipped tag1 tag2 fb)
     (concat (map (\<lambda>c. indexed (\<lambda>i. rp_feedback st (a, c, i)) 1 (get_last_index st a c + 1)) (take MAX_SUMMARY_CLIENTS cs)))"

definition wad :: "FeedbackData \<Rightarrow> int" where
  "wad fb = fd_value fb * 10 ^ (18 - fd_decimals fb)"

definition i128 :: "int \<Rightarrow> bool" where
  "i128 i \<longleftrightarrow> - (2 ^ 127) \<le> i \<and> i < 2 ^ 127"

definition adds_up :: "FeedbackData list \<Rightarrow> bool" where
  "adds_up xs \<longleftrightarrow> (\<forall>k < length xs. i128 (wad (xs ! k)) \<and> i128 (sum_list (map wad (take (Suc k) xs))))"

definition average :: "FeedbackData list \<Rightarrow> rat" where
  "average xs = sum_list (map (\<lambda>fb. of_int (fd_value fb) / 10 ^ fd_decimals fb) xs) / of_nat (length xs)"

definition toward_zero :: "rat \<Rightarrow> int" where
  "toward_zero r = (if 0 \<le> r then \<lfloor>r\<rfloor> else \<lceil>r\<rceil>)"

definition decimals_count :: "FeedbackData list \<Rightarrow> nat \<Rightarrow> nat" where
  "decimals_count xs d = length (filter (\<lambda>fb. fd_decimals fb = d) xs)"

definition common_decimals :: "FeedbackData list \<Rightarrow> nat \<Rightarrow> bool" where
  "common_decimals xs m \<longleftrightarrow> m \<le> 18 \<and> (\<forall>d \<le> 18. decimals_count xs d \<le> decimals_count xs m) \<and> (\<forall>d < m. decimals_count xs d < decimals_count xs m)"

lemma sfold_append: "sfold f (xs @ ys) s = sbind (sfold f xs s) (sfold f ys)"
  by (induction xs arbitrary: s) (simp_all add: sbind_def split: sum.split)

lemma sfold_concat: "sfold (\<lambda>x. sfold f (g x)) xs s = sfold f (concat (map g xs)) s"
  by (induction xs arbitrary: s) (simp_all add: sfold_append, simp add: sbind_def split: sum.split)

lemma sfold_cong: "(\<And>x s. x \<in> set xs \<Longrightarrow> f x s = g x s) \<Longrightarrow> sfold f xs s = sfold g xs s"
  by (induction xs arbitrary: s) (auto simp: sbind_def split: sum.split)

lemma tally_client_selected:
  "tally_client st a tag1 tag2 c t = sfold tally_one (filter (\<lambda>fb. \<not> skipped tag1 tag2 fb)
     (indexed (\<lambda>i. rp_feedback st (a, c, i)) 1 (get_last_index st a c + 1))) t"
proof -
  have "sfold (tally_index st a tag1 tag2 c) is t = sfold tally_one (filter (\<lambda>fb. \<not> skipped tag1 tag2 fb)
      (concat (map (\<lambda>i. case rp_feedback st (a, c, i) of Some fb \<Rightarrow> [fb] | None \<Rightarrow> []) is))) t" for "is"
    by (induction "is" arbitrary: t) (auto simp: tally_index_def sbind_def split: option.split sum.split)
  then show ?thesis by (simp add: tally_client_def indexed_def)
qed

lemma tally_selected:
  "sfold (tally_client st a tag1 tag2) (take MAX_SUMMARY_CLIENTS cs) t = sfold tally_one (selected st a tag1 tag2 cs) t"
  unfolding selected_def tally_client_selected [abs_def] sfold_concat by (simp add: filter_concat comp_def)

lemma POW10_powers: "POW10 = map (\<lambda>n. 10 ^ n) [0 ..< 19]"
  by (simp add: POW10_def upt_conv_Cons)

lemma pow10_power: "n \<le> 18 \<Longrightarrow> pow10 n = 10 ^ n"
  by (simp add: pow10_def POW10_powers del: upt_Suc)

definition tally_of :: "FeedbackData list \<Rightarrow> tally" where
  "tally_of xs = \<lparr>ty_sum = sum_list (map wad xs), ty_count = length xs, ty_decimals = map (decimals_count xs) [0 ..< 19]\<rparr>"

lemma new_tally_of: "new_tally = tally_of []"
  by (simp add: new_tally_def tally_of_def decimals_count_def [abs_def] map_replicate_const)

lemma decimals_count_snoc: "decimals_count (xs @ [x]) d = decimals_count xs d + (if fd_decimals x = d then 1 else 0)"
  by (simp add: decimals_count_def)

lemma tally_one_step:
  assumes "fd_decimals fb \<le> 18" "length xs + 1 < 2 ^ 64"
  shows "tally_one fb (tally_of xs) =
    (if i128 (wad fb) \<and> i128 (sum_list (map wad (xs @ [fb]))) then Inr (tally_of (xs @ [fb])) else Inl (Err Rp_AggregateOverflow))"
proof -
  let ?d = "fd_decimals fb"
  have "decimals_count xs ?d \<le> length xs" by (simp add: decimals_count_def)
  moreover have "map (decimals_count (xs @ [fb])) [0 ..< 19] = (map (decimals_count xs) [0 ..< 19])[?d := decimals_count xs ?d + 1]"
    using assms(1) by (intro nth_equalityI) (auto simp: decimals_count_snoc nth_list_update)
  ultimately show ?thesis
    using assms pow10_power [of "18 - ?d"]
    by (auto simp: tally_one_def tally_of_def wad_def [symmetric] i128_def checked_i128_def checked_u64_def or_fail_def Let_def add.commute
        simp flip: wad_def)
qed

lemma adds_up_snoc: "adds_up (xs @ [x]) \<longleftrightarrow> adds_up xs \<and> i128 (wad x) \<and> i128 (sum_list (map wad (xs @ [x])))"
  by (auto simp: adds_up_def nth_append less_Suc_eq)

lemma tally_all:
  assumes "\<forall>fb \<in> set xs. fd_decimals fb \<le> 18" "length xs < 2 ^ 64"
  shows "sfold tally_one xs new_tally = (if adds_up xs then Inr (tally_of xs) else Inl (Err Rp_AggregateOverflow))"
  using assms
proof (induction xs rule: rev_induct)
  case Nil
  then show ?case by (simp add: new_tally_of adds_up_def)
next
  case (snoc x xs)
  then have IH: "sfold tally_one xs new_tally = (if adds_up xs then Inr (tally_of xs) else Inl (Err Rp_AggregateOverflow))" by simp
  show ?case using tally_one_step [of x xs] snoc.prems by (simp add: sfold_append IH adds_up_snoc)
qed

text \<open>Most frequent decimals, the lowest among equals.\<close>

lemma mode_prefix:
  assumes "fold (mode_step ds) [0 ..< n] (0, 0) = (m, f)" "n \<le> length ds"
  shows "(\<forall>d < n. ds ! d \<le> f) \<and> (\<forall>d < min m n. ds ! d < f) \<and> (f = 0 \<and> m = 0 \<or> m < n \<and> f = ds ! m)"
  using assms
proof (induction n arbitrary: m f)
  case (Suc n)
  obtain m0 f0 where prev: "fold (mode_step ds) [0 ..< n] (0, 0) = (m0, f0)" by fastforce
  note IH = Suc.IH [OF prev]
  have step: "mode_step ds n (m0, f0) = (m, f)" using Suc.prems(1) prev by simp
  show ?case
  proof (cases "f0 < ds ! n")
    case True
    then have "m = n \<and> f = ds ! n" using step by (auto simp: mode_step_def)
    moreover have "\<forall>d < n. ds ! d < ds ! n" using IH Suc.prems(2) True by fastforce
    ultimately show ?thesis by (auto simp: less_Suc_eq le_less)
  next
    case False
    then have "m = m0" "f = f0" using step by (simp_all add: mode_step_def)
    with IH Suc.prems(2) False show ?thesis by (auto simp: less_Suc_eq)
  qed
qed simp

lemma sum_decimals: "\<forall>fb \<in> set xs. fd_decimals fb \<le> 18 \<Longrightarrow> xs \<noteq> [] \<Longrightarrow> \<exists>d \<le> 18. 0 < decimals_count xs d"
  by (cases xs) (auto simp: decimals_count_def)

lemma mode_common:
  assumes "\<forall>fb \<in> set xs. fd_decimals fb \<le> 18" "xs \<noteq> []"
  shows "common_decimals xs (mode_decimals (ty_decimals (tally_of xs)))"
proof -
  let ?ds = "map (decimals_count xs) [0 ..< 19]"
  obtain m f where mf: "fold (mode_step ?ds) [0 ..< 19] (0, 0) = (m, f)" by fastforce
  have nth: "d < 19 \<Longrightarrow> ?ds ! d = decimals_count xs d" for d by (simp del: upt_Suc)
  from mode_prefix [OF mf] have all: "\<forall>d < 19. ?ds ! d \<le> f" "\<forall>d < min m 19. ?ds ! d < f" "f = 0 \<and> m = 0 \<or> m < 19 \<and> f = ?ds ! m"
    by (simp_all del: upt_Suc)
  obtain d where "d \<le> 18" "0 < decimals_count xs d" using sum_decimals [OF assms] by blast
  then have "f \<noteq> 0" using all(1) [rule_format, of d] nth [of d] by simp
  with all(3) have m: "m < 19" "f = decimals_count xs m" using nth [of m] by auto
  have "decimals_count xs d \<le> decimals_count xs m" if "d \<le> 18" for d using all(1) nth [of d] m(2) that by auto
  moreover have "decimals_count xs d < decimals_count xs m" if "d < m" for d using all(2) nth [of d] m that by auto
  ultimately have "common_decimals xs m" using m(1) by (auto simp: common_decimals_def)
  then show ?thesis using mf by (simp add: mode_decimals_def tally_of_def del: upt_Suc)
qed

text \<open>Two truncating divisions are one, and that one truncates the rational quotient.\<close>

lemma sdiv_sdiv: "0 < n \<Longrightarrow> 0 < p \<Longrightarrow> (s sdiv n) sdiv p = s sdiv (n * p :: int)"
proof -
  assume np: "0 < n" "0 < p"
  have "x sdiv y = sgn x * (\<bar>x\<bar> div y)" if "0 < y" for x y :: int using that by (simp add: signed_divide_int_def sgn_mult)
  moreover have "\<bar>sgn s * (\<bar>s\<bar> div n)\<bar> = \<bar>s\<bar> div n" using np by (cases "s = 0") (simp_all add: abs_mult pos_imp_zdiv_nonneg_iff)
  moreover have "sgn (sgn s * (\<bar>s\<bar> div n)) * (\<bar>s\<bar> div n div p) = sgn s * (\<bar>s\<bar> div n div p)"
  proof (cases "\<bar>s\<bar> div n = 0")
    case False
    then have "0 < \<bar>s\<bar> div n" using np by (metis abs_ge_zero less_le pos_imp_zdiv_nonneg_iff)
    then show ?thesis by (simp add: sgn_mult)
  qed simp
  ultimately show ?thesis using np zdiv_zmult2_eq [of p "\<bar>s\<bar>" n] by simp
qed

lemma sdiv_toward_zero: "0 < q \<Longrightarrow> toward_zero (of_int s / of_int q) = s sdiv (q :: int)"
proof -
  assume q: "0 < q"
  show ?thesis
  proof (cases "0 \<le> s")
    case True
    then have "s sdiv q = s div q" using q by (cases "s = 0") (simp_all add: signed_divide_int_def)
    with True q show ?thesis by (simp add: toward_zero_def floor_divide_of_int_eq)
  next
    case False
    then have "s sdiv q = - ((- s) div q)" using q by (simp add: signed_divide_int_def sgn_mult)
    moreover have "\<not> (0 :: rat) \<le> of_int s / of_int q" using False q by (simp add: divide_neg_pos not_le)
    moreover have "\<lceil>of_int s / of_int q :: rat\<rceil> = - ((- s) div q)"
      using floor_divide_of_int_eq [of "- s" q, where ?'a = rat] by (simp add: ceiling_def)
    ultimately show ?thesis by (simp add: toward_zero_def)
  qed
qed

lemma wad_sum:
  assumes "\<forall>fb \<in> set xs. fd_decimals fb \<le> 18"
  shows "of_int (sum_list (map wad xs)) = (10 :: rat) ^ 18 * sum_list (map (\<lambda>fb. of_int (fd_value fb) / 10 ^ fd_decimals fb) xs)"
  using assms
proof (induction xs)
  case (Cons x xs)
  then have "(10 :: rat) ^ (18 - fd_decimals x) = 10 ^ 18 / 10 ^ fd_decimals x" by (simp add: power_diff)
  then have "(of_int (wad x) :: rat) = 10 ^ 18 * (of_int (fd_value x) / 10 ^ fd_decimals x)" by (simp add: wad_def)
  with Cons show ?case by (simp add: distrib_left)
qed simp

lemma summary_value:
  assumes "\<forall>fb \<in> set xs. fd_decimals fb \<le> 18" "xs \<noteq> []" "m \<le> 18"
  shows "sum_list (map wad xs) sdiv int (length xs) sdiv pow10 (18 - m) = toward_zero (10 ^ m * average xs)"
proof -
  let ?s = "sum_list (map wad xs)" and ?q = "int (length xs) * 10 ^ (18 - m)"
  have pow: "(10 :: rat) ^ (18 - m) = 10 ^ 18 / 10 ^ m" using assms(3) by (simp add: power_diff)
  have "?s sdiv int (length xs) sdiv pow10 (18 - m) = ?s sdiv ?q"
    using assms(2) pow10_power [of "18 - m"] by (simp add: sdiv_sdiv)
  also have "\<dots> = toward_zero (of_int ?s / of_int ?q)" using assms(2) by (subst sdiv_toward_zero) simp_all
  also have "(of_int ?s / of_int ?q :: rat) = 10 ^ m * average xs"
    using wad_sum [OF assms(1)] by (simp add: average_def pow)
  finally show ?thesis .
qed

lemma get_summary_selected:
  assumes "\<forall>fb \<in> set (selected st a tag1 tag2 cs). fd_decimals fb \<le> 18" "cs \<noteq> []" "length (selected st a tag1 tag2 cs) < 2 ^ 64"
    and "xs = selected st a tag1 tag2 cs"
  shows "\<exists>m. (xs \<noteq> [] \<longrightarrow> common_decimals xs m) \<and> get_summary a cs tag1 tag2 st =
    (if \<not> adds_up xs then Inl (Err Rp_AggregateOverflow)
     else if xs = [] then Inr \<lparr>sr_count = 0, sr_value = 0, sr_decimals = 0\<rparr>
     else Inr \<lparr>sr_count = length xs, sr_value = toward_zero (10 ^ m * average xs), sr_decimals = m\<rparr>)"
proof -
  let ?m = "mode_decimals (ty_decimals (tally_of xs))"
  have dec: "\<forall>fb \<in> set xs. fd_decimals fb \<le> 18" using assms(1,4) by simp
  have "take (min (length cs) MAX_SUMMARY_CLIENTS) cs = take MAX_SUMMARY_CLIENTS cs" by (simp add: min_def)
  then have run: "sfold (tally_client st a tag1 tag2) (take (min (length cs) MAX_SUMMARY_CLIENTS) cs) new_tally =
      (if adds_up xs then Inr (tally_of xs) else Inl (Err Rp_AggregateOverflow))"
    using tally_all [of xs] dec assms(3,4) by (simp add: tally_selected)
  have common: "xs \<noteq> [] \<Longrightarrow> common_decimals xs ?m" using mode_common dec by blast
  have "xs \<noteq> [] \<Longrightarrow> ty_sum (tally_of xs) sdiv int (ty_count (tally_of xs)) sdiv pow10 (18 - ?m) = toward_zero (10 ^ ?m * average xs)"
    using summary_value [OF dec, of ?m] common by (simp add: tally_of_def common_decimals_def)
  moreover have "ty_count (tally_of xs) = length xs" by (simp add: tally_of_def)
  ultimately have "get_summary a cs tag1 tag2 st =
    (if \<not> adds_up xs then Inl (Err Rp_AggregateOverflow)
     else if xs = [] then Inr \<lparr>sr_count = 0, sr_value = 0, sr_decimals = 0\<rparr>
     else Inr \<lparr>sr_count = length xs, sr_value = toward_zero (10 ^ ?m * average xs), sr_decimals = ?m\<rparr>)"
    using assms(2) by (simp add: get_summary_def run Let_def demand_def)
  with common show ?thesis by blast
qed

section \<open>Histories\<close>

type_synonym reputation_history = "(directory \<times> call_env \<times> reputation_call \<times> contract_event list) list"

inductive reputation_run :: "reputation \<Rightarrow> reputation_history \<Rightarrow> reputation \<Rightarrow> bool" for st where
  reputation_start: "reputation_run st [] st"
| reputation_next: "reputation_run st h st1 \<Longrightarrow> exec_reputation dir e c st1 = Inr (st2, evs) \<Longrightarrow> reputation_run st (h @ [(dir, e, c, evs)]) st2"

lemma reputation_run_inv: "reputation_run st h st' \<Longrightarrow> reputation_inv st \<Longrightarrow> reputation_inv st'"
  by (induction rule: reputation_run.induct) (auto intro: reputation_spec_inv exec_reputation_spec)

lemma reachable_reputation: "reputation_run new_reputation h st \<Longrightarrow> reputation_inv st"
  using reputation_run_inv new_reputation_inv by blast

definition reputation_upgrades :: "reputation_history \<Rightarrow> (call_env \<times> upgrade_call) list" where
  "reputation_upgrades h = concat (map (\<lambda>(dir, e, c, evs). case c of Call_reputation_upgrade u \<Rightarrow> [(e, u)] | _ \<Rightarrow> []) h)"

lemma exec_reputation_slot:
  assumes "exec_reputation dir e c st = Inr (st', evs)"
  shows "case c of Call_reputation_upgrade u \<Rightarrow> exec_upgrade reputation_upgrade_errors e u (rp_upgrade st) = Inr (rp_upgrade st')
    | _ \<Rightarrow> rp_upgrade st' = rp_upgrade st"
  using assms add_client_keeps
  by (cases c) (auto simp: give_feedback_def revoke_feedback_def append_response_def increment_response_count_def sbind_eq_Inr Let_def
      split: if_splits option.splits)

lemma reputation_run_upgrades:
  "reputation_run st h st' \<Longrightarrow> upgrade_run reputation_upgrade_errors (rp_upgrade st) (reputation_upgrades h) (rp_upgrade st')"
proof (induction rule: reputation_run.induct)
  case (reputation_next h st1 dir e c st2 evs)
  with exec_reputation_slot [OF reputation_next(2)] show ?case
    by (auto simp: reputation_upgrades_def split: reputation_call.splits intro: upgrade_next)
qed (simp add: reputation_upgrades_def upgrade_start)

section \<open>Properties\<close>

text \<open>C13. The on-chain summary is exact: for any selection of clients and tags it is the average of the feedback that is not revoked and has the tags,
  truncated toward zero at the most frequent number of decimals (the lowest among equals), with the number of values it averages; it fails
  exactly when a scaled value or a running sum leaves the 128-bit range.\<close>

theorem get_summary_exact:
  assumes "reputation_run new_reputation h st" "cs \<noteq> []" "length (selected st a tag1 tag2 cs) < 2 ^ 64"
  shows "\<exists>m. (selected st a tag1 tag2 cs \<noteq> [] \<longrightarrow> common_decimals (selected st a tag1 tag2 cs) m) \<and> get_summary a cs tag1 tag2 st =
    (if \<not> adds_up (selected st a tag1 tag2 cs) then Inl (Err Rp_AggregateOverflow)
     else if selected st a tag1 tag2 cs = [] then Inr \<lparr>sr_count = 0, sr_value = 0, sr_decimals = 0\<rparr>
     else Inr \<lparr>sr_count = length (selected st a tag1 tag2 cs), sr_value = toward_zero (10 ^ m * average (selected st a tag1 tag2 cs)), sr_decimals = m\<rparr>)"
proof (rule get_summary_selected [OF _ assms(2,3) refl])
  have "in_range st" using reachable_reputation [OF assms(1)] by (simp add: reputation_inv_def)
  then show "\<forall>fb \<in> set (selected st a tag1 tag2 cs). fd_decimals fb \<le> 18"
    by (auto simp: selected_def indexed_def in_range_def split: option.splits)
qed

definition sample_args :: feedback_args where
  "sample_args = \<lparr>fa_agent = 0, fa_value = 95, fa_decimals = 0, fa_tag1 = ''starred'', fa_tag2 = [], fa_endpoint = [], fa_uri = [], fa_hash = replicate 32 0\<rparr>"

definition sample_data :: FeedbackData where
  "sample_data = \<lparr>fd_value = 95, fd_decimals = 0, fd_revoked = False, fd_tag1 = ''starred'', fd_tag2 = []\<rparr>"

definition sample_reputation :: reputation where
  "sample_reputation = new_reputation\<lparr>rp_feedback := [(0, ''C'', 1) \<mapsto> sample_data], rp_last := [(0, ''C'') \<mapsto> 1], rp_client_count := [0 \<mapsto> 1],
     rp_client_at := [(0, 0) \<mapsto> ''C''], rp_client_exists := [(0, ''C'') \<mapsto> True]\<rparr>"

definition sample_directory :: "nat \<Rightarrow> directory" where
  "sample_directory l = directory_of plain_nft (sample_call l) sample_identity"

definition sample_published :: "contract_event list" where
  "sample_published = [Ev_NewFeedback 0 ''C'' 1 95 0 ''starred'' [] [] [] (replicate 32 0)]"

lemma sample_directory_simps [simp]: "dr_exists (sample_directory l) 0" "\<not> dr_authorized (sample_directory l) ''C'' 0"
  by (simp_all add: sample_directory_def directory_of_def agent_exists_def find_owner_def is_authorized_or_owner_def sample_identity_def plain_nft_def)

lemma sample_feedback_given:
  "exec_reputation (sample_directory 2) (sample_call 2) (Call_give_feedback ''C'' sample_args) new_reputation = Inr (sample_reputation, sample_published)"
  by (simp add: give_feedback_def sample_args_def MAX_ABS_VALUE_def client_exists_def add_client_def get_client_count_def get_last_index_def
      new_reputation_def checked_u32_def checked_u64_def or_fail_def demand_def require_auth_def sample_call_def sample_reputation_def sample_data_def
      sample_published_def)

lemma sample_reputation_run:
  "reputation_run new_reputation [(sample_directory 2, sample_call 2, Call_give_feedback ''C'' sample_args, sample_published)] sample_reputation"
  using reputation_next [OF reputation_start sample_feedback_given] by simp

lemma sample_selected: "selected sample_reputation 0 [] [] [''C''] = [sample_data]"
  by (simp add: selected_def indexed_def sample_reputation_def get_last_index_def skipped_def sample_data_def MAX_SUMMARY_CLIENTS_def)

theorem get_summary_exact_witness:
  "get_summary 0 [''C''] [] [] sample_reputation = Inr \<lparr>sr_count = 1, sr_value = 95, sr_decimals = 0\<rparr>"
proof -
  have up: "adds_up [sample_data]" by (simp add: adds_up_def i128_def wad_def sample_data_def)
  have avg: "average [sample_data] = 95" by (simp add: average_def sample_data_def)
  obtain m where m: "common_decimals [sample_data] m" "get_summary 0 [''C''] [] [] sample_reputation =
      Inr \<lparr>sr_count = 1, sr_value = toward_zero (10 ^ m * average [sample_data]), sr_decimals = m\<rparr>"
    using get_summary_exact [OF sample_reputation_run, of "[''C'']" 0 "[]" "[]"] up by (auto simp: sample_selected)
  have "decimals_count [sample_data] d = (if d = 0 then 1 else 0)" for d by (simp add: decimals_count_def sample_data_def)
  with m(1) have "m = 0" by (auto simp: common_decimals_def split: if_splits)
  with m(2) avg show ?thesis by (simp add: toward_zero_def)
qed

text \<open>C6. Nobody rates an agent they control, and feedback cannot be altered: whatever is called, new feedback is stored only under an address that
  authorized the call and that neither owns the agent nor is approved for it, under the next free number; stored feedback keeps its value, decimals
  and tags, and becomes revoked only by the client who gave it, for good.\<close>

theorem feedback_protected:
  assumes "reputation_run new_reputation h st" "exec_reputation (directory_of N e ids) e c st = Inr (st', evs)"
  shows "case rp_feedback st (a, cl, i) of
      None \<Rightarrow> rp_feedback st' (a, cl, i) = None \<or>
        ce_auth e cl \<and> agent_exists N ids a \<and> \<not> may_change N e ids cl a \<and> i = get_last_index st a cl + 1 \<and>
        (\<exists>fb. rp_feedback st' (a, cl, i) = Some fb \<and> \<not> fd_revoked fb)
    | Some fb \<Rightarrow> rp_feedback st' (a, cl, i) = Some fb \<or> rp_feedback st' (a, cl, i) = Some (fb\<lparr>fd_revoked := True\<rparr>) \<and> ce_auth e cl"
  using exec_reputation_spec [OF assms(2)]
proof cases
  case (spec_feedback c f b st1 j)
  have "rp_feedback st (b, c, j) = None"
    using reachable_reputation [OF assms(1)] spec_feedback(9) unfolding reputation_inv_def numbered_def
    by (metis add_le_same_cancel1 not_one_le_zero)
  with spec_feedback show ?thesis by (auto simp: directory_of_def authorized_iff split: option.split)
qed (auto split: option.split)

theorem feedback_protected_witness:
  "rp_feedback sample_reputation (0, ''C'', 1) = Some sample_data \<and> \<not> may_change plain_nft (sample_call 2) sample_identity ''C'' 0"
proof -
  have "exec_reputation (directory_of plain_nft (sample_call 2) sample_identity) (sample_call 2) (Call_give_feedback ''C'' sample_args) new_reputation =
      Inr (sample_reputation, sample_published)"
    using sample_feedback_given by (simp add: sample_directory_def)
  from feedback_protected [OF reputation_start this, of 0 "''C''" 1] show ?thesis
    by (auto simp: new_reputation_def sample_reputation_def)
qed

text \<open>C20. In every state the registry can reach, the feedback of a client for an agent is numbered from 1 without gaps, its values and decimals are in
  range, responses belong to feedback, and reading the client list page by page gives each client with feedback exactly once.\<close>

theorem reputation_storage_sound:
  assumes "reputation_run new_reputation h st"
  shows "reputation_inv st \<and> (\<forall>a n limit. get_client_count st a \<le> n * limit \<and> n * limit < 2 ^ 32 \<longrightarrow>
    distinct (concat (map (\<lambda>j. get_clients_paginated st a (j * limit) limit) [0 ..< n])) \<and>
    set (concat (map (\<lambda>j. get_clients_paginated st a (j * limit) limit) [0 ..< n])) = {c. rp_feedback st (a, c, 1) \<noteq> None})"
proof -
  have inv: "reputation_inv st" by (rule reachable_reputation [OF assms])
  then have cl: "clients_inv st" and num: "numbered st" by (simp_all add: reputation_inv_def)
  have "set (clients.items st a) = {c. rp_feedback st (a, c, 1) \<noteq> None}" for a
    using cl num by (auto simp: clients_inv_def numbered_def Suc_le_eq)
  then show ?thesis using inv cl clients.pages_cover [of st] by (simp add: clients_inv_def)
qed

theorem reputation_storage_sound_witness:
  "reputation_inv sample_reputation \<and> set (concat (map (\<lambda>j. get_clients_paginated sample_reputation 0 (j * 10) 10) [0 ..< 1])) = {''C''}"
proof -
  have "get_client_count sample_reputation 0 \<le> 1 * 10" by (simp add: get_client_count_def sample_reputation_def)
  moreover have "{c. rp_feedback sample_reputation (0, c, 1) \<noteq> None} = {''C''}" by (auto simp: sample_reputation_def new_reputation_def)
  moreover note reputation_storage_sound [OF sample_reputation_run, THEN conjunct2, rule_format, of 0 1 10]
  ultimately show ?thesis using reputation_storage_sound [OF sample_reputation_run] by simp
qed

end
