(* ===== verification/Contract_Validation.thy ===== *)
theory Contract_Validation
  imports Contract_Reputation
begin

text \<open>
  The validation registry (\<open>contracts/validation-registry/src\<close>): requests to a validator to validate an agent, keyed by a hash, the validator's
  responses, the requests of an agent and of a validator as counted lists, and the averaged summary.

  The lemmas show that only the agent's side asks and only the designated validator answers, that both lists name exactly the requests, and that the
  summary is the rounded-down average of the answered requests it selects and never panics.
\<close>

section \<open>Storage\<close>

datatype ValidationError = Vl_NotOwnerOrApproved | Vl_RequestNotFound | Vl_InvalidResponse | Vl_RequestAlreadyExists | Vl_NotDesignatedValidator
  | Vl_AlreadyResponded | Vl_AgentNotFound | Vl_CounterOverflow | Vl_NoUpgradeProposed | Vl_TimelockNotExpired | Vl_UpgradeAlreadyProposed

record ValidationStatus =
  vs_validator :: Address
  vs_agent :: nat
  vs_response :: nat
  vs_response_hash :: bytes
  vs_tag :: string
  vs_last_update :: nat
  vs_has_response :: bool

record ValidationSummary =
  vy_count :: nat
  vy_average :: nat

record validation =
  vl_status :: "bytes \<rightharpoonup> ValidationStatus"
  vl_agent_count :: "nat \<rightharpoonup> nat"
  vl_agent_at :: "nat \<times> nat \<rightharpoonup> bytes"
  vl_request_count :: "Address \<rightharpoonup> nat"
  vl_request_at :: "Address \<times> nat \<rightharpoonup> bytes"
  vl_upgrade :: upgrade_slot

type_synonym validation_result = "ValidationError failure + validation \<times> contract_event list"

definition new_validation :: validation where
  "new_validation = \<lparr>vl_status = Map.empty, vl_agent_count = Map.empty, vl_agent_at = Map.empty, vl_request_count = Map.empty,
     vl_request_at = Map.empty, vl_upgrade = \<lparr>us_pending = None, us_installed = []\<rparr>\<rparr>"

definition has_validation :: "validation \<Rightarrow> bytes \<Rightarrow> bool" where
  "has_validation st h \<longleftrightarrow> vl_status st h \<noteq> None"

definition set_validation :: "bytes \<Rightarrow> ValidationStatus \<Rightarrow> validation \<Rightarrow> validation" where
  "set_validation h s st = st\<lparr>vl_status := (vl_status st)(h \<mapsto> s)\<rparr>"

definition get_agent_validation_count :: "validation \<Rightarrow> nat \<Rightarrow> nat" where
  "get_agent_validation_count st a = (case vl_agent_count st a of Some n \<Rightarrow> n | None \<Rightarrow> 0)"

definition add_agent_validation :: "validation \<Rightarrow> nat \<Rightarrow> bytes \<Rightarrow> validation option" where
  "add_agent_validation st a h = (let n = get_agent_validation_count st a in case checked_u32 (n + 1) of
      None \<Rightarrow> None
    | Some next \<Rightarrow> Some (st\<lparr>vl_agent_at := (vl_agent_at st)((a, n) \<mapsto> h), vl_agent_count := (vl_agent_count st)(a \<mapsto> next)\<rparr>))"

definition get_agent_validation_at :: "validation \<Rightarrow> nat \<Rightarrow> nat \<rightharpoonup> bytes" where
  "get_agent_validation_at st a i = vl_agent_at st (a, i)"

definition get_agent_validations_paginated :: "validation \<Rightarrow> nat \<Rightarrow> nat \<Rightarrow> nat \<Rightarrow> bytes list" where
  "get_agent_validations_paginated st a start limit =
     concat (map (\<lambda>i. case get_agent_validation_at st a i of Some h \<Rightarrow> [h] | None \<Rightarrow> [])
       [start ..< min (saturating_u32 (start + limit)) (get_agent_validation_count st a)])"

definition get_validator_request_count :: "validation \<Rightarrow> Address \<Rightarrow> nat" where
  "get_validator_request_count st v = (case vl_request_count st v of Some n \<Rightarrow> n | None \<Rightarrow> 0)"

definition add_validator_request :: "validation \<Rightarrow> Address \<Rightarrow> bytes \<Rightarrow> validation option" where
  "add_validator_request st v h = (let n = get_validator_request_count st v in case checked_u32 (n + 1) of
      None \<Rightarrow> None
    | Some next \<Rightarrow> Some (st\<lparr>vl_request_at := (vl_request_at st)((v, n) \<mapsto> h), vl_request_count := (vl_request_count st)(v \<mapsto> next)\<rparr>))"

definition get_validator_requests_paginated :: "validation \<Rightarrow> Address \<Rightarrow> nat \<Rightarrow> nat \<Rightarrow> bytes list" where
  "get_validator_requests_paginated st v start limit =
     concat (map (\<lambda>i. case vl_request_at st (v, i) of Some h \<Rightarrow> [h] | None \<Rightarrow> [])
       [start ..< min (saturating_u32 (start + limit)) (get_validator_request_count st v)])"

interpretation asked: counted_list get_agent_validation_count get_agent_validation_at add_agent_validation get_agent_validations_paginated
  by unfold_locales (auto simp: add_agent_validation_def get_agent_validation_count_def get_agent_validation_at_def
      get_agent_validations_paginated_def indexed_def page_stop_def Let_def split: option.splits)

interpretation assigned: counted_list get_validator_request_count "\<lambda>st v i. vl_request_at st (v, i)" add_validator_request
    get_validator_requests_paginated
  by unfold_locales (auto simp: add_validator_request_def get_validator_request_count_def get_validator_requests_paginated_def indexed_def
      page_stop_def Let_def split: option.splits)

section \<open>Operations\<close>

definition validation_request ::
  "directory \<Rightarrow> call_env \<Rightarrow> Address \<Rightarrow> Address \<Rightarrow> nat \<Rightarrow> string \<Rightarrow> bytes \<Rightarrow> validation \<Rightarrow> validation_result" where
  "validation_request dir e caller validator a uri h st =
     sbind (require_auth e caller) (\<lambda>_.
     sbind (or_fail (Err Vl_AgentNotFound) (dr_owner dir a)) (\<lambda>owner.
     sbind (if caller \<noteq> owner then
              (let approved = (case dr_approved dir a of Some x \<Rightarrow> caller = x | None \<Rightarrow> False);
                   authorized = (if \<not> approved \<and> dr_approved_all dir owner caller then True else approved)
               in demand authorized (Err Vl_NotOwnerOrApproved))
            else Inr ()) (\<lambda>_.
     sbind (demand (\<not> has_validation st h) (Err Vl_RequestAlreadyExists)) (\<lambda>_.
       let s = \<lparr>vs_validator = validator, vs_agent = a, vs_response = 0, vs_response_hash = replicate 32 0, vs_tag = [],
                vs_last_update = ce_sequence e, vs_has_response = False\<rparr>
       in sbind (or_fail (Err Vl_CounterOverflow) (add_agent_validation (set_validation h s st) a h)) (\<lambda>st1.
          sbind (or_fail (Err Vl_CounterOverflow) (add_validator_request st1 validator h)) (\<lambda>st2.
            Inr (st2, [Ev_ValidationRequest validator a h uri])))))))"

definition validation_response ::
  "call_env \<Rightarrow> Address \<Rightarrow> bytes \<Rightarrow> nat \<Rightarrow> string \<Rightarrow> bytes \<Rightarrow> string \<Rightarrow> validation \<Rightarrow> validation_result" where
  "validation_response e caller h response uri rh tag st =
     sbind (require_auth e caller) (\<lambda>_.
     sbind (demand (\<not> 100 < response) (Err Vl_InvalidResponse)) (\<lambda>_.
     sbind (or_fail (Err Vl_RequestNotFound) (vl_status st h)) (\<lambda>s.
     sbind (demand (caller = vs_validator s) (Err Vl_NotDesignatedValidator)) (\<lambda>_.
       let s' = s\<lparr>vs_response := response, vs_response_hash := rh, vs_tag := tag, vs_last_update := ce_sequence e, vs_has_response := True\<rparr>
       in Inr (set_validation h s' st, [Ev_ValidationResponse (vs_validator s') (vs_agent s') h response uri rh tag])))))"

definition get_validation_status :: "bytes \<Rightarrow> validation \<Rightarrow> ValidationError failure + ValidationStatus" where
  "get_validation_status h st = or_fail (Err Vl_RequestNotFound) (vl_status st h)"

definition validation_upgrade_errors :: "ValidationError upgrade_errors" where
  "validation_upgrade_errors = \<lparr>ue_none = Vl_NoUpgradeProposed, ue_early = Vl_TimelockNotExpired, ue_twice = Vl_UpgradeAlreadyProposed\<rparr>"

datatype validation_call =
    Call_validation_request Address Address nat string bytes
  | Call_validation_response Address bytes nat string bytes string
  | Call_validation_upgrade upgrade_call

fun exec_validation :: "directory \<Rightarrow> call_env \<Rightarrow> validation_call \<Rightarrow> validation \<Rightarrow> validation_result" where
  "exec_validation dir e (Call_validation_request c v a uri h) st = validation_request dir e c v a uri h st"
| "exec_validation dir e (Call_validation_response c h r uri rh tag) st = validation_response e c h r uri rh tag st"
| "exec_validation dir e (Call_validation_upgrade u) st =
     sbind (exec_upgrade validation_upgrade_errors e u (vl_upgrade st)) (\<lambda>s. Inr (st\<lparr>vl_upgrade := s\<rparr>, []))"

subsection \<open>Summary\<close>

text \<open>\<open>total_response\<close> and \<open>match_count\<close> are \<open>u64\<close> and added without a check: an overflow would panic.\<close>

definition counts_for :: "Address list \<Rightarrow> string \<Rightarrow> ValidationStatus \<Rightarrow> bool" where
  "counts_for validators tag s \<longleftrightarrow> vs_has_response s \<and> (validators \<noteq> [] \<longrightarrow> vs_validator s \<in> set validators) \<and> (tag \<noteq> [] \<longrightarrow> vs_tag s = tag)"

definition summary_index :: "validation \<Rightarrow> nat \<Rightarrow> Address list \<Rightarrow> string \<Rightarrow> nat \<Rightarrow> nat \<times> nat \<Rightarrow> ValidationError failure + nat \<times> nat" where
  "summary_index st a validators tag i acc = (case get_agent_validation_at st a i of
      None \<Rightarrow> Inr acc
    | Some h \<Rightarrow> (case vl_status st h of
        None \<Rightarrow> Inr acc
      | Some s \<Rightarrow>
          if \<not> counts_for validators tag s then Inr acc
          else sbind (or_fail (Panic ''attempt to add with overflow'') (checked_u64 (fst acc + vs_response s))) (\<lambda>total_response.
               sbind (or_fail (Panic ''attempt to add with overflow'') (checked_u64 (snd acc + 1))) (\<lambda>match_count.
                 Inr (total_response, match_count)))))"

definition get_validation_summary :: "nat \<Rightarrow> Address list \<Rightarrow> string \<Rightarrow> validation \<Rightarrow> ValidationError failure + ValidationSummary" where
  "get_validation_summary a validators tag st =
     sbind (sfold (summary_index st a validators tag) [0 ..< get_agent_validation_count st a] (0, 0)) (\<lambda>(total_response, match_count).
       Inr \<lparr>vy_count = match_count, vy_average = (if 0 < match_count then total_response div match_count else 0)\<rparr>)"

section \<open>What a call may do\<close>

inductive validation_spec :: "directory \<Rightarrow> call_env \<Rightarrow> validation \<Rightarrow> validation \<Rightarrow> contract_event list \<Rightarrow> bool" for dir e st where
  spec_request: "ce_auth e c \<Longrightarrow> dr_owner dir a = Some owner \<Longrightarrow>
     c = owner \<or> dr_approved dir a = Some c \<or> dr_approved_all dir owner c \<Longrightarrow> vl_status st h = None \<Longrightarrow>
     s = \<lparr>vs_validator = v, vs_agent = a, vs_response = 0, vs_response_hash = replicate 32 0, vs_tag = [], vs_last_update = ce_sequence e,
          vs_has_response = False\<rparr> \<Longrightarrow>
     add_agent_validation (set_validation h s st) a h = Some st1 \<Longrightarrow> add_validator_request st1 v h = Some st2 \<Longrightarrow>
     validation_spec dir e st st2 [Ev_ValidationRequest v a h uri]"
| spec_answer: "ce_auth e (vs_validator s) \<Longrightarrow> vl_status st h = Some (s :: ValidationStatus) \<Longrightarrow> r \<le> 100 \<Longrightarrow>
     validation_spec dir e st
       (set_validation h (s\<lparr>vs_response := r, vs_response_hash := rh, vs_tag := tag, vs_last_update := ce_sequence e, vs_has_response := True\<rparr>) st)
       [Ev_ValidationResponse (vs_validator s) (vs_agent s) h r uri rh tag]"
| spec_validation_upgrade: "exec_upgrade validation_upgrade_errors e u (vl_upgrade st) = Inr s \<Longrightarrow> validation_spec dir e st (st\<lparr>vl_upgrade := s\<rparr>) []"

lemma exec_validation_spec: "exec_validation dir e c st = Inr (st', evs) \<Longrightarrow> validation_spec dir e st st' evs"
  by (cases c) (auto simp: validation_request_def validation_response_def sbind_eq_Inr Let_def has_validation_def
      split: if_splits option.splits intro: validation_spec.intros)

section \<open>Invariant\<close>

definition status_inv :: "validation \<Rightarrow> bool" where
  "status_inv st \<longleftrightarrow> (\<forall>h s. vl_status st h = Some s \<longrightarrow> vs_response s \<le> 100 \<and> (\<not> vs_has_response s \<longrightarrow> vs_response s = 0 \<and> vs_tag s = []))"

definition asked_inv :: "validation \<Rightarrow> bool" where
  "asked_inv st \<longleftrightarrow> asked.taken st \<and> (\<forall>a. distinct (asked.items st a)) \<and>
     (\<forall>a h. h \<in> set (asked.items st a) \<longleftrightarrow> map_option vs_agent (vl_status st h) = Some a)"

definition assigned_inv :: "validation \<Rightarrow> bool" where
  "assigned_inv st \<longleftrightarrow> assigned.taken st \<and> (\<forall>v. distinct (assigned.items st v)) \<and>
     (\<forall>v h. h \<in> set (assigned.items st v) \<longleftrightarrow> map_option vs_validator (vl_status st h) = Some v)"

definition validation_inv :: "validation \<Rightarrow> bool" where
  "validation_inv st \<longleftrightarrow> status_inv st \<and> asked_inv st \<and> assigned_inv st"

lemma asked_cong:
  assumes "vl_agent_count st' = vl_agent_count st" "vl_agent_at st' = vl_agent_at st"
  shows "asked.taken st' = asked.taken st" "asked.items st' = asked.items st"
proof -
  have "get_agent_validation_at st' = get_agent_validation_at st" "get_agent_validation_count st' = get_agent_validation_count st"
    using assms by (simp_all add: get_agent_validation_at_def get_agent_validation_count_def fun_eq_iff)
  then show "asked.taken st' = asked.taken st" "asked.items st' = asked.items st"
    by (simp_all add: asked.taken_def asked.items_def [abs_def])
qed

lemma assigned_cong:
  assumes "vl_request_count st' = vl_request_count st" "vl_request_at st' = vl_request_at st"
  shows "assigned.taken st' = assigned.taken st" "assigned.items st' = assigned.items st"
  using assms by (auto simp: assigned.taken_def assigned.items_def get_validator_request_count_def fun_eq_iff)

lemma add_validation_keeps:
  "add_agent_validation st a h = Some st1 \<Longrightarrow> vl_status st1 = vl_status st \<and> vl_request_count st1 = vl_request_count st \<and>
     vl_request_at st1 = vl_request_at st \<and> vl_upgrade st1 = vl_upgrade st"
  "add_validator_request st v h = Some st1 \<Longrightarrow> vl_status st1 = vl_status st \<and> vl_agent_count st1 = vl_agent_count st \<and>
     vl_agent_at st1 = vl_agent_at st \<and> vl_upgrade st1 = vl_upgrade st"
  by (auto simp: add_agent_validation_def add_validator_request_def Let_def split: option.splits)

lemma set_validation_keeps:
  "asked.taken (set_validation h s st) = asked.taken st" "asked.items (set_validation h s st) = asked.items st"
  "assigned.taken (set_validation h s st) = assigned.taken st" "assigned.items (set_validation h s st) = assigned.items st"
  "vl_status (set_validation h s st) = (vl_status st)(h \<mapsto> s)" "vl_upgrade (set_validation h s st) = vl_upgrade st"
  by (rule asked_cong assigned_cong; simp add: set_validation_def)+ (simp_all add: set_validation_def)

lemma request_lists:
  assumes "asked_inv st" "assigned_inv st" "vl_status st h = None"
    and "add_agent_validation (set_validation h s st) a h = Some st1" "add_validator_request st1 v h = Some st2" "vs_agent s = a" "vs_validator s = v"
  shows "asked_inv st2" "assigned_inv st2"
proof -
  note keeps = add_validation_keeps(1) [OF assms(4)] add_validation_keeps(2) [OF assms(5)]
  have status: "vl_status st2 = (vl_status st)(h \<mapsto> s)" using keeps by (simp add: set_validation_keeps)
  have inv: "asked.taken (set_validation h s st)" "assigned.taken st1"
    using assms(1,2) keeps(1) assigned_cong [of st1 "set_validation h s st"] by (simp_all add: asked_inv_def assigned_inv_def set_validation_keeps)
  have "asked.items st2 b = asked.items st b @ (if b = a then [h] else [])" for b
    using asked.add_items [OF inv(1) assms(4)] asked_cong(2) [of st2 st1] keeps(2) by (simp add: set_validation_keeps)
  moreover have "h \<notin> set (asked.items st b)" "h \<notin> set (assigned.items st w)" for b w
    using assms(1-3) by (auto simp: asked_inv_def assigned_inv_def)
  moreover have "asked.taken st2" using asked.add_taken [OF inv(1) assms(4)] asked_cong(1) [of st2 st1] keeps(2) by simp
  ultimately show "asked_inv st2" using assms(1,6) by (auto simp: asked_inv_def status)
  have "assigned.items st2 w = assigned.items st w @ (if w = v then [h] else [])" for w
    using assigned.add_items [OF inv(2) assms(5)] assigned_cong(2) [of st1 "set_validation h s st"] keeps(1) by (simp add: set_validation_keeps)
  moreover have "assigned.taken st2" using assigned.add_taken [OF inv(2) assms(5)] .
  ultimately show "assigned_inv st2" using assms(2,7) \<open>\<And>w. h \<notin> set (assigned.items st w)\<close> by (auto simp: assigned_inv_def status)
qed

lemma validation_spec_inv:
  assumes "validation_spec dir e st st' evs" "validation_inv st"
  shows "validation_inv st'"
  using assms(1)
proof cases
  case (spec_request c a owner h s v st1 uri)
  have "vl_status st' = (vl_status st)(h \<mapsto> s)"
    using add_validation_keeps(1) [OF spec_request(7)] add_validation_keeps(2) [OF spec_request(8)] by (simp add: set_validation_keeps)
  then have "status_inv st'" using assms(2) by (auto simp: validation_inv_def status_inv_def spec_request(6))
  moreover have "asked_inv st'" "assigned_inv st'"
    using request_lists [OF _ _ spec_request(5,7,8)] assms(2) by (simp_all add: validation_inv_def spec_request(6))
  ultimately show ?thesis by (simp add: validation_inv_def)
next
  case (spec_answer s h r rh tag uri)
  with assms(2) show ?thesis
    by (auto simp: validation_inv_def status_inv_def asked_inv_def assigned_inv_def set_validation_keeps)
next
  case (spec_validation_upgrade u s)
  with assms(2) asked_cong [of st' st] assigned_cong [of st' st] show ?thesis
    by (simp add: validation_inv_def status_inv_def asked_inv_def assigned_inv_def)
qed

lemma new_validation_inv: "validation_inv new_validation"
  by (simp add: validation_inv_def status_inv_def asked_inv_def assigned_inv_def asked.taken_def asked.items_def assigned.taken_def
      assigned.items_def get_agent_validation_count_def get_agent_validation_at_def get_validator_request_count_def indexed_def new_validation_def)

section \<open>Histories\<close>

type_synonym validation_history = "(directory \<times> call_env \<times> validation_call \<times> contract_event list) list"

inductive validation_run :: "validation \<Rightarrow> validation_history \<Rightarrow> validation \<Rightarrow> bool" for st where
  validation_start: "validation_run st [] st"
| validation_next: "validation_run st h st1 \<Longrightarrow> exec_validation dir e c st1 = Inr (st2, evs) \<Longrightarrow> validation_run st (h @ [(dir, e, c, evs)]) st2"

lemma validation_run_inv: "validation_run st h st' \<Longrightarrow> validation_inv st \<Longrightarrow> validation_inv st'"
  by (induction rule: validation_run.induct) (auto intro: validation_spec_inv exec_validation_spec)

lemma reachable_validation: "validation_run new_validation h st \<Longrightarrow> validation_inv st"
  using validation_run_inv new_validation_inv by blast

definition validation_upgrades :: "validation_history \<Rightarrow> (call_env \<times> upgrade_call) list" where
  "validation_upgrades h = concat (map (\<lambda>(dir, e, c, evs). case c of Call_validation_upgrade u \<Rightarrow> [(e, u)] | _ \<Rightarrow> []) h)"

lemma exec_validation_slot:
  assumes "exec_validation dir e c st = Inr (st', evs)"
  shows "case c of Call_validation_upgrade u \<Rightarrow> exec_upgrade validation_upgrade_errors e u (vl_upgrade st) = Inr (vl_upgrade st')
    | _ \<Rightarrow> vl_upgrade st' = vl_upgrade st"
proof (cases c)
  case (Call_validation_request c' v a uri h)
  with assms obtain s st1 where "add_agent_validation (set_validation h s st) a h = Some st1" "add_validator_request st1 v h = Some st'"
    by (auto simp: validation_request_def sbind_eq_Inr Let_def)
  then show ?thesis using Call_validation_request by (auto dest!: add_validation_keeps simp: set_validation_keeps)
qed (use assms in \<open>auto simp: validation_response_def set_validation_keeps sbind_eq_Inr Let_def\<close>)

lemma validation_run_upgrades:
  "validation_run st h st' \<Longrightarrow> upgrade_run validation_upgrade_errors (vl_upgrade st) (validation_upgrades h) (vl_upgrade st')"
proof (induction rule: validation_run.induct)
  case (validation_next h st1 dir e c st2 evs)
  with exec_validation_slot [OF validation_next(2)] show ?case
    by (auto simp: validation_upgrades_def split: validation_call.splits intro: upgrade_next)
qed (simp add: validation_upgrades_def upgrade_start)

section \<open>The summary\<close>

definition status_of :: "validation \<Rightarrow> bytes \<Rightarrow> ValidationStatus" where
  "status_of st h = the (vl_status st h)"

text \<open>The answered requests the summary is about.\<close>

definition answers :: "validation \<Rightarrow> nat \<Rightarrow> Address list \<Rightarrow> string \<Rightarrow> bytes set" where
  "answers st a validators tag = {h. \<exists>s. vl_status st h = Some s \<and> vs_agent s = a \<and> counts_for validators tag s}"

definition answers_upto :: "validation \<Rightarrow> nat \<Rightarrow> Address list \<Rightarrow> string \<Rightarrow> nat \<Rightarrow> bytes list" where
  "answers_upto st a validators tag n = filter (\<lambda>h. counts_for validators tag (status_of st h)) (take n (asked.items st a))"

lemma items_nth: "asked.taken st \<Longrightarrow> i < get_agent_validation_count st a \<Longrightarrow> get_agent_validation_at st a i = Some (asked.items st a ! i)"
proof -
  assume inv: "asked.taken st" and i: "i < get_agent_validation_count st a"
  have "asked.items st a = map (\<lambda>i. the (get_agent_validation_at st a i)) [0 ..< get_agent_validation_count st a]"
    unfolding asked.items_def by (rule indexed_nth [of "get_agent_validation_count st a"]) (use inv in \<open>auto simp: asked.taken_def\<close>)
  moreover have "get_agent_validation_at st a i \<noteq> None" using inv i by (auto simp: asked.taken_def)
  ultimately show ?thesis using i by auto
qed

lemma summary_upto:
  assumes inv: "validation_inv st" and n: "n \<le> get_agent_validation_count st a"
  shows "sfold (summary_index st a validators tag) [0 ..< n] (0, 0) =
    Inr (sum_list (map (\<lambda>h. vs_response (status_of st h)) (answers_upto st a validators tag n)), length (answers_upto st a validators tag n))"
  using n
proof (induction n)
  case (Suc n)
  let ?as = "answers_upto st a validators tag n" and ?h = "asked.items st a ! n"
  have taken: "asked.taken st" using inv by (simp add: validation_inv_def asked_inv_def)
  have len: "length (asked.items st a) = get_agent_validation_count st a" by (rule asked.length_items [OF taken])
  have at_n: "get_agent_validation_at st a n = Some ?h" using Suc.prems by (intro items_nth [OF taken]) simp
  have "?h \<in> set (asked.items st a)" using Suc.prems len by simp
  then obtain s where s: "vl_status st ?h = Some s" "vs_response s \<le> 100" "status_of st ?h = s"
    using inv by (auto simp: validation_inv_def asked_inv_def status_inv_def status_of_def)
  have next_as: "answers_upto st a validators tag (Suc n) = ?as @ (if counts_for validators tag s then [?h] else [])"
    using Suc.prems len s(3) by (simp add: answers_upto_def take_Suc_conv_app_nth)
  have "length ?as \<le> n" by (auto simp: answers_upto_def intro: le_trans [OF length_filter_le])
  moreover have "n < 2 ^ 32" using Suc.prems taken unfolding asked.taken_def by (meson Suc_le_lessD less_trans)
  ultimately have small: "length ?as \<le> n" "n < 2 ^ 32" by simp_all
  have "vs_response (status_of st h) \<le> 100" if "h \<in> set ?as" for h
    using that inv by (auto simp: answers_upto_def validation_inv_def asked_inv_def status_inv_def status_of_def dest!: in_set_takeD)
  then have "sum_list (map (\<lambda>h. vs_response (status_of st h)) ?as) \<le> sum_list (map (\<lambda>h. 100) ?as)" by (intro sum_list_mono)
  also have "\<dots> \<le> 100 * n" using small(1) by (simp add: sum_list_triv)
  finally have "sum_list (map (\<lambda>h. vs_response (status_of st h)) ?as) + 100 < 2 ^ 64" using small(2) by simp
  with Suc s at_n small show ?case
    by (simp add: sfold_append next_as summary_index_def checked_u64_def or_fail_def)
qed (simp add: answers_upto_def)

section \<open>Properties\<close>

text \<open>C18. The summary of an agent's validations counts exactly the answered requests of the agent that pass the filters and gives their average
  response, rounded down; it never panics, and without such a request it is zero.\<close>

theorem validation_summary_exact:
  assumes "validation_run new_validation h st"
  shows "get_validation_summary a validators tag st = Inr \<lparr>vy_count = card (answers st a validators tag),
    vy_average = (\<Sum>h \<in> answers st a validators tag. vs_response (status_of st h)) div card (answers st a validators tag)\<rparr>"
proof -
  let ?n = "get_agent_validation_count st a"
  have inv: "validation_inv st" by (rule reachable_validation [OF assms])
  then have ask: "asked_inv st" by (simp add: validation_inv_def)
  then have len: "length (asked.items st a) = ?n" by (simp add: asked_inv_def asked.length_items)
  let ?as = "answers_upto st a validators tag ?n"
  have "distinct ?as" using ask by (simp add: answers_upto_def asked_inv_def)
  moreover have "set ?as = answers st a validators tag"
    using ask by (auto simp: answers_upto_def answers_def asked_inv_def status_of_def len)
  ultimately have "length ?as = card (answers st a validators tag)"
      "sum_list (map (\<lambda>h. vs_response (status_of st h)) ?as) = (\<Sum>h \<in> answers st a validators tag. vs_response (status_of st h))"
    by (metis distinct_card) (metis \<open>distinct ?as\<close> \<open>set ?as = _\<close> sum.distinct_set_conv_list)
  with summary_upto [OF inv order_refl] show ?thesis by (auto simp: get_validation_summary_def)
qed

definition sample_hash :: bytes where
  "sample_hash = replicate 32 1"

definition sample_status :: ValidationStatus where
  "sample_status = \<lparr>vs_validator = ''V'', vs_agent = 0, vs_response = 0, vs_response_hash = replicate 32 0, vs_tag = [], vs_last_update = 3,
     vs_has_response = False\<rparr>"

definition sample_answer :: ValidationStatus where
  "sample_answer = sample_status\<lparr>vs_response := 90, vs_response_hash := replicate 32 2, vs_tag := ''t'', vs_last_update := 4, vs_has_response := True\<rparr>"

definition sample_requested :: validation where
  "sample_requested = new_validation\<lparr>vl_status := [sample_hash \<mapsto> sample_status], vl_agent_count := [0 \<mapsto> 1], vl_agent_at := [(0, 0) \<mapsto> sample_hash],
     vl_request_count := [''V'' \<mapsto> 1], vl_request_at := [(''V'', 0) \<mapsto> sample_hash]\<rparr>"

definition sample_validated :: validation where
  "sample_validated = sample_requested\<lparr>vl_status := [sample_hash \<mapsto> sample_answer]\<rparr>"

lemma sample_request_made:
  "exec_validation (sample_directory 3) (sample_call 3) (Call_validation_request ''A'' ''V'' 0 ''ipfs://q'' sample_hash) new_validation =
     Inr (sample_requested, [Ev_ValidationRequest ''V'' 0 sample_hash ''ipfs://q''])"
  by (simp add: validation_request_def require_auth_def demand_def or_fail_def sample_call_def sample_directory_def directory_of_def find_owner_def
      plain_nft_def sample_identity_def has_validation_def new_validation_def set_validation_def add_agent_validation_def add_validator_request_def
      get_agent_validation_count_def get_validator_request_count_def checked_u32_def sample_requested_def sample_status_def)

lemma sample_response_made:
  "exec_validation (sample_directory 4) (sample_call 4) (Call_validation_response ''V'' sample_hash 90 ''ipfs://r'' (replicate 32 2) ''t'') sample_requested =
     Inr (sample_validated, [Ev_ValidationResponse ''V'' 0 sample_hash 90 ''ipfs://r'' (replicate 32 2) ''t''])"
  by (simp add: validation_response_def require_auth_def demand_def or_fail_def sample_call_def sample_requested_def sample_status_def
      set_validation_def sample_validated_def sample_answer_def)

lemma sample_validation_run: "\<exists>h. validation_run new_validation h sample_validated"
  using validation_next [OF validation_next [OF validation_start sample_request_made] sample_response_made] by blast

theorem validation_summary_exact_witness:
  "get_validation_summary 0 [] [] sample_validated = Inr \<lparr>vy_count = 1, vy_average = 90\<rparr>"
proof -
  have "answers sample_validated 0 [] [] = {sample_hash}"
    by (auto simp: answers_def counts_for_def sample_validated_def sample_requested_def sample_answer_def sample_status_def split: if_splits)
  moreover have "vs_response (status_of sample_validated sample_hash) = 90" by (simp add: status_of_def sample_validated_def sample_answer_def)
  moreover obtain h where "validation_run new_validation h sample_validated" using sample_validation_run by blast
  ultimately show ?thesis using validation_summary_exact [of h sample_validated 0 "[]" "[]"] by simp
qed

text \<open>C15. Only the owner of an agent or somebody approved for it can ask for a validation, and only the validator that was asked can answer: whatever is
  called, a new request has no response and was authorized by the agent's side; an existing request keeps its validator and agent, and
  changes otherwise only when its validator authorized the call, to an answered request with a response of at most 100.\<close>

theorem validation_protected:
  assumes "exec_validation (directory_of N e ids) e c st = Inr (st', evs)"
  shows "case vl_status st h of
      None \<Rightarrow> vl_status st' h = None \<or> (\<exists>s caller. vl_status st' h = Some s \<and> \<not> vs_has_response s \<and> ce_auth e caller \<and> may_change N e ids caller (vs_agent s))
    | Some s \<Rightarrow> vl_status st' h = Some s \<or> (\<exists>s'. vl_status st' h = Some s' \<and> vs_validator s' = vs_validator s \<and> vs_agent s' = vs_agent s \<and>
        vs_has_response s' \<and> vs_response s' \<le> 100 \<and> ce_auth e (vs_validator s))"
  using exec_validation_spec [OF assms]
proof cases
  case (spec_request c a owner k s v st1 uri)
  have "vl_status st' = (vl_status st)(k \<mapsto> s)"
    using add_validation_keeps(1) [OF spec_request(7)] add_validation_keeps(2) [OF spec_request(8)] by (simp add: set_validation_keeps)
  moreover have "may_change N e ids c a"
    using spec_request(3,4) registry.authorized_owner [of N e ids c a] by (simp add: directory_of_def authorized_iff)
  ultimately show ?thesis using spec_request(2,5,6) by (auto split: option.split)
next
  case (spec_answer s k r rh tag uri)
  then show ?thesis by (cases "k = h") (auto simp: set_validation_keeps split: option.split)
qed (auto split: option.split)

theorem validation_protected_witness:
  "vl_status sample_validated sample_hash = Some sample_answer \<and> vs_validator sample_answer = ''V'' \<and> ce_auth (sample_call 4) ''V''"
proof -
  from validation_protected [OF sample_response_made [unfolded sample_directory_def], of sample_hash] show ?thesis
    by (auto simp: sample_requested_def sample_validated_def sample_answer_def sample_status_def)
qed

text \<open>C21. In every state the registry can reach, reading the requests of an agent or of a validator page by page gives exactly the requests stored for
  it, each once; responses are at most 100, and a request without an answer has none.\<close>

theorem validation_storage_sound:
  assumes "validation_run new_validation h st"
  shows "validation_inv st \<and>
    (\<forall>a n limit. get_agent_validation_count st a \<le> n * limit \<and> n * limit < 2 ^ 32 \<longrightarrow>
      (let hs = concat (map (\<lambda>j. get_agent_validations_paginated st a (j * limit) limit) [0 ..< n])
       in distinct hs \<and> (\<forall>k. k \<in> set hs \<longleftrightarrow> map_option vs_agent (vl_status st k) = Some a))) \<and>
    (\<forall>v n limit. get_validator_request_count st v \<le> n * limit \<and> n * limit < 2 ^ 32 \<longrightarrow>
      (let hs = concat (map (\<lambda>j. get_validator_requests_paginated st v (j * limit) limit) [0 ..< n])
       in distinct hs \<and> (\<forall>k. k \<in> set hs \<longleftrightarrow> map_option vs_validator (vl_status st k) = Some v)))"
proof -
  have inv: "validation_inv st" by (rule reachable_validation [OF assms])
  then have "asked_inv st" "assigned_inv st" by (simp_all add: validation_inv_def)
  then show ?thesis
    using inv asked.pages_cover [of st] assigned.pages_cover [of st] by (simp add: asked_inv_def assigned_inv_def Let_def)
qed

theorem validation_storage_sound_witness:
  "validation_inv sample_validated \<and> sample_hash \<in> set (concat (map (\<lambda>j. get_agent_validations_paginated sample_validated 0 (j * 10) 10) [0 ..< 1]))"
proof -
  obtain h where run: "validation_run new_validation h sample_validated" using sample_validation_run by blast
  have "get_agent_validation_count sample_validated 0 \<le> 1 * 10"
    by (simp add: get_agent_validation_count_def sample_validated_def sample_requested_def)
  moreover have "map_option vs_agent (vl_status sample_validated sample_hash) = Some 0"
    by (simp add: sample_validated_def sample_answer_def sample_status_def)
  ultimately show ?thesis
    using validation_storage_sound [OF run, THEN conjunct2, THEN conjunct1, rule_format, of 0 1 10] validation_storage_sound [OF run]
    by (simp add: Let_def)
qed

text \<open>C14. Code changes are announced: in any history of any of the three registries, code was installed only by the owner, at a ledger at least 51840
  ledgers (about three days) after the owner proposed exactly that code, and with no other upgrade call in between - so a proposal that was
  cancelled or already executed is never installed.\<close>

theorem upgrades_timelocked:
  assumes "identity_run N (new_identity N name symbol) h1 s1" "reputation_run new_reputation h2 s2" "validation_run new_validation h3 s3"
  shows "(\<forall>(h, t) \<in> set (us_installed (id_upgrade s1)). installs (upgrades h1) h t) \<and>
    (\<forall>(h, t) \<in> set (us_installed (rp_upgrade s2)). installs (reputation_upgrades h2) h t) \<and>
    (\<forall>(h, t) \<in> set (us_installed (vl_upgrade s3)). installs (validation_upgrades h3) h t)"
  using upgrade_run_installed [OF identity_run_upgrades [OF assms(1)]] upgrade_run_installed [OF reputation_run_upgrades [OF assms(2)]]
    upgrade_run_installed [OF validation_run_upgrades [OF assms(3)]]
  by (simp add: new_identity_def new_reputation_def new_validation_def)

definition upgrade_calls :: reputation_history where
  "upgrade_calls = [(sample_directory 1, sample_call 1, Call_reputation_upgrade (Propose_Upgrade [9]), []),
     (sample_directory 1, sample_call 51841, Call_reputation_upgrade Execute_Upgrade, [])]"

theorem upgrades_timelocked_witness:
  "\<exists>st. reputation_run new_reputation upgrade_calls st \<and> ([9], 51841) \<in> set (us_installed (rp_upgrade st)) \<and>
     installs (reputation_upgrades upgrade_calls) [9] 51841"
proof -
  let ?st = "new_reputation\<lparr>rp_upgrade := \<lparr>us_pending = Some \<lparr>wasm_hash = [9], proposed_at = 1\<rparr>, us_installed = []\<rparr>\<rparr>"
  let ?st' = "new_reputation\<lparr>rp_upgrade := \<lparr>us_pending = None, us_installed = [([9], 51841)]\<rparr>\<rparr>"
  have "exec_reputation (sample_directory 1) (sample_call 1) (Call_reputation_upgrade (Propose_Upgrade [9])) new_reputation = Inr (?st, [])"
    by (simp add: propose_upgrade_def demand_def sample_call_def new_reputation_def)
  from reputation_next [OF reputation_start this]
  have one: "reputation_run new_reputation [(sample_directory 1, sample_call 1, Call_reputation_upgrade (Propose_Upgrade [9]), [])] ?st" by simp
  have "exec_reputation (sample_directory 1) (sample_call 51841) (Call_reputation_upgrade Execute_Upgrade) ?st = Inr (?st', [])"
    by (simp add: execute_upgrade_def demand_def or_fail_def sample_call_def TIMELOCK_LEDGERS_def)
  from reputation_next [OF one this] have run: "reputation_run new_reputation upgrade_calls ?st'" by (simp add: upgrade_calls_def)
  with upgrades_timelocked [OF identity_start [of plain_nft "new_identity plain_nft [] []"] run validation_start] show ?thesis by (intro exI [of _ ?st']) simp
qed

end
