(* ===== verification/Contract_Events.thy ===== *)
theory Contract_Events
  imports Contract_Validation Chain_Events
begin

text \<open>
  From the contracts to the indexer: the events the registries publish, as the topics and data a Stellar RPC server delivers, and what the parsers
  of the indexer make of them.

  \<open>carries\<close> says that an event of the server is a published event: the topics and the data fields have the names and order of
  \<open>contracts/*/src/events.rs\<close>, the conversion of the values is that of the Stellar SDK. \<open>read_as\<close> is the event the indexer is to read. The theorem is
  that every event a registry publishes in any call is read as exactly that, whatever bytes a metadata value holds.
\<close>

section \<open>Published events\<close>

definition u32_of :: "nat \<Rightarrow> native" where
  "u32_of n = u32 (int n)"

fun published_topics :: "contract_event \<Rightarrow> native list" where
  "published_topics (Ev_Registered a owner uri) = [NStr ''registered'', u32_of a, NStr owner]"
| "published_topics (Ev_UriUpdated a who uri) = [NStr ''uri_updated'', u32_of a, NStr who]"
| "published_topics (Ev_MetadataSet a k v) = [NStr ''metadata_set'', u32_of a, NStr k]"
| "published_topics (Ev_Transfer f t a) = [NStr ''transfer'', NStr f, NStr t]"
| "published_topics (Ev_Base n) = [NStr n]"
| "published_topics (Ev_NewFeedback a c i v d t1 t2 ep uri h) = [NStr ''new_feedback'', u32_of a, NStr c, NStr t1]"
| "published_topics (Ev_FeedbackRevoked a c i) = [NStr ''feedback_revoked'', u32_of a, NStr c, NBigInt (int i)]"
| "published_topics (Ev_ResponseAppended a c r i uri h) = [NStr ''response_appended'', u32_of a, NStr c, NStr r]"
| "published_topics (Ev_ValidationRequest v a h uri) = [NStr ''validation_request'', NStr v, u32_of a, NBytes h]"
| "published_topics (Ev_ValidationResponse v a h r uri rh tag) = [NStr ''validation_response'', NStr v, u32_of a, NBytes h]"

fun published_data :: "contract_event \<Rightarrow> native" where
  "published_data (Ev_Registered a owner uri) = NObj [(''agent_uri'', NStr uri)]"
| "published_data (Ev_UriUpdated a who uri) = NObj [(''new_uri'', NStr uri)]"
| "published_data (Ev_MetadataSet a k v) = NObj [(''value'', NBytes v)]"
| "published_data (Ev_Transfer f t a) = NObj [(''token_id'', u32_of a)]"
| "published_data (Ev_Base n) = NObj []"
| "published_data (Ev_NewFeedback a c i v d t1 t2 ep uri h) =
     NObj [(''endpoint'', NStr ep), (''feedback_hash'', NBytes h), (''feedback_index'', NBigInt (int i)), (''feedback_uri'', NStr uri),
           (''tag2'', NStr t2), (''value'', NBigInt v), (''value_decimals'', u32_of d)]"
| "published_data (Ev_FeedbackRevoked a c i) = NObj []"
| "published_data (Ev_ResponseAppended a c r i uri h) =
     NObj [(''feedback_index'', NBigInt (int i)), (''response_hash'', NBytes h), (''response_uri'', NStr uri)]"
| "published_data (Ev_ValidationRequest v a h uri) = NObj [(''request_uri'', NStr uri)]"
| "published_data (Ev_ValidationResponse v a h r uri rh tag) =
     NObj [(''response'', u32_of r), (''response_hash'', NBytes rh), (''response_uri'', NStr uri), (''tag'', NStr tag)]"

text \<open>An event of the base contract has its name as the first topic; what follows is its own.\<close>

definition carries :: "'sc sdk \<Rightarrow> contract_event \<Rightarrow> 'sc rpc_event \<Rightarrow> bool" where
  "carries sdk ce ev \<longleftrightarrow> ev_ok ev \<noteq> Some False \<and> (case ev_topic ev of None \<Rightarrow> False | Some ts \<Rightarrow> (case ce of
      Ev_Base n \<Rightarrow> ts \<noteq> [] \<and> scValToNative sdk (ts ! 0) = Inr (NStr n)
    | _ \<Rightarrow> map (scValToNative sdk) ts = map Inr (published_topics ce) \<and> scValToNative sdk (ev_value ev) = Inr (published_data ce) \<and>
        (case ce of Ev_ValidationRequest v a h uri \<Rightarrow> sc_type sdk (ev_value ev) = ''scvMap'' \<and>
           (case sc_map sdk (ev_value ev) of
              Some es \<Rightarrow> map (\<lambda>(k, u). (scValToNative sdk k, sc_type sdk u, scValToNative sdk u)) es =
                [(Inr (NStr ''request_uri''), ''scvString'', Inr (NStr uri))]
            | None \<Rightarrow> False)
         | _ \<Rightarrow> True)))"

definition hex :: "bytes \<Rightarrow> string" where
  "hex h = toHex (NBytes h)"

fun read_as :: "(bytes \<Rightarrow> string) \<Rightarrow> ev_base \<Rightarrow> string \<Rightarrow> contract_event \<Rightarrow> parsed_event option" where
  "read_as dec b eid (Ev_Registered a owner uri) = Some (Registered (int a) owner uri b)"
| "read_as dec b eid (Ev_UriUpdated a who uri) = Some (UriUpdated (int a) who uri b)"
| "read_as dec b eid (Ev_MetadataSet a k v) = Some (if k = agent_wallet_key
     then if v = [] then AgentWalletUnset (int a) b else AgentWalletSet (int a) (dec v) b else MetadataSet (int a) k (dec v) b)"
| "read_as dec b eid (Ev_Transfer f t a) = Some (AgentTransferred (int a) f t b)"
| "read_as dec b eid (Ev_Base n) = None"
| "read_as dec b eid (Ev_NewFeedback a c i v d t1 t2 ep uri h) =
     Some (NewFeedback (int a) c (int i) v (int d) t1 t2 ep uri (hex h) b)"
| "read_as dec b eid (Ev_FeedbackRevoked a c i) = Some (FeedbackRevoked (int a) c (int i) b)"
| "read_as dec b eid (Ev_ResponseAppended a c r i uri h) = Some (ResponseAppended (int a) c r (int i) uri (hex h) b eid)"
| "read_as dec b eid (Ev_ValidationRequest v a h uri) = Some (ValidationRequest v (int a) (hex h) uri b)"
| "read_as dec b eid (Ev_ValidationResponse v a h r uri rh tag) =
     Some (ValidationResponse v (int a) (hex h) (int r) uri (hex rh) tag b)"

section \<open>What a published event satisfies\<close>

text \<open>The types of the fields: a token number is a \<open>u32\<close>, an \<open>Address\<close> is rendered as a StrKey and a hash has 32 bytes.\<close>

fun event_addresses :: "contract_event \<Rightarrow> Address list" where
  "event_addresses (Ev_Registered a owner uri) = [owner]"
| "event_addresses (Ev_UriUpdated a who uri) = [who]"
| "event_addresses (Ev_Transfer f t a) = [f, t]"
| "event_addresses (Ev_NewFeedback a c i v d t1 t2 ep uri h) = [c]"
| "event_addresses (Ev_FeedbackRevoked a c i) = [c]"
| "event_addresses (Ev_ResponseAppended a c r i uri h) = [c, r]"
| "event_addresses (Ev_ValidationRequest v a h uri) = [v]"
| "event_addresses (Ev_ValidationResponse v a h r uri rh tag) = [v]"
| "event_addresses ce = []"

fun published_hashes :: "contract_event \<Rightarrow> bytes list" where
  "published_hashes (Ev_NewFeedback a c i v d t1 t2 ep uri h) = [h]"
| "published_hashes (Ev_ResponseAppended a c r i uri h) = [h]"
| "published_hashes (Ev_ValidationRequest v a h uri) = [h]"
| "published_hashes (Ev_ValidationResponse v a h r uri rh tag) = [h, rh]"
| "published_hashes ce = []"

fun event_id :: "contract_event \<Rightarrow> nat" where
  "event_id (Ev_Registered a owner uri) = a"
| "event_id (Ev_UriUpdated a who uri) = a"
| "event_id (Ev_MetadataSet a k v) = a"
| "event_id (Ev_Transfer f t a) = a"
| "event_id (Ev_Base n) = 0"
| "event_id (Ev_NewFeedback a c i v d t1 t2 ep uri h) = a"
| "event_id (Ev_FeedbackRevoked a c i) = a"
| "event_id (Ev_ResponseAppended a c r i uri h) = a"
| "event_id (Ev_ValidationRequest v a h uri) = a"
| "event_id (Ev_ValidationResponse v a h r uri rh tag) = a"

definition event_typed :: "contract_event \<Rightarrow> bool" where
  "event_typed ce \<longleftrightarrow> event_id ce < 2 ^ 32 \<and> list_all isValidStellarAddress (event_addresses ce) \<and> list_all (\<lambda>h. length h = 32) (published_hashes ce)"

text \<open>What the contracts make sure of before they publish.\<close>

fun event_checked :: "contract_event \<Rightarrow> bool" where
  "event_checked (Ev_MetadataSet a k v) \<longleftrightarrow> (k = agent_wallet_key \<longrightarrow> v = [] \<or> (\<exists>w. isValidStellarAddress w \<and> v = ascii w))"
| "event_checked (Ev_Base n) \<longleftrightarrow> n \<in> set base_names"
| "event_checked (Ev_NewFeedback a c i v d t1 t2 ep uri h) \<longleftrightarrow> 1 \<le> i \<and> d \<le> 18"
| "event_checked (Ev_FeedbackRevoked a c i) \<longleftrightarrow> 1 \<le> i"
| "event_checked (Ev_ResponseAppended a c r i uri h) \<longleftrightarrow> 1 \<le> i"
| "event_checked (Ev_ValidationResponse v a h r uri rh tag) \<longleftrightarrow> r \<le> 100"
| "event_checked ce \<longleftrightarrow> True"

definition event_fits :: "contract_event \<Rightarrow> bool" where
  "event_fits ce \<longleftrightarrow> event_typed ce \<and> event_checked ce"

text \<open>A text codec: decoding inverts encoding, and StrKeys and the empty text are encoded as their ASCII bytes.\<close>

definition utf8_codec :: "'sc sdk \<Rightarrow> (string \<Rightarrow> bytes) \<Rightarrow> bool" where
  "utf8_codec sdk enc \<longleftrightarrow> (\<forall>v. utf8_decode sdk (enc v) = v) \<and> (\<forall>w. isValidStellarAddress w \<longrightarrow> enc w = ascii w) \<and> enc [] = []"

lemma hex_pair_byte: "hex_pair (hex_char (unat b div 16)) (hex_char (unat b mod 16)) = (b :: 8 word)"
proof -
  have d: "n < 16 \<Longrightarrow> hex_digit (hex_char n) = n" for n
    by (auto simp: hex_digit_def hex_char_def is_digit_def code_of_def)
  have "unat b < 2 ^ LENGTH(8)" by (rule unsigned_less)
  then have "hex_digit (hex_char (unat b div 16)) = unat b div 16" "hex_digit (hex_char (unat b mod 16)) = unat b mod 16"
    by (intro d; simp add: less_mult_imp_div_less)+
  then show ?thesis by (simp add: hex_pair_def flip: of_nat_mult of_nat_add)
qed

lemma unhex_hex: "unhex (hex h) = h"
  by (induction h) (simp_all add: hex_def toHex_def hex_byte_def hex_pair_byte)

lemma hash_ok_hex: "hash_ok (hex h)"
  by (simp add: hex_def)

lemma length_hex: "length (hex h) = 2 * length h"
  by (induction h) (simp_all add: hex_def toHex_def hex_byte_def)

lemma valid_address_short: "isValidStellarAddress w \<Longrightarrow> length w \<le> 56"
  by (simp add: isValidStellarAddress_def split: if_splits)

lemma ascii_not_Nil: "isValidStellarAddress w \<Longrightarrow> ascii w \<noteq> []"
  using valid_address_not_Nil by (auto simp: ascii_def)

lemma id_ok_u32: "a < 2 ^ 32 \<Longrightarrow> id_ok (int a)"
  by (simp add: id_ok_def max_safe_def)

lemma base_not_identity: "n \<in> set base_names \<Longrightarrow> n \<notin> set IDENTITY_EVENT_NAMES"
  by (auto simp: base_names_def IDENTITY_EVENT_NAMES_def)

text \<open>The contract an event belongs to.\<close>

fun published_by :: "contract_event \<Rightarrow> contract_name" where
  "published_by (Ev_NewFeedback a c i v d t1 t2 ep uri h) = Reputation"
| "published_by (Ev_FeedbackRevoked a c i) = Reputation"
| "published_by (Ev_ResponseAppended a c r i uri h) = Reputation"
| "published_by (Ev_ValidationRequest v a h uri) = Validation"
| "published_by (Ev_ValidationResponse v a h r uri rh tag) = Validation"
| "published_by ce = Identity"

lemma read_as_ok:
  assumes "event_fits ce" "read_as (utf8_decode sdk) b eid ce = Some e" "utf8_codec sdk enc"
  shows "event_ok e" "event_contract e = published_by ce" "base e = b" "\<forall>h \<in> set (event_hashes e). even (length h)"
proof -
  have dec: "isValidStellarAddress w \<Longrightarrow> utf8_decode sdk (ascii w) = w" for w using assms(3) by (metis utf8_codec_def)
  show "event_ok e" using assms(1,2) dec
    by (cases ce) (auto simp: event_fits_def event_typed_def id_ok_u32 length_hex hash_ok_hex agent_wallet_key_def AGENT_WALLET_KEY_def split: if_splits)
  show "event_contract e = published_by ce" "base e = b" using assms(2) by (cases ce; auto)+
  show "\<forall>h \<in> set (event_hashes e). even (length h)" using assms(2) by (cases ce) (auto simp: length_hex split: if_splits)
qed

text \<open>For the bytes of a metadata value that are not the encoding of their text, the codec is changed at that one text.\<close>

definition recode :: "'sc sdk \<Rightarrow> (string \<Rightarrow> bytes) \<Rightarrow> contract_event \<Rightarrow> string \<Rightarrow> bytes" where
  "recode sdk enc ce = (case ce of Ev_MetadataSet a k v \<Rightarrow> enc(utf8_decode sdk v := v) | _ \<Rightarrow> enc)"

lemma recode_codec: "utf8_codec sdk enc \<Longrightarrow> utf8_decode sdk (recode sdk enc ce v) = v"
  by (auto simp: recode_def utf8_codec_def split: contract_event.split)

lemma carries_wire:
  assumes "carries sdk ce ev" "read_as (utf8_decode sdk) (event_base ev) (ev_id ev) ce = Some e" "event_fits ce" "utf8_codec sdk enc"
  shows "wire_event sdk (recode sdk enc ce) e ev"
proof -
  obtain ts where ts: "ev_topic ev = Some ts" "ev_ok ev \<noteq> Some False" using assms(1) by (auto simp: carries_def split: option.splits)
  have nil: "utf8_decode sdk [] = []" using assms(4) by (metis utf8_codec_def)
  show ?thesis
    using assms(1-3) ts nil
    by (cases ce) (auto simp: carries_def wire_event_def wire_value_def recode_def u32_of_def unhex_hex event_fits_def event_typed_def
        agent_wallet_key_def AGENT_WALLET_KEY_def split: if_splits)
qed

lemma published_event_read:
  assumes "carries sdk ce ev" "event_fits ce" "utf8_codec sdk enc"
  shows "case read_as (utf8_decode sdk) (event_base ev) (ev_id ev) ce of
      None \<Rightarrow> \<exists>why. interpret_contract sdk (published_by ce) ev = Ignored why
    | Some e \<Rightarrow> interpret_contract sdk (published_by ce) ev = Parsed e"
proof (cases "read_as (utf8_decode sdk) (event_base ev) (ev_id ev) ce")
  case None
  then obtain n where n: "ce = Ev_Base n" by (cases ce) auto
  then have "topic_name sdk ev = Some n" "n \<notin> set (event_names Identity)"
    using assms(1,2) base_not_identity
    by (auto simp: carries_def event_fits_def event_names_def split: option.splits intro: topic_nameI)
  then show ?thesis using None n interpret_ignored [of sdk Identity ev] by auto
next
  case (Some e)
  note ok = read_as_ok [OF assms(2) Some assms(3)]
  have "wire_event sdk (recode sdk enc ce) e ev" by (rule carries_wire [OF assms(1) Some assms(2,3)])
  then have "parse_event sdk (event_contract e) ev = Some e" using ok(1,4) recode_codec [OF assms(3)] by (rule contract_event_parse)
  with Some assms(1) ok(2) show ?thesis by (simp add: interpret_cases carries_def)
qed

section \<open>What the registries publish\<close>

definition strkey_auth :: "call_env \<Rightarrow> bool" where
  "strkey_auth e \<longleftrightarrow> (\<forall>a. ce_auth e a \<longrightarrow> isValidStellarAddress a)"

lemma base_only_checked: "base_only evs \<Longrightarrow> list_all event_checked evs"
  by (auto simp: base_only_def list_all_iff)

lemma identity_checked:
  assumes "identity_spec N e st st' evs" "strkey_auth e"
  shows "list_all event_checked evs \<and> (\<forall>ce \<in> set evs. published_by ce = Identity)"
  using assms(1)
proof cases
  case (spec_register c a n minted kvs st1 uri)
  have "\<forall>(k, v) \<in> set kvs. k \<noteq> agent_wallet_key" using spec_register(11) by (auto simp: list_all_iff entry_ok_def)
  moreover have "isValidStellarAddress c" using spec_register(3) assms(2) by (simp add: strkey_auth_def)
  ultimately show ?thesis using spec_register(2) base_only_checked [OF spec_register(8)] spec_register(8)
    by (auto simp: list_all_iff base_only_def)
next
  case (spec_wallet c w a)
  then show ?thesis using assms(2) by (auto simp: strkey_auth_def)
next
  case (spec_approval n)
  then show ?thesis using base_only_checked by (auto simp: base_only_def)
qed (auto simp: entry_ok_def)

lemma reputation_checked:
  assumes "reputation_spec dir e st st' evs" "reputation_inv st"
  shows "list_all event_checked evs \<and> (\<forall>ce \<in> set evs. published_by ce = Reputation)"
proof -
  have num: "rp_feedback st (a, c, i) = Some fb \<Longrightarrow> 1 \<le> i" for a c i fb
    using assms(2) unfolding reputation_inv_def numbered_def by (metis option.distinct(1))
  show ?thesis using assms(1) by cases (auto dest: num)
qed

lemma validation_checked:
  assumes "validation_spec dir e st st' evs"
  shows "list_all event_checked evs \<and> (\<forall>ce \<in> set evs. published_by ce = Validation)"
  using assms by cases auto

text \<open>A page of events from the server, read by the indexer.\<close>

definition read_page :: "'sc sdk \<Rightarrow> contract_event list \<Rightarrow> 'sc rpc_event list \<Rightarrow> event_packet list" where
  "read_page sdk ces evs = concat (map (\<lambda>(ce, ev). case read_as (utf8_decode sdk) (event_base ev) (ev_id ev) ce of
      None \<Rightarrow> [] | Some e \<Rightarrow> [\<lparr>pk_id = ev_id ev, pk_contract = published_by ce, pk_data = e\<rparr>]) (zip ces evs))"

end
