(* ===== verification/Contract_Pages.thy ===== *)
theory Contract_Pages
  imports Contract_Events Indexer_Writes
begin

text \<open>
  Pages of published events. What the indexer reads from a page that carries the events of a contract is the events themselves; a successful
  \<open>writeEvents\<close> runs their statements. A view of some tables that events transform one by one (\<open>event_view\<close>) can therefore be computed from the
  published events alone, without the time and place the server adds.
\<close>

section \<open>Events without time and place\<close>

definition nowhere :: ev_base where
  "nowhere = \<lparr>b_ledger = 0, b_closedAt = [], b_txHash = []\<rparr>"

definition bare :: "(bytes \<Rightarrow> string) \<Rightarrow> contract_event list \<Rightarrow> parsed_event list" where
  "bare dec ces = concat (map (\<lambda>ce. case read_as dec nowhere [] ce of None \<Rightarrow> [] | Some e \<Rightarrow> [e]) ces)"

lemma bare_simps [simp]:
  "bare dec [] = []" "bare dec (ce # ces) = (case read_as dec nowhere [] ce of None \<Rightarrow> [] | Some e \<Rightarrow> [e]) @ bare dec ces"
  "bare dec (ces @ ces') = bare dec ces @ bare dec ces'"
  by (simp_all add: bare_def)

lemma bare_base: "base_only evs \<Longrightarrow> bare dec evs = []"
  by (induction evs) (auto simp: base_only_def)

definition regs_first :: "parsed_event list \<Rightarrow> parsed_event list" where
  "regs_first es = filter is_registered es @ filter (\<lambda>e. \<not> is_registered e) es"

lemma parentsFirst_data: "map pk_data (parentsFirst ps) = regs_first (map pk_data ps)"
  by (simp add: parentsFirst_def regs_first_def filter_map comp_def)

lemma parentsFirst_set: "set (parentsFirst ps) = set ps"
  by (auto simp: parentsFirst_def)

section \<open>The page the indexer reads\<close>

lemma packets_read:
  assumes "list_all2 (carries sdk) ces evs" "list_all event_fits ces" "\<forall>ce \<in> set ces. published_by ce = c" "utf8_codec sdk enc"
  shows "packets_of sdk c evs = read_page sdk ces evs"
  using assms(1-3)
proof (induction rule: list_all2_induct)
  case (Cons ce ces ev evs)
  then have "packets_of sdk c evs = read_page sdk ces evs" by simp
  with Cons published_event_read [OF Cons(1) _ assms(4)] show ?case by (auto simp: read_page_def split: option.splits)
qed (simp add: read_page_def)

lemma page_written:
  assumes "infra_faults env" "writeEvents env sdk c evs False w = (Inr (p, s, False), w')"
    and "list_all2 (carries sdk) ces evs" "list_all event_fits ces" "\<forall>ce \<in> set ces. published_by ce = c" "utf8_codec sdk enc"
  obtains now css where "smap (\<lambda>p. eventStatement (e_date env) (pk_data p) now) (parentsFirst (read_page sdk ces evs)) = Inr (map snd css)"
    and "run_seq css (core (w_db w)) = Inr (core (w_db w'))"
  using wp_result [OF writeEvents_seq [OF assms(1)] assms(2)] packets_read [OF assms(3-6)]
  by (auto simp: applied_def statements_of_def)

lemma read_page_Nil [simp]: "read_page sdk [] evs = []"
  by (simp add: read_page_def)

lemma read_page_Cons: "read_page sdk (ce # ces) (ev # evs) = (case read_as (utf8_decode sdk) (event_base ev) (ev_id ev) ce of
    None \<Rightarrow> [] | Some e \<Rightarrow> [\<lparr>pk_id = ev_id ev, pk_contract = published_by ce, pk_data = e\<rparr>]) @ read_page sdk ces evs"
  by (simp add: read_page_def)

lemma read_page_ledgers:
  assumes "length ces = length evs" "sorted (map ev_ledger evs)"
  shows "sorted (map (\<lambda>p. b_ledger (base (pk_data p))) (read_page sdk ces evs)) \<and>
    (\<forall>p \<in> set (read_page sdk ces evs). \<exists>ev \<in> set evs. b_ledger (base (pk_data p)) = ev_ledger ev)"
  using assms
proof (induction ces evs rule: list_induct2)
  case (Cons ce ces ev evs)
  have "read_as dec b eid ce = Some e \<Longrightarrow> base e = b" for dec b eid e by (cases ce) auto
  then have "read_as dec b eid ce = Some e \<Longrightarrow> b_ledger (base e) = b_ledger b" for dec b eid e by simp
  moreover have "b_ledger (event_base ev) = ev_ledger ev" by (simp add: event_base_def)
  ultimately show ?case using Cons by (fastforce simp: read_page_Cons split: option.splits)
qed simp

lemma read_page_contract: "\<forall>ce \<in> set ces. published_by ce = c \<Longrightarrow> p \<in> set (read_page sdk ces evs) \<Longrightarrow> event_contract (pk_data p) = c"
proof -
  have "read_as dec b eid ce = Some e \<Longrightarrow> event_contract e = published_by ce" for dec b eid ce e by (cases ce) auto
  then show "\<forall>ce \<in> set ces. published_by ce = c \<Longrightarrow> p \<in> set (read_page sdk ces evs) \<Longrightarrow> event_contract (pk_data p) = c"
    by (fastforce simp: read_page_def split: option.splits dest: set_zip_leftD)
qed

lemma bare_contract: "\<forall>ce \<in> set ces. published_by ce = c \<Longrightarrow> e \<in> set (bare dec ces) \<Longrightarrow> event_contract e = c"
proof -
  have "read_as dec b eid ce = Some e \<Longrightarrow> event_contract e = published_by ce" for dec b eid ce e by (cases ce) auto
  then show "\<forall>ce \<in> set ces. published_by ce = c \<Longrightarrow> e \<in> set (bare dec ces) \<Longrightarrow> event_contract e = c"
    by (auto simp: bare_def split: option.splits)
qed

lemma registered_identity: "is_registered e \<Longrightarrow> event_contract e = Identity"
  by (cases e) (auto simp: is_registered_def)

text \<open>Only pages of the identity registry are reordered.\<close>

lemma other_order:
  assumes "\<forall>e \<in> set es. event_contract e \<noteq> Identity"
  shows "regs_first es = es"
proof -
  from assms registered_identity have "\<forall>e \<in> set es. \<not> is_registered e" by blast
  then show ?thesis by (simp add: regs_first_def filter_id_conv filter_empty_conv)
qed

lemma other_parentsFirst:
  assumes "\<forall>p \<in> set ps. event_contract (pk_data p) \<noteq> Identity"
  shows "parentsFirst ps = ps"
proof -
  from assms registered_identity have "\<forall>p \<in> set ps. \<not> is_registered (pk_data p)" by blast
  then show ?thesis by (simp add: parentsFirst_def filter_id_conv filter_empty_conv)
qed

section \<open>Views\<close>

text \<open>Running the statements of a page, with an invariant over the packets that are left.\<close>

lemma run_fold:
  assumes "smap (\<lambda>p. eventStatement dp (pk_data p) now) ps = Inr (map snd css)" "run_seq css d = Inr d'" "I ps d"
    and step: "\<And>p ps d s clk d1 n. I (p # ps) d \<Longrightarrow> eventStatement dp (pk_data p) now = Inr s \<Longrightarrow> exec_stmt clk s d = Inr (d1, n) \<Longrightarrow>
      I ps d1 \<and> seen d1 = view (pk_data p) (seen d)"
  shows "I [] d' \<and> seen d' = fold view (map pk_data ps) (seen d)"
  using assms(1-3)
proof (induction ps arbitrary: css d)
  case (Cons p ps)
  from Cons.prems(1) obtain s ss where s: "eventStatement dp (pk_data p) now = Inr s"
      "smap (\<lambda>p. eventStatement dp (pk_data p) now) ps = Inr ss" "map snd css = s # ss"
    by (auto simp: sbind_eq_Inr)
  then obtain clk css' where css: "css = (clk, s) # css'" "ss = map snd css'" by (cases css) auto
  with Cons.prems(2) obtain d1 n where d1: "exec_stmt clk s d = Inr (d1, n)" "run_seq css' d1 = Inr d'" by (auto simp: sbind_eq_Inr)
  from step [OF Cons.prems(3) s(1) d1(1)] Cons.IH [of css' d1] s(2) css(2) d1(2) show ?case by simp
qed auto

locale event_view =
  fixes view :: "parsed_event \<Rightarrow> 's \<Rightarrow> 's"
  assumes placed: "read_as dec b eid ce = Some e \<Longrightarrow> read_as dec nowhere [] ce = Some x \<Longrightarrow> view e = view x"
begin

definition alike :: "parsed_event \<Rightarrow> parsed_event \<Rightarrow> bool" where
  "alike e x \<longleftrightarrow> view e = view x \<and> is_registered e = is_registered x"

lemma read_as_bare:
  "case read_as dec b eid ce of None \<Rightarrow> read_as dec nowhere [] ce = None | Some e \<Rightarrow> (\<exists>x. read_as dec nowhere [] ce = Some x \<and> alike e x)"
proof (cases "read_as dec b eid ce")
  case None
  then show ?thesis by (cases ce) auto
next
  case (Some e)
  then obtain x where x: "read_as dec nowhere [] ce = Some x" by (cases ce) auto
  have "is_registered e = is_registered x" using Some x by (cases ce) (auto simp: is_registered_def split: if_splits)
  with placed [OF Some x] Some x show ?thesis by (simp add: alike_def)
qed

lemma read_page_alike:
  "length ces = length evs \<Longrightarrow> list_all2 alike (map pk_data (read_page sdk ces evs)) (bare (utf8_decode sdk) ces)"
proof (induction ces evs rule: list_induct2)
  case (Cons ce ces ev evs)
  then show ?case
    using read_as_bare [where dec = "utf8_decode sdk" and b = "event_base ev" and eid = "ev_id ev" and ce = ce]
    by (auto simp: read_page_Cons split: option.splits)
qed simp

lemma alike_fold: "list_all2 alike es xs \<Longrightarrow> fold view es v = fold view xs v"
  by (induction arbitrary: v rule: list_all2_induct) (auto simp: alike_def)

lemma alike_filter:
  assumes "list_all2 alike es xs" "\<And>e x. alike e x \<Longrightarrow> P e \<longleftrightarrow> P x"
  shows "list_all2 alike (filter P es) (filter P xs)"
  using assms(1)
proof (induction rule: list_all2_induct)
  case (Cons e es x xs)
  show ?case using Cons assms(2) [OF Cons(1)] by (cases "P x") simp_all
qed simp

lemma page_fold:
  assumes "length ces = length evs"
  shows "fold view (regs_first (map pk_data (read_page sdk ces evs))) v = fold view (regs_first (bare (utf8_decode sdk) ces)) v"
proof (rule alike_fold)
  show "list_all2 alike (regs_first (map pk_data (read_page sdk ces evs))) (regs_first (bare (utf8_decode sdk) ces))"
    unfolding regs_first_def using read_page_alike [OF assms, of sdk] by (intro list_all2_appendI alike_filter) (auto simp: alike_def)
qed

lemma other_page_fold:
  assumes "length ces = length evs" "\<forall>ce \<in> set ces. published_by ce = c" "c \<noteq> Identity"
  shows "fold view (map pk_data (read_page sdk ces evs)) v = fold view (bare (utf8_decode sdk) ces) v"
proof -
  have "regs_first (map pk_data (read_page sdk ces evs)) = map pk_data (read_page sdk ces evs)"
    using read_page_contract [OF assms(2)] assms(3) by (intro other_order) auto
  moreover have "regs_first (bare (utf8_decode sdk) ces) = bare (utf8_decode sdk) ces"
    using bare_contract [OF assms(2)] assms(3) by (intro other_order) blast
  ultimately show ?thesis using page_fold [OF assms(1), of sdk v] by simp
qed

end

section \<open>Events as a server delivers them, for the examples\<close>

definition delivered :: "contract_event \<Rightarrow> native rpc_event" where
  "delivered ce = sample_event\<lparr>ev_topic := Some (published_topics ce), ev_value := published_data ce\<rparr>"

lemma delivered_carries: "carries native_sdk ce (delivered ce)"
  by (cases ce) (simp_all add: carries_def delivered_def sample_event_def native_sdk_def)

lemma delivered_all: "list_all2 (carries native_sdk) ces (map delivered ces)"
  by (simp add: list_all2_conv_all_nth delivered_carries)

lemma native_codec: "utf8_codec native_sdk byte_text"
  using decode_byte_text by (simp add: utf8_codec_def) (simp add: ascii_def byte_text_def)

definition signed_call :: call_env where
  "signed_call = \<lparr>ce_auth = (\<lambda>a. a = sample_validator), ce_sequence = 1, ce_only_owner = False\<rparr>"

definition timed_env :: env where
  "timed_env = sample_env\<lparr>e_date := \<lambda>_. Some 1767225600000\<rparr>"

definition agent_db :: db where
  "agent_db = (sample_db None)\<lparr>agents := [(0, new_agent sample_validator ''u'' True [] 5 [] [])]\<rparr>"

text \<open>A page of one event whose statement goes through is written without deferring.\<close>

lemma single_written:
  assumes "interpret_contract native_sdk c (delivered ce) = Parsed e" "eventStatement (e_date timed_env) e = (\<lambda>now. Inr (f now))"
    and "\<And>clk now. \<exists>d'. exec_stmt clk (f now) d = Inr (d', 1)"
  obtains w' p s where "writeEvents timed_env native_sdk c [delivered ce] False (sample_world d) = (Inr (p, s, False), w')"
proof -
  let ?p = "\<lparr>pk_id = ev_id (delivered ce), pk_contract = c, pk_data = e\<rparr>"
  have order: "parentsFirst [?p] = [?p]" by (simp add: parentsFirst_def)
  have chunk: "\<exists>p s w'. write_chunk timed_env c False now [?p] 0 k w = (Inr (p, s, False), w')" if "w_db w = d" for now k w
  proof -
    have "\<exists>w'. db_batch timed_env [f now] w = (Inr [1], w')"
      using assms(3) [of "e_clk timed_env (w_tick w)" now] that by (auto simp: db_batch_def db_call_def timed_env_def sample_env_def)
    then show ?thesis by (auto simp: write_chunk_def assms(2) act_defs recordMissingParents_def List.map_filter_def)
  qed
  have "\<exists>p s w'. write_chunks timed_env c False now [?p] 0 k w = (Inr (p, s, False), w')" if "w_db w = d" for now k w
    using chunk [OF that, of now k] by (subst write_chunks.simps, subst write_chunks.simps) (auto simp: act_defs BATCH_LIMIT_def)
  then have "\<exists>p s w'. writeEvents timed_env native_sdk c [delivered ce] False (sample_world d) = (Inr (p, s, False), w')"
    by (simp add: writeEvents_def act_defs assms(1) order date_now_def sample_world_def tick_def)
  then show ?thesis using that by blast
qed

lemma timed_closed: "\<exists>closed. pgTime (e_date timed_env) time = Inr closed"
  by (simp add: pgTime_def timed_env_def)

lemma timed_infra: "infra_faults timed_env"
  by (simp add: infra_faults_def timed_env_def sample_env_def)

lemma validator_not_A: "sample_validator \<noteq> ''A''"
proof
  assume "sample_validator = ''A''"
  with sample_validator_valid have "isValidStellarAddress ''A''" by simp
  then show False by (simp add: isValidStellarAddress_def)
qed

end
