(* ===== verification/Contract_Indexed.thy ===== *)
theory Contract_Indexed
  imports Contract_Pages
begin

text \<open>
  The indexer's tables mirror the contracts. For each registry, an abstraction of its storage and one of the tables the indexer keeps for it; when the
  indexer has written the events of a sequence of successful calls and reports that nothing was deferred, the two agree again.

  The proof goes through a view of the tables that events transform one by one (\<open>view_event\<close>). Writing a page applies the view of its events with
  registrations first; since a registration concerns an agent that no earlier event of the page mentions, this is the same as going call by
  call, and per call the view of the events is the change of the storage.
\<close>

section \<open>Agents\<close>

type_synonym agent_view = "int \<rightharpoonup> string \<times> string option \<times> string option"
type_synonym metadata_view = "int \<times> string \<rightharpoonup> string option"

definition agent_facts :: "agent_row \<Rightarrow> string \<times> string option \<times> string option" where
  "agent_facts r = (a_owner r, a_uri r, a_wallet r)"

definition table_agents :: "db \<Rightarrow> agent_view" where
  "table_agents d a = map_option agent_facts (map_of (agents d) a)"

definition table_metadata :: "db \<Rightarrow> metadata_view" where
  "table_metadata d = map_of (agent_metadata d)"

text \<open>The storage of the contract in the same form; \<open>dec\<close> is the text decoder of the indexer.\<close>

definition chain_agents :: "'n nft_base \<Rightarrow> 'n identity \<Rightarrow> agent_view" where
  "chain_agents N st i = (if i < 0 then None else map_option (\<lambda>owner.
     (owner, Some (case id_uri st (nat i) of Some uri \<Rightarrow> uri | None \<Rightarrow> []), id_wallet st (nat i))) (find_owner N st (nat i)))"

definition chain_metadata :: "(bytes \<Rightarrow> string) \<Rightarrow> 'n identity \<Rightarrow> metadata_view" where
  "chain_metadata dec st ik = (if fst ik < 0 then None else map_option (\<lambda>v. Some (dec v)) (id_metadata st (nat (fst ik), snd ik)))"

definition ledgers_upto :: "int \<Rightarrow> db \<Rightarrow> bool" where
  "ledgers_upto l d \<longleftrightarrow> (\<forall>a r. map_of (agents d) a = Some r \<longrightarrow> ledger_guard (a_uri_ledger r) l \<and> ledger_guard (a_transferred_ledger r) l)"

definition agents_mirrored :: "'n nft_base \<Rightarrow> (bytes \<Rightarrow> string) \<Rightarrow> 'n identity \<Rightarrow> int \<Rightarrow> db \<Rightarrow> bool" where
  "agents_mirrored N dec st l d \<longleftrightarrow> table_agents d = chain_agents N st \<and> table_metadata d = chain_metadata dec st \<and> ledgers_upto l d"

subsection \<open>What an event does to the view\<close>

fun view_event :: "parsed_event \<Rightarrow> agent_view \<times> metadata_view \<Rightarrow> agent_view \<times> metadata_view" where
  "view_event (Registered a owner uri b) (A, M) = (if A a = None then A(a \<mapsto> (owner, Some uri, None)) else A, M)"
| "view_event (UriUpdated a who uri b) (A, M) = (A(a := map_option (\<lambda>(owner, u, w). (owner, Some uri, w)) (A a)), M)"
| "view_event (MetadataSet a k v b) (A, M) = (A, M((a, k) \<mapsto> Some v))"
| "view_event (AgentWalletSet a w b) (A, M) = (A(a := map_option (\<lambda>(owner, u, w'). (owner, u, Some w)) (A a)), M)"
| "view_event (AgentWalletUnset a b) (A, M) = (A(a := map_option (\<lambda>(owner, u, w'). (owner, u, None)) (A a)), M)"
| "view_event (AgentTransferred a f t b) (A, M) =
     (A(a := map_option (\<lambda>(owner, u, w). (t, u, None)) (A a)), \<lambda>ik. if fst ik = a \<and> A a \<noteq> None then None else M ik)"
| "view_event e v = v"

definition table_view :: "db \<Rightarrow> agent_view \<times> metadata_view" where
  "table_view d = (table_agents d, table_metadata d)"

lemma update_view:
  assumes "update_row agent_check agents put_agents a guard f d = Inr (d', n)" "map_of (agents d) a = Some r"
  shows "table_agents d' = (if guard r then (table_agents d)(a \<mapsto> agent_facts (f r)) else table_agents d)"
    and "agent_metadata d' = agent_metadata d" and "n = (if guard r then 1 else 0)"
    and "map_of (agents d') = (if guard r then (map_of (agents d))(a \<mapsto> f r) else map_of (agents d))"
  using assms by (auto simp: update_row_def put_agents_def table_agents_def update_conv' fun_eq_iff split: if_splits)

lemma update_absent:
  "update_row agent_check agents put_agents a guard f d = Inr (d', n) \<Longrightarrow> map_of (agents d) a = None \<Longrightarrow> d' = d \<and> n = 0"
  by (auto simp: update_row_def)

lemma absent_view: "map_of (agents d) a = None \<longleftrightarrow> table_agents d a = None"
  by (simp add: table_agents_def)

lemma fun_upd_None: "A a = None \<Longrightarrow> A(a := None) = A"
  by (auto simp: fun_eq_iff)

lemma ledger_guard_mono: "ledger_guard c l \<Longrightarrow> l \<le> l' \<Longrightarrow> ledger_guard c l'"
  by (auto simp: ledger_guard_def split: option.splits)

lemma ledgers_upto_mono: "ledgers_upto l d \<Longrightarrow> l \<le> l' \<Longrightarrow> ledgers_upto l' d"
  using ledger_guard_mono by (fastforce simp: ledgers_upto_def)

lemma ledgers_upto_update:
  assumes "update_row agent_check agents put_agents a guard f d = Inr (d', n)" "ledgers_upto l d"
    and "\<And>r. ledger_guard (a_uri_ledger r) l \<Longrightarrow> ledger_guard (a_transferred_ledger r) l \<Longrightarrow>
      ledger_guard (a_uri_ledger (f r)) l \<and> ledger_guard (a_transferred_ledger (f r)) l"
  shows "ledgers_upto l d'"
  using assms by (auto simp: update_row_def put_agents_def ledgers_upto_def update_conv' split: option.splits if_splits)

text \<open>An update whose new row has the given facts.\<close>

lemma update_facts:
  assumes "update_row agent_check agents put_agents a guard f d = Inr (d', n)"
    and "\<And>r. map_of (agents d) a = Some r \<Longrightarrow> agent_facts (if guard r then f r else r) = g (agent_facts r)"
  shows "table_agents d' = (table_agents d)(a := map_option g (table_agents d a)) \<and> agent_metadata d' = agent_metadata d"
proof (cases "map_of (agents d) a")
  case None
  with update_absent [OF assms(1)] show ?thesis by (auto simp: fun_upd_None absent_view)
next
  case (Some r)
  have "table_agents d a = Some (agent_facts r)" using Some by (simp add: table_agents_def)
  with update_view [OF assms(1) Some] assms(2) [OF Some] show ?thesis by (auto simp: fun_eq_iff)
qed

lemma ledgers_cong: "agents d' = agents d \<Longrightarrow> ledgers_upto l d' = ledgers_upto l d"
  by (simp add: ledgers_upto_def)

lemma exec_view:
  assumes "eventStatement dp e now = Inr s" "exec_stmt clk s d = Inr (d', n)" "ledgers_upto l d" "event_contract e = Identity"
    and "is_registered e \<or> b_ledger (base e) = l"
  shows "table_view d' = view_event e (table_view d) \<and> ledgers_upto l d'"
proof (cases e)
  case (Registered a owner uri b)
  with assms show ?thesis
    by (auto simp: sbind_eq_Inr insert_row_def put_agents_def has_def table_view_def table_agents_def table_metadata_def agent_facts_def
        new_agent_def update_conv' ledgers_upto_def ledger_guard_def fun_eq_iff split: if_splits)
next
  case (UriUpdated a who uri b)
  with assms have up: "update_row agent_check agents put_agents a (uri_guard uri l) (set_uri uri l now) d = Inr (d', n)"
    by (auto simp: is_registered_def)
  have "agent_facts (if uri_guard uri l r then set_uri uri l now r else r) = (\<lambda>(owner, u, w). (owner, Some uri, w)) (agent_facts r)"
    if "map_of (agents d) a = Some r" for r
    using that assms(3) by (auto simp: agent_facts_def set_uri_def uri_guard_def ledgers_upto_def)
  from update_facts [OF up this] show ?thesis
    using ledgers_upto_update [OF up assms(3)] UriUpdated
    by (simp add: table_view_def table_metadata_def set_uri_def ledger_guard_def)
next
  case (MetadataSet a k v b)
  with assms show ?thesis
    by (auto simp: table_view_def table_agents_def table_metadata_def update_conv' ledgers_upto_def fun_eq_iff split: if_splits)
next
  case (AgentWalletSet a w b)
  with assms have up: "update_row agent_check agents put_agents a (\<lambda>_. True) (set_wallet (Some w) now) d = Inr (d', n)" by auto
  have "agent_facts (if True then set_wallet (Some w) now r else r) = (\<lambda>(owner, u, w'). (owner, u, Some w)) (agent_facts r)" for r
    by (simp add: agent_facts_def set_wallet_def)
  from update_facts [OF up this] show ?thesis
    using ledgers_upto_update [OF up assms(3)] AgentWalletSet by (simp add: table_view_def table_metadata_def set_wallet_def)
next
  case (AgentWalletUnset a b)
  with assms have up: "update_row agent_check agents put_agents a (\<lambda>_. True) (set_wallet None now) d = Inr (d', n)" by auto
  have "agent_facts (if True then set_wallet None now r else r) = (\<lambda>(owner, u, w'). (owner, u, None)) (agent_facts r)" for r
    by (simp add: agent_facts_def set_wallet_def)
  from update_facts [OF up this] show ?thesis
    using ledgers_upto_update [OF up assms(3)] AgentWalletUnset by (simp add: table_view_def table_metadata_def set_wallet_def)
next
  case (AgentTransferred a f t b)
  with assms obtain d1 where up: "update_row agent_check agents put_agents a (\<lambda>r. ledger_guard (a_transferred_ledger r) l) (set_owner t l now) d = Inr (d1, n)"
    and d': "d' = (if n = 0 then d1 else d1\<lparr>agent_metadata := filter (\<lambda>kv. fst (fst kv) \<noteq> a) (agent_metadata d1)\<rparr>)"
    by (auto simp: sbind_eq_Inr is_registered_def)
  have pass: "map_of (agents d) a = Some r \<Longrightarrow> ledger_guard (a_transferred_ledger r) l" for r using assms(3) by (simp add: ledgers_upto_def)
  have "agent_facts (if ledger_guard (a_transferred_ledger r) l then set_owner t l now r else r) = (\<lambda>(owner, u, w). (t, u, None)) (agent_facts r)"
    if "map_of (agents d) a = Some r" for r using pass [OF that] by (simp add: agent_facts_def set_owner_def)
  note facts = update_facts [OF up this]
  have n: "n = 0 \<longleftrightarrow> table_agents d a = None"
    using update_absent [OF up] update_view(3) [OF up] pass by (cases "map_of (agents d) a") (auto simp: table_agents_def)
  have "ledgers_upto l d1" using ledgers_upto_update [OF up assms(3)] by (simp add: set_owner_def ledger_guard_def)
  then have "ledgers_upto l d'" using ledgers_cong [of d' d1] by (simp add: d')
  moreover have "table_agents d' = table_agents d1" by (simp add: d' table_agents_def fun_eq_iff)
  moreover have "table_metadata d' = (\<lambda>ik. if fst ik = a \<and> table_agents d a \<noteq> None then None else table_metadata d ik)"
    using facts n by (auto simp: d' table_metadata_def map_of_filter_fst [where P = "\<lambda>k. fst k \<noteq> a"] fun_eq_iff)
  ultimately show ?thesis using facts AgentTransferred by (simp add: table_view_def)
qed (use assms(4) in auto)

subsection \<open>Writing a page\<close>

fun ledger_ok :: "int \<Rightarrow> parsed_event list \<Rightarrow> bool" where
  "ledger_ok l [] \<longleftrightarrow> True"
| "ledger_ok l (e # es) \<longleftrightarrow> (if is_registered e then ledger_ok l es else l \<le> b_ledger (base e) \<and> ledger_ok (b_ledger (base e)) es)"

lemma run_view:
  assumes "smap (\<lambda>p. eventStatement dp (pk_data p) now) (ps :: event_packet list) = Inr (map snd css)" "run_seq css d = Inr d'"
    and "ledger_ok l (map pk_data ps)" "\<forall>p \<in> set ps. event_contract (pk_data p) = Identity \<and> b_ledger (base (pk_data p)) \<le> l'"
    and "ledgers_upto l d" "l \<le> l'"
  shows "table_view d' = fold view_event (map pk_data ps) (table_view d) \<and> ledgers_upto l' d'"
proof -
  define I where "I ps d \<longleftrightarrow> (\<exists>l0 \<le> l'. ledger_ok l0 (map pk_data ps) \<and> ledgers_upto l0 d \<and>
      (\<forall>p \<in> set ps. event_contract (pk_data p) = Identity \<and> b_ledger (base (pk_data p)) \<le> l'))" for ps :: "event_packet list" and d
  have "I ps d" using assms by (auto simp: I_def)
  have step: "I ps d1 \<and> table_view d1 = view_event (pk_data p) (table_view d)"
    if start: "I (p # ps) d" and s: "eventStatement dp (pk_data p) now = Inr s" "exec_stmt clk s d = Inr (d1, n)" for p ps d s clk d1 n
  proof -
    obtain l0 where l0: "l0 \<le> l'" "ledger_ok l0 (map pk_data (p # ps))" "ledgers_upto l0 d"
        "\<forall>q \<in> set (p # ps). event_contract (pk_data q) = Identity \<and> b_ledger (base (pk_data q)) \<le> l'"
      using start by (auto simp: I_def)
    define l1 where "l1 = (if is_registered (pk_data p) then l0 else b_ledger (base (pk_data p)))"
    have l1: "l0 \<le> l1" "l1 \<le> l'" "ledger_ok l1 (map pk_data ps)" using l0 by (auto simp: l1_def split: if_splits)
    have "table_view d1 = view_event (pk_data p) (table_view d) \<and> ledgers_upto l1 d1"
      using exec_view [OF s ledgers_upto_mono [OF l0(3) l1(1)]] l0(4) by (auto simp: l1_def)
    with l1 l0(4) show ?thesis by (auto simp: I_def)
  qed
  have "I [] d' \<and> table_view d' = fold view_event (map pk_data ps) (table_view d)"
    by (rule run_fold [where I = I, OF assms(1,2) \<open>I ps d\<close>]) (rule step)
  then show ?thesis using ledgers_upto_mono by (auto simp: I_def)
qed

lemma ledger_ok_regs: "\<forall>e \<in> set rs. is_registered e \<Longrightarrow> ledger_ok l (rs @ es) = ledger_ok l es"
  by (induction rs) auto

lemma ledger_ok_sorted:
  "sorted (map (\<lambda>e. b_ledger (base e)) es) \<Longrightarrow> \<forall>e \<in> set es. l \<le> b_ledger (base e) \<Longrightarrow> ledger_ok l (filter (\<lambda>e. \<not> is_registered e) es)"
proof (induction es arbitrary: l)
  case (Cons e es)
  then show ?case by (cases "is_registered e") auto
qed simp

lemma ledger_ok_regs_first:
  "sorted (map (\<lambda>e. b_ledger (base e)) es) \<Longrightarrow> \<forall>e \<in> set es. l \<le> b_ledger (base e) \<Longrightarrow> ledger_ok l (regs_first es)"
  unfolding regs_first_def by (subst ledger_ok_regs) (auto intro: ledger_ok_sorted)

subsection \<open>Going call by call\<close>

lemma fold_commute_lists:
  assumes "\<forall>x \<in> set xs. \<forall>y \<in> set ys. \<forall>s. f x (f y s) = f y (f x s)"
  shows "fold f ys (fold f xs s) = fold f xs (fold f ys s)"
proof -
  have one: "f y (fold f xs s) = fold f xs (f y s)" if "\<forall>x \<in> set xs. \<forall>s. f x (f y s) = f y (f x s)" for y s
    using that by (induction xs arbitrary: s) auto
  from assms show ?thesis
  proof (induction ys arbitrary: s)
    case (Cons y ys)
    have "fold f ys (fold f xs (f y s)) = fold f xs (fold f ys (f y s))" using Cons.prems by (intro Cons.IH) auto
    then show ?case using one [of y s] Cons.prems by simp
  qed simp
qed

lemma registered_commutes:
  assumes "is_registered e" "agentId e \<noteq> agentId x" "event_contract x = Identity"
  shows "view_event x (view_event e v) = view_event e (view_event x v)"
proof -
  obtain a owner uri b where e: "e = Registered a owner uri b" using assms(1) by (cases e) (auto simp: is_registered_def)
  show ?thesis using assms(2,3) e by (cases v; cases x) (auto simp: fun_eq_iff)
qed

lemma regs_first_append:
  assumes "\<forall>x \<in> set xs. \<forall>y \<in> set ys. event_contract x = Identity \<and> (is_registered y \<longrightarrow> agentId y \<noteq> agentId x)"
  shows "fold view_event (regs_first (xs @ ys)) v = fold view_event (regs_first ys) (fold view_event (regs_first xs) v)"
proof -
  let ?r = "filter is_registered" and ?o = "filter (\<lambda>e. \<not> is_registered e)"
  have "fold view_event (?r ys) (fold view_event (?o xs) w) = fold view_event (?o xs) (fold view_event (?r ys) w)" for w
    using assms by (intro fold_commute_lists) (auto intro: registered_commutes)
  then show ?thesis by (simp add: regs_first_def)
qed

interpretation agent_events: event_view view_event
proof
  fix dec b eid ce e x
  assume "read_as dec b eid ce = Some e" "read_as dec nowhere [] ce = Some x"
  then show "view_event e = view_event x" by (cases ce) (auto simp: fun_eq_iff)
qed

subsection \<open>What a call does to the storage\<close>

definition chain_view :: "'n nft_base \<Rightarrow> (bytes \<Rightarrow> string) \<Rightarrow> 'n identity \<Rightarrow> agent_view \<times> metadata_view" where
  "chain_view N dec st = (chain_agents N st, chain_metadata dec st)"

lemma chain_agents_int: "chain_agents N st (int a) = map_option (\<lambda>owner. (owner, Some (case id_uri st a of Some uri \<Rightarrow> uri | None \<Rightarrow> []), id_wallet st a)) (find_owner N st a)"
  by (simp add: chain_agents_def)

lemma chain_agents_upd:
  assumes "\<And>b. b \<noteq> a \<Longrightarrow> find_owner N st' b = find_owner N st b \<and> id_uri st' b = id_uri st b \<and> id_wallet st' b = id_wallet st b"
  shows "chain_agents N st' = (chain_agents N st)(int a := chain_agents N st' (int a))"
  using assms by (auto simp: chain_agents_def fun_eq_iff)

lemma chain_metadata_same: "id_metadata st' = id_metadata st \<Longrightarrow> chain_metadata dec st' = chain_metadata dec st"
  by (simp add: chain_metadata_def fun_eq_iff)

lemma chain_metadata_store: "chain_metadata dec (store_metadata a k v st) = (chain_metadata dec st)((int a, k) \<mapsto> Some (dec v))"
  by (auto simp: chain_metadata_def fun_eq_iff store_simps)

lemma chain_agents_same: "id_nft st' = id_nft st \<Longrightarrow> id_uri st' = id_uri st \<Longrightarrow> id_wallet st' = id_wallet st \<Longrightarrow> chain_agents N st' = chain_agents N st"
  by (simp add: chain_agents_def find_owner_def fun_eq_iff)

lemma metadata_events:
  "\<forall>(k, v) \<in> set kvs. k \<noteq> agent_wallet_key \<Longrightarrow>
     fold view_event (bare dec (map (\<lambda>(k, v). Ev_MetadataSet a k v) kvs)) (A, chain_metadata dec st) =
       (A, chain_metadata dec (fold (\<lambda>(k, v). store_metadata a k v) kvs st))"
proof (induction kvs arbitrary: st)
  case (Cons kv kvs)
  obtain k v where "kv = (k, v)" by (cases kv)
  with Cons.IH [of "store_metadata a k v st"] Cons.prems show ?case by (simp add: chain_metadata_store fun_upd_def)
qed simp

lemma metadata_events_plain: "\<forall>(k, v) \<in> set kvs. k \<noteq> agent_wallet_key \<Longrightarrow>
    filter is_registered (bare dec (map (\<lambda>(k, v). Ev_MetadataSet a k v) kvs)) = [] \<and>
    filter (\<lambda>e. \<not> is_registered e) (bare dec (map (\<lambda>(k, v). Ev_MetadataSet a k v) kvs)) = bare dec (map (\<lambda>(k, v). Ev_MetadataSet a k v) kvs)"
  by (induction kvs) (auto simp: is_registered_def)

lemma register_view:
  assumes inv: "identity_inv N st" and a: "a = total_agents N st" "nb_owner N n = (nb_owner N (id_nft st))(a \<mapsto> c)"
    and st1: "st1 = (case uri of None \<Rightarrow> st\<lparr>id_nft := n\<rparr> | Some u \<Rightarrow> store_agent_uri a u (st\<lparr>id_nft := n\<rparr>))"
    and kvs: "list_all entry_ok kvs" and minted: "base_only minted" and dec: "dec (ascii c) = c" "ascii c \<noteq> []"
  shows "fold view_event (regs_first (bare dec (minted @ Ev_MetadataSet a agent_wallet_key (ascii c) # map (\<lambda>(k, v). Ev_MetadataSet a k v) kvs @
      [Ev_Registered a c (case uri of None \<Rightarrow> [] | Some u \<Rightarrow> u)]))) (chain_view N dec st) =
    chain_view N dec (fold (\<lambda>(k, v). store_metadata a k v) kvs (store_agent_wallet a c st1))" (is "_ = chain_view N dec ?st")
proof -
  let ?uri = "case uri of None \<Rightarrow> [] | Some u \<Rightarrow> u"
  have keys: "\<forall>(k, v) \<in> set kvs. k \<noteq> agent_wallet_key" using kvs by (auto simp: list_all_iff entry_ok_def)
  have fresh: "find_owner N st a = None" "id_uri st a = None"
    using inv a(1) by (auto simp: identity_inv_def owners_inv_def agent_exists_def)
  have new: "find_owner N ?st = (find_owner N st)(a \<mapsto> c)"
    using a(2) by (auto simp: find_owner_def fun_eq_iff st1 store_simps split: option.split)
  have other: "b \<noteq> a \<Longrightarrow> id_uri ?st b = id_uri st b \<and> id_wallet ?st b = id_wallet st b" for b
    by (auto simp: st1 store_simps split: option.split)
  have own: "chain_agents N ?st (int a) = Some (c, Some ?uri, Some c)"
    using fresh(2) by (auto simp: chain_agents_int new) (auto simp: st1 store_simps split: option.split)
  have agents: "chain_agents N ?st = (chain_agents N st)(int a \<mapsto> (c, Some ?uri, Some c))"
    using chain_agents_upd [of a N ?st st] new other own by simp
  have "id_metadata (store_agent_wallet a c st1) = id_metadata st" by (simp add: st1 store_simps split: option.split)
  then have meta: "chain_metadata dec (store_agent_wallet a c st1) = chain_metadata dec st" by (rule chain_metadata_same)
  have "chain_agents N st (int a) = None" using fresh(1) by (simp add: chain_agents_int)
  then show ?thesis
    using metadata_events_plain [OF keys, of dec a] metadata_events [OF keys, of dec a _ "store_agent_wallet a c st1"] dec
    by (simp add: regs_first_def bare_base [OF minted] is_registered_def chain_view_def agents meta)
qed

lemma call_view:
  assumes spec: "identity_spec N e st st' evs" and inv: "identity_inv N st" and auth: "strkey_auth e"
    and dec: "\<And>w. isValidStellarAddress w \<Longrightarrow> dec (ascii w) = w"
  shows "fold view_event (regs_first (bare dec evs)) (chain_view N dec st) = chain_view N dec st'"
  using spec
proof cases
  case (spec_register c a n minted kvs st1 uri)
  then have "isValidStellarAddress c" using auth by (simp add: strkey_auth_def)
  with register_view [OF inv spec_register(4,7,12,11,8)] dec ascii_not_Nil show ?thesis by (simp add: spec_register(1,2))
next
  case (spec_uri c a uri)
  have "chain_agents N st' = (chain_agents N st)(int a := chain_agents N st' (int a))"
    by (rule chain_agents_upd) (simp add: spec_uri(1) find_owner_def store_simps)
  moreover have "chain_agents N st' (int a) = map_option (\<lambda>(owner, u, w). (owner, Some uri, w)) (chain_agents N st (int a))"
    by (simp add: chain_agents_int spec_uri(1) find_owner_def store_simps option.map_comp comp_def)
  moreover have "chain_metadata dec st' = chain_metadata dec st" by (rule chain_metadata_same) (simp add: spec_uri(1) store_simps)
  ultimately show ?thesis by (simp add: spec_uri(2) regs_first_def is_registered_def chain_view_def)
next
  case (spec_metadata c a k v)
  have "chain_agents N st' = chain_agents N st" by (rule chain_agents_same) (simp_all add: spec_metadata(1) store_simps)
  then show ?thesis
    using spec_metadata(5) by (simp add: spec_metadata(1,2) regs_first_def is_registered_def chain_view_def chain_metadata_store entry_ok_def)
next
  case (spec_wallet c w a)
  have "isValidStellarAddress w" using spec_wallet(4) auth by (simp add: strkey_auth_def)
  moreover have "chain_agents N st' = (chain_agents N st)(int a := chain_agents N st' (int a))"
    by (rule chain_agents_upd) (simp add: spec_wallet(1) find_owner_def store_simps)
  moreover have "chain_agents N st' (int a) = map_option (\<lambda>(owner, u, w'). (owner, u, Some w)) (chain_agents N st (int a))"
    by (simp add: chain_agents_int spec_wallet(1) find_owner_def store_simps option.map_comp comp_def)
  moreover have "chain_metadata dec st' = chain_metadata dec st" by (rule chain_metadata_same) (simp add: spec_wallet(1) store_simps)
  ultimately show ?thesis using dec ascii_not_Nil by (simp add: spec_wallet(2) regs_first_def is_registered_def chain_view_def)
next
  case (spec_unset c a)
  have "chain_agents N st' = (chain_agents N st)(int a := chain_agents N st' (int a))"
    by (rule chain_agents_upd) (simp add: spec_unset(1) find_owner_def store_simps)
  moreover have "chain_agents N st' (int a) = map_option (\<lambda>(owner, u, w'). (owner, u, None)) (chain_agents N st (int a))"
    by (simp add: chain_agents_int spec_unset(1) find_owner_def store_simps option.map_comp comp_def)
  moreover have "chain_metadata dec st' = chain_metadata dec st" by (rule chain_metadata_same) (simp add: spec_unset(1) store_simps)
  ultimately show ?thesis by (simp add: spec_unset(2) regs_first_def is_registered_def chain_view_def)
next
  case (spec_transfer c a n from' to)
  have mv: "nb_owner N n = (nb_owner N (id_nft st))(a \<mapsto> to)" "find_owner N st a = Some from'" using spec_transfer(5) by (auto simp: moved_def find_owner_def)
  have "chain_agents N st' = (chain_agents N st)(int a := chain_agents N st' (int a))"
    by (rule chain_agents_upd) (simp add: spec_transfer(1) find_owner_def store_simps mv)
  moreover have "chain_agents N st' (int a) = Some (to, Some (case id_uri st a of Some uri \<Rightarrow> uri | None \<Rightarrow> []), None)"
    by (simp add: chain_agents_int spec_transfer(1) find_owner_def store_simps mv)
  moreover have "chain_agents N st (int a) = Some (from', Some (case id_uri st a of Some uri \<Rightarrow> uri | None \<Rightarrow> []), id_wallet st a)"
    by (simp add: chain_agents_int mv(2))
  moreover have "k \<notin> set (keys_of st a) \<Longrightarrow> id_metadata st (a, k) = None" for k using inv by (metis identity_inv_def metadata_inv_def)
  then have "chain_metadata dec st' = (\<lambda>ik. if fst ik = int a then None else chain_metadata dec st ik)"
    by (auto simp: chain_metadata_def spec_transfer(1) store_simps fun_eq_iff)
  ultimately show ?thesis by (simp add: spec_transfer(2) regs_first_def is_registered_def chain_view_def)
next
  case (spec_approval n)
  have "chain_agents N st' = chain_agents N st"
    using spec_approval(2) by (simp add: spec_approval(1) chain_agents_def find_owner_def same_owners_def fun_eq_iff)
  moreover have "chain_metadata dec st' = chain_metadata dec st" by (rule chain_metadata_same) (simp add: spec_approval(1))
  ultimately show ?thesis using bare_base [OF spec_approval(3)] by (simp add: regs_first_def chain_view_def)
next
  case (spec_upgrade u s)
  have "chain_agents N st' = chain_agents N st" by (rule chain_agents_same) (simp_all add: spec_upgrade(1))
  moreover have "chain_metadata dec st' = chain_metadata dec st" by (rule chain_metadata_same) (simp add: spec_upgrade(1))
  ultimately show ?thesis by (simp add: spec_upgrade(2) regs_first_def chain_view_def)
qed

subsection \<open>Histories\<close>

definition history_events :: "identity_history \<Rightarrow> contract_event list" where
  "history_events h = concat (map (\<lambda>(e, c, evs). evs) h)"

lemma history_events_simps [simp]: "history_events [] = []" "history_events (h @ [(e, c, evs)]) = history_events h @ evs"
  by (simp_all add: history_events_def)

lemma metadata_event_ids:
  "x \<in> set (bare dec (map (\<lambda>(k, v). Ev_MetadataSet a k v) kvs)) \<Longrightarrow> event_contract x = Identity \<and> agentId x = int a \<and> \<not> is_registered x"
  by (induction kvs) (auto simp: is_registered_def split: if_splits)

text \<open>Every event of a call concerns an agent the registry has afterwards, a registration one it did not have before.\<close>

lemma call_ids:
  assumes spec: "identity_spec N e st st' evs" and inv: "identity_inv N st" and x: "x \<in> set (bare dec evs)"
  shows "event_contract x = Identity \<and> agentId x < int (total_agents N st') \<and>
    (is_registered x \<longrightarrow> agentId x = int (total_agents N st))"
proof -
  have ids: "may_change N e st c a \<Longrightarrow> a < total_agents N st" for c a
    using may_change_exists [of N e st c a] inv by (auto simp: identity_inv_def owners_inv_def)
  show ?thesis using spec
  proof cases
    case (spec_register c a n minted kvs st1 uri)
    have "total_agents N st' = a + 1"
      by (simp add: spec_register(1,6,12) total_agents_def store_simps split: option.split)
    then show ?thesis
      using x metadata_event_ids [of x dec a kvs] spec_register(4)
      by (auto simp: spec_register(2) bare_base [OF spec_register(8)] is_registered_def split: if_splits)
  next
    case (spec_transfer c a n from' to)
    then have "total_agents N st' = total_agents N st" by (simp add: total_agents_def moved_def)
    with x ids [OF spec_transfer(4)] show ?thesis by (auto simp: spec_transfer(2) is_registered_def)
  qed (use x ids in \<open>auto simp: total_agents_def store_simps bare_base is_registered_def split: if_splits\<close>)
qed

lemma spec_total: "identity_spec N e st st' evs \<Longrightarrow> total_agents N st \<le> total_agents N st'"
  by (cases rule: identity_spec.cases) (auto simp: total_agents_def store_simps moved_def same_owners_def split: option.split)

lemma history_view:
  assumes "identity_run N st0 h st" "nft_laws N" "identity_inv N st0" "\<forall>(e, c, evs) \<in> set h. strkey_auth e"
    and dec: "\<And>w. isValidStellarAddress w \<Longrightarrow> dec (ascii w) = w"
  shows "fold view_event (regs_first (bare dec (history_events h))) (chain_view N dec st0) = chain_view N dec st \<and>
    (\<forall>x \<in> set (bare dec (history_events h)). event_contract x = Identity \<and> agentId x < int (total_agents N st))"
  using assms(1,4)
proof (induction rule: identity_run.induct)
  case identity_start
  then show ?case by (simp add: regs_first_def)
next
  case (identity_next h st1 e c st2 evs)
  then have IH: "fold view_event (regs_first (bare dec (history_events h))) (chain_view N dec st0) = chain_view N dec st1"
      "\<forall>x \<in> set (bare dec (history_events h)). event_contract x = Identity \<and> agentId x < int (total_agents N st1)" and auth: "strkey_auth e"
    by auto
  have spec: "identity_spec N e st1 st2 evs" by (rule exec_identity_spec [OF assms(2) identity_next(2)])
  have inv: "identity_inv N st1" by (rule identity_run_inv [OF identity_next(1) assms(2,3)])
  note ids = call_ids [OF spec inv, where dec = dec]
  have more: "total_agents N st1 \<le> total_agents N st2" by (rule spec_total [OF spec])
  have "fold view_event (regs_first (bare dec (history_events h) @ bare dec evs)) (chain_view N dec st0) = chain_view N dec st2"
    using IH ids by (subst regs_first_append) (force simp: call_view [OF spec inv auth dec])+
  then show ?case using IH(2) ids more by fastforce
qed

subsection \<open>Writing the events of a history\<close>

lemma core_views: "table_view (core d) = table_view d" "ledgers_upto l (core d) = ledgers_upto l d"
  by (simp_all add: table_view_def table_agents_def table_metadata_def ledgers_upto_def fun_eq_iff)

lemma history_checked:
  assumes "identity_run N st0 h st" "nft_laws N" "\<forall>(e, c, evs) \<in> set h. strkey_auth e"
  shows "list_all event_checked (history_events h) \<and> (\<forall>ce \<in> set (history_events h). published_by ce = Identity)"
  using assms(1,3)
proof (induction rule: identity_run.induct)
  case (identity_next h st1 e c st2 evs)
  then show ?case using identity_checked [OF exec_identity_spec [OF assms(2) identity_next(2)]] by auto
qed simp

text \<open>C2. The indexer's tables are the registry's storage. Start with an identity registry that calls have reached from its constructor and with
  tables that mirror it: the same agents with the same owner, URI and wallet, and the same metadata entries, under the ledger \<open>l\<close>.
  Let any further calls succeed. If the server delivers the events they published, in ledger order, and \<open>writeEvents\<close> writes the page without deferring, then
  the tables mirror the registry again: whatever the calls were - registrations, URI and metadata updates, wallets set and unset, transfers,
  approvals, upgrades - and in spite of the registrations being written first.\<close>

theorem identity_indexed:
  assumes "nft_laws N" "identity_run N (new_identity N name symbol) h0 st0" "identity_run N st0 h st" "\<forall>(e, c, evs) \<in> set h. strkey_auth e"
    and "list_all2 (carries sdk) (history_events h) evs" "list_all event_typed (history_events h)" "utf8_codec sdk enc"
    and "sorted (map ev_ledger evs)" "\<forall>ev \<in> set evs. l \<le> ev_ledger ev \<and> ev_ledger ev \<le> l'" "l \<le> l'"
    and "infra_faults env" "writeEvents env sdk Identity evs False w = (Inr (p, s, False), w')"
    and "agents_mirrored N (utf8_decode sdk) st0 l (w_db w)"
  shows "agents_mirrored N (utf8_decode sdk) st l' (w_db w')"
proof -
  let ?dec = "utf8_decode sdk" and ?ces = "history_events h"
  let ?ps = "read_page sdk ?ces evs"
  have inv: "identity_inv N st0" by (rule identity_run_inv [OF assms(2,1) new_identity_inv [OF assms(1)]])
  note checked = history_checked [OF assms(3,1,4)]
  have fits: "list_all event_fits ?ces" using checked assms(6) by (simp add: event_fits_def list_all_iff)
  have len: "length ?ces = length evs" using assms(5) by (rule list_all2_lengthD)
  obtain now css where css: "smap (\<lambda>p. eventStatement (e_date env) (pk_data p) now) (parentsFirst ?ps) = Inr (map snd css)"
      "run_seq css (core (w_db w)) = Inr (core (w_db w'))"
    using page_written [OF assms(11,12,5) fits] checked assms(7) by blast
  note led = read_page_ledgers [OF len assms(8), where sdk = sdk]
  have ok: "ledger_ok l (map pk_data (parentsFirst ?ps))"
    unfolding parentsFirst_data
  proof (rule ledger_ok_regs_first)
    show "sorted (map (\<lambda>e. b_ledger (base e)) (map pk_data ?ps))" using led by (simp add: comp_def)
    show "\<forall>e \<in> set (map pk_data ?ps). l \<le> b_ledger (base e)" using led assms(9) by fastforce
  qed
  have pages: "\<forall>p \<in> set (parentsFirst ?ps). event_contract (pk_data p) = Identity \<and> b_ledger (base (pk_data p)) \<le> l'"
    using read_page_contract [of ?ces Identity _ sdk evs] checked led assms(9) by (force simp: parentsFirst_set)
  have start: "table_view (core (w_db w)) = chain_view N ?dec st0" "ledgers_upto l (core (w_db w))"
    using assms(13) by (simp_all add: core_views agents_mirrored_def chain_view_def) (simp add: table_view_def)
  have dec: "isValidStellarAddress v \<Longrightarrow> ?dec (ascii v) = v" for v using assms(7) by (metis utf8_codec_def)
  have "table_view (core (w_db w')) = fold view_event (regs_first (map pk_data ?ps)) (chain_view N ?dec st0) \<and> ledgers_upto l' (core (w_db w'))"
    using run_view [OF css ok pages start(2) assms(10)] by (simp add: start(1) parentsFirst_data)
  moreover have "fold view_event (regs_first (map pk_data ?ps)) v = fold view_event (regs_first (bare ?dec ?ces)) v" for v
    by (rule agent_events.page_fold [OF len])
  moreover have "fold view_event (regs_first (bare ?dec ?ces)) (chain_view N ?dec st0) = chain_view N ?dec st"
    using history_view [OF assms(3,1) inv assms(4) dec] by blast
  ultimately show ?thesis by (simp add: agents_mirrored_def core_views chain_view_def) (simp add: table_view_def)
qed

text \<open>An example: a registration with a metadata entry, its events as a server delivers them.\<close>

definition first_events :: "contract_event list" where
  "first_events = [Ev_Base ''mint'', Ev_MetadataSet 0 agent_wallet_key (ascii sample_validator), Ev_MetadataSet 0 ''k'' [7], Ev_Registered 0 sample_validator ''u'']"

definition first_identity :: "((nat \<rightharpoonup> Address) \<times> nat) identity" where
  "first_identity = (new_identity plain_nft [] [])\<lparr>id_nft := ([0 \<mapsto> sample_validator], 1), id_uri := [0 \<mapsto> ''u''], id_wallet := [0 \<mapsto> sample_validator],
     id_metadata := [(0, ''k'') \<mapsto> [7]], id_keys := [0 \<mapsto> [''k'']]\<rparr>"

lemma first_run: "identity_run plain_nft (new_identity plain_nft [] [])
    [(signed_call, Call_register_full sample_validator ''u'' [(''k'', [7])], first_events)] first_identity"
proof -
  have "length sample_validator \<le> 56" using valid_address_short by simp
  then have "exec_identity plain_nft signed_call (Call_register_full sample_validator ''u'' [(''k'', [7])]) (new_identity plain_nft [] []) =
      Inr (first_identity, first_events)"
    by (simp add: register_full_def sequential_mint_def init_agent_wallet_def check_entry_def plain_nft_def signed_call_def new_identity_def first_events_def
        require_auth_def demand_def panics_def address_to_strkey_bytes_def MAX_METADATA_KEYS_def MAX_METADATA_KEY_LEN_def MAX_METADATA_VALUE_LEN_def
        agent_wallet_key_def store_agent_uri_def store_agent_wallet_def store_metadata_def record_metadata_key_def keys_of_def first_identity_def)
  from identity_next [OF identity_start this] show ?thesis by simp
qed

lemma first_written:
  obtains w' p s where "writeEvents timed_env native_sdk Identity (map delivered first_events) False (sample_world (sample_db None)) = (Inr (p, s, False), w')"
proof -
  note read = published_event_read [OF delivered_carries _ native_codec]
  have "interpret_contract native_sdk Identity (delivered (Ev_Base ''mint'')) \<in> range Ignored" 
    using read [of "Ev_Base ''mint''"] by (auto simp: event_fits_def event_typed_def base_names_def)
  then obtain why where 1: "interpret_contract native_sdk Identity (delivered (Ev_Base ''mint'')) = Ignored why" by auto
  have "event_fits (Ev_MetadataSet 0 agent_wallet_key (ascii sample_validator))"
    by (auto simp: event_fits_def event_typed_def intro: exI [of _ sample_validator])
  moreover have "utf8_decode native_sdk (ascii sample_validator) = sample_validator"
    using decode_byte_text [of sample_validator] by (simp add: ascii_def byte_text_def)
  ultimately have 2: "interpret_contract native_sdk Identity (delivered (Ev_MetadataSet 0 agent_wallet_key (ascii sample_validator))) =
      Parsed (AgentWalletSet 0 sample_validator (event_base sample_event))"
    using read [of "Ev_MetadataSet 0 agent_wallet_key (ascii sample_validator)"] ascii_not_Nil [OF sample_validator_valid]
    by (simp add: delivered_def event_base_def)
  have 3: "interpret_contract native_sdk Identity (delivered (Ev_MetadataSet 0 ''k'' [7])) =
      Parsed (MetadataSet 0 ''k'' [char_of (7 :: nat)] (event_base sample_event))"
    using read [of "Ev_MetadataSet 0 ''k'' [7]"]
    by (auto simp: event_fits_def event_typed_def delivered_def event_base_def agent_wallet_key_def native_sdk_def)
  have 4: "interpret_contract native_sdk Identity (delivered (Ev_Registered 0 sample_validator ''u'')) =
      Parsed (Registered 0 sample_validator ''u'' (event_base sample_event))"
    using read [of "Ev_Registered 0 sample_validator ''u''"]
    by (auto simp: event_fits_def event_typed_def delivered_def event_base_def)
  define b where "b = event_base sample_event"
  define p1 where "p1 = \<lparr>pk_id = ev_id sample_event, pk_contract = Identity, pk_data = AgentWalletSet 0 sample_validator b\<rparr>"
  define p2 where "p2 = \<lparr>pk_id = ev_id sample_event, pk_contract = Identity, pk_data = MetadataSet 0 ''k'' [char_of (7 :: nat)] b\<rparr>"
  define p3 where "p3 = \<lparr>pk_id = ev_id sample_event, pk_contract = Identity, pk_data = Registered 0 sample_validator ''u'' b\<rparr>"
  have id: "ev_id (delivered ce) = ev_id sample_event" for ce by (simp add: delivered_def)
  have read: "interpret_events timed_env native_sdk Identity (map delivered first_events) w = (Inr ([p1, p2, p3], 0), w)" for w
    by (simp add: first_events_def 1 2 3 4 act_defs id p1_def p2_def p3_def b_def)
  have order: "parentsFirst [p1, p2, p3] = [p3, p1, p2]" by (simp add: parentsFirst_def is_registered_def p1_def p2_def p3_def)
  have cap: "text_cap sample_validator" using valid_address_short [OF sample_validator_valid] by (simp add: text_cap_def)
  obtain closed where closed: "pgTime (e_date timed_env) (b_closedAt b) = Inr closed"
    by (cases "pgTime (e_date timed_env) (b_closedAt b)") (auto simp: pgTime_def timed_env_def split: if_splits)
  have batch: "\<exists>d'. run_batch (exec_stmt clk) [Sql_registered 0 sample_validator ''u'' True closed (b_ledger b) (b_txHash b),
      Sql_walletSet (Some sample_validator) now 0, Sql_metadataSet 0 ''k'' [char_of (7 :: nat)]] (sample_db None) = Inr (d', [1, 1, 1])" for clk now
    using cap by (simp add: insert_row_def update_row_def has_def put_agents_def sample_db_def agent_check_def new_agent_def set_wallet_def)
  have chunk: "\<exists>p s w'. write_chunk timed_env Identity False now [p3, p1, p2] 0 k w = (Inr (p, s, False), w')"
    if "w_db w = sample_db None" for now k w
  proof -
    have "\<exists>w'. db_batch timed_env [Sql_registered 0 sample_validator ''u'' True closed (b_ledger b) (b_txHash b),
        Sql_walletSet (Some sample_validator) now 0, Sql_metadataSet 0 ''k'' [char_of (7 :: nat)]] w = (Inr [1, 1, 1], w')"
      using batch [of "e_clk timed_env (w_tick w)" now] that by (auto simp: db_batch_def db_call_def timed_env_def sample_env_def)
    then show ?thesis by (auto simp: write_chunk_def p1_def p2_def p3_def closed act_defs recordMissingParents_def List.map_filter_def)
  qed
  have "\<exists>p s w'. write_chunks timed_env Identity False now [p3, p1, p2] 0 k w = (Inr (p, s, False), w')"
    if "w_db w = sample_db None" for now k w
    using chunk [OF that, of now k] by (subst write_chunks.simps, subst write_chunks.simps) (auto simp: act_defs BATCH_LIMIT_def)
  then have "\<exists>p s w'. writeEvents timed_env native_sdk Identity (map delivered first_events) False (sample_world (sample_db None)) = (Inr (p, s, False), w')"
    by (simp add: writeEvents_def act_defs read order date_now_def sample_world_def tick_def)
  then show ?thesis using that by blast
qed

lemma first_mirrored: "agents_mirrored plain_nft dec (new_identity plain_nft [] []) 5 (sample_db None)"
  by (simp add: agents_mirrored_def table_agents_def table_metadata_def chain_agents_def chain_metadata_def ledgers_upto_def sample_db_def
      new_identity_def find_owner_def plain_nft_def fun_eq_iff)

theorem identity_indexed_witness:
  "\<exists>w' p s. writeEvents timed_env native_sdk Identity (map delivered first_events) False (sample_world (sample_db None)) = (Inr (p, s, False), w') \<and>
     agents_mirrored plain_nft (utf8_decode native_sdk) first_identity 5 (w_db w') \<and>
     table_agents (w_db w') 0 = Some (sample_validator, Some ''u'', Some sample_validator)"
proof -
  obtain w' p s where run: "writeEvents timed_env native_sdk Identity (map delivered first_events) False (sample_world (sample_db None)) = (Inr (p, s, False), w')"
    by (rule first_written)
  let ?h = "[(signed_call, Call_register_full sample_validator ''u'' [(''k'', [7])], first_events)]"
  have h: "history_events ?h = first_events" by (simp add: history_events_def)
  have auth: "\<forall>(e, c, evs) \<in> set ?h. strkey_auth e" by (simp add: strkey_auth_def signed_call_def)
  have typed: "list_all event_typed (history_events ?h)" unfolding h by (simp add: first_events_def event_typed_def)
  have page: "sorted (map ev_ledger (map delivered first_events))" "\<forall>ev \<in> set (map delivered first_events). 5 \<le> ev_ledger ev \<and> ev_ledger ev \<le> 5"
    by (simp_all add: first_events_def delivered_def sample_event_def)
  have "infra_faults timed_env" by (simp add: infra_faults_def timed_env_def sample_env_def)
  from identity_indexed [OF plain_nft_laws identity_start first_run auth _ typed native_codec page order.refl this run] first_mirrored
  have "agents_mirrored plain_nft (utf8_decode native_sdk) first_identity 5 (w_db w')"
    by (simp add: h delivered_all sample_world_def)
  moreover from this have "table_agents (w_db w') 0 = chain_agents plain_nft first_identity 0" by (simp add: agents_mirrored_def)
  ultimately show ?thesis using run by (simp add: chain_agents_def first_identity_def find_owner_def plain_nft_def)
qed

end
