(* ===== verification/Contract_Feedback_Indexed.thy ===== *)
theory Contract_Feedback_Indexed
  imports Contract_Pages
begin

text \<open>
  The feedback tables mirror the reputation registry: every feedback entry with its value, decimals, tags and whether it was revoked, and the number
  of responses to it. No order of the ledgers is needed here: an entry is created once and revoked once.
\<close>

section \<open>The two sides\<close>

type_synonym feedback_facts = "string \<times> int \<times> string option \<times> string option \<times> bool"
type_synonym feedback_view = "(feedback_key \<rightharpoonup> feedback_facts) \<times> (feedback_key \<Rightarrow> nat)"

definition row_facts :: "feedback_row \<Rightarrow> feedback_facts" where
  "row_facts r = (f_value r, f_decimals r, f_tag1 r, f_tag2 r, f_revoked r)"

definition table_feedback :: "db \<Rightarrow> feedback_view" where
  "table_feedback d = (\<lambda>k. map_option row_facts (map_of (feedback d) k), \<lambda>k. length (filter (\<lambda>r. r_key r = k) (responses d)))"

definition data_facts :: "FeedbackData \<Rightarrow> feedback_facts" where
  "data_facts fb = (show_int (fd_value fb), int (fd_decimals fb), or_null (fd_tag1 fb), or_null (fd_tag2 fb), fd_revoked fb)"

definition chain_feedback :: "reputation \<Rightarrow> feedback_view" where
  "chain_feedback st =
     (\<lambda>(a, c, i). if a < 0 \<or> i < 0 then None else map_option data_facts (rp_feedback st (nat a, c, nat i)),
      \<lambda>(a, c, i). if a < 0 \<or> i < 0 then 0 else get_response_count st (nat a) c (nat i))"

text \<open>A row with a revocation ledger is revoked.\<close>

definition revoked_marked :: "db \<Rightarrow> bool" where
  "revoked_marked d \<longleftrightarrow> (\<forall>k r. map_of (feedback d) k = Some r \<longrightarrow> f_revoked_ledger r \<noteq> None \<longrightarrow> f_revoked r)"

definition feedback_mirrored :: "reputation \<Rightarrow> db \<Rightarrow> bool" where
  "feedback_mirrored st d \<longleftrightarrow> table_feedback d = chain_feedback st \<and> revoked_marked d"

definition response_ids :: "db \<Rightarrow> string set" where
  "response_ids d = {eid. \<exists>r \<in> set (responses d). r_event_id r = Some eid}"

lemma response_ids_cong: "responses d' = responses d \<Longrightarrow> response_ids d' = response_ids d"
  by (simp add: response_ids_def)

section \<open>What an event does to the view\<close>

fun view_feedback :: "parsed_event \<Rightarrow> feedback_view \<Rightarrow> feedback_view" where
  "view_feedback (NewFeedback a c i v d t1 t2 ep u h b) (F, R) =
     (if F (a, c, i) = None then F((a, c, i) \<mapsto> (show_int v, d, or_null t1, or_null t2, False)) else F, R)"
| "view_feedback (FeedbackRevoked a c i b) (F, R) =
     (F((a, c, i) := map_option (\<lambda>(v, d, t1, t2, r). (v, d, t1, t2, True)) (F (a, c, i))), R)"
| "view_feedback (ResponseAppended a c r i u h b eid) (F, R) = (F, R((a, c, i) := R (a, c, i) + 1))"
| "view_feedback e v = v"

interpretation feedback_events: event_view view_feedback
proof
  fix dec b eid ce e x
  assume "read_as dec b eid ce = Some e" "read_as dec nowhere [] ce = Some x"
  then show "view_feedback e = view_feedback x" by (cases ce) (auto simp: fun_eq_iff)
qed

fun event_number :: "parsed_event \<Rightarrow> int" where
  "event_number (NewFeedback a c i v d t1 t2 ep u h b) = i"
| "event_number (FeedbackRevoked a c i b) = i"
| "event_number (ResponseAppended a c r i u h b eid) = i"
| "event_number e = 0"

fun response_id :: "parsed_event \<Rightarrow> string option" where
  "response_id (ResponseAppended a c r i u h b eid) = Some eid"
| "response_id e = None"

lemma affinity_small: "0 \<le> i \<Longrightarrow> i < 2 ^ 63 \<Longrightarrow> int_affinity i = i"
  by (simp add: int_affinity_def)

lemma revoke_view:
  assumes "update_row feedback_check feedback put_feedback k (\<lambda>r. ledger_guard (f_revoked_ledger r) l) (set_revoked l) d = Inr (d', n)" "revoked_marked d"
  shows "table_feedback d' = (case table_feedback d of (F, R) \<Rightarrow> (F(k := map_option (\<lambda>(v, d, t1, t2, r). (v, d, t1, t2, True)) (F k)), R)) \<and>
    revoked_marked d' \<and> responses d' = responses d"
proof (cases "map_of (feedback d) k")
  case None
  with assms show ?thesis by (auto simp: update_row_def table_feedback_def fun_eq_iff)
next
  case (Some r)
  show ?thesis
  proof (cases "ledger_guard (f_revoked_ledger r) l")
    case True
    with Some assms have d': "d' = put_feedback (AList.update k (set_revoked l r) (feedback d)) d" by (auto simp: update_row_def split: if_splits)
    with assms(2) Some show ?thesis
      by (auto simp: put_feedback_def table_feedback_def update_conv' fun_eq_iff row_facts_def set_revoked_def revoked_marked_def)
  next
    case False
    then have "f_revoked_ledger r \<noteq> None" by (auto simp: ledger_guard_def split: option.splits)
    then have "f_revoked r" using assms(2) Some unfolding revoked_marked_def by blast
    moreover have "d' = d" using assms(1) Some False by (simp add: update_row_def)
    ultimately show ?thesis using Some assms(2) by (auto simp: table_feedback_def fun_eq_iff row_facts_def)
  qed
qed

lemma exec_feedback_view:
  assumes "eventStatement dp e now = Inr s" "exec_stmt clk s d = Inr (d', n)" "revoked_marked d" "event_contract e = Reputation"
    and "0 \<le> event_number e" "event_number e < 2 ^ 63" "\<forall>eid. response_id e = Some eid \<longrightarrow> eid \<notin> response_ids d"
  shows "table_feedback d' = view_feedback e (table_feedback d) \<and> revoked_marked d' \<and> response_ids d' \<subseteq> response_ids d \<union> {eid. response_id e = Some eid}"
proof (cases e)
  case (NewFeedback a c i v dc t1 t2 ep u h b)
  with assms(1,2) have "responses d' = responses d" by (auto simp: sbind_eq_Inr insert_row_def put_feedback_def split: if_splits)
  from response_ids_cong [OF this] show ?thesis using assms(1,2,3,5,6) NewFeedback
    by (auto simp: sbind_eq_Inr affinity_small insert_row_def put_feedback_def has_def table_feedback_def row_facts_def update_conv'
        revoked_marked_def fun_eq_iff split: if_splits)
next
  case (FeedbackRevoked a c i b)
  with assms(1,2,5,6) have "update_row feedback_check feedback put_feedback (a, c, i) (\<lambda>r. ledger_guard (f_revoked_ledger r) (b_ledger b))
      (set_revoked (b_ledger b)) d = Inr (d', n)"
    by (auto simp: affinity_small)
  from revoke_view [OF this assms(3)] show ?thesis using response_ids_cong [of d' d] by (auto simp: FeedbackRevoked split: prod.splits)
next
  case (ResponseAppended a c r i u h b eid)
  with assms(7) have "\<forall>x \<in> set (responses d). r_event_id x \<noteq> Some eid" by (auto simp: response_ids_def)
  with ResponseAppended assms(1,2,5,6) obtain row where row: "d' = d\<lparr>responses := responses d @ [row]\<rparr>" "r_key row = (a, c, i)" "r_event_id row = Some eid"
    by (fastforce simp: sbind_eq_Inr affinity_small Let_def split: if_splits)
  then have "response_ids d' = insert eid (response_ids d)" by (auto simp: response_ids_def)
  moreover have "table_feedback d' = view_feedback e (table_feedback d)" using row(2) by (auto simp: ResponseAppended row(1) table_feedback_def fun_eq_iff)
  moreover have "revoked_marked d'" using assms(3) by (simp add: row(1) revoked_marked_def)
  ultimately show ?thesis by (auto simp: ResponseAppended)
qed (use assms(4) in auto)

definition page_ok :: "event_packet list \<Rightarrow> db \<Rightarrow> bool" where
  "page_ok ps d \<longleftrightarrow> revoked_marked d \<and> distinct (map pk_id ps) \<and>
     (\<forall>p \<in> set ps. event_contract (pk_data p) = Reputation \<and> 0 \<le> event_number (pk_data p) \<and> event_number (pk_data p) < 2 ^ 63 \<and>
        (\<forall>eid. response_id (pk_data p) = Some eid \<longrightarrow> eid = pk_id p \<and> eid \<notin> response_ids d))"

lemma exec_page_ok:
  assumes "page_ok (p # ps) d" "eventStatement dp (pk_data p) now = Inr s" "exec_stmt clk s d = Inr (d1, n)"
  shows "page_ok ps d1 \<and> table_feedback d1 = view_feedback (pk_data p) (table_feedback d)"
proof -
  have one: "table_feedback d1 = view_feedback (pk_data p) (table_feedback d)" "revoked_marked d1"
      "response_ids d1 \<subseteq> response_ids d \<union> {eid. response_id (pk_data p) = Some eid}"
    using exec_feedback_view [OF assms(2,3)] assms(1) by (simp_all add: page_ok_def)
  have "eid = pk_id q \<and> eid \<notin> response_ids d1" if "q \<in> set ps" "response_id (pk_data q) = Some eid" for q eid
  proof -
    have "eid = pk_id q" "eid \<notin> response_ids d" using assms(1) that by (auto simp: page_ok_def)
    moreover have "pk_id p \<notin> pk_id ` set ps" using assms(1) by (simp add: page_ok_def)
    then have "pk_id q \<noteq> pk_id p" using that(1) by (metis imageI)
    moreover have "response_id (pk_data p) = Some eid \<Longrightarrow> eid = pk_id p" using assms(1) by (auto simp: page_ok_def)
    ultimately show ?thesis using one(3) by auto
  qed
  with one(1,2) assms(1) show ?thesis by (simp add: page_ok_def)
qed

section \<open>What a call does to the storage\<close>

lemma feedback_call_view:
  assumes spec: "reputation_spec dir e st st' evs" and inv: "reputation_inv st"
  shows "fold view_feedback (bare dec evs) (chain_feedback st) = chain_feedback st'"
  using spec
proof cases
  case (spec_feedback c f a st1 i)
  have keeps: "rp_responses st1 = rp_responses st" using spec_feedback(8) add_client_keeps by (auto split: if_splits)
  have "rp_feedback st (a, c, i) = None"
    using inv spec_feedback(9) unfolding reputation_inv_def numbered_def by (metis add_le_same_cancel1 not_one_le_zero)
  then show ?thesis
    by (auto simp: spec_feedback(1,11) chain_feedback_def data_facts_def get_response_count_def keeps fun_eq_iff split: if_splits)
next
  case (spec_revoke c a i data)
  then show ?thesis by (auto simp: chain_feedback_def data_facts_def get_response_count_def fun_eq_iff split: if_splits)
next
  case (spec_response c uri a client i data n h)
  then show ?thesis by (auto simp: chain_feedback_def get_response_count_def fun_eq_iff split: if_splits)
next
  case (spec_reputation_upgrade u s)
  then show ?thesis by (simp add: chain_feedback_def get_response_count_def fun_eq_iff)
qed

section \<open>Histories\<close>

definition reputation_events :: "reputation_history \<Rightarrow> contract_event list" where
  "reputation_events h = concat (map (\<lambda>(dir, e, c, evs). evs) h)"

lemma reputation_events_simps [simp]:
  "reputation_events [] = []" "reputation_events (h @ [(dir, e, c, evs)]) = reputation_events h @ evs"
  by (simp_all add: reputation_events_def)

lemma feedback_history_view:
  assumes "reputation_run st0 h st" "reputation_inv st0"
  shows "fold view_feedback (bare dec (reputation_events h)) (chain_feedback st0) = chain_feedback st \<and>
    list_all event_checked (reputation_events h) \<and> (\<forall>ce \<in> set (reputation_events h). published_by ce = Reputation)"
  using assms(1)
proof (induction rule: reputation_run.induct)
  case (reputation_next h st1 dir e c st2 evs)
  have spec: "reputation_spec dir e st1 st2 evs" by (rule exec_reputation_spec [OF reputation_next(2)])
  have "reputation_inv st1" by (rule reputation_run_inv [OF reputation_next(1) assms(2)])
  with reputation_next(3) feedback_call_view [OF spec] reputation_checked [OF spec] show ?case by auto
qed simp

fun published_number :: "contract_event \<Rightarrow> nat" where
  "published_number (Ev_NewFeedback a c i v d t1 t2 ep uri h) = i"
| "published_number (Ev_FeedbackRevoked a c i) = i"
| "published_number (Ev_ResponseAppended a c r i uri h) = i"
| "published_number ce = 0"

lemma read_page_numbers:
  assumes "length ces = length evs" "list_all (\<lambda>ce. published_number ce < 2 ^ 63) ces"
  shows "\<forall>p \<in> set (read_page sdk ces evs). 0 \<le> event_number (pk_data p) \<and> event_number (pk_data p) < 2 ^ 63 \<and>
    (\<forall>eid. response_id (pk_data p) = Some eid \<longrightarrow> eid = pk_id p) \<and> pk_id p \<in> ev_id ` set evs"
  using assms
proof (induction ces evs rule: list_induct2)
  case (Cons ce ces ev evs)
  have "read_as dec b eid ce = Some e \<Longrightarrow> event_number e = int (published_number ce) \<and> (\<forall>x. response_id e = Some x \<longrightarrow> x = eid)" for dec b eid e
    by (cases ce) (auto split: if_splits)
  note one = this [of "utf8_decode sdk" "event_base ev" "ev_id ev"]
  show ?case
  proof (cases "read_as (utf8_decode sdk) (event_base ev) (ev_id ev) ce")
    case None
    with Cons show ?thesis by (simp add: read_page_Cons)
  next
    case (Some e)
    with one [OF Some] Cons show ?thesis by (simp add: read_page_Cons)
  qed
qed simp

lemma read_page_ids:
  assumes "length ces = length evs" "distinct (map ev_id evs)"
  shows "distinct (map pk_id (read_page sdk ces evs)) \<and> set (map pk_id (read_page sdk ces evs)) \<subseteq> set (map ev_id evs)"
  using assms
proof (induction ces evs rule: list_induct2)
  case (Cons ce ces ev evs)
  then show ?case by (cases "read_as (utf8_decode sdk) (event_base ev) (ev_id ev) ce") (auto simp: read_page_Cons)
qed simp

lemma core_feedback: "table_feedback (core d) = table_feedback d" "revoked_marked (core d) = revoked_marked d" "response_ids (core d) = response_ids d"
  by (simp_all add: table_feedback_def revoked_marked_def response_ids_def)

text \<open>C10. The feedback tables are the storage of the reputation registry. Start with a registry that calls have reached and tables that mirror it: the same
  feedback entries with the same value, decimals, tags and revocation, and as many responses to each. Let any further calls succeed, with feedback
  numbers below $2^{63}$. If the server delivers the events they published, under event ids the tables do not know, and \<open>writeEvents\<close> writes them without deferring,
  then the tables mirror the registry again.\<close>

theorem reputation_indexed:
  assumes "reputation_run new_reputation h0 st0" "reputation_run st0 h st" "list_all event_typed (reputation_events h)"
    and "list_all (\<lambda>ce. published_number ce < 2 ^ 63) (reputation_events h)" "list_all2 (carries sdk) (reputation_events h) evs" "utf8_codec sdk enc"
    and "distinct (map ev_id evs)" "\<forall>ev \<in> set evs. ev_id ev \<notin> response_ids (w_db w)"
    and "infra_faults env" "writeEvents env sdk Reputation evs False w = (Inr (p, s, False), w')"
    and "feedback_mirrored st0 (w_db w)"
  shows "feedback_mirrored st (w_db w')"
proof -
  let ?dec = "utf8_decode sdk" and ?ces = "reputation_events h"
  let ?ps = "read_page sdk ?ces evs"
  have inv: "reputation_inv st0" by (rule reachable_reputation [OF assms(1)])
  note hist = feedback_history_view [OF assms(2) inv, of ?dec]
  have fits: "list_all event_fits ?ces" using hist assms(3) by (simp add: event_fits_def list_all_iff)
  have len: "length ?ces = length evs" using assms(5) by (rule list_all2_lengthD)
  obtain now css where css: "smap (\<lambda>p. eventStatement (e_date env) (pk_data p) now) (parentsFirst ?ps) = Inr (map snd css)"
      "run_seq css (core (w_db w)) = Inr (core (w_db w'))"
    using page_written [OF assms(9,10,5) fits _ assms(6)] hist by blast
  have other: "\<forall>p \<in> set ?ps. event_contract (pk_data p) = Reputation" using read_page_contract [of ?ces Reputation] hist by blast
  then have order: "parentsFirst ?ps = ?ps" by (intro other_parentsFirst) auto
  have pages: "\<forall>p \<in> set ?ps. event_contract (pk_data p) = Reputation \<and> 0 \<le> event_number (pk_data p) \<and> event_number (pk_data p) < 2 ^ 63 \<and>
      (\<forall>eid. response_id (pk_data p) = Some eid \<longrightarrow> eid = pk_id p \<and> eid \<notin> response_ids (core (w_db w)))"
    using other read_page_numbers [OF len assms(4), of sdk] assms(8) by (fastforce simp: core_feedback)
  have start: "table_feedback (core (w_db w)) = chain_feedback st0" "revoked_marked (core (w_db w))"
    using assms(11) by (simp_all add: feedback_mirrored_def core_feedback)
  have "page_ok ?ps (core (w_db w))" using pages start(2) read_page_ids [OF len assms(7), of sdk] by (simp add: page_ok_def)
  from run_fold [where I = page_ok and seen = table_feedback and view = view_feedback, OF css [unfolded order] this exec_page_ok]
  have "table_feedback (core (w_db w')) = fold view_feedback (map pk_data ?ps) (chain_feedback st0) \<and> revoked_marked (core (w_db w'))"
    by (simp add: start(1) page_ok_def)
  moreover have "fold view_feedback (map pk_data ?ps) v = fold view_feedback (bare ?dec ?ces) v" for v
    using hist by (intro feedback_events.other_page_fold [OF len, of Reputation]) auto
  ultimately show ?thesis using hist by (simp add: feedback_mirrored_def core_feedback)
qed

text \<open>An example: one rating of the agent of the table.\<close>

definition rating :: contract_event where
  "rating = Ev_NewFeedback 0 sample_validator 1 95 0 ''starred'' [] [] [] (replicate 32 0)"

lemma rated:
  obtains st where "reputation_run new_reputation [(sample_directory 2, signed_call, Call_give_feedback sample_validator sample_args, [rating])] st"
    and "rp_feedback st (0, sample_validator, 1) = Some sample_data"
proof -
  have "\<not> dr_authorized (sample_directory 2) sample_validator 0"
    using validator_not_A by (simp add: sample_directory_def directory_of_def is_authorized_or_owner_def sample_identity_def plain_nft_def find_owner_def)
  then have "\<exists>st. exec_reputation (sample_directory 2) signed_call (Call_give_feedback sample_validator sample_args) new_reputation = Inr (st, [rating]) \<and>
      rp_feedback st (0, sample_validator, 1) = Some sample_data"
    by (simp add: give_feedback_def sample_args_def MAX_ABS_VALUE_def client_exists_def add_client_def get_client_count_def get_last_index_def
        new_reputation_def checked_u32_def checked_u64_def or_fail_def demand_def require_auth_def signed_call_def rating_def sample_data_def)
  then show ?thesis using that reputation_next [OF reputation_start] by fastforce
qed

lemma rating_written:
  obtains w' p s where "writeEvents timed_env native_sdk Reputation [delivered rating] False (sample_world agent_db) = (Inr (p, s, False), w')"
proof -
  obtain closed where closed: "pgTime (e_date timed_env) (b_closedAt (event_base (delivered rating))) = Inr closed" using timed_closed by blast
  let ?e = "NewFeedback 0 sample_validator 1 95 0 ''starred'' [] [] [] (hex (replicate 32 0)) (event_base (delivered rating))"
  have "event_fits rating" by (simp add: rating_def event_fits_def event_typed_def)
  from published_event_read [OF delivered_carries this native_codec]
  have read: "interpret_contract native_sdk Reputation (delivered rating) = Parsed ?e" by (simp add: rating_def)
  show ?thesis
  proof (rule single_written [OF read])
    show "eventStatement (e_date timed_env) ?e = (\<lambda>now. Inr (Sql_newFeedback 0 sample_validator 1 (show_int 95) 0 (or_null ''starred'') (or_null []) (or_null [])
        (or_null []) (or_null (hex (replicate 32 0))) closed (b_ledger (event_base (delivered rating))) (b_txHash (event_base (delivered rating)))))"
      by (simp add: closed fun_eq_iff)
    show "\<exists>d'. exec_stmt clk (Sql_newFeedback 0 sample_validator 1 (show_int 95) 0 (or_null ''starred'') (or_null []) (or_null [])
        (or_null []) (or_null (hex (replicate 32 0))) closed (b_ledger (event_base (delivered rating))) (b_txHash (event_base (delivered rating)))) agent_db = Inr (d', 1)"
      for clk
      using valid_address_short [OF sample_validator_valid]
      by (simp add: insert_row_def has_def agent_db_def sample_db_def feedback_check_def text_cap_def affinity_small show_int_value_check)
  qed (rule that)
qed

theorem reputation_indexed_witness:
  "\<exists>st w' p s. rp_feedback st (0, sample_validator, 1) = Some sample_data \<and>
     writeEvents timed_env native_sdk Reputation [delivered rating] False (sample_world agent_db) = (Inr (p, s, False), w') \<and>
     feedback_mirrored st (w_db w') \<and> fst (table_feedback (w_db w')) (0, sample_validator, 1) = Some (show_int 95, 0, Some ''starred'', None, False)"
proof -
  obtain st where st: "reputation_run new_reputation [(sample_directory 2, signed_call, Call_give_feedback sample_validator sample_args, [rating])] st"
      "rp_feedback st (0, sample_validator, 1) = Some sample_data"
    by (rule rated)
  obtain w' p s where run: "writeEvents timed_env native_sdk Reputation [delivered rating] False (sample_world agent_db) = (Inr (p, s, False), w')"
    by (rule rating_written)
  let ?h = "[(sample_directory 2, signed_call, Call_give_feedback sample_validator sample_args, [rating])]"
  have h: "reputation_events ?h = [rating]" by (simp add: reputation_events_def)
  have ok: "list_all event_typed (reputation_events ?h)" "list_all (\<lambda>ce. published_number ce < 2 ^ 63) (reputation_events ?h)"
    unfolding h by (simp_all add: rating_def event_typed_def)
  have page: "list_all2 (carries native_sdk) (reputation_events ?h) [delivered rating]" unfolding h using delivered_carries by simp
  have fresh: "\<forall>ev \<in> set [delivered rating]. ev_id ev \<notin> response_ids (w_db (sample_world agent_db))"
    by (simp add: response_ids_def sample_world_def agent_db_def sample_db_def)
  have "feedback_mirrored new_reputation (w_db (sample_world agent_db))"
    by (simp add: feedback_mirrored_def table_feedback_def chain_feedback_def revoked_marked_def sample_world_def agent_db_def sample_db_def new_reputation_def
        get_response_count_def fun_eq_iff)
  from reputation_indexed [OF reputation_start st(1) ok page native_codec _ fresh timed_infra run this]
  have m: "feedback_mirrored st (w_db w')" by simp
  then have "fst (table_feedback (w_db w')) (0, sample_validator, 1) = Some (data_facts sample_data)"
    using st(2) by (simp add: feedback_mirrored_def chain_feedback_def)
  with m run st(2) show ?thesis by (auto simp: data_facts_def sample_data_def or_null_def)
qed

end
