(* ===== verification/Contract_Validation_Indexed.thy ===== *)
theory Contract_Validation_Indexed
  imports Contract_Pages
begin

text \<open>
  The validations table mirrors the validation registry: every request with its agent and validator, and the current response with its hash and tag.
  A validator may answer again, so the order of the ledgers matters: a response must not lose against an older one.
\<close>

section \<open>The two sides\<close>

type_synonym validation_facts = "int \<times> string \<times> int option \<times> string option \<times> string option \<times> bool"
type_synonym validation_view = "string \<rightharpoonup> validation_facts"

definition request_facts :: "validation_row \<Rightarrow> validation_facts" where
  "request_facts r = (v_agent r, v_validator r, v_response r, v_response_hash r, v_tag r, v_has_response r)"

definition table_validations :: "db \<Rightarrow> validation_view" where
  "table_validations d k = map_option request_facts (map_of (validations d) k)"

definition status_facts :: "ValidationStatus \<Rightarrow> validation_facts" where
  "status_facts s = (if vs_has_response s
     then (int (vs_agent s), vs_validator s, Some (int (vs_response s)), or_null (hex (vs_response_hash s)), or_null (vs_tag s), True)
     else (int (vs_agent s), vs_validator s, None, None, None, False))"

definition chain_validations :: "validation \<Rightarrow> validation_view" where
  "chain_validations st k = (if hex (unhex k) = k then map_option status_facts (vl_status st (unhex k)) else None)"

definition answered_upto :: "int \<Rightarrow> db \<Rightarrow> bool" where
  "answered_upto l d \<longleftrightarrow> (\<forall>k r. map_of (validations d) k = Some r \<longrightarrow> ledger_guard (v_response_ledger r) l)"

definition validations_mirrored :: "validation \<Rightarrow> int \<Rightarrow> db \<Rightarrow> bool" where
  "validations_mirrored st l d \<longleftrightarrow> table_validations d = chain_validations st \<and> answered_upto l d"

lemma answered_upto_mono: "answered_upto l d \<Longrightarrow> l \<le> l' \<Longrightarrow> answered_upto l' d"
  by (fastforce simp: answered_upto_def ledger_guard_def split: option.splits)

section \<open>What an event does to the view\<close>

fun view_validation :: "parsed_event \<Rightarrow> validation_view \<Rightarrow> validation_view" where
  "view_validation (ValidationRequest v a h u b) V = (if V h = None then V(h \<mapsto> (a, v, None, None, None, False)) else V)"
| "view_validation (ValidationResponse v a h r u rh t b) V =
     V(h := map_option (\<lambda>(a, v, _). (a, v, Some r, or_null rh, or_null t, True)) (V h))"
| "view_validation e V = V"

interpretation validation_events: event_view view_validation
proof
  fix dec b eid ce e x
  assume "read_as dec b eid ce = Some e" "read_as dec nowhere [] ce = Some x"
  then show "view_validation e = view_validation x" by (cases ce) (auto simp: fun_eq_iff)
qed

lemma answer_view:
  assumes "update_row validation_check validations put_validations h (\<lambda>r. ledger_guard (v_response_ledger r) l)
      (set_response x uri rh tag time tx l) d = Inr (d', n)" "answered_upto l d"
  shows "table_validations d' = (table_validations d)(h := map_option (\<lambda>(a, v, _). (a, v, Some x, rh, tag, True)) (table_validations d h)) \<and> answered_upto l d'"
proof (cases "map_of (validations d) h")
  case None
  with assms show ?thesis by (auto simp: update_row_def table_validations_def fun_eq_iff)
next
  case (Some r)
  then have "ledger_guard (v_response_ledger r) l" using assms(2) by (simp add: answered_upto_def)
  with Some assms(1) have "d' = put_validations (AList.update h (set_response x uri rh tag time tx l r) (validations d)) d"
    by (auto simp: update_row_def split: if_splits)
  with Some assms(2) show ?thesis
    by (auto simp: put_validations_def table_validations_def update_conv' fun_eq_iff request_facts_def set_response_def answered_upto_def ledger_guard_def)
qed

lemma exec_validation_view:
  assumes "eventStatement dp e now = Inr s" "exec_stmt clk s d = Inr (d', n)" "answered_upto (b_ledger (base e)) d" "event_contract e = Validation"
  shows "table_validations d' = view_validation e (table_validations d) \<and> answered_upto (b_ledger (base e)) d'"
proof (cases e)
  case (ValidationRequest v a h u b)
  with assms(1-3) show ?thesis
    by (auto simp: sbind_eq_Inr insert_row_def put_validations_def has_def table_validations_def request_facts_def update_conv'
        answered_upto_def ledger_guard_def fun_eq_iff split: if_splits)
next
  case (ValidationResponse v a h r u rh t b)
  with assms(1,2) obtain time where "update_row validation_check validations put_validations h (\<lambda>r. ledger_guard (v_response_ledger r) (b_ledger b))
      (set_response r (or_null u) (or_null rh) (or_null t) time (b_txHash b) (b_ledger b)) d = Inr (d', n)"
    by (auto simp: sbind_eq_Inr)
  from answer_view [OF this] assms(3) show ?thesis by (simp add: ValidationResponse)
qed (use assms(4) in auto)

text \<open>The packets that are left, in ledger order, from a ledger no stored response is beyond.\<close>

definition answers_ok :: "int \<Rightarrow> event_packet list \<Rightarrow> db \<Rightarrow> bool" where
  "answers_ok l' ps d \<longleftrightarrow> (\<exists>l \<le> l'. answered_upto l d \<and> sorted (map (\<lambda>p. b_ledger (base (pk_data p))) ps) \<and>
     (\<forall>p \<in> set ps. event_contract (pk_data p) = Validation \<and> l \<le> b_ledger (base (pk_data p)) \<and> b_ledger (base (pk_data p)) \<le> l'))"

lemma exec_answers_ok:
  assumes "answers_ok l' (p # ps) d" "eventStatement dp (pk_data p) now = Inr s" "exec_stmt clk s d = Inr (d1, n)"
  shows "answers_ok l' ps d1 \<and> table_validations d1 = view_validation (pk_data p) (table_validations d)"
proof -
  let ?l = "b_ledger (base (pk_data p))"
  have "answered_upto ?l d" "event_contract (pk_data p) = Validation" "?l \<le> l'" using assms(1) answered_upto_mono by (auto simp: answers_ok_def)
  with exec_validation_view [OF assms(2,3)] assms(1) show ?thesis by (auto simp: answers_ok_def intro!: exI [of _ ?l])
qed

section \<open>What a call does to the storage\<close>

lemma hex_inj [simp]: "hex h = hex h' \<longleftrightarrow> h = h'"
  by (metis unhex_hex)

lemma chain_hex [simp]: "chain_validations st (hex h) = map_option status_facts (vl_status st h)"
  by (simp add: chain_validations_def unhex_hex)

lemma chain_upd:
  assumes "vl_status st' = (vl_status st)(h \<mapsto> s)"
  shows "chain_validations st' = (chain_validations st)(hex h \<mapsto> status_facts s)"
proof
  fix k show "chain_validations st' k = ((chain_validations st)(hex h \<mapsto> status_facts s)) k"
    by (cases "k = hex h") (auto simp: assms chain_validations_def unhex_hex)
qed

lemma validation_call_view:
  assumes "validation_spec dir e st st' evs"
  shows "fold view_validation (bare dec evs) (chain_validations st) = chain_validations st'"
  using assms
proof cases
  case (spec_request c a owner h s v st1 uri)
  have "vl_status st' = (vl_status st)(h \<mapsto> s)"
    using spec_request(7,8) by (auto simp: add_agent_validation_def add_validator_request_def set_validation_def Let_def split: option.splits)
  from chain_upd [OF this] show ?thesis using spec_request(5,6) by (simp add: spec_request(1) status_facts_def)
next
  case (spec_answer s h r tag rh uri)
  have "vl_status st' = (vl_status st)(h \<mapsto> s\<lparr>vs_response := r, vs_response_hash := rh, vs_tag := tag, vs_last_update := ce_sequence e, vs_has_response := True\<rparr>)"
    by (simp add: spec_answer(1) set_validation_def)
  from chain_upd [OF this] show ?thesis using spec_answer(4) by (simp add: spec_answer(2) status_facts_def)
next
  case (spec_validation_upgrade u s)
  then show ?thesis by (simp add: chain_validations_def fun_eq_iff)
qed

section \<open>Histories\<close>

definition validation_published :: "validation_history \<Rightarrow> contract_event list" where
  "validation_published h = concat (map (\<lambda>(dir, e, c, evs). evs) h)"

lemma validation_published_simps [simp]:
  "validation_published [] = []" "validation_published (h @ [(dir, e, c, evs)]) = validation_published h @ evs"
  by (simp_all add: validation_published_def)

lemma validation_history_view:
  assumes "validation_run st0 h st"
  shows "fold view_validation (bare dec (validation_published h)) (chain_validations st0) = chain_validations st \<and>
    list_all event_checked (validation_published h) \<and> (\<forall>ce \<in> set (validation_published h). published_by ce = Validation)"
  using assms
proof (induction rule: validation_run.induct)
  case (validation_next h st1 dir e c st2 evs)
  have spec: "validation_spec dir e st1 st2 evs" by (rule exec_validation_spec [OF validation_next(2)])
  from validation_next(3) validation_call_view [OF spec] validation_checked [OF spec] show ?case by auto
qed simp

lemma core_validations: "table_validations (core d) = table_validations d" "answered_upto l (core d) = answered_upto l d"
  by (simp_all add: table_validations_def answered_upto_def fun_eq_iff)

text \<open>C11. The validations table is the storage of the validation registry. Start with a registry and a table that mirrors it, with no response beyond the
  ledger \<open>l\<close>: the same requests under their hashes, for the same agent and validator, with the same response, response hash and tag. Let any
  calls succeed, repeated responses included. If the server delivers their events in ledger order and \<open>writeEvents\<close> writes them without deferring, the table mirrors
  the registry again.\<close>

theorem validation_indexed:
  assumes "validation_run st0 h st" "list_all event_typed (validation_published h)" "list_all2 (carries sdk) (validation_published h) evs" "utf8_codec sdk enc"
    and "sorted (map ev_ledger evs)" "\<forall>ev \<in> set evs. l \<le> ev_ledger ev \<and> ev_ledger ev \<le> l'" "l \<le> l'"
    and "infra_faults env" "writeEvents env sdk Validation evs False w = (Inr (p, s, False), w')"
    and "validations_mirrored st0 l (w_db w)"
  shows "validations_mirrored st l' (w_db w')"
proof -
  let ?dec = "utf8_decode sdk" and ?ces = "validation_published h"
  let ?ps = "read_page sdk ?ces evs"
  note hist = validation_history_view [OF assms(1), of ?dec]
  have fits: "list_all event_fits ?ces" using hist assms(2) by (simp add: event_fits_def list_all_iff)
  have len: "length ?ces = length evs" using assms(3) by (rule list_all2_lengthD)
  obtain now css where css: "smap (\<lambda>p. eventStatement (e_date env) (pk_data p) now) (parentsFirst ?ps) = Inr (map snd css)"
      "run_seq css (core (w_db w)) = Inr (core (w_db w'))"
    using page_written [OF assms(8,9,3) fits _ assms(4)] hist by blast
  have other: "\<forall>p \<in> set ?ps. event_contract (pk_data p) = Validation" using read_page_contract [of ?ces Validation] hist by blast
  then have order: "parentsFirst ?ps = ?ps" by (intro other_parentsFirst) auto
  have start: "table_validations (core (w_db w)) = chain_validations st0" "answered_upto l (core (w_db w))"
    using assms(10) by (simp_all add: validations_mirrored_def core_validations)
  have "answers_ok l' ?ps (core (w_db w))"
    using other start(2) assms(6,7) read_page_ledgers [OF len assms(5), of sdk] by (fastforce simp: answers_ok_def)
  then have "answers_ok l' [] (core (w_db w')) \<and> table_validations (core (w_db w')) = fold view_validation (map pk_data ?ps) (table_validations (core (w_db w)))"
    by (rule run_fold [where I = "answers_ok l'", OF css [unfolded order]]) (rule exec_answers_ok)
  then have "table_validations (core (w_db w')) = fold view_validation (map pk_data ?ps) (chain_validations st0) \<and> answered_upto l' (core (w_db w'))"
    using answered_upto_mono by (auto simp: start(1) answers_ok_def)
  moreover have "fold view_validation (map pk_data ?ps) v = fold view_validation (bare ?dec ?ces) v" for v
    using hist by (intro validation_events.other_page_fold [OF len, of Validation]) auto
  ultimately show ?thesis using hist by (simp add: validations_mirrored_def core_validations)
qed

text \<open>An example: a request for the agent of the table.\<close>

definition asking :: contract_event where
  "asking = Ev_ValidationRequest sample_validator 0 sample_hash ''ipfs://q''"

lemma asking_run:
  obtains st where "validation_run new_validation [(sample_directory 3, sample_call 3, Call_validation_request ''A'' sample_validator 0 ''ipfs://q'' sample_hash, [asking])] st"
    and "map_option status_facts (vl_status st sample_hash) = Some (0, sample_validator, None, None, None, False)"
proof -
  have "\<exists>st. exec_validation (sample_directory 3) (sample_call 3) (Call_validation_request ''A'' sample_validator 0 ''ipfs://q'' sample_hash) new_validation =
      Inr (st, [asking]) \<and> map_option status_facts (vl_status st sample_hash) = Some (0, sample_validator, None, None, None, False)"
    by (simp add: validation_request_def require_auth_def demand_def or_fail_def sample_call_def sample_directory_def directory_of_def find_owner_def
        plain_nft_def sample_identity_def has_validation_def new_validation_def set_validation_def add_agent_validation_def add_validator_request_def
        get_agent_validation_count_def get_validator_request_count_def checked_u32_def asking_def status_facts_def)
  then show ?thesis using that validation_next [OF validation_start] by fastforce
qed

lemma asking_written:
  obtains w' p s where "writeEvents timed_env native_sdk Validation [delivered asking] False (sample_world agent_db) = (Inr (p, s, False), w')"
proof -
  obtain closed where closed: "pgTime (e_date timed_env) (b_closedAt (event_base (delivered asking))) = Inr closed" using timed_closed by blast
  let ?e = "ValidationRequest sample_validator 0 (hex sample_hash) ''ipfs://q'' (event_base (delivered asking))"
  have "event_fits asking" by (simp add: asking_def event_fits_def event_typed_def sample_hash_def)
  from published_event_read [OF delivered_carries this native_codec]
  have read: "interpret_contract native_sdk Validation (delivered asking) = Parsed ?e" by (simp add: asking_def)
  show ?thesis
  proof (rule single_written [OF read])
    show "eventStatement (e_date timed_env) ?e =
        (\<lambda>now. Inr (Sql_validationRequest (hex sample_hash) 0 sample_validator (or_null ''ipfs://q'') closed (b_txHash (event_base (delivered asking)))))"
      by (simp add: closed fun_eq_iff)
    show "\<exists>d'. exec_stmt clk (Sql_validationRequest (hex sample_hash) 0 sample_validator (or_null ''ipfs://q'') closed (b_txHash (event_base (delivered asking)))) agent_db =
        Inr (d', 1)" for clk
      using valid_address_short [OF sample_validator_valid]
      by (simp add: insert_row_def has_def agent_db_def sample_db_def validation_check_def text_cap_def length_hex sample_hash_def)
  qed (rule that)
qed

theorem validation_indexed_witness:
  "\<exists>st w' p s. writeEvents timed_env native_sdk Validation [delivered asking] False (sample_world agent_db) = (Inr (p, s, False), w') \<and>
     validations_mirrored st 5 (w_db w') \<and> table_validations (w_db w') (hex sample_hash) = Some (0, sample_validator, None, None, None, False)"
proof -
  let ?h = "[(sample_directory 3, sample_call 3, Call_validation_request ''A'' sample_validator 0 ''ipfs://q'' sample_hash, [asking])]"
  obtain st where st: "validation_run new_validation ?h st"
      "map_option status_facts (vl_status st sample_hash) = Some (0, sample_validator, None, None, None, False)"
    by (rule asking_run)
  obtain w' p s where run: "writeEvents timed_env native_sdk Validation [delivered asking] False (sample_world agent_db) = (Inr (p, s, False), w')"
    by (rule asking_written)
  have h: "validation_published ?h = [asking]" by (simp add: validation_published_def)
  have typed: "list_all event_typed (validation_published ?h)" unfolding h by (simp add: asking_def event_typed_def sample_hash_def)
  have page: "list_all2 (carries native_sdk) (validation_published ?h) [delivered asking]" unfolding h using delivered_carries by simp
  have led: "sorted (map ev_ledger [delivered asking])" "\<forall>ev \<in> set [delivered asking]. 5 \<le> ev_ledger ev \<and> ev_ledger ev \<le> 5"
    by (simp_all add: delivered_def sample_event_def)
  have "validations_mirrored new_validation 5 (w_db (sample_world agent_db))"
    by (simp add: validations_mirrored_def table_validations_def chain_validations_def answered_upto_def sample_world_def agent_db_def sample_db_def
        new_validation_def fun_eq_iff)
  from validation_indexed [OF st(1) typed page native_codec led order.refl timed_infra run this] run st(2) show ?thesis
    by (auto simp: validations_mirrored_def)
qed

end
