(* ===== verification/Spec2Isabelle.thy ===== *)
theory Spec2Isabelle
  imports Prelude Js_Runtime Chain_Helpers Timestamps Chain_Events Db_Schema Db_Invariant Db_Ops Db_Lock Db_Events Db_Replay
    Indexer Indexer_Safety Indexer_Scan Indexer_Props Indexer_Writes Uri Resolve Runner Leaderboard
    Base64 Api_Response Api_Handlers Api_Discovery Api_Router Sdk_Metadata Sdk_Core Sdk_Signer Sdk_Explorer
    Js_Numbers Web_Payments Web_Wallet Try_Agent Wallet_Repair Snapshot
    Web_Lists Web_Agent Web_Shell Web_Evidence Web_Forms Web_Controls
    Contract_Base Contract_Identity Contract_Reputation Contract_Validation Contract_Events Contract_Pages
    Contract_Indexed Contract_Feedback_Indexed Contract_Validation_Indexed
begin

text \<open>
  A verification of stellar8004: the agent registries for Stellar under \<open>contracts/\<close> and their explorer under \<open>webapp/\<close>.

  \<^bold>\<open>The program.\<close> Three Soroban contracts (identity, reputation, validation) emit events. The indexer, a Cloudflare worker run by cron
  (\<open>webapp/apps/indexer/src\<close>), reads them from a Stellar RPC server, writes them to a D1 (SQLite) database and resolves the documents behind the
  agents' URIs. The web application (\<open>webapp/apps/web/src\<close>) serves a public JSON API from that database. The SDK
  (\<open>webapp/packages/sdk/src\<close>) builds and stores agent documents, signs transactions with a browser wallet and reads the API.

  \<^bold>\<open>Groundwork.\<close> \<open>Prelude\<close> has results of code that may throw (\<open>string + 'a\<close>), actions on a world with their weakest
  preconditions (\<open>wp\<close>, the collection \<open>wp_rules\<close>), and shared facts on lists and association lists. \<open>Js_Runtime\<close> has JavaScript
  strings, numbers (53-bit rounding included) and values of type \<open>unknown\<close> (\<open>native\<close>). \<open>Base64\<close> has \<open>btoa\<close> and \<open>atob\<close>.

  \<^bold>\<open>Contracts.\<close> \<open>Contract_Base\<close> has what the three registries under \<open>contracts/\<close> share: calls that fail and roll back, published events, checked
  arithmetic, lists kept as a counter with one entry per index (locale \<open>counted_list\<close>), and the timelocked upgrade. \<open>Contract_Identity\<close>,
  \<open>Contract_Reputation\<close> and \<open>Contract_Validation\<close> (\<open>contracts/*/src/contract.rs\<close>, \<open>storage.rs\<close>) have their storage and every
  function, with a specification of what a call may do (\<open>identity_spec\<close>, \<open>reputation_spec\<close>, \<open>validation_spec\<close>) that the functions refine. The lemmas
  show who may change what, invariants of the reachable states, that the summaries are exact and that an upgrade waits. The
  identity registry as the other two see it is the locale \<open>agent_directory\<close>. \<open>Contract_Events\<close> has what the registries publish
  and that the parsers of the indexer read exactly that. \<open>Contract_Pages\<close> (locale \<open>event_view\<close>), \<open>Contract_Indexed\<close>, \<open>Contract_Feedback_Indexed\<close> and
  \<open>Contract_Validation_Indexed\<close> compose both sides: after the indexer has written the events of any sequence of calls, its tables mirror the
  storage of the registries.

  \<^bold>\<open>Events.\<close> \<open>Chain_Helpers\<close> (\<open>chain/helpers.ts\<close>) decodes event fields and checks Stellar addresses on 32-bit words, and proves the check to
  accept exactly the StrKey encodings. \<open>Chain_Events\<close> (\<open>chain/parsers/*.ts\<close>, \<open>chain/events.ts\<close>, \<open>chain/event-interpretation.ts\<close>) has the
  parsers: total, within the ranges the database relies on, and inverse to what the contracts emit. \<open>Timestamps\<close> has the stored time texts
  and that their text order is time order.

  \<^bold>\<open>Database.\<close> \<open>Db_Schema\<close> has the tables, constraints and statements (\<open>packages/d1/migrations/0001_init.sql\<close> and the SQL of \<open>db.ts\<close>) as
  \<open>exec_stmt\<close>; \<open>Db_Invariant\<close> shows that every statement and, by the locale \<open>transactional_store\<close>, every batch keeps the declared
  constraints. \<open>Db_Ops\<close> has the operations of \<open>db.ts\<close> as actions. \<open>Db_Lock\<close> has interleavings of overlapping runs as a step
  relation and proves the lock exclusive and the checkpoints monotone by rule induction. \<open>Db_Events\<close> shows how writing an event can fail;
  \<open>Db_Replay\<close>, by the locale \<open>guarded_column\<close>, that replays converge to the newest ledger,
  and within it to what was written last. \<open>Leaderboard\<close> has the score view and its exactness.

  \<^bold>\<open>Indexer.\<close> \<open>Indexer\<close> (\<open>indexer.ts\<close>) has the scan and the writing of pages; \<open>Indexer_Safety\<close>, \<open>Indexer_Scan\<close>, \<open>Indexer_Writes\<close> and
  \<open>Indexer_Props\<close> show what it never does, that it deals with every event once and in order against an RPC server that keeps its
  documented contract (\<open>honest\<close>), that a page that is not deferred is written completely, apart from events
  that break a constraint once skipping is armed, and that it ends. \<open>Uri\<close> (\<open>uri.ts\<close>) has URI
  resolution with its request log, so that no request goes to a private host. \<open>Resolve\<close> (\<open>resolve.ts\<close>) has the pending queue, with the
  locale \<open>agent_row_invariant\<close>, and \<open>Runner\<close> (\<open>index.ts\<close>) a whole run.

  \<^bold>\<open>API.\<close> \<open>Api_Response\<close> (\<open>lib/server/api/response.ts\<close>, \<open>serve.ts\<close>, \<open>rate-limit.ts\<close>), \<open>Api_Handlers\<close> (\<open>handlers.ts\<close>, \<open>search.ts\<close>),
  \<open>Api_Discovery\<close> (\<open>discovery.ts\<close>) and \<open>Api_Router\<close> (\<open>routes/api/**/+server.ts\<close>) have the handlers as functions of the database. The
  lemmas show sanitized texts, inert search terms, complete pages, and, by the locale \<open>keyset\<close> interpreted for the three orders, that a
  cursor walk visits every matching agent once while its cursors stay within Latin-1; the router answers every request and lets no traversal through.

  \<^bold>\<open>SDK.\<close> \<open>Sdk_Metadata\<close> (\<open>core/metadata.ts\<close>, \<open>storage/*.ts\<close>) shows that what the SDK publishes is what the indexer reads;
  \<open>Sdk_Core\<close> has \<open>core/helpers.ts\<close> and \<open>core/config.ts\<close>; \<open>Sdk_Signer\<close> (\<open>signers/freighter.ts\<close>) shows as an invariant of the reachable
  states that nothing is signed on the wrong network; \<open>Sdk_Explorer\<close> (\<open>api/explorer.ts\<close>) bounds the retries and shows that the client returns
  what the discovery API serves.

  \<^bold>\<open>Wallet and payments.\<close> \<open>Js_Numbers\<close> adds the number texts of JavaScript (\<open>Number\<close>, \<open>BigInt\<close>, \<open>toFixed\<close>). \<open>Web_Payments\<close>
  (\<open>lib/sdk-client.ts\<close>, \<open>lib/mpp-client.ts\<close>, \<open>lib/x402-client.ts\<close>, \<open>core/clients.ts\<close>) has the payment clients as actions over the signer;
  the locale \<open>call_policy\<close> carries what a payment may ask the wallet to sign: the transfer of an unexpired challenge, where the RPC prepares
  transactions as documented (\<open>honest_prepare\<close>). \<open>Web_Wallet\<close> (\<open>lib/wallet.svelte.ts\<close>) has the wallet state with
  its reachable states, and \<open>Try_Agent\<close> (\<open>TryAgentPanel.svelte\<close>) the paying panel as a step relation in which clicks, answers and
  loaded modules interleave at the awaits of the code.

  \<^bold>\<open>Pages.\<close> \<open>Web_Lists\<close>, \<open>Web_Agent\<close> and \<open>Web_Shell\<close> have the page loaders (\<open>routes/**/+page.server.ts\<close>, \<open>+layout.server.ts\<close>), the decoding of
  D1 rows (\<open>lib/server/d1.ts\<close>), the response hook (\<open>hooks.server.ts\<close>) and the helpers of the pages. The lemmas show that the five queries of
  the agent list are one filter and its pages complete, negative scores under a filter aside, that replies and counts of an agent page are those of the database, and that the
  layout agrees with the health endpoint. \<open>Web_Evidence\<close> (\<open>EvidenceViewer.svelte\<close>) and \<open>Web_Forms\<close> (\<open>FeedbackForm.svelte\<close>, \<open>ValidationForm.svelte\<close>,
  \<open>WalletBinding.svelte\<close>, the register, edit and agent pages) have the components that check evidence and send transactions, as step
  relations; the locale \<open>form_machine\<close> shows for each form that what it sends was checked, the address of a validation request
  excepted. \<open>Web_Controls\<close> has the filters of the agent list, the theme, the
  identicon and the parts of the registration form (\<open>components/register/*.svelte\<close>).

  \<^bold>\<open>Scripts.\<close> \<open>Wallet_Repair\<close> (\<open>wallets.ts\<close>, \<open>wallets-to-sql.ts\<close>) and \<open>Snapshot\<close> (\<open>snapshot-to-sql.ts\<close>) have the one-off scripts that print SQL;
  both give the printed text a reader and show what running it does to the tables. \<open>Snapshot\<close> runs it under the constraints of the schema and
  D1's limits, and shows that no statement on the way breaks one.

  \<^bold>\<open>Fuel and bounds.\<close> The only loop that takes fuel is the scan of the indexer, whose length depends on the RPC server. \<open>scan_terminates\<close> and
  \<open>run_terminates\<close> show that any fuel above the tick at which the clock has passed the deadline gives a result. All other loops are
  structural recursions.

  \<^bold>\<open>Parameters.\<close> Code outside the repository is an argument with its documented behaviour as a named hypothesis where a theorem needs it:
  the Stellar SDK (\<open>scValToNative\<close>, StrKey, RPC), JSON, text codecs, URL parsing, DNS, \<open>fetch\<close>, the clock, SQLite's full-text MATCH and
  double average, the Freighter extension, the payment protocol packages, and the OpenZeppelin base contracts of the registries (\<open>nft_laws\<close>). Strings are sequences of code units below 256.

  \<^bold>\<open>Not modelled.\<close> The lifetime of contract storage entries (only which entries an extension touches), the generated contract bindings, the markup and styles of the Svelte pages and components, the saved draft of the
  registration form, clipboard handling, logging, and the full-text index itself. The wall-clock limits of fetches are not modelled: a fetch succeeds or fails. Calls on one
  signer run one after the other, and overlapping runs of the indexer read the same clock.
\<close>

section \<open>Facts that span components\<close>

text \<open>The indexer scans the contracts that the SDK calls: the two copies of the mainnet addresses agree.\<close>

lemma same_contracts:
  "sc_identity (MAINNET_CONFIG p) = mainnet_contracts Identity" "sc_reputation (MAINNET_CONFIG p) = mainnet_contracts Reputation"
  "sc_validation (MAINNET_CONFIG p) = mainnet_contracts Validation"
  by (simp_all add: MAINNET_CONFIG_def)

text \<open>What discovery and the list endpoint say of an agent agrees, the clamped score aside.\<close>

lemma discovery_item_fields:
  assumes "k \<noteq> ''score''"
  shows "getProp (disc_item ap d x) k = getProp (agent_item ap d x) k"
  using assms by (simp add: disc_item_def agent_item_def getProp_def spread_def update_conv')

end
